(* ===== verification/Prelude.thy ===== *)
theory Prelude
  imports
    Main
    "HOL-Library.AList"
    "HOL-Library.Multiset"
    "HOL-Library.Char_ord"
    "HOL-Library.List_Lexorder"
    "HOL-Library.Product_Lexorder"
begin

text \<open>
  Shared vocabulary of the PLAIK Core development.

  \<^item> A Python \<open>dict\<close> is an association list with distinct keys, in insertion order:
    \<open>map_of\<close> is \<open>d.get\<close>, \<open>AList.update\<close> is \<open>d[k] = v\<close> (it overwrites in place or
    appends), \<open>AList.delete\<close> is \<open>del d[k]\<close> of a present key.
  \<^item> \<open>sorted(xs, key=f)\<close> is \<open>sort_key f xs\<close>, which is stable as Python's sort is; tuples
    and strings are compared lexicographically.
  \<^item> A \<open>datetime\<close> is naive or aware; an aware one is its instant in microseconds, a
    \<open>timedelta\<close> is a number of microseconds. Python's year-9999 overflow is not modelled.
  \<^item> A \<open>str\<close> is a list of characters; the characters are the code points below 256.
  \<^item> A raised exception is the left injection of a sum, a normal return the right one.
\<close>

named_theorems store_simps "unfoldings of the read and write helpers of the JSON stores"
named_theorems dict_simps "laws of insertion-ordered dictionaries"

subsection \<open>Dictionaries\<close>

type_synonym ('k, 'v) dict = "('k \<times> 'v) list"

definition dict_ok :: "('k, 'v) dict \<Rightarrow> bool" where
  "dict_ok d \<longleftrightarrow> distinct (map fst d)"

definition dict_values :: "('k, 'v) dict \<Rightarrow> 'v list" where
  "dict_values d = map snd d"

definition dict_sorted :: "('k::linorder, 'v) dict \<Rightarrow> ('k, 'v) dict" where
  "dict_sorted d = sort_key fst d"

definition dict_map :: "('v \<Rightarrow> 'w) \<Rightarrow> ('k, 'v) dict \<Rightarrow> ('k, 'w) dict" where
  "dict_map f d = map (\<lambda>(k, v). (k, f v)) d"

lemma dict_ok_Nil [simp]: "dict_ok []"
  by (simp add: dict_ok_def)

lemma dict_ok_update [simp]: "dict_ok d \<Longrightarrow> dict_ok (AList.update k v d)"
  by (simp add: dict_ok_def distinct_update)

lemma dict_ok_delete [simp]: "dict_ok d \<Longrightarrow> dict_ok (AList.delete k d)"
  by (simp add: dict_ok_def distinct_delete)

lemma dict_ok_filter [simp]: "dict_ok d \<Longrightarrow> dict_ok (filter P d)"
  by (simp add: dict_ok_def distinct_map_filter)

lemma dict_ok_sorted [simp]: "dict_ok (dict_sorted d) = dict_ok d"
proof -
  have "mset (map fst (dict_sorted d)) = mset (map fst d)"
    by (simp add: dict_sorted_def mset_map)
  then show ?thesis unfolding dict_ok_def by (rule mset_eq_imp_distinct_iff)
qed

lemma set_dict_sorted [simp]: "set (dict_sorted d) = set d"
  by (simp add: dict_sorted_def)

lemma length_dict_sorted [simp]: "length (dict_sorted d) = length d"
  by (simp add: dict_sorted_def)

lemma dict_lookup_iff: "dict_ok d \<Longrightarrow> map_of d k = Some v \<longleftrightarrow> (k, v) \<in> set d"
  by (simp add: dict_ok_def map_of_eq_Some_iff)

lemma map_of_set_eq:
  assumes "dict_ok d" "dict_ok e" "set d = set e"
  shows "map_of d = map_of e"
proof
  fix k
  show "map_of d k = map_of e k"
    using assms dict_lookup_iff by (metis not_Some_eq)
qed

lemma set_map_of_eq:
  assumes "dict_ok d" "dict_ok e" "map_of d = map_of e"
  shows "set d = set e"
proof (rule set_eqI)
  fix x show "x \<in> set d \<longleftrightarrow> x \<in> set e"
    using dict_lookup_iff [OF assms(1), of "fst x" "snd x"] dict_lookup_iff [OF assms(2), of "fst x" "snd x"] assms(3) by simp
qed

lemma map_of_dict_sorted [dict_simps]: "dict_ok d \<Longrightarrow> map_of (dict_sorted d) = map_of d"
  by (rule map_of_set_eq) auto

lemma map_of_update [dict_simps]: "map_of (AList.update k v d) = (map_of d)(k \<mapsto> v)"
  by (simp add: update_conv')

lemma map_of_delete [dict_simps]: "map_of (AList.delete k d) = (map_of d)(k := None)"
  by (simp add: delete_conv')

lemma map_of_dict_map [dict_simps]: "map_of (dict_map f d) k = map_option f (map_of d k)"
  by (induction d) (auto simp: dict_map_def)

lemma fst_dict_map [simp]: "map fst (dict_map f d) = map fst d"
  by (induction d) (auto simp: dict_map_def)

lemma dict_ok_dict_map [simp]: "dict_ok (dict_map f d) = dict_ok d"
  by (simp add: dict_ok_def)

lemma length_dict_map [simp]: "length (dict_map f d) = length d"
  by (simp add: dict_map_def)

lemma map_of_filter_key: "map_of (filter (\<lambda>(k, v). P k) d) k = (if P k then map_of d k else None)"
  by (induction d) auto

lemma set_dict_values: "set (dict_values d) = snd ` set d"
  by (simp add: dict_values_def)

lemma dict_values_lookup: "dict_ok d \<Longrightarrow> v \<in> set (dict_values d) \<longleftrightarrow> (\<exists>k. map_of d k = Some v)"
  by (force simp: dict_values_def dict_lookup_iff)

lemma set_update_subset: "set (AList.update k v d) \<subseteq> insert (k, v) (set d)"
  by (induction d) auto

lemma length_update_new: "map_of d k = None \<Longrightarrow> length (AList.update k v d) = Suc (length d)"
  by (induction d) (auto split: if_splits)

lemma length_update_old: "map_of d k = Some w \<Longrightarrow> length (AList.update k v d) = length d"
  by (induction d) (auto split: if_splits)

lemma fold_update_dict:
  assumes "dict_ok d" "dict_ok d'"
  shows "dict_ok (fold (\<lambda>(k, r). AList.update k r) d' d)
    \<and> map_of (fold (\<lambda>(k, r). AList.update k r) d' d) = map_of d ++ map_of d'"
  using assms
proof (induction d' arbitrary: d)
  case (Cons kr d')
  obtain k r where kr: "kr = (k, r)" by fastforce
  have "map_of d' k = None" using Cons.prems(2) kr by (auto simp: dict_ok_def map_of_eq_None_iff)
  moreover have "dict_ok d'" using Cons.prems(2) by (simp add: dict_ok_def)
  ultimately show ?case
    using Cons.IH [of "AList.update k r d"] Cons.prems(1) kr
    by (auto simp: map_of_update map_add_def fun_eq_iff split: option.splits)
qed simp

lemma set_map_filter: "set (List.map_filter f xs) = {y. \<exists>x\<in>set xs. f x = Some y}"
  by (force simp: List.map_filter_def)

subsection \<open>Sorting by a key\<close>

lemma sort_key_eq_Nil [simp]: "sort_key f xs = [] \<longleftrightarrow> xs = []"
  by (metis length_0_conv length_sort)

lemma hd_sort_key_least:
  assumes "sort_key f xs = y # ys" and "x \<in> set xs"
  shows "f y \<le> f x"
proof -
  have "x \<in> set (y # ys)" using assms by (metis set_sort)
  moreover have "sorted (map f (y # ys))" by (metis assms(1) sorted_sort_key)
  ultimately show ?thesis by auto
qed

lemma hd_sort_key_in: "sort_key f xs = y # ys \<Longrightarrow> y \<in> set xs"
  by (metis list.set_intros(1) set_sort)

lemma insort_key_map: "insort_key f (g x) (map g xs) = map g (insort_key (\<lambda>x. f (g x)) x xs)"
  by (induction xs) auto

lemma sort_key_map: "sort_key f (map g xs) = map g (sort_key (\<lambda>x. f (g x)) xs)"
  by (induction xs) (simp_all add: sort_key_def insort_key_map)

lemma take_sort_key_least:
  assumes "x \<in> set (take n (sort_key f xs))" and "y \<in> set xs"
    and "y \<notin> set (take n (sort_key f xs))"
  shows "f x \<le> f y"
proof -
  have s: "sorted (map f (take n (sort_key f xs) @ drop n (sort_key f xs)))" by simp
  have "y \<in> set (drop n (sort_key f xs))"
    using assms(2,3) by (metis Un_iff append_take_drop_id set_append set_sort)
  then show ?thesis using s assms(1) by (auto simp: sorted_append simp del: append_take_drop_id)
qed

subsection \<open>Strings\<close>

fun starts_with :: "string \<Rightarrow> string \<Rightarrow> bool" where
  "starts_with s [] = True"
| "starts_with [] (p # ps) = False"
| "starts_with (c # s) (p # ps) = (c = p \<and> starts_with s ps)"

lemma starts_with_iff: "starts_with s p \<longleftrightarrow> (\<exists>t. s = p @ t)"
  by (induction s p rule: starts_with.induct) auto

text \<open>\<open>sep.join(parts)\<close> and \<open>s.split(c)\<close>.\<close>

fun join :: "string \<Rightarrow> string list \<Rightarrow> string" where
  "join sep [] = []"
| "join sep [x] = x"
| "join sep (x # y # ys) = x @ sep @ join sep (y # ys)"

lemma join_Cons: "join sep (x # xs) = x @ concat (map ((@) sep) xs)"
  by (induction xs arbitrary: x) auto

lemma join_append: "xs \<noteq> [] \<Longrightarrow> ys \<noteq> [] \<Longrightarrow> join sep (xs @ ys) = join sep xs @ sep @ join sep ys"
  by (cases xs; cases ys) (auto simp: join_Cons)

fun split_on :: "char \<Rightarrow> string \<Rightarrow> string list" where
  "split_on c [] = [[]]"
| "split_on c (x # xs) =
     (if x = c then [] # split_on c xs
      else case split_on c xs of [] \<Rightarrow> [[x]] | y # ys \<Rightarrow> (x # y) # ys)"

lemma split_on_nonempty: "split_on c s \<noteq> []"
  by (induction s) (auto split: list.splits)

lemma split_on_append: "split_on c (a @ c # b) = split_on c a @ split_on c b"
  using split_on_nonempty by (induction a) (auto split: list.splits)

lemma join_split_on: "join [c] (split_on c s) = s"
proof (induction s)
  case (Cons x s)
  then show ?case using split_on_nonempty [of c s] by (cases "split_on c s") (auto simp: join_Cons)
qed simp

lemma split_on_length: "length (split_on c s) = Suc (count_list s c)"
proof (induction s)
  case (Cons x s)
  then show ?case using split_on_nonempty [of c s] by (cases "split_on c s") auto
qed simp

text \<open>The proper prefixes of the parts are the texts before a separator.\<close>

lemma split_prefix_iff:
  "(\<exists>i. 1 \<le> i \<and> i < length (split_on c s) \<and> join [c] (take i (split_on c s)) = a) \<longleftrightarrow> (\<exists>b. s = a @ c # b)"
proof
  assume "\<exists>i. 1 \<le> i \<and> i < length (split_on c s) \<and> join [c] (take i (split_on c s)) = a"
  then obtain i where i: "1 \<le> i" "i < length (split_on c s)" "join [c] (take i (split_on c s)) = a" by blast
  have "join [c] (take i (split_on c s) @ drop i (split_on c s)) =
      join [c] (take i (split_on c s)) @ [c] @ join [c] (drop i (split_on c s))"
    using i split_on_nonempty by (intro join_append) auto
  then show "\<exists>b. s = a @ c # b" using i(3) join_split_on [of c s] by auto
next
  assume "\<exists>b. s = a @ c # b"
  then obtain b where s: "s = a @ c # b" by blast
  have "1 \<le> length (split_on c a)" "1 \<le> length (split_on c b)" by (simp_all add: split_on_length)
  then show "\<exists>i. 1 \<le> i \<and> i < length (split_on c s) \<and> join [c] (take i (split_on c s)) = a"
    unfolding s split_on_append
    by (intro exI [of _ "length (split_on c a)"]) (simp add: join_split_on split_on_nonempty)
qed

text \<open>\<open>str.strip\<close> on code points below 256.\<close>

definition py_space :: "char \<Rightarrow> bool" where
  "py_space c = (let n = (of_char c :: nat) in (9 \<le> n \<and> n \<le> 13) \<or> (28 \<le> n \<and> n \<le> 32) \<or> n = 133 \<or> n = 160)"

definition py_strip :: "string \<Rightarrow> string" where
  "py_strip s = rev (dropWhile py_space (rev (dropWhile py_space s)))"

text \<open>
  \<open>str.casefold\<close> on code points below 256: letters become lower case and the sharp s
  becomes two letters. The micro sign folds to a code point above 255 and is left alone.
\<close>

definition fold_char :: "char \<Rightarrow> string" where
  "fold_char c =
     (let n = (of_char c :: nat) in
      if 65 \<le> n \<and> n \<le> 90 then [char_of (n + 32)]
      else if 192 \<le> n \<and> n \<le> 222 \<and> n \<noteq> 215 then [char_of (n + 32)]
      else if n = 223 then ''ss'' else [c])"

definition casefold :: "string \<Rightarrow> string" where
  "casefold s = concat (map fold_char s)"

text \<open>The number of bytes of the UTF-8 encoding.\<close>

definition utf8_length :: "string \<Rightarrow> nat" where
  "utf8_length s = sum_list (map (\<lambda>c. if (of_char c :: nat) < 128 then 1 else 2) s)"

function nat_digits :: "nat \<Rightarrow> string" where
  "nat_digits n =
     (if n < 10 then [char_of (48 + n)] else nat_digits (n div 10) @ [char_of (48 + n mod 10)])"
  by pat_completeness auto
termination
  by (relation "measure id") auto

declare nat_digits.simps [simp del]

definition int_digits :: "int \<Rightarrow> string" where
  "int_digits i = (if i < 0 then CHR ''-'' # nat_digits (nat (- i)) else nat_digits (nat i))"

subsection \<open>Time\<close>

datatype datetime = Naive int | Aware int

fun utc_of :: "'e \<Rightarrow> datetime \<Rightarrow> 'e + int" where
  "utc_of err (Naive _) = Inl err"
| "utc_of err (Aware t) = Inr t"

text \<open>\<open>_as_utc(now or datetime.now(UTC))\<close> with the reading \<open>clock\<close> of the wall clock.\<close>

definition utc_or_now :: "'e \<Rightarrow> int \<Rightarrow> datetime option \<Rightarrow> 'e + int" where
  "utc_or_now err clock now = (case now of None \<Rightarrow> Inr clock | Some d \<Rightarrow> utc_of err d)"

abbreviation seconds :: "int \<Rightarrow> int" where "seconds n \<equiv> n * 1000000"
abbreviation minutes :: "int \<Rightarrow> int" where "minutes n \<equiv> seconds (n * 60)"
abbreviation hours :: "int \<Rightarrow> int" where "hours n \<equiv> minutes (n * 60)"

end
