(* ===== verification/Py_Regex.thy ===== *)
theory Py_Regex
  imports Prelude
begin

text \<open>
  The fragment of Python's \<open>re\<close> that the validators of Core use: character classes,
  bounded repetition of a class, concatenation, an optional group and a repeated group.
  \<open>fullmatch\<close> is an executable matcher; \<open>rx_lang\<close> is the declarative language it decides
  (\<open>fullmatch_iff\<close>). The anchors \<open>^\<close> and \<open>$\<close> of the source patterns are implied by
  \<open>Pattern.fullmatch\<close>.
\<close>

type_synonym char_class = "(char \<times> char) list"

definition in_class :: "char_class \<Rightarrow> char \<Rightarrow> bool" where
  "in_class cl c = list_ex (\<lambda>(a, b). (of_char a :: nat) \<le> of_char c \<and> (of_char c :: nat) \<le> of_char b) cl"

abbreviation single :: "char \<Rightarrow> char \<times> char" where "single c \<equiv> (c, c)"
abbreviation lower :: "char \<times> char" where "lower \<equiv> (CHR ''a'', CHR ''z'')"
abbreviation upper :: "char \<times> char" where "upper \<equiv> (CHR ''A'', CHR ''Z'')"
abbreviation digit :: "char \<times> char" where "digit \<equiv> (CHR ''0'', CHR ''9'')"
abbreviation hexlow :: "char \<times> char" where "hexlow \<equiv> (CHR ''a'', CHR ''f'')"

text \<open>\<open>Cls cl m n\<close> is the class \<open>[cl]{m,n}\<close>; \<open>Opt r\<close> is \<open>(?:r)?\<close> and \<open>Many r\<close> is \<open>(?:r)*\<close>.\<close>

datatype rx =
    Cls char_class nat "nat option"
  | Seq rx rx
  | Opt rx
  | Many rx

definition within :: "nat option \<Rightarrow> nat \<Rightarrow> bool" where
  "within hi k = (case hi of None \<Rightarrow> True | Some n \<Rightarrow> k \<le> n)"

inductive rx_lang :: "rx \<Rightarrow> string \<Rightarrow> bool" where
  cls: "list_all (in_class cl) s \<Longrightarrow> lo \<le> length s \<Longrightarrow> within hi (length s) \<Longrightarrow> rx_lang (Cls cl lo hi) s"
| seq: "rx_lang r s \<Longrightarrow> rx_lang r' t \<Longrightarrow> rx_lang (Seq r r') (s @ t)"
| opt_none: "rx_lang (Opt r) []"
| opt_some: "rx_lang r s \<Longrightarrow> rx_lang (Opt r) s"
| many_nil: "rx_lang (Many r) []"
| many_cons: "rx_lang r s \<Longrightarrow> rx_lang (Many r) t \<Longrightarrow> rx_lang (Many r) (s @ t)"

inductive_simps rx_lang_Cls [simp]: "rx_lang (Cls cl lo hi) s"
inductive_simps rx_lang_Seq: "rx_lang (Seq r r') s"
inductive_simps rx_lang_Opt [simp]: "rx_lang (Opt r) s"

text \<open>All suffixes that can remain after the class has consumed an admissible prefix.\<close>

fun class_residues :: "char_class \<Rightarrow> nat \<Rightarrow> nat option \<Rightarrow> string \<Rightarrow> string list" where
  "class_residues cl lo hi [] = (if lo = 0 then [[]] else [])"
| "class_residues cl lo hi (c # s) =
     (if lo = 0 then [c # s] else []) @
     (if in_class cl c \<and> hi \<noteq> Some 0
      then class_residues cl (lo - 1) (map_option (\<lambda>n. n - 1) hi) s else [])"

function residues :: "rx \<Rightarrow> string \<Rightarrow> string list" where
  "residues (Cls cl lo hi) s = class_residues cl lo hi s"
| "residues (Seq r r') s = concat (map (residues r') (residues r s))"
| "residues (Opt r) s = s # residues r s"
| "residues (Many r) s =
     s # concat (map (residues (Many r)) (filter (\<lambda>t. length t < length s) (residues r s)))"
  by pat_completeness auto
termination
  by (relation "measures [\<lambda>(r, s). size r, \<lambda>(r, s). length s]") auto

definition fullmatch :: "rx \<Rightarrow> string \<Rightarrow> bool" where
  "fullmatch r s = list_ex (\<lambda>t. t = []) (residues r s)"

subsection \<open>The matcher decides the language\<close>

lemma class_residues_iff:
  "t \<in> set (class_residues cl lo hi s) \<longleftrightarrow>
     (\<exists>p. s = p @ t \<and> list_all (in_class cl) p \<and> lo \<le> length p \<and> (within hi (length p)))"
  if "case hi of None \<Rightarrow> True | Some n \<Rightarrow> lo \<le> n" for t
  using that
proof (induction cl lo hi s rule: class_residues.induct)
  case (1 cl lo hi)
  then show ?case by (auto simp: within_def split: option.splits)
next
  case (2 cl lo hi c s)
  have ordered: "case map_option (\<lambda>n. n - 1) hi of None \<Rightarrow> True | Some n \<Rightarrow> lo - 1 \<le> n"
    using "2.prems" by (auto split: option.splits)
  show ?case
  proof
    assume "t \<in> set (class_residues cl lo hi (c # s))"
    then consider (here) "lo = 0" "t = c # s"
      | (more) "in_class cl c" "hi \<noteq> Some 0"
          "t \<in> set (class_residues cl (lo - 1) (map_option (\<lambda>n. n - 1) hi) s)"
      by (auto split: if_splits)
    then show "\<exists>p. c # s = p @ t \<and> list_all (in_class cl) p \<and> lo \<le> length p \<and> within hi (length p)"
    proof cases
      case here
      then show ?thesis by (intro exI [of _ "[]"]) (auto simp: within_def split: option.splits)
    next
      case more
      then obtain p where "s = p @ t" "list_all (in_class cl) p" "lo - 1 \<le> length p"
          "within (map_option (\<lambda>n. n - 1) hi) (length p)"
        using "2.IH" ordered by blast
      with more show ?thesis
        by (intro exI [of _ "c # p"]) (auto simp: within_def split: option.splits)
    qed
  next
    assume "\<exists>p. c # s = p @ t \<and> list_all (in_class cl) p \<and> lo \<le> length p \<and> within hi (length p)"
    then obtain p where p: "c # s = p @ t" "list_all (in_class cl) p" "lo \<le> length p"
      "within hi (length p)" by blast
    show "t \<in> set (class_residues cl lo hi (c # s))"
    proof (cases p)
      case Nil
      with p(1,3) have "t = c # s" "lo = 0" by simp_all
      then show ?thesis by simp
    next
      case (Cons d q)
      with p have c: "in_class cl c" and h: "hi \<noteq> Some 0" by (auto simp: within_def)
      have "\<exists>p. s = p @ t \<and> list_all (in_class cl) p \<and> lo - 1 \<le> length p \<and>
          within (map_option (\<lambda>n. n - 1) hi) (length p)"
        using p Cons by (intro exI [of _ q]) (auto simp: within_def split: option.splits)
      then have "t \<in> set (class_residues cl (lo - 1) (map_option (\<lambda>n. n - 1) hi) s)"
        using "2.IH" c h ordered by blast
      with c h show ?thesis by simp
    qed
  qed
qed

text \<open>Every bounded repetition has its bounds in order, as Python's compiler requires.\<close>

fun rx_ok :: "rx \<Rightarrow> bool" where
  "rx_ok (Cls cl lo hi) = (case hi of None \<Rightarrow> True | Some n \<Rightarrow> lo \<le> n)"
| "rx_ok (Seq r r') = (rx_ok r \<and> rx_ok r')"
| "rx_ok (Opt r) = rx_ok r"
| "rx_ok (Many r) = rx_ok r"

lemma rx_lang_many_consE:
  assumes "rx_lang (Many r) u" and "u \<noteq> []"
  obtains s t where "u = s @ t" "s \<noteq> []" "rx_lang r s" "rx_lang (Many r) t"
  using assms
proof (induction "Many r" u arbitrary: thesis rule: rx_lang.induct)
  case (many_cons s t)
  then show ?case by (cases "s = []") auto
qed auto

lemma residues_iff:
  "rx_ok r \<Longrightarrow> t \<in> set (residues r s) \<longleftrightarrow> (\<exists>p. s = p @ t \<and> rx_lang r p)"
proof (induction r s arbitrary: t rule: residues.induct)
  case (1 cl lo hi s)
  then show ?case by (auto simp: class_residues_iff)
next
  case (2 r r' s)
  have "t \<in> set (residues (Seq r r') s) \<longleftrightarrow>
      (\<exists>u. (\<exists>p. s = p @ u \<and> rx_lang r p) \<and> (\<exists>q. u = q @ t \<and> rx_lang r' q))"
    using "2.IH" "2.prems" by auto
  also have "\<dots> \<longleftrightarrow> (\<exists>p. s = p @ t \<and> (\<exists>a b. p = a @ b \<and> rx_lang r a \<and> rx_lang r' b))"
    by (metis append_assoc)
  finally show ?case by (simp only: rx_lang_Seq)
next
  case (3 r s)
  have "t \<in> set (residues (Opt r) s) \<longleftrightarrow> t = s \<or> (\<exists>p. s = p @ t \<and> rx_lang r p)"
    using "3.IH" "3.prems" by simp
  also have "\<dots> \<longleftrightarrow> (\<exists>p. s = p @ t \<and> (p = [] \<or> rx_lang r p))"
    by (metis append_Nil)
  finally show ?case by (simp only: rx_lang_Opt)
next
  case (4 r s)
  from "4.prems" have ok: "rx_ok r" by simp
  have inner: "u \<in> set (residues r s) \<longleftrightarrow> (\<exists>p. s = p @ u \<and> rx_lang r p)" for u
    using "4.IH"(1) ok by blast
  have outer: "t \<in> set (residues (Many r) u) \<longleftrightarrow> (\<exists>p. u = p @ t \<and> rx_lang (Many r) p)"
    if "u \<in> set (residues r s)" "length u < length s" for u t
    by (rule "4.IH"(2)) (simp_all only: set_filter mem_Collect_eq that "4.prems" simp_thms)
  show ?case
  proof
    assume "t \<in> set (residues (Many r) s)"
    then consider "t = s"
      | u where "u \<in> set (residues r s)" "length u < length s" "t \<in> set (residues (Many r) u)"
      by (auto simp del: residues.simps simp: residues.simps(4) [of r s])
    then show "\<exists>p. s = p @ t \<and> rx_lang (Many r) p"
    proof cases
      case 1
      then show ?thesis by (auto intro: rx_lang.many_nil)
    next
      case (2 u)
      then obtain a b where "s = a @ u" "rx_lang r a" "u = b @ t" "rx_lang (Many r) b"
        using inner outer by blast
      then show ?thesis
        by (intro exI [of _ "a @ b"]) (simp add: rx_lang.many_cons)
    qed
  next
    assume "\<exists>p. s = p @ t \<and> rx_lang (Many r) p"
    then obtain p where p: "s = p @ t" "rx_lang (Many r) p" by blast
    show "t \<in> set (residues (Many r) s)"
    proof (cases "p = []")
      case False
      then obtain a b where ab: "p = a @ b" "a \<noteq> []" "rx_lang r a" "rx_lang (Many r) b"
        using p(2) by (metis rx_lang_many_consE)
      have 1: "b @ t \<in> set (residues r s)" using inner p(1) ab(1,3) by simp
      have 2: "length (b @ t) < length s" using p(1) ab(1,2) by simp
      have "t \<in> set (residues (Many r) (b @ t))"
        using outer [OF 1 2] ab(4) by blast
      with 1 2 show ?thesis by (auto simp del: residues.simps simp: residues.simps(4) [of r s])
    qed (simp add: p residues.simps(4) [of r t] del: residues.simps)
  qed
qed

theorem fullmatch_iff: "rx_ok r \<Longrightarrow> fullmatch r s \<longleftrightarrow> rx_lang r s"
  using residues_iff [of r "[]" s] by (auto simp: fullmatch_def list_ex_iff)

lemma rx_lang_one: "rx_lang (Cls cl 1 (Some 1)) s \<longleftrightarrow> (\<exists>c. s = [c] \<and> in_class cl c)"
  by (cases s) (auto simp: within_def)

text \<open>The characters a pattern can consume, and the lengths it can match.\<close>

fun rx_allows :: "rx \<Rightarrow> char \<Rightarrow> bool" where
  "rx_allows (Cls cl lo hi) c = in_class cl c"
| "rx_allows (Seq r r') c = (rx_allows r c \<or> rx_allows r' c)"
| "rx_allows (Opt r) c = rx_allows r c"
| "rx_allows (Many r) c = rx_allows r c"

lemma rx_lang_chars: "rx_lang r s \<Longrightarrow> c \<in> set s \<Longrightarrow> rx_allows r c"
  by (induction rule: rx_lang.induct) (auto simp: list_all_iff)

lemma fullmatch_chars: "fullmatch r s \<Longrightarrow> rx_ok r \<Longrightarrow> c \<in> set s \<Longrightarrow> rx_allows r c"
  using rx_lang_chars fullmatch_iff by blast

subsection \<open>Patterns shared by several components\<close>

text \<open>\<open>[a-z][a-z0-9]*(?:-[a-z0-9]+)*\<close>: module, owner and package identifiers.\<close>

definition owner_pattern :: rx where
  "owner_pattern =
     Seq (Cls [lower] 1 (Some 1)) (Seq (Cls [lower, digit] 0 None)
       (Many (Seq (Cls [single CHR ''-''] 1 (Some 1)) (Cls [lower, digit] 1 None))))"

lemma owner_pattern_ok: "rx_ok owner_pattern"
  by (simp add: owner_pattern_def)

lemma owner_has_no_dot: "fullmatch owner_pattern s \<Longrightarrow> CHR ''.'' \<notin> set s"
  using fullmatch_chars [OF _ owner_pattern_ok, of s "CHR ''.''"]
  by (auto simp: owner_pattern_def in_class_def)

lemma namespace_prefix:
  assumes "CHR ''.'' \<notin> set owner"
  shows "starts_with s (owner @ ''.'') \<longleftrightarrow> takeWhile (\<lambda>c. c \<noteq> CHR ''.'') s = owner \<and> CHR ''.'' \<in> set s"
proof
  assume "starts_with s (owner @ ''.'')"
  then obtain t where "s = owner @ CHR ''.'' # t" by (auto simp: starts_with_iff)
  then show "takeWhile (\<lambda>c. c \<noteq> CHR ''.'') s = owner \<and> CHR ''.'' \<in> set s"
    using assms by (simp add: takeWhile_tail) (metis append.right_neutral takeWhile.simps(2) takeWhile_append2)
next
  assume a: "takeWhile (\<lambda>c. c \<noteq> CHR ''.'') s = owner \<and> CHR ''.'' \<in> set s"
  then have "dropWhile (\<lambda>c. c \<noteq> CHR ''.'') s \<noteq> []" by (auto simp: dropWhile_eq_Nil_conv)
  then obtain c t where ct: "dropWhile (\<lambda>c. c \<noteq> CHR ''.'') s = c # t" by (cases "dropWhile (\<lambda>c. c \<noteq> CHR ''.'') s") auto
  then have "c = CHR ''.''" by (simp add: dropWhile_eq_Cons_conv)
  with a ct have "s = (owner @ ''.'') @ t" by (metis append.assoc append_Cons append_Nil takeWhile_dropWhile_id)
  then show "starts_with s (owner @ ''.'')" by (auto simp: starts_with_iff)
qed

lemma class_pattern_length:
  assumes "fullmatch (Seq (Cls a 1 (Some 1)) (Cls b lo (Some hi))) s" "lo \<le> hi"
  shows "length s \<le> hi + 1"
proof -
  have "rx_lang (Seq (Cls a 1 (Some 1)) (Cls b lo (Some hi))) s"
    using assms fullmatch_iff [of "Seq (Cls a 1 (Some 1)) (Cls b lo (Some hi))" s] by simp
  then show ?thesis by (auto simp: rx_lang_Seq within_def)
qed

lemma class_full_length: "fullmatch (Cls a n (Some n)) s \<Longrightarrow> length s = n"
  using fullmatch_iff [of "Cls a n (Some n)" s] by (auto simp: within_def elim: rx_lang.cases)

lemma class_full_replicate: "in_class a c \<Longrightarrow> fullmatch (Cls a n (Some n)) (replicate n c)"
  using fullmatch_iff [of "Cls a n (Some n)" "replicate n c"]
  by (auto simp: within_def list_all_iff intro!: rx_lang.cls)

end
