(* ===== verification/Py_Json.thy ===== *)
theory Py_Json
  imports Prelude
begin

text \<open>
  Python values as \<open>json\<close> sees them, the text \<open>json.dumps\<close> writes with sorted keys and compact
  separators, and its unambiguity: equal texts come from equal values.
\<close>

subsection \<open>Python values\<close>

text \<open>
  A container carries its object identity (\<open>id(value)\<close>); \<open>None\<close> stands for a container
  that \<open>json.loads\<close> has just built, which no other reference can share. \<open>VOther\<close> is any
  object \<open>json.dumps\<close> refuses (bytes, sets, NaN with \<open>allow_nan=False\<close>); finite floats are
  not modelled.
\<close>

datatype pykey = KStr string | KObj

datatype pyval =
    VNull
  | VBool bool
  | VInt int
  | VStr string
  | VOther
  | VList "nat option" "pyval list"
  | VDict "nat option" "(pykey \<times> pyval) list"

definition key_text :: "pykey \<Rightarrow> string" where
  "key_text k = (case k of KStr s \<Rightarrow> s | KObj \<Rightarrow> [])"

text \<open>
  \<open>json.loads(json.dumps(v, sort_keys=True))\<close>: fresh containers, tuples as lists, and the
  items of every object in key order.
\<close>

fun canon :: "pyval \<Rightarrow> pyval" where
  "canon (VList i xs) = VList None (map canon xs)"
| "canon (VDict i kvs) =
     VDict None (sort_key (\<lambda>(k, v). key_text k) (map (\<lambda>(k, v). (k, canon v)) kvs))"
| "canon v = v"

text \<open>
  What \<open>json.dumps(..., allow_nan=False)\<close> can encode: no foreign object, and no integer over
  Python's limit of 4300 decimal digits.
\<close>

fun json_safe :: "pyval \<Rightarrow> bool" where
  "json_safe (VList i xs) = list_all json_safe xs"
| "json_safe (VDict i kvs) = list_all (\<lambda>(k, v). json_safe v) kvs"
| "json_safe VOther = False"
| "json_safe (VInt i) = (length (nat_digits (nat \<bar>i\<bar>)) \<le> 4300)"
| "json_safe v = True"

definition hex_digit :: "nat \<Rightarrow> char" where
  "hex_digit n = (if n < 10 then char_of (48 + n) else char_of (87 + n))"

definition json_escape :: "char \<Rightarrow> string" where
  "json_escape c =
     (let n = (of_char c :: nat); bs = CHR 0x5C in
      if n = 34 \<or> n = 92 then [bs, c]
      else if n = 8 then [bs, CHR ''b''] else if n = 12 then [bs, CHR ''f'']
      else if n = 10 then [bs, CHR ''n''] else if n = 13 then [bs, CHR ''r'']
      else if n = 9 then [bs, CHR ''t'']
      else if n < 32 then [bs, CHR ''u'', CHR ''0'', CHR ''0'', hex_digit (n div 16), hex_digit (n mod 16)]
      else [c])"

definition json_string :: "string \<Rightarrow> string" where
  "json_string s = CHR 0x22 # concat (map json_escape s) @ [CHR 0x22]"

text \<open>\<open>json.dumps(ensure_ascii=False, separators=(",", ":"))\<close> of a value in key order.\<close>

fun json_dumps :: "pyval \<Rightarrow> string" where
  "json_dumps VNull = ''null''"
| "json_dumps (VBool b) = (if b then ''true'' else ''false'')"
| "json_dumps (VInt i) = int_digits i"
| "json_dumps (VStr s) = json_string s"
| "json_dumps VOther = []"
| "json_dumps (VList i xs) = ''['' @ join '','' (map json_dumps xs) @ '']''"
| "json_dumps (VDict i kvs) =
     ''{'' @ join '','' (map (\<lambda>(k, v). json_string (key_text k) @ '':'' @ json_dumps v) kvs) @ ''}''"

subsection \<open>Strings are written unambiguously\<close>

definition hex_value :: "char \<Rightarrow> nat" where
  "hex_value c = (let n = of_char c in if n < 58 then n - 48 else n - 87)"

lemma hex_value_digit: "n < 16 \<Longrightarrow> hex_value (hex_digit n) = n"
  by (auto simp: hex_value_def hex_digit_def of_char_of)

text \<open>Reading one escaped character back.\<close>

fun unescape :: "string \<Rightarrow> (char \<times> string) option" where
  "unescape [] = None"
| "unescape (c # s) =
     (if (of_char c :: nat) \<noteq> 92 then Some (c, s)
      else case s of
        [] \<Rightarrow> None
      | e # t \<Rightarrow>
          (let k = (of_char e :: nat) in
           if k = 98 then Some (char_of (8::nat), t) else if k = 102 then Some (char_of (12::nat), t)
           else if k = 110 then Some (char_of (10::nat), t) else if k = 114 then Some (char_of (13::nat), t)
           else if k = 116 then Some (char_of (9::nat), t)
           else if k = 117 then Some (char_of (16 * hex_value (t ! 2) + hex_value (t ! 3)), drop 4 t)
           else Some (e, t)))"

lemma unescape_escape: "unescape (json_escape c @ x) = Some (c, x)"
proof -
  define n where "n = (of_char c :: nat)"
  have c: "c = char_of n" by (simp add: n_def)
  consider "n = 34 \<or> n = 92" | "n = 8" | "n = 12" | "n = 10" | "n = 13" | "n = 9"
    | "n < 32" "n \<notin> {8, 9, 10, 12, 13}" | "32 \<le> n" "n \<noteq> 34" "n \<noteq> 92"
    by fastforce
  then show ?thesis
  proof cases
    case 7
    have "16 * hex_value (hex_digit (n div 16)) + hex_value (hex_digit (n mod 16)) = n"
      using 7(1) by (simp add: hex_value_digit)
    then show ?thesis using 7 by (simp add: json_escape_def n_def [symmetric] Let_def c [symmetric])
  next
    case 8
    then show ?thesis by (simp add: json_escape_def n_def [symmetric] Let_def)
  qed (auto simp: json_escape_def n_def [symmetric] Let_def c)
qed

lemma json_escape_prefix: "json_escape c @ x = json_escape d @ y \<Longrightarrow> c = d \<and> x = y"
  by (metis unescape_escape option.inject prod.inject)

lemma json_escape_quote: "json_escape c @ x \<noteq> CHR 0x22 # y"
proof
  assume a: "json_escape c @ x = CHR 0x22 # y"
  have "unescape (CHR 0x22 # y) = Some (CHR 0x22, y)" by simp
  then have "c = CHR 0x22" using unescape_escape [of c x] a by simp
  with a show False by (simp add: json_escape_def)
qed

lemma json_chars_prefix:
  "concat (map json_escape s) @ CHR 0x22 # t = concat (map json_escape s') @ CHR 0x22 # t' \<Longrightarrow> s = s' \<and> t = t'"
proof (induction s arbitrary: s')
  case Nil
  show ?case
  proof (cases s')
    case Nil
    then show ?thesis using Nil.prems by simp
  next
    case (Cons d r)
    then have "json_escape d @ concat (map json_escape r) @ CHR 0x22 # t' = CHR 0x22 # t"
      using Nil.prems by simp
    then show ?thesis using json_escape_quote by blast
  qed
next
  case (Cons c s)
  have "s' \<noteq> []"
  proof
    assume "s' = []"
    then have "json_escape c @ concat (map json_escape s) @ CHR 0x22 # t = CHR 0x22 # t'"
      using Cons.prems by simp
    then show False using json_escape_quote by blast
  qed
  then obtain d r where s': "s' = d # r" by (cases s') blast+
  have "json_escape c @ concat (map json_escape s) @ CHR 0x22 # t = json_escape d @ concat (map json_escape r) @ CHR 0x22 # t'"
    using Cons.prems s' by simp
  then have "c = d" "concat (map json_escape s) @ CHR 0x22 # t = concat (map json_escape r) @ CHR 0x22 # t'"
    using json_escape_prefix by blast+
  then show ?case using Cons.IH s' by blast
qed

lemma json_string_prefix: "json_string s @ t = json_string s' @ t' \<Longrightarrow> s = s' \<and> t = t'"
  by (rule json_chars_prefix) (simp add: json_string_def)

subsection \<open>Numbers are written unambiguously\<close>

definition is_digit :: "char \<Rightarrow> bool" where
  "is_digit c \<longleftrightarrow> 48 \<le> (of_char c :: nat) \<and> (of_char c :: nat) < 58"

definition of_digits :: "string \<Rightarrow> nat" where
  "of_digits s = foldl (\<lambda>a c. 10 * a + (of_char c - 48)) 0 s"

lemma of_digits_snoc: "of_digits (s @ [c]) = 10 * of_digits s + (of_char c - 48)"
  by (simp add: of_digits_def)

lemma of_digits_nat: "of_digits (nat_digits n) = n"
proof (induction n rule: nat_digits.induct)
  case (1 n)
  show ?case
  proof (cases "n < 10")
    case True
    then have "nat_digits n = [char_of (48 + n)]" by (simp add: nat_digits.simps [of n])
    then show ?thesis using True by (simp add: of_digits_def of_char_of)
  next
    case False
    then have "nat_digits n = nat_digits (n div 10) @ [char_of (48 + n mod 10)]"
      by (simp add: nat_digits.simps [of n])
    moreover have "of_char (char_of (48 + n mod 10) :: char) = (48 + n mod 10 :: nat)"
      by (simp add: of_char_of)
    ultimately show ?thesis using 1 [OF False] by (simp add: of_digits_snoc)
  qed
qed

lemma nat_digits_digits: "list_all is_digit (nat_digits n)"
proof (induction n rule: nat_digits.induct)
  case (1 n)
  have d: "is_digit (char_of (48 + k))" if "k < 10" for k :: nat
    using that by (simp add: is_digit_def of_char_of)
  show ?case
  proof (cases "n < 10")
    case True
    then show ?thesis by (simp add: nat_digits.simps [of n] d)
  next
    case False
    then show ?thesis using 1 [OF False] by (simp add: nat_digits.simps [of n] d)
  qed
qed

lemma nat_digits_nonempty: "nat_digits n \<noteq> []"
  by (simp add: nat_digits.simps [of n])

definition ends :: "string \<Rightarrow> bool" where
  "ends t \<longleftrightarrow> t = [] \<or> hd t \<in> {CHR '','', CHR '']'', CHR ''}''}"

lemma ends_simps [simp]: "ends (CHR '','' # t)" "ends (CHR '']'' # t)" "ends (CHR ''}'' # t)"
  by (simp_all add: ends_def)

lemma takeWhile_digits: "list_all is_digit s \<Longrightarrow> ends t \<Longrightarrow> takeWhile is_digit (s @ t) = s"
  by (induction s; cases t) (auto simp: ends_def is_digit_def)

lemma nat_digits_prefix:
  assumes "nat_digits m @ t = nat_digits n @ u" "ends t" "ends u"
  shows "m = n \<and> t = u"
proof -
  have "nat_digits m = nat_digits n"
    using assms takeWhile_digits [OF nat_digits_digits, of t m] takeWhile_digits [OF nat_digits_digits, of u n]
    by simp
  then show ?thesis using assms(1) by (metis of_digits_nat same_append_eq)
qed

lemma nat_digits_hd: "is_digit (hd (nat_digits n @ t))"
  using nat_digits_digits [of n] nat_digits_nonempty [of n] by (cases "nat_digits n") auto

lemma int_digits_prefix:
  assumes "int_digits i @ t = int_digits j @ u" "ends t" "ends u"
  shows "i = j \<and> t = u"
proof -
  have minus: "CHR ''-'' # x \<noteq> nat_digits n @ y" for x y n
  proof -
    have "\<not> is_digit CHR ''-''" by (simp add: is_digit_def)
    then show ?thesis using nat_digits_hd [of n y] by (metis list.sel(1))
  qed
  consider "i < 0" "j < 0" | "i < 0" "0 \<le> j" | "0 \<le> i" "j < 0" | "0 \<le> i" "0 \<le> j" by linarith
  then show ?thesis
  proof cases
    case 1
    then have "nat_digits (nat (- i)) @ t = nat_digits (nat (- j)) @ u"
      using assms(1) by (simp add: int_digits_def)
    from nat_digits_prefix [OF this assms(2,3)] 1 show ?thesis by auto
  next
    case 2
    then have "CHR ''-'' # nat_digits (nat (- i)) @ t = nat_digits (nat j) @ u"
      using assms(1) by (simp add: int_digits_def)
    then show ?thesis using minus by blast
  next
    case 3
    then have "CHR ''-'' # nat_digits (nat (- j)) @ u = nat_digits (nat i) @ t"
      using assms(1) by (simp add: int_digits_def)
    then show ?thesis using minus by blast
  next
    case 4
    then have "nat_digits (nat i) @ t = nat_digits (nat j) @ u"
      using assms(1) by (simp add: int_digits_def)
    from nat_digits_prefix [OF this assms(2,3)] 4 show ?thesis by auto
  qed
qed

subsection \<open>Sequences and whole values\<close>

text \<open>\<open>unamb f P x\<close>: the text of \<open>x\<close> determines \<open>x\<close>, whatever follows it.\<close>

definition unamb :: "('a \<Rightarrow> string) \<Rightarrow> ('a \<Rightarrow> bool) \<Rightarrow> 'a \<Rightarrow> bool" where
  "unamb f P x \<longleftrightarrow> (\<forall>y t u. P y \<longrightarrow> ends t \<longrightarrow> ends u \<longrightarrow> f x @ t = f y @ u \<longrightarrow> x = y \<and> t = u)"

lemma unambD: "unamb f P x \<Longrightarrow> f x @ t = f y @ u \<Longrightarrow> P y \<Longrightarrow> ends t \<Longrightarrow> ends u \<Longrightarrow> x = y \<and> t = u"
  unfolding unamb_def by blast

lemma join_comma_Cons: "join '','' (x # xs) = x @ concat (map ((#) CHR '','') xs)"
  by (induction xs) (simp_all add: join_Cons)

lemma tail_prefix:
  assumes "concat (map (\<lambda>x. CHR '','' # f x) xs) @ cl # t = concat (map (\<lambda>x. CHR '','' # f x) ys) @ cl # u"
    and "\<forall>x\<in>set xs. unamb f P x" "\<forall>y\<in>set ys. P y" "cl \<in> {CHR '']'', CHR ''}''}"
  shows "xs = ys \<and> t = u"
  using assms
proof (induction xs arbitrary: ys)
  case Nil
  then show ?case by (cases ys) auto
next
  case (Cons x xs)
  obtain y ys' where ys: "ys = y # ys'" using Cons.prems(1,4) by (cases ys) auto
  let ?r = "\<lambda>zs v. concat (map (\<lambda>x. CHR '','' # f x) zs) @ cl # v"
  have eq: "f x @ ?r xs t = f y @ ?r ys' u" using Cons.prems(1) ys by simp
  have e: "ends (?r zs v)" for zs v using Cons.prems(4) by (cases zs) auto
  have xy: "x = y \<and> ?r xs t = ?r ys' u"
    by (rule unambD [of f P x]) (use Cons.prems ys e eq in auto)
  then have "xs = ys' \<and> t = u" using Cons.prems ys by (intro Cons.IH) auto
  with xy ys show ?case by simp
qed

lemma seq_prefix:
  assumes eq: "join '','' (map f xs) @ cl # t = join '','' (map f ys) @ cl # u"
    and u: "\<forall>x\<in>set xs. unamb f P x" and P: "\<forall>y\<in>set ys. P y" and cl: "cl \<in> {CHR '']'', CHR ''}''}"
    and ne: "\<And>z v w. z \<in> set xs \<union> set ys \<Longrightarrow> f z @ v \<noteq> cl # w"
  shows "xs = ys \<and> t = u"
proof (cases xs)
  case Nil
  then show ?thesis
  proof (cases ys)
    case (Cons y ys')
    then have "f y @ concat (map ((#) CHR '','') (map f ys')) @ cl # u = cl # t"
      using eq Nil by (simp add: join_comma_Cons)
    then show ?thesis using ne Cons by auto
  qed (use Nil eq in simp)
next
  case (Cons x xs')
  show ?thesis
  proof (cases ys)
    case Nil
    then have "f x @ concat (map ((#) CHR '','') (map f xs')) @ cl # t = cl # u"
      using eq Cons by (simp add: join_comma_Cons)
    then show ?thesis using ne \<open>xs = x # xs'\<close> by auto
  next
    case (Cons y ys')
    have "concat (map (\<lambda>x. CHR '','' # f x) xs) @ cl # t = concat (map (\<lambda>x. CHR '','' # f x) ys) @ cl # u"
      using eq \<open>xs = x # xs'\<close> Cons by (simp add: join_comma_Cons comp_def)
    then show ?thesis using u P cl by (rule tail_prefix)
  qed
qed

text \<open>Values as \<open>json.loads\<close> builds them: fresh containers and string keys.\<close>

fun json_plain :: "pyval \<Rightarrow> bool" where
  "json_plain (VList i xs) = (i = None \<and> list_all json_plain xs)"
| "json_plain (VDict i kvs) = (i = None \<and> list_all (\<lambda>(k, v). k \<noteq> KObj \<and> json_plain v) kvs)"
| "json_plain VOther = False"
| "json_plain v = True"

lemma json_dumps_hd:
  "json_plain v \<Longrightarrow> json_dumps v \<noteq> [] \<and> hd (json_dumps v) \<notin> {CHR '']'', CHR ''}'', CHR '','', CHR '':''}"
proof (induction v)
  case (VInt i)
  have "int_digits i \<noteq> []" "hd (int_digits i) = CHR ''-'' \<or> is_digit (hd (int_digits i))"
    using nat_digits_hd [of "nat (- i)" "[]"] nat_digits_hd [of "nat i" "[]"] nat_digits_nonempty
    by (auto simp: int_digits_def)
  moreover have "\<not> is_digit CHR '']''" "\<not> is_digit CHR ''}''" "\<not> is_digit CHR '',''" "\<not> is_digit CHR '':''"
    by (simp_all add: is_digit_def)
  ultimately show ?case by auto
qed (auto simp: json_string_def)

lemma json_dumps_not_close: "json_plain v \<Longrightarrow> cl \<in> {CHR '']'', CHR ''}''} \<Longrightarrow> json_dumps v @ x \<noteq> cl # y"
  using json_dumps_hd [of v] by (cases "json_dumps v") auto

definition json_item :: "pykey \<times> pyval \<Rightarrow> string" where
  "json_item kv = json_string (key_text (fst kv)) @ '':'' @ json_dumps (snd kv)"

definition item_plain :: "pykey \<times> pyval \<Rightarrow> bool" where
  "item_plain kv \<longleftrightarrow> fst kv \<noteq> KObj \<and> json_plain (snd kv)"

lemma json_dumps_dict: "json_dumps (VDict i kvs) = CHR ''{'' # join '','' (map json_item kvs) @ ''}''"
proof -
  have "map (\<lambda>(k, v). json_string (key_text k) @ '':'' @ json_dumps v) kvs = map json_item kvs"
    by (simp add: json_item_def split_def)
  then show ?thesis unfolding json_dumps.simps by (simp only: append.simps)
qed

lemma json_plain_dict: "json_plain (VDict i kvs) \<longleftrightarrow> i = None \<and> list_all item_plain kvs"
  by (auto simp: list_all_iff item_plain_def split: prod.splits)

lemma json_item_unamb:
  assumes "unamb json_dumps json_plain (snd kv)" "fst kv \<noteq> KObj"
  shows "unamb json_item item_plain kv"
  unfolding unamb_def
proof (intro allI impI)
  fix kv' t u assume a: "item_plain kv'" "ends t" "ends u" "json_item kv @ t = json_item kv' @ u"
  then have "json_string (key_text (fst kv)) @ CHR '':'' # json_dumps (snd kv) @ t =
      json_string (key_text (fst kv')) @ CHR '':'' # json_dumps (snd kv') @ u"
    by (simp add: json_item_def)
  from json_string_prefix [OF this] have k: "key_text (fst kv) = key_text (fst kv')"
    and v: "json_dumps (snd kv) @ t = json_dumps (snd kv') @ u" by auto
  have "snd kv = snd kv' \<and> t = u" by (rule unambD [OF assms(1) v]) (use a in \<open>auto simp: item_plain_def\<close>)
  moreover have "fst kv = fst kv'"
    using k assms(2) a(1) by (cases "fst kv"; cases "fst kv'") (auto simp: key_text_def item_plain_def)
  ultimately show "kv = kv' \<and> t = u" by (simp add: prod_eq_iff)
qed

lemma json_item_hd: "json_item kv @ x \<noteq> CHR ''}'' # y"
  by (simp add: json_item_def json_string_def)

text \<open>Values of different kinds start with different characters.\<close>

fun kind_char :: "pyval \<Rightarrow> char" where
  "kind_char VNull = CHR ''n''"
| "kind_char (VBool b) = (if b then CHR ''t'' else CHR ''f'')"
| "kind_char (VInt i) = CHR ''0''"
| "kind_char (VStr s) = CHR 0x22"
| "kind_char VOther = CHR ''o''"
| "kind_char (VList i xs) = CHR ''[''"
| "kind_char (VDict i kvs) = CHR ''{''"

definition numeric :: "char \<Rightarrow> bool" where
  "numeric c \<longleftrightarrow> c = CHR ''-'' \<or> is_digit c"

lemma json_dumps_kind:
  assumes "json_plain v"
  shows "(if numeric (hd (json_dumps v @ t)) then CHR ''0'' else hd (json_dumps v @ t)) = kind_char v"
proof (cases v)
  case (VInt i)
  then show ?thesis
    using nat_digits_hd [of "nat i" t] by (auto simp: int_digits_def numeric_def)
qed (use assms in \<open>auto simp: numeric_def is_digit_def json_string_def\<close>)

lemma json_dumps_same_kind:
  "json_dumps v @ t = json_dumps w @ u \<Longrightarrow> json_plain v \<Longrightarrow> json_plain w \<Longrightarrow> kind_char v = kind_char w"
  using json_dumps_kind [of v t] json_dumps_kind [of w u] by metis

lemma json_dumps_unamb: "json_plain v \<Longrightarrow> unamb json_dumps json_plain v"
proof (induction v)
  case (VList i xs)
  show ?case unfolding unamb_def
  proof (intro allI impI)
    fix w t u assume a: "json_plain w" "ends t" "ends u" "json_dumps (VList i xs) @ t = json_dumps w @ u"
    obtain j ys where w: "w = VList j ys"
      using json_dumps_same_kind [OF a(4) VList.prems a(1)] by (cases w) (auto split: if_splits)
    have "join '','' (map json_dumps xs) @ CHR '']'' # t = join '','' (map json_dumps ys) @ CHR '']'' # u"
      using a(4) w by simp
    then have "xs = ys \<and> t = u"
    proof (rule seq_prefix)
      show "\<forall>x\<in>set xs. unamb json_dumps json_plain x" using VList by (simp add: list_all_iff)
      show "\<forall>y\<in>set ys. json_plain y" using a(1) w by (simp add: list_all_iff)
      show "json_dumps z @ v \<noteq> CHR '']'' # x" if "z \<in> set xs \<union> set ys" for z v x
        using that a(1) w VList.prems by (intro json_dumps_not_close) (auto simp: list_all_iff)
    qed simp
    then show "VList i xs = w \<and> t = u" using w a(1) VList.prems by simp
  qed
next
  case (VDict i kvs)
  show ?case unfolding unamb_def
  proof (intro allI impI)
    fix w t u assume a: "json_plain w" "ends t" "ends u" "json_dumps (VDict i kvs) @ t = json_dumps w @ u"
    obtain j ys where w: "w = VDict j ys"
      using json_dumps_same_kind [OF a(4) VDict.prems a(1)] by (cases w) (auto split: if_splits)
    have p: "list_all item_plain kvs" "list_all item_plain ys" "i = None" "j = None"
      using VDict.prems a(1) w by (simp_all only: json_plain_dict)
    have "join '','' (map json_item kvs) @ CHR ''}'' # t = join '','' (map json_item ys) @ CHR ''}'' # u"
      using a(4) unfolding w json_dumps_dict by simp
    then have "kvs = ys \<and> t = u"
    proof (rule seq_prefix)
      show "\<forall>x\<in>set kvs. unamb json_item item_plain x"
      proof
        fix kv assume kv: "kv \<in> set kvs"
        then have "item_plain kv" using p(1) by (simp add: list_all_iff)
        moreover have "unamb json_dumps json_plain (snd kv)"
          using VDict.IH [OF kv, of "snd kv"] calculation by (cases kv) (auto simp: item_plain_def)
        ultimately show "unamb json_item item_plain kv" by (intro json_item_unamb) (auto simp: item_plain_def)
      qed
      show "\<forall>y\<in>set ys. item_plain y" using p(2) by (simp add: list_all_iff)
    qed (auto simp: json_item_hd)
    then show "VDict i kvs = w \<and> t = u" using w p by simp
  qed
next
  case (VStr s)
  show ?case unfolding unamb_def
  proof (intro allI impI)
    fix w t u assume a: "json_plain w" "json_dumps (VStr s) @ t = json_dumps w @ u"
    obtain s' where w: "w = VStr s'"
      using json_dumps_same_kind [OF a(2) VStr.prems a(1)] by (cases w) (auto split: if_splits)
    then show "VStr s = w \<and> t = u" using a(2) json_string_prefix [of s t s' u] by simp
  qed
next
  case (VInt i)
  show ?case unfolding unamb_def
  proof (intro allI impI)
    fix w t u assume a: "json_plain w" "ends t" "ends u" "json_dumps (VInt i) @ t = json_dumps w @ u"
    obtain j where w: "w = VInt j"
      using json_dumps_same_kind [OF a(4) VInt.prems a(1)] by (cases w) (auto split: if_splits)
    then show "VInt i = w \<and> t = u" using a(4) int_digits_prefix [OF _ a(2,3), of i j] by simp
  qed
next
  case (VBool b)
  show ?case unfolding unamb_def
  proof (intro allI impI)
    fix w t u assume a: "json_plain w" "json_dumps (VBool b) @ t = json_dumps w @ u"
    obtain b' where w: "w = VBool b'"
      using json_dumps_same_kind [OF a(2) VBool.prems a(1)] by (cases w) (auto split: if_splits)
    then show "VBool b = w \<and> t = u" using a(2) by (auto split: if_splits)
  qed
next
  case VNull
  show ?case unfolding unamb_def
  proof (intro allI impI)
    fix w t u assume a: "json_plain w" "json_dumps VNull @ t = json_dumps w @ u"
    have w: "w = VNull"
      using json_dumps_same_kind [OF a(2) VNull.prems a(1)] by (cases w) (auto split: if_splits)
    then show "VNull = w \<and> t = u" using a(2) by simp
  qed
qed simp

theorem json_dumps_inj: "json_plain v \<Longrightarrow> json_plain w \<Longrightarrow> json_dumps v = json_dumps w \<Longrightarrow> v = w"
  using unambD [OF json_dumps_unamb, of v "[]" w "[]"] by (simp add: ends_def)

subsection \<open>The size of a text\<close>

lemma utf8_length_le: "utf8_length s \<le> 2 * length s"
  by (induction s) (auto simp: utf8_length_def)

lemma json_string_length: "length (json_string s) \<le> 6 * length s + 2"
proof -
  have "length (json_escape c) \<le> 6" for c by (simp add: json_escape_def Let_def)
  then have "length (concat (map json_escape s)) \<le> 6 * length s"
    by (induction s) (auto simp: add_mono)
  then show ?thesis by (simp add: json_string_def)
qed

lemma join_length: "length (join '','' xs) \<le> sum_list (map (\<lambda>x. length x + 1) xs)"
  by (cases xs) (simp_all add: join_comma_Cons length_concat comp_def)

lemma json_dict_length:
  "length (json_dumps (VDict None kvs)) \<le> 2 + sum_list (map (\<lambda>kv. length (json_item kv) + 1) kvs)"
  using join_length [of "map json_item kvs"] unfolding json_dumps_dict by (simp add: comp_def)

lemma json_item_length:
  "length (json_item (KStr k, v)) \<le> 6 * length k + 3 + length (json_dumps v)"
  using json_string_length [of k] by (simp add: json_item_def key_text_def)

subsection \<open>Members of canonical objects\<close>

definition json_items :: "(pykey \<times> pyval) list \<Rightarrow> bool" where
  "json_items kvs \<longleftrightarrow> distinct (map fst kvs) \<and> KObj \<notin> fst ` set kvs"

definition canon_items :: "(pykey \<times> pyval) list \<Rightarrow> (pykey \<times> pyval) list" where
  "canon_items kvs = sort_key (\<lambda>(k, v). key_text k) (map (\<lambda>(k, v). (k, canon v)) kvs)"

lemma canon_VDict: "canon (VDict i kvs) = VDict None (canon_items kvs)"
  by (simp add: canon_items_def)

lemma canon_items_Nil [simp]: "canon_items [] = []"
  by (simp add: canon_items_def)

lemma canon_items_Cons: "canon_items ((k, v) # kvs) = insort_key (\<lambda>(k, v). key_text k) (k, canon v) (canon_items kvs)"
  by (simp add: canon_items_def sort_key_def)

lemma set_canon_items: "set (canon_items kvs) = (\<lambda>(k, v). (k, canon v)) ` set kvs"
  by (simp add: canon_items_def)

lemma snd_canon_items: "snd ` set (canon_items kvs) = canon ` snd ` set kvs"
proof -
  have "snd ` (\<lambda>(k, v). (k, canon v)) ` S = canon ` snd ` S" for S :: "(pykey \<times> pyval) set" by force
  then show ?thesis by (simp only: set_canon_items)
qed

lemma fst_map_canon: "map fst (map (\<lambda>(k, v). (k, canon v)) kvs) = map fst kvs"
  by (induction kvs) auto

lemma distinct_canon_items: "distinct (map fst (canon_items kvs)) = distinct (map fst kvs)"
proof -
  have "mset (map fst (sort_key f m)) = mset (map fst m)" for f :: "pykey \<times> pyval \<Rightarrow> string" and m
    by (simp add: mset_map)
  then have "mset (map fst (canon_items kvs)) = mset (map fst kvs)"
    by (simp only: canon_items_def fst_map_canon)
  then show ?thesis by (rule mset_eq_imp_distinct_iff)
qed

lemma json_items_canon [simp]: "json_items (canon_items kvs) = json_items kvs"
proof -
  have "fst ` set (canon_items kvs) = fst ` set kvs" by (force simp: set_canon_items)
  then show ?thesis by (simp add: json_items_def distinct_canon_items)
qed

lemma map_of_map_canon: "map_of (map (\<lambda>(k, v). (k, canon v)) kvs) k = map_option canon (map_of kvs k)"
  by (induction kvs) auto

lemma map_of_canon_items:
  assumes "json_items kvs"
  shows "map_of (canon_items kvs) k = map_option canon (map_of kvs k)"
proof -
  let ?m = "map (\<lambda>(k, v). (k, canon v)) kvs"
  have "distinct (map fst ?m)" using assms by (simp add: json_items_def comp_def split_def)
  moreover have "set (canon_items kvs) = set ?m" by (simp add: canon_items_def)
  ultimately have "map_of (canon_items kvs) = map_of ?m"
    using assms distinct_canon_items by (intro map_of_set_eq) (auto simp: dict_ok_def json_items_def)
  then show ?thesis by (simp add: map_of_map_canon)
qed

lemma json_items_update [simp]: "json_items kvs \<Longrightarrow> json_items (AList.update (KStr k) v kvs)"
  by (auto simp: json_items_def distinct_update dom_update)

lemma json_items_filter [simp]: "json_items kvs \<Longrightarrow> json_items (filter P kvs)"
  by (auto simp: json_items_def distinct_map_filter)

lemma canon_idem [simp]: "canon (canon v) = canon v"
proof (induction v rule: canon.induct)
  case (2 i kvs)
  let ?key = "\<lambda>(k, v :: pyval). key_text k" and ?g = "\<lambda>(k, v). (k, canon v)"
  let ?s = "sort_key ?key (map ?g kvs)"
  have "map ?g ?s = ?s"
    by (rule map_idI) (use 2 in auto)
  then show ?case by (simp add: sort_key_id_if_sorted)
qed auto

lemma canon_items_canonical [simp]: "canon_items (canon_items kvs) = canon_items kvs"
  using canon_idem [of "VDict None kvs"] unfolding canon_VDict by (rule pyval.inject(5) [THEN iffD1, THEN conjunct2])

end
