(* ===== verification/Job_Payload.thy ===== *)
theory Job_Payload
  imports Py_Regex Py_Json
begin

text \<open>
  Validation of job payloads: the explicit-stack walk \<open>_validate_payload_structure\<close>, the
  sensitive-key test and \<open>_safe_payload\<close> of \<open>jobs.py\<close>. The walk is shown to accept exactly
  the payloads within the published limits, and the copy it stores to be accepted again when
  the registry is read back.
\<close>

subsection \<open>Errors\<close>

datatype job_error =
    ValueError string
  | TypeError string
  | JobQueueError string
  | JobQueueCapacityError string
  | KeyError string

subsection \<open>Limits and sensitive keys\<close>

definition MAX_JOB_PAYLOAD_BYTES :: nat where "MAX_JOB_PAYLOAD_BYTES = 64 * 1024"
definition MAX_JOB_PAYLOAD_DEPTH :: nat where "MAX_JOB_PAYLOAD_DEPTH = 16"
definition MAX_JOB_PAYLOAD_KEYS :: nat where "MAX_JOB_PAYLOAD_KEYS = 512"
definition MAX_JOB_PAYLOAD_ITEMS :: nat where "MAX_JOB_PAYLOAD_ITEMS = 4096"
definition MAX_JOB_PAYLOAD_KEY_BYTES :: nat where "MAX_JOB_PAYLOAD_KEY_BYTES = 128"

lemmas payload_limits =
  MAX_JOB_PAYLOAD_BYTES_def MAX_JOB_PAYLOAD_DEPTH_def MAX_JOB_PAYLOAD_KEYS_def
  MAX_JOB_PAYLOAD_ITEMS_def MAX_JOB_PAYLOAD_KEY_BYTES_def

definition SENSITIVE_KEYS :: "string list" where
  "SENSITIVE_KEYS =
     [''authorization'', ''cookie'', ''credential'', ''password'', ''secret'', ''token'']"

definition SENSITIVE_COMPACT_KEYS :: "string list" where
  "SENSITIVE_COMPACT_KEYS =
     [''accesstoken'', ''apikey'', ''clientsecret'', ''privatekey'', ''refreshtoken'',
      ''sessioncookie'']"

text \<open>\<open>re.sub(r"(?<=[a-z0-9])(?=[A-Z])", "_", key)\<close>\<close>

fun camel_boundaries :: "string \<Rightarrow> string" where
  "camel_boundaries (c # d # s) =
     (if in_class [lower, digit] c \<and> in_class [upper] d
      then c # CHR ''_'' # camel_boundaries (d # s) else c # camel_boundaries (d # s))"
| "camel_boundaries s = s"

text \<open>\<open>re.split(r"[^A-Za-z0-9]+", s)\<close> without its empty parts.\<close>

fun alnum_parts :: "string \<Rightarrow> string \<Rightarrow> string list" where
  "alnum_parts acc [] = (if acc = [] then [] else [rev acc])"
| "alnum_parts acc (c # s) =
     (if in_class [upper, lower, digit] c then alnum_parts (c # acc) s
      else (if acc = [] then [] else [rev acc]) @ alnum_parts [] s)"

definition is_sensitive_payload_key :: "string \<Rightarrow> bool" where
  "is_sensitive_payload_key key =
     (let ordered_parts = alnum_parts [] (casefold (camel_boundaries key));
          compact = concat ordered_parts
      in list_ex (\<lambda>part. List.member SENSITIVE_KEYS part) ordered_parts
         \<or> List.member SENSITIVE_COMPACT_KEYS compact)"

subsection \<open>The structural walk\<close>

definition control_char :: "char \<Rightarrow> bool" where
  "control_char c = ((of_char c :: nat) < 32 \<or> (of_char c :: nat) = 127)"

definition key_shape_ok :: "string \<Rightarrow> bool" where
  "key_shape_ok key =
     (1 \<le> utf8_length key \<and> utf8_length key \<le> MAX_JOB_PAYLOAD_KEY_BYTES
      \<and> \<not> list_ex control_char key)"

text \<open>The loop over \<open>value.items()\<close>: the checks of each key, in the order of the source.\<close>

fun scan_keys :: "nat \<Rightarrow> (pykey \<times> pyval) list \<Rightarrow> job_error + nat" where
  "scan_keys key_count [] = Inr key_count"
| "scan_keys key_count ((KObj, nested) # items) =
     Inl (JobQueueError ''job payload keys must be strings'')"
| "scan_keys key_count ((KStr key, nested) # items) =
     (if \<not> key_shape_ok key then Inl (JobQueueError ''job payload contains an invalid key'')
      else if MAX_JOB_PAYLOAD_KEYS < key_count + 1
      then Inl (JobQueueError ''job payload exceeds its key limit'')
      else if is_sensitive_payload_key key
      then Inl (JobQueueError ''job payload contains a sensitive field'')
      else scan_keys (key_count + 1) items)"

definition already_seen :: "nat option \<Rightarrow> nat list \<Rightarrow> bool" where
  "already_seen i seen = (case i of None \<Rightarrow> False | Some n \<Rightarrow> List.member seen n)"

definition note_seen :: "nat option \<Rightarrow> nat list \<Rightarrow> nat list" where
  "note_seen i seen = (case i of None \<Rightarrow> seen | Some n \<Rightarrow> n # seen)"

fun nodes :: "pyval \<Rightarrow> nat" where
  "nodes (VList i xs) = Suc (sum_list (map nodes xs))"
| "nodes (VDict i kvs) = Suc (sum_list (map (\<lambda>(k, v). nodes v) kvs))"
| "nodes v = 1"

definition stack_nodes :: "(pyval \<times> nat) list \<Rightarrow> nat" where
  "stack_nodes st = sum_list (map (\<lambda>(v, d). nodes v) st)"

lemma stack_nodes_simps [simp]:
  "stack_nodes [] = 0"
  "stack_nodes ((v, d) # st) = nodes v + stack_nodes st"
  "stack_nodes (s @ t) = stack_nodes s + stack_nodes t"
  "stack_nodes (rev s) = stack_nodes s"
  by (simp_all add: stack_nodes_def rev_map [symmetric])

lemma stack_nodes_push [simp]:
  "stack_nodes (map (\<lambda>v. (v, d)) xs) = sum_list (map nodes xs)"
  "stack_nodes (map (\<lambda>(k, v). (v, d)) kvs) = sum_list (map (\<lambda>(k, v). nodes v) kvs)"
  "stack_nodes (map (\<lambda>p. (snd p, d)) kvs) = sum_list (map (\<lambda>p. nodes (snd p)) kvs)"
  by (simp_all add: stack_nodes_def comp_def split_def)

text \<open>
  The stack holds its top at the head; \<open>stack.append\<close> in a loop and \<open>stack.extend\<close> leave
  the last element on top.
\<close>

function validate_loop ::
  "(pyval \<times> nat) list \<Rightarrow> nat list \<Rightarrow> nat \<Rightarrow> nat \<Rightarrow> job_error + unit" where
  "validate_loop [] seen key_count item_count = Inr ()"
| "validate_loop ((value, depth) # stack) seen key_count item_count =
     (if MAX_JOB_PAYLOAD_ITEMS < item_count + 1
      then Inl (JobQueueError ''job payload exceeds its item limit'')
      else if MAX_JOB_PAYLOAD_DEPTH < depth
      then Inl (JobQueueError ''job payload exceeds its depth limit'')
      else case value of
        VDict i items \<Rightarrow>
          if already_seen i seen
          then Inl (JobQueueError ''job payload must be an acyclic JSON object'')
          else (case scan_keys key_count items of
                  Inl e \<Rightarrow> Inl e
                | Inr key_count' \<Rightarrow>
                    validate_loop (rev (map (\<lambda>(k, v). (v, depth + 1)) items) @ stack)
                      (note_seen i seen) key_count' (item_count + 1))
      | VList i items \<Rightarrow>
          if already_seen i seen
          then Inl (JobQueueError ''job payload must be an acyclic JSON object'')
          else validate_loop (rev (map (\<lambda>v. (v, depth + 1)) items) @ stack)
                 (note_seen i seen) key_count (item_count + 1)
      | _ \<Rightarrow> validate_loop stack seen key_count (item_count + 1))"
  by pat_completeness auto
termination
  by (relation "measure (\<lambda>(st, _, _, _). stack_nodes st)") auto

definition validate_payload_structure :: "pyval \<Rightarrow> job_error + unit" where
  "validate_payload_structure payload = validate_loop [(payload, 1)] [] 0 0"

subsection \<open>What the walk accepts\<close>

text \<open>
  The declarative reading of the limits: the number of values, the nesting depth, the number
  of keys, the shape of every key, and no container reached twice.
\<close>

fun nesting :: "pyval \<Rightarrow> nat" where
  "nesting (VList i xs) = Suc (foldr max (map nesting xs) 0)"
| "nesting (VDict i kvs) = Suc (foldr max (map (\<lambda>(k, v). nesting v) kvs) 0)"
| "nesting v = 1"

fun key_total :: "pyval \<Rightarrow> nat" where
  "key_total (VList i xs) = sum_list (map key_total xs)"
| "key_total (VDict i kvs) = length kvs + sum_list (map (\<lambda>(k, v). key_total v) kvs)"
| "key_total v = 0"

definition key_allowed :: "pykey \<Rightarrow> bool" where
  "key_allowed k =
     (case k of KObj \<Rightarrow> False | KStr s \<Rightarrow> key_shape_ok s \<and> \<not> is_sensitive_payload_key s)"

fun keys_allowed :: "pyval \<Rightarrow> bool" where
  "keys_allowed (VList i xs) = list_all keys_allowed xs"
| "keys_allowed (VDict i kvs) = list_all (\<lambda>(k, v). key_allowed k \<and> keys_allowed v) kvs"
| "keys_allowed v = True"

definition ident_mset :: "nat option \<Rightarrow> nat multiset" where
  "ident_mset i = (case i of None \<Rightarrow> {#} | Some n \<Rightarrow> {#n#})"

fun idents :: "pyval \<Rightarrow> nat multiset" where
  "idents (VList i xs) = ident_mset i + sum_list (map idents xs)"
| "idents (VDict i kvs) = ident_mset i + sum_list (map (\<lambda>(k, v). idents v) kvs)"
| "idents v = {#}"

definition within_limits :: "pyval \<Rightarrow> bool" where
  "within_limits v \<longleftrightarrow>
     nodes v \<le> MAX_JOB_PAYLOAD_ITEMS \<and> nesting v \<le> MAX_JOB_PAYLOAD_DEPTH
     \<and> key_total v \<le> MAX_JOB_PAYLOAD_KEYS \<and> keys_allowed v \<and> (\<forall>n. count (idents v) n \<le> 1)"

subsection \<open>The walk accepts exactly the payloads within the limits\<close>

definition stack_sum :: "(pyval \<Rightarrow> 'b::comm_monoid_add) \<Rightarrow> (pyval \<times> nat) list \<Rightarrow> 'b" where
  "stack_sum f st = sum_list (map (\<lambda>(v, d). f v) st)"

lemma stack_sum_simps [simp]:
  "stack_sum f [] = 0"
  "stack_sum f ((v, d) # st) = f v + stack_sum f st"
  "stack_sum f (s @ t) = stack_sum f s + stack_sum f t"
  "stack_sum f (rev s) = stack_sum f s"
  by (simp_all add: stack_sum_def rev_map [symmetric])

lemma stack_sum_push [simp]:
  "stack_sum f (map (\<lambda>v. (v, d)) xs) = sum_list (map f xs)"
  "stack_sum f (map (\<lambda>(k, v). (v, d)) kvs) = sum_list (map (\<lambda>(k, v). f v) kvs)"
  "stack_sum f (map (\<lambda>p. (snd p, d)) kvs) = sum_list (map (\<lambda>p. f (snd p)) kvs)"
  by (simp_all add: stack_sum_def comp_def split_def)

lemma stack_nodes_eq: "stack_nodes st = stack_sum nodes st"
  by (simp add: stack_nodes_def stack_sum_def)

lemma foldr_max_le: "foldr max ns (0::nat) \<le> b \<longleftrightarrow> (\<forall>n \<in> set ns. n \<le> b)"
  by (induction ns) auto

lemma scan_keys_iff:
  "kc \<le> MAX_JOB_PAYLOAD_KEYS \<Longrightarrow>
   scan_keys kc items = Inr kc' \<longleftrightarrow>
     kc' = kc + length items \<and> kc' \<le> MAX_JOB_PAYLOAD_KEYS \<and> (\<forall>(k, v) \<in> set items. key_allowed k)"
  by (induction kc items rule: scan_keys.induct) (auto simp: key_allowed_def)

lemma scan_keys_cases:
  assumes "kc \<le> MAX_JOB_PAYLOAD_KEYS"
  obtains e where "scan_keys kc items = Inl e"
      "\<not> (kc + length items \<le> MAX_JOB_PAYLOAD_KEYS \<and> (\<forall>(k, v) \<in> set items. key_allowed k))"
  | "scan_keys kc items = Inr (kc + length items)" "kc + length items \<le> MAX_JOB_PAYLOAD_KEYS"
      "\<forall>(k, v) \<in> set items. key_allowed k"
  using scan_keys_iff [OF assms] by (metis (no_types, lifting) sum.exhaust)

definition fresh_idents :: "nat multiset \<Rightarrow> nat list \<Rightarrow> bool" where
  "fresh_idents M seen \<longleftrightarrow> (\<forall>n. count M n \<le> 1) \<and> (\<forall>n \<in> set seen. count M n = 0)"

definition stack_ok :: "(pyval \<times> nat) list \<Rightarrow> nat list \<Rightarrow> nat \<Rightarrow> nat \<Rightarrow> bool" where
  "stack_ok st seen kc ic \<longleftrightarrow>
     ic + stack_nodes st \<le> MAX_JOB_PAYLOAD_ITEMS
     \<and> (\<forall>(v, d) \<in> set st. d + nesting v \<le> Suc MAX_JOB_PAYLOAD_DEPTH)
     \<and> kc + stack_sum key_total st \<le> MAX_JOB_PAYLOAD_KEYS
     \<and> (\<forall>(v, d) \<in> set st. keys_allowed v)
     \<and> fresh_idents (stack_sum idents st) seen"

lemma nodes_positive: "1 \<le> nodes v"
  by (cases v) auto

lemma nesting_positive: "1 \<le> nesting v"
  by (cases v) auto

lemma stack_ok_over_items: "MAX_JOB_PAYLOAD_ITEMS < ic + 1 \<Longrightarrow> \<not> stack_ok ((v, d) # st) seen kc ic"
  using nodes_positive [of v] by (auto simp: stack_ok_def)

lemma stack_ok_over_depth: "MAX_JOB_PAYLOAD_DEPTH < d \<Longrightarrow> \<not> stack_ok ((v, d) # st) seen kc ic"
  using nesting_positive [of v] by (auto simp: stack_ok_def)

lemma stack_ok_already_seen:
  assumes "already_seen i seen"
  shows "\<not> stack_ok ((VList i xs, d) # st) seen kc ic" "\<not> stack_ok ((VDict i kvs, d) # st) seen kc ic"
  using assms by (auto simp: stack_ok_def fresh_idents_def already_seen_def ident_mset_def split: option.splits)

lemma fresh_idents_push:
  assumes "\<not> already_seen i seen"
  shows "fresh_idents (ident_mset i + M) seen \<longleftrightarrow> fresh_idents M (note_seen i seen)"
proof (cases i)
  case (Some m)
  with assms have m: "m \<notin> set seen" by (simp add: already_seen_def)
  have "(\<forall>n. count (add_mset m M) n \<le> 1) \<longleftrightarrow> (\<forall>n. count M n \<le> 1) \<and> count M m = 0"
    by (auto simp: le_Suc_eq)
  moreover have "(\<forall>n \<in> set seen. count (add_mset m M) n = 0) \<longleftrightarrow> (\<forall>n \<in> set seen. count M n = 0)"
    using m by auto
  ultimately show ?thesis
    using Some by (simp add: fresh_idents_def ident_mset_def note_seen_def conj_assoc)
qed (simp add: fresh_idents_def ident_mset_def note_seen_def)

lemma nesting_push:
  assumes "d \<le> MAX_JOB_PAYLOAD_DEPTH"
  shows "d + Suc (foldr max ns 0) \<le> Suc MAX_JOB_PAYLOAD_DEPTH \<longleftrightarrow>
      (\<forall>n \<in> set ns. d + 1 + n \<le> Suc MAX_JOB_PAYLOAD_DEPTH)"
  using assms foldr_max_le [of ns "MAX_JOB_PAYLOAD_DEPTH - d"] by (simp add: le_diff_conv2 add.commute)

lemma stack_ok_list:
  assumes "d \<le> MAX_JOB_PAYLOAD_DEPTH" and "\<not> already_seen i seen"
  shows "stack_ok ((VList i xs, d) # st) seen kc ic \<longleftrightarrow>
    stack_ok (rev (map (\<lambda>v. (v, d + 1)) xs) @ st) (note_seen i seen) kc (ic + 1)"
  using nesting_push [OF assms(1), of "map nesting xs"] fresh_idents_push [OF assms(2)]
  by (simp add: stack_ok_def list_all_iff add.assoc ball_Un conj_ac)

lemma stack_ok_dict:
  assumes "d \<le> MAX_JOB_PAYLOAD_DEPTH" and "\<not> already_seen i seen"
  shows "stack_ok ((VDict i kvs, d) # st) seen kc ic \<longleftrightarrow>
    (\<forall>(k, v) \<in> set kvs. key_allowed k) \<and>
    stack_ok (rev (map (\<lambda>(k, v). (v, d + 1)) kvs) @ st) (note_seen i seen) (kc + length kvs) (ic + 1)"
proof -
  have "(\<forall>(k, v) \<in> set kvs. key_allowed k \<and> keys_allowed v) \<longleftrightarrow>
      (\<forall>(k, v) \<in> set kvs. key_allowed k) \<and> (\<forall>(k, v) \<in> set kvs. keys_allowed v)" by auto
  then show ?thesis
    using nesting_push [OF assms(1), of "map (\<lambda>(k, v). nesting v) kvs"] fresh_idents_push [OF assms(2)]
    by (simp add: stack_ok_def list_all_iff add.assoc ball_Un conj_ac split_def)
qed

lemma stack_ok_leaf:
  assumes "d \<le> MAX_JOB_PAYLOAD_DEPTH" and "\<And>i xs. v \<noteq> VList i xs" and "\<And>i kvs. v \<noteq> VDict i kvs"
  shows "stack_ok ((v, d) # st) seen kc ic \<longleftrightarrow> stack_ok st seen kc (ic + 1)"
  using assms by (cases v) (auto simp: stack_ok_def)

lemma validate_loop_iff:
  assumes "kc \<le> MAX_JOB_PAYLOAD_KEYS" and "ic \<le> MAX_JOB_PAYLOAD_ITEMS"
  shows "validate_loop st seen kc ic = Inr () \<longleftrightarrow> stack_ok st seen kc ic"
  using assms
proof (induction st seen kc ic rule: validate_loop.induct)
  case (1 seen kc ic)
  then show ?case by (simp add: stack_ok_def fresh_idents_def)
next
  case (2 v d st seen kc ic)
  show ?case
  proof (cases "MAX_JOB_PAYLOAD_ITEMS < ic + 1 \<or> MAX_JOB_PAYLOAD_DEPTH < d")
    case True
    then show ?thesis using stack_ok_over_items stack_ok_over_depth by auto
  next
    case False
    then have b: "\<not> MAX_JOB_PAYLOAD_ITEMS < ic + 1" "\<not> MAX_JOB_PAYLOAD_DEPTH < d"
        "d \<le> MAX_JOB_PAYLOAD_DEPTH" "ic + 1 \<le> MAX_JOB_PAYLOAD_ITEMS" by auto
    consider (d) i kvs where "v = VDict i kvs" | (l) i xs where "v = VList i xs"
      | (leaf) "\<And>i xs. v \<noteq> VList i xs" "\<And>i kvs. v \<noteq> VDict i kvs"
      by (cases v) auto
    then show ?thesis
    proof cases
      case (d i kvs)
      show ?thesis
      proof (cases "already_seen i seen")
        case True
        then show ?thesis using d b(1,2) stack_ok_already_seen by simp
      next
        case unseen: False
        from "2.prems"(1) show ?thesis
        proof (rule scan_keys_cases [of kc kvs])
          fix e assume "scan_keys kc kvs = Inl e"
            "\<not> (kc + length kvs \<le> MAX_JOB_PAYLOAD_KEYS \<and> (\<forall>(k, v) \<in> set kvs. key_allowed k))"
          then show ?thesis using d b(1,2) unseen stack_ok_dict [OF b(3) unseen]
            by (auto simp: stack_ok_def)
        next
          assume s: "scan_keys kc kvs = Inr (kc + length kvs)" "kc + length kvs \<le> MAX_JOB_PAYLOAD_KEYS"
            "\<forall>(k, v) \<in> set kvs. key_allowed k"
          show ?thesis
            using d b(1,2) unseen s stack_ok_dict [OF b(3) unseen, of kvs]
              "2.IH"(7) [OF b(1,2) d unseen s(1) s(2) b(4)] by auto
        qed
      qed
    next
      case (l i xs)
      show ?thesis
      proof (cases "already_seen i seen")
        case True
        then show ?thesis using l b(1,2) stack_ok_already_seen by simp
      next
        case unseen: False
        show ?thesis
          using l b(1,2) unseen stack_ok_list [OF b(3) unseen, of xs]
            "2.IH"(6) [OF b(1,2) l unseen "2.prems"(1) b(4)] by auto
      qed
    next
      case leaf
      then show ?thesis
        using b "2.IH" "2.prems"(1) stack_ok_leaf [OF b(3) leaf] by (cases v) auto
    qed
  qed
qed

text \<open>
  \<open>_validate_payload_structure\<close> accepts a payload exactly when it is within the limits,
  whatever the order in which the explicit stack visits it.
\<close>

lemma validate_payload_structure_iff:
  "validate_payload_structure p = Inr () \<longleftrightarrow> within_limits p"
  unfolding validate_payload_structure_def
  by (subst validate_loop_iff) (simp_all add: stack_ok_def fresh_idents_def within_limits_def)

subsection \<open>Encoding and the stored copy\<close>

fun is_mapping :: "pyval \<Rightarrow> bool" where
  "is_mapping (VDict i kvs) = True"
| "is_mapping v = False"

definition safe_payload :: "pyval \<Rightarrow> job_error + pyval" where
  "safe_payload payload =
     (if \<not> is_mapping payload then Inl (TypeError ''job payload must be an object'')
      else case validate_payload_structure payload of
        Inl e \<Rightarrow> Inl e
      | Inr _ \<Rightarrow>
          if \<not> json_safe payload then Inl (JobQueueError ''job payload must be JSON-safe'')
          else (let copied = canon payload in
                if MAX_JOB_PAYLOAD_BYTES < utf8_length (json_dumps copied)
                then Inl (JobQueueError ''job payload exceeds its size limit'')
                else Inr copied))"

subsection \<open>The stored copy is accepted again\<close>

lemma sum_list_sort_key: "sum_list (map g (sort_key f xs)) = (sum_list (map g xs) :: 'b::comm_monoid_add)"
  by (metis mset_map mset_sort sum_mset_sum_list)

lemma foldr_max_sort_key: "foldr max (map g (sort_key f xs)) (0::nat) = foldr max (map g xs) 0"
  by (rule antisym) (simp_all add: foldr_max_le, auto intro: order.trans [OF _ foldr_max_le [THEN iffD1, OF order_refl, rule_format]])

lemma list_all_sort_key: "list_all P (sort_key f xs) = list_all P xs"
  by (simp add: list_all_iff)

lemma canon_nodes [simp]: "nodes (canon v) = nodes v"
  by (induction v rule: canon.induct)
    (auto simp: sum_list_sort_key comp_def split_def intro!: arg_cong [where f = sum_list] map_cong)

lemma canon_key_total [simp]: "key_total (canon v) = key_total v"
  by (induction v rule: canon.induct)
    (auto simp: sum_list_sort_key comp_def split_def intro!: arg_cong [where f = sum_list] map_cong)

lemma canon_nesting [simp]: "nesting (canon v) = nesting v"
  by (induction v rule: canon.induct)
    (auto simp: foldr_max_sort_key comp_def split_def intro!: arg_cong [where f = "\<lambda>ns. foldr max ns 0"] map_cong)

lemma canon_keys_allowed [simp]: "keys_allowed (canon v) = keys_allowed v"
  by (induction v rule: canon.induct) (auto simp: list_all_iff)

lemma canon_json_safe [simp]: "json_safe (canon v) = json_safe v"
  by (induction v rule: canon.induct) (auto simp: list_all_iff)

lemma sum_list_all_zero: "(\<And>x. x \<in> set xs \<Longrightarrow> f x = 0) \<Longrightarrow> sum_list (map f xs) = (0 :: 'b::comm_monoid_add)"
  by (induction xs) auto

lemma canon_idents [simp]: "idents (canon v) = {#}"
  by (induction v rule: canon.induct)
    (auto simp: ident_mset_def sum_list_sort_key comp_def split_def intro!: sum_list_all_zero)

lemma canon_is_mapping [simp]: "is_mapping (canon v) = is_mapping v"
  by (cases v) auto

lemma within_limits_canon: "within_limits v \<Longrightarrow> within_limits (canon v)"
  by (simp add: within_limits_def)

lemma safe_payload_iff:
  "safe_payload p = Inr q \<longleftrightarrow>
     is_mapping p \<and> within_limits p \<and> json_safe p \<and> q = canon p
     \<and> utf8_length (json_dumps q) \<le> MAX_JOB_PAYLOAD_BYTES"
proof (cases "validate_payload_structure p")
  case (Inl e)
  then have "\<not> within_limits p" using validate_payload_structure_iff [of p] by simp
  with Inl show ?thesis by (simp add: safe_payload_def)
next
  case (Inr u)
  then have "within_limits p" using validate_payload_structure_iff [of p] by simp
  with Inr show ?thesis by (auto simp: safe_payload_def Let_def)
qed

lemma safe_payload_stored: "safe_payload p = Inr q \<Longrightarrow> safe_payload q = Inr q"
  by (auto simp: safe_payload_iff within_limits_canon)

lemma validate_payload_error_class:
  assumes "validate_loop st seen kc ic = Inl e" shows "\<exists>m. e = JobQueueError m"
proof -
  have "scan_keys kc items = Inl e \<Longrightarrow> \<exists>m. e = JobQueueError m" for kc items e
    by (induction kc items rule: scan_keys.induct) (auto split: if_splits)
  then show ?thesis
    using assms
    by (induction st seen kc ic rule: validate_loop.induct)
      (auto split: if_splits pyval.splits sum.splits)
qed

end
