(* ===== verification/Job_Queue.thy ===== *)
theory Job_Queue
  imports Job_Payload
begin

text \<open>
  The JSON reference queue \<open>DurableJobQueue\<close> of \<open>jobs.py\<close>: job records, the registry file and
  every operation on it. The file lock makes each operation one atomic step, so an operation is
  a function from the registry to its result and the next registry; a raised exception leaves
  the registry as it was.
\<close>

subsection \<open>Validators\<close>

definition job_type_pattern :: rx where
  "job_type_pattern =
     Seq (Cls [lower] 1 (Some 1)) (Seq (Cls [lower, digit, single CHR ''-''] 1 (Some 63))
       (Seq (Cls [single CHR ''.''] 1 (Some 1)) (Seq (Cls [lower] 1 (Some 1))
         (Cls [lower, digit, single CHR ''.'', single CHR ''_'', single CHR ''-''] 1 (Some 95)))))"

definition worker_id_pattern :: rx where
  "worker_id_pattern =
     Seq (Cls [upper, lower, digit] 1 (Some 1))
       (Cls [upper, lower, digit, single CHR ''.'', single CHR ''_'', single CHR '':'', single CHR ''-'']
         2 (Some 127))"

definition idempotency_key_pattern :: rx where
  "idempotency_key_pattern =
     Seq (Cls [upper, lower, digit] 1 (Some 1))
       (Cls [upper, lower, digit, single CHR ''.'', single CHR ''_'', single CHR '':'', single CHR ''/'',
             single CHR ''-''] 7 (Some 255))"

definition error_code_pattern :: rx where
  "error_code_pattern =
     Seq (Cls [lower] 1 (Some 1))
       (Cls [lower, digit, single CHR ''_'', single CHR ''.'', single CHR ''-''] 1 (Some 127))"

definition validate_job_type :: "string \<Rightarrow> job_error + string" where
  "validate_job_type v =
     (if fullmatch job_type_pattern v then Inr v else Inl (ValueError ''invalid namespaced job type''))"

definition owner_job_prefix :: "string \<Rightarrow> job_error + string" where
  "owner_job_prefix owner =
     (if fullmatch owner_pattern owner then Inr (owner @ ''.'')
      else Inl (ValueError ''invalid extension owner id''))"

definition validate_worker_id :: "string \<Rightarrow> job_error + string" where
  "validate_worker_id v =
     (if fullmatch worker_id_pattern v then Inr v else Inl (ValueError ''invalid worker id''))"

definition validate_idempotency_key :: "string \<Rightarrow> job_error + string" where
  "validate_idempotency_key v =
     (if fullmatch idempotency_key_pattern v then Inr v
      else Inl (ValueError ''invalid job idempotency key''))"

definition job_as_utc :: "datetime \<Rightarrow> job_error + int" where
  "job_as_utc d = utc_of (ValueError ''job timestamp must be timezone-aware'') d"

definition job_now :: "int \<Rightarrow> datetime option \<Rightarrow> job_error + int" where
  "job_now clock now = utc_or_now (ValueError ''job timestamp must be timezone-aware'') clock now"

subsection \<open>Records, configuration and the registry file\<close>

datatype job_status = QUEUED | RUNNING | SUCCEEDED | FAILED

record job_record =
  j_id :: string
  j_type :: string
  j_idempotency_key :: string
  j_payload :: pyval
  j_status :: job_status
  j_attempts :: int
  j_maximum_attempts :: int
  j_scheduled_at :: int
  j_created_at :: int
  j_updated_at :: int
  j_lease_owner :: "string option"
  j_lease_expires_at :: "int option"
  j_fencing_token :: int
  j_error_code :: "string option"

record queue_config =
  base_retry_delay :: int
  maximum_retry_delay :: int
  maximum_records :: int

definition HARD_MAXIMUM_JOB_RECORDS :: int where "HARD_MAXIMUM_JOB_RECORDS = 100000"
definition MAXIMUM_TERMINAL_PURGE_BATCH :: int where "MAXIMUM_TERMINAL_PURGE_BATCH = 1000"

text \<open>\<open>DurableJobQueue.__init__\<close>\<close>

definition make_queue :: "int \<Rightarrow> int \<Rightarrow> int \<Rightarrow> job_error + queue_config" where
  "make_queue base maxd recs =
     (if base \<le> 0 then Inl (ValueError ''base retry delay must be positive'')
      else if maxd < base then Inl (ValueError ''maximum retry delay cannot be below base delay'')
      else if \<not> (1 \<le> recs \<and> recs \<le> HARD_MAXIMUM_JOB_RECORDS)
      then Inl (ValueError ''maximum job records must be between 1 and 100000'')
      else Inr \<lparr>base_retry_delay = base, maximum_retry_delay = maxd, maximum_records = recs\<rparr>)"

text \<open>
  Validation of one record by its model: the payload validator, and the bounds on
  \<open>maximum_attempts\<close> and \<open>fencing_token\<close>.
\<close>

definition job_record_validate :: "job_record \<Rightarrow> job_error + job_record" where
  "job_record_validate r =
     (if \<not> is_mapping (j_payload r) then Inl (ValueError ''validation error'')
      else case safe_payload (j_payload r) of
        Inl e \<Rightarrow> Inl e
      | Inr p \<Rightarrow>
          if \<not> (1 \<le> j_maximum_attempts r \<and> j_maximum_attempts r \<le> 32) \<or> j_fencing_token r < 0
          then Inl (ValueError ''validation error'')
          else Inr (r\<lparr>j_payload := p\<rparr>))"

text \<open>The registry file: absent, or a version and a \<open>jobs\<close> member, \<open>None\<close> when that is no object.\<close>

datatype registry = NoFile | RegistryFile int "(string, job_record) dict option"

definition REGISTRY_VERSION :: int where "REGISTRY_VERSION = 1"

fun read_records :: "(string, job_record) dict \<Rightarrow> job_error + (string, job_record) dict" where
  "read_records [] = Inr []"
| "read_records ((k, r) # rest) =
     (case job_record_validate r of
        Inl e \<Rightarrow> Inl e
      | Inr r' \<Rightarrow> (case read_records rest of Inl e \<Rightarrow> Inl e | Inr d \<Rightarrow> Inr ((k, r') # d)))"

fun queue_read :: "registry \<Rightarrow> job_error + (string, job_record) dict" where
  "queue_read NoFile = Inr []"
| "queue_read (RegistryFile version jobs) =
     (if version \<noteq> REGISTRY_VERSION then Inl (JobQueueError ''unsupported job registry version'')
      else case jobs of
        None \<Rightarrow> Inl (JobQueueError ''job registry is malformed'')
      | Some d \<Rightarrow> read_records d)"

definition queue_write :: "(string, job_record) dict \<Rightarrow> registry" where
  "queue_write records = RegistryFile REGISTRY_VERSION (Some (dict_sorted records))"

subsection \<open>Operations\<close>

definition new_job :: "string \<Rightarrow> string \<Rightarrow> string \<Rightarrow> pyval \<Rightarrow> int \<Rightarrow> int \<Rightarrow> int \<Rightarrow> job_record" where
  "new_job uuid job_type idempotency_key payload maximum_attempts due timestamp =
     \<lparr>j_id = uuid, j_type = job_type, j_idempotency_key = idempotency_key, j_payload = payload,
      j_status = QUEUED, j_attempts = 0, j_maximum_attempts = maximum_attempts,
      j_scheduled_at = due, j_created_at = timestamp, j_updated_at = timestamp,
      j_lease_owner = None, j_lease_expires_at = None, j_fencing_token = 0, j_error_code = None\<rparr>"

definition enqueue ::
  "queue_config \<Rightarrow> int \<Rightarrow> string \<Rightarrow> string \<Rightarrow> pyval \<Rightarrow> string \<Rightarrow> int \<Rightarrow> datetime option \<Rightarrow> datetime option
    \<Rightarrow> registry \<Rightarrow> (job_error + job_record) \<times> registry" where
  "enqueue cfg clock uuid job_type payload idempotency_key maximum_attempts scheduled_at now s =
     (case validate_job_type job_type of Inl e \<Rightarrow> (Inl e, s) | Inr _ \<Rightarrow>
      case validate_idempotency_key idempotency_key of Inl e \<Rightarrow> (Inl e, s) | Inr _ \<Rightarrow>
      case safe_payload payload of Inl e \<Rightarrow> (Inl e, s) | Inr safe \<Rightarrow>
      case job_now clock now of Inl e \<Rightarrow> (Inl e, s) | Inr timestamp \<Rightarrow>
      case job_now timestamp scheduled_at of Inl e \<Rightarrow> (Inl e, s) | Inr due \<Rightarrow>
      if \<not> (1 \<le> maximum_attempts \<and> maximum_attempts \<le> 32)
      then (Inl (ValueError ''maximum attempts must be between 1 and 32''), s)
      else case queue_read s of Inl e \<Rightarrow> (Inl e, s) | Inr records \<Rightarrow>
      case find (\<lambda>r. j_idempotency_key r = idempotency_key) (dict_values records) of
        Some existing \<Rightarrow>
          if j_type existing \<noteq> job_type \<or> j_payload existing \<noteq> safe
          then (Inl (JobQueueError ''job idempotency key is bound to another operation''), s)
          else (Inr existing, s)
      | None \<Rightarrow>
          if maximum_records cfg \<le> int (length records)
          then (Inl (JobQueueCapacityError ''job queue capacity is exhausted''), s)
          else (case job_record_validate
                 (new_job uuid job_type idempotency_key safe maximum_attempts due timestamp) of
                 Inl e \<Rightarrow> (Inl e, s)
               | Inr r \<Rightarrow> (Inr r, queue_write (AList.update (j_id r) r records))))"

definition cancels :: "string \<Rightarrow> job_record \<Rightarrow> bool" where
  "cancels prefix r \<longleftrightarrow> (j_status r = QUEUED \<or> j_status r = RUNNING) \<and> starts_with (j_type r) prefix"

definition cancelled :: "int \<Rightarrow> job_record \<Rightarrow> job_record" where
  "cancelled timestamp r =
     r\<lparr>j_status := FAILED, j_updated_at := timestamp, j_lease_owner := None,
       j_lease_expires_at := None, j_error_code := Some ''job.owner_inactive''\<rparr>"

definition cancel_owner ::
  "int \<Rightarrow> string \<Rightarrow> datetime option \<Rightarrow> registry \<Rightarrow> (job_error + nat) \<times> registry" where
  "cancel_owner clock owner now s =
     (case owner_job_prefix owner of Inl e \<Rightarrow> (Inl e, s) | Inr prefix \<Rightarrow>
      case job_now clock now of Inl e \<Rightarrow> (Inl e, s) | Inr timestamp \<Rightarrow>
      case queue_read s of Inl e \<Rightarrow> (Inl e, s) | Inr records \<Rightarrow>
      let changed = length (filter (cancels prefix) (dict_values records)) in
      if changed = 0 then (Inr 0, s)
      else (Inr changed,
            queue_write (dict_map (\<lambda>r. if cancels prefix r then cancelled timestamp r else r) records)))"

definition lease_expired :: "int \<Rightarrow> job_record \<Rightarrow> bool" where
  "lease_expired now r \<longleftrightarrow>
     j_status r = RUNNING \<and> (case j_lease_expires_at r of None \<Rightarrow> False | Some t \<Rightarrow> t \<le> now)"

definition recover_record :: "int \<Rightarrow> job_record \<Rightarrow> job_record" where
  "recover_record now r =
     (if lease_expired now r
      then r\<lparr>j_status := (if j_maximum_attempts r \<le> j_attempts r then FAILED else QUEUED),
             j_scheduled_at := now, j_updated_at := now, j_lease_owner := None,
             j_lease_expires_at := None, j_error_code := Some ''job.lease_expired''\<rparr>
      else r)"

definition recover_expired :: "(string, job_record) dict \<Rightarrow> int \<Rightarrow> (string, job_record) dict" where
  "recover_expired records now = dict_map (recover_record now) records"

definition is_due :: "int \<Rightarrow> job_record \<Rightarrow> bool" where
  "is_due now r \<longleftrightarrow> j_status r = QUEUED \<and> j_scheduled_at r \<le> now"

definition claim_key :: "job_record \<Rightarrow> int \<times> int \<times> string" where
  "claim_key r = (j_scheduled_at r, j_created_at r, j_id r)"

definition claimed_record :: "string \<Rightarrow> int \<Rightarrow> int \<Rightarrow> job_record \<Rightarrow> job_record" where
  "claimed_record worker_id timestamp lease selected =
     selected\<lparr>j_status := RUNNING, j_attempts := j_attempts selected + 1,
       j_updated_at := timestamp, j_lease_owner := Some worker_id,
       j_lease_expires_at := Some (timestamp + lease),
       j_fencing_token := j_fencing_token selected + 1, j_error_code := None\<rparr>"

definition claim ::
  "int \<Rightarrow> string \<Rightarrow> int \<Rightarrow> datetime option \<Rightarrow> registry \<Rightarrow> (job_error + job_record option) \<times> registry" where
  "claim clock worker_id lease now s =
     (case validate_worker_id worker_id of Inl e \<Rightarrow> (Inl e, s) | Inr _ \<Rightarrow>
      if \<not> (seconds 1 \<le> lease \<and> lease \<le> hours 1)
      then (Inl (ValueError ''job lease must be between 1 second and 1 hour''), s)
      else case job_now clock now of Inl e \<Rightarrow> (Inl e, s) | Inr timestamp \<Rightarrow>
      case queue_read s of Inl e \<Rightarrow> (Inl e, s) | Inr before \<Rightarrow>
      let records = recover_expired before timestamp in
      case sort_key claim_key (filter (is_due timestamp) (dict_values records)) of
        [] \<Rightarrow> (Inr None, queue_write records)
      | selected # _ \<Rightarrow>
          let claimed = claimed_record worker_id timestamp lease selected
          in (Inr (Some claimed), queue_write (AList.update (j_id claimed) claimed records)))"

text \<open>\<open>base_retry_delay * 2 ** (attempts - 1)\<close>, capped; a running job has been attempted once.\<close>

definition retry_delay :: "queue_config \<Rightarrow> int \<Rightarrow> int" where
  "retry_delay cfg attempts =
     min (base_retry_delay cfg * 2 ^ nat (attempts - 1)) (maximum_retry_delay cfg)"

definition finished_record ::
  "queue_config \<Rightarrow> int \<Rightarrow> bool \<Rightarrow> string option \<Rightarrow> job_record \<Rightarrow> job_record" where
  "finished_record cfg timestamp succeeded error_code r =
     (if succeeded
      then r\<lparr>j_status := SUCCEEDED, j_updated_at := timestamp, j_lease_owner := None,
             j_lease_expires_at := None, j_error_code := None\<rparr>
      else if j_maximum_attempts r \<le> j_attempts r
      then r\<lparr>j_status := FAILED, j_updated_at := timestamp, j_lease_owner := None,
             j_lease_expires_at := None, j_error_code := error_code\<rparr>
      else r\<lparr>j_status := QUEUED, j_scheduled_at := timestamp + retry_delay cfg (j_attempts r),
             j_updated_at := timestamp, j_lease_owner := None, j_lease_expires_at := None,
             j_error_code := error_code\<rparr>)"

definition lease_over :: "int \<Rightarrow> job_record \<Rightarrow> bool" where
  "lease_over now r = (case j_lease_expires_at r of None \<Rightarrow> True | Some t \<Rightarrow> t \<le> now)"

definition finish ::
  "queue_config \<Rightarrow> int \<Rightarrow> string \<Rightarrow> string \<Rightarrow> int \<Rightarrow> bool \<Rightarrow> string option \<Rightarrow> datetime option
    \<Rightarrow> registry \<Rightarrow> (job_error + job_record) \<times> registry" where
  "finish cfg clock job_id worker_id fencing_token succeeded error_code now s =
     (case validate_worker_id worker_id of Inl e \<Rightarrow> (Inl e, s) | Inr _ \<Rightarrow>
      if fencing_token < 1 then (Inl (ValueError ''job fencing token must be a positive integer''), s)
      else case job_now clock now of Inl e \<Rightarrow> (Inl e, s) | Inr timestamp \<Rightarrow>
      case queue_read s of Inl e \<Rightarrow> (Inl e, s) | Inr records \<Rightarrow>
      case map_of records job_id of
        None \<Rightarrow> (Inl (JobQueueError ''job does not exist''), s)
      | Some current \<Rightarrow>
          if j_status current \<noteq> RUNNING \<or> j_lease_owner current \<noteq> Some worker_id
          then (Inl (JobQueueError ''worker does not own the running job''), s)
          else if j_fencing_token current \<noteq> fencing_token
          then (Inl (JobQueueError ''job fencing token is stale''), s)
          else if lease_over timestamp current
          then (Inl (JobQueueError ''job lease has expired''), s)
          else (let updated = finished_record cfg timestamp succeeded error_code current
                in (Inr updated, queue_write (AList.update job_id updated records))))"

definition succeed ::
  "queue_config \<Rightarrow> int \<Rightarrow> string \<Rightarrow> string \<Rightarrow> int \<Rightarrow> datetime option \<Rightarrow> registry
    \<Rightarrow> (job_error + job_record) \<times> registry" where
  "succeed cfg clock job_id worker_id fencing_token now s =
     finish cfg clock job_id worker_id fencing_token True None now s"

definition fail ::
  "queue_config \<Rightarrow> int \<Rightarrow> string \<Rightarrow> string \<Rightarrow> int \<Rightarrow> string \<Rightarrow> datetime option \<Rightarrow> registry
    \<Rightarrow> (job_error + job_record) \<times> registry" where
  "fail cfg clock job_id worker_id fencing_token error_code now s =
     (if \<not> fullmatch error_code_pattern error_code
      then (Inl (ValueError ''invalid safe job error code''), s)
      else finish cfg clock job_id worker_id fencing_token False (Some error_code) now s)"

definition records :: "registry \<Rightarrow> job_error + (string, job_record) dict" where
  "records s = (case queue_read s of Inl e \<Rightarrow> Inl e | Inr d \<Rightarrow> Inr (dict_sorted d))"

definition leased ::
  "int \<Rightarrow> string \<Rightarrow> string \<Rightarrow> int \<Rightarrow> datetime option \<Rightarrow> registry \<Rightarrow> job_error + job_record option" where
  "leased clock job_id worker_id fencing_token now s =
     (case validate_worker_id worker_id of Inl e \<Rightarrow> Inl e | Inr _ \<Rightarrow>
      if fencing_token < 1 then Inl (ValueError ''job fencing token must be a positive integer'')
      else case job_now clock now of Inl e \<Rightarrow> Inl e | Inr timestamp \<Rightarrow>
      case queue_read s of Inl e \<Rightarrow> Inl e | Inr d \<Rightarrow>
      case map_of d job_id of
        None \<Rightarrow> Inr None
      | Some current \<Rightarrow>
          if j_status current \<noteq> RUNNING \<or> j_lease_owner current \<noteq> Some worker_id
             \<or> j_fencing_token current \<noteq> fencing_token \<or> lease_over timestamp current
          then Inr None else Inr (Some current))"

definition purgeable :: "int \<Rightarrow> job_record \<Rightarrow> bool" where
  "purgeable cutoff r \<longleftrightarrow> (j_status r = SUCCEEDED \<or> j_status r = FAILED) \<and> j_updated_at r < cutoff"

text \<open>\<open>for record in terminal: del records[record.id]\<close>\<close>

fun delete_records ::
  "job_record list \<Rightarrow> (string, job_record) dict \<Rightarrow> job_error + (string, job_record) dict" where
  "delete_records [] d = Inr d"
| "delete_records (r # rs) d =
     (case map_of d (j_id r) of
        None \<Rightarrow> Inl (KeyError (j_id r))
      | Some _ \<Rightarrow> delete_records rs (AList.delete (j_id r) d))"

definition purge_terminal ::
  "datetime \<Rightarrow> int \<Rightarrow> registry \<Rightarrow> (job_error + nat) \<times> registry" where
  "purge_terminal before limit s =
     (case job_as_utc before of Inl e \<Rightarrow> (Inl e, s) | Inr cutoff \<Rightarrow>
      if \<not> (1 \<le> limit \<and> limit \<le> MAXIMUM_TERMINAL_PURGE_BATCH)
      then (Inl (ValueError ''terminal purge limit must be between 1 and 1000''), s)
      else case queue_read s of Inl e \<Rightarrow> (Inl e, s) | Inr d \<Rightarrow>
      let terminal = take (nat limit)
            (sort_key (\<lambda>r. (j_updated_at r, j_id r)) (filter (purgeable cutoff) (dict_values d)))
      in if terminal = [] then (Inr 0, s)
         else (case delete_records terminal d of
                 Inl e \<Rightarrow> (Inl e, s)
               | Inr d' \<Rightarrow> (Inr (length terminal), queue_write d')))"

subsection \<open>The queue invariant\<close>

text \<open>
  One record: its payload re-validates to itself, its attempts never exceed their maximum,
  the fencing token counts the attempts, and it holds a lease exactly while it runs.
\<close>

definition record_ok :: "job_record \<Rightarrow> bool" where
  "record_ok r \<longleftrightarrow>
     safe_payload (j_payload r) = Inr (j_payload r)
     \<and> 1 \<le> j_maximum_attempts r \<and> j_maximum_attempts r \<le> 32
     \<and> 0 \<le> j_attempts r \<and> j_attempts r \<le> j_maximum_attempts r
     \<and> j_fencing_token r = j_attempts r
     \<and> (j_status r = QUEUED \<longrightarrow> j_attempts r < j_maximum_attempts r)
     \<and> (j_status r = RUNNING \<longrightarrow> 1 \<le> j_attempts r)
     \<and> (j_status r = RUNNING \<longleftrightarrow> j_lease_owner r \<noteq> None)
     \<and> (j_status r = RUNNING \<longleftrightarrow> j_lease_expires_at r \<noteq> None)"

definition wf_map :: "(string \<rightharpoonup> job_record) \<Rightarrow> bool" where
  "wf_map m \<longleftrightarrow>
     (\<forall>k r. m k = Some r \<longrightarrow> j_id r = k \<and> record_ok r)
     \<and> (\<forall>k k' r r'. m k = Some r \<longrightarrow> m k' = Some r' \<longrightarrow> j_idempotency_key r = j_idempotency_key r' \<longrightarrow> k = k')"

definition wf_jobs :: "queue_config \<Rightarrow> (string, job_record) dict \<Rightarrow> bool" where
  "wf_jobs cfg d \<longleftrightarrow> dict_ok d \<and> wf_map (map_of d) \<and> int (length d) \<le> maximum_records cfg"

definition registry_ok :: "queue_config \<Rightarrow> registry \<Rightarrow> bool" where
  "registry_ok cfg s \<longleftrightarrow>
     (case s of
        NoFile \<Rightarrow> 1 \<le> maximum_records cfg
      | RegistryFile v jobs \<Rightarrow>
          v = REGISTRY_VERSION \<and> (case jobs of None \<Rightarrow> False | Some d \<Rightarrow> wf_jobs cfg d))"

text \<open>The abstract state of the queue: the finite map from job ids to records.\<close>

definition job_map :: "registry \<Rightarrow> (string \<rightharpoonup> job_record)" where
  "job_map s = (case queue_read s of Inl _ \<Rightarrow> Map.empty | Inr d \<Rightarrow> map_of d)"

lemma record_ok_validate: "record_ok r \<Longrightarrow> job_record_validate r = Inr r"
proof -
  assume ok: "record_ok r"
  then have "safe_payload (j_payload r) = Inr (j_payload r)" by (simp add: record_ok_def)
  moreover from this have "is_mapping (j_payload r)" by (simp add: safe_payload_iff)
  ultimately show ?thesis using ok by (simp add: record_ok_def job_record_validate_def)
qed

lemma read_records_id: "(\<And>k r. (k, r) \<in> set d \<Longrightarrow> record_ok r) \<Longrightarrow> read_records d = Inr d"
proof (induction d)
  case (Cons kr d)
  obtain k r where kr: "kr = (k, r)" by fastforce
  with Cons.prems have "record_ok r" by auto
  moreover have "read_records d = Inr d" by (rule Cons.IH) (use Cons.prems in auto)
  ultimately show ?case using kr by (simp add: record_ok_validate)
qed simp

lemma wf_jobs_read: "wf_jobs cfg d \<Longrightarrow> read_records d = Inr d"
  by (rule read_records_id) (auto simp: wf_jobs_def wf_map_def dict_lookup_iff)

lemma wf_jobs_sorted [simp]: "wf_jobs cfg (dict_sorted d) = wf_jobs cfg d"
  by (cases "dict_ok d") (auto simp: wf_jobs_def map_of_dict_sorted)

lemma registry_ok_write [simp]: "registry_ok cfg (queue_write d) = wf_jobs cfg d"
  by (simp add: registry_ok_def queue_write_def)

lemma queue_read_write: "wf_jobs cfg d \<Longrightarrow> queue_read (queue_write d) = Inr (dict_sorted d)"
  using wf_jobs_read [of cfg "dict_sorted d"] by (simp add: queue_write_def)

lemma job_map_write: "wf_jobs cfg d \<Longrightarrow> job_map (queue_write d) = map_of d"
  using queue_read_write [of cfg d] by (simp add: job_map_def map_of_dict_sorted wf_jobs_def)

lemma registry_ok_readE:
  assumes "registry_ok cfg s"
  obtains d where "queue_read s = Inr d" "wf_jobs cfg d" "job_map s = map_of d"
  using assms
  by (cases s) (auto simp: registry_ok_def job_map_def wf_jobs_read wf_jobs_def wf_map_def split: option.splits)

lemma registry_ok_record: "registry_ok cfg s \<Longrightarrow> job_map s k = Some r \<Longrightarrow> record_ok r"
  by (auto elim!: registry_ok_readE simp: wf_jobs_def wf_map_def)

lemma registry_ok_id: "registry_ok cfg s \<Longrightarrow> job_map s k = Some r \<Longrightarrow> j_id r = k"
  by (auto elim!: registry_ok_readE simp: wf_jobs_def wf_map_def)

lemma wf_map_update:
  assumes "wf_map m" "j_id r = k" "record_ok r"
    and "\<And>k' r'. m k' = Some r' \<Longrightarrow> k' \<noteq> k \<Longrightarrow> j_idempotency_key r' \<noteq> j_idempotency_key r"
  shows "wf_map (m(k \<mapsto> r))"
  using assms by (simp add: wf_map_def) metis

lemma wf_map_replace:
  assumes "wf_map m" "m k = Some r" "j_id r' = k" "j_idempotency_key r' = j_idempotency_key r" "record_ok r'"
  shows "wf_map (m(k \<mapsto> r'))"
  by (rule wf_map_update) (use assms in \<open>auto simp: wf_map_def\<close>)

lemma wf_jobs_replace:
  assumes "wf_jobs cfg d" "map_of d k = Some r" "j_id r' = k"
    "j_idempotency_key r' = j_idempotency_key r" "record_ok r'"
  shows "wf_jobs cfg (AList.update k r' d)"
  using assms wf_map_replace [of "map_of d" k r r']
  by (simp add: wf_jobs_def map_of_update length_update_old)

lemma wf_jobs_insert:
  assumes "wf_jobs cfg d" "map_of d (j_id r) = None" "record_ok r" "int (length d) < maximum_records cfg"
    and "\<And>k' r'. map_of d k' = Some r' \<Longrightarrow> j_idempotency_key r' \<noteq> j_idempotency_key r"
  shows "wf_jobs cfg (AList.update (j_id r) r d)"
  using assms wf_map_update [of "map_of d" r "j_id r"]
  by (simp add: wf_jobs_def map_of_update length_update_new)

lemma wf_jobs_dict_map:
  assumes "wf_jobs cfg d"
    and "\<And>r. record_ok r \<Longrightarrow> record_ok (f r) \<and> j_id (f r) = j_id r \<and> j_idempotency_key (f r) = j_idempotency_key r"
  shows "wf_jobs cfg (dict_map f d)"
  using assms by (auto simp: wf_jobs_def wf_map_def map_of_dict_map)

lemma wf_jobs_delete: "wf_jobs cfg d \<Longrightarrow> wf_jobs cfg (AList.delete k d)"
  using length_delete_le [of k d] by (auto simp: wf_jobs_def wf_map_def map_of_delete split: if_splits)

end
