(* ===== verification/Job_Queue_Laws.thy ===== *)
theory Job_Queue_Laws
  imports Job_Queue
begin

text \<open>
  What the operations of \<open>DurableJobQueue\<close> do to the abstract map of jobs, that each of them
  keeps the queue invariant, and the step relation of the queue with its reachable states.
\<close>

subsection \<open>Record transformers keep a record well formed\<close>

lemma record_ok_cancelled: "record_ok r \<Longrightarrow> record_ok (cancelled t r)"
  by (simp add: record_ok_def cancelled_def)

lemma record_ok_recover: "record_ok r \<Longrightarrow> record_ok (recover_record t r)"
  by (auto simp: record_ok_def recover_record_def)

lemma recover_record_id [simp]:
  "j_id (recover_record t r) = j_id r"
  "j_idempotency_key (recover_record t r) = j_idempotency_key r"
  "j_fencing_token (recover_record t r) = j_fencing_token r"
  "j_attempts (recover_record t r) = j_attempts r"
  "j_maximum_attempts (recover_record t r) = j_maximum_attempts r"
  "j_type (recover_record t r) = j_type r"
  "j_payload (recover_record t r) = j_payload r"
  by (simp_all add: recover_record_def)

lemma claimed_record_id [simp]:
  "j_id (claimed_record w t l r) = j_id r"
  "j_idempotency_key (claimed_record w t l r) = j_idempotency_key r"
  "j_fencing_token (claimed_record w t l r) = j_fencing_token r + 1"
  "j_status (claimed_record w t l r) = RUNNING"
  "j_lease_owner (claimed_record w t l r) = Some w"
  "j_lease_expires_at (claimed_record w t l r) = Some (t + l)"
  by (simp_all add: claimed_record_def)

lemma finished_record_id [simp]:
  "j_id (finished_record cfg t ok e r) = j_id r"
  "j_idempotency_key (finished_record cfg t ok e r) = j_idempotency_key r"
  "j_fencing_token (finished_record cfg t ok e r) = j_fencing_token r"
  by (simp_all add: finished_record_def)

lemma cancelled_id [simp]:
  "j_id (cancelled t r) = j_id r" "j_idempotency_key (cancelled t r) = j_idempotency_key r"
  "j_fencing_token (cancelled t r) = j_fencing_token r" "j_status (cancelled t r) = FAILED"
  "j_type (cancelled t r) = j_type r"
  by (simp_all add: cancelled_def)

lemma record_ok_claimed: "record_ok r \<Longrightarrow> j_status r = QUEUED \<Longrightarrow> record_ok (claimed_record w t l r)"
  by (simp add: record_ok_def claimed_record_def)

lemma record_ok_finished: "record_ok r \<Longrightarrow> record_ok (finished_record cfg t ok e r)"
  by (auto simp: record_ok_def finished_record_def)

subsection \<open>Claim\<close>

text \<open>The map after \<open>_recover_expired\<close>.\<close>

definition recovered :: "int \<Rightarrow> (string \<rightharpoonup> job_record) \<Rightarrow> (string \<rightharpoonup> job_record)" where
  "recovered t m k = map_option (recover_record t) (m k)"

lemma recover_expired_wf: "wf_jobs cfg d \<Longrightarrow> wf_jobs cfg (recover_expired d t)"
  unfolding recover_expired_def by (rule wf_jobs_dict_map) (simp_all add: record_ok_recover)

lemma map_of_recover_expired: "map_of (recover_expired d t) = recovered t (map_of d)"
  by (simp add: fun_eq_iff recover_expired_def recovered_def map_of_dict_map)

text \<open>
  The cases of a claim: no job is due, or the least due job by schedule, creation and id is
  handed to the worker.
\<close>

lemma claim_cases:
  assumes ok: "registry_ok cfg s" and w: "fullmatch worker_id_pattern w"
    and l: "seconds 1 \<le> l" "l \<le> hours 1" and t: "job_now clock now = Inr t"
  obtains
    (idle) "fst (claim clock w l now s) = Inr None"
      "\<And>k r. recovered t (job_map s) k = Some r \<Longrightarrow> \<not> is_due t r"
      "job_map (snd (claim clock w l now s)) = recovered t (job_map s)"
      "registry_ok cfg (snd (claim clock w l now s))"
  | (claimed) r where
      "recovered t (job_map s) (j_id r) = Some r" "is_due t r"
      "\<And>k r'. recovered t (job_map s) k = Some r' \<Longrightarrow> is_due t r' \<Longrightarrow> claim_key r \<le> claim_key r'"
      "fst (claim clock w l now s) = Inr (Some (claimed_record w t l r))"
      "job_map (snd (claim clock w l now s)) = (recovered t (job_map s))(j_id r \<mapsto> claimed_record w t l r)"
      "registry_ok cfg (snd (claim clock w l now s))"
proof -
  obtain d where d: "queue_read s = Inr d" "wf_jobs cfg d" "job_map s = map_of d"
    using ok by (rule registry_ok_readE)
  let ?d = "recover_expired d t"
  let ?due = "filter (is_due t) (dict_values ?d)"
  have wf: "wf_jobs cfg ?d" by (rule recover_expired_wf) (rule d(2))
  have m: "map_of ?d = recovered t (job_map s)" by (simp add: map_of_recover_expired d(3))
  have mem: "r \<in> set ?due \<longleftrightarrow> is_due t r \<and> (\<exists>k. recovered t (job_map s) k = Some r)" for r
    using wf by (auto simp: dict_values_lookup wf_jobs_def m)
  have head: "claim clock w l now s =
      (case sort_key claim_key ?due of [] \<Rightarrow> (Inr None, queue_write ?d)
       | r # _ \<Rightarrow> (Inr (Some (claimed_record w t l r)),
                   queue_write (AList.update (j_id r) (claimed_record w t l r) ?d)))"
    using w l t d(1) by (simp add: claim_def validate_worker_id_def Let_def split: list.split)
  show thesis
  proof (cases "sort_key claim_key ?due")
    case Nil
    then have "\<forall>r \<in> set (dict_values ?d). \<not> is_due t r" by (simp add: filter_empty_conv)
    then show thesis
      using Nil wf mem by (intro idle) (auto simp: head job_map_write m filter_empty_conv)
  next
    case (Cons r rs)
    have r: "r \<in> set ?due" using Cons by (rule hd_sort_key_in)
    then obtain k where k: "recovered t (job_map s) k = Some r" and due: "is_due t r" using mem by blast
    have kid: "k = j_id r" and rok: "record_ok r"
      using wf k by (auto simp: wf_jobs_def wf_map_def m)
    have wf': "wf_jobs cfg (AList.update (j_id r) (claimed_record w t l r) ?d)"
      using wf k kid rok due by (intro wf_jobs_replace [of _ _ _ r]) (auto simp: m record_ok_claimed is_due_def)
    show thesis
    proof (rule claimed)
      show "recovered t (job_map s) (j_id r) = Some r" using k kid by simp
      show "claim_key r \<le> claim_key r'" if "recovered t (job_map s) k' = Some r'" "is_due t r'" for k' r'
        using hd_sort_key_least [OF Cons] mem that by blast
    qed (use Cons wf' due in \<open>auto simp: head job_map_write map_of_update m\<close>)
  qed
qed

lemma job_now_cases:
  obtains t where "job_now clock now = Inr t"
  | "job_now clock now = Inl (ValueError ''job timestamp must be timezone-aware'')"
proof (cases now)
  case (Some d)
  then show thesis by (cases d) (auto simp: job_now_def utc_or_now_def intro: that)
qed (auto simp: job_now_def utc_or_now_def intro: that)

lemma claim_invalid:
  assumes "\<not> (fullmatch worker_id_pattern w \<and> seconds 1 \<le> l \<and> l \<le> hours 1 \<and> (\<exists>t. job_now clock now = Inr t))"
  shows "\<exists>e. claim clock w l now s = (Inl (ValueError e), s)"
proof (cases "fullmatch worker_id_pattern w \<and> seconds 1 \<le> l \<and> l \<le> hours 1")
  case True
  then show ?thesis
    using assms by (cases rule: job_now_cases [of clock now]) (auto simp: claim_def validate_worker_id_def)
next
  case False
  then show ?thesis by (auto simp: claim_def validate_worker_id_def)
qed

lemma claim_registry_ok: "registry_ok cfg s \<Longrightarrow> registry_ok cfg (snd (claim clock w l now s))"
proof (cases "fullmatch worker_id_pattern w \<and> seconds 1 \<le> l \<and> l \<le> hours 1 \<and> (\<exists>t. job_now clock now = Inr t)")
  case True
  assume ok: "registry_ok cfg s"
  from True obtain t where "job_now clock now = Inr t" by blast
  with ok True show ?thesis by (elim claim_cases [of cfg s w l clock now t]) auto
next
  case False
  assume "registry_ok cfg s"
  then show ?thesis using claim_invalid [OF False, of s] by auto
qed

text \<open>What the caller of a successful claim holds, and where the job came from.\<close>

lemma claim_returns:
  assumes ok: "registry_ok cfg s" and c: "claim clock w l now s = (Inr (Some j), s')"
  shows "job_map s' (j_id j) = Some j"
    and "\<exists>r t. job_map s (j_id j) = Some r \<and> j_fencing_token j = j_fencing_token r + 1
          \<and> j = claimed_record w t l (recover_record t r) \<and> job_now clock now = Inr t"
proof -
  have v: "fullmatch worker_id_pattern w \<and> seconds 1 \<le> l \<and> l \<le> hours 1 \<and> (\<exists>t. job_now clock now = Inr t)"
    using c claim_invalid [of w l clock now s] by fastforce
  then obtain t where t: "job_now clock now = Inr t" by blast
  have "\<exists>r. job_map s (j_id j) = Some r \<and> j = claimed_record w t l (recover_record t r) \<and> job_map s' (j_id j) = Some j"
    using v
  proof (elim conjE claim_cases [OF ok _ _ _ t, of w l])
    fix r assume a: "recovered t (job_map s) (j_id r) = Some r"
      "fst (claim clock w l now s) = Inr (Some (claimed_record w t l r))"
      "job_map (snd (claim clock w l now s)) = (recovered t (job_map s))(j_id r \<mapsto> claimed_record w t l r)"
    then show ?thesis using c by (auto simp: recovered_def)
  qed (use c in auto)
  then show "job_map s' (j_id j) = Some j"
    and "\<exists>r t. job_map s (j_id j) = Some r \<and> j_fencing_token j = j_fencing_token r + 1
          \<and> j = claimed_record w t l (recover_record t r) \<and> job_now clock now = Inr t"
    using t by auto
qed

subsection \<open>Completion\<close>

text \<open>A worker holds the lease: running, its name, its token, and not expired.\<close>

definition holds_lease :: "int \<Rightarrow> string \<Rightarrow> int \<Rightarrow> job_record \<Rightarrow> bool" where
  "holds_lease t w tok r \<longleftrightarrow>
     j_status r = RUNNING \<and> j_lease_owner r = Some w \<and> j_fencing_token r = tok \<and> \<not> lease_over t r"

lemma finish_accepts:
  assumes ok: "registry_ok cfg s" and w: "fullmatch worker_id_pattern w" and tok: "1 \<le> tok"
    and t: "job_now clock now = Inr t" and r: "job_map s k = Some r" and h: "holds_lease t w tok r"
  shows "fst (finish cfg clock k w tok succ e now s) = Inr (finished_record cfg t succ e r)"
    and "job_map (snd (finish cfg clock k w tok succ e now s)) = (job_map s)(k \<mapsto> finished_record cfg t succ e r)"
    and "registry_ok cfg (snd (finish cfg clock k w tok succ e now s))"
proof -
  obtain d where d: "queue_read s = Inr d" "wf_jobs cfg d" "job_map s = map_of d"
    using ok by (rule registry_ok_readE)
  have "j_id r = k" "record_ok r" using d r by (auto simp: wf_jobs_def wf_map_def)
  then have wf: "wf_jobs cfg (AList.update k (finished_record cfg t succ e r) d)"
    using d r by (intro wf_jobs_replace [of _ _ _ r]) (auto simp: record_ok_finished)
  have f: "finish cfg clock k w tok succ e now s =
      (Inr (finished_record cfg t succ e r), queue_write (AList.update k (finished_record cfg t succ e r) d))"
    using w tok t d r h by (simp add: finish_def validate_worker_id_def holds_lease_def Let_def)
  show "fst (finish cfg clock k w tok succ e now s) = Inr (finished_record cfg t succ e r)"
    "registry_ok cfg (snd (finish cfg clock k w tok succ e now s))" using f wf by simp_all
  show "job_map (snd (finish cfg clock k w tok succ e now s)) = (job_map s)(k \<mapsto> finished_record cfg t succ e r)"
    using f wf d(3) by (simp add: job_map_write map_of_update)
qed

lemma finish_rejects:
  assumes "\<And>t r. job_now clock now = Inr t \<Longrightarrow> job_map s k = Some r \<Longrightarrow> \<not> holds_lease t w tok r"
  shows "\<exists>e'. finish cfg clock k w tok succ e now s = (Inl e', s)"
  using assms
  by (auto simp: finish_def holds_lease_def job_map_def Let_def split: sum.splits option.splits if_splits)

lemma finish_cases:
  assumes ok: "registry_ok cfg s"
  obtains (rejected) e' where "finish cfg clock k w tok succ e now s = (Inl e', s)"
  | (accepted) t r where "job_now clock now = Inr t" "job_map s k = Some r" "holds_lease t w tok r"
      "fst (finish cfg clock k w tok succ e now s) = Inr (finished_record cfg t succ e r)"
      "job_map (snd (finish cfg clock k w tok succ e now s)) = (job_map s)(k \<mapsto> finished_record cfg t succ e r)"
      "registry_ok cfg (snd (finish cfg clock k w tok succ e now s))"
proof (cases "\<exists>t r. fullmatch worker_id_pattern w \<and> 1 \<le> tok \<and> job_now clock now = Inr t \<and>
    job_map s k = Some r \<and> holds_lease t w tok r")
  case True
  then obtain t r where a: "fullmatch worker_id_pattern w" "1 \<le> tok" "job_now clock now = Inr t"
    "job_map s k = Some r" "holds_lease t w tok r" by blast
  then show thesis by (intro accepted [of t r] a finish_accepts [OF ok a])
next
  case False
  show thesis
  proof (cases "fullmatch worker_id_pattern w \<and> 1 \<le> tok")
    case True
    with False have "\<exists>e'. finish cfg clock k w tok succ e now s = (Inl e', s)"
      by (intro finish_rejects) blast
    then show thesis using rejected by blast
  next
    case False
    then have "\<exists>e'. finish cfg clock k w tok succ e now s = (Inl e', s)"
      by (auto simp: finish_def validate_worker_id_def)
    then show thesis using rejected by blast
  qed
qed

lemma finish_registry_ok:
  assumes "registry_ok cfg s" shows "registry_ok cfg (snd (finish cfg clock k w tok succ e now s))"
  using assms by (cases rule: finish_cases [OF assms, of clock k w tok succ e now]) auto

lemma fail_eq_finish:
  "fail cfg clock k w tok e now s =
     (if fullmatch error_code_pattern e then finish cfg clock k w tok False (Some e) now s
      else (Inl (ValueError ''invalid safe job error code''), s))"
  by (simp add: fail_def)

lemma leased_iff:
  assumes "registry_ok cfg s" "fullmatch worker_id_pattern w" "1 \<le> tok" "job_now clock now = Inr t"
  shows "leased clock k w tok now s =
    Inr (case job_map s k of None \<Rightarrow> None | Some r \<Rightarrow> if holds_lease t w tok r then Some r else None)"
proof -
  obtain d where d: "queue_read s = Inr d" "job_map s = map_of d"
    using assms(1) by (rule registry_ok_readE)
  then show ?thesis
    using assms(2-) by (auto simp: leased_def validate_worker_id_def holds_lease_def split: option.splits)
qed

lemma leased_holds:
  assumes "leased clock k w tok now s = Inr (Some r)"
  obtains t where "job_now clock now = Inr t" "job_map s k = Some r" "holds_lease t w tok r"
  using assms by (auto simp: leased_def job_map_def holds_lease_def split: sum.splits option.splits if_splits)

subsection \<open>Enqueue\<close>

lemma find_by_key:
  assumes "wf_jobs cfg d" "map_of d k = Some r" "j_idempotency_key r = key"
  shows "find (\<lambda>r. j_idempotency_key r = key) (dict_values d) = Some r"
proof -
  have mem: "x \<in> set (dict_values d) \<longleftrightarrow> (\<exists>k. map_of d k = Some x)" for x
    using assms(1) by (simp add: wf_jobs_def dict_values_lookup)
  obtain x where x: "find (\<lambda>r. j_idempotency_key r = key) (dict_values d) = Some x"
    using assms(2,3) mem by (cases "find (\<lambda>r. j_idempotency_key r = key) (dict_values d)") (auto simp: find_None_iff)
  then have "x \<in> set (dict_values d)" "j_idempotency_key x = key"
    by (auto simp: find_Some_iff)
  then obtain k' where "map_of d k' = Some x" using mem by blast
  with assms x show ?thesis using \<open>j_idempotency_key x = key\<close>
    by (simp add: wf_jobs_def wf_map_def) (metis option.inject)
qed

lemma new_job_sel [simp]:
  "j_id (new_job u ty key p n due t) = u" "j_type (new_job u ty key p n due t) = ty"
  "j_idempotency_key (new_job u ty key p n due t) = key" "j_payload (new_job u ty key p n due t) = p"
  "j_status (new_job u ty key p n due t) = QUEUED" "j_fencing_token (new_job u ty key p n due t) = 0"
  by (simp_all add: new_job_def)

lemma new_job_ok:
  "safe_payload q = Inr p \<Longrightarrow> 1 \<le> n \<Longrightarrow> n \<le> 32 \<Longrightarrow> record_ok (new_job u ty key p n due t)"
  by (simp add: record_ok_def new_job_def safe_payload_stored)

lemma enqueue_cases:
  assumes ok: "registry_ok cfg s" and fresh: "job_map s uuid = None"
  obtains (kept) "snd (enqueue cfg clock uuid ty p key n sch now s) = s"
  | (inserted) q due t where "safe_payload p = Inr q"
      "fst (enqueue cfg clock uuid ty p key n sch now s) = Inr (new_job uuid ty key q n due t)"
      "job_map (snd (enqueue cfg clock uuid ty p key n sch now s)) = (job_map s)(uuid \<mapsto> new_job uuid ty key q n due t)"
      "registry_ok cfg (snd (enqueue cfg clock uuid ty p key n sch now s))"
      "\<And>k r. job_map s k = Some r \<Longrightarrow> j_idempotency_key r \<noteq> key"
proof -
  obtain d where d: "queue_read s = Inr d" "wf_jobs cfg d" "job_map s = map_of d"
    using ok by (rule registry_ok_readE)
  show thesis
  proof (cases "\<exists>q t due ty' key'. validate_job_type ty = Inr ty' \<and> validate_idempotency_key key = Inr key' \<and>
      safe_payload p = Inr q \<and> job_now clock now = Inr t \<and> job_now t sch = Inr due \<and> 1 \<le> n \<and> n \<le> 32 \<and>
      find (\<lambda>r. j_idempotency_key r = key) (dict_values d) = None \<and> int (length d) < maximum_records cfg")
    case True
    then obtain q t due ty' key' where a: "validate_job_type ty = Inr ty'" "validate_idempotency_key key = Inr key'"
      "safe_payload p = Inr q" "job_now clock now = Inr t" "job_now t sch = Inr due" "1 \<le> n" "n \<le> 32"
      "find (\<lambda>r. j_idempotency_key r = key) (dict_values d) = None" "int (length d) < maximum_records cfg"
      by blast
    let ?r = "new_job uuid ty key q n due t"
    have rok: "record_ok ?r" using a by (intro new_job_ok)
    have e: "enqueue cfg clock uuid ty p key n sch now s = (Inr ?r, queue_write (AList.update uuid ?r d))"
      using a d by (simp add: enqueue_def record_ok_validate [OF rok])
    have nokey: "j_idempotency_key r \<noteq> key" if "map_of d k = Some r" for k r
      using that a(8) d(2) find_by_key by fastforce
    have wf: "wf_jobs cfg (AList.update uuid ?r d)"
      using wf_jobs_insert [of cfg d ?r] d fresh rok a(9) nokey by auto
    show thesis
      using inserted [of q due t] a(3) e wf nokey d(3) by (simp add: job_map_write map_of_update)
  next
    case False
    then have "snd (enqueue cfg clock uuid ty p key n sch now s) = s"
      using d by (auto simp: enqueue_def split: sum.splits option.splits)
    then show thesis by (rule kept)
  qed
qed

lemma enqueue_registry_ok:
  assumes "registry_ok cfg s" and "job_map s uuid = None"
  shows "registry_ok cfg (snd (enqueue cfg clock uuid ty p key n sch now s))"
  using assms(1) by (cases rule: enqueue_cases [OF assms, of clock ty p key n sch now]) auto

lemma enqueue_existing:
  assumes ok: "registry_ok cfg s" and r: "job_map s k = Some r" and key: "j_idempotency_key r = key"
  shows "snd (enqueue cfg clock uuid ty p key n sch now s) = s"
    and "fst (enqueue cfg clock uuid ty p key n sch now s) = Inr r' \<Longrightarrow>
      r' = r \<and> j_type r = ty \<and> safe_payload p = Inr (j_payload r)"
proof -
  obtain d where d: "queue_read s = Inr d" "wf_jobs cfg d" "job_map s = map_of d"
    using ok by (rule registry_ok_readE)
  have f: "find (\<lambda>r. j_idempotency_key r = key) (dict_values d) = Some r"
    using d r key by (intro find_by_key) auto
  show "snd (enqueue cfg clock uuid ty p key n sch now s) = s"
    using d f by (simp add: enqueue_def split: sum.splits)
  show "r' = r \<and> j_type r = ty \<and> safe_payload p = Inr (j_payload r)"
    if "fst (enqueue cfg clock uuid ty p key n sch now s) = Inr r'"
    using that d f by (auto simp: enqueue_def validate_job_type_def split: sum.splits if_splits)
qed

subsection \<open>Cancelling an owner\<close>

lemma count_values:
  assumes "dict_ok d"
  shows "length (filter P (dict_values d)) = card {k. \<exists>r. map_of d k = Some r \<and> P r}"
proof -
  let ?f = "filter (\<lambda>(k, r). P r) d"
  have "length (filter P (dict_values d)) = length (map fst ?f)"
    by (simp add: dict_values_def filter_map comp_def split_def)
  also have "\<dots> = card (set (map fst ?f))"
    using dict_ok_filter [OF assms, of "\<lambda>(k, r). P r"] by (metis dict_ok_def distinct_card)
  also have "set (map fst ?f) = {k. \<exists>r. map_of d k = Some r \<and> P r}"
    using assms by (force simp: dict_lookup_iff)
  finally show ?thesis .
qed

definition cancel_map :: "string \<Rightarrow> int \<Rightarrow> (string \<rightharpoonup> job_record) \<Rightarrow> (string \<rightharpoonup> job_record)" where
  "cancel_map prefix t m k = map_option (\<lambda>r. if cancels prefix r then cancelled t r else r) (m k)"

lemma cancel_owner_spec:
  assumes ok: "registry_ok cfg s" and o: "fullmatch owner_pattern owner" and t: "job_now clock now = Inr t"
  shows "fst (cancel_owner clock owner now s) = Inr (card {k. \<exists>r. job_map s k = Some r \<and> cancels (owner @ ''.'') r})"
    and "job_map (snd (cancel_owner clock owner now s)) = cancel_map (owner @ ''.'') t (job_map s)"
    and "registry_ok cfg (snd (cancel_owner clock owner now s))"
proof -
  obtain d where d: "queue_read s = Inr d" "wf_jobs cfg d" "job_map s = map_of d"
    using ok by (rule registry_ok_readE)
  let ?P = "cancels (owner @ ''.'')"
  let ?f = "\<lambda>r. if ?P r then cancelled t r else r"
  let ?n = "length (filter ?P (dict_values d))"
  have wf: "wf_jobs cfg (dict_map ?f d)"
    using d(2) by (rule wf_jobs_dict_map) (simp add: record_ok_cancelled)
  have n: "?n = card {k. \<exists>r. job_map s k = Some r \<and> ?P r}"
    using d by (simp add: wf_jobs_def count_values)
  have c: "cancel_owner clock owner now s =
      (if ?n = 0 then (Inr 0, s) else (Inr ?n, queue_write (dict_map ?f d)))"
    using o t d(1) by (simp add: cancel_owner_def owner_job_prefix_def Let_def)
  have none: "cancel_map (owner @ ''.'') t (job_map s) = job_map s" if "?n = 0"
  proof -
    have "\<And>k r. map_of d k = Some r \<Longrightarrow> \<not> ?P r"
      using that d(2) by (auto simp: filter_empty_conv dict_values_lookup wf_jobs_def)
    then have "cancel_map (owner @ ''.'') t (map_of d) k = map_of d k" for k
      by (cases "map_of d k") (auto simp: cancel_map_def)
    then show ?thesis by (simp add: fun_eq_iff d(3))
  qed
  have some: "map_of (dict_map ?f d) = cancel_map (owner @ ''.'') t (job_map s)"
    by (simp add: fun_eq_iff cancel_map_def d(3) map_of_dict_map)
  show "fst (cancel_owner clock owner now s) = Inr (card {k. \<exists>r. job_map s k = Some r \<and> ?P r})"
    by (simp only: c n) simp
  show "job_map (snd (cancel_owner clock owner now s)) = cancel_map (owner @ ''.'') t (job_map s)"
    using none some wf by (simp add: c job_map_write del: length_0_conv)
  show "registry_ok cfg (snd (cancel_owner clock owner now s))" using ok wf by (simp add: c)
qed

lemma cancel_owner_invalid:
  assumes "\<not> (fullmatch owner_pattern owner \<and> (\<exists>t. job_now clock now = Inr t))"
  shows "\<exists>e. cancel_owner clock owner now s = (Inl (ValueError e), s)"
  using assms
  by (cases rule: job_now_cases [of clock now]) (auto simp: cancel_owner_def owner_job_prefix_def)

lemma cancel_owner_registry_ok:
  assumes "registry_ok cfg s" shows "registry_ok cfg (snd (cancel_owner clock owner now s))"
proof (cases "fullmatch owner_pattern owner \<and> (\<exists>t. job_now clock now = Inr t)")
  case True
  with assms show ?thesis using cancel_owner_spec(3) by blast
next
  case False
  with assms show ?thesis using cancel_owner_invalid [OF False, of s] by auto
qed

subsection \<open>Purging terminal jobs\<close>

lemma delete_records_ok:
  assumes "dict_ok d" "distinct (map j_id rs)" "\<And>r. r \<in> set rs \<Longrightarrow> map_of d (j_id r) \<noteq> None"
  shows "\<exists>d'. delete_records rs d = Inr d' \<and> map_of d' = (\<lambda>k. if k \<in> j_id ` set rs then None else map_of d k)"
  using assms
proof (induction rs d rule: delete_records.induct)
  case (2 r rs d)
  then obtain v where v: "map_of d (j_id r) = Some v" by fastforce
  have "\<exists>d'. delete_records rs (AList.delete (j_id r) d) = Inr d' \<and>
      map_of d' = (\<lambda>k. if k \<in> j_id ` set rs then None else map_of (AList.delete (j_id r) d) k)"
  proof (rule "2.IH" [OF v])
    show "map_of (AList.delete (j_id r) d) (j_id x) \<noteq> None" if "x \<in> set rs" for x
    proof -
      have "j_id x \<noteq> j_id r" using "2.prems"(2) that by (metis distinct.simps(2) imageI list.simps(9) list.set_map)
      then show ?thesis using "2.prems"(3) that by (simp add: map_of_delete)
    qed
  qed (use "2.prems" in auto)
  with v show ?case by (auto simp: map_of_delete fun_eq_iff)
qed auto

lemma delete_records_wf: "wf_jobs cfg d \<Longrightarrow> delete_records rs d = Inr d' \<Longrightarrow> wf_jobs cfg d'"
  by (induction rs d rule: delete_records.induct) (auto simp: wf_jobs_delete split: option.splits)

definition purge_key :: "job_record \<Rightarrow> int \<times> string" where
  "purge_key r = (j_updated_at r, j_id r)"

lemma purge_cases:
  assumes ok: "registry_ok cfg s" and n: "1 \<le> limit" "limit \<le> MAXIMUM_TERMINAL_PURGE_BATCH"
  obtains batch where
      "fst (purge_terminal (Aware cutoff) limit s) = Inr (length batch)"
      "job_map (snd (purge_terminal (Aware cutoff) limit s)) =
         (\<lambda>k. if k \<in> j_id ` set batch then None else job_map s k)"
      "registry_ok cfg (snd (purge_terminal (Aware cutoff) limit s))"
      "length batch = min (nat limit) (card {k. \<exists>r. job_map s k = Some r \<and> purgeable cutoff r})"
      "\<And>r. r \<in> set batch \<Longrightarrow> job_map s (j_id r) = Some r \<and> purgeable cutoff r"
      "\<And>r k r'. r \<in> set batch \<Longrightarrow> job_map s k = Some r' \<Longrightarrow> purgeable cutoff r' \<Longrightarrow> r' \<notin> set batch
         \<Longrightarrow> purge_key r \<le> purge_key r'"
      "distinct (map j_id batch)"
proof -
  obtain d where d: "queue_read s = Inr d" "wf_jobs cfg d" "job_map s = map_of d"
    using ok by (rule registry_ok_readE)
  have dok: "dict_ok d" using d(2) by (simp add: wf_jobs_def)
  let ?all = "filter (purgeable cutoff) (dict_values d)"
  let ?b = "take (nat limit) (sort_key purge_key ?all)"
  have mem: "r \<in> set ?all \<longleftrightarrow> purgeable cutoff r \<and> map_of d (j_id r) = Some r" for r
    using d(2) by (auto simp: wf_jobs_def wf_map_def dict_values_lookup)
  have bmem: "r \<in> set ?b \<Longrightarrow> r \<in> set ?all" for r by (metis in_set_takeD set_sort)
  have ids: "map j_id (dict_values d) = map fst d"
    using d(2) by (auto simp: dict_values_def wf_jobs_def wf_map_def dict_lookup_iff)
  have "distinct (map j_id ?all)" by (metis dict_ok_def distinct_map_filter dok ids)
  then have "distinct (map j_id (sort_key purge_key ?all))"
    by (simp add: distinct_map)
  then have dist: "distinct (map j_id ?b)" by (simp add: take_map [symmetric])
  obtain d' where d': "delete_records ?b d = Inr d'"
      "map_of d' = (\<lambda>k. if k \<in> j_id ` set ?b then None else map_of d k)"
  proof -
    have "map_of d (j_id r) \<noteq> None" if "r \<in> set ?b" for r using bmem [OF that] mem by simp
    then show thesis using delete_records_ok [OF dok dist] that by blast
  qed
  have wf: "wf_jobs cfg d'" using d(2) d'(1) by (rule delete_records_wf)
  have p: "purge_terminal (Aware cutoff) limit s = (if ?b = [] then (Inr 0, s) else (Inr (length ?b), queue_write d'))"
    using n d(1) d'(1) unfolding purge_key_def [abs_def]
    by (simp add: purge_terminal_def job_as_utc_def Let_def)
  show thesis
  proof (rule that [of ?b])
    show "fst (purge_terminal (Aware cutoff) limit s) = Inr (length ?b)" by (simp only: p) simp
    show "distinct (map j_id ?b)" by (rule dist)
    show "registry_ok cfg (snd (purge_terminal (Aware cutoff) limit s))" using ok wf by (simp add: p)
    show "job_map (snd (purge_terminal (Aware cutoff) limit s)) = (\<lambda>k. if k \<in> j_id ` set ?b then None else job_map s k)"
      unfolding d(3) using d' d(3) wf by (cases "?b = []") (simp_all add: p job_map_write del: take_eq_Nil)
    show "length ?b = min (nat limit) (card {k. \<exists>r. job_map s k = Some r \<and> purgeable cutoff r})"
      using count_values [OF dok, of "purgeable cutoff"] d(3) by (simp add: min.commute)
    show "job_map s (j_id r) = Some r \<and> purgeable cutoff r" if "r \<in> set ?b" for r
      using bmem [OF that] mem d(3) by simp
    show "purge_key r \<le> purge_key r'"
      if "r \<in> set ?b" "job_map s k = Some r'" "purgeable cutoff r'" "r' \<notin> set ?b" for r k r'
    proof (rule take_sort_key_least [OF that(1) _ that(4)])
      show "r' \<in> set ?all" using that d dok by (auto simp: dict_values_lookup)
    qed
  qed
qed

lemma purge_invalid:
  assumes "\<not> (1 \<le> limit \<and> limit \<le> MAXIMUM_TERMINAL_PURGE_BATCH \<and> (\<exists>c. before = Aware c))"
  shows "\<exists>e. purge_terminal before limit s = (Inl (ValueError e), s)"
  using assms by (cases before) (auto simp: purge_terminal_def job_as_utc_def)

lemma purge_registry_ok:
  assumes "registry_ok cfg s" shows "registry_ok cfg (snd (purge_terminal before limit s))"
proof (cases "1 \<le> limit \<and> limit \<le> MAXIMUM_TERMINAL_PURGE_BATCH \<and> (\<exists>c. before = Aware c)")
  case True
  then obtain c where "before = Aware c" by blast
  with True assms show ?thesis by (auto elim: purge_cases [of cfg s limit c])
next
  case False
  with assms show ?thesis using purge_invalid [OF False, of s] by auto
qed

subsection \<open>Steps and reachable registries\<close>

text \<open>
  One step of the queue is one call of one operation, by any worker at any time, with the
  outcome it has, errors included. The identifiers in \<open>issued\<close> have been handed out before:
  \<open>uuid4\<close> does not draw them again, nor one that is present.
\<close>

inductive queue_step :: "queue_config \<Rightarrow> string set \<Rightarrow> registry \<Rightarrow> registry \<Rightarrow> bool"
  for cfg :: queue_config and issued :: "string set" where
  step_enqueue: "uuid \<notin> issued \<Longrightarrow> job_map s uuid = None \<Longrightarrow>
     queue_step cfg issued s (snd (enqueue cfg clock uuid ty p key n sch now s))"
| step_cancel: "queue_step cfg issued s (snd (cancel_owner clock owner now s))"
| step_claim: "queue_step cfg issued s (snd (claim clock w l now s))"
| step_succeed: "queue_step cfg issued s (snd (succeed cfg clock k w tok now s))"
| step_fail: "queue_step cfg issued s (snd (fail cfg clock k w tok e now s))"
| step_purge: "queue_step cfg issued s (snd (purge_terminal before limit s))"

inductive queue_steps :: "queue_config \<Rightarrow> string set \<Rightarrow> registry \<Rightarrow> registry \<Rightarrow> bool"
  for cfg :: queue_config and issued :: "string set" where
  steps_refl: "queue_steps cfg issued s s"
| steps_step: "queue_steps cfg issued s t \<Longrightarrow> queue_step cfg issued t u \<Longrightarrow> queue_steps cfg issued s u"

lemma queue_step_ok: "queue_step cfg issued s t \<Longrightarrow> registry_ok cfg s \<Longrightarrow> registry_ok cfg t"
  by (induction rule: queue_step.induct)
    (simp_all add: enqueue_registry_ok cancel_owner_registry_ok claim_registry_ok succeed_def
      fail_eq_finish finish_registry_ok purge_registry_ok)

lemma queue_steps_ok: "queue_steps cfg issued s t \<Longrightarrow> registry_ok cfg s \<Longrightarrow> registry_ok cfg t"
  by (induction rule: queue_steps.induct) (auto intro: queue_step_ok)

text \<open>The fencing token of an identifier never goes back while its identifier is not reissued.\<close>

definition token_at_least :: "string \<Rightarrow> int \<Rightarrow> registry \<Rightarrow> bool" where
  "token_at_least k n s \<longleftrightarrow> (\<forall>r. job_map s k = Some r \<longrightarrow> n \<le> j_fencing_token r)"

lemma claim_token:
  assumes "registry_ok cfg s" "token_at_least k n s"
  shows "token_at_least k n (snd (claim clock w l now s))"
proof (cases "fullmatch worker_id_pattern w \<and> seconds 1 \<le> l \<and> l \<le> hours 1 \<and> (\<exists>t. job_now clock now = Inr t)")
  case True
  then obtain t where t: "job_now clock now = Inr t" by blast
  from assms(1) True show ?thesis
  proof (elim conjE claim_cases [OF assms(1) _ _ _ t, of w l])
    assume "job_map (snd (claim clock w l now s)) = recovered t (job_map s)"
    then show ?thesis using assms(2) by (auto simp: token_at_least_def recovered_def)
  next
    fix r assume "recovered t (job_map s) (j_id r) = Some r"
      "job_map (snd (claim clock w l now s)) = (recovered t (job_map s))(j_id r \<mapsto> claimed_record w t l r)"
    then show ?thesis using assms(2) by (auto simp: token_at_least_def recovered_def)
  qed auto
next
  case False
  then show ?thesis using assms(2) claim_invalid [OF False, of s] by auto
qed

lemma finish_token:
  assumes "registry_ok cfg s" "token_at_least k n s"
  shows "token_at_least k n (snd (finish cfg clock k' w tok succ e now s))"
  using assms(2)
  by (cases rule: finish_cases [OF assms(1), of clock k' w tok succ e now]) (auto simp: token_at_least_def)

lemma queue_step_token:
  assumes "queue_step cfg issued s t" "registry_ok cfg s" "k \<in> issued" "token_at_least k n s"
  shows "token_at_least k n t"
  using assms
proof (induction rule: queue_step.induct)
  case (step_enqueue uuid s clock ty p key m sch now)
  show ?case
    by (cases rule: enqueue_cases [OF step_enqueue(3) step_enqueue(2), of clock ty p key m sch now])
      (use step_enqueue in \<open>auto simp: token_at_least_def\<close>)
next
  case (step_cancel s clock owner now)
  show ?case
  proof (cases "fullmatch owner_pattern owner \<and> (\<exists>t. job_now clock now = Inr t)")
    case True
    then obtain t where "job_now clock now = Inr t" by blast
    with True step_cancel show ?thesis
      using cancel_owner_spec(2) [of cfg s owner clock now t] by (auto simp: token_at_least_def cancel_map_def)
  next
    case False
    then show ?thesis using step_cancel cancel_owner_invalid [OF False, of s] by auto
  qed
next
  case (step_claim s clock w l now)
  then show ?case by (simp add: claim_token)
next
  case (step_succeed s clock k' w tok now)
  then show ?case by (simp add: succeed_def finish_token)
next
  case (step_fail s clock k' w tok e now)
  then show ?case by (simp add: fail_eq_finish finish_token)
next
  case (step_purge s before limit)
  show ?case
  proof (cases "1 \<le> limit \<and> limit \<le> MAXIMUM_TERMINAL_PURGE_BATCH \<and> (\<exists>c. before = Aware c)")
    case True
    then obtain c where "before = Aware c" by blast
    with True step_purge show ?thesis
      by (elim conjE purge_cases [of cfg s limit c]) (auto simp: token_at_least_def)
  next
    case False
    then show ?thesis using step_purge purge_invalid [OF False, of s] by auto
  qed
qed

lemma queue_steps_token:
  assumes "queue_steps cfg issued s t" "registry_ok cfg s" "k \<in> issued" "token_at_least k n s"
  shows "token_at_least k n t"
  using assms by (induction rule: queue_steps.induct) (auto intro: queue_step_token queue_steps_ok)

end
