(* ===== verification/Job_Runner.thy ===== *)
theory Job_Runner
  imports Job_Queue_Laws
begin

text \<open>
  The clients of the queue protocol in \<open>jobs.py\<close>: the \<open>JobQueue\<close> protocol as a record of
  operations, \<open>DelegatingJobQueue\<close> over two backends, \<open>JobRunner\<close> and the loop of
  \<open>JobDrainPump\<close>. The locale \<open>lease_queue\<close> states what a client may rely on; it is interpreted
  on the JSON queue and shown to pass from two backends to their delegating composition.
\<close>

subsection \<open>The protocol and its JSON implementation\<close>

record 'q queue_ops =
  op_enqueue :: "int \<Rightarrow> string \<Rightarrow> string \<Rightarrow> pyval \<Rightarrow> string \<Rightarrow> int \<Rightarrow> datetime option \<Rightarrow> datetime option
    \<Rightarrow> 'q \<Rightarrow> (job_error + job_record) \<times> 'q"
  op_cancel_owner :: "int \<Rightarrow> string \<Rightarrow> datetime option \<Rightarrow> 'q \<Rightarrow> (job_error + nat) \<times> 'q"
  op_claim :: "int \<Rightarrow> string \<Rightarrow> int \<Rightarrow> datetime option \<Rightarrow> 'q \<Rightarrow> (job_error + job_record option) \<times> 'q"
  op_succeed :: "int \<Rightarrow> string \<Rightarrow> string \<Rightarrow> int \<Rightarrow> datetime option \<Rightarrow> 'q \<Rightarrow> (job_error + job_record) \<times> 'q"
  op_fail :: "int \<Rightarrow> string \<Rightarrow> string \<Rightarrow> int \<Rightarrow> string \<Rightarrow> datetime option \<Rightarrow> 'q \<Rightarrow> (job_error + job_record) \<times> 'q"
  op_records :: "'q \<Rightarrow> job_error + (string, job_record) dict"
  op_leased :: "int \<Rightarrow> string \<Rightarrow> string \<Rightarrow> int \<Rightarrow> datetime option \<Rightarrow> 'q \<Rightarrow> job_error + job_record option"
  op_purge_terminal :: "datetime \<Rightarrow> int \<Rightarrow> 'q \<Rightarrow> (job_error + nat) \<times> 'q"

definition durable_ops :: "queue_config \<Rightarrow> registry queue_ops" where
  "durable_ops cfg =
     \<lparr>op_enqueue = enqueue cfg, op_cancel_owner = cancel_owner, op_claim = claim,
      op_succeed = succeed cfg, op_fail = fail cfg, op_records = records, op_leased = leased,
      op_purge_terminal = purge_terminal\<rparr>"

subsection \<open>DelegatingJobQueue\<close>

text \<open>
  The state is the pair of the live backend and the leftover one; \<open>both\<close> is the source's test
  \<open>fallback is not None and fallback is not live\<close>.
\<close>

definition on_live :: "('a \<Rightarrow> 'r \<times> 'a) \<Rightarrow> 'a \<times> 'b \<Rightarrow> 'r \<times> ('a \<times> 'b)" where
  "on_live f s = (case f (fst s) of (r, a) \<Rightarrow> (r, (a, snd s)))"

definition on_fallback :: "('b \<Rightarrow> 'r \<times> 'b) \<Rightarrow> 'a \<times> 'b \<Rightarrow> 'r \<times> ('a \<times> 'b)" where
  "on_fallback f s = (case f (snd s) of (r, b) \<Rightarrow> (r, (fst s, b)))"

definition delegating_cancel_owner ::
  "bool \<Rightarrow> 'a queue_ops \<Rightarrow> 'b queue_ops \<Rightarrow> int \<Rightarrow> string \<Rightarrow> datetime option \<Rightarrow> 'a \<times> 'b
    \<Rightarrow> (job_error + nat) \<times> ('a \<times> 'b)" where
  "delegating_cancel_owner both live fb clock owner now s =
     (case on_live (op_cancel_owner live clock owner now) s of
        (Inl e, s1) \<Rightarrow> (Inl e, s1)
      | (Inr changed, s1) \<Rightarrow>
          if both then (case on_fallback (op_cancel_owner fb clock owner now) s1 of
                          (Inl leftover_error, s2) \<Rightarrow> (Inl leftover_error, s2)
                        | (Inr n, s2) \<Rightarrow> (Inr (changed + n), s2))
          else (Inr changed, s1))"

text \<open>
  The common shape of \<open>claim\<close> and \<open>leased\<close>: the leftover backend first; an answer of it wins,
  an error of it is raised only when the live backend has no answer either.
\<close>

definition prefer_leftover ::
  "bool \<Rightarrow> ('b \<Rightarrow> (job_error + 'r option) \<times> 'b) \<Rightarrow> ('a \<Rightarrow> (job_error + 'r option) \<times> 'a) \<Rightarrow> 'a \<times> 'b
    \<Rightarrow> (job_error + 'r option) \<times> ('a \<times> 'b)" where
  "prefer_leftover both leftover live s =
     (if both then
        (case on_fallback leftover s of
           (Inr (Some r), s1) \<Rightarrow> (Inr (Some r), s1)
         | (Inr None, s1) \<Rightarrow> on_live live s1
         | (Inl leftover_error, s1) \<Rightarrow>
             (case on_live live s1 of
                (Inr (Some r), s2) \<Rightarrow> (Inr (Some r), s2)
              | (_, s2) \<Rightarrow> (Inl leftover_error, s2)))
      else on_live live s)"

definition delegating_claim ::
  "bool \<Rightarrow> 'a queue_ops \<Rightarrow> 'b queue_ops \<Rightarrow> int \<Rightarrow> string \<Rightarrow> int \<Rightarrow> datetime option \<Rightarrow> 'a \<times> 'b
    \<Rightarrow> (job_error + job_record option) \<times> ('a \<times> 'b)" where
  "delegating_claim both live fb clock worker_id lease now s =
     prefer_leftover both (op_claim fb clock worker_id lease now) (op_claim live clock worker_id lease now) s"

definition delegating_leased ::
  "bool \<Rightarrow> 'a queue_ops \<Rightarrow> 'b queue_ops \<Rightarrow> int \<Rightarrow> string \<Rightarrow> string \<Rightarrow> int \<Rightarrow> datetime option \<Rightarrow> 'a \<times> 'b
    \<Rightarrow> job_error + job_record option" where
  "delegating_leased both live fb clock job_id worker_id tok now s =
     fst (prefer_leftover both (\<lambda>b. (op_leased fb clock job_id worker_id tok now b, b))
            (\<lambda>a. (op_leased live clock job_id worker_id tok now a, a)) s)"

definition delegating_records ::
  "bool \<Rightarrow> 'a queue_ops \<Rightarrow> 'b queue_ops \<Rightarrow> 'a \<times> 'b \<Rightarrow> job_error + (string, job_record) dict" where
  "delegating_records both live fb s =
     (case (if both then op_records fb (snd s) else Inr []) of
        Inl e \<Rightarrow> Inl e
      | Inr merged \<Rightarrow>
          (case op_records live (fst s) of
             Inl e \<Rightarrow> Inl e
           | Inr d \<Rightarrow> Inr (dict_sorted (fold (\<lambda>(k, r). AList.update k r) d merged))))"

text \<open>\<open>_backend_for\<close>: \<open>Inr True\<close> selects the leftover backend.\<close>

definition backend_for ::
  "bool \<Rightarrow> 'a queue_ops \<Rightarrow> 'b queue_ops \<Rightarrow> string \<Rightarrow> 'a \<times> 'b \<Rightarrow> job_error + bool" where
  "backend_for both live fb job_id s =
     (if both then
        (let leftover_records = (case op_records fb (snd s) of Inl _ \<Rightarrow> [] | Inr d \<Rightarrow> d) in
         if map_of leftover_records job_id \<noteq> None
         then (case op_records live (fst s) of
                 Inl e \<Rightarrow> Inl e | Inr d \<Rightarrow> Inr (map_of d job_id = None))
         else Inr False)
      else Inr False)"

definition on_backend ::
  "bool \<Rightarrow> 'a queue_ops \<Rightarrow> 'b queue_ops \<Rightarrow> string \<Rightarrow> ('b \<Rightarrow> (job_error + 'r) \<times> 'b) \<Rightarrow> ('a \<Rightarrow> (job_error + 'r) \<times> 'a)
    \<Rightarrow> 'a \<times> 'b \<Rightarrow> (job_error + 'r) \<times> ('a \<times> 'b)" where
  "on_backend both live fb job_id f g s =
     (case backend_for both live fb job_id s of
        Inl e \<Rightarrow> (Inl e, s)
      | Inr leftover \<Rightarrow> if leftover then on_fallback f s else on_live g s)"

definition delegating_purge_terminal ::
  "bool \<Rightarrow> 'a queue_ops \<Rightarrow> 'b queue_ops \<Rightarrow> datetime \<Rightarrow> int \<Rightarrow> 'a \<times> 'b \<Rightarrow> (job_error + nat) \<times> ('a \<times> 'b)" where
  "delegating_purge_terminal both live fb before limit s =
     (case on_live (op_purge_terminal live before limit) s of
        (Inl e, s1) \<Rightarrow> (Inl e, s1)
      | (Inr purged, s1) \<Rightarrow>
          if both \<and> int purged < limit
          then (case on_fallback (op_purge_terminal fb before (limit - int purged)) s1 of
                  (Inl e, s2) \<Rightarrow> (Inl e, s2) | (Inr n, s2) \<Rightarrow> (Inr (purged + n), s2))
          else (Inr purged, s1))"

definition delegating_ops :: "bool \<Rightarrow> 'a queue_ops \<Rightarrow> 'b queue_ops \<Rightarrow> ('a \<times> 'b) queue_ops" where
  "delegating_ops both live fb =
     \<lparr>op_enqueue = (\<lambda>c u ty p key n sch now. on_live (op_enqueue live c u ty p key n sch now)),
      op_cancel_owner = delegating_cancel_owner both live fb,
      op_claim = delegating_claim both live fb,
      op_succeed = (\<lambda>c k w tok now.
        on_backend both live fb k (op_succeed fb c k w tok now) (op_succeed live c k w tok now)),
      op_fail = (\<lambda>c k w tok e now.
        on_backend both live fb k (op_fail fb c k w tok e now) (op_fail live c k w tok e now)),
      op_records = delegating_records both live fb,
      op_leased = delegating_leased both live fb,
      op_purge_terminal = delegating_purge_terminal both live fb\<rparr>"

subsection \<open>JobRunner\<close>

record job_context =
  cx_job_id :: string
  cx_idempotency_key :: string
  cx_attempt :: int
  cx_fencing_token :: int
  cx_lease_owner :: string
  cx_lease_expires_at :: int
  cx_payload :: pyval

text \<open>
  A handler returns normally (\<open>None\<close>) or raises an exception of the named class; it may use the
  queue meanwhile. The three clock readings are those of the claim, of the lease check and of
  the completion.
\<close>

type_synonym 'q job_handler = "job_context \<Rightarrow> 'q \<Rightarrow> string option \<times> 'q"

fun is_queue_error :: "job_error \<Rightarrow> bool" where
  "is_queue_error (JobQueueError m) = True"
| "is_queue_error (JobQueueCapacityError m) = True"
| "is_queue_error e = False"

definition complete ::
  "'q queue_ops \<Rightarrow> int \<Rightarrow> string \<Rightarrow> string \<Rightarrow> int \<Rightarrow> bool \<Rightarrow> string option \<Rightarrow> datetime option \<Rightarrow> 'q
    \<Rightarrow> (job_error + job_record option) \<times> 'q" where
  "complete ops clock job_id worker_id tok succeeded error_code now s =
     (let (result, s') =
        (if succeeded then op_succeed ops clock job_id worker_id tok now s
         else case error_code of
           None \<Rightarrow> (Inl (JobQueueError ''failed job is missing an error code''), s)
         | Some code \<Rightarrow> op_fail ops clock job_id worker_id tok code now s)
      in case result of
           Inr r \<Rightarrow> (Inr (Some r), s')
         | Inl e \<Rightarrow>
             if is_queue_error e
             then (case op_records ops s' of Inl e' \<Rightarrow> (Inl e', s') | Inr d \<Rightarrow> (Inr (map_of d job_id), s'))
             else (Inl e, s'))"

definition safe_error_code :: "string \<Rightarrow> string" where
  "safe_error_code name = take 128 (''job.'' @ casefold name)"

definition context_of :: "job_record \<Rightarrow> string \<Rightarrow> int \<Rightarrow> job_context" where
  "context_of r owner expires =
     \<lparr>cx_job_id = j_id r, cx_idempotency_key = j_idempotency_key r, cx_attempt = j_attempts r,
      cx_fencing_token = j_fencing_token r, cx_lease_owner = owner, cx_lease_expires_at = expires,
      cx_payload = j_payload r\<rparr>"

definition run_once ::
  "'q queue_ops \<Rightarrow> (string \<rightharpoonup> 'q job_handler) \<Rightarrow> int \<times> int \<times> int \<Rightarrow> string \<Rightarrow> datetime option \<Rightarrow> 'q
    \<Rightarrow> (job_error + job_record option) \<times> 'q" where
  "run_once ops handlers clocks worker_id now s =
     (case clocks of (c1, c2, c3) \<Rightarrow>
      case op_claim ops c1 worker_id (minutes 5) now s of
        (Inl e, s1) \<Rightarrow> (Inl e, s1)
      | (Inr None, s1) \<Rightarrow> (Inr None, s1)
      | (Inr (Some job), s1) \<Rightarrow>
          (case op_leased ops c2 (j_id job) worker_id (j_fencing_token job) now s1 of
             Inl e \<Rightarrow> (Inl e, s1)
           | Inr None \<Rightarrow>
               (case op_records ops s1 of Inl e \<Rightarrow> (Inl e, s1) | Inr d \<Rightarrow> (Inr (map_of d (j_id job)), s1))
           | Inr (Some live) \<Rightarrow>
               (case handlers (j_type live) of
                  None \<Rightarrow>
                    complete ops c3 (j_id live) worker_id (j_fencing_token live) False
                      (Some ''job.handler_missing'') now s1
                | Some handler \<Rightarrow>
                    (case (j_lease_owner live, j_lease_expires_at live) of
                       (Some owner, Some expires) \<Rightarrow>
                         (case handler (context_of live owner expires) s1 of
                            (Some name, s2) \<Rightarrow>
                              complete ops c3 (j_id live) worker_id (j_fencing_token live) False
                                (Some (safe_error_code name)) now s2
                          | (None, s2) \<Rightarrow>
                              complete ops c3 (j_id live) worker_id (j_fencing_token live) True None now s2)
                     | _ \<Rightarrow> (Inl (JobQueueError ''claimed job is missing lease context''), s1)))))"

subsection \<open>JobDrainPump\<close>

record pump =
  pump_deferred :: bool
  pump_thread :: "int option"

text \<open>
  The loop of \<open>drain\<close>, one triple of clock readings per round; \<open>None\<close> is running out of fuel,
  and a raised error leaves the loop.
\<close>

fun drain_loop ::
  "nat \<Rightarrow> 'q queue_ops \<Rightarrow> (string \<rightharpoonup> 'q job_handler) \<Rightarrow> (nat \<Rightarrow> int \<times> int \<times> int) \<Rightarrow> string \<Rightarrow> 'q
    \<Rightarrow> (job_error option \<times> 'q) option" where
  "drain_loop 0 ops handlers clocks worker_id s = None"
| "drain_loop (Suc n) ops handlers clocks worker_id s =
     (case run_once ops handlers (clocks 0) worker_id None s of
        (Inl e, s') \<Rightarrow> Some (Some e, s')
      | (Inr None, s') \<Rightarrow> Some (None, s')
      | (Inr (Some r), s') \<Rightarrow> drain_loop n ops handlers (\<lambda>i. clocks (Suc i)) worker_id s')"

definition drain ::
  "nat \<Rightarrow> 'q queue_ops \<Rightarrow> (string \<rightharpoonup> 'q job_handler) \<Rightarrow> (nat \<Rightarrow> int \<times> int \<times> int) \<Rightarrow> string \<Rightarrow> int \<Rightarrow> pump \<Rightarrow> 'q
    \<Rightarrow> (job_error option \<times> pump \<times> 'q) option" where
  "drain fuel ops handlers clocks worker_id me p s =
     (if pump_deferred p then Some (None, p, s)
      else if pump_thread p = Some me then Some (None, p, s)
      else map_option (\<lambda>(e, s'). (e, p\<lparr>pump_thread := None\<rparr>, s'))
             (drain_loop fuel ops handlers clocks worker_id s))"

subsection \<open>What a client may rely on\<close>

definition code_ok :: "string option \<Rightarrow> bool" where
  "code_ok outcome = (case outcome of None \<Rightarrow> True | Some code \<Rightarrow> fullmatch error_code_pattern code)"

text \<open>The two ways of ending a job as one call: success, or failure with a code.\<close>

definition op_finish ::
  "'q queue_ops \<Rightarrow> int \<Rightarrow> string \<Rightarrow> string \<Rightarrow> int \<Rightarrow> string option \<Rightarrow> datetime option \<Rightarrow> 'q
    \<Rightarrow> (job_error + job_record) \<times> 'q" where
  "op_finish ops clock k w tok outcome now s =
     (case outcome of None \<Rightarrow> op_succeed ops clock k w tok now s
      | Some code \<Rightarrow> op_fail ops clock k w tok code now s)"

text \<open>What ending a job does to its record.\<close>

definition settles :: "string option \<Rightarrow> job_record \<Rightarrow> job_record \<Rightarrow> bool" where
  "settles outcome r r' \<longleftrightarrow>
     j_id r' = j_id r \<and> j_attempts r' = j_attempts r \<and> j_maximum_attempts r' = j_maximum_attempts r
     \<and> j_lease_owner r' = None \<and> j_lease_expires_at r' = None \<and> j_error_code r' = outcome
     \<and> j_status r' = (if outcome = None then SUCCEEDED
                      else if j_maximum_attempts r \<le> j_attempts r then FAILED else QUEUED)"

text \<open>The attempts a registry still has to give.\<close>

definition budget :: "(string \<rightharpoonup> job_record) \<Rightarrow> nat" where
  "budget m = (\<Sum>k\<in>dom m. nat (j_maximum_attempts (the (m k)) - j_attempts (the (m k))))"

text \<open>What the handler of a claimed job leaves: how the job is to be ended, and the queue.\<close>

definition handler_result ::
  "(string \<rightharpoonup> 'q job_handler) \<Rightarrow> string \<Rightarrow> job_record \<Rightarrow> 'q \<Rightarrow> string option \<times> 'q" where
  "handler_result handlers w j s =
     (case handlers (j_type j) of
        None \<Rightarrow> (Some ''job.handler_missing'', s)
      | Some h \<Rightarrow> (case h (context_of j w (the (j_lease_expires_at j))) s of
                    (raised, s') \<Rightarrow> (map_option safe_error_code raised, s')))"

definition handlers_quiet :: "(string \<rightharpoonup> 'q job_handler) \<Rightarrow> bool" where
  "handlers_quiet handlers \<longleftrightarrow>
     (\<forall>ty h cx s. handlers ty = Some h \<longrightarrow>
        (\<exists>raised. h cx s = (raised, s) \<and> code_ok (map_option safe_error_code raised)))"

lemma handler_missing_ok: "fullmatch error_code_pattern ''job.handler_missing''"
  by code_simp

lemma handler_result_quiet:
  assumes "handlers_quiet handlers"
  shows "\<exists>outcome. handler_result handlers w j s = (outcome, s) \<and> code_ok outcome"
proof (cases "handlers (j_type j)")
  case None
  then show ?thesis using handler_missing_ok by (simp add: handler_result_def code_ok_def)
next
  case (Some h)
  then obtain raised where "h (context_of j w (the (j_lease_expires_at j))) s = (raised, s)"
    "code_ok (map_option safe_error_code raised)"
    using assms unfolding handlers_quiet_def by blast
  then show ?thesis using Some by (simp add: handler_result_def)
qed

lemma budget_settles: "m k = Some r \<Longrightarrow> settles outcome r r' \<Longrightarrow> budget (m(k \<mapsto> r')) = budget m"
  by (auto simp: budget_def settles_def insert_absorb domI intro!: sum.cong)

locale lease_queue =
  fixes ops :: "'q queue_ops" and inv :: "'q \<Rightarrow> bool" and jobs :: "'q \<Rightarrow> string \<rightharpoonup> job_record"
  assumes jobs_finite: "inv s \<Longrightarrow> finite (dom (jobs s))"
    and claim_inv: "inv s \<Longrightarrow> inv (snd (op_claim ops c w l now s))"
    and claim_dom: "inv s \<Longrightarrow> dom (jobs (snd (op_claim ops c w l now s))) = dom (jobs s)"
    and claim_total: "inv s \<Longrightarrow> fullmatch worker_id_pattern w \<Longrightarrow> seconds 1 \<le> l \<Longrightarrow> l \<le> hours 1
      \<Longrightarrow> job_now c now = Inr t \<Longrightarrow> \<exists>j. fst (op_claim ops c w l now s) = Inr j"
    and claim_holds: "inv s \<Longrightarrow> op_claim ops c w l now s = (Inr (Some j), s')
      \<Longrightarrow> jobs s' (j_id j) = Some j \<and> 1 \<le> j_fencing_token j \<and> fullmatch worker_id_pattern w
          \<and> (\<exists>t. job_now c now = Inr t \<and> (\<forall>t' < t + l. holds_lease t' w (j_fencing_token j) j))"
    and claim_budget: "inv s \<Longrightarrow> budget (jobs (snd (op_claim ops c w l now s))) \<le> budget (jobs s)"
    and claim_spends: "inv s \<Longrightarrow> op_claim ops c w l now s = (Inr (Some j), s')
      \<Longrightarrow> budget (jobs s') < budget (jobs s)"
    and leased_exact: "inv s \<Longrightarrow> fullmatch worker_id_pattern w \<Longrightarrow> 1 \<le> tok \<Longrightarrow> job_now c now = Inr t
      \<Longrightarrow> op_leased ops c k w tok now s =
        Inr (case jobs s k of None \<Rightarrow> None | Some r \<Rightarrow> if holds_lease t w tok r then Some r else None)"
    and finish_accepted: "inv s \<Longrightarrow> fullmatch worker_id_pattern w \<Longrightarrow> 1 \<le> tok \<Longrightarrow> job_now c now = Inr t
      \<Longrightarrow> code_ok outcome \<Longrightarrow> jobs s k = Some r \<Longrightarrow> holds_lease t w tok r
      \<Longrightarrow> \<exists>r' s'. op_finish ops c k w tok outcome now s = (Inr r', s') \<and> settles outcome r r'
            \<and> jobs s' = (jobs s)(k \<mapsto> r') \<and> inv s'"
    and finish_rejected: "inv s \<Longrightarrow> fullmatch worker_id_pattern w \<Longrightarrow> 1 \<le> tok \<Longrightarrow> job_now c now = Inr t
      \<Longrightarrow> code_ok outcome \<Longrightarrow> (\<And>r. jobs s k = Some r \<Longrightarrow> \<not> holds_lease t w tok r)
      \<Longrightarrow> \<exists>e. op_finish ops c k w tok outcome now s = (Inl e, s) \<and> is_queue_error e"
    and records_lookup: "inv s \<Longrightarrow> \<exists>d. op_records ops s = Inr d \<and> dict_ok d \<and> map_of d = jobs s"
begin

lemma complete_eq:
  "complete ops c k w tok (outcome = None) outcome now s =
     (case op_finish ops c k w tok outcome now s of
        (Inr r, s') \<Rightarrow> (Inr (Some r), s')
      | (Inl e, s') \<Rightarrow>
          if is_queue_error e
          then (case op_records ops s' of Inl e' \<Rightarrow> (Inl e', s') | Inr d \<Rightarrow> (Inr (map_of d k), s'))
          else (Inl e, s'))"
  by (cases outcome) (auto simp: complete_def op_finish_def split: prod.splits sum.splits)

lemma complete_held:
  assumes "inv s" "fullmatch worker_id_pattern w" "1 \<le> tok" "job_now c now = Inr t" "code_ok outcome"
    "jobs s k = Some r" "holds_lease t w tok r"
  shows "\<exists>r' s'. complete ops c k w tok (outcome = None) outcome now s = (Inr (Some r'), s')
           \<and> settles outcome r r' \<and> jobs s' = (jobs s)(k \<mapsto> r') \<and> inv s'"
  using finish_accepted [OF assms] by (auto simp: complete_eq)

lemma complete_lost:
  assumes "inv s" "fullmatch worker_id_pattern w" "1 \<le> tok" "job_now c now = Inr t" "code_ok outcome"
    "\<And>r. jobs s k = Some r \<Longrightarrow> \<not> holds_lease t w tok r"
  shows "complete ops c k w tok (outcome = None) outcome now s = (Inr (jobs s k), s)"
proof -
  obtain e where "op_finish ops c k w tok outcome now s = (Inl e, s)" "is_queue_error e"
    using finish_rejected [OF assms(1-5), of k] assms(6) by auto
  then show ?thesis using records_lookup [OF assms(1)] by (auto simp: complete_eq)
qed

text \<open>A round that claims a job within its lease completes it with the outcome of the handler.\<close>

lemma run_once_claimed:
  assumes "inv s" "op_claim ops c1 w (minutes 5) now s = (Inr (Some j), s1)"
    and "job_now c2 now = Inr t2" "holds_lease t2 w (j_fencing_token j) j"
    and "handler_result handlers w j s1 = (outcome, s2)"
  shows "run_once ops handlers (c1, c2, c3) w now s =
    complete ops c3 (j_id j) w (j_fencing_token j) (outcome = None) outcome now s2"
proof -
  have j: "jobs s1 (j_id j) = Some j" "1 \<le> j_fencing_token j" "fullmatch worker_id_pattern w"
    using claim_holds [OF assms(1,2)] by auto
  have "inv s1" using claim_inv [OF assms(1), of c1 w "minutes 5" now] assms(2) by simp
  then have "op_leased ops c2 (j_id j) w (j_fencing_token j) now s1 = Inr (Some j)"
    using leased_exact [of s1 w "j_fencing_token j" c2 now t2 "j_id j"] assms(3,4) j by simp
  moreover have "j_lease_owner j = Some w" "\<exists>x. j_lease_expires_at j = Some x"
    using assms(4) by (auto simp: holds_lease_def lease_over_def split: option.splits)
  ultimately show ?thesis
    using assms(2,5) by (auto simp: run_once_def handler_result_def split: option.splits prod.splits)
qed

lemma run_once_expired:
  assumes "inv s" "op_claim ops c1 w (minutes 5) now s = (Inr (Some j), s1)"
    and "job_now c2 now = Inr t2" "\<not> holds_lease t2 w (j_fencing_token j) j"
  shows "run_once ops handlers (c1, c2, c3) w now s = (Inr (Some j), s1)"
proof -
  have j: "jobs s1 (j_id j) = Some j" "1 \<le> j_fencing_token j" "fullmatch worker_id_pattern w"
    using claim_holds [OF assms(1,2)] by auto
  have "inv s1" using claim_inv [OF assms(1), of c1 w "minutes 5" now] assms(2) by simp
  then show ?thesis
    using leased_exact [of s1 w "j_fencing_token j" c2 now t2 "j_id j"] records_lookup [of s1] assms j
    by (auto simp: run_once_def)
qed

lemma run_once_settles:
  assumes "inv s" "op_claim ops c1 w (minutes 5) now s = (Inr (Some j), s1)"
    and "job_now c2 now = Inr t2" "holds_lease t2 w (j_fencing_token j) j" "job_now c3 now = Inr t3"
    and "handler_result handlers w j s1 = (outcome, s2)" "inv s2" "code_ok outcome"
  shows "\<exists>result s3. run_once ops handlers (c1, c2, c3) w now s = (Inr result, s3) \<and> inv s3
    \<and> (case jobs s2 (j_id j) of
         None \<Rightarrow> result = None \<and> s3 = s2
       | Some r \<Rightarrow>
           if holds_lease t3 w (j_fencing_token j) r
           then (\<exists>r'. result = Some r' \<and> settles outcome r r' \<and> jobs s3 = (jobs s2)(j_id j \<mapsto> r'))
           else result = Some r \<and> s3 = s2)"
proof -
  have w: "1 \<le> j_fencing_token j" "fullmatch worker_id_pattern w"
    using claim_holds [OF assms(1,2)] by auto
  note run = run_once_claimed [OF assms(1-4,6), of c3]
  note lost = complete_lost [OF assms(7) w(2,1) assms(5,8), of "j_id j"]
  show ?thesis
  proof (cases "jobs s2 (j_id j)")
    case None
    then show ?thesis using run lost assms(7) by simp
  next
    case (Some r)
    show ?thesis
    proof (cases "holds_lease t3 w (j_fencing_token j) r")
      case True
      then show ?thesis using complete_held [OF assms(7) w(2,1) assms(5,8) Some True] run Some by auto
    next
      case False
      then show ?thesis using run lost assms(7) Some by simp
    qed
  qed
qed

text \<open>
  With handlers that leave the queue alone every round spends an attempt, so the drain loop
  ends, and it ends at a claim that found nothing to do.
\<close>

lemma run_once_progress:
  assumes "inv s" "fullmatch worker_id_pattern w" "handlers_quiet handlers"
  shows "\<exists>result s'. run_once ops handlers (c1, c2, c3) w None s = (Inr result, s') \<and> inv s'
    \<and> (if result = None then op_claim ops c1 w (minutes 5) None s = (Inr None, s')
       else budget (jobs s') < budget (jobs s))"
proof -
  have now: "job_now c None = Inr c" for c by (simp add: job_now_def utc_or_now_def)
  obtain claimed s1 where c: "op_claim ops c1 w (minutes 5) None s = (Inr claimed, s1)"
    using claim_total [OF assms(1,2) _ _ now, of "minutes 5" c1]
    by (cases "op_claim ops c1 w (minutes 5) None s") auto
  have inv1: "inv s1" using claim_inv [OF assms(1), of c1 w "minutes 5" None] c by simp
  show ?thesis
  proof (cases claimed)
    case None
    then show ?thesis using c inv1 by (simp add: run_once_def)
  next
    case (Some j)
    with c have cj: "op_claim ops c1 w (minutes 5) None s = (Inr (Some j), s1)" by simp
    have j: "jobs s1 (j_id j) = Some j" and less: "budget (jobs s1) < budget (jobs s)"
      using claim_holds [OF assms(1) cj] claim_spends [OF assms(1) cj] by auto
    show ?thesis
    proof (cases "holds_lease c2 w (j_fencing_token j) j")
      case True
      obtain outcome where h: "handler_result handlers w j s1 = (outcome, s1)" "code_ok outcome"
        using handler_result_quiet [OF assms(3)] by metis
      show ?thesis
        using run_once_settles [OF assms(1) cj now True now h(1) inv1 h(2), of c3] j less
        by (auto simp: budget_settles split: if_splits) blast
    next
      case False
      then show ?thesis using run_once_expired [OF assms(1) cj now, of c2 handlers c3] inv1 less by simp
    qed
  qed
qed

text \<open>The last round is round \<open>i\<close>: with no fuel for it the loop does not return, and with more it changes nothing.\<close>

lemma drain_loop_ends:
  assumes "inv s" "fullmatch worker_id_pattern w" "handlers_quiet handlers"
  shows "\<exists>s0 s' i. i \<le> budget (jobs s)
    \<and> (\<forall>fuel. drain_loop fuel ops handlers clocks w s = (if i < fuel then Some (None, s') else None)) \<and> inv s0 \<and> inv s'
    \<and> op_claim ops (fst (clocks i)) w (minutes 5) None s0 = (Inr None, s')"
  using assms(1)
proof (induction "budget (jobs s)" arbitrary: s clocks rule: less_induct)
  case less
  obtain c1 c2 c3 where clk: "clocks 0 = (c1, c2, c3)" by (metis prod_cases3)
  obtain result s' where run: "run_once ops handlers (clocks 0) w None s = (Inr result, s')" "inv s'"
    "if result = None then op_claim ops c1 w (minutes 5) None s = (Inr None, s')
     else budget (jobs s') < budget (jobs s)"
    using run_once_progress [OF less.prems assms(2,3), of c1 c2 c3] clk by auto
  show ?case
  proof (cases result)
    case None
    have "drain_loop fuel ops handlers clocks w s = (if 0 < fuel then Some (None, s') else None)" for fuel
      using run(1) None by (cases fuel) simp_all
    then show ?thesis using run None less.prems clk by (intro exI [of _ s] exI [of _ s'] exI [of _ 0]) simp
  next
    case (Some r)
    then have smaller: "budget (jobs s') < budget (jobs s)" using run(3) by simp
    obtain s0 s2 i where i: "i \<le> budget (jobs s')"
        "\<forall>fuel. drain_loop fuel ops handlers (\<lambda>i. clocks (Suc i)) w s' = (if i < fuel then Some (None, s2) else None)"
        "inv s0" "inv s2" "op_claim ops (fst (clocks (Suc i))) w (minutes 5) None s0 = (Inr None, s2)"
      using less.hyps [OF smaller run(2), of "\<lambda>i. clocks (Suc i)"] by blast
    have "drain_loop fuel ops handlers clocks w s = (if Suc i < fuel then Some (None, s2) else None)" for fuel
      using run(1) Some i(2) by (cases fuel) simp_all
    then show ?thesis using i smaller by (intro exI [of _ s0] exI [of _ s2] exI [of _ "Suc i"]) simp
  qed
qed

end

subsection \<open>The JSON queue keeps the contract\<close>

lemma finish_queue_error:
  assumes "registry_ok cfg s" "fullmatch worker_id_pattern w" "1 \<le> tok" "job_now clock now = Inr t"
    and "\<And>r. job_map s k = Some r \<Longrightarrow> \<not> holds_lease t w tok r"
  shows "\<exists>e'. finish cfg clock k w tok ok e now s = (Inl e', s) \<and> is_queue_error e'"
proof -
  obtain d where d: "queue_read s = Inr d" "job_map s = map_of d"
    using assms(1) by (rule registry_ok_readE)
  show ?thesis
    using assms(2-) d
    by (auto simp: finish_def validate_worker_id_def holds_lease_def Let_def split: option.splits)
qed

lemma recovered_dom [simp]: "dom (recovered t m) = dom m"
  by (auto simp: recovered_def dom_def)

lemma budget_recovered [simp]: "budget (recovered t m) = budget m"
  by (auto simp: budget_def recovered_def intro!: sum.cong)

lemma budget_claimed:
  assumes "finite (dom m)" "m k = Some r" "j_attempts r < j_maximum_attempts r"
  shows "budget (m(k \<mapsto> claimed_record w t l r)) < budget m"
proof -
  have "budget (m(k \<mapsto> claimed_record w t l r)) =
      (\<Sum>x\<in>dom m - {k}. nat (j_maximum_attempts (the (m x)) - j_attempts (the (m x))))
      + nat (j_maximum_attempts r - (j_attempts r + 1))"
    using assms by (simp add: budget_def insert_absorb domI sum.remove [of "dom m" k] claimed_record_def)
  moreover have "budget m =
      (\<Sum>x\<in>dom m - {k}. nat (j_maximum_attempts (the (m x)) - j_attempts (the (m x))))
      + nat (j_maximum_attempts r - j_attempts r)"
    using assms by (simp add: budget_def domI sum.remove [of "dom m" k])
  ultimately show ?thesis using assms(3) by simp
qed

lemma registry_finite: "registry_ok cfg s \<Longrightarrow> finite (dom (job_map s))"
  by (auto elim!: registry_ok_readE simp: finite_dom_map_of)

text \<open>The effect of a claim on the keys and on the attempts left.\<close>

lemma claim_effect:
  assumes ok: "registry_ok cfg s"
  shows "dom (job_map (snd (claim c w l now s))) = dom (job_map s)"
    and "budget (job_map (snd (claim c w l now s))) \<le> budget (job_map s)"
    and "fst (claim c w l now s) = Inr (Some j) \<Longrightarrow>
      budget (job_map (snd (claim c w l now s))) < budget (job_map s)"
proof -
  let ?s' = "snd (claim c w l now s)"
  have "dom (job_map ?s') = dom (job_map s) \<and>
    (if \<exists>j. fst (claim c w l now s) = Inr (Some j) then budget (job_map ?s') < budget (job_map s)
     else budget (job_map ?s') \<le> budget (job_map s))"
  proof (cases "fullmatch worker_id_pattern w \<and> seconds 1 \<le> l \<and> l \<le> hours 1 \<and> (\<exists>t. job_now c now = Inr t)")
    case True
    then obtain t where t: "job_now c now = Inr t" by blast
    from True show ?thesis
    proof (elim conjE claim_cases [OF ok _ _ _ t, of w l])
      fix r assume r: "recovered t (job_map s) (j_id r) = Some r" "is_due t r"
        "fst (claim c w l now s) = Inr (Some (claimed_record w t l r))"
        "job_map ?s' = (recovered t (job_map s))(j_id r \<mapsto> claimed_record w t l r)"
      then obtain r0 where "job_map s (j_id r) = Some r0" "r = recover_record t r0"
        by (auto simp: recovered_def)
      then have "record_ok r" using registry_ok_record [OF ok] record_ok_recover by blast
      then have "j_attempts r < j_maximum_attempts r" using r(2) by (simp add: record_ok_def is_due_def)
      then have "budget (job_map ?s') < budget (recovered t (job_map s))"
        unfolding r(4) using registry_finite [OF ok] r(1) by (intro budget_claimed) auto
      then have "budget (job_map ?s') < budget (job_map s)" by simp
      moreover have "dom (job_map ?s') = dom (job_map s)"
        unfolding r(4) using \<open>job_map s (j_id r) = Some r0\<close> by (auto simp: insert_absorb domI)
      ultimately show ?thesis by auto
    qed simp_all
  next
    case False
    then show ?thesis using claim_invalid [OF False, of s] by auto
  qed
  then show "dom (job_map ?s') = dom (job_map s)" "budget (job_map ?s') \<le> budget (job_map s)"
    "fst (claim c w l now s) = Inr (Some j) \<Longrightarrow> budget (job_map ?s') < budget (job_map s)"
    by (auto split: if_splits)
qed

lemma claim_total_durable:
  assumes "registry_ok cfg s" "fullmatch worker_id_pattern w" "seconds 1 \<le> l" "l \<le> hours 1"
    "job_now c now = Inr t"
  shows "\<exists>j. fst (claim c w l now s) = Inr j"
  by (cases rule: claim_cases [OF assms]) auto

lemma claim_holds_durable:
  assumes ok: "registry_ok cfg s" and c: "claim c w l now s = (Inr (Some j), s')"
  shows "job_map s' (j_id j) = Some j \<and> 1 \<le> j_fencing_token j \<and> fullmatch worker_id_pattern w
    \<and> (\<exists>t. job_now c now = Inr t \<and> (\<forall>t' < t + l. holds_lease t' w (j_fencing_token j) j))"
proof -
  have "fullmatch worker_id_pattern w" using claim_invalid [of w l c now s] c by fastforce
  moreover from claim_returns [OF ok c] obtain r t where
    "job_map s (j_id j) = Some r" "j_fencing_token j = j_fencing_token r + 1"
    "j = claimed_record w t l (recover_record t r)" "job_now c now = Inr t" "job_map s' (j_id j) = Some j"
    by blast
  moreover from this have "record_ok r" using registry_ok_record [OF ok] by blast
  moreover from this have "0 \<le> j_fencing_token r" by (simp add: record_ok_def)
  ultimately show ?thesis by (auto simp: holds_lease_def lease_over_def)
qed

lemma op_finish_durable:
  "op_finish (durable_ops cfg) c k w tok outcome now s =
     (if code_ok outcome then finish cfg c k w tok (outcome = None) outcome now s
      else (Inl (ValueError ''invalid safe job error code''), s))"
  by (cases outcome) (auto simp: op_finish_def durable_ops_def succeed_def fail_def code_ok_def)

lemma settles_finished: "settles outcome r (finished_record cfg t (outcome = None) outcome r)"
  by (auto simp: settles_def finished_record_def)

interpretation durable: lease_queue "durable_ops cfg" "registry_ok cfg" job_map for cfg
proof (unfold_locales, goal_cases)
  case (7 s c w l now j s')
  then show ?case using claim_effect(3) [OF 7(1), of c w l now j] by (simp add: durable_ops_def)
next
  case (9 s w tok c now t outcome k r)
  then show ?case
    using finish_accepts [OF 9(1-4,6,7), of "outcome = None" outcome] settles_finished
    by (auto simp: op_finish_durable prod_eq_iff)
next
  case (10 s w tok c now t outcome k)
  then show ?case using finish_queue_error [OF 10(1-4)] by (simp add: op_finish_durable)
next
  case (11 s)
  then show ?case
    by (elim registry_ok_readE)
      (auto simp: durable_ops_def records_def map_of_dict_sorted wf_jobs_def)
qed (simp_all add: durable_ops_def registry_finite claim_registry_ok claim_effect claim_total_durable
      claim_holds_durable leased_iff)

subsection \<open>Two backends behind DelegatingJobQueue\<close>

definition pair_jobs ::
  "('a \<Rightarrow> string \<rightharpoonup> job_record) \<Rightarrow> ('b \<Rightarrow> string \<rightharpoonup> job_record) \<Rightarrow> 'a \<times> 'b \<Rightarrow> string \<rightharpoonup> job_record" where
  "pair_jobs live_jobs fb_jobs s = fb_jobs (snd s) ++ live_jobs (fst s)"

text \<open>Identifiers are fresh UUIDs, so the two backends hold different jobs.\<close>

definition pair_inv ::
  "('a \<Rightarrow> bool) \<Rightarrow> ('a \<Rightarrow> string \<rightharpoonup> job_record) \<Rightarrow> ('b \<Rightarrow> bool) \<Rightarrow> ('b \<Rightarrow> string \<rightharpoonup> job_record) \<Rightarrow> 'a \<times> 'b \<Rightarrow> bool" where
  "pair_inv live_inv live_jobs fb_inv fb_jobs s \<longleftrightarrow>
     live_inv (fst s) \<and> fb_inv (snd s) \<and> dom (live_jobs (fst s)) \<inter> dom (fb_jobs (snd s)) = {}"

lemma budget_add:
  assumes "finite (dom m)" "finite (dom n)" "dom m \<inter> dom n = {}"
  shows "budget (n ++ m) = budget m + budget n"
proof -
  have "budget (n ++ m) =
      (\<Sum>k\<in>dom m. nat (j_maximum_attempts (the ((n ++ m) k)) - j_attempts (the ((n ++ m) k))))
      + (\<Sum>k\<in>dom n. nat (j_maximum_attempts (the ((n ++ m) k)) - j_attempts (the ((n ++ m) k))))"
    using assms by (simp add: budget_def sum.union_disjoint Un_commute)
  also have "\<dots> = budget m + budget n"
    unfolding budget_def using assms(3)
    by (intro arg_cong2 [of _ _ _ _ "(+)"] sum.cong) (auto simp: map_add_def split: option.splits)
  finally show ?thesis .
qed

locale two_queues =
  live: lease_queue live live_inv live_jobs + fb: lease_queue fb fb_inv fb_jobs
  for live :: "'a queue_ops" and live_inv live_jobs and fb :: "'b queue_ops" and fb_inv fb_jobs
begin

lemma pair_budget:
  assumes "pair_inv live_inv live_jobs fb_inv fb_jobs s"
  shows "budget (pair_jobs live_jobs fb_jobs s) = budget (live_jobs (fst s)) + budget (fb_jobs (snd s))"
  using assms live.jobs_finite fb.jobs_finite by (simp add: pair_inv_def pair_jobs_def budget_add)

text \<open>
  The state after a delegated claim: the leftover backend has been asked, and the live one too
  unless the leftover one had a job.
\<close>

lemma delegating_claim_cases:
  obtains (leftover) j b where "op_claim fb c w l now (snd s) = (Inr (Some j), b)"
      "delegating_claim True live fb c w l now s = (Inr (Some j), (fst s, b))"
  | (live) j a where "op_claim live c w l now (fst s) = (Inr (Some j), a)"
      "delegating_claim True live fb c w l now s = (Inr (Some j), (a, snd (op_claim fb c w l now (snd s))))"
  | (none) "\<And>j. fst (delegating_claim True live fb c w l now s) \<noteq> Inr (Some j)"
      "snd (delegating_claim True live fb c w l now s) =
         (snd (op_claim live c w l now (fst s)), snd (op_claim fb c w l now (snd s)))"
      "\<And>x y. fst (op_claim fb c w l now (snd s)) = Inr x \<Longrightarrow> fst (op_claim live c w l now (fst s)) = Inr y
         \<Longrightarrow> fst (delegating_claim True live fb c w l now s) = Inr None"
proof -
  obtain x b y a where xy: "op_claim fb c w l now (snd s) = (x, b)" "op_claim live c w l now (fst s) = (y, a)"
    by fastforce
  note eval = delegating_claim_def prefer_leftover_def on_live_def on_fallback_def
  consider (fb_some) j where "x = Inr (Some j)" | (live_some) j where "\<And>j. x \<noteq> Inr (Some j)" "y = Inr (Some j)"
    | (neither) "\<And>j. x \<noteq> Inr (Some j)" "\<And>j. y \<noteq> Inr (Some j)"
    by blast
  then show thesis
  proof cases
    case fb_some
    then show ?thesis using xy by (intro leftover) (auto simp: eval)
  next
    case live_some
    then show ?thesis using xy by (intro live) (auto simp: eval split: sum.splits option.splits)
  next
    case neither
    then show ?thesis using xy by (intro none) (auto simp: eval split: sum.splits option.splits)
  qed
qed

lemma delegating_claim_keeps:
  assumes "pair_inv live_inv live_jobs fb_inv fb_jobs s"
    and s'_def: "s' = snd (delegating_claim True live fb c w l now s)"
  shows "pair_inv live_inv live_jobs fb_inv fb_jobs s'"
    and "dom (pair_jobs live_jobs fb_jobs s') = dom (pair_jobs live_jobs fb_jobs s)"
    and "budget (pair_jobs live_jobs fb_jobs s') \<le> budget (pair_jobs live_jobs fb_jobs s)"
proof -
  have i: "live_inv (fst s)" "fb_inv (snd s)" "dom (live_jobs (fst s)) \<inter> dom (fb_jobs (snd s)) = {}"
    using assms(1) by (auto simp: pair_inv_def)
  have s': "fst s' \<in> {fst s, snd (op_claim live c w l now (fst s))}"
    "snd s' \<in> {snd s, snd (op_claim fb c w l now (snd s))}"
    by (cases rule: delegating_claim_cases [of c w l now s]; simp add: s'_def)+
  have l: "live_inv (fst s') \<and> dom (live_jobs (fst s')) = dom (live_jobs (fst s))
      \<and> budget (live_jobs (fst s')) \<le> budget (live_jobs (fst s))"
    using s'(1) i by (elim insertE) (simp_all add: live.claim_inv live.claim_dom live.claim_budget)
  have f: "fb_inv (snd s') \<and> dom (fb_jobs (snd s')) = dom (fb_jobs (snd s))
      \<and> budget (fb_jobs (snd s')) \<le> budget (fb_jobs (snd s))"
    using s'(2) i by (elim insertE) (simp_all add: fb.claim_inv fb.claim_dom fb.claim_budget)
  show p: "pair_inv live_inv live_jobs fb_inv fb_jobs s'"
    and "dom (pair_jobs live_jobs fb_jobs s') = dom (pair_jobs live_jobs fb_jobs s)"
    using l f i by (simp_all add: pair_inv_def pair_jobs_def)
  show "budget (pair_jobs live_jobs fb_jobs s') \<le> budget (pair_jobs live_jobs fb_jobs s)"
    using l f pair_budget [OF p] pair_budget [OF assms(1)] by simp
qed

lemma delegating_claim_spends:
  assumes inv: "pair_inv live_inv live_jobs fb_inv fb_jobs s"
    and c: "delegating_claim True live fb c w l now s = (Inr (Some j), s')"
  shows "budget (pair_jobs live_jobs fb_jobs s') < budget (pair_jobs live_jobs fb_jobs s)"
proof -
  have i: "live_inv (fst s)" "fb_inv (snd s)" using inv by (auto simp: pair_inv_def)
  have p: "pair_inv live_inv live_jobs fb_inv fb_jobs s'"
    using delegating_claim_keeps(1) [OF inv] c by (metis snd_conv)
  show ?thesis
  proof (cases rule: delegating_claim_cases [of c w l now s])
    case (leftover j' b)
    then show ?thesis
      using fb.claim_spends [OF i(2)] c pair_budget [OF inv] pair_budget [OF p] by auto
  next
    case (live j' a)
    have "budget (live_jobs a) < budget (live_jobs (fst s))"
      using live(1) by (rule live.claim_spends [OF i(1)])
    then show ?thesis
      using live(2) c fb.claim_budget [OF i(2), of c w l now] pair_budget [OF inv] pair_budget [OF p] by auto
  next
    case none
    then show ?thesis using c by auto
  qed
qed

lemma delegating_claim_holds:
  assumes inv: "pair_inv live_inv live_jobs fb_inv fb_jobs s"
    and c: "delegating_claim True live fb c w l now s = (Inr (Some j), s')"
  shows "pair_jobs live_jobs fb_jobs s' (j_id j) = Some j \<and> 1 \<le> j_fencing_token j
    \<and> fullmatch worker_id_pattern w
    \<and> (\<exists>t. job_now c now = Inr t \<and> (\<forall>t' < t + l. holds_lease t' w (j_fencing_token j) j))"
proof -
  have i: "live_inv (fst s)" "fb_inv (snd s)" using inv by (auto simp: pair_inv_def)
  have p: "pair_inv live_inv live_jobs fb_inv fb_jobs s'"
    using delegating_claim_keeps(1) [OF inv] c by (metis snd_conv)
  show ?thesis
  proof (cases rule: delegating_claim_cases [of c w l now s])
    case (leftover j' b)
    with c have "fb_jobs (snd s') (j_id j) = Some j"
      using fb.claim_holds [OF i(2) leftover(1)] by auto
    moreover from this p have "live_jobs (fst s') (j_id j) = None" by (auto simp: pair_inv_def)
    ultimately show ?thesis
      using fb.claim_holds [OF i(2) leftover(1)] leftover(2) c by (simp add: pair_jobs_def map_add_def)
  next
    case (live j' a)
    then show ?thesis
      using live.claim_holds [OF i(1) live(1)] c by (auto simp: pair_jobs_def)
  next
    case none
    then show ?thesis using c by auto
  qed
qed

lemma backend_for_eq:
  assumes "pair_inv live_inv live_jobs fb_inv fb_jobs s"
  shows "backend_for True live fb k s = Inr (fb_jobs (snd s) k \<noteq> None)"
proof -
  obtain d d' where "op_records fb (snd s) = Inr d" "map_of d = fb_jobs (snd s)"
    "op_records live (fst s) = Inr d'" "map_of d' = live_jobs (fst s)"
    using assms live.records_lookup fb.records_lookup unfolding pair_inv_def by metis
  then show ?thesis using assms by (auto simp: backend_for_def pair_inv_def)
qed

lemma delegating_finish:
  assumes "pair_inv live_inv live_jobs fb_inv fb_jobs s"
  shows "op_finish (delegating_ops True live fb) c k w tok outcome now s =
    (if fb_jobs (snd s) k \<noteq> None then on_fallback (op_finish fb c k w tok outcome now) s
     else on_live (op_finish live c k w tok outcome now) s)"
  using backend_for_eq [OF assms, of k]
  by (cases outcome) (auto simp: op_finish_def delegating_ops_def on_backend_def on_live_def on_fallback_def)

lemma delegating_finish_accepted:
  assumes inv: "pair_inv live_inv live_jobs fb_inv fb_jobs s"
    and v: "fullmatch worker_id_pattern w" "1 \<le> tok" "job_now c now = Inr t" "code_ok outcome"
    and r: "pair_jobs live_jobs fb_jobs s k = Some r" "holds_lease t w tok r"
  shows "\<exists>r' s'. op_finish (delegating_ops True live fb) c k w tok outcome now s = (Inr r', s')
    \<and> settles outcome r r' \<and> pair_jobs live_jobs fb_jobs s' = (pair_jobs live_jobs fb_jobs s)(k \<mapsto> r')
    \<and> pair_inv live_inv live_jobs fb_inv fb_jobs s'"
proof (cases "fb_jobs (snd s) k")
  case None
  then have k: "live_jobs (fst s) k = Some r" using r(1) by (auto simp: pair_jobs_def)
  have "live_inv (fst s)" using inv by (simp add: pair_inv_def)
  from live.finish_accepted [OF this v k r(2)] obtain r' a where
    "op_finish live c k w tok outcome now (fst s) = (Inr r', a)" "settles outcome r r'"
    "live_jobs a = (live_jobs (fst s))(k \<mapsto> r')" "live_inv a" by blast
  then show ?thesis
    using None inv k by (auto simp: delegating_finish [OF inv] on_live_def pair_jobs_def pair_inv_def)
next
  case (Some r0)
  then have k: "live_jobs (fst s) k = None" using inv by (auto simp: pair_inv_def)
  then have k': "fb_jobs (snd s) k = Some r" using r(1) by (auto simp: pair_jobs_def map_add_def)
  have "fb_inv (snd s)" using inv by (simp add: pair_inv_def)
  from fb.finish_accepted [OF this v k' r(2)] obtain r' b where
    "op_finish fb c k w tok outcome now (snd s) = (Inr r', b)" "settles outcome r r'"
    "fb_jobs b = (fb_jobs (snd s))(k \<mapsto> r')" "fb_inv b" by blast
  then show ?thesis
    using Some inv k k'
    by (auto simp: delegating_finish [OF inv] on_fallback_def pair_jobs_def pair_inv_def map_add_upd_left domIff)
qed

lemma delegating_finish_rejected:
  assumes inv: "pair_inv live_inv live_jobs fb_inv fb_jobs s"
    and v: "fullmatch worker_id_pattern w" "1 \<le> tok" "job_now c now = Inr t" "code_ok outcome"
    and r: "\<And>r. pair_jobs live_jobs fb_jobs s k = Some r \<Longrightarrow> \<not> holds_lease t w tok r"
  shows "\<exists>e. op_finish (delegating_ops True live fb) c k w tok outcome now s = (Inl e, s) \<and> is_queue_error e"
proof (cases "fb_jobs (snd s) k")
  case None
  then have "\<And>r. live_jobs (fst s) k = Some r \<Longrightarrow> \<not> holds_lease t w tok r"
    using r by (auto simp: pair_jobs_def)
  moreover have "live_inv (fst s)" using inv by (simp add: pair_inv_def)
  ultimately obtain e where "op_finish live c k w tok outcome now (fst s) = (Inl e, fst s)" "is_queue_error e"
    using live.finish_rejected [OF _ v, of "fst s" k] by blast
  then show ?thesis using None by (auto simp: delegating_finish [OF inv] on_live_def)
next
  case (Some r0)
  then have "live_jobs (fst s) k = None" using inv by (auto simp: pair_inv_def)
  then have "\<And>r. fb_jobs (snd s) k = Some r \<Longrightarrow> \<not> holds_lease t w tok r"
    using r by (auto simp: pair_jobs_def map_add_def)
  moreover have "fb_inv (snd s)" using inv by (simp add: pair_inv_def)
  ultimately obtain e where "op_finish fb c k w tok outcome now (snd s) = (Inl e, snd s)" "is_queue_error e"
    using fb.finish_rejected [OF _ v, of "snd s" k] by blast
  then show ?thesis using Some by (auto simp: delegating_finish [OF inv] on_fallback_def)
qed

lemma delegating_leased_exact:
  assumes inv: "pair_inv live_inv live_jobs fb_inv fb_jobs s"
    and v: "fullmatch worker_id_pattern w" "1 \<le> tok" "job_now c now = Inr t"
  shows "delegating_leased True live fb c k w tok now s =
    Inr (case pair_jobs live_jobs fb_jobs s k of
           None \<Rightarrow> None | Some r \<Rightarrow> if holds_lease t w tok r then Some r else None)"
proof -
  have i: "live_inv (fst s)" "fb_inv (snd s)" "live_jobs (fst s) k = None \<or> fb_jobs (snd s) k = None"
    using inv by (auto simp: pair_inv_def)
  show ?thesis
    using i(3) live.leased_exact [OF i(1) v, of k] fb.leased_exact [OF i(2) v, of k]
    by (auto simp: delegating_leased_def prefer_leftover_def on_live_def on_fallback_def pair_jobs_def
        map_add_def split: option.splits)
qed

lemma delegating_records_lookup:
  assumes "pair_inv live_inv live_jobs fb_inv fb_jobs s"
  shows "\<exists>d. delegating_records True live fb s = Inr d \<and> dict_ok d \<and> map_of d = pair_jobs live_jobs fb_jobs s"
proof -
  obtain d d' where d: "op_records fb (snd s) = Inr d" "dict_ok d" "map_of d = fb_jobs (snd s)"
    "op_records live (fst s) = Inr d'" "dict_ok d'" "map_of d' = live_jobs (fst s)"
    using assms live.records_lookup fb.records_lookup unfolding pair_inv_def by metis
  then have u: "dict_ok (fold (\<lambda>(k, r). AList.update k r) d' d)"
    "map_of (fold (\<lambda>(k, r). AList.update k r) d' d) = map_of d ++ map_of d'"
    using fold_update_dict [of d d'] by auto
  then show ?thesis
    using d by (simp add: delegating_records_def pair_jobs_def map_of_dict_sorted)
qed

end

sublocale two_queues \<subseteq> delegating: lease_queue "delegating_ops True live fb"
  "pair_inv live_inv live_jobs fb_inv fb_jobs" "pair_jobs live_jobs fb_jobs"
proof (unfold_locales, goal_cases)
  case (1 s)
  then show ?case using live.jobs_finite fb.jobs_finite by (simp add: pair_inv_def pair_jobs_def)
next
  case (4 s w l c now t)
  then obtain x y where "fst (op_claim fb c w l now (snd s)) = Inr x" "fst (op_claim live c w l now (fst s)) = Inr y"
    using live.claim_total [of "fst s" w l c now t] fb.claim_total [of "snd s" w l c now t]
    by (auto simp: pair_inv_def)
  then show ?case
    by (cases rule: delegating_claim_cases [of c w l now s]) (auto simp: delegating_ops_def)
next
  case 9
  then show ?case by (rule delegating_finish_accepted)
next
  case 10
  then show ?case by (rule delegating_finish_rejected)
qed (simp_all add: delegating_ops_def delegating_claim_keeps delegating_claim_spends
      delegating_claim_holds delegating_leased_exact delegating_records_lookup)

interpretation both: two_queues "durable_ops cfg" "registry_ok cfg" job_map
  "durable_ops cfg'" "registry_ok cfg'" job_map for cfg cfg'
  by unfold_locales

end
