(* ===== verification/Job_Queue_Safety.thy ===== *)
theory Job_Queue_Safety
  imports Job_Queue_Laws
begin

text \<open>
  The safety and functional properties of the durable job queue, over every reachable registry.
  Each property with hypotheses is followed by its witness on a small concrete queue.
\<close>

subsection \<open>A concrete queue for the witnesses\<close>

definition ex_cfg :: queue_config where
  "ex_cfg = \<lparr>base_retry_delay = seconds 5, maximum_retry_delay = hours 1, maximum_records = 4\<rparr>"

definition ex_job :: job_record where
  "ex_job = new_job ''u1'' ''shop.sync'' ''key-0001'' (VDict None []) 2 0 0"

definition ex_run1 :: job_record where
  "ex_run1 = claimed_record ''w-1'' 10 (seconds 1) ex_job"

definition ex_run2 :: job_record where
  "ex_run2 = claimed_record ''w-2'' 2000000 (seconds 1) (recover_record 2000000 ex_run1)"

definition ex_state :: "job_record \<Rightarrow> registry" where
  "ex_state r = RegistryFile 1 (Some [(''u1'', r)])"

lemma ex_payload_eval: "safe_payload (VDict None []) = Inr (VDict None [])"
  by (simp add: safe_payload_iff within_limits_def payload_limits ident_mset_def utf8_length_def)

lemma ex_patterns_eval:
  "fullmatch job_type_pattern ''shop.sync''" "fullmatch idempotency_key_pattern ''key-0001''"
  "fullmatch worker_id_pattern ''w-1''" "fullmatch worker_id_pattern ''w-2''"
  "fullmatch owner_pattern ''shop''" "fullmatch error_code_pattern ''job.failed''"
  by code_simp+

lemmas ex_queue_defs =
  validate_worker_id_def validate_job_type_def validate_idempotency_key_def ex_patterns_eval
  ex_payload_eval job_now_def utc_or_now_def dict_values_def job_record_validate_def new_job_def
  queue_write_def dict_sorted_def ex_state_def ex_job_def ex_run1_def ex_run2_def
  REGISTRY_VERSION_def recover_expired_def dict_map_def recover_record_def lease_expired_def
  is_due_def claimed_record_def Let_def

lemma ex_enqueue_eval:
  "enqueue ex_cfg 0 ''u1'' ''shop.sync'' (VDict None []) ''key-0001'' 2 None None NoFile =
     (Inr ex_job, ex_state ex_job)"
  by (simp add: enqueue_def ex_queue_defs ex_cfg_def)

lemma ex_claim_eval: "claim 10 ''w-1'' 1000000 None (ex_state ex_job) = (Inr (Some ex_run1), ex_state ex_run1)"
  by (simp add: claim_def ex_queue_defs)

lemma ex_reclaim_eval:
  "claim 2000000 ''w-2'' 1000000 None (ex_state ex_run1) = (Inr (Some ex_run2), ex_state ex_run2)"
  by (simp add: claim_def ex_queue_defs)

lemma ex_start_ok: "registry_ok ex_cfg NoFile"
  by (simp add: registry_ok_def ex_cfg_def)

lemma ex_enqueued_ok: "registry_ok ex_cfg (ex_state ex_job)"
  using enqueue_registry_ok [OF ex_start_ok, of "''u1''" 0 "''shop.sync''" "VDict None []" "''key-0001''" 2 None None]
  by (simp add: ex_enqueue_eval job_map_def)

lemma ex_claimed_ok: "registry_ok ex_cfg (ex_state ex_run1)"
  using claim_registry_ok [OF ex_enqueued_ok, of 10 "''w-1''" 1000000 None] by (simp add: ex_claim_eval)

lemma ex_job_map: "record_ok r \<Longrightarrow> job_map (ex_state r) = [''u1'' \<mapsto> r]"
  by (simp add: job_map_def ex_state_def REGISTRY_VERSION_def record_ok_validate)

lemma ex_run1_ok: "record_ok ex_job" "record_ok ex_run1"
proof -
  show 1: "record_ok ex_job" unfolding ex_job_def by (rule new_job_ok [OF ex_payload_eval]) auto
  show "record_ok ex_run1" unfolding ex_run1_def
    by (rule record_ok_claimed [OF 1]) (simp add: ex_job_def)
qed

subsection \<open>Properties\<close>

text \<open>
  C37: in every registry that any sequence of calls can produce from an empty queue, the number
  of jobs is within the configured maximum, jobs are stored under their own id with unique
  idempotency keys, no job has been attempted more than its maximum (at most 32), the fencing
  token counts the attempts, and a job carries a lease exactly while it is running.
\<close>

theorem queue_reachable_invariant:
  assumes "make_queue base maxd recs = Inr cfg" and "queue_steps cfg {} NoFile s"
  shows "\<exists>d. queue_read s = Inr d \<and> job_map s = map_of d \<and> int (length d) \<le> recs
    \<and> (\<forall>k r. job_map s k = Some r \<longrightarrow>
         j_id r = k \<and> 0 \<le> j_attempts r \<and> j_attempts r \<le> j_maximum_attempts r \<and> j_maximum_attempts r \<le> 32
         \<and> j_fencing_token r = j_attempts r
         \<and> (j_status r = RUNNING \<longleftrightarrow> j_lease_owner r \<noteq> None)
         \<and> (j_status r = RUNNING \<longleftrightarrow> j_lease_expires_at r \<noteq> None))
    \<and> (\<forall>k k' r r'. job_map s k = Some r \<longrightarrow> job_map s k' = Some r' \<longrightarrow>
         j_idempotency_key r = j_idempotency_key r' \<longrightarrow> k = k')"
proof -
  have "registry_ok cfg NoFile"
    using assms(1) by (auto simp: make_queue_def registry_ok_def split: if_splits)
  then have "registry_ok cfg s" using assms(2) queue_steps_ok by blast
  then obtain d where d: "queue_read s = Inr d" "wf_jobs cfg d" "job_map s = map_of d"
    by (rule registry_ok_readE)
  have "maximum_records cfg = recs"
    using assms(1) by (auto simp: make_queue_def split: if_splits)
  with d show ?thesis
    by (intro exI [of _ d]) (simp add: wf_jobs_def wf_map_def record_ok_def, metis)
qed

theorem queue_reachable_invariant_witness:
  "\<exists>d. queue_read (ex_state ex_run1) = Inr d \<and> int (length d) \<le> 4"
proof -
  have 1: "make_queue (seconds 5) (hours 1) 4 = Inr ex_cfg"
    by (simp add: make_queue_def ex_cfg_def HARD_MAXIMUM_JOB_RECORDS_def)
  have "queue_step ex_cfg {} NoFile (ex_state ex_job)"
    using step_enqueue [of "''u1''" "{}" NoFile ex_cfg 0 "''shop.sync''" "VDict None []" "''key-0001''" 2 None None]
    by (simp add: ex_enqueue_eval job_map_def)
  moreover have "queue_step ex_cfg {} (ex_state ex_job) (ex_state ex_run1)"
    using step_claim [of ex_cfg "{}" "ex_state ex_job" 10 "''w-1''" 1000000 None] by (simp add: ex_claim_eval)
  ultimately have "queue_steps ex_cfg {} NoFile (ex_state ex_run1)"
    by (metis queue_steps.intros)
  from queue_reachable_invariant [OF 1 this] show ?thesis by blast
qed

text \<open>
  C38: fencing. A worker claims a job; later, after any steps of the queue, the job is claimed
  again (its first lease expired). From then on, whatever else happens and whatever name it gives,
  the first worker's old token opens nothing: reporting success and reporting a failure with any
  code are refused and change nothing, and no lease is found under it. New jobs get ids of their
  own meanwhile (they are random UUIDs).
\<close>

theorem stale_worker_fenced:
  assumes ok: "registry_ok cfg s"
    and c1: "claim clock1 w1 l1 now1 s = (Inr (Some j1), s1)"
    and q1: "queue_steps cfg {j_id j1} s1 s2"
    and c2: "claim clock2 w2 l2 now2 s2 = (Inr (Some j2), s3)" and same: "j_id j2 = j_id j1"
    and q2: "queue_steps cfg {j_id j1} s3 s4"
  shows "(\<exists>e. succeed cfg clock (j_id j1) w (j_fencing_token j1) now s4 = (Inl e, s4))
    \<and> (\<exists>e. fail cfg clock (j_id j1) w (j_fencing_token j1) code now s4 = (Inl e, s4))
    \<and> (\<forall>r. leased clock (j_id j1) w (j_fencing_token j1) now s4 \<noteq> Inr (Some r))"
proof -
  let ?k = "j_id j1"
  have ok1: "registry_ok cfg s1" using claim_registry_ok [OF ok, of clock1 w1 l1 now1] c1 by simp
  then have ok2: "registry_ok cfg s2" using q1 queue_steps_ok by blast
  have ok3: "registry_ok cfg s3" using claim_registry_ok [OF ok2, of clock2 w2 l2 now2] c2 by simp
  have "token_at_least ?k (j_fencing_token j1) s1"
    using claim_returns(1) [OF ok c1] by (simp add: token_at_least_def)
  then have "token_at_least ?k (j_fencing_token j1) s2"
    using queue_steps_token q1 ok1 by blast
  then have "j_fencing_token j1 + 1 \<le> j_fencing_token j2"
    using claim_returns(2) [OF ok2 c2] same by (auto simp: token_at_least_def)
  then have "token_at_least ?k (j_fencing_token j1 + 1) s3"
    using claim_returns(1) [OF ok2 c2] same by (simp add: token_at_least_def)
  then have late: "token_at_least ?k (j_fencing_token j1 + 1) s4"
    using queue_steps_token q2 ok3 by blast
  then have "\<exists>e'. finish cfg clock ?k w (j_fencing_token j1) succ e now s4 = (Inl e', s4)" for succ e
    by (intro finish_rejects) (force simp: token_at_least_def holds_lease_def)
  moreover have "leased clock ?k w (j_fencing_token j1) now s4 \<noteq> Inr (Some r)" for r
    using late by (auto elim!: leased_holds simp: token_at_least_def holds_lease_def)
  ultimately show ?thesis by (auto simp: succeed_def fail_def)
qed

theorem stale_worker_fenced_witness:
  "(\<exists>e. succeed ex_cfg 2000001 (j_id ex_run1) ''w-1'' (j_fencing_token ex_run1) None (ex_state ex_run2) = (Inl e, ex_state ex_run2))
    \<and> (\<exists>e. fail ex_cfg 2000001 (j_id ex_run1) ''w-1'' (j_fencing_token ex_run1) ''job.failed'' None (ex_state ex_run2)
         = (Inl e, ex_state ex_run2))
    \<and> (\<forall>r. leased 2000001 (j_id ex_run1) ''w-1'' (j_fencing_token ex_run1) None (ex_state ex_run2) \<noteq> Inr (Some r))"
  by (rule stale_worker_fenced [OF ex_enqueued_ok ex_claim_eval steps_refl ex_reclaim_eval _ steps_refl])
    (simp add: ex_run2_def)

text \<open>\<open>claim\<close> first returns every expired lease to the queue (or fails the job when its
  attempts are used up), then hands out the due job that is least by scheduled time, creation
  time and id, marked running with one more attempt; it answers \<open>None\<close> only when no job is due.
\<close>

theorem claim_takes_least_due:
  assumes "registry_ok cfg s" and "fullmatch worker_id_pattern w" and "seconds 1 \<le> l" and "l \<le> hours 1"
    and "job_now clock now = Inr t"
  shows "let m = (\<lambda>k. map_option (recover_record t) (job_map s k)); s' = snd (claim clock w l now s) in
    (fst (claim clock w l now s) = Inr None \<and> (\<forall>k r. m k = Some r \<longrightarrow> \<not> is_due t r) \<and> job_map s' = m)
    \<or> (\<exists>k r. m k = Some r \<and> is_due t r \<and> (\<forall>k' r'. m k' = Some r' \<longrightarrow> is_due t r' \<longrightarrow> claim_key r \<le> claim_key r')
         \<and> fst (claim clock w l now s) = Inr (Some (claimed_record w t l r))
         \<and> job_map s' = m(k \<mapsto> claimed_record w t l r))"
proof -
  have m: "(\<lambda>k. map_option (recover_record t) (job_map s k)) = recovered t (job_map s)"
    by (simp add: recovered_def fun_eq_iff)
  show ?thesis unfolding m Let_def
    by (cases rule: claim_cases [OF assms]) blast+
qed

theorem claim_takes_least_due_witness:
  "\<exists>k r. map_option (recover_record 10) (job_map (ex_state ex_job) k) = Some r \<and> is_due 10 r
     \<and> fst (claim 10 ''w-1'' 1000000 None (ex_state ex_job)) = Inr (Some (claimed_record ''w-1'' 10 1000000 r))"
  using claim_takes_least_due [OF ex_enqueued_ok, of "''w-1''" 1000000 10 None 10]
  by (auto simp: Let_def ex_patterns_eval job_now_def utc_or_now_def ex_claim_eval)

text \<open>Mutual exclusion. While a worker's lease on a job has not expired, no claim of any worker
  is given that job, and a claim leaves the leased record as it is.
\<close>

theorem live_lease_not_reclaimed:
  assumes ok: "registry_ok cfg s" and r: "job_map s k = Some r" and h: "holds_lease t w tok r"
    and t: "job_now clock now = Inr t"
  shows "job_map (snd (claim clock w' l now s)) k = Some r
     \<and> (\<forall>j. fst (claim clock w' l now s) = Inr (Some j) \<longrightarrow> j_id j \<noteq> k)"
proof (cases "fullmatch worker_id_pattern w' \<and> seconds 1 \<le> l \<and> l \<le> hours 1 \<and> (\<exists>t. job_now clock now = Inr t)")
  case True
  have live: "recovered t (job_map s) k = Some r" "\<not> is_due t r"
    using r h by (auto simp: recovered_def recover_record_def lease_expired_def holds_lease_def lease_over_def
        is_due_def split: option.splits)
  from ok True show ?thesis
  proof (elim conjE claim_cases [OF ok _ _ _ t, of w' l])
    fix r' assume a: "recovered t (job_map s) (j_id r') = Some r'" "is_due t r'"
      "fst (claim clock w' l now s) = Inr (Some (claimed_record w' t l r'))"
      "job_map (snd (claim clock w' l now s)) = (recovered t (job_map s))(j_id r' \<mapsto> claimed_record w' t l r')"
    then have "j_id r' \<noteq> k" using live by auto
    with a live show ?thesis by auto
  qed (use live in auto)
next
  case False
  then show ?thesis using r claim_invalid [OF False, of s] by auto
qed

theorem live_lease_not_reclaimed_witness:
  "job_map (snd (claim 20 ''w-2'' 1000000 None (ex_state ex_run1))) ''u1'' = Some ex_run1"
  using live_lease_not_reclaimed [OF ex_claimed_ok, of "''u1''" ex_run1 20 "''w-1''" 1 20 None "''w-2''" 1000000]
  by (simp add: ex_job_map ex_run1_ok holds_lease_def lease_over_def job_now_def utc_or_now_def)
    (simp add: ex_run1_def ex_job_def)

text \<open>Idempotent enqueue. Once a key is bound to a job, enqueueing under that key never changes
  the registry; the call returns the very job when type and payload agree and otherwise raises.
\<close>

theorem enqueue_idempotent:
  assumes ok: "registry_ok cfg s" and r: "job_map s k = Some r"
    and args: "fullmatch job_type_pattern ty" "fullmatch idempotency_key_pattern (j_idempotency_key r)"
      "safe_payload p = Inr q" "1 \<le> n" "n \<le> 32" "job_now clock now = Inr t" "job_now t sch = Inr due"
  shows "enqueue cfg clock uuid ty p (j_idempotency_key r) n sch now s =
    (if j_type r = ty \<and> j_payload r = q then Inr r
     else Inl (JobQueueError ''job idempotency key is bound to another operation''), s)"
proof -
  obtain d where d: "queue_read s = Inr d" "wf_jobs cfg d" "job_map s = map_of d"
    using ok by (rule registry_ok_readE)
  have "find (\<lambda>r'. j_idempotency_key r' = j_idempotency_key r) (dict_values d) = Some r"
    using d r by (intro find_by_key) auto
  then show ?thesis
    using args d(1) by (simp add: enqueue_def validate_job_type_def validate_idempotency_key_def)
qed

theorem enqueue_idempotent_witness:
  "enqueue ex_cfg 7 ''u2'' ''shop.sync'' (VDict None []) (j_idempotency_key ex_job) 3 None None (ex_state ex_job) =
     (if j_type ex_job = ''shop.sync'' \<and> j_payload ex_job = VDict None [] then Inr ex_job
      else Inl (JobQueueError ''job idempotency key is bound to another operation''), ex_state ex_job)"
  by (rule enqueue_idempotent [OF ex_enqueued_ok, of "''u1''" _ _ _ _ _ _ _ 7 _ 7])
    (simp_all add: ex_job_map ex_run1_ok ex_patterns_eval ex_payload_eval job_now_def utc_or_now_def,
     simp add: ex_job_def ex_patterns_eval)

text \<open>\<open>cancel_owner\<close> fails exactly the queued and running jobs whose type lies in the owner's
  namespace (the part before the first dot), counts them, drops their leases, and leaves every
  other job as it is; owners whose names extend one another are not confused.
\<close>

theorem cancel_owner_exact:
  assumes "registry_ok cfg s" and "fullmatch owner_pattern owner" and "job_now clock now = Inr t"
  shows "let mine = (\<lambda>r. (j_status r = QUEUED \<or> j_status r = RUNNING) \<and> CHR ''.'' \<in> set (j_type r)
                       \<and> takeWhile (\<lambda>c. c \<noteq> CHR ''.'') (j_type r) = owner) in
     fst (cancel_owner clock owner now s) = Inr (card {k. \<exists>r. job_map s k = Some r \<and> mine r})
     \<and> job_map (snd (cancel_owner clock owner now s)) =
         (\<lambda>k. map_option (\<lambda>r. if mine r then cancelled t r else r) (job_map s k))"
proof -
  have "cancels (owner @ ''.'') r \<longleftrightarrow> (j_status r = QUEUED \<or> j_status r = RUNNING) \<and> CHR ''.'' \<in> set (j_type r)
      \<and> takeWhile (\<lambda>c. c \<noteq> CHR ''.'') (j_type r) = owner" for r
    using namespace_prefix [OF owner_has_no_dot [OF assms(2)], of "j_type r"] by (auto simp: cancels_def)
  then show ?thesis
    using cancel_owner_spec(1,2) [OF assms] by (simp add: Let_def cancel_map_def fun_eq_iff)
qed

theorem cancel_owner_exact_witness:
  "map_option j_status (job_map (snd (cancel_owner 30 ''shop'' None (ex_state ex_run1))) ''u1'') = Some FAILED"
  using cancel_owner_exact [OF ex_claimed_ok, of "''shop''" 30 None 30]
  by (simp add: ex_patterns_eval job_now_def utc_or_now_def Let_def ex_job_map ex_run1_ok)
    (simp add: ex_run1_def ex_job_def claimed_record_def)

text \<open>\<open>purge_terminal\<close> removes at most \<open>limit\<close> jobs, only succeeded or failed ones last
  updated before the cutoff, the oldest first, and as many as the limit and the candidates
  allow; all other jobs stay untouched.
\<close>

theorem purge_terminal_exact:
  assumes "registry_ok cfg s" and "1 \<le> limit" and "limit \<le> MAXIMUM_TERMINAL_PURGE_BATCH"
  shows "\<exists>removed.
      fst (purge_terminal (Aware cutoff) limit s) = Inr (card removed)
      \<and> card removed = min (nat limit) (card {k. \<exists>r. job_map s k = Some r \<and> purgeable cutoff r})
      \<and> job_map (snd (purge_terminal (Aware cutoff) limit s)) = (\<lambda>k. if k \<in> removed then None else job_map s k)
      \<and> (\<forall>k \<in> removed. \<exists>r. job_map s k = Some r \<and> purgeable cutoff r
            \<and> (\<forall>k' r'. job_map s k' = Some r' \<longrightarrow> purgeable cutoff r' \<longrightarrow> k' \<notin> removed \<longrightarrow>
                 (j_updated_at r, j_id r) \<le> (j_updated_at r', j_id r')))"
proof (rule purge_cases [OF assms, of cutoff])
  fix batch
  assume b: "fst (purge_terminal (Aware cutoff) limit s) = Inr (length batch)"
      "job_map (snd (purge_terminal (Aware cutoff) limit s)) = (\<lambda>k. if k \<in> j_id ` set batch then None else job_map s k)"
      "length batch = min (nat limit) (card {k. \<exists>r. job_map s k = Some r \<and> purgeable cutoff r})"
    and mem: "\<And>r. r \<in> set batch \<Longrightarrow> job_map s (j_id r) = Some r \<and> purgeable cutoff r"
    and least: "\<And>r k r'. r \<in> set batch \<Longrightarrow> job_map s k = Some r' \<Longrightarrow> purgeable cutoff r' \<Longrightarrow> r' \<notin> set batch
         \<Longrightarrow> purge_key r \<le> purge_key r'"
    and dist: "distinct (map j_id batch)"
  have c: "card (j_id ` set batch) = length batch" by (metis dist distinct_card length_map list.set_map)
  have out: "r' \<notin> set batch" if "job_map s k' = Some r'" "k' \<notin> j_id ` set batch" for k' r'
    using that registry_ok_id [OF assms(1)] by blast
  show ?thesis
  proof (intro exI [of _ "j_id ` set batch"] conjI ballI)
    show "\<exists>r. job_map s k = Some r \<and> purgeable cutoff r
            \<and> (\<forall>k' r'. job_map s k' = Some r' \<longrightarrow> purgeable cutoff r' \<longrightarrow> k' \<notin> j_id ` set batch \<longrightarrow>
                 (j_updated_at r, j_id r) \<le> (j_updated_at r', j_id r'))" if "k \<in> j_id ` set batch" for k
    proof -
      from that obtain r where r: "r \<in> set batch" "k = j_id r" by blast
      have "(j_updated_at r, j_id r) \<le> (j_updated_at r', j_id r')"
        if "job_map s k' = Some r'" "purgeable cutoff r'" "k' \<notin> j_id ` set batch" for k' r'
        using least [OF r(1) that(1,2) out [OF that(1,3)]] by (simp only: purge_key_def)
      with mem [OF r(1)] r(2) show ?thesis by blast
    qed
  qed (simp_all only: b c)
qed

definition ex_done :: job_record where
  "ex_done = finished_record ex_cfg 50 True None ex_run1"

lemma ex_done_ok: "record_ok ex_done" "registry_ok ex_cfg (ex_state ex_done)"
proof -
  show 1: "record_ok ex_done" unfolding ex_done_def by (rule record_ok_finished) (rule ex_run1_ok)
  have "wf_map [''u1'' \<mapsto> ex_done]"
    using 1 by (simp add: wf_map_def ex_done_def ex_run1_def ex_job_def)
  then show "registry_ok ex_cfg (ex_state ex_done)"
    by (simp add: registry_ok_def ex_state_def REGISTRY_VERSION_def wf_jobs_def dict_ok_def ex_cfg_def)
qed

theorem purge_terminal_exact_witness:
  "\<exists>removed :: string set. fst (purge_terminal (Aware 100) 5 (ex_state ex_done)) = Inr (card removed)"
proof -
  have "(1::int) \<le> 5" "(5::int) \<le> MAXIMUM_TERMINAL_PURGE_BATCH" by (simp_all add: MAXIMUM_TERMINAL_PURGE_BATCH_def)
  from purge_terminal_exact [OF ex_done_ok(2) this, of 100] show ?thesis by blast
qed

text \<open>Retry backoff. A reported failure of a leased job requeues it no sooner than the base
  delay and no later than the maximum delay from now while attempts remain, and fails it for
  good, with the reported code, once the attempts are used up.
\<close>

theorem fail_backoff_bounds:
  assumes q: "make_queue base maxd recs = Inr cfg" and ok: "registry_ok cfg s"
    and w: "fullmatch worker_id_pattern w" and e: "fullmatch error_code_pattern e"
    and t: "job_now clock now = Inr t" and r: "job_map s k = Some r" and h: "holds_lease t w tok r"
  shows "\<exists>r'. fst (fail cfg clock k w tok e now s) = Inr r' \<and> job_map (snd (fail cfg clock k w tok e now s)) k = Some r'
    \<and> j_error_code r' = Some e \<and> j_lease_owner r' = None
    \<and> (if j_attempts r < j_maximum_attempts r
       then j_status r' = QUEUED \<and> t + base \<le> j_scheduled_at r' \<and> j_scheduled_at r' \<le> t + maxd
       else j_status r' = FAILED)"
proof -
  have tok: "1 \<le> tok" using registry_ok_record [OF ok r] h by (simp add: record_ok_def holds_lease_def)
  have cfg: "base_retry_delay cfg = base" "maximum_retry_delay cfg = maxd" "0 < base" "base \<le> maxd"
    using q by (auto simp: make_queue_def split: if_splits)
  have "base * 1 \<le> base * 2 ^ nat (j_attempts r - 1)" using cfg(3) by (intro mult_left_mono) auto
  then have "base \<le> retry_delay cfg (j_attempts r) \<and> retry_delay cfg (j_attempts r) \<le> maxd"
    using cfg by (simp add: retry_delay_def)
  then show ?thesis
    using finish_accepts [OF ok w tok t r h, of False "Some e"] e
    by (simp add: fail_eq_finish finished_record_def)
qed

theorem fail_backoff_bounds_witness:
  "\<exists>r'. fst (fail ex_cfg 20 ''u1'' ''w-1'' 1 ''job.failed'' None (ex_state ex_run1)) = Inr r' \<and> j_status r' = QUEUED"
proof -
  have "make_queue (seconds 5) (hours 1) 4 = Inr ex_cfg"
    by (simp add: make_queue_def ex_cfg_def HARD_MAXIMUM_JOB_RECORDS_def)
  from fail_backoff_bounds [OF this ex_claimed_ok, of "''w-1''" "''job.failed''" 20 None 20 "''u1''" ex_run1 1]
  show ?thesis
    by (simp add: ex_patterns_eval job_now_def utc_or_now_def ex_job_map ex_run1_ok holds_lease_def lease_over_def)
      (auto simp: ex_run1_def ex_job_def claimed_record_def new_job_def)
qed

text \<open>The structural walk over a payload, with its explicit stack, accepts exactly the payloads
  with at most 4096 values, 16 levels, 512 keys, only admissible keys and no shared container.
\<close>

theorem payload_walk_exact:
  "validate_payload_structure p = Inr () \<longleftrightarrow>
     nodes p \<le> 4096 \<and> nesting p \<le> 16 \<and> key_total p \<le> 512 \<and> keys_allowed p \<and> (\<forall>n. count (idents p) n \<le> 1)"
  by (simp add: validate_payload_structure_iff within_limits_def payload_limits)

text \<open>Round trip. A payload accepted by \<open>_safe_payload\<close> is stored as a copy without shared
  containers whose encoding has at most 65536 bytes, and reading the copy back validates it to
  itself.
\<close>

theorem safe_payload_roundtrip:
  assumes "safe_payload p = Inr q"
  shows "safe_payload q = Inr q \<and> idents q = {#} \<and> utf8_length (json_dumps q) \<le> 65536"
  using assms safe_payload_stored [OF assms] by (auto simp: safe_payload_iff payload_limits)

theorem safe_payload_roundtrip_witness:
  "safe_payload (VDict None []) = Inr (VDict None []) \<and> idents (VDict None []) = {#}"
  using safe_payload_roundtrip [OF ex_payload_eval] by simp

end
