(* ===== verification/Job_Runner_Safety.thy ===== *)
theory Job_Runner_Safety
  imports Job_Runner Job_Queue_Safety
begin

text \<open>
  The properties of the job runner and of the drain loop, over the JSON queue and over the
  delegating composition of two JSON queues.
\<close>

subsection \<open>Error codes of handler exceptions\<close>

definition ascii_identifier :: "string \<Rightarrow> bool" where
  "ascii_identifier s = list_all (in_class [upper, lower, digit, single CHR ''_'']) s"

lemma fold_char_identifier:
  assumes "in_class [upper, lower, digit, single CHR ''_''] c"
  shows "list_all (in_class [lower, digit, single CHR ''_'', single CHR ''.'', single CHR ''-'']) (fold_char c)"
proof -
  have "of_char c < (256 :: nat)" by simp
  then show ?thesis
    using assms by (auto simp: fold_char_def in_class_def)
qed

lemma casefold_identifier:
  "ascii_identifier s \<Longrightarrow> list_all (in_class [lower, digit, single CHR ''_'', single CHR ''.'', single CHR ''-'']) (casefold s)"
  by (induction s) (auto simp: ascii_identifier_def casefold_def fold_char_identifier)

lemma safe_error_code_valid:
  assumes "ascii_identifier name"
  shows "fullmatch error_code_pattern (safe_error_code name)"
proof -
  let ?cl = "[lower, digit, single CHR ''_'', single CHR ''.'', single CHR ''-'']"
  let ?t = "take 127 (''ob.'' @ casefold name)"
  have "list_all (in_class ?cl) (''ob.'' @ casefold name)"
    using casefold_identifier [OF assms] by (simp add: in_class_def)
  then have "list_all (in_class ?cl) ?t" by (auto simp: list_all_iff dest: in_set_takeD)
  then have "rx_lang (Cls ?cl 1 (Some 127)) ?t" by (simp add: within_def)
  moreover have "rx_lang (Cls [lower] 1 (Some 1)) ''j''" by (simp add: within_def in_class_def)
  ultimately have "rx_lang error_code_pattern (''j'' @ ?t)"
    unfolding error_code_pattern_def by (rule rx_lang.seq [rotated])
  moreover have "safe_error_code name = ''j'' @ ?t" by (simp add: safe_error_code_def)
  moreover have "rx_ok error_code_pattern" by (simp add: error_code_pattern_def)
  ultimately show ?thesis by (simp only: fullmatch_iff)
qed

subsection \<open>One round of the runner\<close>

text \<open>
  C39: a round of \<open>JobRunner.run_once\<close> that claims a job and finds the lease still live ends with
  one of two outcomes whatever the handler did to the queue: if the worker still holds the lease
  when the handler is done, the job is settled with the handler's outcome and every other job
  is as the handler left it; if the lease is lost, nothing is written and the job's current
  record is returned. No error escapes.
\<close>

theorem run_once_settles_or_yields:
  assumes "registry_ok cfg s"
    and "claim c1 w (minutes 5) now s = (Inr (Some j), s1)"
    and "job_now c2 now = Inr t2" "t2 < the (j_lease_expires_at j)" "job_now c3 now = Inr t3"
    and "handler_result handlers w j s1 = (outcome, s2)" "registry_ok cfg s2" "code_ok outcome"
  shows "\<exists>result s3. run_once (durable_ops cfg) handlers (c1, c2, c3) w now s = (Inr result, s3)
    \<and> registry_ok cfg s3
    \<and> (case job_map s2 (j_id j) of
         None \<Rightarrow> result = None \<and> s3 = s2
       | Some r \<Rightarrow>
           if holds_lease t3 w (j_fencing_token j) r
           then (\<exists>r'. result = Some r' \<and> settles outcome r r' \<and> job_map s3 = (job_map s2)(j_id j \<mapsto> r'))
           else result = Some r \<and> s3 = s2)"
proof -
  obtain t where t: "job_now c1 now = Inr t" "j_lease_expires_at j = Some (t + minutes 5)"
    using claim_returns(2) [OF assms(1,2)] by auto
  have "holds_lease t2 w (j_fencing_token j) j"
    using claim_holds_durable [OF assms(1,2)] t assms(4) by auto
  moreover have "op_claim (durable_ops cfg) c1 w (minutes 5) now s = (Inr (Some j), s1)"
    using assms(2) by (simp add: durable_ops_def)
  ultimately show ?thesis
    using durable.run_once_settles [OF assms(1) _ assms(3) _ assms(5-8)] by blast
qed

text \<open>A handler that returns and one that raises \<open>KeyError\<close>, over any queue state.\<close>

definition plain_handlers :: "string \<rightharpoonup> 'q job_handler" where
  "plain_handlers = [''shop.sync'' \<mapsto> (\<lambda>cx s. (None, s)), ''shop.crash'' \<mapsto> (\<lambda>cx s. (Some ''KeyError'', s))]"

lemma plain_handlers_quiet: "handlers_quiet plain_handlers"
proof -
  have "code_ok (Some (safe_error_code ''KeyError''))"
    unfolding code_ok_def option.case
    by (rule safe_error_code_valid) (simp add: ascii_identifier_def in_class_def)
  then show ?thesis
    by (auto simp: handlers_quiet_def plain_handlers_def code_ok_def split: if_splits)
qed

definition ex_run5 :: job_record where
  "ex_run5 = claimed_record ''w-1'' 10 (minutes 5) ex_job"

lemma ex_claim5_eval: "claim 10 ''w-1'' (minutes 5) None (ex_state ex_job) = (Inr (Some ex_run5), ex_state ex_run5)"
  by (simp add: claim_def ex_queue_defs ex_run5_def)

lemma ex_run5_ok: "record_ok ex_run5"
  unfolding ex_run5_def by (rule record_ok_claimed [OF ex_run1_ok(1)]) (simp add: ex_job_def)

lemma ex_state5_ok: "registry_ok ex_cfg (ex_state ex_run5)"
  using claim_registry_ok [OF ex_enqueued_ok, of 10 "''w-1''" "minutes 5" None]
  unfolding ex_claim5_eval by simp

theorem run_once_settles_or_yields_witness:
  "\<exists>r s. run_once (durable_ops ex_cfg) plain_handlers (10, 20, 30) ''w-1'' None (ex_state ex_job) = (Inr (Some r), s)
     \<and> j_status r = SUCCEEDED \<and> job_map s = [''u1'' \<mapsto> r]"
proof -
  have h: "handler_result plain_handlers ''w-1'' ex_run5 (ex_state ex_run5) = (None, ex_state ex_run5)"
    by (simp add: handler_result_def plain_handlers_def ex_run5_def claimed_record_def ex_job_def new_job_def)
  have j: "j_id ex_run5 = ''u1''" "the (j_lease_expires_at ex_run5) = 300000010"
    "holds_lease 30 ''w-1'' (j_fencing_token ex_run5) ex_run5"
    by (simp_all add: ex_run5_def claimed_record_def ex_job_def new_job_def holds_lease_def lease_over_def)
  show ?thesis
    using run_once_settles_or_yields [OF ex_enqueued_ok ex_claim5_eval, of 20 20 30 30 plain_handlers, OF _ _ _ h ex_state5_ok]
    by (auto simp: job_now_def utc_or_now_def j code_ok_def ex_job_map [OF ex_run5_ok] settles_def)
qed

subsection \<open>Draining\<close>

text \<open>With handlers that do not call back into the queue, \<open>JobDrainPump.drain\<close> always ends: as
  many rounds as the queue has attempts left are enough whatever the clock reads, no error
  escapes, the pump is free again, and at the clock reading of the last round no queued job of
  the final registry is due.
\<close>

theorem drain_terminates:
  assumes "registry_ok cfg s" "validate_worker_id w = Inr w" "handlers_quiet handlers"
    and "\<not> pump_deferred p" "pump_thread p = None" "budget (job_map s) < fuel"
  shows "\<exists>s' i. drain fuel (durable_ops cfg) handlers clocks w me p s = Some (None, p, s')
    \<and> registry_ok cfg s' \<and> (\<forall>k r. job_map s' k = Some r \<longrightarrow> \<not> is_due (fst (clocks i)) r)"
proof -
  have w: "fullmatch worker_id_pattern w"
    using assms(2) by (auto simp: validate_worker_id_def split: if_splits)
  obtain s0 s' i where d: "i \<le> budget (job_map s)"
    "\<forall>fuel. drain_loop fuel (durable_ops cfg) handlers clocks w s = (if i < fuel then Some (None, s') else None)"
    "registry_ok cfg s0" "registry_ok cfg s'" "op_claim (durable_ops cfg) (fst (clocks i)) w (minutes 5) None s0 = (Inr None, s')"
    using durable.drain_loop_ends [OF assms(1) w assms(3), of clocks] by blast
  then have c: "claim (fst (clocks i)) w (minutes 5) None s0 = (Inr None, s')" by (simp add: durable_ops_def)
  have now: "job_now (fst (clocks i)) None = Inr (fst (clocks i))" by (simp add: job_now_def utc_or_now_def)
  have "\<forall>k r. job_map s' k = Some r \<longrightarrow> \<not> is_due (fst (clocks i)) r"
    by (cases rule: claim_cases [OF d(3) w _ _ now, of "minutes 5"]) (use c in auto)
  then show ?thesis using d assms(4-6) by (intro exI [of _ s'] exI [of _ i]) (simp add: drain_def)
qed

theorem drain_terminates_witness:
  "\<exists>s'. drain 3 (durable_ops ex_cfg) plain_handlers (\<lambda>i. (10, 10, 10)) ''w-1'' 7
      \<lparr>pump_deferred = False, pump_thread = None\<rparr> (ex_state ex_job) =
      Some (None, \<lparr>pump_deferred = False, pump_thread = None\<rparr>, s')
    \<and> (\<forall>k r. job_map s' k = Some r \<longrightarrow> \<not> is_due 10 r)"
proof -
  have "budget (job_map (ex_state ex_job)) < 3"
    unfolding ex_job_map [OF ex_run1_ok(1)] by (simp add: budget_def ex_job_def new_job_def)
  then show ?thesis
    using drain_terminates [OF ex_enqueued_ok _ plain_handlers_quiet, of "''w-1''"
        "\<lparr>pump_deferred = False, pump_thread = None\<rparr>" 3 "\<lambda>i. (10, 10, 10)" 7]
    by (fastforce simp: validate_worker_id_def ex_patterns_eval)
qed




end
