(* ===== verification/Dependencies.thy ===== *)
theory Dependencies
  imports Prelude
begin

text \<open>
  \<open>dependencies.py\<close>: the checks on the package graph that an install would leave, and the
  depth-first order of the candidates. Version specifiers are decided by the packaging library,
  here the parameter \<open>spec_in version specifier\<close>; \<open>PackageManifest\<close> comes from the contracts
  package, and the records below hold the fields the code reads.
\<close>

subsection \<open>Manifests and errors\<close>

record dependency =
  d_package_id :: string
  d_version :: string
  d_optional :: bool

record conflict =
  x_package_id :: string
  x_version :: string

record capability =
  p_id :: string
  p_version :: string

record capability_requirement =
  q_id :: string
  q_version :: string
  q_optional :: bool

record package_manifest =
  m_id :: string
  m_version :: string
  m_core :: string
  m_conflicts :: "conflict list"
  m_dependencies :: "dependency list"
  m_provides :: "capability list"
  m_requires :: "capability_requirement list"
  m_type :: string
  m_migrations :: "string list"

datatype resolution_error =
    DuplicatePackage string
  | IdentityMismatch string
  | CoreIncompatible string string string string
  | ConflictsWith string string string
  | MissingPackage string string string
  | IncompatiblePackage string string string string
  | CapabilityMismatch string string string "string \<times> string" nat
  | MissingCapability string string string
  | DependencyCycle "string list"
  | PackageKeyError string

type_synonym packages = "(string, package_manifest) dict"

definition version_matches :: "(string \<Rightarrow> string \<Rightarrow> bool) \<Rightarrow> string \<Rightarrow> string \<Rightarrow> bool" where
  "version_matches spec_in version specifier \<longleftrightarrow> specifier = ''*'' \<or> spec_in version specifier"

subsection \<open>Loops that stop at the first error\<close>

fun first_error :: "('a \<Rightarrow> 'e option) \<Rightarrow> 'a list \<Rightarrow> 'e option" where
  "first_error f [] = None"
| "first_error f (x # xs) = (case f x of Some e \<Rightarrow> Some e | None \<Rightarrow> first_error f xs)"

lemma first_error_None_iff: "first_error f xs = None \<longleftrightarrow> (\<forall>x\<in>set xs. f x = None)"
  by (induction xs) (auto split: option.splits)

lemma first_error_SomeD: "first_error f xs = Some e \<Longrightarrow> \<exists>x\<in>set xs. f x = Some e"
  by (induction xs) (auto split: option.splits)

subsection \<open>The checks\<close>

definition conflict_error ::
  "(string \<Rightarrow> string \<Rightarrow> bool) \<Rightarrow> packages \<Rightarrow> package_manifest \<Rightarrow> conflict \<Rightarrow> resolution_error option" where
  "conflict_error spec_in all m c =
     (case map_of all (x_package_id c) of
        None \<Rightarrow> None
      | Some other \<Rightarrow>
          if version_matches spec_in (m_version other) (x_version c)
          then Some (ConflictsWith (m_id m) (m_id other) (m_version other)) else None)"

definition dependency_error ::
  "(string \<Rightarrow> string \<Rightarrow> bool) \<Rightarrow> packages \<Rightarrow> package_manifest \<Rightarrow> dependency \<Rightarrow> resolution_error option" where
  "dependency_error spec_in all m d =
     (case map_of all (d_package_id d) of
        None \<Rightarrow> if d_optional d then None
                else Some (MissingPackage (m_id m) (d_package_id d) (d_version d))
      | Some target \<Rightarrow>
          if \<not> version_matches spec_in (m_version target) (d_version d)
          then Some (IncompatiblePackage (m_id m) (d_package_id d) (d_version d) (m_version target))
          else None)"

definition manifest_error ::
  "(string \<Rightarrow> string \<Rightarrow> bool) \<Rightarrow> string \<Rightarrow> packages \<Rightarrow> package_manifest \<Rightarrow> resolution_error option" where
  "manifest_error spec_in core_version all m =
     (if \<not> version_matches spec_in core_version (m_core m)
      then Some (CoreIncompatible (m_id m) (m_version m) (m_core m) core_version)
      else case first_error (conflict_error spec_in all m) (m_conflicts m) of
        Some e \<Rightarrow> Some e
      | None \<Rightarrow> first_error (dependency_error spec_in all m) (m_dependencies m))"

text \<open>\<open>provided.get(id, [])\<close>: the providers of a capability in the order the packages list them.\<close>

definition providers :: "packages \<Rightarrow> string \<Rightarrow> (string \<times> string) list" where
  "providers all cap =
     concat (map (\<lambda>m. map (\<lambda>c. (m_id m, p_version c)) (filter (\<lambda>c. p_id c = cap) (m_provides m)))
              (dict_values all))"

definition requirement_error ::
  "(string \<Rightarrow> string \<Rightarrow> bool) \<Rightarrow> packages \<Rightarrow> package_manifest \<Rightarrow> capability_requirement
    \<Rightarrow> resolution_error option" where
  "requirement_error spec_in all m r =
     (let ps = providers all (q_id r) in
      if list_ex (\<lambda>(owner, version). version_matches spec_in version (q_version r)) ps then None
      else if q_optional r then None
      else case sort ps of
        least # _ \<Rightarrow> Some (CapabilityMismatch (m_id m) (q_id r) (q_version r) least (length ps - 1))
      | [] \<Rightarrow> Some (MissingCapability (m_id m) (q_id r) (q_version r)))"

definition resolve_capabilities ::
  "(string \<Rightarrow> string \<Rightarrow> bool) \<Rightarrow> packages \<Rightarrow> resolution_error option" where
  "resolve_capabilities spec_in all =
     first_error (\<lambda>m. first_error (requirement_error spec_in all m) (m_requires m)) (dict_values all)"

subsection \<open>The depth-first visit\<close>

text \<open>\<open>visited\<close> is a set in the code; the list keeps its elements in the order they were added.\<close>

record dfs =
  visiting :: "string set"
  visited :: "string list"
  ordered :: "package_manifest list"

fun each :: "('a \<Rightarrow> 's \<Rightarrow> ('e + 's) option) \<Rightarrow> 'a list \<Rightarrow> 's \<Rightarrow> ('e + 's) option" where
  "each f [] s = Some (Inr s)"
| "each f (x # xs) s =
     (case f x s of
        None \<Rightarrow> None | Some (Inl e) \<Rightarrow> Some (Inl e) | Some (Inr s') \<Rightarrow> each f xs s')"

text \<open>The fuel bounds the depth of the recursion; \<open>None\<close> is running out of it.\<close>

fun visit ::
  "nat \<Rightarrow> packages \<Rightarrow> packages \<Rightarrow> string list \<Rightarrow> string \<Rightarrow> dfs \<Rightarrow> (resolution_error + dfs) option" where
  "visit 0 all candidates trail p s = None"
| "visit (Suc n) all candidates trail p s =
     (if p \<in> set (visited s) then Some (Inr s)
      else if p \<in> visiting s then Some (Inl (DependencyCycle (trail @ [p])))
      else case map_of all p of
        None \<Rightarrow> Some (Inl (PackageKeyError p))
      | Some m \<Rightarrow>
          (case each (\<lambda>d s'. if map_of all (d_package_id d) = None then Some (Inr s')
                            else visit n all candidates (trail @ [p]) (d_package_id d) s')
                  (m_dependencies m) (s\<lparr>visiting := insert p (visiting s)\<rparr>) of
             None \<Rightarrow> None
           | Some (Inl e) \<Rightarrow> Some (Inl e)
           | Some (Inr s') \<Rightarrow>
               Some (Inr (s'\<lparr>visiting := visiting s' - {p}, visited := visited s' @ [p],
                 ordered := ordered s' @ (case map_of candidates p of None \<Rightarrow> [] | Some c \<Rightarrow> [c])\<rparr>))))"

fun index_candidates :: "package_manifest list \<Rightarrow> packages \<Rightarrow> resolution_error + packages" where
  "index_candidates [] candidates = Inr candidates"
| "index_candidates (m # ms) candidates =
     (if map_of candidates (m_id m) \<noteq> None then Inl (DuplicatePackage (m_id m))
      else index_candidates ms (AList.update (m_id m) m candidates))"

definition merge_packages :: "packages \<Rightarrow> packages \<Rightarrow> packages" where
  "merge_packages installed candidates = fold (\<lambda>(k, m). AList.update k m) candidates installed"

definition resolve_install_order ::
  "(string \<Rightarrow> string \<Rightarrow> bool) \<Rightarrow> package_manifest list \<Rightarrow> string \<Rightarrow> packages
    \<Rightarrow> (resolution_error + package_manifest list) option" where
  "resolve_install_order spec_in manifests core_version installed =
     (case index_candidates manifests [] of
        Inl e \<Rightarrow> Some (Inl e)
      | Inr candidates \<Rightarrow>
          (case first_error (\<lambda>(k, m). if k \<noteq> m_id m then Some (IdentityMismatch k) else None) installed of
             Some e \<Rightarrow> Some (Inl e)
           | None \<Rightarrow>
               let all = merge_packages installed candidates in
               (case first_error (manifest_error spec_in core_version all) (dict_values all) of
                  Some e \<Rightarrow> Some (Inl e)
                | None \<Rightarrow>
                    (case resolve_capabilities spec_in all of
                       Some e \<Rightarrow> Some (Inl e)
                     | None \<Rightarrow>
                         map_option (map_sum id ordered)
                           (each (visit (Suc (length all)) all candidates [])
                              (sort (map fst candidates)) \<lparr>visiting = {}, visited = [], ordered = []\<rparr>)))))"

subsection \<open>The dependency graph and topological lists\<close>

definition edge :: "packages \<Rightarrow> (string \<times> string) set" where
  "edge all = {(p, q). \<exists>m d. map_of all p = Some m \<and> d \<in> set (m_dependencies m)
     \<and> d_package_id d = q \<and> map_of all q \<noteq> None}"

text \<open>Every element comes after all its successors.\<close>

definition topo :: "('a \<times> 'a) set \<Rightarrow> 'a list \<Rightarrow> bool" where
  "topo E vs \<longleftrightarrow> (\<forall>i < length vs. E `` {vs ! i} \<subseteq> set (take i vs))"

lemma topo_Nil [simp]: "topo E []"
  by (simp add: topo_def)

lemma topo_snoc: "topo E (vs @ [p]) \<longleftrightarrow> topo E vs \<and> E `` {p} \<subseteq> set vs"
proof -
  have "topo E (vs @ [p]) \<longleftrightarrow> (\<forall>i < length vs. E `` {(vs @ [p]) ! i} \<subseteq> set (take i (vs @ [p])))
      \<and> E `` {p} \<subseteq> set vs"
    by (simp add: topo_def less_Suc_eq all_conj_distrib imp_conjR)
  also have "(\<forall>i < length vs. E `` {(vs @ [p]) ! i} \<subseteq> set (take i (vs @ [p]))) \<longleftrightarrow> topo E vs"
    by (simp add: topo_def nth_append)
  finally show ?thesis .
qed

lemma topo_trancl:
  assumes "topo E vs" "i < length vs" "(vs ! i, y) \<in> E\<^sup>+"
  shows "y \<in> set (take i vs)"
  using assms(3)
proof (induction rule: trancl_induct)
  case (base y)
  then show ?case using assms(1,2) by (auto simp: topo_def)
next
  case (step y z)
  then obtain j where j: "j < i" "vs ! j = y" using assms(2) by (auto simp: in_set_conv_nth)
  then have "j < length vs" using assms(2) by simp
  then have "z \<in> set (take j vs)" using assms(1) step(2) j(2) by (auto simp: topo_def)
  then show ?case using j(1) by (meson less_imp_le set_take_subset_set_take subsetD)
qed

lemma topo_acyclic:
  assumes "topo E vs" "distinct vs" "x \<in> set vs" shows "(x, x) \<notin> E\<^sup>+"
proof
  assume c: "(x, x) \<in> E\<^sup>+"
  obtain i where i: "i < length vs" "vs ! i = x" using assms(3) by (auto simp: in_set_conv_nth)
  then have "x \<in> set (take i vs)" using topo_trancl [OF assms(1)] c by blast
  then show False using assms(2) i by (auto simp: in_set_conv_nth nth_eq_iff_index_eq)
qed

lemma topo_closed:
  assumes "topo E vs" "x \<in> set vs" "(x, y) \<in> E\<^sup>*" shows "y \<in> set vs"
  using assms(3,2)
proof (induction rule: rtrancl_induct)
  case (step y z)
  then obtain i where "i < length vs" "vs ! i = y" by (auto simp: in_set_conv_nth)
  then have "z \<in> set (take i vs)" using topo_trancl [OF assms(1)] step.hyps(2) by blast
  then show ?case by (rule in_set_takeD)
qed

lemma topo_sorted: "topo E vs \<Longrightarrow> distinct vs \<Longrightarrow> sorted_wrt (\<lambda>x y. (x, y) \<notin> E\<^sup>+) vs"
  unfolding sorted_wrt_iff_nth_less
proof (intro allI impI notI)
  fix i j assume a: "topo E vs" "distinct vs" "i < j" "j < length vs" "(vs ! i, vs ! j) \<in> E\<^sup>+"
  then have "vs ! j \<in> set (take i vs)" by (intro topo_trancl) auto
  then show False using a by (auto simp: in_set_conv_nth nth_eq_iff_index_eq)
qed

subsection \<open>What a visit does\<close>

definition dfs_ok :: "packages \<Rightarrow> packages \<Rightarrow> string list \<Rightarrow> dfs \<Rightarrow> bool" where
  "dfs_ok all candidates trail s \<longleftrightarrow>
     visiting s = set trail \<and> distinct trail \<and> set trail \<subseteq> dom (map_of all)
     \<and> distinct (visited s) \<and> set (visited s) \<subseteq> dom (map_of all) \<and> set (visited s) \<inter> set trail = {}
     \<and> topo (edge all) (visited s)
     \<and> ordered s = List.map_filter (map_of candidates) (visited s)"

definition cyclic_from :: "packages \<Rightarrow> string \<Rightarrow> bool" where
  "cyclic_from all p \<longleftrightarrow> (\<exists>q. (p, q) \<in> (edge all)\<^sup>* \<and> (q, q) \<in> (edge all)\<^sup>+)"

lemma each_rule:
  assumes "I s"
    and "\<And>x s. x \<in> set xs \<Longrightarrow> I s \<Longrightarrow>
      (case f x s of None \<Rightarrow> False | Some (Inl e) \<Rightarrow> E e | Some (Inr s') \<Rightarrow> I s' \<and> D s \<subseteq> D s' \<and> g x \<subseteq> D s')"
  shows "case each f xs s of None \<Rightarrow> False | Some (Inl e) \<Rightarrow> E e
    | Some (Inr s') \<Rightarrow> I s' \<and> D s \<subseteq> D s' \<and> (\<Union>x\<in>set xs. g x) \<subseteq> D s'"
  using assms
proof (induction xs arbitrary: s)
  case (Cons x xs)
  have fx: "case f x s of None \<Rightarrow> False | Some (Inl e) \<Rightarrow> E e | Some (Inr s') \<Rightarrow> I s' \<and> D s \<subseteq> D s' \<and> g x \<subseteq> D s'"
    using Cons.prems by simp
  then consider e where "f x s = Some (Inl e)" "E e"
    | s' where "f x s = Some (Inr s')" "I s'" "D s \<subseteq> D s'" "g x \<subseteq> D s'"
    by (auto split: option.splits sum.splits)
  then show ?case
  proof cases
    case 1
    then show ?thesis by simp
  next
    case (2 s')
    have "case each f xs s' of None \<Rightarrow> False | Some (Inl e) \<Rightarrow> E e
      | Some (Inr s'') \<Rightarrow> I s'' \<and> D s' \<subseteq> D s'' \<and> (\<Union>x\<in>set xs. g x) \<subseteq> D s''"
      by (rule Cons.IH [OF 2(2)]) (use Cons.prems(2) in auto)
    then show ?thesis using 2 by (auto split: option.splits sum.splits)
  qed
qed simp

definition visit_post ::
  "packages \<Rightarrow> packages \<Rightarrow> string list \<Rightarrow> string \<Rightarrow> dfs \<Rightarrow> (resolution_error + dfs) option \<Rightarrow> bool" where
  "visit_post all candidates trail p s r \<longleftrightarrow>
     (case r of
        None \<Rightarrow> False
      | Some (Inl e) \<Rightarrow> (\<exists>c. e = DependencyCycle c) \<and> cyclic_from all p
      | Some (Inr s') \<Rightarrow> dfs_ok all candidates trail s' \<and> set (visited s) \<subseteq> set (visited s')
          \<and> p \<in> set (visited s'))"

lemma dfs_ok_enter:
  "dfs_ok all candidates trail s \<Longrightarrow> p \<notin> set (visited s) \<Longrightarrow> p \<notin> set trail \<Longrightarrow> map_of all p \<noteq> None
    \<Longrightarrow> dfs_ok all candidates (trail @ [p]) (s\<lparr>visiting := insert p (visiting s)\<rparr>)"
  by (auto simp: dfs_ok_def)

lemma dfs_ok_leave:
  assumes "dfs_ok all candidates (trail @ [p]) s" "edge all `` {p} \<subseteq> set (visited s)"
  shows "dfs_ok all candidates trail
    (s\<lparr>visiting := visiting s - {p}, visited := visited s @ [p],
       ordered := ordered s @ (case map_of candidates p of None \<Rightarrow> [] | Some c \<Rightarrow> [c])\<rparr>)"
  using assms by (auto simp: dfs_ok_def topo_snoc List.map_filter_def split: option.splits)

lemma trail_bound:
  assumes "dfs_ok all candidates trail s" "dict_ok all"
  shows "length trail \<le> length all"
proof -
  have "length trail = card (set trail)" using assms(1) by (simp add: dfs_ok_def distinct_card)
  also have "\<dots> \<le> card (dom (map_of all))"
    using assms(1) by (intro card_mono) (auto simp: dfs_ok_def finite_dom_map_of)
  also have "\<dots> \<le> length all"
    by (metis card_length dom_map_of_conv_image_fst length_map list.set_map)
  finally show ?thesis .
qed

lemma visit_correct:
  assumes "dict_ok all" "dfs_ok all candidates trail s" "map_of all p \<noteq> None"
    and "\<forall>x\<in>set trail. (x, p) \<in> (edge all)\<^sup>+" "length all < n + length trail"
  shows "visit_post all candidates trail p s (visit n all candidates trail p s)"
  using assms(2-)
proof (induction n arbitrary: trail p s)
  case 0
  then show ?case using trail_bound [OF 0(1) assms(1)] by simp
next
  case (Suc n)
  show ?case
  proof (cases "p \<in> set (visited s) \<or> p \<in> set trail")
    case True
    then show ?thesis
      using Suc.prems by (auto simp: visit_post_def cyclic_from_def dfs_ok_def)
  next
    case False
    obtain m where m: "map_of all p = Some m" using Suc.prems(2) by blast
    let ?s = "s\<lparr>visiting := insert p (visiting s)\<rparr>"
    let ?f = "\<lambda>d s'. if map_of all (d_package_id d) = None then Some (Inr s')
               else visit n all candidates (trail @ [p]) (d_package_id d) s'"
    let ?g = "\<lambda>d. {d_package_id d} \<inter> dom (map_of all)"
    have enter: "dfs_ok all candidates (trail @ [p]) ?s"
      using False Suc.prems(1,2) by (intro dfs_ok_enter) auto
    have "case each ?f (m_dependencies m) ?s of None \<Rightarrow> False
        | Some (Inl e) \<Rightarrow> (\<exists>c. e = DependencyCycle c) \<and> cyclic_from all p
        | Some (Inr s') \<Rightarrow> dfs_ok all candidates (trail @ [p]) s' \<and> set (visited ?s) \<subseteq> set (visited s')
            \<and> (\<Union>d\<in>set (m_dependencies m). ?g d) \<subseteq> set (visited s')"
    proof (rule each_rule [where D = "\<lambda>s. set (visited s)"])
      fix d s' assume d: "d \<in> set (m_dependencies m)" and ok: "dfs_ok all candidates (trail @ [p]) s'"
      show "case ?f d s' of None \<Rightarrow> False
        | Some (Inl e) \<Rightarrow> (\<exists>c. e = DependencyCycle c) \<and> cyclic_from all p
        | Some (Inr s'') \<Rightarrow> dfs_ok all candidates (trail @ [p]) s'' \<and> set (visited s') \<subseteq> set (visited s'')
            \<and> ?g d \<subseteq> set (visited s'')"
      proof (cases "map_of all (d_package_id d) = None")
        case False
        then have e: "(p, d_package_id d) \<in> edge all" using m d by (auto simp: edge_def)
        then have "\<forall>x\<in>set (trail @ [p]). (x, d_package_id d) \<in> (edge all)\<^sup>+"
          using Suc.prems(3) by (auto intro: trancl_into_trancl)
        then have "visit_post all candidates (trail @ [p]) (d_package_id d) s'
            (visit n all candidates (trail @ [p]) (d_package_id d) s')"
          using ok False Suc.prems(4) by (intro Suc.IH) auto
        moreover have "cyclic_from all (d_package_id d) \<Longrightarrow> cyclic_from all p"
          using e by (meson converse_rtrancl_into_rtrancl cyclic_from_def)
        ultimately show ?thesis
          using False by (auto simp: visit_post_def split: option.splits sum.splits)
      qed (use ok in auto)
    qed (rule enter)
    then consider e where "each ?f (m_dependencies m) ?s = Some (Inl e)" "\<exists>c. e = DependencyCycle c" "cyclic_from all p"
      | s' where "each ?f (m_dependencies m) ?s = Some (Inr s')" "dfs_ok all candidates (trail @ [p]) s'"
          "set (visited s) \<subseteq> set (visited s')" "(\<Union>d\<in>set (m_dependencies m). ?g d) \<subseteq> set (visited s')"
      by (auto split: option.splits sum.splits)
    then show ?thesis
    proof cases
      case 1
      then show ?thesis using False m Suc.prems(1) by (simp add: visit_post_def dfs_ok_def)
    next
      case (2 s')
      have "edge all `` {p} \<subseteq> (\<Union>d\<in>set (m_dependencies m). ?g d)"
        using m by (auto simp: edge_def)
      then have "edge all `` {p} \<subseteq> set (visited s')" using 2(4) by (rule order_trans)
      note leave = dfs_ok_leave [OF 2(2) this]
      have "visit (Suc n) all candidates trail p s = Some (Inr (s'\<lparr>visiting := visiting s' - {p},
          visited := visited s' @ [p],
          ordered := ordered s' @ (case map_of candidates p of None \<Rightarrow> [] | Some c \<Rightarrow> [c])\<rparr>))"
        using False m 2(1) Suc.prems(1) by (simp add: dfs_ok_def)
      then show ?thesis using leave 2(3) by (auto simp: visit_post_def)
    qed
  qed
qed

subsection \<open>What makes an install order exist\<close>

lemma update_absent: "map_of d k = None \<Longrightarrow> AList.update k v d = d @ [(k, v)]"
  by (induction d) (auto split: if_splits)

lemma index_candidates_ok:
  "distinct (map m_id ms) \<Longrightarrow> \<forall>m\<in>set ms. map_of d (m_id m) = None
    \<Longrightarrow> index_candidates ms d = Inr (d @ map (\<lambda>m. (m_id m, m)) ms)"
proof (induction ms arbitrary: d)
  case (Cons m ms)
  then have "\<forall>x\<in>set ms. map_of (d @ [(m_id m, m)]) (m_id x) = None"
    by (simp add: map_add_def) (metis image_eqI)
  with Cons show ?case by (simp add: update_absent)
qed simp

lemma index_candidates_distinct:
  "index_candidates ms d = Inr c \<Longrightarrow> distinct (map m_id ms) \<and> (\<forall>m\<in>set ms. map_of d (m_id m) = None)"
proof (induction ms arbitrary: d)
  case (Cons m ms)
  then have n: "map_of d (m_id m) = None" and r: "index_candidates ms (d @ [(m_id m, m)]) = Inr c"
    by (auto simp: update_absent split: if_splits)
  from Cons.IH [OF r] n show ?case by (force simp: map_add_def split: option.splits if_splits)
qed simp

lemma index_candidates_iff:
  "index_candidates ms [] = Inr c \<longleftrightarrow> distinct (map m_id ms) \<and> c = map (\<lambda>m. (m_id m, m)) ms"
  using index_candidates_ok [of ms "[]"] index_candidates_distinct [of ms "[]" c] by auto

text \<open>The graph an install would leave: installed packages, replaced by candidates of the same id.\<close>

definition resulting :: "package_manifest list \<Rightarrow> packages \<Rightarrow> packages" where
  "resulting manifests installed = merge_packages installed (map (\<lambda>m. (m_id m, m)) manifests)"

definition compatible :: "(string \<Rightarrow> string \<Rightarrow> bool) \<Rightarrow> string \<Rightarrow> packages \<Rightarrow> bool" where
  "compatible spec_in core_version all \<longleftrightarrow>
     (\<forall>p m. map_of all p = Some m \<longrightarrow>
        version_matches spec_in core_version (m_core m)
        \<and> (\<forall>c\<in>set (m_conflicts m). \<forall>other. map_of all (x_package_id c) = Some other
             \<longrightarrow> \<not> version_matches spec_in (m_version other) (x_version c))
        \<and> (\<forall>d\<in>set (m_dependencies m).
             (map_of all (d_package_id d) = None \<longrightarrow> d_optional d)
             \<and> (\<forall>target. map_of all (d_package_id d) = Some target
                  \<longrightarrow> version_matches spec_in (m_version target) (d_version d)))
        \<and> (\<forall>r\<in>set (m_requires m). q_optional r
             \<or> (\<exists>p' m' c. map_of all p' = Some m' \<and> c \<in> set (m_provides m') \<and> p_id c = q_id r
                  \<and> version_matches spec_in (p_version c) (q_version r))))"

lemma resulting_map_of:
  assumes "dict_ok installed" "distinct (map m_id manifests)"
  shows "dict_ok (resulting manifests installed)"
    and "map_of (resulting manifests installed) = map_of installed ++ map_of (map (\<lambda>m. (m_id m, m)) manifests)"
  using fold_update_dict [of installed "map (\<lambda>m. (m_id m, m)) manifests"] assms
  by (auto simp: resulting_def merge_packages_def dict_ok_def comp_def)

lemma manifest_error_None:
  "manifest_error spec_in core_version all m = None \<longleftrightarrow>
     version_matches spec_in core_version (m_core m)
     \<and> (\<forall>c\<in>set (m_conflicts m). \<forall>other. map_of all (x_package_id c) = Some other
          \<longrightarrow> \<not> version_matches spec_in (m_version other) (x_version c))
     \<and> (\<forall>d\<in>set (m_dependencies m).
          (map_of all (d_package_id d) = None \<longrightarrow> d_optional d)
          \<and> (\<forall>target. map_of all (d_package_id d) = Some target
               \<longrightarrow> version_matches spec_in (m_version target) (d_version d)))"
proof -
  have "conflict_error spec_in all m c = None \<longleftrightarrow> (\<forall>other. map_of all (x_package_id c) = Some other
          \<longrightarrow> \<not> version_matches spec_in (m_version other) (x_version c))" for c
    by (auto simp: conflict_error_def split: option.splits)
  moreover have "dependency_error spec_in all m d = None \<longleftrightarrow>
      (map_of all (d_package_id d) = None \<longrightarrow> d_optional d)
          \<and> (\<forall>target. map_of all (d_package_id d) = Some target
               \<longrightarrow> version_matches spec_in (m_version target) (d_version d))" for d
    by (auto simp: dependency_error_def split: option.splits)
  ultimately show ?thesis
    by (auto simp: manifest_error_def first_error_None_iff split: option.splits dest: first_error_SomeD)
      (metis first_error_SomeD option.distinct(1))
qed

lemma requirement_error_None:
  assumes "dict_ok all"
  shows "requirement_error spec_in all m r = None \<longleftrightarrow> q_optional r
    \<or> (\<exists>p' m' c. map_of all p' = Some m' \<and> c \<in> set (m_provides m') \<and> p_id c = q_id r
         \<and> version_matches spec_in (p_version c) (q_version r))"
proof -
  have "list_ex (\<lambda>(owner, version). version_matches spec_in version (q_version r)) (providers all (q_id r)) \<longleftrightarrow>
      (\<exists>m'\<in>set (dict_values all). \<exists>c\<in>set (m_provides m'). p_id c = q_id r
         \<and> version_matches spec_in (p_version c) (q_version r))"
    by (force simp: list_ex_iff providers_def)
  also have "\<dots> \<longleftrightarrow> (\<exists>p' m' c. map_of all p' = Some m' \<and> c \<in> set (m_provides m') \<and> p_id c = q_id r
         \<and> version_matches spec_in (p_version c) (q_version r))"
    unfolding Bex_def dict_values_lookup [OF assms] by blast
  finally show ?thesis
    by (auto simp: requirement_error_def Let_def split: list.splits)
qed

lemma compatible_iff:
  assumes "dict_ok all"
  shows "compatible spec_in core_version all \<longleftrightarrow>
    first_error (manifest_error spec_in core_version all) (dict_values all) = None
    \<and> resolve_capabilities spec_in all = None"
  unfolding compatible_def resolve_capabilities_def first_error_None_iff manifest_error_None
    requirement_error_None [OF assms] Ball_def dict_values_lookup [OF assms]
  by blast

lemma map_filter_ids:
  assumes "\<And>p m. c p = Some m \<Longrightarrow> m_id m = p"
  shows "map m_id (List.map_filter c vs) = filter (\<lambda>p. c p \<noteq> None) vs"
  using assms by (induction vs) (auto simp: List.map_filter_def)

text \<open>The outcome of visiting every candidate.\<close>

lemma visit_candidates:
  assumes "dict_ok all" "set ps \<subseteq> dom (map_of all)"
  shows "case each (visit (Suc (length all)) all candidates []) ps \<lparr>visiting = {}, visited = [], ordered = []\<rparr> of
      None \<Rightarrow> False
    | Some (Inl e) \<Rightarrow> (\<exists>c. e = DependencyCycle c) \<and> (\<exists>p\<in>set ps. cyclic_from all p)
    | Some (Inr s') \<Rightarrow> dfs_ok all candidates [] s' \<and> (\<Union>p\<in>set ps. {p}) \<subseteq> set (visited s')"
proof -
  have "case each (visit (Suc (length all)) all candidates []) ps \<lparr>visiting = {}, visited = [], ordered = []\<rparr> of
      None \<Rightarrow> False
    | Some (Inl e) \<Rightarrow> (\<exists>c. e = DependencyCycle c) \<and> (\<exists>p\<in>set ps. cyclic_from all p)
    | Some (Inr s') \<Rightarrow> dfs_ok all candidates [] s'
        \<and> set (visited \<lparr>visiting = {}, visited = [], ordered = []\<rparr>) \<subseteq> set (visited s')
        \<and> (\<Union>p\<in>set ps. {p}) \<subseteq> set (visited s')"
  proof (rule each_rule [where D = "\<lambda>s. set (visited s)"])
    show "dfs_ok all candidates [] \<lparr>visiting = {}, visited = [], ordered = []\<rparr>"
      by (simp add: dfs_ok_def List.map_filter_def)
  next
    fix p s assume p: "p \<in> set ps" and ok: "dfs_ok all candidates [] s"
    have "visit_post all candidates [] p s (visit (Suc (length all)) all candidates [] p s)"
      by (rule visit_correct [OF assms(1) ok]) (use p assms(2) in auto)
    then show "case visit (Suc (length all)) all candidates [] p s of None \<Rightarrow> False
      | Some (Inl e) \<Rightarrow> (\<exists>c. e = DependencyCycle c) \<and> (\<exists>p\<in>set ps. cyclic_from all p)
      | Some (Inr s') \<Rightarrow> dfs_ok all candidates [] s' \<and> set (visited s) \<subseteq> set (visited s') \<and> {p} \<subseteq> set (visited s')"
      using p by (auto simp: visit_post_def simp del: visit.simps split: option.splits sum.splits)
  qed
  then show ?thesis by (auto simp del: visit.simps split: option.splits sum.splits)
qed

lemma visited_acyclic:
  assumes "dfs_ok all candidates trail s" "p \<in> set (visited s)" shows "\<not> cyclic_from all p"
proof
  assume "cyclic_from all p"
  then obtain q where q: "(p, q) \<in> (edge all)\<^sup>*" "(q, q) \<in> (edge all)\<^sup>+" by (auto simp: cyclic_from_def)
  have "topo (edge all) (visited s)" "distinct (visited s)" using assms(1) by (auto simp: dfs_ok_def)
  then show False using topo_acyclic [OF _ _ topo_closed [OF _ assms(2) q(1)]] q(2) by simp
qed

text \<open>The resolver as a whole, once the preliminary checks are known.\<close>

lemma resolve_cases:
  assumes inst: "dict_ok installed"
  obtains (rejected) e where "resolve_install_order spec_in manifests core_version installed = Some (Inl e)"
      "\<not> (distinct (map m_id manifests) \<and> (\<forall>(k, m)\<in>set installed. m_id m = k)
        \<and> compatible spec_in core_version (resulting manifests installed))"
  | (cyclic) c m where "resolve_install_order spec_in manifests core_version installed = Some (Inl (DependencyCycle c))"
      "m \<in> set manifests" "cyclic_from (resulting manifests installed) (m_id m)"
  | (order) s where "resolve_install_order spec_in manifests core_version installed = Some (Inr (ordered s))"
      "distinct (map m_id manifests)" "\<forall>(k, m)\<in>set installed. m_id m = k"
      "compatible spec_in core_version (resulting manifests installed)"
      "dfs_ok (resulting manifests installed) (map (\<lambda>m. (m_id m, m)) manifests) [] s"
      "m_id ` set manifests \<subseteq> set (visited s)"
proof -
  let ?c = "map (\<lambda>m. (m_id m, m)) manifests" and ?all = "resulting manifests installed"
  let ?id = "first_error (\<lambda>(k, m). if k \<noteq> m_id m then Some (IdentityMismatch k) else None) installed"
  have id: "?id = None \<longleftrightarrow> (\<forall>(k, m)\<in>set installed. m_id m = k)"
    unfolding first_error_None_iff by (rule ball_cong) (auto split: if_splits)
  show thesis
  proof (cases "distinct (map m_id manifests) \<and> ?id = None \<and> compatible spec_in core_version ?all")
    case True
    then have ix: "index_candidates manifests [] = Inr ?c" by (simp add: index_candidates_iff)
    have all: "dict_ok ?all" "map_of ?all = map_of installed ++ map_of ?c"
      using resulting_map_of [OF inst] True by auto
    let ?ps = "sort (map fst ?c)"
    have res: "resolve_install_order spec_in manifests core_version installed =
        map_option (map_sum id ordered) (each (visit (Suc (length ?all)) ?all ?c []) ?ps
          \<lparr>visiting = {}, visited = [], ordered = []\<rparr>)"
      using True ix compatible_iff [OF all(1)]
      by (simp add: resolve_install_order_def Let_def resulting_def del: visit.simps)
    have ps: "set ?ps \<subseteq> dom (map_of ?all)" unfolding all(2) dom_map_add dom_map_of_conv_image_fst by (auto simp: image_image)
    from visit_candidates [OF all(1) ps, of ?c] consider
        e where "each (visit (Suc (length ?all)) ?all ?c []) ?ps \<lparr>visiting = {}, visited = [], ordered = []\<rparr> = Some (Inl e)"
          "\<exists>c. e = DependencyCycle c" "\<exists>p\<in>set ?ps. cyclic_from ?all p"
      | s where "each (visit (Suc (length ?all)) ?all ?c []) ?ps \<lparr>visiting = {}, visited = [], ordered = []\<rparr> = Some (Inr s)"
          "dfs_ok ?all ?c [] s" "(\<Union>p\<in>set ?ps. {p}) \<subseteq> set (visited s)"
      by (auto simp del: visit.simps split: option.splits sum.splits)
    then show thesis
    proof cases
      case 1
      then show thesis using res cyclic by (auto simp del: visit.simps)
    next
      case (2 s)
      then show thesis using res order [of s] True id by (auto simp del: visit.simps simp: image_image)
    qed
  next
    case False
    have "\<exists>e. resolve_install_order spec_in manifests core_version installed = Some (Inl e)"
    proof (cases "distinct (map m_id manifests)")
      case True
      then have ix: "index_candidates manifests [] = Inr ?c" by (simp add: index_candidates_iff)
      show ?thesis
        using False True ix compatible_iff [OF resulting_map_of(1) [OF inst True], of spec_in core_version]
        by (auto simp: resolve_install_order_def Let_def resulting_def split: option.splits)
    next
      case False
      then have "\<nexists>c. index_candidates manifests [] = Inr c" by (simp add: index_candidates_iff)
      then show ?thesis by (cases "index_candidates manifests []") (auto simp: resolve_install_order_def)
    qed
    then show thesis using rejected False id by blast
  qed
qed

subsection \<open>Properties\<close>

text \<open>
  C24: \<open>resolve_install_order\<close> returns on every input (the recursion never goes deeper than the
  number of packages), and it returns an order exactly when the candidates have distinct ids,
  the installed packages are filed under their own ids, the resulting graph meets every Core
  range, conflict, dependency and capability declaration, and no candidate reaches a
  dependency cycle, across installed and candidate packages alike.
\<close>

theorem resolve_succeeds_iff:
  assumes "dict_ok installed"
  shows "if distinct (map m_id manifests) \<and> (\<forall>(k, m)\<in>set installed. m_id m = k)
      \<and> compatible spec_in core_version (resulting manifests installed)
      \<and> (\<forall>m\<in>set manifests. \<not> cyclic_from (resulting manifests installed) (m_id m))
    then \<exists>ord. resolve_install_order spec_in manifests core_version installed = Some (Inr ord)
    else \<exists>e. resolve_install_order spec_in manifests core_version installed = Some (Inl e)"
  using assms
proof (cases rule: resolve_cases [where spec_in = spec_in and manifests = manifests and core_version = core_version])
  case (order s)
  then have "\<forall>m\<in>set manifests. \<not> cyclic_from (resulting manifests installed) (m_id m)"
    using visited_acyclic by blast
  then show ?thesis using order by simp
qed auto

definition ex_package :: "string \<Rightarrow> string list \<Rightarrow> package_manifest" where
  "ex_package i deps = \<lparr>m_id = i, m_version = ''1.0.0'', m_core = ''*'', m_conflicts = [],
     m_dependencies = map (\<lambda>d. \<lparr>d_package_id = d, d_version = ''*'', d_optional = False\<rparr>) deps,
     m_provides = [], m_requires = [], m_type = ''module'', m_migrations = []\<rparr>"

definition ex_batch :: "package_manifest list" where
  "ex_batch = [ex_package ''a'' [''b''], ex_package ''c'' []]"

definition ex_installed :: packages where
  "ex_installed = [(''b'', ex_package ''b'' [''c''])]"

lemma ex_resolve_eval:
  "resolve_install_order (\<lambda>v s. False) ex_batch ''1.0'' ex_installed = Some (Inr [ex_package ''c'' [], ex_package ''a'' [''b'']])"
  by code_simp

theorem resolve_succeeds_iff_witness:
  "distinct (map m_id ex_batch) \<and> compatible (\<lambda>v s. False) ''1.0'' (resulting ex_batch ex_installed)"
  using resolve_succeeds_iff [of ex_installed ex_batch "\<lambda>v s. False" "''1.0''"] ex_resolve_eval
  by (auto simp: dict_ok_def ex_installed_def split: if_splits)

text \<open>
  C25: the order is a permutation of the candidates, and nothing in it depends, directly or
  through other candidates and installed packages, on something that comes later.
\<close>

theorem install_order_topological:
  assumes "dict_ok installed"
    and "resolve_install_order spec_in manifests core_version installed = Some (Inr ord)"
  shows "mset ord = mset manifests
    \<and> sorted_wrt (\<lambda>a b. (m_id a, m_id b) \<notin> (edge (resulting manifests installed))\<^sup>+) ord"
  using assms(1)
proof (cases rule: resolve_cases [where spec_in = spec_in and manifests = manifests and core_version = core_version])
  case (order s)
  let ?c = "map (\<lambda>m. (m_id m, m)) manifests" and ?E = "edge (resulting manifests installed)"
  have ord: "ord = List.map_filter (map_of ?c) (visited s)"
    using order(1,5) assms(2) by (simp add: dfs_ok_def)
  have lookup: "map_of ?c p = Some m \<longleftrightarrow> m \<in> set manifests \<and> m_id m = p" for p m
    using order(2) by (auto simp: map_of_eq_Some_iff comp_def)
  have v: "topo ?E (visited s)" "distinct (visited s)" using order(5) by (auto simp: dfs_ok_def)
  have ids: "map m_id ord = filter (\<lambda>p. map_of ?c p \<noteq> None) (visited s)"
    unfolding ord by (rule map_filter_ids) (simp add: lookup)
  have "sorted_wrt (\<lambda>x y. (x, y) \<notin> ?E\<^sup>+) (map m_id ord)"
    unfolding ids by (rule sorted_wrt_filter [OF topo_sorted [OF v]])
  moreover have "distinct (map m_id ord)" unfolding ids using v(2) by simp
  moreover have "set ord = set manifests"
    unfolding ord set_map_filter using order(6) by (auto simp: lookup)
  moreover have "distinct manifests" using order(2) by (simp add: distinct_map)
  ultimately show ?thesis
    by (simp add: sorted_wrt_map distinct_map set_eq_iff_mset_eq_distinct)
qed (use assms(2) in auto)

theorem install_order_topological_witness:
  "mset [ex_package ''c'' [], ex_package ''a'' [''b'']] = mset ex_batch
    \<and> (''c'', ''a'') \<notin> (edge (resulting ex_batch ex_installed))\<^sup>+"
  using install_order_topological [OF _ ex_resolve_eval]
  by (simp add: dict_ok_def ex_installed_def ex_package_def)

end
