(* ===== verification/Operation_Journal.thy ===== *)
theory Operation_Journal
  imports Py_Regex Py_Json
begin

text \<open>
  \<open>operation_journal.py\<close>: the append-only, HMAC-chained journal of operation attempts. The state
  is the journal file, a list of lines; every call holds the exclusive lock, so it is one
  function from the file to its result and the next file. The HMAC and the text of timestamps
  are functions of the environment \<open>journal_env\<close>.
\<close>

subsection \<open>Data\<close>

datatype op_status = Started | Succeeded | Failed

fun status_value :: "op_status \<Rightarrow> string" where
  "status_value Started = ''started''"
| "status_value Succeeded = ''succeeded''"
| "status_value Failed = ''failed''"

record op_event =
  e_sequence :: int
  e_operation_id :: string
  e_attempt :: int
  e_action :: string
  e_target :: string
  e_status :: op_status
  e_occurred_at :: datetime
  e_error_code :: "string option"
  e_previous_hash :: string
  e_event_hash :: string

text \<open>The times of a state come from events with a timezone and are instants.\<close>

record op_state =
  s_operation_id :: string
  s_attempt :: int
  s_action :: string
  s_target :: string
  s_status :: op_status
  s_started_at :: int
  s_finished_at :: "int option"
  s_error_code :: "string option"
  s_last_sequence :: int

datatype journal_error =
    JournalValueError string
  | OperationJournalIntegrityError string
  | OperationConflictError string
  | OperationTransitionError string

record journal_env =
  integrity_key :: string
  hmac_hex :: "string \<Rightarrow> string \<Rightarrow> string"
  isoformat :: "datetime \<Rightarrow> string"
  json_time :: "datetime \<Rightarrow> string"

text \<open>A line on disk: its size, whether it ends in a newline, and what it parses to.\<close>

record journal_line =
  l_bytes :: nat
  l_complete :: bool
  l_event :: "op_event option"

type_synonym journal_file = "journal_line list option"
type_synonym op_states = "(string, op_state) dict"

definition GENESIS_HASH :: string where "GENESIS_HASH = replicate 64 CHR ''0''"
definition MAX_OPERATION_RECORD_BYTES :: nat where "MAX_OPERATION_RECORD_BYTES = 16 * 1024"

subsection \<open>Validators\<close>

definition operation_id_pattern :: rx where
  "operation_id_pattern =
     Seq (Cls [upper, lower, digit] 1 (Some 1))
       (Cls [upper, lower, digit, single CHR ''.'', single CHR ''_'', single CHR '':'', single CHR ''-''] 7 (Some 127))"

definition operation_name_pattern :: rx where
  "operation_name_pattern =
     Seq (Cls [lower] 1 (Some 1))
       (Cls [lower, digit, single CHR ''_'', single CHR ''.'', single CHR '':'', single CHR ''-''] 1 (Some 127))"

definition target_pattern :: rx where
  "target_pattern =
     Seq (Cls [upper, lower, digit] 1 (Some 1))
       (Cls [upper, lower, digit, single CHR ''.'', single CHR ''_'', single CHR '':'', single CHR ''/'',
             single CHR ''-''] 1 (Some 255))"

definition operation_error_pattern :: rx where
  "operation_error_pattern =
     Seq (Cls [lower] 1 (Some 1))
       (Cls [lower, digit, single CHR ''_'', single CHR ''.'', single CHR ''-''] 1 (Some 127))"

definition validate_operation_id :: "string \<Rightarrow> journal_error + string" where
  "validate_operation_id v =
     (if fullmatch operation_id_pattern v then Inr v else Inl (JournalValueError ''invalid operation ID''))"

definition validate_name :: "string \<Rightarrow> journal_error + string" where
  "validate_name v =
     (if fullmatch operation_name_pattern v then Inr v else Inl (JournalValueError ''invalid operation action''))"

definition validate_target :: "string \<Rightarrow> journal_error + string" where
  "validate_target v =
     (if fullmatch target_pattern v then Inr v else Inl (JournalValueError ''invalid operation target''))"

definition validate_error_code :: "string \<Rightarrow> journal_error + string" where
  "validate_error_code v =
     (if fullmatch operation_error_pattern v then Inr v
      else Inl (JournalValueError ''invalid safe operation error code''))"

definition journal_now :: "int \<Rightarrow> datetime option \<Rightarrow> journal_error + int" where
  "journal_now clock at = utc_or_now (JournalValueError ''operation timestamp must be timezone-aware'') clock at"

subsection \<open>Signing\<close>

definition event_fields :: "(datetime \<Rightarrow> string) \<Rightarrow> op_event \<Rightarrow> (pykey \<times> pyval) list" where
  "event_fields fmt e =
     [(KStr ''action'', VStr (e_action e)),
      (KStr ''attempt'', VInt (e_attempt e)),
      (KStr ''error_code'', case e_error_code e of None \<Rightarrow> VNull | Some c \<Rightarrow> VStr c),
      (KStr ''occurred_at'', VStr (fmt (e_occurred_at e))),
      (KStr ''operation_id'', VStr (e_operation_id e)),
      (KStr ''previous_hash'', VStr (e_previous_hash e)),
      (KStr ''sequence'', VInt (e_sequence e)),
      (KStr ''status'', VStr (status_value (e_status e))),
      (KStr ''target'', VStr (e_target e))]"

definition event_body :: "journal_env \<Rightarrow> op_event \<Rightarrow> pyval" where
  "event_body env e = VDict None (event_fields (isoformat env) e)"

text \<open>The members are listed in key order, so \<open>sort_keys\<close> writes them as they are.\<close>

definition sign :: "journal_env \<Rightarrow> pyval \<Rightarrow> string" where
  "sign env body = hmac_hex env (integrity_key env) (json_dumps body)"

definition event_line :: "journal_env \<Rightarrow> op_event \<Rightarrow> string" where
  "event_line env e =
     json_dumps (VDict None
       (take 3 (event_fields (json_time env) e) @ [(KStr ''event_hash'', VStr (e_event_hash e))]
        @ drop 3 (event_fields (json_time env) e))) @ [CHR 0x0A]"

subsection \<open>Replay\<close>

fun instant :: "datetime \<Rightarrow> int" where
  "instant (Naive t) = t"
| "instant (Aware t) = t"

definition initial_state :: "op_event \<Rightarrow> op_state" where
  "initial_state e =
     \<lparr>s_operation_id = e_operation_id e, s_attempt = e_attempt e, s_action = e_action e,
      s_target = e_target e, s_status = Started, s_started_at = instant (e_occurred_at e),
      s_finished_at = None, s_error_code = None, s_last_sequence = e_sequence e\<rparr>"

definition terminal_state :: "op_state \<Rightarrow> op_event \<Rightarrow> op_state" where
  "terminal_state current e =
     current\<lparr>s_status := e_status e, s_finished_at := Some (instant (e_occurred_at e)),
       s_error_code := e_error_code e, s_last_sequence := e_sequence e\<rparr>"

definition validate_event_fields :: "op_event \<Rightarrow> journal_error + unit" where
  "validate_event_fields e =
     (case validate_operation_id (e_operation_id e) of Inl x \<Rightarrow> Inl x | Inr _ \<Rightarrow>
      case validate_name (e_action e) of Inl x \<Rightarrow> Inl x | Inr _ \<Rightarrow>
      case validate_target (e_target e) of Inl x \<Rightarrow> Inl x | Inr _ \<Rightarrow>
      if e_attempt e < 1 then Inl (OperationJournalIntegrityError ''operation attempt must be positive'')
      else case e_occurred_at e of
        Naive _ \<Rightarrow> Inl (OperationJournalIntegrityError ''operation timestamp must be timezone-aware'')
      | Aware _ \<Rightarrow>
          if e_status e = Failed
          then (case e_error_code e of
                  None \<Rightarrow> Inl (OperationJournalIntegrityError ''failed operation requires an error code'')
                | Some c \<Rightarrow> (case validate_error_code c of Inl x \<Rightarrow> Inl x | Inr _ \<Rightarrow> Inr ()))
          else if e_error_code e \<noteq> None
          then Inl (OperationJournalIntegrityError ''only failed operations may contain an error code'')
          else Inr ())"

definition apply_event :: "op_state option \<Rightarrow> op_event \<Rightarrow> journal_error + op_state" where
  "apply_event current e =
     (case validate_event_fields e of Inl x \<Rightarrow> Inl x | Inr _ \<Rightarrow>
      case current of
        None \<Rightarrow>
          if e_status e \<noteq> Started \<or> e_attempt e \<noteq> 1
          then Inl (OperationJournalIntegrityError ''an operation must begin with started attempt 1'')
          else Inr (initial_state e)
      | Some cur \<Rightarrow>
          if s_action cur \<noteq> e_action e \<or> s_target cur \<noteq> e_target e
          then Inl (OperationJournalIntegrityError ''operation action and target must remain immutable'')
          else if e_status e = Started
          then (if s_status cur \<noteq> Failed
                then Inl (OperationJournalIntegrityError ''only a failed operation can begin another attempt'')
                else if e_attempt e \<noteq> s_attempt cur + 1
                then Inl (OperationJournalIntegrityError ''invalid operation retry attempt'')
                else case s_finished_at cur of
                  None \<Rightarrow> Inl (OperationJournalIntegrityError ''operation retry predates the previous attempt'')
                | Some t \<Rightarrow>
                    if instant (e_occurred_at e) < t
                    then Inl (OperationJournalIntegrityError ''operation retry predates the previous attempt'')
                    else Inr (initial_state e))
          else if s_status cur \<noteq> Started \<or> e_attempt e \<noteq> s_attempt cur
          then Inl (OperationJournalIntegrityError ''invalid terminal operation transition'')
          else if instant (e_occurred_at e) < s_started_at cur
          then Inl (OperationJournalIntegrityError ''terminal operation event predates its attempt'')
          else Inr (terminal_state cur e))"

text \<open>A \<open>ValueError\<close> of a validator met while reading is reported as an integrity error.\<close>

fun reading_error :: "journal_error \<Rightarrow> journal_error" where
  "reading_error (JournalValueError m) = OperationJournalIntegrityError ''operation journal cannot be verified''"
| "reading_error e = e"

definition head_hash :: "op_event list \<Rightarrow> string" where
  "head_hash events = (if events = [] then GENESIS_HASH else e_event_hash (last events))"

definition verify_line ::
  "journal_env \<Rightarrow> op_event list \<Rightarrow> op_states \<Rightarrow> journal_line \<Rightarrow> journal_error + (op_event \<times> op_state)" where
  "verify_line env events states line =
     (if MAX_OPERATION_RECORD_BYTES < l_bytes line
      then Inl (OperationJournalIntegrityError ''operation journal line exceeds the size limit'')
      else if \<not> l_complete line
      then Inl (OperationJournalIntegrityError ''operation journal line is incomplete'')
      else case l_event line of
        None \<Rightarrow> Inl (OperationJournalIntegrityError ''operation journal cannot be verified'')
      | Some e \<Rightarrow>
          if e_sequence e \<noteq> int (length events) + 1
          then Inl (OperationJournalIntegrityError ''invalid operation sequence'')
          else if e_previous_hash e \<noteq> head_hash events
          then Inl (OperationJournalIntegrityError ''broken operation chain'')
          else if e_event_hash e \<noteq> sign env (event_body env e)
          then Inl (OperationJournalIntegrityError ''invalid operation signature'')
          else case apply_event (map_of states (e_operation_id e)) e of
            Inl x \<Rightarrow> Inl (reading_error x)
          | Inr st \<Rightarrow> Inr (e, st))"

fun verify_lines ::
  "journal_env \<Rightarrow> op_event list \<Rightarrow> op_states \<Rightarrow> journal_line list \<Rightarrow> journal_error + (op_event list \<times> op_states)" where
  "verify_lines env events states [] = Inr (events, states)"
| "verify_lines env events states (l # ls) =
     (case verify_line env events states l of
        Inl x \<Rightarrow> Inl x
      | Inr (e, st) \<Rightarrow> verify_lines env (events @ [e]) (AList.update (e_operation_id e) st states) ls)"

definition read_and_verify :: "journal_env \<Rightarrow> journal_file \<Rightarrow> journal_error + (op_event list \<times> op_states)" where
  "read_and_verify env file = (case file of None \<Rightarrow> Inr ([], []) | Some ls \<Rightarrow> verify_lines env [] [] ls)"

subsection \<open>Operations\<close>

text \<open>\<open>OperationJournal.__init__\<close>\<close>

definition make_journal :: "journal_env \<Rightarrow> journal_error + journal_env" where
  "make_journal env =
     (if length (integrity_key env) < 32
      then Inl (JournalValueError ''operation journal integrity key must contain at least 32 bytes'')
      else Inr env)"

definition new_event ::
  "journal_env \<Rightarrow> op_event list \<Rightarrow> string \<Rightarrow> int \<Rightarrow> string \<Rightarrow> string \<Rightarrow> op_status \<Rightarrow> string option \<Rightarrow> int \<Rightarrow> op_event" where
  "new_event env events operation_id attempt action target status error_code timestamp =
     (let e = \<lparr>e_sequence = int (length events) + 1, e_operation_id = operation_id, e_attempt = attempt,
               e_action = action, e_target = target, e_status = status, e_occurred_at = Aware timestamp,
               e_error_code = error_code, e_previous_hash = head_hash events, e_event_hash = []\<rparr>
      in e\<lparr>e_event_hash := sign env (event_body env e)\<rparr>)"

definition append_line :: "journal_env \<Rightarrow> op_event \<Rightarrow> journal_file \<Rightarrow> (journal_error + unit) \<times> journal_file" where
  "append_line env e file =
     (let n = utf8_length (event_line env e) in
      if MAX_OPERATION_RECORD_BYTES < n
      then (Inl (JournalValueError ''operation journal event exceeds the size limit''), file)
      else (Inr (), Some ((case file of None \<Rightarrow> [] | Some ls \<Rightarrow> ls)
                          @ [\<lparr>l_bytes = n, l_complete = True, l_event = Some e\<rparr>])))"

text \<open>Append an event and answer with the state it leads to.\<close>

definition record_event ::
  "journal_env \<Rightarrow> op_event \<Rightarrow> op_state \<Rightarrow> journal_file \<Rightarrow> (journal_error + op_state) \<times> journal_file" where
  "record_event env e st file =
     (case append_line env e file of (Inl x, f) \<Rightarrow> (Inl x, f) | (Inr _, f) \<Rightarrow> (Inr st, f))"

definition begin_operation ::
  "journal_env \<Rightarrow> int \<Rightarrow> string \<Rightarrow> string \<Rightarrow> string \<Rightarrow> datetime option \<Rightarrow> journal_file
    \<Rightarrow> (journal_error + op_state) \<times> journal_file" where
  "begin_operation env clock operation_id action target occurred_at file =
     (case validate_operation_id operation_id of Inl x \<Rightarrow> (Inl x, file) | Inr _ \<Rightarrow>
      case validate_name action of Inl x \<Rightarrow> (Inl x, file) | Inr _ \<Rightarrow>
      case validate_target target of Inl x \<Rightarrow> (Inl x, file) | Inr _ \<Rightarrow>
      case journal_now clock occurred_at of Inl x \<Rightarrow> (Inl x, file) | Inr timestamp \<Rightarrow>
      case read_and_verify env file of Inl x \<Rightarrow> (Inl x, file) | Inr (events, states) \<Rightarrow>
      case map_of states operation_id of
        Some existing \<Rightarrow>
          if s_action existing \<noteq> action \<or> s_target existing \<noteq> target
          then (Inl (OperationConflictError ''operation ID is already bound to a different action or target''), file)
          else (Inr existing, file)
      | None \<Rightarrow>
          (let e = new_event env events operation_id 1 action target Started None timestamp
           in record_event env e (initial_state e) file))"

definition retry_operation ::
  "journal_env \<Rightarrow> int \<Rightarrow> string \<Rightarrow> datetime option \<Rightarrow> journal_file \<Rightarrow> (journal_error + op_state) \<times> journal_file" where
  "retry_operation env clock operation_id occurred_at file =
     (case validate_operation_id operation_id of Inl x \<Rightarrow> (Inl x, file) | Inr _ \<Rightarrow>
      case journal_now clock occurred_at of Inl x \<Rightarrow> (Inl x, file) | Inr timestamp \<Rightarrow>
      case read_and_verify env file of Inl x \<Rightarrow> (Inl x, file) | Inr (events, states) \<Rightarrow>
      case map_of states operation_id of
        None \<Rightarrow> (Inl (OperationTransitionError ''unknown operation''), file)
      | Some current \<Rightarrow>
          if s_status current = Started then (Inr current, file)
          else if s_status current = Succeeded
          then (Inl (OperationTransitionError ''a succeeded operation cannot be retried''), file)
          else if (case s_finished_at current of None \<Rightarrow> True | Some t \<Rightarrow> timestamp < t)
          then (Inl (OperationTransitionError ''operation retry predates the previous attempt''), file)
          else (let e = new_event env events operation_id (s_attempt current + 1) (s_action current)
                      (s_target current) Started None timestamp
                in record_event env e (initial_state e) file))"

definition finish_operation ::
  "journal_env \<Rightarrow> int \<Rightarrow> string \<Rightarrow> op_status \<Rightarrow> string option \<Rightarrow> datetime option \<Rightarrow> journal_file
    \<Rightarrow> (journal_error + op_state) \<times> journal_file" where
  "finish_operation env clock operation_id status error_code occurred_at file =
     (case validate_operation_id operation_id of Inl x \<Rightarrow> (Inl x, file) | Inr _ \<Rightarrow>
      case journal_now clock occurred_at of Inl x \<Rightarrow> (Inl x, file) | Inr timestamp \<Rightarrow>
      case read_and_verify env file of Inl x \<Rightarrow> (Inl x, file) | Inr (events, states) \<Rightarrow>
      case map_of states operation_id of
        None \<Rightarrow> (Inl (OperationTransitionError ''unknown operation''), file)
      | Some current \<Rightarrow>
          if s_status current = status \<and> (status \<noteq> Failed \<or> s_error_code current = error_code)
          then (Inr current, file)
          else if s_status current \<noteq> Started
          then (Inl (OperationTransitionError ''cannot mark a finished operation''), file)
          else if timestamp < s_started_at current
          then (Inl (OperationJournalIntegrityError ''terminal operation event predates its attempt''), file)
          else (let e = new_event env events operation_id (s_attempt current) (s_action current)
                      (s_target current) status error_code timestamp
                in record_event env e (terminal_state current e) file))"

definition succeed_operation ::
  "journal_env \<Rightarrow> int \<Rightarrow> string \<Rightarrow> datetime option \<Rightarrow> journal_file \<Rightarrow> (journal_error + op_state) \<times> journal_file" where
  "succeed_operation env clock operation_id occurred_at file =
     finish_operation env clock operation_id Succeeded None occurred_at file"

definition fail_operation ::
  "journal_env \<Rightarrow> int \<Rightarrow> string \<Rightarrow> string \<Rightarrow> datetime option \<Rightarrow> journal_file \<Rightarrow> (journal_error + op_state) \<times> journal_file" where
  "fail_operation env clock operation_id error_code occurred_at file =
     (case validate_error_code error_code of Inl x \<Rightarrow> (Inl x, file) | Inr code \<Rightarrow>
      finish_operation env clock operation_id Failed (Some code) occurred_at file)"

definition operation_state :: "journal_env \<Rightarrow> string \<Rightarrow> journal_file \<Rightarrow> journal_error + op_state option" where
  "operation_state env operation_id file =
     (case validate_operation_id operation_id of Inl x \<Rightarrow> Inl x | Inr _ \<Rightarrow>
      case read_and_verify env file of Inl x \<Rightarrow> Inl x | Inr (events, states) \<Rightarrow> Inr (map_of states operation_id))"

definition operation_states :: "journal_env \<Rightarrow> journal_file \<Rightarrow> journal_error + op_states" where
  "operation_states env file =
     (case read_and_verify env file of Inl x \<Rightarrow> Inl x | Inr (events, states) \<Rightarrow> Inr (dict_sorted states))"

definition pending_operations :: "journal_env \<Rightarrow> journal_file \<Rightarrow> journal_error + op_state list" where
  "pending_operations env file =
     (case operation_states env file of Inl x \<Rightarrow> Inl x
      | Inr states \<Rightarrow> Inr (filter (\<lambda>st. s_status st = Started) (dict_values states)))"

definition journal_events :: "journal_env \<Rightarrow> journal_file \<Rightarrow> journal_error + op_event list" where
  "journal_events env file =
     (case read_and_verify env file of Inl x \<Rightarrow> Inl x | Inr (events, states) \<Rightarrow> Inr events)"

record journal_verification =
  event_count :: nat
  operation_count :: nat
  pending_count :: nat
  verified_head :: string

definition verify_journal :: "journal_env \<Rightarrow> string option \<Rightarrow> journal_file \<Rightarrow> journal_error + journal_verification" where
  "verify_journal env expected_head file =
     (case read_and_verify env file of Inl x \<Rightarrow> Inl x | Inr (events, states) \<Rightarrow>
      if expected_head \<noteq> None \<and> head_hash events \<noteq> the expected_head
      then Inl (OperationJournalIntegrityError ''operation journal head does not match the trusted checkpoint'')
      else Inr \<lparr>event_count = length events, operation_count = length states,
                pending_count = length (filter (\<lambda>st. s_status st = Started) (dict_values states)),
                verified_head = head_hash events\<rparr>)"

subsection \<open>Reading back what was appended\<close>

lemma verify_lines_append:
  "verify_lines env events states (ls @ ls') =
     (case verify_lines env events states ls of
        Inl x \<Rightarrow> Inl x | Inr (es, sts) \<Rightarrow> verify_lines env es sts ls')"
  by (induction ls arbitrary: events states) (auto split: sum.splits)

text \<open>The fields of a replayed state satisfy the validators, because those of its events did.\<close>

definition state_ok :: "string \<Rightarrow> op_state \<Rightarrow> bool" where
  "state_ok k st \<longleftrightarrow>
     s_operation_id st = k \<and> fullmatch operation_id_pattern k \<and> fullmatch operation_name_pattern (s_action st)
     \<and> fullmatch target_pattern (s_target st) \<and> 1 \<le> s_attempt st
     \<and> (s_status st = Started \<longleftrightarrow> s_finished_at st = None)
     \<and> (s_status st = Failed \<longleftrightarrow> s_error_code st \<noteq> None)"

definition states_ok :: "op_states \<Rightarrow> bool" where
  "states_ok sts \<longleftrightarrow> dict_ok sts \<and> (\<forall>k st. map_of sts k = Some st \<longrightarrow> state_ok k st)"

definition fields_ok :: "op_event \<Rightarrow> bool" where
  "fields_ok e \<longleftrightarrow>
     fullmatch operation_id_pattern (e_operation_id e) \<and> fullmatch operation_name_pattern (e_action e)
     \<and> fullmatch target_pattern (e_target e) \<and> 1 \<le> e_attempt e \<and> (\<exists>t. e_occurred_at e = Aware t)
     \<and> (e_status e = Failed \<longleftrightarrow> e_error_code e \<noteq> None)
     \<and> (\<forall>c. e_error_code e = Some c \<longrightarrow> fullmatch operation_error_pattern c)"

lemma validate_event_fields_iff: "validate_event_fields e = Inr u \<longleftrightarrow> fields_ok e"
  by (auto simp: validate_event_fields_def validate_operation_id_def validate_name_def validate_target_def
      validate_error_code_def fields_ok_def split: datetime.splits option.splits if_splits)

lemma apply_event_ok:
  assumes "apply_event current e = Inr st" "\<And>cur. current = Some cur \<Longrightarrow> state_ok (e_operation_id e) cur"
  shows "state_ok (e_operation_id e) st"
proof -
  have f: "fields_ok e" using assms(1) validate_event_fields_iff by (auto simp: apply_event_def split: sum.splits)
  show ?thesis
    using assms f
    by (auto simp: apply_event_def state_ok_def fields_ok_def initial_state_def terminal_state_def
        split: sum.splits option.splits if_splits)
qed

lemma verify_line_SomeD:
  assumes "verify_line env events states l = Inr (e, st)"
  shows "l_event l = Some e" "e_sequence e = int (length events) + 1" "e_previous_hash e = head_hash events"
    "e_event_hash e = sign env (event_body env e)" "apply_event (map_of states (e_operation_id e)) e = Inr st"
  using assms by (auto simp: verify_line_def split: if_splits option.splits sum.splits)

lemma verify_lines_states_ok:
  "verify_lines env events states ls = Inr (es, sts) \<Longrightarrow> states_ok states \<Longrightarrow> states_ok sts"
proof (induction ls arbitrary: events states)
  case (Cons l ls)
  from Cons.prems(1) obtain e st where l: "verify_line env events states l = Inr (e, st)"
    "verify_lines env (events @ [e]) (AList.update (e_operation_id e) st states) ls = Inr (es, sts)"
    by (auto split: sum.splits)
  have "state_ok (e_operation_id e) st"
    by (rule apply_event_ok [OF verify_line_SomeD(5) [OF l(1)]]) (use Cons.prems(2) in \<open>simp add: states_ok_def\<close>)
  then have "states_ok (AList.update (e_operation_id e) st states)"
    using Cons.prems(2) by (auto simp: states_ok_def map_of_update)
  then show ?case using Cons.IH l(2) by blast
qed simp

lemma read_states_ok: "read_and_verify env f = Inr (es, sts) \<Longrightarrow> states_ok sts"
  by (auto simp: read_and_verify_def states_ok_def split: option.splits
      dest: verify_lines_states_ok)

lemma event_body_hash [simp]: "event_body env (e\<lparr>e_event_hash := h\<rparr>) = event_body env e"
  by (simp add: event_body_def event_fields_def)

lemma new_event_sel [simp]:
  "e_sequence (new_event env evs k a act tgt stat err t) = int (length evs) + 1"
  "e_operation_id (new_event env evs k a act tgt stat err t) = k"
  "e_attempt (new_event env evs k a act tgt stat err t) = a"
  "e_action (new_event env evs k a act tgt stat err t) = act"
  "e_target (new_event env evs k a act tgt stat err t) = tgt"
  "e_status (new_event env evs k a act tgt stat err t) = stat"
  "e_occurred_at (new_event env evs k a act tgt stat err t) = Aware t"
  "e_error_code (new_event env evs k a act tgt stat err t) = err"
  "e_previous_hash (new_event env evs k a act tgt stat err t) = head_hash evs"
  "e_event_hash (new_event env evs k a act tgt stat err t) =
     sign env (event_body env (new_event env evs k a act tgt stat err t))"
  by (simp_all add: new_event_def Let_def event_body_def event_fields_def)

lemma record_event_cases:
  assumes read: "read_and_verify env f = Inr (evs, sts)"
    and e: "e = new_event env evs k a act tgt stat err t"
    and ap: "apply_event (map_of sts k) e = Inr st"
  obtains (too_long) x where "record_event env e st f = (Inl x, f)"
  | (appended) f' where "record_event env e st f = (Inr st, f')"
      "read_and_verify env f' = Inr (evs @ [e], AList.update k st sts)"
proof (cases "MAX_OPERATION_RECORD_BYTES < utf8_length (event_line env e)")
  case True
  then show thesis by (intro too_long) (auto simp: record_event_def append_line_def Let_def)
next
  case False
  let ?l = "\<lparr>l_bytes = utf8_length (event_line env e), l_complete = True, l_event = Some e\<rparr>"
  let ?f = "Some ((case f of None \<Rightarrow> [] | Some ls \<Rightarrow> ls) @ [?l])"
  have "verify_line env evs sts ?l = Inr (e, st)"
    using False ap by (simp add: verify_line_def e)
  then have "read_and_verify env ?f = Inr (evs @ [e], AList.update k st sts)"
    using read e by (cases f) (auto simp: read_and_verify_def verify_lines_append)
  moreover have "record_event env e st f = (Inr st, ?f)"
    using False by (simp add: record_event_def append_line_def Let_def)
  ultimately show thesis by (intro appended)
qed

subsection \<open>Calls\<close>

datatype journal_call =
    Begin int string string string "datetime option"
  | Retry int string "datetime option"
  | Succeed int string "datetime option"
  | Fail int string string "datetime option"

fun call_id :: "journal_call \<Rightarrow> string" where
  "call_id (Begin c k act tgt at) = k"
| "call_id (Retry c k at) = k"
| "call_id (Succeed c k at) = k"
| "call_id (Fail c k code at) = k"

fun run_call :: "journal_env \<Rightarrow> journal_call \<Rightarrow> journal_file \<Rightarrow> (journal_error + op_state) \<times> journal_file" where
  "run_call env (Begin c k act tgt at) f = begin_operation env c k act tgt at f"
| "run_call env (Retry c k at) f = retry_operation env c k at f"
| "run_call env (Succeed c k at) f = succeed_operation env c k at f"
| "run_call env (Fail c k code at) f = fail_operation env c k code at f"

text \<open>
  What a call on a verified journal does: it leaves the file alone, answering with an error or
  with the state already recorded, or it appends one event that replays to its answer.
\<close>

definition call_effect ::
  "journal_env \<Rightarrow> journal_file \<Rightarrow> op_event list \<Rightarrow> op_states \<Rightarrow> string
    \<Rightarrow> (journal_error + op_state) \<times> journal_file \<Rightarrow> bool" where
  "call_effect env f evs sts k r \<longleftrightarrow>
     (snd r = f \<and> (\<forall>st. fst r = Inr st \<longrightarrow> map_of sts k = Some st))
     \<or> (\<exists>e st. e_operation_id e = k \<and> fst r = Inr st \<and> apply_event (map_of sts k) e = Inr st
          \<and> read_and_verify env (snd r) = Inr (evs @ [e], AList.update k st sts))"

lemma call_effect_same [simp]: "call_effect env f evs sts k (Inl x, f)"
  by (simp add: call_effect_def)

lemma call_effect_found: "map_of sts k = Some st \<Longrightarrow> call_effect env f evs sts k (Inr st, f)"
  by (simp add: call_effect_def)

lemma call_effect_recorded:
  assumes "read_and_verify env f = Inr (evs, sts)"
    "apply_event (map_of sts k) (new_event env evs k a act tgt stat err t) = Inr st"
  shows "call_effect env f evs sts k (record_event env (new_event env evs k a act tgt stat err t) st f)"
  by (rule record_event_cases [OF assms(1) refl assms(2)]) (use assms(2) in \<open>auto simp: call_effect_def\<close>)

lemma begin_effect:
  assumes read: "read_and_verify env f = Inr (evs, sts)"
  shows "call_effect env f evs sts k (begin_operation env c k act tgt at f)"
proof -
  have "call_effect env f evs sts k (record_event env (new_event env evs k 1 act tgt Started None t)
      (initial_state (new_event env evs k 1 act tgt Started None t)) f)"
    if "fullmatch operation_id_pattern k" "fullmatch operation_name_pattern act" "fullmatch target_pattern tgt"
      "map_of sts k = None" for t
    using that validate_event_fields_iff [of "new_event env evs k 1 act tgt Started None t" "()"]
    by (intro call_effect_recorded [OF read]) (simp add: apply_event_def fields_ok_def)
  then show ?thesis
    using read
    by (auto simp: begin_operation_def validate_operation_id_def validate_name_def validate_target_def Let_def
        call_effect_found split: sum.splits option.splits)
qed

lemma retry_effect:
  assumes read: "read_and_verify env f = Inr (evs, sts)"
  shows "call_effect env f evs sts k (retry_operation env c k at f)"
proof -
  have R: "call_effect env f evs sts k (record_event env
      (new_event env evs k (s_attempt cur + 1) (s_action cur) (s_target cur) Started None t)
      (initial_state (new_event env evs k (s_attempt cur + 1) (s_action cur) (s_target cur) Started None t)) f)"
    if "map_of sts k = Some cur" "s_status cur \<noteq> Started" "s_status cur \<noteq> Succeeded"
      "\<not> (case s_finished_at cur of None \<Rightarrow> True | Some t' \<Rightarrow> t < t')" for cur t
  proof -
    have "state_ok k cur" using read_states_ok [OF read] that(1) by (simp add: states_ok_def)
    moreover have "s_status cur = Failed" using that(2,3) by (cases "s_status cur") auto
    ultimately show ?thesis
      using that validate_event_fields_iff [of "new_event env evs k (s_attempt cur + 1) (s_action cur) (s_target cur) Started None t" "()"]
      by (intro call_effect_recorded [OF read])
        (auto simp: apply_event_def fields_ok_def state_ok_def split: option.splits)
  qed
  show ?thesis
    using read R
    by (cases "journal_now c at"; cases "map_of sts k")
      (auto simp: retry_operation_def Let_def call_effect_found validate_operation_id_def)
qed

lemma finish_effect:
  assumes read: "read_and_verify env f = Inr (evs, sts)"
    and ok: "status = Succeeded \<and> err = None \<or> (\<exists>code. status = Failed \<and> err = Some code \<and> fullmatch operation_error_pattern code)"
  shows "call_effect env f evs sts k (finish_operation env c k status err at f)"
proof -
  have R: "call_effect env f evs sts k (record_event env
      (new_event env evs k (s_attempt cur) (s_action cur) (s_target cur) status err t)
      (terminal_state cur (new_event env evs k (s_attempt cur) (s_action cur) (s_target cur) status err t)) f)"
    if "map_of sts k = Some cur" "s_status cur = Started" "\<not> t < s_started_at cur" for cur t
  proof -
    have "state_ok k cur" using read_states_ok [OF read] that(1) by (simp add: states_ok_def)
    then show ?thesis
      using that ok validate_event_fields_iff [of "new_event env evs k (s_attempt cur) (s_action cur) (s_target cur) status err t" "()"]
      by (intro call_effect_recorded [OF read]) (auto simp: apply_event_def fields_ok_def state_ok_def)
  qed
  then show ?thesis
    using read
    by (cases "journal_now c at"; cases "map_of sts k")
      (auto simp: finish_operation_def Let_def call_effect_found validate_operation_id_def)
qed

lemma run_call_effect:
  assumes "read_and_verify env f = Inr (evs, sts)"
  shows "call_effect env f evs sts (call_id call) (run_call env call f)"
  using begin_effect [OF assms] retry_effect [OF assms] finish_effect [OF assms]
  by (cases call) (auto simp: succeed_operation_def fail_operation_def validate_error_code_def)

end
