(* ===== verification/Hash_Chain.thy ===== *)
theory Hash_Chain
  imports Py_Json
begin

text \<open>
  What the signed append-only files of Core have in common: every event carries its position, the
  hash of its predecessor and a message authentication code over its text, and the text of a genuine
  event (one that reading a file can yield) determines position and predecessor. The operation journal and the audit log interpret this locale.
\<close>

locale hash_chain =
  fixes genuine :: "'e \<Rightarrow> bool" and position :: "'e \<Rightarrow> int" and previous :: "'e \<Rightarrow> string" and seal :: "'e \<Rightarrow> string"
    and signed :: "'e \<Rightarrow> string" and mac :: "string \<Rightarrow> string" and genesis :: string
  assumes signed_links: "genuine e \<Longrightarrow> genuine e' \<Longrightarrow> signed e = signed e' \<Longrightarrow> position e = position e' \<and> previous e = previous e'"
begin

definition head_of :: "'e list \<Rightarrow> string" where
  "head_of evs = (if evs = [] then genesis else seal (last evs))"

definition chained :: "'e list \<Rightarrow> bool" where
  "chained evs \<longleftrightarrow>
     (\<forall>i < length evs. position (evs ! i) = int i + 1 \<and> previous (evs ! i) = head_of (take i evs)
        \<and> seal (evs ! i) = mac (signed (evs ! i)))"

lemma head_of_simps [simp]: "head_of [] = genesis" "head_of (evs @ [e]) = seal e"
  by (simp_all add: head_of_def)

lemma chained_Nil [simp]: "chained []"
  by (simp add: chained_def)

lemma chained_snoc:
  "chained (evs @ [e]) \<longleftrightarrow>
     chained evs \<and> position e = int (length evs) + 1 \<and> previous e = head_of evs \<and> seal e = mac (signed e)"
proof -
  have "chained (evs @ [e]) \<longleftrightarrow>
      (\<forall>i < length evs. position ((evs @ [e]) ! i) = int i + 1
        \<and> previous ((evs @ [e]) ! i) = head_of (take i (evs @ [e]))
        \<and> seal ((evs @ [e]) ! i) = mac (signed ((evs @ [e]) ! i)))
      \<and> position e = int (length evs) + 1 \<and> previous e = head_of evs \<and> seal e = mac (signed e)"
    by (simp add: chained_def All_less_Suc conj_ac)
  then show ?thesis by (simp add: chained_def nth_append)
qed

text \<open>
  A common head and no collision among the signed texts make two chains sign the same texts: events
  can be neither changed, nor removed, nor inserted, nor cut off at the end.
\<close>

lemma chain_texts_unique:
  assumes "chained evs" "chained evs'" "evs \<noteq> []" "evs' \<noteq> []" "head_of evs = head_of evs'"
    and "inj_on mac (signed ` set evs \<union> signed ` set evs')" "\<forall>e\<in>set evs \<union> set evs'. genuine e"
  shows "map signed evs = map signed evs'"
  using assms
proof (induction evs arbitrary: evs' rule: rev_induct)
  case (snoc e xs)
  obtain e' ys where evs': "evs' = ys @ [e']" using snoc.prems(4) by (cases evs' rule: rev_cases) auto
  have c: "chained xs" "position e = int (length xs) + 1" "previous e = head_of xs" "seal e = mac (signed e)"
    and c': "chained ys" "position e' = int (length ys) + 1" "previous e' = head_of ys" "seal e' = mac (signed e')"
    using snoc.prems(1,2) by (auto simp: evs' chained_snoc)
  have "mac (signed e) = mac (signed e')" using snoc.prems(5) c(4) c'(4) by (simp add: evs')
  from inj_onD [OF snoc.prems(6) this] have same: "signed e = signed e'" by (simp add: evs')
  have links: "length xs = length ys" "head_of xs = head_of ys"
    using signed_links [OF _ _ same] snoc.prems(7) c(2,3) c'(2,3) by (auto simp: evs')
  have "map signed xs = map signed ys"
  proof (cases "xs = []")
    case False
    have "inj_on mac (signed ` set xs \<union> signed ` set ys)"
      using snoc.prems(6) by (rule inj_on_subset) (auto simp: evs')
    then show ?thesis using False links c(1) c'(1) snoc.prems(7) by (intro snoc.IH) (auto simp: evs')
  qed (use links in simp)
  then show ?case using same evs' by simp
qed simp

lemma chain_seals:
  "chained evs \<Longrightarrow> map seal evs = map mac (map signed evs)"
  by (induction evs rule: rev_induct) (auto simp: chained_snoc)

end

text \<open>A text of times that tells any two of them apart, for the witnesses.\<close>

definition tagged_time :: "datetime \<Rightarrow> string" where
  "tagged_time d = (case d of Naive t \<Rightarrow> int_digits t | Aware t \<Rightarrow> CHR ''Z'' # int_digits t)"

lemma tagged_time_inj: "inj tagged_time"
proof (rule injI)
  fix x y assume a: "tagged_time x = tagged_time y"
  have z: "CHR ''Z'' # u \<noteq> int_digits i" for u i
  proof
    assume "CHR ''Z'' # u = int_digits i"
    then have "hd (int_digits i) = CHR ''Z''" by (metis list.sel(1))
    moreover have "hd (int_digits i) = CHR ''-'' \<or> is_digit (hd (int_digits i))"
      using nat_digits_hd [of "nat i" "[]"] by (simp add: int_digits_def)
    ultimately show False by (simp add: is_digit_def)
  qed
  have i: "i = j" if "int_digits i = int_digits j" for i j
    using int_digits_prefix [of i "[]" j "[]"] that by (simp add: ends_def)
  show "x = y" using a z i by (cases x; cases y) (simp_all add: tagged_time_def, metis)
qed

end
