(* ===== verification/Operation_Journal_Safety.thy ===== *)
theory Operation_Journal_Safety
  imports Operation_Journal Hash_Chain
begin

text \<open>
  Properties of the operation journal: what was appended verifies and replays to the answer the
  caller got, the history of an operation only moves forward, and a trusted head determines the
  whole journal.
\<close>

subsection \<open>Sequences of calls\<close>

fun run_calls :: "journal_env \<Rightarrow> journal_call list \<Rightarrow> journal_file \<Rightarrow> journal_file" where
  "run_calls env [] f = f"
| "run_calls env (c # cs) f = run_calls env cs (snd (run_call env c f))"

definition advances :: "op_state \<Rightarrow> op_state \<Rightarrow> bool" where
  "advances st st' \<longleftrightarrow>
     s_attempt st \<le> s_attempt st' \<and> s_action st' = s_action st \<and> s_target st' = s_target st
     \<and> (s_status st = Succeeded \<longrightarrow> st' = st)
     \<and> (s_attempt st' = s_attempt st \<longrightarrow> s_started_at st' = s_started_at st)"

lemma advances_refl [simp]: "advances st st"
  by (simp add: advances_def)

lemma advances_trans: "advances a b \<Longrightarrow> advances b c \<Longrightarrow> advances a c"
  by (auto simp: advances_def)

lemma apply_event_advances: "apply_event (Some cur) e = Inr st \<Longrightarrow> advances cur st"
  by (auto simp: apply_event_def advances_def initial_state_def terminal_state_def
      split: sum.splits option.splits if_splits)

lemma run_call_read:
  assumes "read_and_verify env f = Inr (evs, sts)"
  obtains evs' sts' where "read_and_verify env (snd (run_call env call f)) = Inr (evs', sts')"
    "\<And>k st. map_of sts k = Some st \<Longrightarrow> \<exists>st'. map_of sts' k = Some st' \<and> advances st st'"
  using run_call_effect [OF assms, of call] unfolding call_effect_def
proof (elim disjE conjE exE)
  assume "snd (run_call env call f) = f"
  then show thesis using that assms by simp
next
  fix e st assume a: "apply_event (map_of sts (call_id call)) e = Inr st"
    "read_and_verify env (snd (run_call env call f)) = Inr (evs @ [e], AList.update (call_id call) st sts)"
  have "\<exists>st'. map_of (AList.update (call_id call) st sts) k = Some st' \<and> advances cur st'"
    if "map_of sts k = Some cur" for k cur
    using that a(1) apply_event_advances by (cases "k = call_id call") (auto simp: map_of_update)
  then show thesis using that a(2) by blast
qed

lemma run_calls_read:
  assumes "read_and_verify env f = Inr (evs, sts)" "map_of sts k = Some st"
  shows "\<exists>evs' sts' st'. read_and_verify env (run_calls env cs f) = Inr (evs', sts')
    \<and> map_of sts' k = Some st' \<and> advances st st'"
  using assms
proof (induction cs arbitrary: f evs sts st)
  case (Cons c cs)
  obtain evs' sts' where r: "read_and_verify env (snd (run_call env c f)) = Inr (evs', sts')"
    "\<And>k st. map_of sts k = Some st \<Longrightarrow> \<exists>st'. map_of sts' k = Some st' \<and> advances st st'"
    using run_call_read [OF Cons.prems(1), of c] by blast
  then obtain st' where st': "map_of sts' k = Some st'" "advances st st'" using Cons.prems(2) by blast
  from Cons.IH [OF r(1) st'(1)] st'(2) show ?case using advances_trans by fastforce
qed auto

subsection \<open>The chain\<close>

lemma event_fields_plain: "json_plain (event_body env e)"
  by (auto simp: event_body_def event_fields_def split: option.splits)

definition signed_text :: "journal_env \<Rightarrow> op_event \<Rightarrow> string" where
  "signed_text env e = json_dumps (event_body env e)"

interpretation journal_chain: hash_chain "\<lambda>_. True" e_sequence e_previous_hash e_event_hash "signed_text env"
  "hmac_hex env (integrity_key env)" GENESIS_HASH for env
proof
  fix e e'
  assume "signed_text env e = signed_text env e'"
  then have "event_body env e = event_body env e'"
    unfolding signed_text_def using json_dumps_inj event_fields_plain by blast
  then show "e_sequence e = e_sequence e' \<and> e_previous_hash e = e_previous_hash e'"
    by (simp add: event_body_def event_fields_def)
qed

abbreviation chain_ok :: "journal_env \<Rightarrow> op_event list \<Rightarrow> bool" where
  "chain_ok env evs \<equiv>
     hash_chain.chained e_sequence e_previous_hash e_event_hash (signed_text env)
       (hmac_hex env (integrity_key env)) GENESIS_HASH evs"

lemma journal_head [simp]: "hash_chain.head_of e_event_hash GENESIS_HASH evs = head_hash evs"
  by (simp add: journal_chain.head_of_def head_hash_def)

lemma journal_seal: "sign env (event_body env e) = hmac_hex env (integrity_key env) (signed_text env e)"
  by (simp add: sign_def signed_text_def)

lemmas chain_ok_snoc = journal_chain.chained_snoc [unfolded journal_head journal_seal [symmetric]]

lemma verify_lines_chain:
  "verify_lines env evs sts ls = Inr (es, sts') \<Longrightarrow> chain_ok env evs \<Longrightarrow> chain_ok env es"
proof (induction ls arbitrary: evs sts)
  case (Cons l ls)
  then obtain e st where l: "verify_line env evs sts l = Inr (e, st)"
    "verify_lines env (evs @ [e]) (AList.update (e_operation_id e) st sts) ls = Inr (es, sts')"
    by (auto split: sum.splits)
  have "chain_ok env (evs @ [e])"
    using Cons.prems(2) verify_line_SomeD [OF l(1)] by (simp add: chain_ok_snoc)
  then show ?case using Cons.IH l(2) by blast
qed simp

lemma read_chain: "read_and_verify env f = Inr (evs, sts) \<Longrightarrow> chain_ok env evs"
  by (auto simp: read_and_verify_def split: option.splits dest: verify_lines_chain)

lemma status_value_inj: "status_value a = status_value b \<Longrightarrow> a = b"
  by (cases a; cases b) auto

lemma event_body_inj:
  assumes "event_body env e = event_body env e'" "inj (isoformat env)" "e_event_hash e = e_event_hash e'"
  shows "e = e'"
  using assms status_value_inj [of "e_status e" "e_status e'"]
  by (auto simp: event_body_def event_fields_def inj_eq split: option.splits intro: op_event.equality)

definition signed_texts :: "journal_env \<Rightarrow> op_event list \<Rightarrow> string set" where
  "signed_texts env evs = signed_text env ` set evs"

lemma chain_unique:
  assumes "chain_ok env evs" "chain_ok env evs'" "evs \<noteq> []" "evs' \<noteq> []"
    and "head_hash evs = head_hash evs'" "inj (isoformat env)"
    and "inj_on (hmac_hex env (integrity_key env)) (signed_texts env evs \<union> signed_texts env evs')"
  shows "evs = evs'"
proof -
  have t: "map (signed_text env) evs = map (signed_text env) evs'"
    using assms by (intro journal_chain.chain_texts_unique) (auto simp: signed_texts_def)
  have s: "map e_event_hash evs = map e_event_hash evs'"
    using journal_chain.chain_seals [OF assms(1)] journal_chain.chain_seals [OF assms(2)] t by simp
  show ?thesis
  proof (rule nth_equalityI)
    show "length evs = length evs'" using t by (metis length_map)
  next
    fix i assume i: "i < length evs"
    have "signed_text env (evs ! i) = signed_text env (evs' ! i)" "e_event_hash (evs ! i) = e_event_hash (evs' ! i)"
      using t s i by (metis length_map nth_map)+
    then show "evs ! i = evs' ! i"
      unfolding signed_text_def using json_dumps_inj event_fields_plain event_body_inj assms(6) by blast
  qed
qed

subsection \<open>The size of a line\<close>

definition text_size :: "journal_env \<Rightarrow> op_event \<Rightarrow> nat" where
  "text_size env e =
     6 * (length (e_action e) + length (e_target e) + length (e_operation_id e) + length (e_previous_hash e)
       + length (e_event_hash e) + length (json_time env (e_occurred_at e))
       + (case e_error_code e of None \<Rightarrow> 0 | Some c \<Rightarrow> length c))
     + length (int_digits (e_attempt e)) + length (int_digits (e_sequence e))"

lemma event_line_length: "length (event_line env e) \<le> 800 + text_size env e"
proof -
  have str: "length (json_item (KStr k, VStr v)) \<le> 6 * length k + 5 + 6 * length v" for k v
    using json_item_length [of k "VStr v"] json_string_length [of v] by simp
  have num: "length (json_item (KStr k, VInt i)) \<le> 6 * length k + 3 + length (int_digits i)" for k i
    using json_item_length [of k "VInt i"] by simp
  have err: "length (json_item (KStr ''error_code'', case e_error_code e of None \<Rightarrow> VNull | Some c \<Rightarrow> VStr c))
      \<le> 67 + 6 * (case e_error_code e of None \<Rightarrow> 0 | Some c \<Rightarrow> length c)"
  proof (cases "e_error_code e")
    case None
    then show ?thesis using json_item_length [of "''error_code''" VNull] by simp
  next
    case (Some c)
    then show ?thesis using str [of "''error_code''" c] by simp
  qed
  have st: "length (json_item (KStr ''status'', VStr (status_value (e_status e)))) \<le> 95"
    using str [of "''status''" "status_value (e_status e)"] by (cases "e_status e") auto
  show ?thesis
    unfolding event_line_def text_size_def event_fields_def
    using str [of "''action''" "e_action e"] num [of "''attempt''" "e_attempt e"] err
      str [of "''event_hash''" "e_event_hash e"] str [of "''occurred_at''" "json_time env (e_occurred_at e)"]
      str [of "''operation_id''" "e_operation_id e"] str [of "''previous_hash''" "e_previous_hash e"]
      num [of "''sequence''" "e_sequence e"] st str [of "''target''" "e_target e"]
      json_dict_length [of "take 3 (event_fields (json_time env) e) @ [(KStr ''event_hash'', VStr (e_event_hash e))]
        @ drop 3 (event_fields (json_time env) e)"]
    by (simp add: event_fields_def del: json_dumps.simps)
qed

text \<open>
  With a hexadecimal HMAC, ordinary timestamps and numbers of at most twenty digits no event
  reaches the size limit.
\<close>

definition ordinary :: "journal_env \<Rightarrow> bool" where
  "ordinary env \<longleftrightarrow> (\<forall>k p. length (hmac_hex env k p) = 64) \<and> (\<forall>t. length (json_time env t) \<le> 40)"

lemma head_hash_length:
  assumes "chain_ok env evs" "ordinary env" shows "length (head_hash evs) = 64"
proof (cases evs rule: rev_cases)
  case Nil
  then show ?thesis by (simp add: head_hash_def GENESIS_HASH_def)
next
  case (snoc xs e)
  then have "e_event_hash e = sign env (event_body env e)" using assms(1) by (simp add: chain_ok_snoc)
  then show ?thesis using snoc assms(2) by (simp add: head_hash_def sign_def ordinary_def)
qed

lemma new_event_fits:
  assumes "chain_ok env evs" "ordinary env" "fields_ok (new_event env evs k a act tgt stat err t)"
    and "length (int_digits a) \<le> 20" "length (int_digits (int (length evs) + 1)) \<le> 20"
  shows "utf8_length (event_line env (new_event env evs k a act tgt stat err t)) \<le> MAX_OPERATION_RECORD_BYTES"
proof -
  let ?e = "new_event env evs k a act tgt stat err t"
  have f: "fullmatch operation_id_pattern k" "fullmatch operation_name_pattern act" "fullmatch target_pattern tgt"
    "\<And>c. err = Some c \<Longrightarrow> fullmatch operation_error_pattern c"
    using assms(3) by (simp_all add: fields_ok_def)
  have "length k \<le> 127 + 1"
    by (rule class_pattern_length [OF f(1) [unfolded operation_id_pattern_def]]) simp
  moreover have "length act \<le> 127 + 1"
    by (rule class_pattern_length [OF f(2) [unfolded operation_name_pattern_def]]) simp
  moreover have "length tgt \<le> 255 + 1"
    by (rule class_pattern_length [OF f(3) [unfolded target_pattern_def]]) simp
  moreover have "(case err of None \<Rightarrow> 0 | Some c \<Rightarrow> length c) \<le> 127 + 1"
  proof (cases err)
    case (Some c)
    have "length c \<le> 127 + 1"
      by (rule class_pattern_length [OF f(4) [OF Some, unfolded operation_error_pattern_def]]) simp
    then show ?thesis using Some by simp
  qed simp
  moreover have "length (e_event_hash ?e) = 64" "length (json_time env (Aware t)) \<le> 40"
    using assms(2) unfolding new_event_sel(10) by (simp_all add: sign_def ordinary_def)
  ultimately have "text_size env ?e \<le> 5000"
    using head_hash_length [OF assms(1,2)] assms(4,5) by (simp add: text_size_def del: new_event_sel(10))
  then show ?thesis
    using event_line_length [of env ?e] utf8_length_le [of "event_line env ?e"]
    by (simp add: MAX_OPERATION_RECORD_BYTES_def)
qed

text \<open>A valid new operation on a verified journal is always recorded.\<close>

lemma begin_fresh:
  assumes r: "read_and_verify env f = Inr (evs, sts)" and o: "ordinary env" and k: "map_of sts k = None"
    and v: "fullmatch operation_id_pattern k" "fullmatch operation_name_pattern act" "fullmatch target_pattern tgt"
    and t: "journal_now c at = Inr t" and d: "length (int_digits (int (length evs) + 1)) \<le> 20"
  defines "e \<equiv> new_event env evs k 1 act tgt Started None t"
  obtains f' where "begin_operation env c k act tgt at f = (Inr (initial_state e), f')"
    "read_and_verify env f' = Inr (evs @ [e], AList.update k (initial_state e) sts)"
proof -
  have fields: "fields_ok e" using v by (simp add: fields_ok_def e_def)
  have "length (int_digits 1) \<le> 20" by (simp add: int_digits_def nat_digits.simps)
  then have fits: "utf8_length (event_line env e) \<le> MAX_OPERATION_RECORD_BYTES"
    using new_event_fits [OF read_chain [OF r] o] fields d unfolding e_def by blast
  have ap: "apply_event (map_of sts k) e = Inr (initial_state e)"
    using fields validate_event_fields_iff [of e "()"] k by (simp add: apply_event_def e_def)
  have b: "begin_operation env c k act tgt at f = record_event env e (initial_state e) f"
    using r k v t by (simp add: begin_operation_def validate_operation_id_def validate_name_def
        validate_target_def e_def Let_def)
  show thesis
  proof (rule record_event_cases [OF r e_def [THEN meta_eq_to_obj_eq] ap])
    fix x assume "record_event env e (initial_state e) f = (Inl x, f)"
    then show thesis using fits by (simp add: record_event_def append_line_def Let_def)
  next
    fix f' assume "record_event env e (initial_state e) f = (Inr (initial_state e), f')"
      "read_and_verify env f' = Inr (evs @ [e], AList.update k (initial_state e) sts)"
    then show thesis using that b by simp
  qed
qed

subsection \<open>A concrete journal for the witnesses\<close>

definition ex_env :: journal_env where
  "ex_env = \<lparr>integrity_key = replicate 32 CHR ''k'', hmac_hex = (\<lambda>k p. replicate 64 CHR ''a''),
     isoformat = tagged_time,
     json_time = (\<lambda>d. ''1970-01-01T00:00:00Z'')\<rparr>"

definition ex_begin :: op_event where
  "ex_begin = new_event ex_env [] ''op-00001'' 1 ''install'' ''pkg/a'' Started None 5"

lemma ex_ordinary: "ordinary ex_env"
  by (simp add: ordinary_def ex_env_def)

lemma ex_names_ok:
  "fullmatch operation_id_pattern ''op-00001''" "fullmatch operation_name_pattern ''install''"
  "fullmatch target_pattern ''pkg/a''"
  by code_simp+

lemma ex_iso_inj: "inj (isoformat ex_env)"
  by (simp add: ex_env_def tagged_time_inj)
lemma ex_begin_run:
  obtains f where "begin_operation ex_env 5 ''op-00001'' ''install'' ''pkg/a'' None None = (Inr (initial_state ex_begin), f)"
    "read_and_verify ex_env f = Inr ([ex_begin], [(''op-00001'', initial_state ex_begin)])"
proof -
  have "read_and_verify ex_env None = Inr ([], [])" by (simp add: read_and_verify_def)
  from begin_fresh [OF this ex_ordinary _ ex_names_ok, of 5 None 5] show thesis
    using that by (auto simp: journal_now_def utc_or_now_def ex_begin_def int_digits_def nat_digits.simps)
qed

subsection \<open>Properties\<close>

text \<open>A call on a journal that verifies leaves a journal that verifies, keeps every earlier event
  and appends at most one; an error leaves the file as it was; and a returned state is exactly
  the state of that operation when the journal is read back, no other operation having changed.
\<close>

theorem journal_call_replays:
  assumes "read_and_verify env f = Inr (evs, sts)"
  shows "\<exists>new sts'. read_and_verify env (snd (run_call env call f)) = Inr (evs @ new, sts')
    \<and> length new \<le> 1
    \<and> (\<forall>k. k \<noteq> call_id call \<longrightarrow> map_of sts' k = map_of sts k)
    \<and> (case fst (run_call env call f) of
         Inl e \<Rightarrow> snd (run_call env call f) = f
       | Inr st \<Rightarrow> map_of sts' (call_id call) = Some st)"
  using run_call_effect [OF assms, of call] unfolding call_effect_def
proof (elim disjE conjE exE)
  assume a: "snd (run_call env call f) = f"
    "\<forall>st. fst (run_call env call f) = Inr st \<longrightarrow> map_of sts (call_id call) = Some st"
  then show ?thesis
    using assms by (intro exI [of _ "[]"] exI [of _ sts]) (auto split: sum.splits)
next
  fix e st assume a: "fst (run_call env call f) = Inr st"
    "read_and_verify env (snd (run_call env call f)) = Inr (evs @ [e], AList.update (call_id call) st sts)"
  then show ?thesis
    by (intro exI [of _ "[e]"] exI [of _ "AList.update (call_id call) st sts"]) (auto simp: map_of_update)
qed

theorem journal_call_replays_witness:
  "\<exists>evs sts. read_and_verify ex_env (snd (run_call ex_env (Begin 5 ''op-00001'' ''install'' ''pkg/a'' None) None)) = Inr (evs, sts)"
  using journal_call_replays [of ex_env None "[]" "[]" "Begin 5 ''op-00001'' ''install'' ''pkg/a'' None"]
  by (auto simp: read_and_verify_def)

text \<open>
  C31: whatever calls follow, an operation never disappears from the journal, keeps its action and
  target, never goes back to an earlier attempt, never restarts an attempt, and once it has
  succeeded its state is final.
\<close>

theorem operation_history_monotone:
  assumes "read_and_verify env f = Inr (evs, sts)" "map_of sts k = Some st"
  shows "\<exists>evs' sts' st'. read_and_verify env (run_calls env calls f) = Inr (evs', sts') \<and> map_of sts' k = Some st'
    \<and> s_action st' = s_action st \<and> s_target st' = s_target st \<and> s_attempt st \<le> s_attempt st'
    \<and> (s_attempt st' = s_attempt st \<longrightarrow> s_started_at st' = s_started_at st)
    \<and> (s_status st = Succeeded \<longrightarrow> st' = st)"
  using run_calls_read [OF assms, of calls] by (auto simp: advances_def)

theorem operation_history_monotone_witness:
  "\<exists>f evs' sts' st'. read_and_verify ex_env (run_calls ex_env [Succeed 9 ''op-00001'' None, Retry 10 ''op-00001'' None] f)
      = Inr (evs', sts') \<and> map_of sts' ''op-00001'' = Some st' \<and> s_action st' = ''install''"
proof -
  obtain f where "read_and_verify ex_env f = Inr ([ex_begin], [(''op-00001'', initial_state ex_begin)])"
    using ex_begin_run by blast
  from operation_history_monotone [OF this, of "''op-00001''" "initial_state ex_begin"]
  show ?thesis by (fastforce simp: initial_state_def ex_begin_def)
qed

text \<open>Beginning the same logical operation again, at any later time, returns the recorded state
  and writes nothing.
\<close>

theorem begin_is_idempotent:
  assumes "begin_operation env c k act tgt at f = (Inr st, f')" "journal_now c' at' = Inr t'"
  shows "begin_operation env c' k act tgt at' f' = (Inr st, f')"
proof -
  have v: "validate_operation_id k = Inr k" "validate_name act = Inr act" "validate_target tgt = Inr tgt"
    using assms(1) by (auto simp: begin_operation_def validate_operation_id_def validate_name_def
        validate_target_def split: if_splits)
  obtain evs sts where r: "read_and_verify env f = Inr (evs, sts)"
    using assms(1) v by (auto simp: begin_operation_def split: sum.splits)
  have "call_effect env f evs sts k (Inr st, f')" using begin_effect [OF r] assms(1) by metis
  then obtain evs' sts' where r': "read_and_verify env f' = Inr (evs', sts')" "map_of sts' k = Some st"
    using r by (auto simp: call_effect_def map_of_update)
  have "s_action st = act \<and> s_target st = tgt"
    using assms(1) v r
    by (auto simp: begin_operation_def record_event_def initial_state_def Let_def split: sum.splits option.splits if_splits prod.splits)
  then show ?thesis using v r' assms(2) by (simp add: begin_operation_def)
qed

theorem begin_is_idempotent_witness:
  "\<exists>f. begin_operation ex_env 8 ''op-00001'' ''install'' ''pkg/a'' None f = (Inr (initial_state ex_begin), f)"
proof -
  obtain f where "begin_operation ex_env 5 ''op-00001'' ''install'' ''pkg/a'' None None = (Inr (initial_state ex_begin), f)"
    using ex_begin_run by blast
  from begin_is_idempotent [OF this, of 8 None 8] show ?thesis
    by (auto simp: journal_now_def utc_or_now_def)
qed

text \<open>A new operation with valid fields is always accepted by a journal that verifies: no event
  the journal can build from valid fields reaches the line limit, for a 64-character HMAC, a
  timestamp text of at most 40 characters and sequence numbers of at most 20 digits.
\<close>

theorem begin_records_new_operation:
  assumes "read_and_verify env f = Inr (evs, sts)" "ordinary env" "map_of sts k = None"
    and "validate_operation_id k = Inr k" "validate_name act = Inr act" "validate_target tgt = Inr tgt"
    and "journal_now c at = Inr t" "length (int_digits (int (length evs) + 1)) \<le> 20"
  shows "\<exists>st f' evs' sts'. begin_operation env c k act tgt at f = (Inr st, f')
    \<and> read_and_verify env f' = Inr (evs', sts') \<and> map_of sts' k = Some st
    \<and> s_status st = Started \<and> s_attempt st = 1 \<and> s_started_at st = t"
proof -
  have v: "fullmatch operation_id_pattern k" "fullmatch operation_name_pattern act" "fullmatch target_pattern tgt"
    using assms(4-6) by (auto simp: validate_operation_id_def validate_name_def validate_target_def split: if_splits)
  show ?thesis
    by (rule begin_fresh [OF assms(1-3) v assms(7,8)]) (auto simp: map_of_update initial_state_def)
qed

theorem begin_records_new_operation_witness:
  "\<exists>st f'. begin_operation ex_env 5 ''op-00001'' ''install'' ''pkg/a'' None None = (Inr st, f') \<and> s_status st = Started"
  using begin_records_new_operation [of ex_env None "[]" "[]" "''op-00001''" "''install''" "''pkg/a''" 5 None 5]
    ex_ordinary ex_names_ok
  by (auto simp: read_and_verify_def validate_operation_id_def validate_name_def validate_target_def
      journal_now_def utc_or_now_def int_digits_def nat_digits.simps)

text \<open>
  C30: a trusted head hash pins the whole journal: two journals that verify under the same key
  against the same checkpoint (other than the empty journal's) hold the same events, unless
  the HMAC collides on the signed texts of the two journals.
\<close>

theorem checkpoint_determines_journal:
  assumes "verify_journal env (Some h) f = Inr v" "verify_journal env (Some h) f' = Inr v'" "h \<noteq> GENESIS_HASH"
    and "journal_events env f = Inr evs" "journal_events env f' = Inr evs'"
    and "inj (isoformat env)"
    and "inj_on (hmac_hex env (integrity_key env)) (signed_texts env evs \<union> signed_texts env evs')"
  shows "evs = evs'"
proof -
  obtain sts sts' where r: "read_and_verify env f = Inr (evs, sts)" "read_and_verify env f' = Inr (evs', sts')"
    using assms(4,5) by (auto simp: journal_events_def split: sum.splits)
  then have "head_hash evs = h" "head_hash evs' = h"
    using assms(1,2) by (auto simp: verify_journal_def split: if_splits)
  then show ?thesis
    using chain_unique [OF read_chain [OF r(1)] read_chain [OF r(2)]] assms(3,6,7)
    by (auto simp: head_hash_def split: if_splits)
qed

theorem checkpoint_determines_journal_witness:
  "\<exists>f v. verify_journal ex_env (Some (replicate 64 CHR ''a'')) f = Inr v
    \<and> (\<forall>f' v' evs'. verify_journal ex_env (Some (replicate 64 CHR ''a'')) f' = Inr v'
         \<longrightarrow> journal_events ex_env f' = Inr evs' \<longrightarrow> signed_texts ex_env evs' \<subseteq> signed_texts ex_env [ex_begin]
         \<longrightarrow> evs' = [ex_begin])"
proof -
  obtain f where r: "read_and_verify ex_env f = Inr ([ex_begin], [(''op-00001'', initial_state ex_begin)])"
    using ex_begin_run by blast
  have h: "head_hash [ex_begin] = replicate 64 CHR ''a''"
    by (simp add: head_hash_def ex_begin_def sign_def) (simp add: ex_env_def)
  have g: "replicate 64 CHR ''a'' \<noteq> GENESIS_HASH" by (simp add: GENESIS_HASH_def)
  obtain v where v: "verify_journal ex_env (Some (replicate 64 CHR ''a'')) f = Inr v"
    using r h by (simp add: verify_journal_def)
  have e: "journal_events ex_env f = Inr [ex_begin]" using r by (simp add: journal_events_def)
  have "evs' = [ex_begin]" if "verify_journal ex_env (Some (replicate 64 CHR ''a'')) f' = Inr v'"
    "journal_events ex_env f' = Inr evs'" "signed_texts ex_env evs' \<subseteq> signed_texts ex_env [ex_begin]" for f' v' evs'
  proof (rule checkpoint_determines_journal [OF that(1) v g that(2) e ex_iso_inj])
    have "signed_texts ex_env evs' \<union> signed_texts ex_env [ex_begin] \<subseteq> {signed_text ex_env ex_begin}"
      using that(3) by (auto simp: signed_texts_def)
    then show "inj_on (hmac_hex ex_env (integrity_key ex_env)) (signed_texts ex_env evs' \<union> signed_texts ex_env [ex_begin])"
      by (rule inj_on_subset [rotated]) simp
  qed
  then show ?thesis using v by blast
qed

end
