(* ===== verification/Identity.thy ===== *)
theory Identity
  imports Py_Regex
begin

text \<open>
  \<open>IdentityStore\<close> of \<open>identity.py\<close>: roles, users, permissions and the rule that an active super
  administrator always exists. Password hashing (scrypt) is the parameter \<open>password_hasher\<close>;
  writing calls hold the file lock and are one step from the stored file to the next.
\<close>

subsection \<open>Data\<close>

datatype identity_error =
    IdentityValueError string
  | IdentityError string
  | AuthenticationError string
  | AuthorizationError string
  | IdentityInvariantError string
  | SessionError string

definition SUPER_ADMIN_ROLE :: string where "SUPER_ADMIN_ROLE = ''super_admin''"
definition SUPER_ADMIN_PERMISSION :: string where "SUPER_ADMIN_PERMISSION = ''*''"

record role_record =
  ro_id :: string
  ro_permissions :: "string set"
  ro_protected :: bool

record user_record =
  u_id :: string
  u_email :: string
  u_password_hash :: string
  u_roles :: "string set"
  u_active :: bool
  u_created_at :: int

record password_hasher =
  pw_hash :: "string \<Rightarrow> string \<Rightarrow> identity_error + string"
  pw_verify :: "string \<Rightarrow> string \<Rightarrow> bool"

type_synonym roles = "(string, role_record) dict"
type_synonym users = "(string, user_record) dict"

text \<open>The stored file, absent or with its two members.\<close>

type_synonym identity_file = "(roles \<times> users) option"

subsection \<open>Validators\<close>

definition role_pattern :: rx where
  "role_pattern =
     Seq (Cls [lower] 1 (Some 1))
       (Cls [lower, digit, single CHR ''_'', single CHR ''.'', single CHR ''-''] 1 (Some 63))"

definition permission_pattern :: rx where
  "permission_pattern =
     Seq (Cls [lower] 1 (Some 1))
       (Seq (Cls [lower, digit, single CHR ''_'', single CHR ''.'', single CHR '':'', single CHR ''-''] 1 (Some 127))
         (Opt (Seq (Cls [single CHR ''.''] 1 (Some 1)) (Cls [single CHR ''*''] 1 (Some 1)))))"

definition validate_role_id :: "string \<Rightarrow> identity_error + string" where
  "validate_role_id v =
     (if fullmatch role_pattern v then Inr v else Inl (IdentityValueError ''invalid role id''))"

definition validate_permission :: "string \<Rightarrow> identity_error + string" where
  "validate_permission v =
     (if v = SUPER_ADMIN_PERMISSION then Inr v
      else if fullmatch permission_pattern v then Inr v
      else Inl (IdentityValueError ''invalid permission''))"

definition normalize_email :: "string \<Rightarrow> identity_error + string" where
  "normalize_email email =
     (let normalized = casefold (py_strip email) in
      if 254 < length normalized \<or> count_list normalized CHR ''@'' \<noteq> 1
      then Inl (IdentityValueError ''invalid email address'')
      else case split_on CHR ''@'' normalized of
        [local, domain] \<Rightarrow>
          if local = [] \<or> domain = [] \<or> CHR ''.'' \<notin> set domain
          then Inl (IdentityValueError ''invalid email address'') else Inr normalized
      | _ \<Rightarrow> Inl (IdentityValueError ''invalid email address''))"

definition identity_now :: "int \<Rightarrow> datetime option \<Rightarrow> identity_error + int" where
  "identity_now clock now = utc_or_now (IdentityValueError ''datetime must be timezone-aware'') clock now"

fun validate_each :: "(string \<Rightarrow> identity_error + string) \<Rightarrow> string list \<Rightarrow> identity_error + string set" where
  "validate_each f [] = Inr {}"
| "validate_each f (x # xs) =
     (case f x of Inl e \<Rightarrow> Inl e
      | Inr y \<Rightarrow> (case validate_each f xs of Inl e \<Rightarrow> Inl e | Inr s \<Rightarrow> Inr (insert y s)))"

subsection \<open>The store\<close>

definition super_role :: role_record where
  "super_role = \<lparr>ro_id = SUPER_ADMIN_ROLE, ro_permissions = {SUPER_ADMIN_PERMISSION}, ro_protected = True\<rparr>"

definition active_super_admins :: "users \<Rightarrow> user_record list" where
  "active_super_admins users = filter (\<lambda>u. u_active u \<and> SUPER_ADMIN_ROLE \<in> u_roles u) (dict_values users)"

definition require_active_super_admin :: "users \<Rightarrow> identity_error option" where
  "require_active_super_admin users =
     (if active_super_admins users = []
      then Some (IdentityInvariantError ''at least one active super administrator is required'') else None)"

definition setdefault :: "string \<Rightarrow> 'v \<Rightarrow> (string, 'v) dict \<Rightarrow> (string, 'v) dict" where
  "setdefault k v d = (case map_of d k of None \<Rightarrow> AList.update k v d | Some _ \<Rightarrow> d)"

definition identity_read :: "identity_file \<Rightarrow> identity_error + (roles \<times> users)" where
  "identity_read file =
     (let (stored_roles, users) = (case file of None \<Rightarrow> ([], []) | Some c \<Rightarrow> c);
          roles = setdefault SUPER_ADMIN_ROLE super_role stored_roles
      in case map_of roles SUPER_ADMIN_ROLE of
           None \<Rightarrow> Inl (IdentityError ''unreachable'')
         | Some r \<Rightarrow>
             if \<not> ro_protected r \<or> ro_permissions r \<noteq> {SUPER_ADMIN_PERMISSION}
             then Inl (IdentityInvariantError ''the persisted super-admin role is invalid'')
             else if users \<noteq> [] \<and> require_active_super_admin users \<noteq> None
             then Inl (IdentityInvariantError ''at least one active super administrator is required'')
             else Inr (roles, users))"

definition identity_write :: "roles \<Rightarrow> users \<Rightarrow> identity_file \<Rightarrow> (identity_error + unit) \<times> identity_file" where
  "identity_write roles users file =
     (if users \<noteq> [] \<and> require_active_super_admin users \<noteq> None
      then (Inl (IdentityInvariantError ''at least one active super administrator is required''), file)
      else (Inr (), Some (dict_sorted roles, dict_sorted users)))"

text \<open>\<open>self._write(...)\<close> followed by \<open>return value\<close>\<close>

definition stored :: "roles \<Rightarrow> users \<Rightarrow> 'r \<Rightarrow> identity_file \<Rightarrow> (identity_error + 'r) \<times> identity_file" where
  "stored roles users result file =
     (case identity_write roles users file of (Inl e, f) \<Rightarrow> (Inl e, f) | (Inr _, f) \<Rightarrow> (Inr result, f))"

definition require_user :: "users \<Rightarrow> string \<Rightarrow> identity_error + user_record" where
  "require_user users user_id =
     (case map_of users user_id of None \<Rightarrow> Inl (IdentityError ''unknown user'') | Some u \<Rightarrow> Inr u)"

definition new_user ::
  "password_hasher \<Rightarrow> int \<Rightarrow> string \<Rightarrow> string \<Rightarrow> string \<Rightarrow> string \<Rightarrow> string set \<Rightarrow> datetime option
    \<Rightarrow> identity_error + user_record" where
  "new_user hasher clock uuid salt email password roles now =
     (case normalize_email email of Inl e \<Rightarrow> Inl e | Inr normalized \<Rightarrow>
      case pw_hash hasher password salt of Inl e \<Rightarrow> Inl e | Inr hashed \<Rightarrow>
      case identity_now clock now of Inl e \<Rightarrow> Inl e | Inr created \<Rightarrow>
      Inr \<lparr>u_id = uuid, u_email = normalized, u_password_hash = hashed, u_roles = roles, u_active = True,
           u_created_at = created\<rparr>)"

subsection \<open>Operations\<close>

definition define_role ::
  "string \<Rightarrow> string list \<Rightarrow> identity_file \<Rightarrow> (identity_error + role_record) \<times> identity_file" where
  "define_role role_id permissions file =
     (case validate_role_id role_id of Inl e \<Rightarrow> (Inl e, file) | Inr _ \<Rightarrow>
      if role_id = SUPER_ADMIN_ROLE
      then (Inl (IdentityInvariantError ''the super-admin role is protected''), file)
      else case validate_each validate_permission permissions of Inl e \<Rightarrow> (Inl e, file) | Inr normalized \<Rightarrow>
      if normalized = {} then (Inl (IdentityValueError ''a role must contain at least one permission''), file)
      else case identity_read file of Inl e \<Rightarrow> (Inl e, file) | Inr (roles, users) \<Rightarrow>
      let role = \<lparr>ro_id = role_id, ro_permissions = normalized, ro_protected = False\<rparr>
      in stored (AList.update role_id role roles) users role file)"

definition create_first_super_admin ::
  "password_hasher \<Rightarrow> int \<Rightarrow> string \<Rightarrow> string \<Rightarrow> string \<Rightarrow> string \<Rightarrow> datetime option \<Rightarrow> identity_file
    \<Rightarrow> (identity_error + user_record) \<times> identity_file" where
  "create_first_super_admin hasher clock uuid salt email password now file =
     (case identity_read file of Inl e \<Rightarrow> (Inl e, file) | Inr (roles, users) \<Rightarrow>
      if users \<noteq> []
      then (Inl (IdentityInvariantError ''the first super administrator already exists''), file)
      else case new_user hasher clock uuid salt email password {SUPER_ADMIN_ROLE} now of
        Inl e \<Rightarrow> (Inl e, file)
      | Inr user \<Rightarrow> stored roles (AList.update (u_id user) user users) user file)"

definition create_user ::
  "password_hasher \<Rightarrow> int \<Rightarrow> string \<Rightarrow> string \<Rightarrow> string \<Rightarrow> string \<Rightarrow> string list \<Rightarrow> datetime option \<Rightarrow> identity_file
    \<Rightarrow> (identity_error + user_record) \<times> identity_file" where
  "create_user hasher clock uuid salt email password role_ids now file =
     (case validate_each validate_role_id role_ids of Inl e \<Rightarrow> (Inl e, file) | Inr normalized_roles \<Rightarrow>
      case normalize_email email of Inl e \<Rightarrow> (Inl e, file) | Inr normalized_email \<Rightarrow>
      case identity_read file of Inl e \<Rightarrow> (Inl e, file) | Inr (known_roles, users) \<Rightarrow>
      if active_super_admins users = []
      then (Inl (IdentityInvariantError ''create the first super administrator before other users''), file)
      else if \<not> normalized_roles \<subseteq> fst ` set known_roles
      then (Inl (IdentityValueError ''unknown roles''), file)
      else if list_ex (\<lambda>u. u_email u = normalized_email) (dict_values users)
      then (Inl (IdentityInvariantError ''an identity with this email already exists''), file)
      else case new_user hasher clock uuid salt normalized_email password normalized_roles now of
        Inl e \<Rightarrow> (Inl e, file)
      | Inr user \<Rightarrow> stored known_roles (AList.update (u_id user) user users) user file)"

text \<open>The common end of \<open>set_roles\<close> and \<open>set_active\<close>.\<close>

definition replace_user ::
  "roles \<Rightarrow> users \<Rightarrow> string \<Rightarrow> user_record \<Rightarrow> identity_file \<Rightarrow> (identity_error + user_record) \<times> identity_file" where
  "replace_user roles users user_id updated file =
     (let users' = AList.update user_id updated users in
      case require_active_super_admin users' of
        Some e \<Rightarrow> (Inl e, file) | None \<Rightarrow> stored roles users' updated file)"

definition set_roles ::
  "string \<Rightarrow> string list \<Rightarrow> identity_file \<Rightarrow> (identity_error + user_record) \<times> identity_file" where
  "set_roles user_id role_ids file =
     (case validate_each validate_role_id role_ids of Inl e \<Rightarrow> (Inl e, file) | Inr normalized \<Rightarrow>
      case identity_read file of Inl e \<Rightarrow> (Inl e, file) | Inr (known_roles, users) \<Rightarrow>
      case require_user users user_id of Inl e \<Rightarrow> (Inl e, file) | Inr user \<Rightarrow>
      if \<not> normalized \<subseteq> fst ` set known_roles
      then (Inl (IdentityValueError ''unknown roles''), file)
      else replace_user known_roles users user_id (user\<lparr>u_roles := normalized\<rparr>) file)"

definition set_active ::
  "string \<Rightarrow> bool \<Rightarrow> identity_file \<Rightarrow> (identity_error + user_record) \<times> identity_file" where
  "set_active user_id active file =
     (case identity_read file of Inl e \<Rightarrow> (Inl e, file) | Inr (roles, users) \<Rightarrow>
      case require_user users user_id of Inl e \<Rightarrow> (Inl e, file) | Inr user \<Rightarrow>
      replace_user roles users user_id (user\<lparr>u_active := active\<rparr>) file)"

definition get_user :: "string \<Rightarrow> identity_file \<Rightarrow> identity_error + user_record option" where
  "get_user user_id file =
     (case identity_read file of Inl e \<Rightarrow> Inl e | Inr (roles, users) \<Rightarrow> Inr (map_of users user_id))"

definition authenticate ::
  "password_hasher \<Rightarrow> string \<Rightarrow> string \<Rightarrow> string \<Rightarrow> identity_file \<Rightarrow> identity_error + user_record" where
  "authenticate hasher dummy_hash email password file =
     (case normalize_email email of Inl e \<Rightarrow> Inl e | Inr normalized_email \<Rightarrow>
      case identity_read file of Inl e \<Rightarrow> Inl e | Inr (roles, users) \<Rightarrow>
      let user = find (\<lambda>u. u_email u = normalized_email) (dict_values users);
          candidate_hash = (case user of None \<Rightarrow> dummy_hash
                            | Some u \<Rightarrow> if u_active u then u_password_hash u else dummy_hash);
          verified = pw_verify hasher password candidate_hash
      in case user of
           None \<Rightarrow> Inl (AuthenticationError ''invalid credentials'')
         | Some u \<Rightarrow>
             if \<not> u_active u \<or> \<not> verified then Inl (AuthenticationError ''invalid credentials'') else Inr u)"

text \<open>The permissions of the roles of a user; a role that does not exist is an error.\<close>

definition permissions_for :: "string \<Rightarrow> identity_file \<Rightarrow> identity_error + string set" where
  "permissions_for user_id file =
     (case identity_read file of Inl e \<Rightarrow> Inl e | Inr (roles, users) \<Rightarrow>
      case require_user users user_id of Inl e \<Rightarrow> Inl e | Inr user \<Rightarrow>
      if \<not> u_active user then Inr {}
      else if \<not> u_roles user \<subseteq> fst ` set roles
      then Inl (IdentityInvariantError ''user references unknown role'')
      else Inr (\<Union>r \<in> u_roles user. ro_permissions (the (map_of roles r))))"

definition has_permission :: "string \<Rightarrow> string \<Rightarrow> identity_file \<Rightarrow> identity_error + bool" where
  "has_permission user_id permission file =
     (case validate_permission permission of Inl e \<Rightarrow> Inl e | Inr _ \<Rightarrow>
      case permissions_for user_id file of Inl e \<Rightarrow> Inl e | Inr granted \<Rightarrow>
      if SUPER_ADMIN_PERMISSION \<in> granted \<or> permission \<in> granted then Inr True
      else (let parts = split_on CHR ''.'' permission in
            Inr (list_ex (\<lambda>index. join ''.'' (take index parts) @ ''.*'' \<in> granted) [1..<length parts])))"

definition require_permission :: "string \<Rightarrow> string \<Rightarrow> identity_file \<Rightarrow> identity_error + unit" where
  "require_permission user_id permission file =
     (case has_permission user_id permission file of
        Inl e \<Rightarrow> Inl e
      | Inr b \<Rightarrow> if b then Inr () else Inl (AuthorizationError ''permission denied''))"

subsection \<open>The store invariant\<close>

definition is_admin :: "user_record \<Rightarrow> bool" where
  "is_admin u \<longleftrightarrow> u_active u \<and> SUPER_ADMIN_ROLE \<in> u_roles u"

definition has_admin :: "(string \<rightharpoonup> user_record) \<Rightarrow> bool" where
  "has_admin m \<longleftrightarrow> (\<exists>k u. m k = Some u \<and> is_admin u)"

definition users_ok :: "(string \<rightharpoonup> role_record) \<Rightarrow> (string \<rightharpoonup> user_record) \<Rightarrow> bool" where
  "users_ok rm um \<longleftrightarrow>
     (\<forall>k u. um k = Some u \<longrightarrow> u_id u = k \<and> u_roles u \<subseteq> dom rm)
     \<and> (\<forall>k k' u u'. um k = Some u \<longrightarrow> um k' = Some u' \<longrightarrow> u_email u = u_email u' \<longrightarrow> k = k')"

definition super_ok :: "(string \<rightharpoonup> role_record) \<Rightarrow> bool" where
  "super_ok rm \<longleftrightarrow>
     (\<exists>r. rm SUPER_ADMIN_ROLE = Some r \<and> ro_protected r \<and> ro_permissions r = {SUPER_ADMIN_PERMISSION})"

definition valid_identity :: "roles \<Rightarrow> users \<Rightarrow> bool" where
  "valid_identity roles users \<longleftrightarrow>
     dict_ok roles \<and> dict_ok users \<and> super_ok (map_of roles) \<and> (users \<noteq> [] \<longrightarrow> has_admin (map_of users))
     \<and> users_ok (map_of roles) (map_of users)"

definition store_ok :: "identity_file \<Rightarrow> bool" where
  "store_ok file \<longleftrightarrow> (\<exists>roles users. identity_read file = Inr (roles, users) \<and> valid_identity roles users)"

lemma active_super_admins_iff: "dict_ok users \<Longrightarrow> active_super_admins users = [] \<longleftrightarrow> \<not> has_admin (map_of users)"
  by (auto simp: active_super_admins_def has_admin_def is_admin_def filter_empty_conv dict_values_lookup)

lemma require_admin_iff: "dict_ok users \<Longrightarrow> require_active_super_admin users = None \<longleftrightarrow> has_admin (map_of users)"
  by (simp add: require_active_super_admin_def active_super_admins_iff)

lemma dict_sorted_Nil_iff [simp]: "dict_sorted d = [] \<longleftrightarrow> d = []"
  by (simp add: dict_sorted_def)

lemma valid_identity_sorted: "valid_identity roles users \<Longrightarrow> valid_identity (dict_sorted roles) (dict_sorted users)"
  by (simp add: valid_identity_def map_of_dict_sorted)

lemma identity_read_valid: "valid_identity roles users \<Longrightarrow> identity_read (Some (roles, users)) = Inr (roles, users)"
proof -
  assume v: "valid_identity roles users"
  then obtain r where r: "map_of roles SUPER_ADMIN_ROLE = Some r" "ro_protected r"
    "ro_permissions r = {SUPER_ADMIN_PERMISSION}"
    by (auto simp: valid_identity_def super_ok_def)
  have "setdefault SUPER_ADMIN_ROLE super_role roles = roles" using r(1) by (simp add: setdefault_def)
  moreover have "users = [] \<or> require_active_super_admin users = None"
    using v by (auto simp: valid_identity_def require_admin_iff)
  ultimately show ?thesis using r by (auto simp: identity_read_def)
qed

text \<open>Writing a valid content succeeds and reads back in key order.\<close>

lemma stored_valid:
  assumes "valid_identity roles users"
  shows "stored roles users x file = (Inr x, Some (dict_sorted roles, dict_sorted users))"
    and "identity_read (Some (dict_sorted roles, dict_sorted users)) = Inr (dict_sorted roles, dict_sorted users)"
    and "store_ok (Some (dict_sorted roles, dict_sorted users))"
proof -
  show "stored roles users x file = (Inr x, Some (dict_sorted roles, dict_sorted users))"
    using assms by (auto simp: stored_def identity_write_def valid_identity_def require_admin_iff)
  show r: "identity_read (Some (dict_sorted roles, dict_sorted users)) = Inr (dict_sorted roles, dict_sorted users)"
    by (rule identity_read_valid [OF valid_identity_sorted [OF assms]])
  then show "store_ok (Some (dict_sorted roles, dict_sorted users))"
    using valid_identity_sorted [OF assms] by (auto simp: store_ok_def)
qed

lemma stored_store_ok:
  assumes "store_ok file" "valid_identity roles users"
  shows "store_ok (snd (stored roles users x file))"
  by (simp add: stored_valid [OF assms(2)])

lemma store_ok_empty: "store_ok None"
  by (auto simp: store_ok_def identity_read_def setdefault_def super_role_def valid_identity_def super_ok_def
      users_ok_def dict_ok_def)

lemma validate_each_set: "validate_each f xs = Inr s \<Longrightarrow> (\<And>x y. f x = Inr y \<Longrightarrow> y = x) \<Longrightarrow> s = set xs"
  by (induction xs arbitrary: s) (auto split: sum.splits)

text \<open>Normalising an address twice gives the address of the first time.\<close>

lemma fold_char_idem: "concat (map fold_char (fold_char c)) = fold_char c"
proof -
  have "(of_char c :: nat) < 256" by simp
  then show ?thesis by (auto simp: fold_char_def Let_def of_char_of)
qed

lemma casefold_idem: "casefold (casefold s) = casefold s"
  by (induction s) (simp_all add: casefold_def fold_char_idem)

lemma fold_char_space: "\<not> py_space c \<Longrightarrow> d \<in> set (fold_char c) \<Longrightarrow> \<not> py_space d"
proof -
  have "(of_char c :: nat) < 256" by simp
  then show "\<not> py_space c \<Longrightarrow> d \<in> set (fold_char c) \<Longrightarrow> \<not> py_space d"
    by (auto simp: fold_char_def Let_def of_char_of py_space_def split: if_splits)
qed

lemma fold_char_nonempty: "fold_char c \<noteq> []"
  by (simp add: fold_char_def Let_def)

lemma py_strip_id:
  assumes "s = [] \<or> (\<not> py_space (hd s) \<and> \<not> py_space (last s))" shows "py_strip s = s"
proof -
  have "dropWhile py_space s = s" using assms by (cases s) auto
  moreover have "dropWhile py_space (rev s) = rev s"
    using assms by (auto simp: dropWhile_eq_self_iff hd_rev)
  ultimately show ?thesis by (simp add: py_strip_def)
qed

lemma py_strip_ends: "py_strip s = [] \<or> (\<not> py_space (hd (py_strip s)) \<and> \<not> py_space (last (py_strip s)))"
proof (cases "py_strip s = []")
  case False
  define d where "d = dropWhile py_space s"
  define t where "t = dropWhile py_space (rev d)"
  have p: "py_strip s = rev t" by (simp add: py_strip_def t_def d_def)
  with False have t: "t \<noteq> []" by simp
  have "rev d = takeWhile py_space (rev d) @ t" by (simp add: t_def)
  then have "d = rev t @ rev (takeWhile py_space (rev d))" by (metis rev_append rev_rev_ident)
  then have hd: "hd d = hd (rev t)" "d \<noteq> []" using t by (metis hd_append2 rev_is_Nil_conv, auto)
  have "\<not> py_space (hd d)" using hd(2) unfolding d_def by (rule hd_dropWhile)
  moreover have "\<not> py_space (hd t)" using t unfolding t_def by (rule hd_dropWhile)
  ultimately show ?thesis unfolding p using hd t by (simp add: last_rev)
qed simp

lemma casefold_ends:
  assumes "s = [] \<or> (\<not> py_space (hd s) \<and> \<not> py_space (last s))"
  shows "py_strip (casefold s) = casefold s"
proof (cases "s = []")
  case False
  have hd: "hd (casefold s) \<in> set (fold_char (hd s))"
    using False fold_char_nonempty [of "hd s"] by (cases s) (auto simp: casefold_def)
  obtain r c where s: "s = r @ [c]" using False by (cases s rule: rev_cases) auto
  have "last (casefold s) \<in> set (fold_char (last s))"
    using fold_char_nonempty [of c] by (simp add: casefold_def s)
  then show ?thesis using assms False hd fold_char_space by (intro py_strip_id) blast
qed (simp add: casefold_def py_strip_def)

lemma normalize_email_idem: "normalize_email e = Inr n \<Longrightarrow> normalize_email n = Inr n"
proof -
  assume a: "normalize_email e = Inr n"
  then have n: "n = casefold (py_strip e)"
    by (auto simp: normalize_email_def Let_def split: if_splits list.splits)
  then have "casefold (py_strip n) = n"
    using casefold_ends [OF py_strip_ends, of e] by (simp add: casefold_idem)
  then show ?thesis using a n by (simp add: normalize_email_def Let_def)
qed

lemma new_user_sel:
  "new_user hasher clock uuid salt email password rs now = Inr u \<Longrightarrow>
     u_id u = uuid \<and> u_roles u = rs \<and> u_active u \<and> normalize_email email = Inr (u_email u)"
  by (auto simp: new_user_def split: sum.splits)

lemma valid_identity_role:
  assumes "valid_identity roles users" "role_id \<noteq> SUPER_ADMIN_ROLE"
  shows "valid_identity (AList.update role_id r roles) users"
proof -
  have "users_ok ((map_of roles)(role_id \<mapsto> r)) (map_of users)"
    using assms(1) by (fastforce simp: valid_identity_def users_ok_def)
  then show ?thesis using assms by (auto simp: valid_identity_def super_ok_def map_of_update)
qed

lemma valid_identity_user:
  assumes "valid_identity roles users" "map_of users k = None" "u_id u = k" "u_roles u \<subseteq> dom (map_of roles)"
    and "\<And>k' u'. map_of users k' = Some u' \<Longrightarrow> u_email u' \<noteq> u_email u"
    and "users = [] \<Longrightarrow> is_admin u"
  shows "valid_identity roles (AList.update k u users)"
proof -
  have "users_ok (map_of roles) ((map_of users)(k \<mapsto> u))"
    using assms(1,3,4,5) unfolding valid_identity_def users_ok_def by (simp split: if_splits) metis
  moreover have "has_admin ((map_of users)(k \<mapsto> u))"
  proof (cases "users = []")
    case True
    then show ?thesis using assms(6) by (auto simp: has_admin_def)
  next
    case False
    then obtain k' u' where "map_of users k' = Some u'" "is_admin u'"
      using assms(1) by (auto simp: valid_identity_def has_admin_def)
    then show ?thesis using assms(2) by (auto simp: has_admin_def intro!: exI [of _ k'])
  qed
  ultimately show ?thesis using assms(1) by (simp add: valid_identity_def map_of_update)
qed

lemma valid_identity_replace:
  assumes "valid_identity roles users" "map_of users k = Some u" "u_id u' = k" "u_email u' = u_email u"
    and "u_roles u' \<subseteq> dom (map_of roles)" "has_admin ((map_of users)(k \<mapsto> u'))"
  shows "valid_identity roles (AList.update k u' users)"
proof -
  have "users_ok (map_of roles) ((map_of users)(k \<mapsto> u'))"
    using assms(1-5) unfolding valid_identity_def users_ok_def by (simp split: if_splits) metis
  then show ?thesis using assms(1,6) by (simp add: valid_identity_def map_of_update)
qed

subsection \<open>Every operation keeps the invariant\<close>

lemma store_okE:
  assumes "store_ok file"
  obtains roles users where "identity_read file = Inr (roles, users)" "valid_identity roles users"
  using assms by (auto simp: store_ok_def)

lemma define_role_ok: "store_ok file \<Longrightarrow> store_ok (snd (define_role role_id permissions file))"
  by (elim store_okE)
    (auto simp: define_role_def validate_role_id_def Let_def store_ok_def stored_valid valid_identity_role
      valid_identity_sorted split: sum.splits)

lemma create_first_ok:
  assumes "store_ok file"
  shows "store_ok (snd (create_first_super_admin hasher clock uuid salt email password now file))"
proof -
  obtain roles users where r: "identity_read file = Inr (roles, users)" "valid_identity roles users"
    using assms by (rule store_okE)
  have "valid_identity roles (AList.update (u_id u) u users)"
    if "new_user hasher clock uuid salt email password {SUPER_ADMIN_ROLE} now = Inr u" "users = []" for u
  proof (rule valid_identity_user [OF r(2)])
    show "u_roles u \<subseteq> dom (map_of roles)"
      using new_user_sel [OF that(1)] r(2) by (auto simp: valid_identity_def super_ok_def)
    show "is_admin u" using new_user_sel [OF that(1)] by (simp add: is_admin_def)
  qed (use that in auto)
  then show ?thesis
    using r assms by (auto simp: create_first_super_admin_def stored_store_ok split: sum.splits)
qed

lemma create_user_ok:
  assumes "store_ok file" and fresh: "\<And>roles users. identity_read file = Inr (roles, users) \<Longrightarrow> map_of users uuid = None"
  shows "store_ok (snd (create_user hasher clock uuid salt email password role_ids now file))"
proof -
  obtain roles users where r: "identity_read file = Inr (roles, users)" "valid_identity roles users"
    using assms(1) by (rule store_okE)
  have "valid_identity roles (AList.update (u_id u) u users)"
    if u: "new_user hasher clock uuid salt em password rs now = Inr u"
      "active_super_admins users \<noteq> []" "rs \<subseteq> fst ` set roles" "\<not> list_ex (\<lambda>u. u_email u = em) (dict_values users)"
      "normalize_email email = Inr em" for u rs em
  proof (rule valid_identity_user [OF r(2)])
    have ok: "dict_ok users" using r(2) by (simp add: valid_identity_def)
    show "map_of users (u_id u) = None" using fresh [OF r(1)] new_user_sel [OF u(1)] by simp
    show "u_roles u \<subseteq> dom (map_of roles)"
      using new_user_sel [OF u(1)] u(3) by (simp add: dom_map_of_conv_image_fst)
    show "u_email u' \<noteq> u_email u" if k: "map_of users k' = Some u'" for k' u'
      using k ok u(4) new_user_sel [OF u(1)] normalize_email_idem [OF u(5)]
      by (auto simp: list_ex_iff dict_values_lookup)
    show "users = [] \<Longrightarrow> is_admin u" using u(2) by (simp add: active_super_admins_def dict_values_def)
  qed auto
  then show ?thesis
    using r assms by (auto simp: create_user_def stored_store_ok split: sum.splits)
qed

lemma replace_user_ok:
  assumes r: "identity_read file = Inr (roles, users)" "valid_identity roles users" "map_of users k = Some u"
    and u': "u_id u' = k" "u_email u' = u_email u" "u_roles u' \<subseteq> dom (map_of roles)"
  shows "if has_admin ((map_of users)(k \<mapsto> u'))
    then fst (replace_user roles users k u' file) = Inr u' \<and> store_ok (snd (replace_user roles users k u' file))
      \<and> (\<exists>roles' users'. identity_read (snd (replace_user roles users k u' file)) = Inr (roles', users')
           \<and> map_of roles' = map_of roles \<and> map_of users' = (map_of users)(k \<mapsto> u'))
    else replace_user roles users k u' file =
      (Inl (IdentityInvariantError ''at least one active super administrator is required''), file)"
proof (cases "has_admin ((map_of users)(k \<mapsto> u'))")
  case True
  then have v: "valid_identity roles (AList.update k u' users)"
    using valid_identity_replace [OF r(2,3) u'] by simp
  have "dict_ok (AList.update k u' users)" using v by (simp add: valid_identity_def)
  then have "require_active_super_admin (AList.update k u' users) = None"
    using True by (simp add: require_admin_iff map_of_update)
  then have "replace_user roles users k u' file = (Inr u', Some (dict_sorted roles, dict_sorted (AList.update k u' users)))"
    by (simp add: replace_user_def stored_valid(1) [OF v])
  then show ?thesis
    using True stored_valid(2,3) [OF v] v
    by (simp add: map_of_dict_sorted valid_identity_def map_of_update)
next
  case False
  have "dict_ok (AList.update k u' users)" using r(2) by (simp add: valid_identity_def)
  then have "require_active_super_admin (AList.update k u' users) =
      Some (IdentityInvariantError ''at least one active super administrator is required'')"
    using False by (simp add: require_active_super_admin_def active_super_admins_iff map_of_update)
  then show ?thesis using False by (simp add: replace_user_def)
qed

lemma replace_user_store_ok:
  assumes "identity_read file = Inr (roles, users)" "valid_identity roles users" "map_of users k = Some u"
    "u_id u' = k" "u_email u' = u_email u" "u_roles u' \<subseteq> dom (map_of roles)"
  shows "store_ok (snd (replace_user roles users k u' file))"
  using replace_user_ok [OF assms] assms(1,2) by (auto simp: store_ok_def split: if_splits)

lemma valid_user:
  assumes "valid_identity roles users" "map_of users k = Some u"
  shows "u_id u = k" "u_roles u \<subseteq> dom (map_of roles)"
  using assms by (auto simp: valid_identity_def users_ok_def)

lemma set_roles_ok:
  assumes "store_ok file" shows "store_ok (snd (set_roles k role_ids file))"
proof -
  obtain roles users where r: "identity_read file = Inr (roles, users)" "valid_identity roles users"
    using assms by (rule store_okE)
  show ?thesis
    using assms r replace_user_store_ok [OF r] valid_user [OF r(2)]
    by (auto simp: set_roles_def require_user_def dom_map_of_conv_image_fst split: sum.splits option.splits)
qed

lemma set_active_ok:
  assumes "store_ok file" shows "store_ok (snd (set_active k b file))"
proof -
  obtain roles users where r: "identity_read file = Inr (roles, users)" "valid_identity roles users"
    using assms by (rule store_okE)
  show ?thesis
    using assms r replace_user_store_ok [OF r] valid_user [OF r(2)]
    by (auto simp: set_active_def require_user_def split: sum.splits option.splits)
qed

text \<open>One call of one writing operation; a new user gets an identifier that is not in use.\<close>

inductive identity_step :: "identity_file \<Rightarrow> identity_file \<Rightarrow> bool" where
  step_define_role: "identity_step f (snd (define_role role_id permissions f))"
| step_first: "identity_step f (snd (create_first_super_admin hasher clock uuid salt email password now f))"
| step_create: "(\<And>roles users. identity_read f = Inr (roles, users) \<Longrightarrow> map_of users uuid = None) \<Longrightarrow>
    identity_step f (snd (create_user hasher clock uuid salt email password role_ids now f))"
| step_set_roles: "identity_step f (snd (set_roles user_id role_ids f))"
| step_set_active: "identity_step f (snd (set_active user_id active f))"

inductive identity_steps :: "identity_file \<Rightarrow> identity_file \<Rightarrow> bool" where
  identity_refl: "identity_steps f f"
| identity_next: "identity_steps f g \<Longrightarrow> identity_step g h \<Longrightarrow> identity_steps f h"

lemma identity_step_ok: "identity_step f g \<Longrightarrow> store_ok f \<Longrightarrow> store_ok g"
  by (induction rule: identity_step.induct)
    (auto intro: define_role_ok create_first_ok create_user_ok set_roles_ok set_active_ok)

lemma identity_steps_ok: "identity_steps f g \<Longrightarrow> store_ok f \<Longrightarrow> store_ok g"
  by (induction rule: identity_steps.induct) (auto intro: identity_step_ok)

lemma find_by_email:
  assumes "valid_identity roles users"
  shows "find (\<lambda>u. u_email u = em) (dict_values users) = Some u \<longleftrightarrow> (\<exists>k. map_of users k = Some u \<and> u_email u = em)"
proof
  assume "find (\<lambda>u. u_email u = em) (dict_values users) = Some u"
  then have "u \<in> set (dict_values users)" "u_email u = em" by (auto simp: find_Some_iff)
  then show "\<exists>k. map_of users k = Some u \<and> u_email u = em"
    using assms by (auto simp: valid_identity_def dict_values_lookup)
next
  assume "\<exists>k. map_of users k = Some u \<and> u_email u = em"
  then obtain k where k: "map_of users k = Some u" "u_email u = em" by blast
  have ok: "dict_ok users" using assms by (simp add: valid_identity_def)
  have "u \<in> set (dict_values users)" using k ok by (auto simp: dict_values_lookup)
  then obtain u' where u': "find (\<lambda>u. u_email u = em) (dict_values users) = Some u'"
    using k(2) by (cases "find (\<lambda>u. u_email u = em) (dict_values users)") (auto simp: find_None_iff)
  then have "u' \<in> set (dict_values users)" "u_email u' = em" by (auto simp: find_Some_iff)
  then obtain k' where k': "map_of users k' = Some u'" using ok by (auto simp: dict_values_lookup)
  have "k = k'" using assms k k' \<open>u_email u' = em\<close> unfolding valid_identity_def users_ok_def by metis
  then show "find (\<lambda>u. u_email u = em) (dict_values users) = Some u" using k k' u' by simp
qed

end
