(* ===== verification/Sessions.thy ===== *)
theory Sessions
  imports Identity
begin

text \<open>
  \<open>SessionStore\<close> of \<open>identity.py\<close>: opaque bearer tokens of which only a keyed digest is stored.
  The digest (HMAC-SHA256 under the pepper), fresh identifiers and secrets are inputs; the
  stored timestamps are instants.
\<close>

subsection \<open>Data and validators\<close>

record session_record =
  se_id :: string
  se_user_id :: string
  se_token_digest :: string
  se_issued_at :: int
  se_expires_at :: int
  se_revoked_at :: "int option"

record session_token =
  st_session_id :: string
  st_value :: string
  st_expires_at :: int

record session_config =
  token_pepper :: string
  token_hmac :: "string \<Rightarrow> string \<Rightarrow> string"
  default_ttl :: int
  maximum_ttl :: int
  cleanup_batch_size :: int

type_synonym sessions = "(string, session_record) dict"
type_synonym session_file = "sessions option"

definition MAX_SESSION_TOKEN_CHARS :: nat where "MAX_SESSION_TOKEN_CHARS = 36 + 1 + 128"
definition MAX_SESSION_CLEANUP_BATCH :: int where "MAX_SESSION_CLEANUP_BATCH = 10000"

definition hex_block :: "nat \<Rightarrow> rx" where
  "hex_block n = Cls [digit, hexlow] n (Some n)"

definition session_id_pattern :: rx where
  "session_id_pattern =
     (let dash = Cls [single CHR ''-''] 1 (Some 1) in
      Seq (hex_block 8) (Seq dash (Seq (hex_block 4) (Seq dash (Seq (hex_block 4) (Seq dash
        (Seq (hex_block 4) (Seq dash (hex_block 12)))))))))"

definition session_secret_pattern :: rx where
  "session_secret_pattern = Cls [upper, lower, digit, single CHR ''_'', single CHR ''-''] 32 (Some 128)"

definition validate_cleanup_batch_size :: "int \<Rightarrow> identity_error + int" where
  "validate_cleanup_batch_size n =
     (if \<not> (1 \<le> n \<and> n \<le> MAX_SESSION_CLEANUP_BATCH)
      then Inl (IdentityValueError ''session cleanup batch size must be between 1 and 10000'') else Inr n)"

text \<open>\<open>SessionStore.__init__\<close>\<close>

definition make_session_store :: "session_config \<Rightarrow> identity_error + session_config" where
  "make_session_store cfg =
     (if length (token_pepper cfg) < 32
      then Inl (IdentityValueError ''session token pepper must contain at least 32 bytes'')
      else if default_ttl cfg \<le> 0 \<or> maximum_ttl cfg < default_ttl cfg
      then Inl (IdentityValueError ''invalid default session lifetime'')
      else case validate_cleanup_batch_size (cleanup_batch_size cfg) of Inl e \<Rightarrow> Inl e | Inr _ \<Rightarrow> Inr cfg)"

definition parse_session_token :: "string \<Rightarrow> identity_error + (string \<times> string)" where
  "parse_session_token raw =
     (if list_ex (\<lambda>c. 128 \<le> (of_char c :: nat)) raw \<or> MAX_SESSION_TOKEN_CHARS < length raw
      then Inl (SessionError ''invalid session'')
      else case dropWhile (\<lambda>c. c \<noteq> CHR ''.'') raw of
        [] \<Rightarrow> Inl (SessionError ''invalid session'')
      | _ # secret \<Rightarrow>
          let session_id = takeWhile (\<lambda>c. c \<noteq> CHR ''.'') raw in
          if \<not> fullmatch session_id_pattern session_id \<or> \<not> fullmatch session_secret_pattern secret
          then Inl (SessionError ''invalid session'') else Inr (raw, session_id))"

subsection \<open>Operations\<close>

definition session_records :: "session_file \<Rightarrow> sessions" where
  "session_records file = (case file of None \<Rightarrow> [] | Some d \<Rightarrow> d)"

definition session_write :: "sessions \<Rightarrow> session_file" where
  "session_write records = Some (dict_sorted records)"

definition session_digest :: "session_config \<Rightarrow> string \<Rightarrow> string" where
  "session_digest cfg token = token_hmac cfg (token_pepper cfg) token"

definition require_active_user :: "identity_file option \<Rightarrow> string \<Rightarrow> identity_error + unit" where
  "require_active_user identity user_id =
     (case identity of
        None \<Rightarrow> Inr ()
      | Some store \<Rightarrow>
          (case get_user user_id store of
             Inl e \<Rightarrow> Inl e
           | Inr None \<Rightarrow> Inl (SessionError ''invalid session identity'')
           | Inr (Some u) \<Rightarrow> if u_active u then Inr () else Inl (SessionError ''invalid session identity'')))"

definition terminal_at :: "int \<Rightarrow> session_record \<Rightarrow> int option" where
  "terminal_at checked_at r =
     (case se_revoked_at r of
        Some t \<Rightarrow> Some t
      | None \<Rightarrow> if se_expires_at r \<le> checked_at then Some (se_expires_at r) else None)"

text \<open>\<open>terminal[:limit]\<close>: the identifiers to delete, earliest end first.\<close>

definition terminal_batch :: "int \<Rightarrow> int \<Rightarrow> sessions \<Rightarrow> string list" where
  "terminal_batch checked_at limit records =
     map snd (take (nat limit)
       (sort (List.map_filter (\<lambda>(k, r). map_option (\<lambda>t. (t, k)) (terminal_at checked_at r)) records)))"

definition purge_records :: "int \<Rightarrow> int \<Rightarrow> sessions \<Rightarrow> nat \<times> sessions" where
  "purge_records checked_at limit records =
     (let selected = terminal_batch checked_at limit records
      in (length selected, fold AList.delete selected records))"

definition create_session ::
  "session_config \<Rightarrow> identity_file option \<Rightarrow> int \<Rightarrow> string \<Rightarrow> string \<Rightarrow> string \<Rightarrow> datetime option \<Rightarrow> int option
    \<Rightarrow> session_file \<Rightarrow> (identity_error + session_token) \<times> session_file" where
  "create_session cfg identity clock uuid secret user_id now ttl file =
     (case require_active_user identity user_id of Inl e \<Rightarrow> (Inl e, file) | Inr _ \<Rightarrow>
      case identity_now clock now of Inl e \<Rightarrow> (Inl e, file) | Inr issued_at \<Rightarrow>
      let lifetime = (case ttl of None \<Rightarrow> default_ttl cfg | Some n \<Rightarrow> if n = 0 then default_ttl cfg else n) in
      if lifetime \<le> 0 \<or> maximum_ttl cfg < lifetime
      then (Inl (IdentityValueError ''invalid session lifetime''), file)
      else
        let token = uuid @ ''.'' @ secret;
            record = \<lparr>se_id = uuid, se_user_id = user_id, se_token_digest = session_digest cfg token,
                      se_issued_at = issued_at, se_expires_at = issued_at + lifetime, se_revoked_at = None\<rparr>;
            records = snd (purge_records issued_at (cleanup_batch_size cfg) (session_records file))
        in (Inr \<lparr>st_session_id = uuid, st_value = token, st_expires_at = se_expires_at record\<rparr>,
            session_write (AList.update uuid record records)))"

definition validate_session ::
  "session_config \<Rightarrow> identity_file option \<Rightarrow> int \<Rightarrow> string \<Rightarrow> datetime option \<Rightarrow> session_file
    \<Rightarrow> identity_error + session_record" where
  "validate_session cfg identity clock token now file =
     (case identity_now clock now of Inl e \<Rightarrow> Inl e | Inr checked_at \<Rightarrow>
      case parse_session_token token of Inl e \<Rightarrow> Inl e | Inr (raw, session_id) \<Rightarrow>
      case map_of (session_records file) session_id of
        None \<Rightarrow> Inl (SessionError ''invalid session'')
      | Some r \<Rightarrow>
          if se_revoked_at r \<noteq> None \<or> se_expires_at r \<le> checked_at
          then Inl (SessionError ''invalid session'')
          else if se_token_digest r \<noteq> session_digest cfg raw
          then Inl (SessionError ''invalid session'')
          else (case require_active_user identity (se_user_id r) of Inl e \<Rightarrow> Inl e | Inr _ \<Rightarrow> Inr r))"

definition revoke_session ::
  "int \<Rightarrow> string \<Rightarrow> datetime option \<Rightarrow> session_file \<Rightarrow> (identity_error + session_record) \<times> session_file" where
  "revoke_session clock session_id now file =
     (let records = session_records file in
      case map_of records session_id of
        None \<Rightarrow> (Inl (SessionError ''session does not exist''), file)
      | Some r \<Rightarrow>
          if se_revoked_at r = None
          then (case identity_now clock now of
                  Inl e \<Rightarrow> (Inl e, file)
                | Inr t \<Rightarrow>
                    let r' = r\<lparr>se_revoked_at := Some t\<rparr>
                    in (Inr r', session_write (AList.update session_id r' records)))
          else (Inr r, file))"

definition revokes :: "string \<Rightarrow> session_record \<Rightarrow> bool" where
  "revokes user_id r \<longleftrightarrow> se_user_id r = user_id \<and> se_revoked_at r = None"

definition revoke_user ::
  "int \<Rightarrow> string \<Rightarrow> datetime option \<Rightarrow> session_file \<Rightarrow> (identity_error + nat) \<times> session_file" where
  "revoke_user clock user_id now file =
     (case identity_now clock now of Inl e \<Rightarrow> (Inl e, file) | Inr t \<Rightarrow>
      let records = session_records file;
          changed = length (filter (revokes user_id) (dict_values records))
      in if changed = 0 then (Inr 0, file)
         else (Inr changed, session_write
                (dict_map (\<lambda>r. if revokes user_id r then r\<lparr>se_revoked_at := Some t\<rparr> else r) records)))"

definition purge_sessions ::
  "session_config \<Rightarrow> int \<Rightarrow> datetime option \<Rightarrow> int option \<Rightarrow> session_file \<Rightarrow> (identity_error + nat) \<times> session_file" where
  "purge_sessions cfg clock now limit file =
     (case identity_now clock now of Inl e \<Rightarrow> (Inl e, file) | Inr checked_at \<Rightarrow>
      case validate_cleanup_batch_size (case limit of None \<Rightarrow> cleanup_batch_size cfg | Some n \<Rightarrow> n) of
        Inl e \<Rightarrow> (Inl e, file)
      | Inr cleanup_limit \<Rightarrow>
          (case purge_records checked_at cleanup_limit (session_records file) of
             (removed, records) \<Rightarrow>
               if removed = 0 then (Inr 0, file) else (Inr removed, session_write records)))"

subsection \<open>The stored map\<close>

definition session_map :: "session_file \<Rightarrow> (string \<rightharpoonup> session_record)" where
  "session_map file = map_of (session_records file)"

definition sessions_ok :: "session_file \<Rightarrow> bool" where
  "sessions_ok file \<longleftrightarrow> dict_ok (session_records file) \<and> (\<forall>k r. session_map file k = Some r \<longrightarrow> se_id r = k)"

lemma session_map_write: "dict_ok d \<Longrightarrow> session_map (session_write d) = map_of d"
  by (simp add: session_map_def session_write_def session_records_def map_of_dict_sorted)

lemma sessions_ok_write: "dict_ok d \<Longrightarrow> sessions_ok (session_write d) \<longleftrightarrow> (\<forall>k r. map_of d k = Some r \<longrightarrow> se_id r = k)"
  by (simp add: sessions_ok_def session_map_write) (simp add: session_write_def session_records_def)

lemma fold_delete:
  "map_of (fold AList.delete ks d) = (\<lambda>k. if k \<in> set ks then None else map_of d k)"
  "dict_ok d \<Longrightarrow> dict_ok (fold AList.delete ks d)"
  by (induction ks arbitrary: d) (auto simp: map_of_delete fun_eq_iff)

lemma terminal_batch_terminal:
  assumes "dict_ok d" "k \<in> set (terminal_batch t n d)"
  shows "\<exists>r. map_of d k = Some r \<and> terminal_at t r \<noteq> None"
proof -
  from assms(2) obtain x where "(x, k) \<in> set (List.map_filter (\<lambda>(k, r). map_option (\<lambda>t. (t, k)) (terminal_at t r)) d)"
    unfolding terminal_batch_def by (force dest: in_set_takeD)
  then show ?thesis using assms(1) by (force simp: set_map_filter dict_lookup_iff)
qed

lemma terminal_batch_length: "length (terminal_batch t n d) \<le> nat n"
  by (simp add: terminal_batch_def)

text \<open>A purge removes terminal sessions only.\<close>

lemma purge_records_map:
  assumes "dict_ok d"
  obtains ks where "purge_records t n d = (length ks, fold AList.delete ks d)" "length ks \<le> nat n"
    "\<And>k. k \<in> set ks \<Longrightarrow> \<exists>r. map_of d k = Some r \<and> terminal_at t r \<noteq> None"
  using that [of "terminal_batch t n d"] terminal_batch_length terminal_batch_terminal [OF assms]
  by (simp add: purge_records_def Let_def)

end
