(* ===== verification/Identity_Safety.thy ===== *)
theory Identity_Safety
  imports Sessions
begin

text \<open>
  Properties of the identity and session stores: the last super administrator, exact permission
  and authentication decisions, and the life of a session from its creation to its revocation.
\<close>

subsection \<open>Session steps\<close>

inductive session_step :: "session_config \<Rightarrow> string set \<Rightarrow> session_file \<Rightarrow> session_file \<Rightarrow> bool"
  for cfg :: session_config and issued :: "string set" where
  step_create: "uuid \<notin> issued \<Longrightarrow>
    session_step cfg issued f (snd (create_session cfg identity clock uuid secret user_id now ttl f))"
| step_revoke: "session_step cfg issued f (snd (revoke_session clock session_id now f))"
| step_revoke_user: "session_step cfg issued f (snd (revoke_user clock user_id now f))"
| step_purge: "session_step cfg issued f (snd (purge_sessions cfg clock now limit f))"

inductive session_steps :: "session_config \<Rightarrow> string set \<Rightarrow> session_file \<Rightarrow> session_file \<Rightarrow> bool"
  for cfg :: session_config and issued :: "string set" where
  session_refl: "session_steps cfg issued f f"
| session_next: "session_steps cfg issued f g \<Longrightarrow> session_step cfg issued g h \<Longrightarrow> session_steps cfg issued f h"

text \<open>What a step may do to one identifier that is not being issued.\<close>

definition fades :: "session_record option \<Rightarrow> session_record option \<Rightarrow> bool" where
  "fades old new \<longleftrightarrow>
     new = None \<or> new = old
     \<or> (\<exists>r t. old = Some r \<and> se_revoked_at r = None \<and> new = Some (r\<lparr>se_revoked_at := Some t\<rparr>))"

lemma fades_refl [simp]: "fades x x"
  by (simp add: fades_def)

lemma fades_revoke: "fades x (map_option (\<lambda>r. if revokes uid r then r\<lparr>se_revoked_at := Some t\<rparr> else r) x)"
  by (cases x) (auto simp: fades_def revokes_def)

lemma create_session_map:
  assumes ok: "sessions_ok f"
  shows "sessions_ok (snd (create_session cfg identity clock uuid secret user_id now ttl f))"
    and "k \<noteq> uuid \<Longrightarrow> session_map (snd (create_session cfg identity clock uuid secret user_id now ttl f)) k \<in> {session_map f k, None}"
proof -
  have d: "dict_ok (session_records f)" "\<forall>k r. map_of (session_records f) k = Some r \<longrightarrow> se_id r = k"
    using ok by (auto simp: sessions_ok_def session_map_def)
  have "sessions_ok (snd (create_session cfg identity clock uuid secret user_id now ttl f))
    \<and> (k \<noteq> uuid \<longrightarrow> session_map (snd (create_session cfg identity clock uuid secret user_id now ttl f)) k \<in> {session_map f k, None})"
  proof (cases "snd (create_session cfg identity clock uuid secret user_id now ttl f) = f")
    case False
    then obtain t r where w: "snd (create_session cfg identity clock uuid secret user_id now ttl f) =
        session_write (AList.update uuid r (snd (purge_records t (cleanup_batch_size cfg) (session_records f))))" "se_id r = uuid"
      by (auto simp: create_session_def Let_def split: sum.splits if_splits)
    obtain ks where ks: "purge_records t (cleanup_batch_size cfg) (session_records f) = (length ks, fold AList.delete ks (session_records f))"
      using purge_records_map [OF d(1)] by metis
    have "dict_ok (AList.update uuid r (fold AList.delete ks (session_records f)))" using d(1) by (simp add: fold_delete)
    then show ?thesis
      unfolding w(1) using d(2) w(2)
      by (auto simp: ks sessions_ok_write session_map_write map_of_update fold_delete session_map_def [of f] split: if_splits)
  qed (use ok in simp)
  then show "sessions_ok (snd (create_session cfg identity clock uuid secret user_id now ttl f))"
    and "k \<noteq> uuid \<Longrightarrow> session_map (snd (create_session cfg identity clock uuid secret user_id now ttl f)) k \<in> {session_map f k, None}"
    by auto
qed

lemma revoke_session_map:
  assumes ok: "sessions_ok f"
  shows "sessions_ok (snd (revoke_session clock sid now f))
    \<and> fades (session_map f k) (session_map (snd (revoke_session clock sid now f)) k)"
proof -
  have d: "dict_ok (session_records f)" "\<forall>k r. map_of (session_records f) k = Some r \<longrightarrow> se_id r = k"
    using ok by (auto simp: sessions_ok_def session_map_def)
  show ?thesis
    using d ok
    by (auto simp: revoke_session_def Let_def sessions_ok_write session_map_write map_of_update fades_def session_map_def [of f]
        split: option.splits sum.splits)
qed

lemma revoke_user_map:
  assumes ok: "sessions_ok f"
  shows "sessions_ok (snd (revoke_user clock uid now f))
    \<and> fades (session_map f k) (session_map (snd (revoke_user clock uid now f)) k)"
proof (cases "snd (revoke_user clock uid now f) = f")
  case False
  then obtain t where w: "snd (revoke_user clock uid now f) = session_write
      (dict_map (\<lambda>r. if revokes uid r then r\<lparr>se_revoked_at := Some t\<rparr> else r) (session_records f))"
    by (auto simp: revoke_user_def Let_def split: sum.splits if_splits)
  have d: "dict_ok (session_records f)" "\<forall>k r. map_of (session_records f) k = Some r \<longrightarrow> se_id r = k"
    using ok by (auto simp: sessions_ok_def session_map_def)
  show ?thesis
    unfolding w using d
    by (auto simp: sessions_ok_write session_map_write map_of_dict_map fades_revoke session_map_def [of f])
qed (use ok in simp)

lemma purge_sessions_map:
  assumes ok: "sessions_ok f"
  shows "sessions_ok (snd (purge_sessions cfg clock now limit f))
    \<and> fades (session_map f k) (session_map (snd (purge_sessions cfg clock now limit f)) k)"
proof -
  have d: "dict_ok (session_records f)" "\<forall>k r. map_of (session_records f) k = Some r \<longrightarrow> se_id r = k"
    using ok by (auto simp: sessions_ok_def session_map_def)
  show ?thesis
  proof (cases "snd (purge_sessions cfg clock now limit f) = f")
    case False
    then obtain t n where w: "snd (purge_sessions cfg clock now limit f) =
        session_write (snd (purge_records t n (session_records f)))"
      by (auto simp: purge_sessions_def split: sum.splits prod.splits if_splits) (metis snd_conv)
    obtain ks where ks: "purge_records t n (session_records f) = (length ks, fold AList.delete ks (session_records f))"
      using purge_records_map [OF d(1)] by metis
    show ?thesis
      unfolding w using d
      by (auto simp: ks sessions_ok_write session_map_write fold_delete session_map_def [of f] fades_def split: if_splits)
  qed (use ok in simp)
qed

lemma session_step_map:
  assumes "session_step cfg issued f g" "sessions_ok f"
  shows "sessions_ok g \<and> (k \<in> issued \<longrightarrow> fades (session_map f k) (session_map g k))"
  using assms
proof (induction rule: session_step.induct)
  case (step_create uuid f identity clock secret user_id now ttl)
  have "k \<in> issued \<Longrightarrow> k \<noteq> uuid" using step_create(1) by blast
  then show ?case
    using create_session_map(1) [OF step_create(2), of cfg identity clock uuid secret user_id now ttl]
      create_session_map(2) [OF step_create(2), of k uuid cfg identity clock secret user_id now ttl]
    by (fastforce simp: fades_def)
qed (use revoke_session_map revoke_user_map purge_sessions_map in auto)

text \<open>Revoked or gone stays so.\<close>

definition dead :: "string \<Rightarrow> session_file \<Rightarrow> bool" where
  "dead k f \<longleftrightarrow> (\<forall>r. session_map f k = Some r \<longrightarrow> se_revoked_at r \<noteq> None)"

lemma session_steps_dead:
  "session_steps cfg issued f g \<Longrightarrow> sessions_ok f \<Longrightarrow> dead k f \<Longrightarrow> k \<in> issued \<Longrightarrow> sessions_ok g \<and> dead k g"
proof (induction rule: session_steps.induct)
  case (session_next f g h)
  then have g: "sessions_ok g" "dead k g" by auto
  have "fades (session_map g k) (session_map h k)" "sessions_ok h"
    using session_step_map [OF session_next(2) g(1)] session_next by auto
  then show ?case using g(2) by (auto simp: dead_def fades_def)
qed simp

subsection \<open>Properties of the identity store\<close>

text \<open>
  C15: in every store that any sequence of identity operations can produce from nothing, the
  super-admin role still grants exactly everything and is protected, every user has known roles
  and an address of its own, and as soon as there is a user there is an active super
  administrator; the store never becomes unreadable.
\<close>

theorem identity_reachable_invariant:
  assumes "identity_steps None f"
  shows "\<exists>roles users. identity_read f = Inr (roles, users)
    \<and> (\<exists>r. map_of roles SUPER_ADMIN_ROLE = Some r \<and> ro_protected r \<and> ro_permissions r = {SUPER_ADMIN_PERMISSION})
    \<and> (users \<noteq> [] \<longrightarrow> (\<exists>k u. map_of users k = Some u \<and> u_active u \<and> SUPER_ADMIN_ROLE \<in> u_roles u))
    \<and> (\<forall>k u. map_of users k = Some u \<longrightarrow> u_id u = k \<and> u_roles u \<subseteq> dom (map_of roles))
    \<and> (\<forall>k k' u u'. map_of users k = Some u \<longrightarrow> map_of users k' = Some u' \<longrightarrow> u_email u = u_email u' \<longrightarrow> k = k')"
proof -
  have "store_ok f" using identity_steps_ok [OF assms store_ok_empty] .
  then obtain roles users where r: "identity_read f = Inr (roles, users)" "valid_identity roles users"
    by (rule store_okE)
  show ?thesis
    by (intro exI [of _ roles] exI [of _ users] conjI)
      (use r in \<open>simp_all add: valid_identity_def super_ok_def has_admin_def is_admin_def users_ok_def\<close>)
qed

text \<open>Disabling a user succeeds, changing nothing but that user's flag, exactly when another
  active super administrator remains; otherwise it is refused and the store is unchanged.
\<close>

theorem last_super_admin_protected:
  assumes "store_ok f" "identity_read f = Inr (roles, users)" "map_of users k = Some u"
  shows "if \<exists>k' u'. k' \<noteq> k \<and> map_of users k' = Some u' \<and> u_active u' \<and> SUPER_ADMIN_ROLE \<in> u_roles u'
    then fst (set_active k False f) = Inr (u\<lparr>u_active := False\<rparr>)
      \<and> (\<exists>roles' users'. identity_read (snd (set_active k False f)) = Inr (roles', users')
           \<and> map_of roles' = map_of roles \<and> map_of users' = (map_of users)(k \<mapsto> u\<lparr>u_active := False\<rparr>))
    else set_active k False f =
      (Inl (IdentityInvariantError ''at least one active super administrator is required''), f)"
proof -
  have v: "valid_identity roles users" using assms(1,2) by (auto simp: store_ok_def)
  let ?u = "u\<lparr>u_active := False\<rparr>"
  have "set_active k False f = replace_user roles users k ?u f"
    using assms(2,3) by (simp add: set_active_def require_user_def)
  moreover have "has_admin ((map_of users)(k \<mapsto> ?u)) \<longleftrightarrow>
      (\<exists>k' u'. k' \<noteq> k \<and> map_of users k' = Some u' \<and> u_active u' \<and> SUPER_ADMIN_ROLE \<in> u_roles u')"
    by (auto simp: has_admin_def is_admin_def)
  ultimately show ?thesis
    using replace_user_ok [OF assms(2) v assms(3), of ?u] valid_user [OF v assms(3)] by simp
qed

text \<open>
  C16: \<open>has_permission\<close> decides exactly this: the user is active and one of its roles grants
  everything, the permission itself, or \<open>prefix.*\<close> for a part of the permission before one of
  its dots.
\<close>

theorem has_permission_exact:
  assumes "store_ok f" "identity_read f = Inr (roles, users)" "map_of users k = Some u"
    and "validate_permission p = Inr p"
  shows "has_permission k p f = Inr (u_active u \<and>
    (\<exists>role_id r. role_id \<in> u_roles u \<and> map_of roles role_id = Some r \<and>
       (SUPER_ADMIN_PERMISSION \<in> ro_permissions r \<or> p \<in> ro_permissions r
        \<or> (\<exists>prefix rest. p = prefix @ ''.'' @ rest \<and> prefix @ ''.*'' \<in> ro_permissions r))))"
proof -
  have v: "valid_identity roles users" using assms(1,2) by (auto simp: store_ok_def)
  have sub: "u_roles u \<subseteq> fst ` set roles"
    using valid_user(2) [OF v assms(3)] by (simp add: dom_map_of_conv_image_fst)
  let ?g = "\<Union>r \<in> u_roles u. ro_permissions (the (map_of roles r))"
  have member: "x \<in> ?g \<longleftrightarrow> (\<exists>role_id r. role_id \<in> u_roles u \<and> map_of roles role_id = Some r \<and> x \<in> ro_permissions r)" for x
    using valid_user(2) [OF v assms(3)] by force
  have loop: "list_ex (\<lambda>i. join ''.'' (take i (split_on CHR ''.'' p)) @ ''.*'' \<in> granted) [1..<length (split_on CHR ''.'' p)]
      \<longleftrightarrow> (\<exists>prefix rest. p = prefix @ ''.'' @ rest \<and> prefix @ ''.*'' \<in> granted)" for granted
    using split_prefix_iff [of "CHR ''.''" p] by (auto simp: list_ex_iff) (metis atLeastLessThan_iff)+
  have perms: "permissions_for k f = Inr (if u_active u then ?g else {})"
    using assms(2,3) sub by (simp add: permissions_for_def require_user_def)
  show ?thesis
    using assms(4) perms loop [of "if u_active u then ?g else {}"] member
    by (simp add: has_permission_def Let_def) blast
qed

text \<open>Authentication succeeds exactly for the active user stored under the normalised address
  whose password hash verifies, and every other well-formed attempt gets the same error.
\<close>

theorem authenticate_exact:
  assumes "store_ok f" "identity_read f = Inr (roles, users)" "normalize_email email = Inr em"
  shows "if \<exists>k u. map_of users k = Some u \<and> u_email u = em \<and> u_active u \<and> pw_verify hasher password (u_password_hash u)
    then \<exists>k u. authenticate hasher dummy email password f = Inr u \<and> map_of users k = Some u \<and> u_email u = em
      \<and> u_active u \<and> pw_verify hasher password (u_password_hash u)
    else authenticate hasher dummy email password f = Inl (AuthenticationError ''invalid credentials'')"
proof -
  have v: "valid_identity roles users" using assms(1,2) by (auto simp: store_ok_def)
  note found = find_by_email [OF v, of em]
  show ?thesis
  proof (cases "find (\<lambda>u. u_email u = em) (dict_values users)")
    case None
    then have "\<not> (\<exists>k u. map_of users k = Some u \<and> u_email u = em)" using found by force
    then show ?thesis using None assms(2,3) by (auto simp: authenticate_def Let_def)
  next
    case (Some a)
    then obtain k where k: "map_of users k = Some a" "u_email a = em" using found by blast
    have "u = a" if "map_of users k' = Some u" "u_email u = em" for k' u
      using that Some found [of u] by auto
    then have "(\<exists>k u. map_of users k = Some u \<and> u_email u = em \<and> u_active u \<and> pw_verify hasher password (u_password_hash u))
        \<longleftrightarrow> u_active a \<and> pw_verify hasher password (u_password_hash a)"
      using k by blast
    then show ?thesis using Some k assms(2,3) by (auto simp: authenticate_def Let_def)
  qed
qed

subsection \<open>A concrete store for the witnesses\<close>

definition ex_hasher :: password_hasher where
  "ex_hasher = \<lparr>pw_hash = (\<lambda>p s. Inr (s @ p)), pw_verify = (\<lambda>p h. h = ''na'' @ p)\<rparr>"

definition ex_admin :: user_record where
  "ex_admin = \<lparr>u_id = ''u-1'', u_email = ''ann@shop.test'', u_password_hash = ''nacorrect-horse'',
     u_roles = {SUPER_ADMIN_ROLE}, u_active = True, u_created_at = 7\<rparr>"

definition ex_store :: identity_file where
  "ex_store = Some ([(SUPER_ADMIN_ROLE, super_role)], [(''u-1'', ex_admin)])"

lemma ex_email: "normalize_email '' Ann@Shop.Test'' = Inr ''ann@shop.test''"
  by code_simp

lemma ex_store_eval:
  "create_first_super_admin ex_hasher 7 ''u-1'' ''na'' '' Ann@Shop.Test'' ''correct-horse'' None None = (Inr ex_admin, ex_store)"
  by (simp add: create_first_super_admin_def identity_read_def setdefault_def super_role_def new_user_def ex_email
      ex_hasher_def identity_now_def utc_or_now_def stored_def identity_write_def require_active_super_admin_def
      active_super_admins_def dict_values_def dict_sorted_def ex_store_def ex_admin_def)

lemma ex_store_ok: "store_ok ex_store"
  using create_first_ok [OF store_ok_empty, of ex_hasher 7 "''u-1''" "''na''" "'' Ann@Shop.Test''" "''correct-horse''" None]
  by (simp add: ex_store_eval)

lemma ex_store_read: "identity_read ex_store = Inr ([(SUPER_ADMIN_ROLE, super_role)], [(''u-1'', ex_admin)])"
  by (simp add: ex_store_def ex_admin_def identity_read_def setdefault_def super_role_def require_active_super_admin_def
      active_super_admins_def dict_values_def)

theorem identity_reachable_invariant_witness:
  "\<exists>roles users k u. identity_read ex_store = Inr (roles, users) \<and> map_of users k = Some u
    \<and> u_active u \<and> SUPER_ADMIN_ROLE \<in> u_roles u"
proof -
  have "identity_step None ex_store"
    using step_first [of None ex_hasher 7 "''u-1''" "''na''" "'' Ann@Shop.Test''" "''correct-horse''" None]
    unfolding ex_store_eval by simp
  from identity_reachable_invariant [OF identity_next [OF identity_refl this]]
  obtain roles users where r: "identity_read ex_store = Inr (roles, users)"
    "users \<noteq> [] \<longrightarrow> (\<exists>k u. map_of users k = Some u \<and> u_active u \<and> SUPER_ADMIN_ROLE \<in> u_roles u)"
    by blast
  moreover have "users \<noteq> []" using r(1) ex_store_read by auto
  ultimately show ?thesis by blast
qed

theorem last_super_admin_protected_witness:
  "set_active ''u-1'' False ex_store =
     (Inl (IdentityInvariantError ''at least one active super administrator is required''), ex_store)"
  using last_super_admin_protected [OF ex_store_ok ex_store_read, of "''u-1''" ex_admin] by (simp split: if_splits)

theorem has_permission_exact_witness: "has_permission ''u-1'' ''orders.read'' ex_store = Inr True"
proof -
  have "validate_permission ''orders.read'' = Inr ''orders.read''" by code_simp
  from has_permission_exact [OF ex_store_ok ex_store_read _ this, of "''u-1''" ex_admin]
  show ?thesis by (auto simp: ex_admin_def super_role_def)
qed

theorem authenticate_exact_witness:
  "\<exists>u. authenticate ex_hasher ''x'' '' Ann@Shop.Test'' ''correct-horse'' ex_store = Inr u \<and> u_active u"
  using authenticate_exact [OF ex_store_ok ex_store_read ex_email, of ex_hasher "''correct-horse''" "''x''"]
  by (auto simp: ex_admin_def ex_hasher_def split: if_splits)

subsection \<open>Properties of the session store\<close>

lemma takeWhile_dot: "CHR ''.'' \<notin> set a \<Longrightarrow> takeWhile (\<lambda>c. c \<noteq> CHR ''.'') (a @ CHR ''.'' # b) = a"
  by (induction a) auto

lemma dropWhile_dot: "CHR ''.'' \<notin> set a \<Longrightarrow> dropWhile (\<lambda>c. c \<noteq> CHR ''.'') (a @ CHR ''.'' # b) = CHR ''.'' # b"
  by (induction a) auto

lemma rx_ascii:
  assumes "fullmatch r s" "rx_ok r" "\<And>c. rx_allows r c \<Longrightarrow> (of_char c :: nat) < 128"
  shows "\<not> list_ex (\<lambda>c. 128 \<le> (of_char c :: nat)) s"
  using assms fullmatch_chars [OF assms(1,2)] by (auto simp: list_ex_iff) fastforce

lemma session_id_props:
  assumes "fullmatch session_id_pattern s"
  shows "CHR ''.'' \<notin> set s" "length s = 36" "\<not> list_ex (\<lambda>c. 128 \<le> (of_char c :: nat)) s"
proof -
  have ok: "rx_ok session_id_pattern" by (simp add: session_id_pattern_def hex_block_def Let_def)
  have l: "rx_lang session_id_pattern s" using assms fullmatch_iff [OF ok] by blast
  show "CHR ''.'' \<notin> set s"
    using fullmatch_chars [OF assms ok, of "CHR ''.''"]
    by (auto simp: session_id_pattern_def hex_block_def Let_def in_class_def)
  show "length s = 36"
    using l by (auto simp: session_id_pattern_def hex_block_def Let_def rx_lang_Seq within_def)
  show "\<not> list_ex (\<lambda>c. 128 \<le> (of_char c :: nat)) s"
    by (rule rx_ascii [OF assms ok])
      (auto simp: session_id_pattern_def hex_block_def Let_def in_class_def)
qed

lemma session_secret_props:
  assumes "fullmatch session_secret_pattern s"
  shows "length s \<le> 128" "\<not> list_ex (\<lambda>c. 128 \<le> (of_char c :: nat)) s"
proof -
  have ok: "rx_ok session_secret_pattern" by (simp add: session_secret_pattern_def)
  show "length s \<le> 128"
    using assms fullmatch_iff [OF ok] by (auto simp: session_secret_pattern_def within_def)
  show "\<not> list_ex (\<lambda>c. 128 \<le> (of_char c :: nat)) s"
    by (rule rx_ascii [OF assms ok]) (auto simp: session_secret_pattern_def in_class_def)
qed

lemma parse_issued_token:
  assumes "fullmatch session_id_pattern uuid" "fullmatch session_secret_pattern secret"
  shows "parse_session_token (uuid @ ''.'' @ secret) = Inr (uuid @ ''.'' @ secret, uuid)"
  using assms session_id_props [OF assms(1)] session_secret_props [OF assms(2)]
  by (simp add: parse_session_token_def takeWhile_dot dropWhile_dot MAX_SESSION_TOKEN_CHARS_def)

lemma parse_session_tokenD:
  "parse_session_token token = Inr (raw, sid) \<Longrightarrow> raw = token \<and> sid = takeWhile (\<lambda>c. c \<noteq> CHR ''.'') token"
  by (auto simp: parse_session_token_def Let_def split: if_splits list.splits)

text \<open>A created session validates with its own token, and only live sessions validate: creation
  returns a token that is accepted until it expires while its user stays active, and it leaves
  every other unexpired, unrevoked session in place.
\<close>

theorem created_session_validates:
  assumes "sessions_ok f" "fullmatch session_id_pattern uuid" "fullmatch session_secret_pattern secret"
    and "create_session cfg identity clock uuid secret user_id now ttl f = (Inr token, f')"
    and "identity_now clock now = Inr issued" "identity_now clock' now' = Inr t" "t < st_expires_at token"
    and "require_active_user identity' user_id = Inr ()"
  shows "(\<exists>r. validate_session cfg identity' clock' (st_value token) now' f' = Inr r
      \<and> se_id r = uuid \<and> se_user_id r = user_id \<and> se_expires_at r = st_expires_at token)
    \<and> (\<forall>k r. k \<noteq> uuid \<longrightarrow> session_map f k = Some r \<longrightarrow> se_revoked_at r = None \<longrightarrow> issued < se_expires_at r
         \<longrightarrow> session_map f' k = Some r)"
proof -
  let ?tok = "uuid @ ''.'' @ secret"
  have d: "dict_ok (session_records f)" using assms(1) by (simp add: sessions_ok_def)
  obtain ks where ks: "purge_records issued (cleanup_batch_size cfg) (session_records f) = (length ks, fold AList.delete ks (session_records f))"
    "\<And>k. k \<in> set ks \<Longrightarrow> \<exists>r. map_of (session_records f) k = Some r \<and> terminal_at issued r \<noteq> None"
    using purge_records_map [OF d] by metis
  obtain life where w: "token = \<lparr>st_session_id = uuid, st_value = ?tok, st_expires_at = issued + life\<rparr>"
    "f' = session_write (AList.update uuid \<lparr>se_id = uuid, se_user_id = user_id, se_token_digest = session_digest cfg ?tok,
        se_issued_at = issued, se_expires_at = issued + life, se_revoked_at = None\<rparr>
        (fold AList.delete ks (session_records f)))"
    using assms(4,5) ks(1) by (auto simp: create_session_def Let_def split: sum.splits if_splits)
  have m: "session_map f' = (\<lambda>k. if k = uuid then Some \<lparr>se_id = uuid, se_user_id = user_id,
        se_token_digest = session_digest cfg ?tok, se_issued_at = issued, se_expires_at = issued + life,
        se_revoked_at = None\<rparr> else if k \<in> set ks then None else session_map f k)"
    unfolding w(2) using d
    by (auto simp: session_map_write fold_delete map_of_update session_map_def [of f])
  have "validate_session cfg identity' clock' (st_value token) now' f' = Inr \<lparr>se_id = uuid, se_user_id = user_id,
        se_token_digest = session_digest cfg ?tok, se_issued_at = issued, se_expires_at = issued + life,
        se_revoked_at = None\<rparr>"
    using assms(6-8) parse_issued_token [OF assms(2,3)] w(1) m
    by (simp add: validate_session_def session_map_def)
  moreover have "k \<notin> set ks" if "session_map f k = Some r" "se_revoked_at r = None" "issued < se_expires_at r" for k r
    using ks(2) that by (force simp: session_map_def terminal_at_def)
  ultimately show ?thesis using w(1) m by auto
qed

definition ex_session_cfg :: session_config where
  "ex_session_cfg = \<lparr>token_pepper = replicate 32 CHR ''p'', token_hmac = (\<lambda>k t. rev t), default_ttl = hours 8,
     maximum_ttl = hours 720, cleanup_batch_size = 256\<rparr>"

definition ex_sid :: string where "ex_sid = ''0123abcd-0123-4567-89ab-0123456789ab''"
definition ex_secret :: string where "ex_secret = ''abcdefghijklmnopqrstuvwxyz0123456789''"

lemma ex_session_patterns: "fullmatch session_id_pattern ex_sid" "fullmatch session_secret_pattern ex_secret"
  by code_simp+

definition ex_session :: session_record where
  "ex_session = \<lparr>se_id = ex_sid, se_user_id = ''u-1'', se_token_digest = rev (ex_sid @ ''.'' @ ex_secret),
     se_issued_at = 100, se_expires_at = 100 + hours 8, se_revoked_at = None\<rparr>"

definition ex_token :: session_token where
  "ex_token = \<lparr>st_session_id = ex_sid, st_value = ex_sid @ ''.'' @ ex_secret, st_expires_at = 100 + hours 8\<rparr>"

lemma ex_active: "require_active_user (Some ex_store) ''u-1'' = Inr ()"
  using ex_store_read by (simp add: require_active_user_def get_user_def ex_admin_def)

lemma ex_create_eval:
  "create_session ex_session_cfg (Some ex_store) 100 ex_sid ex_secret ''u-1'' None None None =
     (Inr ex_token, Some [(ex_sid, ex_session)])"
  using ex_active
  by (simp add: create_session_def identity_now_def utc_or_now_def ex_session_cfg_def Let_def purge_records_def
      terminal_batch_def session_records_def session_write_def dict_sorted_def ex_session_def ex_token_def
      session_digest_def List.map_filter_def)

theorem created_session_validates_witness:
  "\<exists>r. validate_session ex_session_cfg (Some ex_store) 200 (ex_sid @ ''.'' @ ex_secret) None (Some [(ex_sid, ex_session)]) = Inr r
     \<and> se_user_id r = ''u-1''"
  using created_session_validates [OF _ ex_session_patterns ex_create_eval, of 100 200 None 200 "Some ex_store"] ex_active
  by (auto simp: sessions_ok_def session_records_def session_map_def identity_now_def utc_or_now_def ex_token_def)

text \<open>What validates is a stored, unrevoked, unexpired session whose digest is that of the
  presented token, of an active user; a second token accepted for the same session has the
  same digest.
\<close>

theorem validated_session_is_live:
  assumes "validate_session cfg identity clock token now f = Inr r"
  shows "\<exists>t. identity_now clock now = Inr t
    \<and> session_map f (takeWhile (\<lambda>c. c \<noteq> CHR ''.'') token) = Some r
    \<and> se_revoked_at r = None \<and> t < se_expires_at r \<and> se_token_digest r = session_digest cfg token
    \<and> require_active_user identity (se_user_id r) = Inr ()"
  using assms
  by (auto simp: validate_session_def session_map_def dest!: parse_session_tokenD
      split: sum.splits option.splits if_splits)

theorem validated_session_is_live_witness:
  "session_map (Some [(ex_sid, ex_session)]) (takeWhile (\<lambda>c. c \<noteq> CHR ''.'') (ex_sid @ ''.'' @ ex_secret)) = Some ex_session"
proof -
  have "validate_session ex_session_cfg (Some ex_store) 200 (ex_sid @ ''.'' @ ex_secret) None (Some [(ex_sid, ex_session)]) = Inr ex_session"
    using parse_issued_token [OF ex_session_patterns] ex_active
    by (simp add: validate_session_def identity_now_def utc_or_now_def session_records_def ex_session_def
        session_digest_def ex_session_cfg_def)
  from validated_session_is_live [OF this] show ?thesis by blast
qed

text \<open>
  C17: revocation is final: after \<open>revoke\<close> has answered for a session, no sequence of session
  operations that does not reissue its identifier makes any token with that identifier valid
  again, for any user state and at any time.
\<close>

theorem revocation_is_final:
  assumes "sessions_ok f" "revoke_session clock sid now f = (Inr r, f')"
    and "session_steps cfg {sid} f' g"
    and "takeWhile (\<lambda>c. c \<noteq> CHR ''.'') token = sid"
  shows "\<exists>e. validate_session cfg' identity clock' token now' g = Inl e"
proof -
  have d: "dict_ok (session_records f)" using assms(1) by (simp add: sessions_ok_def)
  have ok: "sessions_ok f'" using revoke_session_map [OF assms(1), of clock sid now] assms(2) by simp
  obtain r0 where r0: "map_of (session_records f) sid = Some r0"
    using assms(2) by (auto simp: revoke_session_def Let_def split: option.splits)
  have "dead sid f'"
  proof (cases "se_revoked_at r0")
    case None
    then obtain t where "f' = session_write (AList.update sid (r0\<lparr>se_revoked_at := Some t\<rparr>) (session_records f))"
      using assms(2) r0 by (auto simp: revoke_session_def Let_def split: sum.splits)
    then show ?thesis using d by (simp add: dead_def session_map_write map_of_update)
  next
    case (Some t)
    then have "f' = f" using assms(2) r0 by (simp add: revoke_session_def)
    then show ?thesis using r0 Some by (simp add: dead_def session_map_def)
  qed
  then have "dead sid g" using session_steps_dead [OF assms(3) ok] by blast
  then show ?thesis
    using assms(4)
    by (auto simp: validate_session_def dead_def session_map_def dest!: parse_session_tokenD
        split: sum.splits option.splits)
qed

theorem revocation_is_final_witness:
  "\<exists>f' e. validate_session ex_session_cfg (Some ex_store) 300 (ex_sid @ ''.'' @ ex_secret) None f' = Inl e"
proof -
  have ok: "sessions_ok (Some [(ex_sid, ex_session)])"
    by (simp add: sessions_ok_def session_records_def session_map_def dict_ok_def ex_session_def)
  obtain r f' where r: "revoke_session 200 ex_sid None (Some [(ex_sid, ex_session)]) = (Inr r, f')"
    by (simp add: revoke_session_def session_records_def Let_def identity_now_def utc_or_now_def ex_session_def)
  have "takeWhile (\<lambda>c. c \<noteq> CHR ''.'') (ex_sid @ ''.'' @ ex_secret) = ex_sid"
    using takeWhile_dot [OF session_id_props(1) [OF ex_session_patterns(1)]] by simp
  from revocation_is_final [OF ok r session_refl this] show ?thesis by blast
qed

end
