(* ===== verification/Cache.thy ===== *)
theory Cache
  imports Py_Regex
begin

text \<open>
  \<open>NamespacedTTLCache\<close> of \<open>cache.py\<close>. Every section under the lock is one atomic function on the
  cache; \<open>get_or_set\<close> is three of them (entering, publishing the produced value, releasing the
  key), between which other threads run. Times are microseconds of the monotonic clock;
  the dictionary of entries keeps insertion order, as Python's does.
\<close>

subsection \<open>Data\<close>

type_synonym cache_key = "string \<times> string"

record 'v cache_entry =
  ce_value :: 'v
  ce_expires_at :: int

record 'v cache =
  maximum_entries :: nat
  entries :: "(cache_key, 'v cache_entry) dict"
  inflight :: "(cache_key, nat) dict"
  generations :: "(cache_key, nat) dict"
  hits :: nat
  misses :: nat
  writes :: nat
  evictions :: nat

datatype cache_error = CacheValueError string | CacheTypeError string | CacheTimeoutError string

record cache_stats =
  stat_hits :: nat
  stat_misses :: nat
  stat_writes :: nat
  stat_evictions :: nat
  stat_entries :: nat

definition namespace_pattern :: rx where
  "namespace_pattern =
     Seq (Cls [lower] 1 (Some 1)) (Cls [lower, digit, single CHR ''.'', single CHR ''-''] 1 (Some 127))"

definition cache_key_pattern :: rx where
  "cache_key_pattern =
     Seq (Cls [upper, lower, digit] 1 (Some 1))
       (Cls [upper, lower, digit, single CHR ''.'', single CHR ''_'', single CHR '':'', single CHR ''/'',
             single CHR ''-''] 0 (Some 255))"

definition validate_namespace :: "string \<Rightarrow> cache_error + string" where
  "validate_namespace n =
     (if fullmatch namespace_pattern n then Inr n else Inl (CacheValueError ''invalid cache namespace''))"

definition validate_key :: "string \<Rightarrow> cache_error + string" where
  "validate_key k =
     (if fullmatch cache_key_pattern k then Inr k else Inl (CacheValueError ''invalid cache key''))"

definition validated_key :: "string \<Rightarrow> string \<Rightarrow> cache_error + cache_key" where
  "validated_key n k =
     (case validate_namespace n of Inl e \<Rightarrow> Inl e | Inr _ \<Rightarrow>
      case validate_key k of Inl e \<Rightarrow> Inl e | Inr _ \<Rightarrow> Inr (n, k))"

definition MAX_TTL :: int where "MAX_TTL = seconds 31536000"

definition valid_ttl :: "int \<Rightarrow> bool" where
  "valid_ttl ttl \<longleftrightarrow> 0 < ttl \<and> ttl \<le> MAX_TTL"

text \<open>\<open>NamespacedTTLCache.__init__\<close>\<close>

definition make_cache :: "int \<Rightarrow> int \<Rightarrow> cache_error + 'v cache" where
  "make_cache wait_timeout maximum =
     (if \<not> (0 < wait_timeout \<and> wait_timeout \<le> seconds 300)
      then Inl (CacheValueError ''cache coalescing wait timeout must be between 0 and 300 seconds'')
      else if \<not> (1 \<le> maximum \<and> maximum \<le> 1000000)
      then Inl (CacheValueError ''cache maximum entries must be between 1 and 1000000'')
      else Inr \<lparr>maximum_entries = nat maximum, entries = [], inflight = [], generations = [],
                hits = 0, misses = 0, writes = 0, evictions = 0\<rparr>)"

subsection \<open>Sections under the lock\<close>

definition generation :: "'v cache \<Rightarrow> cache_key \<Rightarrow> nat" where
  "generation c k = (case map_of (generations c) k of None \<Rightarrow> 0 | Some g \<Rightarrow> g)"

definition is_inflight :: "'v cache \<Rightarrow> cache_key \<Rightarrow> bool" where
  "is_inflight c k \<longleftrightarrow> map_of (inflight c) k \<noteq> None"

definition bump_generation :: "cache_key \<Rightarrow> 'v cache \<Rightarrow> 'v cache" where
  "bump_generation k c = c\<lparr>generations := AList.update k (generation c k + 1) (generations c)\<rparr>"

definition drop_generation :: "cache_key \<Rightarrow> 'v cache \<Rightarrow> 'v cache" where
  "drop_generation k c = c\<lparr>generations := AList.delete k (generations c)\<rparr>"

definition drop_idle_generation :: "cache_key \<Rightarrow> 'v cache \<Rightarrow> 'v cache" where
  "drop_idle_generation k c = (if is_inflight c k then c else drop_generation k c)"

definition bump_or_drop :: "cache_key \<Rightarrow> 'v cache \<Rightarrow> 'v cache" where
  "bump_or_drop k c = (if is_inflight c k then bump_generation k c else drop_generation k c)"

definition remove_entry :: "cache_key \<Rightarrow> 'v cache \<Rightarrow> 'v cache" where
  "remove_entry k c = c\<lparr>entries := AList.delete k (entries c)\<rparr>"

definition get_locked :: "int \<Rightarrow> cache_key \<Rightarrow> 'v cache \<Rightarrow> 'v option \<times> 'v cache" where
  "get_locked now k c =
     (case map_of (entries c) k of
        None \<Rightarrow> (None, c)
      | Some e \<Rightarrow>
          if ce_expires_at e \<le> now
          then (None, (drop_idle_generation k (remove_entry k c))\<lparr>evictions := evictions c + 1\<rparr>)
          else (Some (ce_value e), c))"

definition purge_expired :: "int \<Rightarrow> 'v cache \<Rightarrow> 'v cache" where
  "purge_expired now c =
     (let expired = map fst (filter (\<lambda>(k, e). ce_expires_at e \<le> now) (entries c))
      in (fold (\<lambda>k. drop_idle_generation k \<circ> remove_entry k) expired c)\<lparr>evictions := evictions c + length expired\<rparr>)"

text \<open>The two clock readings of \<open>_store_locked\<close>: of the purge and of the new entry.\<close>

definition store_locked :: "int \<Rightarrow> int \<Rightarrow> cache_key \<Rightarrow> 'v \<Rightarrow> int \<Rightarrow> 'v cache \<Rightarrow> 'v cache" where
  "store_locked now now' k v ttl c =
     (let c1 = purge_expired now c;
          c2 = (if map_of (entries c1) k = None \<and> maximum_entries c1 \<le> length (entries c1)
                then (case entries c1 of
                        [] \<Rightarrow> c1
                      | (oldest, _) # _ \<Rightarrow>
                          (bump_or_drop oldest (remove_entry oldest c1))\<lparr>evictions := evictions c1 + 1\<rparr>)
                else c1)
      in c2\<lparr>entries := AList.update k \<lparr>ce_value = v, ce_expires_at = now' + ttl\<rparr> (entries c2),
            writes := writes c2 + 1\<rparr>)"

subsection \<open>Operations\<close>

definition cache_get :: "int \<Rightarrow> string \<Rightarrow> string \<Rightarrow> 'v \<Rightarrow> 'v cache \<Rightarrow> (cache_error + 'v) \<times> 'v cache" where
  "cache_get now n k dflt c =
     (case validated_key n k of Inl e \<Rightarrow> (Inl e, c) | Inr key \<Rightarrow>
      case get_locked now key c of
        (None, c') \<Rightarrow> (Inr dflt, c'\<lparr>misses := misses c' + 1\<rparr>)
      | (Some v, c') \<Rightarrow> (Inr v, c'\<lparr>hits := hits c' + 1\<rparr>))"

definition cache_set ::
  "int \<Rightarrow> int \<Rightarrow> string \<Rightarrow> string \<Rightarrow> 'v \<Rightarrow> int \<Rightarrow> 'v cache \<Rightarrow> (cache_error + unit) \<times> 'v cache" where
  "cache_set now now' n k v ttl c =
     (case validated_key n k of Inl e \<Rightarrow> (Inl e, c) | Inr key \<Rightarrow>
      if \<not> valid_ttl ttl then (Inl (CacheValueError ''cache ttl must be between 0 and 31536000 seconds''), c)
      else (Inr (), store_locked now now' key v ttl (if is_inflight c key then bump_generation key c else c)))"

text \<open>The loop section of \<open>get_or_set\<close>: a hit, ownership of the production, or a wait.\<close>

datatype 'v entered = Hit 'v | Owner nat | Waiting

definition enter :: "int \<Rightarrow> cache_key \<Rightarrow> 'v cache \<Rightarrow> 'v entered \<times> 'v cache" where
  "enter now key c =
     (case get_locked now key c of
        (Some v, c') \<Rightarrow> (Hit v, c'\<lparr>hits := hits c' + 1\<rparr>)
      | (None, c') \<Rightarrow>
          if is_inflight c' key then (Waiting, c')
          else (Owner (generation c' key),
                c'\<lparr>inflight := AList.update key (generation c' key) (inflight c'), misses := misses c' + 1\<rparr>))"

definition get_or_set_enter ::
  "int \<Rightarrow> string \<Rightarrow> string \<Rightarrow> int \<Rightarrow> 'v cache \<Rightarrow> (cache_error + 'v entered) \<times> 'v cache" where
  "get_or_set_enter now n k ttl c =
     (case validated_key n k of Inl e \<Rightarrow> (Inl e, c) | Inr key \<Rightarrow>
      if \<not> valid_ttl ttl then (Inl (CacheValueError ''cache ttl must be between 0 and 31536000 seconds''), c)
      else (case enter now key c of (r, c') \<Rightarrow> (Inr r, c')))"

definition publish :: "int \<Rightarrow> int \<Rightarrow> cache_key \<Rightarrow> nat \<Rightarrow> 'v \<Rightarrow> int \<Rightarrow> 'v cache \<Rightarrow> 'v cache" where
  "publish now now' key g v ttl c = (if generation c key = g then store_locked now now' key v ttl c else c)"

definition release :: "cache_key \<Rightarrow> 'v cache \<Rightarrow> 'v cache" where
  "release key c =
     (let c1 = c\<lparr>inflight := AList.delete key (inflight c)\<rparr>
      in if map_of (entries c1) key = None then drop_generation key c1 else c1)"

definition cache_delete :: "string \<Rightarrow> string \<Rightarrow> 'v cache \<Rightarrow> (cache_error + bool) \<times> 'v cache" where
  "cache_delete n k c =
     (case validated_key n k of Inl e \<Rightarrow> (Inl e, c) | Inr key \<Rightarrow>
      let removed = (map_of (entries c) key \<noteq> None);
          c1 = bump_or_drop key (remove_entry key c)
      in (Inr removed, if removed then c1\<lparr>evictions := evictions c1 + 1\<rparr> else c1))"

definition targeted :: "string \<Rightarrow> string option \<Rightarrow> cache_key \<Rightarrow> bool" where
  "targeted n prefix key \<longleftrightarrow> fst key = n \<and> (case prefix of None \<Rightarrow> True | Some p \<Rightarrow> starts_with (snd key) p)"

definition invalidate_namespace ::
  "string \<Rightarrow> string option \<Rightarrow> 'v cache \<Rightarrow> (cache_error + nat) \<times> 'v cache" where
  "invalidate_namespace n prefix c =
     (case validate_namespace n of Inl e \<Rightarrow> (Inl e, c) | Inr _ \<Rightarrow>
      if (case prefix of None \<Rightarrow> False | Some p \<Rightarrow> p = [] \<or> 256 < length p)
      then (Inl (CacheValueError ''cache prefix must contain 1..256 characters''), c)
      else
        let entry_targets = filter (targeted n prefix) (map fst (entries c));
            inflight_targets = filter (targeted n prefix) (map fst (inflight c));
            c1 = fold remove_entry entry_targets c;
            c2 = fold bump_or_drop (remdups (entry_targets @ inflight_targets)) c1
        in (Inr (length entry_targets), c2\<lparr>evictions := evictions c2 + length entry_targets\<rparr>))"

definition stats :: "int \<Rightarrow> 'v cache \<Rightarrow> cache_stats \<times> 'v cache" where
  "stats now c =
     (let c' = purge_expired now c
      in (\<lparr>stat_hits = hits c', stat_misses = misses c', stat_writes = writes c', stat_evictions = evictions c',
           stat_entries = length (entries c')\<rparr>, c'))"

subsection \<open>What a section leaves of a production in flight\<close>

definition keeps :: "cache_key \<Rightarrow> 'v cache \<Rightarrow> 'v cache \<Rightarrow> bool" where
  "keeps k c c' \<longleftrightarrow> map_of (inflight c') k = map_of (inflight c) k \<and> (is_inflight c k \<longrightarrow> generation c k \<le> generation c' k)"

lemma keeps_refl [simp]: "keeps k c c"
  by (simp add: keeps_def)

lemma keeps_trans: "keeps k a b \<Longrightarrow> keeps k b c \<Longrightarrow> keeps k a c"
  by (auto simp: keeps_def is_inflight_def)

lemma generation_cong [simp]:
  "generation (c\<lparr>entries := x\<rparr>) k = generation c k" "generation (c\<lparr>inflight := y\<rparr>) k = generation c k"
  "generation (c\<lparr>hits := h\<rparr>) k = generation c k" "generation (c\<lparr>misses := h\<rparr>) k = generation c k"
  "generation (c\<lparr>writes := h\<rparr>) k = generation c k" "generation (c\<lparr>evictions := h\<rparr>) k = generation c k"
  by (simp_all add: generation_def)

lemma is_inflight_cong [simp]:
  "is_inflight (c\<lparr>entries := x\<rparr>) k = is_inflight c k" "is_inflight (c\<lparr>generations := y\<rparr>) k = is_inflight c k"
  "is_inflight (c\<lparr>hits := h\<rparr>) k = is_inflight c k" "is_inflight (c\<lparr>misses := h\<rparr>) k = is_inflight c k"
  "is_inflight (c\<lparr>writes := h\<rparr>) k = is_inflight c k" "is_inflight (c\<lparr>evictions := h\<rparr>) k = is_inflight c k"
  by (simp_all add: is_inflight_def)

lemma keeps_updates [simp]:
  "keeps k c (c'\<lparr>entries := x\<rparr>) = keeps k c c'" "keeps k c (c'\<lparr>hits := h\<rparr>) = keeps k c c'"
  "keeps k c (c'\<lparr>misses := h\<rparr>) = keeps k c c'" "keeps k c (c'\<lparr>writes := h\<rparr>) = keeps k c c'"
  "keeps k c (c'\<lparr>evictions := h\<rparr>) = keeps k c c'"
  by (simp_all add: keeps_def)

lemma generation_bump: "generation (bump_generation j c) k = (if k = j then generation c k + 1 else generation c k)"
  by (simp add: generation_def bump_generation_def map_of_update)

lemma generation_drop: "k \<noteq> j \<Longrightarrow> generation (drop_generation j c) k = generation c k"
  by (simp add: generation_def drop_generation_def map_of_delete)

lemma inflight_simps [simp]:
  "inflight (bump_generation j c) = inflight c" "inflight (drop_generation j c) = inflight c"
  "inflight (drop_idle_generation j c) = inflight c" "inflight (bump_or_drop j c) = inflight c"
  "inflight (remove_entry j c) = inflight c"
  by (simp_all add: bump_generation_def drop_generation_def drop_idle_generation_def bump_or_drop_def remove_entry_def)

lemma entries_simps [simp]:
  "entries (bump_generation j c) = entries c" "entries (drop_generation j c) = entries c"
  "entries (drop_idle_generation j c) = entries c" "entries (bump_or_drop j c) = entries c"
  "entries (remove_entry j c) = AList.delete j (entries c)"
  by (simp_all add: bump_generation_def drop_generation_def drop_idle_generation_def bump_or_drop_def remove_entry_def)

lemma maximum_simps [simp]:
  "maximum_entries (bump_generation j c) = maximum_entries c" "maximum_entries (drop_generation j c) = maximum_entries c"
  "maximum_entries (drop_idle_generation j c) = maximum_entries c" "maximum_entries (bump_or_drop j c) = maximum_entries c"
  "maximum_entries (remove_entry j c) = maximum_entries c"
  by (simp_all add: bump_generation_def drop_generation_def drop_idle_generation_def bump_or_drop_def remove_entry_def)

lemma keeps_sections:
  "keeps k c (bump_generation j c)" "keeps k c (drop_idle_generation j c)" "keeps k c (bump_or_drop j c)"
  "keeps k c (remove_entry j c)"
proof -
  show "keeps k c (bump_generation j c)" by (simp add: keeps_def generation_bump)
  show "keeps k c (drop_idle_generation j c)" "keeps k c (bump_or_drop j c)"
    by (cases "k = j"; simp add: keeps_def drop_idle_generation_def bump_or_drop_def generation_bump generation_drop)+
  show "keeps k c (remove_entry j c)" by (simp add: remove_entry_def)
qed

lemma keeps_fold: "(\<And>j c. keeps k c (f j c)) \<Longrightarrow> keeps k c (fold f js c)"
  by (induction js arbitrary: c) (auto intro: keeps_trans)

lemma keeps_purge: "keeps k c (purge_expired now c)"
  unfolding purge_expired_def Let_def keeps_updates
  by (rule keeps_fold) (auto intro: keeps_trans keeps_sections)

lemma keeps_drop_entry: "keeps k c (drop_idle_generation j (remove_entry j c))"
  by (rule keeps_trans [OF keeps_sections(4) keeps_sections(2)])

lemma keeps_evict: "keeps k c (bump_or_drop j (remove_entry j c))"
  by (rule keeps_trans [OF keeps_sections(4) keeps_sections(3)])

lemma keeps_get_locked: "keeps k c (snd (get_locked now j c))"
  by (simp add: get_locked_def keeps_drop_entry split: option.splits)

lemma keeps_store: "keeps k c (store_locked now now' j v ttl c)"
proof -
  have "keeps k c (bump_or_drop i (remove_entry i (purge_expired now c)))" for i
    by (rule keeps_trans [OF keeps_purge keeps_evict])
  then show ?thesis
    by (simp add: store_locked_def Let_def keeps_purge split: list.split prod.split)
qed

subsection \<open>Threads\<close>

text \<open>
  One atomic section of some thread other than the one that produces the value of \<open>key\<close>: it may
  ask for any key, but it publishes and releases only keys of its own.
\<close>

inductive cache_step :: "cache_key \<Rightarrow> 'v cache \<Rightarrow> 'v cache \<Rightarrow> bool" for key :: cache_key where
  step_get: "cache_step key c (snd (cache_get now n k dflt c))"
| step_set: "cache_step key c (snd (cache_set now now' n k v ttl c))"
| step_enter: "cache_step key c (snd (get_or_set_enter now n k ttl c))"
| step_publish: "j \<noteq> key \<Longrightarrow> cache_step key c (publish now now' j g v ttl c)"
| step_release: "j \<noteq> key \<Longrightarrow> cache_step key c (release j c)"
| step_delete: "cache_step key c (snd (cache_delete n k c))"
| step_invalidate: "cache_step key c (snd (invalidate_namespace n prefix c))"
| step_stats: "cache_step key c (snd (stats now c))"

inductive cache_steps :: "cache_key \<Rightarrow> 'v cache \<Rightarrow> 'v cache \<Rightarrow> bool" for key :: cache_key where
  cache_refl: "cache_steps key c c"
| cache_next: "cache_steps key c d \<Longrightarrow> cache_step key d e \<Longrightarrow> cache_steps key c e"

lemma keeps_cache_get: "keeps k c (snd (cache_get now n j dflt c))"
  using keeps_get_locked [of k c now]
  by (auto simp: cache_get_def split: sum.split prod.split option.split) (metis snd_conv)+

lemma keeps_cache_set: "keeps k c (snd (cache_set now now' n j v ttl c))"
proof -
  have "keeps k c (store_locked now now' i v ttl (if is_inflight c i then bump_generation i c else c))" for i
    by (rule keeps_trans [OF _ keeps_store]) (simp add: keeps_sections)
  then show ?thesis by (simp add: cache_set_def split: sum.split)
qed

lemma keeps_enter:
  assumes "is_inflight c k" shows "keeps k c (snd (enter now j c))"
proof -
  obtain r c' where g: "get_locked now j c = (r, c')" by fastforce
  have kc: "keeps k c c'" using keeps_get_locked [of k c now j] g by simp
  then have "is_inflight c' k" using assms by (simp add: keeps_def is_inflight_def)
  then have "keeps k c' (c'\<lparr>inflight := AList.update j (generation c' j) (inflight c')\<rparr>)" if "\<not> is_inflight c' j"
    using that by (auto simp: keeps_def map_of_update)
  then show ?thesis using g kc keeps_trans [OF kc] by (simp add: enter_def split: option.split)
qed

lemma keeps_invalidate: "keeps k c (snd (invalidate_namespace n prefix c))"
proof -
  have "keeps k c (fold bump_or_drop bs (fold remove_entry rs c))" for bs rs
    by (rule keeps_trans [OF keeps_fold keeps_fold]) (simp_all add: keeps_sections)
  then show ?thesis by (simp add: invalidate_namespace_def Let_def split: sum.split)
qed

lemma cache_step_keeps:
  assumes "cache_step key c d" "is_inflight c key" shows "keeps key c d"
  using assms
proof (induction rule: cache_step.induct)
  case (step_enter c now n k ttl)
  then show ?case
    using keeps_enter [of c key now "(n, k)"]
    by (auto simp: get_or_set_enter_def validated_key_def split: sum.split prod.split)
next
  case (step_publish j c now now' g v ttl)
  then show ?case by (simp add: publish_def keeps_store)
next
  case (step_release j c)
  then show ?case
    by (auto simp: release_def Let_def keeps_def map_of_delete generation_drop)
next
  case (step_delete c n k)
  then show ?case by (simp add: cache_delete_def Let_def keeps_evict split: sum.split)
next
  case (step_stats c now)
  then show ?case by (simp add: stats_def Let_def keeps_purge)
qed (simp_all add: keeps_cache_get keeps_cache_set keeps_invalidate)

lemma cache_steps_keeps: "cache_steps key c d \<Longrightarrow> is_inflight c key \<Longrightarrow> keeps key c d \<and> is_inflight d key"
proof (induction rule: cache_steps.induct)
  case (cache_next c d e)
  then have d: "keeps key c d" "is_inflight d key" by auto
  have "keeps key d e" using cache_step_keeps [OF cache_next(2) d(2)] .
  moreover from this have "is_inflight e key" using d(2) by (simp add: keeps_def is_inflight_def)
  ultimately show ?case using keeps_trans [OF d(1)] by simp
qed simp

subsection \<open>Capacity\<close>

definition cache_ok :: "'v cache \<Rightarrow> bool" where
  "cache_ok c \<longleftrightarrow> dict_ok (entries c) \<and> length (entries c) \<le> maximum_entries c \<and> 1 \<le> maximum_entries c"

lemma cache_ok_updates [simp]:
  "cache_ok (c\<lparr>inflight := y\<rparr>) = cache_ok c" "cache_ok (c\<lparr>hits := h\<rparr>) = cache_ok c"
  "cache_ok (c\<lparr>misses := h\<rparr>) = cache_ok c" "cache_ok (c\<lparr>writes := h\<rparr>) = cache_ok c"
  "cache_ok (c\<lparr>evictions := h\<rparr>) = cache_ok c" "cache_ok (c\<lparr>generations := g\<rparr>) = cache_ok c"
  by (simp_all add: cache_ok_def)

lemma cache_ok_sections [simp]:
  "cache_ok (bump_generation j c) = cache_ok c" "cache_ok (drop_generation j c) = cache_ok c"
  "cache_ok (drop_idle_generation j c) = cache_ok c" "cache_ok (bump_or_drop j c) = cache_ok c"
  by (simp_all add: cache_ok_def)

lemma cache_ok_remove: "cache_ok c \<Longrightarrow> cache_ok (remove_entry j c)"
  using length_delete_le [of j "entries c"] by (simp add: cache_ok_def)

lemma cache_ok_fold: "(\<And>j c. cache_ok c \<Longrightarrow> cache_ok (f j c)) \<Longrightarrow> cache_ok c \<Longrightarrow> cache_ok (fold f js c)"
  by (induction js arbitrary: c) auto

lemma cache_ok_purge: "cache_ok c \<Longrightarrow> cache_ok (purge_expired now c)"
  unfolding purge_expired_def Let_def cache_ok_updates
  by (rule cache_ok_fold) (simp_all add: cache_ok_remove)

lemma cache_ok_get_locked: "cache_ok c \<Longrightarrow> cache_ok (snd (get_locked now j c))"
  by (simp add: get_locked_def cache_ok_remove split: option.split)

lemma cache_ok_store:
  assumes "cache_ok c" shows "cache_ok (store_locked now now' j v ttl c)"
proof -
  let ?c = "purge_expired now c"
  let ?e = "\<lparr>ce_value = v, ce_expires_at = now' + ttl\<rparr>"
  have ok: "cache_ok ?c" by (rule cache_ok_purge [OF assms])
  show ?thesis
  proof (cases "map_of (entries ?c) j = None \<and> maximum_entries ?c \<le> length (entries ?c)")
    case True
    then obtain i e xs where xs: "entries ?c = (i, e) # xs" using ok by (cases "entries ?c") (auto simp: cache_ok_def)
    have "i \<notin> fst ` set xs" using ok xs by (simp add: cache_ok_def dict_ok_def)
    then have d: "AList.delete i (entries ?c) = xs" using xs by (simp add: delete_idem)
    have "map_of xs j = None" using True xs by (auto split: if_splits)
    then have "length (AList.update j ?e xs) = Suc (length xs)" by (rule length_update_new)
    moreover have "dict_ok xs" using ok xs by (simp add: cache_ok_def dict_ok_def)
    ultimately show ?thesis
      using True ok xs d by (simp add: store_locked_def Let_def cache_ok_def)
  next
    case False
    then have "length (AList.update j ?e (entries ?c)) \<le> maximum_entries ?c"
      using ok length_update_new [of "entries ?c" j ?e] length_update_old [of "entries ?c" j _ ?e]
      by (cases "map_of (entries ?c) j") (auto simp: cache_ok_def)
    then show ?thesis using False ok by (auto simp: store_locked_def Let_def cache_ok_def)
  qed
qed

lemma cache_step_ok:
  assumes "cache_step key c d" "cache_ok c" shows "cache_ok d"
  using assms
proof (induction rule: cache_step.induct)
  case (step_get c now n k dflt)
  then show ?case
    using cache_ok_get_locked [of c now "(n, k)"]
    by (auto simp: cache_get_def validated_key_def split: sum.split prod.split option.split)
next
  case (step_set c now now' n k v ttl)
  then show ?case by (auto simp: cache_set_def intro: cache_ok_store split: sum.split)
next
  case (step_enter c now n k ttl)
  then show ?case
    using cache_ok_get_locked [of c now "(n, k)"]
    by (auto simp: get_or_set_enter_def enter_def validated_key_def split: sum.split prod.split option.split)
next
  case (step_publish j c now now' g v ttl)
  then show ?case by (simp add: publish_def cache_ok_store)
next
  case (step_release j c)
  then show ?case by (simp add: release_def Let_def)
next
  case (step_delete c n k)
  then show ?case by (simp add: cache_delete_def Let_def cache_ok_remove split: sum.split)
next
  case (step_invalidate c n prefix)
  have "cache_ok (fold bump_or_drop bs (fold remove_entry rs c))" for bs rs
    by (intro cache_ok_fold) (simp_all add: cache_ok_remove step_invalidate)
  then show ?case using step_invalidate by (simp add: invalidate_namespace_def Let_def split: sum.split)
next
  case (step_stats c now)
  then show ?case by (simp add: stats_def Let_def cache_ok_purge)
qed

text \<open>The cache after any sections of any threads.\<close>

inductive cache_run :: "'v cache \<Rightarrow> 'v cache \<Rightarrow> bool" where
  run_refl: "cache_run c c"
| run_next: "cache_run c d \<Longrightarrow> cache_step key d e \<Longrightarrow> cache_run c e"

lemma maximum_fold: "(\<And>j c. maximum_entries (f j c) = maximum_entries c) \<Longrightarrow> maximum_entries (fold f js c) = maximum_entries c"
  by (induction js arbitrary: c) auto

lemma maximum_purge [simp]: "maximum_entries (purge_expired now c) = maximum_entries c"
  by (simp add: purge_expired_def Let_def maximum_fold)

lemma maximum_get_locked: "get_locked now j c = (r, d) \<Longrightarrow> maximum_entries d = maximum_entries c"
  by (auto simp: get_locked_def split: option.splits if_splits)

lemma maximum_store [simp]: "maximum_entries (store_locked now now' j v ttl c) = maximum_entries c"
  by (simp add: store_locked_def Let_def split: list.split prod.split)

lemma cache_step_maximum: "cache_step key c d \<Longrightarrow> maximum_entries d = maximum_entries c"
  by (induction rule: cache_step.induct)
    (auto simp: cache_get_def cache_set_def get_or_set_enter_def enter_def publish_def release_def cache_delete_def
      invalidate_namespace_def stats_def Let_def maximum_fold
      dest: maximum_get_locked split: sum.split prod.split option.split)

lemma evictions_sections [simp]:
  "evictions (bump_or_drop j c) = evictions c" "evictions (remove_entry j c) = evictions c"
  by (simp_all add: bump_or_drop_def bump_generation_def drop_generation_def remove_entry_def)

lemma evictions_fold [simp]:
  "evictions (fold bump_or_drop js c) = evictions c" "evictions (fold remove_entry js c) = evictions c"
  by (induction js arbitrary: c) simp_all

lemma cache_run_ok: "cache_run c d \<Longrightarrow> cache_ok c \<Longrightarrow> cache_ok d"
  by (induction rule: cache_run.induct) (auto intro: cache_step_ok)

subsection \<open>Properties\<close>

text \<open>The operations that make the value of the key \<open>(n, k)\<close> obsolete, when they are accepted.\<close>

inductive invalidation :: "string \<Rightarrow> string \<Rightarrow> 'v cache \<Rightarrow> 'v cache \<Rightarrow> bool" for n k :: string where
  by_set: "cache_set now now' n k v ttl c = (Inr (), d) \<Longrightarrow> invalidation n k c d"
| by_delete: "cache_delete n k c = (Inr b, d) \<Longrightarrow> invalidation n k c d"
| by_namespace: "invalidate_namespace n prefix c = (Inr m, d) \<Longrightarrow> targeted n prefix (n, k) \<Longrightarrow> invalidation n k c d"

lemma valid_key_is_pair [simp]: "validated_key n k = Inr key \<Longrightarrow> key = (n, k)"
  by (auto simp: validated_key_def validate_namespace_def validate_key_def split: if_splits)

lemma bump_in_flight: "is_inflight c key \<Longrightarrow> generation (bump_or_drop key c) key = generation c key + 1"
  by (simp add: bump_or_drop_def generation_bump)

lemma generation_bump_or_drop: "k \<noteq> j \<Longrightarrow> generation (bump_or_drop j c) k = generation c k"
  by (simp add: bump_or_drop_def generation_bump generation_drop)

lemma generation_fold_bump:
  assumes "is_inflight c key" "key \<in> set js" shows "generation c key < generation (fold bump_or_drop js c) key"
proof -
  obtain xs ys where js: "js = xs @ key # ys" using assms(2) by (meson split_list)
  let ?c = "fold bump_or_drop xs c"
  let ?d = "bump_or_drop key ?c"
  have x: "keeps key c ?c" by (rule keeps_fold) (simp add: keeps_sections)
  then have fl: "is_inflight ?c key" using assms(1) by (simp add: keeps_def is_inflight_def)
  then have fd: "is_inflight ?d key" by (simp add: is_inflight_def)
  have y: "keeps key ?d (fold bump_or_drop ys ?d)" by (rule keeps_fold) (simp add: keeps_sections)
  have "generation c key \<le> generation ?c key" using x assms(1) by (simp add: keeps_def)
  also have "\<dots> < generation ?d key" using bump_in_flight [OF fl] by simp
  also have "\<dots> \<le> generation (fold bump_or_drop ys ?d) key" using y fd by (simp add: keeps_def)
  finally show ?thesis by (simp add: js)
qed

lemma generation_fold_remove [simp]: "generation (fold remove_entry js c) k = generation c k"
  by (induction js arbitrary: c) (simp_all add: remove_entry_def)

lemma inflight_fold_remove [simp]: "inflight (fold remove_entry js c) = inflight c"
  by (induction js arbitrary: c) simp_all

lemma entries_fold_remove: "map_of (entries (fold remove_entry js c)) k = (if k \<in> set js then None else map_of (entries c) k)"
  by (induction js arbitrary: c) (auto simp: map_of_delete)

lemma entries_fold_bump [simp]: "entries (fold bump_or_drop js c) = entries c"
  by (induction js arbitrary: c) simp_all

lemma invalidation_advances:
  assumes "invalidation n k c d" "is_inflight c (n, k)"
  shows "generation c (n, k) < generation d (n, k) \<and> is_inflight d (n, k)"
  using assms(1)
proof cases
  case (by_set now now' v ttl)
  let ?b = "bump_generation (n, k) c"
  have d: "d = store_locked now now' (n, k) v ttl ?b"
    using by_set assms(2) by (auto simp: cache_set_def validated_key_def split: sum.splits if_splits)
  have b: "is_inflight ?b (n, k)" using assms(2) by (simp add: is_inflight_def)
  moreover have "keeps (n, k) ?b d" unfolding d by (rule keeps_store)
  ultimately show ?thesis using generation_bump [of "(n, k)" c "(n, k)"] by (simp add: keeps_def is_inflight_def)
next
  case (by_delete b)
  let ?r = "remove_entry (n, k) c"
  have r: "is_inflight ?r (n, k)" using assms(2) by (simp add: is_inflight_def)
  have "generation d (n, k) = generation (bump_or_drop (n, k) ?r) (n, k)" "inflight d = inflight c"
    using by_delete by (auto simp: cache_delete_def validated_key_def Let_def split: sum.splits if_splits)
  then show ?thesis using bump_in_flight [OF r] assms(2) by (simp add: remove_entry_def is_inflight_def)
next
  case (by_namespace prefix m)
  let ?e = "filter (targeted n prefix) (map fst (entries c))"
  let ?i = "filter (targeted n prefix) (map fst (inflight c))"
  let ?r = "fold remove_entry ?e c"
  let ?d = "fold bump_or_drop (remdups (?e @ ?i)) ?r"
  have d: "d = ?d\<lparr>evictions := evictions ?d + length ?e\<rparr>"
    using by_namespace(1) by (auto simp: invalidate_namespace_def Let_def split: sum.splits if_splits)
  have "(n, k) \<in> fst ` set (inflight c)" using assms(2) by (simp add: is_inflight_def map_of_eq_None_iff)
  then have "(n, k) \<in> set (remdups (?e @ ?i))" using by_namespace(2) by auto
  moreover have r: "is_inflight ?r (n, k)" using assms(2) by (simp add: is_inflight_def)
  ultimately have "generation ?r (n, k) < generation ?d (n, k)" by (rule generation_fold_bump [rotated])
  moreover have "keeps (n, k) ?r ?d" by (rule keeps_fold) (simp add: keeps_sections)
  ultimately show ?thesis using r by (simp add: d keeps_def is_inflight_def)
qed

lemma enter_owner:
  assumes "get_or_set_enter t n k ttl c = (Inr (Owner g), d)"
  shows "is_inflight d (n, k) \<and> generation d (n, k) = g"
proof -
  have "enter t (n, k) c = (Owner g, d)"
    using assms by (auto simp: get_or_set_enter_def validated_key_def split: sum.splits prod.splits if_splits)
  then show ?thesis
    by (auto simp: enter_def is_inflight_def map_of_update split: prod.splits option.splits if_splits)
qed

text \<open>C26: a value whose production was overtaken by an invalidation is never cached. A thread
  becomes the producer of a key; while its producer runs, other threads run any sections; one of
  them sets, deletes or invalidates the key. Whatever runs afterwards, when the producer publishes
  with the generation it entered with, the cache is left exactly as it was.\<close>

theorem stale_production_discarded:
  assumes "get_or_set_enter t n k ttl c = (Inr (Owner g), c1)"
    and "cache_steps (n, k) c1 c2" and "invalidation n k c2 c3" and "cache_steps (n, k) c3 c4"
  shows "publish now now' (n, k) g v ttl c4 = c4"
proof -
  have 1: "is_inflight c1 (n, k)" "generation c1 (n, k) = g" using enter_owner [OF assms(1)] by auto
  have 2: "g \<le> generation c2 (n, k)" "is_inflight c2 (n, k)"
    using cache_steps_keeps [OF assms(2) 1(1)] 1 by (auto simp: keeps_def)
  have 3: "g < generation c3 (n, k)" "is_inflight c3 (n, k)"
    using invalidation_advances [OF assms(3) 2(2)] 2(1) by auto
  have "g < generation c4 (n, k)" using cache_steps_keeps [OF assms(4) 3(2)] 3 by (auto simp: keeps_def)
  then show ?thesis by (simp add: publish_def)
qed

definition empty_cache :: "nat cache" where
  "empty_cache = \<lparr>maximum_entries = 2, entries = [], inflight = [], generations = [],
     hits = 0, misses = 0, writes = 0, evictions = 0\<rparr>"

theorem stale_production_discarded_witness:
  "\<exists>c1 c3. get_or_set_enter 0 ''ns'' ''k'' 5 empty_cache = (Inr (Owner 0), c1) \<and> cache_delete ''ns'' ''k'' c1 = (Inr False, c3)
     \<and> publish 1 1 (''ns'', ''k'') 0 7 5 c3 = c3"
proof -
  let ?c1 = "empty_cache\<lparr>inflight := [((''ns'', ''k''), 0)], misses := 1\<rparr>"
  let ?c3 = "?c1\<lparr>generations := [((''ns'', ''k''), 1)]\<rparr>"
  have e: "get_or_set_enter 0 ''ns'' ''k'' 5 empty_cache = (Inr (Owner 0), ?c1)" by code_simp
  have d: "cache_delete ''ns'' ''k'' ?c1 = (Inr False, ?c3)" by code_simp
  have "publish 1 1 (''ns'', ''k'') 0 7 5 ?c3 = ?c3"
    by (rule stale_production_discarded [OF e cache_refl by_delete [OF d] cache_refl])
  then show ?thesis using e d by blast
qed

text \<open>Whatever the threads do with a cache built by the constructor, it never holds more
  entries than its configured maximum, and never two entries of one key.\<close>

theorem cache_capacity_bound:
  assumes "make_cache wait maximum = Inr c" "cache_run c d"
  shows "int (length (entries d)) \<le> maximum \<and> distinct (map fst (entries d))"
proof -
  have "maximum_entries d = maximum_entries c" using assms(2)
    by (induction rule: cache_run.induct) (simp_all add: cache_step_maximum)
  moreover have "cache_ok c" "int (maximum_entries c) = maximum"
    using assms(1) by (auto simp: make_cache_def cache_ok_def split: if_splits)
  ultimately show ?thesis using cache_run_ok [OF assms(2)] by (simp add: cache_ok_def dict_ok_def)
qed

theorem cache_capacity_bound_witness:
  "\<exists>c d. make_cache 5 2 = Inr (c :: nat cache) \<and> cache_run c d \<and> int (length (entries d)) \<le> 2"
proof -
  let ?d = "snd (cache_set 0 0 ''ns'' ''k'' 7 5 empty_cache)"
  have c: "make_cache 5 2 = Inr empty_cache" by code_simp
  have r: "cache_run empty_cache ?d" by (rule run_next [OF run_refl step_set])
  show ?thesis using cache_capacity_bound [OF c r] c r by blast
qed

text \<open>Invalidating a namespace removes exactly the entries of that namespace whose key starts
  with the given prefix, reports their number, and leaves every other entry (those of other
  namespaces in particular) as it was.\<close>

theorem invalidate_namespace_exact:
  assumes "invalidate_namespace n prefix c = (Inr m, d)"
  shows "map_of (entries d) key = (if targeted n prefix key then None else map_of (entries c) key)
    \<and> m = length (filter (targeted n prefix) (map fst (entries c))) \<and> evictions d = evictions c + m"
proof -
  let ?e = "filter (targeted n prefix) (map fst (entries c))"
  let ?r = "fold remove_entry ?e c"
  let ?d = "fold bump_or_drop (remdups (?e @ filter (targeted n prefix) (map fst (inflight c)))) ?r"
  have d: "d = ?d\<lparr>evictions := evictions ?d + length ?e\<rparr>" and m: "m = length ?e"
    using assms by (auto simp: invalidate_namespace_def Let_def split: sum.splits if_splits)
  have "map_of (entries c) key = None" if "key \<notin> fst ` set (entries c)"
    using that by (simp add: map_of_eq_None_iff)
  then have "map_of (entries d) key = (if targeted n prefix key then None else map_of (entries c) key)"
    by (auto simp: d entries_fold_remove)
  then show ?thesis using m by (simp add: d)
qed

theorem invalidate_namespace_exact_witness:
  "\<exists>d. invalidate_namespace ''ns'' None (snd (cache_set 0 0 ''ns'' ''k'' 7 5 empty_cache)) = (Inr 1, d)
     \<and> map_of (entries d) (''ns'', ''k'') = None"
proof -
  let ?c = "snd (cache_set 0 0 ''ns'' ''k'' 7 5 empty_cache)"
  have i: "invalidate_namespace ''ns'' None ?c = (Inr 1, snd (invalidate_namespace ''ns'' None ?c))" by code_simp
  have "map_of (entries (snd (invalidate_namespace ''ns'' None ?c))) (''ns'', ''k'') = None"
    using invalidate_namespace_exact [OF i, of "(''ns'', ''k'')"] by (simp add: targeted_def)
  then show ?thesis using i by blast
qed

text \<open>What was stored is read back until it expires.\<close>

lemma set_then_get:
  assumes "cache_set now now' n k v ttl c = (Inr (), d)" "t < now' + ttl"
  shows "cache_get t n k dflt d = (Inr v, d\<lparr>hits := hits d + 1\<rparr>)"
  using assms by (auto simp: cache_set_def cache_get_def validated_key_def get_locked_def store_locked_def Let_def
      map_of_update split: sum.splits if_splits)

end
