(* ===== verification/Installer.thy ===== *)
theory Installer
  imports Prelude
begin

text \<open>
  The installer state machine of \<open>installer.py\<close>: a file that holds one of seven states, and
  \<open>advance\<close>, which moves to the next one only. Each public operation holds the file lock over its
  read and its write, so it is one function on the content of the file.
\<close>

datatype InstallState =
  NOT_STARTED | REQUIREMENTS_CHECKED | CONFIGURED | DATABASE_READY | ADMIN_READY | THEME_READY | COMPLETED

definition INSTALL_SEQUENCE :: "InstallState list" where
  "INSTALL_SEQUENCE =
     [NOT_STARTED, REQUIREMENTS_CHECKED, CONFIGURED, DATABASE_READY, ADMIN_READY, THEME_READY, COMPLETED]"

fun install_value :: "InstallState \<Rightarrow> string" where
  "install_value NOT_STARTED = ''not_started''"
| "install_value REQUIREMENTS_CHECKED = ''requirements_checked''"
| "install_value CONFIGURED = ''configured''"
| "install_value DATABASE_READY = ''database_ready''"
| "install_value ADMIN_READY = ''admin_ready''"
| "install_value THEME_READY = ''theme_ready''"
| "install_value COMPLETED = ''completed''"

datatype install_error = UnknownInstallState string | InvalidInstallTransition string

text \<open>The value of the \<open>state\<close> key of the file, if there is a file.\<close>

type_synonym install_file = "string option"

fun index_of :: "'a \<Rightarrow> 'a list \<Rightarrow> nat" where
  "index_of x [] = 0"
| "index_of x (y # ys) = (if x = y then 0 else Suc (index_of x ys))"

definition install_read :: "install_file \<Rightarrow> install_error + InstallState" where
  "install_read f =
     (let v = (case f of None \<Rightarrow> install_value NOT_STARTED | Some v \<Rightarrow> v)
      in case find (\<lambda>s. install_value s = v) INSTALL_SEQUENCE of
           None \<Rightarrow> Inl (UnknownInstallState v)
         | Some s \<Rightarrow> Inr s)"

definition expected_next :: "InstallState \<Rightarrow> InstallState option" where
  "expected_next current =
     (let i = index_of current INSTALL_SEQUENCE
      in if i + 1 < length INSTALL_SEQUENCE then Some (INSTALL_SEQUENCE ! (i + 1)) else None)"

definition validate_transition :: "install_file \<Rightarrow> InstallState \<Rightarrow> install_error + InstallState" where
  "validate_transition f target =
     (case install_read f of Inl e \<Rightarrow> Inl e | Inr current \<Rightarrow>
      if target = current then Inr current
      else if Some target \<noteq> expected_next current
      then Inl (InvalidInstallTransition
             (''cannot transition from '' @ install_value current @ '' to '' @ install_value target @
              ''; expected '' @
              (case expected_next current of Some s \<Rightarrow> install_value s | None \<Rightarrow> ''no further transition'')))
      else Inr current)"

definition install_write :: "InstallState \<Rightarrow> install_file" where
  "install_write s = Some (install_value s)"

definition advance :: "InstallState \<Rightarrow> install_file \<Rightarrow> (install_error + InstallState) \<times> install_file" where
  "advance target f =
     (case validate_transition f target of Inl e \<Rightarrow> (Inl e, f) | Inr current \<Rightarrow>
      if target = current then (Inr current, f) else (Inr target, install_write target))"

subsection \<open>Forward only\<close>

lemma find_first: "find P xs = Some x \<Longrightarrow> P x \<and> x \<in> set xs"
  by (induction xs) (auto split: if_splits)

lemma install_value_inj: "install_value s = install_value t \<Longrightarrow> s = t"
  by (cases s; cases t) simp_all

lemma all_in_sequence: "s \<in> set INSTALL_SEQUENCE"
  by (cases s) (simp_all add: INSTALL_SEQUENCE_def)

lemma install_read_write [simp]: "install_read (install_write s) = Inr s"
  by (cases s) (simp_all add: install_read_def install_write_def INSTALL_SEQUENCE_def)

definition rank :: "InstallState \<Rightarrow> nat" where
  "rank s = index_of s INSTALL_SEQUENCE"

lemma expected_next_iff: "expected_next s = Some t \<longleftrightarrow> rank t = Suc (rank s)"
  by (cases s; cases t) (simp_all add: expected_next_def rank_def INSTALL_SEQUENCE_def)

lemma rank_inj: "rank s = rank t \<Longrightarrow> s = t"
  by (cases s; cases t) (simp_all add: rank_def INSTALL_SEQUENCE_def)

lemma advance_cases:
  assumes "install_read f = Inr s"
  shows "advance target f =
    (if target = s then (Inr s, f)
     else if rank target = Suc (rank s) then (Inr target, install_write target)
     else (fst (advance target f), f))"
    and "target \<noteq> s \<Longrightarrow> rank target \<noteq> Suc (rank s) \<Longrightarrow> \<exists>m. fst (advance target f) = Inl (InvalidInstallTransition m)"
  using assms expected_next_iff [of s target] by (auto simp: advance_def validate_transition_def)

definition advance_all :: "InstallState list \<Rightarrow> install_file \<Rightarrow> install_file" where
  "advance_all targets f = fold (\<lambda>t. snd \<circ> advance t) targets f"

lemma advance_read:
  assumes "install_read f = Inr s"
  shows "\<exists>t. install_read (snd (advance target f)) = Inr t \<and> rank s \<le> rank t \<and> rank t \<le> Suc (rank s)
    \<and> (t = s \<or> t = target)"
proof (cases "target = s \<or> rank target \<noteq> Suc (rank s)")
  case True
  then have "snd (advance target f) = f" using advance_cases(1) [OF assms, of target] by (auto split: if_splits) (metis snd_conv)+
  then show ?thesis using assms by auto
next
  case False
  then show ?thesis using advance_cases(1) [OF assms, of target] by auto
qed

text \<open>Every state on the way has been a target.\<close>

lemma advance_all_visits:
  "install_read f = Inr s \<Longrightarrow>
   \<exists>t. install_read (advance_all ts f) = Inr t \<and> rank s \<le> rank t \<and>
     (\<forall>u. rank s < rank u \<and> rank u \<le> rank t \<longrightarrow> u \<in> set ts)"
proof (induction ts arbitrary: f s)
  case Nil
  then show ?case by (simp add: advance_all_def)
next
  case (Cons x ts)
  obtain s' where s': "install_read (snd (advance x f)) = Inr s'" "rank s \<le> rank s'" "rank s' \<le> Suc (rank s)" "s' = s \<or> s' = x"
    using advance_read [OF Cons.prems] by blast
  obtain t where t: "install_read (advance_all ts (snd (advance x f))) = Inr t" "rank s' \<le> rank t"
    "\<forall>u. rank s' < rank u \<and> rank u \<le> rank t \<longrightarrow> u \<in> set ts"
    using Cons.IH [OF s'(1)] by blast
  have "u \<in> set (x # ts)" if "rank s < rank u" "rank u \<le> rank t" for u
  proof (cases "rank s' < rank u")
    case True
    then show ?thesis using t(3) that by simp
  next
    case False
    then have "rank u = rank s'" "s' \<noteq> s" using s'(2,3) that by auto
    then show ?thesis using s'(4) rank_inj [of u s'] by auto
  qed
  moreover have "advance_all (x # ts) f = advance_all ts (snd (advance x f))" by (simp add: advance_all_def)
  ultimately show ?case using t s'(2) by (metis order_trans)
qed

text \<open>The installer only moves forward, one state at a time. From any readable file, any
  sequence of requested targets leaves a readable file whose state is not before the first one,
  and every state strictly after the first and up to the last was itself requested: no state of
  the sequence is ever skipped.\<close>

theorem install_never_skips:
  assumes "install_read f = Inr s" "install_read (advance_all targets f) = Inr t"
  shows "rank s \<le> rank t \<and> (\<forall>u. rank s < rank u \<and> rank u \<le> rank t \<longrightarrow> u \<in> set targets)"
  using advance_all_visits [OF assms(1), of targets] assms(2) by auto

theorem install_never_skips_witness:
  "install_read None = Inr NOT_STARTED
   \<and> install_read (advance_all [REQUIREMENTS_CHECKED, COMPLETED, CONFIGURED] None) = Inr CONFIGURED
   \<and> REQUIREMENTS_CHECKED \<in> set [REQUIREMENTS_CHECKED, COMPLETED, CONFIGURED]"
proof -
  have 1: "install_read None = Inr NOT_STARTED" by code_simp
  have 2: "install_read (advance_all [REQUIREMENTS_CHECKED, COMPLETED, CONFIGURED] None) = Inr CONFIGURED" by code_simp
  have "rank NOT_STARTED < rank REQUIREMENTS_CHECKED" "rank REQUIREMENTS_CHECKED \<le> rank CONFIGURED" by code_simp+
  then show ?thesis using install_never_skips [OF 1 2] 1 2 by blast
qed

end
