(* ===== verification/Hostname.thy ===== *)
theory Hostname
  imports Py_Regex
begin

text \<open>
  \<open>validate_dns_hostname\<close> of \<open>remote_control.py\<close>: the one gate through which a host name enters the
  remote control record, the pairing store and the check of a \<open>Host\<close> header.
\<close>

definition rstrip_dots :: "string \<Rightarrow> string" where
  "rstrip_dots s = rev (dropWhile (\<lambda>c. c = CHR ''.'') (rev s))"

definition ends_with :: "string \<Rightarrow> string \<Rightarrow> bool" where
  "ends_with s p = starts_with (rev s) (rev p)"

definition host_label :: rx where
  "host_label =
     Seq (Cls [lower, digit] 1 (Some 1))
       (Opt (Seq (Cls [lower, digit, single CHR ''-''] 0 (Some 61)) (Cls [lower, digit] 1 (Some 1))))"

text \<open>\<open>_HOSTNAME\<close> without its length look-ahead, which \<open>host_matches\<close> adds.\<close>

definition host_labels :: rx where
  "host_labels =
     (let labelled = Seq host_label (Cls [single CHR ''.''] 1 (Some 1))
      in Seq (Seq labelled (Many labelled)) (Cls [lower] 2 (Some 63)))"

definition host_matches :: "string \<Rightarrow> bool" where
  "host_matches s \<longleftrightarrow> 1 \<le> length s \<and> length s \<le> 253 \<and> fullmatch host_labels s"

definition host_chars :: char_class where
  "host_chars = [lower, digit, single CHR ''.'', single CHR ''-'']"

text \<open>
  \<open>ipaddress.ip_address\<close> on text of the characters \<open>a-z0-9.-\<close>: an IPv6 address needs a colon, so
  only the dotted decimal form of IPv4 remains.
\<close>

definition decimal_value :: "string \<Rightarrow> nat" where
  "decimal_value s = fold (\<lambda>c n. 10 * n + (of_char c - 48)) s 0"

definition ipv4_octet :: "string \<Rightarrow> bool" where
  "ipv4_octet s \<longleftrightarrow> s \<noteq> [] \<and> list_all (in_class [digit]) s \<and> length s \<le> 3
     \<and> (s = ''0'' \<or> hd s \<noteq> CHR ''0'') \<and> decimal_value s \<le> 255"

definition is_ip_address :: "string \<Rightarrow> bool" where
  "is_ip_address s = (let parts = split_on CHR ''.'' s in length parts = 4 \<and> list_all ipv4_octet parts)"

datatype hostname_error = InvalidRemoteHostname string

definition validate_dns_hostname :: "string \<Rightarrow> string \<Rightarrow> hostname_error + string" where
  "validate_dns_hostname value_text label =
     (let candidate = casefold (rstrip_dots (py_strip value_text)) in
      if candidate = [] then Inl (InvalidRemoteHostname (label @ '' is required''))
      else if \<not> list_all (in_class host_chars) candidate
      then Inl (InvalidRemoteHostname (label @ '' contains forbidden characters''))
      else if candidate \<in> {''localhost'', ''localhost.localdomain''}
      then Inl (InvalidRemoteHostname (label @ '' must not be a loopback name''))
      else if is_ip_address candidate
      then Inl (InvalidRemoteHostname (label @ '' must not be an IP address''))
      else if ends_with candidate ''.localhost'' \<or> ends_with candidate ''.local''
      then Inl (InvalidRemoteHostname (label @ '' must not be a local resolver name''))
      else if \<not> host_matches candidate
      then Inl (InvalidRemoteHostname (label @ '' must be a DNS hostname''))
      else Inr candidate)"

subsection \<open>Canonical names\<close>

lemma in_class_single: "in_class [single a] c \<longleftrightarrow> c = a"
  by (auto simp: in_class_def dest: of_char_eq_iff [THEN iffD1, OF antisym])

definition canonical_hostname :: "string \<Rightarrow> bool" where
  "canonical_hostname h \<longleftrightarrow> list_all (in_class host_chars) h \<and> host_matches h
     \<and> h \<notin> {''localhost'', ''localhost.localdomain''} \<and> \<not> is_ip_address h
     \<and> \<not> ends_with h ''.localhost'' \<and> \<not> ends_with h ''.local''"

lemma host_labels_ok: "rx_ok host_labels"
  by (simp add: host_labels_def host_label_def Let_def)

lemma host_char_fixed: "in_class host_chars c \<Longrightarrow> \<not> py_space c \<and> fold_char c = [c]"
  by (auto simp: host_chars_def in_class_def py_space_def fold_char_def Let_def)

lemma dropWhile_none: "list_all (\<lambda>c. \<not> P c) s \<Longrightarrow> dropWhile P s = s"
  by (cases s) auto

lemma strip_host: "list_all (in_class host_chars) s \<Longrightarrow> py_strip s = s"
  by (simp add: py_strip_def dropWhile_none list_all_iff host_char_fixed)

lemma fold_host: "list_all (in_class host_chars) s \<Longrightarrow> casefold s = s"
  by (induction s) (auto simp: casefold_def host_char_fixed)

lemma host_matches_last:
  assumes "host_matches s" shows "s \<noteq> [] \<and> in_class [lower] (last s)"
proof -
  have "rx_lang host_labels s" using assms fullmatch_iff [OF host_labels_ok] by (simp add: host_matches_def)
  then obtain p t where st: "s = p @ t" "list_all (in_class [lower]) t" "2 \<le> length t"
    by (auto simp: host_labels_def Let_def rx_lang_Seq)
  then have "t \<noteq> []" by auto
  then show ?thesis using st last_in_set [of t] by (auto simp: list_all_iff)
qed

lemma dots_kept: "s \<noteq> [] \<Longrightarrow> last s \<noteq> CHR ''.'' \<Longrightarrow> rstrip_dots s = s"
  by (cases s rule: rev_cases) (auto simp: rstrip_dots_def)

lemma canonical_fixed:
  assumes "canonical_hostname h" shows "validate_dns_hostname h label = Inr h"
proof -
  have m: "host_matches h" "list_all (in_class host_chars) h" using assms by (auto simp: canonical_hostname_def)
  have "h \<noteq> []" "last h \<noteq> CHR ''.''"
    using host_matches_last [OF m(1)] by (auto simp: in_class_def)
  then have "casefold (rstrip_dots (py_strip h)) = h"
    using m(2) by (simp add: strip_host dots_kept fold_host)
  then show ?thesis using assms \<open>h \<noteq> []\<close> by (simp add: validate_dns_hostname_def Let_def canonical_hostname_def)
qed

lemma validated_canonical: "validate_dns_hostname v label = Inr h \<Longrightarrow> canonical_hostname h"
  by (simp add: validate_dns_hostname_def Let_def canonical_hostname_def split: if_splits)

lemma validate_hostname_iff: "validate_dns_hostname h label = Inr h \<longleftrightarrow> canonical_hostname h"
  using canonical_fixed validated_canonical by blast

lemma canonical_chars: "canonical_hostname h \<Longrightarrow> list_all (in_class host_chars) h"
  by (simp add: canonical_hostname_def)

text \<open>Validation of host names is canonicalising and safe. Whatever text is accepted, under
  whatever label, the result validates to itself, consists of lower-case letters, digits, dots and
  hyphens only (so no scheme, port, path, wildcard, white space or control character can be
  smuggled in), has at most 253 characters and a dot, and is neither an IPv4 address nor a loopback
  or local resolver name.\<close>

theorem validated_hostname_canonical:
  assumes "validate_dns_hostname v label = Inr h"
  shows "validate_dns_hostname h label' = Inr h \<and> (\<forall>c \<in> set h. in_class host_chars c)
    \<and> length h \<le> 253 \<and> CHR ''.'' \<in> set h
    \<and> \<not> is_ip_address h \<and> h \<noteq> ''localhost'' \<and> \<not> ends_with h ''.localhost'' \<and> \<not> ends_with h ''.local''"
proof -
  have c: "canonical_hostname h" by (rule validated_canonical [OF assms])
  then have m: "host_matches h" by (simp add: canonical_hostname_def)
  then have "rx_lang host_labels h" using fullmatch_iff [OF host_labels_ok] by (simp add: host_matches_def)
  then have "\<exists>p t s. h = p @ t @ s \<and> rx_lang (Cls [single CHR ''.''] 1 (Some 1)) t"
    by (auto simp: host_labels_def Let_def rx_lang_Seq simp del: rx_lang_Cls) blast
  then have "CHR ''.'' \<in> set h" unfolding rx_lang_one in_class_single by auto
  then show ?thesis using canonical_fixed [OF c] c m by (simp add: canonical_hostname_def host_matches_def list_all_iff)
qed

theorem validated_hostname_canonical_witness:
  "validate_dns_hostname '' Panel.Example.ORG. '' ''host'' = Inr ''panel.example.org''
   \<and> validate_dns_hostname ''panel.example.org'' ''rp'' = Inr ''panel.example.org''"
proof -
  have "validate_dns_hostname '' Panel.Example.ORG. '' ''host'' = Inr ''panel.example.org''" by code_simp
  then show ?thesis using validated_hostname_canonical by blast
qed

end
