(* ===== verification/Remote_Control.thy ===== *)
theory Remote_Control
  imports Installer Hostname Py_Json
begin

text \<open>
  The remote control record of \<open>remote_control.py\<close>: intent, observed status and the status machine of
  \<open>RemoteControlStore\<close>, with the gateway plan and inspection models. A pydantic model is a record
  with a validation function; a failed validation is \<open>RcValidationError\<close>. The store is the content
  of its file; every writing method holds the file lock over its read and its write, so it is one
  function on that content, and \<open>_write_unlocked\<close> validates before it writes.
\<close>

subsection \<open>Data\<close>

datatype TlsMode = ACME | EXISTING_CERTIFICATE | TLS_DISABLED

datatype GatewayProviderName = NONE | NGINX | CADDY | TRAEFIK | EXTERNAL

datatype RemoteControlStatus =
  DISABLED | PREFLIGHT | ENROLLMENT_PENDING | PUBLICATION_PENDING | ENABLED | ERROR

datatype WanSurface = CLOSED | ACTIVATE_ONLY | CONTROL_CENTER

fun tls_value :: "TlsMode \<Rightarrow> string" where
  "tls_value ACME = ''acme''"
| "tls_value EXISTING_CERTIFICATE = ''existing_certificate''"
| "tls_value TLS_DISABLED = ''disabled''"

fun provider_value :: "GatewayProviderName \<Rightarrow> string" where
  "provider_value NONE = ''none''"
| "provider_value NGINX = ''nginx''"
| "provider_value CADDY = ''caddy''"
| "provider_value TRAEFIK = ''traefik''"
| "provider_value EXTERNAL = ''external''"

fun rc_status_value :: "RemoteControlStatus \<Rightarrow> string" where
  "rc_status_value DISABLED = ''disabled''"
| "rc_status_value PREFLIGHT = ''preflight''"
| "rc_status_value ENROLLMENT_PENDING = ''enrollment_pending''"
| "rc_status_value PUBLICATION_PENDING = ''publication_pending''"
| "rc_status_value ENABLED = ''enabled''"
| "rc_status_value ERROR = ''error''"

datatype rc_error =
    InvalidRemoteControlTransition string
  | RcHostname hostname_error
  | RcValidationError
  | RemoteControlError string

record remote_intent =
  public_hostname :: string
  control_hostname :: string
  tls_mode :: TlsMode
  gateway_provider :: GatewayProviderName
  remote_access_requested :: bool

record remote_record =
  intent :: "remote_intent option"
  status :: RemoteControlStatus
  enrolled_admin_passkey_rp_id :: "string option"
  error_code :: "string option"

definition WEB_LOOPBACK :: "string \<times> nat" where "WEB_LOOPBACK = (''127.0.0.1'', 8080)"
definition CONTROL_LOOPBACK :: "string \<times> nat" where "CONTROL_LOOPBACK = (''127.0.0.1'', 8081)"

definition FORBIDDEN_WAN_BIND_ADDRESSES :: "string list" where
  "FORBIDDEN_WAN_BIND_ADDRESSES = [''0.0.0.0'', ''::'', ''[::]'']"

definition rc_error_code_pattern :: rx where
  "rc_error_code_pattern =
     Seq (Cls [lower] 1 (Some 1))
       (Cls [lower, digit, single CHR ''.'', single CHR ''_'', single CHR ''-''] 0 (Some 127))"

definition is_forbidden_wan_bind :: "string \<Rightarrow> bool" where
  "is_forbidden_wan_bind host \<longleftrightarrow> casefold (py_strip host) \<in> set (map casefold FORBIDDEN_WAN_BIND_ADDRESSES)"

subsection \<open>Validation\<close>

definition validate_intent :: "remote_intent \<Rightarrow> rc_error + remote_intent" where
  "validate_intent i =
     (case validate_dns_hostname (public_hostname i) ''public_hostname'' of Inl _ \<Rightarrow> Inl RcValidationError | Inr p \<Rightarrow>
      case validate_dns_hostname (control_hostname i) ''control_hostname'' of Inl _ \<Rightarrow> Inl RcValidationError | Inr c \<Rightarrow>
      if p = c then Inl RcValidationError
      else if \<not> remote_access_requested i then Inr (i\<lparr>public_hostname := p, control_hostname := c\<rparr>)
      else if tls_mode i = TLS_DISABLED then Inl RcValidationError
      else if gateway_provider i = NONE then Inl RcValidationError
      else Inr (i\<lparr>public_hostname := p, control_hostname := c\<rparr>))"

definition validate_optional_hostname :: "string option \<Rightarrow> string \<Rightarrow> rc_error + string option" where
  "validate_optional_hostname v label =
     (case v of None \<Rightarrow> Inr None | Some h \<Rightarrow>
      case validate_dns_hostname h label of Inl _ \<Rightarrow> Inl RcValidationError | Inr h' \<Rightarrow> Inr (Some h'))"

definition validate_optional_intent :: "remote_intent option \<Rightarrow> rc_error + remote_intent option" where
  "validate_optional_intent v =
     (case v of None \<Rightarrow> Inr None | Some i \<Rightarrow>
      case validate_intent i of Inl e \<Rightarrow> Inl e | Inr i' \<Rightarrow> Inr (Some i'))"

definition active_statuses :: "RemoteControlStatus set" where
  "active_statuses = {PREFLIGHT, ENROLLMENT_PENDING, PUBLICATION_PENDING, ENABLED}"

definition requested :: "remote_record \<Rightarrow> bool" where
  "requested r = (case intent r of None \<Rightarrow> False | Some i \<Rightarrow> remote_access_requested i)"

definition enrolled_admin_passkey :: "remote_record \<Rightarrow> bool" where
  "enrolled_admin_passkey r =
     (case intent r of None \<Rightarrow> False | Some i \<Rightarrow> enrolled_admin_passkey_rp_id r = Some (control_hostname i))"

text \<open>\<open>RemoteControlRecord.validate_observed_invariants\<close>\<close>

definition validate_observed_invariants :: "remote_record \<Rightarrow> bool" where
  "validate_observed_invariants r \<longleftrightarrow>
     \<not> (status r \<in> active_statuses \<and> \<not> requested r)
     \<and> \<not> (status r \<in> {PUBLICATION_PENDING, ENABLED} \<and> \<not> enrolled_admin_passkey r)
     \<and> \<not> (status r \<noteq> ERROR \<and> error_code r \<noteq> None)
     \<and> \<not> (status r = ERROR \<and> error_code r = None)"

definition rc_error_code_ok :: "string option \<Rightarrow> bool" where
  "rc_error_code_ok v = (case v of None \<Rightarrow> True | Some c \<Rightarrow> fullmatch rc_error_code_pattern c)"

definition validate_record :: "remote_record \<Rightarrow> rc_error + remote_record" where
  "validate_record r =
     (case validate_optional_intent (intent r) of Inl e \<Rightarrow> Inl e | Inr i \<Rightarrow>
      case validate_optional_hostname (enrolled_admin_passkey_rp_id r) ''enrolled_admin_passkey_rp_id'' of
        Inl e \<Rightarrow> Inl e
      | Inr h \<Rightarrow>
          if \<not> rc_error_code_ok (error_code r) then Inl RcValidationError
          else let r' = r\<lparr>intent := i, enrolled_admin_passkey_rp_id := h\<rparr>
               in if validate_observed_invariants r' then Inr r' else Inl RcValidationError)"

subsection \<open>Surfaces\<close>

definition remote_control_enabled :: "RemoteControlStatus \<Rightarrow> bool" where
  "remote_control_enabled s \<longleftrightarrow> s = ENABLED"

definition wan_surface :: "remote_record \<Rightarrow> WanSurface" where
  "wan_surface r =
     (if status r = ENABLED \<and> enrolled_admin_passkey r then CONTROL_CENTER
      else if status r \<in> {ENROLLMENT_PENDING, PUBLICATION_PENDING} then ACTIVATE_ONLY
      else CLOSED)"

definition publication_surface :: "remote_record \<Rightarrow> WanSurface" where
  "publication_surface r =
     (if status r = PUBLICATION_PENDING \<and> enrolled_admin_passkey r then CONTROL_CENTER else wan_surface r)"

text \<open>\<open>model_dump(mode="json")\<close>\<close>

definition optional_text :: "string option \<Rightarrow> pyval" where
  "optional_text v = (case v of None \<Rightarrow> VNull | Some s \<Rightarrow> VStr s)"

definition intent_dump :: "remote_intent \<Rightarrow> pyval" where
  "intent_dump i = VDict None
     [(KStr ''public_hostname'', VStr (public_hostname i)), (KStr ''control_hostname'', VStr (control_hostname i)),
      (KStr ''tls_mode'', VStr (tls_value (tls_mode i))),
      (KStr ''gateway_provider'', VStr (provider_value (gateway_provider i))),
      (KStr ''remote_access_requested'', VBool (remote_access_requested i))]"

definition canonical_record :: "remote_record \<Rightarrow> pyval" where
  "canonical_record r = VDict None
     [(KStr ''intent'', case intent r of None \<Rightarrow> VNull | Some i \<Rightarrow> intent_dump i),
      (KStr ''status'', VStr (rc_status_value (status r))),
      (KStr ''enrolled_admin_passkey_rp_id'', optional_text (enrolled_admin_passkey_rp_id r)),
      (KStr ''error_code'', optional_text (error_code r))]"

definition records_match :: "remote_record \<Rightarrow> remote_record \<Rightarrow> bool" where
  "records_match left right \<longleftrightarrow> canonical_record left = canonical_record right"

subsection \<open>Gateway plan and inspection\<close>

record gateway_plan =
  plan_record :: remote_record
  plan_surface :: WanSurface
  web_bind_host :: string
  web_bind_port :: nat
  control_bind_host :: string
  control_bind_port :: nat

definition bind_ok :: "string \<Rightarrow> nat \<Rightarrow> string \<times> nat \<Rightarrow> bool" where
  "bind_ok host port expected \<longleftrightarrow> \<not> is_forbidden_wan_bind host \<and> (host, port) = expected"

text \<open>The field constraints on the ports and \<open>validate_plan_matches_record\<close>.\<close>

definition validate_plan :: "gateway_plan \<Rightarrow> rc_error + gateway_plan" where
  "validate_plan p =
     (if \<not> (1 \<le> web_bind_port p \<and> web_bind_port p \<le> 65535 \<and> 1 \<le> control_bind_port p \<and> control_bind_port p \<le> 65535)
      then Inl RcValidationError
      else case validate_record (plan_record p) of Inl e \<Rightarrow> Inl e | Inr r \<Rightarrow>
      if plan_surface p \<noteq> publication_surface r then Inl RcValidationError
      else if plan_surface p = ACTIVATE_ONLY \<and> status r \<noteq> ENROLLMENT_PENDING then Inl RcValidationError
      else if plan_surface p = CONTROL_CENTER
              \<and> (status r \<notin> {PUBLICATION_PENDING, ENABLED} \<or> \<not> enrolled_admin_passkey r)
      then Inl RcValidationError
      else if \<not> bind_ok (web_bind_host p) (web_bind_port p) WEB_LOOPBACK
              \<or> \<not> bind_ok (control_bind_host p) (control_bind_port p) CONTROL_LOOPBACK
      then Inl RcValidationError
      else Inr (p\<lparr>plan_record := r\<rparr>))"

definition from_record :: "remote_record \<Rightarrow> rc_error + gateway_plan" where
  "from_record rec =
     (case validate_record rec of Inl e \<Rightarrow> Inl e | Inr r \<Rightarrow>
      if intent r = None then Inl (RemoteControlError ''gateway plan requires a remote control intent'')
      else validate_plan
        \<lparr>plan_record = r, plan_surface = publication_surface r,
         web_bind_host = fst WEB_LOOPBACK, web_bind_port = snd WEB_LOOPBACK,
         control_bind_host = fst CONTROL_LOOPBACK, control_bind_port = snd CONTROL_LOOPBACK\<rparr>)"

definition plan_for :: "remote_record \<Rightarrow> rc_error + gateway_plan" where
  "plan_for r = from_record r"

record gateway_inspection =
  provider :: GatewayProviderName
  seen_surface :: WanSurface
  control_port_public :: bool
  installer_open :: bool

definition validate_inspection :: "gateway_inspection \<Rightarrow> rc_error + gateway_inspection" where
  "validate_inspection i =
     (if control_port_public i then Inl RcValidationError
      else if installer_open i then Inl RcValidationError
      else Inr i)"

subsection \<open>The store\<close>

type_synonym remote_file = "remote_record option"

definition fresh_record :: remote_record where
  "fresh_record = \<lparr>intent = None, status = DISABLED, enrolled_admin_passkey_rp_id = None, error_code = None\<rparr>"

definition remote_read :: "remote_file \<Rightarrow> rc_error + remote_record" where
  "remote_read f = (case f of None \<Rightarrow> Inr fresh_record | Some r \<Rightarrow> validate_record r)"

definition remote_write :: "remote_record \<Rightarrow> remote_file \<Rightarrow> (rc_error + remote_record) \<times> remote_file" where
  "remote_write rec f =
     (case validate_record rec of Inl e \<Rightarrow> (Inl e, f) | Inr r \<Rightarrow> (Inr r, Some r))"

definition require_completed :: "InstallState \<Rightarrow> rc_error + unit" where
  "require_completed s =
     (if s \<noteq> COMPLETED
      then Inl (InvalidRemoteControlTransition ''remote control starts only after installation is COMPLETED'')
      else Inr ())"

text \<open>The shape of the guarded methods: completed installation, lock, read, then the transition.\<close>

definition locked_update ::
  "InstallState \<Rightarrow> (remote_record \<Rightarrow> remote_file \<Rightarrow> (rc_error + remote_record) \<times> remote_file) \<Rightarrow>
   remote_file \<Rightarrow> (rc_error + remote_record) \<times> remote_file" where
  "locked_update install body f =
     (case require_completed install of Inl e \<Rightarrow> (Inl e, f) | Inr _ \<Rightarrow>
      case remote_read f of Inl e \<Rightarrow> (Inl e, f) | Inr current \<Rightarrow> body current f)"

definition passkey_rp_id_for_intent :: "remote_record \<Rightarrow> remote_intent \<Rightarrow> string option" where
  "passkey_rp_id_for_intent current i =
     (if enrolled_admin_passkey_rp_id current = Some (control_hostname i)
      then enrolled_admin_passkey_rp_id current else None)"

definition request_remote ::
  "remote_intent \<Rightarrow> InstallState \<Rightarrow> remote_file \<Rightarrow> (rc_error + remote_record) \<times> remote_file" where
  "request_remote i install f =
     (case require_completed install of Inl e \<Rightarrow> (Inl e, f) | Inr _ \<Rightarrow>
      case validate_intent i of Inl e \<Rightarrow> (Inl e, f) | Inr i' \<Rightarrow>
      if \<not> remote_access_requested i'
      then (Inl (InvalidRemoteControlTransition ''remote access was not requested''), f)
      else case remote_read f of Inl e \<Rightarrow> (Inl e, f) | Inr current \<Rightarrow>
        remote_write \<lparr>intent = Some i', status = PREFLIGHT,
          enrolled_admin_passkey_rp_id = passkey_rp_id_for_intent current i', error_code = None\<rparr> f)"

definition fail_unlocked ::
  "string \<Rightarrow> remote_record \<Rightarrow> remote_file \<Rightarrow> (rc_error + remote_record) \<times> remote_file" where
  "fail_unlocked code current f = remote_write (current\<lparr>status := ERROR, error_code := Some code\<rparr>) f"

definition preflight_failed ::
  "string \<Rightarrow> InstallState \<Rightarrow> remote_file \<Rightarrow> (rc_error + remote_record) \<times> remote_file" where
  "preflight_failed code install f = locked_update install (\<lambda>current f.
     if status current \<notin> {PREFLIGHT, ENROLLMENT_PENDING, PUBLICATION_PENDING, ENABLED}
     then (Inl (InvalidRemoteControlTransition (''cannot mark preflight failure from '' @ rc_status_value (status current))), f)
     else fail_unlocked code current f) f"

definition preflight_succeeded :: "InstallState \<Rightarrow> remote_file \<Rightarrow> (rc_error + remote_record) \<times> remote_file" where
  "preflight_succeeded install f = locked_update install (\<lambda>current f.
     if status current \<noteq> PREFLIGHT
     then (Inl (InvalidRemoteControlTransition ''preflight success is only valid from PREFLIGHT''), f)
     else if enrolled_admin_passkey current
     then remote_write (current\<lparr>status := PUBLICATION_PENDING, error_code := None\<rparr>) f
     else remote_write (current\<lparr>status := ENROLLMENT_PENDING, error_code := None\<rparr>) f) f"

definition record_admin_passkey_enrolled ::
  "string \<Rightarrow> InstallState \<Rightarrow> remote_file \<Rightarrow> (rc_error + remote_record) \<times> remote_file" where
  "record_admin_passkey_enrolled rp install f =
     (case require_completed install of Inl e \<Rightarrow> (Inl e, f) | Inr _ \<Rightarrow>
      case validate_dns_hostname rp ''rp_id'' of Inl e \<Rightarrow> (Inl (RcHostname e), f) | Inr rp' \<Rightarrow>
      locked_update install (\<lambda>current f.
        if status current \<noteq> ENROLLMENT_PENDING
        then (Inl (InvalidRemoteControlTransition ''admin passkey enrollment is only valid during ENROLLMENT_PENDING''), f)
        else if wan_surface current \<noteq> ACTIVATE_ONLY
        then (Inl (InvalidRemoteControlTransition ''passkey enrollment requires the activate-only WAN surface''), f)
        else if (case intent current of None \<Rightarrow> True | Some i \<Rightarrow> rp' \<noteq> control_hostname i)
        then (Inl (InvalidRemoteControlTransition ''passkey RP ID must match the current control_hostname''), f)
        else remote_write
          (current\<lparr>enrolled_admin_passkey_rp_id := Some rp', status := PUBLICATION_PENDING, error_code := None\<rparr>) f) f)"

definition observe_control_center ::
  "remote_record \<Rightarrow> gateway_inspection \<Rightarrow> InstallState \<Rightarrow> remote_file \<Rightarrow> (rc_error + remote_record) \<times> remote_file" where
  "observe_control_center expected inspection install f =
     (case require_completed install of Inl e \<Rightarrow> (Inl e, f) | Inr _ \<Rightarrow>
      if seen_surface inspection \<noteq> CONTROL_CENTER
      then (Inl (InvalidRemoteControlTransition ''ENABLED requires inspected CONTROL_CENTER''), f)
      else if control_port_public inspection \<or> installer_open inspection
      then (Inl (InvalidRemoteControlTransition ''CONTROL_CENTER inspection is not fail-closed''), f)
      else locked_update install (\<lambda>current f.
        if \<not> records_match current expected
        then (Inl (InvalidRemoteControlTransition ''remote control record drifted during gateway observation''), f)
        else if (case intent current of None \<Rightarrow> True | Some i \<Rightarrow> provider inspection \<noteq> gateway_provider i)
        then (Inl (InvalidRemoteControlTransition ''CONTROL_CENTER inspection provider does not match intent''), f)
        else if status current = ENABLED \<and> enrolled_admin_passkey current then (Inr current, f)
        else if status current \<noteq> PUBLICATION_PENDING
        then (Inl (InvalidRemoteControlTransition ''CONTROL_CENTER observation is only valid during PUBLICATION_PENDING''), f)
        else if \<not> enrolled_admin_passkey current
        then (Inl (InvalidRemoteControlTransition ''CONTROL_CENTER observation requires an enrolled admin passkey''), f)
        else remote_write (current\<lparr>status := ENABLED, error_code := None\<rparr>) f) f)"

definition remote_fail ::
  "string \<Rightarrow> InstallState \<Rightarrow> remote_file \<Rightarrow> (rc_error + remote_record) \<times> remote_file" where
  "remote_fail code install f = locked_update install (\<lambda>current f.
     if status current = DISABLED
     then (Inl (InvalidRemoteControlTransition ''DISABLED has no WAN failure mode''), f)
     else fail_unlocked code current f) f"

definition fail_if_current ::
  "remote_record \<Rightarrow> string \<Rightarrow> InstallState \<Rightarrow> remote_file \<Rightarrow> (rc_error + remote_record) \<times> remote_file" where
  "fail_if_current expected code install f = locked_update install (\<lambda>current f.
     if \<not> records_match current expected then (Inr current, f)
     else if status current = DISABLED then (Inr current, f)
     else fail_unlocked code current f) f"

definition retry_preflight :: "InstallState \<Rightarrow> remote_file \<Rightarrow> (rc_error + remote_record) \<times> remote_file" where
  "retry_preflight install f = locked_update install (\<lambda>current f.
     if status current \<noteq> ERROR
     then (Inl (InvalidRemoteControlTransition ''retry is only valid from ERROR''), f)
     else if \<not> requested current
     then (Inl (InvalidRemoteControlTransition ''retry requires requested intent''), f)
     else remote_write (current\<lparr>status := PREFLIGHT, error_code := None\<rparr>) f) f"

definition remote_disable :: "InstallState \<Rightarrow> remote_file \<Rightarrow> (rc_error + remote_record) \<times> remote_file" where
  "remote_disable install f = locked_update install (\<lambda>current f.
     remote_write \<lparr>intent = intent current, status = DISABLED,
       enrolled_admin_passkey_rp_id = enrolled_admin_passkey_rp_id current, error_code = None\<rparr> f) f"

end
