(* ===== verification/Remote_Control_Safety.thy ===== *)
theory Remote_Control_Safety
  imports Remote_Control
begin

text \<open>
  What the remote control store guarantees: the file never holds an invalid record, the methods
  refine an abstract status machine, and the Control Center surface is never observed without an
  enrolled passkey of exactly the current control host and a later gateway inspection.
\<close>

subsection \<open>Valid records\<close>

definition intent_ok :: "remote_intent \<Rightarrow> bool" where
  "intent_ok i \<longleftrightarrow> canonical_hostname (public_hostname i) \<and> canonical_hostname (control_hostname i)
     \<and> public_hostname i \<noteq> control_hostname i
     \<and> (remote_access_requested i \<longrightarrow> tls_mode i \<noteq> TLS_DISABLED \<and> gateway_provider i \<noteq> NONE)"

definition remote_ok :: "remote_record \<Rightarrow> bool" where
  "remote_ok r \<longleftrightarrow> (\<forall>i. intent r = Some i \<longrightarrow> intent_ok i)
     \<and> (\<forall>h. enrolled_admin_passkey_rp_id r = Some h \<longrightarrow> canonical_hostname h)
     \<and> rc_error_code_ok (error_code r) \<and> validate_observed_invariants r"

lemma validate_intent_ok: "validate_intent i = Inr i' \<Longrightarrow> intent_ok i'"
  by (auto simp: validate_intent_def intent_ok_def validated_canonical split: sum.splits if_splits)

lemma intent_ok_fixed: "intent_ok i \<Longrightarrow> validate_intent i = Inr i"
  by (auto simp: validate_intent_def intent_ok_def canonical_fixed)

lemma validate_record_ok: "validate_record r = Inr r' \<Longrightarrow> remote_ok r'"
  by (auto simp: validate_record_def remote_ok_def validate_optional_intent_def validate_optional_hostname_def
      Let_def validate_intent_ok validated_canonical split: sum.splits option.splits if_splits)

lemma remote_ok_fixed:
  assumes "remote_ok r" shows "validate_record r = Inr r"
proof -
  have "validate_optional_intent (intent r) = Inr (intent r)"
    using assms by (auto simp: validate_optional_intent_def remote_ok_def intent_ok_fixed split: option.split)
  moreover have "validate_optional_hostname (enrolled_admin_passkey_rp_id r) l = Inr (enrolled_admin_passkey_rp_id r)" for l
    using assms by (auto simp: validate_optional_hostname_def remote_ok_def canonical_fixed split: option.split)
  ultimately show ?thesis using assms by (simp add: validate_record_def Let_def remote_ok_def)
qed

lemma fresh_record_ok: "remote_ok fresh_record"
  by (simp add: remote_ok_def fresh_record_def rc_error_code_ok_def validate_observed_invariants_def active_statuses_def)

lemma remote_read_ok: "remote_read f = Inr r \<Longrightarrow> remote_ok r"
  by (auto simp: remote_read_def fresh_record_ok validate_record_ok split: option.splits)

lemma remote_write_ok: "remote_ok r \<Longrightarrow> remote_write r f = (Inr r, Some r)"
  by (simp add: remote_write_def remote_ok_fixed)

lemma remote_read_Some: "remote_ok r \<Longrightarrow> remote_read (Some r) = Inr r"
  by (simp add: remote_read_def remote_ok_fixed)

lemma tls_value_inj: "tls_value a = tls_value b \<Longrightarrow> a = b" by (cases a; cases b) simp_all
lemma provider_value_inj: "provider_value a = provider_value b \<Longrightarrow> a = b" by (cases a; cases b) simp_all
lemma rc_status_value_inj: "rc_status_value a = rc_status_value b \<Longrightarrow> a = b" by (cases a; cases b) simp_all
lemma optional_text_inj: "optional_text a = optional_text b \<Longrightarrow> a = b"
  by (auto simp: optional_text_def split: option.splits)

lemma intent_dump_inj: "intent_dump i = intent_dump j \<Longrightarrow> i = j"
  by (cases i; cases j) (auto simp: intent_dump_def dest: tls_value_inj provider_value_inj)

lemma intent_dump_not_null [simp]: "intent_dump i \<noteq> VNull" "VNull \<noteq> intent_dump i"
  by (simp_all add: intent_dump_def)

text \<open>The compare-and-set on snapshots compares the records themselves.\<close>

lemma records_match_iff [simp]: "records_match l r \<longleftrightarrow> l = r"
proof
  assume m: "records_match l r"
  have "intent l = intent r"
    using m by (cases "intent l"; cases "intent r")
      (auto simp: records_match_def canonical_record_def dest: intent_dump_inj)
  then show "l = r"
    using m by (cases l; cases r)
      (auto simp: records_match_def canonical_record_def dest: rc_status_value_inj optional_text_inj)
qed (simp add: records_match_def)

subsection \<open>The operations as an abstract machine\<close>

datatype remote_op =
    Request remote_intent
  | PreflightFailed string
  | PreflightSucceeded
  | Enroll string
  | Observe remote_record gateway_inspection
  | Fail string
  | FailIfCurrent remote_record string
  | Retry
  | Disable

fun remote_apply :: "remote_op \<Rightarrow> InstallState \<Rightarrow> remote_file \<Rightarrow> (rc_error + remote_record) \<times> remote_file" where
  "remote_apply (Request i) s f = request_remote i s f"
| "remote_apply (PreflightFailed c) s f = preflight_failed c s f"
| "remote_apply PreflightSucceeded s f = preflight_succeeded s f"
| "remote_apply (Enroll rp) s f = record_admin_passkey_enrolled rp s f"
| "remote_apply (Observe e i) s f = observe_control_center e i s f"
| "remote_apply (Fail c) s f = remote_fail c s f"
| "remote_apply (FailIfCurrent e c) s f = fail_if_current e c s f"
| "remote_apply Retry s f = retry_preflight s f"
| "remote_apply Disable s f = remote_disable s f"

definition inspection_of :: "gateway_inspection \<Rightarrow> remote_record \<Rightarrow> bool" where
  "inspection_of insp r \<longleftrightarrow> seen_surface insp = CONTROL_CENTER \<and> \<not> control_port_public insp \<and> \<not> installer_open insp
     \<and> (\<exists>i. intent r = Some i \<and> provider insp = gateway_provider i)"

text \<open>The transitions that are allowed, on records, with what each one changes.\<close>

inductive remote_step :: "remote_op \<Rightarrow> remote_record \<Rightarrow> remote_record \<Rightarrow> bool" where
  to_preflight: "validate_intent i = Inr i' \<Longrightarrow> remote_access_requested i' \<Longrightarrow>
     remote_step (Request i) c \<lparr>intent = Some i', status = PREFLIGHT,
       enrolled_admin_passkey_rp_id = passkey_rp_id_for_intent c i', error_code = None\<rparr>"
| preflight_error: "status c \<in> active_statuses \<Longrightarrow> fullmatch rc_error_code_pattern code \<Longrightarrow>
     remote_step (PreflightFailed code) c (c\<lparr>status := ERROR, error_code := Some code\<rparr>)"
| to_publication: "status c = PREFLIGHT \<Longrightarrow> enrolled_admin_passkey c \<Longrightarrow>
     remote_step PreflightSucceeded c (c\<lparr>status := PUBLICATION_PENDING\<rparr>)"
| to_enrollment: "status c = PREFLIGHT \<Longrightarrow> \<not> enrolled_admin_passkey c \<Longrightarrow>
     remote_step PreflightSucceeded c (c\<lparr>status := ENROLLMENT_PENDING\<rparr>)"
| enroll: "status c = ENROLLMENT_PENDING \<Longrightarrow> intent c = Some i \<Longrightarrow>
     validate_dns_hostname rp ''rp_id'' = Inr (control_hostname i) \<Longrightarrow>
     remote_step (Enroll rp) c (c\<lparr>enrolled_admin_passkey_rp_id := Some (control_hostname i), status := PUBLICATION_PENDING\<rparr>)"
| enable: "status c = PUBLICATION_PENDING \<Longrightarrow> inspection_of insp c \<Longrightarrow>
     remote_step (Observe c insp) c (c\<lparr>status := ENABLED\<rparr>)"
| enabled_again: "status c = ENABLED \<Longrightarrow> inspection_of insp c \<Longrightarrow> remote_step (Observe c insp) c c"
| error: "status c \<noteq> DISABLED \<Longrightarrow> fullmatch rc_error_code_pattern code \<Longrightarrow>
     remote_step (Fail code) c (c\<lparr>status := ERROR, error_code := Some code\<rparr>)"
| error_current: "status c \<noteq> DISABLED \<Longrightarrow> fullmatch rc_error_code_pattern code \<Longrightarrow>
     remote_step (FailIfCurrent c code) c (c\<lparr>status := ERROR, error_code := Some code\<rparr>)"
| error_stale: "e \<noteq> c \<or> status c = DISABLED \<Longrightarrow> remote_step (FailIfCurrent e code) c c"
| retried: "status c = ERROR \<Longrightarrow> requested c \<Longrightarrow> remote_step Retry c (c\<lparr>status := PREFLIGHT, error_code := None\<rparr>)"
| disabled: "remote_step Disable c (c\<lparr>status := DISABLED, error_code := None\<rparr>)"

inductive_simps remote_step_simps:
  "remote_step (Request i) c r" "remote_step (PreflightFailed code) c r" "remote_step PreflightSucceeded c r"
  "remote_step (Enroll rp) c r" "remote_step (Observe e insp) c r" "remote_step (Fail code) c r"
  "remote_step (FailIfCurrent e code) c r" "remote_step Retry c r" "remote_step Disable c r"

lemmas remote_ok_unfold = remote_ok_def validate_observed_invariants_def rc_error_code_ok_def active_statuses_def
  requested_def enrolled_admin_passkey_def

lemma remote_step_ok:
  assumes "remote_step op c r" "remote_ok c" shows "remote_ok r"
  using assms
proof (induction rule: remote_step.induct)
  case (to_preflight i i' c)
  then show ?case using validate_intent_ok [OF to_preflight(1)]
    by (auto simp: remote_ok_unfold passkey_rp_id_for_intent_def)
next
  case (enroll c i rp)
  then show ?case using validated_canonical [OF enroll(3)] by (auto simp: remote_ok_unfold)
qed (auto simp: remote_ok_unfold split: option.splits)

lemma locked_update_read:
  "remote_read f = Inr c \<Longrightarrow> locked_update COMPLETED body f = body c f"
  by (simp add: locked_update_def require_completed_def)

lemma not_completed: "s \<noteq> COMPLETED \<Longrightarrow> \<exists>e. remote_apply op s f = (Inl e, f)"
  by (cases op) (auto simp: request_remote_def preflight_failed_def preflight_succeeded_def
      record_admin_passkey_enrolled_def observe_control_center_def remote_fail_def fail_if_current_def
      retry_preflight_def remote_disable_def locked_update_def require_completed_def)

text \<open>An operation that is not a transition of the machine is refused and writes nothing; a
  transition of the machine is what the operation returns and what it writes.\<close>

definition performs :: "(rc_error + remote_record) \<times> remote_file \<Rightarrow> remote_file \<Rightarrow> (remote_record \<Rightarrow> bool) \<Rightarrow> bool" where
  "performs out f allowed \<longleftrightarrow>
     (case out of (Inl _, f') \<Rightarrow> f' = f \<and> (\<forall>r. \<not> allowed r)
      | (Inr r, f') \<Rightarrow> allowed r \<and> remote_read f' = Inr r \<and> (\<forall>r'. allowed r' \<longrightarrow> r' = r))"

lemma performs_refused: "(\<And>r. \<not> allowed r) \<Longrightarrow> performs (Inl e, f) f allowed"
  by (simp add: performs_def)

lemma performs_stay: "remote_read f = Inr c \<Longrightarrow> (\<And>r. allowed r \<longleftrightarrow> r = c) \<Longrightarrow> performs (Inr c, f) f allowed"
  by (simp add: performs_def)

lemma performs_write:
  assumes "remote_ok r" "\<And>r'. allowed r' \<longleftrightarrow> r' = r" shows "performs (remote_write r f) f allowed"
  using assms by (simp add: performs_def remote_write_ok remote_read_Some)

lemma performs_invalid:
  assumes "\<not> rc_error_code_ok (error_code r)" "\<And>r'. \<not> allowed r'"
  shows "performs (remote_write r f) f allowed"
proof -
  have "validate_record r \<noteq> Inr r'" for r'
    using assms(1) by (auto simp: validate_record_def Let_def split: sum.splits if_splits)
  then show ?thesis using assms(2) by (cases "validate_record r") (auto simp: remote_write_def performs_def)
qed

lemma performs_fail:
  assumes "remote_ok c" "\<And>r'. allowed r' \<longleftrightarrow> fullmatch rc_error_code_pattern code \<and> r' = c\<lparr>status := ERROR, error_code := Some code\<rparr>"
  shows "performs (fail_unlocked code c f) f allowed"
proof (cases "fullmatch rc_error_code_pattern code")
  case True
  have "remote_ok (c\<lparr>status := ERROR, error_code := Some code\<rparr>)"
    using assms(1) True by (auto simp: remote_ok_unfold)
  then show ?thesis unfolding fail_unlocked_def using assms(2) True by (intro performs_write) auto
next
  case False
  then show ?thesis unfolding fail_unlocked_def using assms(2)
    by (intro performs_invalid) (auto simp: rc_error_code_ok_def)
qed

lemma clean_error: "remote_ok c \<Longrightarrow> status c \<noteq> ERROR \<Longrightarrow> error_code c = None"
  by (auto simp: remote_ok_unfold)

lemma clean_update: "remote_ok c \<Longrightarrow> status c \<noteq> ERROR \<Longrightarrow> c\<lparr>status := s, error_code := None\<rparr> = c\<lparr>status := s\<rparr>"
  using clean_error [of c] by (cases c) simp

lemma performs_step:
  assumes "remote_ok c" "remote_step op c r" "\<And>r'. remote_step op c r' \<Longrightarrow> r' = r"
  shows "performs (remote_write r f) f (remote_step op c)"
proof (rule performs_write)
  show "remote_ok r" by (rule remote_step_ok [OF assms(2,1)])
  show "remote_step op c r' \<longleftrightarrow> r' = r" for r' using assms(2,3) by blast
qed

lemma performs_request:
  assumes c: "remote_read f = Inr c" "remote_ok c"
  shows "performs (request_remote i COMPLETED f) f (remote_step (Request i) c)"
proof (cases "validate_intent i")
  case (Inl e)
  then show ?thesis by (auto simp: request_remote_def require_completed_def remote_step_simps intro!: performs_refused)
next
  case (Inr i')
  show ?thesis
  proof (cases "remote_access_requested i'")
    case True
    let ?r = "\<lparr>intent = Some i', status = PREFLIGHT, enrolled_admin_passkey_rp_id = passkey_rp_id_for_intent c i',
      error_code = None\<rparr>"
    have "performs (remote_write ?r f) f (remote_step (Request i) c)"
      using to_preflight [OF Inr True] Inr by (intro performs_step [OF c(2)]) (auto simp: remote_step_simps)
    then show ?thesis using Inr True c by (simp add: request_remote_def require_completed_def)
  qed (use Inr in \<open>auto simp: request_remote_def require_completed_def remote_step_simps intro!: performs_refused\<close>)
qed

lemma performs_preflight_succeeded:
  assumes c: "remote_read f = Inr c" "remote_ok c"
  shows "performs (preflight_succeeded COMPLETED f) f (remote_step PreflightSucceeded c)"
proof (cases "status c = PREFLIGHT")
  case True
  define t where "t = (if enrolled_admin_passkey c then PUBLICATION_PENDING else ENROLLMENT_PENDING)"
  have "performs (remote_write (c\<lparr>status := t\<rparr>) f) f (remote_step PreflightSucceeded c)"
    using True by (intro performs_step [OF c(2)]) (auto simp: remote_step_simps t_def)
  then show ?thesis
    using True c clean_update [OF c(2), of t]
    by (auto simp: preflight_succeeded_def locked_update_read t_def split: if_splits)
qed (use c in \<open>auto simp: preflight_succeeded_def locked_update_read remote_step_simps intro!: performs_refused\<close>)

lemma performs_enroll:
  assumes c: "remote_read f = Inr c" "remote_ok c"
  shows "performs (record_admin_passkey_enrolled rp COMPLETED f) f (remote_step (Enroll rp) c)"
proof (cases "\<exists>i. status c = ENROLLMENT_PENDING \<and> intent c = Some i \<and> validate_dns_hostname rp ''rp_id'' = Inr (control_hostname i)")
  case True
  then obtain i where i: "status c = ENROLLMENT_PENDING" "intent c = Some i"
    "validate_dns_hostname rp ''rp_id'' = Inr (control_hostname i)" by blast
  let ?r = "c\<lparr>enrolled_admin_passkey_rp_id := Some (control_hostname i), status := PUBLICATION_PENDING\<rparr>"
  have e: "error_code c = None" using clean_error [OF c(2)] i by simp
  have "performs (remote_write ?r f) f (remote_step (Enroll rp) c)"
    using i by (intro performs_step [OF c(2)]) (auto simp: remote_step_simps)
  moreover have "?r = ?r\<lparr>error_code := None\<rparr>" using e by (cases c) simp
  ultimately show ?thesis
    using i c by (simp add: record_admin_passkey_enrolled_def require_completed_def locked_update_read wan_surface_def)
next
  case False
  then have no: "\<not> remote_step (Enroll rp) c r" for r by (auto simp: remote_step_simps)
  have "\<exists>e. record_admin_passkey_enrolled rp COMPLETED f = (Inl e, f)"
    using False c by (auto simp: record_admin_passkey_enrolled_def require_completed_def locked_update_read
        split: sum.split option.splits)
  then show ?thesis using performs_refused no by metis
qed

lemma pending_enrolled: "remote_ok c \<Longrightarrow> status c \<in> {PUBLICATION_PENDING, ENABLED} \<Longrightarrow> enrolled_admin_passkey c"
  by (auto simp: remote_ok_def validate_observed_invariants_def)

lemma performs_observe:
  assumes c: "remote_read f = Inr c" "remote_ok c"
  shows "performs (observe_control_center e insp COMPLETED f) f (remote_step (Observe e insp) c)"
proof (cases "e = c \<and> inspection_of insp c \<and> status c \<in> {PUBLICATION_PENDING, ENABLED}")
  case True
  then have p: "enrolled_admin_passkey c" using pending_enrolled [OF c(2)] by simp
  obtain i where i: "intent c = Some i" "provider insp = gateway_provider i" using True by (auto simp: inspection_of_def)
  show ?thesis
  proof (cases "status c = ENABLED")
    case en: True
    then have "observe_control_center e insp COMPLETED f = (Inr c, f)"
      using True p c i by (simp add: observe_control_center_def require_completed_def locked_update_read inspection_of_def)
    then show ?thesis using en True c by (auto simp: remote_step_simps intro!: performs_stay)
  next
    case False
    then have s: "status c = PUBLICATION_PENDING" using True by simp
    have "observe_control_center e insp COMPLETED f = remote_write (c\<lparr>status := ENABLED\<rparr>) f"
      using True p c i s clean_update [OF c(2)]
      by (simp add: observe_control_center_def require_completed_def locked_update_read inspection_of_def)
    moreover have "performs (remote_write (c\<lparr>status := ENABLED\<rparr>) f) f (remote_step (Observe e insp) c)"
      using True s by (intro performs_step [OF c(2)]) (auto simp: remote_step_simps)
    ultimately show ?thesis by simp
  qed
next
  case False
  then have no: "\<not> remote_step (Observe e insp) c r" for r by (auto simp: remote_step_simps)
  have "\<exists>e'. observe_control_center e insp COMPLETED f = (Inl e', f)"
    using False c by (auto simp: observe_control_center_def require_completed_def locked_update_read inspection_of_def
        split: option.splits)
  then show ?thesis using performs_refused no by metis
qed

lemma performs_failures:
  assumes c: "remote_read f = Inr c" "remote_ok c"
  shows "performs (preflight_failed code COMPLETED f) f (remote_step (PreflightFailed code) c)"
    and "performs (remote_fail code COMPLETED f) f (remote_step (Fail code) c)"
    and "performs (fail_if_current e code COMPLETED f) f (remote_step (FailIfCurrent e code) c)"
proof -
  note unfolds = preflight_failed_def remote_fail_def fail_if_current_def locked_update_read [OF c(1)] remote_step_simps active_statuses_def
  show "performs (preflight_failed code COMPLETED f) f (remote_step (PreflightFailed code) c)"
    unfolding unfolds using c by (auto intro!: performs_refused performs_fail)
  show "performs (remote_fail code COMPLETED f) f (remote_step (Fail code) c)"
    unfolding unfolds using c by (auto intro!: performs_refused performs_fail)
  show "performs (fail_if_current e code COMPLETED f) f (remote_step (FailIfCurrent e code) c)"
    unfolding unfolds using c by (auto intro!: performs_stay performs_fail)
qed

lemma performs_retry_disable:
  assumes c: "remote_read f = Inr c" "remote_ok c"
  shows "performs (retry_preflight COMPLETED f) f (remote_step Retry c)"
    and "performs (remote_disable COMPLETED f) f (remote_step Disable c)"
proof -
  show "performs (retry_preflight COMPLETED f) f (remote_step Retry c)"
    using c by (auto simp: retry_preflight_def locked_update_read remote_step_simps
        intro!: performs_refused performs_step)
  have "\<lparr>intent = intent c, status = DISABLED, enrolled_admin_passkey_rp_id = enrolled_admin_passkey_rp_id c,
    error_code = None\<rparr> = c\<lparr>status := DISABLED, error_code := None\<rparr>" by (cases c) simp
  then show "performs (remote_disable COMPLETED f) f (remote_step Disable c)"
    using c by (auto simp: remote_disable_def locked_update_read remote_step_simps intro!: performs_step)
qed

lemma remote_store_refinement:
  assumes "remote_read f = Inr c"
  shows "performs (remote_apply op s f) f (\<lambda>r. s = COMPLETED \<and> remote_step op c r)"
proof (cases "s = COMPLETED")
  case True
  have ok: "remote_ok c" by (rule remote_read_ok [OF assms])
  have "performs (remote_apply op COMPLETED f) f (remote_step op c)"
    by (cases op) (simp_all add: performs_request performs_preflight_succeeded performs_enroll performs_observe
        performs_failures performs_retry_disable assms ok)
  then show ?thesis using True by simp
next
  case False
  then show ?thesis using not_completed [OF False, of op f] by (auto simp: performs_def)
qed

text \<open>C12: the store refines the status machine. On a readable file and a completed installation,
  every operation is exactly a transition of the machine: when the machine has a transition for the
  operation from the current record, the operation returns its unique target and the file then
  reads as that record; when it has none, the operation fails and the file is untouched. Before
  installation is completed every operation fails and the file is untouched.\<close>

theorem remote_store_refines_machine:
  assumes "remote_read f = Inr c"
  shows "performs (remote_apply op s f) f (\<lambda>r. s = COMPLETED \<and> remote_step op c r)"
  by (rule remote_store_refinement [OF assms])

theorem remote_store_refines_machine_witness:
  "remote_read None = Inr fresh_record
   \<and> performs (remote_apply Retry COMPLETED None) None (\<lambda>r. COMPLETED = COMPLETED \<and> remote_step Retry fresh_record r)"
proof -
  have "remote_read None = Inr fresh_record" by (simp add: remote_read_def)
  then show ?thesis using remote_store_refines_machine by blast
qed

subsection \<open>Histories\<close>

definition remote_run :: "(remote_op \<times> InstallState) list \<Rightarrow> remote_file \<Rightarrow> remote_file" where
  "remote_run ops f = fold (\<lambda>(op, s) f. snd (remote_apply op s f)) ops f"

definition enrolled_in :: "(remote_op \<times> InstallState) list \<Rightarrow> string \<Rightarrow> bool" where
  "enrolled_in ops h \<longleftrightarrow> (\<exists>rp. (Enroll rp, COMPLETED) \<in> set ops \<and> validate_dns_hostname rp ''rp_id'' = Inr h)"

definition observed_in :: "(remote_op \<times> InstallState) list \<Rightarrow> remote_record \<Rightarrow> bool" where
  "observed_in ops r \<longleftrightarrow> (\<exists>i xs e insp ys. intent r = Some i \<and> ops = xs @ (Observe e insp, COMPLETED) # ys
     \<and> enrolled_in xs (control_hostname i) \<and> inspection_of insp r)"

lemma run_step:
  assumes "remote_read f = Inr c"
  obtains (refused) "snd (remote_apply op s f) = f"
  | (stepped) r where "s = COMPLETED" "remote_step op c r" "remote_read (snd (remote_apply op s f)) = Inr r"
  using remote_store_refinement [OF assms, of op s]
  by (auto simp: performs_def split: prod.splits sum.splits)

lemma step_passkey:
  assumes "remote_step op c r" "enrolled_admin_passkey_rp_id r = Some h"
  shows "enrolled_admin_passkey_rp_id c = Some h \<or> (\<exists>rp. op = Enroll rp \<and> validate_dns_hostname rp ''rp_id'' = Inr h)"
  using assms by (induction rule: remote_step.induct) (auto simp: passkey_rp_id_for_intent_def split: if_splits)

lemma step_enabled:
  assumes "remote_step op c r" "status r = ENABLED"
  shows "r = c \<or> (\<exists>e insp. op = Observe e insp \<and> inspection_of insp r \<and> intent r = intent c \<and> status c = PUBLICATION_PENDING)"
  using assms by (induction rule: remote_step.induct) (auto simp: inspection_of_def)

lemma enrolled_in_snoc: "enrolled_in ops h \<Longrightarrow> enrolled_in (ops @ [x]) h"
  by (auto simp: enrolled_in_def)

lemma observed_in_snoc: "observed_in ops r \<Longrightarrow> observed_in (ops @ [x]) r"
  unfolding observed_in_def by fastforce

lemma history:
  "\<exists>r. remote_read (remote_run ops None) = Inr r \<and> remote_ok r
     \<and> (\<forall>h. enrolled_admin_passkey_rp_id r = Some h \<longrightarrow> enrolled_in ops h)
     \<and> (status r = ENABLED \<longrightarrow> observed_in ops r)"
proof (induction ops rule: rev_induct)
  case Nil
  then show ?case by (simp add: remote_run_def remote_read_def fresh_record_ok) (simp add: fresh_record_def)
next
  case (snoc x ops)
  let ?f = "remote_run ops None"
  obtain op s where x: "x = (op, s)" by fastforce
  obtain c where c: "remote_read ?f = Inr c" "remote_ok c"
    "\<And>h. enrolled_admin_passkey_rp_id c = Some h \<Longrightarrow> enrolled_in ops h" "status c = ENABLED \<Longrightarrow> observed_in ops c"
    using snoc.IH by blast
  have run: "remote_run (ops @ [x]) None = snd (remote_apply op s ?f)" by (simp add: remote_run_def x)
  show ?case
  proof (cases rule: run_step [OF c(1), of op s])
    case 1
    then show ?thesis using c run enrolled_in_snoc observed_in_snoc by (intro exI [of _ c]) auto
  next
    case (2 r)
    have keys: "enrolled_in (ops @ [x]) h" if "enrolled_admin_passkey_rp_id r = Some h" for h
      using step_passkey [OF 2(2) that]
    proof
      assume "enrolled_admin_passkey_rp_id c = Some h"
      then show ?thesis by (intro enrolled_in_snoc c(3))
    qed (use 2(1) x in \<open>auto simp: enrolled_in_def\<close>)
    have seen: "observed_in (ops @ [x]) r" if en: "status r = ENABLED"
      using step_enabled [OF 2(2) en]
    proof
      assume "r = c"
      then show ?thesis using en c(4) observed_in_snoc by auto
    next
      assume "\<exists>e insp. op = Observe e insp \<and> inspection_of insp r \<and> intent r = intent c \<and> status c = PUBLICATION_PENDING"
      then obtain e insp where o: "op = Observe e insp" "inspection_of insp r" "intent r = intent c" "status c = PUBLICATION_PENDING"
        by blast
      have "enrolled_admin_passkey c" using pending_enrolled [OF c(2)] o(4) by simp
      then obtain i where i: "intent c = Some i" "enrolled_in ops (control_hostname i)"
        using c(3) by (auto simp: enrolled_admin_passkey_def split: option.splits)
      show ?thesis unfolding observed_in_def
        using o i 2(1) x by (intro exI [of _ i] exI [of _ ops] exI [of _ e] exI [of _ insp] exI [of _ "[]"]) simp
    qed
    have "remote_ok r" by (rule remote_step_ok [OF 2(2) c(2)])
    then show ?thesis using 2(3) run keys seen by (intro exI [of _ r]) simp
  qed
qed

text \<open>C10: the Control Center is never exposed without a passkey and a later inspection. Take any
  history of operations on a fresh store. If the record then shows the Control Center surface, its
  status is enabled, and the history contains an enrollment of a passkey for exactly the current
  control host followed by an observation of a gateway of the intended provider that inspected as
  Control Center with port 8081 not public and the installer closed.\<close>

theorem control_center_needs_passkey_and_inspection:
  assumes "remote_read (remote_run ops None) = Inr r" "wan_surface r = CONTROL_CENTER"
  shows "status r = ENABLED \<and> observed_in ops r"
proof -
  have "status r = ENABLED" using assms(2) by (simp add: wan_surface_def split: if_splits)
  then show ?thesis using history [of ops] assms(1) by auto
qed

definition demo_intent :: remote_intent where
  "demo_intent = \<lparr>public_hostname = ''www.ex.org'', control_hostname = ''cp.ex.org'', tls_mode = ACME,
     gateway_provider = NGINX, remote_access_requested = True\<rparr>"

definition demo_record :: "RemoteControlStatus \<Rightarrow> remote_record" where
  "demo_record s = \<lparr>intent = Some demo_intent, status = s, enrolled_admin_passkey_rp_id = Some ''cp.ex.org'', error_code = None\<rparr>"

definition demo_history :: "(remote_op \<times> InstallState) list" where
  "demo_history = [(Request demo_intent, COMPLETED), (PreflightSucceeded, COMPLETED), (Enroll ''CP.ex.org'', COMPLETED),
     (Observe (demo_record PUBLICATION_PENDING)
        \<lparr>provider = NGINX, seen_surface = CONTROL_CENTER, control_port_public = False, installer_open = False\<rparr>, COMPLETED)]"

lemma demo_ok:
  "intent_ok demo_intent" "s \<in> {DISABLED, PUBLICATION_PENDING, ENABLED} \<Longrightarrow> remote_ok (demo_record s)"
  "s \<in> {PREFLIGHT, ENROLLMENT_PENDING} \<Longrightarrow> remote_ok ((demo_record s)\<lparr>enrolled_admin_passkey_rp_id := None\<rparr>)"
proof -
  have c: "canonical_hostname ''www.ex.org''" "canonical_hostname ''cp.ex.org''" by code_simp+
  then show i: "intent_ok demo_intent" by (simp add: intent_ok_def demo_intent_def)
  show "remote_ok (demo_record s)" if "s \<in> {DISABLED, PUBLICATION_PENDING, ENABLED}"
    using that c i by (auto simp: remote_ok_unfold demo_record_def demo_intent_def)
  show "remote_ok ((demo_record s)\<lparr>enrolled_admin_passkey_rp_id := None\<rparr>)" if "s \<in> {PREFLIGHT, ENROLLMENT_PENDING}"
    using that c i by (auto simp: remote_ok_unfold demo_record_def demo_intent_def)
qed

lemma demo_run: "remote_run demo_history None = Some (demo_record ENABLED)"
proof -
  let ?r = "\<lambda>s. (demo_record s)\<lparr>enrolled_admin_passkey_rp_id := None\<rparr>"
  have 1: "request_remote demo_intent COMPLETED None = (Inr (?r PREFLIGHT), Some (?r PREFLIGHT))"
    using intent_ok_fixed [OF demo_ok(1)] remote_write_ok [OF demo_ok(3), of PREFLIGHT None]
    by (simp add: request_remote_def require_completed_def remote_read_def fresh_record_def demo_record_def
        passkey_rp_id_for_intent_def) (simp add: demo_intent_def)
  have 2: "preflight_succeeded COMPLETED (Some (?r PREFLIGHT)) = (Inr (?r ENROLLMENT_PENDING), Some (?r ENROLLMENT_PENDING))"
    using remote_write_ok [OF demo_ok(3), of ENROLLMENT_PENDING] locked_update_read [OF remote_read_Some [OF demo_ok(3)], of PREFLIGHT]
    by (simp add: preflight_succeeded_def demo_record_def enrolled_admin_passkey_def)
  have v: "validate_dns_hostname ''CP.ex.org'' ''rp_id'' = Inr ''cp.ex.org''" by code_simp
  have 3: "record_admin_passkey_enrolled ''CP.ex.org'' COMPLETED (Some (?r ENROLLMENT_PENDING)) =
      (Inr (demo_record PUBLICATION_PENDING), Some (demo_record PUBLICATION_PENDING))"
    using remote_write_ok [OF demo_ok(2), of PUBLICATION_PENDING] locked_update_read [OF remote_read_Some [OF demo_ok(3)], of ENROLLMENT_PENDING] v
    by (simp add: record_admin_passkey_enrolled_def require_completed_def demo_record_def wan_surface_def) (simp add: demo_intent_def)
  have 4: "observe_control_center (demo_record PUBLICATION_PENDING)
      \<lparr>provider = NGINX, seen_surface = CONTROL_CENTER, control_port_public = False, installer_open = False\<rparr> COMPLETED
      (Some (demo_record PUBLICATION_PENDING)) = (Inr (demo_record ENABLED), Some (demo_record ENABLED))"
    using remote_write_ok [OF demo_ok(2), of ENABLED] locked_update_read [OF remote_read_Some [OF demo_ok(2)], of PUBLICATION_PENDING]
    by (simp add: observe_control_center_def require_completed_def demo_record_def enrolled_admin_passkey_def) (simp add: demo_intent_def)
  show ?thesis by (simp add: remote_run_def demo_history_def 1 2 3 4)
qed

theorem control_center_needs_passkey_and_inspection_witness:
  "remote_read (remote_run demo_history None) = Inr (demo_record ENABLED) \<and> observed_in demo_history (demo_record ENABLED)"
proof -
  have r: "remote_read (remote_run demo_history None) = Inr (demo_record ENABLED)"
    using remote_read_Some [OF demo_ok(2)] by (simp add: demo_run)
  have "wan_surface (demo_record ENABLED) = CONTROL_CENTER" by code_simp
  then show ?thesis using control_center_needs_passkey_and_inspection [OF r] r by blast
qed

subsection \<open>Plans\<close>

lemma loopback_ok: "bind_ok (fst WEB_LOOPBACK) (snd WEB_LOOPBACK) WEB_LOOPBACK"
  "bind_ok (fst CONTROL_LOOPBACK) (snd CONTROL_LOOPBACK) CONTROL_LOOPBACK"
proof -
  have "\<not> is_forbidden_wan_bind ''127.0.0.1''" by code_simp
  then show "bind_ok (fst WEB_LOOPBACK) (snd WEB_LOOPBACK) WEB_LOOPBACK"
    "bind_ok (fst CONTROL_LOOPBACK) (snd CONTROL_LOOPBACK) CONTROL_LOOPBACK"
    by (simp_all add: bind_ok_def WEB_LOOPBACK_def CONTROL_LOOPBACK_def)
qed

lemma surface_statuses:
  assumes "remote_ok r"
  shows "publication_surface r = ACTIVATE_ONLY \<longleftrightarrow> status r = ENROLLMENT_PENDING"
    and "publication_surface r = CONTROL_CENTER \<longleftrightarrow> status r \<in> {PUBLICATION_PENDING, ENABLED}"
  using pending_enrolled [OF assms] by (auto simp: publication_surface_def wan_surface_def)

definition loopback_plan :: "remote_record \<Rightarrow> gateway_plan" where
  "loopback_plan r = \<lparr>plan_record = r, plan_surface = publication_surface r,
     web_bind_host = fst WEB_LOOPBACK, web_bind_port = snd WEB_LOOPBACK,
     control_bind_host = fst CONTROL_LOOPBACK, control_bind_port = snd CONTROL_LOOPBACK\<rparr>"

lemma from_record_valid:
  assumes "remote_ok r" "intent r \<noteq> None" shows "from_record r = Inr (loopback_plan r)"
proof -
  have "1 \<le> snd WEB_LOOPBACK \<and> snd WEB_LOOPBACK \<le> 65535 \<and> 1 \<le> snd CONTROL_LOOPBACK \<and> snd CONTROL_LOOPBACK \<le> 65535"
    by (simp add: WEB_LOOPBACK_def CONTROL_LOOPBACK_def)
  then have "validate_plan (loopback_plan r) = Inr (loopback_plan r)"
    using remote_ok_fixed [OF assms(1)] surface_statuses [OF assms(1)] pending_enrolled [OF assms(1)] loopback_ok
    by (auto simp: validate_plan_def loopback_plan_def)
  then show ?thesis using remote_ok_fixed [OF assms(1)] assms(2) by (simp add: from_record_def loopback_plan_def)
qed

text \<open>Every readable record with an intent has a gateway plan, and it is a safe one. The plan
  carries that very record and targets the two loopback endpoints; it publishes the Control Center
  only when a passkey is enrolled for the record's control host and publication is pending or
  observed, and the activation page only while enrollment is pending; in every other status, error
  and disabled included, it publishes nothing.\<close>

theorem plan_for_total_and_safe:
  assumes "remote_read f = Inr r" "intent r = Some i"
  shows "\<exists>p. plan_for r = Inr p \<and> plan_record p = r
    \<and> (web_bind_host p, web_bind_port p) = (''127.0.0.1'', 8080)
    \<and> (control_bind_host p, control_bind_port p) = (''127.0.0.1'', 8081)
    \<and> (plan_surface p = CONTROL_CENTER \<longleftrightarrow> status r \<in> {PUBLICATION_PENDING, ENABLED})
    \<and> (plan_surface p = CONTROL_CENTER \<longrightarrow> enrolled_admin_passkey_rp_id r = Some (control_hostname i))
    \<and> (plan_surface p = ACTIVATE_ONLY \<longleftrightarrow> status r = ENROLLMENT_PENDING)"
proof -
  have ok: "remote_ok r" by (rule remote_read_ok [OF assms(1)])
  have p: "plan_for r = Inr (loopback_plan r)" using from_record_valid [OF ok] assms(2) by (simp add: plan_for_def)
  have "enrolled_admin_passkey_rp_id r = Some (control_hostname i)" if "publication_surface r = CONTROL_CENTER"
    using that surface_statuses(2) [OF ok] pending_enrolled [OF ok] assms(2) by (simp add: enrolled_admin_passkey_def)
  then show ?thesis using surface_statuses [OF ok]
    by (intro exI [of _ "loopback_plan r"] conjI) (simp_all add: p loopback_plan_def WEB_LOOPBACK_def CONTROL_LOOPBACK_def)
qed

theorem plan_for_total_and_safe_witness:
  "\<exists>p. plan_for (demo_record ENABLED) = Inr p \<and> plan_surface p = CONTROL_CENTER \<and> control_bind_host p = ''127.0.0.1''"
proof -
  have r: "remote_read (Some (demo_record ENABLED)) = Inr (demo_record ENABLED)"
    using remote_read_Some [OF demo_ok(2)] by simp
  have i: "intent (demo_record ENABLED) = Some demo_intent" "status (demo_record ENABLED) = ENABLED"
    by (simp_all add: demo_record_def)
  show ?thesis using plan_for_total_and_safe [OF r i(1)] i(2) by auto
qed

end
