(* ===== verification/Https_Gateway.thy ===== *)
theory Https_Gateway
  imports Remote_Control_Safety
begin

text \<open>
  \<open>HttpsGatewayTransaction\<close> of \<open>https_gateway.py\<close>: plan, validate, apply, verify, inspect against a
  provider, and containment when anything fails. The provider is a parameter: a record of the calls
  of the \<open>HttpsGatewayProvider\<close> protocol on a gateway state of its own, in which no value means that
  the call raised (an exception other than a \<open>GatewayTransactionError\<close>, which is Core's own). The
  store's file is shared with other processes: \<open>interfere k\<close> is what they do to
  it before the transaction's \<open>k\<close>-th access (the transaction lock excludes only other transactions).
\<close>

record 'g gateway_provider_calls =
  provider_name :: string
  call_plan :: "remote_record \<Rightarrow> 'g \<Rightarrow> gateway_plan option \<times> 'g"
  call_validate :: "gateway_plan \<Rightarrow> 'g \<Rightarrow> unit option \<times> 'g"
  call_apply :: "gateway_plan \<Rightarrow> 'g \<Rightarrow> unit option \<times> 'g"
  call_verify :: "'g \<Rightarrow> unit option \<times> 'g"
  call_rollback :: "'g \<Rightarrow> unit option \<times> 'g"
  call_inspect :: "'g \<Rightarrow> gateway_inspection option \<times> 'g"

record tx_result =
  res_record :: remote_record
  res_applied :: bool
  res_rolled_back :: bool
  res_contained :: bool
  res_failed :: bool
  res_error_code :: "string option"
  res_steps :: "string list"

text \<open>The local variables of a run, with the gateway and the file it works on.\<close>

record 'g tx =
  tx_gateway :: 'g
  tx_file :: remote_file
  tx_steps :: "string list"
  tx_applied :: bool
  tx_attempted :: bool

type_synonym interference = "nat \<Rightarrow> remote_file \<Rightarrow> remote_file"

text \<open>
  A part of the \<open>try\<close> block: it ends with a value, or with a raise and the \<open>error_code\<close> that is set
  by then.
\<close>

type_synonym ('g, 'a) part = "'g tx \<Rightarrow> (string option + 'a) \<times> 'g tx"

definition and_then :: "('g, 'a) part \<Rightarrow> ('a \<Rightarrow> ('g, 'b) part) \<Rightarrow> ('g, 'b) part" where
  "and_then m k t = (case m t of (Inl e, t') \<Rightarrow> (Inl e, t') | (Inr x, t') \<Rightarrow> k x t')"

definition give :: "'a \<Rightarrow> ('g, 'a) part" where
  "give x t = (Inr x, t)"

definition check :: "bool \<Rightarrow> string option \<Rightarrow> ('g, unit) part" where
  "check b code t = (if b then (Inr (), t) else (Inl code, t))"

definition step_done :: "string \<Rightarrow> 'g tx \<Rightarrow> 'g tx" where
  "step_done label t = t\<lparr>tx_steps := tx_steps t @ [label]\<rparr>"

text \<open>One provider call: raising sets the code, returning appends the step.\<close>

definition provider_call :: "string \<Rightarrow> string \<Rightarrow> ('g \<Rightarrow> 'a option \<times> 'g) \<Rightarrow> ('g, 'a) part" where
  "provider_call code label f t =
     (case f (tx_gateway t) of
        (None, g) \<Rightarrow> (Inl (Some code), t\<lparr>tx_gateway := g\<rparr>)
      | (Some x, g) \<Rightarrow> (Inr x, step_done label (t\<lparr>tx_gateway := g\<rparr>)))"

definition others :: "interference \<Rightarrow> nat \<Rightarrow> 'g tx \<Rightarrow> 'g tx" where
  "others interfere k t = t\<lparr>tx_file := interfere k (tx_file t)\<rparr>"

definition gateway_require_completed :: "InstallState \<Rightarrow> rc_error + unit" where
  "gateway_require_completed s =
     (if s \<noteq> COMPLETED
      then Inl (InvalidRemoteControlTransition ''gateway publication starts only after installation is COMPLETED'')
      else Inr ())"

text \<open>\<open>GatewayProviderName(provider.name)\<close>\<close>

definition provider_identity :: "string \<Rightarrow> GatewayProviderName option" where
  "provider_identity name = find (\<lambda>p. provider_value p = name) [NONE, NGINX, CADDY, TRAEFIK, EXTERNAL]"

definition assert_provider_identity :: "string \<Rightarrow> remote_record \<Rightarrow> GatewayProviderName option" where
  "assert_provider_identity name r =
     (case intent r of None \<Rightarrow> None | Some i \<Rightarrow>
      case provider_identity name of None \<Rightarrow> None | Some p \<Rightarrow> if p \<noteq> gateway_provider i then None else Some p)"

definition assert_loopback_plan :: "gateway_plan \<Rightarrow> bool" where
  "assert_loopback_plan p \<longleftrightarrow>
     \<not> is_forbidden_wan_bind (web_bind_host p) \<and> \<not> is_forbidden_wan_bind (control_bind_host p)
     \<and> (web_bind_host p, web_bind_port p) = WEB_LOOPBACK \<and> (control_bind_host p, control_bind_port p) = CONTROL_LOOPBACK"

text \<open>The comparison of the two plan dumps is the equality of the plans.\<close>

definition assert_plan_matches_record :: "gateway_plan \<Rightarrow> remote_record \<Rightarrow> ('g, unit) part" where
  "assert_plan_matches_record p r t =
     (case from_record r of
        Inl _ \<Rightarrow> (Inl None, t)
      | Inr expected \<Rightarrow>
          check (p = expected \<and> records_match (plan_record p) r \<and> assert_loopback_plan p)
            (Some ''gateway_plan_invalid'') t)"

text \<open>
  \<open>_assert_record_current\<close>; \<open>unreadable\<close> is the code in force when the read itself raises, which is
  not a \<open>GatewayTransactionError\<close>.
\<close>

definition assert_record_current ::
  "interference \<Rightarrow> nat \<Rightarrow> remote_record \<Rightarrow> string option \<Rightarrow> ('g, unit) part" where
  "assert_record_current interfere k expected unreadable t =
     (let t' = others interfere k t in
      case remote_read (tx_file t') of
        Inl _ \<Rightarrow> (Inl unreadable, t')
      | Inr current \<Rightarrow> check (records_match current expected) (Some ''gateway_record_drifted'') t')"

definition assert_inspection_matches_plan ::
  "gateway_inspection \<Rightarrow> gateway_plan \<Rightarrow> GatewayProviderName \<Rightarrow> bool" where
  "assert_inspection_matches_plan insp p expected_provider \<longleftrightarrow>
     \<not> control_port_public insp \<and> \<not> installer_open insp \<and> provider insp = expected_provider
     \<and> seen_surface insp = plan_surface p"

definition assert_closed_inspection :: "gateway_inspection \<Rightarrow> GatewayProviderName \<Rightarrow> bool" where
  "assert_closed_inspection insp expected_provider \<longleftrightarrow>
     \<not> control_port_public insp \<and> \<not> installer_open insp \<and> provider insp = expected_provider
     \<and> seen_surface insp = CLOSED"

definition closed_containment_plan :: "remote_record \<Rightarrow> rc_error + gateway_plan" where
  "closed_containment_plan r =
     (case intent r of
        None \<Rightarrow> Inl (RemoteControlError ''containment requires a remote control intent'')
      | Some i \<Rightarrow>
          (case validate_record \<lparr>intent = Some i, status = DISABLED,
              enrolled_admin_passkey_rp_id = enrolled_admin_passkey_rp_id r, error_code = None\<rparr> of
             Inl e \<Rightarrow> Inl e
           | Inr closed \<Rightarrow> from_record closed))"

subsection \<open>The run\<close>

definition start_apply :: "('g, unit) part" where
  "start_apply t = (Inr (), t\<lparr>tx_attempted := True\<rparr>)"

definition mark_applied :: "('g, unit) part" where
  "mark_applied t = (Inr (), t\<lparr>tx_applied := True\<rparr>)"

text \<open>The observation that persists \<open>ENABLED\<close>; only a refused transition counts as drift.\<close>

definition observe_part ::
  "interference \<Rightarrow> InstallState \<Rightarrow> remote_record \<Rightarrow> gateway_plan \<Rightarrow> gateway_inspection \<Rightarrow> ('g, remote_record) part" where
  "observe_part interfere install r p insp t =
     (if status r = PUBLICATION_PENDING \<and> plan_surface p = CONTROL_CENTER
      then (let t' = others interfere 4 t in
            case observe_control_center r insp install (tx_file t') of
              (Inr persisted, f) \<Rightarrow> (Inr persisted, step_done ''observe'' (t'\<lparr>tx_file := f\<rparr>))
            | (Inl (InvalidRemoteControlTransition _), f) \<Rightarrow> (Inl (Some ''gateway_record_drifted''), t'\<lparr>tx_file := f\<rparr>)
            | (Inl _, f) \<Rightarrow> (Inl None, t'\<lparr>tx_file := f\<rparr>))
      else (Inr r, t))"

definition publish_parts ::
  "'g gateway_provider_calls \<Rightarrow> interference \<Rightarrow> InstallState \<Rightarrow> remote_record \<Rightarrow> GatewayProviderName \<Rightarrow> ('g, remote_record) part" where
  "publish_parts P interfere install r expected_provider =
     and_then (provider_call ''gateway_plan_failed'' ''plan'' (call_plan P r)) (\<lambda>p.
     and_then (assert_plan_matches_record p r) (\<lambda>_.
     and_then (provider_call ''gateway_validate_failed'' ''validate'' (call_validate P p)) (\<lambda>_.
     and_then (assert_record_current interfere 1 r None) (\<lambda>_.
     and_then start_apply (\<lambda>_.
     and_then (provider_call ''gateway_apply_failed'' ''apply'' (call_apply P p)) (\<lambda>_.
     and_then mark_applied (\<lambda>_.
     and_then (provider_call ''gateway_verify_failed'' ''verify'' (call_verify P)) (\<lambda>_.
     and_then (assert_record_current interfere 2 r (Some ''gateway_inspect_failed'')) (\<lambda>_.
     and_then (provider_call ''gateway_inspect_failed'' ''inspect'' (call_inspect P)) (\<lambda>insp.
     and_then (check (assert_inspection_matches_plan insp p expected_provider) (Some ''gateway_inspect_failed'')) (\<lambda>_.
     and_then (assert_record_current interfere 3 r (Some ''gateway_inspect_failed'')) (\<lambda>_.
     observe_part interfere install r p insp))))))))))))"

text \<open>\<open>_contain_closed\<close>: whether it rolled back, whether it contained.\<close>

definition contain_parts ::
  "'g gateway_provider_calls \<Rightarrow> remote_record \<Rightarrow> GatewayProviderName \<Rightarrow> ('g, unit) part" where
  "contain_parts P r expected_provider t =
     (case closed_containment_plan r of Inl _ \<Rightarrow> (Inl None, t) | Inr p \<Rightarrow>
      and_then (provider_call [] ''contain'' (call_apply P p)) (\<lambda>_.
      and_then (provider_call [] ''contain_inspect'' (call_inspect P)) (\<lambda>insp.
      check (assert_closed_inspection insp expected_provider) None)) t)"

definition contain_closed ::
  "'g gateway_provider_calls \<Rightarrow> remote_record \<Rightarrow> GatewayProviderName \<Rightarrow> bool \<Rightarrow> 'g tx \<Rightarrow> (bool \<times> bool) \<times> 'g tx" where
  "contain_closed P r expected_provider rollback t =
     (let (rolled_back, t1) =
            (if rollback
             then (case call_rollback P (tx_gateway t) of
                     (Some _, g) \<Rightarrow> (True, step_done ''rollback'' (t\<lparr>tx_gateway := g\<rparr>))
                   | (None, g) \<Rightarrow> (False, step_done ''rollback_failed'' (t\<lparr>tx_gateway := g\<rparr>)))
             else (False, t))
      in case contain_parts P r expected_provider t1 of
           (Inr _, t2) \<Rightarrow> ((rolled_back, True), t2)
         | (Inl _, t2) \<Rightarrow> ((rolled_back, False), step_done ''contain_failed'' t2))"

definition fail_closed ::
  "'g gateway_provider_calls \<Rightarrow> interference \<Rightarrow> InstallState \<Rightarrow> remote_record \<Rightarrow> string \<Rightarrow> GatewayProviderName option \<Rightarrow>
   'g tx \<Rightarrow> (rc_error + tx_result) \<times> 'g tx" where
  "fail_closed P interfere install snapshot code expected_provider t =
     (let ((rolled_back, contained), t1) =
            (case expected_provider of
               Some p \<Rightarrow> if intent snapshot \<noteq> None then contain_closed P snapshot p (tx_attempted t) t else ((False, False), t)
             | None \<Rightarrow> ((False, False), t));
          code' = (if expected_provider \<noteq> None \<and> intent snapshot \<noteq> None \<and> \<not> contained
                   then ''gateway_containment_failed'' else code);
          t2 = others interfere 5 t1;
          (out, f) =
            (if code' = ''gateway_record_drifted'' then (remote_read (tx_file t2), tx_file t2)
             else if contained then fail_if_current snapshot code' install (tx_file t2)
             else (remote_read (tx_file t2), tx_file t2));
          t3 = t2\<lparr>tx_file := f\<rparr>
      in case out of Inl e \<Rightarrow> (Inl e, t3) | Inr persisted \<Rightarrow>
         (Inr \<lparr>res_record = persisted, res_applied = tx_applied t, res_rolled_back = rolled_back,
               res_contained = contained, res_failed = True, res_error_code = Some code',
               res_steps = tx_steps t3\<rparr>, t3))"

definition run_locked ::
  "'g gateway_provider_calls \<Rightarrow> interference \<Rightarrow> InstallState \<Rightarrow> 'g tx \<Rightarrow> (rc_error + tx_result) \<times> 'g tx" where
  "run_locked P interfere install t =
     (case remote_read (tx_file t) of Inl e \<Rightarrow> (Inl e, t) | Inr r \<Rightarrow>
      if intent r = None
      then (Inr \<lparr>res_record = r, res_applied = False, res_rolled_back = False, res_contained = False,
                 res_failed = False, res_error_code = None, res_steps = [''skip_unconfigured'']\<rparr>, t)
      else case assert_provider_identity (provider_name P) r of
        None \<Rightarrow> fail_closed P interfere install r ''gateway_provider_mismatch'' None t
      | Some expected_provider \<Rightarrow>
          (case publish_parts P interfere install r expected_provider t of
             (Inr persisted, t') \<Rightarrow>
               (Inr \<lparr>res_record = persisted, res_applied = True, res_rolled_back = False, res_contained = False,
                     res_failed = False, res_error_code = None, res_steps = tx_steps t'\<rparr>, t')
           | (Inl code, t') \<Rightarrow>
               fail_closed P interfere install r
                 (case code of None \<Rightarrow> ''gateway_inspect_failed'' | Some c \<Rightarrow> c) (Some expected_provider) t'))"

definition gateway_run ::
  "'g gateway_provider_calls \<Rightarrow> interference \<Rightarrow> InstallState \<Rightarrow> 'g \<Rightarrow> remote_file \<Rightarrow> (rc_error + tx_result) \<times> 'g tx" where
  "gateway_run P interfere install g f =
     (let t = \<lparr>tx_gateway = g, tx_file = f, tx_steps = [], tx_applied = False, tx_attempted = False\<rparr>
      in case gateway_require_completed install of Inl e \<Rightarrow> (Inl e, t) | Inr _ \<Rightarrow>
         run_locked P interfere install t)"

subsection \<open>Decomposition of a run\<close>

lemma and_then_Inr:
  assumes "and_then m k t = (Inr y, t')"
  obtains x t1 where "m t = (Inr x, t1)" "k x t1 = (Inr y, t')"
  using assms by (auto simp: and_then_def split: prod.splits sum.splits)

lemma provider_call_Inr:
  "provider_call code label f t = (Inr x, t') \<longleftrightarrow>
     (\<exists>g. f (tx_gateway t) = (Some x, g) \<and> t' = step_done label (t\<lparr>tx_gateway := g\<rparr>))"
  by (auto simp: provider_call_def split: prod.splits option.splits)

lemma check_Inr: "check b code t = (Inr x, t') \<longleftrightarrow> b \<and> t' = t"
  by (auto simp: check_def)

lemma tx_simps [simp]:
  "tx_gateway (step_done l t) = tx_gateway t" "tx_file (step_done l t) = tx_file t"
  "tx_gateway (others interfere k t) = tx_gateway t" "tx_file (others interfere k t) = interfere k (tx_file t)"
  "tx_attempted (step_done l t) = tx_attempted t" "tx_attempted (others interfere k t) = tx_attempted t"
  by (simp_all add: step_done_def others_def)

lemma record_current_Inr:
  "assert_record_current interfere k r u t = (Inr x, t') \<longleftrightarrow>
     t' = others interfere k t \<and> remote_read (tx_file t') = Inr r"
  by (auto simp: assert_record_current_def Let_def check_def split: sum.splits if_splits)

text \<open>How a publication that succeeds ends: an inspection that matches the plan of the record,
  then a file that reads as the record, then possibly the observation.\<close>

lemma inspected_tail:
  assumes "and_then (provider_call c l (call_inspect P)) (\<lambda>insp. and_then (check (ok insp) e) (\<lambda>_.
      and_then (assert_record_current interfere n r u) (\<lambda>_. k insp))) t = (Inr y, t')"
  shows "\<exists>g0 insp t1. call_inspect P g0 = (Some insp, tx_gateway t1) \<and> ok insp \<and> remote_read (tx_file t1) = Inr r
    \<and> k insp t1 = (Inr y, t')"
proof -
  obtain insp u1 u2 u3 x2 x3 where u: "provider_call c l (call_inspect P) t = (Inr insp, u1)" "check (ok insp) e u1 = (Inr x2, u2)"
    "assert_record_current interfere n r u u2 = (Inr x3, u3)" "k insp u3 = (Inr y, t')"
    using assms by (elim and_then_Inr)
  then have "call_inspect P (tx_gateway t) = (Some insp, tx_gateway u3)" "ok insp" "remote_read (tx_file u3) = Inr r"
    by (auto simp: provider_call_Inr check_Inr record_current_Inr)
  then show ?thesis using u(4) by blast
qed

lemma plan_matches_Inr: "assert_plan_matches_record p r t = (Inr x, t') \<Longrightarrow> from_record r = Inr p"
  by (auto simp: assert_plan_matches_record_def check_def split: sum.splits if_splits)

lemma publish_success:
  assumes "publish_parts P interfere install r expected t = (Inr persisted, t')"
  shows "\<exists>p g0 insp t1. from_record r = Inr p \<and> call_inspect P g0 = (Some insp, tx_gateway t1) \<and>
    assert_inspection_matches_plan insp p expected \<and> remote_read (tx_file t1) = Inr r \<and>
    observe_part interfere install r p insp t1 = (Inr persisted, t')"
proof -
  from assms [unfolded publish_parts_def]
  show ?thesis
    apply (rule and_then_Inr)
    apply (erule and_then_Inr)
    apply (erule and_then_Inr)
    apply (erule and_then_Inr)
    apply (erule and_then_Inr)
    apply (erule and_then_Inr)
    apply (erule and_then_Inr)
    apply (erule and_then_Inr)
    apply (erule and_then_Inr)
    apply (drule inspected_tail)
    apply (drule plan_matches_Inr)
    apply blast
    done
qed

lemma observe_success:
  assumes "observe_part interfere install r p insp t1 = (Inr persisted, t')" "remote_read (tx_file t1) = Inr r"
    "plan_surface p = publication_surface r"
  shows "tx_gateway t' = tx_gateway t1 \<and> remote_read (tx_file t') = Inr persisted \<and> wan_surface persisted = plan_surface p
    \<and> (persisted = r \<or> status r = PUBLICATION_PENDING \<and> persisted = r\<lparr>status := ENABLED\<rparr>)"
proof (cases "status r = PUBLICATION_PENDING \<and> plan_surface p = CONTROL_CENTER")
  case True
  let ?f = "interfere 4 (tx_file t1)"
  have o: "observe_control_center r insp install ?f = (Inr persisted, tx_file t')" "tx_gateway t' = tx_gateway t1"
    using assms(1) True by (auto simp: observe_part_def Let_def split: prod.splits sum.splits rc_error.splits)
  obtain c where c: "remote_read ?f = Inr c"
    using o(1) by (auto simp: observe_control_center_def locked_update_def split: sum.splits if_splits)
  have st: "remote_step (Observe r insp) c persisted" "remote_read (tx_file t') = Inr persisted"
    using remote_store_refinement [OF c, of "Observe r insp" install] o(1) by (auto simp: performs_def)
  then have p: "persisted = r\<lparr>status := ENABLED\<rparr>" using True by (auto simp: remote_step_simps)
  have "enrolled_admin_passkey r" using pending_enrolled [OF remote_read_ok [OF assms(2)]] True by simp
  then have "wan_surface persisted = CONTROL_CENTER"
    by (auto simp: p wan_surface_def enrolled_admin_passkey_def split: option.splits)
  then show ?thesis using o(2) st(2) True p by simp
next
  case False
  then have r: "persisted = r" "t' = t1" using assms(1) by (auto simp: observe_part_def)
  have "status r \<noteq> PUBLICATION_PENDING"
    using False surface_statuses(2) [OF remote_read_ok [OF assms(2)]] assms(3) by auto
  then show ?thesis using r assms(2,3) by (simp add: publication_surface_def)
qed

text \<open>C13: after a publication that is reported as successful the record tells the truth about the
  gateway. Whatever other processes did to the store in between, the last provider call was an
  inspection that found exactly the surface that the returned record shows, by the intended
  provider, with port 8081 not public and the installer closed; the file reads as that record; and
  the record is the one the run started with, or that record enabled after a pending publication.\<close>

theorem successful_publication_is_truthful:
  assumes "gateway_run P interfere install g f = (Inr res, t)" "\<not> res_failed res" "intent (res_record res) = Some i"
  shows "\<exists>g0 insp. call_inspect P g0 = (Some insp, tx_gateway t) \<and> seen_surface insp = wan_surface (res_record res)
    \<and> provider insp = gateway_provider i \<and> \<not> control_port_public insp \<and> \<not> installer_open insp
    \<and> remote_read (tx_file t) = Inr (res_record res)
    \<and> (\<exists>r. remote_read f = Inr r \<and>
          (res_record res = r \<or> status r = PUBLICATION_PENDING \<and> res_record res = r\<lparr>status := ENABLED\<rparr>))"
proof -
  let ?t = "\<lparr>tx_gateway = g, tx_file = f, tx_steps = [], tx_applied = False, tx_attempted = False\<rparr>"
  have run: "run_locked P interfere install ?t = (Inr res, t)"
    using assms(1) by (auto simp: gateway_run_def Let_def split: sum.splits)
  have failing: "res_failed x" if "fail_closed P interfere install r c e u = (Inr x, u')" for r c e u x u'
    using that by (auto simp: fail_closed_def Let_def split: prod.splits sum.splits)
  obtain r where r: "remote_read f = Inr r"
    using run by (auto simp: run_locked_def split: sum.splits)
  have int: "intent r \<noteq> None" using run r assms(3) by (auto simp: run_locked_def split: if_splits)
  then obtain ep where ep: "assert_provider_identity (provider_name P) r = Some ep"
    using run r assms(2) failing by (auto simp: run_locked_def split: option.splits)
  obtain persisted where p: "publish_parts P interfere install r ep ?t = (Inr persisted, t)" "res_record res = persisted"
    using run r int ep assms(2) failing by (auto simp: run_locked_def split: prod.splits sum.splits)
  obtain q g0 insp t1 where q: "from_record r = Inr q" "call_inspect P g0 = (Some insp, tx_gateway t1)"
    "assert_inspection_matches_plan insp q ep" "remote_read (tx_file t1) = Inr r"
    "observe_part interfere install r q insp t1 = (Inr persisted, t)"
    using publish_success [OF p(1)] by blast
  have surf: "plan_surface q = publication_surface r"
    using from_record_valid [OF remote_read_ok [OF r] int] q(1) by (simp add: loopback_plan_def)
  have o: "tx_gateway t = tx_gateway t1" "remote_read (tx_file t) = Inr persisted" "wan_surface persisted = plan_surface q"
    "persisted = r \<or> status r = PUBLICATION_PENDING \<and> persisted = r\<lparr>status := ENABLED\<rparr>"
    using observe_success [OF q(5,4) surf] by auto
  have "intent persisted = intent r" using o(4) by auto
  then have "ep = gateway_provider i"
    using ep assms(3) p(2) by (auto simp: assert_provider_identity_def split: option.splits if_splits)
  then show ?thesis using q(2,3) o r p(2) by (auto simp: assert_inspection_matches_plan_def)
qed

subsection \<open>Failures\<close>

text \<open>The file differs from what it was only by what other processes did.\<close>

definition env_only :: "interference \<Rightarrow> 'g tx \<Rightarrow> 'g tx \<Rightarrow> bool" where
  "env_only interfere t t' \<longleftrightarrow> (\<exists>ks. tx_file t' = fold interfere ks (tx_file t))"

definition silent :: "interference \<Rightarrow> ('g, 'a) part \<Rightarrow> bool" where
  "silent interfere m \<longleftrightarrow> (\<forall>t. env_only interfere t (snd (m t)))"

definition silent_raise :: "interference \<Rightarrow> ('g, 'a) part \<Rightarrow> bool" where
  "silent_raise interfere m \<longleftrightarrow> (\<forall>t e t'. m t = (Inl e, t') \<longrightarrow> env_only interfere t t')"

lemma env_only_same: "tx_file t' = tx_file t \<Longrightarrow> env_only interfere t t'"
  unfolding env_only_def by (rule exI [of _ "[]"]) simp

lemma env_only_others: "tx_file t' = interfere k (tx_file t) \<Longrightarrow> env_only interfere t t'"
  unfolding env_only_def by (rule exI [of _ "[k]"]) simp

lemma env_only_trans: "env_only interfere a b \<Longrightarrow> env_only interfere b c \<Longrightarrow> env_only interfere a c"
  unfolding env_only_def by (metis fold_append comp_apply)

lemma silent_provider_call: "silent interfere (provider_call c l f)"
  by (auto simp: silent_def provider_call_def intro!: env_only_same split: prod.split option.split)

lemma silent_check: "silent interfere (check b c)"
  by (auto simp: silent_def check_def intro: env_only_same)

lemma silent_marks: "silent interfere start_apply" "silent interfere mark_applied"
  by (auto simp: silent_def start_apply_def mark_applied_def intro: env_only_same)

lemma silent_plan_matches: "silent interfere (assert_plan_matches_record p r)"
  by (auto simp: silent_def assert_plan_matches_record_def check_def intro: env_only_same split: sum.split)

lemma silent_record_current: "silent interfere (assert_record_current interfere k r u)"
  by (auto simp: silent_def assert_record_current_def Let_def check_def intro!: env_only_others split: sum.split)

lemma silent_then:
  assumes "silent interfere m" "\<And>x. silent_raise interfere (k x)" shows "silent_raise interfere (and_then m k)"
  unfolding silent_raise_def
proof (intro allI impI)
  fix t e t' assume r: "and_then m k t = (Inl e, t')"
  obtain out t1 where m: "m t = (out, t1)" by fastforce
  have 1: "env_only interfere t t1" using assms(1) m by (metis silent_def snd_conv)
  show "env_only interfere t t'"
  proof (cases out)
    case (Inl x)
    then show ?thesis using r m 1 by (simp add: and_then_def)
  next
    case (Inr x)
    then have "k x t1 = (Inl e, t')" using r m by (simp add: and_then_def)
    then show ?thesis using assms(2) [of x] 1 env_only_trans unfolding silent_raise_def by blast
  qed
qed

lemma observe_raise_keeps_file: "observe_control_center e insp s f = (Inl x, f') \<Longrightarrow> f' = f"
  by (auto simp: observe_control_center_def locked_update_def remote_write_def split: sum.splits if_splits)

lemma silent_observe: "silent_raise interfere (observe_part interfere install r p insp)"
  by (auto simp: silent_raise_def observe_part_def Let_def intro!: env_only_others
      dest: observe_raise_keeps_file split: if_splits prod.splits sum.splits rc_error.splits)

lemma silent_publish: "silent_raise interfere (publish_parts P interfere install r ep)"
  unfolding publish_parts_def
  by (intro silent_then silent_provider_call silent_plan_matches silent_record_current silent_marks silent_check silent_observe)

lemma contain_parts_closed:
  assumes "contain_parts P r ep t = (Inr x, t')"
  shows "\<exists>g0 insp. call_inspect P g0 = (Some insp, tx_gateway t') \<and> assert_closed_inspection insp ep"
proof -
  obtain p where "and_then (provider_call [] ''contain'' (call_apply P p)) (\<lambda>_.
      and_then (provider_call [] ''contain_inspect'' (call_inspect P)) (\<lambda>insp.
      check (assert_closed_inspection insp ep) None)) t = (Inr x, t')"
    using assms by (auto simp: contain_parts_def split: sum.splits)
  then show ?thesis by (elim and_then_Inr) (fastforce simp: provider_call_Inr check_Inr)
qed

lemma contain_closed_result:
  assumes "contain_closed P r ep rb t = ((rolled, held), t')"
  shows "tx_file t' = tx_file t"
    and "held \<Longrightarrow> \<exists>g0 insp. call_inspect P g0 = (Some insp, tx_gateway t') \<and> assert_closed_inspection insp ep"
proof -
  define undone where "undone = (if rb then (case call_rollback P (tx_gateway t) of
        (Some _, g) \<Rightarrow> (True, step_done ''rollback'' (t\<lparr>tx_gateway := g\<rparr>))
      | (None, g) \<Rightarrow> (False, step_done ''rollback_failed'' (t\<lparr>tx_gateway := g\<rparr>))) else (False, t))"
  obtain b t1 where b: "undone = (b, t1)" by fastforce
  have t1: "tx_file t1 = tx_file t" using b by (auto simp: undone_def split: if_splits prod.splits option.splits)
  obtain out t2 where o: "contain_parts P r ep t1 = (out, t2)" by fastforce
  have t': "t' = (case out of Inr _ \<Rightarrow> t2 | Inl _ \<Rightarrow> step_done ''contain_failed'' t2)"
    and held: "held = (case out of Inr _ \<Rightarrow> True | Inl _ \<Rightarrow> False)"
    using assms o unfolding contain_closed_def undone_def [symmetric] b Let_def by (auto split: sum.splits)
  have "tx_file t2 = tx_file t1"
    using o by (auto simp: contain_parts_def and_then_def provider_call_def check_def
        split: sum.splits prod.splits option.splits if_splits)
  then show "tx_file t' = tx_file t" using t1 t' by (cases out) auto
  show "\<exists>g0 insp. call_inspect P g0 = (Some insp, tx_gateway t') \<and> assert_closed_inspection insp ep" if held
    using that held t' o contain_parts_closed by (cases out) auto
qed

lemma fail_if_current_file:
  assumes "fail_if_current e code s f = (Inr r, f')"
  shows "f' = f \<or> f' = Some r \<and> status r = ERROR \<and> error_code r = Some code"
  using assms by (auto simp: fail_if_current_def locked_update_def fail_unlocked_def remote_write_def validate_record_def Let_def
      split: sum.splits if_splits)

definition closed_by_inspection :: "'g gateway_provider_calls \<Rightarrow> 'g \<Rightarrow> bool" where
  "closed_by_inspection P g \<longleftrightarrow> (\<exists>g0 insp. call_inspect P g0 = (Some insp, g) \<and> seen_surface insp = CLOSED
     \<and> \<not> control_port_public insp \<and> \<not> installer_open insp)"

lemma fail_closed_result:
  assumes "fail_closed P interfere install r code ep t = (Inr res, t')"
  shows "(res_contained res \<longrightarrow> closed_by_inspection P (tx_gateway t')) \<and> res_failed res
    \<and> (tx_file t' = interfere 5 (tx_file t)
       \<or> res_contained res \<and> tx_file t' = Some (res_record res) \<and> status (res_record res) = ERROR)"
proof -
  define stop where "stop = (case ep of
      Some p \<Rightarrow> if intent r \<noteq> None then contain_closed P r p (tx_attempted t) t else ((False, False), t)
    | None \<Rightarrow> ((False, False), t))"
  obtain rolled held t1 where c: "stop = ((rolled, held), t1)" by (metis prod.exhaust)
  have t1: "tx_file t1 = tx_file t" and shut: "held \<Longrightarrow> closed_by_inspection P (tx_gateway t1)"
    using c contain_closed_result
    by (auto simp: stop_def closed_by_inspection_def assert_closed_inspection_def split: option.splits if_splits) fast+
  let ?f = "interfere 5 (tx_file t)"
  have "res_contained res = held" "res_failed res" "tx_gateway t' = tx_gateway t1"
    "tx_file t' = ?f \<or> held \<and> (\<exists>code'. fail_if_current r code' install ?f = (Inr (res_record res), tx_file t'))"
    using assms unfolding fail_closed_def stop_def [symmetric] c Let_def prod.case
    by (auto simp: t1 split: prod.splits sum.splits if_splits)
  then show ?thesis using shut fail_if_current_file by metis
qed

text \<open>C14: a publication that fails is fail-closed. Whatever the provider and other processes do, a
  run that reports a failure has written nothing to the store, unless containment succeeded; in
  that case all it may have written is the error status of the record it returns, and the last
  provider call was an inspection that found the gateway closed, with port 8081 not public and the
  installer closed. So error is persisted only after the gateway was seen to be closed.\<close>

theorem failed_publication_is_contained:
  assumes "gateway_run P interfere install g f = (Inr res, t)" "res_failed res"
  shows "(res_contained res \<longrightarrow> closed_by_inspection P (tx_gateway t))
    \<and> ((\<exists>ks. tx_file t = fold interfere ks f)
       \<or> res_contained res \<and> tx_file t = Some (res_record res) \<and> status (res_record res) = ERROR)"
proof -
  let ?t = "\<lparr>tx_gateway = g, tx_file = f, tx_steps = [], tx_applied = False, tx_attempted = False\<rparr>"
  have run: "run_locked P interfere install ?t = (Inr res, t)"
    using assms(1) by (auto simp: gateway_run_def Let_def split: sum.splits)
  then obtain r code ep u where u: "fail_closed P interfere install r code ep u = (Inr res, t)" "env_only interfere ?t u"
    using assms(2) silent_publish [of interfere P install, unfolded silent_raise_def]
    by (auto simp: run_locked_def env_only_same split: sum.splits if_splits option.splits prod.splits)
  obtain ks where "tx_file u = fold interfere ks f" using u(2) by (auto simp: env_only_def)
  then have "interfere 5 (tx_file u) = fold interfere (ks @ [5]) f" by simp
  then show ?thesis using fail_closed_result [OF u(1)] by metis
qed

subsection \<open>An honest provider\<close>

text \<open>
  What the protocol documents of a provider: it plans the plan of the record, its calls return, and
  an inspection reports what was applied last. \<open>shows g\<close> is the surface of the gateway \<open>g\<close>.
\<close>

definition honest :: "'g gateway_provider_calls \<Rightarrow> ('g \<Rightarrow> WanSurface) \<Rightarrow> GatewayProviderName \<Rightarrow> bool" where
  "honest P shows name \<longleftrightarrow>
     provider_name P = provider_value name
     \<and> (\<forall>r g p. from_record r = Inr p \<longrightarrow> fst (call_plan P r g) = Some p)
     \<and> (\<forall>p g. fst (call_validate P p g) = Some ())
     \<and> (\<forall>p g. fst (call_apply P p g) = Some () \<and> shows (snd (call_apply P p g)) = plan_surface p)
     \<and> (\<forall>g. fst (call_verify P g) = Some () \<and> shows (snd (call_verify P g)) = shows g)
     \<and> (\<forall>g. fst (call_inspect P g) =
          Some \<lparr>provider = name, seen_surface = shows g, control_port_public = False, installer_open = False\<rparr>)"

lemma provider_identity_value: "provider_identity (provider_value p) = Some p"
  by (cases p) (simp_all add: provider_identity_def)

lemma pending_run:
  assumes "remote_read f = Inr r" "status r = PUBLICATION_PENDING" "intent r = Some i" "honest P shows (gateway_provider i)"
  shows "\<exists>res t. gateway_run P (\<lambda>_ f. f) COMPLETED g f = (Inr res, t) \<and> \<not> res_failed res
    \<and> res_record res = r\<lparr>status := ENABLED\<rparr> \<and> remote_read (tx_file t) = Inr (r\<lparr>status := ENABLED\<rparr>)
    \<and> res_steps res = [''plan'', ''validate'', ''apply'', ''verify'', ''inspect'', ''observe'']"
proof -
  have ok: "remote_ok r" by (rule remote_read_ok [OF assms(1)])
  let ?p = "loopback_plan r"
  let ?insp = "\<lparr>provider = gateway_provider i, seen_surface = CONTROL_CENTER, control_port_public = False, installer_open = False\<rparr>"
  have p: "from_record r = Inr ?p" using from_record_valid [OF ok] assms(3) by simp
  have surf: "plan_surface ?p = CONTROL_CENTER" using surface_statuses(2) [OF ok] assms(2) by (simp add: loopback_plan_def)
  obtain g1 where 1: "call_plan P r g = (Some ?p, g1)" using assms(4) p by (metis honest_def prod.collapse)
  obtain g2 where 2: "call_validate P ?p g1 = (Some (), g2)" using assms(4) by (metis honest_def prod.collapse)
  obtain g3 where 3: "call_apply P ?p g2 = (Some (), g3)" "shows g3 = CONTROL_CENTER"
    using assms(4) surf by (metis honest_def prod.collapse)
  obtain g4 where 4: "call_verify P g3 = (Some (), g4)" "shows g4 = CONTROL_CENTER"
    using assms(4) 3(2) by (metis honest_def prod.collapse)
  obtain g5 where 5: "call_inspect P g4 = (Some ?insp, g5)"
    using assms(4) 4(2) unfolding honest_def by (metis prod.collapse)
  have "remote_step (Observe r ?insp) r (r\<lparr>status := ENABLED\<rparr>)"
    using assms(2,3) by (auto simp: remote_step_simps inspection_of_def)
  then obtain f' where o: "observe_control_center r ?insp COMPLETED f = (Inr (r\<lparr>status := ENABLED\<rparr>), f')"
      "remote_read f' = Inr (r\<lparr>status := ENABLED\<rparr>)"
    using remote_store_refinement [OF assms(1), of "Observe r ?insp" COMPLETED]
    by (auto simp: performs_def split: prod.splits sum.splits)
  have lo: "assert_loopback_plan ?p" using loopback_ok by (auto simp: assert_loopback_plan_def loopback_plan_def bind_ok_def)
  have id: "assert_provider_identity (provider_name P) r = Some (gateway_provider i)"
    using assms(3,4) by (simp add: assert_provider_identity_def honest_def provider_identity_value)
  have match: "assert_inspection_matches_plan ?insp ?p (gateway_provider i)" by (simp add: assert_inspection_matches_plan_def surf)
  show ?thesis
    using assms(1,2,3) 1 2 3(1) 4(1) 5 o p lo id match surf
    by (simp add: gateway_run_def gateway_require_completed_def run_locked_def publish_parts_def and_then_def provider_call_def
        assert_plan_matches_record_def check_def assert_record_current_def others_def Let_def start_apply_def mark_applied_def
        observe_part_def step_done_def) (simp add: loopback_plan_def)
qed

text \<open>C36: a pending publication becomes enabled. With an honest provider of the intended kind and
  no other process writing the store, a run over a readable file whose publication is pending
  reports success after exactly the steps plan, validate, apply, verify, inspect and observe, and
  leaves the record enabled.\<close>

theorem pending_publication_is_enabled:
  assumes "remote_read f = Inr r" "status r = PUBLICATION_PENDING" "intent r = Some i" "honest P shows (gateway_provider i)"
  shows "\<exists>res t. gateway_run P (\<lambda>_ f. f) COMPLETED g f = (Inr res, t) \<and> \<not> res_failed res
    \<and> res_record res = r\<lparr>status := ENABLED\<rparr> \<and> remote_read (tx_file t) = Inr (r\<lparr>status := ENABLED\<rparr>)
    \<and> res_steps res = [''plan'', ''validate'', ''apply'', ''verify'', ''inspect'', ''observe'']"
  by (rule pending_run [OF assms])

definition demo_provider :: "WanSurface gateway_provider_calls" where
  "demo_provider =
     \<lparr>provider_name = ''nginx'',
      call_plan = (\<lambda>r g. (case from_record r of Inl _ \<Rightarrow> None | Inr p \<Rightarrow> Some p, g)),
      call_validate = (\<lambda>p g. (Some (), g)), call_apply = (\<lambda>p g. (Some (), plan_surface p)),
      call_verify = (\<lambda>g. (Some (), g)), call_rollback = (\<lambda>g. (Some (), g)),
      call_inspect = (\<lambda>g. (Some \<lparr>provider = NGINX, seen_surface = g, control_port_public = False, installer_open = False\<rparr>, g))\<rparr>"

lemma demo_provider_honest: "honest demo_provider (\<lambda>g. g) (gateway_provider demo_intent)"
  by (simp add: honest_def demo_provider_def demo_intent_def)

lemma demo_pending: "remote_read (Some (demo_record PUBLICATION_PENDING)) = Inr (demo_record PUBLICATION_PENDING)"
  "intent (demo_record PUBLICATION_PENDING) = Some demo_intent" "status (demo_record PUBLICATION_PENDING) = PUBLICATION_PENDING"
  using remote_read_Some [OF demo_ok(2)] by (simp_all add: demo_record_def)

theorem pending_publication_is_enabled_witness:
  "\<exists>res t. gateway_run demo_provider (\<lambda>_ f. f) COMPLETED CLOSED (Some (demo_record PUBLICATION_PENDING)) = (Inr res, t)
     \<and> status (res_record res) = ENABLED"
  using pending_publication_is_enabled [OF demo_pending(1,3,2) demo_provider_honest, of CLOSED] by auto

theorem successful_publication_is_truthful_witness:
  "\<exists>res t. gateway_run demo_provider (\<lambda>_ f. f) COMPLETED CLOSED (Some (demo_record PUBLICATION_PENDING)) = (Inr res, t)
     \<and> (\<exists>g0 insp. call_inspect demo_provider g0 = (Some insp, tx_gateway t) \<and> seen_surface insp = wan_surface (res_record res))"
proof -
  obtain res t where r: "gateway_run demo_provider (\<lambda>_ f. f) COMPLETED CLOSED (Some (demo_record PUBLICATION_PENDING)) = (Inr res, t)"
    "\<not> res_failed res" "res_record res = (demo_record PUBLICATION_PENDING)\<lparr>status := ENABLED\<rparr>"
    using pending_run [OF demo_pending(1,3,2) demo_provider_honest, of CLOSED] by blast
  have "intent (res_record res) = Some demo_intent" using r(3) demo_pending(2) by simp
  then show ?thesis using successful_publication_is_truthful [OF r(1,2)] r(1) by blast
qed

text \<open>A provider whose verification raises.\<close>

definition broken_provider :: "WanSurface gateway_provider_calls" where
  "broken_provider = demo_provider\<lparr>call_verify := (\<lambda>g. (None, g))\<rparr>"

lemma broken_run:
  "\<exists>res t. gateway_run broken_provider (\<lambda>_ f. f) COMPLETED CLOSED (Some (demo_record PUBLICATION_PENDING)) = (Inr res, t)
     \<and> res_failed res \<and> res_contained res"
proof -
  have p: "from_record (demo_record PUBLICATION_PENDING) = Inr (loopback_plan (demo_record PUBLICATION_PENDING))"
    using from_record_valid [OF demo_ok(2)] demo_pending(2) by simp
  have q: "closed_containment_plan (demo_record PUBLICATION_PENDING) = Inr (loopback_plan (demo_record DISABLED))"
    using from_record_valid [OF demo_ok(2)] remote_ok_fixed [OF demo_ok(2)]
    by (simp add: closed_containment_plan_def demo_record_def)
  have surf: "plan_surface (loopback_plan (demo_record DISABLED)) = CLOSED"
    by (simp add: loopback_plan_def publication_surface_def wan_surface_def demo_record_def)
  have lo: "assert_loopback_plan (loopback_plan r)" for r
    using loopback_ok by (auto simp: assert_loopback_plan_def loopback_plan_def bind_ok_def)
  have fl: "\<exists>r f'. fail_if_current (demo_record PUBLICATION_PENDING) ''gateway_verify_failed'' COMPLETED
      (Some (demo_record PUBLICATION_PENDING)) = (Inr r, f')"
  proof -
    have "fullmatch rc_error_code_pattern ''gateway_verify_failed''" by code_simp
    then have "remote_step (FailIfCurrent (demo_record PUBLICATION_PENDING) ''gateway_verify_failed'') (demo_record PUBLICATION_PENDING)
      ((demo_record PUBLICATION_PENDING)\<lparr>status := ERROR, error_code := Some ''gateway_verify_failed''\<rparr>)"
      using demo_pending(3) by (simp add: remote_step_simps)
    then show ?thesis
      using remote_store_refinement [OF demo_pending(1), of "FailIfCurrent (demo_record PUBLICATION_PENDING) ''gateway_verify_failed''" COMPLETED]
      by (auto simp: performs_def split: prod.splits sum.splits)
  qed
  have id: "assert_provider_identity ''nginx'' (demo_record PUBLICATION_PENDING) = Some NGINX"
    by code_simp
  have rec: "plan_record (loopback_plan r) = r" for r by (simp add: loopback_plan_def)
  obtain r f' where r: "fail_if_current (demo_record PUBLICATION_PENDING) ''gateway_verify_failed'' COMPLETED
      (Some (demo_record PUBLICATION_PENDING)) = (Inr r, f')" using fl by blast
  show ?thesis
    by (simp add: gateway_run_def gateway_require_completed_def run_locked_def publish_parts_def and_then_def provider_call_def
        assert_plan_matches_record_def check_def assert_record_current_def others_def Let_def start_apply_def mark_applied_def
        step_done_def broken_provider_def demo_provider_def demo_pending p q surf lo id rec r
        fail_closed_def contain_closed_def contain_parts_def assert_closed_inspection_def)
qed

theorem failed_publication_is_contained_witness:
  "\<exists>res t. gateway_run broken_provider (\<lambda>_ f. f) COMPLETED CLOSED (Some (demo_record PUBLICATION_PENDING)) = (Inr res, t)
     \<and> res_failed res \<and> closed_by_inspection broken_provider (tx_gateway t)"
proof -
  obtain res t where r: "gateway_run broken_provider (\<lambda>_ f. f) COMPLETED CLOSED (Some (demo_record PUBLICATION_PENDING)) = (Inr res, t)"
    "res_failed res" "res_contained res" using broken_run by blast
  show ?thesis using failed_publication_is_contained [OF r(1,2)] r by blast
qed

end
