(* ===== verification/Pairing.thy ===== *)
theory Pairing
  imports Remote_Control_Safety
begin

text \<open>
  One-time pairing of \<open>pairing.py\<close>: the code, the checks on request headers, and \<open>PairingStore\<close>.
  \<open>consume\<close> takes the file lock twice, with the slow key derivation in between, so it is two atomic
  functions: \<open>consume_begin\<close> reserves an attempt and \<open>consume_finish\<close> settles it; other processes run
  between them. The state is the content of the pairing file; the remote control file is read only.
  The key derivation and the session hash are parameters, random values are inputs, datetimes are
  aware and given in microseconds. The descriptor and permission handling of the file is not
  modelled.
\<close>

subsection \<open>Constants and data\<close>

definition PAIRING_TTL :: int where "PAIRING_TTL = minutes 10"
definition ENROLLMENT_SESSION_TTL :: int where "ENROLLMENT_SESSION_TTL = minutes 15"
definition IN_FLIGHT_LEASE :: int where "IN_FLIGHT_LEASE = seconds 30"
definition MAX_FAILED_ATTEMPTS :: nat where "MAX_FAILED_ATTEMPTS = 8"
definition PAIRING_CODE_LENGTH :: nat where "PAIRING_CODE_LENGTH = 8"
definition PAIRING_ALPHABET :: string where "PAIRING_ALPHABET = ''23456789ABCDEFGHJKMNPQRSTVWXYZ''"
definition CODE_GROUP :: nat where "CODE_GROUP = 4"
definition ACTIVATE_PATH :: string where "ACTIVATE_PATH = ''/activate''"

datatype pairing_error =
    PairingDenied
  | PairingRejected
  | PairingIssueUnavailable string
  | PairingStoreUnavailable
  | PairingValueError

record issued_pairing =
  ip_code :: string
  ip_activate_url :: string
  ip_control_hostname :: string
  ip_expires_at :: int

record consumed_pairing =
  cp_token :: string
  cp_expires_at :: int
  cp_control_hostname :: string

record stored_pairing =
  sp_installation_id :: string
  sp_control_hostname :: string
  sp_code_salt_hex :: "string option"
  sp_code_hash_hex :: "string option"
  sp_issued_at :: int
  sp_expires_at :: int
  sp_consumed_at :: "int option"
  sp_failed_attempts :: nat
  sp_in_flight :: nat
  sp_in_flight_until :: "int option"
  sp_locked :: bool
  sp_session_hash_hex :: "string option"
  sp_enrollment_expires_at :: "int option"

definition validate_pairing :: "stored_pairing \<Rightarrow> pairing_error + stored_pairing" where
  "validate_pairing p =
     (case validate_dns_hostname (sp_control_hostname p) ''control_hostname'' of
        Inl _ \<Rightarrow> Inl PairingValueError
      | Inr h \<Rightarrow> Inr (p\<lparr>sp_control_hostname := h\<rparr>))"

subsection \<open>Bytes in hexadecimal\<close>

definition hex :: "string \<Rightarrow> string" where
  "hex bytes = concat (map (\<lambda>c. [hex_digit (of_char c div 16), hex_digit (of_char c mod 16)]) bytes)"

definition hex_nibble :: "char \<Rightarrow> nat option" where
  "hex_nibble c =
     (let n = of_char c in
      if 48 \<le> n \<and> n \<le> 57 then Some (n - 48)
      else if 97 \<le> n \<and> n \<le> 102 then Some (n - 87)
      else if 65 \<le> n \<and> n \<le> 70 then Some (n - 55)
      else None)"

text \<open>\<open>bytes.fromhex\<close> on text without white space.\<close>

fun fromhex :: "string \<Rightarrow> string option" where
  "fromhex [] = Some []"
| "fromhex [_] = None"
| "fromhex (a # b # s) =
     (case (hex_nibble a, hex_nibble b, fromhex s) of
        (Some x, Some y, Some t) \<Rightarrow> Some (char_of (16 * x + y) # t)
      | _ \<Rightarrow> None)"

subsection \<open>Codes\<close>

text \<open>\<open>str.upper\<close> on code points below 256; two letters whose capital is above 255 are left alone.\<close>

definition upper_char :: "char \<Rightarrow> string" where
  "upper_char c =
     (let n = (of_char c :: nat) in
      if 97 \<le> n \<and> n \<le> 122 then [char_of (n - 32)]
      else if 224 \<le> n \<and> n \<le> 254 \<and> n \<noteq> 247 then [char_of (n - 32)]
      else if n = 223 then ''SS'' else [c])"

definition py_upper :: "string \<Rightarrow> string" where
  "py_upper s = concat (map upper_char s)"

definition normalize_pairing_code :: "string \<Rightarrow> pairing_error + string" where
  "normalize_pairing_code v =
     (let compact = filter (in_class [digit, upper]) (py_upper (py_strip v))
      in if length compact \<noteq> PAIRING_CODE_LENGTH \<or> \<not> list_all (\<lambda>c. c \<in> set PAIRING_ALPHABET) compact
         then Inl PairingRejected else Inr compact)"

definition format_pairing_code :: "string \<Rightarrow> pairing_error + string" where
  "format_pairing_code raw =
     (case normalize_pairing_code raw of Inl e \<Rightarrow> Inl e | Inr n \<Rightarrow>
      Inr (take CODE_GROUP n @ ''-'' @ drop CODE_GROUP n))"

text \<open>The random choices are the characters drawn from the alphabet.\<close>

definition generate_pairing_code :: "string \<Rightarrow> pairing_error + string" where
  "generate_pairing_code choices = format_pairing_code choices"

subsection \<open>Request headers\<close>

definition partition_colon :: "string \<Rightarrow> string \<times> bool \<times> string" where
  "partition_colon s =
     (let host = takeWhile (\<lambda>c. c \<noteq> CHR '':'') s; rest = dropWhile (\<lambda>c. c \<noteq> CHR '':'') s
      in (host, rest \<noteq> [], tl rest))"

definition host_from_header :: "string option \<Rightarrow> pairing_error + string" where
  "host_from_header v =
     (case v of None \<Rightarrow> Inl PairingDenied | Some value_text \<Rightarrow>
      let candidate = casefold (py_strip value_text) in
      if candidate = [] \<or> CHR ''/'' \<in> set candidate \<or> CHR ''@'' \<in> set candidate \<or> CHR '' '' \<in> set candidate
         \<or> starts_with candidate ''['' \<or> ends_with candidate ''.''
      then Inl PairingDenied
      else let (host, separator, port) = partition_colon candidate in
        if separator \<and> port \<noteq> ''443'' then Inl PairingDenied
        else case validate_dns_hostname host ''host'' of
          Inl _ \<Rightarrow> Inl PairingDenied
        | Inr canonical \<Rightarrow> if canonical \<noteq> host then Inl PairingDenied else Inr canonical)"

definition origin_from_header :: "string option \<Rightarrow> string \<Rightarrow> bool \<Rightarrow> pairing_error + unit" where
  "origin_from_header v control required =
     (if v = None \<or> v = Some [] then (if required then Inl PairingDenied else Inr ())
      else let expected = ''https://'' @ control; text = (case v of None \<Rightarrow> [] | Some s \<Rightarrow> s)
           in if text \<noteq> expected \<and> casefold text \<noteq> expected then Inl PairingDenied else Inr ())"

definition activate_url :: "string \<Rightarrow> pairing_error + string" where
  "activate_url control =
     (case validate_dns_hostname control ''control_hostname'' of
        Inl _ \<Rightarrow> Inl PairingValueError
      | Inr host \<Rightarrow> Inr (''https://'' @ host @ ACTIVATE_PATH))"

definition pairing_require_completed :: "InstallState \<Rightarrow> pairing_error + unit" where
  "pairing_require_completed s = (if s \<noteq> COMPLETED then Inl PairingDenied else Inr ())"

definition enrollment_control_hostname :: "remote_record \<Rightarrow> string option" where
  "enrollment_control_hostname r =
     (case intent r of
        None \<Rightarrow> None
      | Some i \<Rightarrow> if status r \<noteq> ENROLLMENT_PENDING \<or> \<not> remote_access_requested i then None
                  else Some (control_hostname i))"

subsection \<open>The store\<close>

type_synonym pairing_file = "stored_pairing option"

text \<open>The derivation of a digest from a password and a salt, and the hash of a session token.\<close>

record pairing_crypto =
  scrypt :: "string \<Rightarrow> string \<Rightarrow> string"
  sha256_hex :: "string \<Rightarrow> string"

definition code_password :: "string \<Rightarrow> string \<Rightarrow> string \<Rightarrow> string" where
  "code_password installation control code = installation @ [char_of (0::nat)] @ control @ [char_of (0::nat)] @ code"

definition hash_session :: "pairing_crypto \<Rightarrow> string \<Rightarrow> pairing_error + string" where
  "hash_session K token =
     (if list_all (\<lambda>c. (of_char c :: nat) < 128) token then Inr (sha256_hex K token) else Inl PairingValueError)"

definition effective_in_flight :: "stored_pairing \<Rightarrow> int \<Rightarrow> nat" where
  "effective_in_flight p now =
     (if sp_in_flight p = 0 then 0
      else case sp_in_flight_until p of None \<Rightarrow> 0 | Some u \<Rightarrow> if u \<le> now then 0 else sp_in_flight p)"

definition live_code_verifier :: "stored_pairing option \<Rightarrow> string \<Rightarrow> string \<Rightarrow> int \<Rightarrow> bool" where
  "live_code_verifier rec installation control now =
     (case rec of None \<Rightarrow> False | Some p \<Rightarrow>
        sp_installation_id p = installation \<and> sp_control_hostname p = control \<and> sp_consumed_at p = None
        \<and> \<not> sp_locked p \<and> now < sp_expires_at p \<and> sp_code_salt_hex p \<noteq> None \<and> sp_code_hash_hex p \<noteq> None)"

definition same_live_code_verifier ::
  "stored_pairing option \<Rightarrow> string \<Rightarrow> string \<Rightarrow> string \<Rightarrow> string \<Rightarrow> int \<Rightarrow> bool" where
  "same_live_code_verifier rec salt_hex hash_hex installation control now \<longleftrightarrow>
     live_code_verifier rec installation control now
     \<and> (case rec of None \<Rightarrow> False | Some p \<Rightarrow> sp_code_salt_hex p = Some salt_hex \<and> sp_code_hash_hex p = Some hash_hex)"

definition pairing_read :: "pairing_file \<Rightarrow> pairing_error + stored_pairing option" where
  "pairing_read f =
     (case f of None \<Rightarrow> Inr None | Some p \<Rightarrow>
      case validate_pairing p of Inl _ \<Rightarrow> Inl PairingStoreUnavailable | Inr p' \<Rightarrow> Inr (Some p'))"

definition pairing_issue ::
  "pairing_crypto \<Rightarrow> string \<Rightarrow> string \<Rightarrow> remote_record \<Rightarrow> string \<Rightarrow> InstallState \<Rightarrow> int \<Rightarrow> pairing_file \<Rightarrow>
   (pairing_error + issued_pairing) \<times> pairing_file" where
  "pairing_issue K choices salt remote installation install now f =
     (if install \<noteq> COMPLETED
      then (Inl (PairingIssueUnavailable ''pairing can be issued only after installation is COMPLETED''), f)
      else case enrollment_control_hostname remote of
        None \<Rightarrow> (Inl (PairingIssueUnavailable ''pairing can be issued only while remote control is ENROLLMENT_PENDING''), f)
      | Some control \<Rightarrow>
          if installation = [] then (Inl (PairingIssueUnavailable ''installation identity is unavailable''), f)
          else case generate_pairing_code choices of Inl e \<Rightarrow> (Inl e, f) | Inr code \<Rightarrow>
            case normalize_pairing_code code of Inl e \<Rightarrow> (Inl e, f) | Inr normalized \<Rightarrow>
            case validate_pairing
              \<lparr>sp_installation_id = installation, sp_control_hostname = control, sp_code_salt_hex = Some (hex salt),
               sp_code_hash_hex = Some (hex (scrypt K (code_password installation control normalized) salt)),
               sp_issued_at = now, sp_expires_at = now + PAIRING_TTL, sp_consumed_at = None, sp_failed_attempts = 0,
               sp_in_flight = 0, sp_in_flight_until = None, sp_locked = False, sp_session_hash_hex = None,
               sp_enrollment_expires_at = None\<rparr> of
              Inl e \<Rightarrow> (Inl e, f)
            | Inr rec \<Rightarrow>
                (case activate_url control of
                   Inl e \<Rightarrow> (Inl e, Some rec)
                 | Inr url \<Rightarrow>
                     (Inr \<lparr>ip_code = code, ip_activate_url = url, ip_control_hostname = control,
                           ip_expires_at = sp_expires_at rec\<rparr>, Some rec)))"

text \<open>What an attempt carries from its first section to its second.\<close>

record ticket =
  tk_salt_hex :: string
  tk_hash_hex :: string
  tk_host :: string
  tk_control :: string
  tk_installation :: string
  tk_moment :: int

definition release_inflight :: "string \<Rightarrow> string \<Rightarrow> stored_pairing option \<Rightarrow> pairing_file \<Rightarrow> pairing_file" where
  "release_inflight salt_hex hash_hex rec f =
     (case rec of None \<Rightarrow> f | Some p \<Rightarrow>
      if sp_code_salt_hex p \<noteq> Some salt_hex \<or> sp_code_hash_hex p \<noteq> Some hash_hex \<or> sp_in_flight p = 0 then f
      else let n = sp_in_flight p - 1
           in Some (p\<lparr>sp_in_flight := n, sp_in_flight_until := (if n = 0 then None else sp_in_flight_until p)\<rparr>))"

definition register_failure :: "stored_pairing \<Rightarrow> pairing_file" where
  "register_failure p =
     (let attempts = sp_failed_attempts p + 1; locked = (MAX_FAILED_ATTEMPTS \<le> attempts);
          n = (if locked then 0 else sp_in_flight p - 1)
      in Some (p\<lparr>sp_code_salt_hex := (if locked then None else sp_code_salt_hex p),
                 sp_code_hash_hex := (if locked then None else sp_code_hash_hex p),
                 sp_failed_attempts := attempts, sp_in_flight := n,
                 sp_in_flight_until := (if n = 0 then None else sp_in_flight_until p), sp_locked := locked\<rparr>))"

text \<open>The first section of \<open>consume\<close>.\<close>

definition consume_begin ::
  "remote_file \<Rightarrow> string \<Rightarrow> InstallState \<Rightarrow> string \<Rightarrow> string option \<Rightarrow> int \<Rightarrow> pairing_file \<Rightarrow>
   (pairing_error + ticket) \<times> pairing_file" where
  "consume_begin remote_file installation install host origin moment f =
     (case pairing_require_completed install of Inl e \<Rightarrow> (Inl e, f) | Inr _ \<Rightarrow>
      case host_from_header (Some host) of Inl e \<Rightarrow> (Inl e, f) | Inr presented \<Rightarrow>
      case remote_read remote_file of Inl _ \<Rightarrow> (Inl PairingStoreUnavailable, f) | Inr remote \<Rightarrow>
      case enrollment_control_hostname remote of None \<Rightarrow> (Inl PairingDenied, f) | Some control \<Rightarrow>
      if presented \<noteq> control then (Inl PairingDenied, f)
      else case origin_from_header origin control True of Inl e \<Rightarrow> (Inl e, f) | Inr _ \<Rightarrow>
      if installation = [] then (Inl PairingRejected, f)
      else case pairing_read f of Inl e \<Rightarrow> (Inl e, f) | Inr rec0 \<Rightarrow>
      let stale = (case rec0 of None \<Rightarrow> False | Some p \<Rightarrow> effective_in_flight p moment = 0 \<and> 0 < sp_in_flight p);
          rec = (if stale then map_option (\<lambda>p. p\<lparr>sp_in_flight := 0, sp_in_flight_until := None\<rparr>) rec0 else rec0);
          f1 = (if stale then rec else f)
      in if \<not> live_code_verifier rec installation control moment then (Inl PairingRejected, f1)
         else case rec of None \<Rightarrow> (Inl PairingRejected, f1) | Some p \<Rightarrow>
           if MAX_FAILED_ATTEMPTS \<le> sp_failed_attempts p + effective_in_flight p moment
           then (Inl PairingRejected, f1)
           else case (sp_code_salt_hex p, sp_code_hash_hex p) of
             (Some salt_hex, Some hash_hex) \<Rightarrow>
               (Inr \<lparr>tk_salt_hex = salt_hex, tk_hash_hex = hash_hex, tk_host = presented, tk_control = control,
                     tk_installation = installation, tk_moment = moment\<rparr>,
                Some (p\<lparr>sp_in_flight := sp_in_flight p + 1, sp_in_flight_until := Some (moment + IN_FLIGHT_LEASE)\<rparr>))
           | _ \<Rightarrow> (Inl PairingRejected, f1))"

definition fail_if_same_verifier :: "ticket \<Rightarrow> int \<Rightarrow> pairing_file \<Rightarrow> (pairing_error + unit) \<times> pairing_file" where
  "fail_if_same_verifier k now f =
     (case pairing_read f of Inl e \<Rightarrow> (Inl e, f) | Inr rec \<Rightarrow>
      if same_live_code_verifier rec (tk_salt_hex k) (tk_hash_hex k) (tk_installation k) (tk_control k) now
      then (Inr (), case rec of None \<Rightarrow> f | Some p \<Rightarrow> register_failure p)
      else (Inr (), release_inflight (tk_salt_hex k) (tk_hash_hex k) rec f))"

text \<open>The \<open>finally\<close> block of an attempt that was not settled, and the error that is raised then.\<close>

definition unsettled :: "ticket \<Rightarrow> pairing_file \<Rightarrow> (pairing_error + consumed_pairing) \<times> pairing_file" where
  "unsettled k f =
     (case pairing_read f of
        Inl e \<Rightarrow> (Inl e, f)
      | Inr rec \<Rightarrow> (Inl PairingStoreUnavailable, release_inflight (tk_salt_hex k) (tk_hash_hex k) rec f))"

text \<open>The section that commits an attempt: \<open>token\<close> is the fresh session token.\<close>

definition consume_commit ::
  "pairing_crypto \<Rightarrow> remote_file \<Rightarrow> string \<Rightarrow> string \<Rightarrow> int \<Rightarrow> ticket \<Rightarrow> pairing_file \<Rightarrow>
   (pairing_error + consumed_pairing) \<times> pairing_file" where
  "consume_commit K remote_file digest token now k f =
     (let release = release_inflight (tk_salt_hex k) (tk_hash_hex k) in
      case pairing_read f of Inl _ \<Rightarrow> unsettled k f | Inr current \<Rightarrow>
      case remote_read remote_file of Inl _ \<Rightarrow> unsettled k f | Inr remote \<Rightarrow>
      case enrollment_control_hostname remote of None \<Rightarrow> (Inl PairingDenied, release current f) | Some control \<Rightarrow>
      if tk_host k \<noteq> control then (Inl PairingDenied, release current f)
      else if \<not> same_live_code_verifier current (tk_salt_hex k) (tk_hash_hex k) (tk_installation k) control now
      then (Inl PairingRejected, release current f)
      else case current of None \<Rightarrow> (Inl PairingRejected, f) | Some p \<Rightarrow>
      if hex digest \<noteq> tk_hash_hex k then (Inl PairingRejected, register_failure p)
      else case hash_session K token of Inl _ \<Rightarrow> unsettled k f | Inr session_hash \<Rightarrow>
        (Inr \<lparr>cp_token = token, cp_expires_at = now + ENROLLMENT_SESSION_TTL, cp_control_hostname = control\<rparr>,
         Some \<lparr>sp_installation_id = sp_installation_id p, sp_control_hostname = sp_control_hostname p,
               sp_code_salt_hex = None, sp_code_hash_hex = None, sp_issued_at = sp_issued_at p,
               sp_expires_at = sp_expires_at p, sp_consumed_at = Some now, sp_failed_attempts = sp_failed_attempts p,
               sp_in_flight = 0, sp_in_flight_until = None, sp_locked = False,
               sp_session_hash_hex = Some session_hash,
               sp_enrollment_expires_at = Some (now + ENROLLMENT_SESSION_TTL)\<rparr>))"

text \<open>The rest of \<open>consume\<close> after the first section.\<close>

definition consume_finish ::
  "pairing_crypto \<Rightarrow> remote_file \<Rightarrow> string \<Rightarrow> string \<Rightarrow> int \<Rightarrow> ticket \<Rightarrow> pairing_file \<Rightarrow>
   (pairing_error + consumed_pairing) \<times> pairing_file" where
  "consume_finish K remote_file code token now k f =
     (case normalize_pairing_code code of
        Inl _ \<Rightarrow>
          (case fail_if_same_verifier k (tk_moment k) f of
             (Inl e, f') \<Rightarrow> (Inl e, f')
           | (Inr _, f') \<Rightarrow> (Inl PairingRejected, f'))
      | Inr normalized \<Rightarrow>
          (case fromhex (tk_salt_hex k) of
             None \<Rightarrow> unsettled k f
           | Some salt \<Rightarrow>
               consume_commit K remote_file (scrypt K (code_password (tk_installation k) (tk_control k) normalized) salt)
                 token now k f))"

definition enrollment_session_valid ::
  "pairing_crypto \<Rightarrow> string \<Rightarrow> remote_record \<Rightarrow> string \<Rightarrow> int \<Rightarrow> pairing_file \<Rightarrow> pairing_error + bool" where
  "enrollment_session_valid K token remote installation now f =
     (if status remote \<noteq> ENROLLMENT_PENDING \<or> token = [] then Inr False
      else case intent remote of None \<Rightarrow> Inr False | Some i \<Rightarrow>
      case pairing_read f of Inl e \<Rightarrow> Inl e | Inr None \<Rightarrow> Inr False | Inr (Some p) \<Rightarrow>
      (case (sp_consumed_at p, sp_session_hash_hex p, sp_enrollment_expires_at p) of
         (Some _, Some h, Some expires) \<Rightarrow>
           if sp_installation_id p \<noteq> installation \<or> sp_control_hostname p \<noteq> control_hostname i \<or> expires \<le> now
           then Inr False
           else (case hash_session K token of Inl e \<Rightarrow> Inl e | Inr h' \<Rightarrow> Inr (h' = h))
       | _ \<Rightarrow> Inr False))"

definition destroy_after_passkey ::
  "pairing_crypto \<Rightarrow> string \<Rightarrow> string \<Rightarrow> string \<Rightarrow> pairing_file \<Rightarrow> (pairing_error + unit) \<times> pairing_file" where
  "destroy_after_passkey K installation control token f =
     (case hash_session K token of Inl e \<Rightarrow> (Inl e, f) | Inr h \<Rightarrow>
      case pairing_read f of Inl e \<Rightarrow> (Inl e, f) | Inr None \<Rightarrow> (Inr (), f) | Inr (Some p) \<Rightarrow>
      (case sp_session_hash_hex p of None \<Rightarrow> (Inr (), f) | Some h' \<Rightarrow>
       if sp_installation_id p \<noteq> installation \<or> sp_control_hostname p \<noteq> control \<or> h' \<noteq> h then (Inr (), f)
       else (Inr (), None)))"

end
