(* ===== verification/Pairing_Safety.thy ===== *)
theory Pairing_Safety
  imports Pairing
begin

text \<open>
  What pairing guarantees: an issued code is accepted at most once, at most eight wrong guesses are
  judged against it, whatever the interleaving of attempts, and the code that was issued is accepted
  in any spelling before it expires.
\<close>

subsection \<open>Hexadecimal and codes\<close>

lemma hex_digit_value: "n < 16 \<Longrightarrow> hex_nibble (hex_digit n) = Some n"
  by (auto simp: hex_nibble_def hex_digit_def Let_def)

lemma fromhex_hex: "fromhex (hex s) = Some s"
proof (induction s)
  case (Cons c s)
  have "(of_char c :: nat) div 16 < 16" "(of_char c :: nat) mod 16 < 16" by (cases c; simp)+
  then show ?case using Cons by (simp add: hex_def hex_digit_value)
qed (simp add: hex_def)

lemma hex_inj: "hex s = hex t \<Longrightarrow> s = t"
  using fromhex_hex by (metis option.inject)

lemma alphabet_class: "c \<in> set PAIRING_ALPHABET \<Longrightarrow> in_class [digit, upper] c \<and> upper_char c = [c] \<and> \<not> py_space c"
proof -
  have "list_all (\<lambda>c. in_class [digit, upper] c \<and> upper_char c = [c] \<and> \<not> py_space c) PAIRING_ALPHABET" by code_simp
  then show "c \<in> set PAIRING_ALPHABET \<Longrightarrow> ?thesis" by (simp add: list_all_iff)
qed

definition pairing_code_ok :: "string \<Rightarrow> bool" where
  "pairing_code_ok n \<longleftrightarrow> length n = PAIRING_CODE_LENGTH \<and> list_all (\<lambda>c. c \<in> set PAIRING_ALPHABET) n"

lemma normalize_code_ok: "normalize_pairing_code v = Inr n \<Longrightarrow> pairing_code_ok n"
  by (auto simp: normalize_pairing_code_def pairing_code_ok_def Let_def split: if_splits)

lemma strip_ends:
  assumes "s \<noteq> []" "\<not> py_space (hd s)" "\<not> py_space (last s)" shows "py_strip s = s"
proof -
  have 1: "dropWhile py_space s = s" using assms(1,2) by (cases s) auto
  have "dropWhile py_space (rev s) = rev s" using assms(1,3) by (cases s rule: rev_cases) auto
  then show ?thesis by (simp add: py_strip_def 1)
qed

lemma upper_code: "list_all (\<lambda>c. c \<in> set PAIRING_ALPHABET) s \<Longrightarrow> py_upper s = s"
  by (induction s) (auto simp: py_upper_def alphabet_class)

lemma filter_code: "list_all (\<lambda>c. c \<in> set PAIRING_ALPHABET) s \<Longrightarrow> filter (in_class [digit, upper]) s = s"
  by (induction s) (auto simp: alphabet_class)

lemma py_upper_append [simp]: "py_upper (s @ t) = py_upper s @ py_upper t"
  by (simp add: py_upper_def)

text \<open>The printed form of a code reads back as the code.\<close>

lemma normalize_format:
  assumes "format_pairing_code raw = Inr code" shows "\<exists>n. normalize_pairing_code raw = Inr n \<and> normalize_pairing_code code = Inr n"
proof -
  obtain n where n: "normalize_pairing_code raw = Inr n" and c: "code = take 4 n @ ''-'' @ drop 4 n"
    using assms by (auto simp: format_pairing_code_def CODE_GROUP_def split: sum.splits)
  have ok: "length n = 8" "list_all (\<lambda>c. c \<in> set PAIRING_ALPHABET) n"
    using normalize_code_ok [OF n] by (auto simp: pairing_code_ok_def PAIRING_CODE_LENGTH_def)
  have parts: "list_all (\<lambda>c. c \<in> set PAIRING_ALPHABET) (take 4 n)" "list_all (\<lambda>c. c \<in> set PAIRING_ALPHABET) (drop 4 n)"
    using ok(2) by (auto simp: list_all_iff dest: in_set_takeD in_set_dropD)
  have "n \<noteq> []" "drop 4 n \<noteq> []" "take 4 n \<noteq> []" using ok(1) by auto
  then have "hd code \<in> set PAIRING_ALPHABET" "last code \<in> set PAIRING_ALPHABET" "code \<noteq> []"
    using parts hd_in_set [of "take 4 n"] last_in_set [of "drop 4 n"] by (auto simp: c list_all_iff)
  then have "py_strip code = code" using alphabet_class by (intro strip_ends) auto
  moreover have "py_upper (CHR ''-'' # t) = CHR ''-'' # py_upper t" "\<not> in_class [digit, upper] CHR ''-''" for t
    by (simp_all add: py_upper_def upper_char_def in_class_def Let_def)
  ultimately have "filter (in_class [digit, upper]) (py_upper (py_strip code)) = n"
    using parts by (simp add: c upper_code filter_code)
  then show ?thesis using n ok by (simp add: normalize_pairing_code_def Let_def PAIRING_CODE_LENGTH_def)
qed

subsection \<open>The verdict on an attempt\<close>

text \<open>
  Whether the second section of an attempt judges the code against the live verifier, and whether
  the code is right then. Text that is no code is judged at the moment the attempt began.
\<close>

definition judged :: "pairing_crypto \<Rightarrow> remote_file \<Rightarrow> string \<Rightarrow> int \<Rightarrow> ticket \<Rightarrow> pairing_file \<Rightarrow> bool option" where
  "judged K rf code now k f =
     (case normalize_pairing_code code of
        Inl _ \<Rightarrow>
          if same_live_code_verifier f (tk_salt_hex k) (tk_hash_hex k) (tk_installation k) (tk_control k) (tk_moment k)
          then Some False else None
      | Inr n \<Rightarrow>
          (case (fromhex (tk_salt_hex k), remote_read rf) of
             (Some salt, Inr remote) \<Rightarrow>
               if enrollment_control_hostname remote = Some (tk_host k)
                  \<and> same_live_code_verifier f (tk_salt_hex k) (tk_hash_hex k) (tk_installation k) (tk_host k) now
               then Some (hex (scrypt K (code_password (tk_installation k) (tk_control k) n) salt) = tk_hash_hex k)
               else None
           | _ \<Rightarrow> None))"

definition open_verifier :: "stored_pairing \<Rightarrow> bool" where
  "open_verifier p \<longleftrightarrow> sp_consumed_at p = None \<and> \<not> sp_locked p \<and> sp_code_hash_hex p \<noteq> None"

lemma canonical_read:
  assumes "canonical_hostname (sp_control_hostname p)" shows "pairing_read (Some p) = Inr (Some p)"
  using assms by (simp add: pairing_read_def validate_pairing_def canonical_fixed)

lemma same_live_open: "same_live_code_verifier (Some p) s h i c now \<Longrightarrow> open_verifier p \<and> sp_code_hash_hex p = Some h"
  by (auto simp: same_live_code_verifier_def live_code_verifier_def open_verifier_def)

definition released :: "stored_pairing \<Rightarrow> stored_pairing \<Rightarrow> bool" where
  "released p p' \<longleftrightarrow> (\<exists>n u. n \<le> sp_in_flight p \<and> p' = p\<lparr>sp_in_flight := n, sp_in_flight_until := u\<rparr>)"

lemma released_refl: "released p p"
  unfolding released_def by (intro exI [of _ "sp_in_flight p"] exI [of _ "sp_in_flight_until p"]) simp

lemma release_inflight_released: "\<exists>p'. release_inflight s h (Some p) (Some p) = Some p' \<and> released p p'"
proof (cases "sp_code_salt_hex p \<noteq> Some s \<or> sp_code_hash_hex p \<noteq> Some h \<or> sp_in_flight p = 0")
  case True
  then show ?thesis using released_refl by (auto simp: release_inflight_def)
next
  case False
  then show ?thesis unfolding release_inflight_def released_def Let_def
    by (auto intro!: exI [of _ "sp_in_flight p - 1"] exI [of _ "if sp_in_flight p - 1 = 0 then None else sp_in_flight_until p"])
qed

lemma unsettled_released:
  assumes "canonical_hostname (sp_control_hostname p)"
  shows "\<exists>e p'. unsettled k (Some p) = (Inl e, Some p') \<and> released p p'"
  using release_inflight_released [of "tk_salt_hex k" "tk_hash_hex k" p] by (auto simp: unsettled_def canonical_read [OF assms])

text \<open>The three ways in which an attempt on a file with a record ends.\<close>

lemma attempt_cases:
  assumes "canonical_hostname (sp_control_hostname p)"
  shows "judged K rf code now k (Some p) = Some False \<Longrightarrow>
      consume_finish K rf code token now k (Some p) = (Inl PairingRejected, register_failure p) \<and> open_verifier p"
    and "judged K rf code now k (Some p) = None \<Longrightarrow>
      \<exists>e p'. consume_finish K rf code token now k (Some p) = (Inl e, Some p') \<and> released p p'"
    and "judged K rf code now k (Some p) = Some True \<Longrightarrow> open_verifier p \<and>
      ((\<exists>e p'. consume_finish K rf code token now k (Some p) = (Inl e, Some p') \<and> released p p')
       \<or> (\<exists>c p'. consume_finish K rf code token now k (Some p) = (Inr c, Some p') \<and> sp_consumed_at p' \<noteq> None
            \<and> sp_code_hash_hex p' = None \<and> sp_in_flight p' = 0 \<and> sp_failed_attempts p' = sp_failed_attempts p
            \<and> sp_control_hostname p' = sp_control_hostname p))"
proof -
  note rd = canonical_read [OF assms] and unset = unsettled_released [OF assms, of k]
    and rel = release_inflight_released [of "tk_salt_hex k" "tk_hash_hex k" p]
  note unfolds = judged_def consume_finish_def fail_if_same_verifier_def consume_commit_def Let_def rd
  show "consume_finish K rf code token now k (Some p) = (Inl PairingRejected, register_failure p) \<and> open_verifier p"
    if "judged K rf code now k (Some p) = Some False"
    using that same_live_open by (auto simp: unfolds split: sum.splits option.splits if_splits)
  show "\<exists>e p'. consume_finish K rf code token now k (Some p) = (Inl e, Some p') \<and> released p p'"
    if "judged K rf code now k (Some p) = None"
    using that unset rel by (auto simp: unfolds split: sum.splits option.splits if_splits)
  show "open_verifier p \<and>
      ((\<exists>e p'. consume_finish K rf code token now k (Some p) = (Inl e, Some p') \<and> released p p')
       \<or> (\<exists>c p'. consume_finish K rf code token now k (Some p) = (Inr c, Some p') \<and> sp_consumed_at p' \<noteq> None
            \<and> sp_code_hash_hex p' = None \<and> sp_in_flight p' = 0 \<and> sp_failed_attempts p' = sp_failed_attempts p
            \<and> sp_control_hostname p' = sp_control_hostname p))"
    if "judged K rf code now k (Some p) = Some True"
    using that unset same_live_open by (auto simp: unfolds split: sum.splits option.splits if_splits)
qed

lemma begin_cases:
  assumes "canonical_hostname (sp_control_hostname p)"
  shows "\<exists>out n u. consume_begin rf inst install host origin moment (Some p) =
      (out, Some (p\<lparr>sp_in_flight := n, sp_in_flight_until := u\<rparr>))
    \<and> (n \<le> sp_in_flight p \<or> sp_failed_attempts p + n \<le> MAX_FAILED_ATTEMPTS)"
proof -
  note rd = canonical_read [OF assms]
  define q where "q = (if effective_in_flight p moment = 0 \<and> 0 < sp_in_flight p
    then p\<lparr>sp_in_flight := 0, sp_in_flight_until := None\<rparr> else p)"
  have q: "\<exists>n u. q = p\<lparr>sp_in_flight := n, sp_in_flight_until := u\<rparr> \<and> n \<le> sp_in_flight p"
    using released_refl [of p] by (auto simp: q_def released_def)
  have eff: "effective_in_flight q moment = sp_in_flight q"
    by (auto simp: q_def effective_in_flight_def split: option.splits if_splits)
  have "snd (consume_begin rf inst install host origin moment (Some p)) = Some p
      \<or> snd (consume_begin rf inst install host origin moment (Some p)) = Some q
      \<or> sp_failed_attempts q + sp_in_flight q < MAX_FAILED_ATTEMPTS \<and>
        snd (consume_begin rf inst install host origin moment (Some p)) =
          Some (q\<lparr>sp_in_flight := sp_in_flight q + 1, sp_in_flight_until := Some (moment + IN_FLIGHT_LEASE)\<rparr>)"
    using eff by (auto simp: consume_begin_def Let_def rd q_def split: sum.splits option.splits if_splits)
  then show ?thesis
    using q released_refl [of p] unfolding released_def
    by (cases "consume_begin rf inst install host origin moment (Some p)") (auto, force+)
qed

subsection \<open>Runs\<close>

datatype pairing_event =
    Begin remote_file string InstallState string "string option" int
  | Finish remote_file string string int ticket
  | Destroy string string string

fun pairing_step :: "pairing_crypto \<Rightarrow> pairing_event \<Rightarrow> pairing_file \<Rightarrow> pairing_file" where
  "pairing_step K (Begin rf inst install host origin moment) f = snd (consume_begin rf inst install host origin moment f)"
| "pairing_step K (Finish rf code token now k) f = snd (consume_finish K rf code token now k f)"
| "pairing_step K (Destroy inst control token) f = snd (destroy_after_passkey K inst control token f)"

fun accepted :: "pairing_crypto \<Rightarrow> pairing_event \<Rightarrow> pairing_file \<Rightarrow> bool" where
  "accepted K (Finish rf code token now k) f = (case fst (consume_finish K rf code token now k f) of Inr _ \<Rightarrow> True | Inl _ \<Rightarrow> False)"
| "accepted K _ f = False"

fun wrong :: "pairing_crypto \<Rightarrow> pairing_event \<Rightarrow> pairing_file \<Rightarrow> bool" where
  "wrong K (Finish rf code token now k) f = (judged K rf code now k f = Some False)"
| "wrong K _ f = False"

text \<open>How many guesses a run judged wrong, how many it accepted, and the file it leaves.\<close>

fun tally :: "pairing_crypto \<Rightarrow> pairing_event list \<Rightarrow> pairing_file \<Rightarrow> nat \<times> nat \<times> pairing_file" where
  "tally K [] f = (0, 0, f)"
| "tally K (e # es) f =
     (case tally K es (pairing_step K e f) of (w, a, f') \<Rightarrow>
        ((if wrong K e f then w + 1 else w), (if accepted K e f then a + 1 else a), f'))"

text \<open>\<open>w\<close> wrong guesses and \<open>a\<close> acceptances so far.\<close>

definition guess_budget :: "nat \<Rightarrow> nat \<Rightarrow> pairing_file \<Rightarrow> bool" where
  "guess_budget w a f \<longleftrightarrow> w \<le> MAX_FAILED_ATTEMPTS \<and> a \<le> 1 \<and> (a = 1 \<longrightarrow> w < MAX_FAILED_ATTEMPTS) \<and>
     (case f of None \<Rightarrow> a = 1
      | Some p \<Rightarrow> canonical_hostname (sp_control_hostname p) \<and> sp_failed_attempts p = w
          \<and> sp_failed_attempts p + sp_in_flight p \<le> MAX_FAILED_ATTEMPTS
          \<and> (a = 0 \<longrightarrow> sp_session_hash_hex p = None)
          \<and> (a = 1 \<or> w = MAX_FAILED_ATTEMPTS \<longrightarrow> sp_code_hash_hex p = None))"

lemma guess_budget_in_flight:
  assumes "guess_budget w a (Some p)" "n \<le> sp_in_flight p \<or> sp_failed_attempts p + n \<le> MAX_FAILED_ATTEMPTS"
  shows "guess_budget w a (Some (p\<lparr>sp_in_flight := n, sp_in_flight_until := u\<rparr>))"
  using assms by (auto simp: guess_budget_def)

lemma guess_budget_released: "guess_budget w a (Some p) \<Longrightarrow> released p p' \<Longrightarrow> guess_budget w a (Some p')"
  using guess_budget_in_flight by (auto simp: released_def)

lemma open_guess_budget:
  assumes "guess_budget w a (Some p)" "open_verifier p" shows "w < MAX_FAILED_ATTEMPTS \<and> a = 0"
  using assms by (auto simp: guess_budget_def open_verifier_def)

lemma absent_finish: "\<exists>e. consume_finish K rf code token now k None = (Inl e, None)"
  by (auto simp: consume_finish_def fail_if_same_verifier_def unsettled_def consume_commit_def Let_def pairing_read_def
      same_live_code_verifier_def release_inflight_def split: sum.split option.split)

lemma absent_others:
  "snd (consume_begin rf inst install host origin moment None) = None"
  "snd (destroy_after_passkey K inst control token None) = None" "judged K rf code now k None = None"
  by (simp_all add: consume_begin_def destroy_after_passkey_def judged_def pairing_read_def live_code_verifier_def Let_def
      same_live_code_verifier_def split: sum.split option.split)

lemma guess_budget_step:
  assumes "guess_budget w a f"
  shows "guess_budget (if wrong K e f then w + 1 else w) (if accepted K e f then a + 1 else a) (pairing_step K e f)"
proof (cases f)
  case None
  show ?thesis
  proof (cases e)
    case (Finish rf code token now k)
    then show ?thesis using None assms absent_finish [of K rf code token now k] by (auto simp: absent_others)
  qed (use None assms in \<open>simp_all add: absent_others\<close>)
next
  case (Some p)
  have can: "canonical_hostname (sp_control_hostname p)" using assms Some by (simp add: guess_budget_def)
  show ?thesis
  proof (cases e)
    case (Begin rf inst install host origin moment)
    then show ?thesis
      using begin_cases [OF can, of rf inst install host origin moment] guess_budget_in_flight assms Some by fastforce
  next
    case (Destroy inst control token)
    then show ?thesis
      using assms Some by (auto simp: destroy_after_passkey_def canonical_read [OF can] guess_budget_def split: sum.splits option.splits)
  next
    case (Finish rf code token now k)
    show ?thesis
    proof (cases "judged K rf code now k (Some p)")
      case None
      then show ?thesis
        using attempt_cases(2) [OF can None, of token] assms Some Finish guess_budget_released by fastforce
    next
      case j: (Some b)
      show ?thesis
      proof (cases b)
        case True
        then have "judged K rf code now k (Some p) = Some True" using j by simp
        note f = attempt_cases(3) [OF can this, of token]
        have wa: "w < MAX_FAILED_ATTEMPTS" "a = 0" using open_guess_budget assms Some f by auto
        from f consider (no) x p' where "consume_finish K rf code token now k (Some p) = (Inl x, Some p')" "released p p'"
          | (yes) c p' where "consume_finish K rf code token now k (Some p) = (Inr c, Some p')" "sp_code_hash_hex p' = None"
            "sp_in_flight p' = 0" "sp_failed_attempts p' = sp_failed_attempts p" "sp_control_hostname p' = sp_control_hostname p"
          by blast
        then show ?thesis
        proof cases
          case no
          then show ?thesis using assms Some Finish j True guess_budget_released by simp
        next
          case yes
          then show ?thesis using wa assms Some Finish j True by (simp add: guess_budget_def)
        qed
      next
        case False
        then have "judged K rf code now k (Some p) = Some False" using j by simp
        note f = attempt_cases(1) [OF can this, of token]
        have "w < MAX_FAILED_ATTEMPTS" "a = 0" using open_guess_budget assms Some f by auto
        then show ?thesis using f assms Some Finish j False
          by (auto simp: guess_budget_def register_failure_def Let_def MAX_FAILED_ATTEMPTS_def)
      qed
    qed
  qed
qed

lemma guess_budget_run:
  "guess_budget w a f \<Longrightarrow> tally K es f = (w', a', f') \<Longrightarrow> guess_budget (w + w') (a + a') f'"
proof (induction es arbitrary: w a f w' a')
  case (Cons e es)
  obtain x y where xy: "tally K es (pairing_step K e f) = (x, y, f')" using Cons.prems(2) by (auto split: prod.splits)
  show ?case using Cons.IH [OF guess_budget_step [OF Cons.prems(1)] xy] Cons.prems(2) xy by (auto split: if_splits)
qed simp

subsection \<open>What an issued code guarantees\<close>

text \<open>The record that a successful issue leaves.\<close>

definition issued_record :: "pairing_crypto \<Rightarrow> string \<Rightarrow> string \<Rightarrow> string \<Rightarrow> string \<Rightarrow> int \<Rightarrow> stored_pairing" where
  "issued_record K n salt inst control now =
     \<lparr>sp_installation_id = inst, sp_control_hostname = control, sp_code_salt_hex = Some (hex salt),
      sp_code_hash_hex = Some (hex (scrypt K (code_password inst control n) salt)),
      sp_issued_at = now, sp_expires_at = now + PAIRING_TTL, sp_consumed_at = None, sp_failed_attempts = 0,
      sp_in_flight = 0, sp_in_flight_until = None, sp_locked = False, sp_session_hash_hex = None,
      sp_enrollment_expires_at = None\<rparr>"

lemma issued:
  assumes "pairing_issue K choices salt remote inst install now f0 = (Inr i, f)" "remote_ok remote"
  obtains n where "install = COMPLETED" "inst \<noteq> []" "enrollment_control_hostname remote = Some (ip_control_hostname i)"
    "canonical_hostname (ip_control_hostname i)" "normalize_pairing_code (ip_code i) = Inr n"
    "f = Some (issued_record K n salt inst (ip_control_hostname i) now)"
proof -
  obtain control where c: "enrollment_control_hostname remote = Some control"
    using assms(1) by (auto simp: pairing_issue_def split: option.splits if_splits)
  then have can: "canonical_hostname control"
    using assms(2) by (auto simp: enrollment_control_hostname_def remote_ok_def intent_ok_def split: option.splits if_splits)
  then show thesis
    using assms(1) c that
    by (auto simp: pairing_issue_def validate_pairing_def canonical_fixed issued_record_def Let_def split: sum.splits if_splits)
qed

lemma issued_budget: "canonical_hostname control \<Longrightarrow> guess_budget 0 0 (Some (issued_record K n salt inst control now))"
  by (simp add: guess_budget_def issued_record_def MAX_FAILED_ATTEMPTS_def)

text \<open>C5: an issued code is single use and locks after eight wrong guesses. After a code is issued,
  let any number of processes run the two sections of any number of attempts, with any codes, hosts,
  times and tickets, in any interleaving, and destroy the record after enrollment, until the next
  issue. At most eight guesses are judged wrong against the verifier, at most one is accepted, none
  is accepted if eight were wrong, and the failed and the outstanding attempts together never
  exceed eight.\<close>

theorem pairing_code_single_use:
  assumes "pairing_issue K choices salt remote inst install now f0 = (Inr i, f)" "remote_ok remote"
    and "tally K events f = (w, a, f')"
  shows "w \<le> 8 \<and> a \<le> 1 \<and> (w = 8 \<longrightarrow> a = 0) \<and> (\<forall>p. f' = Some p \<longrightarrow> sp_failed_attempts p + sp_in_flight p \<le> 8)"
proof -
  obtain n where "canonical_hostname (ip_control_hostname i)" "f = Some (issued_record K n salt inst (ip_control_hostname i) now)"
    by (rule issued [OF assms(1,2)])
  then have "guess_budget (0 + w) (0 + a) f'" using guess_budget_run [OF _ assms(3)] issued_budget by blast
  then show ?thesis by (auto simp: guess_budget_def MAX_FAILED_ATTEMPTS_def)
qed

definition demo_crypto :: pairing_crypto where
  "demo_crypto = \<lparr>scrypt = (\<lambda>password salt. salt @ password), sha256_hex = hex\<rparr>"

definition demo_enrollment :: remote_record where
  "demo_enrollment = (demo_record ENROLLMENT_PENDING)\<lparr>enrolled_admin_passkey_rp_id := None\<rparr>"

lemma demo_enrollment_ok: "remote_ok demo_enrollment"
  using demo_ok(3) [of ENROLLMENT_PENDING] by (simp add: demo_enrollment_def)

lemma demo_issue:
  "\<exists>i f. pairing_issue demo_crypto ''23456789'' ''s'' demo_enrollment ''id'' COMPLETED 0 None = (Inr i, f)"
proof -
  have c: "canonical_hostname ''cp.ex.org''" by code_simp
  have n: "normalize_pairing_code ''23456789'' = Inr ''23456789''" "normalize_pairing_code ''2345-6789'' = Inr ''23456789''"
    by code_simp+
  have "generate_pairing_code ''23456789'' = Inr ''2345-6789''"
    by (simp add: generate_pairing_code_def format_pairing_code_def n CODE_GROUP_def)
  moreover have "enrollment_control_hostname demo_enrollment = Some ''cp.ex.org''" by code_simp
  ultimately show ?thesis
    by (simp add: pairing_issue_def n validate_pairing_def activate_url_def canonical_fixed [OF c])
qed

theorem pairing_code_single_use_witness:
  "\<exists>i f. pairing_issue demo_crypto ''23456789'' ''s'' demo_enrollment ''id'' COMPLETED 0 None = (Inr i, f)
     \<and> fst (tally demo_crypto [Destroy ''id'' ''cp.ex.org'' ''t''] f) \<le> 8"
proof -
  obtain i f where f: "pairing_issue demo_crypto ''23456789'' ''s'' demo_enrollment ''id'' COMPLETED 0 None = (Inr i, f)"
    using demo_issue by blast
  obtain w a f' where t: "tally demo_crypto [Destroy ''id'' ''cp.ex.org'' ''t''] f = (w, a, f')" by (metis prod.exhaust)
  show ?thesis using pairing_code_single_use [OF f demo_enrollment_ok t] f t by auto
qed

lemma host_char_plain:
  assumes "in_class host_chars c" shows "c \<noteq> CHR ''/'' \<and> c \<noteq> CHR ''@'' \<and> c \<noteq> CHR '' '' \<and> c \<noteq> CHR ''['' \<and> c \<noteq> CHR '':''"
  using assms by (auto simp: host_chars_def in_class_def)

lemma host_header_canonical:
  assumes "canonical_hostname h" shows "host_from_header (Some h) = Inr h"
proof -
  have cls: "\<forall>c \<in> set h. in_class host_chars c" using canonical_chars [OF assms] by (simp add: list_all_iff)
  then have no: "c \<notin> set h" if "c \<in> {CHR ''/'', CHR ''@'', CHR '' '', CHR ''['', CHR '':''}" for c
    using that host_char_plain by auto
  have m: "h \<noteq> []" "last h \<noteq> CHR ''.''"
    using host_matches_last [of h] assms by (auto simp: canonical_hostname_def in_class_def)
  have "casefold (py_strip h) = h" using canonical_chars [OF assms] by (simp add: strip_host fold_host)
  moreover have "\<not> starts_with h ''[''" using no [of "CHR ''[''"] by (cases h) auto
  moreover have "\<not> ends_with h ''.''" using m by (cases h rule: rev_cases) (auto simp: ends_with_def)
  moreover have w: "takeWhile (\<lambda>c. c \<noteq> CHR '':'') h = h" "dropWhile (\<lambda>c. c \<noteq> CHR '':'') h = []"
    using no [of "CHR '':''"] by (auto simp: takeWhile_eq_all_conv dropWhile_eq_Nil_conv)
  have "partition_colon h = (h, False, [])" unfolding partition_colon_def w Let_def by simp
  ultimately show ?thesis
    using m no canonical_fixed [OF assms] by (simp add: host_from_header_def)
qed

text \<open>The code that was issued is accepted. As long as remote control still awaits enrollment,
  any spelling of the issued code (any case, spaces or hyphens) that is presented on the control
  host before the code expires is accepted by the two sections of \<open>consume\<close>, and the session token it
  returns is a valid enrollment session until fifteen minutes after the acceptance.\<close>

theorem issued_code_is_accepted:
  assumes "pairing_issue K choices salt remote inst install now f0 = (Inr i, f)" "remote_read rf = Inr remote"
    and "moment < now + PAIRING_TTL" "now' < now + PAIRING_TTL"
    and "normalize_pairing_code v = normalize_pairing_code (ip_code i)"
    and "token \<noteq> []" "list_all (\<lambda>c. (of_char c :: nat) < 128) token"
  shows "\<exists>k f1 c f2. consume_begin rf inst COMPLETED (ip_control_hostname i)
        (Some (''https://'' @ ip_control_hostname i)) moment f = (Inr k, f1)
      \<and> consume_finish K rf v token now' k f1 = (Inr c, f2) \<and> cp_token c = token
      \<and> (\<forall>t < now' + ENROLLMENT_SESSION_TTL. enrollment_session_valid K token remote inst t f2 = Inr True)"
proof -
  obtain n where si: "inst \<noteq> []" "enrollment_control_hostname remote = Some (ip_control_hostname i)"
    "canonical_hostname (ip_control_hostname i)" "normalize_pairing_code (ip_code i) = Inr n"
    "f = Some (issued_record K n salt inst (ip_control_hostname i) now)"
    by (rule issued [OF assms(1) remote_read_ok [OF assms(2)]])
  let ?c = "ip_control_hostname i"
  let ?r = "issued_record K n salt inst ?c now"
  let ?h = "hex (scrypt K (code_password inst ?c n) salt)"
  let ?k = "\<lparr>tk_salt_hex = hex salt, tk_hash_hex = ?h, tk_host = ?c, tk_control = ?c, tk_installation = inst, tk_moment = moment\<rparr>"
  let ?r1 = "?r\<lparr>sp_in_flight := 1, sp_in_flight_until := Some (moment + IN_FLIGHT_LEASE)\<rparr>"
  have rd: "pairing_read f = Inr (Some ?r)" "pairing_read (Some ?r1) = Inr (Some ?r1)"
    using si by (auto simp: issued_record_def intro: canonical_read)
  have b: "consume_begin rf inst COMPLETED ?c (Some (''https://'' @ ?c)) moment f = (Inr ?k, Some ?r1)"
    using si assms(2,3) rd(1) host_header_canonical [OF si(3)]
    by (simp add: consume_begin_def pairing_require_completed_def origin_from_header_def Let_def effective_in_flight_def
        live_code_verifier_def issued_record_def MAX_FAILED_ATTEMPTS_def)
  obtain c f2 where fin: "consume_finish K rf v token now' ?k (Some ?r1) = (Inr c, Some f2)" "cp_token c = token"
    "sp_consumed_at f2 = Some now'" "sp_session_hash_hex f2 = Some (sha256_hex K token)"
    "sp_enrollment_expires_at f2 = Some (now' + ENROLLMENT_SESSION_TTL)" "sp_installation_id f2 = inst" "sp_control_hostname f2 = ?c"
    using si assms(2,4,5,7) rd(2)
    by (auto simp: consume_finish_def consume_commit_def fromhex_hex Let_def same_live_code_verifier_def live_code_verifier_def
        hash_session_def issued_record_def)
  have "enrollment_session_valid K token remote inst t (Some f2) = Inr True" if "t < now' + ENROLLMENT_SESSION_TTL" for t
    using that fin(3-7) si(2,3) assms(6,7) canonical_read [of f2]
    by (auto simp: enrollment_session_valid_def enrollment_control_hostname_def hash_session_def split: option.splits if_splits)
  then show ?thesis using b fin(1,2) by blast
qed

theorem issued_code_is_accepted_witness:
  "\<exists>i f k f1 c f2. pairing_issue demo_crypto ''23456789'' ''s'' demo_enrollment ''id'' COMPLETED 0 None = (Inr i, f)
     \<and> consume_begin (Some demo_enrollment) ''id'' COMPLETED (ip_control_hostname i)
         (Some (''https://'' @ ip_control_hostname i)) 1 f = (Inr k, f1)
     \<and> consume_finish demo_crypto (Some demo_enrollment) (ip_code i) ''t'' 2 k f1 = (Inr c, f2)"
proof -
  obtain i f where f: "pairing_issue demo_crypto ''23456789'' ''s'' demo_enrollment ''id'' COMPLETED 0 None = (Inr i, f)"
    using demo_issue by blast
  have t: "(1 :: int) < 0 + PAIRING_TTL" "(2 :: int) < 0 + PAIRING_TTL" by (simp_all add: PAIRING_TTL_def)
  have k: "''t'' \<noteq> []" "list_all (\<lambda>c. (of_char c :: nat) < 128) ''t''" by simp_all
  show ?thesis
    using issued_code_is_accepted [OF f remote_read_Some [OF demo_enrollment_ok] t refl k] f by blast
qed

end
