(* ===== verification/Contracts.thy ===== *)
theory Contracts
  imports Job_Payload
begin

text \<open>
  The validators of \<open>extension_runtime.py\<close> that its three registries share, and the contract of
  switching an owner on and off that those registries and the hook and slot registries keep.
  Versions and version ranges are decided by the packaging library, which is a parameter: \<open>'v\<close> is
  its \<open>Version\<close>, ordered as it orders versions.
\<close>

subsection \<open>Validators\<close>

datatype ext_error =
    ExtValueError string
  | ExtTypeError string
  | ExtensionContractError string
  | ContractOwnershipError string
  | ContractCompatibilityError string
  | EventDeliveryError string

text \<open>\<open>Version(text)\<close>, \<open>str(version)\<close>, the properties that make a release unstable, and
  \<open>SpecifierSet(text)\<close> with membership; no value means that the constructor raised.\<close>

record 'v packaging =
  parse_version :: "string \<Rightarrow> 'v option"
  version_text :: "'v \<Rightarrow> string"
  unstable :: "'v \<Rightarrow> bool"
  parse_specifier :: "string \<Rightarrow> ('v \<Rightarrow> bool) option"

definition contract_pattern :: rx where
  "contract_pattern =
     (let segment = Seq (Cls [single CHR ''.''] 1 (Some 1)) (Seq (Cls [lower] 1 (Some 1))
            (Cls [upper, lower, digit, single CHR ''_'', single CHR ''-''] 0 None))
      in Seq (Seq (Cls [lower] 1 (Some 1)) (Cls [lower, digit, single CHR ''-''] 0 None))
           (Seq segment (Many segment)))"

definition semver_pattern :: rx where
  "semver_pattern =
     (let number = Cls [digit] 1 None; dot = Cls [single CHR ''.''] 1 (Some 1)
      in Seq number (Seq dot (Seq number (Seq dot number))))"

definition MAX_VERSION_RANGE_BYTES :: nat where "MAX_VERSION_RANGE_BYTES = 512"

definition ext_validate_owner :: "string \<Rightarrow> ext_error + string" where
  "ext_validate_owner v =
     (if fullmatch owner_pattern v then Inr v else Inl (ExtValueError ''invalid extension owner id''))"

definition validate_contract_name :: "string \<Rightarrow> ext_error + string" where
  "validate_contract_name v =
     (if 192 < length v \<or> \<not> fullmatch contract_pattern v
      then Inl (ExtValueError ''invalid versioned contract name'') else Inr v)"

definition validate_owned_contract :: "string \<Rightarrow> string \<Rightarrow> ext_error + unit" where
  "validate_owned_contract owner contract =
     (case ext_validate_owner owner of Inl e \<Rightarrow> Inl e | Inr _ \<Rightarrow>
      case validate_contract_name contract of Inl e \<Rightarrow> Inl e | Inr _ \<Rightarrow>
      if owner = ''core'' \<or> starts_with contract ''core.''
      then Inl (ContractOwnershipError ''core.* contracts are reserved for Platform Core'')
      else if \<not> starts_with contract (owner @ ''.'')
      then Inl (ContractOwnershipError ''contract name must use its package-owned namespace'')
      else Inr ())"

definition version_of :: "'v packaging \<Rightarrow> string \<Rightarrow> ext_error + 'v" where
  "version_of K v =
     (if \<not> fullmatch semver_pattern v
      then Inl (ExtValueError ''contract version must be semantic major.minor.patch'')
      else case parse_version K v of
        None \<Rightarrow> Inl (ExtValueError ''invalid contract version'')
      | Some parsed \<Rightarrow>
          if unstable K parsed then Inl (ExtValueError ''contract versions must be stable public releases'')
          else Inr parsed)"

definition specifier_of :: "'v packaging \<Rightarrow> string \<Rightarrow> ext_error + ('v \<Rightarrow> bool)" where
  "specifier_of K v =
     (if MAX_VERSION_RANGE_BYTES < utf8_length v
      then Inl (ExtValueError ''contract version range exceeds the size limit'')
      else case parse_specifier K (if v = ''*'' then [] else v) of
        None \<Rightarrow> Inl (ExtValueError ''invalid contract version range'')
      | Some admits \<Rightarrow> Inr admits)"

subsection \<open>Switching an owner\<close>

text \<open>
  What the registries promise of \<open>activate_owner\<close> and \<open>deactivate_owner\<close>: \<open>visible\<close> are the items of
  active owners, \<open>registered\<close> all items, both without their activity mark.
\<close>

locale owner_switch =
  fixes registered visible :: "'s \<Rightarrow> 'i set"
    and owned_by :: "'i \<Rightarrow> string"
    and known :: "string \<Rightarrow> bool"
    and switch :: "string \<Rightarrow> bool \<Rightarrow> 's \<Rightarrow> ('e + nat) \<times> 's"
    and inv :: "'s \<Rightarrow> bool"
  assumes refuses: "\<not> known owner \<Longrightarrow> \<exists>e. switch owner active s = (Inl e, s)"
    and accepts: "known owner \<Longrightarrow> \<exists>n. fst (switch owner active s) = Inr n"
    and keeps_inv: "inv s \<Longrightarrow> inv (snd (switch owner active s))"
    and keeps_registered: "inv s \<Longrightarrow> registered (snd (switch owner active s)) = registered s"
    and turns_off: "inv s \<Longrightarrow> known owner \<Longrightarrow> visible (snd (switch owner False s)) = {i \<in> visible s. owned_by i \<noteq> owner}"
    and turns_on: "inv s \<Longrightarrow> known owner \<Longrightarrow>
      visible (snd (switch owner True s)) = visible s \<union> {i \<in> registered s. owned_by i = owner}"
    and visible_registered: "inv s \<Longrightarrow> visible s \<subseteq> registered s"
begin

lemma visible_after:
  assumes "inv s" "known owner"
  shows "i \<in> visible (snd (switch owner active s)) \<longleftrightarrow>
    (if owned_by i = owner then active \<and> i \<in> registered s else i \<in> visible s)"
  using assms(1) turns_on [OF assms] turns_off [OF assms] visible_registered [OF assms(1)] by (cases active) auto

lemma others_unaffected:
  assumes "inv s" "owned_by i \<noteq> owner"
  shows "i \<in> visible (snd (switch owner active s)) \<longleftrightarrow> i \<in> visible s"
proof (cases "known owner")
  case True
  then show ?thesis using visible_after [OF assms(1)] assms(2) by simp
next
  case False
  then obtain e where "switch owner active s = (Inl e, s)" using refuses by blast
  then show ?thesis by simp
qed

lemma switch_last_wins:
  assumes "inv s" "known owner"
  shows "visible (snd (switch owner active (snd (switch owner earlier s)))) = visible (snd (switch owner active s))"
  by (rule set_eqI) (simp add: visible_after keeps_inv keeps_registered assms)

lemma switches_commute:
  assumes "inv s" "known a" "known b" "a \<noteq> b"
  shows "visible (snd (switch a x (snd (switch b y s)))) = visible (snd (switch b y (snd (switch a x s))))"
  by (rule set_eqI) (simp add: visible_after keeps_inv keeps_registered assms)

text \<open>A pause of an owner that was fully visible leaves no trace.\<close>

lemma pause_restores:
  assumes "inv s" "known owner" "\<And>i. i \<in> registered s \<Longrightarrow> owned_by i = owner \<Longrightarrow> i \<in> visible s"
  shows "visible (snd (switch owner True (snd (switch owner False s)))) = visible s"
proof (rule set_eqI)
  fix i
  show "i \<in> visible (snd (switch owner True (snd (switch owner False s)))) \<longleftrightarrow> i \<in> visible s"
    unfolding switch_last_wins [OF assms(1,2)] visible_after [OF assms(1,2)]
    using assms(3) visible_registered [OF assms(1)] by auto
qed

end

subsection \<open>Items with an activity mark\<close>

text \<open>
  The registries of \<open>extension_runtime.py\<close> keep the mark in each item and rewrite the items of the
  owner. \<open>own\<close>, \<open>act\<close> and \<open>mark\<close> are the owner, the mark and its replacement.
\<close>

definition switch_entries :: "('e \<Rightarrow> string) \<Rightarrow> (bool \<Rightarrow> 'e \<Rightarrow> 'e) \<Rightarrow> string \<Rightarrow> bool \<Rightarrow> 'e list \<Rightarrow> 'e list" where
  "switch_entries own mark owner active es = map (\<lambda>e. if own e = owner then mark active e else e) es"

definition items_of :: "(bool \<Rightarrow> 'e \<Rightarrow> 'e) \<Rightarrow> 'e list \<Rightarrow> 'e set" where
  "items_of mark es = mark True ` set es"

definition visible_of :: "('e \<Rightarrow> bool) \<Rightarrow> (bool \<Rightarrow> 'e \<Rightarrow> 'e) \<Rightarrow> 'e list \<Rightarrow> 'e set" where
  "visible_of act mark es = mark True ` {e \<in> set es. act e}"

locale marked_items =
  fixes own :: "'e \<Rightarrow> string" and act :: "'e \<Rightarrow> bool" and mark :: "bool \<Rightarrow> 'e \<Rightarrow> 'e"
  assumes own_mark: "own (mark b e) = own e"
    and act_mark: "act (mark b e) = b"
    and mark_mark: "mark b (mark c e) = mark b e"
begin

lemma items_switched: "items_of mark (switch_entries own mark owner active es) = items_of mark es"
proof -
  have "map (mark True) (switch_entries own mark owner active es) = map (mark True) es"
    by (simp add: switch_entries_def mark_mark)
  then show ?thesis unfolding items_of_def by (metis list.set_map)
qed

lemma visible_off: "visible_of act mark (switch_entries own mark owner False es) = {i \<in> visible_of act mark es. own i \<noteq> owner}"
  unfolding visible_of_def switch_entries_def by (auto simp: own_mark act_mark split: if_splits)

lemma visible_on:
  "visible_of act mark (switch_entries own mark owner True es) = visible_of act mark es \<union> {i \<in> items_of mark es. own i = owner}"
proof (rule set_eqI, rule iffI)
  fix i assume "i \<in> visible_of act mark (switch_entries own mark owner True es)"
  then show "i \<in> visible_of act mark es \<union> {i \<in> items_of mark es. own i = owner}"
    by (auto simp: visible_of_def switch_entries_def items_of_def own_mark mark_mark split: if_splits)
next
  fix i assume "i \<in> visible_of act mark es \<union> {i \<in> items_of mark es. own i = owner}"
  then obtain e where e: "e \<in> set es" "i = mark True e" "act e \<or> own e = owner"
    by (auto simp: visible_of_def items_of_def own_mark)
  let ?e = "if own e = owner then mark True e else e"
  have "?e \<in> set (switch_entries own mark owner True es)" "act ?e" "i = mark True ?e"
    using e by (auto simp: switch_entries_def act_mark mark_mark)
  then show "i \<in> visible_of act mark (switch_entries own mark owner True es)" unfolding visible_of_def by blast
qed

lemma visible_items: "visible_of act mark es \<subseteq> items_of mark es"
  by (auto simp: visible_of_def items_of_def)

end

end
