(* ===== verification/Services.thy ===== *)
theory Services
  imports Contracts
begin

text \<open>
  \<open>ServiceRegistry\<close> of \<open>extension_runtime.py\<close>: providers under a contract name and a version, the
  resolution of a version range, and switching or dropping an owner. Every method holds the lock.
\<close>

record 'p service_registration =
  sr_owner :: string
  sr_contract :: string
  sr_version :: string
  sr_provider :: 'p
  sr_active :: bool

type_synonym ('v, 'p) services = "(string \<times> 'v, 'p service_registration) dict"

definition service_register ::
  "'v packaging \<Rightarrow> string \<Rightarrow> string \<Rightarrow> string \<Rightarrow> 'p option \<Rightarrow> ('v, 'p) services \<Rightarrow>
   (ext_error + 'p service_registration) \<times> ('v, 'p) services" where
  "service_register K owner contract version provider s =
     (case validate_owned_contract owner contract of Inl e \<Rightarrow> (Inl e, s) | Inr _ \<Rightarrow>
      case version_of K version of Inl e \<Rightarrow> (Inl e, s) | Inr parsed \<Rightarrow>
      case provider of None \<Rightarrow> (Inl (ExtValueError ''service provider cannot be None''), s) | Some p \<Rightarrow>
      if map_of s (contract, parsed) \<noteq> None
      then (Inl (ExtensionContractError ''service contract version is already registered''), s)
      else let registration = \<lparr>sr_owner = owner, sr_contract = contract, sr_version = version_text K parsed,
                               sr_provider = p, sr_active = True\<rparr>
           in (Inr registration, AList.update (contract, parsed) registration s))"

definition service_candidates ::
  "string \<Rightarrow> ('v \<Rightarrow> bool) \<Rightarrow> ('v, 'p) services \<Rightarrow> ('v \<times> 'p service_registration) list" where
  "service_candidates contract admits s =
     map (\<lambda>((name, parsed), r). (parsed, r))
       (filter (\<lambda>((name, parsed), r). name = contract \<and> sr_active r \<and> admits parsed) s)"

text \<open>\<open>max(candidates, key=lambda item: item[0])\<close>\<close>

fun max_candidate :: "('v::linorder \<times> 'r) \<Rightarrow> ('v \<times> 'r) list \<Rightarrow> 'v \<times> 'r" where
  "max_candidate best [] = best"
| "max_candidate best (c # cs) = max_candidate (if fst best < fst c then c else best) cs"

definition service_resolve ::
  "'v::linorder packaging \<Rightarrow> string \<Rightarrow> string \<Rightarrow> ('v, 'p) services \<Rightarrow> ext_error + 'p" where
  "service_resolve K contract version s =
     (case validate_contract_name contract of Inl e \<Rightarrow> Inl e | Inr _ \<Rightarrow>
      case specifier_of K version of Inl e \<Rightarrow> Inl e | Inr admits \<Rightarrow>
      case service_candidates contract admits s of
        [] \<Rightarrow> Inl (ContractCompatibilityError ''no compatible active service provider'')
      | c # cs \<Rightarrow> Inr (sr_provider (snd (max_candidate c cs))))"

definition service_unregister ::
  "'v packaging \<Rightarrow> string \<Rightarrow> string \<Rightarrow> string \<Rightarrow> ('v, 'p) services \<Rightarrow> (ext_error + unit) \<times> ('v, 'p) services" where
  "service_unregister K owner contract version s =
     (case ext_validate_owner owner of Inl e \<Rightarrow> (Inl e, s) | Inr _ \<Rightarrow>
      case validate_contract_name contract of Inl e \<Rightarrow> (Inl e, s) | Inr _ \<Rightarrow>
      case version_of K version of Inl e \<Rightarrow> (Inl e, s) | Inr parsed \<Rightarrow>
      case map_of s (contract, parsed) of
        None \<Rightarrow> (Inl (ExtensionContractError ''service contract version is not registered''), s)
      | Some r \<Rightarrow>
          if sr_owner r \<noteq> owner
          then (Inl (ContractOwnershipError ''only the service owner may unregister it''), s)
          else (Inr (), AList.delete (contract, parsed) s))"

definition service_drop_owner :: "string \<Rightarrow> ('v, 'p) services \<Rightarrow> (ext_error + nat) \<times> ('v, 'p) services" where
  "service_drop_owner owner s =
     (case ext_validate_owner owner of Inl e \<Rightarrow> (Inl e, s) | Inr _ \<Rightarrow>
      (Inr (length (filter (\<lambda>(k, r). sr_owner r = owner) s)), filter (\<lambda>(k, r). sr_owner r \<noteq> owner) s))"

definition service_set_owner_active ::
  "string \<Rightarrow> bool \<Rightarrow> ('v, 'p) services \<Rightarrow> (ext_error + nat) \<times> ('v, 'p) services" where
  "service_set_owner_active owner active s =
     (case ext_validate_owner owner of Inl e \<Rightarrow> (Inl e, s) | Inr _ \<Rightarrow>
      (Inr (length (filter (\<lambda>(k, r). sr_owner r = owner \<and> sr_active r \<noteq> active) s)),
       dict_map (\<lambda>r. if sr_owner r = owner \<and> sr_active r \<noteq> active then r\<lparr>sr_active := active\<rparr> else r) s))"

subsection \<open>The registry switches owners\<close>

type_synonym ('v, 'p) service_entry = "(string \<times> 'v) \<times> 'p service_registration"

definition service_owner :: "('v, 'p) service_entry \<Rightarrow> string" where
  "service_owner e = sr_owner (snd e)"

definition service_active :: "('v, 'p) service_entry \<Rightarrow> bool" where
  "service_active e = sr_active (snd e)"

definition mark_service :: "bool \<Rightarrow> ('v, 'p) service_entry \<Rightarrow> ('v, 'p) service_entry" where
  "mark_service b e = (fst e, (snd e)\<lparr>sr_active := b\<rparr>)"

interpretation service_marks: marked_items service_owner service_active mark_service
  by unfold_locales (simp_all add: service_owner_def service_active_def mark_service_def)

lemma switched_activity: "(if sr_owner r = owner \<and> sr_active r \<noteq> b then r\<lparr>sr_active := b\<rparr> else r) =
    (if sr_owner r = owner then r\<lparr>sr_active := b\<rparr> else r)"
  by (cases r) auto

lemma service_entries_switched:
  "fullmatch owner_pattern owner \<Longrightarrow>
   snd (service_set_owner_active owner b s) = switch_entries service_owner mark_service owner b s"
  by (auto simp: service_set_owner_active_def ext_validate_owner_def dict_map_def switched_activity switch_entries_def
      service_owner_def mark_service_def)

interpretation service_switch: owner_switch "items_of mark_service" "visible_of service_active mark_service" service_owner
  "fullmatch owner_pattern" service_set_owner_active "\<lambda>_. True"
proof unfold_locales
  fix owner b and s :: "('v, 'p) services"
  show "\<exists>e. service_set_owner_active owner b s = (Inl e, s)" if "\<not> fullmatch owner_pattern owner"
    using that by (auto simp: service_set_owner_active_def ext_validate_owner_def)
  then show "items_of mark_service (snd (service_set_owner_active owner b s)) = items_of mark_service s"
    by (cases "fullmatch owner_pattern owner") (auto simp: service_entries_switched service_marks.items_switched)
qed (simp_all add: service_entries_switched service_marks.visible_off service_marks.visible_on service_marks.visible_items,
     simp add: service_set_owner_active_def ext_validate_owner_def)

subsection \<open>Resolution\<close>

lemma max_candidate_in: "max_candidate best cs \<in> insert best (set cs)"
  by (induction cs arbitrary: best) (auto split: if_splits)

lemma max_candidate_ge: "c \<in> insert best (set cs) \<Longrightarrow> fst c \<le> fst (max_candidate best cs)"
proof (induction cs arbitrary: best c)
  case (Cons d cs)
  let ?b = "if fst best < fst d then d else best"
  have b: "fst ?b \<le> fst (max_candidate ?b cs)" using Cons.IH [of ?b ?b] by simp
  show ?case
  proof (cases "c \<in> set cs")
    case True
    then show ?thesis using Cons.IH [of c ?b] by simp
  next
    case False
    then have "fst c \<le> fst ?b" using Cons.prems by auto
    then show ?thesis using b by simp
  qed
qed simp

definition offers :: "('v, 'p) services \<Rightarrow> string \<Rightarrow> ('v \<Rightarrow> bool) \<Rightarrow> 'v \<Rightarrow> 'p service_registration \<Rightarrow> bool" where
  "offers s contract admits v r \<longleftrightarrow> map_of s (contract, v) = Some r \<and> sr_active r \<and> admits v"

lemma candidates_offer: "dict_ok s \<Longrightarrow> (v, r) \<in> set (service_candidates contract admits s) \<longleftrightarrow> offers s contract admits v r"
  by (force simp: service_candidates_def offers_def dict_lookup_iff)

text \<open>Resolution returns the provider of the highest active version in the range. For a valid
  contract name and range, the call fails exactly when no active registration of the contract has a
  version in the range; otherwise the provider it returns belongs to an active registration whose
  version is in the range and not below that of any other such registration.\<close>

theorem service_resolves_highest:
  assumes "dict_ok s" "validate_contract_name contract = Inr contract" "specifier_of K wanted = Inr admits"
  shows "((\<exists>e. service_resolve K contract wanted s = Inl e) \<longleftrightarrow> (\<nexists>v r. offers s contract admits v r))
    \<and> (\<forall>p. service_resolve K contract wanted s = Inr p \<longrightarrow>
        (\<exists>v r. offers s contract admits v r \<and> sr_provider r = p \<and> (\<forall>v' r'. offers s contract admits v' r' \<longrightarrow> v' \<le> v)))"
proof (intro conjI allI impI)
  note off = candidates_offer [OF assms(1), of _ _ contract admits]
  show "(\<exists>e. service_resolve K contract wanted s = Inl e) \<longleftrightarrow> (\<nexists>v r. offers s contract admits v r)"
    unfolding off [symmetric] using assms(2,3)
    by (cases "service_candidates contract admits s") (auto simp: service_resolve_def)
  fix p assume "service_resolve K contract wanted s = Inr p"
  then obtain c cs where c: "service_candidates contract admits s = c # cs" "p = sr_provider (snd (max_candidate c cs))"
    using assms(2,3) by (auto simp: service_resolve_def split: list.splits)
  obtain v r where vr: "max_candidate c cs = (v, r)" by fastforce
  have "offers s contract admits v r" using max_candidate_in [of c cs] off c(1) vr by simp
  moreover have "v' \<le> v" if "offers s contract admits v' r'" for v' r'
    using that off c(1) vr max_candidate_ge [of "(v', r')" c cs] by simp
  ultimately show "\<exists>v r. offers s contract admits v r \<and> sr_provider r = p \<and> (\<forall>v' r'. offers s contract admits v' r' \<longrightarrow> v' \<le> v)"
    using c(2) vr by auto
qed

definition demo_packaging :: "nat packaging" where
  "demo_packaging = \<lparr>parse_version = (\<lambda>s. Some (length s)), version_text = (\<lambda>v. ''1.0.0''), unstable = (\<lambda>v. False),
     parse_specifier = (\<lambda>s. Some (\<lambda>v. length s \<le> v))\<rparr>"

theorem service_resolves_highest_witness:
  "\<exists>s p v r. snd (service_register demo_packaging ''a'' ''a.b'' ''1.0.0'' (Some (7::nat)) []) = s
     \<and> service_resolve demo_packaging ''a.b'' ''*'' s = Inr p \<and> offers s ''a.b'' (\<lambda>v. 0 \<le> v) v r \<and> sr_provider r = p"
proof -
  let ?r = "\<lparr>sr_owner = ''a'', sr_contract = ''a.b'', sr_version = ''1.0.0'', sr_provider = 7::nat, sr_active = True\<rparr>"
  let ?s = "[((''a.b'', 5::nat), ?r)]"
  have "validate_owned_contract ''a'' ''a.b'' = Inr ()" "version_of demo_packaging ''1.0.0'' = Inr 5" by code_simp+
  then have s: "snd (service_register demo_packaging ''a'' ''a.b'' ''1.0.0'' (Some (7::nat)) []) = ?s"
    by (simp add: service_register_def Let_def demo_packaging_def)
  have d: "dict_ok ?s" by (simp add: dict_ok_def)
  have n: "validate_contract_name ''a.b'' = Inr ''a.b''" by code_simp
  have sp: "specifier_of demo_packaging ''*'' = Inr (\<lambda>v. 0 \<le> v)"
    by (auto simp: specifier_of_def demo_packaging_def MAX_VERSION_RANGE_BYTES_def utf8_length_def)
  note res = service_resolves_highest [OF d n sp]
  have "offers ?s ''a.b'' (\<lambda>v. 0 \<le> v) 5 ?r" by (simp add: offers_def)
  then obtain p where "service_resolve demo_packaging ''a.b'' ''*'' ?s = Inr p"
    using res by (cases "service_resolve demo_packaging ''a.b'' ''*'' ?s") blast+
  then show ?thesis using res s by blast
qed

end
