(* ===== verification/Event_Bus.thy ===== *)
theory Event_Bus
  imports Services
begin

text \<open>
  \<open>EventBus\<close> of \<open>extension_runtime.py\<close>: declarations, subscriptions, and publication with its
  idempotency keys. A section under the lock is atomic. Handlers run outside the lock and may use
  the bus again: a handler is run by the parameter \<open>run\<close> on the bus and a world of its own, and
  reports whether it returned. The envelope model and the key validator come from the contracts
  package, which is a parameter too.
\<close>

subsection \<open>Payload snapshots\<close>

definition MAX_EVENT_PAYLOAD_BYTES :: nat where "MAX_EVENT_PAYLOAD_BYTES = 1024 * 1024"
definition MAX_EVENT_PAYLOAD_DEPTH :: nat where "MAX_EVENT_PAYLOAD_DEPTH = 16"
definition MAX_EVENT_PAYLOAD_KEYS :: nat where "MAX_EVENT_PAYLOAD_KEYS = 512"
definition MAX_EVENT_PAYLOAD_ITEMS :: nat where "MAX_EVENT_PAYLOAD_ITEMS = 4096"
definition MAX_EVENT_PAYLOAD_KEY_BYTES :: nat where "MAX_EVENT_PAYLOAD_KEY_BYTES = 128"
definition MAX_EVENT_IDEMPOTENCY_KEYS :: nat where "MAX_EVENT_IDEMPOTENCY_KEYS = 4096"

fun event_keys :: "nat \<Rightarrow> (pykey \<times> pyval) list \<Rightarrow> ext_error + nat" where
  "event_keys key_count [] = Inr key_count"
| "event_keys key_count ((KObj, nested) # items) =
     Inl (ExtensionContractError ''event payload field names must be strings'')"
| "event_keys key_count ((KStr key, nested) # items) =
     (if \<not> (1 \<le> utf8_length key \<and> utf8_length key \<le> MAX_EVENT_PAYLOAD_KEY_BYTES)
      then Inl (ExtensionContractError ''event payload field name is invalid'')
      else if MAX_EVENT_PAYLOAD_KEYS < key_count + 1
      then Inl (ExtensionContractError ''event payload exceeds the key limit'')
      else event_keys (key_count + 1) items)"

function event_walk :: "(pyval \<times> nat) list \<Rightarrow> nat list \<Rightarrow> nat \<Rightarrow> nat \<Rightarrow> ext_error + unit" where
  "event_walk [] seen key_count item_count = Inr ()"
| "event_walk ((current, depth) # stack) seen key_count item_count =
     (if MAX_EVENT_PAYLOAD_ITEMS < item_count + 1
      then Inl (ExtensionContractError ''event payload exceeds the item limit'')
      else if MAX_EVENT_PAYLOAD_DEPTH < depth
      then Inl (ExtensionContractError ''event payload exceeds the depth limit'')
      else case current of
        VDict i items \<Rightarrow>
          if already_seen i seen then Inl (ExtensionContractError ''event payload must be acyclic'')
          else (case event_keys key_count items of
                  Inl e \<Rightarrow> Inl e
                | Inr key_count' \<Rightarrow>
                    event_walk (rev (map (\<lambda>(k, v). (v, depth + 1)) items) @ stack)
                      (note_seen i seen) key_count' (item_count + 1))
      | VList i items \<Rightarrow>
          if already_seen i seen then Inl (ExtensionContractError ''event payload must be acyclic'')
          else event_walk (rev (map (\<lambda>v. (v, depth + 1)) items) @ stack)
                 (note_seen i seen) key_count (item_count + 1)
      | _ \<Rightarrow> event_walk stack seen key_count (item_count + 1))"
  by pat_completeness auto
termination
  by (relation "measure (\<lambda>(st, _, _, _). stack_nodes st)") auto

definition validate_event_payload_structure :: "pyval \<Rightarrow> ext_error + unit" where
  "validate_event_payload_structure payload = event_walk [(payload, 1)] [] 0 0"

definition json_snapshot :: "pyval \<Rightarrow> ext_error + pyval" where
  "json_snapshot payload =
     (if \<not> is_mapping payload then Inl (ExtTypeError ''event payload must be a mapping'')
      else case validate_event_payload_structure payload of Inl e \<Rightarrow> Inl e | Inr _ \<Rightarrow>
      if \<not> json_safe payload then Inl (ExtensionContractError ''event payload must be JSON-safe'')
      else let decoded = canon payload in
        if MAX_EVENT_PAYLOAD_BYTES < utf8_length (json_dumps decoded)
        then Inl (ExtensionContractError ''event payload exceeds the reference size limit'')
        else Inr decoded)"

subsection \<open>Data\<close>

record event_declaration =
  ed_owner :: string
  ed_contract :: string
  ed_version :: string
  ed_validator :: "(pyval \<Rightarrow> pyval option) option"
  ed_active :: bool

record 'h event_subscription =
  es_subscriber :: string
  es_contract :: string
  es_version :: string
  es_handler :: 'h
  es_priority :: int
  es_active :: bool

record event_envelope =
  ee_id :: string
  ee_owner :: string
  ee_contract :: string
  ee_version :: string
  ee_payload :: pyval
  ee_scope :: pyval
  ee_resource :: "pyval option"
  ee_idempotency_key :: "string option"
  ee_correlation_id :: "string option"
  ee_created_at :: int

text \<open>
  The contracts package: \<open>EventEnvelope(...)\<close> on given fields (no value: it raised),
  \<open>validate_event_idempotency_key\<close>, \<open>ScopeRef.installation()\<close>, and \<open>model_dump\<close> and \<open>model_validate\<close> of
  scopes and resources.
\<close>

record contracts_package =
  make_envelope :: "event_envelope \<Rightarrow> event_envelope option"
  idempotency_key_of :: "string \<Rightarrow> string option"
  installation_scope :: pyval
  scope_dump :: "pyval \<Rightarrow> pyval"
  scope_validate :: "pyval \<Rightarrow> pyval option"
  resource_dump :: "pyval \<Rightarrow> pyval"
  resource_validate :: "pyval \<Rightarrow> pyval option"

type_synonym bus_key = "string \<times> string \<times> string"

record ('v, 'h) event_bus =
  declarations :: "(string \<times> 'v, event_declaration) dict"
  subscriptions :: "'h event_subscription list"
  idempotency :: "(bus_key, unit) dict"
  last_envelope :: "event_envelope option"

definition empty_bus :: "('v, 'h) event_bus" where
  "empty_bus = \<lparr>declarations = [], subscriptions = [], idempotency = [], last_envelope = None\<rparr>"

subsection \<open>Declarations and subscriptions\<close>

definition event_declare ::
  "'v packaging \<Rightarrow> string \<Rightarrow> string \<Rightarrow> string \<Rightarrow> (pyval \<Rightarrow> pyval option) option \<Rightarrow> ('v, 'h) event_bus \<Rightarrow>
   (ext_error + event_declaration) \<times> ('v, 'h) event_bus" where
  "event_declare K owner contract version validator b =
     (case validate_owned_contract owner contract of Inl e \<Rightarrow> (Inl e, b) | Inr _ \<Rightarrow>
      case version_of K version of Inl e \<Rightarrow> (Inl e, b) | Inr parsed \<Rightarrow>
      if map_of (declarations b) (contract, parsed) \<noteq> None
      then (Inl (ExtensionContractError ''event contract version is already declared''), b)
      else let declaration = \<lparr>ed_owner = owner, ed_contract = contract, ed_version = version_text K parsed,
                              ed_validator = validator, ed_active = True\<rparr>
           in (Inr declaration, b\<lparr>declarations := AList.update (contract, parsed) declaration (declarations b)\<rparr>))"

definition get_declaration ::
  "'v packaging \<Rightarrow> string \<Rightarrow> string \<Rightarrow> ('v, 'h) event_bus \<Rightarrow> ext_error + event_declaration option" where
  "get_declaration K contract version b =
     (case validate_contract_name contract of Inl e \<Rightarrow> Inl e | Inr _ \<Rightarrow>
      case version_of K version of Inl e \<Rightarrow> Inl e | Inr parsed \<Rightarrow> Inr (map_of (declarations b) (contract, parsed)))"

definition event_subscribe ::
  "'v packaging \<Rightarrow> string \<Rightarrow> string \<Rightarrow> string \<Rightarrow> 'h \<Rightarrow> int \<Rightarrow> ('v, 'h) event_bus \<Rightarrow>
   (ext_error + 'h event_subscription) \<times> ('v, 'h) event_bus" where
  "event_subscribe K subscriber contract version handler priority b =
     (case ext_validate_owner subscriber of Inl e \<Rightarrow> (Inl e, b) | Inr _ \<Rightarrow>
      case validate_contract_name contract of Inl e \<Rightarrow> (Inl e, b) | Inr _ \<Rightarrow>
      case specifier_of K version of Inl e \<Rightarrow> (Inl e, b) | Inr admits \<Rightarrow>
      if \<not> (- 10000 \<le> priority \<and> priority \<le> 10000)
      then (Inl (ExtValueError ''event priority is outside the supported range''), b)
      else if \<not> list_ex (\<lambda>((name, parsed), d). name = contract \<and> admits parsed \<and> ed_active d) (declarations b)
      then (Inl (ContractCompatibilityError ''event subscription has no compatible contract''), b)
      else if list_ex (\<lambda>i. es_subscriber i = subscriber \<and> es_contract i = contract \<and> es_version i = version) (subscriptions b)
      then (Inl (ExtensionContractError ''event subscription is already registered''), b)
      else let subscription = \<lparr>es_subscriber = subscriber, es_contract = contract, es_version = version,
                               es_handler = handler, es_priority = priority, es_active = True\<rparr>
           in (Inr subscription, b\<lparr>subscriptions := subscriptions b @ [subscription]\<rparr>))"

subsection \<open>Publication\<close>

text \<open>\<open>parsed in _specifier(item.version)\<close>; the stored range was accepted when it was stored.\<close>

definition subscription_admits :: "'v packaging \<Rightarrow> 'v \<Rightarrow> 'h event_subscription \<Rightarrow> bool" where
  "subscription_admits K parsed i = (case specifier_of K (es_version i) of Inl _ \<Rightarrow> False | Inr admits \<Rightarrow> admits parsed)"

definition receivers :: "'v packaging \<Rightarrow> string \<Rightarrow> 'v \<Rightarrow> ('v, 'h) event_bus \<Rightarrow> 'h event_subscription list" where
  "receivers K contract parsed b =
     sort_key (\<lambda>i. (es_priority i, es_subscriber i))
       (filter (\<lambda>i. es_active i \<and> es_contract i = contract \<and> subscription_admits K parsed i) (subscriptions b))"

definition prepare_publish ::
  "'v packaging \<Rightarrow> string \<Rightarrow> string \<Rightarrow> 'v \<Rightarrow> pyval \<Rightarrow> ('v, 'h) event_bus \<Rightarrow> ext_error + pyval \<times> 'h event_subscription list" where
  "prepare_publish K owner contract parsed payload b =
     (case map_of (declarations b) (contract, parsed) of
        None \<Rightarrow> Inl (ContractCompatibilityError ''event contract version is not active'')
      | Some d \<Rightarrow>
          if \<not> ed_active d then Inl (ContractCompatibilityError ''event contract version is not active'')
          else if ed_owner d \<noteq> owner then Inl (ContractOwnershipError ''only the event owner may publish it'')
          else case json_snapshot payload of Inl e \<Rightarrow> Inl e | Inr snapshot \<Rightarrow>
            (case ed_validator d of
               None \<Rightarrow> Inr (snapshot, receivers K contract parsed b)
             | Some validate \<Rightarrow>
                 (case validate snapshot of
                    None \<Rightarrow> Inl (ExtensionContractError ''event payload validation failed'')
                  | Some v \<Rightarrow>
                      (case json_snapshot v of
                         Inl _ \<Rightarrow> Inl (ExtensionContractError ''event payload validation failed'')
                       | Inr checked \<Rightarrow> Inr (checked, receivers K contract parsed b)))))"

fun deliver ::
  "('h \<Rightarrow> pyval \<Rightarrow> 's \<Rightarrow> bool \<times> 's) \<Rightarrow> 'h event_subscription list \<Rightarrow> pyval \<Rightarrow> nat \<Rightarrow> 's \<Rightarrow> (ext_error + nat) \<times> 's" where
  "deliver run [] snapshot delivered st = (Inr delivered, st)"
| "deliver run (i # is) snapshot delivered st =
     (let failed = EventDeliveryError (''event delivery failed for subscriber '' @ es_subscriber i) in
      case json_snapshot snapshot of Inl _ \<Rightarrow> (Inl failed, st) | Inr copied \<Rightarrow>
      case run (es_handler i) copied st of
        (False, st') \<Rightarrow> (Inl failed, st')
      | (True, st') \<Rightarrow> deliver run is snapshot (delivered + 1) st')"

record event_request =
  eq_owner :: string
  eq_contract :: string
  eq_version :: string
  eq_payload :: pyval
  eq_idempotency_key :: "string option"
  eq_scope :: "pyval option"
  eq_resource :: "pyval option"
  eq_correlation_id :: "string option"

definition event_envelope_for ::
  "contracts_package \<Rightarrow> string \<Rightarrow> int \<Rightarrow> event_request \<Rightarrow> string \<Rightarrow> pyval \<Rightarrow> string option \<Rightarrow> ext_error + event_envelope" where
  "event_envelope_for C uid now q version snapshot key =
     (case make_envelope C \<lparr>ee_id = uid, ee_owner = eq_owner q, ee_contract = eq_contract q, ee_version = version, ee_payload = snapshot,
               ee_scope = (case eq_scope q of None \<Rightarrow> installation_scope C | Some scope \<Rightarrow> scope), ee_resource = eq_resource q, ee_idempotency_key = key,
               ee_correlation_id = eq_correlation_id q, ee_created_at = now\<rparr> of
        None \<Rightarrow> Inl (ExtensionContractError ''event envelope is invalid'') | Some e \<Rightarrow> Inr e)"

text \<open>The last section of a publication that was delivered.\<close>

definition remember :: "event_envelope \<Rightarrow> ('v, 'h) event_bus \<times> 'w \<Rightarrow> ('v, 'h) event_bus \<times> 'w" where
  "remember e st = ((fst st)\<lparr>last_envelope := Some e\<rparr>, snd st)"

definition forget_key :: "bus_key \<Rightarrow> ('v, 'h) event_bus \<times> 'w \<Rightarrow> ('v, 'h) event_bus \<times> 'w" where
  "forget_key k st = ((fst st)\<lparr>idempotency := AList.delete k (idempotency (fst st))\<rparr>, snd st)"

definition event_publish ::
  "'v packaging \<Rightarrow> contracts_package \<Rightarrow> ('h \<Rightarrow> pyval \<Rightarrow> ('v, 'h) event_bus \<times> 'w \<Rightarrow> bool \<times> (('v, 'h) event_bus \<times> 'w)) \<Rightarrow>
   string \<Rightarrow> int \<Rightarrow> event_request \<Rightarrow> ('v, 'h) event_bus \<times> 'w \<Rightarrow> (ext_error + nat) \<times> (('v, 'h) event_bus \<times> 'w)" where
  "event_publish K C run uid now q st =
     (case ext_validate_owner (eq_owner q) of Inl e \<Rightarrow> (Inl e, st) | Inr owner \<Rightarrow>
      case validate_contract_name (eq_contract q) of Inl e \<Rightarrow> (Inl e, st) | Inr contract \<Rightarrow>
      case version_of K (eq_version q) of Inl e \<Rightarrow> (Inl e, st) | Inr parsed \<Rightarrow>
      case eq_idempotency_key q of
        None \<Rightarrow>
          (case prepare_publish K owner contract parsed (eq_payload q) (fst st) of
             Inl e \<Rightarrow> (Inl e, st)
           | Inr (snapshot, subs) \<Rightarrow>
               (case event_envelope_for C uid now q (version_text K parsed) snapshot None of
                  Inl e \<Rightarrow> (Inl e, st)
                | Inr envelope \<Rightarrow>
                    (case deliver run subs snapshot 0 st of
                       (Inl e, st') \<Rightarrow> (Inl e, st')
                     | (Inr delivered, st') \<Rightarrow> (Inr delivered, remember envelope st'))))
      | Some text \<Rightarrow>
          (case idempotency_key_of C text of
             None \<Rightarrow> (Inl (ExtValueError ''invalid event idempotency key''), st)
           | Some key \<Rightarrow>
               let reserved = (owner, contract, key); b = fst st in
               if map_of (idempotency b) reserved \<noteq> None then (Inr 0, st)
               else if MAX_EVENT_IDEMPOTENCY_KEYS \<le> length (idempotency b)
               then (Inl (ExtensionContractError ''event idempotency capacity exceeded''), st)
               else case prepare_publish K owner contract parsed (eq_payload q) b of
                 Inl e \<Rightarrow> (Inl e, st)
               | Inr (snapshot, subs) \<Rightarrow>
                   (case event_envelope_for C uid now q (version_text K parsed) snapshot (Some key) of
                      Inl e \<Rightarrow> (Inl e, st)
                    | Inr envelope \<Rightarrow>
                        (case deliver run subs snapshot 0
                                (b\<lparr>idempotency := AList.update reserved () (idempotency b)\<rparr>, snd st) of
                           (Inl e, st') \<Rightarrow> (Inl e, forget_key reserved st')
                         | (Inr delivered, st') \<Rightarrow> (Inr delivered, remember envelope st')))))"

subsection \<open>Owners\<close>

definition event_drop_owner :: "string \<Rightarrow> ('v, 'h) event_bus \<Rightarrow> (ext_error + nat) \<times> ('v, 'h) event_bus" where
  "event_drop_owner owner b =
     (case ext_validate_owner owner of Inl e \<Rightarrow> (Inl e, b) | Inr _ \<Rightarrow>
      (Inr (length (filter (\<lambda>(k, d). ed_owner d = owner) (declarations b))
            + length (filter (\<lambda>i. es_subscriber i = owner) (subscriptions b))),
       b\<lparr>declarations := filter (\<lambda>(k, d). ed_owner d \<noteq> owner) (declarations b),
         subscriptions := filter (\<lambda>i. es_subscriber i \<noteq> owner) (subscriptions b),
         idempotency := filter (\<lambda>((o', _, _), _). o' \<noteq> owner) (idempotency b)\<rparr>))"

definition event_set_owner_active ::
  "string \<Rightarrow> bool \<Rightarrow> ('v, 'h) event_bus \<Rightarrow> (ext_error + nat) \<times> ('v, 'h) event_bus" where
  "event_set_owner_active owner active b =
     (case ext_validate_owner owner of Inl e \<Rightarrow> (Inl e, b) | Inr _ \<Rightarrow>
      (Inr (length (filter (\<lambda>(k, d). ed_owner d = owner \<and> ed_active d \<noteq> active) (declarations b))
            + length (filter (\<lambda>i. es_subscriber i = owner \<and> es_active i \<noteq> active) (subscriptions b))),
       b\<lparr>declarations := dict_map (\<lambda>d. if ed_owner d = owner \<and> ed_active d \<noteq> active then d\<lparr>ed_active := active\<rparr> else d) (declarations b),
         subscriptions := map (\<lambda>i. if es_subscriber i = owner \<and> es_active i \<noteq> active then i\<lparr>es_active := active\<rparr> else i) (subscriptions b)\<rparr>))"

end
