(* ===== verification/Event_Bus_Laws.thy ===== *)
theory Event_Bus_Laws
  imports Event_Bus
begin

text \<open>
  What the event bus guarantees: a publication with an idempotency key is delivered once, a
  delivery runs exactly the active compatible subscribers in their order, and pausing an owner
  silences exactly that owner.
\<close>

subsection \<open>Reservations are kept\<close>

definition reserved :: "bus_key \<Rightarrow> ('v, 'h) event_bus \<times> 'w \<Rightarrow> bool" where
  "reserved k st \<longleftrightarrow> map_of (idempotency (fst st)) k \<noteq> None"

text \<open>Handlers may publish, subscribe, declare and drop other owners, but not drop \<open>kept\<close>: they keep its reservations.\<close>

definition handlers_keep :: "string \<Rightarrow> ('h \<Rightarrow> pyval \<Rightarrow> ('v, 'h) event_bus \<times> 'w \<Rightarrow> bool \<times> (('v, 'h) event_bus \<times> 'w)) \<Rightarrow> bool" where
  "handlers_keep kept run \<longleftrightarrow> (\<forall>h p st c key. reserved (kept, c, key) st \<longrightarrow> reserved (kept, c, key) (snd (run h p st)))"

lemma deliver_keeps: "handlers_keep kept run \<Longrightarrow> reserved (kept, c, key) st \<Longrightarrow> reserved (kept, c, key) (snd (deliver run is p n st))"
proof (induction "is" arbitrary: n st)
  case (Cons i "is")
  show ?case
  proof (cases "json_snapshot p")
    case (Inr copy)
    obtain ok st' where r: "run (es_handler i) copy st = (ok, st')" by (cases "run (es_handler i) copy st")
    have "reserved (kept, c, key) st'" using Cons.prems r unfolding handlers_keep_def by (metis snd_conv)
    then show ?thesis using Cons.IH [OF Cons.prems(1)] Inr r by (cases ok) simp_all
  qed (use Cons.prems in simp)
qed simp

lemma reserved_simps [simp]:
  "reserved k (remember e st) = reserved k st" "k \<noteq> j \<Longrightarrow> reserved k (forget_key j st) = reserved k st"
  by (simp_all add: reserved_def remember_def forget_key_def map_of_delete)

lemma publish_keeps:
  assumes h: "handlers_keep kept run" and k: "reserved (kept, c, key) st"
  shows "reserved (kept, c, key) (snd (event_publish K C run uid now q st))"
proof -
  define k0 where "k0 = (kept, c, key)"
  note k = k [folded k0_def]
  have h: "reserved k0 st0 \<Longrightarrow> reserved k0 (snd (deliver run is p n st0))" for "is" p n st0
    unfolding k0_def by (rule deliver_keeps [OF h])
  have d: "reserved k0 st'" if "deliver run s p n st = (out, st')" for s p n out st'
    using h [OF k, of s p n] that by simp
  have r: "reserved k0 st'"
    if "deliver run s p n ((fst st)\<lparr>idempotency := AList.update j () (idempotency (fst st))\<rparr>, snd st) = (out, st')"
    for j s p n out st'
  proof -
    have "reserved k0 ((fst st)\<lparr>idempotency := AList.update j () (idempotency (fst st))\<rparr>, snd st)"
      using k by (simp add: reserved_def map_of_update)
    then show ?thesis using h [of _ s p n] that by fastforce
  qed
  have f: "reserved k0 (forget_key j st')" if "map_of (idempotency (fst st)) j \<noteq> Some ()" "reserved k0 st'" for j st'
    using that k by (cases "k0 = j") (auto simp: reserved_def forget_key_def map_of_delete)
  show ?thesis
    unfolding k0_def [symmetric] event_publish_def Let_def
    by (auto simp: k split: sum.split option.split prod.split intro!: f dest!: d r)
qed

inductive bus_steps ::
  "'v packaging \<Rightarrow> contracts_package \<Rightarrow> ('h \<Rightarrow> pyval \<Rightarrow> ('v, 'h) event_bus \<times> 'w \<Rightarrow> bool \<times> (('v, 'h) event_bus \<times> 'w)) \<Rightarrow> string \<Rightarrow>
   ('v, 'h) event_bus \<times> 'w \<Rightarrow> ('v, 'h) event_bus \<times> 'w \<Rightarrow> bool" for K C run kept where
  bus_refl: "bus_steps K C run kept st st"
| bus_declare: "bus_steps K C run kept st (b, w) \<Longrightarrow> bus_steps K C run kept st (snd (event_declare K owner contract version v b), w)"
| bus_subscribe: "bus_steps K C run kept st (b, w) \<Longrightarrow> bus_steps K C run kept st (snd (event_subscribe K sub contract version h pr b), w)"
| bus_switch: "bus_steps K C run kept st (b, w) \<Longrightarrow> bus_steps K C run kept st (snd (event_set_owner_active owner active b), w)"
| bus_drop: "bus_steps K C run kept st (b, w) \<Longrightarrow> owner \<noteq> kept \<Longrightarrow> bus_steps K C run kept st (snd (event_drop_owner owner b), w)"
| bus_publish: "bus_steps K C run kept st st' \<Longrightarrow> bus_steps K C run kept st (snd (event_publish K C run uid now q st'))"

lemma idempotency_kept [simp]:
  "idempotency (snd (event_declare K owner contract version v b)) = idempotency b"
  "idempotency (snd (event_subscribe K sub contract version h pr b)) = idempotency b"
  "idempotency (snd (event_set_owner_active owner active b)) = idempotency b"
  by (simp_all add: event_declare_def event_subscribe_def event_set_owner_active_def Let_def split: sum.split)

lemma drop_keeps:
  assumes "map_of (idempotency b) (kept, c, key) = Some ()" "owner \<noteq> kept"
  shows "map_of (idempotency (snd (event_drop_owner owner b))) (kept, c, key) = Some ()"
proof -
  have "map_of (filter (\<lambda>((o', _, _), _). o' \<noteq> owner) xs) (kept, c, key) = map_of xs (kept, c, key)" for xs :: "(bus_key, unit) dict"
    using assms(2) by (induction xs) auto
  then show ?thesis using assms(1) by (simp add: event_drop_owner_def split: sum.split)
qed

lemma bus_steps_keep:
  "bus_steps K C run kept st st' \<Longrightarrow> handlers_keep kept run \<Longrightarrow> reserved (kept, c, key) st \<Longrightarrow> reserved (kept, c, key) st'"
  by (induction rule: bus_steps.induct) (auto simp: reserved_def drop_keeps dest: publish_keeps [unfolded reserved_def])

lemma publish_reserves:
  assumes "event_publish K C run uid now q st = (Inr n, st')" "eq_idempotency_key q = Some text" "idempotency_key_of C text = Some key"
    "handlers_keep (eq_owner q) run"
  shows "reserved (eq_owner q, eq_contract q, key) st' \<and> ext_validate_owner (eq_owner q) = Inr (eq_owner q)
    \<and> validate_contract_name (eq_contract q) = Inr (eq_contract q)"
proof -
  have v: "ext_validate_owner (eq_owner q) = Inr (eq_owner q)" "validate_contract_name (eq_contract q) = Inr (eq_contract q)"
    using assms(1) by (auto simp: event_publish_def ext_validate_owner_def validate_contract_name_def split: if_splits)
  let ?k = "(eq_owner q, eq_contract q, key)"
  have r: "reserved ?k (snd (deliver run s p m ((fst st)\<lparr>idempotency := AList.update ?k () (idempotency (fst st))\<rparr>, snd st)))" for s p m
    by (rule deliver_keeps [OF assms(4)]) (simp add: reserved_def map_of_update)
  have "reserved ?k st'"
  proof (cases "reserved ?k st")
    case True
    then show ?thesis using assms(1) publish_keeps [OF assms(4) True, of K C uid now q] by simp
  next
    case False
    then obtain e s p m st1 where "deliver run s p m ((fst st)\<lparr>idempotency := AList.update ?k () (idempotency (fst st))\<rparr>, snd st) = (Inr n, st1)"
      "st' = remember e st1"
      using assms(1,2,3) v by (auto simp: event_publish_def Let_def reserved_def split: sum.splits prod.splits if_splits)
    then show ?thesis using r [of s p m] by simp
  qed
  then show ?thesis using v by simp
qed

lemma drop_forgets:
  "ext_validate_owner owner = Inr owner \<Longrightarrow> \<not> reserved (owner, c, key) (snd (event_drop_owner owner b), w)"
proof -
  have "map_of (filter (\<lambda>((o', _, _), _). o' \<noteq> owner) xs) (owner, c, key) = None" for xs :: "(bus_key, unit) dict"
    by (induction xs) auto
  then show "ext_validate_owner owner = Inr owner \<Longrightarrow> ?thesis" by (simp add: event_drop_owner_def reserved_def)
qed

text \<open>C22: a keyed event is delivered at most once in the life of its owner on the bus. Suppose a publication with an
  idempotency key returned. Whatever the bus does next short of dropping the owner (declarations, subscriptions,
  switching of owners, dropping of other owners, publications whose handlers use the bus, none of which drops that
  owner), a later publication of the same owner and contract under a key that normalises to the same one delivers to
  nobody, returns zero and leaves the bus as it is. Dropping the owner, as its removal does, forgets its keys.\<close>

theorem keyed_event_published_once:
  assumes "event_publish K C run uid now q st = (Inr n, st1)" "eq_idempotency_key q = Some text" "idempotency_key_of C text = Some key"
    and "handlers_keep (eq_owner q) run" and "bus_steps K C run (eq_owner q) st1 st2"
    and "eq_owner q' = eq_owner q" "eq_contract q' = eq_contract q" "version_of K (eq_version q') = Inr v"
    and "eq_idempotency_key q' = Some text'" "idempotency_key_of C text' = Some key"
  shows "event_publish K C run uid' now' q' st2 = (Inr 0, st2)
    \<and> \<not> reserved (eq_owner q, eq_contract q, key) (snd (event_drop_owner (eq_owner q) (fst st2)), snd st2)"
proof -
  have r: "reserved (eq_owner q, eq_contract q, key) st1" "ext_validate_owner (eq_owner q) = Inr (eq_owner q)"
    "validate_contract_name (eq_contract q) = Inr (eq_contract q)"
    using publish_reserves [OF assms(1-4)] by auto
  have "reserved (eq_owner q, eq_contract q, key) st2" by (rule bus_steps_keep [OF assms(5,4) r(1)])
  then show ?thesis using assms(6-10) r(2,3) drop_forgets [OF r(2)] by (auto simp: event_publish_def Let_def reserved_def)
qed

subsection \<open>Delivery\<close>

lemma deliver_count: "deliver run is p n st = (Inr m, st') \<Longrightarrow> m = n + length is"
  by (induction run "is" p n st rule: deliver.induct) (auto simp: Let_def split: sum.splits prod.splits bool.splits)

lemma deliver_fold:
  "deliver run is p n st = (Inr m, st') \<Longrightarrow> json_snapshot p = Inr c \<Longrightarrow>
   st' = fold (\<lambda>i s. snd (run (es_handler i) c s)) is st"
  by (induction run "is" p n st rule: deliver.induct) (auto simp: Let_def split: sum.splits prod.splits bool.splits)

lemma deliver_snapshot: "deliver run is p n st = (Inr m, st') \<Longrightarrow> is \<noteq> [] \<Longrightarrow> \<exists>c. json_snapshot p = Inr c"
  by (cases "is") (auto simp: Let_def split: sum.splits)

lemma deliver_runs:
  assumes "deliver run is p n st = (Inr m, st')"
  shows "\<exists>c. (is = [] \<or> json_snapshot p = Inr c) \<and> st' = fold (\<lambda>i s. snd (run (es_handler i) c s)) is st"
  using assms deliver_fold [OF assms] deliver_snapshot [OF assms] by (cases "is = []") auto

lemma receivers_iff:
  "i \<in> set (receivers K contract v b) \<longleftrightarrow>
     i \<in> set (subscriptions b) \<and> es_active i \<and> es_contract i = contract \<and> subscription_admits K v i"
  by (auto simp: receivers_def)

text \<open>What a publication delivered: \<open>rs\<close> ran in that order, each on the copy \<open>c\<close> of the snapshot.\<close>

definition delivered_to ::
  "('h \<Rightarrow> pyval \<Rightarrow> 's \<Rightarrow> bool \<times> 's) \<Rightarrow> 'h event_subscription list \<Rightarrow> pyval \<Rightarrow> 's \<Rightarrow> 's \<Rightarrow> bool" where
  "delivered_to run rs c st st' \<longleftrightarrow> st' = fold (\<lambda>i s. snd (run (es_handler i) c s)) rs st"

text \<open>A publication without a key reaches exactly the right subscribers, in order. When it
  returns, an active declaration of the owner exists for the contract and version, and the handlers
  that ran are those of the active subscriptions to the contract whose range admits the version,
  each once, by priority and then by subscriber, every one on a copy of one snapshot, which without a
  validator is the snapshot of the payload; the number it returns is how many there were, and the
  bus remembers an envelope made with that snapshot.\<close>

theorem publish_reaches_receivers_in_order:
  assumes "event_publish K C run uid now q st = (Inr n, st')" "eq_idempotency_key q = None"
  shows "\<exists>v d rs snapshot c st1 fields envelope. version_of K (eq_version q) = Inr v
    \<and> map_of (declarations (fst st)) (eq_contract q, v) = Some d \<and> ed_active d \<and> ed_owner d = eq_owner q
    \<and> (ed_validator d = None \<longrightarrow> json_snapshot (eq_payload q) = Inr snapshot)
    \<and> (rs = [] \<or> json_snapshot snapshot = Inr c) \<and> delivered_to run rs c st st1 \<and> n = length rs
    \<and> st' = remember envelope st1 \<and> make_envelope C fields = Some envelope \<and> ee_payload fields = snapshot
    \<and> sorted (map (\<lambda>i. (es_priority i, es_subscriber i)) rs)
    \<and> mset rs = filter_mset (\<lambda>i. es_active i \<and> es_contract i = eq_contract q \<and> subscription_admits K v i)
                  (mset (subscriptions (fst st)))"
proof -
  have vo: "ext_validate_owner (eq_owner q) = Inr (eq_owner q)" "validate_contract_name (eq_contract q) = Inr (eq_contract q)"
    using assms(1) by (auto simp: event_publish_def ext_validate_owner_def validate_contract_name_def split: if_splits)
  obtain v snapshot subs envelope fields st1 where p: "version_of K (eq_version q) = Inr v"
    "prepare_publish K (eq_owner q) (eq_contract q) v (eq_payload q) (fst st) = Inr (snapshot, subs)"
    "deliver run subs snapshot 0 st = (Inr n, st1)" "st' = remember envelope st1"
    "make_envelope C fields = Some envelope" "ee_payload fields = snapshot"
    using assms vo by (auto simp: event_publish_def event_envelope_for_def Let_def split: sum.splits prod.splits option.splits)
  obtain d where d: "map_of (declarations (fst st)) (eq_contract q, v) = Some d" "ed_active d" "ed_owner d = eq_owner q"
    "subs = receivers K (eq_contract q) v (fst st)" "ed_validator d = None \<longrightarrow> json_snapshot (eq_payload q) = Inr snapshot"
    using p(2) by (auto simp: prepare_publish_def split: option.splits sum.splits if_splits)
  obtain c where c: "subs = [] \<or> json_snapshot snapshot = Inr c" "delivered_to run subs c st st1"
    using deliver_runs [OF p(3)] by (auto simp: delivered_to_def)
  have o: "sorted (map (\<lambda>i. (es_priority i, es_subscriber i)) subs)"
    "mset subs = filter_mset (\<lambda>i. es_active i \<and> es_contract i = eq_contract q \<and> subscription_admits K v i) (mset (subscriptions (fst st)))"
    by (simp_all add: d(4) receivers_def)
  have "n = length subs" using deliver_count [OF p(3)] by simp
  then show ?thesis using p(1,4-6) d(1-3,5) c o by (intro exI conjI) assumption+
qed

subsection \<open>Owners of the bus\<close>

type_synonym ('v, 'h) bus_entry = "((string \<times> 'v) \<times> event_declaration) + 'h event_subscription"

definition bus_entries :: "('v, 'h) event_bus \<Rightarrow> ('v, 'h) bus_entry list" where
  "bus_entries b = map Inl (declarations b) @ map Inr (subscriptions b)"

definition bus_owner :: "('v, 'h) bus_entry \<Rightarrow> string" where
  "bus_owner e = (case e of Inl x \<Rightarrow> ed_owner (snd x) | Inr i \<Rightarrow> es_subscriber i)"

definition bus_active :: "('v, 'h) bus_entry \<Rightarrow> bool" where
  "bus_active e = (case e of Inl x \<Rightarrow> ed_active (snd x) | Inr i \<Rightarrow> es_active i)"

definition mark_bus :: "bool \<Rightarrow> ('v, 'h) bus_entry \<Rightarrow> ('v, 'h) bus_entry" where
  "mark_bus a e = (case e of Inl x \<Rightarrow> Inl (fst x, (snd x)\<lparr>ed_active := a\<rparr>) | Inr i \<Rightarrow> Inr (i\<lparr>es_active := a\<rparr>))"

interpretation bus_marks: marked_items bus_owner bus_active mark_bus
  by unfold_locales (simp_all add: bus_owner_def bus_active_def mark_bus_def split: sum.split)

lemma switched_bus_activity:
  "(if ed_owner d = owner \<and> ed_active d \<noteq> a then d\<lparr>ed_active := a\<rparr> else d) = (if ed_owner d = owner then d\<lparr>ed_active := a\<rparr> else d)"
  "(if es_subscriber i = owner \<and> es_active i \<noteq> a then i\<lparr>es_active := a\<rparr> else i) = (if es_subscriber i = owner then i\<lparr>es_active := a\<rparr> else i)"
  by (cases d; auto) (cases i; auto)

lemma bus_entries_switched:
  "fullmatch owner_pattern owner \<Longrightarrow>
   bus_entries (snd (event_set_owner_active owner a b)) = switch_entries bus_owner mark_bus owner a (bus_entries b)"
  by (auto simp: event_set_owner_active_def ext_validate_owner_def dict_map_def switched_bus_activity switch_entries_def
      bus_entries_def bus_owner_def mark_bus_def)

definition visible_bus :: "('v, 'h) event_bus \<Rightarrow> ('v, 'h) bus_entry set" where
  "visible_bus b = visible_of bus_active mark_bus (bus_entries b)"

interpretation bus_switch: owner_switch "\<lambda>b. items_of mark_bus (bus_entries b)" visible_bus bus_owner
  "fullmatch owner_pattern" event_set_owner_active "\<lambda>_. True"
proof unfold_locales
  fix owner a and b :: "('v, 'h) event_bus"
  show "\<exists>e. event_set_owner_active owner a b = (Inl e, b)" if "\<not> fullmatch owner_pattern owner"
    using that by (auto simp: event_set_owner_active_def ext_validate_owner_def)
  then show "items_of mark_bus (bus_entries (snd (event_set_owner_active owner a b))) = items_of mark_bus (bus_entries b)"
    by (cases "fullmatch owner_pattern owner") (auto simp: bus_entries_switched bus_marks.items_switched)
qed (simp_all add: visible_bus_def bus_entries_switched bus_marks.visible_off bus_marks.visible_on bus_marks.visible_items,
     simp add: event_set_owner_active_def ext_validate_owner_def)

lemma marked_active: "bus_active e \<Longrightarrow> mark_bus True e = e"
  by (cases e) (auto simp: bus_active_def mark_bus_def prod_eq_iff intro: event_declaration.equality event_subscription.equality)

lemma visible_bus_iff: "e \<in> visible_bus b \<longleftrightarrow> e \<in> set (bus_entries b) \<and> bus_active e"
proof -
  have "visible_bus b = mark_bus True ` {e \<in> set (bus_entries b). bus_active e}"
    by (simp add: visible_bus_def visible_of_def)
  also have "\<dots> = {e \<in> set (bus_entries b). bus_active e}" by (force simp: marked_active)
  finally show ?thesis by simp
qed

lemma receiver_visible: "i \<in> set (receivers K contract v b) \<longleftrightarrow>
    Inr i \<in> visible_bus b \<and> es_contract i = contract \<and> subscription_admits K v i"
  by (auto simp: receivers_iff visible_bus_iff bus_entries_def bus_active_def)

lemma subscription_items: "i \<in> set (subscriptions b) \<Longrightarrow> es_active i \<Longrightarrow> Inr i \<in> items_of mark_bus (bus_entries b)"
  using marked_active [of "Inr i"] by (force simp: items_of_def bus_entries_def bus_active_def image_iff)

lemma paused_owner_cannot_prepare:
  assumes "fullmatch owner_pattern owner"
  shows "\<exists>e. prepare_publish K owner contract v p (snd (event_set_owner_active owner False b)) = Inl e"
  using assms by (auto simp: prepare_publish_def event_set_owner_active_def ext_validate_owner_def map_of_dict_map split: option.split)

lemma paused_owner_publishes_nothing:
  assumes "fullmatch owner_pattern (eq_owner q)"
  shows "snd (event_publish K C run uid now q (snd (event_set_owner_active (eq_owner q) False b), w))
    = (snd (event_set_owner_active (eq_owner q) False b), w)"
proof -
  let ?b = "snd (event_set_owner_active (eq_owner q) False b)"
  have "\<exists>e. prepare_publish K (eq_owner q) (eq_contract q) v p ?b = Inl e" for v p
    by (rule paused_owner_cannot_prepare [OF assms])
  then show ?thesis
    by (auto simp: event_publish_def Let_def ext_validate_owner_def validate_contract_name_def split: sum.split option.split)
      (metis Inl_Inr_False)+
qed

text \<open>Pausing a package silences exactly that package. Once its owner is deactivated, a delivery
  goes to the receivers it had before less the subscriptions of that owner, and a publication by that
  owner runs no handler and leaves the bus and the world as they are; when the owner is activated
  again after a pause during which nothing else happened, the receivers are the ones before the pause,
  if all subscriptions of the owner were active.\<close>

theorem paused_owner_is_silent:
  assumes "fullmatch owner_pattern owner" and off_def: "off = snd (event_set_owner_active owner False b)"
  shows "set (receivers K contract v off) = {i \<in> set (receivers K contract v b). es_subscriber i \<noteq> owner}
    \<and> (eq_owner q = owner \<longrightarrow> snd (event_publish K C run uid now q (off, w)) = (off, w))
    \<and> ((\<forall>i\<in>set (subscriptions b). es_subscriber i = owner \<longrightarrow> es_active i) \<longrightarrow>
         set (receivers K contract v (snd (event_set_owner_active owner True off))) = set (receivers K contract v b))"
proof (intro conjI impI)
  note switched = bus_switch.visible_after [OF TrueI assms(1), where s = b]
  show "set (receivers K contract v off) = {i \<in> set (receivers K contract v b). es_subscriber i \<noteq> owner}"
    by (rule set_eqI) (simp add: off_def receiver_visible switched bus_owner_def conj_ac)
  show "snd (event_publish K C run uid now q (off, w)) = (off, w)" if "eq_owner q = owner"
    using that paused_owner_publishes_nothing [of q] assms by simp
  assume all: "\<forall>i\<in>set (subscriptions b). es_subscriber i = owner \<longrightarrow> es_active i"
  have "Inr i \<in> visible_bus b" if "es_subscriber i = owner" "Inr i \<in> items_of mark_bus (bus_entries b)" for i
    using that all marked_active [where e = "Inr _"]
    by (force simp: items_of_def bus_entries_def mark_bus_def visible_bus_iff bus_active_def split: sum.splits)
  then have "Inr i \<in> visible_bus (snd (event_set_owner_active owner True off)) \<longleftrightarrow> Inr i \<in> visible_bus b" for i
    using bus_switch.visible_registered [OF TrueI, of b]
    by (auto simp: off_def bus_switch.switch_last_wins [OF TrueI assms(1)] switched bus_owner_def)
  then show "set (receivers K contract v (snd (event_set_owner_active owner True off))) = set (receivers K contract v b)"
    by (auto simp: receiver_visible)
qed

subsection \<open>A small bus\<close>

definition demo_contracts :: contracts_package where
  "demo_contracts = \<lparr>make_envelope = Some, idempotency_key_of = Some, installation_scope = VDict None [], scope_dump = id, scope_validate = (\<lambda>p. if p = VDict None [] then Some p else None),
     resource_dump = id, resource_validate = (\<lambda>p. if p = VDict None [] then Some p else None)\<rparr>"

definition demo_bus_run :: "nat \<Rightarrow> pyval \<Rightarrow> (nat, nat) event_bus \<times> nat list \<Rightarrow> bool \<times> ((nat, nat) event_bus \<times> nat list)" where
  "demo_bus_run h p st = (True, (fst st, snd st @ [h]))"

definition demo_bus :: "(nat, nat) event_bus" where
  "demo_bus = \<lparr>declarations = [((''a.b'', 5), \<lparr>ed_owner = ''a'', ed_contract = ''a.b'', ed_version = ''1.0.0'', ed_validator = None, ed_active = True\<rparr>)],
     subscriptions = [\<lparr>es_subscriber = ''c'', es_contract = ''a.b'', es_version = ''*'', es_handler = 2, es_priority = 1, es_active = True\<rparr>,
       \<lparr>es_subscriber = ''d'', es_contract = ''a.b'', es_version = ''*'', es_handler = 3, es_priority = 0, es_active = True\<rparr>],
     idempotency = [], last_envelope = None\<rparr>"

definition demo_event :: "string option \<Rightarrow> event_request" where
  "demo_event key = \<lparr>eq_owner = ''a'', eq_contract = ''a.b'', eq_version = ''1.0.0'', eq_payload = VDict None [],
     eq_idempotency_key = key, eq_scope = None, eq_resource = None, eq_correlation_id = None\<rparr>"

lemma demo_valid:
  "ext_validate_owner ''a'' = Inr ''a''" "validate_contract_name ''a.b'' = Inr ''a.b''" "version_of demo_packaging ''1.0.0'' = Inr 5"
  "fullmatch owner_pattern ''d''" "fullmatch owner_pattern ''a''"
  by code_simp+

lemma demo_snapshot: "json_snapshot (VDict None []) = Inr (VDict None [])"
  by (simp add: json_snapshot_def validate_event_payload_structure_def MAX_EVENT_PAYLOAD_ITEMS_def MAX_EVENT_PAYLOAD_DEPTH_def
      MAX_EVENT_PAYLOAD_BYTES_def utf8_length_def Let_def already_seen_def note_seen_def)

lemma demo_range: "specifier_of demo_packaging ''*'' = Inr (\<lambda>v. 0 \<le> v)"
  by (auto simp: specifier_of_def demo_packaging_def MAX_VERSION_RANGE_BYTES_def utf8_length_def)

lemma demo_receivers: "map es_handler (receivers demo_packaging ''a.b'' 5 demo_bus) = [3, 2]"
  by (simp add: receivers_def demo_bus_def subscription_admits_def demo_range)

lemma demo_keep: "handlers_keep owner demo_bus_run"
  by (simp add: handlers_keep_def demo_bus_run_def reserved_def)

lemma demo_publish:
  "\<exists>e. event_publish demo_packaging demo_contracts demo_bus_run ''u'' 0 (demo_event None) (demo_bus, []) =
     (Inr 2, remember e (demo_bus, [3, 2]))"
  "\<exists>e. event_publish demo_packaging demo_contracts demo_bus_run ''u'' 0 (demo_event (Some ''k'')) (demo_bus, []) =
     (Inr 2, remember e (demo_bus\<lparr>idempotency := [((''a'', ''a.b'', ''k''), ())]\<rparr>, [3, 2]))"
proof -
  have r: "receivers demo_packaging ''a.b'' 5 demo_bus = rev (subscriptions demo_bus)"
    by (simp add: receivers_def demo_bus_def subscription_admits_def demo_range)
  have p: "prepare_publish demo_packaging ''a'' ''a.b'' 5 (VDict None []) demo_bus = Inr (VDict None [], rev (subscriptions demo_bus))"
  proof -
    have "map_of (declarations demo_bus) (''a.b'', 5) =
        Some \<lparr>ed_owner = ''a'', ed_contract = ''a.b'', ed_version = ''1.0.0'', ed_validator = None, ed_active = True\<rparr>"
      by (simp add: demo_bus_def)
    then show ?thesis by (simp add: prepare_publish_def r demo_snapshot)
  qed
  have d: "deliver demo_bus_run (rev (subscriptions demo_bus)) (VDict None []) 0 (b, []) = (Inr 2, b, [3, 2])" for b
    by (simp add: demo_bus_def demo_snapshot demo_bus_run_def)
  have i: "idempotency demo_bus = []" by (simp add: demo_bus_def)
  show "\<exists>e. event_publish demo_packaging demo_contracts demo_bus_run ''u'' 0 (demo_event None) (demo_bus, []) =
     (Inr 2, remember e (demo_bus, [3, 2]))"
    by (simp add: event_publish_def demo_event_def demo_valid p event_envelope_for_def demo_contracts_def d) blast
  show "\<exists>e. event_publish demo_packaging demo_contracts demo_bus_run ''u'' 0 (demo_event (Some ''k'')) (demo_bus, []) =
     (Inr 2, remember e (demo_bus\<lparr>idempotency := [((''a'', ''a.b'', ''k''), ())]\<rparr>, [3, 2]))"
    by (simp add: event_publish_def demo_event_def demo_valid p event_envelope_for_def demo_contracts_def d Let_def i
        MAX_EVENT_IDEMPOTENCY_KEYS_def) blast
qed

theorem keyed_event_published_once_witness:
  "\<exists>e st. event_publish demo_packaging demo_contracts demo_bus_run ''u'' 0 (demo_event (Some ''k'')) (demo_bus, []) =
     (Inr 2, remember e (demo_bus\<lparr>idempotency := [((''a'', ''a.b'', ''k''), ())]\<rparr>, [3, 2]))
   \<and> st = remember e (demo_bus\<lparr>idempotency := [((''a'', ''a.b'', ''k''), ())]\<rparr>, [3, 2])
   \<and> event_publish demo_packaging demo_contracts demo_bus_run ''w'' 1 (demo_event (Some ''k'')) st = (Inr 0, st)"
proof -
  obtain e where e: "event_publish demo_packaging demo_contracts demo_bus_run ''u'' 0 (demo_event (Some ''k'')) (demo_bus, []) =
     (Inr 2, remember e (demo_bus\<lparr>idempotency := [((''a'', ''a.b'', ''k''), ())]\<rparr>, [3, 2]))"
    using demo_publish(2) by blast
  have k: "eq_idempotency_key (demo_event (Some ''k'')) = Some ''k''" "idempotency_key_of demo_contracts ''k'' = Some ''k''"
    "version_of demo_packaging (eq_version (demo_event (Some ''k''))) = Inr 5"
    by (simp_all add: demo_event_def demo_contracts_def demo_valid)
  show ?thesis
    using e keyed_event_published_once [OF e k(1,2) demo_keep bus_refl refl refl k(3) k(1,2), of "''w''" 1] by blast
qed

theorem publish_reaches_receivers_in_order_witness:
  "\<exists>v rs st1 c. version_of demo_packaging ''1.0.0'' = Inr v \<and> delivered_to demo_bus_run rs c (demo_bus, []) st1 \<and> length rs = 2
    \<and> sorted (map (\<lambda>i. (es_priority i, es_subscriber i)) rs)"
proof -
  obtain e where e: "event_publish demo_packaging demo_contracts demo_bus_run ''u'' 0 (demo_event None) (demo_bus, []) =
     (Inr 2, remember e (demo_bus, [3, 2]))"
    using demo_publish(1) by blast
  have k: "eq_idempotency_key (demo_event None) = None" "eq_version (demo_event None) = ''1.0.0''" by (simp_all add: demo_event_def)
  from publish_reaches_receivers_in_order [OF e k(1), unfolded k(2)] show ?thesis
    by (elim exE conjE) (intro exI conjI, assumption+, rule sym, assumption+)
qed

theorem paused_owner_is_silent_witness:
  "set (receivers demo_packaging ''a.b'' 5 (snd (event_set_owner_active ''d'' False demo_bus)))
     = {i \<in> set (receivers demo_packaging ''a.b'' 5 demo_bus). es_subscriber i \<noteq> ''d''}
   \<and> snd (event_publish demo_packaging demo_contracts demo_bus_run ''u'' 0 (demo_event None) (snd (event_set_owner_active ''a'' False demo_bus), []))
     = (snd (event_set_owner_active ''a'' False demo_bus), [])
   \<and> set (receivers demo_packaging ''a.b'' 5 (snd (event_set_owner_active ''d'' True (snd (event_set_owner_active ''d'' False demo_bus)))))
     = set (receivers demo_packaging ''a.b'' 5 demo_bus)"
proof (intro conjI)
  note d = paused_owner_is_silent [OF demo_valid(4) refl]
  show "set (receivers demo_packaging ''a.b'' 5 (snd (event_set_owner_active ''d'' False demo_bus)))
     = {i \<in> set (receivers demo_packaging ''a.b'' 5 demo_bus). es_subscriber i \<noteq> ''d''}" by (rule d [THEN conjunct1])
  have "eq_owner (demo_event None) = ''a''" by (simp add: demo_event_def)
  then show "snd (event_publish demo_packaging demo_contracts demo_bus_run ''u'' 0 (demo_event None) (snd (event_set_owner_active ''a'' False demo_bus), []))
     = (snd (event_set_owner_active ''a'' False demo_bus), [])"
    by (rule paused_owner_is_silent [OF demo_valid(5) refl, THEN conjunct2, THEN conjunct1, rule_format])
  have "\<forall>i\<in>set (subscriptions demo_bus). es_subscriber i = ''d'' \<longrightarrow> es_active i" by (simp add: demo_bus_def)
  then show "set (receivers demo_packaging ''a.b'' 5 (snd (event_set_owner_active ''d'' True (snd (event_set_owner_active ''d'' False demo_bus)))))
     = set (receivers demo_packaging ''a.b'' 5 demo_bus)" by (rule d [THEN conjunct2, THEN conjunct2, THEN mp])
qed

end
