(* ===== verification/Render_Slots.thy ===== *)
theory Render_Slots
  imports Event_Bus_Laws
begin

text \<open>
  \<open>RenderSlotRegistry\<close> of \<open>extension_runtime.py\<close>: slots under a contract name and a version, template
  bindings to ranges of versions, their order, and switching or dropping an owner. Every method
  holds the lock. Proved: no binding ever dangles, the bindings of a slot are exact and in order, and
  a binding can be taken back.
\<close>

subsection \<open>Template paths\<close>

text \<open>\<open>PurePosixPath(value).parts\<close> of a relative path: empty and single-dot components are dropped.\<close>

definition posix_parts :: "string \<Rightarrow> string list" where
  "posix_parts v = filter (\<lambda>p. p \<noteq> [] \<and> p \<noteq> ''.'') (split_on (CHR ''/'') v)"

definition as_posix :: "string list \<Rightarrow> string" where
  "as_posix parts = (if parts = [] then ''.'' else join ''/'' parts)"

definition safe_template :: "string \<Rightarrow> ext_error + string" where
  "safe_template v =
     (if v = [] \<or> List.member v (CHR 0x5C) \<or> List.member v (CHR 0x00) then Inl (ExtValueError ''invalid render template path'')
      else if hd v = CHR ''/'' \<or> list_ex (\<lambda>part. part = [] \<or> part = ''.'' \<or> part = ''..'') (posix_parts v)
      then Inl (ExtValueError ''invalid render template path'')
      else Inr (as_posix (posix_parts v)))"

subsection \<open>The registry\<close>

record render_slot =
  rs_owner :: string
  rs_contract :: string
  rs_version :: string
  rs_active :: bool

record render_binding =
  rb_contributor :: string
  rb_slot :: string
  rb_version :: string
  rb_template :: string
  rb_position :: int
  rb_active :: bool

record 'v render_registry =
  slots :: "(string \<times> 'v, render_slot) dict"
  bound :: "render_binding list"

definition empty_render :: "'v render_registry" where "empty_render = \<lparr>slots = [], bound = []\<rparr>"

definition declare_slot ::
  "'v packaging \<Rightarrow> string \<Rightarrow> string \<Rightarrow> string \<Rightarrow> 'v render_registry \<Rightarrow> (ext_error + render_slot) \<times> 'v render_registry" where
  "declare_slot K owner slot version r =
     (case validate_owned_contract owner slot of Inl e \<Rightarrow> (Inl e, r) | Inr _ \<Rightarrow>
      case version_of K version of Inl e \<Rightarrow> (Inl e, r) | Inr parsed \<Rightarrow>
      if map_of (slots r) (slot, parsed) \<noteq> None
      then (Inl (ExtensionContractError ''render slot version is already declared''), r)
      else let declaration = \<lparr>rs_owner = owner, rs_contract = slot, rs_version = version_text K parsed, rs_active = True\<rparr>
           in (Inr declaration, r\<lparr>slots := AList.update (slot, parsed) declaration (slots r)\<rparr>))"

definition same_binding :: "string \<Rightarrow> string \<Rightarrow> string \<Rightarrow> string \<Rightarrow> render_binding \<Rightarrow> bool" where
  "same_binding contributor slot version template i \<longleftrightarrow>
     rb_contributor i = contributor \<and> rb_slot i = slot \<and> rb_version i = version \<and> rb_template i = template"

definition bind_template ::
  "'v packaging \<Rightarrow> string \<Rightarrow> string \<Rightarrow> string \<Rightarrow> string \<Rightarrow> int \<Rightarrow> 'v render_registry \<Rightarrow>
   (ext_error + render_binding) \<times> 'v render_registry" where
  "bind_template K contributor slot version template position r =
     (case ext_validate_owner contributor of Inl e \<Rightarrow> (Inl e, r) | Inr _ \<Rightarrow>
      case validate_contract_name slot of Inl e \<Rightarrow> (Inl e, r) | Inr _ \<Rightarrow>
      case specifier_of K version of Inl e \<Rightarrow> (Inl e, r) | Inr admits \<Rightarrow>
      case safe_template template of Inl e \<Rightarrow> (Inl e, r) | Inr path \<Rightarrow>
      if \<not> (- 10000 \<le> position \<and> position \<le> 10000)
      then (Inl (ExtValueError ''render position is outside the supported range''), r)
      else if \<not> list_ex (\<lambda>((name, parsed), d). name = slot \<and> admits parsed \<and> rs_active d) (slots r)
      then (Inl (ContractCompatibilityError ''render binding has no compatible slot''), r)
      else if list_ex (same_binding contributor slot version path) (bound r)
      then (Inl (ExtensionContractError ''render binding is already registered''), r)
      else let binding = \<lparr>rb_contributor = contributor, rb_slot = slot, rb_version = version, rb_template = path,
                          rb_position = position, rb_active = True\<rparr>
           in (Inr binding, r\<lparr>bound := bound r @ [binding]\<rparr>))"

text \<open>\<open>parsed in _specifier(item.version)\<close>\<close>

definition binding_admits :: "'v packaging \<Rightarrow> 'v \<Rightarrow> render_binding \<Rightarrow> bool" where
  "binding_admits K parsed i = (case specifier_of K (rb_version i) of Inl _ \<Rightarrow> False | Inr admits \<Rightarrow> admits parsed)"

definition slot_bindings :: "'v packaging \<Rightarrow> string \<Rightarrow> string \<Rightarrow> 'v render_registry \<Rightarrow> ext_error + render_binding list" where
  "slot_bindings K slot version r =
     (case validate_contract_name slot of Inl e \<Rightarrow> Inl e | Inr _ \<Rightarrow>
      case version_of K version of Inl e \<Rightarrow> Inl e | Inr parsed \<Rightarrow>
      case map_of (slots r) (slot, parsed) of
        None \<Rightarrow> Inl (ContractCompatibilityError ''render slot version is not active'')
      | Some d \<Rightarrow>
          if \<not> rs_active d then Inl (ContractCompatibilityError ''render slot version is not active'')
          else Inr (sort_key (\<lambda>i. (rb_position i, rb_contributor i, rb_template i))
                     (filter (\<lambda>i. rb_active i \<and> rb_slot i = slot \<and> binding_admits K parsed i) (bound r))))"

definition remove_slot ::
  "'v packaging \<Rightarrow> string \<Rightarrow> string \<Rightarrow> string \<Rightarrow> 'v render_registry \<Rightarrow> (ext_error + unit) \<times> 'v render_registry" where
  "remove_slot K owner slot version r =
     (case ext_validate_owner owner of Inl e \<Rightarrow> (Inl e, r) | Inr _ \<Rightarrow>
      case validate_contract_name slot of Inl e \<Rightarrow> (Inl e, r) | Inr _ \<Rightarrow>
      case version_of K version of Inl e \<Rightarrow> (Inl e, r) | Inr parsed \<Rightarrow>
      case map_of (slots r) (slot, parsed) of
        None \<Rightarrow> (Inl (ExtensionContractError ''render slot version is not declared''), r)
      | Some d \<Rightarrow>
          if rs_owner d \<noteq> owner then (Inl (ContractOwnershipError ''only the render slot owner may remove it''), r)
          else if list_ex (\<lambda>i. rb_slot i = slot \<and> binding_admits K parsed i) (bound r)
          then (Inl (ExtensionContractError ''render slot still has registered bindings''), r)
          else (Inr (), r\<lparr>slots := AList.delete (slot, parsed) (slots r)\<rparr>))"

fun remove_first :: "('a \<Rightarrow> bool) \<Rightarrow> 'a list \<Rightarrow> 'a list option" where
  "remove_first p [] = None"
| "remove_first p (x # xs) = (if p x then Some xs else map_option ((#) x) (remove_first p xs))"

definition unbind_template ::
  "'v packaging \<Rightarrow> string \<Rightarrow> string \<Rightarrow> string \<Rightarrow> string \<Rightarrow> 'v render_registry \<Rightarrow> (ext_error + unit) \<times> 'v render_registry" where
  "unbind_template K contributor slot version template r =
     (case ext_validate_owner contributor of Inl e \<Rightarrow> (Inl e, r) | Inr _ \<Rightarrow>
      case validate_contract_name slot of Inl e \<Rightarrow> (Inl e, r) | Inr _ \<Rightarrow>
      case specifier_of K version of Inl e \<Rightarrow> (Inl e, r) | Inr _ \<Rightarrow>
      case safe_template template of Inl e \<Rightarrow> (Inl e, r) | Inr path \<Rightarrow>
      case remove_first (same_binding contributor slot version path) (bound r) of
        None \<Rightarrow> (Inl (ContractOwnershipError ''render binding is not owned by the contributor''), r)
      | Some rest \<Rightarrow> (Inr (), r\<lparr>bound := rest\<rparr>))"

definition render_drop_owner :: "string \<Rightarrow> 'v render_registry \<Rightarrow> (ext_error + nat) \<times> 'v render_registry" where
  "render_drop_owner owner r =
     (case ext_validate_owner owner of Inl e \<Rightarrow> (Inl e, r) | Inr _ \<Rightarrow>
      let dropped_slots = map (\<lambda>((name, parsed), d). name) (filter (\<lambda>(k, d). rs_owner d = owner) (slots r));
          goes = (\<lambda>i. rb_contributor i = owner \<or> List.member dropped_slots (rb_slot i)) in
      (Inr (length dropped_slots + length (filter goes (bound r))),
       \<lparr>slots = filter (\<lambda>(k, d). rs_owner d \<noteq> owner) (slots r), bound = filter (\<lambda>i. \<not> goes i) (bound r)\<rparr>))"

definition render_set_owner_active :: "string \<Rightarrow> bool \<Rightarrow> 'v render_registry \<Rightarrow> (ext_error + nat) \<times> 'v render_registry" where
  "render_set_owner_active owner active r =
     (case ext_validate_owner owner of Inl e \<Rightarrow> (Inl e, r) | Inr _ \<Rightarrow>
      (Inr (length (filter (\<lambda>(k, d). rs_owner d = owner \<and> rs_active d \<noteq> active) (slots r))
            + length (filter (\<lambda>i. rb_contributor i = owner \<and> rb_active i \<noteq> active) (bound r))),
       r\<lparr>slots := dict_map (\<lambda>d. if rs_owner d = owner \<and> rs_active d \<noteq> active then d\<lparr>rs_active := active\<rparr> else d) (slots r),
         bound := map (\<lambda>i. if rb_contributor i = owner \<and> rb_active i \<noteq> active then i\<lparr>rb_active := active\<rparr> else i) (bound r)\<rparr>))"

subsection \<open>Accepted templates stay inside their package\<close>

lemma split_on_parts: "p \<in> set (split_on c v) \<Longrightarrow> c \<notin> set p \<and> set p \<subseteq> set v"
proof (induction v arbitrary: p)
  case (Cons x v)
  then show ?case using split_on_nonempty [of c v] by (cases "split_on c v") (fastforce split: if_splits)+
qed simp

lemma split_on_plain: "c \<notin> set p \<Longrightarrow> split_on c p = [p]"
  by (induction p) auto

lemma split_on_join:
  "ps \<noteq> [] \<Longrightarrow> (\<And>p. p \<in> set ps \<Longrightarrow> c \<notin> set p) \<Longrightarrow> split_on c (join [c] ps) = ps"
proof (induction "[c]" ps rule: join.induct)
  case (3 x y ys)
  then show ?case using split_on_append [of c x "join [c] (y # ys)"] split_on_plain [of c x] by simp
qed (simp_all add: split_on_plain)

lemma set_join: "set (join [c] ps) \<subseteq> insert c (\<Union>p\<in>set ps. set p)"
  by (induction "[c]" ps rule: join.induct) auto

text \<open>An accepted template path cannot leave the package. It is relative and has no parent
  component, no backslash and no NUL; and it is in normal form: accepting it again changes nothing,
  so a binding is found again under the template it was made with.\<close>

theorem safe_template_contained:
  assumes "safe_template v = Inr p"
  shows "p \<noteq> [] \<and> hd p \<noteq> CHR ''/'' \<and> CHR 0x5C \<notin> set p \<and> CHR 0x00 \<notin> set p \<and> ''..'' \<notin> set (split_on (CHR ''/'') p)
    \<and> safe_template p = Inr p"
proof -
  define ps where "ps = posix_parts v"
  have v: "CHR 0x5C \<notin> set v" "CHR 0x00 \<notin> set v" and p: "p = as_posix ps" and dots: "''..'' \<notin> set ps"
    using assms by (auto simp: safe_template_def ps_def list_ex_iff split: if_splits)
  have parts: "CHR ''/'' \<notin> set x \<and> set x \<subseteq> set v \<and> x \<noteq> [] \<and> x \<noteq> ''.''" if "x \<in> set ps" for x
    using that split_on_parts [of x "CHR ''/''" v] by (auto simp: ps_def posix_parts_def)
  show ?thesis
  proof (cases ps)
    case Nil
    then have "p = ''.''" by (simp add: p as_posix_def)
    then show ?thesis by (simp add: safe_template_def posix_parts_def as_posix_def)
  next
    case (Cons x xs)
    have j: "p = join ''/'' ps" by (simp add: p as_posix_def Cons)
    have sp: "split_on (CHR ''/'') p = ps" unfolding j using parts by (intro split_on_join) (auto simp: Cons)
    have "set p \<subseteq> insert (CHR ''/'') (set v)" unfolding j using set_join [of "CHR ''/''" ps] parts by blast
    then have c: "CHR 0x5C \<notin> set p" "CHR 0x00 \<notin> set p" using v by auto
    have h: "p = x @ concat (map ((@) ''/'') xs)" "x \<noteq> []" "CHR ''/'' \<notin> set x" using parts [of x] by (auto simp: j Cons join_Cons)
    then have h: "p \<noteq> []" "hd p \<noteq> CHR ''/''" by (auto simp: hd_append dest: hd_in_set)
    have pp: "posix_parts p = ps" using parts by (auto simp: posix_parts_def sp filter_id_conv)
    have "safe_template p = Inr p"
      using h c parts dots by (auto simp: safe_template_def pp p [symmetric] list_ex_iff)
    then show ?thesis using h c sp dots by simp
  qed
qed

theorem safe_template_contained_witness:
  "safe_template ''a/./b//c.html'' = Inr ''a/b/c.html'' \<and> ''..'' \<notin> set (split_on (CHR ''/'') ''a/b/c.html'')
   \<and> safe_template ''a/b/c.html'' = Inr ''a/b/c.html''"
proof -
  have "safe_template ''a/./b//c.html'' = Inr ''a/b/c.html''" by code_simp
  then show ?thesis using safe_template_contained by blast
qed

text \<open>The check for a single dot cannot fire, as \<open>PurePosixPath\<close> has dropped such components: the bare
  dot, which names no file, is accepted.\<close>

lemma safe_template_accepts_dot: "safe_template ''.'' = Inr ''.'' \<and> safe_template ''./.'' = Inr ''.''"
  by (simp add: safe_template_def posix_parts_def as_posix_def)

subsection \<open>No binding dangles\<close>

definition has_slot :: "'v packaging \<Rightarrow> 'v render_registry \<Rightarrow> render_binding \<Rightarrow> bool" where
  "has_slot K r i \<longleftrightarrow> (\<exists>v d. map_of (slots r) (rb_slot i, v) = Some d \<and> binding_admits K v i)"

definition render_ok :: "'v packaging \<Rightarrow> 'v render_registry \<Rightarrow> bool" where
  "render_ok K r \<longleftrightarrow> dict_ok (slots r) \<and> (\<forall>i\<in>set (bound r). has_slot K r i)
    \<and> distinct (map (\<lambda>i. (rb_contributor i, rb_slot i, rb_version i, rb_template i)) (bound r))"

inductive render_reachable :: "'v packaging \<Rightarrow> 'v render_registry \<Rightarrow> bool" for K where
  render_start: "render_reachable K empty_render"
| render_declare: "render_reachable K r \<Longrightarrow> render_reachable K (snd (declare_slot K owner slot version r))"
| render_bind: "render_reachable K r \<Longrightarrow> render_reachable K (snd (bind_template K contributor slot version template position r))"
| render_remove: "render_reachable K r \<Longrightarrow> render_reachable K (snd (remove_slot K owner slot version r))"
| render_unbind: "render_reachable K r \<Longrightarrow> render_reachable K (snd (unbind_template K contributor slot version template r))"
| render_drop: "render_reachable K r \<Longrightarrow> render_reachable K (snd (render_drop_owner owner r))"
| render_switch: "render_reachable K r \<Longrightarrow> render_reachable K (snd (render_set_owner_active owner active r))"

lemma remove_first_split: "remove_first p xs = Some ys \<Longrightarrow> \<exists>a x b. xs = a @ x # b \<and> ys = a @ b \<and> p x"
proof (induction xs arbitrary: ys)
  case (Cons x xs)
  show ?case
  proof (cases "p x")
    case True
    then show ?thesis using Cons.prems by (intro exI [of _ "[]"]) auto
  next
    case False
    then obtain zs where z: "remove_first p xs = Some zs" "ys = x # zs" using Cons.prems by auto
    obtain a y b where "xs = a @ y # b" "zs = a @ b" "p y" using Cons.IH [OF z(1)] by blast
    then show ?thesis using z(2) by (intro exI [of _ "x # a"]) auto
  qed
qed simp

lemma has_slot_mono:
  assumes "has_slot K r i" "\<And>k d. map_of (slots r) k = Some d \<Longrightarrow> \<exists>d'. map_of (slots r') k = Some d'"
  shows "has_slot K r' i"
  using assms unfolding has_slot_def by meson

lemma declare_slot_ok: "render_ok K r \<Longrightarrow> render_ok K (snd (declare_slot K owner slot version r))"
proof -
  assume ok: "render_ok K r"
  have "has_slot K (r\<lparr>slots := AList.update k d (slots r)\<rparr>) i" if "has_slot K r i" for i k d
    by (rule has_slot_mono [OF that]) (auto simp: map_of_update)
  then show ?thesis using ok by (auto simp: declare_slot_def render_ok_def Let_def split: sum.split)
qed

lemma bind_template_bound:
  assumes "bind_template K contributor slot version template position r = (Inr i, r')"
  shows "\<exists>admits v d path. specifier_of K version = Inr admits \<and> safe_template template = Inr path
    \<and> ext_validate_owner contributor = Inr contributor \<and> validate_contract_name slot = Inr slot
    \<and> ((slot, v), d) \<in> set (slots r) \<and> admits v \<and> \<not> list_ex (same_binding contributor slot version path) (bound r)
    \<and> i = \<lparr>rb_contributor = contributor, rb_slot = slot, rb_version = version, rb_template = path,
          rb_position = position, rb_active = True\<rparr> \<and> r' = r\<lparr>bound := bound r @ [i]\<rparr>"
proof -
  let ?compatible = "\<lambda>admits. list_ex (\<lambda>((name, parsed), d). name = slot \<and> admits parsed \<and> rs_active d) (slots r)"
  have slot: "?compatible admits \<Longrightarrow> \<exists>v d. ((slot, v), d) \<in> set (slots r) \<and> admits v" for admits
    by (auto simp: list_ex_iff)
  obtain admits path where *: "specifier_of K version = Inr admits" "safe_template template = Inr path"
    "ext_validate_owner contributor = Inr contributor" "validate_contract_name slot = Inr slot" "?compatible admits"
    "\<not> list_ex (same_binding contributor slot version path) (bound r)"
    "i = \<lparr>rb_contributor = contributor, rb_slot = slot, rb_version = version, rb_template = path,
          rb_position = position, rb_active = True\<rparr>" "r' = r\<lparr>bound := bound r @ [i]\<rparr>"
    using assms by (simp add: bind_template_def Let_def ext_validate_owner_def validate_contract_name_def split: sum.splits if_splits) blast
  then show ?thesis using slot [OF *(5)] by blast
qed

lemma bind_template_ok:
  assumes ok: "render_ok K r"
  shows "render_ok K (snd (bind_template K contributor slot version template position r))"
proof (cases "bind_template K contributor slot version template position r")
  case (Pair out r')
  show ?thesis
  proof (cases out)
    case (Inl e)
    then have "r' = r" using Pair by (auto simp: bind_template_def Let_def split: sum.splits if_splits)
    then show ?thesis using ok Pair by simp
  next
    case (Inr i)
    obtain admits v d path where b: "specifier_of K version = Inr admits" "((slot, v), d) \<in> set (slots r)" "admits v"
      "\<not> list_ex (same_binding contributor slot version path) (bound r)"
      "i = \<lparr>rb_contributor = contributor, rb_slot = slot, rb_version = version, rb_template = path,
          rb_position = position, rb_active = True\<rparr>" "r' = r\<lparr>bound := bound r @ [i]\<rparr>"
      using bind_template_bound [OF Pair [unfolded Inr]] by (elim exE conjE) rule
    have "has_slot K r i" using b ok unfolding has_slot_def render_ok_def
      by (intro exI [of _ v] exI [of _ d]) (simp add: dict_lookup_iff binding_admits_def)
    moreover have "has_slot K (r\<lparr>bound := bs\<rparr>) j = has_slot K r j" for bs j by (simp add: has_slot_def)
    ultimately show ?thesis using ok b(4,5) unfolding Pair b(6) by (auto simp: render_ok_def list_ex_iff same_binding_def)
  qed
qed

lemma remove_slot_ok: "render_ok K r \<Longrightarrow> render_ok K (snd (remove_slot K owner slot version r))"
proof -
  assume ok: "render_ok K r"
  have "has_slot K (r\<lparr>slots := AList.delete (slot, v) (slots r)\<rparr>) i"
    if "has_slot K r i" "\<not> (rb_slot i = slot \<and> binding_admits K v i)" for i v
    using that by (auto simp: has_slot_def map_of_delete)
  then show ?thesis using ok by (auto simp: remove_slot_def render_ok_def list_ex_iff split: sum.split option.split)
qed

lemma unbind_template_ok: "render_ok K r \<Longrightarrow> render_ok K (snd (unbind_template K contributor slot version template r))"
  by (auto simp: unbind_template_def render_ok_def has_slot_def split: sum.split option.split dest!: remove_first_split)

lemma render_drop_owner_ok: "render_ok K r \<Longrightarrow> render_ok K (snd (render_drop_owner owner r))"
proof -
  assume ok: "render_ok K r"
  let ?keep = "filter (\<lambda>(k, d). rs_owner d \<noteq> owner) (slots r)"
  define names where "names = map (\<lambda>((name, parsed), d). name) (filter (\<lambda>(k, d). rs_owner d = owner) (slots r))"
  have slot: "\<exists>v d. map_of ?keep (rb_slot i, v) = Some d \<and> binding_admits K v i"
    if "i \<in> set (bound r)" "rb_slot i \<notin> set names" for i
  proof -
    have "has_slot K r i" using ok that(1) by (simp add: render_ok_def)
    then obtain v d where d: "map_of (slots r) (rb_slot i, v) = Some d" "binding_admits K v i"
      unfolding has_slot_def by (elim exE conjE) rule
    then have "((rb_slot i, v), d) \<in> set (slots r)" by (simp add: map_of_SomeD)
    moreover have "rs_owner d \<noteq> owner"
    proof
      assume "rs_owner d = owner"
      then have "rb_slot i \<in> set names" unfolding names_def using \<open>((rb_slot i, v), d) \<in> set (slots r)\<close>
        unfolding list.set_map by (intro rev_image_eqI [of "((rb_slot i, v), d)"]) simp_all
      then show False using that(2) by simp
    qed
    ultimately have "((rb_slot i, v), d) \<in> set ?keep" by simp
    then have "map_of ?keep (rb_slot i, v) = Some d" using ok by (simp add: render_ok_def dict_lookup_iff)
    then show ?thesis using d(2) by blast
  qed
  have "render_ok K \<lparr>slots = ?keep, bound = filter (\<lambda>i. \<not> (rb_contributor i = owner \<or> List.member names (rb_slot i))) (bound r)\<rparr>"
    using ok slot by (simp add: render_ok_def has_slot_def distinct_map_filter)
  then show ?thesis using ok by (simp add: render_drop_owner_def Let_def names_def split: sum.split)
qed

lemma render_switch_ok: "render_ok K r \<Longrightarrow> render_ok K (snd (render_set_owner_active owner active r))"
proof -
  assume ok: "render_ok K r"
  define f :: "render_binding \<Rightarrow> render_binding" where "f = (\<lambda>i. if rb_contributor i = owner \<and> rb_active i \<noteq> active then i\<lparr>rb_active := active\<rparr> else i)"
  have f: "binding_admits K v (f i) = binding_admits K v i" "rb_slot (f i) = rb_slot i" for v i by (simp_all add: binding_admits_def f_def)
  have g: "map (\<lambda>i. (rb_contributor i, rb_slot i, rb_version i, rb_template i)) (map f xs)
      = map (\<lambda>i. (rb_contributor i, rb_slot i, rb_version i, rb_template i)) xs" for xs by (simp add: f_def)
  have "has_slot K (r\<lparr>slots := dict_map h (slots r), bound := bs\<rparr>) (f i) = has_slot K r i" for h bs i
    by (simp add: has_slot_def map_of_dict_map f)
  then show ?thesis using ok g unfolding render_set_owner_active_def f_def [symmetric]
    by (simp add: render_ok_def ball_simps del: map_map split: sum.split)
qed

text \<open>No template binding dangles. In every state the registry can reach, each binding admits the
  version of a slot that is declared under its name, slots are declared once per version, and no
  contributor has the same template twice for one range of a slot: a slot cannot be removed while a
  binding admits it, and dropping an owner takes the bindings of its slots along.\<close>

theorem render_bindings_never_dangle:
  assumes "render_reachable K r"
  shows "dict_ok (slots r) \<and> (\<forall>i\<in>set (bound r). has_slot K r i)
    \<and> distinct (map (\<lambda>i. (rb_contributor i, rb_slot i, rb_version i, rb_template i)) (bound r))"
proof -
  have "render_ok K r" using assms
    by (induction rule: render_reachable.induct)
      (simp_all add: declare_slot_ok bind_template_ok remove_slot_ok unbind_template_ok render_drop_owner_ok render_switch_ok,
        simp add: render_ok_def empty_render_def)
  then show ?thesis by (simp add: render_ok_def)
qed

subsection \<open>Owners of the registry\<close>

type_synonym 'v render_entry = "((string \<times> 'v) \<times> render_slot) + render_binding"

definition render_entries :: "'v render_registry \<Rightarrow> 'v render_entry list" where
  "render_entries r = map Inl (slots r) @ map Inr (bound r)"

definition render_owner :: "'v render_entry \<Rightarrow> string" where
  "render_owner e = (case e of Inl x \<Rightarrow> rs_owner (snd x) | Inr i \<Rightarrow> rb_contributor i)"

definition render_active :: "'v render_entry \<Rightarrow> bool" where
  "render_active e = (case e of Inl x \<Rightarrow> rs_active (snd x) | Inr i \<Rightarrow> rb_active i)"

definition mark_render :: "bool \<Rightarrow> 'v render_entry \<Rightarrow> 'v render_entry" where
  "mark_render a e = (case e of Inl x \<Rightarrow> Inl (fst x, (snd x)\<lparr>rs_active := a\<rparr>) | Inr i \<Rightarrow> Inr (i\<lparr>rb_active := a\<rparr>))"

interpretation render_marks: marked_items render_owner render_active mark_render
  by unfold_locales (simp_all add: render_owner_def render_active_def mark_render_def split: sum.split)

lemma switched_render_activity:
  "(if rs_owner d = owner \<and> rs_active d \<noteq> a then d\<lparr>rs_active := a\<rparr> else d) = (if rs_owner d = owner then d\<lparr>rs_active := a\<rparr> else d)"
  "(if rb_contributor i = owner \<and> rb_active i \<noteq> a then i\<lparr>rb_active := a\<rparr> else i) = (if rb_contributor i = owner then i\<lparr>rb_active := a\<rparr> else i)"
  by (cases d; auto) (cases i; auto)

lemma render_entries_switched:
  "fullmatch owner_pattern owner \<Longrightarrow>
   render_entries (snd (render_set_owner_active owner a r)) = switch_entries render_owner mark_render owner a (render_entries r)"
  by (auto simp: render_set_owner_active_def ext_validate_owner_def dict_map_def switched_render_activity switch_entries_def
      render_entries_def render_owner_def mark_render_def)

definition visible_render :: "'v render_registry \<Rightarrow> 'v render_entry set" where
  "visible_render r = visible_of render_active mark_render (render_entries r)"

interpretation render_owners: owner_switch "\<lambda>r. items_of mark_render (render_entries r)" visible_render render_owner
  "fullmatch owner_pattern" render_set_owner_active "\<lambda>_. True"
proof unfold_locales
  fix owner a and r :: "'v render_registry"
  show "\<exists>e. render_set_owner_active owner a r = (Inl e, r)" if "\<not> fullmatch owner_pattern owner"
    using that by (auto simp: render_set_owner_active_def ext_validate_owner_def)
  then show "items_of mark_render (render_entries (snd (render_set_owner_active owner a r))) = items_of mark_render (render_entries r)"
    by (cases "fullmatch owner_pattern owner") (auto simp: render_entries_switched render_marks.items_switched)
qed (simp_all add: visible_render_def render_entries_switched render_marks.visible_off render_marks.visible_on render_marks.visible_items,
     simp add: render_set_owner_active_def ext_validate_owner_def)

lemma marked_render_active: "render_active e \<Longrightarrow> mark_render True e = e"
  by (cases e) (auto simp: render_active_def mark_render_def prod_eq_iff intro: render_slot.equality render_binding.equality)

lemma visible_render_iff: "e \<in> visible_render r \<longleftrightarrow> e \<in> set (render_entries r) \<and> render_active e"
proof -
  have "visible_render r = mark_render True ` {e \<in> set (render_entries r). render_active e}"
    by (simp add: visible_render_def visible_of_def)
  also have "\<dots> = {e \<in> set (render_entries r). render_active e}" by (force simp: marked_render_active)
  finally show ?thesis by simp
qed

lemma slot_bindings_visible:
  assumes "slot_bindings K slot version r = Inr is" "version_of K version = Inr v"
  shows "set is = {i. Inr i \<in> visible_render r \<and> rb_slot i = slot \<and> binding_admits K v i}
    \<and> sorted (map (\<lambda>i. (rb_position i, rb_contributor i, rb_template i)) is)"
proof -
  have "is = sort_key (\<lambda>i. (rb_position i, rb_contributor i, rb_template i))
      (filter (\<lambda>i. rb_active i \<and> rb_slot i = slot \<and> binding_admits K v i) (bound r))"
    using assms by (simp add: slot_bindings_def split: sum.splits option.splits if_splits)
  then show ?thesis by (auto simp: visible_render_iff render_entries_def render_active_def)
qed

text \<open>What a slot renders follows the owners. After a contributor is paused, a slot that still
  renders shows exactly the bindings it showed before less those of that contributor, in the order of
  position, contributor and template.\<close>

theorem paused_contributor_not_rendered:
  assumes "fullmatch owner_pattern owner" "slot_bindings K slot version r = Inr before"
    and "slot_bindings K slot version (snd (render_set_owner_active owner False r)) = Inr after"
  shows "set after = {i \<in> set before. rb_contributor i \<noteq> owner}
    \<and> sorted (map (\<lambda>i. (rb_position i, rb_contributor i, rb_template i)) after)"
proof -
  obtain v where v: "version_of K version = Inr v" using assms(2) by (auto simp: slot_bindings_def split: sum.splits)
  note switched = render_owners.visible_after [OF TrueI assms(1), where s = r]
  show ?thesis
    using slot_bindings_visible [OF assms(2) v] slot_bindings_visible [OF assms(3) v]
    by (simp add: switched render_owner_def) blast
qed

subsection \<open>A binding can be taken back\<close>

lemma remove_first_last: "\<not> list_ex p xs \<Longrightarrow> p x \<Longrightarrow> remove_first p (xs @ [x]) = Some xs"
  by (induction xs) auto

text \<open>Unbinding undoes binding. When a template was bound, unbinding the same template for the
  same slot and range succeeds and gives back the registry as it was.\<close>

theorem unbind_undoes_bind:
  assumes "bind_template K contributor slot version template position r = (Inr i, r')"
  shows "unbind_template K contributor slot version template r' = (Inr (), r)"
proof -
  obtain admits path where b: "specifier_of K version = Inr admits" "safe_template template = Inr path"
    "ext_validate_owner contributor = Inr contributor" "validate_contract_name slot = Inr slot"
    "\<not> list_ex (same_binding contributor slot version path) (bound r)"
    "i = \<lparr>rb_contributor = contributor, rb_slot = slot, rb_version = version, rb_template = path,
          rb_position = position, rb_active = True\<rparr>" "r' = r\<lparr>bound := bound r @ [i]\<rparr>"
    using bind_template_bound [OF assms] by (elim exE conjE) rule
  have "remove_first (same_binding contributor slot version path) (bound r @ [i]) = Some (bound r)"
    using b(5,6) by (intro remove_first_last) (auto simp: same_binding_def)
  then show ?thesis using b(1-4) by (simp add: unbind_template_def b(7))
qed

subsection \<open>A small registry\<close>

definition demo_slot :: render_slot where
  "demo_slot = \<lparr>rs_owner = ''a'', rs_contract = ''a.b'', rs_version = ''1.0.0'', rs_active = True\<rparr>"

definition demo_binding :: render_binding where
  "demo_binding = \<lparr>rb_contributor = ''d'', rb_slot = ''a.b'', rb_version = ''*'', rb_template = ''x'', rb_position = 1, rb_active = True\<rparr>"

lemma demo_declared:
  "declare_slot demo_packaging ''a'' ''a.b'' ''1.0.0'' empty_render = (Inr demo_slot, \<lparr>slots = [((''a.b'', 5), demo_slot)], bound = []\<rparr>)"
proof -
  have "validate_owned_contract ''a'' ''a.b'' = Inr ()" by code_simp
  moreover have "version_text demo_packaging 5 = ''1.0.0''" by (simp add: demo_packaging_def)
  ultimately show ?thesis by (simp add: declare_slot_def demo_valid empty_render_def Let_def demo_slot_def)
qed

lemma demo_bound:
  "bind_template demo_packaging ''d'' ''a.b'' ''*'' ''x'' 1 \<lparr>slots = [((''a.b'', 5), demo_slot)], bound = []\<rparr> =
     (Inr demo_binding, \<lparr>slots = [((''a.b'', 5), demo_slot)], bound = [demo_binding]\<rparr>)"
proof -
  have "safe_template ''x'' = Inr ''x''" "ext_validate_owner ''d'' = Inr ''d''" by code_simp+
  then show ?thesis by (simp add: bind_template_def demo_valid demo_range demo_slot_def demo_binding_def Let_def)
qed

theorem render_bindings_never_dangle_witness:
  "has_slot demo_packaging \<lparr>slots = [((''a.b'', 5), demo_slot)], bound = [demo_binding]\<rparr> demo_binding"
proof -
  have "render_reachable demo_packaging (snd (bind_template demo_packaging ''d'' ''a.b'' ''*'' ''x'' 1
      (snd (declare_slot demo_packaging ''a'' ''a.b'' ''1.0.0'' empty_render))))"
    by (intro render_bind render_declare render_start)
  from render_bindings_never_dangle [OF this] show ?thesis by (simp add: demo_declared demo_bound)
qed

theorem unbind_undoes_bind_witness:
  "unbind_template demo_packaging ''d'' ''a.b'' ''*'' ''x'' \<lparr>slots = [((''a.b'', 5), demo_slot)], bound = [demo_binding]\<rparr>
     = (Inr (), \<lparr>slots = [((''a.b'', 5), demo_slot)], bound = []\<rparr>)"
  by (rule unbind_undoes_bind [OF demo_bound])

theorem paused_contributor_not_rendered_witness:
  "slot_bindings demo_packaging ''a.b'' ''1.0.0'' \<lparr>slots = [((''a.b'', 5), demo_slot)], bound = [demo_binding]\<rparr> = Inr [demo_binding]
   \<and> (\<exists>after. slot_bindings demo_packaging ''a.b'' ''1.0.0'' (snd (render_set_owner_active ''d'' False
         \<lparr>slots = [((''a.b'', 5), demo_slot)], bound = [demo_binding]\<rparr>)) = Inr after
       \<and> set after = {i \<in> set [demo_binding]. rb_contributor i \<noteq> ''d''})"
proof -
  let ?r = "\<lparr>slots = [((''a.b'', 5), demo_slot)], bound = [demo_binding]\<rparr>"
  have b: "slot_bindings demo_packaging ''a.b'' ''1.0.0'' ?r = Inr [demo_binding]"
    by (simp add: slot_bindings_def demo_valid binding_admits_def demo_range demo_slot_def demo_binding_def)
  have "ext_validate_owner ''d'' = Inr ''d''" by code_simp
  then have a: "slot_bindings demo_packaging ''a.b'' ''1.0.0'' (snd (render_set_owner_active ''d'' False ?r)) = Inr []"
    by (simp add: slot_bindings_def demo_valid render_set_owner_active_def dict_map_def demo_slot_def demo_binding_def)
  from paused_contributor_not_rendered [OF demo_valid(4) b a] show ?thesis using a b by blast
qed

end
