(* ===== verification/Event_Outbox.thy ===== *)
theory Event_Outbox
  imports Event_Bus_Laws
begin

text \<open>
  The durable outbox: \<open>envelope.py\<close> and \<open>event_outbox.py\<close>. The table \<open>plaik_event_outbox\<close> is the list of
  its rows. A text column that holds JSON is represented by the value that \<open>json.loads\<close> reads from it.
  The dispatcher commits after every change it makes, so the table is shared with the handlers that
  a publication runs: it is part of the world they act on.
\<close>

subsection \<open>Envelopes in rows\<close>

text \<open>SQL NULL, the empty text, a text with what it decodes to (no value: not JSON), a mapping
  decoded by the driver, and anything else.\<close>

datatype json_column = ColNull | ColEmpty | ColText "pyval option" | ColMapping pyval | ColOther

text \<open>Readings of the environment: \<open>uuid4\<close> and the clock at the n-th step, and the standard library's
  \<open>isoformat\<close> and \<open>fromisoformat\<close> (a time without a zone is read as UTC).\<close>

record outbox_env =
  uid_at :: "nat \<Rightarrow> string"
  now_at :: "nat \<Rightarrow> int"
  iso_format :: "int \<Rightarrow> string"
  iso_parse :: "string \<Rightarrow> int option"

definition dump_scope :: "contracts_package \<Rightarrow> pyval option \<Rightarrow> json_column" where
  "dump_scope C scope = (case scope of None \<Rightarrow> ColNull | Some s \<Rightarrow> ColText (Some (canon (scope_dump C s))))"

definition dump_resource :: "contracts_package \<Rightarrow> pyval option \<Rightarrow> json_column" where
  "dump_resource C resource = (case resource of None \<Rightarrow> ColNull | Some r \<Rightarrow> ColText (Some (canon (resource_dump C r))))"

text \<open>\<open>_as_mapping\<close>: no outer value when it raises, no inner value for \<open>None\<close>.\<close>

definition as_mapping :: "json_column \<Rightarrow> pyval option option" where
  "as_mapping raw =
     (case raw of ColNull \<Rightarrow> Some None | ColEmpty \<Rightarrow> Some None | ColMapping m \<Rightarrow> Some (Some m) | ColOther \<Rightarrow> None
      | ColText None \<Rightarrow> None
      | ColText (Some decoded) \<Rightarrow>
          if decoded = VNull then Some None else if is_mapping decoded then Some (Some decoded) else None)"

definition load_scope :: "contracts_package \<Rightarrow> json_column \<Rightarrow> pyval option" where
  "load_scope C raw =
     (case as_mapping raw of None \<Rightarrow> None | Some None \<Rightarrow> Some (installation_scope C) | Some (Some p) \<Rightarrow> scope_validate C p)"

definition load_resource :: "contracts_package \<Rightarrow> json_column \<Rightarrow> pyval option option" where
  "load_resource C raw =
     (case as_mapping raw of None \<Rightarrow> None | Some None \<Rightarrow> Some None | Some (Some p) \<Rightarrow> map_option Some (resource_validate C p))"

definition parse_created_at :: "outbox_env \<Rightarrow> string \<Rightarrow> int option" where
  "parse_created_at I text = iso_parse I (concat (map (\<lambda>c. if c = CHR ''Z'' then ''+00:00'' else [c]) text))"

record outbox_event =
  oe_id :: string
  oe_owner :: string
  oe_contract :: string
  oe_version :: string
  oe_payload :: pyval
  oe_idempotency_key :: "string option"
  oe_created_at :: string
  oe_scope_json :: json_column
  oe_resource_json :: json_column
  oe_correlation_id :: "string option"

text \<open>\<open>envelope_from_row\<close>; the callers map every exception it raises to the same error.\<close>

definition envelope_from_row :: "contracts_package \<Rightarrow> outbox_env \<Rightarrow> outbox_event \<Rightarrow> event_envelope option" where
  "envelope_from_row C I r =
     (case load_scope C (oe_scope_json r) of None \<Rightarrow> None | Some scope \<Rightarrow>
      case load_resource C (oe_resource_json r) of None \<Rightarrow> None | Some resource \<Rightarrow>
      case parse_created_at I (oe_created_at r) of None \<Rightarrow> None | Some created \<Rightarrow>
      make_envelope C \<lparr>ee_id = oe_id r, ee_owner = oe_owner r, ee_contract = oe_contract r, ee_version = oe_version r,
        ee_payload = oe_payload r, ee_scope = scope, ee_resource = resource, ee_idempotency_key = oe_idempotency_key r,
        ee_correlation_id = oe_correlation_id r, ee_created_at = created\<rparr>)"

subsection \<open>The table\<close>

datatype outbox_error =
    OutboxEnvelopeError string
  | OutboxValueError string
  | OutboxTypeError string
  | OutboxRuntimeError string
  | OutboxIntegrityError
  | OutboxBusError ext_error

record outbox_row =
  or_id :: string
  or_owner :: string
  or_contract :: string
  or_version :: string
  or_payload_json :: json_column
  or_idempotency_key :: "string option"
  or_created_at :: string
  or_dispatched_at :: "string option"
  or_scope_json :: json_column
  or_resource_json :: json_column
  or_correlation_id :: "string option"
  or_quarantined_at :: "string option"
  or_quarantine_reason :: "string option"

type_synonym outbox = "outbox_row list"

definition row_pending :: "outbox_row \<Rightarrow> bool" where
  "row_pending r \<longleftrightarrow> or_dispatched_at r = None \<and> or_quarantined_at r = None"

definition has_key :: "string \<Rightarrow> string \<Rightarrow> string \<Rightarrow> outbox_row \<Rightarrow> bool" where
  "has_key owner contract key r \<longleftrightarrow> or_owner r = owner \<and> or_contract r = contract \<and> or_idempotency_key r = Some key"

text \<open>A violation of the primary key or of the unique index.\<close>

definition row_conflicts :: "outbox_row \<Rightarrow> outbox_row \<Rightarrow> bool" where
  "row_conflicts n r \<longleftrightarrow> or_id r = or_id n \<or>
     (case or_idempotency_key n of None \<Rightarrow> False | Some key \<Rightarrow> has_key (or_owner n) (or_contract n) key r)"

definition envelope_row :: "contracts_package \<Rightarrow> outbox_env \<Rightarrow> event_envelope \<Rightarrow> outbox_row" where
  "envelope_row C I e =
     \<lparr>or_id = ee_id e, or_owner = ee_owner e, or_contract = ee_contract e, or_version = ee_version e,
      or_payload_json = ColText (Some (canon (ee_payload e))), or_idempotency_key = ee_idempotency_key e,
      or_created_at = iso_format I (ee_created_at e), or_dispatched_at = None,
      or_scope_json = dump_scope C (Some (ee_scope e)), or_resource_json = dump_resource C (ee_resource e),
      or_correlation_id = ee_correlation_id e, or_quarantined_at = None, or_quarantine_reason = None\<rparr>"

definition outbox_enqueue ::
  "contracts_package \<Rightarrow> outbox_env \<Rightarrow> nat \<Rightarrow> event_request \<Rightarrow> outbox \<Rightarrow> (outbox_error + string) \<times> outbox" where
  "outbox_enqueue C I n q t =
     (case json_snapshot (eq_payload q) of Inl e \<Rightarrow> (Inl (OutboxBusError e), t) | Inr snapshot \<Rightarrow>
      let persisted_scope = dump_scope C (Some (case eq_scope q of None \<Rightarrow> installation_scope C | Some s \<Rightarrow> s));
          persisted_resource = dump_resource C (eq_resource q) in
      case envelope_from_row C I
          \<lparr>oe_id = uid_at I n, oe_owner = eq_owner q, oe_contract = eq_contract q, oe_version = eq_version q, oe_payload = snapshot,
           oe_idempotency_key = eq_idempotency_key q, oe_created_at = iso_format I (now_at I n), oe_scope_json = persisted_scope,
           oe_resource_json = persisted_resource, oe_correlation_id = eq_correlation_id q\<rparr> of
        None \<Rightarrow> (Inl (OutboxEnvelopeError ''outbox envelope is invalid''), t)
      | Some envelope \<Rightarrow>
          if \<not> json_safe (ee_payload envelope) then (Inl (OutboxTypeError ''payload is not JSON serializable''), t)
          else let row = envelope_row C I envelope in
            if \<not> list_ex (row_conflicts row) t then (Inr (ee_id envelope), t @ [row])
            else case eq_idempotency_key q of
              None \<Rightarrow> (Inl OutboxIntegrityError, t)
            | Some key \<Rightarrow>
                (case List.find (has_key (eq_owner q) (eq_contract q) key) t of
                   None \<Rightarrow> (Inl OutboxIntegrityError, t)
                 | Some r \<Rightarrow> (Inr (or_id r), t)))"

definition pending_rows :: "nat \<Rightarrow> outbox \<Rightarrow> outbox_row list" where
  "pending_rows limit t = take limit (sort_key (\<lambda>r. (or_created_at r, or_id r)) (filter row_pending t))"

definition event_from_row :: "outbox_row \<Rightarrow> outbox_event option" where
  "event_from_row r =
     (case or_payload_json r of
        ColText (Some payload) \<Rightarrow>
          if \<not> json_safe payload \<or> \<not> is_mapping payload then None
          else Some \<lparr>oe_id = or_id r, oe_owner = or_owner r, oe_contract = or_contract r, oe_version = or_version r,
                     oe_payload = payload, oe_idempotency_key = or_idempotency_key r, oe_created_at = or_created_at r,
                     oe_scope_json = or_scope_json r, oe_resource_json = or_resource_json r,
                     oe_correlation_id = or_correlation_id r\<rparr>
      | _ \<Rightarrow> None)"

definition limit_ok :: "nat \<Rightarrow> bool" where "limit_ok limit \<longleftrightarrow> 1 \<le> limit \<and> limit \<le> 1000"

abbreviation limit_error :: outbox_error where
  "limit_error \<equiv> OutboxValueError ''outbox dispatch limit must be between 1 and 1000''"

definition outbox_pending :: "nat \<Rightarrow> outbox \<Rightarrow> outbox_error + outbox_event list" where
  "outbox_pending limit t =
     (if \<not> limit_ok limit then Inl limit_error else Inr (List.map_filter event_from_row (pending_rows limit t)))"

definition outbox_quarantined :: "nat \<Rightarrow> outbox \<Rightarrow> outbox_error + (string \<times> string) list" where
  "outbox_quarantined limit t =
     (if \<not> limit_ok limit then Inl limit_error
      else Inr (map (\<lambda>r. (or_id r, case or_quarantine_reason r of None \<Rightarrow> ''invalid_envelope''
                                    | Some reason \<Rightarrow> if reason = [] then ''invalid_envelope'' else reason))
             (take limit (sort_key (\<lambda>r. (the (or_quarantined_at r), or_id r)) (filter (\<lambda>r. or_quarantined_at r \<noteq> None) t)))))"

definition quarantine_pattern :: rx where
  "quarantine_pattern = Seq (Cls [lower] 1 (Some 1)) (Cls [lower, digit, single CHR ''_'', single CHR ''.'', single CHR ''-''] 0 (Some 63))"

text \<open>The conditional updates, and the number of rows they changed.\<close>

definition update_pending :: "string \<Rightarrow> (outbox_row \<Rightarrow> outbox_row) \<Rightarrow> outbox \<Rightarrow> outbox" where
  "update_pending event_id f t = map (\<lambda>r. if or_id r = event_id \<and> row_pending r then f r else r) t"

definition rowcount :: "string \<Rightarrow> outbox \<Rightarrow> nat" where
  "rowcount event_id t = length (filter (\<lambda>r. or_id r = event_id \<and> row_pending r) t)"

definition outbox_quarantine :: "string \<Rightarrow> string \<Rightarrow> string \<Rightarrow> outbox \<Rightarrow> (outbox_error + unit) \<times> outbox" where
  "outbox_quarantine now event_id reason t =
     (if \<not> fullmatch quarantine_pattern reason then (Inl (OutboxValueError ''outbox quarantine reason is invalid''), t)
      else (if rowcount event_id t \<noteq> 1 then Inl (OutboxRuntimeError ''outbox event is not pending'') else Inr (),
            update_pending event_id (\<lambda>r. r\<lparr>or_quarantined_at := Some now, or_quarantine_reason := Some reason\<rparr>) t))"

definition mark_dispatched :: "string \<Rightarrow> string \<Rightarrow> outbox \<Rightarrow> (outbox_error + unit) \<times> outbox" where
  "mark_dispatched now event_id t =
     (if rowcount event_id t \<noteq> 1 then Inl (OutboxRuntimeError ''outbox event is not pending'') else Inr (),
      update_pending event_id (\<lambda>r. r\<lparr>or_dispatched_at := Some now\<rparr>) t)"

subsection \<open>The dispatcher\<close>

type_synonym ('v, 'h, 'w) outbox_state = "('v, 'h) event_bus \<times> (outbox \<times> 'w)"

abbreviation rows_of :: "('v, 'h, 'w) outbox_state \<Rightarrow> outbox" where "rows_of st \<equiv> fst (snd st)"

definition put_rows :: "outbox \<Rightarrow> ('v, 'h, 'w) outbox_state \<Rightarrow> ('v, 'h, 'w) outbox_state" where
  "put_rows t st = (fst st, t, snd (snd st))"

lemma rows_of_put [simp]: "rows_of (put_rows t st) = t"
  by (simp add: put_rows_def)

definition envelope_request :: "event_envelope \<Rightarrow> event_request" where
  "envelope_request e =
     \<lparr>eq_owner = ee_owner e, eq_contract = ee_contract e, eq_version = ee_version e, eq_payload = ee_payload e,
      eq_idempotency_key = ee_idempotency_key e, eq_scope = Some (ee_scope e), eq_resource = ee_resource e,
      eq_correlation_id = ee_correlation_id e\<rparr>"

type_synonym ('v, 'h, 'w) handler_run =
  "'h \<Rightarrow> pyval \<Rightarrow> ('v, 'h, 'w) outbox_state \<Rightarrow> bool \<times> ('v, 'h, 'w) outbox_state"

text \<open>The body of the loop over a batch, up to the commit: the row is quarantined or delivered.\<close>

datatype row_outcome = RowQuarantined | RowDelivered

definition quarantine_row ::
  "string \<Rightarrow> string \<Rightarrow> string \<Rightarrow> ('v, 'h, 'w) outbox_state \<Rightarrow> (outbox_error + row_outcome) \<times> ('v, 'h, 'w) outbox_state" where
  "quarantine_row now event_id reason st =
     (case outbox_quarantine now event_id reason (rows_of st) of
        (Inl e, t) \<Rightarrow> (Inl e, put_rows t st) | (Inr _, t) \<Rightarrow> (Inr RowQuarantined, put_rows t st))"

definition dispatch_row ::
  "'v packaging \<Rightarrow> contracts_package \<Rightarrow> outbox_env \<Rightarrow> ('v, 'h, 'w) handler_run \<Rightarrow> outbox_row \<Rightarrow> nat \<Rightarrow>
   ('v, 'h, 'w) outbox_state \<Rightarrow> (outbox_error + row_outcome) \<times> ('v, 'h, 'w) outbox_state" where
  "dispatch_row K C I run row n st =
     (let now = iso_format I (now_at I n) in
      case event_from_row row of None \<Rightarrow> quarantine_row now (or_id row) ''invalid_payload_json'' st | Some event \<Rightarrow>
      case envelope_from_row C I event of None \<Rightarrow> quarantine_row now (oe_id event) ''invalid_envelope'' st | Some envelope \<Rightarrow>
      case event_publish K C run (uid_at I n) (now_at I n) (envelope_request envelope) st of
        (Inl e, st') \<Rightarrow> (Inl (OutboxBusError e), st')
      | (Inr _, st') \<Rightarrow>
          (case mark_dispatched now (oe_id event) (rows_of st') of
             (Inl e, t) \<Rightarrow> (Inl e, put_rows t st') | (Inr _, t) \<Rightarrow> (Inr RowDelivered, put_rows t st')))"

text \<open>The pass over one batch: deliveries, quarantined rows and steps so far.\<close>

fun dispatch_rows ::
  "'v packaging \<Rightarrow> contracts_package \<Rightarrow> outbox_env \<Rightarrow> ('v, 'h, 'w) handler_run \<Rightarrow> nat \<Rightarrow> outbox_row list \<Rightarrow> nat \<Rightarrow> nat \<Rightarrow> nat \<Rightarrow>
   ('v, 'h, 'w) outbox_state \<Rightarrow> (outbox_error + nat \<times> nat \<times> nat) \<times> ('v, 'h, 'w) outbox_state" where
  "dispatch_rows K C I run limit [] delivered quarantined n st = (Inr (delivered, quarantined, n), st)"
| "dispatch_rows K C I run limit (row # rows) delivered quarantined n st =
     (case dispatch_row K C I run row n st of
        (Inl e, st') \<Rightarrow> (Inl e, st')
      | (Inr RowQuarantined, st') \<Rightarrow> dispatch_rows K C I run limit rows delivered (quarantined + 1) (n + 1) st'
      | (Inr RowDelivered, st') \<Rightarrow>
          if limit \<le> delivered + 1 then (Inr (delivered + 1, quarantined, n + 1), st')
          else dispatch_rows K C I run limit rows (delivered + 1) quarantined (n + 1) st')"

subsection \<open>The dispatch loop ends\<close>

definition pending_count :: "outbox \<Rightarrow> nat" where "pending_count t = length (filter row_pending t)"

lemma update_pending_count:
  assumes "\<And>r. row_pending r \<Longrightarrow> \<not> row_pending (f r)"
  shows "pending_count (update_pending i f t) + rowcount i t = pending_count t"
  using assms by (induction t) (auto simp: pending_count_def update_pending_def rowcount_def)

lemma quarantined_row_count:
  assumes "dispatch_row K C I run row n st = (Inr RowQuarantined, st')"
  shows "pending_count (rows_of st) = pending_count (rows_of st') + 1"
proof -
  have "pending_count t = pending_count t' + 1" if "outbox_quarantine now i reason t = (Inr u, t')" for now i reason t u t'
    using that update_pending_count [of "\<lambda>r. r\<lparr>or_quarantined_at := Some now, or_quarantine_reason := Some reason\<rparr>" i t]
    by (auto simp: outbox_quarantine_def row_pending_def split: if_splits)
  then show ?thesis using assms
    by (auto simp: dispatch_row_def quarantine_row_def Let_def split: option.splits sum.splits prod.splits)
qed

text \<open>A pass never loses deliveries, and one that delivers nothing takes one pending row per quarantined one.\<close>

lemma dispatch_rows_progress:
  "dispatch_rows K C I run limit rows d q n st = (Inr (d', q', n'), st') \<Longrightarrow>
   d \<le> d' \<and> q \<le> q' \<and> (d' = d \<longrightarrow> pending_count (rows_of st) + q = pending_count (rows_of st') + q')"
proof (induction rows arbitrary: d q n st)
  case (Cons row rows)
  obtain out st1 where r: "dispatch_row K C I run row n st = (out, st1)" by (cases "dispatch_row K C I run row n st")
  show ?case
  proof (cases out)
    case (Inr o1)
    show ?thesis
    proof (cases o1)
      case RowQuarantined
      then show ?thesis using Cons.prems Cons.IH [of d "q + 1" "n + 1" st1] r Inr quarantined_row_count [of K C I run row n st st1] by simp
    next
      case RowDelivered
      then show ?thesis using Cons.prems Cons.IH [of "d + 1" q "n + 1" st1] r Inr by (auto split: if_splits)
    qed
  qed (use Cons.prems r in simp)
qed simp

function dispatch_loop ::
  "'v packaging \<Rightarrow> contracts_package \<Rightarrow> outbox_env \<Rightarrow> ('v, 'h, 'w) handler_run \<Rightarrow> nat \<Rightarrow> nat \<Rightarrow> nat \<Rightarrow>
   ('v, 'h, 'w) outbox_state \<Rightarrow> (outbox_error + nat \<times> nat) \<times> ('v, 'h, 'w) outbox_state" where
  "dispatch_loop K C I run limit delivered n st =
     (if \<not> delivered < limit then (Inr (delivered, n), st)
      else let rows = pending_rows limit (rows_of st) in
        if rows = [] then (Inr (delivered, n), st)
        else case dispatch_rows K C I run limit rows delivered 0 n st of
          (Inl e, st') \<Rightarrow> (Inl e, st')
        | (Inr (delivered', quarantined, n'), st') \<Rightarrow>
            if quarantined = 0 then (Inr (delivered', n'), st')
            else dispatch_loop K C I run limit delivered' n' st')"
  by pat_completeness auto
termination
proof (relation "measures [\<lambda>(K, C, I, run, limit, d, n, st). limit - d, \<lambda>(K, C, I, run, limit, d, n, st). pending_count (rows_of st)]")
  fix K :: "'v packaging" and C I and run :: "('v, 'h, 'w) handler_run" and limit d n :: nat
    and st st' :: "('v, 'h, 'w) outbox_state" and rows out r p d' p' q n'
  assume a: "\<not> \<not> d < limit" "rows = pending_rows limit (rows_of st)" "rows \<noteq> []"
    "(out, st') = dispatch_rows K C I run limit rows d 0 n st" "out = Inr p" "(d', p') = p" "(q, n') = p'" "q \<noteq> 0"
  then have "dispatch_rows K C I run limit rows d 0 n st = (Inr (d', q, n'), st')" by simp
  from dispatch_rows_progress [OF this] a(1,8)
  show "((K, C, I, run, limit, d', n', st'), (K, C, I, run, limit, d, n, st))
      \<in> measures [\<lambda>(K, C, I, run, limit, d, n, st). limit - d, \<lambda>(K, C, I, run, limit, d, n, st). pending_count (rows_of st)]"
    by auto
qed simp

declare dispatch_loop.simps [simp del]

definition outbox_dispatch ::
  "'v packaging \<Rightarrow> contracts_package \<Rightarrow> outbox_env \<Rightarrow> ('v, 'h, 'w) handler_run \<Rightarrow> nat \<Rightarrow> nat \<Rightarrow>
   ('v, 'h, 'w) outbox_state \<Rightarrow> (outbox_error + nat \<times> nat) \<times> ('v, 'h, 'w) outbox_state" where
  "outbox_dispatch K C I run limit n st =
     (if \<not> limit_ok limit then (Inl limit_error, st) else dispatch_loop K C I run limit 0 n st)"

lemma dispatch_rows_bound:
  "dispatch_rows K C I run limit rows d q n st = (Inr (d', q', n'), st') \<Longrightarrow> d < limit \<Longrightarrow> d' \<le> limit"
  by (induction K C I run limit rows d q n st rule: dispatch_rows.induct)
    (auto split: sum.splits prod.splits if_splits row_outcome.splits)

lemma dispatch_loop_bound: "dispatch_loop K C I run limit d n st = (Inr (d', n'), st') \<Longrightarrow> d \<le> limit \<Longrightarrow> d \<le> d' \<and> d' \<le> limit"
proof (induction K C I run limit d n st rule: dispatch_loop.induct)
  case (1 K C I run limit d n st)
  show ?case
  proof (cases "\<not> d < limit \<or> pending_rows limit (rows_of st) = []")
    case True
    then show ?thesis using "1.prems" by (auto simp: dispatch_loop.simps [of K C I run limit d n st] Let_def split: if_splits)
  next
    case False
    then obtain d1 q n1 st1 where r: "dispatch_rows K C I run limit (pending_rows limit (rows_of st)) d 0 n st = (Inr (d1, q, n1), st1)"
      "(if q = 0 then (Inr (d1, n1), st1) else dispatch_loop K C I run limit d1 n1 st1) = (Inr (d', n'), st')"
      using "1.prems" by (auto simp: dispatch_loop.simps [of K C I run limit d n st] split: sum.splits prod.splits)
    have b: "d \<le> d1" "d1 \<le> limit" using dispatch_rows_progress [OF r(1)] dispatch_rows_bound [OF r(1)] False by auto
    show ?thesis
    proof (cases "q = 0")
      case True
      then show ?thesis using r(2) b by simp
    next
      case q: False
      then show ?thesis using "1.IH" [OF _ refl _ r(1) [symmetric] refl refl refl q] False r(2) b by simp
    qed
  qed
qed

function drain_claimed ::
  "'v packaging \<Rightarrow> contracts_package \<Rightarrow> outbox_env \<Rightarrow> ('v, 'h, 'w) handler_run \<Rightarrow> nat \<Rightarrow> nat \<Rightarrow> nat \<Rightarrow>
   ('v, 'h, 'w) outbox_state \<Rightarrow> (outbox_error + nat) \<times> ('v, 'h, 'w) outbox_state" where
  "drain_claimed K C I run remaining delivered n st =
     (if remaining = 0 then (Inr delivered, st)
      else case outbox_dispatch K C I run remaining n st of
        (Inl e, st') \<Rightarrow> (Inl e, st')
      | (Inr (batch, n'), st') \<Rightarrow>
          if batch = 0 then (Inr delivered, st')
          else drain_claimed K C I run (remaining - batch) (delivered + batch) n' st')"
  by pat_completeness auto
termination
  by (relation "measure (\<lambda>(K, C, I, run, remaining, d, n, st). remaining)") auto

declare drain_claimed.simps [simp del]

subsection \<open>Durable events\<close>

text \<open>
  \<open>SqliteDurableEvents\<close>: the flags under its condition variable are shared with the handlers too, which
  may defer or enable dispatch from within a delivery. A thread that has to wait gets no result and
  repeats the section once it is notified.
\<close>

record durable_flags =
  dispatch_after_enqueue :: bool
  dispatching :: bool
  dispatch_thread :: "nat option"

definition durable_init :: "bool \<Rightarrow> durable_flags" where
  "durable_init after = \<lparr>dispatch_after_enqueue = after, dispatching = False, dispatch_thread = None\<rparr>"

definition other_dispatching :: "nat \<Rightarrow> durable_flags \<Rightarrow> bool" where
  "other_dispatching me f \<longleftrightarrow> dispatching f \<and> dispatch_thread f \<noteq> Some me"

text \<open>\<open>defer_dispatch\<close>: the new flags, and whether the caller waits for a running dispatch to end.\<close>

definition defer_dispatch :: "nat \<Rightarrow> durable_flags \<Rightarrow> durable_flags \<times> bool" where
  "defer_dispatch me f = (f\<lparr>dispatch_after_enqueue := False\<rparr>, other_dispatching me f)"

definition enable_live_dispatch :: "durable_flags \<Rightarrow> durable_flags" where
  "enable_live_dispatch f = f\<lparr>dispatch_after_enqueue := True\<rparr>"

datatype claim_result = Claimed | Refused | Waits

definition claim_dispatch :: "nat \<Rightarrow> durable_flags \<Rightarrow> claim_result \<times> durable_flags" where
  "claim_dispatch me f =
     (if dispatching f \<and> dispatch_thread f = Some me then (Refused, f)
      else if dispatching f then (Waits, f)
      else if \<not> dispatch_after_enqueue f then (Refused, f)
      else (Claimed, f\<lparr>dispatching := True, dispatch_thread := Some me\<rparr>))"

definition release_dispatch :: "durable_flags \<Rightarrow> durable_flags" where
  "release_dispatch f = f\<lparr>dispatching := False, dispatch_thread := None\<rparr>"

definition recover_claim :: "nat \<Rightarrow> durable_flags \<Rightarrow> claim_result \<times> durable_flags" where
  "recover_claim me f =
     (if other_dispatching me f then (Waits, f) else claim_dispatch me (f\<lparr>dispatch_after_enqueue := True\<rparr>))"

type_synonym ('v, 'h, 'w) durable_state = "('v, 'h, durable_flags \<times> 'w) outbox_state"

definition flags_of :: "('v, 'h, 'w) durable_state \<Rightarrow> durable_flags" where "flags_of st = fst (snd (snd st))"

definition put_flags :: "durable_flags \<Rightarrow> ('v, 'h, 'w) durable_state \<Rightarrow> ('v, 'h, 'w) durable_state" where
  "put_flags f st = (fst st, fst (snd st), f, snd (snd (snd st)))"

definition run_claim ::
  "'v packaging \<Rightarrow> contracts_package \<Rightarrow> outbox_env \<Rightarrow> ('v, 'h, durable_flags \<times> 'w) handler_run \<Rightarrow> nat \<Rightarrow> nat \<Rightarrow>
   claim_result \<times> durable_flags \<Rightarrow> ('v, 'h, 'w) durable_state \<Rightarrow> ((outbox_error + nat) \<times> ('v, 'h, 'w) durable_state) option" where
  "run_claim K C I run limit n claim st =
     (case claim of
        (Waits, f) \<Rightarrow> None
      | (Refused, f) \<Rightarrow> Some (Inr 0, put_flags f st)
      | (Claimed, f) \<Rightarrow>
          (case drain_claimed K C I run limit 0 n (put_flags f st) of
             (out, st') \<Rightarrow> Some (out, put_flags (release_dispatch (flags_of st')) st')))"

definition durable_drain ::
  "'v packaging \<Rightarrow> contracts_package \<Rightarrow> outbox_env \<Rightarrow> ('v, 'h, durable_flags \<times> 'w) handler_run \<Rightarrow> nat \<Rightarrow> nat \<Rightarrow> nat \<Rightarrow>
   ('v, 'h, 'w) durable_state \<Rightarrow> ((outbox_error + nat) \<times> ('v, 'h, 'w) durable_state) option" where
  "durable_drain K C I run me limit n st = run_claim K C I run limit n (claim_dispatch me (flags_of st)) st"

definition recover_subscribers ::
  "'v packaging \<Rightarrow> contracts_package \<Rightarrow> outbox_env \<Rightarrow> ('v, 'h, durable_flags \<times> 'w) handler_run \<Rightarrow> nat \<Rightarrow> nat \<Rightarrow> nat \<Rightarrow>
   ('v, 'h, 'w) durable_state \<Rightarrow> ((outbox_error + nat) \<times> ('v, 'h, 'w) durable_state) option" where
  "recover_subscribers K C I run me limit n st = run_claim K C I run limit n (recover_claim me (flags_of st)) st"

text \<open>An exception closes the connection without a commit; enqueueing changes nothing then.\<close>

definition durable_persist ::
  "contracts_package \<Rightarrow> outbox_env \<Rightarrow> nat \<Rightarrow> event_request \<Rightarrow> ('v, 'h, 'w) outbox_state \<Rightarrow> (outbox_error + unit) \<times> ('v, 'h, 'w) outbox_state" where
  "durable_persist C I n q st =
     (case outbox_enqueue C I n q (rows_of st) of
        (Inl e, t) \<Rightarrow> (Inl e, st) | (Inr _, t) \<Rightarrow> (Inr (), put_rows t st))"

definition durable_publish ::
  "'v packaging \<Rightarrow> contracts_package \<Rightarrow> outbox_env \<Rightarrow> ('v, 'h, durable_flags \<times> 'w) handler_run \<Rightarrow> nat \<Rightarrow> nat \<Rightarrow> event_request \<Rightarrow>
   ('v, 'h, 'w) durable_state \<Rightarrow> ((outbox_error + nat) \<times> ('v, 'h, 'w) durable_state) option" where
  "durable_publish K C I run me n q st =
     (case durable_persist C I n q st of
        (Inl e, st') \<Rightarrow> Some (Inl e, st') | (Inr _, st') \<Rightarrow> durable_drain K C I run me 100 (n + 1) st')"

definition durable_pending_count :: "('v, 'h, 'w) outbox_state \<Rightarrow> nat" where
  "durable_pending_count st = (case outbox_pending 100 (rows_of st) of Inl _ \<Rightarrow> 0 | Inr events \<Rightarrow> length events)"

text \<open>
  \<open>DelegatingDurableEvents.recover_subscribers\<close> with \<open>_reraise_drain_errors\<close>: the drains of the fallback,
  if it is another backend than the live one, and of the live backend, on the state they share.
\<close>

definition reraise_drain_errors :: "'e option \<Rightarrow> 'e option \<Rightarrow> 'e option" where
  "reraise_drain_errors leftover live = (case leftover of Some e \<Rightarrow> Some e | None \<Rightarrow> live)"

definition failure :: "'e + nat \<Rightarrow> 'e option" where "failure out = (case out of Inl e \<Rightarrow> Some e | Inr _ \<Rightarrow> None)"

definition drained :: "'e + nat \<Rightarrow> nat" where "drained out = (case out of Inl _ \<Rightarrow> 0 | Inr n \<Rightarrow> n)"

definition delegating_recover ::
  "('s \<Rightarrow> ('e + nat) \<times> 's) option \<Rightarrow> ('s \<Rightarrow> ('e + nat) \<times> 's) \<Rightarrow> 's \<Rightarrow> ('e + nat) \<times> 's" where
  "delegating_recover other_fallback live st =
     (let (leftover, st1) = (case other_fallback of None \<Rightarrow> (Inr 0, st) | Some recover \<Rightarrow> recover st);
          (out, st2) = live st1
      in case reraise_drain_errors (failure leftover) (failure out) of
           Some e \<Rightarrow> (Inl e, st2)
         | None \<Rightarrow> (Inr (drained leftover + drained out), st2))"

text \<open>\<open>defer_dispatch\<close> and \<open>enable_live_dispatch\<close> of the delegating events act on the live backend and then
  on another fallback.\<close>

definition delegating_each :: "('s \<Rightarrow> 's) option \<Rightarrow> ('s \<Rightarrow> 's) \<Rightarrow> 's \<Rightarrow> 's" where
  "delegating_each other_fallback live st = (case other_fallback of None \<Rightarrow> live st | Some f \<Rightarrow> f (live st))"

end
