(* ===== verification/Event_Outbox_Safety.thy ===== *)
theory Event_Outbox_Safety
  imports Event_Outbox
begin

text \<open>
  What the outbox guarantees: rows are settled oldest first, each at most once, a row that cannot be
  decoded is set aside and never blocks the rest, a failed publication leaves its row first in line,
  an event that was accepted decodes again, and a keyed event is stored once.
\<close>

subsection \<open>Publications whose handlers may enqueue\<close>

text \<open>
  While an event is published its handlers may accept further events: the table gets new pending rows, under ids of
  their own (the primary key). They cannot settle rows: the dispatch of a handler's own event is refused while the
  dispatching thread holds the claim.
\<close>

definition ids_distinct :: "outbox \<Rightarrow> bool" where "ids_distinct t \<longleftrightarrow> distinct (map or_id t)"

definition enqueued_only :: "outbox \<Rightarrow> outbox \<Rightarrow> bool" where
  "enqueued_only t t' \<longleftrightarrow> (\<exists>new. t' = t @ new \<and> list_all row_pending new \<and> (ids_distinct t \<longrightarrow> ids_distinct t'))"

definition handlers_only_enqueue :: "('v, 'h, 'w) handler_run \<Rightarrow> bool" where
  "handlers_only_enqueue run \<longleftrightarrow> (\<forall>h p st. enqueued_only (rows_of st) (rows_of (snd (run h p st))))"

lemma enqueued_only_refl [simp]: "enqueued_only t t"
  by (simp add: enqueued_only_def)

lemma enqueued_only_trans: "enqueued_only t t1 \<Longrightarrow> enqueued_only t1 t2 \<Longrightarrow> enqueued_only t t2"
  by (auto simp: enqueued_only_def)

lemma deliver_only_enqueues:
  "handlers_only_enqueue run \<Longrightarrow> enqueued_only (rows_of st) (rows_of (snd (deliver run is p n st)))"
proof (induction run "is" p n st rule: deliver.induct)
  case (2 run i "is" p n st)
  show ?case
  proof (cases "json_snapshot p")
    case (Inr c)
    obtain ok st' where r: "run (es_handler i) c st = (ok, st')" by (cases "run (es_handler i) c st")
    have "enqueued_only (rows_of st) (rows_of st')" using "2.prems" r unfolding handlers_only_enqueue_def by (metis snd_conv)
    then show ?thesis
      using "2.IH" [OF refl Inr r [symmetric] _ "2.prems"] Inr r by (cases ok) (auto intro: enqueued_only_trans)
  qed simp
qed simp

lemma publish_only_enqueues:
  assumes "handlers_only_enqueue run"
  shows "enqueued_only (rows_of st) (rows_of (snd (event_publish K C run uid now q st)))"
proof -
  have d: "enqueued_only (rows_of st1) (rows_of st2)" if "deliver run s p n st1 = (out, st2)" for s p n st1 out st2
    using deliver_only_enqueues [OF assms, of st1 s p n] that by simp
  have r: "rows_of (remember e st1) = rows_of st1" "rows_of (forget_key k st1) = rows_of st1" for e k and st1 :: "('v, 'h, 'w) outbox_state"
    by (simp_all add: remember_def forget_key_def)
  show ?thesis unfolding event_publish_def Let_def
    by (auto simp: r split: sum.split option.split prod.split dest!: d)
qed

subsection \<open>The queue of pending rows\<close>

definition waiting :: "outbox \<Rightarrow> outbox_row list" where
  "waiting t = sort_key (\<lambda>r. (or_created_at r, or_id r)) (filter row_pending t)"

definition deliverable :: "contracts_package \<Rightarrow> outbox_env \<Rightarrow> outbox_row \<Rightarrow> bool" where
  "deliverable C I r \<longleftrightarrow> (case event_from_row r of None \<Rightarrow> False | Some event \<Rightarrow> envelope_from_row C I event \<noteq> None)"

text \<open>The number of rows marked as dispatched.\<close>

definition dispatched_rows :: "outbox \<Rightarrow> nat" where
  "dispatched_rows t = length (filter (\<lambda>r. or_dispatched_at r \<noteq> None) t)"

lemma pending_rows_waiting: "pending_rows limit t = take limit (waiting t)"
  by (simp add: pending_rows_def waiting_def)

lemma set_waiting: "r \<in> set (waiting t) \<longleftrightarrow> r \<in> set t \<and> row_pending r"
  by (auto simp: waiting_def)

lemma same_id_same_row: "ids_distinct t \<Longrightarrow> r \<in> set t \<Longrightarrow> s \<in> set t \<Longrightarrow> or_id r = or_id s \<Longrightarrow> r = s"
  by (auto simp: ids_distinct_def dest: map_of_is_SomeI inj_on_eq_iff [OF distinct_map [THEN iffD1, THEN conjunct2], THEN iffD1])

lemma distinct_waiting: "ids_distinct t \<Longrightarrow> distinct (waiting t)"
  by (auto simp: ids_distinct_def waiting_def distinct_map distinct_filter)

lemma enqueued_dispatched: "enqueued_only t t' \<Longrightarrow> dispatched_rows t' = dispatched_rows t"
proof -
  have "list_all row_pending new \<Longrightarrow> filter (\<lambda>r. \<exists>y. or_dispatched_at r = Some y) new = []" for new
    by (auto simp: list_all_iff row_pending_def filter_empty_conv)
  then show "enqueued_only t t' \<Longrightarrow> ?thesis" by (auto simp: enqueued_only_def dispatched_rows_def)
qed

text \<open>How a row may be settled: delivered when it decodes, set aside when it does not.\<close>

definition settled :: "contracts_package \<Rightarrow> outbox_env \<Rightarrow> outbox_row \<Rightarrow> outbox_row \<Rightarrow> bool" where
  "settled C I r r' \<longleftrightarrow> row_pending r \<and>
     (if deliverable C I r then \<exists>now. r' = r\<lparr>or_dispatched_at := Some now\<rparr>
      else \<exists>now reason. r' = r\<lparr>or_quarantined_at := Some now, or_quarantine_reason := Some reason\<rparr>)"

text \<open>Of the rows of \<open>t\<close> exactly those in \<open>S\<close> were settled and no other changed; rows may have been added.\<close>

definition outbox_settles :: "contracts_package \<Rightarrow> outbox_env \<Rightarrow> outbox_row set \<Rightarrow> outbox \<Rightarrow> outbox \<Rightarrow> bool" where
  "outbox_settles C I S t t' \<longleftrightarrow> ids_distinct t' \<and>
     (\<exists>old new. t' = old @ new \<and> list_all2 (\<lambda>r r'. if r \<in> S then settled C I r r' else r' = r) t old)"

lemma settled_not_pending: "settled C I r r' \<Longrightarrow> row_pending r \<and> \<not> row_pending r' \<and> or_id r' = or_id r"
  by (auto simp: settled_def row_pending_def split: if_splits)

lemma settles_enqueued: "enqueued_only t t' \<Longrightarrow> ids_distinct t \<Longrightarrow> outbox_settles C I {} t t'"
  unfolding enqueued_only_def outbox_settles_def by (elim exE conjE) (rule conjI, simp, rule exI [of _ t], simp add: list.rel_refl)

lemma settles_distinct: "outbox_settles C I S t t' \<Longrightarrow> ids_distinct t'"
  by (simp add: outbox_settles_def)

lemma settles_row:
  "list_all2 (\<lambda>r r'. if r \<in> S then settled C I r r' else r' = r) t old \<Longrightarrow> r \<in> set t \<Longrightarrow>
   if r \<in> S then \<exists>r'\<in>set old. settled C I r r' else r \<in> set old"
  by (induction rule: list_all2_induct) (auto split: if_splits)

lemma settles_kept: "outbox_settles C I S t t' \<Longrightarrow> r \<in> set t \<Longrightarrow> r \<notin> S \<Longrightarrow> r \<in> set t'"
  unfolding outbox_settles_def using settles_row [of S C I t _ r] by (elim exE conjE) fastforce

lemma settles_settled: "outbox_settles C I S t t' \<Longrightarrow> r \<in> set t \<Longrightarrow> r \<in> S \<Longrightarrow> \<exists>r'\<in>set t'. settled C I r r'"
  unfolding outbox_settles_def using settles_row [of S C I t _ r] by (elim exE conjE) fastforce

text \<open>A settled row is gone.\<close>

lemma settles_gone:
  assumes "outbox_settles C I S t t'" "r \<in> set t" "r \<in> S" shows "r \<notin> set t'"
proof
  assume r: "r \<in> set t'"
  obtain r' where r': "r' \<in> set t'" "settled C I r r'" using settles_settled [OF assms] by blast
  then have "r = r'" using same_id_same_row [OF settles_distinct [OF assms(1)] r] settled_not_pending by metis
  then show False using r'(2) settled_not_pending by blast
qed

lemma settles_trans:
  assumes s: "outbox_settles C I S t t1" "outbox_settles C I S' t1 t2" and p: "\<forall>r\<in>S'. row_pending r"
    and S: "S'' = S \<union> (S' \<inter> set t)"
  shows "outbox_settles C I S'' t t2"
proof -
  let ?R = "\<lambda>S r r'. if r \<in> S then settled C I r r' else r' = r"
  obtain old new old2 new2 where 1: "t1 = old @ new" "list_all2 (?R S) t old" and 2: "t2 = old2 @ new2" "list_all2 (?R S') t1 old2"
    using s unfolding outbox_settles_def by blast
  obtain a b where ab: "old2 = a @ b" "list_all2 (?R S') old a" using 2(2) unfolding 1(1) list_all2_append1 by blast
  have step: "?R S'' r r2" if "?R S r r1" "?R S' r1 r2" "r \<in> set t" for r r1 r2
    using that p settled_not_pending [of C I r r1] unfolding S by (auto split: if_splits)
  have len: "length t = length old" "length old = length a" using 1(2) ab(2) by (auto dest: list_all2_lengthD)
  have "list_all2 (?R S'') t a"
  proof (rule list_all2_all_nthI)
    fix i assume i: "i < length t"
    show "?R S'' (t ! i) (a ! i)"
      by (rule step [OF list_all2_nthD [OF 1(2) i] list_all2_nthD [OF ab(2)] nth_mem [OF i]]) (use i len in simp)
  qed (use len in simp)
  moreover have "t2 = a @ (b @ new2)" using 2(1) ab(1) by simp
  ultimately show ?thesis using settles_distinct [OF s(2)] unfolding outbox_settles_def by blast
qed

text \<open>Of the rows there were, those that were not settled still wait, in the same order.\<close>

lemma waiting_left:
  assumes "outbox_settles C I S t t'"
  shows "filter (\<lambda>r. r \<in> set t) (waiting t') = filter (\<lambda>r. r \<notin> S) (waiting t)"
proof -
  obtain old new where t': "t' = old @ new" "list_all2 (\<lambda>r r'. if r \<in> S then settled C I r r' else r' = r) t old"
    using assms unfolding outbox_settles_def by blast
  have "r \<notin> set t" if r: "r \<in> set new" for r
  proof
    assume "r \<in> set t"
    then have "r \<in> set old"
      using settles_gone [OF assms, of r] settles_row [OF t'(2), of r] r by (auto simp: t'(1) split: if_splits)
    then show False using r settles_distinct [OF assms] by (auto simp: t'(1) ids_distinct_def)
  qed
  then have "filter (\<lambda>r. r \<in> set t) (filter row_pending new) = []" by (auto simp: filter_empty_conv)
  moreover have "set xs \<subseteq> A \<Longrightarrow> filter (\<lambda>r. r \<in> A) (filter row_pending ys) = filter (\<lambda>r. r \<notin> S) (filter row_pending xs)"
    if "list_all2 (\<lambda>r r'. if r \<in> S then settled C I r r' else r' = r) xs ys" for xs ys A
    using that
  proof (induction rule: list_all2_induct)
    case (Cons x xs y ys)
    then show ?case using settled_not_pending [of C I x y] by (cases "x \<in> S") auto
  qed simp
  ultimately have "filter (\<lambda>r. r \<in> set t) (filter row_pending t') = filter (\<lambda>r. r \<notin> S) (filter row_pending t)"
    using t' by simp
  then show ?thesis unfolding waiting_def filter_sort by simp
qed

lemma filter_take: "filter P (take n xs) = take (length (filter P (take n xs))) (filter P xs)"
  by (metis append_eq_conv_conj append_take_drop_id filter_append)

lemma filter_not_taken: "distinct xs \<Longrightarrow> filter (\<lambda>r. r \<notin> set (take j xs)) xs = drop j xs"
proof -
  assume "distinct xs"
  then have d: "distinct (take j xs @ drop j xs)" by simp
  have "filter (\<lambda>r. r \<notin> set (take j xs)) (take j xs @ drop j xs) = drop j xs"
    using d unfolding distinct_append by (auto simp: filter_empty_conv filter_id_conv simp del: append_take_drop_id)
  then show ?thesis by simp
qed

lemma filter_nth:
  assumes "n < length xs" "P (xs ! n)"
  shows "length (filter P (take n xs)) < length (filter P xs) \<and> filter P xs ! length (filter P (take n xs)) = xs ! n"
proof -
  have "filter P xs = filter P (take n xs) @ xs ! n # filter P (drop (Suc n) xs)"
    using id_take_nth_drop [OF assms(1)] assms(2) by (metis filter.simps(2) filter_append)
  then show ?thesis by (metis length_append less_add_same_cancel1 list.size(4) nth_append_length zero_less_Suc add_Suc_right)
qed

text \<open>Settling one row.\<close>

lemma settle_one:
  assumes ids: "ids_distinct t" and row: "row \<in> set t" "row_pending row" and f: "settled C I row (f row)"
  shows "outbox_settles C I {row} t (update_pending (or_id row) f t) \<and> rowcount (or_id row) t = 1
    \<and> dispatched_rows (update_pending (or_id row) f t) = dispatched_rows t + (if deliverable C I row then 1 else 0)"
proof -
  obtain a b where t: "t = a @ row # b" using row(1) by (meson split_list)
  have other: "or_id r \<noteq> or_id row" if "r \<in> set a \<union> set b" for r
  proof -
    have "or_id row \<notin> or_id ` set (a @ b)" using ids unfolding t ids_distinct_def by auto
    then show ?thesis using that by (metis UnE image_eqI set_append UnI1 UnI2)
  qed
  then have u: "update_pending (or_id row) f t = a @ f row # b"
    unfolding t update_pending_def using row(2) by (auto simp: map_idI)
  have ne: "row \<notin> set a" "row \<notin> set b" using other by auto
  have ids': "ids_distinct (a @ f row # b)" using ids settled_not_pending [OF f] by (simp add: t ids_distinct_def)
  have same: "list_all2 (\<lambda>r r'. if r = row then settled C I r r' else r' = r) xs xs" if "row \<notin> set xs" for xs
    using that by (auto simp: list.rel_refl_strong intro!: list.rel_refl_strong)
  have "list_all2 (\<lambda>r r'. if r \<in> {row} then settled C I r r' else r' = r) t (a @ f row # b)"
    unfolding t using same [OF ne(1)] same [OF ne(2)] f by (intro list_all2_appendI) simp_all
  then have "outbox_settles C I {row} t (update_pending (or_id row) f t)"
    unfolding u outbox_settles_def using ids' by (intro conjI exI [of _ "a @ f row # b"] exI [of _ "[]"]) simp_all
  moreover have "rowcount (or_id row) t = 1"
    using other row(2) unfolding t rowcount_def by (simp add: filter_empty_conv)
  moreover have "dispatched_rows (update_pending (or_id row) f t) = dispatched_rows t + (if deliverable C I row then 1 else 0)"
    unfolding u using f row(2) by (auto simp: t dispatched_rows_def settled_def row_pending_def split: if_splits)
  ultimately show ?thesis by simp
qed

subsection \<open>One row, one batch, the whole dispatch\<close>

lemma reasons_ok: "fullmatch quarantine_pattern ''invalid_payload_json''" "fullmatch quarantine_pattern ''invalid_envelope''"
  by code_simp+

lemma quarantine_one:
  assumes "ids_distinct (rows_of st)" "row \<in> set (rows_of st)" "row_pending row" "\<not> deliverable C I row" "fullmatch quarantine_pattern reason"
  shows "\<exists>st'. quarantine_row now (or_id row) reason st = (Inr RowQuarantined, st') \<and> outbox_settles C I {row} (rows_of st) (rows_of st')
    \<and> dispatched_rows (rows_of st') = dispatched_rows (rows_of st)"
proof -
  let ?f = "\<lambda>r. r\<lparr>or_quarantined_at := Some now, or_quarantine_reason := Some reason\<rparr>"
  have "settled C I row (?f row)" using assms(3,4) by (auto simp: settled_def)
  from settle_one [where f = ?f, OF assms(1-3) this] show ?thesis
    using assms(4,5) by (simp add: quarantine_row_def outbox_quarantine_def)
qed

lemma dispatch_row_settles:
  assumes only: "handlers_only_enqueue run" and ids: "ids_distinct (rows_of st)" and row: "row \<in> set (rows_of st)" "row_pending row"
    and run: "dispatch_row K C I run row n st = (out, st')"
  shows "if deliverable C I row
    then out = Inr RowDelivered \<and> outbox_settles C I {row} (rows_of st) (rows_of st')
          \<and> dispatched_rows (rows_of st') = dispatched_rows (rows_of st) + 1
      \<or> (\<exists>e. out = Inl (OutboxBusError e)) \<and> outbox_settles C I {} (rows_of st) (rows_of st')
          \<and> dispatched_rows (rows_of st') = dispatched_rows (rows_of st)
    else out = Inr RowQuarantined \<and> outbox_settles C I {row} (rows_of st) (rows_of st')
      \<and> dispatched_rows (rows_of st') = dispatched_rows (rows_of st)"
proof (cases "deliverable C I row")
  case False
  have i: "oe_id event = or_id row" if "event_from_row row = Some event" for event
    using that by (auto simp: event_from_row_def split: json_column.splits option.splits if_splits)
  have "\<exists>reason. fullmatch quarantine_pattern reason
      \<and> dispatch_row K C I run row n st = quarantine_row (iso_format I (now_at I n)) (or_id row) reason st"
    using False reasons_ok i by (auto simp: dispatch_row_def Let_def deliverable_def split: option.splits)
  then obtain reason where "fullmatch quarantine_pattern reason"
    and d: "dispatch_row K C I run row n st = quarantine_row (iso_format I (now_at I n)) (or_id row) reason st" by (elim exE conjE) rule
  from quarantine_one [OF ids row False this(1), of "iso_format I (now_at I n)"] show ?thesis using False run unfolding d by auto
next
  case True
  then obtain event envelope where e: "event_from_row row = Some event" "envelope_from_row C I event = Some envelope"
    by (auto simp: deliverable_def split: option.splits)
  have i: "oe_id event = or_id row" using e(1) by (auto simp: event_from_row_def split: json_column.splits option.splits if_splits)
  obtain pub st1 where p: "event_publish K C run (uid_at I n) (now_at I n) (envelope_request envelope) st = (pub, st1)"
    by (cases "event_publish K C run (uid_at I n) (now_at I n) (envelope_request envelope) st")
  have r: "enqueued_only (rows_of st) (rows_of st1)"
    using publish_only_enqueues [OF only, of st K C "uid_at I n" "now_at I n" "envelope_request envelope"] p by simp
  note s0 = settles_enqueued [OF r ids, of C I] and d0 = enqueued_dispatched [OF r]
  have row1: "row \<in> set (rows_of st1)" using settles_kept [OF s0 row(1)] by simp
  let ?f = "\<lambda>r. r\<lparr>or_dispatched_at := Some (iso_format I (now_at I n))\<rparr>"
  have "settled C I row (?f row)" using True row(2) by (auto simp: settled_def)
  note s1 = settle_one [where f = ?f, OF settles_distinct [OF s0] row1 row(2) this]
  have "outbox_settles C I {row} (rows_of st) (update_pending (or_id row) ?f (rows_of st1))"
    by (rule settles_trans [OF s0 conjunct1 [OF s1]]) (use row in auto)
  then show ?thesis using True run p e i s0 s1 d0 by (cases pub) (auto simp: dispatch_row_def Let_def mark_dispatched_def)
qed

text \<open>How a pass over the rows \<open>rows\<close>, which all wait in \<open>t\<close>, ended: it settled the first \<open>k\<close> of them.\<close>

definition batch_ends ::
  "contracts_package \<Rightarrow> outbox_env \<Rightarrow> nat \<Rightarrow> outbox_row list \<Rightarrow> outbox \<Rightarrow> nat \<Rightarrow> nat \<Rightarrow> (outbox_error + nat \<times> nat \<times> nat) \<Rightarrow> outbox \<Rightarrow> nat \<Rightarrow> bool" where
  "batch_ends C I limit rows t d q out t' k \<longleftrightarrow> k \<le> length rows \<and> outbox_settles C I (set (take k rows)) t t' \<and>
     (case out of
        Inr (d', q', n') \<Rightarrow> dispatched_rows t' + d = dispatched_rows t + d' \<and> d \<le> d' \<and> q \<le> q' \<and> (q' - q) + (d' - d) = k
          \<and> (limit \<le> d' \<or> k = length rows)
      | Inl e \<Rightarrow> k < length rows \<and> deliverable C I (rows ! k) \<and> (\<exists>x. e = OutboxBusError x))"

lemma batch_ends_step:
  assumes s: "outbox_settles C I {row} t t1" and row: "row \<in> set t" "row \<notin> set rows"
    and b: "batch_ends C I limit rows t1 d1 q1 out t' k"
    and rows: "set rows \<subseteq> set t" "\<forall>r\<in>set rows. row_pending r"
    and d: "dispatched_rows t1 + d = dispatched_rows t + d1" "d \<le> d1" "q \<le> q1" "(q1 - q) + (d1 - d) = 1"
  shows "batch_ends C I limit (row # rows) t d q out t' (Suc k)"
proof -
  have st: "outbox_settles C I (set (take k rows)) t1 t'" using b by (simp add: batch_ends_def)
  have "outbox_settles C I (set (take (Suc k) (row # rows))) t t'"
  proof (rule settles_trans [OF s st])
    show "\<forall>r\<in>set (take k rows). row_pending r" using rows(2) by (meson in_set_takeD)
    have "set (take k rows) \<subseteq> set t" using rows(1) by (meson in_set_takeD subset_code(1))
    then show "set (take (Suc k) (row # rows)) = {row} \<union> (set (take k rows) \<inter> set t)" by auto
  qed
  then show ?thesis using b d by (auto simp: batch_ends_def split: sum.splits)
qed

lemma dispatch_rows_settle:
  assumes "handlers_only_enqueue run"
  shows "ids_distinct (rows_of st) \<Longrightarrow> set rows \<subseteq> set (rows_of st) \<Longrightarrow> \<forall>r\<in>set rows. row_pending r \<Longrightarrow> distinct rows \<Longrightarrow>
    dispatch_rows K C I run limit rows d q n st = (out, st') \<Longrightarrow> \<exists>k. batch_ends C I limit rows (rows_of st) d q out (rows_of st') k"
proof (induction rows arbitrary: d q n st)
  case Nil
  then show ?case
    by (intro exI [of _ 0]) (auto simp: batch_ends_def intro: settles_enqueued)
next
  case (Cons row rows)
  obtain o1 st1 where r: "dispatch_row K C I run row n st = (o1, st1)" by (cases "dispatch_row K C I run row n st")
  have row: "row \<in> set (rows_of st)" "row_pending row" "row \<notin> set rows" using Cons.prems by auto
  note one = dispatch_row_settles [OF assms Cons.prems(1) row(1,2) r]
  have rest: "set rows \<subseteq> set (rows_of st)" "\<forall>r\<in>set rows. row_pending r" "distinct rows" using Cons.prems by auto
  show ?case
  proof (cases o1)
    case (Inl e)
    then have "deliverable C I row" "\<exists>x. e = OutboxBusError x" "outbox_settles C I {} (rows_of st) (rows_of st1)"
      using one by (auto split: if_splits)
    then show ?thesis using Cons.prems(5) r Inl by (intro exI [of _ 0]) (auto simp: batch_ends_def)
  next
    case (Inr o2)
    then have s: "outbox_settles C I {row} (rows_of st) (rows_of st1)" using one by (auto split: if_splits)
    have next1: "ids_distinct (rows_of st1)" "set rows \<subseteq> set (rows_of st1)"
      using settles_distinct [OF s] settles_kept [OF s] rest(1) row(3) by auto
    note IH = Cons.IH [OF next1 rest(2,3)] and step = batch_ends_step [OF s row(1,3) _ rest(1,2)]
    show ?thesis
    proof (cases o2)
      case RowQuarantined
      then have "dispatched_rows (rows_of st1) = dispatched_rows (rows_of st)" using one Inr by (auto split: if_splits)
      moreover have "dispatch_rows K C I run limit rows d (q + 1) (n + 1) st1 = (out, st')"
        using Cons.prems(5) r Inr RowQuarantined by simp
      from IH [OF this] obtain k where "batch_ends C I limit rows (rows_of st1) d (q + 1) out (rows_of st') k" by blast
      ultimately show ?thesis using step [of limit d "q + 1" out "rows_of st'" k d q] by auto
    next
      case RowDelivered
      then have d: "dispatched_rows (rows_of st1) = dispatched_rows (rows_of st) + 1" using one Inr by (auto split: if_splits)
      show ?thesis
      proof (cases "limit \<le> d + 1")
        case True
        then have "batch_ends C I limit (row # rows) (rows_of st) d q out (rows_of st') 1"
          using Cons.prems(5) r Inr RowDelivered d s by (auto simp: batch_ends_def)
        then show ?thesis by blast
      next
        case False
        then have "dispatch_rows K C I run limit rows (d + 1) q (n + 1) st1 = (out, st')"
          using Cons.prems(5) r Inr RowDelivered by simp
        from IH [OF this] obtain k where "batch_ends C I limit rows (rows_of st1) (d + 1) q out (rows_of st') k" by blast
        then show ?thesis using step [of limit "d + 1" q out "rows_of st'" k d q] d by auto
      qed
    qed
  qed
qed

text \<open>How a dispatch that began with \<open>d\<close> deliveries ended.\<close>

definition dispatch_ends ::
  "contracts_package \<Rightarrow> outbox_env \<Rightarrow> nat \<Rightarrow> outbox \<Rightarrow> nat \<Rightarrow> (outbox_error + nat \<times> nat) \<Rightarrow> outbox \<Rightarrow> nat \<Rightarrow> bool" where
  "dispatch_ends C I limit t d out t' k \<longleftrightarrow> k \<le> length (waiting t) \<and> outbox_settles C I (set (take k (waiting t))) t t' \<and>
     (case out of
        Inr (d', n') \<Rightarrow> dispatched_rows t' + d = dispatched_rows t + d' \<and> (d' = limit \<or> k = length (waiting t))
      | Inl e \<Rightarrow> (\<exists>x. e = OutboxBusError x) \<and>
          (\<exists>row\<in>set t'. row_pending row \<and> deliverable C I row \<and> (row \<in> set t \<longrightarrow> k < length (waiting t) \<and> row = waiting t ! k)))"

text \<open>After a pass that settled the first \<open>j\<close>, a dispatch that settles the first \<open>k\<close> of what waits then.\<close>

lemma dispatch_ends_step:
  assumes ids: "ids_distinct t" and s: "outbox_settles C I (set (take j (waiting t))) t t1" and j: "j \<le> length (waiting t)"
    and d: "dispatched_rows t1 + d = dispatched_rows t + d1"
    and e: "dispatch_ends C I limit t1 d1 out t' k"
  shows "\<exists>k. dispatch_ends C I limit t d out t' k"
proof -
  let ?P = "\<lambda>r. r \<in> set t"
  let ?k = "length (filter ?P (take k (waiting t1)))"
  have left: "filter ?P (waiting t1) = drop j (waiting t)"
    using waiting_left [OF s] filter_not_taken [OF distinct_waiting [OF ids]] by simp
  then have taken: "filter ?P (take k (waiting t1)) = take ?k (drop j (waiting t))" using filter_take [of ?P k "waiting t1"] by simp
  have s1: "outbox_settles C I (set (take k (waiting t1))) t1 t'" using e by (simp add: dispatch_ends_def)
  have "set (take k (waiting t1)) \<inter> set t = set (take ?k (drop j (waiting t)))"
    unfolding taken [symmetric] by auto
  then have "set (take (j + ?k) (waiting t)) = set (take j (waiting t)) \<union> (set (take k (waiting t1)) \<inter> set t)"
    by (simp add: take_add)
  then have s2: "outbox_settles C I (set (take (j + ?k) (waiting t))) t t'"
    by (intro settles_trans [OF s s1]) (auto dest!: in_set_takeD simp: set_waiting)
  have len: "?k \<le> length (drop j (waiting t))" unfolding left [symmetric] by (metis filter_take length_take min.cobounded1 min.cobounded2 order_trans taken left length_drop)
  show ?thesis
  proof (cases out)
    case (Inr r)
    obtain d' n' where r: "r = (d', n')" by fastforce
    have "?k = length (drop j (waiting t))" if "k = length (waiting t1)" using that left by simp
    then have "dispatch_ends C I limit t d out t' (j + ?k)"
      using e d s2 len j Inr r by (auto simp: dispatch_ends_def)
    then show ?thesis by blast
  next
    case (Inl x)
    obtain row where row: "row \<in> set t'" "row_pending row" "deliverable C I row"
        "row \<in> set t1 \<longrightarrow> k < length (waiting t1) \<and> row = waiting t1 ! k"
      using e Inl by (auto simp: dispatch_ends_def)
    have "j + ?k < length (waiting t) \<and> row = waiting t ! (j + ?k)" if r: "row \<in> set t"
    proof -
      have "row \<in> set t1"
      proof (rule settles_kept [OF s r])
        show "row \<notin> set (take j (waiting t))"
        proof
          assume "row \<in> set (take j (waiting t))"
          then have "row \<in> set (take (j + ?k) (waiting t))" by (simp add: take_add)
          then show False using settles_gone [OF s2 r] row(1) by simp
        qed
      qed
      then have k: "k < length (waiting t1)" "row = waiting t1 ! k" using row(4) by auto
      from filter_nth [OF k(1), of ?P] r k(2) left show ?thesis by (auto simp: nth_drop)
    qed
    then have "dispatch_ends C I limit t d out t' (j + ?k)"
      using e s2 len j Inl row by (auto simp: dispatch_ends_def)
    then show ?thesis by blast
  qed
qed

lemma dispatch_loop_settles:
  assumes "handlers_only_enqueue run"
  shows "ids_distinct (rows_of st) \<Longrightarrow> d \<le> limit \<Longrightarrow> dispatch_loop K C I run limit d n st = (out, st') \<Longrightarrow>
    \<exists>k. dispatch_ends C I limit (rows_of st) d out (rows_of st') k"
  using assms
proof (induction K C I run limit d n st arbitrary: out st' rule: dispatch_loop.induct)
  case (1 K C I run limit d n st)
  let ?t = "rows_of st" and ?rows = "pending_rows limit (rows_of st)"
  note loop = dispatch_loop.simps [of K C I run limit d n st]
  show ?case
  proof (cases "\<not> d < limit \<or> ?rows = []")
    case True
    then have "out = Inr (d, n)" "st' = st" "d = limit \<or> waiting ?t = []"
      using "1.prems"(2,3) by (auto simp: loop Let_def pending_rows_waiting split: if_splits)
    then show ?thesis
      using "1.prems"(1) by (intro exI [of _ 0]) (auto simp: dispatch_ends_def intro: settles_enqueued)
  next
    case False
    obtain o1 st1 where r: "dispatch_rows K C I run limit ?rows d 0 n st = (o1, st1)"
      by (cases "dispatch_rows K C I run limit ?rows d 0 n st")
    have rows: "set ?rows \<subseteq> set ?t" "\<forall>r\<in>set ?rows. row_pending r" "distinct ?rows"
      using distinct_waiting [OF "1.prems"(1)] by (auto simp: pending_rows_waiting set_waiting dest!: in_set_takeD)
    obtain j where j: "batch_ends C I limit ?rows ?t d 0 o1 (rows_of st1) j"
      using dispatch_rows_settle [OF "1.prems"(4) "1.prems"(1) rows r] by blast
    have jl: "j \<le> limit" "j \<le> length (waiting ?t)" "take j ?rows = take j (waiting ?t)"
      using j by (auto simp: batch_ends_def pending_rows_waiting min_def split: if_splits)
    have s: "outbox_settles C I (set (take j (waiting ?t))) ?t (rows_of st1)" using j jl(3) by (simp add: batch_ends_def)
    show ?thesis
    proof (cases o1)
      case (Inl e)
      have l: "j < length ?rows" "deliverable C I (?rows ! j)" "\<exists>x. e = OutboxBusError x" using j Inl by (auto simp: batch_ends_def)
      then have "?rows ! j \<in> set ?t" "row_pending (?rows ! j)" "?rows ! j = waiting ?t ! j" "j < length (waiting ?t)"
        using rows nth_mem [OF l(1)] by (auto simp: pending_rows_waiting)
      moreover have "?rows ! j \<notin> set (take j (waiting ?t))"
        using distinct_waiting [OF "1.prems"(1)] calculation(3,4) by (auto simp: in_set_conv_nth nth_eq_iff_index_eq)
      then have "?rows ! j \<in> set (rows_of st1)" by (rule settles_kept [OF s calculation(1)])
      moreover have "out = Inl e" "st' = st1" using "1.prems"(3) False r Inl by (auto simp: loop)
      ultimately have "dispatch_ends C I limit ?t d out (rows_of st') j"
        using l s jl by (auto simp: dispatch_ends_def)
      then show ?thesis by blast
    next
      case (Inr p)
      obtain d1 q n1 where p: "p = (d1, q, n1)" by (metis prod_cases3)
      have b: "dispatched_rows (rows_of st1) + d = dispatched_rows ?t + d1" "d \<le> d1" "q + (d1 - d) = j" "limit \<le> d1 \<or> j = length ?rows"
        using j Inr p by (auto simp: batch_ends_def)
      have d1: "d1 \<le> limit" using dispatch_rows_bound [of K C I run limit ?rows d 0 n st d1 q n1 st1] r Inr p False by auto
      show ?thesis
      proof (cases "q = 0")
        case True
        then have "out = Inr (d1, n1)" "st' = st1" using "1.prems"(3) False r Inr p by (auto simp: loop)
        moreover have "d1 = limit \<or> j = length (waiting ?t)"
          using b(2-4) d1 True by (auto simp: pending_rows_waiting min_def split: if_splits)
        ultimately have "dispatch_ends C I limit ?t d out (rows_of st') j"
          using b(1) s jl by (auto simp: dispatch_ends_def)
        then show ?thesis by blast
      next
        case q: False
        have l: "dispatch_loop K C I run limit d1 n1 st1 = (out, st')" using "1.prems"(3) False r Inr p q by (simp add: loop)
        have "\<exists>k. dispatch_ends C I limit (rows_of st1) d1 out (rows_of st') k"
          using "1.IH" [OF _ refl _ r [unfolded Inr p, symmetric] refl refl refl q settles_distinct [OF s] d1 l "1.prems"(4)] False by simp
        then show ?thesis using dispatch_ends_step [OF "1.prems"(1) s jl(2) b(1)] by blast
      qed
    qed
  qed
qed

text \<open>
  C19: the dispatcher settles the waiting rows oldest first, exactly once each, and no broken row blocks the others. While
  it runs, handlers may accept further events, which append pending rows. Of the rows there were, a dispatch
  changes exactly the first \<open>k\<close> pending ones by creation time and id: those that decode to an envelope are marked as
  dispatched, those that do not are quarantined; every other row is as before and waits in the same order. If it
  returns, it reports the number of rows that became dispatched, and this is the limit unless none of the rows
  there were is pending any more. If it raises, a publication was refused or failed; the row of that event decodes and
  stays pending, and if it was there from the start it is the first in line of those.
\<close>

theorem dispatch_settles_oldest_first:
  assumes "handlers_only_enqueue run" "ids_distinct (rows_of st)" "limit_ok limit"
    and "outbox_dispatch K C I run limit n st = (out, st')"
  shows "\<exists>k old new. k \<le> length (waiting (rows_of st)) \<and> rows_of st' = old @ new
    \<and> list_all2 (\<lambda>r r'. if r \<in> set (take k (waiting (rows_of st))) then settled C I r r' else r' = r) (rows_of st) old
    \<and> filter (\<lambda>r. r \<in> set (rows_of st)) (waiting (rows_of st')) = drop k (waiting (rows_of st))
    \<and> (case out of
         Inr (d, n') \<Rightarrow> dispatched_rows (rows_of st') = dispatched_rows (rows_of st) + d \<and> d \<le> limit
           \<and> (d = limit \<or> k = length (waiting (rows_of st)))
       | Inl e \<Rightarrow> (\<exists>x. e = OutboxBusError x) \<and>
           (\<exists>row\<in>set (rows_of st'). row_pending row \<and> deliverable C I row
              \<and> (row \<in> set (rows_of st) \<longrightarrow> k < length (waiting (rows_of st)) \<and> row = waiting (rows_of st) ! k)))"
proof -
  let ?w = "waiting (rows_of st)"
  have l: "dispatch_loop K C I run limit 0 n st = (out, st')" using assms(3,4) by (simp add: outbox_dispatch_def)
  obtain k where k: "dispatch_ends C I limit (rows_of st) 0 out (rows_of st') k"
    using dispatch_loop_settles [OF assms(1,2) _ l] by blast
  then have s: "outbox_settles C I (set (take k ?w)) (rows_of st) (rows_of st')" by (simp add: dispatch_ends_def)
  then obtain old new where o: "rows_of st' = old @ new"
      "list_all2 (\<lambda>r r'. if r \<in> set (take k ?w) then settled C I r r' else r' = r) (rows_of st) old"
    unfolding outbox_settles_def by blast
  have "filter (\<lambda>r. r \<in> set (rows_of st)) (waiting (rows_of st')) = drop k ?w"
    using waiting_left [OF s] filter_not_taken [OF distinct_waiting [OF assms(2)]] by simp
  moreover have "d \<le> limit" if "out = Inr (d, n')" for d n'
    using dispatch_loop_bound [of K C I run limit 0 n st d n' st'] l that by simp
  ultimately show ?thesis
    using k o by (intro exI [of _ k] exI [of _ old] exI [of _ new]) (auto simp: dispatch_ends_def split: sum.splits)
qed

subsection \<open>Accepted events decode again\<close>

text \<open>
  What the outbox relies on: \<open>fromisoformat\<close> reads what \<open>isoformat\<close> wrote for a UTC time, which has no
  letter Z; \<open>model_validate\<close> reads what \<open>model_dump\<close> wrote for a scope or resource, which is an object; and
  \<open>EventEnvelope\<close> validates its fields without changing them.
\<close>

definition envelope_laws :: "contracts_package \<Rightarrow> outbox_env \<Rightarrow> bool" where
  "envelope_laws C I \<longleftrightarrow>
     (\<forall>t. iso_parse I (iso_format I t) = Some t \<and> CHR ''Z'' \<notin> set (iso_format I t))
     \<and> (\<forall>p s. scope_validate C p = Some s \<longrightarrow> is_mapping (scope_dump C s) \<and> scope_validate C (canon (scope_dump C s)) = Some s)
     \<and> (\<forall>p s. resource_validate C p = Some s \<longrightarrow> is_mapping (resource_dump C s) \<and> resource_validate C (canon (resource_dump C s)) = Some s)
     \<and> is_mapping (scope_dump C (installation_scope C))
     \<and> scope_validate C (canon (scope_dump C (installation_scope C))) = Some (installation_scope C)
     \<and> (\<forall>e e'. make_envelope C e = Some e' \<longrightarrow> e' = e)"

lemma parse_stamp: "envelope_laws C I \<Longrightarrow> parse_created_at I (iso_format I t) = Some t"
proof -
  assume "envelope_laws C I"
  then have l: "iso_parse I (iso_format I t) = Some t" "CHR ''Z'' \<notin> set (iso_format I t)" by (auto simp: envelope_laws_def)
  have "CHR ''Z'' \<notin> set s \<Longrightarrow> concat (map (\<lambda>c. if c = CHR ''Z'' then ''+00:00'' else [c]) s) = s" for s by (induction s) auto
  then show ?thesis using l by (simp add: parse_created_at_def)
qed

lemma load_dumped:
  assumes "is_mapping (f s)"
  shows "as_mapping (ColText (Some (canon (f s)))) = Some (Some (canon (f s)))"
proof -
  have m: "is_mapping (canon (f s))" using assms by simp
  moreover have "canon (f s) \<noteq> VNull"
  proof
    assume e: "canon (f s) = VNull"
    show False using m unfolding e by simp
  qed
  ultimately show ?thesis by (simp add: as_mapping_def)
qed

lemma scope_roundtrip:
  assumes "envelope_laws C I" "load_scope C raw = Some s"
  shows "load_scope C (dump_scope C (Some s)) = Some s"
proof -
  have "is_mapping (scope_dump C s) \<and> scope_validate C (canon (scope_dump C s)) = Some s"
    using assms unfolding envelope_laws_def load_scope_def by (auto split: option.splits)
  then show ?thesis using load_dumped [of "scope_dump C" s] by (simp add: load_scope_def dump_scope_def)
qed

lemma resource_roundtrip:
  assumes "envelope_laws C I" "load_resource C raw = Some r"
  shows "load_resource C (dump_resource C r) = Some r"
proof (cases r)
  case None
  then show ?thesis by (simp add: load_resource_def dump_resource_def as_mapping_def)
next
  case (Some s)
  then have "is_mapping (resource_dump C s) \<and> resource_validate C (canon (resource_dump C s)) = Some s"
    using assms unfolding envelope_laws_def load_resource_def by (auto split: option.splits)
  then show ?thesis using Some load_dumped [of "resource_dump C" s] by (simp add: load_resource_def dump_resource_def)
qed

lemma snapshot_canonical: "json_snapshot p = Inr c \<Longrightarrow> canon c = c \<and> json_safe c \<and> is_mapping c"
  by (auto simp: json_snapshot_def Let_def split: if_splits sum.splits)

lemma envelope_fields:
  assumes "envelope_laws C I" "envelope_from_row C I r = Some e"
  shows "\<exists>scope resource created. load_scope C (oe_scope_json r) = Some scope \<and> load_resource C (oe_resource_json r) = Some resource
    \<and> e = \<lparr>ee_id = oe_id r, ee_owner = oe_owner r, ee_contract = oe_contract r, ee_version = oe_version r,
        ee_payload = oe_payload r, ee_scope = scope, ee_resource = resource, ee_idempotency_key = oe_idempotency_key r,
        ee_correlation_id = oe_correlation_id r, ee_created_at = created\<rparr> \<and> make_envelope C e = Some e"
proof -
  have same: "e' = e" if "make_envelope C e = Some e'" for e e' using assms(1) that by (simp add: envelope_laws_def)
  obtain scope resource created where f: "load_scope C (oe_scope_json r) = Some scope" "load_resource C (oe_resource_json r) = Some resource"
    and m: "make_envelope C \<lparr>ee_id = oe_id r, ee_owner = oe_owner r, ee_contract = oe_contract r, ee_version = oe_version r,
        ee_payload = oe_payload r, ee_scope = scope, ee_resource = resource, ee_idempotency_key = oe_idempotency_key r,
        ee_correlation_id = oe_correlation_id r, ee_created_at = created\<rparr> = Some e"
    using assms(2) unfolding envelope_from_row_def by (auto split: option.splits)
  show ?thesis using f m same [OF m] by (intro exI conjI) simp_all
qed

lemma envelope_row_decodes:
  assumes l: "envelope_laws C I" and e: "envelope_from_row C I r = Some e" and p: "json_snapshot p = Inr (oe_payload r)"
  shows "\<exists>event. event_from_row (envelope_row C I e) = Some event \<and> envelope_from_row C I event = Some e"
proof -
  obtain scope resource created where f: "load_scope C (oe_scope_json r) = Some scope" "load_resource C (oe_resource_json r) = Some resource"
    "e = \<lparr>ee_id = oe_id r, ee_owner = oe_owner r, ee_contract = oe_contract r, ee_version = oe_version r,
        ee_payload = oe_payload r, ee_scope = scope, ee_resource = resource, ee_idempotency_key = oe_idempotency_key r,
        ee_correlation_id = oe_correlation_id r, ee_created_at = created\<rparr>" "make_envelope C e = Some e"
    using envelope_fields [OF l e] by (elim exE conjE) rule
  note rt = scope_roundtrip [OF l f(1)] resource_roundtrip [OF l f(2)] parse_stamp [OF l] snapshot_canonical [OF p]
  show ?thesis using rt f(4) by (simp add: event_from_row_def envelope_row_def envelope_from_row_def f(3))
qed

lemma enqueued_decodes:
  assumes "envelope_laws C I" "outbox_enqueue C I n q t = (Inr i, t')"
  shows "(t' = t \<and> (\<exists>key r. eq_idempotency_key q = Some key \<and> r \<in> set t \<and> has_key (eq_owner q) (eq_contract q) key r \<and> or_id r = i))
    \<or> (\<exists>row event e. t' = t @ [row] \<and> row_pending row \<and> or_id row = i \<and> deliverable C I row
        \<and> event_from_row row = Some event \<and> envelope_from_row C I event = Some e
        \<and> json_snapshot (eq_payload q) = Inr (ee_payload e) \<and> ee_owner e = eq_owner q \<and> ee_contract e = eq_contract q
        \<and> ee_version e = eq_version q \<and> ee_idempotency_key e = eq_idempotency_key q \<and> ee_correlation_id e = eq_correlation_id q)"
proof -
  obtain snapshot r e where a: "json_snapshot (eq_payload q) = Inr snapshot" "envelope_from_row C I r = Some e" "oe_payload r = snapshot"
    "oe_owner r = eq_owner q" "oe_contract r = eq_contract q" "oe_version r = eq_version q"
    "oe_idempotency_key r = eq_idempotency_key q" "oe_correlation_id r = eq_correlation_id q"
    "(if \<not> list_ex (row_conflicts (envelope_row C I e)) t then (Inr (ee_id e), t @ [envelope_row C I e])
      else case eq_idempotency_key q of None \<Rightarrow> (Inl OutboxIntegrityError, t)
        | Some key \<Rightarrow> (case List.find (has_key (eq_owner q) (eq_contract q) key) t of
             None \<Rightarrow> (Inl OutboxIntegrityError, t) | Some r \<Rightarrow> (Inr (or_id r), t))) = (Inr i, t')"
    using assms(2) by (auto simp: outbox_enqueue_def Let_def split: sum.splits option.splits if_splits)
  show ?thesis
  proof (cases "list_ex (row_conflicts (envelope_row C I e)) t")
    case True
    then have "t' = t \<and> (\<exists>key r. eq_idempotency_key q = Some key \<and> r \<in> set t \<and> has_key (eq_owner q) (eq_contract q) key r \<and> or_id r = i)"
      using a(9) by (auto simp: find_Some_iff split: option.splits) (metis nth_mem)
    then show ?thesis by (rule disjI1)
  next
    case False
    then have t: "t' = t @ [envelope_row C I e]" "i = ee_id e" using a(9) by auto
    obtain event where ev: "event_from_row (envelope_row C I e) = Some event" "envelope_from_row C I event = Some e"
      using envelope_row_decodes [OF assms(1) a(2)] a(1,3) by blast
    have f: "ee_payload e = snapshot" "ee_owner e = eq_owner q" "ee_contract e = eq_contract q" "ee_version e = eq_version q"
      "ee_idempotency_key e = eq_idempotency_key q" "ee_correlation_id e = eq_correlation_id q"
      using envelope_fields [OF assms(1) a(2)] a(3-8) by auto
    show ?thesis
      by (rule disjI2, intro exI [of _ "envelope_row C I e"] exI [of _ event] exI [of _ e])
        (simp add: t ev f a(1) deliverable_def, simp add: envelope_row_def row_pending_def)
  qed
qed

text \<open>C33: An event the outbox accepted can always be delivered. Enqueueing that returns either found an
  earlier row under the same owner, contract and idempotency key, whose id it returns without storing
  anything, or it appended one pending row, and that row decodes to an envelope with the fields of the
  request and the snapshot of its payload: the dispatcher never quarantines it.\<close>

theorem enqueued_event_decodes:
  assumes "envelope_laws C I" "outbox_enqueue C I n q t = (Inr i, t')"
  shows "(t' = t \<and> (\<exists>key r. eq_idempotency_key q = Some key \<and> r \<in> set t \<and> has_key (eq_owner q) (eq_contract q) key r \<and> or_id r = i))
    \<or> (\<exists>row event e. t' = t @ [row] \<and> row_pending row \<and> or_id row = i \<and> deliverable C I row
        \<and> event_from_row row = Some event \<and> envelope_from_row C I event = Some e
        \<and> json_snapshot (eq_payload q) = Inr (ee_payload e) \<and> ee_owner e = eq_owner q \<and> ee_contract e = eq_contract q
        \<and> ee_version e = eq_version q \<and> ee_idempotency_key e = eq_idempotency_key q \<and> ee_correlation_id e = eq_correlation_id q)"
  by (rule enqueued_decodes [OF assms])

subsection \<open>A keyed event is stored once\<close>

definition row_key :: "outbox_row \<Rightarrow> (string \<times> string \<times> string) option" where
  "row_key r = map_option (\<lambda>key. (or_owner r, or_contract r, key)) (or_idempotency_key r)"

lemma has_key_row_key: "has_key owner contract key r \<longleftrightarrow> row_key r = Some (owner, contract, key)"
  by (auto simp: has_key_def row_key_def)

lemma row_conflicts_key: "row_conflicts n r \<longleftrightarrow> or_id r = or_id n \<or> (row_key n \<noteq> None \<and> row_key r = row_key n)"
  by (cases "or_idempotency_key n") (auto simp: row_conflicts_def has_key_row_key, simp_all add: row_key_def)

text \<open>Any use of the table: enqueueing, quarantining and marking, in any order.\<close>

inductive outbox_steps :: "contracts_package \<Rightarrow> outbox_env \<Rightarrow> outbox \<Rightarrow> outbox \<Rightarrow> bool" for C I t where
  outbox_refl: "outbox_steps C I t t"
| outbox_enq: "outbox_steps C I t t' \<Longrightarrow> outbox_steps C I t (snd (outbox_enqueue C I n q t'))"
| outbox_quar: "outbox_steps C I t t' \<Longrightarrow> outbox_steps C I t (snd (outbox_quarantine now i reason t'))"
| outbox_mark: "outbox_steps C I t t' \<Longrightarrow> outbox_steps C I t (snd (mark_dispatched now i t'))"

definition row_identity :: "outbox_row \<Rightarrow> string \<times> (string \<times> string \<times> string) option" where
  "row_identity r = (or_id r, row_key r)"

lemma update_identity:
  assumes "\<And>r. row_identity (f r) = row_identity r"
  shows "map row_identity (update_pending i f t) = map row_identity t"
  using assms by (simp add: update_pending_def)

lemma marks_keep_identity:
  "map row_identity (snd (outbox_quarantine now i reason t)) = map row_identity t"
  "map row_identity (snd (mark_dispatched now i t)) = map row_identity t"
  by (simp_all add: outbox_quarantine_def mark_dispatched_def update_identity row_identity_def row_key_def)

lemma enqueue_result:
  "snd (outbox_enqueue C I n q t) = t \<or>
   (\<exists>e. snd (outbox_enqueue C I n q t) = t @ [envelope_row C I e] \<and> \<not> list_ex (row_conflicts (envelope_row C I e)) t)"
  by (auto simp: outbox_enqueue_def Let_def split: sum.split option.split)

definition table_ok :: "outbox \<Rightarrow> bool" where
  "table_ok t \<longleftrightarrow> ids_distinct t \<and> (\<forall>r\<in>set t. \<forall>s\<in>set t. row_key r = row_key s \<longrightarrow> row_key r \<noteq> None \<longrightarrow> or_id r = or_id s)"

lemma table_ok_identity: "map row_identity t = map row_identity t' \<Longrightarrow> table_ok t = table_ok t'"
proof -
  assume m: "map row_identity t = map row_identity t'"
  have ids: "map or_id u = map fst (map row_identity u)" for u by (simp add: row_identity_def)
  have keys: "(\<forall>r\<in>set u. \<forall>s\<in>set u. row_key r = row_key s \<longrightarrow> row_key r \<noteq> None \<longrightarrow> or_id r = or_id s)
      \<longleftrightarrow> (\<forall>x\<in>set (map row_identity u). \<forall>y\<in>set (map row_identity u). snd x = snd y \<longrightarrow> snd x \<noteq> None \<longrightarrow> fst x = fst y)" for u
    by (simp add: row_identity_def)
  show ?thesis unfolding table_ok_def ids_distinct_def ids [of t] ids [of t'] keys m ..
qed

lemma append_row_ok:
  assumes "table_ok t" "\<not> list_ex (row_conflicts row) t"
  shows "table_ok (t @ [row])"
proof -
  have c: "or_id r \<noteq> or_id row" "row_key r = row_key row \<longrightarrow> row_key r = None" if "r \<in> set t" for r
    using that assms(2) unfolding list_ex_iff row_conflicts_key by metis+
  have "ids_distinct (t @ [row])" using assms(1) c(1) [symmetric] by (auto simp: table_ok_def ids_distinct_def)
  moreover have "or_id r = or_id s" if "r \<in> set (t @ [row])" "s \<in> set (t @ [row])" "row_key r = row_key s" "row_key r \<noteq> None" for r s
  proof -
    note here = that
    have "r = row \<longleftrightarrow> s = row"
    proof (rule iffI)
      assume "r = row"
      then have "row_key s = row_key row" using that(3) [symmetric] by (simp only:)
      then show "s = row" using that(2,4) c(2) [of s] \<open>r = row\<close> by auto
    next
      assume "s = row"
      then have "row_key r = row_key row" using that(3) by simp
      then show "r = row" using that(1,4) c(2) [of r] by auto
    qed
    then consider "r = row" "s = row" | "r \<in> set t" "s \<in> set t" using here(1,2) by (cases "r = row") auto
    then show ?thesis
    proof cases
      case 2
      then show ?thesis using that(3,4) assms(1) unfolding table_ok_def by blast
    qed simp
  qed
  ultimately show ?thesis unfolding table_ok_def by blast
qed

lemma enqueue_ok: "table_ok t \<Longrightarrow> table_ok (snd (outbox_enqueue C I n q t))"
  using enqueue_result [of C I n q t] append_row_ok by auto

lemma steps_ok: "outbox_steps C I t t' \<Longrightarrow> table_ok t \<Longrightarrow> table_ok t'"
  by (induction rule: outbox_steps.induct)
    (auto simp: enqueue_ok table_ok_identity [OF marks_keep_identity(1)] table_ok_identity [OF marks_keep_identity(2)])

lemma steps_keep_rows: "outbox_steps C I t t' \<Longrightarrow> row_identity ` set t \<subseteq> row_identity ` set t'"
proof (induction rule: outbox_steps.induct)
  case (outbox_enq t' n q)
  then show ?case using enqueue_result [of C I n q t'] by auto
next
  case (outbox_quar t' now i reason)
  then show ?case using marks_keep_identity(1) [of now i reason t'] by (metis list.set_map)
next
  case (outbox_mark t' now i)
  then show ?case using marks_keep_identity(2) [of now i t'] by (metis list.set_map)
qed simp

text \<open>A keyed event is stored once. Once an event with an idempotency key was accepted, the table
  keeps it through any sequence of operations, and enqueueing again under the same owner, contract and
  key, whatever else the request says, stores nothing and returns the id of the first event (or is
  refused as invalid). Ids and keys of a table that had unique ones stay unique.\<close>

theorem keyed_event_stored_once:
  assumes "envelope_laws C I" "table_ok t" "outbox_enqueue C I n q t = (Inr i, t1)" "eq_idempotency_key q = Some key"
    and "outbox_steps C I t1 t2" and "eq_owner q' = eq_owner q" "eq_contract q' = eq_contract q" "eq_idempotency_key q' = Some key"
    and "outbox_enqueue C I n' q' t2 = (out, t3)"
  shows "table_ok t2 \<and> t3 = t2 \<and> (out = Inr i \<or> (\<exists>e. out = Inl e))"
proof -
  have "table_ok t1" using enqueue_ok [OF assms(2), of C I n q] assms(3) by simp
  then have ok: "table_ok t2" by (rule steps_ok [OF assms(5)])
  let ?k = "(eq_owner q, eq_contract q, key)"
  have "\<exists>r\<in>set t1. row_key r = Some ?k \<and> or_id r = i"
    using enqueued_decodes [OF assms(1,3)]
  proof (elim disjE exE conjE)
    fix row event e
    assume a: "t1 = t @ [row]" "or_id row = i" "event_from_row row = Some event" "envelope_from_row C I event = Some e"
      "ee_owner e = eq_owner q" "ee_contract e = eq_contract q" "ee_idempotency_key e = eq_idempotency_key q"
    have "oe_owner event = or_owner row \<and> oe_contract event = or_contract row \<and> oe_idempotency_key event = or_idempotency_key row"
      using a(3) by (auto simp: event_from_row_def split: json_column.splits option.splits if_splits)
    then have "row_key row = Some ?k" using envelope_fields [OF assms(1) a(4)] a(5-7) assms(4) by (auto simp: row_key_def)
    then show ?thesis using a(1,2) by simp
  qed (use assms(4) in \<open>auto simp: has_key_row_key\<close>)
  then have "(i, Some ?k) \<in> row_identity ` set t2" using steps_keep_rows [OF assms(5)] by (force simp: row_identity_def)
  then obtain r where r: "r \<in> set t2" "row_key r = Some ?k" "or_id r = i" by (auto simp: row_identity_def)
  have all: "or_id s = i" if "s \<in> set t2" "has_key (eq_owner q') (eq_contract q') key s" for s
  proof -
    have "row_key s = Some ?k" using that(2) assms(6,7) by (simp add: has_key_row_key)
    moreover have "row_key s = row_key r \<Longrightarrow> row_key s \<noteq> None \<Longrightarrow> or_id s = or_id r"
      using ok that(1) r(1) unfolding table_ok_def by blast
    ultimately show ?thesis using r(2,3) by simp
  qed
  show ?thesis
  proof (cases out)
    case (Inl e)
    then show ?thesis using ok assms(9) by (auto simp: outbox_enqueue_def Let_def split: sum.splits option.splits if_splits)
  next
    case (Inr j)
    from enqueued_decodes [OF assms(1) assms(9) [unfolded Inr]] show ?thesis
    proof (elim disjE exE conjE)
      fix row event e
      assume a: "t3 = t2 @ [row]" "event_from_row row = Some event" "envelope_from_row C I event = Some e"
        "ee_owner e = eq_owner q'" "ee_contract e = eq_contract q'" "ee_idempotency_key e = eq_idempotency_key q'"
      have "oe_owner event = or_owner row \<and> oe_contract event = or_contract row \<and> oe_idempotency_key event = or_idempotency_key row"
        using a(2) by (auto simp: event_from_row_def split: json_column.splits option.splits if_splits)
      then have "row_key row = Some ?k" using envelope_fields [OF assms(1) a(3)] a(4-6) assms(6-8) by (auto simp: row_key_def)
      moreover have "\<not> row_conflicts row r" using enqueue_result [of C I n' q' t2] assms(9) a(1) r(1) by (auto simp: list_ex_iff)
      ultimately show ?thesis using r(2) by (simp add: row_conflicts_key)
    qed (use ok all Inr assms(8) in auto)
  qed
qed

text \<open>What \<open>outbox_enqueue\<close> does to the table is what the dispatcher tolerates.\<close>

lemma enqueue_only_enqueues: "enqueued_only t (snd (outbox_enqueue C I n q t))"
  using enqueue_result [of C I n q t]
proof (elim disjE exE conjE)
  fix e assume a: "snd (outbox_enqueue C I n q t) = t @ [envelope_row C I e]" "\<not> list_ex (row_conflicts (envelope_row C I e)) t"
  then have "\<forall>r\<in>set t. or_id r \<noteq> or_id (envelope_row C I e)" by (auto simp: list_ex_iff row_conflicts_def)
  then show ?thesis unfolding a(1) enqueued_only_def
    by (intro exI [of _ "[envelope_row C I e]"]) (auto simp: ids_distinct_def row_pending_def envelope_row_def)
qed simp

subsection \<open>One dispatcher at a time\<close>

text \<open>The threads between a successful claim and its release, under any interleaving of the sections of
  \<open>SqliteDurableEvents\<close>. A section that has to wait, or is refused, leaves them as they are.\<close>

inductive durable_threads :: "durable_flags \<Rightarrow> nat list \<Rightarrow> bool" where
  threads_start: "durable_threads (durable_init after) []"
| threads_claim: "durable_threads f hs \<Longrightarrow> claim_dispatch me f = (Claimed, f') \<Longrightarrow> durable_threads f' (me # hs)"
| threads_recover: "durable_threads f hs \<Longrightarrow> recover_claim me f = (Claimed, f') \<Longrightarrow> durable_threads f' (me # hs)"
| threads_refused: "durable_threads f hs \<Longrightarrow> recover_claim me f = (Refused, f') \<Longrightarrow> durable_threads f' hs"
| threads_release: "durable_threads f hs \<Longrightarrow> me \<in> set hs \<Longrightarrow> durable_threads (release_dispatch f) (remove1 me hs)"
| threads_defer: "durable_threads f hs \<Longrightarrow> durable_threads (fst (defer_dispatch me f)) hs"
| threads_enable: "durable_threads f hs \<Longrightarrow> durable_threads (enable_live_dispatch f) hs"

lemma holder_matches:
  "durable_threads f hs \<Longrightarrow> (hs = [] \<and> \<not> dispatching f) \<or> (\<exists>t. hs = [t] \<and> dispatching f \<and> dispatch_thread f = Some t)"
proof (induction rule: durable_threads.induct)
  case (threads_recover f hs me f')
  then show ?case by (auto simp: recover_claim_def claim_dispatch_def other_dispatching_def split: if_splits)
next
  case (threads_refused f hs me f')
  then show ?case by (auto simp: recover_claim_def claim_dispatch_def other_dispatching_def split: if_splits)
qed (auto simp: durable_init_def claim_dispatch_def release_dispatch_def defer_dispatch_def enable_live_dispatch_def split: if_splits)

text \<open>At most one thread drains the outbox, and deferring stops it. Under any interleaving no two
  threads are between a claim and its release, and a claim by the holder itself, from within a handler,
  is refused instead of waiting for itself. When \<open>defer_dispatch\<close> returns without waiting, no other
  thread is draining, and no later claim succeeds until dispatch is enabled again.\<close>

theorem one_dispatcher:
  assumes "durable_threads f hs"
  shows "length hs \<le> 1
    \<and> (\<forall>me. me \<in> set hs \<longrightarrow> fst (claim_dispatch me f) = Refused)
    \<and> (\<forall>me other. defer_dispatch me f = (f', False) \<longrightarrow> set hs \<subseteq> {me} \<and> fst (claim_dispatch other f') \<noteq> Claimed)"
  using holder_matches [OF assms]
  by (auto simp: claim_dispatch_def defer_dispatch_def other_dispatching_def)

theorem one_dispatcher_witness:
  "durable_threads \<lparr>dispatch_after_enqueue = True, dispatching = True, dispatch_thread = Some 7\<rparr> [7]
   \<and> fst (claim_dispatch 7 \<lparr>dispatch_after_enqueue = True, dispatching = True, dispatch_thread = Some 7\<rparr>) = Refused"
proof -
  have "durable_threads \<lparr>dispatch_after_enqueue = True, dispatching = True, dispatch_thread = Some 7\<rparr> [7]"
    by (rule threads_claim [OF threads_start [of True]]) (simp add: claim_dispatch_def durable_init_def)
  then show ?thesis using one_dispatcher by simp
qed

subsection \<open>A small outbox\<close>

definition demo_env :: outbox_env where
  "demo_env = \<lparr>uid_at = (\<lambda>n. replicate n CHR ''u''), now_at = int,
     iso_format = (\<lambda>t. if t < 0 then CHR ''-'' # replicate (nat (- t)) CHR ''1'' else replicate (nat t) CHR ''1''),
     iso_parse = (\<lambda>s. case s of [] \<Rightarrow> Some 0 | c # s' \<Rightarrow> if c = CHR ''-'' then Some (- int (length s')) else Some (int (length s)))\<rparr>"

lemma demo_laws: "envelope_laws demo_contracts demo_env"
proof -
  have "iso_parse demo_env (iso_format demo_env t) = Some t" for t
    by (cases "t < 0"; cases "nat t") (auto simp: demo_env_def)
  moreover have "CHR ''Z'' \<notin> set (iso_format demo_env t)" for t by (auto simp: demo_env_def)
  ultimately show ?thesis by (auto simp: envelope_laws_def demo_contracts_def split: if_splits)
qed

lemma demo_enqueue: "\<exists>row. outbox_enqueue demo_contracts demo_env 3 (demo_event (Some ''k'')) [] = (Inr ''uuu'', [row])"
proof -
  have "envelope_from_row demo_contracts demo_env r \<noteq> None"
    if "oe_scope_json r = dump_scope demo_contracts (Some (VDict None []))" "oe_resource_json r = ColNull" "oe_created_at r = iso_format demo_env 3" for r
    using parse_stamp [OF demo_laws, of 3] that
    by (simp add: envelope_from_row_def load_scope_def load_resource_def dump_scope_def demo_contracts_def as_mapping_def)
  then obtain e where e: "envelope_from_row demo_contracts demo_env
      \<lparr>oe_id = ''uuu'', oe_owner = ''a'', oe_contract = ''a.b'', oe_version = ''1.0.0'', oe_payload = VDict None [],
       oe_idempotency_key = Some ''k'', oe_created_at = iso_format demo_env 3, oe_scope_json = dump_scope demo_contracts (Some (VDict None [])),
       oe_resource_json = ColNull, oe_correlation_id = None\<rparr> = Some e" by fastforce
  have u: "uid_at demo_env 3 = ''uuu''" "now_at demo_env 3 = 3" "installation_scope demo_contracts = VDict None []"
    by (simp_all add: demo_env_def demo_contracts_def numeral_3_eq_3)
  have "ee_id e = ''uuu'' \<and> ee_payload e = VDict None []" using envelope_fields [OF demo_laws e] by auto
  then show ?thesis using e u by (simp add: outbox_enqueue_def demo_event_def demo_snapshot dump_resource_def Let_def)
qed

theorem enqueued_event_decodes_witness:
  "\<exists>row event e. outbox_enqueue demo_contracts demo_env 3 (demo_event (Some ''k'')) [] = (Inr ''uuu'', [row])
    \<and> deliverable demo_contracts demo_env row \<and> event_from_row row = Some event
    \<and> envelope_from_row demo_contracts demo_env event = Some e \<and> ee_owner e = ''a''"
proof -
  obtain row where r: "outbox_enqueue demo_contracts demo_env 3 (demo_event (Some ''k'')) [] = (Inr ''uuu'', [row])" using demo_enqueue by blast
  have o: "eq_owner (demo_event (Some ''k'')) = ''a''" by (simp add: demo_event_def)
  from enqueued_event_decodes [OF demo_laws r] show ?thesis using r unfolding o by (elim disjE exE conjE) auto
qed

theorem keyed_event_stored_once_witness:
  "\<exists>t1. outbox_enqueue demo_contracts demo_env 3 (demo_event (Some ''k'')) [] = (Inr ''uuu'', t1) \<and> table_ok t1
    \<and> snd (outbox_enqueue demo_contracts demo_env 4 (demo_event (Some ''k'')) t1) = t1"
proof -
  obtain row where r: "outbox_enqueue demo_contracts demo_env 3 (demo_event (Some ''k'')) [] = (Inr ''uuu'', [row])" using demo_enqueue by blast
  have k: "eq_idempotency_key (demo_event (Some ''k'')) = Some ''k''" by (simp add: demo_event_def)
  have ok: "table_ok []" by (simp add: table_ok_def ids_distinct_def)
  obtain out t3 where o: "outbox_enqueue demo_contracts demo_env 4 (demo_event (Some ''k'')) [row] = (out, t3)"
    by (cases "outbox_enqueue demo_contracts demo_env 4 (demo_event (Some ''k'')) [row]")
  from keyed_event_stored_once [OF demo_laws ok r k outbox_refl refl refl k o] show ?thesis using r o by auto
qed

definition broken_row :: outbox_row where
  "broken_row = \<lparr>or_id = ''x'', or_owner = ''a'', or_contract = ''a.b'', or_version = ''1.0.0'', or_payload_json = ColText None,
     or_idempotency_key = None, or_created_at = ''1'', or_dispatched_at = None, or_scope_json = ColNull, or_resource_json = ColNull,
     or_correlation_id = None, or_quarantined_at = None, or_quarantine_reason = None\<rparr>"

text \<open>A handler that accepts a further event.\<close>

definition chain_run :: "(nat, nat, unit) handler_run" where
  "chain_run h p st = (True, put_rows (snd (outbox_enqueue demo_contracts demo_env 3 (demo_event None) (rows_of st))) st)"

lemma chain_run_enqueues: "handlers_only_enqueue chain_run"
  by (simp add: handlers_only_enqueue_def chain_run_def enqueue_only_enqueues)

theorem dispatch_settles_oldest_first_witness:
  "\<exists>st'. outbox_dispatch demo_packaging demo_contracts demo_env chain_run 10 0 (demo_bus, [broken_row], ()) = (Inr (0, 1), st')
    \<and> dispatched_rows (rows_of st') = 0 \<and> (\<exists>r'. settled demo_contracts demo_env broken_row r' \<and> r' \<in> set (rows_of st'))"
proof -
  let ?st = "(demo_bus, [broken_row], ()) :: (nat, nat, unit) outbox_state"
  obtain st' where o: "outbox_dispatch demo_packaging demo_contracts demo_env chain_run 10 0 ?st = (Inr (0, 1), st')"
  proof -
    have b: "event_from_row broken_row = None" "row_pending broken_row" "or_id broken_row = ''x''"
      by (simp_all add: event_from_row_def broken_row_def row_pending_def)
    then have "\<exists>st'. outbox_dispatch demo_packaging demo_contracts demo_env chain_run 10 0 ?st = (Inr (0, 1), st')"
      using reasons_ok
      by (simp add: outbox_dispatch_def limit_ok_def dispatch_loop.simps pending_rows_def dispatch_row_def quarantine_row_def
          outbox_quarantine_def rowcount_def update_pending_def Let_def put_rows_def) (simp add: row_pending_def)
    then show thesis using that by blast
  qed
  have i: "ids_distinct (rows_of ?st)" "limit_ok 10" by (simp_all add: ids_distinct_def limit_ok_def)
  have w: "waiting (rows_of ?st) = [broken_row]" by (simp add: waiting_def row_pending_def broken_row_def)
  from dispatch_settles_oldest_first [OF chain_run_enqueues i o, unfolded w] obtain k old new where k: "k \<le> length [broken_row]"
    "rows_of st' = old @ new"
    "list_all2 (\<lambda>r r'. if r \<in> set (take k [broken_row]) then settled demo_contracts demo_env r r' else r' = r) (rows_of ?st) old"
    "dispatched_rows (rows_of st') = dispatched_rows (rows_of ?st) + 0" "(0 :: nat) = 10 \<or> k = length [broken_row]"
    by (elim exE conjE) simp
  then have "\<exists>r'. old = [r'] \<and> settled demo_contracts demo_env broken_row r'" by (auto simp: list_all2_Cons1)
  moreover have "dispatched_rows (rows_of ?st) = 0" by (simp add: dispatched_rows_def broken_row_def)
  ultimately show ?thesis using o k(2,4) by auto
qed

end
