(* ===== verification/Migrations.thy ===== *)
theory Migrations
  imports Py_Json Py_Regex
begin

text \<open>
  \<open>migrations.py\<close>: the scanner that erases literals and comments from a statement, the static check of a
  statement, the SQLite authorizer, and the runner that applies a batch in one transaction and keeps
  the ledger. The SQLite engine, the hash and the clock are parameters.
\<close>

subsection \<open>The scanner\<close>

definition spaces :: "nat \<Rightarrow> string" where "spaces n = replicate n CHR '' ''"

text \<open>The text after the comment, at the given nesting depth.\<close>

fun skip_comment :: "nat \<Rightarrow> string \<Rightarrow> string option" where
  "skip_comment 0 s = Some s"
| "skip_comment (Suc d) [] = None"
| "skip_comment (Suc d) [c] = None"
| "skip_comment (Suc d) (c # e # s) =
     (if c = CHR ''/'' \<and> e = CHR ''*'' then skip_comment (Suc (Suc d)) s
      else if c = CHR ''*'' \<and> e = CHR ''/'' then skip_comment d s
      else skip_comment (Suc d) (e # s))"

fun skip_quote :: "char \<Rightarrow> string \<Rightarrow> string option" where
  "skip_quote q [] = None"
| "skip_quote q [c] = (if c = q then Some [] else None)"
| "skip_quote q (c # e # s) =
     (if c = q then (if e = q then skip_quote q s else Some (e # s))
      else if c = CHR 0x5C then skip_quote q s
      else skip_quote q (e # s))"

text \<open>\<open>find\<close>: the text after the first occurrence.\<close>

fun drop_past :: "string \<Rightarrow> string \<Rightarrow> string option" where
  "drop_past d [] = (if d = [] then Some [] else None)"
| "drop_past d (c # s) = (if starts_with (c # s) d then Some (drop (length d) (c # s)) else drop_past d s)"

definition ident_start :: "char \<Rightarrow> bool" where
  "ident_start c \<longleftrightarrow> (let n = (of_char c :: nat) in (65 \<le> n \<and> n \<le> 90) \<or> (97 \<le> n \<and> n \<le> 122) \<or> n = 95)"

definition ascii_digit :: "char \<Rightarrow> bool" where
  "ascii_digit c \<longleftrightarrow> (let n = (of_char c :: nat) in 48 \<le> n \<and> n \<le> 57)"

text \<open>The match of the dollar delimiter, at a dollar sign.\<close>

definition dollar_delimiter :: "string \<Rightarrow> string option" where
  "dollar_delimiter s =
     (let name = takeWhile (\<lambda>c. ident_start c \<or> ascii_digit c) (tl s); after = drop (length name) (tl s) in
      if (name = [] \<or> ident_start (hd name)) \<and> after \<noteq> [] \<and> hd after = CHR ''$'' then Some (CHR ''$'' # name @ ''$'') else None)"

datatype scan_error = UnterminatedComment | UnterminatedQuote | UnterminatedIdentifier | UnterminatedDollarQuote

lemma skip_comment_shorter: "skip_comment d s = Some t \<Longrightarrow> length t \<le> length s"
  by (induction d s rule: skip_comment.induct) (auto split: if_splits)

lemma skip_quote_shorter: "skip_quote q s = Some t \<Longrightarrow> length t \<le> length s"
  by (induction q s rule: skip_quote.induct) (auto split: if_splits)

lemma drop_past_shorter: "drop_past d s = Some t \<Longrightarrow> length t \<le> length s"
  by (induction d s rule: drop_past.induct) (auto split: if_splits)

text \<open>One round of the loop of \<open>_erase_sql_literals_and_comments\<close>: what is left after the construct at the
  head of the text, and whether that construct is erased.\<close>

definition scan_step :: "char \<Rightarrow> string \<Rightarrow> scan_error + bool \<times> string" where
  "scan_step c s =
     (if starts_with (c # s) ''--'' then Inr (True, dropWhile (\<lambda>e. e \<noteq> CHR 0x0A) s)
      else if starts_with (c # s) ''/*'' then
        (case skip_comment 1 (tl s) of None \<Rightarrow> Inl UnterminatedComment | Some rest \<Rightarrow> Inr (True, rest))
      else if c = CHR 0x27 \<or> c = CHR 0x22 \<or> c = CHR 0x60 then
        (case skip_quote c s of None \<Rightarrow> Inl UnterminatedQuote | Some rest \<Rightarrow> Inr (True, rest))
      else if c = CHR ''['' then
        (case drop_past '']'' s of None \<Rightarrow> Inl UnterminatedIdentifier | Some rest \<Rightarrow> Inr (True, rest))
      else case (if c = CHR ''$'' then dollar_delimiter (c # s) else None) of
        Some delimiter \<Rightarrow>
          (case drop_past delimiter (drop (length delimiter) (c # s)) of
             None \<Rightarrow> Inl UnterminatedDollarQuote | Some rest \<Rightarrow> Inr (True, rest))
      | None \<Rightarrow> Inr (False, s))"

lemma scan_step_shorter: "scan_step c s = Inr (b, rest) \<Longrightarrow> length rest \<le> length s"
proof -
  have "length t \<le> length s" if "drop_past delimiter (drop (length delimiter) (c # s)) = Some t" "dollar_delimiter (c # s) = Some delimiter"
    for t delimiter
    using that drop_past_shorter [of delimiter "drop (length delimiter) (c # s)" t]
    by (auto simp: dollar_delimiter_def Let_def split: if_splits)
  then show "scan_step c s = Inr (b, rest) \<Longrightarrow> length rest \<le> length s"
    by (auto simp: scan_step_def length_dropWhile_le split: if_splits option.splits
        dest!: skip_comment_shorter skip_quote_shorter drop_past_shorter)
qed

function erase_sql :: "string \<Rightarrow> scan_error + string" where
  "erase_sql [] = Inr []"
| "erase_sql (c # s) =
     (case scan_step c s of
        Inl e \<Rightarrow> Inl e
      | Inr (erased, rest) \<Rightarrow>
          (case erase_sql rest of
             Inl e \<Rightarrow> Inl e
           | Inr out \<Rightarrow> Inr ((if erased then spaces (length (c # s) - length rest) else [c]) @ out)))"
  by pat_completeness auto
termination
  by (relation "measure length") (auto dest!: scan_step_shorter)

subsection \<open>The static check of a statement\<close>

datatype migration_error =
    MigrationValueError string
  | MigrationScanError scan_error
  | MigrationLockError string
  | MigrationChecksumError string string
  | MigrationStateError string string
  | MigrationApplyError string string bool
  | MigrationError string
  | MigrationDriverError string

definition TRANSACTION_CONTROL_KEYWORDS :: "string list" where
  "TRANSACTION_CONTROL_KEYWORDS = [''BEGIN'', ''COMMIT'', ''END'', ''ROLLBACK'', ''SAVEPOINT'', ''RELEASE'']"

definition FORBIDDEN_MIGRATION_KEYWORDS :: "string list" where
  "FORBIDDEN_MIGRATION_KEYWORDS = [''ATTACH'', ''DETACH'', ''PRAGMA'', ''VACUUM'']"

definition ascii_upper :: "char \<Rightarrow> char" where
  "ascii_upper c = (let n = (of_char c :: nat) in if 97 \<le> n \<and> n \<le> 122 then char_of (n - 32) else c)"

definition ascii_lower :: "char \<Rightarrow> char" where
  "ascii_lower c = (let n = (of_char c :: nat) in if 65 \<le> n \<and> n \<le> 90 then char_of (n + 32) else c)"

text \<open>\<open>re.search(r"[A-Za-z_][A-Za-z0-9_$]*")\<close>\<close>

definition first_token :: "string \<Rightarrow> string" where
  "first_token s = takeWhile (\<lambda>c. ident_start c \<or> ascii_digit c \<or> c = CHR ''$'') (dropWhile (\<lambda>c. \<not> ident_start c) s)"

text \<open>The word characters of \<open>re\<close> below code point 256.\<close>

definition word_char :: "char \<Rightarrow> bool" where
  "word_char c \<longleftrightarrow> ident_start c \<or> ascii_digit c \<or>
     (let n = (of_char c :: nat) in n \<in> set [170, 178, 179, 181, 185, 186, 188, 189, 190] \<or> (192 \<le> n \<and> n \<noteq> 215 \<and> n \<noteq> 247))"

text \<open>\<open>re.search(r"\bload_extension\s*\(", flags=IGNORECASE)\<close>; the flag says whether the previous
  character is a word character.\<close>

fun calls_load_extension :: "bool \<Rightarrow> string \<Rightarrow> bool" where
  "calls_load_extension inside [] = False"
| "calls_load_extension inside (c # s) =
     ((\<not> inside \<and> starts_with (map ascii_lower (c # s)) ''load_extension''
       \<and> starts_with (dropWhile py_space (drop 14 (c # s))) ''('')
      \<or> calls_load_extension (word_char c) s)"

definition one_command :: "string \<Rightarrow> bool" where
  "one_command executable \<longleftrightarrow> CHR '';'' \<notin> set (butlast executable)"

definition validate_statement_boundary :: "string \<Rightarrow> migration_error + unit" where
  "validate_statement_boundary statement =
     (case erase_sql statement of Inl e \<Rightarrow> Inl (MigrationScanError e) | Inr erased \<Rightarrow>
      let executable = py_strip erased; keyword = map ascii_upper (first_token executable) in
      if executable = [] then Inl (MigrationValueError ''migration statement contains no executable SQL'')
      else if \<not> one_command executable then Inl (MigrationValueError ''migration statements must contain exactly one SQL command'')
      else if List.member TRANSACTION_CONTROL_KEYWORDS keyword then Inl (MigrationValueError ''migration may not control its transaction'')
      else if List.member FORBIDDEN_MIGRATION_KEYWORDS keyword then Inl (MigrationValueError (''migration command is not allowed: '' @ keyword))
      else if calls_load_extension False executable then Inl (MigrationValueError ''migration may not load SQLite extensions'')
      else Inr ())"

subsection \<open>Migrations\<close>

record migration =
  mg_owner :: string
  mg_version :: string
  mg_statements :: "string list"
  mg_checksum :: string

definition VERSION_PATTERN :: rx where
  "VERSION_PATTERN = Seq (Cls [digit, upper, lower] 1 (Some 1))
     (Cls [digit, upper, lower, single CHR ''.'', single CHR ''_'', single CHR ''-''] 0 None)"

fun validate_statements :: "string list \<Rightarrow> migration_error + unit" where
  "validate_statements [] = Inr ()"
| "validate_statements (statement # statements) =
     (if py_strip statement = [] then Inl (MigrationValueError ''migration statements must be non-empty strings'')
      else case validate_statement_boundary statement of Inl e \<Rightarrow> Inl e | Inr _ \<Rightarrow> validate_statements statements)"

text \<open>\<open>sha256\<close> of the UTF-8 encoding is the parameter \<open>H\<close>, on the text.\<close>

definition statements_checksum :: "(string \<Rightarrow> string) \<Rightarrow> string list \<Rightarrow> string" where
  "statements_checksum H statements = H (json_dumps (VList None (map VStr statements)))"

definition make_migration :: "(string \<Rightarrow> string) \<Rightarrow> string \<Rightarrow> string \<Rightarrow> string list \<Rightarrow> migration_error + migration" where
  "make_migration H owner version statements =
     (if \<not> fullmatch owner_pattern owner then Inl (MigrationValueError (''invalid migration owner: '' @ owner))
      else if \<not> fullmatch VERSION_PATTERN version then Inl (MigrationValueError (''invalid migration version: '' @ version))
      else if statements = [] then Inl (MigrationValueError ''migration requires at least one SQL statement'')
      else case validate_statements statements of Inl e \<Rightarrow> Inl e | Inr _ \<Rightarrow>
        Inr \<lparr>mg_owner = owner, mg_version = version, mg_statements = statements,
             mg_checksum = statements_checksum H statements\<rparr>)"

definition mg_key :: "migration \<Rightarrow> string \<times> string" where "mg_key m = (mg_owner m, mg_version m)"

subsection \<open>The authorizer\<close>

text \<open>The action codes that \<open>_sqlite_migration_authorizer\<close> tells apart, and its two verdicts.\<close>

datatype sqlite_action =
    SQLITE_ATTACH | SQLITE_DETACH | SQLITE_PRAGMA | SQLITE_TRANSACTION | SQLITE_SAVEPOINT
  | SQLITE_CREATE_VTABLE | SQLITE_DROP_VTABLE | SQLITE_FUNCTION | OtherAction nat

datatype sqlite_verdict = SQLITE_DENY | SQLITE_OK

definition LEDGER_TABLE :: string where "LEDGER_TABLE = ''plaik_migration_ledger''"
definition LOCK_TABLE :: string where "LOCK_TABLE = ''plaik_migration_lock''"

type_synonym sqlite_authorizer = "sqlite_action \<Rightarrow> string option \<Rightarrow> string option \<Rightarrow> string option \<Rightarrow> sqlite_verdict"

definition is_load_extension :: "string option \<Rightarrow> bool" where
  "is_load_extension a = (case a of None \<Rightarrow> False | Some s \<Rightarrow> casefold s = ''load_extension'')"

definition sqlite_migration_authorizer :: sqlite_authorizer where
  "sqlite_migration_authorizer action argument_one argument_two database_name =
     (if action = SQLITE_ATTACH \<or> action = SQLITE_DETACH \<or> action = SQLITE_PRAGMA \<or> action = SQLITE_TRANSACTION
         \<or> action = SQLITE_CREATE_VTABLE \<or> action = SQLITE_DROP_VTABLE \<or> action = SQLITE_SAVEPOINT then SQLITE_DENY
      else if \<not> (database_name = None \<or> database_name = Some ''main'') then SQLITE_DENY
      else if argument_one = Some LEDGER_TABLE \<or> argument_one = Some LOCK_TABLE then SQLITE_DENY
      else if action = SQLITE_FUNCTION \<and> (is_load_extension argument_one \<or> is_load_extension argument_two) then SQLITE_DENY
      else SQLITE_OK)"

subsection \<open>The database\<close>

datatype migration_status = APPLYING | APPLIED | FAILED

record ledger_entry =
  le_checksum :: string
  le_status :: migration_status
  le_started_at :: string
  le_finished_at :: "string option"
  le_error :: "string option"

type_synonym ledger = "(string \<times> string, ledger_entry) dict"

record 'd database =
  ledger :: ledger
  lock_holder :: "string option"
  content :: 'd

text \<open>An exception of the driver: its class, its text and \<open>sqlite_errorname\<close>.\<close>

record driver_error =
  de_name :: string
  de_message :: string
  de_code :: "string option"

fun has_substring :: "string \<Rightarrow> string \<Rightarrow> bool" where
  "has_substring p [] = (p = [])"
| "has_substring p (c # s) = (starts_with (c # s) p \<or> has_substring p s)"

definition is_lock_error :: "driver_error \<Rightarrow> bool" where
  "is_lock_error e \<longleftrightarrow> (let message = map ascii_lower (de_message e) in has_substring ''locked'' message \<or> has_substring ''busy'' message)"

definition safe_error :: "driver_error \<Rightarrow> string" where
  "safe_error e = (case de_code e of None \<Rightarrow> de_name e
     | Some code \<Rightarrow> if code = [] then de_name e else de_name e @ '' ('' @ code @ '')'')"

text \<open>
  What the engine does: the effect of a statement under an authorizer, on the whole database; and what
  it reports for the fixed statements of one run of the runner (no value: it succeeds).
\<close>

type_synonym 'd engine = "sqlite_authorizer \<Rightarrow> string \<Rightarrow> 'd database \<Rightarrow> driver_error + 'd database"

record driver_run =
  schema_fails :: "driver_error option"
  begin_fails :: "driver_error option"
  commit_fails :: "driver_error option"
  evidence_fails :: "driver_error option"
  times :: "nat \<Rightarrow> string"
  holder :: string

subsection \<open>The runner\<close>

definition mark_applying :: "migration \<Rightarrow> string \<Rightarrow> 'd database \<Rightarrow> 'd database" where
  "mark_applying m started_at db =
     db\<lparr>ledger :=
       (case map_of (ledger db) (mg_key m) of
          None \<Rightarrow> AList.update (mg_key m) \<lparr>le_checksum = mg_checksum m, le_status = APPLYING, le_started_at = started_at,
                    le_finished_at = None, le_error = None\<rparr> (ledger db)
        | Some e \<Rightarrow> AList.update (mg_key m) (e\<lparr>le_status := APPLYING, le_started_at := started_at, le_finished_at := None,
                    le_error := None\<rparr>) (ledger db))\<rparr>"

definition ledger_mark_applied :: "migration \<Rightarrow> string \<Rightarrow> 'd database \<Rightarrow> 'd database" where
  "ledger_mark_applied m finished_at db =
     db\<lparr>ledger :=
       (case map_of (ledger db) (mg_key m) of
          None \<Rightarrow> ledger db
        | Some e \<Rightarrow> AList.update (mg_key m) (e\<lparr>le_status := APPLIED, le_finished_at := Some finished_at, le_error := None\<rparr>)
                     (ledger db))\<rparr>"

fun execute_statements :: "'d engine \<Rightarrow> string list \<Rightarrow> 'd database \<Rightarrow> driver_error + 'd database" where
  "execute_statements exec [] db = Inr db"
| "execute_statements exec (statement # statements) db =
     (case exec sqlite_migration_authorizer statement db of Inl e \<Rightarrow> Inl e | Inr db' \<Rightarrow> execute_statements exec statements db')"

text \<open>How the loop over the batch ends when it raises: with an error of the runner itself, or with one
  of the driver while \<open>current\<close>, started at the given time, was handled.\<close>

datatype batch_failure = RunnerFailure migration_error | DriverFailure migration string driver_error

record batch_progress =
  bp_applied :: "(string \<times> string) list"
  bp_skipped :: "(string \<times> string) list"
  bp_current :: "migration option"
  bp_started :: "string option"
  bp_clock :: nat

fun apply_batch ::
  "'d engine \<Rightarrow> (nat \<Rightarrow> string) \<Rightarrow> migration list \<Rightarrow> batch_progress \<Rightarrow> 'd database \<Rightarrow> batch_failure + batch_progress \<times> 'd database" where
  "apply_batch exec clock [] p db = Inr (p, db)"
| "apply_batch exec clock (m # batch) p db =
     (let existing = map_of (ledger db) (mg_key m);
          p = p\<lparr>bp_current := Some m\<rparr>;
          apply_it =
            (let started = clock (bp_clock p) in
             case execute_statements exec (mg_statements m) (mark_applying m started db) of
               Inl e \<Rightarrow> Inl (DriverFailure m started e)
             | Inr db' \<Rightarrow> Inr (p\<lparr>bp_applied := bp_applied p @ [mg_key m], bp_started := Some started, bp_clock := bp_clock p + 2\<rparr>,
                               ledger_mark_applied m (clock (bp_clock p + 1)) db'))
      in case (case existing of
           None \<Rightarrow> apply_it
         | Some e \<Rightarrow>
             if le_checksum e \<noteq> mg_checksum m then Inl (RunnerFailure (MigrationChecksumError (mg_owner m) (mg_version m)))
             else if le_status e = APPLIED then Inr (p\<lparr>bp_skipped := bp_skipped p @ [mg_key m]\<rparr>, db)
             else if le_status e = APPLYING then Inl (RunnerFailure (MigrationStateError (mg_owner m) (mg_version m)))
             else apply_it) of
           Inl f \<Rightarrow> Inl f
         | Inr (p', db') \<Rightarrow> apply_batch exec clock batch p' db')"

definition record_failure ::
  "driver_run \<Rightarrow> migration \<Rightarrow> string \<Rightarrow> string \<Rightarrow> driver_error \<Rightarrow> 'd database \<Rightarrow> bool \<times> 'd database" where
  "record_failure r m started_at finished_at error db =
     (if evidence_fails r \<noteq> None then (False, db)
      else case map_of (ledger db) (mg_key m) of
        Some e \<Rightarrow>
          if le_status e = APPLIED then (False, db)
          else (True, db\<lparr>ledger := AList.update (mg_key m) \<lparr>le_checksum = mg_checksum m, le_status = FAILED, le_started_at = started_at,
                  le_finished_at = Some finished_at, le_error = Some (safe_error error)\<rparr> (ledger db), lock_holder := None\<rparr>)
      | None \<Rightarrow>
          (True, db\<lparr>ledger := AList.update (mg_key m) \<lparr>le_checksum = mg_checksum m, le_status = FAILED, le_started_at = started_at,
             le_finished_at = Some finished_at, le_error = Some (safe_error error)\<rparr> (ledger db), lock_holder := None\<rparr>))"

record migration_result =
  mr_applied :: "(string \<times> string) list"
  mr_skipped :: "(string \<times> string) list"

definition validate_batch :: "migration list \<Rightarrow> migration_error + unit" where
  "validate_batch batch =
     (if distinct (map mg_key batch) then Inr ()
      else Inl (MigrationValueError ''migration batch contains duplicate owner/version keys''))"

definition failed_with :: "driver_run \<Rightarrow> migration \<Rightarrow> string \<Rightarrow> nat \<Rightarrow> driver_error \<Rightarrow> 'd database \<Rightarrow>
    (migration_error + migration_result) \<times> 'd database" where
  "failed_with r m started n e db =
     (case record_failure r m started (times r n) e db of
        (evidence, db') \<Rightarrow> (Inl (MigrationApplyError (mg_owner m) (mg_version m) evidence), db'))"

text \<open>
  \<open>MigrationRunner.apply\<close> on a database whose schema exists. A rollback gives back the database of
  the beginning of the transaction.
\<close>

definition apply_migrations ::
  "'d engine \<Rightarrow> driver_run \<Rightarrow> migration list \<Rightarrow> 'd database \<Rightarrow> (migration_error + migration_result) \<times> 'd database" where
  "apply_migrations exec r batch db =
     (case validate_batch batch of Inl e \<Rightarrow> (Inl e, db) | Inr _ \<Rightarrow>
      case schema_fails r of
        Some e \<Rightarrow> (Inl (if is_lock_error e then MigrationLockError ''migration database is locked'' else MigrationDriverError (de_name e)), db)
      | None \<Rightarrow>
      case begin_fails r of
        Some e \<Rightarrow> (Inl (if is_lock_error e then MigrationLockError ''migration lock is already held'' else MigrationDriverError (de_name e)), db)
      | None \<Rightarrow>
      if lock_holder db \<noteq> None then (Inl (MigrationLockError ''migration lock is already held''), db)
      else
        let p0 = \<lparr>bp_applied = [], bp_skipped = [], bp_current = None, bp_started = None, bp_clock = 1\<rparr> in
        case apply_batch exec (times r) batch p0 (db\<lparr>lock_holder := Some (holder r)\<rparr>) of
          Inl (RunnerFailure e) \<Rightarrow> (Inl e, db)
        | Inl (DriverFailure m started e) \<Rightarrow> failed_with r m started 0 e db
        | Inr (p, db') \<Rightarrow>
            (case commit_fails r of
               None \<Rightarrow> (Inr \<lparr>mr_applied = bp_applied p, mr_skipped = bp_skipped p\<rparr>,
                 db'\<lparr>lock_holder := (if lock_holder db' = Some (holder r) then None else lock_holder db')\<rparr>)
             | Some e \<Rightarrow>
                 (case bp_current p of
                    None \<Rightarrow> (Inl (MigrationError ''migration batch failed before applying a step''), db)
                  | Some m \<Rightarrow> failed_with r m (case bp_started p of None \<Rightarrow> times r (bp_clock p) | Some t \<Rightarrow> t)
                                (bp_clock p + 1) e db)))"

definition ledger_entries :: "'d database \<Rightarrow> ((string \<times> string) \<times> ledger_entry) list" where
  "ledger_entries db = dict_sorted (ledger db)"

end
