(* ===== verification/Migrations_Safety.thy ===== *)
theory Migrations_Safety
  imports Migrations
begin

text \<open>
  What the migration runner guarantees: a batch is applied as a whole or not at all, in order and each
  migration once; an applied migration is final; and an accepted statement is one command by the
  lexical rules of SQLite, as long as it stays clear of three constructs that those rules read differently.
\<close>

subsection \<open>Statements confined to the content\<close>

text \<open>
  What the authorizer is for: a statement that succeeds, or fails, does so by the content alone and
  leaves the ledger and the lock as they are. \<open>f\<close> is the effect on the content.
\<close>

definition sandboxed :: "'d engine \<Rightarrow> (string \<Rightarrow> 'd \<Rightarrow> driver_error + 'd) \<Rightarrow> bool" where
  "sandboxed exec f \<longleftrightarrow>
     (\<forall>s db. exec sqlite_migration_authorizer s db = map_sum id (\<lambda>c. db\<lparr>content := c\<rparr>) (f s (content db)))"

fun run_content :: "(string \<Rightarrow> 'd \<Rightarrow> driver_error + 'd) \<Rightarrow> string list \<Rightarrow> 'd \<Rightarrow> driver_error + 'd" where
  "run_content f [] c = Inr c"
| "run_content f (s # ss) c = (case f s c of Inl e \<Rightarrow> Inl e | Inr c' \<Rightarrow> run_content f ss c')"

lemma map_sum_eq [simp]:
  "map_sum id g x = Inr y \<longleftrightarrow> (\<exists>z. x = Inr z \<and> y = g z)" "map_sum id g x = Inl e \<longleftrightarrow> x = Inl e"
  by (cases x; auto)+

lemma run_content_append:
  "run_content f (a @ b) c = (case run_content f a c of Inl e \<Rightarrow> Inl e | Inr c' \<Rightarrow> run_content f b c')"
  by (induction a arbitrary: c) (auto split: sum.split)

lemma execute_statements_content:
  "sandboxed exec f \<Longrightarrow> execute_statements exec ss db = map_sum id (\<lambda>c. db\<lparr>content := c\<rparr>) (run_content f ss (content db))"
  by (induction ss arbitrary: db) (auto simp: sandboxed_def split: sum.split)

definition applied_as :: "'d database \<Rightarrow> migration \<Rightarrow> bool" where
  "applied_as db m \<longleftrightarrow> (\<exists>e. map_of (ledger db) (mg_key m) = Some e \<and> le_status e = APPLIED \<and> le_checksum e = mg_checksum m)"

text \<open>The migrations of a batch that a run has to execute.\<close>

definition outstanding :: "'d database \<Rightarrow> migration list \<Rightarrow> migration list" where
  "outstanding db batch = filter (\<lambda>m. \<not> applied_as db m) batch"

definition batch_statements :: "migration list \<Rightarrow> string list" where
  "batch_statements ms = concat (map mg_statements ms)"

subsection \<open>One migration\<close>

text \<open>The body of the loop for one migration, as the loop runs it.\<close>

lemma apply_one:
  assumes "sandboxed exec f" "apply_batch exec clock [m] p db = Inr (p', db')"
  shows "applied_as db' m \<and> lock_holder db' = lock_holder db
    \<and> (\<forall>k. k \<noteq> mg_key m \<longrightarrow> map_of (ledger db') k = map_of (ledger db) k)
    \<and> (if applied_as db m
       then db' = db \<and> bp_applied p' = bp_applied p \<and> bp_skipped p' = bp_skipped p @ [mg_key m]
       else run_content f (mg_statements m) (content db) = Inr (content db')
         \<and> bp_applied p' = bp_applied p @ [mg_key m] \<and> bp_skipped p' = bp_skipped p
         \<and> (\<forall>e. map_of (ledger db) (mg_key m) = Some e \<longrightarrow> le_status e = FAILED \<and> le_checksum e = mg_checksum m))"
proof (cases "map_of (ledger db) (mg_key m)")
  case None
  then have "\<not> applied_as db m" by (simp add: applied_as_def)
  then show ?thesis using None assms(2)
    by (auto simp: execute_statements_content [OF assms(1)] mark_applying_def ledger_mark_applied_def applied_as_def map_of_update Let_def
        split: sum.splits)
next
  case (Some e)
  show ?thesis
  proof (cases "le_status e")
    case APPLIED
    then show ?thesis using Some assms(2) by (auto simp: applied_as_def Let_def split: if_splits)
  next
    case FAILED
    then have "\<not> applied_as db m" using Some by (simp add: applied_as_def)
    then show ?thesis using Some FAILED assms(2)
      by (auto simp: execute_statements_content [OF assms(1)] mark_applying_def ledger_mark_applied_def applied_as_def map_of_update Let_def
          split: sum.splits if_splits)
  qed (use Some assms(2) in \<open>simp add: Let_def split: if_splits\<close>)
qed

lemma apply_batch_Cons:
  "apply_batch exec clock (m # batch) p db =
     (case apply_batch exec clock [m] p db of Inl e \<Rightarrow> Inl e | Inr (p', db') \<Rightarrow> apply_batch exec clock batch p' db')"
  by (auto simp: Let_def split: sum.split option.split)

lemma outstanding_cong:
  assumes "\<And>m. m \<in> set ms \<Longrightarrow> map_of (ledger db') (mg_key m) = map_of (ledger db) (mg_key m)"
  shows "outstanding db' ms = outstanding db ms"
  using assms unfolding outstanding_def applied_as_def by (intro filter_cong) auto

lemma apply_batch_done:
  assumes "sandboxed exec f"
  shows "apply_batch exec clock batch p db = Inr (p', db') \<Longrightarrow> distinct (map mg_key batch) \<Longrightarrow>
    lock_holder db' = lock_holder db
    \<and> (\<forall>m\<in>set batch. applied_as db' m)
    \<and> (\<forall>k. k \<notin> mg_key ` set batch \<longrightarrow> map_of (ledger db') k = map_of (ledger db) k)
    \<and> (\<forall>m\<in>set batch. applied_as db m \<longrightarrow> map_of (ledger db') (mg_key m) = map_of (ledger db) (mg_key m))
    \<and> (\<forall>m\<in>set batch. \<forall>e. map_of (ledger db) (mg_key m) = Some e \<longrightarrow> le_checksum e = mg_checksum m)
    \<and> run_content f (batch_statements (outstanding db batch)) (content db) = Inr (content db')
    \<and> bp_applied p' = bp_applied p @ map mg_key (outstanding db batch)
    \<and> bp_skipped p' = bp_skipped p @ map mg_key (filter (applied_as db) batch)"
proof (induction batch arbitrary: p db)
  case Nil
  then show ?case by (simp add: outstanding_def batch_statements_def)
next
  case (Cons m batch)
  obtain p1 db1 where one: "apply_batch exec clock [m] p db = Inr (p1, db1)" and rest: "apply_batch exec clock batch p1 db1 = Inr (p', db')"
    using Cons.prems(1) unfolding apply_batch_Cons [of exec clock m batch p db] by (auto split: sum.splits)
  note s = apply_one [OF assms one]
  have d: "distinct (map mg_key batch)" "mg_key m \<notin> mg_key ` set batch" using Cons.prems(2) by auto
  note IH = Cons.IH [OF rest d(1)]
  have same: "map_of (ledger db1) (mg_key n) = map_of (ledger db) (mg_key n)" if "n \<in> set batch" for n
    using s d(2) that by (metis imageI)
  have out: "outstanding db1 batch = outstanding db batch" by (rule outstanding_cong [OF same])
  have app: "applied_as db1 n = applied_as db n" if "n \<in> set batch" for n using same [OF that] by (simp add: applied_as_def)
  then have skip: "filter (applied_as db1) batch = filter (applied_as db) batch" by (intro filter_cong) auto
  have m: "map_of (ledger db') (mg_key m) = map_of (ledger db1) (mg_key m)" using IH d(2) by blast
  have "applied_as db1 m" using s by (rule conjunct1)
  then have am: "applied_as db' m" by (simp only: applied_as_def m)
  have cs: "le_checksum e = mg_checksum m" if "map_of (ledger db) (mg_key m) = Some e" for e
  proof (cases "applied_as db m")
    case True
    then show ?thesis using that by (auto simp: applied_as_def)
  next
    case False
    then show ?thesis using s that by simp
  qed
  have content: "run_content f (batch_statements (outstanding db (m # batch))) (content db) = Inr (content db')"
    using s IH out by (cases "applied_as db m") (auto simp: outstanding_def batch_statements_def run_content_append)
  have lists: "bp_applied p' = bp_applied p @ map mg_key (outstanding db (m # batch))"
    "bp_skipped p' = bp_skipped p @ map mg_key (filter (applied_as db) (m # batch))"
    using s IH out skip by (cases "applied_as db m"; simp add: outstanding_def)+
  have "\<forall>n\<in>set (m # batch). applied_as db' n" using IH am by simp
  moreover have "\<forall>k. k \<notin> mg_key ` set (m # batch) \<longrightarrow> map_of (ledger db') k = map_of (ledger db) k"
    using IH s by simp
  moreover have "\<forall>n\<in>set (m # batch). applied_as db n \<longrightarrow> map_of (ledger db') (mg_key n) = map_of (ledger db) (mg_key n)"
    using IH s m app same by auto
  moreover have "\<forall>n\<in>set (m # batch). \<forall>e. map_of (ledger db) (mg_key n) = Some e \<longrightarrow> le_checksum e = mg_checksum n"
    using IH cs same by auto
  moreover have "lock_holder db' = lock_holder db" using IH s by simp
  ultimately show ?case using content lists by blast
qed

subsection \<open>Failures\<close>

lemma apply_one_failure:
  assumes "sandboxed exec f" "apply_batch exec clock [m] p db = Inl x"
  shows "case x of RunnerFailure e \<Rightarrow> True | DriverFailure n started e \<Rightarrow> n = m \<and> \<not> applied_as db m
    \<and> (\<forall>en. map_of (ledger db) (mg_key m) = Some en \<longrightarrow> le_status en = FAILED)"
  using assms(2)
  by (cases "map_of (ledger db) (mg_key m)"; cases "le_status (the (map_of (ledger db) (mg_key m)))")
    (auto simp: Let_def applied_as_def split: sum.splits if_splits)

lemma apply_batch_failure:
  assumes "sandboxed exec f"
  shows "apply_batch exec clock batch p db = Inl (DriverFailure m started e) \<Longrightarrow> distinct (map mg_key batch) \<Longrightarrow>
    m \<in> set batch \<and> (\<forall>en. map_of (ledger db) (mg_key m) = Some en \<longrightarrow> le_status en = FAILED)"
proof (induction batch arbitrary: p db)
  case (Cons n batch)
  have d: "distinct (map mg_key batch)" "mg_key n \<notin> mg_key ` set batch" using Cons.prems(2) by auto
  show ?case
  proof (cases "apply_batch exec clock [n] p db")
    case (Inl x)
    then have "x = DriverFailure m started e" using Cons.prems(1) unfolding apply_batch_Cons [of exec clock n batch p db] by simp
    then show ?thesis using apply_one_failure [OF assms Inl] by simp
  next
    case (Inr r)
    obtain p1 db1 where r: "r = (p1, db1)" by (cases r)
    then have rest: "apply_batch exec clock batch p1 db1 = Inl (DriverFailure m started e)"
      using Cons.prems(1) Inr unfolding apply_batch_Cons [of exec clock n batch p db] by simp
    note IH = Cons.IH [OF rest d(1)]
    have "mg_key m \<noteq> mg_key n" using IH d(2) by (metis imageI)
    then have "map_of (ledger db1) (mg_key m) = map_of (ledger db) (mg_key m)" using apply_one [OF assms Inr [unfolded r]] by blast
    then show ?thesis using IH by simp
  qed
qed simp

lemma bp_current_done:
  "apply_batch exec clock batch p db = Inr (p', db') \<Longrightarrow> bp_current p' = (if batch = [] then bp_current p else Some (last batch))"
proof (induction batch arbitrary: p db)
  case (Cons m batch)
  obtain p1 db1 where one: "apply_batch exec clock [m] p db = Inr (p1, db1)" and rest: "apply_batch exec clock batch p1 db1 = Inr (p', db')"
    using Cons.prems unfolding apply_batch_Cons [of exec clock m batch p db] by (auto split: sum.splits)
  have "bp_current p1 = Some m" using one by (auto simp: Let_def split: sum.splits option.splits if_splits)
  then show ?case using Cons.IH [OF rest] by simp
qed simp

text \<open>What a failed run may leave behind: nothing, or the evidence for one migration that was not applied.\<close>

definition evidence_of :: "migration list \<Rightarrow> migration_error \<Rightarrow> 'd database \<Rightarrow> 'd database \<Rightarrow> bool" where
  "evidence_of batch e db db' \<longleftrightarrow>
     (\<exists>m\<in>set batch. \<exists>en. e = MigrationApplyError (mg_owner m) (mg_version m) True \<and> \<not> applied_as db m
        \<and> le_status en = FAILED \<and> le_checksum en = mg_checksum m
        \<and> ledger db' = AList.update (mg_key m) en (ledger db) \<and> lock_holder db' = None \<and> content db' = content db
        \<and> (\<forall>old. map_of (ledger db) (mg_key m) = Some old \<longrightarrow> le_status old \<noteq> APPLIED))"

lemma failed_with_evidence:
  assumes "failed_with r m started n e db = (out, db')" "m \<in> set batch"
  shows "\<exists>x. out = Inl x \<and> (db' = db \<or> evidence_of batch x db db')"
proof -
  let ?en = "\<lparr>le_checksum = mg_checksum m, le_status = FAILED, le_started_at = started,
                  le_finished_at = Some (times r n), le_error = Some (safe_error e)\<rparr>"
  show ?thesis
  proof (cases "evidence_fails r \<noteq> None \<or> (\<exists>old. map_of (ledger db) (mg_key m) = Some old \<and> le_status old = APPLIED)")
    case True
    then have "record_failure r m started (times r n) e db = (False, db)" by (auto simp: record_failure_def)
    then show ?thesis using assms(1) by (auto simp: failed_with_def)
  next
    case False
    then have "out = Inl (MigrationApplyError (mg_owner m) (mg_version m) True)"
      "db' = db\<lparr>ledger := AList.update (mg_key m) ?en (ledger db), lock_holder := None\<rparr>"
      using assms(1) by (auto simp: failed_with_def record_failure_def split: option.splits)
    moreover have "\<not> applied_as db m" using False by (auto simp: applied_as_def)
    ultimately show ?thesis using False assms(2) unfolding evidence_of_def by (auto intro!: bexI [of _ m] exI [of _ ?en])
  qed
qed

lemma apply_migrations_outcome:
  assumes "sandboxed exec f" "apply_migrations exec r batch db = (out, db')"
  shows "(\<forall>k. k \<notin> mg_key ` set batch \<longrightarrow> map_of (ledger db') k = map_of (ledger db) k)
    \<and> (\<forall>k e. map_of (ledger db) k = Some e \<and> le_status e = APPLIED \<longrightarrow> map_of (ledger db') k = Some e)
    \<and> (case out of
         Inr res \<Rightarrow> (\<forall>m\<in>set batch. applied_as db' m)
           \<and> run_content f (batch_statements (outstanding db batch)) (content db) = Inr (content db')
           \<and> mr_applied res = map mg_key (outstanding db batch) \<and> mr_skipped res = map mg_key (filter (applied_as db) batch)
           \<and> lock_holder db' = None
       | Inl e \<Rightarrow> db' = db \<or> evidence_of batch e db db')"
proof -
  have fail: ?thesis if "\<exists>x. out = Inl x \<and> (db' = db \<or> evidence_of batch x db db')"
  proof -
    from that obtain x where x: "out = Inl x" "db' = db \<or> evidence_of batch x db db'" by blast
    have "map_of (ledger db') k = map_of (ledger db) k" if k: "k \<notin> mg_key ` set batch \<or> (\<exists>e. map_of (ledger db) k = Some e \<and> le_status e = APPLIED)" for k
      using x(2)
    proof
      assume "evidence_of batch x db db'"
      then obtain m en where m: "m \<in> set batch" "ledger db' = AList.update (mg_key m) en (ledger db)"
        "\<forall>old. map_of (ledger db) (mg_key m) = Some old \<longrightarrow> le_status old \<noteq> APPLIED"
        unfolding evidence_of_def by blast
      then have "k \<noteq> mg_key m" using k by blast
      then show ?thesis by (simp add: m(2) map_of_update)
    qed simp
    then have "(\<forall>k. k \<notin> mg_key ` set batch \<longrightarrow> map_of (ledger db') k = map_of (ledger db) k)"
      "(\<forall>k e. map_of (ledger db) k = Some e \<and> le_status e = APPLIED \<longrightarrow> map_of (ledger db') k = Some e)" by simp_all
    then show ?thesis using x by (intro conjI) (simp_all only: sum.case)
  qed
  let ?db = "db\<lparr>lock_holder := Some (holder r)\<rparr>"
  let ?p0 = "\<lparr>bp_applied = [], bp_skipped = [], bp_current = None, bp_started = None, bp_clock = 1\<rparr>"
  show ?thesis
  proof (cases "distinct (map mg_key batch) \<and> schema_fails r = None \<and> begin_fails r = None \<and> lock_holder db = None")
    case False
    then have "\<exists>x. out = Inl x \<and> db' = db"
      using assms(2) by (auto simp: apply_migrations_def validate_batch_def split: option.splits if_splits)
    then show ?thesis using fail by blast
  next
    case True
    then have run: "(case apply_batch exec (times r) batch ?p0 ?db of
          Inl (RunnerFailure e) \<Rightarrow> (Inl e, db)
        | Inl (DriverFailure m started e) \<Rightarrow> failed_with r m started 0 e db
        | Inr (p, db') \<Rightarrow>
            (case commit_fails r of
               None \<Rightarrow> (Inr \<lparr>mr_applied = bp_applied p, mr_skipped = bp_skipped p\<rparr>,
                 db'\<lparr>lock_holder := (if lock_holder db' = Some (holder r) then None else lock_holder db')\<rparr>)
             | Some e \<Rightarrow>
                 (case bp_current p of
                    None \<Rightarrow> (Inl (MigrationError ''migration batch failed before applying a step''), db)
                  | Some m \<Rightarrow> failed_with r m (case bp_started p of None \<Rightarrow> times r (bp_clock p) | Some t \<Rightarrow> t)
                                (bp_clock p + 1) e db))) = (out, db')"
      using assms(2) by (simp add: apply_migrations_def validate_batch_def Let_def)
    show ?thesis
    proof (cases "apply_batch exec (times r) batch ?p0 ?db")
      case (Inl x)
      show ?thesis
      proof (cases x)
        case (RunnerFailure e)
        then show ?thesis using run Inl by (intro fail) auto
      next
        case (DriverFailure m started e)
        then show ?thesis using run Inl True apply_batch_failure [OF assms(1) Inl [unfolded DriverFailure]] failed_with_evidence [of r m started 0 e db]
          by (intro fail) simp
      qed
    next
      case (Inr pd)
      obtain p db1 where pd: "pd = (p, db1)" by (cases pd)
      note fin = apply_batch_done [OF assms(1) Inr [unfolded pd], OF True [THEN conjunct1]]
      show ?thesis
      proof (cases "commit_fails r")
        case (Some e)
        show ?thesis
        proof (cases "batch = []")
          case True
          then show ?thesis using run Inr pd Some bp_current_done [OF Inr [unfolded pd]] by (intro fail) auto
        next
          case False
          then have "failed_with r (last batch) (case bp_started p of None \<Rightarrow> times r (bp_clock p) | Some t \<Rightarrow> t) (bp_clock p + 1) e db = (out, db')"
            using run Inr pd Some bp_current_done [OF Inr [unfolded pd]] by simp
          then show ?thesis using False by (intro fail) (rule failed_with_evidence, assumption, simp)
        qed
      next
        case None
        then have o: "out = Inr \<lparr>mr_applied = bp_applied p, mr_skipped = bp_skipped p\<rparr>" "db' = db1\<lparr>lock_holder := None\<rparr>"
          using run Inr pd fin by auto
        have a: "applied_as ?db = applied_as db" "applied_as db' = applied_as db1" "outstanding ?db batch = outstanding db batch"
          by (auto simp: applied_as_def outstanding_def o(2))
        have others: "map_of (ledger db1) k = map_of (ledger db) k" if "k \<notin> mg_key ` set batch" for k
          using fin [THEN conjunct2, THEN conjunct2, THEN conjunct1, rule_format, OF that] by simp
        have keep: "map_of (ledger db1) k = Some e" if "map_of (ledger db) k = Some e" "le_status e = APPLIED" for k e
        proof (cases "k \<in> mg_key ` set batch")
          case True
          then obtain m where m: "m \<in> set batch" "k = mg_key m" by blast
          have "le_checksum e = mg_checksum m" using fin m that(1) by simp
          then have "applied_as ?db m" using that m(2) by (simp add: applied_as_def)
          then have "map_of (ledger db1) k = map_of (ledger ?db) k" using fin m by blast
          then show ?thesis using that(1) by simp
        next
          case False
          then show ?thesis using others that(1) by simp
        qed
        have "\<forall>m\<in>set batch. applied_as db' m" using fin a(2) by simp
        moreover have "run_content f (batch_statements (outstanding db batch)) (content db) = Inr (content db')"
          "bp_applied p = map mg_key (outstanding db batch)" "bp_skipped p = map mg_key (filter (applied_as db) batch)"
          using fin a by (simp_all add: o(2))
        ultimately show ?thesis using others keep by (simp add: o)
      qed
    qed
  qed
qed

text \<open>C11: a migration batch is all or nothing. If the run returns, every migration of the batch is
  recorded as applied with its checksum, the content is the result of executing, in batch order, the
  statements of exactly the migrations that were not applied before, and the result names those and
  the skipped ones. If it raises, the content is what it was, and the ledger too, but for the evidence of
  failure of one migration of the batch that was not applied. Entries of other migrations, and every
  entry that was applied, are untouched either way.\<close>

theorem migration_batch_atomic:
  assumes "sandboxed exec f" "apply_migrations exec r batch db = (out, db')"
  shows "(\<forall>k. k \<notin> mg_key ` set batch \<longrightarrow> map_of (ledger db') k = map_of (ledger db) k)
    \<and> (\<forall>k e. map_of (ledger db) k = Some e \<and> le_status e = APPLIED \<longrightarrow> map_of (ledger db') k = Some e)
    \<and> (case out of
         Inr res \<Rightarrow> (\<forall>m\<in>set batch. applied_as db' m)
           \<and> run_content f (batch_statements (outstanding db batch)) (content db) = Inr (content db')
           \<and> mr_applied res = map mg_key (outstanding db batch) \<and> mr_skipped res = map mg_key (filter (applied_as db) batch)
           \<and> lock_holder db' = None
       | Inl e \<Rightarrow> db' = db \<or> evidence_of batch e db db')"
  by (rule apply_migrations_outcome [OF assms])

subsection \<open>Applied migrations are final\<close>

text \<open>Any number of runs, by any processes one after another, of any batches.\<close>

inductive migration_runs :: "'d database \<Rightarrow> 'd database \<Rightarrow> bool" for db where
  runs_refl: "migration_runs db db"
| runs_step: "migration_runs db db' \<Longrightarrow> sandboxed exec f \<Longrightarrow> migration_runs db (snd (apply_migrations exec r batch db'))"

lemma runs_keep_applied:
  "migration_runs db db' \<Longrightarrow> map_of (ledger db) k = Some e \<Longrightarrow> le_status e = APPLIED \<Longrightarrow> map_of (ledger db') k = Some e"
proof (induction rule: migration_runs.induct)
  case (runs_step db' exec f r batch)
  obtain out db1 where r: "apply_migrations exec r batch db' = (out, db1)" by (cases "apply_migrations exec r batch db'")
  have "\<forall>k e. map_of (ledger db') k = Some e \<and> le_status e = APPLIED \<longrightarrow> map_of (ledger db1) k = Some e"
    using apply_migrations_outcome [OF runs_step(2) r] by (elim conjE)
  moreover have "map_of (ledger db') k = Some e \<and> le_status e = APPLIED" using runs_step by simp
  ultimately have "map_of (ledger db1) k = Some e" by blast
  then show ?case by (simp add: r)
qed simp

lemma applied_as_final: "migration_runs db db' \<Longrightarrow> applied_as db m \<Longrightarrow> applied_as db' m"
  unfolding applied_as_def by (metis runs_keep_applied)

lemma successful_batch_matches:
  assumes "sandboxed exec f" "apply_migrations exec r batch db = (Inr res, db')" "n \<in> set batch"
    "map_of (ledger db) (mg_key n) = Some e" "le_status e = APPLIED"
  shows "le_checksum e = mg_checksum n \<and> n \<notin> set (outstanding db batch)"
proof -
  note o = apply_migrations_outcome [OF assms(1,2)]
  then have "\<forall>k e. map_of (ledger db) k = Some e \<and> le_status e = APPLIED \<longrightarrow> map_of (ledger db') k = Some e" by (elim conjE)
  then have "map_of (ledger db') (mg_key n) = Some e" using assms(4,5) by blast
  moreover have "applied_as db' n" using o assms(3) by simp
  ultimately have "le_checksum e = mg_checksum n" by (simp add: applied_as_def)
  moreover from this have "applied_as db n" using assms(4,5) by (simp add: applied_as_def)
  ultimately show ?thesis by (simp add: outstanding_def)
qed

text \<open>C18: an applied migration is final. Whatever batches are run later, by whatever engine, the
  migration stays recorded as applied with the same checksum; a later batch that names its owner and
  version succeeds only if it has the same checksum, and then its statements are not executed again:
  the run reports the migration as skipped and not as applied.\<close>

theorem applied_migration_is_final:
  assumes "applied_as db m" "migration_runs db db1" "sandboxed exec f"
    and "apply_migrations exec r batch db1 = (Inr res, db2)" "n \<in> set batch" "mg_key n = mg_key m"
  shows "applied_as db1 m \<and> applied_as db2 m \<and> mg_checksum n = mg_checksum m
    \<and> n \<notin> set (outstanding db1 batch) \<and> mg_key m \<in> set (mr_skipped res) \<and> mg_key m \<notin> set (mr_applied res)
    \<and> run_content f (batch_statements (outstanding db1 batch)) (content db1) = Inr (content db2)"
proof -
  have a1: "applied_as db1 m" by (rule applied_as_final [OF assms(2,1)])
  have a2: "applied_as db2 m" using applied_as_final [OF runs_step [OF assms(2,3)] assms(1), of r batch] assms(4) by simp
  obtain e where e: "map_of (ledger db1) (mg_key n) = Some e" "le_status e = APPLIED" "le_checksum e = mg_checksum m"
    using a1 assms(6) by (auto simp: applied_as_def)
  note s = successful_batch_matches [OF assms(3-5) e(1,2)]
  have an: "applied_as db1 n" using e s by (simp add: applied_as_def)
  note o = apply_migrations_outcome [OF assms(3,4)]
  have out: "mr_applied res = map mg_key (outstanding db1 batch)" "mr_skipped res = map mg_key (filter (applied_as db1) batch)"
    "run_content f (batch_statements (outstanding db1 batch)) (content db1) = Inr (content db2)"
    using o by simp_all
  have "mg_key m \<in> set (mr_skipped res)" using an assms(5,6) by (auto simp: out(2) intro!: rev_image_eqI [of n])
  moreover have "mg_key m \<notin> set (mr_applied res)"
  proof
    assume "mg_key m \<in> set (mr_applied res)"
    then obtain n' where n': "n' \<in> set (outstanding db1 batch)" "mg_key n' = mg_key m" by (auto simp: out(1))
    then have "n' \<in> set batch" by (simp add: outstanding_def)
    from successful_batch_matches [OF assms(3,4) this] e(1,2) n' assms(6) show False by auto
  qed
  ultimately show ?thesis using a1 a2 s e(3) out(3) by simp
qed

subsection \<open>One command by the lexical rules of SQLite\<close>

text \<open>
  The rules of SQLite's tokenizer for what is not code: line comments, block comments that do not nest
  and may be closed by the end of the text, strings and quoted identifiers in which only a doubled
  quote stands for a quote, and bracketed identifiers. There are no dollar quotes.
\<close>

fun sqlite_comment :: "string \<Rightarrow> string" where
  "sqlite_comment (c # e # s) = (if c = CHR ''*'' \<and> e = CHR ''/'' then s else sqlite_comment (e # s))"
| "sqlite_comment s = []"

fun sqlite_quote :: "char \<Rightarrow> string \<Rightarrow> string" where
  "sqlite_quote q (c # e # s) = (if c = q then (if e = q then sqlite_quote q s else e # s) else sqlite_quote q (e # s))"
| "sqlite_quote q s = []"

definition sqlite_step :: "char \<Rightarrow> string \<Rightarrow> bool \<times> string" where
  "sqlite_step c s =
     (if starts_with (c # s) ''--'' then (True, dropWhile (\<lambda>e. e \<noteq> CHR 0x0A) s)
      else if starts_with (c # s) ''/*'' then (True, sqlite_comment (tl s))
      else if c = CHR 0x27 \<or> c = CHR 0x22 \<or> c = CHR 0x60 then (True, sqlite_quote c s)
      else if c = CHR ''['' then (True, case drop_past '']'' s of None \<Rightarrow> [] | Some rest \<Rightarrow> rest)
      else (False, s))"

lemma sqlite_comment_shorter: "length (sqlite_comment s) \<le> length s"
  by (induction s rule: sqlite_comment.induct) auto

lemma sqlite_quote_shorter: "length (sqlite_quote q s) \<le> length s"
  by (induction q s rule: sqlite_quote.induct) auto

lemma sqlite_step_shorter: "sqlite_step c s = (b, rest) \<Longrightarrow> length rest \<le> length s"
  using sqlite_comment_shorter [of "tl s"] sqlite_quote_shorter [of c s]
  by (auto simp: sqlite_step_def length_dropWhile_le split: if_splits option.splits dest: drop_past_shorter)

function sqlite_code :: "string \<Rightarrow> string" where
  "sqlite_code [] = []"
| "sqlite_code (c # s) =
     (case sqlite_step c s of
        (erased, rest) \<Rightarrow> (if erased then spaces (length (c # s) - length rest) else [c]) @ sqlite_code rest)"
  by pat_completeness auto
termination
  by (relation "measure length") (auto dest!: sqlite_step_shorter [OF sym])

text \<open>No block comment of the statement contains a second opener.\<close>

fun flat_comment :: "string \<Rightarrow> bool" where
  "flat_comment (c # e # s) =
     (if c = CHR ''*'' \<and> e = CHR ''/'' then True
      else if c = CHR ''/'' \<and> e = CHR ''*'' then False else flat_comment (e # s))"
| "flat_comment s = True"

function comments_flat :: "string \<Rightarrow> bool" where
  "comments_flat [] = True"
| "comments_flat (c # s) =
     (case sqlite_step c s of (erased, rest) \<Rightarrow>
        (starts_with (c # s) ''/*'' \<longrightarrow> flat_comment (tl s)) \<and> comments_flat rest)"
  by pat_completeness auto
termination
  by (relation "measure length") (auto dest!: sqlite_step_shorter [OF sym])

lemma flat_comment_agrees: "skip_comment 1 s = Some rest \<Longrightarrow> flat_comment s \<Longrightarrow> sqlite_comment s = rest"
  by (induction s rule: flat_comment.induct) (auto split: if_splits)

lemma quote_agrees: "skip_quote q s = Some rest \<Longrightarrow> CHR 0x5C \<notin> set s \<Longrightarrow> sqlite_quote q s = rest"
  by (induction q s rule: skip_quote.induct) (auto split: if_splits)

lemma step_agrees:
  assumes "scan_step c s = Inr (erased, rest)" "CHR 0x5C \<notin> set s" "c \<noteq> CHR ''$''"
    "starts_with (c # s) ''/*'' \<longrightarrow> flat_comment (tl s)"
  shows "sqlite_step c s = (erased, rest)"
proof -
  note a = assms(1) [unfolded scan_step_def]
  consider "starts_with (c # s) ''--''" | "\<not> starts_with (c # s) ''--''" "starts_with (c # s) ''/*''"
    | "\<not> starts_with (c # s) ''--''" "\<not> starts_with (c # s) ''/*''" by blast
  then show ?thesis
  proof cases
    case 1
    then show ?thesis using a unfolding sqlite_step_def by (simp only: if_True sum.inject prod.inject simp_thms)
  next
    case 2
    then have "skip_comment 1 (tl s) = Some rest \<and> erased" using a by (simp only: if_True if_False split: option.splits) simp_all
    then show ?thesis using 2 assms(4) flat_comment_agrees [of "tl s" rest] unfolding sqlite_step_def by (simp only: if_True if_False simp_thms)
  next
    case 3
    show ?thesis
    proof (cases "c = CHR 0x27 \<or> c = CHR 0x22 \<or> c = CHR 0x60")
      case True
      then have "skip_quote c s = Some rest \<and> erased" using a 3 by (simp only: if_True if_False split: option.splits) simp_all
      then show ?thesis using 3 True assms(2) quote_agrees [of c s rest] unfolding sqlite_step_def by (simp only: if_True if_False simp_thms)
    next
      case False
      then show ?thesis using a 3 assms(3) unfolding sqlite_step_def
        by (simp only: if_True if_False simp_thms) (auto split: if_splits option.splits)
    qed
  qed
qed

lemma sqlite_step_suffix: "sqlite_step c s = (erased, rest) \<Longrightarrow> set rest \<subseteq> set s"
proof -
  have "set (sqlite_comment t) \<subseteq> set t" for t by (induction t rule: sqlite_comment.induct) auto
  then have c: "set (sqlite_comment (tl s)) \<subseteq> set s" by (cases s) auto
  have q: "set (sqlite_quote q t) \<subseteq> set t" for q t by (induction q t rule: sqlite_quote.induct) auto
  have d: "drop_past d t = Some u \<Longrightarrow> set u \<subseteq> set t" for d t u
    by (induction d t rule: drop_past.induct) (auto split: if_splits dest: in_set_dropD)
  show "sqlite_step c s = (erased, rest) \<Longrightarrow> set rest \<subseteq> set s"
  proof -
    assume "sqlite_step c s = (erased, rest)"
    then have "rest = dropWhile (\<lambda>e. e \<noteq> CHR 0x0A) s \<or> rest = sqlite_comment (tl s) \<or> rest = sqlite_quote c s
        \<or> rest = [] \<or> drop_past '']'' s = Some rest \<or> rest = s"
      by (simp add: sqlite_step_def split: if_splits option.splits)
    then show ?thesis
    proof (elim disjE)
      assume "rest = dropWhile (\<lambda>e. e \<noteq> CHR 0x0A) s"
      then show ?thesis by (auto dest: set_dropWhileD)
    qed (simp_all add: c q d)
  qed
qed

lemma erase_agrees:
  "erase_sql s = Inr t \<Longrightarrow> CHR 0x5C \<notin> set s \<Longrightarrow> CHR ''$'' \<notin> set s \<Longrightarrow> comments_flat s \<Longrightarrow> sqlite_code s = t"
proof (induction s arbitrary: t rule: erase_sql.induct)
  case (2 c s)
  obtain erased rest out where r: "scan_step c s = Inr (erased, rest)" "erase_sql rest = Inr out"
    "t = (if erased then spaces (length (c # s) - length rest) else [c]) @ out"
    using "2.prems"(1) by (auto split: sum.splits)
  have q: "sqlite_step c s = (erased, rest)"
    using r(1) "2.prems"(2-4) by (intro step_agrees) (auto split: prod.splits)
  have "set rest \<subseteq> set s" by (rule sqlite_step_suffix [OF q])
  then have "sqlite_code rest = out" using "2.prems"(2-4) q by (intro "2.IH" [OF r(1) refl r(2)]) auto
  then show ?case using r(3) q by simp
qed simp

text \<open>C32: an accepted statement is one command for SQLite. If a statement passes the check and contains no
  backslash, no dollar sign and no block comment with a second opener in it, then the code that SQLite
  sees outside its comments, strings and quoted identifiers is not empty, its only semicolon, if any, is
  its last character, and its first word neither controls a transaction nor is a forbidden command.\<close>

theorem accepted_statement_is_one_command:
  assumes "validate_statement_boundary s = Inr ()" "CHR 0x5C \<notin> set s" "CHR ''$'' \<notin> set s" "comments_flat s"
  shows "py_strip (sqlite_code s) \<noteq> [] \<and> CHR '';'' \<notin> set (butlast (py_strip (sqlite_code s)))
    \<and> map ascii_upper (first_token (py_strip (sqlite_code s)))
        \<notin> {''BEGIN'', ''COMMIT'', ''END'', ''ROLLBACK'', ''SAVEPOINT'', ''RELEASE'', ''ATTACH'', ''DETACH'', ''PRAGMA'', ''VACUUM''}"
proof -
  obtain t where t: "erase_sql s = Inr t" using assms(1) by (auto simp: validate_statement_boundary_def split: sum.splits)
  have "sqlite_code s = t" by (rule erase_agrees [OF t assms(2-4)])
  then show ?thesis using assms(1) t
    by (auto simp: validate_statement_boundary_def Let_def one_command_def TRANSACTION_CONTROL_KEYWORDS_def
        FORBIDDEN_MIGRATION_KEYWORDS_def split: if_splits)
qed

definition demo_statement :: string where
  "demo_statement = ''INSERT INTO t VALUES ('' @ [CHR 0x27, CHR '';'', CHR 0x27] @ '') -- ; x''"

theorem accepted_statement_is_one_command_witness:
  "validate_statement_boundary demo_statement = Inr () \<and> CHR '';'' \<notin> set (butlast (py_strip (sqlite_code demo_statement)))"
proof -
  have v: "validate_statement_boundary demo_statement = Inr ()" by code_simp
  have c: "CHR 0x5C \<notin> set demo_statement" "CHR ''$'' \<notin> set demo_statement" by (simp_all add: demo_statement_def)
  have f: "comments_flat demo_statement" by code_simp
  show ?thesis using v accepted_statement_is_one_command [OF v c f] by blast
qed

text \<open>The three restrictions are needed: by each of these texts the check is led past a second command.\<close>

lemma backslash_hides_a_command:
  "validate_statement_boundary (''SELECT '' @ [CHR 0x27, CHR 0x5C, CHR 0x27] @ ''; COMMIT; --'' @ [CHR 0x27]) = Inr ()
   \<and> CHR '';'' \<in> set (butlast (py_strip (sqlite_code (''SELECT '' @ [CHR 0x27, CHR 0x5C, CHR 0x27] @ ''; COMMIT; --'' @ [CHR 0x27]))))"
  by code_simp

lemma nested_comment_hides_a_command:
  "validate_statement_boundary ''SELECT 1 /* /* */ ; COMMIT; --*/ */'' = Inr ()
   \<and> CHR '';'' \<in> set (butlast (py_strip (sqlite_code ''SELECT 1 /* /* */ ; COMMIT; --*/ */'')))"
  by code_simp

lemma dollar_quote_hides_a_command:
  "validate_statement_boundary ''SELECT $$ ; COMMIT; $$'' = Inr ()
   \<and> CHR '';'' \<in> set (butlast (py_strip (sqlite_code ''SELECT $$ ; COMMIT; $$'')))"
  by code_simp

subsection \<open>A small database\<close>

definition count_statement :: "string \<Rightarrow> nat \<Rightarrow> driver_error + nat" where
  "count_statement s c = (if s = ''BAD'' then Inl \<lparr>de_name = ''OperationalError'', de_message = ''syntax'', de_code = None\<rparr> else Inr (c + 1))"

definition counting_engine :: "nat engine" where
  "counting_engine auth s db = map_sum id (\<lambda>c. db\<lparr>content := c\<rparr>) (count_statement s (content db))"

definition quiet_driver :: driver_run where
  "quiet_driver = \<lparr>schema_fails = None, begin_fails = None, commit_fails = None, evidence_fails = None,
     times = (\<lambda>n. replicate n CHR ''t''), holder = ''h''\<rparr>"

definition demo_migration :: migration where
  "demo_migration = \<lparr>mg_owner = ''core'', mg_version = ''1'', mg_statements = [''A'', ''B''], mg_checksum = ''c''\<rparr>"

definition demo_db :: "nat database" where "demo_db = \<lparr>ledger = [], lock_holder = None, content = 0\<rparr>"

lemma counting_sandboxed: "sandboxed counting_engine count_statement"
  by (simp add: sandboxed_def counting_engine_def)

lemma demo_apply: "\<exists>res db. apply_migrations counting_engine quiet_driver [demo_migration] demo_db = (Inr res, db)
   \<and> mr_applied res = [(''core'', ''1'')] \<and> content db = 2 \<and> lock_holder db = None \<and> applied_as db demo_migration"
  by (simp add: apply_migrations_def validate_batch_def quiet_driver_def demo_db_def demo_migration_def mg_key_def Let_def
      mark_applying_def ledger_mark_applied_def counting_engine_def count_statement_def applied_as_def)

theorem migration_batch_atomic_witness:
  "\<exists>res db. apply_migrations counting_engine quiet_driver [demo_migration] demo_db = (Inr res, db)
   \<and> applied_as db demo_migration \<and> run_content count_statement [''A'', ''B''] 0 = Inr (content db)"
proof -
  obtain res db where a: "apply_migrations counting_engine quiet_driver [demo_migration] demo_db = (Inr res, db)" using demo_apply by blast
  have o: "batch_statements (outstanding demo_db [demo_migration]) = [''A'', ''B'']" "content demo_db = 0"
    by (simp_all add: outstanding_def applied_as_def demo_db_def batch_statements_def demo_migration_def)
  show ?thesis using a migration_batch_atomic [OF counting_sandboxed a] by (simp add: o)
qed

theorem applied_migration_is_final_witness:
  "\<exists>res db res' db'. apply_migrations counting_engine quiet_driver [demo_migration] demo_db = (Inr res, db)
   \<and> apply_migrations counting_engine quiet_driver [demo_migration] db = (Inr res', db')
   \<and> applied_as db' demo_migration \<and> mg_key demo_migration \<in> set (mr_skipped res') \<and> mg_key demo_migration \<notin> set (mr_applied res')"
proof -
  obtain res db where a: "apply_migrations counting_engine quiet_driver [demo_migration] demo_db = (Inr res, db)"
    "lock_holder db = None" "applied_as db demo_migration" using demo_apply by blast
  have "\<exists>res' db'. apply_migrations counting_engine quiet_driver [demo_migration] db = (Inr res', db')"
    using a(2,3) by (auto simp: apply_migrations_def validate_batch_def quiet_driver_def Let_def applied_as_def)
  then obtain res' db' where b: "apply_migrations counting_engine quiet_driver [demo_migration] db = (Inr res', db')" by blast
  show ?thesis using a(1) b applied_migration_is_final [OF a(3) runs_refl counting_sandboxed b, of demo_migration] by auto
qed

end
