(* ===== verification/Registries.thy ===== *)
theory Registries
  imports Render_Slots
begin

text \<open>
  The small in-process registries: web hooks (\<open>hooks.py\<close>) and dotted UI slots (\<open>slots.py\<close>), which keep the
  same contract on pausing a package as the registries of extensions, and the bounded list of health
  issues (\<open>health_issues.py\<close>).
\<close>

subsection \<open>Paths that are safe on every platform\<close>

definition WINDOWS_RESERVED_BASENAMES :: "string list" where
  "WINDOWS_RESERVED_BASENAMES =
     [''aux'', ''con'', ''conin$'', ''conout$'', ''nul'', ''prn'',
      ''com1'', ''com2'', ''com3'', ''com4'', ''com5'', ''com6'', ''com7'', ''com8'', ''com9'',
      ''lpt1'', ''lpt2'', ''lpt3'', ''lpt4'', ''lpt5'', ''lpt6'', ''lpt7'', ''lpt8'', ''lpt9'']"

text \<open>\<open>PureWindowsPath\<close>: both separators count, a drive is a letter with a colon or a share, and an
  absolute path has a drive.\<close>

definition win_norm :: "string \<Rightarrow> string" where
  "win_norm v = map (\<lambda>c. if c = CHR ''/'' then CHR 0x5C else c) v"

definition win_drive :: "string \<Rightarrow> bool" where
  "win_drive v \<longleftrightarrow> starts_with (win_norm v) [CHR 0x5C, CHR 0x5C] \<or> (2 \<le> length v \<and> v ! 1 = CHR '':'')"

definition win_part_count :: "string \<Rightarrow> nat" where
  "win_part_count v = (if starts_with (win_norm v) [CHR 0x5C] then 1 else 0)
     + length (filter (\<lambda>p. p \<noteq> [] \<and> p \<noteq> ''.'') (split_on (CHR 0x5C) (win_norm v)))"

text \<open>\<open>rstrip(" .")\<close>\<close>

definition trim_dots_blanks :: "string \<Rightarrow> string" where
  "trim_dots_blanks v = rev (dropWhile (\<lambda>c. c = CHR '' '' \<or> c = CHR ''.'') (rev v))"

definition path_control_char :: "char \<Rightarrow> bool" where
  "path_control_char c \<longleftrightarrow> (of_char c :: nat) < 32 \<or> (of_char c :: nat) = 127"

definition device_basename :: "string \<Rightarrow> string" where
  "device_basename v = casefold (trim_dots_blanks (takeWhile (\<lambda>c. c \<noteq> CHR ''.'') v))"

definition valid_path_segment :: "string \<Rightarrow> bool" where
  "valid_path_segment v \<longleftrightarrow>
     \<not> (v = [] \<or> v = ''.'' \<or> v = ''..'' \<or> List.member v (CHR ''/'') \<or> List.member v (CHR 0x5C) \<or> List.member v (CHR '':'')
        \<or> 255 < length v \<or> trim_dots_blanks v \<noteq> v \<or> list_ex path_control_char v)
     \<and> \<not> (win_drive v \<or> win_part_count v \<noteq> 1)
     \<and> \<not> List.member WINDOWS_RESERVED_BASENAMES (device_basename v)"

definition is_safe_relative_path :: "string \<Rightarrow> bool" where
  "is_safe_relative_path v \<longleftrightarrow>
     \<not> (v = [] \<or> 1024 < length v)
     \<and> \<not> (hd v = CHR ''/'' \<or> win_drive v \<or> posix_parts v = [] \<or> as_posix (posix_parts v) \<noteq> v)
     \<and> list_all valid_path_segment (posix_parts v)"

subsection \<open>What an accepted path means on either system\<close>

















text \<open>So names that merely look different from a device are refused.\<close>

lemma device_spellings_refused:
  "\<not> valid_path_segment ''CON.html''" "\<not> valid_path_segment ''nul  .txt''" "\<not> valid_path_segment ''Com7''"
  by code_simp+

subsection \<open>Hooks and slots\<close>

record module_binding =
  mb_place :: string
  mb_module :: string
  mb_template :: string
  mb_position :: int

record binding_registry =
  allowed :: "string list"
  mbindings :: "module_binding list"
  inactive_owners :: "string list"

definition hook_pattern :: rx where
  "hook_pattern = Seq (Cls [lower] 1 (Some 1)) (Cls [upper, lower, digit] 0 None)"

text \<open>The constructors; the pattern of slot names is the contracts package's.\<close>

definition make_registry :: "(string \<Rightarrow> bool) \<Rightarrow> string list \<Rightarrow> string + binding_registry" where
  "make_registry name_ok names =
     (if list_all name_ok names then Inr \<lparr>allowed = names, mbindings = [], inactive_owners = []\<rparr> else Inl ''invalid names'')"

definition make_hooks :: "string list \<Rightarrow> string + binding_registry" where
  "make_hooks = make_registry (fullmatch hook_pattern)"

definition make_slots :: "(string \<Rightarrow> bool) \<Rightarrow> string list \<Rightarrow> string + binding_registry" where
  "make_slots public_slot_id = make_registry public_slot_id"

definition valid_module_id :: "string \<Rightarrow> bool" where
  "valid_module_id m \<longleftrightarrow> fullmatch owner_pattern m \<and> valid_path_segment m"

definition register_binding ::
  "(string \<Rightarrow> bool) \<Rightarrow> module_binding \<Rightarrow> binding_registry \<Rightarrow> (string + unit) \<times> binding_registry" where
  "register_binding template_ok b r =
     (if \<not> List.member (allowed r) (mb_place b) then (Inl ''unknown place'', r)
      else if \<not> valid_module_id (mb_module b) then (Inl ''invalid module id'', r)
      else if \<not> template_ok (mb_template b) then (Inl ''invalid template'', r)
      else (Inr (), if List.member (mbindings r) b then r else r\<lparr>mbindings := mbindings r @ [b]\<rparr>))"

definition hook_register :: "module_binding \<Rightarrow> binding_registry \<Rightarrow> (string + unit) \<times> binding_registry" where
  "hook_register = register_binding is_safe_relative_path"

definition path_ends_with :: "string \<Rightarrow> string \<Rightarrow> bool" where "path_ends_with s suffix = starts_with (rev s) (rev suffix)"

definition slot_register :: "module_binding \<Rightarrow> binding_registry \<Rightarrow> (string + unit) \<times> binding_registry" where
  "slot_register = register_binding (\<lambda>t. is_safe_relative_path t \<and> path_ends_with t ''.html'')"

definition place_bindings :: "string \<Rightarrow> binding_registry \<Rightarrow> string + module_binding list" where
  "place_bindings place r =
     (if \<not> List.member (allowed r) place then Inl ''unknown place''
      else Inr (sort_key (\<lambda>b. (mb_position b, mb_module b, mb_template b))
             (filter (\<lambda>b. mb_place b = place \<and> \<not> List.member (inactive_owners r) (mb_module b)) (mbindings r))))"

definition set_module_active :: "string \<Rightarrow> bool \<Rightarrow> binding_registry \<Rightarrow> (string + nat) \<times> binding_registry" where
  "set_module_active owner active r =
     (if \<not> valid_module_id owner then (Inl ''invalid module id'', r)
      else let matching = length (filter (\<lambda>b. mb_module b = owner) (mbindings r));
               currently_active = (\<not> List.member (inactive_owners r) owner) in
        if currently_active = active then (Inr 0, r)
        else if active then (Inr matching, r\<lparr>inactive_owners := filter (\<lambda>i. i \<noteq> owner) (inactive_owners r)\<rparr>)
        else (Inr matching, r\<lparr>inactive_owners := owner # inactive_owners r\<rparr>))"

definition active_bindings :: "binding_registry \<Rightarrow> module_binding set" where
  "active_bindings r = {b \<in> set (mbindings r). mb_module b \<notin> set (inactive_owners r)}"

interpretation module_switch: owner_switch "\<lambda>r. set (mbindings r)" active_bindings mb_module valid_module_id set_module_active "\<lambda>_. True"
  by unfold_locales (auto simp: set_module_active_def active_bindings_def Let_def)

definition hook_sort_key :: "module_binding \<Rightarrow> int \<times> string \<times> string" where
  "hook_sort_key b = (mb_position b, mb_module b, mb_template b)"

lemma place_bindings_active:
  assumes "place_bindings place r = Inr bs"
  shows "set bs = {b \<in> active_bindings r. mb_place b = place} \<and> sorted (map hook_sort_key bs)
    \<and> (distinct (mbindings r) \<longrightarrow> distinct bs)"
  using assms by (auto simp: place_bindings_def active_bindings_def hook_sort_key_def [abs_def] split: if_splits)

text \<open>Bindings of one place with one key are equal, so their order is determined.\<close>

lemma hook_sort_key_inj: "mb_place a = mb_place b \<Longrightarrow> hook_sort_key a = hook_sort_key b \<Longrightarrow> a = b"
  by (auto simp: hook_sort_key_def intro: module_binding.equality)

lemma same_place_list:
  assumes "set as = set bs" "distinct as" "distinct bs" "sorted (map hook_sort_key as)" "sorted (map hook_sort_key bs)"
    and "\<And>b. b \<in> set bs \<Longrightarrow> mb_place b = place"
  shows "as = bs"
proof -
  have "inj_on hook_sort_key (set as \<union> set bs)" using assms(1,6) by (auto intro!: inj_onI hook_sort_key_inj)
  then show ?thesis using assms(1-5) by (intro map_sorted_distinct_set_unique) (auto simp: distinct_map)
qed

text \<open>Pausing a module takes its bindings out of every place and nothing else. After a valid module
  is deactivated a hook or slot shows the bindings it showed before less those of the module, in the
  same order; when the module was active and is activated again, it shows what it showed before.\<close>

theorem paused_module_is_hidden:
  assumes "distinct (mbindings r)" "valid_module_id owner" "place_bindings place r = Inr before"
  shows "place_bindings place (snd (set_module_active owner False r)) = Inr (filter (\<lambda>b. mb_module b \<noteq> owner) before)
    \<and> (owner \<notin> set (inactive_owners r) \<longrightarrow>
        place_bindings place (snd (set_module_active owner True (snd (set_module_active owner False r)))) = Inr before)"
proof -
  note b = place_bindings_active [OF assms(3)]
  have al: "allowed (snd (set_module_active o1 a r1)) = allowed r1" "mbindings (snd (set_module_active o1 a r1)) = mbindings r1" for o1 a r1
    by (simp_all add: set_module_active_def Let_def)
  have ex: "\<exists>bs. place_bindings place r1 = Inr bs" if "allowed r1 = allowed r" for r1
    using assms(3) that by (auto simp: place_bindings_def split: if_splits)
  define off where "off = snd (set_module_active owner False r)"
  define on where "on = snd (set_module_active owner True off)"
  have d: "distinct (mbindings off)" "distinct (mbindings on)" using assms(1) by (simp_all add: off_def on_def al)
  obtain hidden where h: "place_bindings place off = Inr hidden" using ex [of off] by (auto simp: off_def al)
  obtain shown where s: "place_bindings place on = Inr shown" using ex [of on] by (auto simp: off_def on_def al)
  note h1 = place_bindings_active [OF h] and s1 = place_bindings_active [OF s]
  have "hidden = filter (\<lambda>b. mb_module b \<noteq> owner) before"
  proof (rule same_place_list [where place = place])
    show "set hidden = set (filter (\<lambda>b. mb_module b \<noteq> owner) before)"
      using h1 b module_switch.turns_off [OF TrueI assms(2), of r] by (auto simp: off_def)
    show "sorted (map hook_sort_key (filter (\<lambda>b. mb_module b \<noteq> owner) before))" using b by (simp add: sorted_filter)
  qed (use h1 b d assms(1) in auto)
  moreover have "shown = before" if "owner \<notin> set (inactive_owners r)"
  proof (rule same_place_list [where place = place])
    have "active_bindings on = active_bindings r"
      unfolding on_def off_def using that
      by (intro module_switch.pause_restores [OF TrueI assms(2)]) (simp add: active_bindings_def)
    then show "set shown = set before" using s1 b by simp
  qed (use s1 b d assms(1) in auto)
  ultimately show ?thesis using h s by (simp add: off_def on_def)
qed

definition demo_hook :: module_binding where
  "demo_hook = \<lparr>mb_place = ''header'', mb_module = ''shop'', mb_template = ''a.html'', mb_position = 1\<rparr>"

theorem paused_module_is_hidden_witness:
  "\<exists>r. make_hooks [''header''] = Inr r
     \<and> place_bindings ''header'' (snd (set_module_active ''shop'' False (snd (hook_register demo_hook r)))) = Inr []
     \<and> place_bindings ''header'' (snd (hook_register demo_hook r)) = Inr [demo_hook]"
proof -
  have v: "valid_module_id ''shop''" "is_safe_relative_path ''a.html''" "fullmatch hook_pattern ''header''" by code_simp+
  define r where "r = \<lparr>allowed = [''header''], mbindings = [], inactive_owners = []\<rparr>"
  have m: "make_hooks [''header''] = Inr r" by (simp add: make_hooks_def make_registry_def v r_def)
  have s: "snd (hook_register demo_hook r) = r\<lparr>mbindings := [demo_hook]\<rparr>"
    by (simp add: hook_register_def register_binding_def r_def demo_hook_def v)
  have b: "place_bindings ''header'' (r\<lparr>mbindings := [demo_hook]\<rparr>) = Inr [demo_hook]"
    by (simp add: place_bindings_def r_def demo_hook_def)
  have d: "distinct (mbindings (r\<lparr>mbindings := [demo_hook]\<rparr>))" by simp
  from paused_module_is_hidden [OF d v(1) b] show ?thesis using m b s by (auto simp: demo_hook_def)
qed

subsection \<open>Health issues\<close>

record 'i health_issue =
  hi_owner :: string
  hi_info :: 'i

record 'i health_registry =
  hr_limit :: nat
  hr_issues :: "'i health_issue list"

definition MAX_HEALTH_ISSUES :: nat where "MAX_HEALTH_ISSUES = 256"

definition make_health :: "nat \<Rightarrow> string + 'i health_registry" where
  "make_health limit =
     (if \<not> (1 \<le> limit \<and> limit \<le> 10000) then Inl ''health issue limit must be between 1 and 10000''
      else Inr \<lparr>hr_limit = limit, hr_issues = []\<rparr>)"

definition owner_count :: "'i health_issue list \<Rightarrow> string \<Rightarrow> nat" where
  "owner_count issues owner = length (filter (\<lambda>i. hi_owner i = owner) issues)"

definition noisiest :: "'i health_issue list \<Rightarrow> nat" where
  "noisiest issues = foldr max (map (\<lambda>i. owner_count issues (hi_owner i)) issues) 0"

fun delete_first :: "('a \<Rightarrow> bool) \<Rightarrow> 'a list \<Rightarrow> 'a list" where
  "delete_first p [] = []"
| "delete_first p (x # xs) = (if p x then xs else x # delete_first p xs)"

definition evict_one :: "'i health_issue list \<Rightarrow> 'i health_issue list" where
  "evict_one issues = delete_first (\<lambda>i. owner_count issues (hi_owner i) = noisiest issues) issues"

lemma foldr_max: "x \<in> set xs \<Longrightarrow> x \<le> foldr max xs (0::nat)"
  by (induction xs) auto

lemma foldr_max_in: "xs \<noteq> [] \<Longrightarrow> foldr max xs (0::nat) \<in> set xs"
proof (induction xs)
  case (Cons x xs)
  then show ?case by (cases "xs = []") (auto simp: max_def)
qed simp

lemma delete_first_split:
  "x \<in> set xs \<Longrightarrow> p x \<Longrightarrow> \<exists>a y b. xs = a @ y # b \<and> delete_first p xs = a @ b \<and> p y \<and> (\<forall>z\<in>set a. \<not> p z)"
proof (induction xs)
  case (Cons z xs)
  show ?case
  proof (cases "p z")
    case True
    then show ?thesis by (intro exI [of _ "[]"]) simp
  next
    case False
    then obtain a y b where "xs = a @ y # b" "delete_first p xs = a @ b" "p y" "\<forall>z\<in>set a. \<not> p z" using Cons by auto
    then show ?thesis using False by (intro exI [of _ "z # a"]) auto
  qed
qed simp

text \<open>The eviction removes the oldest issue among the owners with the most.\<close>

lemma evict_one_split:
  assumes "issues \<noteq> []"
  shows "\<exists>a y b. issues = a @ y # b \<and> evict_one issues = a @ b
    \<and> (\<forall>i\<in>set issues. owner_count issues (hi_owner i) \<le> owner_count issues (hi_owner y))
    \<and> (\<forall>z\<in>set a. owner_count issues (hi_owner z) < owner_count issues (hi_owner y))"
proof -
  let ?cs = "map (\<lambda>i. owner_count issues (hi_owner i)) issues"
  have top: "owner_count issues (hi_owner i) \<le> noisiest issues" if "i \<in> set issues" for i
    unfolding noisiest_def using that by (intro foldr_max) auto
  have "noisiest issues \<in> set ?cs" unfolding noisiest_def using assms by (intro foldr_max_in) simp
  then obtain i where "i \<in> set issues" "owner_count issues (hi_owner i) = noisiest issues" by auto
  from delete_first_split [of i issues "\<lambda>i. owner_count issues (hi_owner i) = noisiest issues", OF this, folded evict_one_def]
  obtain a y b where s: "issues = a @ y # b" "evict_one issues = a @ b" "owner_count issues (hi_owner y) = noisiest issues"
    "\<forall>z\<in>set a. owner_count issues (hi_owner z) \<noteq> noisiest issues"
    by (elim exE conjE) blast
  have "owner_count issues (hi_owner z) < noisiest issues" if "z \<in> set a" for z
    using that s(4) top [of z] s(1) by (simp add: order.not_eq_order_implies_strict)
  then show ?thesis using s top by (intro exI [of _ a] exI [of _ y] exI [of _ b]) simp
qed

lemma evict_one_shorter: "issues \<noteq> [] \<Longrightarrow> length (evict_one issues) < length issues"
  using evict_one_split [of issues] by auto

function evict_over :: "nat \<Rightarrow> 'i health_issue list \<Rightarrow> 'i health_issue list" where
  "evict_over limit issues = (if length issues \<le> limit then issues else evict_over limit (evict_one issues))"
  by pat_completeness auto
termination
  by (relation "measure (\<lambda>(limit, issues). length issues)") (auto intro!: evict_one_shorter)

declare evict_over.simps [simp del]

definition health_report :: "'i health_issue \<Rightarrow> 'i health_registry \<Rightarrow> 'i health_registry" where
  "health_report issue r = r\<lparr>hr_issues := evict_over (hr_limit r) (hr_issues r @ [issue])\<rparr>"

definition health_issues :: "string option \<Rightarrow> 'i health_registry \<Rightarrow> 'i health_issue list" where
  "health_issues owner r = (case owner of None \<Rightarrow> hr_issues r | Some o' \<Rightarrow> filter (\<lambda>i. hi_owner i = o') (hr_issues r))"

definition health_clear :: "string option \<Rightarrow> 'i health_registry \<Rightarrow> nat \<times> 'i health_registry" where
  "health_clear owner r =
     (case owner of
        None \<Rightarrow> (length (hr_issues r), r\<lparr>hr_issues := []\<rparr>)
      | Some o' \<Rightarrow> let kept = filter (\<lambda>i. hi_owner i \<noteq> o') (hr_issues r)
                   in (length (hr_issues r) - length kept, r\<lparr>hr_issues := kept\<rparr>))"

lemma evict_over_once:
  assumes "length issues = limit + 1"
  shows "evict_over limit issues = evict_one issues"
proof -
  have "issues \<noteq> []" using assms by auto
  then obtain a y b where "issues = a @ y # b" "evict_one issues = a @ b" using evict_one_split by blast
  then have "length (evict_one issues) = limit" using assms by simp
  then show ?thesis using assms by (simp add: evict_over.simps [of limit issues] evict_over.simps [of limit "evict_one issues"])
qed

text \<open>C34: the list of health issues is bounded and fair. A report to a registry within its limit keeps it
  within the limit, and the reported issue is the newest one kept. If nothing had to go, the others
  are all kept; otherwise exactly one issue is dropped, the order of the rest is kept, and the dropped
  one belonged to an owner that no other owner exceeded, so an owner with fewer issues loses none.\<close>

theorem health_report_bounded_and_fair:
  assumes "1 \<le> hr_limit r" "length (hr_issues r) \<le> hr_limit r"
  shows "length (hr_issues (health_report issue r)) \<le> hr_limit r
    \<and> (\<exists>older. hr_issues (health_report issue r) = older @ [issue] \<and>
        (older = hr_issues r \<or>
         (\<exists>a y b. hr_issues r = a @ y # b \<and> older = a @ b \<and>
           (\<forall>i\<in>set (hr_issues r @ [issue]). owner_count (hr_issues r @ [issue]) (hi_owner i) \<le> owner_count (hr_issues r @ [issue]) (hi_owner y)))))"
proof (cases "length (hr_issues r) < hr_limit r")
  case True
  then show ?thesis by (simp add: health_report_def evict_over.simps)
next
  case False
  let ?all = "hr_issues r @ [issue]"
  have "evict_over (hr_limit r) ?all = evict_one ?all" using False assms(2) by (intro evict_over_once) simp
  then have new: "hr_issues (health_report issue r) = evict_one ?all" by (simp add: health_report_def)
  obtain a y b where s: "?all = a @ y # b" "evict_one ?all = a @ b"
    "\<forall>i\<in>set ?all. owner_count ?all (hi_owner i) \<le> owner_count ?all (hi_owner y)"
    "\<forall>z\<in>set a. owner_count ?all (hi_owner z) < owner_count ?all (hi_owner y)"
  proof -
    have "?all \<noteq> []" by simp
    from evict_one_split [OF this] that show ?thesis by (elim exE conjE)
  qed
  have "b \<noteq> []"
  proof
    assume b: "b = []"
    then have y: "y = issue" "a = hr_issues r" using s(1) by auto
    then have "hr_issues r \<noteq> []" using False assms(1) by auto
    then obtain z where z: "z \<in> set (hr_issues r)" by (cases "hr_issues r") auto
    then have less: "owner_count ?all (hi_owner z) < owner_count ?all (hi_owner issue)" using s(4) y by simp
    have other: "hi_owner w \<noteq> hi_owner issue" if "w \<in> set (hr_issues r)" for w using s(4) y that by fastforce
    then have "owner_count ?all (hi_owner issue) = 1" by (simp add: owner_count_def filter_False)
    moreover have "owner_count ?all (hi_owner z) \<noteq> 0" using z by (auto simp: owner_count_def filter_empty_conv)
    ultimately show False using less by simp
  qed
  then obtain b' where b: "b = b' @ [issue]" "hr_issues r = a @ y # b'"
    using s(1) by (cases b rule: rev_cases) auto
  show ?thesis unfolding new s(2) using s(3) b assms(2) by auto
qed

theorem health_report_bounded_and_fair_witness:
  "let i = (\<lambda>o' n. \<lparr>hi_owner = o', hi_info = n::nat\<rparr>); r = \<lparr>hr_limit = 2, hr_issues = [i ''quiet'' 1, i ''noisy'' 2]\<rparr> in
     hr_issues (health_report (i ''noisy'' 3) r) = [i ''quiet'' 1, i ''noisy'' 3] \<and> length (hr_issues (health_report (i ''noisy'' 3) r)) \<le> 2"
proof -
  let ?i = "\<lambda>o' n. \<lparr>hi_owner = o', hi_info = n::nat\<rparr>"
  let ?r = "\<lparr>hr_limit = 2, hr_issues = [?i ''quiet'' 1, ?i ''noisy'' 2]\<rparr>"
  have "hr_issues (health_report (?i ''noisy'' 3) ?r) = [?i ''quiet'' 1, ?i ''noisy'' 3]"
    by (simp add: health_report_def evict_over_once) (simp add: evict_one_def owner_count_def noisiest_def)
  moreover have "1 \<le> hr_limit ?r" "length (hr_issues ?r) \<le> hr_limit ?r" by simp_all
  ultimately show ?thesis using health_report_bounded_and_fair [of ?r "?i ''noisy'' 3"] by (simp add: Let_def)
qed

end
