(* ===== verification/Audit_Log.thy ===== *)
theory Audit_Log
  imports Job_Payload Hash_Chain
begin

text \<open>
  \<open>audit.py\<close>: the append-only, HMAC-chained audit log. The state is the file, a list of lines (or no
  file); every call holds the exclusive lock, so it is one function of the file. The HMAC and the
  texts of timestamps are functions of the environment \<open>audit_env\<close>.
\<close>

subsection \<open>Data\<close>

datatype audit_error =
    AuditValueError string
  | AuditTypeError string
  | AuditIntegrityError string

datatype audit_outcome = Audit_Success | Audit_Failure | Audit_Denied

fun outcome_value :: "audit_outcome \<Rightarrow> string" where
  "outcome_value Audit_Success = ''success''"
| "outcome_value Audit_Failure = ''failure''"
| "outcome_value Audit_Denied = ''denied''"

record audit_event =
  ae_sequence :: int
  ae_occurred_at :: datetime
  ae_actor_id :: "string option"
  ae_action :: string
  ae_target_type :: string
  ae_target_id :: "string option"
  ae_outcome :: audit_outcome
  ae_metadata :: pyval
  ae_previous_hash :: string
  ae_event_hash :: string

record audit_verification =
  av_event_count :: int
  av_head_hash :: string

record audit_env =
  audit_key :: string
  audit_hmac :: "string \<Rightarrow> string \<Rightarrow> string"
  audit_isoformat :: "datetime \<Rightarrow> string"
  audit_json_time :: "datetime \<Rightarrow> string"

text \<open>A line on disk: its size, whether it ends in a newline, and what it parses to.\<close>

record audit_line =
  al_bytes :: nat
  al_complete :: bool
  al_event :: "audit_event option"

type_synonym audit_file = "audit_line list option"

definition AUDIT_GENESIS_HASH :: string where "AUDIT_GENESIS_HASH = replicate 64 CHR ''0''"
definition MAX_AUDIT_METADATA_BYTES :: nat where "MAX_AUDIT_METADATA_BYTES = 64 * 1024"
definition MAX_AUDIT_METADATA_DEPTH :: nat where "MAX_AUDIT_METADATA_DEPTH = 16"
definition MAX_AUDIT_METADATA_KEYS :: nat where "MAX_AUDIT_METADATA_KEYS = 512"
definition MAX_AUDIT_METADATA_ITEMS :: nat where "MAX_AUDIT_METADATA_ITEMS = 4096"
definition MAX_AUDIT_METADATA_KEY_BYTES :: nat where "MAX_AUDIT_METADATA_KEY_BYTES = 128"
definition MAX_AUDIT_RECORD_BYTES :: nat where "MAX_AUDIT_RECORD_BYTES = 128 * 1024"

definition AUDIT_SENSITIVE_PARTS :: "string list" where
  "AUDIT_SENSITIVE_PARTS =
     [''authorization'', ''cookie'', ''credential'', ''password'', ''secret'', ''token'']"

definition AUDIT_SENSITIVE_COMPACT_KEYS :: "string list" where
  "AUDIT_SENSITIVE_COMPACT_KEYS =
     [''accesstoken'', ''apikey'', ''clientsecret'', ''privatekey'', ''refreshtoken'', ''sessioncookie'']"

subsection \<open>Metadata\<close>

definition audit_name_pattern :: rx where
  "audit_name_pattern =
     Seq (Cls [lower] 1 (Some 1))
       (Cls [lower, digit, single CHR ''_'', single CHR ''.'', single CHR '':'', single CHR ''-''] 1 (Some 127))"

definition audit_validate_name :: "string \<Rightarrow> string \<Rightarrow> audit_error + string" where
  "audit_validate_name v label =
     (if fullmatch audit_name_pattern v then Inr v else Inl (AuditValueError (''invalid audit '' @ label)))"

definition is_sensitive_metadata_key :: "string \<Rightarrow> bool" where
  "is_sensitive_metadata_key key =
     (let ordered_parts = alnum_parts [] (casefold (camel_boundaries key));
          compact = concat ordered_parts
      in list_ex (\<lambda>part. List.member AUDIT_SENSITIVE_PARTS part) ordered_parts
         \<or> List.member AUDIT_SENSITIVE_COMPACT_KEYS compact)"

fun metadata_keys :: "nat \<Rightarrow> (pykey \<times> pyval) list \<Rightarrow> audit_error + nat" where
  "metadata_keys key_count [] = Inr key_count"
| "metadata_keys key_count ((KObj, nested) # items) =
     Inl (AuditValueError ''audit metadata field names must be strings'')"
| "metadata_keys key_count ((KStr key, nested) # items) =
     (if \<not> (1 \<le> utf8_length key \<and> utf8_length key \<le> MAX_AUDIT_METADATA_KEY_BYTES) \<or> list_ex control_char key
      then Inl (AuditValueError ''audit metadata field name is invalid'')
      else if MAX_AUDIT_METADATA_KEYS < key_count + 1
      then Inl (AuditValueError ''audit metadata exceeds the key limit'')
      else if is_sensitive_metadata_key key
      then Inl (AuditValueError ''audit metadata contains a sensitive field'')
      else metadata_keys (key_count + 1) items)"

text \<open>The walk keeps an explicit stack with its top at the head.\<close>

function metadata_walk :: "(pyval \<times> nat) list \<Rightarrow> nat list \<Rightarrow> nat \<Rightarrow> nat \<Rightarrow> audit_error + unit" where
  "metadata_walk [] seen key_count item_count = Inr ()"
| "metadata_walk ((current, depth) # stack) seen key_count item_count =
     (if MAX_AUDIT_METADATA_ITEMS < item_count + 1
      then Inl (AuditValueError ''audit metadata exceeds the item limit'')
      else if MAX_AUDIT_METADATA_DEPTH < depth
      then Inl (AuditValueError ''audit metadata exceeds the depth limit'')
      else case current of
        VDict i items \<Rightarrow>
          if already_seen i seen then Inl (AuditValueError ''audit metadata must be acyclic'')
          else (case metadata_keys key_count items of
                  Inl e \<Rightarrow> Inl e
                | Inr key_count' \<Rightarrow>
                    metadata_walk (rev (map (\<lambda>(k, v). (v, depth + 1)) items) @ stack)
                      (note_seen i seen) key_count' (item_count + 1))
      | VList i items \<Rightarrow>
          if already_seen i seen then Inl (AuditValueError ''audit metadata must be acyclic'')
          else metadata_walk (rev (map (\<lambda>v. (v, depth + 1)) items) @ stack)
                 (note_seen i seen) key_count (item_count + 1)
      | _ \<Rightarrow> metadata_walk stack seen key_count (item_count + 1))"
  by pat_completeness auto
termination
  by (relation "measure (\<lambda>(st, _, _, _). stack_nodes st)") auto

definition validate_metadata_structure :: "pyval \<Rightarrow> audit_error + unit" where
  "validate_metadata_structure value = metadata_walk [(value, 1)] [] 0 0"

definition metadata_copy :: "pyval \<Rightarrow> audit_error + pyval" where
  "metadata_copy value =
     (if \<not> is_mapping value then Inl (AuditTypeError ''audit metadata must be an object'')
      else case validate_metadata_structure value of Inl e \<Rightarrow> Inl e | Inr _ \<Rightarrow>
      if \<not> json_safe value then Inl (AuditTypeError ''audit metadata must be JSON-serializable'')
      else let decoded = canon value in
        if MAX_AUDIT_METADATA_BYTES < utf8_length (json_dumps decoded)
        then Inl (AuditValueError ''audit metadata exceeds the size limit'')
        else Inr decoded)"

text \<open>\<open>metadata or {}\<close>: an absent or falsy value is an empty object.\<close>

fun metadata_or_empty :: "pyval option \<Rightarrow> pyval" where
  "metadata_or_empty None = VDict None []"
| "metadata_or_empty (Some v) =
     (if v = VNull \<or> v = VBool False \<or> v = VInt 0 \<or> v = VStr [] then VDict None []
      else case v of VList i [] \<Rightarrow> VDict None [] | VDict i [] \<Rightarrow> VDict None [] | _ \<Rightarrow> v)"

definition audit_as_utc :: "int \<Rightarrow> datetime option \<Rightarrow> audit_error + int" where
  "audit_as_utc clock occurred_at =
     utc_or_now (AuditValueError ''audit timestamp must be timezone-aware'') clock occurred_at"

subsection \<open>Signing and verification\<close>

definition text_or_null :: "string option \<Rightarrow> pyval" where
  "text_or_null t = (case t of None \<Rightarrow> VNull | Some s \<Rightarrow> VStr s)"

text \<open>The members are listed in key order; \<open>canon\<close> is the key order inside the metadata.\<close>

definition audit_fields :: "(datetime \<Rightarrow> string) \<Rightarrow> audit_event \<Rightarrow> (pykey \<times> pyval) list" where
  "audit_fields fmt e =
     [(KStr ''action'', VStr (ae_action e)),
      (KStr ''actor_id'', text_or_null (ae_actor_id e)),
      (KStr ''metadata'', canon (ae_metadata e)),
      (KStr ''occurred_at'', VStr (fmt (ae_occurred_at e))),
      (KStr ''outcome'', VStr (outcome_value (ae_outcome e))),
      (KStr ''previous_hash'', VStr (ae_previous_hash e)),
      (KStr ''sequence'', VInt (ae_sequence e)),
      (KStr ''target_id'', text_or_null (ae_target_id e)),
      (KStr ''target_type'', VStr (ae_target_type e))]"

definition audit_body :: "audit_env \<Rightarrow> audit_event \<Rightarrow> pyval" where
  "audit_body env e = VDict None (audit_fields (audit_isoformat env) e)"

definition audit_sign :: "audit_env \<Rightarrow> pyval \<Rightarrow> string" where
  "audit_sign env body = audit_hmac env (audit_key env) (json_dumps body)"

definition audit_text :: "audit_env \<Rightarrow> audit_event \<Rightarrow> string" where
  "audit_text env e =
     json_dumps (VDict None
       (take 2 (audit_fields (audit_json_time env) e) @ [(KStr ''event_hash'', VStr (ae_event_hash e))]
        @ drop 2 (audit_fields (audit_json_time env) e))) @ [CHR 0x0A]"

text \<open>\<open>_iter_verified_events\<close>: the loop from line \<open>n + 1\<close> with the hash of line \<open>n\<close>.\<close>

definition verify_audit_line :: "audit_env \<Rightarrow> nat \<Rightarrow> string \<Rightarrow> audit_line \<Rightarrow> audit_error + audit_event" where
  "verify_audit_line env n previous_hash line =
     (let at_line = ('' line '' @ nat_digits (n + 1)) in
      if MAX_AUDIT_RECORD_BYTES < al_bytes line
      then Inl (AuditIntegrityError (''audit'' @ at_line @ '' exceeds the size limit''))
      else if \<not> al_complete line then Inl (AuditIntegrityError (''audit'' @ at_line @ '' is incomplete''))
      else case al_event line of
        None \<Rightarrow> Inl (AuditIntegrityError ''audit journal cannot be verified'')
      | Some e \<Rightarrow>
          if ae_sequence e \<noteq> int (n + 1) then Inl (AuditIntegrityError (''invalid audit sequence at'' @ at_line))
          else if ae_previous_hash e \<noteq> previous_hash
          then Inl (AuditIntegrityError (''broken audit chain at'' @ at_line))
          else if ae_event_hash e \<noteq> audit_sign env (audit_body env e)
          then Inl (AuditIntegrityError (''invalid audit signature at'' @ at_line))
          else Inr e)"

fun verify_audit_lines :: "audit_env \<Rightarrow> nat \<Rightarrow> string \<Rightarrow> audit_line list \<Rightarrow> audit_error + audit_event list" where
  "verify_audit_lines env n previous_hash [] = Inr []"
| "verify_audit_lines env n previous_hash (l # ls) =
     (case verify_audit_line env n previous_hash l of Inl x \<Rightarrow> Inl x | Inr e \<Rightarrow>
      case verify_audit_lines env (n + 1) (ae_event_hash e) ls of Inl x \<Rightarrow> Inl x | Inr es \<Rightarrow> Inr (e # es))"

definition audit_read :: "audit_env \<Rightarrow> audit_file \<Rightarrow> audit_error + audit_event list" where
  "audit_read env file =
     (case file of None \<Rightarrow> Inr [] | Some ls \<Rightarrow> verify_audit_lines env 0 AUDIT_GENESIS_HASH ls)"

definition audit_count :: "audit_event list \<Rightarrow> int" where
  "audit_count evs = (if evs = [] then 0 else ae_sequence (last evs))"

definition audit_head :: "audit_event list \<Rightarrow> string" where
  "audit_head evs = (if evs = [] then AUDIT_GENESIS_HASH else ae_event_hash (last evs))"

subsection \<open>Operations\<close>

definition make_audit_log :: "audit_env \<Rightarrow> audit_error + audit_env" where
  "make_audit_log env =
     (if length (audit_key env) < 32
      then Inl (AuditValueError ''audit integrity key must contain at least 32 bytes'') else Inr env)"

definition audit_append_line :: "audit_env \<Rightarrow> audit_event \<Rightarrow> audit_file \<Rightarrow> (audit_error + unit) \<times> audit_file" where
  "audit_append_line env e file =
     (let n = utf8_length (audit_text env e) in
      if MAX_AUDIT_RECORD_BYTES < n then (Inl (AuditValueError ''audit event exceeds the size limit''), file)
      else (Inr (), Some ((case file of None \<Rightarrow> [] | Some ls \<Rightarrow> ls)
                          @ [\<lparr>al_bytes = n, al_complete = True, al_event = Some e\<rparr>])))"

record audit_entry =
  an_actor_id :: "string option"
  an_action :: string
  an_target_type :: string
  an_target_id :: "string option"
  an_outcome :: audit_outcome
  an_metadata :: "pyval option"
  an_occurred_at :: "datetime option"

definition new_audit_event :: "audit_env \<Rightarrow> audit_event list \<Rightarrow> audit_entry \<Rightarrow> int \<Rightarrow> pyval \<Rightarrow> audit_event" where
  "new_audit_event env evs a timestamp safe_metadata =
     (let e = \<lparr>ae_sequence = audit_count evs + 1, ae_occurred_at = Aware timestamp, ae_actor_id = an_actor_id a,
               ae_action = an_action a, ae_target_type = an_target_type a, ae_target_id = an_target_id a,
               ae_outcome = an_outcome a, ae_metadata = safe_metadata, ae_previous_hash = audit_head evs, ae_event_hash = []\<rparr>
      in e\<lparr>ae_event_hash := audit_sign env (audit_body env e)\<rparr>)"

definition audit_append :: "audit_env \<Rightarrow> int \<Rightarrow> audit_entry \<Rightarrow> audit_file \<Rightarrow> (audit_error + audit_event) \<times> audit_file" where
  "audit_append env clock a file =
     (case audit_validate_name (an_action a) ''action'' of Inl x \<Rightarrow> (Inl x, file) | Inr _ \<Rightarrow>
      case audit_validate_name (an_target_type a) ''target type'' of Inl x \<Rightarrow> (Inl x, file) | Inr _ \<Rightarrow>
      case audit_as_utc clock (an_occurred_at a) of Inl x \<Rightarrow> (Inl x, file) | Inr timestamp \<Rightarrow>
      case metadata_copy (metadata_or_empty (an_metadata a)) of Inl x \<Rightarrow> (Inl x, file) | Inr safe_metadata \<Rightarrow>
      case audit_read env file of Inl x \<Rightarrow> (Inl x, file) | Inr evs \<Rightarrow>
        (let e = new_audit_event env evs a timestamp safe_metadata in
         case audit_append_line env e file of
           (Inl x, f) \<Rightarrow> (Inl x, f)
         | (Inr _, f) \<Rightarrow> (Inr e, f)))"

definition audit_events :: "audit_env \<Rightarrow> audit_file \<Rightarrow> audit_error + audit_event list" where
  "audit_events env file = audit_read env file"

definition audit_verify :: "audit_env \<Rightarrow> string option \<Rightarrow> audit_file \<Rightarrow> audit_error + audit_verification" where
  "audit_verify env expected_head file =
     (case audit_read env file of Inl x \<Rightarrow> Inl x | Inr evs \<Rightarrow>
      case expected_head of
        None \<Rightarrow> Inr \<lparr>av_event_count = audit_count evs, av_head_hash = audit_head evs\<rparr>
      | Some h \<Rightarrow>
          if audit_head evs \<noteq> h then Inl (AuditIntegrityError ''audit head does not match the trusted checkpoint'')
          else Inr \<lparr>av_event_count = audit_count evs, av_head_hash = audit_head evs\<rparr>)"

end
