(* ===== verification/Audit_Safety.thy ===== *)
theory Audit_Safety
  imports Audit_Log
begin

text \<open>
  Properties of the audit log: which metadata it accepts, what one append adds, and that a trusted
  head determines the whole log.
\<close>

subsection \<open>Metadata are accepted as job payloads are\<close>

lemma sensitive_key_same: "is_sensitive_metadata_key k = is_sensitive_payload_key k"
  by (simp add: is_sensitive_metadata_key_def is_sensitive_payload_key_def AUDIT_SENSITIVE_PARTS_def SENSITIVE_KEYS_def
      AUDIT_SENSITIVE_COMPACT_KEYS_def SENSITIVE_COMPACT_KEYS_def)

lemma audit_limits:
  "MAX_AUDIT_METADATA_ITEMS = MAX_JOB_PAYLOAD_ITEMS" "MAX_AUDIT_METADATA_DEPTH = MAX_JOB_PAYLOAD_DEPTH"
  "MAX_AUDIT_METADATA_KEYS = MAX_JOB_PAYLOAD_KEYS" "MAX_AUDIT_METADATA_KEY_BYTES = MAX_JOB_PAYLOAD_KEY_BYTES"
  "MAX_AUDIT_METADATA_BYTES = MAX_JOB_PAYLOAD_BYTES"
  by (simp_all add: payload_limits MAX_AUDIT_METADATA_ITEMS_def MAX_AUDIT_METADATA_DEPTH_def
      MAX_AUDIT_METADATA_KEYS_def MAX_AUDIT_METADATA_KEY_BYTES_def MAX_AUDIT_METADATA_BYTES_def)

lemma metadata_keys_same: "metadata_keys n items = Inr m \<longleftrightarrow> scan_keys n items = Inr m"
  by (induction n items rule: metadata_keys.induct) (auto simp: audit_limits key_shape_ok_def sensitive_key_same)

lemma metadata_walk_same: "metadata_walk st seen kc ic = Inr () \<longleftrightarrow> validate_loop st seen kc ic = Inr ()"
proof (induction st seen kc ic rule: metadata_walk.induct)
  case (2 current depth stack seen kc ic)
  show ?case
  proof (cases "MAX_AUDIT_METADATA_ITEMS < ic + 1 \<or> MAX_AUDIT_METADATA_DEPTH < depth")
    case True
    then show ?thesis by (auto simp: audit_limits)
  next
    case False
    then have b: "\<not> MAX_AUDIT_METADATA_ITEMS < ic + 1" "\<not> MAX_AUDIT_METADATA_DEPTH < depth" by auto
    show ?thesis
    proof (cases current)
      case (VDict i items)
      show ?thesis
      proof (cases "metadata_keys kc items")
        case (Inl e)
        then have "\<exists>e'. scan_keys kc items = Inl e'"
          by (cases "scan_keys kc items") (use metadata_keys_same [of kc items] in auto)
        then show ?thesis using Inl VDict b by (auto simp: audit_limits)
      next
        case (Inr m)
        then have "scan_keys kc items = Inr m" by (simp add: metadata_keys_same)
        then show ?thesis using Inr VDict b 2 by (auto simp: audit_limits)
      qed
    qed (use b 2 in \<open>auto simp: audit_limits\<close>)
  qed
qed simp

lemma validate_metadata_iff: "validate_metadata_structure v = Inr () \<longleftrightarrow> within_limits v"
  unfolding validate_metadata_structure_def metadata_walk_same validate_payload_structure_iff [symmetric]
    validate_payload_structure_def by (rule refl)

text \<open>
  Audit metadata are accepted exactly when they would be accepted as the payload of a job, and
  the same canonical copy is stored: an object within the limits on items, depth, keys and bytes, without
  shared containers and without a sensitive field at any depth.
\<close>

lemma metadata_copy_iff:
  "metadata_copy v = Inr q \<longleftrightarrow>
     is_mapping v \<and> within_limits v \<and> json_safe v \<and> q = canon v
     \<and> utf8_length (json_dumps q) \<le> MAX_AUDIT_METADATA_BYTES"
  using validate_metadata_iff [of v]
  by (cases "validate_metadata_structure v") (auto simp: metadata_copy_def Let_def)

lemma metadata_copy_payload: "metadata_copy v = Inr q \<longleftrightarrow> safe_payload v = Inr q"
  by (simp add: metadata_copy_iff safe_payload_iff audit_limits)

subsection \<open>Appending\<close>

lemma keys_allowed_plain: "keys_allowed v \<Longrightarrow> json_safe v \<Longrightarrow> json_plain (canon v)"
proof (induction v rule: canon.induct)
  case (2 i kvs)
  have "k \<noteq> KObj \<and> json_plain (canon v)" if "(k, v) \<in> set kvs" for k v
    using 2(1) [OF that refl] 2(2,3) that by (auto simp: list_all_iff key_allowed_def)
  then show ?case by (auto simp: list_all_iff)
qed (auto simp: list_all_iff)

lemma metadata_copy_plain:
  assumes "metadata_copy v = Inr q" shows "json_plain q" "canon q = q" "is_mapping q" "keys_allowed q"
  using assms keys_allowed_plain by (auto simp: metadata_copy_iff within_limits_def)

lemma verify_audit_lines_append:
  "verify_audit_lines env n h (ls @ ls') =
     (case verify_audit_lines env n h ls of Inl x \<Rightarrow> Inl x | Inr es \<Rightarrow>
      case verify_audit_lines env (n + length ls) (if es = [] then h else ae_event_hash (last es)) ls' of
        Inl x \<Rightarrow> Inl x | Inr es' \<Rightarrow> Inr (es @ es'))"
proof (induction ls arbitrary: n h)
  case (Cons l ls)
  show ?case
    by (cases "verify_audit_line env n h l")
      (auto simp: Cons.IH split: sum.splits)
qed (auto split: sum.splits)

lemma verify_audit_line_SomeD:
  assumes "verify_audit_line env n h l = Inr e"
  shows "al_event l = Some e" "ae_sequence e = int n + 1" "ae_previous_hash e = h"
    "ae_event_hash e = audit_sign env (audit_body env e)"
  using assms by (auto simp: verify_audit_line_def Let_def split: if_splits option.splits)

lemma verify_audit_lines_count:
  "verify_audit_lines env n h ls = Inr es \<Longrightarrow> length es = length ls \<and> (es \<noteq> [] \<longrightarrow> ae_sequence (last es) = int (n + length ls))"
proof (induction ls arbitrary: n h es)
  case (Cons l ls)
  then obtain e es' where e: "verify_audit_line env n h l = Inr e" "es = e # es'"
    "verify_audit_lines env (n + 1) (ae_event_hash e) ls = Inr es'"
    by (auto split: sum.splits)
  from Cons.IH [OF e(3)] show ?case using e(2) verify_audit_line_SomeD(2) [OF e(1)] by auto
qed simp

lemma audit_count_length: "audit_read env f = Inr evs \<Longrightarrow> audit_count evs = int (length evs)"
  by (auto simp: audit_read_def audit_count_def split: option.splits dest: verify_audit_lines_count)

lemma new_audit_event_sel [simp]:
  "ae_sequence (new_audit_event env evs a t m) = audit_count evs + 1"
  "ae_previous_hash (new_audit_event env evs a t m) = audit_head evs"
  "ae_occurred_at (new_audit_event env evs a t m) = Aware t"
  "ae_actor_id (new_audit_event env evs a t m) = an_actor_id a"
  "ae_action (new_audit_event env evs a t m) = an_action a"
  "ae_target_type (new_audit_event env evs a t m) = an_target_type a"
  "ae_target_id (new_audit_event env evs a t m) = an_target_id a"
  "ae_outcome (new_audit_event env evs a t m) = an_outcome a"
  "ae_metadata (new_audit_event env evs a t m) = m"
  "ae_event_hash (new_audit_event env evs a t m) = audit_sign env (audit_body env (new_audit_event env evs a t m))"
  by (simp_all add: new_audit_event_def Let_def audit_body_def audit_fields_def)

lemma audit_append_line_read:
  assumes r: "audit_read env f = Inr evs" and w: "audit_append_line env (new_audit_event env evs a t m) f = (Inr u, f')"
  shows "audit_read env f' = Inr (evs @ [new_audit_event env evs a t m])"
proof -
  let ?e = "new_audit_event env evs a t m"
  let ?ls = "case f of None \<Rightarrow> [] | Some ls \<Rightarrow> ls"
  let ?l = "\<lparr>al_bytes = utf8_length (audit_text env ?e), al_complete = True, al_event = Some ?e\<rparr>"
  have f': "f' = Some (?ls @ [?l])" "\<not> MAX_AUDIT_RECORD_BYTES < utf8_length (audit_text env ?e)"
    using w by (auto simp: audit_append_line_def Let_def split: if_splits)
  have v: "verify_audit_lines env 0 AUDIT_GENESIS_HASH ?ls = Inr evs"
    using r by (cases f) (simp_all add: audit_read_def)
  have "length evs = length ?ls" using verify_audit_lines_count [OF v] by simp
  then have "verify_audit_line env (length ?ls) (audit_head evs) ?l = Inr ?e"
    using f'(2) audit_count_length [OF r] by (simp add: verify_audit_line_def)
  then show ?thesis
    using v unfolding f'(1) audit_read_def
    by (simp add: verify_audit_lines_append audit_head_def [symmetric])
qed

definition append_accepted :: "audit_env \<Rightarrow> int \<Rightarrow> audit_entry \<Rightarrow> audit_event list \<Rightarrow> int \<Rightarrow> pyval \<Rightarrow> bool" where
  "append_accepted env clock a evs t m \<longleftrightarrow>
     fullmatch audit_name_pattern (an_action a) \<and> fullmatch audit_name_pattern (an_target_type a)
     \<and> audit_as_utc clock (an_occurred_at a) = Inr t \<and> metadata_copy (metadata_or_empty (an_metadata a)) = Inr m
     \<and> utf8_length (audit_text env (new_audit_event env evs a t m)) \<le> MAX_AUDIT_RECORD_BYTES"

lemma audit_append_iff:
  assumes r: "audit_read env f = Inr evs"
  shows "audit_append env clock a f = (Inr e, f') \<longleftrightarrow>
     (\<exists>t m. append_accepted env clock a evs t m \<and> e = new_audit_event env evs a t m
        \<and> audit_append_line env e f = (Inr (), f'))"
  using r
  by (cases "audit_as_utc clock (an_occurred_at a)"; cases "metadata_copy (metadata_or_empty (an_metadata a))")
    (auto simp: audit_append_def audit_validate_name_def append_accepted_def audit_append_line_def Let_def)

lemma audit_append_refused: "audit_append env clock a f = (Inl x, f') \<Longrightarrow> f' = f"
  by (auto simp: audit_append_def audit_append_line_def Let_def split: sum.splits if_splits)

lemma audit_append_unverified: "audit_read env f = Inl y \<Longrightarrow> \<exists>x. audit_append env clock a f = (Inl x, f)"
  by (auto simp: audit_append_def split: sum.splits)

text \<open>
  C20: an append that fails leaves the log as it was. It succeeds exactly when the stored log verifies and the entry is
  acceptable (names, an aware timestamp, metadata within the limits and the size of the record); then the log
  verifies again and holds one more event, in the next position, linked to the previous head, with the
  given fields and no sensitive field at any depth of its metadata.
\<close>

theorem audit_append_exact:
  "case audit_append env clock a f of
     (Inl x, f') \<Rightarrow> f' = f \<and> \<not> (\<exists>evs t m. audit_read env f = Inr evs \<and> append_accepted env clock a evs t m)
   | (Inr e, f') \<Rightarrow> \<exists>evs t m. audit_read env f = Inr evs \<and> append_accepted env clock a evs t m
       \<and> audit_read env f' = Inr (evs @ [e]) \<and> e = new_audit_event env evs a t m
       \<and> ae_sequence e = int (length evs) + 1 \<and> ae_previous_hash e = audit_head evs \<and> keys_allowed (ae_metadata e)"
proof -
  obtain r f' where a: "audit_append env clock a f = (r, f')" by fastforce
  show ?thesis
  proof (cases r)
    case (Inl x)
    have "\<not> append_accepted env clock a evs t m" if evs: "audit_read env f = Inr evs" for evs t m
    proof
      assume k: "append_accepted env clock a evs t m"
      then obtain f'' where "audit_append_line env (new_audit_event env evs a t m) f = (Inr (), f'')"
        by (simp add: append_accepted_def audit_append_line_def)
      then have "audit_append env clock a f = (Inr (new_audit_event env evs a t m), f'')"
        using audit_append_iff [OF evs] k by blast
      then show False using a Inl by simp
    qed
    then show ?thesis using a Inl audit_append_refused by auto
  next
    case (Inr e)
    then obtain evs where evs: "audit_read env f = Inr evs"
      using a audit_append_unverified [of env f _ clock a] by (cases "audit_read env f") auto
    then obtain t m where m: "append_accepted env clock a evs t m" "e = new_audit_event env evs a t m"
      "audit_append_line env e f = (Inr (), f')"
      using audit_append_iff a Inr by blast
    moreover have "keys_allowed m" using m(1) metadata_copy_plain(4) by (auto simp: append_accepted_def)
    moreover have "audit_read env f' = Inr (evs @ [e])" using audit_append_line_read [OF evs] m(2,3) by blast
    ultimately show ?thesis using a Inr evs audit_count_length [OF evs] by auto
  qed
qed

subsection \<open>A trusted head\<close>

definition plain_event :: "audit_event \<Rightarrow> bool" where
  "plain_event e \<longleftrightarrow> json_plain (ae_metadata e) \<and> is_mapping (ae_metadata e)"

definition audit_signed :: "audit_env \<Rightarrow> audit_event \<Rightarrow> string" where
  "audit_signed env e = json_dumps (audit_body env e)"

lemma canon_plain: "json_plain v \<Longrightarrow> json_plain (canon v)"
proof (induction v rule: canon.induct)
  case (2 i kvs)
  have "k \<noteq> KObj \<and> json_plain (canon v)" if "(k, v) \<in> set kvs" for k v
    using 2(1) [OF that refl] 2(2) that by (auto simp: list_all_iff)
  then show ?case by (auto simp: list_all_iff)
qed (auto simp: list_all_iff)

lemma audit_body_plain: "plain_event e \<Longrightarrow> json_plain (audit_body env e)"
  using canon_plain by (auto simp: plain_event_def audit_body_def audit_fields_def text_or_null_def split: option.splits)

lemma audit_signed_body:
  "plain_event e \<Longrightarrow> plain_event e' \<Longrightarrow> audit_signed env e = audit_signed env e' \<Longrightarrow> audit_body env e = audit_body env e'"
  unfolding audit_signed_def using json_dumps_inj audit_body_plain by blast

interpretation audit_chain: hash_chain plain_event ae_sequence ae_previous_hash ae_event_hash "audit_signed env"
  "audit_hmac env (audit_key env)" AUDIT_GENESIS_HASH for env
proof
  fix e e'
  assume "plain_event e" "plain_event e'" "audit_signed env e = audit_signed env e'"
  from audit_signed_body [OF this]
  show "ae_sequence e = ae_sequence e' \<and> ae_previous_hash e = ae_previous_hash e'"
    by (simp add: audit_body_def audit_fields_def)
qed

abbreviation audit_chained :: "audit_env \<Rightarrow> audit_event list \<Rightarrow> bool" where
  "audit_chained env evs \<equiv>
     hash_chain.chained ae_sequence ae_previous_hash ae_event_hash (audit_signed env)
       (audit_hmac env (audit_key env)) AUDIT_GENESIS_HASH evs"

lemma audit_head_of [simp]: "hash_chain.head_of ae_event_hash AUDIT_GENESIS_HASH evs = audit_head evs"
  by (simp add: audit_chain.head_of_def audit_head_def)

lemma audit_seal: "audit_sign env (audit_body env e) = audit_hmac env (audit_key env) (audit_signed env e)"
  by (simp add: audit_sign_def audit_signed_def)

lemma audit_lines_chained:
  "verify_audit_lines env (length evs) (audit_head evs) ls = Inr es \<Longrightarrow> audit_chained env evs \<Longrightarrow> audit_chained env (evs @ es)"
proof (induction ls arbitrary: evs es)
  case (Cons l ls)
  then obtain e es' where e: "verify_audit_line env (length evs) (audit_head evs) l = Inr e" "es = e # es'"
    "verify_audit_lines env (length (evs @ [e])) (audit_head (evs @ [e])) ls = Inr es'"
    by (auto simp: audit_head_def split: sum.splits)
  have "audit_chained env (evs @ [e])"
    using Cons.prems(2) verify_audit_line_SomeD [OF e(1)]
    by (simp add: audit_chain.chained_snoc audit_seal)
  then show ?case using Cons.IH [OF e(3)] e(2) by simp
qed simp

lemma audit_read_chained: "audit_read env f = Inr evs \<Longrightarrow> audit_chained env evs"
  using audit_lines_chained [of env "[]"]
  by (auto simp: audit_read_def audit_head_def split: option.splits)

text \<open>\<open>json.loads\<close> builds plain objects; an append keeps it so.\<close>

definition audit_parsed :: "audit_file \<Rightarrow> bool" where
  "audit_parsed file \<longleftrightarrow>
     (case file of None \<Rightarrow> True | Some ls \<Rightarrow> list_all (\<lambda>l. case al_event l of None \<Rightarrow> True | Some e \<Rightarrow> plain_event e) ls)"

lemma verify_audit_lines_parsed:
  "verify_audit_lines env n h ls = Inr es \<Longrightarrow> audit_parsed (Some ls) \<Longrightarrow> \<forall>e\<in>set es. plain_event e"
proof (induction ls arbitrary: n h es)
  case (Cons l ls)
  then obtain e es' where e: "verify_audit_line env n h l = Inr e" "es = e # es'"
    "verify_audit_lines env (n + 1) (ae_event_hash e) ls = Inr es'"
    by (auto split: sum.splits)
  then show ?case
    using Cons.IH [OF e(3)] Cons.prems(2) verify_audit_line_SomeD(1) [OF e(1)] by (auto simp: audit_parsed_def)
qed simp

lemma audit_read_parsed: "audit_read env f = Inr evs \<Longrightarrow> audit_parsed f \<Longrightarrow> \<forall>e\<in>set evs. plain_event e"
  by (cases f) (use verify_audit_lines_parsed in \<open>auto simp: audit_read_def\<close>)

lemma audit_append_parsed: "audit_parsed f \<Longrightarrow> audit_parsed (snd (audit_append env clock a f))"
  using metadata_copy_plain
  by (cases f) (auto simp: audit_append_def audit_append_line_def Let_def audit_parsed_def plain_event_def
      split: sum.splits)

text \<open>Objects that differ only in the order of their members are one Python value.\<close>

definition same_event :: "audit_event \<Rightarrow> audit_event \<Rightarrow> bool" where
  "same_event e e' \<longleftrightarrow> e\<lparr>ae_metadata := canon (ae_metadata e)\<rparr> = e'\<lparr>ae_metadata := canon (ae_metadata e')\<rparr>"

lemma outcome_value_inj: "outcome_value a = outcome_value b \<Longrightarrow> a = b"
  by (cases a; cases b) auto

lemma same_eventI:
  assumes "audit_body env e = audit_body env e'" "inj (audit_isoformat env)" "ae_event_hash e = ae_event_hash e'"
  shows "same_event e e'"
  using assms outcome_value_inj [of "ae_outcome e" "ae_outcome e'"]
  by (auto simp: same_event_def audit_body_def audit_fields_def text_or_null_def inj_eq split: option.splits
      intro!: audit_event.equality)

lemma audit_chain_unique:
  assumes c: "audit_chained env evs" "audit_chained env evs'" and ne: "evs \<noteq> []" "evs' \<noteq> []"
    and h: "audit_head evs = audit_head evs'" and iso: "inj (audit_isoformat env)"
    and i: "inj_on (audit_hmac env (audit_key env)) (audit_signed env ` set evs \<union> audit_signed env ` set evs')"
    and g: "\<forall>e\<in>set evs \<union> set evs'. plain_event e"
  shows "list_all2 same_event evs evs'"
proof -
  have t: "map (audit_signed env) evs = map (audit_signed env) evs'"
    using c ne h i g by (intro audit_chain.chain_texts_unique) auto
  have s: "map ae_event_hash evs = map ae_event_hash evs'"
    using audit_chain.chain_seals [OF c(1)] audit_chain.chain_seals [OF c(2)] t by simp
  have len: "length evs = length evs'" using t by (metis length_map)
  have "same_event (evs ! k) (evs' ! k)" if k: "k < length evs" for k
  proof (rule same_eventI [OF audit_signed_body iso])
    show "audit_signed env (evs ! k) = audit_signed env (evs' ! k)" "ae_event_hash (evs ! k) = ae_event_hash (evs' ! k)"
      using t s k len by (metis nth_map)+
  qed (use g k len in auto)
  then show ?thesis using len by (simp add: list_all2_conv_all_nth)
qed

text \<open>
  C21: a trusted head pins the whole audit log: two logs that verify under the same key against the same
  head (other than that of the empty log) hold the same events, up to the order of members inside the
  metadata, unless the HMAC collides on the signed texts of the two logs.
\<close>

theorem audit_head_determines_log:
  assumes "audit_verify env (Some h) f = Inr v" "audit_verify env (Some h) f' = Inr v'" "h \<noteq> AUDIT_GENESIS_HASH"
    and "audit_events env f = Inr evs" "audit_events env f' = Inr evs'" "audit_parsed f" "audit_parsed f'"
    and "inj (audit_isoformat env)"
    and "inj_on (audit_hmac env (audit_key env)) (audit_signed env ` set evs \<union> audit_signed env ` set evs')"
  shows "list_all2 same_event evs evs'"
proof -
  have r: "audit_read env f = Inr evs" "audit_read env f' = Inr evs'" using assms(4,5) by (simp_all add: audit_events_def)
  then have "audit_head evs = h" "audit_head evs' = h"
    using assms(1,2) by (auto simp: audit_verify_def split: if_splits)
  then show ?thesis
    using audit_chain_unique [OF audit_read_chained [OF r(1)] audit_read_chained [OF r(2)]] assms(3,8,9)
      audit_read_parsed [OF r(1) assms(6)] audit_read_parsed [OF r(2) assms(7)]
    by (auto simp: audit_head_def split: if_splits)
qed

definition ex_audit_env :: audit_env where
  "ex_audit_env = \<lparr>audit_key = replicate 32 CHR ''k'', audit_hmac = (\<lambda>k p. replicate 64 CHR ''a''),
     audit_isoformat = tagged_time,
     audit_json_time = (\<lambda>d. ''1970-01-01T00:00:00Z'')\<rparr>"

definition ex_audit_event :: "(pykey \<times> pyval) list \<Rightarrow> audit_event" where
  "ex_audit_event kvs = new_audit_event ex_audit_env []
     \<lparr>an_actor_id = Some ''admin'', an_action = ''login'', an_target_type = ''session'', an_target_id = None,
      an_outcome = Audit_Success, an_metadata = None, an_occurred_at = None\<rparr> 5 (VDict None kvs)"

definition ex_audit_file :: "(pykey \<times> pyval) list \<Rightarrow> audit_file" where
  "ex_audit_file kvs = Some [\<lparr>al_bytes = 300, al_complete = True, al_event = Some (ex_audit_event kvs)\<rparr>]"

lemma ex_audit_read: "audit_read ex_audit_env (ex_audit_file kvs) = Inr [ex_audit_event kvs]"
  by (simp add: audit_read_def ex_audit_file_def verify_audit_line_def ex_audit_event_def MAX_AUDIT_RECORD_BYTES_def
      audit_count_def audit_head_def)

lemma ex_audit_head: "audit_head [ex_audit_event kvs] = replicate 64 CHR ''a''"
  by (simp add: audit_head_def ex_audit_event_def audit_sign_def) (simp add: ex_audit_env_def)

lemma ex_audit_iso: "inj (audit_isoformat ex_audit_env)"
  by (simp add: ex_audit_env_def tagged_time_inj)

theorem audit_head_determines_log_witness:
  "list_all2 same_event [ex_audit_event [(KStr ''a'', VInt 1), (KStr ''b'', VInt 2)]]
     [ex_audit_event [(KStr ''b'', VInt 2), (KStr ''a'', VInt 1)]]"
proof -
  let ?k = "[(KStr ''a'', VInt 1), (KStr ''b'', VInt 2)]" and ?k' = "[(KStr ''b'', VInt 2), (KStr ''a'', VInt 1)]"
  have v: "\<exists>v. audit_verify ex_audit_env (Some (replicate 64 CHR ''a'')) (ex_audit_file kvs) = Inr v" for kvs
    unfolding audit_verify_def ex_audit_read using ex_audit_head by simp
  obtain v v' where "audit_verify ex_audit_env (Some (replicate 64 CHR ''a'')) (ex_audit_file ?k) = Inr v"
    "audit_verify ex_audit_env (Some (replicate 64 CHR ''a'')) (ex_audit_file ?k') = Inr v'" using v by blast
  moreover have "replicate 64 CHR ''a'' \<noteq> AUDIT_GENESIS_HASH" by (simp add: AUDIT_GENESIS_HASH_def)
  moreover have "audit_events ex_audit_env (ex_audit_file kvs) = Inr [ex_audit_event kvs]" for kvs
    by (simp add: audit_events_def ex_audit_read)
  moreover have "audit_parsed (ex_audit_file ?k)" "audit_parsed (ex_audit_file ?k')"
    by (simp_all add: audit_parsed_def ex_audit_file_def plain_event_def ex_audit_event_def)
  moreover have "canon (VDict None ?k) = canon (VDict None ?k')" by code_simp
  then have "audit_signed ex_audit_env (ex_audit_event ?k) = audit_signed ex_audit_env (ex_audit_event ?k')"
    by (simp only: audit_signed_def audit_body_def audit_fields_def ex_audit_event_def new_audit_event_sel)
  then have "inj_on (audit_hmac ex_audit_env (audit_key ex_audit_env))
      (audit_signed ex_audit_env ` set [ex_audit_event ?k] \<union> audit_signed ex_audit_env ` set [ex_audit_event ?k'])"
    by simp
  ultimately show ?thesis by (intro audit_head_determines_log [OF _ _ _ _ _ _ _ ex_audit_iso])
qed

end
