(* ===== verification/Integrity.thy ===== *)
theory Integrity
  imports Py_Regex Hash_Chain
begin

text \<open>
  \<open>integrity.py\<close>: the signed, append-only store of trusted heads of the audit log and the operation
  journal, with its recovery epochs, and \<open>checkpoint_anchor.py\<close>, which anchors a verified head while other
  workers use the store. A call holds the file lock, so it is one function of the file; HMAC-SHA256 and
  the texts of timestamps are functions of the environment.
\<close>

subsection \<open>Data\<close>

datatype checkpoint_error =
    CheckpointValueError string
  | IntegrityCheckpointError string

datatype journal_kind = JK_Audit | JK_Operations

definition journal_kinds :: "journal_kind list" where "journal_kinds = [JK_Audit, JK_Operations]"

fun kind_value :: "journal_kind \<Rightarrow> string" where
  "kind_value JK_Audit = ''audit''"
| "kind_value JK_Operations = ''operations''"

record checkpoint =
  cp_format_version :: int
  cp_sequence :: int
  cp_installation_id :: string
  cp_journal :: journal_kind
  cp_event_count :: int
  cp_head_hash :: string
  cp_recorded_at :: datetime
  cp_previous_hash :: string
  cp_checkpoint_hash :: string
  cp_recovery_epoch :: int
  cp_operation_id :: "string option"
  cp_actor_id :: "string option"
  cp_manifest :: "string option"

record checkpoint_env =
  cp_key :: string
  cp_hmac :: "string \<Rightarrow> string \<Rightarrow> string"
  cp_isoformat :: "datetime \<Rightarrow> string"
  cp_json_time :: "datetime \<Rightarrow> string"

text \<open>A line on disk: its size, whether it ends in a newline, and what it parses to.\<close>

record checkpoint_line =
  cl_bytes :: nat
  cl_complete :: bool
  cl_record :: "checkpoint option"

type_synonym checkpoint_file = "checkpoint_line list option"

definition CHECKPOINT_GENESIS_HASH :: string where "CHECKPOINT_GENESIS_HASH = replicate 64 CHR ''0''"
definition MAX_CHECKPOINT_RECORD_BYTES :: nat where "MAX_CHECKPOINT_RECORD_BYTES = 16 * 1024"

subsection \<open>Validators\<close>

definition installation_id_pattern :: rx where
  "installation_id_pattern =
     Seq (Cls [lower, digit] 1 (Some 1)) (Cls [lower, digit, single CHR ''-''] 1 (Some 63))"

definition recovery_operation_pattern :: rx where
  "recovery_operation_pattern =
     Seq (Cls [upper, lower, digit] 1 (Some 1))
       (Cls [upper, lower, digit, single CHR ''.'', single CHR ''_'', single CHR '':'', single CHR ''-''] 7 (Some 127))"

definition recovery_actor_pattern :: rx where
  "recovery_actor_pattern =
     Seq (Cls [upper, lower, digit] 1 (Some 1))
       (Cls [upper, lower, digit, single CHR ''@'', single CHR ''.'', single CHR ''_'', single CHR '':'', single CHR ''-'']
          1 (Some 127))"

definition sha256_pattern :: rx where
  "sha256_pattern = Cls [digit, hexlow] 64 (Some 64)"

definition validate_installation_id :: "string \<Rightarrow> checkpoint_error + string" where
  "validate_installation_id v =
     (if fullmatch installation_id_pattern v then Inr v else Inl (CheckpointValueError ''invalid checkpoint installation id''))"

definition validate_recovery_operation :: "string \<Rightarrow> checkpoint_error + string" where
  "validate_recovery_operation v =
     (if fullmatch recovery_operation_pattern v then Inr v else Inl (CheckpointValueError ''invalid recovery operation id''))"

definition validate_recovery_actor :: "string \<Rightarrow> checkpoint_error + string" where
  "validate_recovery_actor v =
     (if fullmatch recovery_actor_pattern v then Inr v else Inl (CheckpointValueError ''invalid recovery actor id''))"

definition validate_head :: "int \<times> string \<Rightarrow> checkpoint_error + int \<times> string" where
  "validate_head h =
     (if fst h < 0 then Inl (CheckpointValueError ''checkpoint event count must be non-negative'')
      else if \<not> fullmatch sha256_pattern (snd h) then Inl (CheckpointValueError ''invalid checkpoint head hash'')
      else Inr h)"

definition validate_expected_recovery_epoch :: "int option \<Rightarrow> checkpoint_error + int option" where
  "validate_expected_recovery_epoch v =
     (case v of None \<Rightarrow> Inr None | Some n \<Rightarrow>
        if n < 0 then Inl (CheckpointValueError ''expected recovery epoch must be a non-negative integer'') else Inr (Some n))"

definition checkpoint_time :: "int \<Rightarrow> datetime option \<Rightarrow> checkpoint_error + int" where
  "checkpoint_time clock now = utc_or_now (CheckpointValueError ''checkpoint timestamp must be timezone-aware'') clock now"

subsection \<open>Signing\<close>

definition nullable :: "string option \<Rightarrow> pyval" where
  "nullable t = (case t of None \<Rightarrow> VNull | Some s \<Rightarrow> VStr s)"

text \<open>The members are listed in key order, so \<open>sort_keys\<close> writes them as they are.\<close>

definition checkpoint_body :: "checkpoint_env \<Rightarrow> checkpoint \<Rightarrow> pyval" where
  "checkpoint_body env r =
     VDict None
       ([(KStr ''event_count'', VInt (cp_event_count r))]
        @ (if 2 \<le> cp_format_version r then [(KStr ''format_version'', VInt (cp_format_version r))] else [])
        @ [(KStr ''head_hash'', VStr (cp_head_hash r)),
           (KStr ''installation_id'', VStr (cp_installation_id r)),
           (KStr ''journal'', VStr (kind_value (cp_journal r))),
           (KStr ''previous_hash'', VStr (cp_previous_hash r)),
           (KStr ''recorded_at'', VStr (cp_isoformat env (cp_recorded_at r)))]
        @ (if 2 \<le> cp_format_version r
           then [(KStr ''recovery_actor_id'', nullable (cp_actor_id r)),
                 (KStr ''recovery_epoch'', VInt (cp_recovery_epoch r)),
                 (KStr ''recovery_manifest_sha256'', nullable (cp_manifest r)),
                 (KStr ''recovery_operation_id'', nullable (cp_operation_id r))]
           else [])
        @ [(KStr ''sequence'', VInt (cp_sequence r))])"

definition sign_integrity_checkpoint :: "checkpoint_env \<Rightarrow> pyval \<Rightarrow> string" where
  "sign_integrity_checkpoint env body = cp_hmac env (cp_key env) (json_dumps body)"

definition checkpoint_text :: "checkpoint_env \<Rightarrow> checkpoint \<Rightarrow> string" where
  "checkpoint_text env r =
     json_dumps (VDict None
       [(KStr ''checkpoint_hash'', VStr (cp_checkpoint_hash r)),
        (KStr ''event_count'', VInt (cp_event_count r)),
        (KStr ''format_version'', VInt (cp_format_version r)),
        (KStr ''head_hash'', VStr (cp_head_hash r)),
        (KStr ''installation_id'', VStr (cp_installation_id r)),
        (KStr ''journal'', VStr (kind_value (cp_journal r))),
        (KStr ''previous_hash'', VStr (cp_previous_hash r)),
        (KStr ''recorded_at'', VStr (cp_json_time env (cp_recorded_at r))),
        (KStr ''recovery_actor_id'', nullable (cp_actor_id r)),
        (KStr ''recovery_epoch'', VInt (cp_recovery_epoch r)),
        (KStr ''recovery_manifest_sha256'', nullable (cp_manifest r)),
        (KStr ''recovery_operation_id'', nullable (cp_operation_id r)),
        (KStr ''sequence'', VInt (cp_sequence r))]) @ [CHR 0x0A]"

subsection \<open>Lookups\<close>

definition find_latest :: "checkpoint list \<Rightarrow> string \<Rightarrow> journal_kind \<Rightarrow> checkpoint option" where
  "find_latest records installation_id journal =
     List.find (\<lambda>r. cp_installation_id r = installation_id \<and> cp_journal r = journal) (rev records)"

definition current_recovery_epoch :: "checkpoint list \<Rightarrow> string \<Rightarrow> checkpoint_error + int" where
  "current_recovery_epoch records installation_id =
     (let relevant = filter (\<lambda>r. cp_installation_id r = installation_id) records in
      if relevant = [] then Inr 0
      else let epochs = remdups (List.map_filter (\<lambda>j. map_option cp_recovery_epoch (find_latest records installation_id j)) journal_kinds) in
        if 1 < length epochs then Inl (IntegrityCheckpointError ''journal recovery epochs disagree'')
        else Inr (foldr max (map cp_recovery_epoch relevant) 0))"

subsection \<open>Validation of the records\<close>

record checkpoint_scan =
  sc_latest_epoch :: "(string, int) dict"
  sc_epoch_operations :: "(string \<times> int, string) dict"
  sc_groups :: "(string \<times> string, checkpoint list) dict"

definition add_to_group :: "string \<times> string \<Rightarrow> checkpoint \<Rightarrow> (string \<times> string, checkpoint list) dict \<Rightarrow> (string \<times> string, checkpoint list) dict" where
  "add_to_group k r groups = AList.update k ((case map_of groups k of None \<Rightarrow> [] | Some g \<Rightarrow> g) @ [r]) groups"

fun is_naive :: "datetime \<Rightarrow> bool" where
  "is_naive (Naive t) = True"
| "is_naive (Aware t) = False"

definition scan_record :: "checkpoint_scan \<Rightarrow> checkpoint \<Rightarrow> checkpoint_error + checkpoint_scan" where
  "scan_record s r =
     (if \<not> fullmatch installation_id_pattern (cp_installation_id r) \<or> is_naive (cp_recorded_at r)
      then Inl (IntegrityCheckpointError ''integrity checkpoint metadata is invalid'')
      else if cp_recovery_epoch r < (case map_of (sc_latest_epoch s) (cp_installation_id r) of None \<Rightarrow> 0 | Some e \<Rightarrow> e)
      then Inl (IntegrityCheckpointError ''integrity checkpoint recovery epoch moved backward'')
      else let s = s\<lparr>sc_latest_epoch := AList.update (cp_installation_id r) (cp_recovery_epoch r) (sc_latest_epoch s)\<rparr> in
      if cp_format_version r = 1
      then (if cp_recovery_epoch r \<noteq> 0 \<or> cp_operation_id r \<noteq> None \<or> cp_actor_id r \<noteq> None \<or> cp_manifest r \<noteq> None
            then Inl (IntegrityCheckpointError ''format version 1 checkpoint contains unsigned recovery metadata'') else Inr s)
      else case cp_operation_id r of
        None \<Rightarrow>
          if cp_actor_id r \<noteq> None \<or> cp_manifest r \<noteq> None
          then Inl (IntegrityCheckpointError ''recovery checkpoint metadata is incomplete'') else Inr s
      | Some operation_id \<Rightarrow>
          (case cp_actor_id r of
             None \<Rightarrow> Inl (IntegrityCheckpointError ''recovery checkpoint metadata is incomplete'')
           | Some actor_id \<Rightarrow>
               if cp_recovery_epoch r < 1 \<or> cp_manifest r = None
               then Inl (IntegrityCheckpointError ''recovery checkpoint metadata is incomplete'')
               else if \<not> fullmatch recovery_operation_pattern operation_id \<or> \<not> fullmatch recovery_actor_pattern actor_id
               then Inl (IntegrityCheckpointError ''recovery checkpoint metadata is invalid'')
               else let epoch_key = (cp_installation_id r, cp_recovery_epoch r);
                        known = (case map_of (sc_epoch_operations s) epoch_key of None \<Rightarrow> operation_id | Some o' \<Rightarrow> o') in
                 if known \<noteq> operation_id
                 then Inl (IntegrityCheckpointError ''recovery epoch is bound to multiple operations'')
                 else Inr (s\<lparr>sc_epoch_operations := AList.update epoch_key known (sc_epoch_operations s),
                            sc_groups := add_to_group (cp_installation_id r, operation_id) r (sc_groups s)\<rparr>)))"

fun scan_records :: "checkpoint_scan \<Rightarrow> checkpoint list \<Rightarrow> checkpoint_error + checkpoint_scan" where
  "scan_records s [] = Inr s"
| "scan_records s (r # rs) = (case scan_record s r of Inl e \<Rightarrow> Inl e | Inr s' \<Rightarrow> scan_records s' rs)"

fun check_group :: "checkpoint list \<Rightarrow> checkpoint_error + unit" where
  "check_group [a, b] =
     (if cp_journal a = cp_journal b then Inl (IntegrityCheckpointError ''recovery checkpoint set is invalid'')
      else if cp_recovery_epoch b \<noteq> cp_recovery_epoch a \<or> cp_actor_id b \<noteq> cp_actor_id a \<or> cp_manifest b \<noteq> cp_manifest a
      then Inl (IntegrityCheckpointError ''recovery checkpoint evidence is inconsistent'')
      else if max (cp_sequence a) (cp_sequence b) \<noteq> min (cp_sequence a) (cp_sequence b) + 1
      then Inl (IntegrityCheckpointError ''recovery checkpoint set is not contiguous'')
      else Inr ())"
| "check_group g = Inl (IntegrityCheckpointError ''recovery checkpoint set is incomplete'')"

fun check_groups :: "checkpoint list list \<Rightarrow> checkpoint_error + unit" where
  "check_groups [] = Inr ()"
| "check_groups (g # gs) = (case check_group g of Inl e \<Rightarrow> Inl e | Inr _ \<Rightarrow> check_groups gs)"

definition empty_scan :: checkpoint_scan where
  "empty_scan = \<lparr>sc_latest_epoch = [], sc_epoch_operations = [], sc_groups = []\<rparr>"

definition validate_checkpoint_records :: "checkpoint list \<Rightarrow> checkpoint_error + unit" where
  "validate_checkpoint_records records =
     (case scan_records empty_scan records of Inl e \<Rightarrow> Inl e | Inr s \<Rightarrow> check_groups (dict_values (sc_groups s)))"

subsection \<open>Reading\<close>

definition checkpoint_head :: "checkpoint list \<Rightarrow> string" where
  "checkpoint_head records = (if records = [] then CHECKPOINT_GENESIS_HASH else cp_checkpoint_hash (last records))"

definition verify_checkpoint_line :: "checkpoint_env \<Rightarrow> checkpoint list \<Rightarrow> checkpoint_line \<Rightarrow> checkpoint_error + checkpoint" where
  "verify_checkpoint_line env records line =
     (if MAX_CHECKPOINT_RECORD_BYTES < cl_bytes line
      then Inl (IntegrityCheckpointError ''integrity checkpoint record exceeds the size limit'')
      else if \<not> cl_complete line then Inl (IntegrityCheckpointError ''integrity checkpoint has an incomplete record'')
      else case cl_record line of
        None \<Rightarrow> Inl (IntegrityCheckpointError ''integrity checkpoint could not be verified'')
      | Some r \<Rightarrow>
          if cp_sequence r \<noteq> int (length records) + 1
          then Inl (IntegrityCheckpointError ''integrity checkpoint sequence is invalid'')
          else if cp_previous_hash r \<noteq> checkpoint_head records
          then Inl (IntegrityCheckpointError ''integrity checkpoint chain is broken'')
          else if cp_checkpoint_hash r \<noteq> sign_integrity_checkpoint env (checkpoint_body env r)
          then Inl (IntegrityCheckpointError ''integrity checkpoint signature is invalid'')
          else Inr r)"

fun verify_checkpoint_lines ::
  "checkpoint_env \<Rightarrow> checkpoint list \<Rightarrow> checkpoint_line list \<Rightarrow> checkpoint_error + checkpoint list" where
  "verify_checkpoint_lines env records [] = Inr records"
| "verify_checkpoint_lines env records (l # ls) =
     (case verify_checkpoint_line env records l of Inl e \<Rightarrow> Inl e
      | Inr r \<Rightarrow> verify_checkpoint_lines env (records @ [r]) ls)"

definition read_checkpoints :: "checkpoint_env \<Rightarrow> checkpoint_file \<Rightarrow> checkpoint_error + checkpoint list" where
  "read_checkpoints env file =
     (case file of None \<Rightarrow> Inr [] | Some ls \<Rightarrow>
        case verify_checkpoint_lines env [] ls of Inl e \<Rightarrow> Inl e | Inr records \<Rightarrow>
        case validate_checkpoint_records records of Inl e \<Rightarrow> Inl e | Inr _ \<Rightarrow> Inr records)"

subsection \<open>Operations\<close>

definition make_checkpoint_store :: "checkpoint_env \<Rightarrow> checkpoint_error + checkpoint_env" where
  "make_checkpoint_store env =
     (if length (cp_key env) < 32
      then Inl (CheckpointValueError ''checkpoint integrity key must contain at least 32 bytes'') else Inr env)"

text \<open>All records of one call are written by one append.\<close>

definition append_many :: "checkpoint_env \<Rightarrow> checkpoint list \<Rightarrow> checkpoint_file \<Rightarrow> checkpoint_file" where
  "append_many env records file =
     Some ((case file of None \<Rightarrow> [] | Some ls \<Rightarrow> ls)
       @ map (\<lambda>r. \<lparr>cl_bytes = utf8_length (checkpoint_text env r), cl_complete = True, cl_record = Some r\<rparr>) records)"

definition new_checkpoint ::
  "checkpoint_env \<Rightarrow> checkpoint list \<Rightarrow> string \<Rightarrow> journal_kind \<Rightarrow> int \<times> string \<Rightarrow> int \<Rightarrow> int
    \<Rightarrow> string option \<Rightarrow> string option \<Rightarrow> string option \<Rightarrow> checkpoint" where
  "new_checkpoint env records installation_id journal head timestamp epoch operation_id actor_id manifest =
     (let r = \<lparr>cp_format_version = 2, cp_sequence = int (length records) + 1, cp_installation_id = installation_id,
               cp_journal = journal, cp_event_count = fst head, cp_head_hash = snd head, cp_recorded_at = Aware timestamp,
               cp_previous_hash = checkpoint_head records, cp_checkpoint_hash = [], cp_recovery_epoch = epoch,
               cp_operation_id = operation_id, cp_actor_id = actor_id, cp_manifest = manifest\<rparr>
      in r\<lparr>cp_checkpoint_hash := sign_integrity_checkpoint env (checkpoint_body env r)\<rparr>)"

record head_call =
  hc_installation_id :: string
  hc_journal :: journal_kind
  hc_head :: "int \<times> string"
  hc_now :: "datetime option"
  hc_expected_epoch :: "int option"

definition put_checkpoint ::
  "checkpoint_env \<Rightarrow> int \<Rightarrow> head_call \<Rightarrow> checkpoint_file \<Rightarrow> (checkpoint_error + checkpoint) \<times> checkpoint_file" where
  "put_checkpoint env clock c file =
     (case validate_installation_id (hc_installation_id c) of Inl e \<Rightarrow> (Inl e, file) | Inr inst \<Rightarrow>
      case validate_head (hc_head c) of Inl e \<Rightarrow> (Inl e, file) | Inr head \<Rightarrow>
      case validate_expected_recovery_epoch (hc_expected_epoch c) of Inl e \<Rightarrow> (Inl e, file) | Inr expected \<Rightarrow>
      case checkpoint_time clock (hc_now c) of Inl e \<Rightarrow> (Inl e, file) | Inr timestamp \<Rightarrow>
      case read_checkpoints env file of Inl e \<Rightarrow> (Inl e, file) | Inr records \<Rightarrow>
      case current_recovery_epoch records inst of Inl e \<Rightarrow> (Inl e, file) | Inr epoch \<Rightarrow>
      if (case expected of None \<Rightarrow> False | Some n \<Rightarrow> epoch \<noteq> n)
      then (Inl (IntegrityCheckpointError ''recovery epoch changed while checkpointing''), file)
      else
        let created = (let r = new_checkpoint env records inst (hc_journal c) head timestamp epoch None None None
                       in (Inr r, append_many env [r] file)) in
        case find_latest records inst (hc_journal c) of
          None \<Rightarrow> created
        | Some existing \<Rightarrow>
            if cp_event_count existing = fst head \<and> cp_head_hash existing = snd head then (Inr existing, file)
            else if fst head \<le> cp_event_count existing
            then (Inl (IntegrityCheckpointError ''integrity checkpoint cannot move backward''), file)
            else created)"

definition recovery_epoch_of :: "checkpoint_env \<Rightarrow> string \<Rightarrow> checkpoint_file \<Rightarrow> checkpoint_error + int" where
  "recovery_epoch_of env installation_id file =
     (case validate_installation_id installation_id of Inl e \<Rightarrow> Inl e | Inr inst \<Rightarrow>
      case read_checkpoints env file of Inl e \<Rightarrow> Inl e | Inr records \<Rightarrow> current_recovery_epoch records inst)"

text \<open>A \<open>JournalKind\<close> is a string, so the heads of a recovery are keyed by strings.\<close>

fun normalize_heads :: "(string, int \<times> string) dict \<Rightarrow> journal_kind list \<Rightarrow> checkpoint_error + (journal_kind \<times> int \<times> string) list" where
  "normalize_heads heads [] = Inr []"
| "normalize_heads heads (j # js) =
     (case map_of heads (kind_value j) of
        None \<Rightarrow> Inl (CheckpointValueError ''recovery requires both journal heads'')
      | Some h \<Rightarrow>
          (case validate_head h of Inl e \<Rightarrow> Inl e | Inr h' \<Rightarrow>
           case normalize_heads heads js of Inl e \<Rightarrow> Inl e | Inr hs \<Rightarrow> Inr ((j, h') # hs)))"

record recover_call =
  rc_installation_id :: string
  rc_heads :: "(string, int \<times> string) dict"
  rc_operation_id :: string
  rc_actor_id :: string
  rc_manifest :: string
  rc_now :: "datetime option"

text \<open>The repeated call: the evidence of the first one, if it is still current.\<close>

definition repeated_recovery ::
  "checkpoint list \<Rightarrow> string \<Rightarrow> checkpoint list \<Rightarrow> (journal_kind \<times> int \<times> string) list \<Rightarrow> recover_call
    \<Rightarrow> checkpoint_error + checkpoint \<times> checkpoint" where
  "repeated_recovery records inst prior normalized c =
     (if length prior \<noteq> length journal_kinds then Inl (IntegrityCheckpointError ''recovery checkpoint set is incomplete'')
      else
        let by_journal = fold (\<lambda>r d. AList.update (cp_journal r) r d) prior [] in
        case (map_of by_journal JK_Audit, map_of by_journal JK_Operations) of
          (Some a, Some b) \<Rightarrow>
            if list_ex (\<lambda>(j, r). map_option cp_sequence (find_latest records inst j) \<noteq> Some (cp_sequence r)) by_journal
            then Inl (IntegrityCheckpointError ''recovery operation is no longer current'')
            else if list_ex (\<lambda>(j, head). case map_of by_journal j of None \<Rightarrow> True | Some r \<Rightarrow>
                   cp_event_count r \<noteq> fst head \<or> cp_head_hash r \<noteq> snd head \<or> cp_actor_id r \<noteq> Some (rc_actor_id c)
                   \<or> cp_manifest r \<noteq> Some (rc_manifest c)) normalized
            then Inl (IntegrityCheckpointError ''recovery operation ID is bound to different evidence'')
            else Inr (a, b)
        | _ \<Rightarrow> Inl (IntegrityCheckpointError ''recovery checkpoint set is invalid''))"

text \<open>The loop that makes one record for each journal, in the order of the enumeration.\<close>

fun recovery_records ::
  "checkpoint_env \<Rightarrow> checkpoint list \<Rightarrow> recover_call \<Rightarrow> int \<Rightarrow> int \<Rightarrow> (journal_kind \<times> int \<times> string) list \<Rightarrow> checkpoint list" where
  "recovery_records env records c timestamp epoch [] = []"
| "recovery_records env records c timestamp epoch ((j, h) # hs) =
     (let r = new_checkpoint env records (rc_installation_id c) j h timestamp epoch (Some (rc_operation_id c))
                (Some (rc_actor_id c)) (Some (rc_manifest c))
      in r # recovery_records env (records @ [r]) c timestamp epoch hs)"

definition recover_checkpoints ::
  "checkpoint_env \<Rightarrow> int \<Rightarrow> recover_call \<Rightarrow> checkpoint_file \<Rightarrow> (checkpoint_error + checkpoint \<times> checkpoint) \<times> checkpoint_file" where
  "recover_checkpoints env clock c file =
     (case validate_installation_id (rc_installation_id c) of Inl e \<Rightarrow> (Inl e, file) | Inr inst \<Rightarrow>
      case validate_recovery_operation (rc_operation_id c) of Inl e \<Rightarrow> (Inl e, file) | Inr operation_id \<Rightarrow>
      case validate_recovery_actor (rc_actor_id c) of Inl e \<Rightarrow> (Inl e, file) | Inr actor_id \<Rightarrow>
      if \<not> fullmatch sha256_pattern (rc_manifest c)
      then (Inl (CheckpointValueError ''invalid recovery manifest digest''), file)
      else case normalize_heads (rc_heads c) journal_kinds of Inl e \<Rightarrow> (Inl e, file) | Inr normalized \<Rightarrow>
      if length (rc_heads c) \<noteq> length journal_kinds
      then (Inl (CheckpointValueError ''recovery contains an unknown journal head''), file)
      else case checkpoint_time clock (rc_now c) of Inl e \<Rightarrow> (Inl e, file) | Inr timestamp \<Rightarrow>
      case read_checkpoints env file of Inl e \<Rightarrow> (Inl e, file) | Inr records \<Rightarrow>
        let prior = filter (\<lambda>r. cp_installation_id r = inst \<and> cp_operation_id r = Some operation_id) records in
        if prior \<noteq> [] then (repeated_recovery records inst prior normalized c, file)
        else case current_recovery_epoch records inst of Inl e \<Rightarrow> (Inl e, file) | Inr epoch \<Rightarrow>
          let created = recovery_records env records c timestamp (epoch + 1) normalized in
          (Inr (created ! 0, created ! 1), append_many env created file))"

definition latest_checkpoint ::
  "checkpoint_env \<Rightarrow> string \<Rightarrow> journal_kind \<Rightarrow> checkpoint_file \<Rightarrow> checkpoint_error + checkpoint option" where
  "latest_checkpoint env installation_id journal file =
     (case validate_installation_id installation_id of Inl e \<Rightarrow> Inl e | Inr inst \<Rightarrow>
      case read_checkpoints env file of Inl e \<Rightarrow> Inl e | Inr records \<Rightarrow> Inr (find_latest records inst journal))"

definition verify_current ::
  "checkpoint_env \<Rightarrow> string \<Rightarrow> journal_kind \<Rightarrow> int \<times> string \<Rightarrow> checkpoint_file \<Rightarrow> checkpoint_error + checkpoint" where
  "verify_current env installation_id journal head file =
     (case validate_head head of Inl e \<Rightarrow> Inl e | Inr head \<Rightarrow>
      case latest_checkpoint env installation_id journal file of Inl e \<Rightarrow> Inl e | Inr record \<Rightarrow>
      case record of
        None \<Rightarrow> Inl (IntegrityCheckpointError ''trusted integrity checkpoint is missing'')
      | Some r \<Rightarrow>
          if cp_event_count r \<noteq> fst head \<or> cp_head_hash r \<noteq> snd head
          then Inl (IntegrityCheckpointError ''journal head does not match the trusted integrity checkpoint'')
          else Inr r)"

definition verify_checkpoints :: "checkpoint_env \<Rightarrow> checkpoint_file \<Rightarrow> checkpoint_error + checkpoint list" where
  "verify_checkpoints env file = read_checkpoints env file"

end
