(* ===== verification/Integrity_Safety.thy ===== *)
theory Integrity_Safety
  imports Integrity
begin

text \<open>
  Properties of the checkpoint store: records that were appended are read back, trusted heads only move
  forward inside a recovery epoch, and a recovery rebases both journals at once.
\<close>

subsection \<open>What the scan knows\<close>

definition of_installation :: "string \<Rightarrow> checkpoint list \<Rightarrow> checkpoint list" where
  "of_installation inst rs = filter (\<lambda>r. cp_installation_id r = inst) rs"

definition top_epoch :: "checkpoint list \<Rightarrow> string \<Rightarrow> int" where
  "top_epoch rs inst = foldr max (map cp_recovery_epoch (of_installation inst rs)) 0"

lemma foldr_max_start: "foldr max xs (max x (0::int)) = max x (foldr max xs 0)"
  by (induction xs) auto

lemma foldr_max_nonneg: "0 \<le> foldr max xs (0::int)"
  by (induction xs) auto

lemma foldr_max_ge: "x \<in> set xs \<Longrightarrow> x \<le> foldr max xs (0::int)"
  by (induction xs) auto

lemma top_epoch_simps [simp]:
  "top_epoch [] inst = 0"
  "top_epoch (rs @ [r]) inst = (if cp_installation_id r = inst then max (cp_recovery_epoch r) (top_epoch rs inst) else top_epoch rs inst)"
  by (simp_all add: top_epoch_def of_installation_def foldr_max_start)

lemma top_epoch_nonneg: "0 \<le> top_epoch rs inst"
  by (simp add: top_epoch_def foldr_max_nonneg)

lemma top_epoch_ge: "r \<in> set rs \<Longrightarrow> cp_recovery_epoch r \<le> top_epoch rs (cp_installation_id r)"
  unfolding top_epoch_def by (rule foldr_max_ge) (auto simp: of_installation_def)

lemma scan_records_append:
  "scan_records s (rs @ rs') = (case scan_records s rs of Inl e \<Rightarrow> Inl e | Inr s' \<Rightarrow> scan_records s' rs')"
  by (induction rs arbitrary: s) (auto split: sum.splits)

definition known_epoch :: "checkpoint_scan \<Rightarrow> string \<Rightarrow> int" where
  "known_epoch s inst = (case map_of (sc_latest_epoch s) inst of None \<Rightarrow> 0 | Some e \<Rightarrow> e)"

definition scan_ok :: "checkpoint list \<Rightarrow> checkpoint_scan \<Rightarrow> bool" where
  "scan_ok rs s \<longleftrightarrow>
     (\<forall>inst. known_epoch s inst = top_epoch rs inst)
     \<and> (\<forall>inst e. map_of (sc_epoch_operations s) (inst, e) \<noteq> None \<longrightarrow> e \<le> top_epoch rs inst)
     \<and> (\<forall>inst op'. map_of (sc_groups s) (inst, op') \<noteq> None
          \<longrightarrow> (\<exists>r\<in>set rs. cp_installation_id r = inst \<and> cp_operation_id r = Some op'))
     \<and> (\<forall>i j. i < j \<longrightarrow> j < length rs \<longrightarrow> cp_installation_id (rs ! i) = cp_installation_id (rs ! j)
          \<longrightarrow> cp_recovery_epoch (rs ! i) \<le> cp_recovery_epoch (rs ! j))"

lemma scan_record_SomeD:
  assumes "scan_record s r = Inr s'"
  shows "known_epoch s (cp_installation_id r) \<le> cp_recovery_epoch r"
    and "sc_latest_epoch s' = AList.update (cp_installation_id r) (cp_recovery_epoch r) (sc_latest_epoch s)"
    and "map_of (sc_epoch_operations s') (inst, e) \<noteq> None \<Longrightarrow>
      map_of (sc_epoch_operations s) (inst, e) \<noteq> None \<or> inst = cp_installation_id r \<and> e = cp_recovery_epoch r"
    and "map_of (sc_groups s') (inst, op') \<noteq> None \<Longrightarrow>
      map_of (sc_groups s) (inst, op') \<noteq> None \<or> inst = cp_installation_id r \<and> cp_operation_id r = Some op'"
  using assms
  by (auto simp: scan_record_def known_epoch_def Let_def add_to_group_def map_of_update
      split: if_splits option.splits)

lemma scan_ok_snoc:
  assumes ok: "scan_ok rs s" and r: "scan_record s r = Inr s'"
  shows "scan_ok (rs @ [r]) s'"
proof -
  note d = scan_record_SomeD [OF r]
  have top: "top_epoch rs (cp_installation_id r) \<le> cp_recovery_epoch r" using ok d(1) by (simp add: scan_ok_def)
  have k: "known_epoch s' inst = top_epoch (rs @ [r]) inst" for inst
    using ok top d(2) by (auto simp: scan_ok_def known_epoch_def map_of_update split: option.splits)
  have o: "e \<le> top_epoch (rs @ [r]) inst" if "map_of (sc_epoch_operations s') (inst, e) \<noteq> None" for inst e
  proof -
    have "e \<le> top_epoch rs inst \<or> inst = cp_installation_id r \<and> e = cp_recovery_epoch r"
      using d(3) [OF that] ok unfolding scan_ok_def by blast
    then show ?thesis by auto
  qed
  have g: "\<exists>x\<in>set (rs @ [r]). cp_installation_id x = inst \<and> cp_operation_id x = Some op'"
    if "map_of (sc_groups s') (inst, op') \<noteq> None" for inst op'
  proof -
    have "(\<exists>x\<in>set rs. cp_installation_id x = inst \<and> cp_operation_id x = Some op') \<or> inst = cp_installation_id r \<and> cp_operation_id r = Some op'"
      using d(4) [OF that] ok unfolding scan_ok_def by blast
    then show ?thesis by auto
  qed
  have m: "cp_recovery_epoch ((rs @ [r]) ! i) \<le> cp_recovery_epoch ((rs @ [r]) ! j)"
    if "i < j" "j < length (rs @ [r])" "cp_installation_id ((rs @ [r]) ! i) = cp_installation_id ((rs @ [r]) ! j)" for i j
  proof (cases "j < length rs")
    case True
    then show ?thesis using that ok by (simp add: scan_ok_def nth_append)
  next
    case False
    then have j: "j = length rs" "i < length rs" using that by auto
    then have "cp_recovery_epoch (rs ! i) \<le> top_epoch rs (cp_installation_id r)"
      using top_epoch_ge [of "rs ! i" rs] that by (auto simp: nth_append)
    then show ?thesis using top j by (simp add: nth_append)
  qed
  show ?thesis unfolding scan_ok_def using k o g m by blast
qed

lemma scan_ok_scan: "scan_records empty_scan rs = Inr s \<Longrightarrow> scan_ok rs s"
proof (induction rs arbitrary: s rule: rev_induct)
  case Nil
  then have "s = empty_scan" by simp
  then show ?case by (simp add: empty_scan_def scan_ok_def known_epoch_def)
next
  case (snoc r rs)
  then obtain s1 where "scan_records empty_scan rs = Inr s1" "scan_record s1 r = Inr s"
    by (auto simp: scan_records_append split: sum.splits)
  then show ?case using snoc.IH scan_ok_snoc by blast
qed

lemma check_groups_append: "check_groups (gs @ gs') = Inr () \<longleftrightarrow> check_groups gs = Inr () \<and> check_groups gs' = Inr ()"
  by (induction gs) (auto split: sum.splits)

subsection \<open>Appending and reading back\<close>

definition fits :: "checkpoint_env \<Rightarrow> checkpoint \<Rightarrow> bool" where
  "fits env r \<longleftrightarrow> utf8_length (checkpoint_text env r) \<le> MAX_CHECKPOINT_RECORD_BYTES"

lemma checkpoint_body_hash [simp]: "checkpoint_body env (r\<lparr>cp_checkpoint_hash := h\<rparr>) = checkpoint_body env r"
  by (simp add: checkpoint_body_def)

lemma new_checkpoint_sel [simp]:
  "cp_format_version (new_checkpoint env rs inst j h t e o' a m) = 2"
  "cp_sequence (new_checkpoint env rs inst j h t e o' a m) = int (length rs) + 1"
  "cp_installation_id (new_checkpoint env rs inst j h t e o' a m) = inst"
  "cp_journal (new_checkpoint env rs inst j h t e o' a m) = j"
  "cp_event_count (new_checkpoint env rs inst j h t e o' a m) = fst h"
  "cp_head_hash (new_checkpoint env rs inst j h t e o' a m) = snd h"
  "cp_recorded_at (new_checkpoint env rs inst j h t e o' a m) = Aware t"
  "cp_previous_hash (new_checkpoint env rs inst j h t e o' a m) = checkpoint_head rs"
  "cp_recovery_epoch (new_checkpoint env rs inst j h t e o' a m) = e"
  "cp_operation_id (new_checkpoint env rs inst j h t e o' a m) = o'"
  "cp_actor_id (new_checkpoint env rs inst j h t e o' a m) = a"
  "cp_manifest (new_checkpoint env rs inst j h t e o' a m) = m"
  "cp_checkpoint_hash (new_checkpoint env rs inst j h t e o' a m)
     = sign_integrity_checkpoint env (checkpoint_body env (new_checkpoint env rs inst j h t e o' a m))"
  by (simp_all add: new_checkpoint_def Let_def checkpoint_body_def)

text \<open>\<open>links rs\<close>: each record has its position, its predecessor's hash and its signature.\<close>

fun links :: "checkpoint_env \<Rightarrow> checkpoint list \<Rightarrow> checkpoint list \<Rightarrow> bool" where
  "links env rs [] \<longleftrightarrow> True"
| "links env rs (r # rs') \<longleftrightarrow>
     cp_sequence r = int (length rs) + 1 \<and> cp_previous_hash r = checkpoint_head rs
     \<and> cp_checkpoint_hash r = sign_integrity_checkpoint env (checkpoint_body env r) \<and> links env (rs @ [r]) rs'"

definition file_lines :: "checkpoint_file \<Rightarrow> checkpoint_line list" where
  "file_lines f = (case f of None \<Rightarrow> [] | Some ls \<Rightarrow> ls)"

lemma validate_Nil [simp]: "validate_checkpoint_records [] = Inr ()"
  by (simp add: validate_checkpoint_records_def empty_scan_def dict_values_def)

lemma read_checkpoints_iff:
  "read_checkpoints env f = Inr rs \<longleftrightarrow>
     verify_checkpoint_lines env [] (file_lines f) = Inr rs \<and> validate_checkpoint_records rs = Inr ()"
  by (auto simp: read_checkpoints_def file_lines_def split: option.splits sum.splits)

lemma verify_checkpoint_lines_append:
  "verify_checkpoint_lines env rs (ls @ ls') =
     (case verify_checkpoint_lines env rs ls of Inl e \<Rightarrow> Inl e | Inr rs' \<Rightarrow> verify_checkpoint_lines env rs' ls')"
  by (induction ls arbitrary: rs) (auto split: sum.splits)

abbreviation written :: "checkpoint_env \<Rightarrow> checkpoint \<Rightarrow> checkpoint_line" where
  "written env r \<equiv> \<lparr>cl_bytes = utf8_length (checkpoint_text env r), cl_complete = True, cl_record = Some r\<rparr>"

lemma verify_written:
  "\<forall>r\<in>set new. fits env r \<Longrightarrow> links env rs new \<Longrightarrow>
     verify_checkpoint_lines env rs (map (written env) new) = Inr (rs @ new)"
  by (induction new arbitrary: rs) (auto simp: verify_checkpoint_line_def fits_def)

lemma verify_lines_length:
  "verify_checkpoint_lines env rs ls = Inr rs' \<Longrightarrow> rs' = rs @ List.map_filter cl_record ls"
proof (induction ls arbitrary: rs)
  case (Cons l ls)
  then obtain r where r: "verify_checkpoint_line env rs l = Inr r" "verify_checkpoint_lines env (rs @ [r]) ls = Inr rs'"
    by (auto split: sum.splits)
  have "cl_record l = Some r" using r(1) by (auto simp: verify_checkpoint_line_def split: if_splits option.splits)
  then show ?case using Cons.IH [OF r(2)] by (simp add: map_filter_simps)
qed (simp add: map_filter_simps)

lemma read_appended:
  assumes "read_checkpoints env f = Inr rs" "read_checkpoints env (append_many env new f) = Inr rs'"
  shows "rs' = rs @ new"
proof -
  have "List.map_filter cl_record (map (written env) new) = new" by (induction new) (auto simp: map_filter_simps)
  moreover have "rs = List.map_filter cl_record (file_lines f)"
    using assms(1) verify_lines_length by (fastforce simp: read_checkpoints_iff)
  moreover have "rs' = List.map_filter cl_record (file_lines f @ map (written env) new)"
    using assms(2) verify_lines_length
    by (fastforce simp: read_checkpoints_iff append_many_def file_lines_def)
  ultimately show ?thesis by (simp add: List.map_filter_def)
qed

lemma read_append:
  assumes "read_checkpoints env f = Inr rs" "\<forall>r\<in>set new. fits env r" "links env rs new"
    and "validate_checkpoint_records (rs @ new) = Inr ()"
  shows "read_checkpoints env (append_many env new f) = Inr (rs @ new)"
proof -
  have "verify_checkpoint_lines env [] (file_lines f) = Inr rs" using assms(1) by (simp add: read_checkpoints_iff)
  moreover have "file_lines (append_many env new f) = file_lines f @ map (written env) new"
    by (simp add: append_many_def file_lines_def)
  ultimately show ?thesis
    using assms(4) verify_written [OF assms(2,3)] by (simp add: read_checkpoints_iff verify_checkpoint_lines_append)
qed

subsection \<open>New records pass the validation\<close>

lemma current_epoch_top: "current_recovery_epoch rs inst = Inr e \<Longrightarrow> e = top_epoch rs inst"
  by (auto simp: current_recovery_epoch_def top_epoch_def of_installation_def Let_def split: if_splits)

lemma validate_iff:
  "validate_checkpoint_records rs = Inr () \<longleftrightarrow>
     (\<exists>s. scan_records empty_scan rs = Inr s \<and> check_groups (dict_values (sc_groups s)) = Inr ())"
  by (auto simp: validate_checkpoint_records_def split: sum.splits)

lemma validate_put:
  assumes v: "validate_checkpoint_records rs = Inr ()" and inst: "fullmatch installation_id_pattern inst"
  shows "validate_checkpoint_records (rs @ [new_checkpoint env rs inst j h t (top_epoch rs inst) None None None]) = Inr ()"
proof -
  obtain s where s: "scan_records empty_scan rs = Inr s" "check_groups (dict_values (sc_groups s)) = Inr ()"
    using v by (auto simp: validate_iff)
  have "known_epoch s inst = top_epoch rs inst" using scan_ok_scan [OF s(1)] by (simp add: scan_ok_def)
  then show ?thesis
    using s inst by (simp add: validate_iff scan_records_append scan_record_def Let_def known_epoch_def)
qed

lemma update_fresh: "map_of d k = None \<Longrightarrow> AList.update k v d = d @ [(k, v)]"
  by (induction d) (auto split: if_splits)

lemma update_last: "k \<notin> fst ` set d \<Longrightarrow> AList.update k v (d @ [(k, w)]) = d @ [(k, v)]"
  by (induction d) auto

lemma validate_recover:
  fixes rs :: "checkpoint list" and inst op' actor m :: string and t :: int and env :: checkpoint_env
  defines "e \<equiv> top_epoch rs inst + 1"
  defines "a \<equiv> \<lambda>h. new_checkpoint env rs inst JK_Audit h t e (Some op') (Some actor) (Some m)"
  defines "b \<equiv> \<lambda>h r. new_checkpoint env (rs @ [r]) inst JK_Operations h t e (Some op') (Some actor) (Some m)"
  assumes v: "validate_checkpoint_records rs = Inr ()" and inst: "fullmatch installation_id_pattern inst"
    and names: "fullmatch recovery_operation_pattern op'" "fullmatch recovery_actor_pattern actor"
    and fresh: "\<forall>r\<in>set rs. \<not> (cp_installation_id r = inst \<and> cp_operation_id r = Some op')"
  shows "validate_checkpoint_records (rs @ [a h, b h' (a h)]) = Inr ()"
proof -
  obtain s where s: "scan_records empty_scan rs = Inr s" "check_groups (dict_values (sc_groups s)) = Inr ()"
    using v by (auto simp: validate_iff)
  note ok = scan_ok_scan [OF s(1)]
  have k: "known_epoch s inst = top_epoch rs inst" using ok by (simp add: scan_ok_def)
  have o: "map_of (sc_epoch_operations s) (inst, e) = None"
  proof (rule ccontr)
    assume "map_of (sc_epoch_operations s) (inst, e) \<noteq> None"
    then have "e \<le> top_epoch rs inst" using ok unfolding scan_ok_def by blast
    then show False by (simp add: e_def)
  qed
  have g: "map_of (sc_groups s) (inst, op') = None"
    using ok fresh unfolding scan_ok_def by blast
  define s1 where "s1 = s\<lparr>sc_latest_epoch := AList.update inst e (sc_latest_epoch s),
    sc_epoch_operations := AList.update (inst, e) op' (sc_epoch_operations s),
    sc_groups := sc_groups s @ [((inst, op'), [a h])]\<rparr>"
  define s2 where "s2 = s1\<lparr>sc_latest_epoch := AList.update inst e (sc_latest_epoch s1),
    sc_epoch_operations := AList.update (inst, e) op' (sc_epoch_operations s1),
    sc_groups := sc_groups s @ [((inst, op'), [a h, b h' (a h)])]\<rparr>"
  have e: "1 \<le> e" "\<not> e < top_epoch rs inst" using top_epoch_nonneg [of rs inst] by (simp_all add: e_def)
  have 1: "scan_record s (a h) = Inr s1"
    using k o g e inst names
    by (simp add: scan_record_def a_def s1_def Let_def known_epoch_def add_to_group_def update_fresh)
  have g': "(inst, op') \<notin> fst ` set (sc_groups s)" using g by (simp add: map_of_eq_None_iff)
  then have m: "map_of (sc_groups s @ [((inst, op'), [a h])]) (inst, op') = Some [a h]"
    using g by (simp add: map_add_def)
  have 2: "scan_record s1 (b h' (a h)) = Inr s2"
    using e inst names m g'
    by (simp add: scan_record_def b_def s1_def s2_def Let_def map_of_update add_to_group_def update_last)
  have "check_group [a h, b h' (a h)] = Inr ()" by (simp add: a_def b_def)
  then show ?thesis
    using s 1 2 by (simp add: validate_iff scan_records_append s2_def dict_values_def check_groups_append)
qed

subsection \<open>Lookups\<close>

definition about :: "string \<Rightarrow> journal_kind \<Rightarrow> checkpoint \<Rightarrow> bool" where
  "about inst j r \<longleftrightarrow> cp_installation_id r = inst \<and> cp_journal r = j"

lemma find_latest_simps [simp]:
  "find_latest [] inst j = None"
  "find_latest (rs @ [r]) inst j = (if about inst j r then Some r else find_latest rs inst j)"
  "find_latest (rs @ [q, r]) inst j =
     (if about inst j r then Some r else if about inst j q then Some q else find_latest rs inst j)"
  by (simp_all add: find_latest_def about_def)

lemma find_latest_SomeD: "find_latest rs inst j = Some r \<Longrightarrow> r \<in> set rs \<and> about inst j r"
  by (induction rs rule: rev_induct) (auto split: if_splits)

lemma find_latest_NoneD: "find_latest rs inst j = None \<Longrightarrow> r \<in> set rs \<Longrightarrow> \<not> about inst j r"
  by (induction rs rule: rev_induct) (auto split: if_splits)

lemma verify_lines_sequence:
  "verify_checkpoint_lines env rs ls = Inr rs' \<Longrightarrow> map cp_sequence rs = map (\<lambda>i. int i + 1) [0..<length rs] \<Longrightarrow>
     map cp_sequence rs' = map (\<lambda>i. int i + 1) [0..<length rs']"
proof (induction ls arbitrary: rs)
  case (Cons l ls)
  then obtain r where r: "verify_checkpoint_line env rs l = Inr r" "verify_checkpoint_lines env (rs @ [r]) ls = Inr rs'"
    by (auto split: sum.splits)
  have "cp_sequence r = int (length rs) + 1"
    using r(1) by (auto simp: verify_checkpoint_line_def split: if_splits option.splits)
  then show ?case using Cons.IH [OF r(2)] Cons.prems(2) by simp
qed simp

lemma sequence_unique:
  assumes "read_checkpoints env f = Inr rs" "q \<in> set rs" "r \<in> set rs" "cp_sequence q = cp_sequence r"
  shows "q = r"
proof -
  have "map cp_sequence rs = map (\<lambda>i. int i + 1) [0..<length rs]"
    using assms(1) verify_lines_sequence [of env "[]" "file_lines f" rs] by (simp add: read_checkpoints_iff)
  then have "distinct (map cp_sequence rs)" by (simp add: distinct_map inj_on_def)
  then show ?thesis using assms(2-4) by (auto simp: distinct_map inj_on_def)
qed

lemma top_epoch_about: "r \<in> set rs \<Longrightarrow> about inst j r \<Longrightarrow> cp_recovery_epoch r \<le> top_epoch rs inst"
  using top_epoch_ge [of r rs] by (simp add: about_def)

subsection \<open>One checkpoint\<close>

definition expects :: "int option \<Rightarrow> int \<Rightarrow> bool" where
  "expects v e \<longleftrightarrow> (case v of None \<Rightarrow> True | Some n \<Rightarrow> n = e)"

lemma put_cases:
  assumes "read_checkpoints env f = Inr rs"
  obtains (refused) e where "put_checkpoint env clock c f = (Inl e, f)"
  | (found) r where "put_checkpoint env clock c f = (Inr r, f)"
      "find_latest rs (hc_installation_id c) (hc_journal c) = Some r" "hc_head c = (cp_event_count r, cp_head_hash r)"
      "fullmatch installation_id_pattern (hc_installation_id c)" "validate_head (hc_head c) = Inr (hc_head c)"
      "current_recovery_epoch rs (hc_installation_id c) = Inr (top_epoch rs (hc_installation_id c))"
      "expects (hc_expected_epoch c) (top_epoch rs (hc_installation_id c))"
  | (created) r t where "put_checkpoint env clock c f = (Inr r, append_many env [r] f)"
      "r = new_checkpoint env rs (hc_installation_id c) (hc_journal c) (hc_head c) t (top_epoch rs (hc_installation_id c)) None None None"
      "fullmatch installation_id_pattern (hc_installation_id c)" "validate_head (hc_head c) = Inr (hc_head c)"
      "current_recovery_epoch rs (hc_installation_id c) = Inr (top_epoch rs (hc_installation_id c))"
      "expects (hc_expected_epoch c) (top_epoch rs (hc_installation_id c))"
      "\<And>x. find_latest rs (hc_installation_id c) (hc_journal c) = Some x \<Longrightarrow> cp_event_count x < fst (hc_head c)"
proof (cases "\<exists>e. put_checkpoint env clock c f = (Inl e, f)")
  case True
  then show thesis using refused by blast
next
  case False
  let ?i = "hc_installation_id c"
  have i: "fullmatch installation_id_pattern ?i"
    by (rule ccontr) (use False in \<open>simp add: put_checkpoint_def validate_installation_id_def\<close>)
  have h: "validate_head (hc_head c) = Inr (hc_head c)"
    using False i by (auto simp: put_checkpoint_def validate_installation_id_def validate_head_def split: if_splits)
  obtain x where x: "validate_expected_recovery_epoch (hc_expected_epoch c) = Inr x"
    using False i h
    by (cases "validate_expected_recovery_epoch (hc_expected_epoch c)") (auto simp: put_checkpoint_def validate_installation_id_def)
  then have xe: "x = hc_expected_epoch c"
    by (auto simp: validate_expected_recovery_epoch_def split: option.splits if_splits)
  obtain t where t: "checkpoint_time clock (hc_now c) = Inr t"
    using False i h x by (cases "checkpoint_time clock (hc_now c)") (auto simp: put_checkpoint_def validate_installation_id_def)
  obtain e where e: "current_recovery_epoch rs ?i = Inr e"
    using False i h x t assms
    by (cases "current_recovery_epoch rs ?i") (auto simp: put_checkpoint_def validate_installation_id_def)
  note top = current_epoch_top [OF e]
  note unf = put_checkpoint_def validate_installation_id_def i h x t assms e
  have ex: "expects (hc_expected_epoch c) (top_epoch rs ?i)"
    by (rule ccontr) (use False top xe in \<open>auto simp: unf expects_def split: option.splits\<close>)
  let ?r = "new_checkpoint env rs ?i (hc_journal c) (hc_head c) t e None None None"
  show thesis
  proof (cases "find_latest rs ?i (hc_journal c)")
    case None
    then have "put_checkpoint env clock c f = (Inr ?r, append_many env [?r] f)"
      using False top xe by (auto simp: unf Let_def split: option.splits if_splits)
    then show thesis using created [of ?r t] i h e ex None top by simp
  next
    case (Some y)
    show thesis
    proof (cases "cp_event_count y = fst (hc_head c) \<and> cp_head_hash y = snd (hc_head c)")
      case True
      then have "put_checkpoint env clock c f = (Inr y, f)"
        using False top xe Some by (auto simp: unf Let_def split: option.splits if_splits)
      then show thesis using found [of y] True i h e ex Some top by (simp add: prod_eq_iff)
    next
      case no: False
      then have "cp_event_count y < fst (hc_head c)" "put_checkpoint env clock c f = (Inr ?r, append_many env [?r] f)"
        using False top xe Some by (auto simp: unf Let_def split: option.splits if_splits)
      then show thesis using created [of ?r t] i h e ex Some top by simp
    qed
  qed
qed

lemma put_unread: "read_checkpoints env f = Inl e \<Longrightarrow> \<exists>e'. put_checkpoint env clock c f = (Inl e', f)"
  by (auto simp: put_checkpoint_def split: sum.splits)

lemma put_refused:
  assumes "put_checkpoint env clock c f = (Inl e, f')" shows "f' = f"
proof (cases "read_checkpoints env f")
  case (Inl x)
  then show ?thesis using put_unread [OF Inl, of clock c] assms by auto
next
  case (Inr rs)
  show ?thesis by (rule put_cases [OF Inr, of clock c]) (use assms in auto)
qed

lemma put_readable:
  assumes "put_checkpoint env clock c f = (Inr r, f')" obtains rs where "read_checkpoints env f = Inr rs"
  using put_unread [of env f _ clock c] assms that by (cases "read_checkpoints env f") auto

lemma put_read:
  assumes r: "read_checkpoints env f = Inr rs" and p: "put_checkpoint env clock c f = (Inr r, f')" and fit: "fits env r"
  shows "read_checkpoints env f' = Inr rs \<and> f' = f \<or> read_checkpoints env f' = Inr (rs @ [r])"
    and "\<exists>rs'. read_checkpoints env f' = Inr rs' \<and> find_latest rs' (hc_installation_id c) (hc_journal c) = Some r"
    and "hc_head c = (cp_event_count r, cp_head_hash r)"
proof -
  have "(read_checkpoints env f' = Inr rs \<and> f' = f \<and> find_latest rs (hc_installation_id c) (hc_journal c) = Some r
      \<or> read_checkpoints env f' = Inr (rs @ [r]) \<and> about (hc_installation_id c) (hc_journal c) r)
    \<and> hc_head c = (cp_event_count r, cp_head_hash r)"
  proof (rule put_cases [OF r, of clock c])
    fix q t
    assume q: "put_checkpoint env clock c f = (Inr q, append_many env [q] f)"
      "q = new_checkpoint env rs (hc_installation_id c) (hc_journal c) (hc_head c) t (top_epoch rs (hc_installation_id c)) None None None"
      "fullmatch installation_id_pattern (hc_installation_id c)"
    have v: "validate_checkpoint_records rs = Inr ()" using r by (simp add: read_checkpoints_iff)
    have rq: "r = q" using p q(1) by simp
    have "links env rs [q]" using q(2) by simp
    moreover have "validate_checkpoint_records (rs @ [q]) = Inr ()" unfolding q(2) using v q(3) by (rule validate_put)
    ultimately have "read_checkpoints env (append_many env [q] f) = Inr (rs @ [q])"
      using fit rq by (intro read_append [OF r]) auto
    moreover have "about (hc_installation_id c) (hc_journal c) q" "hc_head c = (cp_event_count q, cp_head_hash q)"
      using q(2) by (simp_all add: about_def)
    ultimately show ?thesis using p q(1) rq by simp
  qed (use p r in auto)
  then show "read_checkpoints env f' = Inr rs \<and> f' = f \<or> read_checkpoints env f' = Inr (rs @ [r])"
    "\<exists>rs'. read_checkpoints env f' = Inr rs' \<and> find_latest rs' (hc_installation_id c) (hc_journal c) = Some r"
    "hc_head c = (cp_event_count r, cp_head_hash r)" by auto
qed

subsection \<open>Recovery\<close>

lemma normalize_heads_SomeD:
  assumes "normalize_heads heads journal_kinds = Inr ns"
  obtains h h' where "ns = [(JK_Audit, h), (JK_Operations, h')]" "map_of heads ''audit'' = Some h"
    "map_of heads ''operations'' = Some h'" "validate_head h = Inr h" "validate_head h' = Inr h'"
  using assms
  by (auto simp: journal_kinds_def validate_head_def split: option.splits sum.splits if_splits)

definition is_pair :: "recover_call \<Rightarrow> checkpoint \<Rightarrow> checkpoint \<Rightarrow> bool" where
  "is_pair c a b \<longleftrightarrow>
     about (rc_installation_id c) JK_Audit a \<and> about (rc_installation_id c) JK_Operations b
     \<and> cp_operation_id a = Some (rc_operation_id c) \<and> cp_operation_id b = Some (rc_operation_id c)
     \<and> map_of (rc_heads c) ''audit'' = Some (cp_event_count a, cp_head_hash a)
     \<and> map_of (rc_heads c) ''operations'' = Some (cp_event_count b, cp_head_hash b)
     \<and> cp_actor_id a = Some (rc_actor_id c) \<and> cp_actor_id b = Some (rc_actor_id c)
     \<and> cp_manifest a = Some (rc_manifest c) \<and> cp_manifest b = Some (rc_manifest c)"

definition recovery_prior :: "checkpoint list \<Rightarrow> recover_call \<Rightarrow> checkpoint list" where
  "recovery_prior rs c =
     filter (\<lambda>r. cp_installation_id r = rc_installation_id c \<and> cp_operation_id r = Some (rc_operation_id c)) rs"

definition recover_accepts :: "int \<Rightarrow> recover_call \<Rightarrow> int \<Rightarrow> (journal_kind \<times> int \<times> string) list \<Rightarrow> bool" where
  "recover_accepts clock c t ns \<longleftrightarrow>
     fullmatch installation_id_pattern (rc_installation_id c) \<and> fullmatch recovery_operation_pattern (rc_operation_id c)
     \<and> fullmatch recovery_actor_pattern (rc_actor_id c) \<and> fullmatch sha256_pattern (rc_manifest c)
     \<and> normalize_heads (rc_heads c) journal_kinds = Inr ns \<and> length (rc_heads c) = length journal_kinds
     \<and> checkpoint_time clock (rc_now c) = Inr t"

lemma recover_accepted:
  assumes "recover_accepts clock c t ns" "read_checkpoints env f = Inr rs"
  shows "recover_checkpoints env clock c f =
     (if recovery_prior rs c \<noteq> [] then (repeated_recovery rs (rc_installation_id c) (recovery_prior rs c) ns c, f)
      else case current_recovery_epoch rs (rc_installation_id c) of Inl e \<Rightarrow> (Inl e, f) | Inr epoch \<Rightarrow>
        let created = recovery_records env rs c t (epoch + 1) ns in
        (Inr (created ! 0, created ! 1), append_many env created f))"
  using assms
  by (simp add: recover_accepts_def recover_checkpoints_def validate_installation_id_def validate_recovery_operation_def
      validate_recovery_actor_def recovery_prior_def)

lemma recover_refused:
  assumes "\<And>t ns. \<not> recover_accepts clock c t ns \<or> (\<forall>rs. read_checkpoints env f \<noteq> Inr rs)"
  shows "\<exists>e. recover_checkpoints env clock c f = (Inl e, f)"
  using assms
  by (cases "normalize_heads (rc_heads c) journal_kinds"; cases "checkpoint_time clock (rc_now c)"; cases "read_checkpoints env f")
    (auto simp: recover_accepts_def recover_checkpoints_def validate_installation_id_def validate_recovery_operation_def
      validate_recovery_actor_def)

lemma two_of_kind:
  "length ps = length journal_kinds \<Longrightarrow> map_of (fold (\<lambda>r d. AList.update (cp_journal r) r d) ps []) JK_Audit = Some a \<Longrightarrow>
   map_of (fold (\<lambda>r d. AList.update (cp_journal r) r d) ps []) JK_Operations = Some b \<Longrightarrow>
   a \<in> set ps \<and> b \<in> set ps \<and> cp_journal a = JK_Audit \<and> cp_journal b = JK_Operations
   \<and> set (fold (\<lambda>r d. AList.update (cp_journal r) r d) ps []) = {(JK_Audit, a), (JK_Operations, b)}"
  by (auto simp: journal_kinds_def length_Suc_conv map_of_update split: if_splits)

text \<open>When the repeated call answers, its pair is the current one.\<close>

lemma repeated_recovery_SomeD:
  assumes r: "read_checkpoints env f = Inr rs"
    and ns: "ns = [(JK_Audit, h), (JK_Operations, h')]" "map_of (rc_heads c) ''audit'' = Some h"
      "map_of (rc_heads c) ''operations'' = Some h'"
    and ok: "repeated_recovery rs (rc_installation_id c) (recovery_prior rs c) ns c = Inr (a, b)"
  shows "is_pair c a b" "find_latest rs (rc_installation_id c) JK_Audit = Some a"
    "find_latest rs (rc_installation_id c) JK_Operations = Some b"
proof -
  let ?p = "recovery_prior rs c" and ?i = "rc_installation_id c"
  let ?d = "fold (\<lambda>r d. AList.update (cp_journal r) r d) ?p []"
  have l: "length ?p = length journal_kinds" using ok by (auto simp: repeated_recovery_def split: if_splits)
  have d: "map_of ?d JK_Audit = Some a" "map_of ?d JK_Operations = Some b"
    using ok l by (auto simp: repeated_recovery_def Let_def split: option.splits if_splits)
  note two = two_of_kind [OF l d]
  have cur: "\<not> list_ex (\<lambda>(j, r). map_option cp_sequence (find_latest rs ?i j) \<noteq> Some (cp_sequence r)) ?d"
    and ev: "\<not> list_ex (\<lambda>(j, head). case map_of ?d j of None \<Rightarrow> True | Some r \<Rightarrow>
         cp_event_count r \<noteq> fst head \<or> cp_head_hash r \<noteq> snd head \<or> cp_actor_id r \<noteq> Some (rc_actor_id c)
         \<or> cp_manifest r \<noteq> Some (rc_manifest c)) ns"
    using ok l d by (auto simp: repeated_recovery_def Let_def simp del: list_ex_iff split: if_splits)
  have p: "r \<in> set rs \<and> cp_installation_id r = ?i \<and> cp_operation_id r = Some (rc_operation_id c)" if "r \<in> set ?p" for r
    using that by (simp add: recovery_prior_def)
  show "is_pair c a b"
    using two p [of a] p [of b] ev ns d by (auto simp: is_pair_def about_def)
  have s: "map_option cp_sequence (find_latest rs ?i JK_Audit) = Some (cp_sequence a)"
      "map_option cp_sequence (find_latest rs ?i JK_Operations) = Some (cp_sequence b)"
    using cur two by (auto simp: list_ex_iff)
  show "find_latest rs ?i JK_Audit = Some a" "find_latest rs ?i JK_Operations = Some b"
    using s sequence_unique [OF r] find_latest_SomeD p two by fastforce+
qed

lemma recover_cases:
  assumes r: "read_checkpoints env f = Inr rs"
  obtains (refused) e where "recover_checkpoints env clock c f = (Inl e, f)"
  | (repeated) a b t ns where "recover_checkpoints env clock c f = (Inr (a, b), f)" "recover_accepts clock c t ns"
      "recovery_prior rs c \<noteq> []" "is_pair c a b"
      "find_latest rs (rc_installation_id c) JK_Audit = Some a" "find_latest rs (rc_installation_id c) JK_Operations = Some b"
  | (created) a b t ns h h' where "recover_checkpoints env clock c f = (Inr (a, b), append_many env [a, b] f)"
      "recover_accepts clock c t ns" "recovery_prior rs c = []" "is_pair c a b"
      "a = new_checkpoint env rs (rc_installation_id c) JK_Audit h t (top_epoch rs (rc_installation_id c) + 1)
             (Some (rc_operation_id c)) (Some (rc_actor_id c)) (Some (rc_manifest c))"
      "b = new_checkpoint env (rs @ [a]) (rc_installation_id c) JK_Operations h' t (top_epoch rs (rc_installation_id c) + 1)
             (Some (rc_operation_id c)) (Some (rc_actor_id c)) (Some (rc_manifest c))"
proof (cases "\<exists>t ns. recover_accepts clock c t ns")
  case False
  then show thesis using recover_refused refused by blast
next
  case True
  then obtain t ns where acc: "recover_accepts clock c t ns" by blast
  note eq = recover_accepted [OF acc r]
  obtain h h' where ns: "ns = [(JK_Audit, h), (JK_Operations, h')]" "map_of (rc_heads c) ''audit'' = Some h"
    "map_of (rc_heads c) ''operations'' = Some h'"
    using acc normalize_heads_SomeD unfolding recover_accepts_def by metis
  show thesis
  proof (cases "recovery_prior rs c = []")
    case False
    show thesis
    proof (cases "repeated_recovery rs (rc_installation_id c) (recovery_prior rs c) ns c")
      case (Inl e)
      then show thesis using refused eq False by simp
    next
      case (Inr ab)
      obtain a b where ab: "ab = (a, b)" by fastforce
      note d = repeated_recovery_SomeD [OF r ns Inr [unfolded ab]]
      show thesis using repeated [OF _ acc False d] eq False Inr ab by simp
    qed
  next
    case fresh: True
    show thesis
    proof (cases "current_recovery_epoch rs (rc_installation_id c)")
      case (Inl e)
      then show thesis using refused eq fresh by simp
    next
      case (Inr e)
      note top = current_epoch_top [OF Inr]
      show thesis
        by (rule created [OF _ acc fresh _ refl refl, of h h'])
          (use eq fresh Inr top ns in \<open>simp_all add: is_pair_def about_def Let_def prod_eq_iff\<close>)
    qed
  qed
qed

lemma recover_read:
  assumes r: "read_checkpoints env f = Inr rs" and p: "recover_checkpoints env clock c f = (Inr (a, b), f')"
    and fit: "fits env a" "fits env b"
  obtains (same) "f' = f" "is_pair c a b" "find_latest rs (rc_installation_id c) JK_Audit = Some a"
      "find_latest rs (rc_installation_id c) JK_Operations = Some b"
  | (rebased) "read_checkpoints env f' = Inr (rs @ [a, b])" "is_pair c a b"
      "cp_recovery_epoch a = top_epoch rs (rc_installation_id c) + 1" "cp_recovery_epoch b = cp_recovery_epoch a"
      "recovery_prior rs c = []" "\<exists>t ns. recover_accepts clock c t ns"
proof (rule recover_cases [OF r, of clock c])
  fix x y t ns h h'
  assume n: "recover_checkpoints env clock c f = (Inr (x, y), append_many env [x, y] f)"
    "recover_accepts clock c t ns" "recovery_prior rs c = []" "is_pair c x y"
    and x: "x = new_checkpoint env rs (rc_installation_id c) JK_Audit h t (top_epoch rs (rc_installation_id c) + 1)
      (Some (rc_operation_id c)) (Some (rc_actor_id c)) (Some (rc_manifest c))"
    and y: "y = new_checkpoint env (rs @ [x]) (rc_installation_id c) JK_Operations h' t (top_epoch rs (rc_installation_id c) + 1)
      (Some (rc_operation_id c)) (Some (rc_actor_id c)) (Some (rc_manifest c))"
  have ab: "x = a" "y = b" "f' = append_many env [a, b] f" using n(1) p by auto
  have v: "validate_checkpoint_records rs = Inr ()" using r by (simp add: read_checkpoints_iff)
  have names: "fullmatch installation_id_pattern (rc_installation_id c)" "fullmatch recovery_operation_pattern (rc_operation_id c)"
    "fullmatch recovery_actor_pattern (rc_actor_id c)" using n(2) by (simp_all add: recover_accepts_def)
  have fresh: "\<forall>r\<in>set rs. \<not> (cp_installation_id r = rc_installation_id c \<and> cp_operation_id r = Some (rc_operation_id c))"
    using n(3) by (auto simp: recovery_prior_def filter_empty_conv)
  have "validate_checkpoint_records (rs @ [x, y]) = Inr ()"
    unfolding y unfolding x using v names fresh by (rule validate_recover)
  moreover have "links env rs [x, y]" using x y by simp
  ultimately have "read_checkpoints env (append_many env [x, y] f) = Inr (rs @ [x, y])"
    using fit ab by (intro read_append [OF r]) auto
  then show thesis using rebased n(2-4) x y ab by auto
qed (use p same in auto)

subsection \<open>Heads move forward\<close>

definition ahead :: "checkpoint \<Rightarrow> checkpoint \<Rightarrow> bool" where
  "ahead r r' \<longleftrightarrow>
     (cp_installation_id r = cp_installation_id r' \<and> cp_journal r = cp_journal r' \<longrightarrow>
        cp_recovery_epoch r < cp_recovery_epoch r'
        \<or> cp_recovery_epoch r = cp_recovery_epoch r' \<and> cp_event_count r < cp_event_count r')"

abbreviation heads_forward :: "checkpoint list \<Rightarrow> bool" where
  "heads_forward \<equiv> sorted_wrt ahead"

lemma before_latest:
  "heads_forward rs \<Longrightarrow> find_latest rs inst j = Some y \<Longrightarrow> x \<in> set rs \<Longrightarrow> about inst j x \<Longrightarrow> x = y \<or> ahead x y"
  by (induction rs rule: rev_induct) (auto simp: sorted_wrt_append about_def split: if_splits)

lemma put_forward:
  assumes r: "read_checkpoints env f = Inr rs" and fwd: "heads_forward rs"
    and p: "read_checkpoints env (snd (put_checkpoint env clock c f)) = Inr rs'"
  shows "\<exists>new. rs' = rs @ new \<and> heads_forward (rs @ new)"
proof (rule put_cases [OF r, of clock c])
  fix q t
  assume q: "put_checkpoint env clock c f = (Inr q, append_many env [q] f)"
    "q = new_checkpoint env rs (hc_installation_id c) (hc_journal c) (hc_head c) t (top_epoch rs (hc_installation_id c)) None None None"
    and later: "\<And>x. find_latest rs (hc_installation_id c) (hc_journal c) = Some x \<Longrightarrow> cp_event_count x < fst (hc_head c)"
  have "rs' = rs @ [q]" using read_appended [OF r] p q(1) by simp
  moreover have "ahead x q" if x: "x \<in> set rs" for x
  proof (cases "about (hc_installation_id c) (hc_journal c) x")
    case True
    then obtain y where y: "find_latest rs (hc_installation_id c) (hc_journal c) = Some y"
      using x find_latest_NoneD by fastforce
    have "cp_recovery_epoch y \<le> top_epoch rs (hc_installation_id c)" "cp_recovery_epoch x \<le> top_epoch rs (hc_installation_id c)"
      using top_epoch_about find_latest_SomeD [OF y] x True by blast+
    then show ?thesis
      using before_latest [OF fwd y x True] later [OF y] q(2) find_latest_SomeD [OF y] True
      by (auto simp: ahead_def about_def)
  qed (use q(2) in \<open>auto simp: ahead_def about_def\<close>)
  ultimately show ?thesis using fwd by (auto simp: sorted_wrt_append)
qed (use assms in auto)

lemma recover_forward:
  assumes r: "read_checkpoints env f = Inr rs" and fwd: "heads_forward rs"
    and p: "read_checkpoints env (snd (recover_checkpoints env clock c f)) = Inr rs'"
  shows "\<exists>new. rs' = rs @ new \<and> heads_forward (rs @ new)"
proof (rule recover_cases [OF r, of clock c])
  fix a b t ns h h'
  assume n: "recover_checkpoints env clock c f = (Inr (a, b), append_many env [a, b] f)"
    and a: "a = new_checkpoint env rs (rc_installation_id c) JK_Audit h t (top_epoch rs (rc_installation_id c) + 1)
      (Some (rc_operation_id c)) (Some (rc_actor_id c)) (Some (rc_manifest c))"
    and b: "b = new_checkpoint env (rs @ [a]) (rc_installation_id c) JK_Operations h' t (top_epoch rs (rc_installation_id c) + 1)
      (Some (rc_operation_id c)) (Some (rc_actor_id c)) (Some (rc_manifest c))"
  have "rs' = rs @ [a, b]" using read_appended [OF r] p n(1) by simp
  moreover have "ahead x a" "ahead x b" if "x \<in> set rs" for x
    using top_epoch_ge [OF that] a b by (auto simp: ahead_def)
  moreover have "ahead a b" using a b by (simp add: ahead_def)
  ultimately show ?thesis using fwd by (auto simp: sorted_wrt_append)
qed (use assms in auto)

datatype store_call = Put int head_call | Recover int recover_call

fun run_store_call :: "checkpoint_env \<Rightarrow> store_call \<Rightarrow> checkpoint_file \<Rightarrow> checkpoint_file" where
  "run_store_call env (Put clock c) f = snd (put_checkpoint env clock c f)"
| "run_store_call env (Recover clock c) f = snd (recover_checkpoints env clock c f)"

fun run_store_calls :: "checkpoint_env \<Rightarrow> store_call list \<Rightarrow> checkpoint_file \<Rightarrow> checkpoint_file" where
  "run_store_calls env [] f = f"
| "run_store_calls env (c # cs) f = run_store_calls env cs (run_store_call env c f)"

lemma unread_stays:
  "read_checkpoints env f = Inl e \<Longrightarrow> run_store_calls env cs f = f"
proof (induction cs)
  case (Cons c cs)
  have "run_store_call env c f = f"
  proof (cases c)
    case (Put clock d)
    then show ?thesis using put_unread [OF Cons.prems, of clock d] by auto
  next
    case (Recover clock d)
    then show ?thesis using recover_refused [of clock d env f] Cons.prems by force
  qed
  then show ?case using Cons by simp
qed simp

lemma calls_forward:
  assumes "read_checkpoints env f = Inr rs" "heads_forward rs" "read_checkpoints env (run_store_calls env cs f) = Inr rs'"
  shows "\<exists>new. rs' = rs @ new \<and> heads_forward (rs @ new)"
  using assms
proof (induction cs arbitrary: f rs)
  case (Cons c cs)
  obtain rs1 where 1: "read_checkpoints env (run_store_call env c f) = Inr rs1"
    using Cons.prems(3) unread_stays [of env "run_store_call env c f" _ cs]
    by (cases "read_checkpoints env (run_store_call env c f)") auto
  then obtain new where new: "rs1 = rs @ new" "heads_forward (rs @ new)"
    using put_forward [OF Cons.prems(1,2)] recover_forward [OF Cons.prems(1,2)] by (cases c) fastforce+
  then obtain new' where "rs' = (rs @ new) @ new'" "heads_forward ((rs @ new) @ new')"
    using Cons.IH [OF 1] Cons.prems(3) by auto
  then show ?case by (metis append.assoc)
qed auto

subsection \<open>Properties\<close>

text \<open>
  C8: whatever checkpoints and recoveries are requested, the store only grows, and of two records of one
  journal of an installation the later one has a greater recovery epoch, or the same epoch and more events:
  inside an epoch a trusted head never moves backward.
\<close>

theorem trusted_heads_move_forward:
  assumes "read_checkpoints env f = Inr rs" "heads_forward rs" "read_checkpoints env (run_store_calls env cs f) = Inr rs'"
  shows "\<exists>new. rs' = rs @ new \<and> heads_forward (rs @ new)"
  by (rule calls_forward [OF assms])

lemma verify_current_latest:
  assumes "read_checkpoints env f = Inr rs" "find_latest rs inst j = Some r" "fullmatch installation_id_pattern inst"
    and "validate_head (cp_event_count r, cp_head_hash r) = Inr (cp_event_count r, cp_head_hash r)"
  shows "verify_current env inst j h f = Inr r' \<longleftrightarrow> h = (cp_event_count r, cp_head_hash r) \<and> r' = r"
proof -
  have v: "validate_head h = Inr h' \<Longrightarrow> h' = h" for h' by (auto simp: validate_head_def split: if_splits)
  show ?thesis
    using assms v
    by (cases "validate_head h"; cases h)
      (auto simp: verify_current_def latest_checkpoint_def validate_installation_id_def)
qed

lemma put_trusted:
  assumes r: "read_checkpoints env f = Inr rs" and p: "put_checkpoint env clock c f = (Inr r, f')" and fit: "fits env r"
  shows "(\<forall>h r'. verify_current env (hc_installation_id c) (hc_journal c) h f' = Inr r' \<longleftrightarrow> h = hc_head c \<and> r' = r)
    \<and> expects (hc_expected_epoch c) (top_epoch rs (hc_installation_id c))
    \<and> (f' = f \<or> cp_recovery_epoch r = top_epoch rs (hc_installation_id c))"
proof -
  have d: "fullmatch installation_id_pattern (hc_installation_id c) \<and> validate_head (hc_head c) = Inr (hc_head c)
    \<and> expects (hc_expected_epoch c) (top_epoch rs (hc_installation_id c))
    \<and> (f' = f \<or> cp_recovery_epoch r = top_epoch rs (hc_installation_id c))"
    by (rule put_cases [OF r, of clock c]) (use p in auto)
  obtain rs' where rs': "read_checkpoints env f' = Inr rs'" "find_latest rs' (hc_installation_id c) (hc_journal c) = Some r"
    using put_read(2) [OF r p fit] by blast
  have h: "hc_head c = (cp_event_count r, cp_head_hash r)" by (rule put_read(3) [OF r p fit])
  show ?thesis using verify_current_latest [OF rs'] d h by simp
qed

text \<open>A checkpoint that succeeds makes its head the trusted one: in the new store exactly this head verifies as
  current, and the record has the recovery epoch of the installation, which the caller expected.
\<close>

theorem checkpoint_becomes_trusted:
  assumes "read_checkpoints env f = Inr rs" "put_checkpoint env clock c f = (Inr r, f')" "fits env r"
  shows "(\<forall>h r'. verify_current env (hc_installation_id c) (hc_journal c) h f' = Inr r' \<longleftrightarrow> h = hc_head c \<and> r' = r)
    \<and> expects (hc_expected_epoch c) (top_epoch rs (hc_installation_id c))
    \<and> (f' = f \<or> cp_recovery_epoch r = top_epoch rs (hc_installation_id c))"
  by (rule put_trusted [OF assms])

lemma recover_heads_valid:
  assumes "recover_accepts clock c t ns" "is_pair c a b"
  shows "validate_head (cp_event_count a, cp_head_hash a) = Inr (cp_event_count a, cp_head_hash a)"
    "validate_head (cp_event_count b, cp_head_hash b) = Inr (cp_event_count b, cp_head_hash b)"
    "fullmatch installation_id_pattern (rc_installation_id c)"
proof -
  have n: "normalize_heads (rc_heads c) journal_kinds = Inr ns" "fullmatch installation_id_pattern (rc_installation_id c)"
    using assms(1) by (simp_all add: recover_accepts_def)
  show "validate_head (cp_event_count a, cp_head_hash a) = Inr (cp_event_count a, cp_head_hash a)"
    "validate_head (cp_event_count b, cp_head_hash b) = Inr (cp_event_count b, cp_head_hash b)"
    "fullmatch installation_id_pattern (rc_installation_id c)"
    using n(2) by auto (use normalize_heads_SomeD [OF n(1)] assms(2) in \<open>fastforce simp: is_pair_def\<close>)+
qed

lemma recover_again:
  assumes "recover_accepts clock c t ns" "is_pair c a b" "recovery_prior rs c = []" "read_checkpoints env f = Inr (rs @ [a, b])"
  shows "recover_checkpoints env clock c f = (Inr (a, b), f)"
proof -
  have p: "recovery_prior (rs @ [a, b]) c = [a, b]" using assms(2,3) by (simp add: recovery_prior_def is_pair_def about_def)
  obtain h h' where ns: "ns = [(JK_Audit, h), (JK_Operations, h')]" "map_of (rc_heads c) ''audit'' = Some h"
    "map_of (rc_heads c) ''operations'' = Some h'"
    using assms(1) normalize_heads_SomeD unfolding recover_accepts_def by metis
  have "repeated_recovery (rs @ [a, b]) (rc_installation_id c) [a, b] ns c = Inr (a, b)"
    using assms(2) ns by (simp add: repeated_recovery_def journal_kinds_def is_pair_def about_def)
  then show ?thesis using recover_accepted [OF assms(1,4)] p by simp
qed

lemma current_epoch_after:
  assumes "about inst JK_Audit a" "about inst JK_Operations b" "cp_recovery_epoch b = cp_recovery_epoch a"
    "cp_recovery_epoch a = top_epoch rs inst + 1"
  shows "current_recovery_epoch (rs @ [a, b]) inst = Inr (top_epoch rs inst + 1)"
proof -
  have t: "top_epoch (rs @ [a, b]) inst = top_epoch rs inst + 1"
    using assms top_epoch_simps(2) [of "rs @ [a]" b inst] by (simp add: about_def)
  have "filter (\<lambda>r. cp_installation_id r = inst) (rs @ [a, b]) \<noteq> []" using assms(1) by (simp add: about_def)
  moreover have "remdups (List.map_filter (\<lambda>j. map_option cp_recovery_epoch (find_latest (rs @ [a, b]) inst j)) journal_kinds)
      = [cp_recovery_epoch a]"
    using assms(1-3) by (simp add: journal_kinds_def map_filter_simps about_def)
  ultimately show ?thesis
    using t unfolding current_recovery_epoch_def top_epoch_def of_installation_def by (simp only: Let_def if_False) simp
qed

lemma recover_trusted:
  assumes r: "read_checkpoints env f = Inr rs" and p: "recover_checkpoints env clock c f = (Inr (a, b), f')"
    and fit: "fits env a" "fits env b"
  shows "verify_current env (rc_installation_id c) JK_Audit (cp_event_count a, cp_head_hash a) f' = Inr a
    \<and> verify_current env (rc_installation_id c) JK_Operations (cp_event_count b, cp_head_hash b) f' = Inr b
    \<and> is_pair c a b \<and> recover_checkpoints env clock c f' = (Inr (a, b), f')
    \<and> (f' = f \<or> recovery_epoch_of env (rc_installation_id c) f' = Inr (top_epoch rs (rc_installation_id c) + 1))"
proof (rule recover_read [OF r p fit])
  assume s: "f' = f" "is_pair c a b" "find_latest rs (rc_installation_id c) JK_Audit = Some a"
      "find_latest rs (rc_installation_id c) JK_Operations = Some b"
  obtain t ns where acc: "recover_accepts clock c t ns"
    using recover_refused [of clock c env f] p by force
  note v = recover_heads_valid [OF acc s(2)]
  show ?thesis
    using verify_current_latest [OF r s(3) v(3,1)] verify_current_latest [OF r s(4) v(3,2)] s p by simp
next
  assume n: "read_checkpoints env f' = Inr (rs @ [a, b])" "is_pair c a b"
      "cp_recovery_epoch a = top_epoch rs (rc_installation_id c) + 1" "cp_recovery_epoch b = cp_recovery_epoch a"
      "recovery_prior rs c = []" "\<exists>t ns. recover_accepts clock c t ns"
  obtain t ns where acc: "recover_accepts clock c t ns" using n(6) by blast
  note v = recover_heads_valid [OF acc n(2)]
  have ab: "about (rc_installation_id c) JK_Audit a" "about (rc_installation_id c) JK_Operations b"
    using n(2) by (simp_all add: is_pair_def)
  have l: "find_latest (rs @ [a, b]) (rc_installation_id c) JK_Audit = Some a"
      "find_latest (rs @ [a, b]) (rc_installation_id c) JK_Operations = Some b"
    using ab by (simp_all add: about_def)
  have "recovery_epoch_of env (rc_installation_id c) f' = Inr (top_epoch rs (rc_installation_id c) + 1)"
    using current_epoch_after [OF ab n(4,3)] n(1) v(3) by (simp add: recovery_epoch_of_def validate_installation_id_def)
  then show ?thesis
    using verify_current_latest [OF n(1) l(1) v(3,1)] verify_current_latest [OF n(1) l(2) v(3,2)] n(2)
      recover_again [OF acc n(2,5,1)] by simp
qed

text \<open>A recovery that succeeds rebases both journals at once: both given heads are the trusted ones of the new store, a
  repetition of the call changes nothing and gives the same evidence, and unless the call was itself a repetition the
  installation has entered the next recovery epoch.
\<close>

theorem recovery_rebases_both:
  assumes "read_checkpoints env f = Inr rs" "recover_checkpoints env clock c f = (Inr (a, b), f')" "fits env a" "fits env b"
  shows "verify_current env (rc_installation_id c) JK_Audit (cp_event_count a, cp_head_hash a) f' = Inr a
    \<and> verify_current env (rc_installation_id c) JK_Operations (cp_event_count b, cp_head_hash b) f' = Inr b
    \<and> is_pair c a b \<and> recover_checkpoints env clock c f' = (Inr (a, b), f')
    \<and> (f' = f \<or> recovery_epoch_of env (rc_installation_id c) f' = Inr (top_epoch rs (rc_installation_id c) + 1))"
  by (rule recover_trusted [OF assms])

subsection \<open>A concrete store for the witnesses\<close>

definition ex_cp_env :: checkpoint_env where
  "ex_cp_env = \<lparr>cp_key = replicate 32 CHR ''k'', cp_hmac = (\<lambda>k p. replicate 64 CHR ''a''),
     cp_isoformat = tagged_time, cp_json_time = (\<lambda>d. ''1970-01-01T00:00:00Z'')\<rparr>"

definition ex_put :: "int \<Rightarrow> head_call" where
  "ex_put n = \<lparr>hc_installation_id = ''home'', hc_journal = JK_Audit, hc_head = (n, replicate 64 CHR ''b''), hc_now = None,
     hc_expected_epoch = Some 0\<rparr>"

definition ex_recover :: recover_call where
  "ex_recover = \<lparr>rc_installation_id = ''home'', rc_heads = [(''audit'', (1, replicate 64 CHR ''c'')), (''operations'', (0, replicate 64 CHR ''0''))],
     rc_operation_id = ''restore-1'', rc_actor_id = ''admin'', rc_manifest = replicate 64 CHR ''d'', rc_now = None\<rparr>"

lemma ex_read_empty: "read_checkpoints ex_cp_env None = Inr []"
  by (simp add: read_checkpoints_def)

text \<open>
  With a hexadecimal HMAC, ordinary timestamps and numbers of at most twenty digits every new record fits.
\<close>

definition short_number :: "int \<Rightarrow> bool" where "short_number i \<longleftrightarrow> length (int_digits i) \<le> 20"

definition short_option :: "string option \<Rightarrow> bool" where
  "short_option t \<longleftrightarrow> (case t of None \<Rightarrow> True | Some s \<Rightarrow> length s \<le> 128)"

lemma checkpoint_fits:
  assumes "length (cp_checkpoint_hash r) \<le> 64" "length (cp_head_hash r) \<le> 64" "length (cp_previous_hash r) \<le> 64"
    and "length (cp_installation_id r) \<le> 64" "length (cp_json_time env (cp_recorded_at r)) \<le> 40"
    and "short_option (cp_actor_id r)" "short_option (cp_operation_id r)" "short_option (cp_manifest r)"
    and "short_number (cp_event_count r)" "short_number (cp_format_version r)" "short_number (cp_recovery_epoch r)"
      "short_number (cp_sequence r)"
  shows "fits env r"
proof -
  have str: "length (json_item (KStr k, VStr v)) \<le> 6 * length k + 5 + 6 * length v" for k v
    using json_item_length [of k "VStr v"] json_string_length [of v] by simp
  have num: "length (json_item (KStr k, VInt i)) \<le> 6 * length k + 23" if "short_number i" for k i
    using json_item_length [of k "VInt i"] that by (simp add: short_number_def)
  have opt: "length (json_item (KStr k, nullable t)) \<le> 6 * length k + 5 + 6 * 128" if "short_option t" for k t
    using json_item_length [of k VNull] str [of k "the t"] that
    by (cases t) (auto simp: nullable_def short_option_def)
  have kind: "length (json_item (KStr ''journal'', VStr (kind_value j))) \<le> 107" for j
    using str [of "''journal''" "kind_value j"] by (cases j) auto
  have "length (checkpoint_text env r) \<le> 8000"
    unfolding checkpoint_text_def
    using str [of "''checkpoint_hash''" "cp_checkpoint_hash r"] num [OF assms(9), of "''event_count''"]
      num [OF assms(10), of "''format_version''"] str [of "''head_hash''" "cp_head_hash r"]
      str [of "''installation_id''" "cp_installation_id r"] kind [of "cp_journal r"]
      str [of "''previous_hash''" "cp_previous_hash r"] str [of "''recorded_at''" "cp_json_time env (cp_recorded_at r)"]
      opt [OF assms(6), of "''recovery_actor_id''"] num [OF assms(11), of "''recovery_epoch''"]
      opt [OF assms(8), of "''recovery_manifest_sha256''"] opt [OF assms(7), of "''recovery_operation_id''"]
      num [OF assms(12), of "''sequence''"] assms(1-5)
      json_dict_length [of "[(KStr ''checkpoint_hash'', VStr (cp_checkpoint_hash r)), (KStr ''event_count'', VInt (cp_event_count r)),
        (KStr ''format_version'', VInt (cp_format_version r)), (KStr ''head_hash'', VStr (cp_head_hash r)),
        (KStr ''installation_id'', VStr (cp_installation_id r)), (KStr ''journal'', VStr (kind_value (cp_journal r))),
        (KStr ''previous_hash'', VStr (cp_previous_hash r)), (KStr ''recorded_at'', VStr (cp_json_time env (cp_recorded_at r))),
        (KStr ''recovery_actor_id'', nullable (cp_actor_id r)), (KStr ''recovery_epoch'', VInt (cp_recovery_epoch r)),
        (KStr ''recovery_manifest_sha256'', nullable (cp_manifest r)), (KStr ''recovery_operation_id'', nullable (cp_operation_id r)),
        (KStr ''sequence'', VInt (cp_sequence r))]"]
    by (simp del: json_dumps.simps)
  then show ?thesis
    using utf8_length_le [of "checkpoint_text env r"] by (simp add: fits_def MAX_CHECKPOINT_RECORD_BYTES_def)
qed

lemma ex_names:
  "fullmatch installation_id_pattern ''home''" "fullmatch recovery_operation_pattern ''restore-1''"
  "fullmatch recovery_actor_pattern ''admin''"
  by code_simp+

lemma ex_digest:
  "fullmatch sha256_pattern (replicate 64 CHR ''b'')" "fullmatch sha256_pattern (replicate 64 CHR ''c'')"
  "fullmatch sha256_pattern (replicate 64 CHR ''d'')" "fullmatch sha256_pattern (replicate 64 CHR ''0'')"
  unfolding sha256_pattern_def by (rule class_full_replicate, simp add: in_class_def)+

lemma ex_short: "short_number 0" "short_number 1" "short_number 2" "short_number 3" "short_number 5"
  by (simp_all add: short_number_def int_digits_def nat_digits.simps)

lemma ex_hmac: "length (sign_integrity_checkpoint ex_cp_env v) = 64" "length (cp_json_time ex_cp_env d) \<le> 40"
  by (simp_all add: sign_integrity_checkpoint_def ex_cp_env_def)

lemma ex_put_first:
  "\<exists>r. put_checkpoint ex_cp_env 7 (ex_put 5) None = (Inr r, append_many ex_cp_env [r] None) \<and> fits ex_cp_env r"
proof -
  let ?r = "new_checkpoint ex_cp_env [] ''home'' JK_Audit (5, replicate 64 CHR ''b'') 7 0 None None None"
  have "put_checkpoint ex_cp_env 7 (ex_put 5) None = (Inr ?r, append_many ex_cp_env [?r] None)"
    by (simp add: put_checkpoint_def validate_installation_id_def validate_head_def ex_names ex_digest ex_put_def Let_def
        validate_expected_recovery_epoch_def checkpoint_time_def utc_or_now_def ex_read_empty current_recovery_epoch_def)
  moreover have "fits ex_cp_env ?r"
    by (rule checkpoint_fits) (simp_all add: ex_hmac ex_short short_option_def checkpoint_head_def CHECKPOINT_GENESIS_HASH_def)
  ultimately show ?thesis by blast
qed

theorem checkpoint_becomes_trusted_witness:
  "\<exists>f' r. put_checkpoint ex_cp_env 7 (ex_put 5) None = (Inr r, f')
    \<and> verify_current ex_cp_env ''home'' JK_Audit (5, replicate 64 CHR ''b'') f' = Inr r"
proof -
  obtain r f' where p: "put_checkpoint ex_cp_env 7 (ex_put 5) None = (Inr r, f')" "fits ex_cp_env r"
    using ex_put_first by blast
  show ?thesis using checkpoint_becomes_trusted [OF ex_read_empty p] p(1) by (auto simp: ex_put_def)
qed

theorem trusted_heads_move_forward_witness:
  "\<exists>r. read_checkpoints ex_cp_env (run_store_calls ex_cp_env [Put 7 (ex_put 5)] None) = Inr [r] \<and> heads_forward [r]"
proof -
  obtain r where p: "put_checkpoint ex_cp_env 7 (ex_put 5) None = (Inr r, append_many ex_cp_env [r] None)" "fits ex_cp_env r"
    using ex_put_first by blast
  have "append_many ex_cp_env [r] None \<noteq> None" by (simp add: append_many_def)
  then have "read_checkpoints ex_cp_env (append_many ex_cp_env [r] None) = Inr [r]"
    using put_read(1) [OF ex_read_empty p] by auto
  then have q: "read_checkpoints ex_cp_env (run_store_calls ex_cp_env [Put 7 (ex_put 5)] None) = Inr [r]"
    using p(1) by simp
  show ?thesis using trusted_heads_move_forward [OF ex_read_empty _ q] q by auto
qed

theorem recovery_rebases_both_witness:
  "\<exists>a b f'. recover_checkpoints ex_cp_env 7 ex_recover None = (Inr (a, b), f') \<and> f' \<noteq> None
    \<and> recover_checkpoints ex_cp_env 7 ex_recover f' = (Inr (a, b), f')
    \<and> recovery_epoch_of ex_cp_env ''home'' f' = Inr 1"
proof -
  let ?a = "new_checkpoint ex_cp_env [] ''home'' JK_Audit (1, replicate 64 CHR ''c'') 7 1 (Some ''restore-1'') (Some ''admin'') (Some (replicate 64 CHR ''d''))"
  let ?b = "new_checkpoint ex_cp_env [?a] ''home'' JK_Operations (0, replicate 64 CHR ''0'') 7 1 (Some ''restore-1'') (Some ''admin'') (Some (replicate 64 CHR ''d''))"
  have p: "recover_checkpoints ex_cp_env 7 ex_recover None = (Inr (?a, ?b), append_many ex_cp_env [?a, ?b] None)"
    by (simp add: recover_checkpoints_def validate_installation_id_def validate_recovery_operation_def validate_recovery_actor_def
        validate_head_def ex_names ex_digest ex_recover_def Let_def journal_kinds_def checkpoint_time_def utc_or_now_def ex_read_empty
        current_recovery_epoch_def)
  have fa: "fits ex_cp_env ?a"
    by (rule checkpoint_fits) (simp_all add: ex_hmac ex_short short_option_def checkpoint_head_def CHECKPOINT_GENESIS_HASH_def)
  have fb: "fits ex_cp_env ?b"
    by (rule checkpoint_fits) (simp_all add: ex_hmac ex_short short_option_def checkpoint_head_def)
  have "append_many ex_cp_env [?a, ?b] None \<noteq> None" by (simp add: append_many_def)
  then show ?thesis
    using recovery_rebases_both [OF ex_read_empty p fa fb] p by (auto simp: ex_recover_def)
qed

end
