(* ===== verification/Checkpoint_Anchor.thy ===== *)
theory Checkpoint_Anchor
  imports Integrity_Safety Audit_Safety
begin

text \<open>
  \<open>checkpoint_anchor.py\<close>: anchoring a verified journal head while other workers use the checkpoint store and
  the journal. The state is the store's file and a world that holds the journal; other workers may change
  both before every step (\<open>interfere\<close>, numbered by the step).
\<close>

subsection \<open>The retry loop\<close>

definition MAX_ANCHOR_ATTEMPTS :: nat where "MAX_ANCHOR_ATTEMPTS = 3"

datatype 'x anchor_error = NotVerified 'x | NotCheckpointed checkpoint_error

record ('w, 'x) anchoring =
  ac_store :: checkpoint_env
  ac_installation_id :: string
  ac_journal :: journal_kind
  ac_verify :: "'w \<Rightarrow> 'x + int \<times> string"
  ac_expected_epoch :: int
  ac_clock :: "nat \<Rightarrow> int"

definition anchor_call :: "('w, 'x) anchoring \<Rightarrow> int \<times> string \<Rightarrow> head_call" where
  "anchor_call a head =
     \<lparr>hc_installation_id = ac_installation_id a, hc_journal = ac_journal a, hc_head = head, hc_now = None,
      hc_expected_epoch = Some (ac_expected_epoch a)\<rparr>"

type_synonym 'w worker_steps = "nat \<Rightarrow> checkpoint_file \<times> 'w \<Rightarrow> checkpoint_file \<times> 'w"

fun anchor_attempts ::
  "('w, 'x) anchoring \<Rightarrow> 'w worker_steps \<Rightarrow> nat \<Rightarrow> nat \<Rightarrow> checkpoint_error \<Rightarrow> checkpoint_file \<times> 'w
    \<Rightarrow> ('x anchor_error + checkpoint) \<times> (checkpoint_file \<times> 'w)" where
  "anchor_attempts a interfere 0 n last_error st = (Inl (NotCheckpointed last_error), st)"
| "anchor_attempts a interfere (Suc k) n last_error st =
     (let st1 = interfere n st in
      case ac_verify a (snd st1) of Inl x \<Rightarrow> (Inl (NotVerified x), st1) | Inr head \<Rightarrow>
      let st2 = interfere (n + 1) st1 in
      case put_checkpoint (ac_store a) (ac_clock a n) (anchor_call a head) (fst st2) of
        (Inr r, f) \<Rightarrow> (Inr r, (f, snd st2))
      | (Inl (CheckpointValueError m), f) \<Rightarrow> (Inl (NotCheckpointed (CheckpointValueError m)), (f, snd st2))
      | (Inl (IntegrityCheckpointError m), f) \<Rightarrow>
          let st3 = interfere (n + 2) (f, snd st2) in
          case latest_checkpoint (ac_store a) (ac_installation_id a) (ac_journal a) (fst st3) of
            Inl e \<Rightarrow> (Inl (NotCheckpointed e), st3)
          | Inr None \<Rightarrow> (Inl (NotCheckpointed (IntegrityCheckpointError m)), st3)
          | Inr (Some latest) \<Rightarrow>
              if cp_recovery_epoch latest \<noteq> ac_expected_epoch a \<or> cp_event_count latest \<le> fst head
              then (Inl (NotCheckpointed (IntegrityCheckpointError m)), st3)
              else anchor_attempts a interfere k (n + 3) (IntegrityCheckpointError m) st3)"

text \<open>The error of the start is never raised: the first attempt replaces it.\<close>

definition checkpoint_verified_journal ::
  "('w, 'x) anchoring \<Rightarrow> 'w worker_steps \<Rightarrow> checkpoint_file \<times> 'w \<Rightarrow> ('x anchor_error + checkpoint) \<times> (checkpoint_file \<times> 'w)" where
  "checkpoint_verified_journal a interfere st =
     anchor_attempts a interfere MAX_ANCHOR_ATTEMPTS 0 (IntegrityCheckpointError []) st"

subsection \<open>What other workers may do\<close>

text \<open>They use the store by its calls, and keep a property of the world.\<close>

definition workers_keep :: "checkpoint_env \<Rightarrow> ('w \<Rightarrow> bool) \<Rightarrow> 'w worker_steps \<Rightarrow> bool" where
  "workers_keep env P interfere \<longleftrightarrow>
     (\<forall>n f w. P w \<longrightarrow> P (snd (interfere n (f, w))) \<and> (\<exists>cs. fst (interfere n (f, w)) = run_store_calls env cs f))"

lemma workers_keepD:
  assumes "workers_keep env P interfere" "P (snd st)"
  shows "P (snd (interfere n st))" "\<exists>cs. fst (interfere n st) = run_store_calls env cs (fst st)"
  using assms unfolding workers_keep_def by (metis prod.collapse)+

lemma run_store_calls_append:
  "run_store_calls env (cs @ cs') f = run_store_calls env cs' (run_store_calls env cs f)"
  by (induction cs arbitrary: f) auto

text \<open>One attempt that is part of a success: it succeeds, or leaves the store alone and is retried.\<close>

lemma anchor_step:
  assumes "anchor_attempts a interfere (Suc k) n e st = (Inr r, st')"
  defines "st1 \<equiv> interfere n st" and "st2 \<equiv> interfere (n + 1) (interfere n st)"
  obtains head where "ac_verify a (snd st1) = Inr head"
      "put_checkpoint (ac_store a) (ac_clock a n) (anchor_call a head) (fst st2) = (Inr r, fst st')" "snd st' = snd st2"
  | head m where "ac_verify a (snd st1) = Inr head"
      "anchor_attempts a interfere k (n + 3) m (interfere (n + 2) st2) = (Inr r, st')"
proof -
  obtain head where head: "ac_verify a (snd st1) = Inr head"
    using assms(1) by (cases "ac_verify a (snd st1)") (auto simp: Let_def st1_def)
  obtain res f where p: "put_checkpoint (ac_store a) (ac_clock a n) (anchor_call a head) (fst st2) = (res, f)" by fastforce
  show thesis
  proof (cases res)
    case (Inr q)
    then show thesis using that(1) [OF head] assms(1) head p by (auto simp: Let_def st1_def st2_def)
  next
    case (Inl x)
    then obtain m where m: "x = IntegrityCheckpointError m"
      using assms(1) head p by (cases x) (auto simp: Let_def st1_def st2_def)
    have "(f, snd st2) = st2" using put_refused p Inl by (metis prod.collapse)
    then have "anchor_attempts a interfere k (n + 3) (IntegrityCheckpointError m) (interfere (n + 2) st2) = (Inr r, st')"
      using assms(1) head p Inl m by (auto simp: Let_def st1_def st2_def split: sum.splits option.splits if_splits)
    then show thesis using that(2) [OF head] by blast
  qed
qed

text \<open>
  An anchored head was verified in a world that has the property, and it was recorded by a checkpoint on a store
  that the calls of other workers lead to.
\<close>

definition anchored :: "('w, 'x) anchoring \<Rightarrow> ('w \<Rightarrow> bool) \<Rightarrow> checkpoint_file \<Rightarrow> checkpoint \<Rightarrow> checkpoint_file \<times> 'w \<Rightarrow> bool" where
  "anchored a P f r st' \<longleftrightarrow>
     (\<exists>w cs clock head. P w \<and> ac_verify a w = Inr head \<and> P (snd st')
        \<and> put_checkpoint (ac_store a) clock (anchor_call a head) (run_store_calls (ac_store a) cs f) = (Inr r, fst st'))"

lemma anchor_attempts_verified:
  assumes "workers_keep (ac_store a) P interfere" "P (snd st)" "anchor_attempts a interfere k n e st = (Inr r, st')"
  shows "anchored a P (fst st) r st'"
  using assms(2,3)
proof (induction k arbitrary: n e st)
  case (Suc k)
  let ?st1 = "interfere n st" and ?st2 = "interfere (n + 1) (interfere n st)"
  note k1 = workers_keepD [OF assms(1) Suc.prems(1), of n]
  note k2 = workers_keepD [OF assms(1) k1(1), of "n + 1"]
  note k3 = workers_keepD [OF assms(1) k2(1), of "n + 2"]
  obtain cs cs3 where cs: "fst ?st2 = run_store_calls (ac_store a) cs (fst st)"
    "fst (interfere (n + 2) ?st2) = run_store_calls (ac_store a) cs3 (fst ?st2)"
    using k1(2) k2(2) k3(2) by (metis run_store_calls_append)
  from Suc.prems(2) show ?case
  proof (cases rule: anchor_step)
    case (1 head)
    then show ?thesis using k1(1) k2(1) cs(1) unfolding anchored_def by metis
  next
    case (2 head m)
    from Suc.IH [OF k3(1) 2(2)] show ?thesis
      unfolding anchored_def cs by (metis run_store_calls_append)
  qed
qed simp

lemma anchored_trusted:
  assumes "anchored a P f r st'" "fits (ac_store a) r"
  shows "\<exists>w. P w \<and> ac_verify a w = Inr (cp_event_count r, cp_head_hash r)
      \<and> verify_current (ac_store a) (ac_installation_id a) (ac_journal a) (cp_event_count r, cp_head_hash r) (fst st') = Inr r"
proof -
  obtain w cs clock head where w: "P w" "ac_verify a w = Inr head"
    "put_checkpoint (ac_store a) clock (anchor_call a head) (run_store_calls (ac_store a) cs f) = (Inr r, fst st')"
    using assms(1) unfolding anchored_def by blast
  obtain rs where rs: "read_checkpoints (ac_store a) (run_store_calls (ac_store a) cs f) = Inr rs"
    by (rule put_readable [OF w(3)])
  have h: "head = (cp_event_count r, cp_head_hash r)" using put_read(3) [OF rs w(3) assms(2)] by (simp add: anchor_call_def)
  then show ?thesis using put_trusted [OF rs w(3) assms(2)] w(1,2) by (auto simp: anchor_call_def)
qed

lemma rollback_refused:
  assumes "read_checkpoints (ac_store a) f = Inr rs" "heads_forward rs" "x \<in> set rs"
    and x: "about (ac_installation_id a) (ac_journal a) x" "cp_recovery_epoch x = ac_expected_epoch a" "fst head < cp_event_count x"
    and p: "put_checkpoint (ac_store a) clock (anchor_call a head) (run_store_calls (ac_store a) cs f) = (Inr r, f')"
  shows False
proof -
  let ?g = "run_store_calls (ac_store a) cs f"
  obtain rs' where rs': "read_checkpoints (ac_store a) ?g = Inr rs'"
    by (rule put_readable [OF p])
  obtain new where new: "rs' = rs @ new" "heads_forward rs'" using calls_forward [OF assms(1,2) rs'] by blast
  have xin: "x \<in> set rs'" using assms(3) new(1) by simp
  then obtain y where y: "find_latest rs' (ac_installation_id a) (ac_journal a) = Some y"
    using x(1) find_latest_NoneD by fastforce
  have ahead: "x = y \<or> ahead x y" using before_latest [OF new(2) y xin x(1)] .
  have top: "top_epoch rs' (ac_installation_id a) = ac_expected_epoch a"
    and later: "fst head = cp_event_count y \<or> cp_event_count y < fst head"
    by (rule put_cases [OF rs', of clock "anchor_call a head"]; use p y in \<open>auto simp: anchor_call_def expects_def\<close>)+
  have "cp_recovery_epoch y \<le> ac_expected_epoch a"
    using top_epoch_about find_latest_SomeD [OF y] top by metis
  then have "cp_event_count x \<le> cp_event_count y"
    using ahead x(1,2) find_latest_SomeD [OF y] by (auto simp: ahead_def about_def)
  then show False using later x(3) by auto
qed

lemma anchor_rollback:
  assumes keep: "workers_keep (ac_store a) P interfere" "P (snd st)"
    and r: "read_checkpoints (ac_store a) (fst st) = Inr rs" "heads_forward rs" "x \<in> set rs"
    and x: "about (ac_installation_id a) (ac_journal a) x" "cp_recovery_epoch x = ac_expected_epoch a"
    and behind: "\<And>w head. P w \<Longrightarrow> ac_verify a w = Inr head \<Longrightarrow> fst head < cp_event_count x"
  shows "\<exists>e st'. checkpoint_verified_journal a interfere st = (Inl e, st')"
proof (rule ccontr)
  assume "\<nexists>e st'. checkpoint_verified_journal a interfere st = (Inl e, st')"
  then obtain q st' where "checkpoint_verified_journal a interfere st = (Inr q, st')"
    by (metis prod.collapse sum.exhaust)
  then have "anchored a P (fst st) q st'"
    unfolding checkpoint_verified_journal_def by (rule anchor_attempts_verified [OF keep])
  then show False
    unfolding anchored_def using rollback_refused [OF r x] behind by blast
qed

text \<open>
  When the anchoring of a journal succeeds, whatever other workers did meanwhile through the calls of the store and
  within a property of the journal's world, the head it recorded is one the verification returned in a world
  with that property, it is the trusted head of the new store, and it belongs to the expected recovery epoch.
\<close>

lemma anchored_head_was_verified:
  assumes "workers_keep (ac_store a) P interfere" "P (snd st)"
    and "checkpoint_verified_journal a interfere st = (Inr r, st')" "fits (ac_store a) r"
  shows "\<exists>w. P w \<and> ac_verify a w = Inr (cp_event_count r, cp_head_hash r)
      \<and> verify_current (ac_store a) (ac_installation_id a) (ac_journal a) (cp_event_count r, cp_head_hash r) (fst st') = Inr r"
  using anchored_trusted [OF anchor_attempts_verified [OF assms(1,2)] assms(4)] assms(3)
  unfolding checkpoint_verified_journal_def by blast

subsection \<open>Properties\<close>

text \<open>
  C7: a worker whose journal was rolled back keeps failing: while the store holds, in the expected epoch, a head with more
  events than the verification returns, no attempt succeeds.
\<close>

theorem rollback_never_anchored:
  assumes "workers_keep (ac_store a) P interfere" "P (snd st)"
    and "read_checkpoints (ac_store a) (fst st) = Inr rs" "heads_forward rs" "x \<in> set rs"
    and "about (ac_installation_id a) (ac_journal a) x" "cp_recovery_epoch x = ac_expected_epoch a"
    and "\<And>w head. P w \<Longrightarrow> ac_verify a w = Inr head \<Longrightarrow> fst head < cp_event_count x"
  shows "\<exists>e st'. checkpoint_verified_journal a interfere st = (Inl e, st')"
  by (rule anchor_rollback [OF assms])

subsection \<open>Anchoring the audit log\<close>

definition audit_heads :: "audit_env \<Rightarrow> audit_file \<Rightarrow> audit_error + int \<times> string" where
  "audit_heads env file =
     (case audit_verify env None file of Inl e \<Rightarrow> Inl e | Inr v \<Rightarrow> Inr (av_event_count v, av_head_hash v))"

definition audit_extends :: "audit_env \<Rightarrow> audit_event list \<Rightarrow> audit_file \<Rightarrow> bool" where
  "audit_extends env evs file \<longleftrightarrow> audit_parsed file \<and> (\<exists>new. audit_read env file = Inr (evs @ new))"

lemma audit_extends_append: "audit_extends env evs f \<Longrightarrow> audit_extends env evs (snd (audit_append env clock e f))"
proof -
  assume x: "audit_extends env evs f"
  then obtain new where new: "audit_read env f = Inr (evs @ new)" "audit_parsed f" by (auto simp: audit_extends_def)
  obtain res f' where p: "audit_append env clock e f = (res, f')" by fastforce
  show ?thesis
  proof (cases res)
    case (Inl y)
    then have "f' = f" using audit_append_refused p by metis
    then show ?thesis using x p by simp
  next
    case (Inr q)
    then obtain t m where "audit_append_line env (new_audit_event env (evs @ new) e t m) f = (Inr (), f')"
      using p audit_append_iff [OF new(1), of clock e q f'] by auto
    from audit_append_line_read [OF new(1) this] show ?thesis
      using audit_append_parsed [OF new(2), of env clock e] p unfolding audit_extends_def by auto
  qed
qed

text \<open>
  \<open>P\<close> holds of the logs that occur while the head is anchored. The HMAC has no collision between the texts signed in one
  of these and those signed in the log presented later.
\<close>

definition no_forgery :: "audit_env \<Rightarrow> (audit_file \<Rightarrow> bool) \<Rightarrow> audit_event list \<Rightarrow> bool" where
  "no_forgery env P gs \<longleftrightarrow>
     (\<forall>w es. P w \<longrightarrow> audit_read env w = Inr es \<longrightarrow>
        inj_on (audit_hmac env (audit_key env)) (audit_signed env ` set es \<union> audit_signed env ` set gs))"

lemma audit_anchor_pins:
  assumes keep: "workers_keep (ac_store a) P interfere" "P (snd st)" "\<And>w. P w \<Longrightarrow> audit_extends env evs w"
    and v: "ac_verify a = audit_heads env"
    and r: "checkpoint_verified_journal a interfere st = (Inr r, st')" "fits (ac_store a) r" "cp_head_hash r \<noteq> AUDIT_GENESIS_HASH"
    and g: "audit_verify env (Some (cp_head_hash r)) g = Inr x" "audit_parsed g" "audit_read env g = Inr gs"
    and iso: "inj (audit_isoformat env)" and i: "no_forgery env P gs"
  shows "\<exists>w new. P w \<and> audit_read env w = Inr (evs @ new) \<and> list_all2 same_event (evs @ new) gs"
proof -
  from anchored_trusted [OF anchor_attempts_verified [OF keep(1,2)] r(2)] r(1) obtain w where
    w: "P w" "ac_verify a w = Inr (cp_event_count r, cp_head_hash r)"
    unfolding checkpoint_verified_journal_def by blast
  then obtain new where new: "audit_read env w = Inr (evs @ new)" "audit_parsed w" using keep(3) by (auto simp: audit_extends_def)
  have h: "audit_head (evs @ new) = cp_head_hash r" "audit_head gs = cp_head_hash r"
    using w(2) new(1) g(1,3) v by (auto simp: audit_heads_def audit_verify_def split: if_splits)
  have ne: "evs @ new \<noteq> []" "gs \<noteq> []" using h r(3) by (auto simp: audit_head_def split: if_splits)
  have p: "\<forall>e\<in>set (evs @ new) \<union> set gs. plain_event e"
    using audit_read_parsed [OF new] audit_read_parsed [OF g(3,2)] by auto
  have "inj_on (audit_hmac env (audit_key env)) (audit_signed env ` set (evs @ new) \<union> audit_signed env ` set gs)"
    using i w(1) new(1) unfolding no_forgery_def by blast
  from audit_chain_unique [OF audit_read_chained [OF new(1)] audit_read_chained [OF g(3)] ne _ iso this p] h w(1) new(1)
  show ?thesis by auto
qed

text \<open>
  C4: anchoring protects the audit log end to end. When a head was anchored while the log only grew, a log that
  later verifies against the anchored head is one of the logs there were during the anchoring, event by event, and begins
  with all the events the log had when the anchoring started. The HMAC is assumed not to collide on the texts signed in
  these logs and in the log presented.
\<close>

theorem anchored_audit_events_are_kept:
  assumes "workers_keep (ac_store a) P interfere" "P (snd st)" "\<And>w. P w \<Longrightarrow> audit_extends env evs w"
    and "ac_verify a = audit_heads env"
    and "checkpoint_verified_journal a interfere st = (Inr r, st')" "fits (ac_store a) r" "cp_head_hash r \<noteq> AUDIT_GENESIS_HASH"
    and "audit_verify env (Some (cp_head_hash r)) g = Inr x" "audit_parsed g" "audit_read env g = Inr gs"
    and "inj (audit_isoformat env)" "no_forgery env P gs"
  shows "\<exists>w new. P w \<and> audit_read env w = Inr (evs @ new) \<and> list_all2 same_event (evs @ new) gs"
  by (rule audit_anchor_pins [OF assms])

subsection \<open>Witnesses\<close>

definition ex_anchoring :: "(audit_file, audit_error) anchoring" where
  "ex_anchoring = \<lparr>ac_store = ex_cp_env, ac_installation_id = ''home'', ac_journal = JK_Audit, ac_verify = audit_heads ex_audit_env,
     ac_expected_epoch = 0, ac_clock = (\<lambda>n. 7)\<rparr>"

definition ex_anchored :: checkpoint where
  "ex_anchored = new_checkpoint ex_cp_env [] ''home'' JK_Audit (1, replicate 64 CHR ''a'') 7 0 None None None"

abbreviation quiet :: "audit_file worker_steps" where "quiet \<equiv> \<lambda>n st. st"

lemma quiet_workers: "workers_keep env P quiet"
  unfolding workers_keep_def by (auto intro: exI [of _ "[]"])

lemma ex_anchored_fits: "fits ex_cp_env ex_anchored"
  unfolding ex_anchored_def
  by (rule checkpoint_fits) (simp_all add: ex_hmac ex_short short_option_def checkpoint_head_def CHECKPOINT_GENESIS_HASH_def)

lemma ex_heads: "audit_heads ex_audit_env (ex_audit_file kvs) = Inr (1, replicate 64 CHR ''a'')"
proof -
  have "audit_count [ex_audit_event kvs] = 1" by (simp add: audit_count_def ex_audit_event_def)
  then show ?thesis
    using ex_audit_head [of kvs] by (simp only: audit_heads_def audit_verify_def ex_audit_read) simp
qed

lemma ex_anchor_put:
  "put_checkpoint ex_cp_env 7 (anchor_call ex_anchoring (1, replicate 64 CHR ''a'')) None = (Inr ex_anchored, append_many ex_cp_env [ex_anchored] None)"
proof -
  have "fullmatch sha256_pattern (replicate 64 CHR ''a'')"
    unfolding sha256_pattern_def by (rule class_full_replicate) (simp add: in_class_def)
  then show ?thesis
    by (simp add: put_checkpoint_def validate_installation_id_def validate_head_def ex_names anchor_call_def ex_anchoring_def Let_def
        validate_expected_recovery_epoch_def checkpoint_time_def utc_or_now_def ex_read_empty current_recovery_epoch_def ex_anchored_def)
qed

lemma ex_anchor_run:
  "checkpoint_verified_journal ex_anchoring quiet (None, ex_audit_file kvs) =
     (Inr ex_anchored, (append_many ex_cp_env [ex_anchored] None, ex_audit_file kvs))"
proof -
  have v: "ac_verify ex_anchoring (ex_audit_file kvs) = Inr (1, replicate 64 CHR ''a'')"
    and s: "ac_store ex_anchoring = ex_cp_env" "ac_clock ex_anchoring 0 = 7"
    using ex_heads by (simp_all add: ex_anchoring_def)
  show ?thesis
    unfolding checkpoint_verified_journal_def MAX_ANCHOR_ATTEMPTS_def numeral_3_eq_3 anchor_attempts.simps(2) Let_def
      snd_conv fst_conv v sum.case s ex_anchor_put prod.case by (rule refl)
qed

theorem rollback_never_anchored_witness:
  "\<exists>f r e st'. read_checkpoints ex_cp_env f = Inr [r] \<and> cp_event_count r = 5
    \<and> checkpoint_verified_journal ex_anchoring quiet (f, ex_audit_file []) = (Inl e, st')"
proof -
  obtain r where p: "put_checkpoint ex_cp_env 7 (ex_put 5) None = (Inr r, append_many ex_cp_env [r] None)" "fits ex_cp_env r"
    using ex_put_first by blast
  let ?f = "append_many ex_cp_env [r] None"
  have "?f \<noteq> None" by (simp add: append_many_def)
  then have r: "read_checkpoints ex_cp_env ?f = Inr [r]" using put_read(1) [OF ex_read_empty p] by auto
  have q: "cp_event_count r = 5" "about ''home'' JK_Audit r" "cp_recovery_epoch r = 0"
    using put_read(2,3) [OF ex_read_empty p] put_trusted [OF ex_read_empty p] r find_latest_SomeD
    by (auto simp: ex_put_def append_many_def)
  have a: "ac_store ex_anchoring = ex_cp_env" "ac_installation_id ex_anchoring = ''home''" "ac_journal ex_anchoring = JK_Audit"
    "ac_expected_epoch ex_anchoring = 0" "ac_verify ex_anchoring = audit_heads ex_audit_env" by (simp_all add: ex_anchoring_def)
  have "\<exists>e st'. checkpoint_verified_journal ex_anchoring quiet (?f, ex_audit_file []) = (Inl e, st')"
    by (rule rollback_never_anchored [where P = "\<lambda>w. w = ex_audit_file []" and rs = "[r]" and x = r])
      (use quiet_workers r q a ex_heads [of "[]"] in \<open>auto simp del: split_paired_Ex\<close>)
  then show ?thesis using r q(1) by blast
qed

text \<open>
  Another worker appends a second event between the start of the anchoring and the verification. The HMAC tells the two
  signed texts apart.
\<close>

definition linked_env :: audit_env where
  "linked_env = ex_audit_env\<lparr>audit_hmac :=
     (\<lambda>k p. replicate 64 (if p = audit_signed ex_audit_env (ex_audit_event []) then CHR ''a'' else CHR ''b''))\<rparr>"

text \<open>The same members in two orders.\<close>

definition ex_members :: "bool \<Rightarrow> (pykey \<times> pyval) list" where
  "ex_members swapped = (if swapped then [(KStr ''b'', VInt 2), (KStr ''a'', VInt 1)] else [(KStr ''a'', VInt 1), (KStr ''b'', VInt 2)])"

definition second_event :: "bool \<Rightarrow> audit_event" where
  "second_event d = new_audit_event linked_env [ex_audit_event []]
     \<lparr>an_actor_id = Some ''admin'', an_action = ''logout'', an_target_type = ''session'', an_target_id = None,
      an_outcome = Audit_Success, an_metadata = None, an_occurred_at = None\<rparr> 6 (VDict None (ex_members d))"

definition linked_file :: "bool \<Rightarrow> audit_file" where
  "linked_file d = Some [\<lparr>al_bytes = 300, al_complete = True, al_event = Some (ex_audit_event [])\<rparr>,
     \<lparr>al_bytes = 300, al_complete = True, al_event = Some (second_event d)\<rparr>]"

definition linked_anchoring :: "(audit_file, audit_error) anchoring" where
  "linked_anchoring = ex_anchoring\<lparr>ac_verify := audit_heads linked_env\<rparr>"

definition linked_anchored :: checkpoint where
  "linked_anchored = new_checkpoint ex_cp_env [] ''home'' JK_Audit (2, replicate 64 CHR ''b'') 7 0 None None None"

definition appender :: "audit_file worker_steps" where
  "appender n st = (fst st, if snd st = ex_audit_file [] then linked_file False else snd st)"

lemma linked_body: "audit_body linked_env = audit_body ex_audit_env" "audit_signed linked_env = audit_signed ex_audit_env"
  by (simp_all add: fun_eq_iff audit_signed_def audit_body_def linked_env_def)

lemma linked_first: "ae_event_hash (ex_audit_event []) = audit_sign linked_env (audit_body linked_env (ex_audit_event []))"
  using ex_audit_head [of "[]"] by (simp add: audit_head_def audit_sign_def linked_env_def audit_signed_def audit_body_def)

lemma second_plain: "plain_event (ex_audit_event [])" "plain_event (second_event d)"
  by (simp_all add: plain_event_def ex_audit_event_def second_event_def ex_members_def)

lemma second_signed: "audit_signed linked_env (second_event d) \<noteq> audit_signed linked_env (ex_audit_event [])"
proof
  assume "audit_signed linked_env (second_event d) = audit_signed linked_env (ex_audit_event [])"
  from audit_signed_body [OF second_plain(2,1) this] show False
    by (simp add: audit_body_def audit_fields_def second_event_def ex_audit_event_def)
qed

lemma second_hash: "ae_event_hash (second_event d) = replicate 64 CHR ''b''"
proof -
  have "ae_event_hash (second_event d) = audit_sign linked_env (audit_body linked_env (second_event d))"
    by (simp add: second_event_def)
  then show ?thesis
    using second_signed [of d] unfolding linked_body(2) audit_signed_def linked_body(1)
    by (simp add: audit_sign_def linked_env_def audit_signed_def)
qed

lemma first_read: "audit_read linked_env (ex_audit_file []) = Inr [ex_audit_event []]"
  using linked_first
  by (simp add: audit_read_def ex_audit_file_def verify_audit_line_def MAX_AUDIT_RECORD_BYTES_def)
    (simp add: ex_audit_event_def audit_count_def audit_head_def)

lemma linked_read: "audit_read linked_env (linked_file d) = Inr [ex_audit_event [], second_event d]"
proof -
  have first: "ae_sequence (ex_audit_event []) = 1" "ae_previous_hash (ex_audit_event []) = AUDIT_GENESIS_HASH"
    by (simp_all add: ex_audit_event_def audit_count_def audit_head_def)
  then have second: "ae_sequence (second_event d) = 2" "ae_previous_hash (second_event d) = ae_event_hash (ex_audit_event [])"
    "ae_event_hash (second_event d) = audit_sign linked_env (audit_body linked_env (second_event d))"
    by (simp_all add: second_event_def audit_count_def audit_head_def)
  show ?thesis
    unfolding audit_read_def linked_file_def option.case verify_audit_lines.simps verify_audit_line_def Let_def
      audit_line.simps option.case
    using first second linked_first by (simp add: MAX_AUDIT_RECORD_BYTES_def)
qed

lemma linked_heads: "audit_heads linked_env (linked_file d) = Inr (2, replicate 64 CHR ''b'')"
proof -
  have "audit_count [ex_audit_event [], second_event d] = 2"
    by (simp add: audit_count_def second_event_def ex_audit_event_def)
  then show ?thesis
    using second_hash [of d] by (simp add: audit_heads_def audit_verify_def linked_read audit_head_def)
qed

lemma linked_verify: "\<exists>x. audit_verify linked_env (Some (replicate 64 CHR ''b'')) (linked_file d) = Inr x"
  using second_hash [of d] by (simp add: audit_verify_def linked_read audit_head_def)

lemma linked_put:
  "put_checkpoint ex_cp_env 7 (anchor_call linked_anchoring (2, replicate 64 CHR ''b'')) None =
     (Inr linked_anchored, append_many ex_cp_env [linked_anchored] None)"
proof -
  have "fullmatch sha256_pattern (replicate 64 CHR ''b'')"
    unfolding sha256_pattern_def by (rule class_full_replicate) (simp add: in_class_def)
  then show ?thesis
    by (simp add: put_checkpoint_def validate_installation_id_def validate_head_def ex_names anchor_call_def linked_anchoring_def
        ex_anchoring_def Let_def validate_expected_recovery_epoch_def checkpoint_time_def utc_or_now_def ex_read_empty
        current_recovery_epoch_def linked_anchored_def)
qed

lemma linked_run:
  "checkpoint_verified_journal linked_anchoring appender (None, ex_audit_file []) =
     (Inr linked_anchored, (append_many ex_cp_env [linked_anchored] None, linked_file False))"
proof -
  let ?k = "False"
  have "linked_file ?k \<noteq> ex_audit_file []" by (simp add: linked_file_def ex_audit_file_def)
  then have st: "appender n (None, ex_audit_file []) = (None, linked_file ?k)" "appender n (None, linked_file ?k) = (None, linked_file ?k)" for n
    by (simp_all add: appender_def)
  have v: "ac_verify linked_anchoring (linked_file ?k) = Inr (2, replicate 64 CHR ''b'')"
    and s: "ac_store linked_anchoring = ex_cp_env" "ac_clock linked_anchoring 0 = 7"
    using linked_heads by (simp_all add: linked_anchoring_def ex_anchoring_def)
  show ?thesis
    unfolding checkpoint_verified_journal_def MAX_ANCHOR_ATTEMPTS_def numeral_3_eq_3 anchor_attempts.simps(2) Let_def st
      snd_conv fst_conv v sum.case s linked_put prod.case by (rule refl)
qed

lemma linked_signed: "audit_signed linked_env (second_event d) = audit_signed linked_env (second_event d')"
proof -
  have "canon (VDict None (ex_members True)) = canon (VDict None (ex_members False))" by code_simp
  then have "canon (VDict None (ex_members d)) = canon (VDict None (ex_members d'))" by (cases d; cases d') simp_all
  then show ?thesis
    by (simp only: audit_signed_def audit_body_def audit_fields_def second_event_def new_audit_event_sel)
qed

theorem anchored_audit_events_are_kept_witness:
  "\<exists>new. list_all2 same_event ([ex_audit_event []] @ new)
     [ex_audit_event [], second_event True]"
proof -
  let ?f = "linked_file False" and ?g = "linked_file True"
  let ?P = "\<lambda>w. w = ex_audit_file [] \<or> w = ?f"
  have keep: "workers_keep (ac_store linked_anchoring) ?P appender"
    unfolding workers_keep_def appender_def by (auto intro: exI [of _ "[]"])
  have parsed: "audit_parsed (ex_audit_file [])" "audit_parsed (linked_file d)" for d
    using second_plain by (simp_all add: audit_parsed_def ex_audit_file_def linked_file_def)
  then have ext: "?P w \<Longrightarrow> audit_extends linked_env [ex_audit_event []] w" for w
    by (auto simp: audit_extends_def first_read linked_read)
  have h: "cp_head_hash linked_anchored = replicate 64 CHR ''b''" by (simp add: linked_anchored_def)
  obtain x where x: "audit_verify linked_env (Some (cp_head_hash linked_anchored)) ?g = Inr x" using linked_verify unfolding h by blast
  have ne: "cp_head_hash linked_anchored \<noteq> AUDIT_GENESIS_HASH" by (simp add: h AUDIT_GENESIS_HASH_def)
  have fit: "fits (ac_store linked_anchoring) linked_anchored"
    unfolding linked_anchored_def linked_anchoring_def ex_anchoring_def
    by (simp, rule checkpoint_fits) (simp_all add: ex_hmac ex_short short_option_def checkpoint_head_def CHECKPOINT_GENESIS_HASH_def)
  have v: "ac_verify linked_anchoring = audit_heads linked_env" by (simp add: linked_anchoring_def)
  have iso: "inj (audit_isoformat linked_env)" using ex_audit_iso by (simp add: linked_env_def)
  have hm: "audit_hmac linked_env k (audit_signed linked_env (ex_audit_event [])) \<noteq> audit_hmac linked_env k (audit_signed linked_env (second_event d))"
    for k d
    using second_signed [of d] unfolding linked_body(2) by (simp add: linked_env_def)
  have nf: "no_forgery linked_env ?P [ex_audit_event [], second_event True]"
    unfolding no_forgery_def using hm hm [symmetric] linked_signed [of True False] by (auto simp: first_read linked_read inj_on_def)
  have "?P (snd (None :: checkpoint_file, ex_audit_file []))" by simp
  from anchored_audit_events_are_kept [OF keep this ext v linked_run fit ne x parsed(2) linked_read iso nf]
  show ?thesis by blast
qed

end
