(* ===== verification/Package_Registry.thy ===== *)
theory Package_Registry
  imports Dependencies Py_Json
begin

text \<open>
  \<open>packages.py\<close>: the package registry and its life-cycle rules. The state is the JSON document of the
  registry file; a mutation holds the file lock, so it is one function of the document. The manifest model belongs
  to the contracts package: its validation and dump are the codec, a parameter.
\<close>

subsection \<open>Data\<close>

datatype package_status = PS_Installed | PS_Enabled | PS_Disabled

fun package_status_value :: "package_status \<Rightarrow> string" where
  "package_status_value PS_Installed = ''installed''"
| "package_status_value PS_Enabled = ''enabled''"
| "package_status_value PS_Disabled = ''disabled''"

record package_record =
  pr_manifest :: package_manifest
  pr_status :: package_status

type_synonym package_records = "(string, package_record) dict"

record manifest_codec =
  manifest_validate :: "pyval \<Rightarrow> package_manifest option"
  manifest_dump :: "package_manifest \<Rightarrow> pyval"

datatype package_error =
    RegistryInvalid
  | RegistryIdentityInvalid
  | RecordValidation
  | PackageReserved "string list"
  | AlreadyInstalled "string list"
  | NotInstalled string
  | DependencyNotEnabled string string
  | DependencyIncompatible string string
  | CannotEnable string resolution_error
  | CannotDisable string resolution_error
  | EnabledDependents string "string list"
  | InstalledDependents string "string list"
  | PackageProtected string
  | DisableBeforeUninstall string
  | Unresolved resolution_error
  | RecursionLimit

definition RESERVED_PACKAGE_IDS :: "string list" where "RESERVED_PACKAGE_IDS = [''system-fallback'']"
definition LEGACY_MANIFEST_KEYS :: "string list" where "LEGACY_MANIFEST_KEYS = [''capabilities'']"

subsection \<open>The document\<close>

text \<open>Members of a JSON object have distinct string keys.\<close>

definition member_of :: "string \<Rightarrow> pyval \<Rightarrow> pyval option" where
  "member_of k v = (case v of VDict i kvs \<Rightarrow> map_of kvs (KStr k) | _ \<Rightarrow> None)"

definition legacy_record_payload :: "pyval \<Rightarrow> pyval" where
  "legacy_record_payload r =
     (case r of
        VDict i kvs \<Rightarrow>
          (case map_of kvs (KStr ''manifest'') of
             Some (VDict j ms) \<Rightarrow>
               let cleaned = filter (\<lambda>(k, v). key_text k \<notin> set LEGACY_MANIFEST_KEYS) ms in
               if length cleaned = length ms then r
               else VDict None (AList.update (KStr ''manifest'') (VDict None cleaned) kvs)
           | _ \<Rightarrow> r)
      | _ \<Rightarrow> r)"

definition payload_has_legacy_keys :: "pyval \<Rightarrow> bool" where
  "payload_has_legacy_keys data =
     (case member_of ''packages'' data of
        Some (VDict i kvs) \<Rightarrow> list_ex (\<lambda>(k, r). legacy_record_payload r \<noteq> r) kvs
      | _ \<Rightarrow> False)"

definition status_of_value :: "string \<Rightarrow> package_status option" where
  "status_of_value s = List.find (\<lambda>p. package_status_value p = s) [PS_Installed, PS_Enabled, PS_Disabled]"

text \<open>\<open>PackageRecord.model_validate\<close>: no other members, a valid manifest and a known status.\<close>

definition validate_package_record :: "manifest_codec \<Rightarrow> pyval \<Rightarrow> package_record option" where
  "validate_package_record C v =
     (case v of
        VDict i kvs \<Rightarrow>
          if set (map fst kvs) \<noteq> {KStr ''manifest'', KStr ''status''} then None
          else (case (map_of kvs (KStr ''manifest''), map_of kvs (KStr ''status'')) of
                  (Some m, Some (VStr s)) \<Rightarrow>
                    (case (manifest_validate C m, status_of_value s) of
                       (Some manifest, Some status) \<Rightarrow> Some \<lparr>pr_manifest = manifest, pr_status = status\<rparr>
                     | _ \<Rightarrow> None)
                | _ \<Rightarrow> None)
      | _ \<Rightarrow> None)"

fun parse_records :: "manifest_codec \<Rightarrow> (pykey \<times> pyval) list \<Rightarrow> package_error + package_records" where
  "parse_records C [] = Inr []"
| "parse_records C ((k, v) # kvs) =
     (case validate_package_record C (legacy_record_payload v) of
        None \<Rightarrow> Inl RecordValidation
      | Some r \<Rightarrow> (case parse_records C kvs of Inl e \<Rightarrow> Inl e | Inr rs \<Rightarrow> Inr ((key_text k, r) # rs)))"

definition parse_registry_document :: "manifest_codec \<Rightarrow> pyval \<Rightarrow> package_error + package_records" where
  "parse_registry_document C data =
     (case data of
        VDict i kvs \<Rightarrow>
          if set (map fst kvs) \<noteq> {KStr ''packages''} then Inl RegistryInvalid
          else (case map_of kvs (KStr ''packages'') of
                  Some (VDict j raw) \<Rightarrow>
                    (case parse_records C raw of Inl e \<Rightarrow> Inl e | Inr records \<Rightarrow>
                     if list_ex (\<lambda>(k, r). k \<noteq> m_id (pr_manifest r)) records then Inl RegistryIdentityInvalid
                     else Inr records)
                | _ \<Rightarrow> Inl RegistryInvalid)
      | _ \<Rightarrow> Inl RegistryInvalid)"

definition dump_record :: "manifest_codec \<Rightarrow> package_record \<Rightarrow> pyval" where
  "dump_record C r =
     VDict None [(KStr ''manifest'', manifest_dump C (pr_manifest r)), (KStr ''status'', VStr (package_status_value (pr_status r)))]"

definition canonical_registry_document :: "manifest_codec \<Rightarrow> package_records \<Rightarrow> pyval" where
  "canonical_registry_document C records =
     VDict None [(KStr ''packages'', VDict None (map (\<lambda>(k, r). (KStr k, dump_record C r)) (dict_sorted records)))]"

type_synonym registry_file = "pyval option"

record registry_env =
  rg_codec :: manifest_codec
  rg_spec_in :: "string \<Rightarrow> string \<Rightarrow> bool"
  rg_core_version :: string
  rg_protected_ids :: "string list"

text \<open>\<open>read_json(path, {"packages": {}})\<close>, and \<open>write_json_atomic\<close>, which sorts the members.\<close>

definition registry_document :: "registry_file \<Rightarrow> pyval" where
  "registry_document file = (case file of None \<Rightarrow> VDict None [(KStr ''packages'', VDict None [])] | Some v \<Rightarrow> v)"

definition read_registry :: "registry_env \<Rightarrow> registry_file \<Rightarrow> package_error + package_records" where
  "read_registry E file = parse_registry_document (rg_codec E) (registry_document file)"

definition write_registry :: "registry_env \<Rightarrow> package_records \<Rightarrow> registry_file" where
  "write_registry E records = Some (canon (canonical_registry_document (rg_codec E) records))"

subsection \<open>Operations\<close>

definition persist_legacy_cleanup :: "registry_env \<Rightarrow> registry_file \<Rightarrow> (package_error + bool) \<times> registry_file" where
  "persist_legacy_cleanup E file =
     (case read_registry E file of Inl e \<Rightarrow> (Inl e, file) | Inr records \<Rightarrow>
      if \<not> payload_has_legacy_keys (registry_document file) then (Inr False, file)
      else (Inr True, write_registry E records))"

definition manifests_of :: "package_records \<Rightarrow> packages" where
  "manifests_of records = map (\<lambda>(k, r). (k, pr_manifest r)) records"

definition installed_record :: "package_manifest \<Rightarrow> package_record" where
  "installed_record m = \<lparr>pr_manifest = m, pr_status = PS_Installed\<rparr>"

definition install_many ::
  "registry_env \<Rightarrow> package_manifest list \<Rightarrow> registry_file \<Rightarrow> (package_error + package_record list) \<times> registry_file" where
  "install_many E manifests file =
     (case read_registry E file of Inl e \<Rightarrow> (Inl e, file) | Inr records \<Rightarrow>
      let reserved = sort (filter (\<lambda>i. i \<in> set RESERVED_PACKAGE_IDS) (map m_id manifests));
          duplicate = sort (filter (\<lambda>i. map_of records i \<noteq> None) (map m_id manifests)) in
      if reserved \<noteq> [] then (Inl (PackageReserved reserved), file)
      else if duplicate \<noteq> [] then (Inl (AlreadyInstalled duplicate), file)
      else case resolve_install_order (rg_spec_in E) manifests (rg_core_version E) (manifests_of records) of
        None \<Rightarrow> (Inl RecursionLimit, file)
      | Some (Inl e) \<Rightarrow> (Inl (Unresolved e), file)
      | Some (Inr order) \<Rightarrow>
          (Inr (map installed_record order),
           write_registry E (fold (\<lambda>m. AList.update (m_id m) (installed_record m)) order records)))"

definition require_package :: "package_records \<Rightarrow> string \<Rightarrow> package_error + package_record" where
  "require_package records package_id =
     (case map_of records package_id of None \<Rightarrow> Inl (NotInstalled package_id) | Some r \<Rightarrow> Inr r)"

definition dependency_enabled_error ::
  "registry_env \<Rightarrow> package_records \<Rightarrow> string \<Rightarrow> dependency \<Rightarrow> package_error option" where
  "dependency_enabled_error E records package_id d =
     (if d_optional d then None
      else case map_of records (d_package_id d) of
        None \<Rightarrow> Some (DependencyNotEnabled package_id (d_package_id d))
      | Some target \<Rightarrow>
          if pr_status target \<noteq> PS_Enabled then Some (DependencyNotEnabled package_id (d_package_id d))
          else if \<not> version_matches (rg_spec_in E) (m_version (pr_manifest target)) (d_version d)
          then Some (DependencyIncompatible package_id (d_package_id d))
          else None)"

definition required_dependents :: "package_records \<Rightarrow> string \<Rightarrow> bool \<Rightarrow> string list" where
  "required_dependents records package_id enabled_only =
     map fst (filter (\<lambda>(k, r). (\<not> enabled_only \<or> pr_status r = PS_Enabled)
       \<and> list_ex (\<lambda>d. d_package_id d = package_id \<and> \<not> d_optional d) (m_dependencies (pr_manifest r))) records)"

definition set_status :: "string \<Rightarrow> package_record \<Rightarrow> package_status \<Rightarrow> package_records \<Rightarrow> package_records" where
  "set_status package_id record' status records = AList.update package_id (record'\<lparr>pr_status := status\<rparr>) records"

definition registry_enable ::
  "registry_env \<Rightarrow> string \<Rightarrow> registry_file \<Rightarrow> (package_error + package_record) \<times> registry_file" where
  "registry_enable E package_id file =
     (case read_registry E file of Inl e \<Rightarrow> (Inl e, file) | Inr records \<Rightarrow>
      case require_package records package_id of Inl e \<Rightarrow> (Inl e, file) | Inr r \<Rightarrow>
      case first_error (dependency_enabled_error E records package_id) (m_dependencies (pr_manifest r)) of
        Some e \<Rightarrow> (Inl e, file)
      | None \<Rightarrow>
          (case resolve_capabilities (rg_spec_in E)
              (manifests_of (filter (\<lambda>(k, o'). pr_status o' = PS_Enabled \<or> k = package_id) records)) of
             Some e \<Rightarrow> (Inl (CannotEnable package_id e), file)
           | None \<Rightarrow> (Inr (r\<lparr>pr_status := PS_Enabled\<rparr>), write_registry E (set_status package_id r PS_Enabled records))))"

definition registry_disable ::
  "registry_env \<Rightarrow> string \<Rightarrow> registry_file \<Rightarrow> (package_error + package_record) \<times> registry_file" where
  "registry_disable E package_id file =
     (case read_registry E file of Inl e \<Rightarrow> (Inl e, file) | Inr records \<Rightarrow>
      case require_package records package_id of Inl e \<Rightarrow> (Inl e, file) | Inr r \<Rightarrow>
      let dependents = required_dependents records package_id True in
      if dependents \<noteq> [] then (Inl (EnabledDependents package_id (sort dependents)), file)
      else case resolve_capabilities (rg_spec_in E)
              (manifests_of (filter (\<lambda>(k, o'). pr_status o' = PS_Enabled \<and> k \<noteq> package_id) records)) of
             Some e \<Rightarrow> (Inl (CannotDisable package_id e), file)
           | None \<Rightarrow> (Inr (r\<lparr>pr_status := PS_Disabled\<rparr>), write_registry E (set_status package_id r PS_Disabled records)))"

definition registry_quarantine ::
  "registry_env \<Rightarrow> string \<Rightarrow> registry_file \<Rightarrow> (package_error + package_record) \<times> registry_file" where
  "registry_quarantine E package_id file =
     (case read_registry E file of Inl e \<Rightarrow> (Inl e, file) | Inr records \<Rightarrow>
      case require_package records package_id of Inl e \<Rightarrow> (Inl e, file) | Inr r \<Rightarrow>
      if package_id \<in> set (rg_protected_ids E) then (Inl (PackageProtected package_id), file)
      else (Inr (r\<lparr>pr_status := PS_Disabled\<rparr>), write_registry E (set_status package_id r PS_Disabled records)))"

definition registry_uninstall ::
  "registry_env \<Rightarrow> string \<Rightarrow> registry_file \<Rightarrow> (package_error + package_record) \<times> registry_file" where
  "registry_uninstall E package_id file =
     (case read_registry E file of Inl e \<Rightarrow> (Inl e, file) | Inr records \<Rightarrow>
      case require_package records package_id of Inl e \<Rightarrow> (Inl e, file) | Inr r \<Rightarrow>
      if package_id \<in> set (rg_protected_ids E) then (Inl (PackageProtected package_id), file)
      else if pr_status r = PS_Enabled then (Inl (DisableBeforeUninstall package_id), file)
      else let dependents = required_dependents records package_id False in
        if dependents \<noteq> [] then (Inl (InstalledDependents package_id (sort dependents)), file)
        else (Inr r, write_registry E (AList.delete package_id records)))"

end
