(* ===== verification/Package_Registry_Safety.thy ===== *)
theory Package_Registry_Safety
  imports Package_Registry
begin

text \<open>
  Properties of the package registry: a written registry is read back, what is enabled can run (its required
  packages are enabled and its capabilities are provided) after any calls but a quarantine, and an installed
  batch leaves a compatible set of packages.
\<close>

subsection \<open>Reading back\<close>

definition codec_ok :: "manifest_codec \<Rightarrow> bool" where
  "codec_ok C \<longleftrightarrow>
     (\<forall>m. manifest_validate C (canon (manifest_dump C m)) = Some m
        \<and> (\<forall>i kvs. canon (manifest_dump C m) = VDict i kvs \<longrightarrow> list_all (\<lambda>(k, v). key_text k \<notin> set LEGACY_MANIFEST_KEYS) kvs))"

definition keyed :: "package_records \<Rightarrow> bool" where
  "keyed rs \<longleftrightarrow> dict_ok rs \<and> list_all (\<lambda>(k, r). k = m_id (pr_manifest r)) rs"

lemma keyed_lookup: "keyed rs \<Longrightarrow> map_of rs k = Some r \<Longrightarrow> m_id (pr_manifest r) = k"
  by (auto simp: keyed_def list_all_iff dict_lookup_iff)

lemma canon_dump_record:
  "canon (dump_record C r) =
     VDict None [(KStr ''manifest'', canon (manifest_dump C (pr_manifest r))), (KStr ''status'', VStr (package_status_value (pr_status r)))]"
  by (simp add: dump_record_def key_text_def)

lemma status_of_value_roundtrip: "status_of_value (package_status_value s) = Some s"
  by (cases s) (simp_all add: status_of_value_def)

lemma legacy_free:
  assumes "codec_ok C" shows "legacy_record_payload (canon (dump_record C r)) = canon (dump_record C r)"
proof -
  have "filter (\<lambda>(k, v). key_text k \<notin> set LEGACY_MANIFEST_KEYS) kvs = kvs"
    if "canon (manifest_dump C (pr_manifest r)) = VDict i kvs" for i kvs
    using assms that by (auto simp: codec_ok_def list_all_iff intro: filter_True)
  then show ?thesis
    by (auto simp: canon_dump_record legacy_record_payload_def split: pyval.splits)
qed

lemma validate_dumped:
  assumes "codec_ok C" shows "validate_package_record C (legacy_record_payload (canon (dump_record C r))) = Some r"
  using assms unfolding legacy_free [OF assms]
  by (simp add: canon_dump_record validate_package_record_def codec_ok_def status_of_value_roundtrip)

lemma parse_dumped:
  "codec_ok C \<Longrightarrow> parse_records C (map (\<lambda>(k, r). (KStr k, canon (dump_record C r))) rs) = Inr rs"
  by (induction rs) (auto simp: validate_dumped key_text_def)

lemma canon_document:
  "canon (canonical_registry_document C rs) =
     VDict None [(KStr ''packages'', VDict None (map (\<lambda>(k, r). (KStr k, canon (dump_record C r))) (dict_sorted rs)))]"
proof -
  let ?kvs = "map (\<lambda>(k, r). (KStr k, canon (dump_record C r))) (dict_sorted rs)"
  have "map (\<lambda>(k, v). key_text k) ?kvs = map fst (dict_sorted rs)"
    by (simp add: comp_def split_def key_text_def)
  moreover have "sorted (map fst (dict_sorted rs))" by (simp add: dict_sorted_def)
  ultimately have "sorted (map (\<lambda>(k, v). key_text k) ?kvs)" by (simp only:)
  then have "sort_key (\<lambda>(k, v). key_text k) ?kvs = ?kvs" by (rule sort_key_id_if_sorted)
  then show ?thesis by (simp add: canonical_registry_document_def comp_def split_def)
qed

lemma keyed_sorted: "keyed rs \<Longrightarrow> keyed (dict_sorted rs)"
  by (simp add: keyed_def list_all_iff)

lemma read_written:
  assumes "codec_ok (rg_codec E)" "keyed rs"
  shows "read_registry E (write_registry E rs) = Inr (dict_sorted rs)"
proof -
  have "\<not> list_ex (\<lambda>(k, r). k \<noteq> m_id (pr_manifest r)) (dict_sorted rs)"
    using assms(2) by (auto simp: keyed_def list_all_iff list_ex_iff)
  then show ?thesis
    by (simp add: read_registry_def write_registry_def registry_document_def canon_document parse_registry_document_def
        parse_dumped [OF assms(1)])
qed

lemma read_keyed:
  assumes "read_registry E file = Inr rs" "\<forall>i kvs. member_of ''packages'' (registry_document file) = Some (VDict i kvs) \<longrightarrow>
    distinct (map fst kvs) \<and> KObj \<notin> fst ` set kvs"
  shows "keyed rs"
proof -
  obtain i kvs j raw where d: "registry_document file = VDict i kvs" "map_of kvs (KStr ''packages'') = Some (VDict j raw)"
    "parse_records (rg_codec E) raw = Inr rs" "\<not> list_ex (\<lambda>(k, r). k \<noteq> m_id (pr_manifest r)) rs"
    using assms(1) by (auto simp: read_registry_def parse_registry_document_def split: pyval.splits if_splits option.splits sum.splits)
  have raw: "distinct (map fst raw)" "KObj \<notin> fst ` set raw" using assms(2) d(1,2) by (auto simp: member_of_def)
  have "map fst rs = map (\<lambda>(k, v). key_text k) raw" using d(3)
    by (induction raw arbitrary: rs) (auto split: option.splits sum.splits)
  moreover have "inj_on key_text (fst ` set raw)"
    using raw(2) by (auto simp: inj_on_def key_text_def split: pykey.splits) (metis fst_conv image_eqI)+
  ultimately have "distinct (map fst rs)"
    using raw(1) by (auto simp: distinct_map comp_def split_def inj_on_def)
  then show ?thesis using d(4) by (auto simp: keyed_def dict_ok_def list_all_iff list_ex_iff)
qed

subsection \<open>What is enabled can run\<close>

definition enabled_of :: "package_records \<Rightarrow> packages" where
  "enabled_of rs = manifests_of (filter (\<lambda>(k, r). pr_status r = PS_Enabled) rs)"

definition needs_met :: "(string \<Rightarrow> string \<Rightarrow> bool) \<Rightarrow> package_records \<Rightarrow> package_record \<Rightarrow> bool" where
  "needs_met spec rs r \<longleftrightarrow>
     (\<forall>d\<in>set (m_dependencies (pr_manifest r)). d_optional d
        \<or> (\<exists>t. map_of rs (d_package_id d) = Some t \<and> pr_status t = PS_Enabled
              \<and> version_matches spec (m_version (pr_manifest t)) (d_version d)))"

text \<open>A requirement is met when some package of the set provides the capability in a matching version.\<close>

definition capabilities_met :: "(string \<Rightarrow> string \<Rightarrow> bool) \<Rightarrow> package_manifest set \<Rightarrow> bool" where
  "capabilities_met spec M \<longleftrightarrow>
     (\<forall>m\<in>M. \<forall>q\<in>set (m_requires m). q_optional q
        \<or> (\<exists>m'\<in>M. \<exists>c\<in>set (m_provides m'). p_id c = q_id q \<and> version_matches spec (p_version c) (q_version q)))"

definition enabled_manifests :: "package_records \<Rightarrow> package_manifest set" where
  "enabled_manifests rs = {pr_manifest r | r k. map_of rs k = Some r \<and> pr_status r = PS_Enabled}"

definition runnable :: "(string \<Rightarrow> string \<Rightarrow> bool) \<Rightarrow> package_records \<Rightarrow> bool" where
  "runnable spec rs \<longleftrightarrow>
     (\<forall>k r. map_of rs k = Some r \<and> pr_status r = PS_Enabled \<longrightarrow> needs_met spec rs r)
     \<and> capabilities_met spec (enabled_manifests rs)"

lemma manifests_of_ok: "dict_ok rs \<Longrightarrow> dict_ok (manifests_of rs)"
  by (simp add: dict_ok_def manifests_of_def comp_def split_def)

lemma manifests_of_values: "dict_values (manifests_of rs) = map (pr_manifest \<circ> snd) rs"
  by (simp add: dict_values_def manifests_of_def comp_def split_def)

lemma requirement_met_iff:
  assumes "dict_ok all"
  shows "requirement_error spec all m q = None \<longleftrightarrow> q_optional q
    \<or> (\<exists>m'\<in>set (dict_values all). \<exists>c\<in>set (m_provides m'). p_id c = q_id q \<and> version_matches spec (p_version c) (q_version q))"
  unfolding requirement_error_None [OF assms] Bex_def dict_values_lookup [OF assms] by blast

lemma resolve_capabilities_iff:
  assumes "dict_ok rs"
  shows "resolve_capabilities spec (manifests_of rs) = None \<longleftrightarrow> capabilities_met spec (pr_manifest ` snd ` set rs)"
proof -
  have "set (dict_values (manifests_of rs)) = pr_manifest ` snd ` set rs"
    by (simp add: manifests_of_values image_comp)
  then show ?thesis
    unfolding resolve_capabilities_def first_error_None_iff requirement_met_iff [OF manifests_of_ok [OF assms]] capabilities_met_def
    by (simp only:)
qed

lemma enabled_manifests_set:
  assumes "dict_ok rs"
  shows "enabled_manifests rs = pr_manifest ` {r. \<exists>k. (k, r) \<in> set rs \<and> pr_status r = PS_Enabled}"
  unfolding enabled_manifests_def dict_lookup_iff [OF assms] by blast

lemma resolve_filtered:
  assumes "dict_ok rs"
  shows "resolve_capabilities spec (manifests_of (filter P rs)) = None
    \<longleftrightarrow> capabilities_met spec (pr_manifest ` {r. \<exists>k. (k, r) \<in> set rs \<and> P (k, r)})"
proof -
  have "snd ` set (filter P rs) = {r. \<exists>k. (k, r) \<in> set rs \<and> P (k, r)}" by force
  then show ?thesis using resolve_capabilities_iff [of "filter P rs" spec] assms by simp
qed

lemma set_update_iff:
  assumes "dict_ok rs"
  shows "(k, x) \<in> set (AList.update p v rs) \<longleftrightarrow> (if k = p then x = v else (k, x) \<in> set rs)"
  using dict_lookup_iff [of "AList.update p v rs" k x] dict_lookup_iff [OF assms, of k x] assms
  by (auto simp: map_of_update)

lemma enabled_after_enable:
  assumes ok: "dict_ok rs" and r: "map_of rs p = Some r"
  shows "enabled_manifests (set_status p r PS_Enabled rs)
    = pr_manifest ` {x. \<exists>k. (k, x) \<in> set rs \<and> (case (k, x) of (k, o') \<Rightarrow> pr_status o' = PS_Enabled \<or> k = p)}" (is "?A = ?B")
proof -
  have ok': "dict_ok (set_status p r PS_Enabled rs)" using ok by (simp add: set_status_def)
  have pr: "(p, x) \<in> set rs \<longleftrightarrow> x = r" for x using r dict_lookup_iff [OF ok, of p x] by auto
  have "{x. \<exists>k. (k, x) \<in> set (set_status p r PS_Enabled rs) \<and> pr_status x = PS_Enabled}
      = insert (r\<lparr>pr_status := PS_Enabled\<rparr>) {x. \<exists>k. k \<noteq> p \<and> (k, x) \<in> set rs \<and> pr_status x = PS_Enabled}"
    unfolding set_status_def set_update_iff [OF ok] by auto
  moreover have "{x. \<exists>k. (k, x) \<in> set rs \<and> (case (k, x) of (k, o') \<Rightarrow> pr_status o' = PS_Enabled \<or> k = p)}
      = insert r {x. \<exists>k. k \<noteq> p \<and> (k, x) \<in> set rs \<and> pr_status x = PS_Enabled}"
    using pr by auto metis
  ultimately show ?thesis unfolding enabled_manifests_set [OF ok'] by simp
qed

lemma enabled_after_disable:
  assumes ok: "dict_ok rs"
  shows "enabled_manifests (set_status p r PS_Disabled rs)
    = pr_manifest ` {x. \<exists>k. (k, x) \<in> set rs \<and> (case (k, x) of (k, o') \<Rightarrow> pr_status o' = PS_Enabled \<and> k \<noteq> p)}"
proof -
  have ok': "dict_ok (set_status p r PS_Disabled rs)" using ok by (simp add: set_status_def)
  have "{x. \<exists>k. (k, x) \<in> set (set_status p r PS_Disabled rs) \<and> pr_status x = PS_Enabled}
      = {x. \<exists>k. (k, x) \<in> set rs \<and> (case (k, x) of (k, o') \<Rightarrow> pr_status o' = PS_Enabled \<and> k \<noteq> p)}"
    unfolding set_status_def set_update_iff [OF ok] by auto
  then show ?thesis unfolding enabled_manifests_set [OF ok'] by simp
qed

lemma keyed_set_status: "keyed rs \<Longrightarrow> map_of rs p = Some r \<Longrightarrow> keyed (set_status p r st rs)"
  using keyed_lookup [of rs p r] set_update_subset [of p "r\<lparr>pr_status := st\<rparr>" rs]
  by (fastforce simp: keyed_def set_status_def list_all_iff)

lemma needs_met_mono:
  assumes "needs_met spec rs r"
    and "\<And>k t. map_of rs k = Some t \<Longrightarrow> pr_status t = PS_Enabled \<Longrightarrow> \<exists>t'. map_of rs' k = Some t' \<and> pr_status t' = PS_Enabled \<and> pr_manifest t' = pr_manifest t"
  shows "needs_met spec rs' r"
  using assms unfolding needs_met_def by metis

lemma first_dependency_error:
  "first_error (dependency_enabled_error E rs p) ds = None \<longleftrightarrow>
     (\<forall>d\<in>set ds. d_optional d \<or> (\<exists>t. map_of rs (d_package_id d) = Some t \<and> pr_status t = PS_Enabled
        \<and> version_matches (rg_spec_in E) (m_version (pr_manifest t)) (d_version d)))"
  by (auto simp: first_error_None_iff dependency_enabled_error_def split: option.splits if_splits)

lemma enable_runnable:
  assumes "dict_ok rs" "runnable (rg_spec_in E) rs" "map_of rs p = Some r"
    and "first_error (dependency_enabled_error E rs p) (m_dependencies (pr_manifest r)) = None"
    and "resolve_capabilities (rg_spec_in E) (manifests_of (filter (\<lambda>(k, o'). pr_status o' = PS_Enabled \<or> k = p) rs)) = None"
  shows "runnable (rg_spec_in E) (set_status p r PS_Enabled rs)"
proof -
  let ?rs = "set_status p r PS_Enabled rs"
  have up: "\<exists>t'. map_of ?rs k = Some t' \<and> pr_status t' = PS_Enabled \<and> pr_manifest t' = pr_manifest t"
    if "map_of rs k = Some t" "pr_status t = PS_Enabled" for k t
    using that assms(3) by (auto simp: set_status_def map_of_update)
  have "needs_met (rg_spec_in E) rs r" using assms(4) by (simp add: first_dependency_error needs_met_def)
  then have "needs_met (rg_spec_in E) rs x" if "map_of ?rs k = Some x" "pr_status x = PS_Enabled" for k x
    using that assms(2) by (cases "k = p") (auto simp: set_status_def map_of_update runnable_def needs_met_def)
  then have "needs_met (rg_spec_in E) ?rs x" if "map_of ?rs k = Some x" "pr_status x = PS_Enabled" for k x
    using needs_met_mono up that by blast
  moreover have "capabilities_met (rg_spec_in E) (enabled_manifests ?rs)"
    using assms(5) unfolding resolve_filtered [OF assms(1)] enabled_after_enable [OF assms(1,3)] .
  ultimately show ?thesis unfolding runnable_def by blast
qed

lemma dependents_iff:
  "required_dependents rs p only = [] \<longleftrightarrow>
     (\<forall>(k, r)\<in>set rs. (only \<longrightarrow> pr_status r = PS_Enabled) \<longrightarrow> (\<forall>d\<in>set (m_dependencies (pr_manifest r)). d_package_id d = p \<longrightarrow> d_optional d))"
  by (auto simp: required_dependents_def filter_empty_conv list_ex_iff)

lemma disable_runnable:
  assumes "dict_ok rs" "runnable (rg_spec_in E) rs" "required_dependents rs p True = []"
    and "resolve_capabilities (rg_spec_in E) (manifests_of (filter (\<lambda>(k, o'). pr_status o' = PS_Enabled \<and> k \<noteq> p) rs)) = None"
  shows "runnable (rg_spec_in E) (set_status p r PS_Disabled rs)"
proof -
  let ?rs = "set_status p r PS_Disabled rs"
  have "needs_met (rg_spec_in E) ?rs x" if x: "map_of ?rs k = Some x" "pr_status x = PS_Enabled" for k x
  proof -
    have k: "map_of rs k = Some x" "k \<noteq> p" using x by (auto simp: set_status_def map_of_update split: if_splits)
    then have "d_optional d \<or> d_package_id d \<noteq> p" if "d \<in> set (m_dependencies (pr_manifest x))" for d
      using assms(1,3) x(2) that by (auto simp: dependents_iff dict_lookup_iff)
    moreover have "needs_met (rg_spec_in E) rs x" using assms(2) k(1) x(2) unfolding runnable_def by blast
    ultimately show ?thesis unfolding needs_met_def set_status_def map_of_update by auto
  qed
  moreover have "capabilities_met (rg_spec_in E) (enabled_manifests ?rs)"
    using assms(4) unfolding resolve_filtered [OF assms(1)] enabled_after_disable [OF assms(1)] .
  ultimately show ?thesis unfolding runnable_def by blast
qed

lemma install_runnable:
  assumes ok: "dict_ok rs" and run: "runnable spec rs" and fresh: "\<forall>m\<in>set ms. map_of rs (m_id m) = None"
  shows "runnable spec (fold (\<lambda>m. AList.update (m_id m) (installed_record m)) ms rs)" (is "runnable spec ?rs")
proof -
  have new: "\<exists>x. map_of ?rs k = Some x \<and> pr_status x = PS_Installed" if "k \<in> m_id ` set ms" for k
    using that by (induction ms rule: rev_induct) (auto simp: map_of_update installed_record_def)
  have old: "map_of ?rs k = map_of rs k" if "k \<notin> m_id ` set ms" for k
    using that by (induction ms rule: rev_induct) (auto simp: map_of_update)
  have en: "map_of ?rs k = Some x \<and> pr_status x = PS_Enabled \<longleftrightarrow> map_of rs k = Some x \<and> pr_status x = PS_Enabled" for k x
  proof (cases "k \<in> m_id ` set ms")
    case True
    then obtain y where "map_of ?rs k = Some y" "pr_status y = PS_Installed" using new by blast
    moreover have "map_of rs k = None" using True fresh by auto
    ultimately show ?thesis by auto
  next
    case False
    then show ?thesis using old by simp
  qed
  have "enabled_manifests ?rs = enabled_manifests rs" unfolding enabled_manifests_def by (simp only: en)
  moreover have "needs_met spec ?rs x" if "needs_met spec rs x" for x
    using needs_met_mono [OF that, of ?rs] en by blast
  ultimately show ?thesis using run unfolding runnable_def en by auto
qed

lemma uninstall_runnable:
  assumes ok: "dict_ok rs" and run: "runnable spec rs" and r: "map_of rs p = Some r" "pr_status r \<noteq> PS_Enabled"
  shows "runnable spec (AList.delete p rs)"
proof -
  have en: "map_of (AList.delete p rs) k = Some x \<and> pr_status x = PS_Enabled \<longleftrightarrow> map_of rs k = Some x \<and> pr_status x = PS_Enabled" for k x
    using r by (auto simp: map_of_delete)
  have "enabled_manifests (AList.delete p rs) = enabled_manifests rs" unfolding enabled_manifests_def by (simp only: en)
  moreover have "needs_met spec (AList.delete p rs) x" if "needs_met spec rs x" for x
    using needs_met_mono [OF that, of "AList.delete p rs"] en by blast
  ultimately show ?thesis using run unfolding runnable_def en by auto
qed

lemma sorted_runnable: "dict_ok rs \<Longrightarrow> runnable spec (dict_sorted rs) \<longleftrightarrow> runnable spec rs"
  by (simp add: runnable_def needs_met_def enabled_manifests_def map_of_dict_sorted)

subsection \<open>Calls\<close>

datatype registry_call =
    Cleanup_Legacy
  | Install_Many "package_manifest list"
  | Enable_Package string
  | Disable_Package string
  | Quarantine_Package string
  | Uninstall_Package string

fun run_registry_call :: "registry_env \<Rightarrow> registry_call \<Rightarrow> registry_file \<Rightarrow> registry_file" where
  "run_registry_call E Cleanup_Legacy f = snd (persist_legacy_cleanup E f)"
| "run_registry_call E (Install_Many ms) f = snd (install_many E ms f)"
| "run_registry_call E (Enable_Package p) f = snd (registry_enable E p f)"
| "run_registry_call E (Disable_Package p) f = snd (registry_disable E p f)"
| "run_registry_call E (Quarantine_Package p) f = snd (registry_quarantine E p f)"
| "run_registry_call E (Uninstall_Package p) f = snd (registry_uninstall E p f)"

fun run_registry_calls :: "registry_env \<Rightarrow> registry_call list \<Rightarrow> registry_file \<Rightarrow> registry_file" where
  "run_registry_calls E [] f = f"
| "run_registry_calls E (c # cs) f = run_registry_calls E cs (run_registry_call E c f)"

fun is_quarantine :: "registry_call \<Rightarrow> bool" where
  "is_quarantine (Quarantine_Package p) = True"
| "is_quarantine c = False"

definition holds_runnable :: "registry_env \<Rightarrow> registry_file \<Rightarrow> bool" where
  "holds_runnable E f \<longleftrightarrow> (\<exists>rs. read_registry E f = Inr rs \<and> keyed rs \<and> runnable (rg_spec_in E) rs)"

lemma written_runnable:
  "codec_ok (rg_codec E) \<Longrightarrow> keyed rs \<Longrightarrow> runnable (rg_spec_in E) rs \<Longrightarrow> holds_runnable E (write_registry E rs)"
  unfolding holds_runnable_def by (metis read_written keyed_sorted sorted_runnable keyed_def)

lemma keyed_install:
  "keyed rs \<Longrightarrow> keyed (fold (\<lambda>m. AList.update (m_id m) (installed_record m)) ms rs)"
proof (induction ms arbitrary: rs)
  case (Cons m ms)
  have "keyed (AList.update (m_id m) (installed_record m) rs)"
    using Cons.prems set_update_subset [of "m_id m" "installed_record m" rs]
    by (fastforce simp: keyed_def list_all_iff installed_record_def)
  then show ?case using Cons.IH by simp
qed simp

lemma keyed_delete: "keyed rs \<Longrightarrow> keyed (AList.delete p rs)"
  by (auto simp: keyed_def list_all_iff AList.delete_eq)

lemma order_members:
  assumes "dict_ok installed" "resolve_install_order spec ms core installed = Some (Inr ord)"
  shows "set ord = set ms" "distinct (map m_id ord)" "distinct (map m_id ms)" "compatible spec core (resulting ms installed)"
proof -
  have "set ord = set ms \<and> distinct (map m_id ord) \<and> distinct (map m_id ms) \<and> compatible spec core (resulting ms installed)"
  proof (rule resolve_cases [OF assms(1), where spec_in = spec and manifests = ms and core_version = core])
    fix s
    assume s: "resolve_install_order spec ms core installed = Some (Inr (ordered s))" "distinct (map m_id ms)"
      "compatible spec core (resulting ms installed)" "dfs_ok (resulting ms installed) (map (\<lambda>m. (m_id m, m)) ms) [] s"
      "m_id ` set ms \<subseteq> set (visited s)"
    have "dict_ok (map (\<lambda>m. (m_id m, m)) ms)" using s(2) by (simp add: dict_ok_def comp_def)
    then have look: "map_of (map (\<lambda>m. (m_id m, m)) ms) k = Some m \<longleftrightarrow> m \<in> set ms \<and> m_id m = k" for k m
      by (auto simp: dict_lookup_iff)
    have "ord = List.map_filter (map_of (map (\<lambda>m. (m_id m, m)) ms)) (visited s)"
      using s(1,4) assms(2) by (simp add: dfs_ok_def)
    moreover have "map m_id (List.map_filter (map_of (map (\<lambda>m. (m_id m, m)) ms)) (visited s))
        = filter (\<lambda>p. map_of (map (\<lambda>m. (m_id m, m)) ms) p \<noteq> None) (visited s)"
      by (rule map_filter_ids) (simp add: look)
    moreover have "distinct (visited s)" using s(4) by (simp add: dfs_ok_def)
    ultimately show ?thesis using s(2,3,5) look by (auto simp: set_map_filter)
  qed (use assms(2) in auto)
  then show "set ord = set ms" "distinct (map m_id ord)" "distinct (map m_id ms)" "compatible spec core (resulting ms installed)" by auto
qed

lemma install_written:
  assumes r: "read_registry E f = Inr rs" "keyed rs" and i: "install_many E ms f = (Inr created, f')"
  obtains ord where "created = map installed_record ord" "set ord = set ms" "distinct (map m_id ord)" "distinct (map m_id ms)"
    "\<forall>m\<in>set ms. map_of rs (m_id m) = None \<and> m_id m \<notin> set RESERVED_PACKAGE_IDS"
    "compatible (rg_spec_in E) (rg_core_version E) (resulting ms (manifests_of rs))"
    "f' = write_registry E (fold (\<lambda>m. AList.update (m_id m) (installed_record m)) ord rs)"
proof -
  obtain ord where ord: "resolve_install_order (rg_spec_in E) ms (rg_core_version E) (manifests_of rs) = Some (Inr ord)"
    "created = map installed_record ord" "f' = write_registry E (fold (\<lambda>m. AList.update (m_id m) (installed_record m)) ord rs)"
    using r(1) i by (auto simp: install_many_def Let_def split: if_splits option.splits sum.splits)
  have fresh: "\<forall>m\<in>set ms. map_of rs (m_id m) = None \<and> m_id m \<notin> set RESERVED_PACKAGE_IDS"
    using r(1) i by (auto simp: install_many_def Let_def filter_empty_conv split: if_splits)
  have "dict_ok (manifests_of rs)" using r(2) manifests_of_ok by (simp add: keyed_def)
  note o = order_members [OF this ord(1)]
  show thesis using that ord o fresh by blast
qed

text \<open>A call that changes one package writes nothing, or the new registry when its checks have passed.\<close>

lemma enable_outcome:
  assumes "read_registry E f = Inr rs"
  shows "snd (registry_enable E p f) = f \<or>
    (\<exists>r. map_of rs p = Some r \<and> first_error (dependency_enabled_error E rs p) (m_dependencies (pr_manifest r)) = None
      \<and> resolve_capabilities (rg_spec_in E) (manifests_of (filter (\<lambda>(k, o'). pr_status o' = PS_Enabled \<or> k = p) rs)) = None
      \<and> snd (registry_enable E p f) = write_registry E (set_status p r PS_Enabled rs))"
proof (cases "map_of rs p")
  case (Some r)
  show ?thesis
    by (cases "first_error (dependency_enabled_error E rs p) (m_dependencies (pr_manifest r))";
        cases "resolve_capabilities (rg_spec_in E) (manifests_of (filter (\<lambda>(k, o'). pr_status o' = PS_Enabled \<or> k = p) rs))")
      (simp_all add: registry_enable_def require_package_def assms Some)
qed (simp add: registry_enable_def require_package_def assms)

lemma disable_outcome:
  assumes "read_registry E f = Inr rs"
  shows "snd (registry_disable E p f) = f \<or>
    (\<exists>r. map_of rs p = Some r \<and> required_dependents rs p True = []
      \<and> resolve_capabilities (rg_spec_in E) (manifests_of (filter (\<lambda>(k, o'). pr_status o' = PS_Enabled \<and> k \<noteq> p) rs)) = None
      \<and> snd (registry_disable E p f) = write_registry E (set_status p r PS_Disabled rs))"
proof (cases "map_of rs p")
  case (Some r)
  show ?thesis
    by (cases "required_dependents rs p True = []";
        cases "resolve_capabilities (rg_spec_in E) (manifests_of (filter (\<lambda>(k, o'). pr_status o' = PS_Enabled \<and> k \<noteq> p) rs))")
      (simp_all add: registry_disable_def require_package_def assms Some)
qed (simp add: registry_disable_def require_package_def assms)

lemma uninstall_outcome:
  assumes "read_registry E f = Inr rs"
  shows "snd (registry_uninstall E p f) = f \<or>
    (\<exists>r. map_of rs p = Some r \<and> pr_status r \<noteq> PS_Enabled \<and> snd (registry_uninstall E p f) = write_registry E (AList.delete p rs))"
proof (cases "map_of rs p")
  case (Some r)
  show ?thesis
    by (cases "p \<in> set (rg_protected_ids E)"; cases "pr_status r = PS_Enabled"; cases "required_dependents rs p False = []")
      (simp_all add: registry_uninstall_def require_package_def assms Some)
qed (simp add: registry_uninstall_def require_package_def assms)

lemma registry_call_runnable:
  assumes C: "codec_ok (rg_codec E)" and h: "holds_runnable E f" and q: "\<not> is_quarantine c"
  shows "holds_runnable E (run_registry_call E c f)"
proof -
  obtain rs where r: "read_registry E f = Inr rs" "keyed rs" "runnable (rg_spec_in E) rs"
    using h by (auto simp: holds_runnable_def)
  have ok: "dict_ok rs" using r(2) by (simp add: keyed_def)
  note w = written_runnable [OF C]
  show ?thesis
  proof (cases c)
    case Cleanup_Legacy
    then show ?thesis using h w [OF r(2,3)] r(1) by (auto simp: persist_legacy_cleanup_def)
  next
    case (Install_Many ms)
    obtain res f' where i: "install_many E ms f = (res, f')" by fastforce
    show ?thesis
    proof (cases res)
      case (Inl e)
      then have "f' = f" using i r(1) by (auto simp: install_many_def Let_def split: if_splits option.splits sum.splits)
      then show ?thesis using i Install_Many h by simp
    next
      case (Inr created)
      show ?thesis
      proof (rule install_written [OF r(1,2) i [unfolded Inr]])
        fix ord
        assume o: "set ord = set ms" "\<forall>m\<in>set ms. map_of rs (m_id m) = None \<and> m_id m \<notin> set RESERVED_PACKAGE_IDS"
          "f' = write_registry E (fold (\<lambda>m. AList.update (m_id m) (installed_record m)) ord rs)"
        then have "\<forall>m\<in>set ord. map_of rs (m_id m) = None" by simp
        from w [OF keyed_install [OF r(2)] install_runnable [OF ok r(3) this]] have "holds_runnable E f'" unfolding o(3) .
        then show ?thesis using i Install_Many by simp
      qed
    qed
  next
    case (Enable_Package p)
    then show ?thesis
      using enable_outcome [OF r(1), of p] h w [OF keyed_set_status [OF r(2)] enable_runnable [OF ok r(3)]] by force
  next
    case (Disable_Package p)
    then show ?thesis
      using disable_outcome [OF r(1), of p] h w [OF keyed_set_status [OF r(2)] disable_runnable [OF ok r(3)]] by force
  next
    case (Uninstall_Package p)
    then show ?thesis
      using uninstall_outcome [OF r(1), of p] h w [OF keyed_delete [OF r(2)] uninstall_runnable [OF ok r(3)]] by force
  qed (use q in simp)
qed

lemma registry_calls_runnable:
  "codec_ok (rg_codec E) \<Longrightarrow> holds_runnable E f \<Longrightarrow> \<not> list_ex is_quarantine cs \<Longrightarrow> holds_runnable E (run_registry_calls E cs f)"
  by (induction cs arbitrary: f) (auto simp: registry_call_runnable)


lemma installed_manifests_lookup:
  "map_of (manifests_of rs) k = map_option pr_manifest (map_of rs k)"
  by (induction rs) (auto simp: manifests_of_def)

lemma fold_installed_lookup:
  "distinct (map m_id ms) \<Longrightarrow> map_of (fold (\<lambda>m. AList.update (m_id m) (installed_record m)) ms rs) k
    = (map_of rs ++ map_of (map (\<lambda>m. (m_id m, installed_record m)) ms)) k"
proof (induction ms arbitrary: rs)
  case (Cons m ms)
  have "map_of (map (\<lambda>m. (m_id m, installed_record m)) ms) (m_id m) = None"
    using Cons.prems by (auto simp: map_of_eq_None_iff)
  then show ?case using Cons by (auto simp: map_add_def map_of_update split: option.splits)
qed simp

lemma reordered_lookup:
  assumes "set ord = set ms" "distinct (map m_id ord)" "distinct (map m_id ms)"
  shows "map_of (map (\<lambda>m. (m_id m, g m)) ord) = map_of (map (\<lambda>m. (m_id m, g m)) ms)"
  using assms by (intro map_of_inject_set [THEN iffD2]) (simp_all add: comp_def)


lemma installed_batch_lookup:
  assumes C: "codec_ok (rg_codec E)" and r: "read_registry E f = Inr rs" "keyed rs" and i: "install_many E ms f = (Inr created, f')"
  shows "\<exists>rs'. read_registry E f' = Inr rs' \<and> keyed rs'
      \<and> map_of rs' = map_of rs ++ map_of (map (\<lambda>m. (m_id m, installed_record m)) ms)
      \<and> set created = installed_record ` set ms \<and> distinct (map m_id ms)
      \<and> m_id ` set ms \<inter> (dom (map_of rs) \<union> set RESERVED_PACKAGE_IDS) = {}
      \<and> compatible (rg_spec_in E) (rg_core_version E) (resulting ms (manifests_of rs))"
proof (rule install_written [OF r i])
  fix ord
  assume o: "created = map installed_record ord" "set ord = set ms" "distinct (map m_id ord)" "distinct (map m_id ms)"
    "\<forall>m\<in>set ms. map_of rs (m_id m) = None \<and> m_id m \<notin> set RESERVED_PACKAGE_IDS"
    "compatible (rg_spec_in E) (rg_core_version E) (resulting ms (manifests_of rs))"
    "f' = write_registry E (fold (\<lambda>m. AList.update (m_id m) (installed_record m)) ord rs)"
  let ?rs = "fold (\<lambda>m. AList.update (m_id m) (installed_record m)) ord rs"
  have k: "keyed ?rs" using r(2) by (rule keyed_install)
  have "map_of (dict_sorted ?rs) = map_of ?rs" using k by (simp add: keyed_def map_of_dict_sorted)
  also have "\<dots> = map_of rs ++ map_of (map (\<lambda>m. (m_id m, installed_record m)) ms)"
    by (rule ext) (simp only: fold_installed_lookup [OF o(3)] reordered_lookup [OF o(2-4)])
  finally show ?thesis
    using o read_written [OF C k] keyed_sorted [OF k] by (intro exI [of _ "dict_sorted ?rs"]) auto
qed

subsection \<open>A concrete codec\<close>

fun str_of :: "pyval \<Rightarrow> string" where
  "str_of (VStr s) = s"
| "str_of v = []"

fun bool_of :: "pyval \<Rightarrow> bool" where
  "bool_of (VBool b) = b"
| "bool_of v = False"

fun value_items :: "pyval \<Rightarrow> pyval list" where
  "value_items (VList i xs) = xs"
| "value_items v = []"

definition example_validate :: "pyval \<Rightarrow> package_manifest option" where
  "example_validate v =
     (case v of
        VDict i [(_, conflicts), (_, core), (_, deps), (_, pid), (_, migrations), (_, provides), (_, requires), (_, kind), (_, version)] \<Rightarrow>
          Some \<lparr>m_id = str_of pid, m_version = str_of version, m_core = str_of core,
            m_conflicts = map (\<lambda>x. \<lparr>x_package_id = str_of (value_items x ! 0), x_version = str_of (value_items x ! 1)\<rparr>) (value_items conflicts),
            m_dependencies = map (\<lambda>x. \<lparr>d_package_id = str_of (value_items x ! 0), d_version = str_of (value_items x ! 1),
              d_optional = bool_of (value_items x ! 2)\<rparr>) (value_items deps),
            m_provides = map (\<lambda>x. \<lparr>p_id = str_of (value_items x ! 0), p_version = str_of (value_items x ! 1)\<rparr>) (value_items provides),
            m_requires = map (\<lambda>x. \<lparr>q_id = str_of (value_items x ! 0), q_version = str_of (value_items x ! 1),
              q_optional = bool_of (value_items x ! 2)\<rparr>) (value_items requires),
            m_type = str_of kind, m_migrations = map str_of (value_items migrations)\<rparr>
      | _ \<Rightarrow> None)"

definition example_dump :: "package_manifest \<Rightarrow> pyval" where
  "example_dump m =
     VDict None
       [(KStr ''conflicts'', VList None (map (\<lambda>x. VList None [VStr (x_package_id x), VStr (x_version x)]) (m_conflicts m))),
        (KStr ''core'', VStr (m_core m)),
        (KStr ''dependencies'', VList None (map (\<lambda>d. VList None [VStr (d_package_id d), VStr (d_version d), VBool (d_optional d)]) (m_dependencies m))),
        (KStr ''id'', VStr (m_id m)),
        (KStr ''migrations'', VList None (map VStr (m_migrations m))),
        (KStr ''provides'', VList None (map (\<lambda>c. VList None [VStr (p_id c), VStr (p_version c)]) (m_provides m))),
        (KStr ''requires'', VList None (map (\<lambda>q. VList None [VStr (q_id q), VStr (q_version q), VBool (q_optional q)]) (m_requires m))),
        (KStr ''type'', VStr (m_type m)),
        (KStr ''version'', VStr (m_version m))]"

definition example_codec :: manifest_codec where
  "example_codec = \<lparr>manifest_validate = example_validate, manifest_dump = example_dump\<rparr>"

lemma canon_example_dump: "canon (example_dump m) = example_dump m"
proof -
  have "sort_key (\<lambda>(k, v). key_text k) [(KStr ''conflicts'', a), (KStr ''core'', b), (KStr ''dependencies'', c), (KStr ''id'', d),
      (KStr ''migrations'', e), (KStr ''provides'', f), (KStr ''requires'', g), (KStr ''type'', h), (KStr ''version'', i)]
    = [(KStr ''conflicts'', a), (KStr ''core'', b), (KStr ''dependencies'', c), (KStr ''id'', d),
      (KStr ''migrations'', e), (KStr ''provides'', f), (KStr ''requires'', g), (KStr ''type'', h), (KStr ''version'', i)]"
    for a b c d e f g h i :: pyval
    by (rule sort_key_id_if_sorted) (simp add: key_text_def)
  then show ?thesis by (simp add: example_dump_def comp_def)
qed

lemma record_parts:
  "\<lparr>x_package_id = x_package_id x, x_version = x_version x\<rparr> = x"
  "\<lparr>d_package_id = d_package_id d, d_version = d_version d, d_optional = d_optional d\<rparr> = d"
  "\<lparr>p_id = p_id c, p_version = p_version c\<rparr> = c"
  "\<lparr>q_id = q_id q, q_version = q_version q, q_optional = q_optional q\<rparr> = q"
  by simp_all

lemma example_codec_ok: "codec_ok example_codec"
  unfolding codec_ok_def example_codec_def package_manifest.simps manifest_codec.simps canon_example_dump
  by (auto simp: example_dump_def example_validate_def comp_def LEGACY_MANIFEST_KEYS_def key_text_def record_parts)

definition example_env :: registry_env where
  "example_env = \<lparr>rg_codec = example_codec, rg_spec_in = (\<lambda>v s. v = s), rg_core_version = ''0.3.0'', rg_protected_ids = [''core-theme'']\<rparr>"

text \<open>A package that provides the capability \<open>mail\<close>, and one that requires it.\<close>

definition mail_provider :: package_manifest where
  "mail_provider = (ex_package ''postmark'' [])\<lparr>m_provides := [\<lparr>p_id = ''mail'', p_version = ''1''\<rparr>]\<rparr>"

definition mail_user :: package_manifest where
  "mail_user = (ex_package ''forum'' [])\<lparr>m_requires := [\<lparr>q_id = ''mail'', q_version = ''1'', q_optional = False\<rparr>]\<rparr>"


definition mail_calls :: "registry_call list" where
  "mail_calls = [Install_Many [mail_user, mail_provider], Enable_Package ''forum'', Enable_Package ''postmark'',
     Enable_Package ''forum'', Disable_Package ''postmark'', Uninstall_Package ''forum'']"

lemma example_env_codec: "codec_ok (rg_codec example_env)"
  by (simp add: example_env_def example_codec_ok)

lemma empty_registry: "read_registry E None = Inr []"
  by (simp add: read_registry_def registry_document_def parse_registry_document_def)

lemma empty_runnable: "holds_runnable E None"
  by (simp add: holds_runnable_def empty_registry keyed_def runnable_def capabilities_met_def enabled_manifests_def)

subsection \<open>Properties\<close>

text \<open>
  C3: the calls of the registry keep what is enabled runnable: whatever installs, enables, disables, uninstalls and
  cleanups run, and whether each succeeds or raises, every enabled package has its required packages enabled in a
  matching version and its required capabilities provided by an enabled package. Quarantine is the one call that
  may break it, as its documentation says.
\<close>

theorem registry_calls_keep_runnable:
  assumes "codec_ok (rg_codec E)" "holds_runnable E f" "\<not> list_ex is_quarantine cs"
  shows "holds_runnable E (run_registry_calls E cs f)"
  using assms by (rule registry_calls_runnable)

theorem registry_calls_keep_runnable_witness:
  "holds_runnable example_env (run_registry_calls example_env mail_calls None)"
  by (rule registry_calls_keep_runnable) (simp_all add: example_env_codec empty_runnable mail_calls_def)

text \<open>
  C23: a batch that \<open>install_many\<close> accepts is installed as a whole: the registry read back holds every old record
  unchanged and every package of the batch as installed, no id of the batch was reserved, repeated or already
  present, and the packages together meet every Core range, conflict, dependency and capability declaration.
\<close>

theorem accepted_batch_is_installed:
  assumes "codec_ok (rg_codec E)" "read_registry E f = Inr rs" "keyed rs" "install_many E ms f = (Inr created, f')"
  shows "\<exists>rs'. read_registry E f' = Inr rs' \<and> keyed rs'
      \<and> map_of rs' = map_of rs ++ map_of (map (\<lambda>m. (m_id m, installed_record m)) ms)
      \<and> set created = installed_record ` set ms \<and> distinct (map m_id ms)
      \<and> m_id ` set ms \<inter> (dom (map_of rs) \<union> set RESERVED_PACKAGE_IDS) = {}
      \<and> compatible (rg_spec_in E) (rg_core_version E) (resulting ms (manifests_of rs))"
  using assms by (rule installed_batch_lookup)

lemma mail_install_eval:
  "install_many example_env [mail_user, mail_provider] None =
     (Inr [installed_record mail_user, installed_record mail_provider],
      write_registry example_env [(''forum'', installed_record mail_user), (''postmark'', installed_record mail_provider)])"
  by code_simp

theorem accepted_batch_is_installed_witness:
  "\<exists>rs'. read_registry example_env (snd (install_many example_env [mail_user, mail_provider] None)) = Inr rs'
     \<and> map_of rs' = map_of (map (\<lambda>m. (m_id m, installed_record m)) [mail_user, mail_provider])"
  using accepted_batch_is_installed [OF example_env_codec empty_registry _ mail_install_eval]
  by (auto simp: mail_install_eval keyed_def)

text \<open>
  The check of \<open>uninstall\<close> looks at required packages only: a provider can be removed while an installed package
  still requires its capability, and then no other package can be installed.
\<close>

lemma uninstall_strands_requirement:
  "fst (install_many example_env [ex_package ''blog'' []]
      (run_registry_calls example_env [Install_Many [mail_user, mail_provider], Uninstall_Package ''postmark''] None))
   = Inl (Unresolved (MissingCapability ''forum'' ''mail'' ''1''))"
  by code_simp

end
