(* ===== verification/Package_Lifecycle.thy ===== *)
theory Package_Lifecycle
  imports Package_Registry Operation_Journal
begin

text \<open>
  \<open>package_lifecycle.py\<close>: the crash-recoverable package manager over signed staged artifacts. The state is what
  the calls leave on disk: the registry file, the entries of the package, staging and backup roots, the intent
  files and the operation journal. Every step that touches the disk may fail or be cut short by a crash, as the
  fault environment decides; \<open>except Exception\<close> sees a failure and never a crash. A call holds the lifecycle
  lock, so nothing runs between its steps.
\<close>

subsection \<open>Data\<close>

datatype tx_phase = Prepared | Files_Applied | Registry_Applied | Committed | Rolled_Back

datatype tx_action = Tx_Install | Tx_Update | Tx_Enable | Tx_Disable | Tx_Uninstall

fun action_value :: "tx_action \<Rightarrow> string" where
  "action_value Tx_Install = ''install''"
| "action_value Tx_Update = ''update''"
| "action_value Tx_Enable = ''enable''"
| "action_value Tx_Disable = ''disable''"
| "action_value Tx_Uninstall = ''uninstall''"

record tx_intent =
  ti_operation_id :: string
  ti_action :: tx_action
  ti_package_id :: string
  ti_phase :: tx_phase
  ti_before :: package_records
  ti_after :: package_records
  ti_sha :: "string option"
  ti_key :: "string option"
  ti_stage :: "string option"
  ti_backup :: "string option"

record lc_result =
  lr_operation_id :: string
  lr_action :: tx_action
  lr_package_id :: string
  lr_version :: "string option"
  lr_status :: "package_status option"
  lr_replay :: bool

text \<open>The files of a package beside the integrity marker; a marker that no \<open>read_json\<close> reads is no marker.\<close>

type_synonym file_tree = "(string \<times> string) list"

datatype tree_entry = Directory "pyval option" file_tree | Other_File

record artifact =
  va_manifest :: package_manifest
  va_sha :: string
  va_key :: string
  va_files :: file_tree

datatype lc_error =
    Transaction_Error string
  | Lc_Value_Error string
  | Journal_Error journal_error
  | Os_Error
  | Artifact_Error
  | State_Error string
  | Lc_Recursion_Error

text \<open>What the disk holds. An intent file that does not validate is \<open>None\<close>.\<close>

record lc_disk =
  lc_registry :: registry_file
  lc_packages :: "string \<Rightarrow> tree_entry option"
  lc_stages :: "string \<Rightarrow> tree_entry option"
  lc_backups :: "string \<Rightarrow> tree_entry option"
  lc_intents :: "(string, tx_intent option) dict"
  lc_journal :: journal_file
  lc_tick :: nat

subsection \<open>Steps that may fail\<close>

datatype effect_kind =
    Make_Roots
  | Intent_Write tx_phase
  | Intent_Unlink
  | Registry_Write
  | Marker_Write
  | Rename
  | Remove_Tree
  | Extract_Archive
  | Journal_Append
  | Hook string

text \<open>
  A step proceeds, or it stops with an exception or a crash when nothing, everything or, for the steps that are
  not atomic, a part of it has happened: a directory that is there in part, or the first bytes of an appended line.
\<close>

datatype fault_progress = Untouched | Partly "pyval option" file_tree | Torn nat | Completed

datatype fault = Proceed | Fault bool fault_progress

record lc_env =
  lc_reg :: registry_env
  lc_jenv :: journal_env
  lc_token :: "string \<Rightarrow> string"
  lc_id_ok :: "string \<Rightarrow> bool"
  lc_version_le :: "string \<Rightarrow> string \<Rightarrow> bool"
  lc_verify :: "string \<Rightarrow> string \<Rightarrow> lc_error + artifact"
  lc_signer_ok :: "string \<Rightarrow> string \<Rightarrow> string \<Rightarrow> string \<Rightarrow> bool"
  lc_state_validator :: "tx_action \<Rightarrow> string \<Rightarrow> package_record \<Rightarrow> package_records \<Rightarrow> lc_error option"
  lc_hooks :: "string list"
  lc_fault :: "effect_kind \<Rightarrow> nat \<Rightarrow> fault"
  lc_time :: "nat \<Rightarrow> int"

datatype 'a outcome = Done 'a | Raised lc_error | Crashed

type_synonym 'a proc = "lc_disk \<Rightarrow> 'a outcome \<times> lc_disk"

definition ret :: "'a \<Rightarrow> 'a proc" where "ret x s = (Done x, s)"
definition raise :: "lc_error \<Rightarrow> 'a proc" where "raise e s = (Raised e, s)"

definition seq :: "'a proc \<Rightarrow> ('a \<Rightarrow> 'b proc) \<Rightarrow> 'b proc" where
  "seq m k s = (case m s of (Done x, s') \<Rightarrow> k x s' | (Raised e, s') \<Rightarrow> (Raised e, s') | (Crashed, s') \<Rightarrow> (Crashed, s'))"

definition catch :: "'a proc \<Rightarrow> (lc_error \<Rightarrow> 'a proc) \<Rightarrow> 'a proc" where
  "catch m h s = (case m s of (Raised e, s') \<Rightarrow> h e s' | r \<Rightarrow> r)"

definition lift :: "lc_error + 'a \<Rightarrow> 'a proc" where
  "lift r = (case r of Inl e \<Rightarrow> raise e | Inr x \<Rightarrow> ret x)"

definition only_if :: "(lc_disk \<Rightarrow> bool) \<Rightarrow> unit proc \<Rightarrow> unit proc" where
  "only_if c m s = (if c s then m s else (Done (), s))"

definition effect :: "lc_env \<Rightarrow> effect_kind \<Rightarrow> (tree_entry \<Rightarrow> lc_disk \<Rightarrow> lc_disk) \<Rightarrow> (lc_disk \<Rightarrow> lc_disk) \<Rightarrow> unit proc" where
  "effect E k partly act s =
     (let s' = s\<lparr>lc_tick := Suc (lc_tick s)\<rparr> in
      case lc_fault E k (lc_tick s) of
        Proceed \<Rightarrow> (Done (), act s')
      | Fault crash progress \<Rightarrow>
          (if crash then Crashed else Raised Os_Error,
           case progress of Untouched \<Rightarrow> s' | Partly m t \<Rightarrow> partly (Directory m t) s' | Torn n \<Rightarrow> s' | Completed \<Rightarrow> act s'))"

definition atomic :: "lc_env \<Rightarrow> effect_kind \<Rightarrow> (lc_disk \<Rightarrow> lc_disk) \<Rightarrow> unit proc" where
  "atomic E k act = effect E k (\<lambda>_ s. s) act"

text \<open>A hook that is not configured is not called.\<close>

definition hook :: "lc_env \<Rightarrow> string \<Rightarrow> string \<Rightarrow> unit proc" where
  "hook E name point = (if name \<in> set (lc_hooks E) then atomic E (Hook point) (\<lambda>s. s) else ret ())"

subsection \<open>The journal\<close>

text \<open>
  The loop over \<open>os.write\<close> may stop after some of the bytes of the line, with no newline: a torn line, which no
  reader of the journal accepts.
\<close>

definition torn_append :: "nat \<Rightarrow> journal_file \<Rightarrow> journal_file \<Rightarrow> journal_file" where
  "torn_append n f f' =
     (case f' of None \<Rightarrow> f
      | Some ls \<Rightarrow>
          if f' = f \<or> n = 0 \<or> l_bytes (last ls) \<le> 1 then f
          else Some (butlast ls @ [\<lparr>l_bytes = min n (l_bytes (last ls) - 1), l_complete = False, l_event = None\<rparr>]))"

definition journal_op ::
  "lc_env \<Rightarrow> (journal_env \<Rightarrow> int \<Rightarrow> journal_file \<Rightarrow> (journal_error + op_state) \<times> journal_file) \<Rightarrow> op_state proc" where
  "journal_op E call s =
     (let t = lc_tick s; s' = s\<lparr>lc_tick := Suc t\<rparr> in
      case call (lc_jenv E) (lc_time E t) (lc_journal s) of (r, f) \<Rightarrow>
      case lc_fault E Journal_Append t of
        Proceed \<Rightarrow> (case r of Inl x \<Rightarrow> (Raised (Journal_Error x), s') | Inr st \<Rightarrow> (Done st, s'\<lparr>lc_journal := f\<rparr>))
      | Fault crash progress \<Rightarrow>
          (if crash then Crashed else Raised Os_Error,
           case progress of
             Completed \<Rightarrow> s'\<lparr>lc_journal := f\<rparr>
           | Torn n \<Rightarrow> s'\<lparr>lc_journal := torn_append n (lc_journal s) f\<rparr>
           | _ \<Rightarrow> s'))"

definition journal_begin :: "lc_env \<Rightarrow> string \<Rightarrow> string \<Rightarrow> string \<Rightarrow> op_state proc" where
  "journal_begin E op action target = journal_op E (\<lambda>J t. begin_operation J t op action target None)"

definition journal_retry :: "lc_env \<Rightarrow> string \<Rightarrow> op_state proc" where
  "journal_retry E op = journal_op E (\<lambda>J t. retry_operation J t op None)"

definition journal_succeed :: "lc_env \<Rightarrow> string \<Rightarrow> op_state proc" where
  "journal_succeed E op = journal_op E (\<lambda>J t. succeed_operation J t op None)"

definition journal_fail :: "lc_env \<Rightarrow> string \<Rightarrow> string \<Rightarrow> op_state proc" where
  "journal_fail E op code = journal_op E (\<lambda>J t. fail_operation J t op code None)"

definition journal_state :: "lc_env \<Rightarrow> string \<Rightarrow> op_state option proc" where
  "journal_state E op s =
     (case operation_state (lc_jenv E) op (lc_journal s) of
        Inl x \<Rightarrow> (Raised (Journal_Error x), s) | Inr st \<Rightarrow> (Done st, s))"

definition journal_pending :: "lc_env \<Rightarrow> op_state list proc" where
  "journal_pending E s =
     (case pending_operations (lc_jenv E) (lc_journal s) of
        Inl x \<Rightarrow> (Raised (Journal_Error x), s) | Inr sts \<Rightarrow> (Done sts, s))"

definition mark_failed :: "lc_env \<Rightarrow> string \<Rightarrow> string \<Rightarrow> unit proc" where
  "mark_failed E op code =
     seq (journal_state E op) (\<lambda>st.
     if (case st of None \<Rightarrow> False | Some x \<Rightarrow> s_status x = Started)
     then seq (journal_fail E op code) (\<lambda>_. ret ()) else ret ())"

definition fail_without_intent :: "lc_env \<Rightarrow> string \<Rightarrow> string \<Rightarrow> unit proc" where
  "fail_without_intent E op code = mark_failed E op code"

text \<open>Every rejection records the failure and raises.\<close>

definition reject :: "lc_env \<Rightarrow> string \<Rightarrow> string \<Rightarrow> lc_error \<Rightarrow> 'a proc" where
  "reject E op code e = seq (fail_without_intent E op code) (\<lambda>_. raise e)"

definition begin_tx :: "lc_env \<Rightarrow> string \<Rightarrow> string \<Rightarrow> string \<Rightarrow> bool proc" where
  "begin_tx E op action target =
     seq (journal_begin E op action target) (\<lambda>st.
     if s_status st = Succeeded then ret True
     else if s_status st = Failed then seq (journal_retry E op) (\<lambda>_. ret False)
     else ret False)"

subsection \<open>Names on disk\<close>

definition lifecycle_id_pattern :: rx where
  "lifecycle_id_pattern =
     Seq (Cls [upper, lower, digit] 1 (Some 1))
       (Cls [upper, lower, digit, single CHR ''.'', single CHR ''_'', single CHR '':'', single CHR ''-''] 7 (Some 127))"

definition validate_lifecycle_id :: "string \<Rightarrow> lc_error + string" where
  "validate_lifecycle_id v =
     (if fullmatch lifecycle_id_pattern v then Inr v else Inl (Lc_Value_Error ''invalid package lifecycle operation id''))"

definition validate_package_id :: "lc_env \<Rightarrow> string \<Rightarrow> lc_error + string" where
  "validate_package_id E v = (if lc_id_ok E v then Inr v else Inl (Lc_Value_Error ''invalid package id''))"

definition package_path :: "lc_env \<Rightarrow> string \<Rightarrow> string proc" where
  "package_path E p = lift (validate_package_id E p)"

definition intent_path :: "lc_env \<Rightarrow> string \<Rightarrow> lc_error + string" where
  "intent_path E op = map_sum id (\<lambda>v. lc_token E v @ ''.json'') (validate_lifecycle_id op)"

definition transaction_prefix :: "lc_env \<Rightarrow> tx_intent \<Rightarrow> lc_error + string" where
  "transaction_prefix E i =
     map_sum id (\<lambda>p. p @ ''-'' @ take 24 (lc_token E (ti_operation_id i))) (validate_package_id E (ti_package_id i))"

text \<open>\<open>self._stage_path(intent) if intent.stage_name else None\<close>, and the same for the backup.\<close>

definition transaction_path :: "lc_env \<Rightarrow> tx_intent \<Rightarrow> string \<Rightarrow> lc_error \<Rightarrow> string option \<Rightarrow> lc_error + string option" where
  "transaction_path E i suffix err n =
     (case n of None \<Rightarrow> Inr None | Some name \<Rightarrow>
      if name = [] then Inr None
      else case transaction_prefix E i of Inl e \<Rightarrow> Inl e
      | Inr prefix \<Rightarrow> if name \<noteq> prefix @ suffix then Inl err else Inr (Some name))"

definition stage_path :: "lc_env \<Rightarrow> tx_intent \<Rightarrow> string option proc" where
  "stage_path E i = lift (transaction_path E i ''.stage''
     (Transaction_Error ''package transaction staging path is invalid'') (ti_stage i))"

definition backup_path :: "lc_env \<Rightarrow> tx_intent \<Rightarrow> string option proc" where
  "backup_path E i = lift (transaction_path E i ''.backup''
     (Transaction_Error ''package transaction backup path is invalid'') (ti_backup i))"

definition new_intent ::
  "lc_env \<Rightarrow> string \<Rightarrow> tx_action \<Rightarrow> string \<Rightarrow> package_records \<Rightarrow> package_records
    \<Rightarrow> string option \<Rightarrow> string option \<Rightarrow> bool \<Rightarrow> bool \<Rightarrow> tx_intent" where
  "new_intent E op action p before after sha key stage backup =
     (let prefix = p @ ''-'' @ take 24 (lc_token E op) in
      \<lparr>ti_operation_id = op, ti_action = action, ti_package_id = p, ti_phase = Prepared,
       ti_before = before, ti_after = after, ti_sha = sha, ti_key = key,
       ti_stage = (if stage then Some (prefix @ ''.stage'') else None),
       ti_backup = (if backup then Some (prefix @ ''.backup'') else None)\<rparr>)"

subsection \<open>Writes\<close>

definition write_records :: "lc_env \<Rightarrow> package_records \<Rightarrow> unit proc" where
  "write_records E rs = atomic E Registry_Write (\<lambda>s. s\<lparr>lc_registry := write_registry (lc_reg E) rs\<rparr>)"

definition read_package_records :: "lc_env \<Rightarrow> package_records proc" where
  "read_package_records E s =
     (case read_registry (lc_reg E) (lc_registry s) of
        Inl e \<Rightarrow> (Raised (Transaction_Error ''package registry is invalid''), s)
      | Inr rs \<Rightarrow>
          if payload_has_legacy_keys (registry_document (lc_registry s)) then seq (write_records E rs) (\<lambda>_. ret rs) s
          else (Done rs, s))"

definition write_intent :: "lc_env \<Rightarrow> tx_intent \<Rightarrow> unit proc" where
  "write_intent E i =
     seq (lift (intent_path E (ti_operation_id i))) (\<lambda>name.
     atomic E (Intent_Write (ti_phase i)) (\<lambda>s. s\<lparr>lc_intents := AList.update name (Some i) (lc_intents s)\<rparr>))"

definition remove_package :: "lc_env \<Rightarrow> string \<Rightarrow> unit proc" where
  "remove_package E p = effect E Remove_Tree
     (\<lambda>e s. s\<lparr>lc_packages := (lc_packages s)(p \<mapsto> e)\<rparr>) (\<lambda>s. s\<lparr>lc_packages := (lc_packages s)(p := None)\<rparr>)"

definition remove_stage :: "lc_env \<Rightarrow> string \<Rightarrow> unit proc" where
  "remove_stage E n = effect E Remove_Tree
     (\<lambda>e s. s\<lparr>lc_stages := (lc_stages s)(n \<mapsto> e)\<rparr>) (\<lambda>s. s\<lparr>lc_stages := (lc_stages s)(n := None)\<rparr>)"

definition remove_backup :: "lc_env \<Rightarrow> string \<Rightarrow> unit proc" where
  "remove_backup E n = effect E Remove_Tree
     (\<lambda>e s. s\<lparr>lc_backups := (lc_backups s)(n \<mapsto> e)\<rparr>) (\<lambda>s. s\<lparr>lc_backups := (lc_backups s)(n := None)\<rparr>)"

text \<open>\<open>Path.replace\<close> moves a directory to a name that is free.\<close>

definition stage_to_package :: "lc_env \<Rightarrow> string \<Rightarrow> string \<Rightarrow> unit proc" where
  "stage_to_package E n p = atomic E Rename (\<lambda>s.
     s\<lparr>lc_packages := (lc_packages s)(p := lc_stages s n), lc_stages := (lc_stages s)(n := None)\<rparr>)"

definition package_to_backup :: "lc_env \<Rightarrow> string \<Rightarrow> string \<Rightarrow> unit proc" where
  "package_to_backup E p n = atomic E Rename (\<lambda>s.
     s\<lparr>lc_backups := (lc_backups s)(n := lc_packages s p), lc_packages := (lc_packages s)(p := None)\<rparr>)"

definition backup_to_package :: "lc_env \<Rightarrow> string \<Rightarrow> string \<Rightarrow> unit proc" where
  "backup_to_package E n p = atomic E Rename (\<lambda>s.
     s\<lparr>lc_packages := (lc_packages s)(p := lc_backups s n), lc_backups := (lc_backups s)(n := None)\<rparr>)"

definition extract_stage :: "lc_env \<Rightarrow> artifact \<Rightarrow> string \<Rightarrow> unit proc" where
  "extract_stage E a n s =
     (if lc_stages s n \<noteq> None then (Raised Artifact_Error, s)
      else effect E Extract_Archive (\<lambda>e s. s\<lparr>lc_stages := (lc_stages s)(n \<mapsto> e)\<rparr>)
        (\<lambda>s. s\<lparr>lc_stages := (lc_stages s)(n \<mapsto> Directory None (va_files a))\<rparr>) s)"

subsection \<open>The integrity marker\<close>

definition marker_keys :: "string list" where
  "marker_keys = [''schema_version'', ''package_id'', ''version'', ''artifact_sha256'', ''signature_key_id'']"

definition artifact_marker :: "string \<Rightarrow> string \<Rightarrow> string \<Rightarrow> string \<Rightarrow> pyval" where
  "artifact_marker p version sha key =
     VDict None [(KStr ''artifact_sha256'', VStr sha), (KStr ''package_id'', VStr p), (KStr ''schema_version'', VInt 1),
       (KStr ''signature_key_id'', VStr key), (KStr ''version'', VStr version)]"

definition write_artifact_marker :: "lc_env \<Rightarrow> string \<Rightarrow> artifact \<Rightarrow> unit proc" where
  "write_artifact_marker E n a = atomic E Marker_Write (\<lambda>s.
     s\<lparr>lc_stages := (lc_stages s)(n := map_option (\<lambda>e. case e of
         Directory m t \<Rightarrow> Directory (Some (artifact_marker (m_id (va_manifest a)) (m_version (va_manifest a)) (va_sha a) (va_key a))) t
       | Other_File \<Rightarrow> Other_File) (lc_stages s n))\<rparr>)"

definition marker_of :: "tree_entry option \<Rightarrow> pyval option" where
  "marker_of e = (case e of Some (Directory m t) \<Rightarrow> m | _ \<Rightarrow> None)"

text \<open>\<open>v == 1\<close>, which holds of \<open>True\<close> too.\<close>

definition equals_one :: "pyval option \<Rightarrow> bool" where
  "equals_one v \<longleftrightarrow> v = Some (VInt 1) \<or> v = Some (VBool True)"

definition has_marker_keys :: "pyval \<Rightarrow> bool" where
  "has_marker_keys v = (case v of VDict i kvs \<Rightarrow> set (map fst kvs) = KStr ` set marker_keys | _ \<Rightarrow> False)"

definition artifact_sha_pattern :: rx where
  "artifact_sha_pattern = Cls [digit, (CHR ''a'', CHR ''f'')] 64 (Some 64)"

definition installed_marker_is_valid :: "string \<Rightarrow> package_record \<Rightarrow> tree_entry option \<Rightarrow> bool" where
  "installed_marker_is_valid p r e =
     (case marker_of e of None \<Rightarrow> False | Some m \<Rightarrow>
      has_marker_keys m \<and> equals_one (member_of ''schema_version'' m) \<and> member_of ''package_id'' m = Some (VStr p)
      \<and> member_of ''version'' m = Some (VStr (m_version (pr_manifest r)))
      \<and> (case member_of ''artifact_sha256'' m of Some (VStr h) \<Rightarrow> fullmatch artifact_sha_pattern h | _ \<Rightarrow> False)
      \<and> (case member_of ''signature_key_id'' m of Some (VStr k) \<Rightarrow> k \<noteq> [] | _ \<Rightarrow> False))"

definition artifact_marker_matches :: "tree_entry option \<Rightarrow> string \<Rightarrow> string \<Rightarrow> string \<Rightarrow> string \<Rightarrow> bool" where
  "artifact_marker_matches e p version sha key =
     (case marker_of e of None \<Rightarrow> False | Some m \<Rightarrow>
      has_marker_keys m \<and> equals_one (member_of ''schema_version'' m) \<and> member_of ''package_id'' m = Some (VStr p)
      \<and> member_of ''version'' m = Some (VStr version) \<and> member_of ''artifact_sha256'' m = Some (VStr sha)
      \<and> member_of ''signature_key_id'' m = Some (VStr key))"

definition installed_signer :: "tree_entry option \<Rightarrow> lc_error + string" where
  "installed_signer e =
     (case Option.bind (marker_of e) (member_of ''signature_key_id'') of
        Some (VStr k) \<Rightarrow> if k = [] then Inl (Transaction_Error ''installed package integrity marker is invalid'') else Inr k
      | _ \<Rightarrow> Inl (Transaction_Error ''installed package integrity marker is invalid''))"

subsection \<open>Rolling back and cleaning up\<close>

definition exists_in :: "(lc_disk \<Rightarrow> string \<Rightarrow> tree_entry option) \<Rightarrow> string \<Rightarrow> lc_disk \<Rightarrow> bool" where
  "exists_in root n s \<longleftrightarrow> root s n \<noteq> None"

definition is_directory :: "tree_entry option \<Rightarrow> bool" where
  "is_directory e = (case e of Some (Directory m t) \<Rightarrow> True | _ \<Rightarrow> False)"

definition undo_files :: "lc_env \<Rightarrow> tx_intent \<Rightarrow> string option \<Rightarrow> unit proc" where
  "undo_files E i backup =
     (let p = ti_package_id i in
      if ti_action i = Tx_Install
      then only_if (\<lambda>s. map_of (ti_before i) p = None \<and> exists_in lc_packages p s) (remove_package E p)
      else if ti_action i = Tx_Update \<or> ti_action i = Tx_Uninstall
      then (case backup of None \<Rightarrow> ret ()
            | Some b \<Rightarrow> only_if (exists_in lc_backups b)
                (seq (only_if (exists_in lc_packages p) (remove_package E p)) (\<lambda>_. backup_to_package E b p)))
      else ret ())"

definition remove_stage_of :: "lc_env \<Rightarrow> string option \<Rightarrow> unit proc" where
  "remove_stage_of E stage = (case stage of None \<Rightarrow> ret () | Some n \<Rightarrow> only_if (exists_in lc_stages n) (remove_stage E n))"

definition remove_backup_of :: "lc_env \<Rightarrow> string option \<Rightarrow> unit proc" where
  "remove_backup_of E backup = (case backup of None \<Rightarrow> ret () | Some n \<Rightarrow> only_if (exists_in lc_backups n) (remove_backup E n))"

definition rollback_intent :: "lc_env \<Rightarrow> tx_intent \<Rightarrow> tx_intent proc" where
  "rollback_intent E i =
     seq (package_path E (ti_package_id i)) (\<lambda>_.
     seq (stage_path E i) (\<lambda>stage.
     seq (backup_path E i) (\<lambda>backup.
     seq (undo_files E i backup) (\<lambda>_.
     seq (remove_stage_of E stage) (\<lambda>_.
     seq (write_records E (ti_before i)) (\<lambda>_.
     let rolled_back = i\<lparr>ti_phase := Rolled_Back\<rparr> in
     seq (write_intent E rolled_back) (\<lambda>_. ret rolled_back)))))))"

definition unlink_intent :: "lc_env \<Rightarrow> tx_intent \<Rightarrow> unit proc" where
  "unlink_intent E i =
     seq (lift (intent_path E (ti_operation_id i))) (\<lambda>name.
     atomic E Intent_Unlink (\<lambda>s. s\<lparr>lc_intents := AList.delete name (lc_intents s)\<rparr>))"

definition cleanup_intent :: "lc_env \<Rightarrow> tx_intent \<Rightarrow> unit proc" where
  "cleanup_intent E i =
     seq (stage_path E i) (\<lambda>stage.
     seq (remove_stage_of E stage) (\<lambda>_.
     seq (backup_path E i) (\<lambda>backup.
     seq (remove_backup_of E backup) (\<lambda>_. unlink_intent E i))))"

definition rollback_and_fail :: "lc_env \<Rightarrow> tx_intent \<Rightarrow> string \<Rightarrow> unit proc" where
  "rollback_and_fail E i code =
     catch
       (seq (rollback_intent E i) (\<lambda>rolled_back.
        seq (mark_failed E (ti_operation_id i) code) (\<lambda>_. cleanup_intent E rolled_back)))
       (\<lambda>_. raise (Transaction_Error ''package rollback is incomplete and requires recovery''))"

text \<open>Roll back and raise what the caller reports.\<close>

definition undo_and_raise :: "lc_env \<Rightarrow> tx_intent \<Rightarrow> string \<Rightarrow> string \<Rightarrow> lc_error \<Rightarrow> unit proc" where
  "undo_and_raise E i code message e =
     seq (rollback_and_fail E i code) (\<lambda>_. raise (Transaction_Error message))"

subsection \<open>Applying an intent\<close>

definition check_files :: "tx_intent \<Rightarrow> string option \<Rightarrow> string option \<Rightarrow> lc_disk \<Rightarrow> bool" where
  "check_files i stage backup s =
     (let package = lc_packages s (ti_package_id i);
          staged = Option.bind stage (lc_stages s); saved = Option.bind backup (lc_backups s) in
      case ti_action i of
        Tx_Install \<Rightarrow> is_directory staged \<and> package = None
      | Tx_Update \<Rightarrow> backup \<noteq> None \<and> is_directory staged \<and> is_directory package \<and> saved = None
      | Tx_Uninstall \<Rightarrow> backup \<noteq> None \<and> is_directory package \<and> saved = None
      | _ \<Rightarrow> True)"

definition move_files :: "lc_env \<Rightarrow> tx_intent \<Rightarrow> string option \<Rightarrow> string option \<Rightarrow> unit proc" where
  "move_files E i stage backup =
     (let p = ti_package_id i in
      case ti_action i of
        Tx_Install \<Rightarrow> stage_to_package E (the stage) p
      | Tx_Update \<Rightarrow> seq (package_to_backup E p (the backup)) (\<lambda>_. stage_to_package E (the stage) p)
      | Tx_Uninstall \<Rightarrow> package_to_backup E p (the backup)
      | _ \<Rightarrow> ret ())"

definition apply_files :: "lc_env \<Rightarrow> tx_intent \<Rightarrow> unit proc" where
  "apply_files E i =
     seq (package_path E (ti_package_id i)) (\<lambda>_.
     seq (stage_path E i) (\<lambda>stage.
     seq (backup_path E i) (\<lambda>backup.
     \<lambda>s. if check_files i stage backup s then move_files E i stage backup s
         else raise (Transaction_Error ''staging postcondition failed'') s)))"

definition apply_package_migrations :: "lc_env \<Rightarrow> tx_intent \<Rightarrow> unit proc" where
  "apply_package_migrations E i =
     (case map_of (ti_after i) (ti_package_id i) of
        None \<Rightarrow> ret ()
      | Some r \<Rightarrow>
          if m_migrations (pr_manifest r) = [] then ret ()
          else if ''migration_applier'' \<notin> set (lc_hooks E)
          then raise (Transaction_Error ''package declares migrations but no migration applier is configured'')
          else seq (package_path E (ti_package_id i)) (\<lambda>_. hook E ''migration_applier'' ''migrations''))"

definition failed_message :: "tx_intent \<Rightarrow> string" where
  "failed_message i = ''package '' @ action_value (ti_action i) @ '' failed and was rolled back''"

definition failed_code :: "tx_intent \<Rightarrow> string" where
  "failed_code i = ''package.'' @ action_value (ti_action i) @ ''_failed''"

definition apply_intent :: "lc_env \<Rightarrow> tx_intent \<Rightarrow> unit proc" where
  "apply_intent E i =
     seq (if ti_action i \<in> {Tx_Install, Tx_Update, Tx_Uninstall} then apply_files E i else ret ()) (\<lambda>_.
     seq (write_intent E (i\<lparr>ti_phase := Files_Applied\<rparr>)) (\<lambda>_.
     seq (hook E ''failure_injector'' ''after_filesystem'') (\<lambda>_.
     seq (if ti_action i \<in> {Tx_Install, Tx_Update} then apply_package_migrations E i else ret ()) (\<lambda>_.
     seq (write_records E (ti_after i)) (\<lambda>_.
     seq (write_intent E (i\<lparr>ti_phase := Registry_Applied\<rparr>)) (\<lambda>_.
     hook E ''failure_injector'' ''after_registry''))))))"

text \<open>
  A rollback replaces the phase of the intent it is given, so the phase the code has reached when it rolls back
  makes no difference and \<open>i\<close> stands for \<open>current\<close>.
\<close>

definition persist_intent :: "lc_env \<Rightarrow> tx_intent \<Rightarrow> unit proc" where
  "persist_intent E i =
     catch (write_intent E i)
       (\<lambda>_. seq (mark_failed E (ti_operation_id i) ''package.intent_write_failed'')
         (\<lambda>_. raise (Transaction_Error ''package transaction intent could not be persisted'')))"

definition execute :: "lc_env \<Rightarrow> tx_intent \<Rightarrow> unit proc" where
  "execute E i =
     seq (lift (intent_path E (ti_operation_id i))) (\<lambda>name.
     seq (only_if (\<lambda>s. map_of (lc_intents s) name = None) (persist_intent E i)) (\<lambda>_.
     seq (catch (apply_intent E i) (undo_and_raise E i (failed_code i) (failed_message i))) (\<lambda>_.
     seq (catch (write_intent E (i\<lparr>ti_phase := Committed\<rparr>)) (undo_and_raise E i (failed_code i) (failed_message i))) (\<lambda>_.
     seq (catch (seq (hook E ''failure_injector'' ''after_commit_marker'') (\<lambda>_.
                 seq (journal_succeed E (ti_operation_id i)) (\<lambda>_. ret ())))
            (\<lambda>_. raise (Transaction_Error
               (''package '' @ action_value (ti_action i) @ '' committed; journal recovery is required'')))) (\<lambda>_.
     cleanup_intent E (i\<lparr>ti_phase := Committed\<rparr>))))))"

subsection \<open>Recovery\<close>

definition records_equal :: "package_records \<Rightarrow> package_records \<Rightarrow> bool" where
  "records_equal a b \<longleftrightarrow> dict_sorted a = dict_sorted b"

definition postcondition :: "lc_env \<Rightarrow> tx_intent \<Rightarrow> bool proc" where
  "postcondition E i =
     seq (read_package_records E) (\<lambda>rs.
     if \<not> records_equal rs (ti_after i) then ret False
     else seq (package_path E (ti_package_id i)) (\<lambda>p s.
       (Done
         (if ti_action i \<in> {Tx_Install, Tx_Update}
          then (case (map_of (ti_after i) p, ti_sha i, ti_key i) of
                  (Some r, Some sha, Some key) \<Rightarrow>
                    is_directory (lc_packages s p)
                    \<and> artifact_marker_matches (lc_packages s p) p (m_version (pr_manifest r)) sha key
                | _ \<Rightarrow> False)
          else if ti_action i = Tx_Uninstall then lc_packages s p = None
          else True), s)))"

definition recover_committed :: "lc_env \<Rightarrow> tx_intent \<Rightarrow> op_state \<Rightarrow> unit proc" where
  "recover_committed E i st =
     seq (postcondition E i) (\<lambda>ok.
     if \<not> ok then raise (Transaction_Error ''committed package postcondition is invalid; recovery is required'')
     else seq (if s_status st = Started then seq (journal_succeed E (ti_operation_id i)) (\<lambda>_. ret ())
               else if s_status st \<noteq> Succeeded
               then raise (Transaction_Error ''committed package intent conflicts with operation journal'')
               else ret ()) (\<lambda>_.
     cleanup_intent E i))"

definition recover_uncommitted :: "lc_env \<Rightarrow> tx_intent \<Rightarrow> op_state \<Rightarrow> unit proc" where
  "recover_uncommitted E i st =
     (if s_status st = Succeeded
      then raise (Transaction_Error ''pre-commit package intent conflicts with succeeded journal'')
      else seq (rollback_intent E i) (\<lambda>_.
        seq (mark_failed E (ti_operation_id i) ''package.recovered_rollback'') (\<lambda>_. cleanup_intent E i)))"

definition recover_intent :: "lc_env \<Rightarrow> string \<Rightarrow> tx_intent \<Rightarrow> unit proc" where
  "recover_intent E name i =
     seq (lift (intent_path E (ti_operation_id i))) (\<lambda>expected.
     if name \<noteq> expected then raise (Transaction_Error ''package transaction intent path is invalid'')
     else seq (journal_state E (ti_operation_id i)) (\<lambda>state.
       case state of
         None \<Rightarrow> raise (Transaction_Error ''package transaction intent has no operation journal'')
       | Some st \<Rightarrow> if ti_phase i = Committed then recover_committed E i st else recover_uncommitted E i st))"

fun recover_intents :: "lc_env \<Rightarrow> (string \<times> tx_intent option) list \<Rightarrow> string list \<Rightarrow> string list proc" where
  "recover_intents E [] recovered = ret recovered"
| "recover_intents E ((name, content) # rest) recovered =
     (case content of
        None \<Rightarrow> raise (Transaction_Error ''package transaction intent cannot be validated'')
      | Some i \<Rightarrow> seq (recover_intent E name i) (\<lambda>_. recover_intents E rest (recovered @ [ti_operation_id i])))"

fun fail_pending :: "lc_env \<Rightarrow> op_state list \<Rightarrow> string list \<Rightarrow> string list \<Rightarrow> string list proc" where
  "fail_pending E [] intents recovered = ret recovered"
| "fail_pending E (st # sts) intents recovered =
     (if starts_with (s_action st) ''package.'' \<and> s_operation_id st \<notin> set intents
      then seq (journal_fail E (s_operation_id st) ''package.interrupted_before_prepare'') (\<lambda>_.
           fail_pending E sts intents (recovered @ [s_operation_id st]))
      else fail_pending E sts intents recovered)"

definition recover_locked :: "lc_env \<Rightarrow> string list proc" where
  "recover_locked E s =
     seq (recover_intents E (dict_sorted (lc_intents s)) []) (\<lambda>intents.
     seq (journal_pending E) (\<lambda>pending.
     seq (fail_pending E pending intents intents) (\<lambda>recovered.
     ret (sort (remdups recovered))))) s"

definition ensure_roots :: "lc_env \<Rightarrow> unit proc" where
  "ensure_roots E = atomic E Make_Roots (\<lambda>s. s)"

definition recover :: "lc_env \<Rightarrow> string list proc" where
  "recover E = seq (ensure_roots E) (\<lambda>_. recover_locked E)"

definition lifecycle_records :: "lc_env \<Rightarrow> package_records proc" where
  "lifecycle_records E = seq (ensure_roots E) (\<lambda>_. seq (recover_locked E) (\<lambda>_. read_package_records E))"

subsection \<open>Checks\<close>

definition validate_graph :: "lc_env \<Rightarrow> package_records \<Rightarrow> lc_error option" where
  "validate_graph E rs =
     (case resolve_install_order (rg_spec_in (lc_reg E)) (dict_values (manifests_of rs)) (rg_core_version (lc_reg E)) [] of
        None \<Rightarrow> Some Lc_Recursion_Error
      | Some (Inl e) \<Rightarrow> Some (Transaction_Error ''package dependency graph is invalid'')
      | Some (Inr order) \<Rightarrow> None)"

definition require_record :: "package_records \<Rightarrow> string \<Rightarrow> lc_error + package_record" where
  "require_record rs p =
     (case map_of rs p of None \<Rightarrow> Inl (Transaction_Error ''package is not installed'') | Some r \<Rightarrow> Inr r)"

definition enabled_dependency_error :: "lc_env \<Rightarrow> package_records \<Rightarrow> dependency \<Rightarrow> lc_error option" where
  "enabled_dependency_error E rs d =
     (if d_optional d then None
      else case map_of rs (d_package_id d) of
        None \<Rightarrow> Some (Transaction_Error ''required package dependency is not enabled'')
      | Some target \<Rightarrow>
          if pr_status target \<noteq> PS_Enabled then Some (Transaction_Error ''required package dependency is not enabled'')
          else if \<not> version_matches (rg_spec_in (lc_reg E)) (m_version (pr_manifest target)) (d_version d)
          then Some (Transaction_Error ''required package dependency is incompatible'')
          else None)"

definition require_enabled_dependencies :: "lc_env \<Rightarrow> package_records \<Rightarrow> string \<Rightarrow> lc_error option" where
  "require_enabled_dependencies E rs p =
     (case require_record rs p of Inl e \<Rightarrow> Some e
      | Inr r \<Rightarrow> first_error (enabled_dependency_error E rs) (m_dependencies (pr_manifest r)))"

definition require_enabled_capabilities ::
  "lc_env \<Rightarrow> package_records \<Rightarrow> string option \<Rightarrow> string option \<Rightarrow> lc_error option" where
  "require_enabled_capabilities E rs enabling disabling =
     (case resolve_capabilities (rg_spec_in (lc_reg E))
         (manifests_of (filter (\<lambda>(k, r). Some k \<noteq> disabling \<and> (pr_status r = PS_Enabled \<or> Some k = enabling)) rs)) of
        Some e \<Rightarrow> Some (Transaction_Error ''required capability is not provided'') | None \<Rightarrow> None)"

definition lifecycle_dependents :: "package_records \<Rightarrow> string \<Rightarrow> bool \<Rightarrow> string list" where
  "lifecycle_dependents rs p enabled_only = sort (required_dependents rs p enabled_only)"

definition or_else :: "'e option \<Rightarrow> 'e option \<Rightarrow> 'e option" where
  "or_else a b = (case a of Some e \<Rightarrow> Some e | None \<Rightarrow> b)"

text \<open>A check that fails with a transaction error is recorded; any other exception passes through.\<close>

definition checked :: "lc_env \<Rightarrow> string \<Rightarrow> string \<Rightarrow> lc_error option \<Rightarrow> unit proc" where
  "checked E op code r =
     (case r of
        None \<Rightarrow> ret ()
      | Some (Transaction_Error m) \<Rightarrow> reject E op code (Transaction_Error m)
      | Some e \<Rightarrow> raise e)"

definition protected_packages :: "lc_env \<Rightarrow> string list" where
  "protected_packages E = ''default'' # rg_protected_ids (lc_reg E)"

definition lifecycle_result :: "string \<Rightarrow> tx_action \<Rightarrow> package_record \<Rightarrow> bool \<Rightarrow> lc_result" where
  "lifecycle_result op action r replay =
     \<lparr>lr_operation_id = op, lr_action = action, lr_package_id = m_id (pr_manifest r),
      lr_version = Some (m_version (pr_manifest r)), lr_status = Some (pr_status r), lr_replay = replay\<rparr>"

definition uninstalled_result :: "string \<Rightarrow> string \<Rightarrow> bool \<Rightarrow> lc_result" where
  "uninstalled_result op p replay =
     \<lparr>lr_operation_id = op, lr_action = Tx_Uninstall, lr_package_id = p, lr_version = None, lr_status = None, lr_replay = replay\<rparr>"

text \<open>What precedes every operation.\<close>

definition enter_operation :: "lc_env \<Rightarrow> string \<Rightarrow> tx_action \<Rightarrow> string \<Rightarrow> bool proc" where
  "enter_operation E op action target =
     seq (ensure_roots E) (\<lambda>_.
     seq (recover_locked E) (\<lambda>_.
     begin_tx E op (''package.'' @ action_value action) target))"

subsection \<open>Install and update\<close>

definition check_update :: "lc_env \<Rightarrow> string \<Rightarrow> artifact \<Rightarrow> package_record \<Rightarrow> unit proc" where
  "check_update E op a existing =
     (let p = m_id (va_manifest a) in
      if m_type (pr_manifest existing) \<noteq> m_type (va_manifest a)
      then reject E op ''package.type_changed'' (Transaction_Error ''package type cannot change during update'')
      else if lc_version_le E (m_version (va_manifest a)) (m_version (pr_manifest existing))
      then reject E op ''package.version_not_newer'' (Transaction_Error ''package update version must be newer'')
      else seq (package_path E p) (\<lambda>_ s.
        if \<not> installed_marker_is_valid p existing (lc_packages s p)
        then reject E op ''package.integrity_marker_invalid'' (Transaction_Error ''installed package integrity marker is invalid'') s
        else seq (lift (installed_signer (lc_packages s p))) (\<lambda>signer.
          if signer = va_key a \<or> lc_signer_ok E p (m_type (va_manifest a)) signer (va_key a) then ret ()
          else reject E op ''package.signer_changed''
            (Transaction_Error ''package update signer does not match the installed package'')) s))"

definition check_existing :: "lc_env \<Rightarrow> string \<Rightarrow> tx_action \<Rightarrow> artifact \<Rightarrow> package_record option \<Rightarrow> unit proc" where
  "check_existing E op action a existing =
     (if m_id (va_manifest a) \<in> set RESERVED_PACKAGE_IDS
      then reject E op ''package.reserved'' (Transaction_Error ''package id is reserved'')
      else if action = Tx_Install \<and> existing \<noteq> None
      then reject E op ''package.already_installed'' (Transaction_Error ''package is already installed'')
      else if action = Tx_Update
      then (case existing of
              None \<Rightarrow> reject E op ''package.not_installed'' (Transaction_Error ''package is not installed'')
            | Some r \<Rightarrow> check_update E op a r)
      else ret ())"

definition check_destination :: "lc_env \<Rightarrow> string \<Rightarrow> tx_action \<Rightarrow> string \<Rightarrow> unit proc" where
  "check_destination E op action p =
     seq (package_path E p) (\<lambda>_ s.
     if action = Tx_Install \<and> lc_packages s p \<noteq> None
     then reject E op ''package.files_exist'' (Transaction_Error ''package destination already exists'') s
     else if action = Tx_Update \<and> \<not> is_directory (lc_packages s p)
     then reject E op ''package.files_missing'' (Transaction_Error ''installed package files are missing'') s
     else ret () s)"

definition stage_artifact :: "lc_env \<Rightarrow> tx_intent \<Rightarrow> artifact \<Rightarrow> unit proc" where
  "stage_artifact E i a =
     seq (stage_path E i) (\<lambda>stage.
     case stage of
       None \<Rightarrow> raise (Transaction_Error ''package transaction has no staging path'')
     | Some n \<Rightarrow>
         seq (extract_stage E a n) (\<lambda>_.
         seq (write_artifact_marker E n a) (\<lambda>_.
         hook E ''stage_validator'' ''stage'')))"

definition graph_error :: "lc_env \<Rightarrow> package_records \<Rightarrow> string \<Rightarrow> package_status \<Rightarrow> lc_error option" where
  "graph_error E after p status =
     or_else (validate_graph E after)
       (if status = PS_Enabled
        then or_else (require_enabled_dependencies E after p) (require_enabled_capabilities E after None None)
        else None)"

definition updated_record :: "artifact \<Rightarrow> package_record option \<Rightarrow> package_record" where
  "updated_record a existing =
     \<lparr>pr_manifest = va_manifest a, pr_status = (case existing of None \<Rightarrow> PS_Installed | Some r \<Rightarrow> pr_status r)\<rparr>"

definition install_fresh :: "lc_env \<Rightarrow> string \<Rightarrow> tx_action \<Rightarrow> artifact \<Rightarrow> lc_result proc" where
  "install_fresh E op action a =
     (let p = m_id (va_manifest a) in
      seq (read_package_records E) (\<lambda>before.
      let existing = map_of before p; r = updated_record a existing; after = AList.update p r before;
          i = new_intent E op action p before after (Some (va_sha a)) (Some (va_key a)) True (action = Tx_Update) in
      seq (check_existing E op action a existing) (\<lambda>_.
      seq (checked E op ''package.dependency_invalid'' (graph_error E after p (pr_status r))) (\<lambda>_.
      seq (check_destination E op action p) (\<lambda>_.
      seq (persist_intent E i) (\<lambda>_.
      seq (catch (stage_artifact E i a)
             (undo_and_raise E i ''package.artifact_stage_failed'' ''package artifact staging failed and was rolled back'')) (\<lambda>_.
      seq (catch (hook E ''failure_injector'' ''after_stage'')
             (undo_and_raise E i ''package.after_stage_failed'' ''package staging failed and was rolled back'')) (\<lambda>_.
      seq (if action = Tx_Install
           then catch (hook E ''occupancy_reset'' p)
             (undo_and_raise E i ''package.occupancy_reset_failed'' ''package occupancy reset failed and was rolled back'')
           else ret ()) (\<lambda>_.
      seq (execute E i) (\<lambda>_. ret (lifecycle_result op action r False)))))))))))"

definition install_replay :: "lc_env \<Rightarrow> string \<Rightarrow> tx_action \<Rightarrow> artifact \<Rightarrow> lc_result proc" where
  "install_replay E op action a =
     (let p = m_id (va_manifest a);
          conflict = Transaction_Error (''succeeded '' @ action_value action @ '' journal conflicts with package registry'') in
      seq (read_package_records E) (\<lambda>rs.
      case map_of rs p of
        None \<Rightarrow> raise conflict
      | Some r \<Rightarrow>
          if m_version (pr_manifest r) \<noteq> m_version (va_manifest a) then raise conflict
          else seq (package_path E p) (\<lambda>_ s.
            if \<not> artifact_marker_matches (lc_packages s p) p (m_version (va_manifest a)) (va_sha a) (va_key a)
            then raise conflict s
            else ret (lifecycle_result op action r True) s)))"

definition install_or_update :: "lc_env \<Rightarrow> string \<Rightarrow> artifact \<Rightarrow> tx_action \<Rightarrow> lc_result proc" where
  "install_or_update E operation_id a action =
     seq (lift (validate_lifecycle_id operation_id)) (\<lambda>op.
     seq (enter_operation E op action (''package/'' @ m_id (va_manifest a) @ ''/'' @ va_sha a)) (\<lambda>replay.
     if replay then install_replay E op action a else install_fresh E op action a))"

definition lifecycle_install :: "lc_env \<Rightarrow> string \<Rightarrow> string \<Rightarrow> string \<Rightarrow> lc_result proc" where
  "lifecycle_install E op artifact_path signature_path =
     seq (lift (lc_verify E artifact_path signature_path)) (\<lambda>a. install_or_update E op a Tx_Install)"

definition lifecycle_update :: "lc_env \<Rightarrow> string \<Rightarrow> string \<Rightarrow> string \<Rightarrow> lc_result proc" where
  "lifecycle_update E op artifact_path signature_path =
     seq (lift (lc_verify E artifact_path signature_path)) (\<lambda>a. install_or_update E op a Tx_Update)"

subsection \<open>Enable and disable\<close>

definition check_transition :: "lc_env \<Rightarrow> string \<Rightarrow> tx_action \<Rightarrow> string \<Rightarrow> package_records \<Rightarrow> unit proc" where
  "check_transition E op action p before =
     (if action = Tx_Enable
      then checked E op ''package.dependency_not_enabled''
        (or_else (require_enabled_dependencies E before p) (require_enabled_capabilities E before (Some p) None))
      else if lifecycle_dependents before p True \<noteq> []
      then reject E op ''package.dependents'' (Transaction_Error ''enabled dependents block disable'')
      else checked E op ''package.capability_dependents'' (require_enabled_capabilities E before None (Some p)))"

definition check_installed :: "lc_env \<Rightarrow> string \<Rightarrow> string \<Rightarrow> package_records \<Rightarrow> package_record proc" where
  "check_installed E op p before =
     (case require_record before p of
        Inl e \<Rightarrow> reject E op ''package.not_installed'' e
      | Inr r \<Rightarrow> seq (package_path E p) (\<lambda>_ s.
          if \<not> installed_marker_is_valid p r (lc_packages s p)
          then reject E op ''package.integrity_marker_invalid'' (Transaction_Error ''installed package integrity marker is invalid'') s
          else ret r s))"

definition target_status :: "tx_action \<Rightarrow> package_status" where
  "target_status action = (if action = Tx_Enable then PS_Enabled else PS_Disabled)"

definition state_change_fresh :: "lc_env \<Rightarrow> string \<Rightarrow> string \<Rightarrow> tx_action \<Rightarrow> lc_result proc" where
  "state_change_fresh E op p action =
     seq (read_package_records E) (\<lambda>before.
     seq (check_installed E op p before) (\<lambda>r.
     seq (if action = Tx_Disable \<and> p \<in> set (protected_packages E)
          then reject E op ''package.protected'' (Transaction_Error ''protected package cannot be disabled'') else ret ()) (\<lambda>_.
     seq (checked E op ''package.state_rejected'' (lc_state_validator E action p r before)) (\<lambda>_.
     seq (check_transition E op action p before) (\<lambda>_.
     let r' = r\<lparr>pr_status := target_status action\<rparr>;
         i = new_intent E op action p before (AList.update p r' before) None None False False in
     seq (execute E i) (\<lambda>_. ret (lifecycle_result op action r' False)))))))"

definition state_change_replay :: "lc_env \<Rightarrow> string \<Rightarrow> string \<Rightarrow> tx_action \<Rightarrow> lc_result proc" where
  "state_change_replay E op p action =
     seq (read_package_records E) (\<lambda>rs.
     seq (lift (require_record rs p)) (\<lambda>r s.
     if pr_status r \<noteq> target_status action \<or> \<not> installed_marker_is_valid p r (lc_packages s p)
     then raise (Transaction_Error (''succeeded '' @ action_value action @ '' journal conflicts with package registry'')) s
     else ret (lifecycle_result op action r True) s))"

definition state_change :: "lc_env \<Rightarrow> string \<Rightarrow> string \<Rightarrow> tx_action \<Rightarrow> lc_result proc" where
  "state_change E operation_id package_id action =
     seq (lift (validate_lifecycle_id operation_id)) (\<lambda>op.
     seq (lift (validate_package_id E package_id)) (\<lambda>p.
     seq (enter_operation E op action (''package/'' @ p)) (\<lambda>replay.
     if replay then state_change_replay E op p action else state_change_fresh E op p action)))"

definition lifecycle_enable :: "lc_env \<Rightarrow> string \<Rightarrow> string \<Rightarrow> lc_result proc" where
  "lifecycle_enable E op p = state_change E op p Tx_Enable"

definition lifecycle_disable :: "lc_env \<Rightarrow> string \<Rightarrow> string \<Rightarrow> lc_result proc" where
  "lifecycle_disable E op p = state_change E op p Tx_Disable"

subsection \<open>Uninstall\<close>

definition uninstall_fresh :: "lc_env \<Rightarrow> string \<Rightarrow> string \<Rightarrow> lc_result proc" where
  "uninstall_fresh E op p =
     seq (read_package_records E) (\<lambda>before.
     seq (check_installed E op p before) (\<lambda>r.
     seq (if p \<in> set (protected_packages E)
          then reject E op ''package.protected'' (Transaction_Error ''protected package cannot be uninstalled'')
          else if pr_status r = PS_Enabled
          then reject E op ''package.enabled'' (Transaction_Error ''disable package before uninstall'')
          else ret ()) (\<lambda>_.
     seq (checked E op ''package.state_rejected'' (lc_state_validator E Tx_Uninstall p r before)) (\<lambda>_.
     seq (if lifecycle_dependents before p False \<noteq> []
          then reject E op ''package.dependents'' (Transaction_Error ''installed dependents block uninstall'') else ret ()) (\<lambda>_.
     seq (package_path E p) (\<lambda>_.
     seq (\<lambda>s. if \<not> is_directory (lc_packages s p)
              then reject E op ''package.files_missing'' (Transaction_Error ''installed package files are missing'') s
              else ret () s) (\<lambda>_.
     let i = new_intent E op Tx_Uninstall p before (AList.delete p before) None None False True in
     seq (catch (hook E ''occupancy_reset'' p)
            (\<lambda>_. reject E op ''package.occupancy_reset_failed'' (Transaction_Error ''package occupancy reset failed''))) (\<lambda>_.
     seq (execute E i) (\<lambda>_. ret (uninstalled_result op p False))))))))))"

definition uninstall_replay :: "lc_env \<Rightarrow> string \<Rightarrow> string \<Rightarrow> lc_result proc" where
  "uninstall_replay E op p =
     seq (read_package_records E) (\<lambda>rs.
     if map_of rs p \<noteq> None
     then raise (Transaction_Error ''succeeded uninstall journal conflicts with package registry'')
     else ret (uninstalled_result op p True))"

definition lifecycle_uninstall :: "lc_env \<Rightarrow> string \<Rightarrow> string \<Rightarrow> lc_result proc" where
  "lifecycle_uninstall E operation_id package_id =
     seq (lift (validate_lifecycle_id operation_id)) (\<lambda>op.
     seq (lift (validate_package_id E package_id)) (\<lambda>p.
     seq (enter_operation E op Tx_Uninstall (''package/'' @ p)) (\<lambda>replay.
     if replay then uninstall_replay E op p else uninstall_fresh E op p)))"

end
