(* ===== verification/Package_Lifecycle_Laws.thy ===== *)
theory Package_Lifecycle_Laws
  imports Package_Lifecycle Package_Registry_Safety Operation_Journal_Safety
begin

text \<open>
  Rules for the steps of the package manager: a triple names what holds after a normal return, after an exception
  and after a crash; and what the rollback, the commit and the recovery of an intent do to the disk.
\<close>

subsection \<open>Triples\<close>

definition hoare ::
  "(lc_disk \<Rightarrow> bool) \<Rightarrow> 'a proc \<Rightarrow> ('a \<Rightarrow> lc_disk \<Rightarrow> bool) \<Rightarrow> (lc_disk \<Rightarrow> bool) \<Rightarrow> (lc_disk \<Rightarrow> bool) \<Rightarrow> bool" where
  "hoare P m Q R K \<longleftrightarrow>
     (\<forall>s. P s \<longrightarrow> (case m s of (Done x, s') \<Rightarrow> Q x s' | (Raised e, s') \<Rightarrow> R s' | (Crashed, s') \<Rightarrow> K s'))"

lemma hoareD:
  "hoare P m Q R K \<Longrightarrow> P s \<Longrightarrow> m s = (out, s') \<Longrightarrow> case out of Done x \<Rightarrow> Q x s' | Raised e \<Rightarrow> R s' | Crashed \<Rightarrow> K s'"
  unfolding hoare_def by (cases out) fastforce+

named_theorems triple "rules that step a triple through a program"

lemma hoare_conseq:
  assumes "hoare P m Q R K" "\<And>s. P' s \<Longrightarrow> P s" "\<And>x s. Q x s \<Longrightarrow> Q' x s" "\<And>s. R s \<Longrightarrow> R' s" "\<And>s. K s \<Longrightarrow> K' s"
  shows "hoare P' m Q' R' K'"
  unfolding hoare_def
proof (intro allI impI)
  fix s assume "P' s"
  then have "case m s of (Done x, s') \<Rightarrow> Q x s' | (Raised e, s') \<Rightarrow> R s' | (Crashed, s') \<Rightarrow> K s'"
    using assms(1,2) by (simp add: hoare_def)
  then show "case m s of (Done x, s') \<Rightarrow> Q' x s' | (Raised e, s') \<Rightarrow> R' s' | (Crashed, s') \<Rightarrow> K' s'"
    using assms(3-5) by (auto split: prod.splits outcome.splits)
qed

lemma hoare_pre: "hoare P m Q R K \<Longrightarrow> (\<And>s. P' s \<Longrightarrow> P s) \<Longrightarrow> hoare P' m Q R K"
  by (simp add: hoare_def)

lemma hoare_seq [triple]:
  assumes "hoare P m A R K" "\<And>x. hoare (A x) (k x) Q R K"
  shows "hoare P (seq m k) Q R K"
  using assms unfolding hoare_def seq_def by (fastforce split: prod.splits outcome.splits)

lemma hoare_catch [triple]:
  assumes "hoare P m Q A K" "\<And>e. hoare A (h e) Q R K"
  shows "hoare P (catch m h) Q R K"
  using assms unfolding hoare_def catch_def by (fastforce split: prod.splits outcome.splits)

lemma hoare_ret [triple]: "(\<And>s. P s \<Longrightarrow> Q x s) \<Longrightarrow> hoare P (ret x) Q R K"
  by (simp add: hoare_def ret_def)

lemma hoare_raise [triple]: "(\<And>s. P s \<Longrightarrow> R s) \<Longrightarrow> hoare P (raise e) Q R K"
  by (simp add: hoare_def raise_def)

lemma hoare_lift [triple]:
  "(\<And>x s. r = Inr x \<Longrightarrow> P s \<Longrightarrow> Q x s) \<Longrightarrow> (\<And>e s. r = Inl e \<Longrightarrow> P s \<Longrightarrow> R s) \<Longrightarrow> hoare P (lift r) Q R K"
  by (cases r) (simp_all add: lift_def hoare_ret hoare_raise)

lemma hoare_if [triple]:
  "(c \<Longrightarrow> hoare P m Q R K) \<Longrightarrow> (\<not> c \<Longrightarrow> hoare P m' Q R K) \<Longrightarrow> hoare P (if c then m else m') Q R K"
  by simp

lemma hoare_if_state:
  "hoare (\<lambda>s. P s \<and> c s) m Q R K \<Longrightarrow> hoare (\<lambda>s. P s \<and> \<not> c s) m' Q R K \<Longrightarrow> hoare P (\<lambda>s. if c s then m s else m' s) Q R K"
  by (simp add: hoare_def)

lemma hoare_only_if:
  "hoare (\<lambda>s. P s \<and> c s) m Q R K \<Longrightarrow> (\<And>s. P s \<Longrightarrow> \<not> c s \<Longrightarrow> Q () s) \<Longrightarrow> hoare P (only_if c m) Q R K"
  by (simp add: hoare_def only_if_def)

text \<open>Nothing happens on the disk between the steps of the clock.\<close>

definition timeless :: "(lc_disk \<Rightarrow> bool) \<Rightarrow> bool" where
  "timeless P \<longleftrightarrow> (\<forall>s n. P (s\<lparr>lc_tick := n\<rparr>) = P s)"

lemma hoare_effect:
  assumes "timeless P" "\<And>s. P s \<Longrightarrow> Q () (act s)" "\<And>s. P s \<Longrightarrow> R s \<and> K s" "\<And>s. P s \<Longrightarrow> K (act s)"
    and "(\<forall>t. lc_fault E k t \<noteq> Fault False Completed) \<or> (\<forall>s. P s \<longrightarrow> R (act s))"
    and "\<And>m t s. P s \<Longrightarrow> R (part (Directory m t) s) \<and> K (part (Directory m t) s)"
  shows "hoare P (effect E k part act) Q R K"
  unfolding hoare_def
proof (intro allI impI)
  fix s assume "P s"
  then have P: "P (s\<lparr>lc_tick := n\<rparr>)" for n using assms(1) by (simp add: timeless_def)
  show "case effect E k part act s of (Done x, s') \<Rightarrow> Q x s' | (Raised e, s') \<Rightarrow> R s' | (Crashed, s') \<Rightarrow> K s'"
  proof (cases "lc_fault E k (lc_tick s)")
    case Proceed
    then show ?thesis using assms(2) P by (simp add: effect_def)
  next
    case (Fault crash progress)
    then show ?thesis using assms(3-6) P
      by (cases progress) (auto simp: effect_def)
  qed
qed

lemma hoare_atomic:
  assumes "timeless P" "\<And>s. P s \<Longrightarrow> Q () (act s)" "\<And>s. P s \<Longrightarrow> R s \<and> K s" "\<And>s. P s \<Longrightarrow> K (act s)"
    and "(\<forall>t. lc_fault E k t \<noteq> Fault False Completed) \<or> (\<forall>s. P s \<longrightarrow> R (act s))"
  shows "hoare P (atomic E k act) Q R K"
  unfolding atomic_def using assms by (intro hoare_effect) auto

text \<open>A step that keeps an assertion whatever happens.\<close>

definition keeps_assertion :: "(lc_disk \<Rightarrow> bool) \<Rightarrow> 'a proc \<Rightarrow> bool" where
  "keeps_assertion P m \<longleftrightarrow> hoare P m (\<lambda>_. P) P P"

lemma keeps_idle: "timeless P \<Longrightarrow> keeps_assertion P (atomic E k (\<lambda>s. s))"
  unfolding keeps_assertion_def by (rule hoare_atomic) auto

lemma keeps_hook: "timeless P \<Longrightarrow> keeps_assertion P (hook E n x)"
  by (simp add: hook_def keeps_idle) (simp add: keeps_assertion_def hoare_ret)

lemma keeps_hoare: "keeps_assertion P m \<Longrightarrow> (\<And>s. P s \<Longrightarrow> R s \<and> K s) \<Longrightarrow> hoare P m (\<lambda>_. P) R K"
  unfolding keeps_assertion_def by (erule hoare_conseq) auto

subsection \<open>The journal\<close>

definition readable :: "journal_env \<Rightarrow> journal_file \<Rightarrow> bool" where
  "readable J f \<longleftrightarrow> (\<exists>evs sts. read_and_verify J f = Inr (evs, sts))"

definition recorded :: "journal_env \<Rightarrow> string \<Rightarrow> journal_file \<Rightarrow> op_status option" where
  "recorded J op f =
     (case read_and_verify J f of Inl x \<Rightarrow> None | Inr (evs, sts) \<Rightarrow> map_option s_status (map_of sts op))"

lemma journal_call_status:
  assumes "readable J f" "run_call J c f = (r, f')"
  shows "readable J f'" "op \<noteq> call_id c \<Longrightarrow> recorded J op f' = recorded J op f"
    "case r of Inl x \<Rightarrow> f' = f | Inr st \<Rightarrow> recorded J (call_id c) f' = Some (s_status st)"
    "f' = f \<or> (\<exists>st. r = Inr st)"
proof -
  obtain evs sts where read: "read_and_verify J f = Inr (evs, sts)" using assms(1) by (auto simp: readable_def)
  have "call_effect J f evs sts (call_id c) (r, f')" using run_call_effect [OF read, of c] assms(2) by simp
  then consider "f' = f" "\<forall>st. r = Inr st \<longrightarrow> map_of sts (call_id c) = Some st"
    | e st where "r = Inr st" "read_and_verify J f' = Inr (evs @ [e], AList.update (call_id c) st sts)"
    by (auto simp: call_effect_def)
  then have "readable J f' \<and> (op \<noteq> call_id c \<longrightarrow> recorded J op f' = recorded J op f)
      \<and> (case r of Inl x \<Rightarrow> f' = f | Inr st \<Rightarrow> recorded J (call_id c) f' = Some (s_status st)) \<and> (f' = f \<or> (\<exists>st. r = Inr st))"
    by cases (auto simp: readable_def recorded_def read map_of_update split: sum.splits)
  then show "readable J f'" "op \<noteq> call_id c \<Longrightarrow> recorded J op f' = recorded J op f"
    "case r of Inl x \<Rightarrow> f' = f | Inr st \<Rightarrow> recorded J (call_id c) f' = Some (s_status st)"
    "f' = f \<or> (\<exists>st. r = Inr st)" by blast+
qed

text \<open>A journal that cannot be read takes no call, and a torn line makes it so.\<close>

lemma unreadable_call: "\<not> readable J f \<Longrightarrow> \<exists>x. run_call J c f = (Inl x, f)"
proof (cases "read_and_verify J f")
  case (Inl x)
  then show ?thesis
    by (cases c) (auto simp: begin_operation_def retry_operation_def succeed_operation_def fail_operation_def finish_operation_def
        split: sum.split option.split)
qed (auto simp: readable_def)

lemma torn_unreadable:
  assumes "torn_append n f f' \<noteq> f" shows "\<not> readable J (torn_append n f f')"
proof -
  obtain ls m where t: "torn_append n f f' = Some (ls @ [\<lparr>l_bytes = m, l_complete = False, l_event = None\<rparr>])"
    using assms by (auto simp: torn_append_def split: option.splits if_splits)
  have "verify_lines J evs sts (xs @ [\<lparr>l_bytes = m, l_complete = False, l_event = None\<rparr>]) \<noteq> Inr r" for evs sts xs r
    by (induction xs arbitrary: evs sts) (auto simp: verify_line_def split: sum.split)
  then show ?thesis unfolding t by (simp add: readable_def read_and_verify_def)
qed

lemma record_event_answer: "record_event J e st f = (Inr x, f') \<Longrightarrow> x = st"
  by (auto simp: record_event_def append_line_def Let_def split: if_splits)

lemma finish_answer: "finish_operation J t op status err at f = (Inr st, f') \<Longrightarrow> s_status st = status"
  by (auto simp: finish_operation_def Let_def terminal_state_def
      split: sum.splits option.splits if_splits dest!: record_event_answer)

lemma retry_answer: "retry_operation J t op at f = (Inr st, f') \<Longrightarrow> s_status st = Started"
  by (auto simp: retry_operation_def Let_def initial_state_def split: sum.splits option.splits if_splits dest!: record_event_answer)

text \<open>Assertions on the files, that the journal does not change.\<close>

definition on_files :: "(lc_disk \<Rightarrow> bool) \<Rightarrow> bool" where
  "on_files F \<longleftrightarrow> (\<forall>s f n. F (s\<lparr>lc_journal := f\<rparr>) = F s \<and> F (s\<lparr>lc_tick := n\<rparr>) = F s)"

text \<open>What is known of the status of an operation holds as long as the journal can be read.\<close>

definition with_journal :: "lc_env \<Rightarrow> (lc_disk \<Rightarrow> bool) \<Rightarrow> string \<Rightarrow> op_status option set \<Rightarrow> lc_disk \<Rightarrow> bool" where
  "with_journal E F op A s \<longleftrightarrow> F s \<and> (readable (lc_jenv E) (lc_journal s) \<longrightarrow> recorded (lc_jenv E) op (lc_journal s) \<in> A)"

lemma with_journal_mono: "with_journal E F op A s \<Longrightarrow> (F s \<Longrightarrow> G s) \<Longrightarrow> A \<subseteq> B \<Longrightarrow> with_journal E G op B s"
  by (auto simp: with_journal_def)

lemma timeless_journal: "on_files F \<Longrightarrow> timeless (with_journal E F op A)"
  by (auto simp: timeless_def on_files_def with_journal_def)

lemma journal_op_triple:
  assumes F: "on_files F" and c: "\<And>t f. call (lc_jenv E) t f = run_call (lc_jenv E) (c t) f" "\<And>t. call_id (c t) = k"
    and T: "\<And>t f st f'. call (lc_jenv E) t f = (Inr st, f') \<Longrightarrow> s_status st \<in> T"
  shows "hoare (with_journal E F op A) (journal_op E call)
     (\<lambda>st s. with_journal E F op (if op = k then {Some (s_status st)} else A) s \<and> s_status st \<in> T)
     (with_journal E F op (A \<union> (if op = k then Some ` T else {}))) (with_journal E F op (A \<union> (if op = k then Some ` T else {})))"
  unfolding hoare_def
proof (intro allI impI)
  fix s assume P: "with_journal E F op A s"
  let ?n = "lc_tick s"
  obtain r f where call: "call (lc_jenv E) (lc_time E ?n) (lc_journal s) = (r, f)" by fastforce
  have Ff: "F (s\<lparr>lc_journal := f', lc_tick := n\<rparr>)" "F (s\<lparr>lc_tick := n, lc_journal := f'\<rparr>)" "F (s\<lparr>lc_tick := n\<rparr>)" for f' n
    using F P by (simp_all add: on_files_def with_journal_def)
  let ?X = "with_journal E F op (A \<union> (if op = k then Some ` T else {}))"
  have old: "with_journal E F op (A \<union> X) (s\<lparr>lc_tick := Suc ?n\<rparr>)" for X
    using P Ff by (auto simp: with_journal_def)
  have ans: "s_status x \<in> T" if "r = Inr x" for x using T call that by blast
  have torn: "?X (s\<lparr>lc_tick := Suc ?n, lc_journal := torn_append m (lc_journal s) f\<rparr>)" for m
  proof (cases "torn_append m (lc_journal s) f = lc_journal s")
    case True
    then show ?thesis using old [of "if op = k then Some ` T else {}"] by simp
  next
    case False
    then show ?thesis using Ff torn_unreadable [OF False, of "lc_jenv E"] by (simp add: with_journal_def)
  qed
  have new: "?X (s\<lparr>lc_tick := Suc ?n, lc_journal := f\<rparr>)
      \<and> (\<forall>x. r = Inr x \<longrightarrow> with_journal E F op (if op = k then {Some (s_status x)} else A) (s\<lparr>lc_tick := Suc ?n, lc_journal := f\<rparr>))"
  proof (cases "readable (lc_jenv E) (lc_journal s)")
    case True
    note st = journal_call_status [OF True call [unfolded c(1)], unfolded c(2)]
    have A: "recorded (lc_jenv E) op (lc_journal s) \<in> A" using P True by (simp add: with_journal_def)
    have "recorded (lc_jenv E) op f \<in> A \<union> (if op = k then Some ` T else {})"
      using st(2) st(3,4) ans A by (cases r; cases "op = k") auto
    moreover have "recorded (lc_jenv E) op f \<in> (if op = k then {Some (s_status x)} else A)" if "r = Inr x" for x
      using st(2,3) A that by (cases "op = k") auto
    ultimately show ?thesis using Ff by (simp add: with_journal_def)
  next
    case False
    then obtain x where "r = Inl x" "f = lc_journal s" using unreadable_call [OF False, of "c (lc_time E ?n)"] call c(1) by auto
    then show ?thesis using old [of "if op = k then Some ` T else {}"] by simp
  qed
  show "case journal_op E call s of
      (Done x, s') \<Rightarrow> with_journal E F op (if op = k then {Some (s_status x)} else A) s' \<and> s_status x \<in> T
    | (Raised e, s') \<Rightarrow> ?X s' | (Crashed, s') \<Rightarrow> ?X s'"
  proof (cases "lc_fault E Journal_Append ?n")
    case Proceed
    then show ?thesis using call old new ans by (cases r) (simp_all add: journal_op_def)
  next
    case (Fault crash progress)
    then show ?thesis using call old new torn by (cases progress) (simp_all add: journal_op_def)
  qed
qed

text \<open>The four calls, for the operation they are about and for the others.\<close>

lemma succeed_triple:
  assumes "on_files F"
  shows "hoare (with_journal E F op A) (journal_succeed E op)
     (\<lambda>_. with_journal E F op {Some Succeeded}) (with_journal E F op (A \<union> {Some Succeeded})) (with_journal E F op (A \<union> {Some Succeeded}))"
  unfolding journal_succeed_def
proof (rule hoare_conseq)
  show "hoare (with_journal E F op A) (journal_op E (\<lambda>J t. succeed_operation J t op None))
     (\<lambda>st s. with_journal E F op (if op = op then {Some (s_status st)} else A) s \<and> s_status st \<in> {Succeeded})
     (with_journal E F op (A \<union> (if op = op then Some ` {Succeeded} else {}))) (with_journal E F op (A \<union> (if op = op then Some ` {Succeeded} else {})))"
    by (rule journal_op_triple [OF assms, where c = "\<lambda>t. Succeed t op None"]) (auto simp: succeed_operation_def dest: finish_answer)
qed auto

lemma fail_triple:
  assumes "on_files F"
  shows "hoare (with_journal E F op A) (journal_fail E k code)
     (\<lambda>_. with_journal E F op (if op = k then {Some Failed} else A))
     (with_journal E F op (A \<union> (if op = k then {Some Failed} else {}))) (with_journal E F op (A \<union> (if op = k then {Some Failed} else {})))"
  unfolding journal_fail_def
proof (rule hoare_conseq)
  show "hoare (with_journal E F op A) (journal_op E (\<lambda>J t. fail_operation J t k code None))
     (\<lambda>st s. with_journal E F op (if op = k then {Some (s_status st)} else A) s \<and> s_status st \<in> {Failed})
     (with_journal E F op (A \<union> (if op = k then Some ` {Failed} else {}))) (with_journal E F op (A \<union> (if op = k then Some ` {Failed} else {})))"
    by (rule journal_op_triple [OF assms, where c = "\<lambda>t. Fail t k code None"])
      (auto simp: fail_operation_def dest: finish_answer split: sum.splits)
qed (auto split: if_splits)

lemma retry_triple:
  assumes "on_files F"
  shows "hoare (with_journal E F op A) (journal_retry E op)
     (\<lambda>_. with_journal E F op {Some Started}) (with_journal E F op (A \<union> {Some Started})) (with_journal E F op (A \<union> {Some Started}))"
  unfolding journal_retry_def
proof (rule hoare_conseq)
  show "hoare (with_journal E F op A) (journal_op E (\<lambda>J t. retry_operation J t op None))
     (\<lambda>st s. with_journal E F op (if op = op then {Some (s_status st)} else A) s \<and> s_status st \<in> {Started})
     (with_journal E F op (A \<union> (if op = op then Some ` {Started} else {}))) (with_journal E F op (A \<union> (if op = op then Some ` {Started} else {})))"
    by (rule journal_op_triple [OF assms, where c = "\<lambda>t. Retry t op None"]) (auto dest: retry_answer)
qed auto

lemma begin_triple:
  assumes "on_files F"
  shows "hoare (with_journal E F op A) (journal_begin E op action target)
     (\<lambda>st. with_journal E F op {Some (s_status st)}) (with_journal E F op UNIV) (with_journal E F op UNIV)"
  unfolding journal_begin_def
proof (rule hoare_conseq)
  show "hoare (with_journal E F op A) (journal_op E (\<lambda>J t. begin_operation J t op action target None))
     (\<lambda>st s. with_journal E F op (if op = op then {Some (s_status st)} else A) s \<and> s_status st \<in> UNIV)
     (with_journal E F op (A \<union> (if op = op then Some ` UNIV else {}))) (with_journal E F op (A \<union> (if op = op then Some ` UNIV else {})))"
    by (rule journal_op_triple [OF assms, where c = "\<lambda>t. Begin t op action target None"]) auto
qed (auto simp: with_journal_def)

lemma state_triple:
  "hoare (with_journal E F op A) (journal_state E k) (\<lambda>st s. with_journal E F op A s \<and> recorded (lc_jenv E) k (lc_journal s) = map_option s_status st)
     (with_journal E F op A) (with_journal E F op A)"
  by (auto simp: hoare_def journal_state_def operation_state_def recorded_def with_journal_def split: sum.splits)

lemma mark_failed_triple:
  assumes F: "on_files F"
  shows "hoare (with_journal E F op A) (mark_failed E k code)
     (\<lambda>_. with_journal E F op (A \<union> (if op = k then {Some Failed} else {})))
     (with_journal E F op (A \<union> (if op = k then {Some Failed} else {}))) (with_journal E F op (A \<union> (if op = k then {Some Failed} else {})))"
  unfolding mark_failed_def
proof (rule hoare_seq)
  show "hoare (with_journal E F op A) (journal_state E k) (\<lambda>_. with_journal E F op A)
      (with_journal E F op (A \<union> (if op = k then {Some Failed} else {}))) (with_journal E F op (A \<union> (if op = k then {Some Failed} else {})))"
    by (rule hoare_conseq [OF state_triple]) (auto simp: with_journal_def)
  fix st
  show "hoare (with_journal E F op A)
      (if case st of None \<Rightarrow> False | Some x \<Rightarrow> s_status x = Started then seq (journal_fail E k code) (\<lambda>_. ret ()) else ret ())
      (\<lambda>_. with_journal E F op (A \<union> (if op = k then {Some Failed} else {})))
      (with_journal E F op (A \<union> (if op = k then {Some Failed} else {}))) (with_journal E F op (A \<union> (if op = k then {Some Failed} else {})))"
    by (intro hoare_if hoare_seq [OF fail_triple [OF F]] hoare_ret) (auto simp: with_journal_def split: if_splits)
qed

text \<open>A step on the files.\<close>

lemma file_effect:
  assumes F: "on_files F" and j: "\<And>s. lc_journal (act s) = lc_journal s" "\<And>e s. lc_journal (part e s) = lc_journal s"
    and "\<And>s. F s \<Longrightarrow> G (act s)" "\<And>s. F s \<Longrightarrow> H s" "\<And>s. F s \<Longrightarrow> H (act s)" "\<And>e s. F s \<Longrightarrow> H (part e s)"
  shows "hoare (with_journal E F op A) (effect E k part act) (\<lambda>_. with_journal E G op A) (with_journal E H op A) (with_journal E H op A)"
  using assms(2-) by (intro hoare_effect timeless_journal [OF F]) (auto simp: with_journal_def)

lemma file_step:
  assumes "on_files F" "\<And>s. lc_journal (act s) = lc_journal s"
    and "\<And>s. F s \<Longrightarrow> G (act s)" "\<And>s. F s \<Longrightarrow> H s" "\<And>s. F s \<Longrightarrow> H (act s)"
  shows "hoare (with_journal E F op A) (atomic E k act) (\<lambda>_. with_journal E G op A) (with_journal E H op A) (with_journal E H op A)"
  unfolding atomic_def using assms by (intro file_effect) auto

lemma hook_triple:
  "on_files F \<Longrightarrow> (\<And>s. F s \<Longrightarrow> H s) \<Longrightarrow>
     hoare (with_journal E F op A) (hook E n x) (\<lambda>_. with_journal E F op A) (with_journal E H op A) (with_journal E H op A)"
  by (intro keeps_hoare keeps_hook timeless_journal) (auto simp: with_journal_def)

lemma only_if_triple:
  assumes "hoare (with_journal E (\<lambda>s. F s \<and> c s) op A) m Q R K" "\<And>s. with_journal E F op A s \<Longrightarrow> \<not> c s \<Longrightarrow> Q () s"
  shows "hoare (with_journal E F op A) (only_if c m) Q R K"
  by (rule hoare_only_if) (use assms in \<open>auto intro: hoare_pre simp: with_journal_def\<close>)

subsection \<open>What the disk holds\<close>

definition intent_name :: "lc_env \<Rightarrow> tx_intent \<Rightarrow> string" where
  "intent_name E i = lc_token E (ti_operation_id i) @ ''.json''"

definition name_prefix :: "lc_env \<Rightarrow> tx_intent \<Rightarrow> string" where
  "name_prefix E i = ti_package_id i @ ''-'' @ take 24 (lc_token E (ti_operation_id i))"

definition registry_is :: "lc_env \<Rightarrow> (string \<Rightarrow> package_record option) \<Rightarrow> lc_disk \<Rightarrow> bool" where
  "registry_is E rs s \<longleftrightarrow> (\<exists>d. read_registry (lc_reg E) (lc_registry s) = Inr d \<and> keyed d \<and> map_of d = rs)"

text \<open>The directory an install or update leaves: its marker is that of the artifact of the intent.\<close>

definition package_of :: "tx_intent \<Rightarrow> (string \<Rightarrow> package_record option) \<Rightarrow> tree_entry \<Rightarrow> bool" where
  "package_of i rs e \<longleftrightarrow>
     (\<exists>r sha key. rs (ti_package_id i) = Some r \<and> ti_sha i = Some sha \<and> ti_key i = Some key \<and> is_directory (Some e)
        \<and> artifact_marker_matches (Some e) (ti_package_id i) (m_version (pr_manifest r)) sha key)"

text \<open>An intent leads from the installation \<open>rs, pk\<close> to \<open>rs', pk'\<close>.\<close>

definition tx_intent_ok ::
  "lc_env \<Rightarrow> tx_intent \<Rightarrow> (string \<Rightarrow> package_record option) \<Rightarrow> (string \<Rightarrow> tree_entry option)
    \<Rightarrow> (string \<Rightarrow> package_record option) \<Rightarrow> (string \<Rightarrow> tree_entry option) \<Rightarrow> bool" where
  "tx_intent_ok E i rs pk rs' pk' \<longleftrightarrow>
     fullmatch lifecycle_id_pattern (ti_operation_id i) \<and> lc_id_ok E (ti_package_id i)
     \<and> ti_stage i = (if ti_action i \<in> {Tx_Install, Tx_Update} then Some (name_prefix E i @ ''.stage'') else None)
     \<and> ti_backup i = (if ti_action i \<in> {Tx_Update, Tx_Uninstall} then Some (name_prefix E i @ ''.backup'') else None)
     \<and> keyed (ti_before i) \<and> map_of (ti_before i) = rs \<and> keyed (ti_after i) \<and> map_of (ti_after i) = rs'
     \<and> (case ti_action i of
          Tx_Install \<Rightarrow> rs (ti_package_id i) = None \<and> pk (ti_package_id i) = None
            \<and> (\<exists>e. pk' = pk(ti_package_id i \<mapsto> e) \<and> package_of i rs' e)
        | Tx_Update \<Rightarrow> is_directory (pk (ti_package_id i)) \<and> (\<exists>e. pk' = pk(ti_package_id i \<mapsto> e) \<and> package_of i rs' e)
        | Tx_Uninstall \<Rightarrow> is_directory (pk (ti_package_id i)) \<and> pk' = pk(ti_package_id i := None)
        | _ \<Rightarrow> pk' = pk)"

definition holds_intent :: "lc_env \<Rightarrow> tx_intent \<Rightarrow> tx_phase set \<Rightarrow> lc_disk \<Rightarrow> bool" where
  "holds_intent E i C s \<longleftrightarrow> (\<exists>ph\<in>C. lc_intents s = [(intent_name E i, Some (i\<lparr>ti_phase := ph\<rparr>))])"

text \<open>No transaction is open.\<close>

definition settled_files where
  "settled_files E rs pk s \<longleftrightarrow>
     registry_is E rs s \<and> lc_packages s = pk \<and> lc_stages s = Map.empty \<and> lc_backups s = Map.empty \<and> lc_intents s = []"

text \<open>
  The files can be put back: the old directory is in place, or it is the backup. \<open>C\<close> are the phases the intent on disk
  may have, \<open>W\<close> what the registry file may be.
\<close>

definition undoable_at where
  "undoable_at C W E i pk s \<longleftrightarrow>
     holds_intent E i C s \<and> W (lc_registry s)
     \<and> (\<forall>q. q \<noteq> ti_package_id i \<longrightarrow> lc_packages s q = pk q)
     \<and> (\<forall>n. Some n \<noteq> ti_stage i \<longrightarrow> lc_stages s n = None) \<and> (\<forall>n. Some n \<noteq> ti_backup i \<longrightarrow> lc_backups s n = None)
     \<and> (ti_action i \<in> {Tx_Enable, Tx_Disable} \<longrightarrow> lc_packages s (ti_package_id i) = pk (ti_package_id i))
     \<and> (ti_action i \<in> {Tx_Update, Tx_Uninstall} \<longrightarrow>
          lc_packages s (ti_package_id i) = pk (ti_package_id i) \<and> lc_backups s (the (ti_backup i)) = None
          \<or> lc_backups s (the (ti_backup i)) = pk (ti_package_id i))"

abbreviation undoable_files where
  "undoable_files \<equiv> undoable_at (- {Committed}) (\<lambda>_. True)"

definition rolled_files where
  "rolled_files E i rs pk s \<longleftrightarrow>
     holds_intent E i (- {Committed}) s \<and> registry_is E rs s \<and> lc_packages s = pk
     \<and> lc_stages s = Map.empty \<and> lc_backups s = Map.empty"

definition committed_files where
  "committed_files E i rs pk s \<longleftrightarrow>
     holds_intent E i {Committed} s \<and> registry_is E rs s \<and> lc_packages s = pk
     \<and> (\<forall>n. Some n \<noteq> ti_stage i \<longrightarrow> lc_stages s n = None) \<and> (\<forall>n. Some n \<noteq> ti_backup i \<longrightarrow> lc_backups s n = None)"

lemmas disk_defs = settled_files_def undoable_at_def rolled_files_def committed_files_def holds_intent_def registry_is_def

lemma disk_on_files:
  "on_files (settled_files E rs pk)" "on_files (undoable_at C W E i pk)" "on_files (rolled_files E i rs pk)"
  "on_files (committed_files E i rs pk)" "on_files (registry_is E rs)"
  by (simp_all add: on_files_def disk_defs)

lemma on_files_conj: "on_files F \<Longrightarrow> on_files G \<Longrightarrow> on_files (\<lambda>s. F s \<and> G s)"
  by (simp add: on_files_def)

subsection \<open>Rolling back\<close>

lemma intent_ok_phase [simp]: "tx_intent_ok E (i\<lparr>ti_phase := ph\<rparr>) rs pk rs' pk' = tx_intent_ok E i rs pk rs' pk'"
  by (cases "ti_action i") (simp_all add: tx_intent_ok_def name_prefix_def package_of_def)

lemma name_phase [simp]: "intent_name E (i\<lparr>ti_phase := ph\<rparr>) = intent_name E i" "name_prefix E (i\<lparr>ti_phase := ph\<rparr>) = name_prefix E i"
  by (simp_all add: intent_name_def name_prefix_def)

lemma is_directory_some: "is_directory e \<Longrightarrow> \<exists>x. e = Some x"
  by (cases e) (simp_all add: is_directory_def)

lemma paths_ok:
  assumes "tx_intent_ok E i rs pk rs' pk'"
  shows "package_path E (ti_package_id i) = ret (ti_package_id i)" "stage_path E (i\<lparr>ti_phase := ph\<rparr>) = ret (ti_stage i)"
    "backup_path E (i\<lparr>ti_phase := ph\<rparr>) = ret (ti_backup i)" "lift (intent_path E (ti_operation_id i)) = ret (intent_name E i)"
  using assms
  by (simp_all add: tx_intent_ok_def package_path_def validate_package_id_def lift_def stage_path_def backup_path_def
      transaction_path_def transaction_prefix_def intent_path_def validate_lifecycle_id_def intent_name_def name_prefix_def)

lemma seq_ret [simp]: "seq (ret x) k = k x"
  by (simp add: seq_def ret_def fun_eq_iff)

lemma write_intent_step:
  assumes "tx_intent_ok E i rs pk rs' pk'"
  shows "write_intent E (i\<lparr>ti_phase := ph\<rparr>) =
    atomic E (Intent_Write ph) (\<lambda>s. s\<lparr>lc_intents := AList.update (intent_name E i) (Some (i\<lparr>ti_phase := ph\<rparr>)) (lc_intents s)\<rparr>)"
  using paths_ok(4) [OF assms] by (simp add: write_intent_def)

lemma undo_files_triple:
  assumes ok: "tx_intent_ok E i rs pk rs' pk'"
  shows "hoare (with_journal E (undoable_at C W E i pk) op A) (undo_files E (i\<lparr>ti_phase := ph\<rparr>) (ti_backup i))
     (\<lambda>_. with_journal E (\<lambda>s. undoable_at C W E i pk s \<and> lc_packages s = pk \<and> lc_backups s = Map.empty) op A)
     (with_journal E (undoable_at C W E i pk) op A) (with_journal E (undoable_at C W E i pk) op A)" (is "hoare ?U _ (\<lambda>_. ?D) _ _")
proof -
  let ?p = "ti_package_id i" and ?b = "the (ti_backup i)"
  have F: "on_files (\<lambda>s. undoable_at C W E i pk s \<and> c s)" if "on_files c" for c
    using disk_on_files(2) that by (rule on_files_conj)
  have here: "lc_packages s = pk" if "\<And>q. q \<noteq> ?p \<Longrightarrow> lc_packages s q = pk q" "lc_packages s ?p = pk ?p" for s
    using that by (intro ext) metis
  consider (install) "ti_action i = Tx_Install" | (moved) "ti_action i \<in> {Tx_Update, Tx_Uninstall}" | (same) "ti_action i \<in> {Tx_Enable, Tx_Disable}"
    by (cases "ti_action i") auto
  then show ?thesis
  proof cases
    case install
    then have i: "rs ?p = None" "pk ?p = None" "ti_backup i = None" "map_of (ti_before i) ?p = None"
      using ok by (auto simp: tx_intent_ok_def)
    have undone: "?D s" if "?U s" "lc_packages s ?p = None" for s
      using that here [of s] i by (auto simp: with_journal_def undoable_at_def)
    have "hoare (with_journal E (\<lambda>s. undoable_at C W E i pk s \<and> (map_of (ti_before i) ?p = None \<and> exists_in lc_packages ?p s)) op A)
      (remove_package E ?p) (\<lambda>_. ?D) ?U ?U"
      unfolding remove_package_def
      by (rule file_effect [OF F])
        (use install i in \<open>auto simp: on_files_def exists_in_def undoable_at_def holds_intent_def fun_eq_iff\<close>)
    moreover have "undo_files E (i\<lparr>ti_phase := ph\<rparr>) (ti_backup i) =
        only_if (\<lambda>s. map_of (ti_before i) ?p = None \<and> exists_in lc_packages ?p s) (remove_package E ?p)"
      using install by (simp add: undo_files_def Let_def)
    ultimately show ?thesis
      using undone i(4) by (auto simp: exists_in_def intro!: only_if_triple)
  next
    case moved
    then have i: "ti_backup i = Some ?b" "pk ?p \<noteq> None"
      using ok is_directory_some by (auto simp: tx_intent_ok_def split: tx_action.splits)
    have nb: "n \<noteq> ?b \<Longrightarrow> Some n \<noteq> ti_backup i" for n using i(1) by (metis option.sel)
    have moved_back: "hoare (with_journal E (\<lambda>s. undoable_at C W E i pk s \<and> lc_backups s ?b = pk ?p) op A) (backup_to_package E ?b ?p)
        (\<lambda>_. ?D) ?U ?U"
      unfolding backup_to_package_def
      by (rule file_step [OF F])
        (use moved i nb in \<open>auto simp: on_files_def undoable_at_def holds_intent_def fun_eq_iff\<close>)
    have "hoare (with_journal E (\<lambda>s. (undoable_at C W E i pk s \<and> lc_backups s ?b = pk ?p) \<and> exists_in lc_packages ?p s) op A)
        (remove_package E ?p) (\<lambda>_. with_journal E (\<lambda>s. undoable_at C W E i pk s \<and> lc_backups s ?b = pk ?p) op A) ?U ?U"
      unfolding remove_package_def
      by (rule file_effect) (use moved i in \<open>auto simp: on_files_def disk_defs exists_in_def\<close>)
    then have "hoare (with_journal E (\<lambda>s. undoable_at C W E i pk s \<and> lc_backups s ?b = pk ?p) op A)
        (seq (only_if (exists_in lc_packages ?p) (remove_package E ?p)) (\<lambda>_. backup_to_package E ?b ?p)) (\<lambda>_. ?D) ?U ?U"
      using moved_back by (intro hoare_seq [OF only_if_triple]) auto
    then have r: "hoare (with_journal E (\<lambda>s. undoable_at C W E i pk s \<and> exists_in lc_backups ?b s) op A)
        (seq (only_if (exists_in lc_packages ?p) (remove_package E ?p)) (\<lambda>_. backup_to_package E ?b ?p)) (\<lambda>_. ?D) ?U ?U"
      by (rule hoare_pre) (use moved in \<open>auto simp: with_journal_def undoable_at_def exists_in_def\<close>)
    have "?D s" if "?U s" "\<not> exists_in lc_backups ?b s" for s
    proof -
      have "lc_packages s ?p = pk ?p" "lc_backups s ?b = None"
        using that moved i by (auto simp: with_journal_def undoable_at_def exists_in_def)
      moreover have "lc_backups s n = None" for n
        using calculation(2) that(1) nb [of n] by (cases "n = ?b") (auto simp: with_journal_def undoable_at_def)
      ultimately show ?thesis using that(1) here [of s] by (auto simp: with_journal_def undoable_at_def)
    qed
    then show ?thesis using moved i(1) r
      by (auto simp: undo_files_def Let_def intro!: only_if_triple split: option.split)
  next
    case same
    then have "ti_backup i = None" using ok by (auto simp: tx_intent_ok_def)
    then have "?D s" if "?U s" for s
      using that here [of s] same by (auto simp: with_journal_def undoable_at_def fun_eq_iff)
    then show ?thesis using same by (auto simp: undo_files_def Let_def intro!: hoare_ret)
  qed
qed

lemma remove_stage_triple:
  assumes F: "on_files F"
    and n: "\<And>n e s. stage = Some n \<Longrightarrow> F s \<Longrightarrow> lc_stages s n \<noteq> None \<Longrightarrow> F (s\<lparr>lc_stages := (lc_stages s)(n := e)\<rparr>)"
  shows "hoare (with_journal E F op A) (remove_stage_of E stage)
     (\<lambda>_. with_journal E (\<lambda>s. F s \<and> (\<forall>n. stage = Some n \<longrightarrow> lc_stages s n = None)) op A) (with_journal E F op A) (with_journal E F op A)"
proof (cases stage)
  case None
  then show ?thesis by (auto simp: remove_stage_of_def with_journal_def intro!: hoare_ret)
next
  case (Some k)
  have G: "on_files (\<lambda>s. F s \<and> exists_in lc_stages k s)"
    using F by (rule on_files_conj) (simp add: on_files_def exists_in_def)
  have "hoare (with_journal E (\<lambda>s. F s \<and> exists_in lc_stages k s) op A) (remove_stage E k)
     (\<lambda>_. with_journal E (\<lambda>s. F s \<and> (\<forall>n. stage = Some n \<longrightarrow> lc_stages s n = None)) op A) (with_journal E F op A) (with_journal E F op A)"
    unfolding remove_stage_def by (rule file_effect [OF G]) (use n Some in \<open>auto simp: exists_in_def\<close>)
  then show ?thesis using Some
    by (auto simp: remove_stage_of_def with_journal_def exists_in_def intro!: only_if_triple)
qed

lemma remove_backup_triple:
  assumes F: "on_files F" and n: "\<And>n e s. backup = Some n \<Longrightarrow> F s \<Longrightarrow> F (s\<lparr>lc_backups := (lc_backups s)(n := e)\<rparr>)"
  shows "hoare (with_journal E F op A) (remove_backup_of E backup)
     (\<lambda>_. with_journal E (\<lambda>s. F s \<and> (\<forall>n. backup = Some n \<longrightarrow> lc_backups s n = None)) op A) (with_journal E F op A) (with_journal E F op A)"
proof (cases backup)
  case None
  then show ?thesis by (auto simp: remove_backup_of_def with_journal_def intro!: hoare_ret)
next
  case (Some k)
  have G: "on_files (\<lambda>s. F s \<and> exists_in lc_backups k s)"
    using F by (rule on_files_conj) (simp add: on_files_def exists_in_def)
  have "hoare (with_journal E (\<lambda>s. F s \<and> exists_in lc_backups k s) op A) (remove_backup E k)
     (\<lambda>_. with_journal E (\<lambda>s. F s \<and> (\<forall>n. backup = Some n \<longrightarrow> lc_backups s n = None)) op A) (with_journal E F op A) (with_journal E F op A)"
    unfolding remove_backup_def by (rule file_effect [OF G]) (use n Some in auto)
  then show ?thesis using Some
    by (auto simp: remove_backup_of_def with_journal_def exists_in_def intro!: only_if_triple)
qed

lemma registry_written:
  assumes "codec_ok (rg_codec (lc_reg E))" "keyed rs"
  shows "registry_is E (map_of rs) (s\<lparr>lc_registry := write_registry (lc_reg E) rs\<rparr>)"
  using read_written [OF assms] keyed_sorted [OF assms(2)] assms(2)
  by (auto simp: registry_is_def map_of_dict_sorted keyed_def)

lemma registry_is_cong [simp]:
  "registry_is E rs (s\<lparr>lc_packages := x1\<rparr>) = registry_is E rs s" "registry_is E rs (s\<lparr>lc_stages := x1\<rparr>) = registry_is E rs s"
  "registry_is E rs (s\<lparr>lc_backups := x1\<rparr>) = registry_is E rs s" "registry_is E rs (s\<lparr>lc_intents := x2\<rparr>) = registry_is E rs s"
  by (simp_all add: registry_is_def)

lemma holds_intent_cong [simp]:
  "holds_intent E i C (s\<lparr>lc_packages := x1\<rparr>) = holds_intent E i C s" "holds_intent E i C (s\<lparr>lc_stages := x1\<rparr>) = holds_intent E i C s"
  "holds_intent E i C (s\<lparr>lc_backups := x1\<rparr>) = holds_intent E i C s" "holds_intent E i C (s\<lparr>lc_registry := x2\<rparr>) = holds_intent E i C s"
  by (simp_all add: holds_intent_def)

lemma undoable_registry [simp]:
  "undoable_at C (\<lambda>_. True) E i pk (s\<lparr>lc_registry := x\<rparr>) = undoable_at C (\<lambda>_. True) E i pk s"
  by (simp add: undoable_at_def)

lemma intent_written:
  "holds_intent E i C s \<Longrightarrow> ph \<in> D \<Longrightarrow>
     holds_intent E i D (s\<lparr>lc_intents := AList.update (intent_name E i) (Some (i\<lparr>ti_phase := ph\<rparr>)) (lc_intents s)\<rparr>)"
  by (auto simp: holds_intent_def)

lemma rolled_undoable:
  assumes "tx_intent_ok E i rs pk rs' pk'" "rolled_files E i rs pk s" shows "undoable_files E i pk s"
  using assms by (auto simp: tx_intent_ok_def rolled_files_def undoable_at_def)

lemma hoare_weaken:
  assumes "hoare P m Q (with_journal E F op A) (with_journal E F op A)" "\<And>s. F s \<Longrightarrow> G s"
  shows "hoare P m Q (with_journal E G op A) (with_journal E G op A)"
  by (rule hoare_conseq [OF assms(1)]) (auto intro: with_journal_mono assms(2))

text \<open>Rolling back ends with the intent that says so; until then the intent on disk is the one it was.\<close>

lemma rollback_triple:
  assumes C: "codec_ok (rg_codec (lc_reg E))" and ok: "tx_intent_ok E i rs pk rs' pk'"
    and W: "W (write_registry (lc_reg E) (ti_before i))"
  shows "hoare (with_journal E (undoable_at C W E i pk) op A) (rollback_intent E (i\<lparr>ti_phase := ph\<rparr>))
     (\<lambda>r s. with_journal E (rolled_files E i rs pk) op A s \<and> r = i\<lparr>ti_phase := Rolled_Back\<rparr>)
     (with_journal E (\<lambda>s. undoable_at C W E i pk s \<or> undoable_files E i pk s) op A)
     (with_journal E (\<lambda>s. undoable_at C W E i pk s \<or> undoable_files E i pk s) op A)"
proof -
  let ?U = "with_journal E (\<lambda>s. undoable_at C W E i pk s \<or> undoable_files E i pk s) op A"
  let ?u = "\<lambda>s. undoable_at C W E i pk s \<and> lc_packages s = pk \<and> lc_backups s = Map.empty"
  let ?w = "\<lambda>s. (?u s \<and> lc_stages s = Map.empty) \<and> registry_is E rs s"
  have before: "keyed (ti_before i)" "map_of (ti_before i) = rs" using ok by (auto simp: tx_intent_ok_def)
  have Fu: "on_files ?u" by (auto simp: on_files_def disk_defs)
  have Fw: "on_files ?w" by (auto simp: on_files_def disk_defs)
  have undo: "hoare (with_journal E (undoable_at C W E i pk) op A) (undo_files E (i\<lparr>ti_phase := ph\<rparr>) (ti_backup i)) (\<lambda>_. with_journal E ?u op A) ?U ?U"
    by (rule hoare_weaken [OF undo_files_triple [OF ok]]) simp
  have stages: "hoare (with_journal E ?u op A) (remove_stage_of E (ti_stage i))
      (\<lambda>_. with_journal E (\<lambda>s. ?u s \<and> lc_stages s = Map.empty) op A) ?U ?U"
  proof (rule hoare_conseq [OF remove_stage_triple [OF Fu]])
    show "?u (s\<lparr>lc_stages := (lc_stages s)(n := e)\<rparr>)" if "ti_stage i = Some n" "?u s" for n e s
      using that by (auto simp: undoable_at_def)
    show "with_journal E (\<lambda>s. ?u s \<and> lc_stages s = Map.empty) op A s"
      if "with_journal E (\<lambda>s. ?u s \<and> (\<forall>n. ti_stage i = Some n \<longrightarrow> lc_stages s n = None)) op A s" for s
    proof -
      have "lc_stages s n = None" for n
        using that by (cases "ti_stage i = Some n") (auto simp: with_journal_def undoable_at_def)
      then show ?thesis using that by (auto simp: with_journal_def)
    qed
  qed (auto simp: with_journal_def)
  have records: "hoare (with_journal E (\<lambda>s. ?u s \<and> lc_stages s = Map.empty) op A) (write_records E (ti_before i))
      (\<lambda>_. with_journal E ?w op A) ?U ?U"
    unfolding write_records_def
  proof (rule file_step)
    show "on_files (\<lambda>s. ?u s \<and> lc_stages s = Map.empty)"
      using Fu by (rule on_files_conj) (simp add: on_files_def)
    show w: "?w (s\<lparr>lc_registry := write_registry (lc_reg E) (ti_before i)\<rparr>)" if "?u s \<and> lc_stages s = Map.empty" for s
      using that registry_written [OF C before(1), of s] W unfolding before(2) by (simp add: undoable_at_def)
    show "undoable_at C W E i pk (s\<lparr>lc_registry := write_registry (lc_reg E) (ti_before i)\<rparr>)
        \<or> undoable_files E i pk (s\<lparr>lc_registry := write_registry (lc_reg E) (ti_before i)\<rparr>)" if "?u s \<and> lc_stages s = Map.empty" for s
      using w [OF that] by blast
  qed auto
  have intent: "hoare (with_journal E ?w op A) (write_intent E (i\<lparr>ti_phase := Rolled_Back\<rparr>))
      (\<lambda>_. with_journal E (rolled_files E i rs pk) op A) ?U ?U"
    unfolding write_intent_step [OF ok]
  proof (rule file_step [OF Fw])
    show done_it: "rolled_files E i rs pk (s\<lparr>lc_intents := AList.update (intent_name E i) (Some (i\<lparr>ti_phase := Rolled_Back\<rparr>)) (lc_intents s)\<rparr>)"
      if "?w s" for s
      using that intent_written [of E i C s Rolled_Back "- {Committed}"] by (simp add: rolled_files_def undoable_at_def)
    show "undoable_at C W E i pk (s\<lparr>lc_intents := AList.update (intent_name E i) (Some (i\<lparr>ti_phase := Rolled_Back\<rparr>)) (lc_intents s)\<rparr>)
        \<or> undoable_files E i pk (s\<lparr>lc_intents := AList.update (intent_name E i) (Some (i\<lparr>ti_phase := Rolled_Back\<rparr>)) (lc_intents s)\<rparr>)"
      if "?w s" for s
      using rolled_undoable [OF ok done_it [OF that]] by blast
  qed auto
  have "hoare (with_journal E (undoable_at C W E i pk) op A) (seq (undo_files E (i\<lparr>ti_phase := ph\<rparr>) (ti_backup i)) (\<lambda>_. seq (remove_stage_of E (ti_stage i))
      (\<lambda>_. seq (write_records E (ti_before i)) (\<lambda>_. seq (write_intent E (i\<lparr>ti_phase := Rolled_Back\<rparr>)) (\<lambda>_. ret (i\<lparr>ti_phase := Rolled_Back\<rparr>))))))
      (\<lambda>r s. with_journal E (rolled_files E i rs pk) op A s \<and> r = i\<lparr>ti_phase := Rolled_Back\<rparr>) ?U ?U"
    by (intro hoare_seq [OF undo] hoare_seq [OF stages] hoare_seq [OF records] hoare_seq [OF intent] hoare_ret) simp
  then show ?thesis by (simp add: rollback_intent_def paths_ok [OF ok] Let_def)
qed

text \<open>Cleaning up: first the private directories, then the intent, and nothing is open any more.\<close>

definition cleanable where
  "cleanable E i rs pk s \<longleftrightarrow> rolled_files E i rs pk s \<or> committed_files E i rs pk s"

lemma cleanable_on_files: "on_files (cleanable E i rs pk)"
  using disk_on_files(3,4) by (simp add: on_files_def cleanable_def)

lemma cleanup_triple:
  assumes ok: "tx_intent_ok E i rs0 pk0 rs1 pk1" and F: "on_files F"
    and sub: "\<And>s. F s \<Longrightarrow> cleanable E i rs pk s" "\<And>s n e. F s \<Longrightarrow> ti_backup i = Some n \<Longrightarrow> lc_backups s n \<noteq> None \<Longrightarrow> F (s\<lparr>lc_backups := (lc_backups s)(n := e)\<rparr>)"
      "\<And>n e s. ti_stage i = Some n \<Longrightarrow> F s \<Longrightarrow> lc_stages s n \<noteq> None \<Longrightarrow> F (s\<lparr>lc_stages := (lc_stages s)(n := e)\<rparr>)"
  shows "hoare (with_journal E F op A) (cleanup_intent E (i\<lparr>ti_phase := ph\<rparr>)) (\<lambda>_. with_journal E (settled_files E rs pk) op A)
     (with_journal E (\<lambda>s. F s \<or> settled_files E rs pk s) op A) (with_journal E (\<lambda>s. F s \<or> settled_files E rs pk s) op A)" (is "hoare ?F _ (\<lambda>_. ?S) ?X ?X")
proof -
  let ?H = "\<lambda>s. F s \<and> lc_stages s = Map.empty"
  have H: "on_files ?H" using F by (rule on_files_conj) (simp add: on_files_def)
  have stages: "hoare ?F (remove_stage_of E (ti_stage i)) (\<lambda>_. with_journal E ?H op A) ?X ?X"
  proof (rule hoare_conseq [OF remove_stage_triple [OF F sub(3)]])
    show "with_journal E ?H op A s" if "with_journal E (\<lambda>s. F s \<and> (\<forall>n. ti_stage i = Some n \<longrightarrow> lc_stages s n = None)) op A s" for s
    proof -
      have "F s" using that by (simp add: with_journal_def)
      then have "lc_stages s n = None" if "Some n \<noteq> ti_stage i" for n
        using that sub(1) [of s] by (auto simp: cleanable_def rolled_files_def committed_files_def)
      then have "lc_stages s n = None" for n
        using that by (cases "ti_stage i = Some n") (auto simp: with_journal_def)
      then show ?thesis using that by (auto simp: with_journal_def)
    qed
  qed (auto simp: with_journal_def)
  let ?G = "\<lambda>s. ?H s \<and> lc_backups s = Map.empty"
  have G: "on_files ?G" using H by (rule on_files_conj) (simp add: on_files_def)
  have backups: "hoare (with_journal E ?H op A) (remove_backup_of E (ti_backup i)) (\<lambda>_. with_journal E ?G op A) ?X ?X"
  proof (cases "ti_backup i")
    case None
    then have "lc_backups s = Map.empty" if "F s" for s
      using sub(1) [OF that] by (auto simp: cleanable_def rolled_files_def committed_files_def)
    then show ?thesis using None by (auto simp: remove_backup_of_def with_journal_def intro!: hoare_ret)
  next
    case (Some n)
    have others: "lc_backups s m = None" if "F s" "m \<noteq> n" for s m
      using sub(1) [OF that(1)] that(2) Some by (auto simp: cleanable_def rolled_files_def committed_files_def)
    have gone: "lc_backups s = Map.empty" if "F s" "lc_backups s n = None" for s
      using others [OF that(1)] that(2) by (intro ext) metis
    have E: "on_files (\<lambda>s. ?H s \<and> exists_in lc_backups n s)"
      using H by (rule on_files_conj) (simp add: on_files_def exists_in_def)
    have "hoare (with_journal E (\<lambda>s. ?H s \<and> exists_in lc_backups n s) op A) (remove_backup E n) (\<lambda>_. with_journal E ?G op A) ?X ?X"
      unfolding remove_backup_def
    proof (rule file_effect [OF E])
      show "?G (s\<lparr>lc_backups := (lc_backups s)(n := None)\<rparr>)" if "?H s \<and> exists_in lc_backups n s" for s
        using sub(2) [of s n None] that Some others [of s] by (auto simp: exists_in_def fun_eq_iff)
    qed (use sub(2) Some in \<open>auto simp: exists_in_def\<close>)
    then show ?thesis using Some gone
      by (auto simp: remove_backup_of_def exists_in_def with_journal_def intro!: only_if_triple)
  qed
  have unlink: "hoare (with_journal E ?G op A) (unlink_intent E (i\<lparr>ti_phase := ph\<rparr>)) (\<lambda>_. ?S) ?X ?X"
  proof -
    have "settled_files E rs pk (s\<lparr>lc_intents := AList.delete (intent_name E i) (lc_intents s)\<rparr>)" if "?G s" for s
      using that sub(1) [of s] by (auto simp: cleanable_def rolled_files_def committed_files_def settled_files_def holds_intent_def)
    moreover have "unlink_intent E (i\<lparr>ti_phase := ph\<rparr>) = atomic E Intent_Unlink (\<lambda>s. s\<lparr>lc_intents := AList.delete (intent_name E i) (lc_intents s)\<rparr>)"
      using paths_ok(4) [OF ok] by (simp add: unlink_intent_def)
    ultimately show ?thesis by (simp only:) (rule file_step [OF G], auto)
  qed
  show ?thesis
    unfolding cleanup_intent_def paths_ok [OF ok] seq_ret
    by (intro hoare_seq [OF stages] hoare_seq [OF backups] unlink)
qed

text \<open>Rolled back, or on the way: the installation is the old one.\<close>

definition before_files where
  "before_files E i rs pk s \<longleftrightarrow> undoable_files E i pk s \<or> settled_files E rs pk s"

definition after_files where
  "after_files E i rs pk s \<longleftrightarrow> committed_files E i rs pk s \<or> settled_files E rs pk s"

lemma before_on_files: "on_files (before_files E i rs pk)" "on_files (after_files E i rs pk)"
  using disk_on_files by (simp_all add: on_files_def before_files_def after_files_def)

lemma undo_triple:
  assumes C: "codec_ok (rg_codec (lc_reg E))" and ok: "tx_intent_ok E i rs pk rs' pk'"
    and W: "W (write_registry (lc_reg E) (ti_before i))"
    and A: "A' = A \<union> {Some Failed}" and op: "op = ti_operation_id i"
    and f: "\<And>ph. \<exists>ph'. f (i\<lparr>ti_phase := ph\<rparr>) = i\<lparr>ti_phase := ph'\<rparr>"
    and X: "\<And>s. with_journal E (undoable_at C W E i pk) op A s \<Longrightarrow> X s" "\<And>s. with_journal E (before_files E i rs pk) op A' s \<Longrightarrow> X s"
  shows "hoare (with_journal E (undoable_at C W E i pk) op A)
     (seq (rollback_intent E (i\<lparr>ti_phase := ph\<rparr>)) (\<lambda>r. seq (mark_failed E op code) (\<lambda>_. cleanup_intent E (f r))))
     (\<lambda>_. with_journal E (settled_files E rs pk) op A') X X"
proof -
  have R: "X s" if "with_journal E (rolled_files E i rs pk) op A' s" for s
    using that rolled_undoable [OF ok] by (intro X(2)) (auto simp: with_journal_def before_files_def)
  have U: "X s" if "with_journal E (\<lambda>s. undoable_at C W E i pk s \<or> undoable_files E i pk s) op A s" for s
  proof (cases "undoable_at C W E i pk s")
    case True
    then show ?thesis using that by (intro X(1)) (auto simp: with_journal_def)
  next
    case False
    then show ?thesis using that A by (intro X(2)) (auto simp: with_journal_def before_files_def)
  qed
  have roll: "hoare (with_journal E (undoable_at C W E i pk) op A) (rollback_intent E (i\<lparr>ti_phase := ph\<rparr>))
      (\<lambda>r s. with_journal E (rolled_files E i rs pk) op A s \<and> r = i\<lparr>ti_phase := Rolled_Back\<rparr>) X X"
    by (rule hoare_conseq [OF rollback_triple [where W = W, OF C ok W]]) (use U in auto)
  have fail: "hoare (\<lambda>s. with_journal E (rolled_files E i rs pk) op A s \<and> r = i\<lparr>ti_phase := Rolled_Back\<rparr>) (mark_failed E op code)
      (\<lambda>_ s. with_journal E (rolled_files E i rs pk) op A' s \<and> r = i\<lparr>ti_phase := Rolled_Back\<rparr>) X X" for r
  proof (cases "r = i\<lparr>ti_phase := Rolled_Back\<rparr>")
    case True
    show ?thesis
      by (rule hoare_conseq [OF mark_failed_triple [OF disk_on_files(3)]]) (use R A True in auto)
  qed (simp add: hoare_def)
  have clean: "hoare (\<lambda>s. with_journal E (rolled_files E i rs pk) op A' s \<and> r = i\<lparr>ti_phase := Rolled_Back\<rparr>) (cleanup_intent E (f r))
      (\<lambda>_. with_journal E (settled_files E rs pk) op A') X X" for r
  proof (cases "r = i\<lparr>ti_phase := Rolled_Back\<rparr>")
    case True
    obtain ph' where ph': "f r = i\<lparr>ti_phase := ph'\<rparr>" using f True by blast
    have "hoare (with_journal E (rolled_files E i rs pk) op A') (cleanup_intent E (i\<lparr>ti_phase := ph'\<rparr>)) (\<lambda>_. with_journal E (settled_files E rs pk) op A')
       (with_journal E (\<lambda>s. rolled_files E i rs pk s \<or> settled_files E rs pk s) op A')
       (with_journal E (\<lambda>s. rolled_files E i rs pk s \<or> settled_files E rs pk s) op A')"
      by (rule cleanup_triple [OF ok disk_on_files(3)]) (auto simp: cleanable_def rolled_files_def)
    then show ?thesis unfolding ph'
      by (rule hoare_conseq) (use rolled_undoable [OF ok] in \<open>auto simp: with_journal_def before_files_def intro!: X(2)\<close>)
  qed (simp add: hoare_def)
  show ?thesis by (intro hoare_seq [OF roll] hoare_seq [OF fail] clean)
qed

lemma undo_and_raise_triple:
  assumes C: "codec_ok (rg_codec (lc_reg E))" and ok: "tx_intent_ok E i rs pk rs' pk'"
    and W: "W (write_registry (lc_reg E) (ti_before i))"
    and A: "A' = A \<union> {Some Failed}" and op: "op = ti_operation_id i"
    and X: "\<And>s. with_journal E (undoable_at C W E i pk) op A s \<Longrightarrow> X s" "\<And>s. with_journal E (before_files E i rs pk) op A' s \<Longrightarrow> X s"
  shows "hoare (with_journal E (undoable_at C W E i pk) op A) (undo_and_raise E i code message e) Q X X"
proof -
  have i: "i\<lparr>ti_phase := ti_phase i\<rparr> = i" by simp
  have "hoare (with_journal E (undoable_at C W E i pk) op A) (rollback_and_fail E i code)
     (\<lambda>_. with_journal E (settled_files E rs pk) op A') X X"
    unfolding rollback_and_fail_def op [symmetric]
    by (rule hoare_catch [OF undo_triple [where W = W and f = "\<lambda>r. r" and ph = "ti_phase i" and code = code, OF C ok W A op _ X, unfolded i]]) (auto intro!: hoare_raise)
  then show ?thesis unfolding undo_and_raise_def
    by (rule hoare_seq) (auto intro!: hoare_raise X(2) simp: with_journal_def before_files_def)
qed

end
