(* ===== verification/Package_Lifecycle_Commit.thy ===== *)
theory Package_Lifecycle_Commit
  imports Package_Lifecycle_Laws
begin

text \<open>
  Applying an intent up to its commit marker, finishing a committed one, and recovering whatever intent a crash
  left: the commit marker is where the new installation replaces the old one.
\<close>

subsection \<open>Applying\<close>

definition ready_files where
  "ready_files E i rs pk pk' s \<longleftrightarrow>
     undoable_files E i pk s \<and> registry_is E rs s \<and> lc_packages s = pk \<and> lc_backups s = Map.empty
     \<and> (\<forall>n. ti_stage i = Some n \<longrightarrow> lc_stages s n = pk' (ti_package_id i))"

definition moved_files where
  "moved_files E i pk pk' s \<longleftrightarrow> undoable_files E i pk s \<and> lc_packages s = pk' \<and> lc_stages s = Map.empty"

definition applied_files where
  "applied_files E i pk rs' pk' s \<longleftrightarrow> moved_files E i pk pk' s \<and> registry_is E rs' s"

lemma apply_on_files: "on_files (ready_files E i rs pk pk')" "on_files (moved_files E i pk pk')" "on_files (applied_files E i pk rs' pk')"
  using disk_on_files by (simp_all add: on_files_def ready_files_def moved_files_def applied_files_def)

lemma undoable_stages:
  "undoable_files E i pk s \<Longrightarrow> (\<And>m. m \<noteq> n \<Longrightarrow> f m = lc_stages s m) \<Longrightarrow> ti_stage i = Some n \<Longrightarrow> undoable_files E i pk (s\<lparr>lc_stages := f\<rparr>)"
  by (auto simp: undoable_at_def)

lemma apply_undoable:
  "ready_files E i rs pk pk' s \<Longrightarrow> undoable_files E i pk s" "moved_files E i pk pk' s \<Longrightarrow> undoable_files E i pk s"
  "applied_files E i pk rs' pk' s \<Longrightarrow> undoable_files E i pk s" "applied_files E i pk rs' pk' s \<Longrightarrow> moved_files E i pk pk' s"
  by (simp_all add: ready_files_def moved_files_def applied_files_def)

lemma moving_step:
  assumes "\<And>s. ready_files E i rs pk pk' s \<Longrightarrow> moved_files E i pk pk' (act s)" "\<And>s. lc_journal (act s) = lc_journal s"
  shows "hoare (with_journal E (ready_files E i rs pk pk') op A) (atomic E k act) (\<lambda>_. with_journal E (moved_files E i pk pk') op A)
     (with_journal E (undoable_files E i pk) op A) (with_journal E (undoable_files E i pk) op A)"
  by (rule file_step [OF apply_on_files(1)]) (simp_all add: assms apply_undoable(1) apply_undoable(2) [OF assms(1)])

lemma move_files_triple:
  assumes ok: "tx_intent_ok E i rs pk rs' pk'"
  shows "hoare (with_journal E (ready_files E i rs pk pk') op A) (move_files E i (ti_stage i) (ti_backup i))
     (\<lambda>_. with_journal E (moved_files E i pk pk') op A) (with_journal E (undoable_files E i pk) op A) (with_journal E (undoable_files E i pk) op A)"
proof -
  let ?p = "ti_package_id i" and ?n = "the (ti_stage i)" and ?b = "the (ti_backup i)"
  have stages: "lc_stages s m = None" if "undoable_files E i pk s" "Some m \<noteq> ti_stage i" for s m
    using that by (simp add: undoable_at_def)
  show ?thesis
  proof (cases "ti_action i")
    case Tx_Install
    then have i: "ti_stage i = Some ?n" "\<And>m. m \<noteq> ?n \<Longrightarrow> Some m \<noteq> ti_stage i" "\<And>q. q \<noteq> ?p \<Longrightarrow> pk' q = pk q"
      using ok by (auto simp: tx_intent_ok_def)
    have "moved_files E i pk pk' (s\<lparr>lc_packages := (lc_packages s)(?p := lc_stages s ?n), lc_stages := (lc_stages s)(?n := None)\<rparr>)"
      if "ready_files E i rs pk pk' s" for s
      using that i stages [of s] Tx_Install
      by (auto simp: ready_files_def moved_files_def undoable_at_def fun_eq_iff)
    then show ?thesis unfolding move_files_def Let_def stage_to_package_def Tx_Install tx_action.case
      by (intro moving_step) simp_all
  next
    case Tx_Update
    then have i: "ti_stage i = Some ?n" "\<And>m. m \<noteq> ?n \<Longrightarrow> Some m \<noteq> ti_stage i" "\<And>q. q \<noteq> ?p \<Longrightarrow> pk' q = pk q"
      "ti_backup i = Some ?b" "\<And>m. m \<noteq> ?b \<Longrightarrow> Some m \<noteq> ti_backup i"
      using ok by (auto simp: tx_intent_ok_def)
    let ?half = "\<lambda>s. undoable_files E i pk s \<and> (\<forall>q. q \<noteq> ?p \<longrightarrow> lc_packages s q = pk q) \<and> lc_backups s ?b = pk ?p \<and> lc_stages s ?n = pk' ?p"
    have H: "on_files ?half" using disk_on_files(2) by (simp add: on_files_def)
    have 1: "hoare (with_journal E (ready_files E i rs pk pk') op A) (package_to_backup E ?p ?b) (\<lambda>_. with_journal E ?half op A)
        (with_journal E (undoable_files E i pk) op A) (with_journal E (undoable_files E i pk) op A)"
      unfolding package_to_backup_def
    proof (rule file_step [OF apply_on_files(1)])
      show "?half (s\<lparr>lc_backups := (lc_backups s)(?b := lc_packages s ?p), lc_packages := (lc_packages s)(?p := None)\<rparr>)"
        if "ready_files E i rs pk pk' s" for s
        using that i Tx_Update by (auto simp: ready_files_def undoable_at_def)
      then show "undoable_files E i pk (s\<lparr>lc_backups := (lc_backups s)(?b := lc_packages s ?p), lc_packages := (lc_packages s)(?p := None)\<rparr>)"
        if "ready_files E i rs pk pk' s" for s using that by blast
    qed (auto simp: ready_files_def)
    have half: "moved_files E i pk pk' (s\<lparr>lc_packages := (lc_packages s)(?p := lc_stages s ?n), lc_stages := (lc_stages s)(?n := None)\<rparr>)"
      if "?half s" for s
      using that i stages [of s] Tx_Update by (auto simp: moved_files_def undoable_at_def fun_eq_iff)
    have 2: "hoare (with_journal E ?half op A) (stage_to_package E ?n ?p) (\<lambda>_. with_journal E (moved_files E i pk pk') op A)
        (with_journal E (undoable_files E i pk) op A) (with_journal E (undoable_files E i pk) op A)"
      unfolding stage_to_package_def by (rule file_step [OF H], simp, erule half, erule conjunct1, erule apply_undoable(2) [OF half])
    show ?thesis unfolding move_files_def Let_def Tx_Update tx_action.case by (rule hoare_seq [OF 1 2])
  next
    case Tx_Uninstall
    then have i: "ti_stage i = None" "\<And>q. q \<noteq> ?p \<Longrightarrow> pk' q = pk q" "pk' ?p = None"
      "ti_backup i = Some ?b" "\<And>m. m \<noteq> ?b \<Longrightarrow> Some m \<noteq> ti_backup i"
      using ok by (auto simp: tx_intent_ok_def)
    have "moved_files E i pk pk' (s\<lparr>lc_backups := (lc_backups s)(?b := lc_packages s ?p), lc_packages := (lc_packages s)(?p := None)\<rparr>)"
      if "ready_files E i rs pk pk' s" for s
      using that i stages [of s] Tx_Uninstall by (auto simp: ready_files_def moved_files_def undoable_at_def fun_eq_iff)
    then show ?thesis unfolding move_files_def Let_def package_to_backup_def Tx_Uninstall tx_action.case
      by (intro moving_step) simp_all
  qed (use ok stages in \<open>auto simp: move_files_def tx_intent_ok_def ready_files_def moved_files_def with_journal_def fun_eq_iff intro!: hoare_ret\<close>)
qed

lemma apply_files_triple:
  assumes ok: "tx_intent_ok E i rs pk rs' pk'"
  shows "hoare (with_journal E (ready_files E i rs pk pk') op A) (apply_files E i)
     (\<lambda>_. with_journal E (moved_files E i pk pk') op A) (with_journal E (undoable_files E i pk) op A) (with_journal E (undoable_files E i pk) op A)"
proof -
  have i: "i\<lparr>ti_phase := ti_phase i\<rparr> = i" by simp
  have "hoare (with_journal E (ready_files E i rs pk pk') op A)
      (\<lambda>s. if check_files i (ti_stage i) (ti_backup i) s then move_files E i (ti_stage i) (ti_backup i) s
         else raise (Transaction_Error ''staging postcondition failed'') s)
      (\<lambda>_. with_journal E (moved_files E i pk pk') op A) (with_journal E (undoable_files E i pk) op A) (with_journal E (undoable_files E i pk) op A)"
    by (rule hoare_if_state) (auto intro!: hoare_raise hoare_pre [OF move_files_triple [OF ok]] simp: with_journal_def ready_files_def)
  then show ?thesis
    using paths_ok(2,3) [OF ok, of "ti_phase i"] paths_ok(1) [OF ok] unfolding i apply_files_def by simp
qed

lemma kept_intent:
  assumes "ph \<noteq> Committed"
  shows "undoable_files E i pk s \<Longrightarrow> undoable_files E i pk (s\<lparr>lc_intents := AList.update (intent_name E i) (Some (i\<lparr>ti_phase := ph\<rparr>)) (lc_intents s)\<rparr>)"
  using intent_written [of E i "- {Committed}" s ph "- {Committed}"] assms by (simp add: undoable_at_def)

lemma write_phase_triple:
  assumes ok: "tx_intent_ok E i rs pk rs' pk'" and ph: "ph \<noteq> Committed"
  shows "hoare (with_journal E (moved_files E i pk pk') op A) (write_intent E (i\<lparr>ti_phase := ph\<rparr>))
     (\<lambda>_. with_journal E (moved_files E i pk pk') op A) (with_journal E (undoable_files E i pk) op A) (with_journal E (undoable_files E i pk) op A)"
    "hoare (with_journal E (applied_files E i pk rs' pk') op A) (write_intent E (i\<lparr>ti_phase := ph\<rparr>))
     (\<lambda>_. with_journal E (applied_files E i pk rs' pk') op A) (with_journal E (undoable_files E i pk) op A) (with_journal E (undoable_files E i pk) op A)"
  unfolding write_intent_step [OF ok]
  by (rule file_step; simp add: apply_on_files kept_intent [OF ph] moved_files_def applied_files_def)+

lemma migrations_triple:
  assumes ok: "tx_intent_ok E i rs pk rs' pk'" and F: "on_files F" "\<And>s. F s \<Longrightarrow> H s"
  shows "hoare (with_journal E F op A) (apply_package_migrations E i) (\<lambda>_. with_journal E F op A) (with_journal E H op A) (with_journal E H op A)"
proof -
  have "hoare (with_journal E F op A) (hook E ''migration_applier'' ''migrations'') (\<lambda>_. with_journal E F op A) (with_journal E H op A) (with_journal E H op A)"
    by (rule hook_triple [OF F])
  then show ?thesis using F(2)
    by (auto simp: apply_package_migrations_def paths_ok(1) [OF ok] with_journal_def intro!: hoare_ret hoare_raise split: option.split)
qed

lemma apply_intent_triple:
  assumes C: "codec_ok (rg_codec (lc_reg E))" and ok: "tx_intent_ok E i rs pk rs' pk'"
  shows "hoare (with_journal E (ready_files E i rs pk pk') op A) (apply_intent E i)
     (\<lambda>_. with_journal E (applied_files E i pk rs' pk') op A) (with_journal E (undoable_files E i pk) op A) (with_journal E (undoable_files E i pk) op A)"
proof -
  let ?M = "with_journal E (moved_files E i pk pk') op A" and ?U = "with_journal E (undoable_files E i pk) op A"
  let ?D = "with_journal E (applied_files E i pk rs' pk') op A"
  have files: "hoare (with_journal E (ready_files E i rs pk pk') op A)
      (if ti_action i \<in> {Tx_Install, Tx_Update, Tx_Uninstall} then apply_files E i else ret ()) (\<lambda>_. ?M) ?U ?U"
  proof (cases "ti_action i \<in> {Tx_Install, Tx_Update, Tx_Uninstall}")
    case False
    then have "moved_files E i pk pk' s" if "ready_files E i rs pk pk' s" for s
      using ok that by (cases "ti_action i") (auto simp: tx_intent_ok_def ready_files_def moved_files_def undoable_at_def fun_eq_iff)
    then show ?thesis using False by (auto simp: with_journal_def intro!: hoare_ret)
  qed (use apply_files_triple [OF ok] in simp)
  have hook1: "hoare ?M (hook E ''failure_injector'' ''after_filesystem'') (\<lambda>_. ?M) ?U ?U"
    by (rule hook_triple [OF apply_on_files(2)]) (rule apply_undoable(2))
  have migrations: "hoare ?M (if ti_action i \<in> {Tx_Install, Tx_Update} then apply_package_migrations E i else ret ()) (\<lambda>_. ?M) ?U ?U"
    by (intro hoare_if migrations_triple [OF ok apply_on_files(2)] hoare_ret) (erule apply_undoable(2))
  have after: "keyed (ti_after i)" "map_of (ti_after i) = rs'" using ok by (auto simp: tx_intent_ok_def)
  have records: "hoare ?M (write_records E (ti_after i)) (\<lambda>_. ?D) ?U ?U"
    unfolding write_records_def
  proof (rule file_step [OF apply_on_files(2)])
    show "applied_files E i pk rs' pk' (s\<lparr>lc_registry := write_registry (lc_reg E) (ti_after i)\<rparr>)" if "moved_files E i pk pk' s" for s
      using that registry_written [OF C after(1), of s] unfolding after(2) by (simp add: applied_files_def moved_files_def)
  qed (auto simp: moved_files_def)
  have hook2: "hoare ?D (hook E ''failure_injector'' ''after_registry'') (\<lambda>_. ?D) ?U ?U"
    by (rule hook_triple [OF apply_on_files(3)]) (rule apply_undoable(3))
  show ?thesis
    unfolding apply_intent_def
    by (intro hoare_seq [OF files] hoare_seq [OF write_phase_triple(1) [OF ok]] hoare_seq [OF hook1] hoare_seq [OF migrations]
        hoare_seq [OF records] hoare_seq [OF write_phase_triple(2) [OF ok]] hook2) simp_all
qed

subsection \<open>Committing\<close>

text \<open>
  A write of the commit marker that fails may have been published. Unless it never is, the code may roll back under
  an intent that is committed on disk: until the rollback has replaced the intent, the disk is stranded. It holds the
  committed intent, the registry from before or after, and the files on their way back.
\<close>

definition commit_honest :: "lc_env \<Rightarrow> bool" where
  "commit_honest E \<longleftrightarrow> (\<forall>t. lc_fault E (Intent_Write Committed) t \<noteq> Fault False Completed)"

definition registry_reads :: "lc_env \<Rightarrow> (string \<Rightarrow> package_record option) \<Rightarrow> registry_file \<Rightarrow> bool" where
  "registry_reads E rs f \<longleftrightarrow> (\<exists>d. read_registry (lc_reg E) f = Inr d \<and> keyed d \<and> map_of d = rs)"

lemma registry_is_reads: "registry_is E rs s \<longleftrightarrow> registry_reads E rs (lc_registry s)"
  by (simp add: registry_is_def registry_reads_def)

abbreviation stranded_files where
  "stranded_files E i rs pk rs' \<equiv> undoable_at {Committed} (\<lambda>f. registry_reads E rs f \<or> registry_reads E rs' f) E i pk"

text \<open>
  Every outcome of a transaction: the old installation with a failed attempt, or the new one, committed; or a
  stranded disk.
\<close>

definition decided where
  "decided E i rs pk rs' pk' s \<longleftrightarrow>
     with_journal E (before_files E i rs pk) (ti_operation_id i) {Some Started, Some Failed} s
     \<or> with_journal E (after_files E i rs' pk') (ti_operation_id i) {Some Started, Some Succeeded} s
     \<or> \<not> commit_honest E \<and> with_journal E (stranded_files E i rs pk rs') (ti_operation_id i) {Some Started} s"

lemma commit_step:
  assumes ok: "tx_intent_ok E i rs pk rs' pk'" and op: "op = ti_operation_id i"
  shows "hoare (with_journal E (applied_files E i pk rs' pk') op {Some Started}) (write_intent E (i\<lparr>ti_phase := Committed\<rparr>))
     (\<lambda>_. with_journal E (committed_files E i rs' pk') op {Some Started})
     (\<lambda>s. with_journal E (undoable_files E i pk) op {Some Started} s
        \<or> \<not> commit_honest E \<and> with_journal E (stranded_files E i rs pk rs') op {Some Started} s)
     (decided E i rs pk rs' pk')"
proof -
  let ?act = "\<lambda>s. s\<lparr>lc_intents := AList.update (intent_name E i) (Some (i\<lparr>ti_phase := Committed\<rparr>)) (lc_intents s)\<rparr>"
  let ?P = "with_journal E (applied_files E i pk rs' pk') op {Some Started}"
  let ?C = "with_journal E (committed_files E i rs' pk') op {Some Started}"
  have done_it: "?C (?act s)" if "?P s" for s
    using that intent_written [of E i "- {Committed}" s Committed "{Committed}"]
    by (auto simp: with_journal_def applied_files_def moved_files_def undoable_at_def committed_files_def)
  have stranding: "with_journal E (stranded_files E i rs pk rs') op {Some Started} (?act s)" if "?P s" for s
    using that intent_written [of E i "- {Committed}" s Committed "{Committed}"]
    by (auto simp: with_journal_def applied_files_def moved_files_def undoable_at_def registry_is_reads)
  show ?thesis
    unfolding write_intent_step [OF ok]
  proof (rule hoare_atomic)
    show "timeless ?P"
      by (rule timeless_journal [OF apply_on_files(3)])
    show "(with_journal E (undoable_files E i pk) op {Some Started} s
        \<or> \<not> commit_honest E \<and> with_journal E (stranded_files E i rs pk rs') op {Some Started} s) \<and> decided E i rs pk rs' pk' s"
      if "?P s" for s
      using that apply_undoable(3) op by (auto simp: with_journal_def decided_def before_files_def)
    show "decided E i rs pk rs' pk' (?act s)" if "?P s" for s
      using done_it [OF that] op by (auto simp: decided_def with_journal_def after_files_def)
    show "(\<forall>t. lc_fault E (Intent_Write Committed) t \<noteq> Fault False Completed) \<or>
        (\<forall>s. ?P s \<longrightarrow> with_journal E (undoable_files E i pk) op {Some Started} (?act s)
           \<or> \<not> commit_honest E \<and> with_journal E (stranded_files E i rs pk rs') op {Some Started} (?act s))"
      using stranding by (cases "commit_honest E") (auto simp: commit_honest_def)
  qed (use done_it in auto)
qed

lemma committed_cleanup:
  assumes ok: "tx_intent_ok E i rs pk rs' pk'"
  shows "hoare (with_journal E (committed_files E i rs' pk') op A) (cleanup_intent E (i\<lparr>ti_phase := Committed\<rparr>))
     (\<lambda>_. with_journal E (settled_files E rs' pk') op A) (with_journal E (after_files E i rs' pk') op A) (with_journal E (after_files E i rs' pk') op A)"
proof -
  have "hoare (with_journal E (committed_files E i rs' pk') op A) (cleanup_intent E (i\<lparr>ti_phase := Committed\<rparr>))
     (\<lambda>_. with_journal E (settled_files E rs' pk') op A)
     (with_journal E (\<lambda>s. committed_files E i rs' pk' s \<or> settled_files E rs' pk' s) op A)
     (with_journal E (\<lambda>s. committed_files E i rs' pk' s \<or> settled_files E rs' pk' s) op A)"
    by (rule cleanup_triple [OF ok disk_on_files(4)]) (auto simp: cleanable_def committed_files_def)
  then show ?thesis unfolding after_files_def by simp
qed

lemma decided_before: "with_journal E (before_files E i rs pk) (ti_operation_id i) A s \<Longrightarrow> A \<subseteq> {Some Started, Some Failed} \<Longrightarrow> decided E i rs pk rs' pk' s"
  by (auto simp: decided_def with_journal_def)

lemma decided_undoable: "with_journal E (undoable_files E i pk) (ti_operation_id i) A s \<Longrightarrow> A \<subseteq> {Some Started, Some Failed} \<Longrightarrow> decided E i rs pk rs' pk' s"
  by (auto simp: decided_def with_journal_def before_files_def)

lemma decided_after: "with_journal E (after_files E i rs' pk') (ti_operation_id i) A s \<Longrightarrow> A \<subseteq> {Some Started, Some Succeeded} \<Longrightarrow> decided E i rs pk rs' pk' s"
  by (auto simp: decided_def with_journal_def)

lemma decided_committed: "with_journal E (committed_files E i rs' pk') (ti_operation_id i) A s \<Longrightarrow> A \<subseteq> {Some Started, Some Succeeded} \<Longrightarrow> decided E i rs pk rs' pk' s"
  by (auto simp: decided_def with_journal_def after_files_def)

lemma undo_decided:
  assumes "codec_ok (rg_codec (lc_reg E))" "tx_intent_ok E i rs pk rs' pk'" "A \<subseteq> {Some Started, Some Failed}"
  shows "hoare (with_journal E (undoable_files E i pk) (ti_operation_id i) A) (undo_and_raise E i code message e) Q
     (decided E i rs pk rs' pk') (decided E i rs pk rs' pk')"
  by (rule undo_and_raise_triple [where W = "\<lambda>_. True", OF assms(1,2) TrueI refl refl])
    (use assms(3) in \<open>auto intro: decided_before decided_undoable\<close>)

lemma registry_rewritten:
  "codec_ok (rg_codec (lc_reg E)) \<Longrightarrow> keyed d \<Longrightarrow> registry_reads E (map_of d) (write_registry (lc_reg E) d)"
  using registry_written [of E d] by (simp add: registry_is_reads)

lemma undo_stranded:
  assumes C: "codec_ok (rg_codec (lc_reg E))" and ok: "tx_intent_ok E i rs pk rs' pk'" and dis: "\<not> commit_honest E"
  shows "hoare (with_journal E (stranded_files E i rs pk rs') (ti_operation_id i) {Some Started}) (undo_and_raise E i code message e) Q
     (decided E i rs pk rs' pk') (decided E i rs pk rs' pk')"
proof -
  have "registry_reads E rs (write_registry (lc_reg E) (ti_before i))"
    using ok registry_rewritten [OF C, of "ti_before i"] by (simp add: tx_intent_ok_def)
  then have W: "(\<lambda>f. registry_reads E rs f \<or> registry_reads E rs' f) (write_registry (lc_reg E) (ti_before i))" by blast
  show ?thesis
    by (rule undo_and_raise_triple [where W = "\<lambda>f. registry_reads E rs f \<or> registry_reads E rs' f", OF C ok W refl refl])
      (use dis in \<open>auto simp: decided_def insert_commute\<close>)
qed

lemma hoare_disj: "hoare P m Q R K \<Longrightarrow> hoare P' m Q R K \<Longrightarrow> hoare (\<lambda>s. P s \<or> P' s) m Q R K"
  by (auto simp: hoare_def)

lemma hoare_ex:
  assumes "\<And>x. hoare (P x) m Q R K" shows "hoare (\<lambda>s. \<exists>x. P x s) m Q R K"
  unfolding hoare_def
proof (intro allI impI)
  fix s assume "\<exists>x. P x s"
  then obtain x where "P x s" by blast
  then show "case m s of (Done x, s') \<Rightarrow> Q x s' | (Raised e, s') \<Rightarrow> R s' | (Crashed, s') \<Rightarrow> K s'"
    using assms [of x] by (simp add: hoare_def)
qed

lemma hoare_eq: "(\<And>s. P s \<Longrightarrow> m s = m' s) \<Longrightarrow> hoare P m' Q R K \<Longrightarrow> hoare P m Q R K"
  by (simp add: hoare_def)

lemma hoare_given: "(b \<Longrightarrow> hoare P m Q R K) \<Longrightarrow> hoare (\<lambda>s. b \<and> P s) m Q R K"
  by (auto simp: hoare_def)

lemma persist_triple:
  assumes ok: "tx_intent_ok E i rs pk rs' pk'" and op: "op = ti_operation_id i" and prep: "ti_phase i = Prepared"
  shows "hoare (with_journal E (settled_files E rs pk) op {Some Started}) (persist_intent E i)
     (\<lambda>_. with_journal E (\<lambda>s. undoable_files E i pk s \<and> registry_is E rs s \<and> lc_packages s = pk \<and> lc_backups s = Map.empty \<and> lc_stages s = Map.empty) op {Some Started})
     (decided E i rs pk rs' pk') (decided E i rs pk rs' pk')"
proof -
  let ?N = "\<lambda>s. undoable_files E i pk s \<and> registry_is E rs s \<and> lc_packages s = pk \<and> lc_backups s = Map.empty \<and> lc_stages s = Map.empty"
  have i: "i\<lparr>ti_phase := Prepared\<rparr> = i" using prep by simp
  have new: "?N (s\<lparr>lc_intents := AList.update (intent_name E i) (Some i) (lc_intents s)\<rparr>)" if "settled_files E rs pk s" for s
    using that i ok by (auto simp: settled_files_def undoable_at_def holds_intent_def tx_intent_ok_def intro!: bexI [of _ Prepared])
  have wr: "hoare (with_journal E (settled_files E rs pk) op {Some Started}) (write_intent E i) (\<lambda>_. with_journal E ?N op {Some Started})
      (with_journal E (before_files E i rs pk) op {Some Started}) (with_journal E (before_files E i rs pk) op {Some Started})"
    using write_intent_step [OF ok, of Prepared] unfolding i
    by (simp, intro file_step [OF disk_on_files(1)]) (use new in \<open>auto simp: before_files_def\<close>)
  have fail: "hoare (with_journal E (before_files E i rs pk) op {Some Started})
      (seq (mark_failed E op ''package.intent_write_failed'') (\<lambda>_. raise (Transaction_Error ''package transaction intent could not be persisted'')))
      (\<lambda>_. with_journal E ?N op {Some Started}) (decided E i rs pk rs' pk') (decided E i rs pk rs' pk')"
  proof (rule hoare_seq)
    show "hoare (with_journal E (before_files E i rs pk) op {Some Started}) (mark_failed E op ''package.intent_write_failed'')
        (\<lambda>_. with_journal E (before_files E i rs pk) op {Some Started, Some Failed}) (decided E i rs pk rs' pk') (decided E i rs pk rs' pk')"
      by (rule hoare_conseq [OF mark_failed_triple [of "before_files E i rs pk" E op "{Some Started}" op, OF before_on_files(1)]])
        (use op in \<open>auto intro: decided_before simp: insert_commute\<close>)
  qed (use op in \<open>auto intro!: hoare_raise decided_before\<close>)
  show ?thesis
    unfolding persist_intent_def op [symmetric]
    by (rule hoare_catch [OF hoare_conseq [OF wr]]) (use fail op in \<open>auto intro: decided_before\<close>)
qed

text \<open>The state in which \<open>_execute\<close> is entered: nothing on disk but the journal, or a staged artifact.\<close>

definition entered_files where
  "entered_files E i rs pk pk' s \<longleftrightarrow>
     (if ti_stage i = None then settled_files E rs pk s
      else ready_files E i rs pk pk' s)"

lemma entered_on_files: "on_files (entered_files E i rs pk pk')"
proof (cases "ti_stage i")
  case None
  then show ?thesis using disk_on_files(1) by (simp add: on_files_def entered_files_def)
next
  case (Some n)
  then show ?thesis using apply_on_files(1) by (simp add: on_files_def entered_files_def)
qed

lemma persist_if_missing:
  assumes ok: "tx_intent_ok E i rs pk rs' pk'" and op: "op = ti_operation_id i" and prep: "ti_phase i = Prepared"
  shows "hoare (with_journal E (entered_files E i rs pk pk') op {Some Started})
     (only_if (\<lambda>s. map_of (lc_intents s) (intent_name E i) = None) (persist_intent E i))
     (\<lambda>_. with_journal E (ready_files E i rs pk pk') op {Some Started}) (decided E i rs pk rs' pk') (decided E i rs pk rs' pk')"
proof (cases "ti_stage i")
  case None
  have "hoare (with_journal E (settled_files E rs pk) op {Some Started}) (persist_intent E i)
      (\<lambda>_. with_journal E (ready_files E i rs pk pk') op {Some Started}) (decided E i rs pk rs' pk') (decided E i rs pk rs' pk')"
    by (rule hoare_conseq [OF persist_triple [OF assms]]) (auto simp: with_journal_def ready_files_def None)
  then show ?thesis
    by (intro hoare_only_if) (auto simp: hoare_def entered_files_def None with_journal_def settled_files_def)
next
  case (Some n)
  then have "map_of (lc_intents s) (intent_name E i) \<noteq> None" if "entered_files E i rs pk pk' s" for s
    using that by (auto simp: entered_files_def ready_files_def undoable_at_def holds_intent_def)
  then have no: "\<not> (with_journal E (entered_files E i rs pk pk') op {Some Started} s \<and> map_of (lc_intents s) (intent_name E i) = None)" for s
    unfolding with_journal_def by blast
  show ?thesis
  proof (rule hoare_only_if)
    show "hoare (\<lambda>s. with_journal E (entered_files E i rs pk pk') op {Some Started} s \<and> map_of (lc_intents s) (intent_name E i) = None)
        (persist_intent E i) (\<lambda>_. with_journal E (ready_files E i rs pk pk') op {Some Started}) (decided E i rs pk rs' pk') (decided E i rs pk rs' pk')"
      using no unfolding hoare_def by blast
  qed (use Some in \<open>auto simp: entered_files_def with_journal_def\<close>)
qed

lemma execute_triple:
  assumes C: "codec_ok (rg_codec (lc_reg E))" and ok: "tx_intent_ok E i rs pk rs' pk'"
    and prep: "ti_phase i = Prepared"
  shows "hoare (with_journal E (entered_files E i rs pk pk') (ti_operation_id i) {Some Started}) (execute E i)
     (\<lambda>_. with_journal E (settled_files E rs' pk') (ti_operation_id i) {Some Succeeded})
     (decided E i rs pk rs' pk') (decided E i rs pk rs' pk')"
proof -
  let ?op = "ti_operation_id i" and ?D = "decided E i rs pk rs' pk'"
  let ?Cs = "with_journal E (committed_files E i rs' pk') ?op"
  have applying: "hoare (with_journal E (ready_files E i rs pk pk') ?op {Some Started})
      (catch (apply_intent E i) (undo_and_raise E i (failed_code i) (failed_message i)))
      (\<lambda>_. with_journal E (applied_files E i pk rs' pk') ?op {Some Started}) ?D ?D"
    by (rule hoare_catch [OF hoare_conseq [OF apply_intent_triple [OF C ok]] undo_decided [OF C ok]])
      (auto intro: decided_undoable)
  have commit: "hoare (with_journal E (applied_files E i pk rs' pk') ?op {Some Started})
      (catch (write_intent E (i\<lparr>ti_phase := Committed\<rparr>)) (undo_and_raise E i (failed_code i) (failed_message i)))
      (\<lambda>_. ?Cs {Some Started}) ?D ?D"
    by (rule hoare_catch [OF commit_step [OF ok refl] hoare_disj [OF undo_decided [OF C ok] hoare_given [OF undo_stranded [OF C ok]]]]) simp_all
  have hooked: "hoare (?Cs {Some Started}) (hook E ''failure_injector'' ''after_commit_marker'') (\<lambda>_. ?Cs {Some Started})
      (?Cs {Some Started, Some Succeeded}) ?D"
    by (rule hoare_conseq [OF hook_triple [of "committed_files E i rs' pk'" "committed_files E i rs' pk'" E ?op, OF disk_on_files(4)]])
      (auto simp: with_journal_def decided_def after_files_def)
  have succeed: "hoare (?Cs {Some Started}) (journal_succeed E ?op) (\<lambda>_. ?Cs {Some Succeeded}) (?Cs {Some Started, Some Succeeded}) ?D"
    by (rule hoare_conseq [OF succeed_triple [of "committed_files E i rs' pk'" E ?op, OF disk_on_files(4)]])
      (auto simp: with_journal_def decided_def after_files_def)
  have finish: "hoare (?Cs {Some Started})
      (catch (seq (hook E ''failure_injector'' ''after_commit_marker'') (\<lambda>_. seq (journal_succeed E ?op) (\<lambda>_. ret ())))
         (\<lambda>_. raise (Transaction_Error (''package '' @ action_value (ti_action i) @ '' committed; journal recovery is required''))))
      (\<lambda>_. ?Cs {Some Succeeded}) ?D ?D"
    by (rule hoare_catch [OF hoare_seq [OF hooked hoare_seq [OF succeed]]])
      (auto intro!: hoare_ret hoare_raise intro: decided_committed)
  have clean: "hoare (?Cs {Some Succeeded}) (cleanup_intent E (i\<lparr>ti_phase := Committed\<rparr>))
      (\<lambda>_. with_journal E (settled_files E rs' pk') ?op {Some Succeeded}) ?D ?D"
    by (rule hoare_conseq [OF committed_cleanup [OF ok]]) (auto intro: decided_after)
  show ?thesis
    unfolding execute_def paths_ok(4) [OF ok] seq_ret
    by (intro hoare_seq [OF persist_if_missing [OF ok refl prep]] hoare_seq [OF applying] hoare_seq [OF commit] hoare_seq [OF finish] clean)
qed

subsection \<open>Recovering\<close>

text \<open>
  The installation a disk stands for: that of the registry and the files when no transaction is open, the old one
  before the commit marker, the new one after it.
\<close>

definition represents where
  "represents E rs pk s \<longleftrightarrow>
     settled_files E rs pk s
     \<or> (\<exists>i rs' pk'. tx_intent_ok E i rs pk rs' pk'
          \<and> with_journal E (undoable_files E i pk) (ti_operation_id i) {Some Started, Some Failed} s)
     \<or> (\<exists>i rs0 pk0. tx_intent_ok E i rs0 pk0 rs pk
          \<and> with_journal E (committed_files E i rs pk) (ti_operation_id i) {Some Started, Some Succeeded} s)"

text \<open>A disk that is stranded between two installations.\<close>

definition stranded where
  "stranded E rs pk rs' pk' s \<longleftrightarrow>
     (\<exists>i. tx_intent_ok E i rs pk rs' pk' \<and> with_journal E (stranded_files E i rs pk rs') (ti_operation_id i) {Some Started} s)"

definition lc_settled where
  "lc_settled = settled_files"

lemma settled_journal: "with_journal E (settled_files E rs pk) op UNIV s \<longleftrightarrow> lc_settled E rs pk s"
  by (simp add: with_journal_def lc_settled_def)

lemma settled_weaken: "with_journal E (settled_files E rs pk) op A s \<Longrightarrow> lc_settled E rs pk s"
  by (simp add: with_journal_def lc_settled_def)

lemma settled_represents: "lc_settled E rs pk s \<Longrightarrow> represents E rs pk s"
  by (simp add: lc_settled_def represents_def)

lemma decided_represents:
  assumes "tx_intent_ok E i rs pk rs' pk'" "decided E i rs pk rs' pk' s"
  shows "represents E rs pk s \<or> represents E rs' pk' s \<or> \<not> commit_honest E \<and> stranded E rs pk rs' pk' s"
  using assms unfolding decided_def represents_def stranded_def before_files_def after_files_def with_journal_def by blast

lemma before_represents:
  "tx_intent_ok E i rs pk rs' pk' \<Longrightarrow> with_journal E (before_files E i rs pk) (ti_operation_id i) {Some Started, Some Failed} s \<Longrightarrow> represents E rs pk s"
  unfolding represents_def before_files_def with_journal_def by blast

lemma after_represents:
  "tx_intent_ok E i rs0 pk0 rs pk \<Longrightarrow> with_journal E (after_files E i rs pk) (ti_operation_id i) {Some Started, Some Succeeded} s \<Longrightarrow> represents E rs pk s"
  unfolding represents_def after_files_def with_journal_def by blast

lemma read_records_triple:
  assumes C: "codec_ok (rg_codec (lc_reg E))" and F: "on_files F" "\<And>s. F s \<Longrightarrow> registry_is E rs s"
    and rewritten: "\<And>s x. F s \<Longrightarrow> registry_is E rs (s\<lparr>lc_registry := x\<rparr>) \<Longrightarrow> F (s\<lparr>lc_registry := x\<rparr>)"
  shows "hoare (with_journal E F op A) (read_package_records E) (\<lambda>d s. with_journal E F op A s \<and> keyed d \<and> map_of d = rs)
     (with_journal E F op A) (with_journal E F op A)"
  unfolding hoare_def
proof (intro allI impI)
  fix s assume P: "with_journal E F op A s"
  then obtain d where d: "read_registry (lc_reg E) (lc_registry s) = Inr d" "keyed d" "map_of d = rs"
    using F(2) by (auto simp: with_journal_def registry_is_def)
  have "hoare (with_journal E F op A) (write_records E d) (\<lambda>_. with_journal E F op A) (with_journal E F op A) (with_journal E F op A)"
    unfolding write_records_def
    by (rule file_step [OF F(1)]) (use rewritten registry_written [OF C d(2)] d(3) in auto)
  then have "hoare (with_journal E F op A) (seq (write_records E d) (\<lambda>_. ret d)) (\<lambda>x s. with_journal E F op A s \<and> keyed x \<and> map_of x = rs)
      (with_journal E F op A) (with_journal E F op A)"
    by (rule hoare_seq) (use d in \<open>auto intro!: hoare_ret\<close>)
  then show "case read_package_records E s of (Done x, s') \<Rightarrow> with_journal E F op A s' \<and> keyed x \<and> map_of x = rs
      | (Raised e, s') \<Rightarrow> with_journal E F op A s' | (Crashed, s') \<Rightarrow> with_journal E F op A s'"
    using P d by (auto simp: read_package_records_def hoare_def)
qed

lemma pending_triple: "hoare (lc_settled E rs pk) (journal_pending E) (\<lambda>_. lc_settled E rs pk) (lc_settled E rs pk) (lc_settled E rs pk)"
  by (auto simp: hoare_def journal_pending_def split: sum.split)

lemma fail_pending_triple:
  "hoare (lc_settled E rs pk) (fail_pending E sts intents recovered) (\<lambda>_. lc_settled E rs pk) (lc_settled E rs pk) (lc_settled E rs pk)"
proof (induction sts arbitrary: recovered)
  case (Cons st sts)
  have "hoare (lc_settled E rs pk) (journal_fail E k code) (\<lambda>_. lc_settled E rs pk) (lc_settled E rs pk) (lc_settled E rs pk)" for k code
    by (rule hoare_conseq [OF fail_triple [of "settled_files E rs pk" E k UNIV, OF disk_on_files(1)]])
      (auto simp: lc_settled_def with_journal_def)
  then show ?case using Cons.IH by (auto intro!: hoare_if hoare_seq)
qed (auto intro!: hoare_ret)

lemma recover_uncommitted_triple:
  assumes C: "codec_ok (rg_codec (lc_reg E))" and ok: "tx_intent_ok E i rs pk rs' pk'"
  shows "hoare (with_journal E (undoable_files E i pk) (ti_operation_id i) {Some Started, Some Failed})
     (recover_uncommitted E (i\<lparr>ti_phase := ph\<rparr>) st) (\<lambda>_. lc_settled E rs pk) (represents E rs pk) (represents E rs pk)"
proof -
  let ?op = "ti_operation_id i" and ?A = "{Some Started, Some Failed}"
  have "hoare (with_journal E (undoable_files E i pk) ?op ?A)
      (seq (rollback_intent E (i\<lparr>ti_phase := ph\<rparr>)) (\<lambda>_. seq (mark_failed E ?op ''package.recovered_rollback'')
        (\<lambda>_. cleanup_intent E (i\<lparr>ti_phase := ph\<rparr>))))
      (\<lambda>_. lc_settled E rs pk) (represents E rs pk) (represents E rs pk)"
  proof (rule hoare_conseq)
    show "hoare (with_journal E (undoable_files E i pk) ?op ?A)
      (seq (rollback_intent E (i\<lparr>ti_phase := ph\<rparr>)) (\<lambda>_. seq (mark_failed E ?op ''package.recovered_rollback'')
        (\<lambda>_. cleanup_intent E (i\<lparr>ti_phase := ph\<rparr>))))
      (\<lambda>_. with_journal E (settled_files E rs pk) ?op (?A \<union> {Some Failed})) (represents E rs pk) (represents E rs pk)"
      by (rule undo_triple [where W = "\<lambda>_. True" and f = "\<lambda>_. i\<lparr>ti_phase := ph\<rparr>", OF C ok TrueI refl refl])
        (use before_represents [OF ok] in \<open>auto simp: insert_commute before_files_def with_journal_def\<close>)
  qed (auto intro: settled_weaken)
  then show ?thesis
    using before_represents [OF ok]
    by (auto simp: recover_uncommitted_def before_files_def with_journal_def intro!: hoare_raise)
qed

text \<open>Finishing a committed intent whose postcondition has been checked.\<close>

lemma finish_triple:
  assumes ok: "tx_intent_ok E i rs0 pk0 rs pk"
  shows "hoare (with_journal E (committed_files E i rs pk) (ti_operation_id i) {Some Started, Some Succeeded})
     (seq (if s_status st = Started then seq (journal_succeed E (ti_operation_id i)) (\<lambda>_. ret ())
      else if s_status st \<noteq> Succeeded then raise (Transaction_Error ''committed package intent conflicts with operation journal'')
      else ret ()) (\<lambda>_. cleanup_intent E (i\<lparr>ti_phase := Committed\<rparr>))) (\<lambda>_. lc_settled E rs pk) (represents E rs pk) (represents E rs pk)"
proof -
  let ?op = "ti_operation_id i" and ?A = "{Some Started, Some Succeeded}"
  let ?C = "with_journal E (committed_files E i rs pk) ?op ?A" and ?R = "represents E rs pk"
  have CR: "?R s" if "?C s" for s using that after_represents [OF ok] by (auto simp: with_journal_def after_files_def)
  have succeed: "hoare ?C (if s_status st = Started then seq (journal_succeed E ?op) (\<lambda>_. ret ())
      else if s_status st \<noteq> Succeeded then raise (Transaction_Error ''committed package intent conflicts with operation journal'')
      else ret ()) (\<lambda>_. ?C) ?R ?R"
    by (intro hoare_if hoare_seq [OF hoare_conseq [OF succeed_triple [of "committed_files E i rs pk" E ?op ?A, OF disk_on_files(4)]]] hoare_ret hoare_raise)
      (auto intro: CR simp: with_journal_def)
  have clean: "hoare ?C (cleanup_intent E (i\<lparr>ti_phase := Committed\<rparr>)) (\<lambda>_. lc_settled E rs pk) ?R ?R"
    by (rule hoare_conseq [OF committed_cleanup [OF ok]]) (auto intro: settled_weaken after_represents [OF ok])
  show ?thesis by (rule hoare_seq [OF succeed clean])
qed

lemma recover_committed_triple:
  assumes C: "codec_ok (rg_codec (lc_reg E))" and ok: "tx_intent_ok E i rs0 pk0 rs pk"
  shows "hoare (with_journal E (committed_files E i rs pk) (ti_operation_id i) {Some Started, Some Succeeded})
     (recover_committed E (i\<lparr>ti_phase := Committed\<rparr>) st) (\<lambda>_. lc_settled E rs pk) (represents E rs pk) (represents E rs pk)"
proof -
  let ?op = "ti_operation_id i" and ?A = "{Some Started, Some Succeeded}"
  let ?C = "with_journal E (committed_files E i rs pk) ?op ?A" and ?R = "represents E rs pk"
  have CR: "?R s" if "?C s" for s using that after_represents [OF ok] by (auto simp: with_journal_def after_files_def)
  have read: "hoare ?C (read_package_records E) (\<lambda>d. ?C) ?R ?R"
  proof (rule hoare_conseq)
    show "hoare ?C (read_package_records E) (\<lambda>d s. ?C s \<and> keyed d \<and> map_of d = rs) ?C ?C"
      by (rule read_records_triple [OF C disk_on_files(4)]) (auto simp: committed_files_def)
  qed (use CR in auto)
  have post: "hoare ?C (postcondition E (i\<lparr>ti_phase := Committed\<rparr>)) (\<lambda>_. ?C) ?R ?R"
    unfolding postcondition_def
    by (rule hoare_seq [OF read]) (auto simp: paths_ok(1) [OF ok] hoare_def ret_def)
  have "hoare ?C (if \<not> good then raise (Transaction_Error ''committed package postcondition is invalid; recovery is required'')
      else seq (if s_status st = Started then seq (journal_succeed E ?op) (\<lambda>_. ret ())
      else if s_status st \<noteq> Succeeded then raise (Transaction_Error ''committed package intent conflicts with operation journal'')
      else ret ()) (\<lambda>_. cleanup_intent E (i\<lparr>ti_phase := Committed\<rparr>))) (\<lambda>_. lc_settled E rs pk) ?R ?R" for good
    by (intro hoare_if hoare_raise finish_triple [OF ok] CR)
  moreover have "ti_operation_id (i\<lparr>ti_phase := Committed\<rparr>) = ?op" by simp
  ultimately show ?thesis unfolding recover_committed_def by (simp only: hoare_seq [OF post])
qed

lemma recover_intent_triple:
  assumes C: "codec_ok (rg_codec (lc_reg E))"
  shows "tx_intent_ok E i rs pk rs' pk' \<Longrightarrow> ph \<noteq> Committed \<Longrightarrow>
      hoare (with_journal E (undoable_files E i pk) (ti_operation_id i) {Some Started, Some Failed})
        (recover_intent E (intent_name E i) (i\<lparr>ti_phase := ph\<rparr>)) (\<lambda>_. lc_settled E rs pk) (represents E rs pk) (represents E rs pk)"
    "tx_intent_ok E i rs0 pk0 rs pk \<Longrightarrow>
      hoare (with_journal E (committed_files E i rs pk) (ti_operation_id i) {Some Started, Some Succeeded})
        (recover_intent E (intent_name E i) (i\<lparr>ti_phase := Committed\<rparr>)) (\<lambda>_. lc_settled E rs pk) (represents E rs pk) (represents E rs pk)"
proof -
  assume ok: "tx_intent_ok E i rs pk rs' pk'" and ph: "ph \<noteq> Committed"
  let ?U = "with_journal E (undoable_files E i pk) (ti_operation_id i) {Some Started, Some Failed}"
  have U: "represents E rs pk s" if "?U s" for s using that before_represents [OF ok] by (auto simp: with_journal_def before_files_def)
  have state: "hoare ?U (journal_state E (ti_operation_id i)) (\<lambda>_. ?U) (represents E rs pk) (represents E rs pk)"
    by (rule hoare_conseq [OF state_triple]) (use U in auto)
  have "hoare ?U (case st of None \<Rightarrow> raise (Transaction_Error ''package transaction intent has no operation journal'')
      | Some st \<Rightarrow> recover_uncommitted E (i\<lparr>ti_phase := ph\<rparr>) st) (\<lambda>_. lc_settled E rs pk) (represents E rs pk) (represents E rs pk)" for st
    using recover_uncommitted_triple [OF C ok] U by (auto intro!: hoare_raise split: option.split)
  then show "hoare ?U (recover_intent E (intent_name E i) (i\<lparr>ti_phase := ph\<rparr>)) (\<lambda>_. lc_settled E rs pk) (represents E rs pk) (represents E rs pk)"
    using ph by (simp add: recover_intent_def paths_ok(4) [OF ok]) (rule hoare_seq [OF state])
next
  assume ok: "tx_intent_ok E i rs0 pk0 rs pk"
  let ?C = "with_journal E (committed_files E i rs pk) (ti_operation_id i) {Some Started, Some Succeeded}"
  have C': "represents E rs pk s" if "?C s" for s using that after_represents [OF ok] by (auto simp: with_journal_def after_files_def)
  have state: "hoare ?C (journal_state E (ti_operation_id i)) (\<lambda>_. ?C) (represents E rs pk) (represents E rs pk)"
    by (rule hoare_conseq [OF state_triple]) (use C' in auto)
  have "hoare ?C (case st of None \<Rightarrow> raise (Transaction_Error ''package transaction intent has no operation journal'')
      | Some st \<Rightarrow> recover_committed E (i\<lparr>ti_phase := Committed\<rparr>) st) (\<lambda>_. lc_settled E rs pk) (represents E rs pk) (represents E rs pk)" for st
    using recover_committed_triple [OF C ok] C' by (auto intro!: hoare_raise split: option.split)
  then show "hoare ?C (recover_intent E (intent_name E i) (i\<lparr>ti_phase := Committed\<rparr>)) (\<lambda>_. lc_settled E rs pk) (represents E rs pk) (represents E rs pk)"
    by (simp add: recover_intent_def paths_ok(4) [OF ok]) (rule hoare_seq [OF state])
qed

lemma recovery_tail:
  "hoare (lc_settled E rs pk) (seq (journal_pending E) (\<lambda>pending. seq (fail_pending E pending xs xs) (\<lambda>recovered. ret (sort (remdups recovered)))))
     (\<lambda>_. lc_settled E rs pk) (lc_settled E rs pk) (lc_settled E rs pk)"
  by (rule hoare_seq [OF pending_triple], rule hoare_seq [OF fail_pending_triple]) (auto intro!: hoare_ret)

lemma recover_locked_triple:
  assumes C: "codec_ok (rg_codec (lc_reg E))"
  shows "hoare (represents E rs pk) (recover_locked E) (\<lambda>_. lc_settled E rs pk) (represents E rs pk) (represents E rs pk)"
proof -
  let ?R = "represents E rs pk" and ?S = "lc_settled E rs pk"
  have each: "hoare (\<lambda>s. ?R s \<and> lc_intents s = xs) (recover_intents E (dict_sorted xs) []) (\<lambda>_. ?S) ?R ?R" for xs
    unfolding hoare_def
  proof (intro allI impI)
    fix s assume P: "?R s \<and> lc_intents s = xs"
    have one: "case recover_intents E (dict_sorted xs) [] s of (Done x, s') \<Rightarrow> ?S s' | (Raised e, s') \<Rightarrow> ?R s' | (Crashed, s') \<Rightarrow> ?R s'"
      if "xs = [(n, Some i)]" "hoare P' (recover_intent E n i) (\<lambda>_. ?S) ?R ?R" "P' s" for n i P'
    proof -
      have "hoare P' (seq (recover_intent E n i) (\<lambda>_. recover_intents E [] [ti_operation_id i])) (\<lambda>_. ?S) ?R ?R"
        by (rule hoare_seq [OF that(2)]) (simp add: hoare_ret)
      then show ?thesis using that(1,3) by (simp add: hoare_def dict_sorted_def)
    qed
    consider (none) "settled_files E rs pk s"
      | (before) i rs' pk' ph where "tx_intent_ok E i rs pk rs' pk'" "ph \<noteq> Committed" "lc_intents s = [(intent_name E i, Some (i\<lparr>ti_phase := ph\<rparr>))]"
        "with_journal E (undoable_files E i pk) (ti_operation_id i) {Some Started, Some Failed} s"
      | (after) i rs0 pk0 where "tx_intent_ok E i rs0 pk0 rs pk" "lc_intents s = [(intent_name E i, Some (i\<lparr>ti_phase := Committed\<rparr>))]"
        "with_journal E (committed_files E i rs pk) (ti_operation_id i) {Some Started, Some Succeeded} s"
      using P unfolding represents_def with_journal_def undoable_at_def committed_files_def holds_intent_def by blast
    then show "case recover_intents E (dict_sorted xs) [] s of (Done x, s') \<Rightarrow> ?S s' | (Raised e, s') \<Rightarrow> ?R s' | (Crashed, s') \<Rightarrow> ?R s'"
    proof cases
      case none
      then have "xs = []" using P by (simp add: settled_files_def)
      then show ?thesis using none P by (simp add: dict_sorted_def ret_def lc_settled_def represents_def)
    next
      case before
      then show ?thesis using P by (intro one [OF _ recover_intent_triple(1) [OF C before(1,2)]]) auto
    next
      case after
      then show ?thesis using P by (intro one [OF _ recover_intent_triple(2) [OF C after(1)]]) auto
    qed
  qed
  show ?thesis
    unfolding hoare_def
  proof (intro allI impI)
    fix s assume "?R s"
    then show "case recover_locked E s of (Done x, s') \<Rightarrow> ?S s' | (Raised e, s') \<Rightarrow> ?R s' | (Crashed, s') \<Rightarrow> ?R s'"
      using hoare_seq [OF each [of "lc_intents s"] hoare_conseq [OF recovery_tail _ _ settled_represents settled_represents]] by (simp add: recover_locked_def hoare_def)
  qed
qed

subsection \<open>Recovering a stranded disk\<close>

text \<open>Where the postcondition of the committed intent holds, the disk stands for a new installation.\<close>

definition committed_post :: "tx_intent \<Rightarrow> lc_disk \<Rightarrow> bool" where
  "committed_post i s \<longleftrightarrow>
     (if ti_action i \<in> {Tx_Install, Tx_Update}
          then (case (map_of (ti_after i) (ti_package_id i), ti_sha i, ti_key i) of
                  (Some r, Some sha, Some key) \<Rightarrow>
                    is_directory (lc_packages s (ti_package_id i))
                    \<and> artifact_marker_matches (lc_packages s (ti_package_id i)) (ti_package_id i) (m_version (pr_manifest r)) sha key
                | _ \<Rightarrow> False)
          else if ti_action i = Tx_Uninstall then lc_packages s (ti_package_id i) = None
          else True)"

lemma stranded_committed:
  assumes ok: "tx_intent_ok E i rs pk rs' pk'" and s: "stranded_files E i rs pk rs' s" "registry_is E rs' s"
    and post: "committed_post i s"
  shows "tx_intent_ok E i rs pk rs' (lc_packages s) \<and> committed_files E i rs' (lc_packages s) s"
proof
  let ?p = "ti_package_id i"
  have others: "lc_packages s q = pk q" if "q \<noteq> ?p" for q using s(1) that by (simp add: undoable_at_def)
  show "committed_files E i rs' (lc_packages s) s"
    using s by (simp add: committed_files_def undoable_at_def)
  have upd: "lc_packages s = pk(?p \<mapsto> e)" if "lc_packages s ?p = Some e" for e using others that by (auto simp: fun_eq_iff)
  have same: "lc_packages s = pk" if "lc_packages s ?p = pk ?p" by (rule ext) (metis others that)
  have after: "map_of (ti_after i) = rs'" using ok by (simp add: tx_intent_ok_def)
  show "tx_intent_ok E i rs pk rs' (lc_packages s)"
  proof (cases "ti_action i")
    case Tx_Install
    then show ?thesis using ok post [unfolded committed_post_def] after upd is_directory_some [of "lc_packages s ?p"]
      by (auto simp: tx_intent_ok_def package_of_def split: option.splits)
  next
    case Tx_Update
    then show ?thesis using ok post [unfolded committed_post_def] after upd is_directory_some [of "lc_packages s ?p"]
      by (auto simp: tx_intent_ok_def package_of_def split: option.splits)
  next
    case Tx_Uninstall
    then have "lc_packages s = pk(?p := None)" using post others by (auto simp: fun_eq_iff committed_post_def)
    then show ?thesis using ok Tx_Uninstall by (simp add: tx_intent_ok_def)
  next
    case Tx_Enable
    then have "lc_packages s = pk" using s(1) same by (simp add: undoable_at_def)
    then show ?thesis using ok Tx_Enable by (simp add: tx_intent_ok_def)
  next
    case Tx_Disable
    then have "lc_packages s = pk" using s(1) same by (simp add: undoable_at_def)
    then show ?thesis using ok Tx_Disable by (simp add: tx_intent_ok_def)
  qed
qed

lemma stranded_postcondition:
  assumes C: "codec_ok (rg_codec (lc_reg E))" and ok: "tx_intent_ok E i rs pk rs' pk'"
  shows "hoare (with_journal E (stranded_files E i rs pk rs') op A) (postcondition E (i\<lparr>ti_phase := Committed\<rparr>))
     (\<lambda>good s. with_journal E (stranded_files E i rs pk rs') op A s
        \<and> (good \<longrightarrow> (\<exists>pk''. tx_intent_ok E i rs pk rs' pk'' \<and> with_journal E (committed_files E i rs' pk'') op A s)))
     (with_journal E (stranded_files E i rs pk rs') op A) (with_journal E (stranded_files E i rs pk rs') op A)"
proof -
  let ?i = "i\<lparr>ti_phase := Committed\<rparr>"
  let ?S = "with_journal E (stranded_files E i rs pk rs') op A"
  let ?Post = "\<lambda>good s. ?S s \<and> (good \<longrightarrow> (\<exists>pk''. tx_intent_ok E i rs pk rs' pk'' \<and> with_journal E (committed_files E i rs' pk'') op A s))"
  let ?F = "\<lambda>r s. stranded_files E i rs pk rs' s \<and> registry_is E r s"
  have read: "hoare (with_journal E (?F r) op A) (read_package_records E) (\<lambda>d s. with_journal E (?F r) op A s \<and> keyed d \<and> map_of d = r) ?S ?S"
    if "r = rs \<or> r = rs'" for r
  proof (rule hoare_conseq)
    show "hoare (with_journal E (?F r) op A) (read_package_records E) (\<lambda>d s. with_journal E (?F r) op A s \<and> keyed d \<and> map_of d = r)
        (with_journal E (?F r) op A) (with_journal E (?F r) op A)"
    proof (rule read_records_triple [OF C])
      show "on_files (?F r)" by (rule on_files_conj [OF disk_on_files(2) disk_on_files(5)])
    qed (use that in \<open>auto simp: undoable_at_def registry_is_reads\<close>)
  qed (auto simp: with_journal_def)
  have both: "?S s \<longleftrightarrow> with_journal E (?F rs) op A s \<or> with_journal E (?F rs') op A s" for s
    by (auto simp: with_journal_def undoable_at_def registry_is_reads)
  let ?Q = "\<lambda>d s. ?S s \<and> (dict_sorted d = dict_sorted (ti_after i) \<longrightarrow> registry_is E rs' s)"
  have eq: "r = rs'" if "keyed d" "map_of d = r" "dict_sorted d = dict_sorted (ti_after i)" for d r
    using that ok map_of_dict_sorted [of d] map_of_dict_sorted [of "ti_after i"] by (auto simp: tx_intent_ok_def keyed_def)
  have "hoare (\<lambda>s. with_journal E (?F rs) op A s \<or> with_journal E (?F rs') op A s) (read_package_records E) ?Q ?S ?S"
  proof (rule hoare_disj)
    show "hoare (with_journal E (?F rs) op A) (read_package_records E) ?Q ?S ?S"
      by (rule hoare_conseq [OF read [of rs]]) (use eq in \<open>auto simp: with_journal_def\<close>)
    show "hoare (with_journal E (?F rs') op A) (read_package_records E) ?Q ?S ?S"
      by (rule hoare_conseq [OF read [of rs']]) (auto simp: with_journal_def)
  qed
  then have records: "hoare ?S (read_package_records E) ?Q ?S ?S" by (rule hoare_pre) (simp add: both)
  show ?thesis
    unfolding postcondition_def
  proof (rule hoare_seq [OF records])
    fix d
    have path: "seq (package_path E (ti_package_id ?i)) (\<lambda>p s.
       (Done
         (if ti_action ?i \<in> {Tx_Install, Tx_Update}
          then (case (map_of (ti_after ?i) p, ti_sha ?i, ti_key ?i) of
                  (Some r, Some sha, Some key) \<Rightarrow>
                    is_directory (lc_packages s p)
                    \<and> artifact_marker_matches (lc_packages s p) p (m_version (pr_manifest r)) sha key
                | _ \<Rightarrow> False)
          else if ti_action ?i = Tx_Uninstall then lc_packages s p = None
          else True), s)) = (\<lambda>s. (Done (committed_post i s), s))"
      by (simp add: paths_ok(1) [OF ok] committed_post_def cong: if_cong)
    have found: "?Post (committed_post i s) s" if "?Q d s" "records_equal d (ti_after i)" for s
    proof -
      have "stranded_files E i rs pk rs' s" "registry_is E rs' s" using that by (auto simp: with_journal_def records_equal_def)
      then show ?thesis using stranded_committed [OF ok, of s] that(1) by (auto simp: with_journal_def)
    qed
    show "hoare (?Q d) (if \<not> records_equal d (ti_after ?i) then ret False else seq (package_path E (ti_package_id ?i)) (\<lambda>p s.
       (Done
         (if ti_action ?i \<in> {Tx_Install, Tx_Update}
          then (case (map_of (ti_after ?i) p, ti_sha ?i, ti_key ?i) of
                  (Some r, Some sha, Some key) \<Rightarrow>
                    is_directory (lc_packages s p)
                    \<and> artifact_marker_matches (lc_packages s p) p (m_version (pr_manifest r)) sha key
                | _ \<Rightarrow> False)
          else if ti_action ?i = Tx_Uninstall then lc_packages s p = None
          else True), s))) ?Post ?S ?S"
      unfolding path
    proof (rule hoare_if)
      assume "\<not> \<not> records_equal d (ti_after ?i)"
      then show "hoare (?Q d) (\<lambda>s. (Done (committed_post i s), s)) ?Post ?S ?S"
        unfolding hoare_def using found by simp
    qed (auto intro: hoare_ret)
  qed
qed

text \<open>
  Recovery of a stranded disk refuses and leaves it so, or it finds the postcondition and carries on with the new
  installation that the disk stands for then.
\<close>

definition restranded where
  "restranded E rs pk rs' pk' s \<longleftrightarrow>
     stranded E rs pk rs' pk' s \<or> (\<exists>i pk''. tx_intent_ok E i rs pk rs' pk' \<and> tx_intent_ok E i rs pk rs' pk'' \<and> represents E rs' pk'' s)"

lemma recover_stranded:
  assumes C: "codec_ok (rg_codec (lc_reg E))"
  shows "hoare (stranded E rs pk rs' pk') (recover_locked E)
     (\<lambda>_ s. \<exists>i pk''. tx_intent_ok E i rs pk rs' pk' \<and> tx_intent_ok E i rs pk rs' pk'' \<and> lc_settled E rs' pk'' s)
     (restranded E rs pk rs' pk') (restranded E rs pk rs' pk')"
  unfolding stranded_def [abs_def]
proof (rule hoare_ex, rule hoare_given)
  fix i assume ok: "tx_intent_ok E i rs pk rs' pk'"
  let ?op = "ti_operation_id i" and ?i = "i\<lparr>ti_phase := Committed\<rparr>" and ?X = "restranded E rs pk rs' pk'"
  let ?S = "with_journal E (stranded_files E i rs pk rs') ?op {Some Started}"
  let ?D = "\<lambda>s. \<exists>pk''. tx_intent_ok E i rs pk rs' pk'' \<and> lc_settled E rs' pk'' s"
  have S: "?X s" if "?S s" for s using ok that by (auto simp: restranded_def stranded_def)
  have R: "?X s" if "tx_intent_ok E i rs pk rs' pk''" "represents E rs' pk'' s" for pk'' s
    using ok that by (auto simp: restranded_def)
  have finish: "hoare (\<lambda>s. \<exists>pk''. tx_intent_ok E i rs pk rs' pk'' \<and> with_journal E (committed_files E i rs' pk'') ?op {Some Started} s)
     (seq (if s_status st = Started then seq (journal_succeed E ?op) (\<lambda>_. ret ())
      else if s_status st \<noteq> Succeeded then raise (Transaction_Error ''committed package intent conflicts with operation journal'')
      else ret ()) (\<lambda>_. cleanup_intent E ?i)) (\<lambda>_. ?D) ?X ?X" for st
  proof (rule hoare_ex, rule hoare_given)
    fix pk'' assume ok'': "tx_intent_ok E i rs pk rs' pk''"
    show "hoare (with_journal E (committed_files E i rs' pk'') ?op {Some Started})
     (seq (if s_status st = Started then seq (journal_succeed E ?op) (\<lambda>_. ret ())
      else if s_status st \<noteq> Succeeded then raise (Transaction_Error ''committed package intent conflicts with operation journal'')
      else ret ()) (\<lambda>_. cleanup_intent E ?i)) (\<lambda>_. ?D) ?X ?X"
      by (rule hoare_conseq [OF finish_triple [OF ok'']]) (use ok'' R [OF ok''] in \<open>auto simp: with_journal_def\<close>)
  qed
  have "hoare ?S (seq (postcondition E ?i) (\<lambda>good.
     if \<not> good then raise (Transaction_Error ''committed package postcondition is invalid; recovery is required'')
     else seq (if s_status st = Started then seq (journal_succeed E ?op) (\<lambda>_. ret ())
      else if s_status st \<noteq> Succeeded then raise (Transaction_Error ''committed package intent conflicts with operation journal'')
      else ret ()) (\<lambda>_. cleanup_intent E ?i))) (\<lambda>_. ?D) ?X ?X" for st
  proof (rule hoare_seq)
    let ?new = "\<lambda>s. \<exists>pk''. tx_intent_ok E i rs pk rs' pk'' \<and> with_journal E (committed_files E i rs' pk'') ?op {Some Started} s"
    show "hoare ?S (postcondition E ?i) (\<lambda>good s. ?S s \<and> (good \<longrightarrow> ?new s)) ?X ?X"
      by (rule hoare_conseq [OF stranded_postcondition [OF C ok]]) (use S in auto)
    show "hoare (\<lambda>s. ?S s \<and> (good \<longrightarrow> ?new s))
      (if \<not> good then raise (Transaction_Error ''committed package postcondition is invalid; recovery is required'')
       else seq (if s_status st = Started then seq (journal_succeed E ?op) (\<lambda>_. ret ())
        else if s_status st \<noteq> Succeeded then raise (Transaction_Error ''committed package intent conflicts with operation journal'')
        else ret ()) (\<lambda>_. cleanup_intent E ?i)) (\<lambda>_. ?D) ?X ?X" for good
    proof (rule hoare_if)
      show "hoare (\<lambda>s. ?S s \<and> (good \<longrightarrow> ?new s)) (raise e) (\<lambda>_. ?D) ?X ?X" for e by (rule hoare_raise) (use S in blast)
      assume "\<not> \<not> good"
      then show "hoare (\<lambda>s. ?S s \<and> (good \<longrightarrow> ?new s)) (seq (if s_status st = Started then seq (journal_succeed E ?op) (\<lambda>_. ret ())
        else if s_status st \<noteq> Succeeded then raise (Transaction_Error ''committed package intent conflicts with operation journal'')
        else ret ()) (\<lambda>_. cleanup_intent E ?i)) (\<lambda>_. ?D) ?X ?X"
        by (intro hoare_pre [OF finish]) blast
    qed
  qed
  moreover have "ti_operation_id ?i = ?op" by simp
  ultimately have committed: "hoare ?S (recover_committed E ?i st) (\<lambda>_. ?D) ?X ?X" for st
    unfolding recover_committed_def by (simp only:)
  have state: "hoare ?S (journal_state E ?op) (\<lambda>_. ?S) ?X ?X"
    by (rule hoare_conseq [OF state_triple]) (use S in auto)
  have "hoare ?S (case st of None \<Rightarrow> raise (Transaction_Error ''package transaction intent has no operation journal'')
      | Some st \<Rightarrow> recover_committed E ?i st) (\<lambda>_. ?D) ?X ?X" for st
    using committed S by (auto intro!: hoare_raise split: option.split)
  then have one: "hoare ?S (recover_intent E (intent_name E i) ?i) (\<lambda>_. ?D) ?X ?X"
    by (simp add: recover_intent_def paths_ok(4) [OF ok]) (rule hoare_seq [OF state])
  have tail: "hoare ?D (seq (journal_pending E) (\<lambda>pending. seq (fail_pending E pending xs xs) (\<lambda>recovered. ret (sort (remdups recovered)))))
      (\<lambda>_. ?D) ?X ?X" for xs
    by (rule hoare_ex, rule hoare_given, rule hoare_conseq [OF recovery_tail]) (auto intro: R settled_represents)
  have "hoare ?S (seq (seq (recover_intent E (intent_name E i) ?i) (\<lambda>_. ret [?op]))
      (\<lambda>intents. seq (journal_pending E) (\<lambda>pending. seq (fail_pending E pending intents intents) (\<lambda>recovered. ret (sort (remdups recovered))))))
      (\<lambda>_. ?D) ?X ?X"
    by (rule hoare_seq [OF hoare_seq [OF one hoare_ret] tail])
  then have "hoare ?S (recover_locked E) (\<lambda>_. ?D) ?X ?X"
    by (rule hoare_eq [rotated]) (auto simp: recover_locked_def with_journal_def undoable_at_def holds_intent_def dict_sorted_def)
  then show "hoare ?S (recover_locked E)
     (\<lambda>_ s. \<exists>i pk''. tx_intent_ok E i rs pk rs' pk' \<and> tx_intent_ok E i rs pk rs' pk'' \<and> lc_settled E rs' pk'' s) ?X ?X"
    by (rule hoare_conseq) (use ok in auto)
qed

end
