(* ===== verification/Package_Lifecycle_Safety.thy ===== *)
theory Package_Lifecycle_Safety
  imports Package_Lifecycle_Commit
begin

text \<open>
  Properties of the package manager: every operation, cut short anywhere, leaves a disk that stands for the old or
  for the new installation; what a recovery that returns leaves; and the invariants of an installation.
\<close>

subsection \<open>The steps before an intent\<close>

lemma hoare_fact: "(b \<Longrightarrow> hoare P m Q R K) \<Longrightarrow> hoare (\<lambda>s. P s \<and> b) m Q R K"
  by (auto simp: hoare_def)

definition started where
  "started E op rs pk = with_journal E (settled_files E rs pk) op {Some Started}"

lemma started_settled: "started E op rs pk s \<Longrightarrow> lc_settled E rs pk s"
  by (simp add: started_def with_journal_def lc_settled_def)

lemma started_packages: "started E op rs pk s \<Longrightarrow> lc_packages s = pk"
  by (simp add: started_def with_journal_def settled_files_def)

lemma reject_triple:
  "hoare (started E op rs pk) (reject E op code e) Q (lc_settled E rs pk) (lc_settled E rs pk)"
  unfolding reject_def fail_without_intent_def
proof (rule hoare_seq)
  show "hoare (started E op rs pk) (mark_failed E op code) (\<lambda>_. lc_settled E rs pk) (lc_settled E rs pk) (lc_settled E rs pk)"
    unfolding started_def
    by (rule hoare_conseq [OF mark_failed_triple [of "settled_files E rs pk" E op "{Some Started}" op, OF disk_on_files(1)]])
      (auto simp: with_journal_def lc_settled_def)
qed (auto intro: hoare_raise)

lemma raise_started: "hoare (started E op rs pk) (raise e) Q (lc_settled E rs pk) (lc_settled E rs pk)"
  by (auto intro: hoare_raise started_settled)

lemma checked_triple:
  "hoare (started E op rs pk) (checked E op code r) (\<lambda>_ s. started E op rs pk s \<and> r = None) (lc_settled E rs pk) (lc_settled E rs pk)"
  by (cases r) (auto simp: checked_def hoare_ret reject_triple raise_started split: lc_error.split)

lemma roots_triple: "hoare (represents E rs pk) (ensure_roots E) (\<lambda>_. represents E rs pk) (represents E rs pk) (represents E rs pk)"
proof -
  have "timeless (represents E rs pk)"
    using disk_on_files by (simp add: timeless_def represents_def with_journal_def on_files_def)
  then show ?thesis unfolding ensure_roots_def by (intro keeps_hoare keeps_idle) auto
qed

lemma begin_tx_triple:
  "hoare (lc_settled E rs pk) (begin_tx E op action target) (\<lambda>replay s. if replay then lc_settled E rs pk s else started E op rs pk s)
     (lc_settled E rs pk) (lc_settled E rs pk)"
  unfolding begin_tx_def
proof (rule hoare_seq)
  show "hoare (lc_settled E rs pk) (journal_begin E op action target)
      (\<lambda>st. with_journal E (settled_files E rs pk) op {Some (s_status st)}) (lc_settled E rs pk) (lc_settled E rs pk)"
    by (rule hoare_conseq [OF begin_triple [of "settled_files E rs pk" E op UNIV, OF disk_on_files(1)]])
      (simp_all add: settled_journal)
  fix st
  have retry: "hoare (with_journal E (settled_files E rs pk) op {Some (s_status st)}) (journal_retry E op)
      (\<lambda>_. started E op rs pk) (lc_settled E rs pk) (lc_settled E rs pk)"
    by (rule hoare_conseq [OF retry_triple [of "settled_files E rs pk" E op "{Some (s_status st)}", OF disk_on_files(1)]])
      (auto simp: started_def intro: settled_weaken)
  have "s_status st \<noteq> Succeeded \<Longrightarrow> s_status st \<noteq> Failed \<Longrightarrow> s_status st = Started" by (cases "s_status st") auto
  then show "hoare (with_journal E (settled_files E rs pk) op {Some (s_status st)})
      (if s_status st = Succeeded then ret True else if s_status st = Failed then seq (journal_retry E op) (\<lambda>_. ret False) else ret False)
      (\<lambda>replay s. if replay then lc_settled E rs pk s else started E op rs pk s) (lc_settled E rs pk) (lc_settled E rs pk)"
    by (intro hoare_if hoare_seq [OF retry] hoare_ret) (auto simp: started_def intro: settled_weaken)
qed

lemma read_started:
  assumes C: "codec_ok (rg_codec (lc_reg E))"
  shows "hoare (started E op rs pk) (read_package_records E) (\<lambda>d s. started E op rs pk s \<and> (keyed d \<and> map_of d = rs)) (lc_settled E rs pk) (lc_settled E rs pk)"
    "hoare (lc_settled E rs pk) (read_package_records E) (\<lambda>d s. lc_settled E rs pk s \<and> (keyed d \<and> map_of d = rs)) (lc_settled E rs pk) (lc_settled E rs pk)"
proof -
  have "hoare (with_journal E (settled_files E rs pk) op A) (read_package_records E)
     (\<lambda>d s. with_journal E (settled_files E rs pk) op A s \<and> keyed d \<and> map_of d = rs)
     (with_journal E (settled_files E rs pk) op A) (with_journal E (settled_files E rs pk) op A)" for A
    by (rule read_records_triple [OF C disk_on_files(1)]) (auto simp: settled_files_def)
  note R = this [of "{Some Started}"] this [of UNIV]
  show "hoare (started E op rs pk) (read_package_records E) (\<lambda>d s. started E op rs pk s \<and> (keyed d \<and> map_of d = rs)) (lc_settled E rs pk) (lc_settled E rs pk)"
    unfolding started_def by (rule hoare_conseq [OF R(1)]) (auto intro: settled_weaken)
  show "hoare (lc_settled E rs pk) (read_package_records E) (\<lambda>d s. lc_settled E rs pk s \<and> (keyed d \<and> map_of d = rs)) (lc_settled E rs pk) (lc_settled E rs pk)"
    by (rule hoare_conseq [OF R(2)]) (simp_all add: settled_journal)
qed

lemma path_triple:
  "hoare (started E op rs pk) (package_path E p) (\<lambda>x s. started E op rs pk s \<and> (x = p \<and> lc_id_ok E p)) (lc_settled E rs pk) (lc_settled E rs pk)"
  by (auto simp: package_path_def validate_package_id_def intro!: hoare_lift started_settled split: if_splits)

subsection \<open>What the operations are meant to do\<close>

definition artifact_directory :: "artifact \<Rightarrow> tree_entry" where
  "artifact_directory a = Directory
     (Some (artifact_marker (m_id (va_manifest a)) (m_version (va_manifest a)) (va_sha a) (va_key a))) (va_files a)"

definition may_update :: "lc_env \<Rightarrow> artifact \<Rightarrow> package_record \<Rightarrow> tree_entry option \<Rightarrow> bool" where
  "may_update E a r e \<longleftrightarrow>
     m_type (pr_manifest r) = m_type (va_manifest a) \<and> \<not> lc_version_le E (m_version (va_manifest a)) (m_version (pr_manifest r))
     \<and> installed_marker_is_valid (m_id (va_manifest a)) r e
     \<and> (\<exists>signer. installed_signer e = Inr signer
          \<and> (signer = va_key a \<or> lc_signer_ok E (m_id (va_manifest a)) (m_type (va_manifest a)) signer (va_key a)))"

definition installs where
  "installs E action a rs pk rs' pk' \<longleftrightarrow>
     (let p = m_id (va_manifest a); r = updated_record a (rs p) in
      p \<notin> set RESERVED_PACKAGE_IDS \<and> lc_id_ok E p
      \<and> (if action = Tx_Install then rs p = None \<and> pk p = None
         else (\<exists>old. rs p = Some old \<and> may_update E a old (pk p)) \<and> is_directory (pk p))
      \<and> rs' = rs(p \<mapsto> r) \<and> pk' = pk(p \<mapsto> artifact_directory a)
      \<and> (\<exists>d. keyed d \<and> map_of d = rs' \<and> graph_error E d p (pr_status r) = None))"

definition transition_ok :: "lc_env \<Rightarrow> tx_action \<Rightarrow> string \<Rightarrow> package_records \<Rightarrow> bool" where
  "transition_ok E action p d \<longleftrightarrow>
     (if action = Tx_Enable
      then require_enabled_dependencies E d p = None \<and> require_enabled_capabilities E d (Some p) None = None
      else lifecycle_dependents d p True = [] \<and> require_enabled_capabilities E d None (Some p) = None)"

definition changes_state where
  "changes_state E action p rs pk rs' pk' \<longleftrightarrow>
     lc_id_ok E p \<and> (action = Tx_Disable \<longrightarrow> p \<notin> set (protected_packages E))
     \<and> (\<exists>r d. rs p = Some r \<and> installed_marker_is_valid p r (pk p) \<and> keyed d \<and> map_of d = rs \<and> transition_ok E action p d
          \<and> rs' = rs(p \<mapsto> r\<lparr>pr_status := target_status action\<rparr>) \<and> pk' = pk)"

definition uninstalls where
  "uninstalls E p rs pk rs' pk' \<longleftrightarrow>
     lc_id_ok E p \<and> p \<notin> set (protected_packages E) \<and> is_directory (pk p)
     \<and> (\<exists>r d. rs p = Some r \<and> installed_marker_is_valid p r (pk p) \<and> pr_status r \<noteq> PS_Enabled
          \<and> keyed d \<and> map_of d = rs \<and> lifecycle_dependents d p False = [] \<and> rs' = rs(p := None) \<and> pk' = pk(p := None))"

text \<open>Where an operation that stops may leave the disk.\<close>

definition reaches where
  "reaches E step rs pk s \<longleftrightarrow> represents E rs pk s
     \<or> (\<exists>rs' pk'. step rs' pk' \<and> (represents E rs' pk' s \<or> \<not> commit_honest E \<and> stranded E rs pk rs' pk' s))"

lemma reaches_settled: "lc_settled E rs pk s \<Longrightarrow> reaches E step rs pk s"
  by (simp add: reaches_def settled_represents)

lemma reaches_decided: "tx_intent_ok E i rs pk rs' pk' \<Longrightarrow> step rs' pk' \<Longrightarrow> decided E i rs pk rs' pk' s \<Longrightarrow> reaches E step rs pk s"
  unfolding reaches_def using decided_represents by blast

lemma to_reaches:
  "hoare P m Q (lc_settled E rs pk) (lc_settled E rs pk) \<Longrightarrow> hoare P m Q (reaches E step rs pk) (reaches E step rs pk)"
  by (erule hoare_conseq) (auto intro: reaches_settled)

subsection \<open>Install and update\<close>

lemma seq_raise [simp]: "seq (raise e) k = raise e"
  by (simp add: seq_def raise_def fun_eq_iff)

lemma signer_triple:
  "hoare (started E op rs pk)
     (seq (lift (installed_signer e)) (\<lambda>signer. if signer = k \<or> f signer then ret () else reject E op code err))
     (\<lambda>_ s. started E op rs pk s \<and> (\<exists>signer. installed_signer e = Inr signer \<and> (signer = k \<or> f signer))) (lc_settled E rs pk) (lc_settled E rs pk)"
  by (cases "installed_signer e")
    (auto simp: lift_def seq_raise intro: hoare_ret reject_triple raise_started)

lemma check_update_triple:
  "hoare (started E op rs pk) (check_update E op a old) (\<lambda>_ s. started E op rs pk s \<and> may_update E a old (pk (m_id (va_manifest a))))
     (lc_settled E rs pk) (lc_settled E rs pk)"
proof -
  let ?p = "m_id (va_manifest a)"
  let ?signed = "\<lambda>e. \<exists>signer. installed_signer e = Inr signer \<and> (signer = va_key a \<or> lc_signer_ok E ?p (m_type (va_manifest a)) signer (va_key a))"
  let ?rest = "\<lambda>e. seq (lift (installed_signer e)) (\<lambda>signer.
      if signer = va_key a \<or> lc_signer_ok E ?p (m_type (va_manifest a)) signer (va_key a) then ret ()
      else reject E op ''package.signer_changed'' (Transaction_Error ''package update signer does not match the installed package''))"
  let ?bad = "reject E op ''package.integrity_marker_invalid'' (Transaction_Error ''installed package integrity marker is invalid'')"
  have "hoare (started E op rs pk) (if \<not> installed_marker_is_valid ?p old (pk ?p) then ?bad else ?rest (pk ?p))
      (\<lambda>_ s. started E op rs pk s \<and> (installed_marker_is_valid ?p old (pk ?p) \<and> ?signed (pk ?p))) (lc_settled E rs pk) (lc_settled E rs pk)"
    by (rule hoare_if [OF reject_triple]) (rule hoare_conseq [OF signer_triple], auto)
  then have "hoare (started E op rs pk) (\<lambda>s. if \<not> installed_marker_is_valid ?p old (lc_packages s ?p) then ?bad s else ?rest (lc_packages s ?p) s)
      (\<lambda>_ s. started E op rs pk s \<and> (installed_marker_is_valid ?p old (pk ?p) \<and> ?signed (pk ?p))) (lc_settled E rs pk) (lc_settled E rs pk)"
    by (rule hoare_eq [rotated]) (simp add: started_packages)
  then have "hoare (started E op rs pk) (seq (package_path E ?p)
        (\<lambda>_ s. if \<not> installed_marker_is_valid ?p old (lc_packages s ?p) then ?bad s else ?rest (lc_packages s ?p) s))
      (\<lambda>_ s. started E op rs pk s \<and> (installed_marker_is_valid ?p old (pk ?p) \<and> ?signed (pk ?p))) (lc_settled E rs pk) (lc_settled E rs pk)"
    by (intro hoare_seq [OF path_triple] hoare_fact)
  then show ?thesis
    unfolding check_update_def Let_def may_update_def
    by (intro hoare_if reject_triple) (erule hoare_conseq, auto)
qed

text \<open>The conditions on the package that an install or update meets.\<close>

definition existing_ok :: "lc_env \<Rightarrow> tx_action \<Rightarrow> artifact \<Rightarrow> package_record option \<Rightarrow> tree_entry option \<Rightarrow> bool" where
  "existing_ok E action a existing e \<longleftrightarrow>
     m_id (va_manifest a) \<notin> set RESERVED_PACKAGE_IDS
     \<and> (if action = Tx_Install then existing = None else \<exists>old. existing = Some old \<and> may_update E a old e)"

lemma check_existing_triple:
  assumes "action \<in> {Tx_Install, Tx_Update}"
  shows "hoare (started E op rs pk) (check_existing E op action a existing)
     (\<lambda>_ s. started E op rs pk s \<and> existing_ok E action a existing (pk (m_id (va_manifest a)))) (lc_settled E rs pk) (lc_settled E rs pk)"
proof -
  have "hoare (started E op rs pk) (check_update E op a old)
      (\<lambda>_ s. started E op rs pk s \<and> existing_ok E action a existing (pk (m_id (va_manifest a)))) (lc_settled E rs pk) (lc_settled E rs pk)"
    if "m_id (va_manifest a) \<notin> set RESERVED_PACKAGE_IDS" "action = Tx_Update" "existing = Some old" for old
    by (rule hoare_conseq [OF check_update_triple]) (use that in \<open>auto simp: existing_ok_def\<close>)
  then show ?thesis
    unfolding check_existing_def using assms
    by (intro hoare_if reject_triple)
      (auto simp: existing_ok_def intro: reject_triple intro!: hoare_ret split: option.split)
qed

lemma check_destination_triple:
  "hoare (started E op rs pk) (check_destination E op action p)
     (\<lambda>_ s. started E op rs pk s \<and> (lc_id_ok E p \<and> (action = Tx_Install \<longrightarrow> pk p = None) \<and> (action = Tx_Update \<longrightarrow> is_directory (pk p))))
     (lc_settled E rs pk) (lc_settled E rs pk)"
proof -
  let ?exist = "reject E op ''package.files_exist'' (Transaction_Error ''package destination already exists'')"
  let ?missing = "reject E op ''package.files_missing'' (Transaction_Error ''installed package files are missing'')"
  have "hoare (started E op rs pk)
      (if action = Tx_Install \<and> pk p \<noteq> None then ?exist else if action = Tx_Update \<and> \<not> is_directory (pk p) then ?missing else ret ())
      (\<lambda>_ s. started E op rs pk s \<and> ((action = Tx_Install \<longrightarrow> pk p = None) \<and> (action = Tx_Update \<longrightarrow> is_directory (pk p))))
      (lc_settled E rs pk) (lc_settled E rs pk)"
    by (intro hoare_if reject_triple hoare_ret) auto
  then have "hoare (started E op rs pk)
      (\<lambda>s. if action = Tx_Install \<and> lc_packages s p \<noteq> None then ?exist s
         else if action = Tx_Update \<and> \<not> is_directory (lc_packages s p) then ?missing s else ret () s)
      (\<lambda>_ s. started E op rs pk s \<and> ((action = Tx_Install \<longrightarrow> pk p = None) \<and> (action = Tx_Update \<longrightarrow> is_directory (pk p))))
      (lc_settled E rs pk) (lc_settled E rs pk)"
    by (rule hoare_eq [rotated]) (auto simp: started_packages)
  then show ?thesis unfolding check_destination_def
    by (intro hoare_seq [OF path_triple] hoare_fact) (erule hoare_conseq, auto)
qed

lemma artifact_directory_ok:
  "is_directory (Some (artifact_directory a))"
  "artifact_marker_matches (Some (artifact_directory a)) (m_id (va_manifest a)) (m_version (va_manifest a)) (va_sha a) (va_key a)"
  by (auto simp: artifact_directory_def is_directory_def artifact_marker_matches_def marker_of_def artifact_marker_def has_marker_keys_def
      marker_keys_def equals_one_def member_of_def)

definition install_intent :: "lc_env \<Rightarrow> string \<Rightarrow> tx_action \<Rightarrow> artifact \<Rightarrow> package_records \<Rightarrow> tx_intent" where
  "install_intent E op action a before =
     new_intent E op action (m_id (va_manifest a)) before
       (AList.update (m_id (va_manifest a)) (updated_record a (map_of before (m_id (va_manifest a)))) before)
       (Some (va_sha a)) (Some (va_key a)) True (action = Tx_Update)"

lemma keyed_update: "keyed d \<Longrightarrow> m_id (pr_manifest r) = p \<Longrightarrow> keyed (AList.update p r d)"
  using set_update_subset [of p r d] by (fastforce simp: keyed_def list_all_iff)

lemma install_intent_ok:
  assumes "fullmatch lifecycle_id_pattern op" "keyed d" "map_of d = rs" "action \<in> {Tx_Install, Tx_Update}"
    and "installs E action a rs pk rs' pk'"
  shows "tx_intent_ok E (install_intent E op action a d) rs pk rs' pk'"
proof -
  let ?p = "m_id (va_manifest a)" and ?r = "updated_record a (rs (m_id (va_manifest a)))"
  have r: "m_id (pr_manifest ?r) = ?p" "pr_manifest ?r = va_manifest a" by (simp_all add: updated_record_def)
  have "package_of (install_intent E op action a d) rs' (artifact_directory a)"
    using assms(5) artifact_directory_ok [of a] r(2)
    by (auto simp: package_of_def install_intent_def new_intent_def Let_def installs_def)
  then show ?thesis
    using assms keyed_update [OF assms(2) r(1)]
    by (auto simp: tx_intent_ok_def install_intent_def new_intent_def Let_def name_prefix_def installs_def map_of_update)
qed

definition staged_files where
  "staged_files E i rs pk e s \<longleftrightarrow>
     undoable_files E i pk s \<and> registry_is E rs s \<and> lc_packages s = pk \<and> lc_backups s = Map.empty \<and> lc_stages s (the (ti_stage i)) = e"

lemma staged_on_files: "on_files (staged_files E i rs pk e)"
  using disk_on_files by (simp add: on_files_def staged_files_def)

lemma restaged:
  "ti_stage i = Some n \<Longrightarrow> staged_files E i rs pk e s \<Longrightarrow> staged_files E i rs pk x (s\<lparr>lc_stages := (lc_stages s)(n := x)\<rparr>)"
  by (auto simp: staged_files_def undoable_at_def)

lemma stage_triple:
  assumes ok: "tx_intent_ok E i rs pk rs' pk'" and n: "ti_stage i = Some n" and new: "pk' (ti_package_id i) = Some (artifact_directory a)"
  shows "hoare (with_journal E (staged_files E i rs pk None) op A) (stage_artifact E i a)
     (\<lambda>_. with_journal E (ready_files E i rs pk pk') op A) (with_journal E (undoable_files E i pk) op A) (with_journal E (undoable_files E i pk) op A)"
proof -
  let ?U = "with_journal E (undoable_files E i pk) op A"
  have U: "undoable_files E i pk s" if "staged_files E i rs pk e s" for s e using that by (simp add: staged_files_def)
  have i: "i\<lparr>ti_phase := ti_phase i\<rparr> = i" by simp
  have extracted: "hoare (with_journal E (staged_files E i rs pk None) op A) (extract_stage E a n)
      (\<lambda>_. with_journal E (staged_files E i rs pk (Some (Directory None (va_files a)))) op A) ?U ?U"
  proof -
    have "hoare (with_journal E (staged_files E i rs pk None) op A)
        (effect E Extract_Archive (\<lambda>e s. s\<lparr>lc_stages := (lc_stages s)(n \<mapsto> e)\<rparr>) (\<lambda>s. s\<lparr>lc_stages := (lc_stages s)(n \<mapsto> Directory None (va_files a))\<rparr>))
        (\<lambda>_. with_journal E (staged_files E i rs pk (Some (Directory None (va_files a)))) op A) ?U ?U"
      by (rule file_effect [OF staged_on_files], simp, simp, erule restaged [OF n], erule U,
          erule U [OF restaged [OF n]], erule U [OF restaged [OF n]])
    then show ?thesis unfolding extract_stage_def
      by (rule hoare_eq [rotated]) (auto simp: n staged_files_def with_journal_def)
  qed
  have marker: "hoare (with_journal E (staged_files E i rs pk (Some (Directory None (va_files a)))) op A) (write_artifact_marker E n a)
      (\<lambda>_. with_journal E (staged_files E i rs pk (Some (artifact_directory a))) op A) ?U ?U"
    unfolding write_artifact_marker_def
  proof (rule file_step [OF staged_on_files])
    let ?mark = "\<lambda>e. map_option (\<lambda>e. case e of
         Directory m t \<Rightarrow> Directory (Some (artifact_marker (m_id (va_manifest a)) (m_version (va_manifest a)) (va_sha a) (va_key a))) t
       | Other_File \<Rightarrow> Other_File) e"
    show "staged_files E i rs pk (Some (artifact_directory a)) (s\<lparr>lc_stages := (lc_stages s)(n := ?mark (lc_stages s n))\<rparr>)"
      if "staged_files E i rs pk (Some (Directory None (va_files a))) s" for s
      using restaged [OF n that, of "?mark (lc_stages s n)"] that n by (simp add: staged_files_def artifact_directory_def)
    then show "undoable_files E i pk (s\<lparr>lc_stages := (lc_stages s)(n := ?mark (lc_stages s n))\<rparr>)"
      if "staged_files E i rs pk (Some (Directory None (va_files a))) s" for s using that U by blast
  qed (use U in auto)
  have ready: "ready_files E i rs pk pk' s" if "staged_files E i rs pk (Some (artifact_directory a)) s" for s
    using that n new by (simp add: staged_files_def ready_files_def)
  have validated: "hoare (with_journal E (staged_files E i rs pk (Some (artifact_directory a))) op A) (hook E ''stage_validator'' ''stage'')
      (\<lambda>_. with_journal E (ready_files E i rs pk pk') op A) ?U ?U"
    by (rule hoare_conseq [OF hook_triple [of "staged_files E i rs pk (Some (artifact_directory a))" "undoable_files E i pk" E op A, OF staged_on_files]])
      (use U ready in \<open>auto simp: with_journal_def\<close>)
  show ?thesis
    using paths_ok(2) [OF ok, of "ti_phase i"] unfolding i n
    by (simp add: stage_artifact_def hoare_seq [OF extracted hoare_seq [OF marker validated]])
qed

lemma install_transaction:
  assumes C: "codec_ok (rg_codec (lc_reg E))" and ok: "tx_intent_ok E i rs pk rs' pk'"
    and step: "step rs' pk'" and i: "ti_phase i = Prepared" "ti_operation_id i = op" "ti_stage i \<noteq> None"
    and new: "pk' (ti_package_id i) = Some (artifact_directory a)" and r: "\<not> lr_replay r"
  shows "hoare (started E op rs pk)
     (seq (persist_intent E i) (\<lambda>_.
      seq (catch (stage_artifact E i a) (undo_and_raise E i c1 m1)) (\<lambda>_.
      seq (catch (hook E ''failure_injector'' ''after_stage'') (undo_and_raise E i c2 m2)) (\<lambda>_.
      seq (if fresh then catch (hook E ''occupancy_reset'' p) (undo_and_raise E i c3 m3) else ret ()) (\<lambda>_.
      seq (execute E i) (\<lambda>_. ret r))))))
     (\<lambda>r s. \<not> lr_replay r \<and> (\<exists>rs' pk'. step rs' pk' \<and> lc_settled E rs' pk' s)) (reaches E step rs pk) (reaches E step rs pk)"
proof -
  let ?X = "reaches E step rs pk" and ?R = "with_journal E (ready_files E i rs pk pk') op {Some Started}"
  let ?N = "with_journal E (staged_files E i rs pk None) op {Some Started}"
  have D: "?X s" if "decided E i rs pk rs' pk' s" for s using reaches_decided [where step = step, OF ok step that] .
  have U: "?X s" if "with_journal E (undoable_files E i pk) op {Some Started} s" for s
    using D [OF decided_undoable, of "{Some Started}" s] that i(2) by simp
  obtain n where n: "ti_stage i = Some n" using i(3) by blast
  have undo: "hoare (with_journal E (undoable_files E i pk) op {Some Started}) (undo_and_raise E i c m e) Q ?X ?X" for c m e Q
    by (rule hoare_conseq [OF undo_decided [OF C ok]]) (use i(2) D in auto)
  have persist: "hoare (started E op rs pk) (persist_intent E i) (\<lambda>_. ?N) ?X ?X"
    unfolding started_def
    by (rule hoare_conseq [OF persist_triple [OF ok i(2) [symmetric] i(1)]]) (auto simp: with_journal_def staged_files_def intro: D)
  have stage: "hoare ?N (catch (stage_artifact E i a) (undo_and_raise E i c1 m1)) (\<lambda>_. ?R) ?X ?X"
    by (rule hoare_catch [OF hoare_conseq [OF stage_triple [OF ok n new]] undo]) (auto intro: U)
  have hooked: "hoare ?R (catch (hook E x y) (undo_and_raise E i c m)) (\<lambda>_. ?R) ?X ?X" for x y c m
    by (rule hoare_catch [OF hoare_conseq [OF hook_triple [of "ready_files E i rs pk pk'" "undoable_files E i pk" E op "{Some Started}", OF apply_on_files(1)]] undo])
      (auto intro: U apply_undoable)
  have maybe: "hoare ?R (if fresh then catch (hook E ''occupancy_reset'' p) (undo_and_raise E i c3 m3) else ret ()) (\<lambda>_. ?R) ?X ?X"
    by (intro hoare_if hooked hoare_ret)
  have run: "hoare ?R (execute E i) (\<lambda>_. lc_settled E rs' pk') ?X ?X"
    by (rule hoare_conseq [OF execute_triple [OF C ok i(1)]])
      (use i(2) n in \<open>auto simp: entered_files_def with_journal_def lc_settled_def intro: D\<close>)
  show ?thesis
    by (intro hoare_seq [OF persist] hoare_seq [OF stage] hoare_seq [OF hooked] hoare_seq [OF maybe] hoare_seq [OF run] hoare_ret)
      (use step r in auto)
qed

lemma install_fresh_triple:
  assumes C: "codec_ok (rg_codec (lc_reg E))" and op: "fullmatch lifecycle_id_pattern op"
    and action: "action \<in> {Tx_Install, Tx_Update}"
  shows "hoare (started E op rs pk) (install_fresh E op action a)
     (\<lambda>r s. \<not> lr_replay r \<and> (\<exists>rs' pk'. installs E action a rs pk rs' pk' \<and> lc_settled E rs' pk' s))
     (reaches E (installs E action a rs pk) rs pk) (reaches E (installs E action a rs pk) rs pk)"
proof -
  let ?p = "m_id (va_manifest a)" and ?r = "updated_record a (rs (m_id (va_manifest a)))"
  let ?rs = "rs(?p \<mapsto> ?r)" and ?pk = "pk(?p \<mapsto> artifact_directory a)"
  let ?X = "reaches E (installs E action a rs pk) rs pk"
  have transaction: "hoare (started E op rs pk)
     (seq (persist_intent E (install_intent E op action a d)) (\<lambda>_.
      seq (catch (stage_artifact E (install_intent E op action a d) a) (undo_and_raise E (install_intent E op action a d) c1 m1)) (\<lambda>_.
      seq (catch (hook E ''failure_injector'' ''after_stage'') (undo_and_raise E (install_intent E op action a d) c2 m2)) (\<lambda>_.
      seq (if action = Tx_Install then catch (hook E ''occupancy_reset'' ?p) (undo_and_raise E (install_intent E op action a d) c3 m3) else ret ()) (\<lambda>_.
      seq (execute E (install_intent E op action a d)) (\<lambda>_. ret (lifecycle_result op action ?r False)))))))
     (\<lambda>r s. \<not> lr_replay r \<and> (\<exists>rs' pk'. installs E action a rs pk rs' pk' \<and> lc_settled E rs' pk' s)) ?X ?X"
    if d: "keyed d" "map_of d = rs" and st: "installs E action a rs pk ?rs ?pk" for d c1 m1 c2 m2 c3 m3
  proof (rule install_transaction [OF C, where step = "installs E action a rs pk"])
    show "tx_intent_ok E (install_intent E op action a d) rs pk ?rs ?pk" by (rule install_intent_ok [OF op d action st])
  qed (use st in \<open>auto simp: install_intent_def new_intent_def Let_def lifecycle_result_def\<close>)
  have steps: "installs E action a rs pk ?rs ?pk"
    if "keyed d" "map_of d = rs" "existing_ok E action a (rs ?p) (pk ?p)"
      "graph_error E (AList.update ?p ?r d) ?p (pr_status ?r) = None"
      "lc_id_ok E ?p \<and> (action = Tx_Install \<longrightarrow> pk ?p = None) \<and> (action = Tx_Update \<longrightarrow> is_directory (pk ?p))" for d
  proof -
    have "keyed (AList.update ?p ?r d)" "map_of (AList.update ?p ?r d) = ?rs"
      using that(1,2) by (auto simp: updated_record_def map_of_update intro: keyed_update)
    then show ?thesis using that action by (auto simp: installs_def existing_ok_def Let_def)
  qed
  have ii: "new_intent E op action ?p d (AList.update ?p ?r d) (Some (va_sha a)) (Some (va_key a)) True (action = Tx_Update)
      = install_intent E op action a d" if "map_of d = rs" for d
    using that by (simp add: install_intent_def)
  show ?thesis
    unfolding install_fresh_def Let_def
    apply (rule hoare_seq [OF to_reaches [OF read_started(1) [OF C]]], rule hoare_fact, erule conjE)
    subgoal for d
      apply (simp only: ii)
      apply (rule hoare_seq [OF to_reaches [OF check_existing_triple [OF action]]], rule hoare_fact)
      apply (rule hoare_seq [OF to_reaches [OF checked_triple]], rule hoare_fact)
      apply (rule hoare_seq [OF to_reaches [OF check_destination_triple]], rule hoare_fact)
      apply (rule transaction [OF _ _ steps]; assumption)
      done
    done
qed

subsection \<open>Enable, disable and uninstall\<close>

lemma direct_execute:
  assumes C: "codec_ok (rg_codec (lc_reg E))" and ok: "tx_intent_ok E i rs pk rs' pk'"
    and step: "step rs' pk'" and i: "ti_phase i = Prepared" "ti_operation_id i = op" "ti_stage i = None" and r: "\<not> lr_replay r"
  shows "hoare (started E op rs pk) (seq (execute E i) (\<lambda>_. ret r))
     (\<lambda>r s. \<not> lr_replay r \<and> (\<exists>rs' pk'. step rs' pk' \<and> lc_settled E rs' pk' s)) (reaches E step rs pk) (reaches E step rs pk)"
proof (rule hoare_seq)
  show "hoare (started E op rs pk) (execute E i) (\<lambda>_. lc_settled E rs' pk') (reaches E step rs pk) (reaches E step rs pk)"
    by (rule hoare_conseq [OF execute_triple [OF C ok i(1)]])
      (use i reaches_decided [where step = step, OF ok step] in \<open>auto simp: entered_files_def started_def lc_settled_def with_journal_def\<close>)
qed (use step r in \<open>auto intro!: hoare_ret\<close>)

lemma check_installed_triple:
  assumes "map_of d = rs"
  shows "hoare (started E op rs pk) (check_installed E op p d)
     (\<lambda>r s. started E op rs pk s \<and> (rs p = Some r \<and> lc_id_ok E p \<and> installed_marker_is_valid p r (pk p))) (lc_settled E rs pk) (lc_settled E rs pk)"
proof (cases "rs p")
  case None
  then show ?thesis using assms by (simp add: check_installed_def require_record_def reject_triple)
next
  case (Some r)
  let ?bad = "reject E op ''package.integrity_marker_invalid'' (Transaction_Error ''installed package integrity marker is invalid'')"
  have "hoare (started E op rs pk) (if \<not> installed_marker_is_valid p r (pk p) then ?bad else ret r)
      (\<lambda>x s. started E op rs pk s \<and> (x = r \<and> installed_marker_is_valid p r (pk p))) (lc_settled E rs pk) (lc_settled E rs pk)"
    by (intro hoare_if reject_triple hoare_ret) auto
  then have "hoare (started E op rs pk) (\<lambda>s. if \<not> installed_marker_is_valid p r (lc_packages s p) then ?bad s else ret r s)
      (\<lambda>x s. started E op rs pk s \<and> (x = r \<and> installed_marker_is_valid p r (pk p))) (lc_settled E rs pk) (lc_settled E rs pk)"
    by (rule hoare_eq [rotated]) (simp add: started_packages)
  then have "hoare (started E op rs pk) (seq (package_path E p) (\<lambda>_ s. if \<not> installed_marker_is_valid p r (lc_packages s p) then ?bad s else ret r s))
      (\<lambda>x s. started E op rs pk s \<and> (rs p = Some x \<and> lc_id_ok E p \<and> installed_marker_is_valid p x (pk p))) (lc_settled E rs pk) (lc_settled E rs pk)"
    by (intro hoare_seq [OF path_triple] hoare_fact) (erule hoare_conseq, use Some in auto)
  then show ?thesis using assms Some by (simp add: check_installed_def require_record_def)
qed

lemma check_transition_triple:
  "hoare (started E op rs pk) (check_transition E op action p d) (\<lambda>_ s. started E op rs pk s \<and> transition_ok E action p d) (lc_settled E rs pk) (lc_settled E rs pk)"
  unfolding check_transition_def
  by (intro hoare_if reject_triple)
    (rule hoare_conseq [OF checked_triple], auto simp: transition_ok_def or_else_def split: option.splits)+

lemma maybe_reject: "hoare (started E op rs pk) (if c then reject E op code e else ret ()) (\<lambda>_ s. started E op rs pk s \<and> \<not> c) (lc_settled E rs pk) (lc_settled E rs pk)"
  by (intro hoare_if reject_triple hoare_ret) auto

lemma state_change_fresh_triple:
  assumes C: "codec_ok (rg_codec (lc_reg E))" and op: "fullmatch lifecycle_id_pattern op"
    and action: "action \<in> {Tx_Enable, Tx_Disable}"
  shows "hoare (started E op rs pk) (state_change_fresh E op p action)
     (\<lambda>r s. \<not> lr_replay r \<and> (\<exists>rs' pk'. changes_state E action p rs pk rs' pk' \<and> lc_settled E rs' pk' s))
     (reaches E (changes_state E action p rs pk) rs pk) (reaches E (changes_state E action p rs pk) rs pk)"
proof -
  have transaction: "hoare (started E op rs pk)
      (seq (execute E (new_intent E op action p d (AList.update p (r\<lparr>pr_status := target_status action\<rparr>) d) None None False False))
        (\<lambda>_. ret (lifecycle_result op action (r\<lparr>pr_status := target_status action\<rparr>) False)))
      (\<lambda>r s. \<not> lr_replay r \<and> (\<exists>rs' pk'. changes_state E action p rs pk rs' pk' \<and> lc_settled E rs' pk' s))
      (reaches E (changes_state E action p rs pk) rs pk) (reaches E (changes_state E action p rs pk) rs pk)"
    if d: "keyed d" "map_of d = rs" and r: "rs p = Some r \<and> lc_id_ok E p \<and> installed_marker_is_valid p r (pk p)"
      and prot: "\<not> (action = Tx_Disable \<and> p \<in> set (protected_packages E))" and tr: "transition_ok E action p d" for d r
  proof (rule direct_execute [OF C])
    have "keyed (AList.update p (r\<lparr>pr_status := target_status action\<rparr>) d)"
      using keyed_set_status [OF d(1), of p r "target_status action"] r d(2) by (simp add: set_status_def)
    then show "tx_intent_ok E (new_intent E op action p d (AList.update p (r\<lparr>pr_status := target_status action\<rparr>) d) None None False False)
        rs pk (rs(p \<mapsto> r\<lparr>pr_status := target_status action\<rparr>)) pk"
      using op d r action by (auto simp: tx_intent_ok_def new_intent_def Let_def map_of_update)
    show "changes_state E action p rs pk (rs(p \<mapsto> r\<lparr>pr_status := target_status action\<rparr>)) pk"
      using d r prot tr by (auto simp: changes_state_def)
  qed (simp_all add: new_intent_def Let_def lifecycle_result_def)
  show ?thesis
    unfolding state_change_fresh_def Let_def
    apply (rule hoare_seq [OF to_reaches [OF read_started(1) [OF C]]], rule hoare_fact, erule conjE)
    apply (rule hoare_seq [OF to_reaches [OF check_installed_triple]], assumption, rule hoare_fact)
    apply (rule hoare_seq [OF to_reaches [OF maybe_reject]], rule hoare_fact)
    apply (rule hoare_seq [OF to_reaches [OF checked_triple]], rule hoare_fact)
    apply (rule hoare_seq [OF to_reaches [OF check_transition_triple]], rule hoare_fact)
    apply (rule transaction; assumption)
    done
qed

lemma uninstall_fresh_triple:
  assumes C: "codec_ok (rg_codec (lc_reg E))" and op: "fullmatch lifecycle_id_pattern op"
  shows "hoare (started E op rs pk) (uninstall_fresh E op p)
     (\<lambda>r s. \<not> lr_replay r \<and> (\<exists>rs' pk'. uninstalls E p rs pk rs' pk' \<and> lc_settled E rs' pk' s))
     (reaches E (uninstalls E p rs pk) rs pk) (reaches E (uninstalls E p rs pk) rs pk)"
proof -
  let ?step = "uninstalls E p rs pk"
  have transaction: "hoare (started E op rs pk)
      (seq (execute E (new_intent E op Tx_Uninstall p d (AList.delete p d) None None False True)) (\<lambda>_. ret (uninstalled_result op p False)))
      (\<lambda>r s. \<not> lr_replay r \<and> (\<exists>rs' pk'. ?step rs' pk' \<and> lc_settled E rs' pk' s)) (reaches E ?step rs pk) (reaches E ?step rs pk)"
    if d: "keyed d" "map_of d = rs" and r: "rs p = Some r \<and> lc_id_ok E p \<and> installed_marker_is_valid p r (pk p)"
      and prot: "p \<notin> set (protected_packages E) \<and> pr_status r \<noteq> PS_Enabled" and dep: "\<not> lifecycle_dependents d p False \<noteq> []"
      and dir: "is_directory (pk p)" for d r
  proof (rule direct_execute [OF C])
    show "tx_intent_ok E (new_intent E op Tx_Uninstall p d (AList.delete p d) None None False True) rs pk (rs(p := None)) (pk(p := None))"
      using op d r dir keyed_delete [OF d(1), of p] by (auto simp: tx_intent_ok_def new_intent_def Let_def map_of_delete name_prefix_def)
    show "?step (rs(p := None)) (pk(p := None))" using d r prot dep dir by (auto simp: uninstalls_def)
  qed (simp_all add: new_intent_def Let_def uninstalled_result_def)
  have guards: "hoare (started E op rs pk)
      (if p \<in> set (protected_packages E) then reject E op c1 e1 else if pr_status r = PS_Enabled then reject E op c2 e2 else ret ())
      (\<lambda>_ s. started E op rs pk s \<and> (p \<notin> set (protected_packages E) \<and> pr_status r \<noteq> PS_Enabled)) (lc_settled E rs pk) (lc_settled E rs pk)"
    for c1 e1 c2 e2 r by (intro hoare_if reject_triple hoare_ret) auto
  have files: "hoare (started E op rs pk) (\<lambda>s. if \<not> is_directory (lc_packages s p) then reject E op code e s else ret () s)
      (\<lambda>_ s. started E op rs pk s \<and> is_directory (pk p)) (lc_settled E rs pk) (lc_settled E rs pk)" for code e
    by (rule hoare_eq [OF _ hoare_conseq [OF maybe_reject [where c = "\<not> is_directory (pk p)"]]]) (auto simp: started_packages)
  have occupancy: "hoare (started E op rs pk) (catch (hook E ''occupancy_reset'' p) (\<lambda>_. reject E op code e)) (\<lambda>_. started E op rs pk)
      (lc_settled E rs pk) (lc_settled E rs pk)" for code e
  proof (rule hoare_catch [OF _ reject_triple])
    show "hoare (started E op rs pk) (hook E ''occupancy_reset'' p) (\<lambda>_. started E op rs pk) (started E op rs pk) (lc_settled E rs pk)"
      unfolding started_def
      by (rule hoare_conseq [OF hook_triple [of "settled_files E rs pk" "settled_files E rs pk" E op "{Some Started}", OF disk_on_files(1)]])
        (auto intro: settled_weaken)
  qed
  show ?thesis
    unfolding uninstall_fresh_def Let_def
    apply (rule hoare_seq [OF to_reaches [OF read_started(1) [OF C]]], rule hoare_fact, erule conjE)
    apply (rule hoare_seq [OF to_reaches [OF check_installed_triple]], assumption, rule hoare_fact)
    apply (rule hoare_seq [OF to_reaches [OF guards]], rule hoare_fact)
    apply (rule hoare_seq [OF to_reaches [OF checked_triple]], rule hoare_fact)
    apply (rule hoare_seq [OF to_reaches [OF maybe_reject]], rule hoare_fact)
    apply (rule hoare_seq [OF to_reaches [OF path_triple]], rule hoare_fact)
    apply (rule hoare_seq [OF to_reaches [OF files]], rule hoare_fact)
    apply (rule hoare_seq [OF to_reaches [OF occupancy]])
    apply (rule transaction; assumption)
    done
qed

subsection \<open>Calls\<close>

datatype lifecycle_call =
    Install_Package string string string
  | Update_Package string string string
  | Enable_Installed string string
  | Disable_Installed string string
  | Uninstall_Installed string string
  | Recover_Packages
  | List_Packages

datatype lifecycle_answer = Changed lc_result | Recovered "string list" | Listed package_records

fun run_lifecycle :: "lc_env \<Rightarrow> lifecycle_call \<Rightarrow> lifecycle_answer proc" where
  "run_lifecycle E (Install_Package op ap sp) = seq (lifecycle_install E op ap sp) (\<lambda>r. ret (Changed r))"
| "run_lifecycle E (Update_Package op ap sp) = seq (lifecycle_update E op ap sp) (\<lambda>r. ret (Changed r))"
| "run_lifecycle E (Enable_Installed op p) = seq (lifecycle_enable E op p) (\<lambda>r. ret (Changed r))"
| "run_lifecycle E (Disable_Installed op p) = seq (lifecycle_disable E op p) (\<lambda>r. ret (Changed r))"
| "run_lifecycle E (Uninstall_Installed op p) = seq (lifecycle_uninstall E op p) (\<lambda>r. ret (Changed r))"
| "run_lifecycle E Recover_Packages = seq (recover E) (\<lambda>ids. ret (Recovered ids))"
| "run_lifecycle E List_Packages = seq (lifecycle_records E) (\<lambda>rs. ret (Listed rs))"

text \<open>The change a call is meant to make to an installation.\<close>

fun intended where
  "intended E (Install_Package op ap sp) rs pk rs' pk' = (\<exists>a. lc_verify E ap sp = Inr a \<and> installs E Tx_Install a rs pk rs' pk')"
| "intended E (Update_Package op ap sp) rs pk rs' pk' = (\<exists>a. lc_verify E ap sp = Inr a \<and> installs E Tx_Update a rs pk rs' pk')"
| "intended E (Enable_Installed op p) rs pk rs' pk' = changes_state E Tx_Enable p rs pk rs' pk'"
| "intended E (Disable_Installed op p) rs pk rs' pk' = changes_state E Tx_Disable p rs pk rs' pk'"
| "intended E (Uninstall_Installed op p) rs pk rs' pk' = uninstalls E p rs pk rs' pk'"
| "intended E Recover_Packages rs pk rs' pk' = False"
| "intended E List_Packages rs pk rs' pk' = False"

fun is_change :: "lifecycle_answer \<Rightarrow> bool" where
  "is_change (Changed r) = (\<not> lr_replay r)"
| "is_change a = False"

text \<open>What holds when an operation returns: it has made its change, or, replayed, found it made.\<close>

definition answered where
  "answered E step rs pk r s \<longleftrightarrow>
     (if lr_replay r then lc_settled E rs pk s else \<exists>rs' pk'. step rs' pk' \<and> lc_settled E rs' pk' s)"

lemma replay_triples:
  assumes C: "codec_ok (rg_codec (lc_reg E))"
  shows "hoare (lc_settled E rs pk) (install_replay E op action a) (answered E step rs pk) (lc_settled E rs pk) (lc_settled E rs pk)"
    "hoare (lc_settled E rs pk) (state_change_replay E op p action) (answered E step rs pk) (lc_settled E rs pk) (lc_settled E rs pk)"
    "hoare (lc_settled E rs pk) (uninstall_replay E op p) (answered E step rs pk) (lc_settled E rs pk) (lc_settled E rs pk)"
proof -
  note R = read_started(2) [OF C, of rs pk]
  have path: "hoare (lc_settled E rs pk) (package_path E p) (\<lambda>_. lc_settled E rs pk) (lc_settled E rs pk) (lc_settled E rs pk)" for p
    by (auto simp: package_path_def intro!: hoare_lift)
  have tail: "hoare (lc_settled E rs pk) (seq (package_path E p) (\<lambda>_ s. if \<not> b (lc_packages s p) then raise e s else ret (lifecycle_result op action r True) s))
      (answered E step rs pk) (lc_settled E rs pk) (lc_settled E rs pk)" for p b e r
    by (intro hoare_seq [OF path] hoare_if_state hoare_raise hoare_ret) (auto simp: answered_def lifecycle_result_def)
  have "hoare (lc_settled E rs pk)
      (case map_of x (m_id (va_manifest a)) of None \<Rightarrow> raise e
       | Some r \<Rightarrow> if m_version (pr_manifest r) \<noteq> m_version (va_manifest a) then raise e
          else seq (package_path E (m_id (va_manifest a))) (\<lambda>_ s.
            if \<not> artifact_marker_matches (lc_packages s (m_id (va_manifest a))) (m_id (va_manifest a)) (m_version (va_manifest a)) (va_sha a) (va_key a)
            then raise e s else ret (lifecycle_result op action r True) s))
      (answered E step rs pk) (lc_settled E rs pk) (lc_settled E rs pk)" for x e
    by (cases "map_of x (m_id (va_manifest a))") (auto intro!: hoare_if tail hoare_raise)
  then show "hoare (lc_settled E rs pk) (install_replay E op action a) (answered E step rs pk) (lc_settled E rs pk) (lc_settled E rs pk)"
    unfolding install_replay_def Let_def by (intro hoare_seq [OF R] hoare_fact)
  show "hoare (lc_settled E rs pk) (state_change_replay E op p action) (answered E step rs pk) (lc_settled E rs pk) (lc_settled E rs pk)"
    unfolding state_change_replay_def
    by (intro hoare_seq [OF R] hoare_fact hoare_seq [where A = "\<lambda>_. lc_settled E rs pk"])
      (auto simp: raise_def ret_def answered_def lifecycle_result_def hoare_def lift_def split: sum.split)
  show "hoare (lc_settled E rs pk) (uninstall_replay E op p) (answered E step rs pk) (lc_settled E rs pk) (lc_settled E rs pk)"
    unfolding uninstall_replay_def
    by (intro hoare_seq [OF R] hoare_fact) (auto simp: answered_def uninstalled_result_def intro!: hoare_raise hoare_ret)
qed

lemma seq_assoc: "seq (seq m k) l = seq m (\<lambda>x. seq (k x) l)"
  by (auto simp: seq_def fun_eq_iff split: prod.split outcome.split)

text \<open>Where a call may start: from there, the recovery it begins with leads to an installation.\<close>

definition leads_to where
  "leads_to E P rs pk X \<longleftrightarrow>
     hoare P (seq (ensure_roots E) (\<lambda>_. recover_locked E)) (\<lambda>_. lc_settled E rs pk) X X
     \<and> (\<forall>s. P s \<longrightarrow> X s) \<and> (\<forall>s. lc_settled E rs pk s \<longrightarrow> X s)"

lemma leads_hoare:
  "leads_to E P rs pk X \<Longrightarrow> hoare P (seq (ensure_roots E) (\<lambda>_. recover_locked E)) (\<lambda>_. lc_settled E rs pk) X X"
  by (simp add: leads_to_def)

lemma operation_triple:
  assumes start: "leads_to E P rs pk X" and reach: "\<And>s. reaches E step rs pk s \<Longrightarrow> X s"
    and replay: "hoare (lc_settled E rs pk) m (answered E step rs pk) (lc_settled E rs pk) (lc_settled E rs pk)"
    and fresh: "hoare (started E op rs pk) m' (\<lambda>r s. \<not> lr_replay r \<and> (\<exists>rs' pk'. step rs' pk' \<and> lc_settled E rs' pk' s))
      (reaches E step rs pk) (reaches E step rs pk)"
  shows "hoare P (seq (enter_operation E op action target) (\<lambda>replay. if replay then m else m')) (answered E step rs pk) X X"
proof (rule hoare_seq)
  have "hoare (lc_settled E rs pk) (begin_tx E op a target) (\<lambda>replay s. if replay then lc_settled E rs pk s else started E op rs pk s) X X" for a
    by (rule hoare_conseq [OF begin_tx_triple]) (use start in \<open>auto simp: leads_to_def\<close>)
  then have "hoare P (seq (seq (ensure_roots E) (\<lambda>_. recover_locked E)) (\<lambda>_. begin_tx E op a target))
      (\<lambda>replay s. if replay then lc_settled E rs pk s else started E op rs pk s) X X" for a
    by (rule hoare_seq [OF leads_hoare [OF start]])
  then show "hoare P (enter_operation E op action target) (\<lambda>replay s. if replay then lc_settled E rs pk s else started E op rs pk s) X X"
    by (simp add: enter_operation_def seq_assoc)
  have f: "hoare (started E op rs pk) m' (answered E step rs pk) X X"
    by (rule hoare_conseq [OF fresh]) (auto simp: answered_def intro: reach)
  have "hoare (lc_settled E rs pk) m (answered E step rs pk) X X"
    by (rule hoare_conseq [OF replay]) (auto intro: reach reaches_settled)
  then show "hoare (\<lambda>s. if r then lc_settled E rs pk s else started E op rs pk s) (if r then m else m') (answered E step rs pk) X X" for r
    using f by simp
qed

text \<open>The simulation: a call, cut short or not, makes its intended change or none.\<close>

lemma call_from:
  assumes C: "codec_ok (rg_codec (lc_reg E))" and start: "leads_to E P rs pk X"
    and reach: "\<And>s. reaches E (intended E c rs pk) rs pk s \<Longrightarrow> X s"
  shows "hoare P (run_lifecycle E c)
     (\<lambda>x s. if is_change x then \<exists>rs' pk'. intended E c rs pk rs' pk' \<and> lc_settled E rs' pk' s else lc_settled E rs pk s) X X"
proof -
  let ?Q = "\<lambda>x s. if is_change x then \<exists>rs' pk'. intended E c rs pk rs' pk' \<and> lc_settled E rs' pk' s else lc_settled E rs pk s"
  have here: "X s" if "P s" for s using that start by (simp add: leads_to_def)
  have validated: "hoare P (seq (lift v) k) Q X X"
    if "\<And>x. v = Inr x \<Longrightarrow> hoare P (k x) Q X X" for v :: "lc_error + 'b" and k :: "'b \<Rightarrow> 'c proc" and Q
    using that by (cases v) (auto simp: lift_def intro!: hoare_raise here)
  have changed: "hoare P (seq m (\<lambda>r. ret (Changed r))) ?Q X X"
    if "hoare P m (answered E (intended E c rs pk) rs pk) X X" for m
    by (rule hoare_seq [OF that]) (auto simp: answered_def intro!: hoare_ret split: if_splits)
  have op: "hoare P (seq (lift (validate_lifecycle_id op)) k) Q X X"
    if "fullmatch lifecycle_id_pattern op \<Longrightarrow> hoare P (k op) Q X X" for op k and Q :: "lc_result \<Rightarrow> lc_disk \<Rightarrow> bool"
    by (rule validated) (use that in \<open>auto simp: validate_lifecycle_id_def split: if_splits\<close>)
  have pid: "hoare P (seq (lift (validate_package_id E p)) k) Q X X"
    if "hoare P (k p) Q X X" for p k and Q :: "lc_result \<Rightarrow> lc_disk \<Rightarrow> bool"
    by (rule validated) (use that in \<open>auto simp: validate_package_id_def split: if_splits\<close>)
  show ?thesis
  proof (cases c)
    case (Install_Package op' ap sp)
    have "hoare P (install_or_update E op' a Tx_Install) (answered E (intended E c rs pk) rs pk) X X"
      if "lc_verify E ap sp = Inr a" for a
      unfolding install_or_update_def
      by (rule op, rule operation_triple [OF start _ replay_triples(1) [OF C]], erule reach, rule hoare_conseq [OF install_fresh_triple [OF C]])
        (use that Install_Package in \<open>auto simp: reaches_def\<close>)
    then show ?thesis unfolding Install_Package run_lifecycle.simps lifecycle_install_def
      by (intro changed [unfolded Install_Package] validated [unfolded Install_Package]) (simp add: Install_Package)
  next
    case (Update_Package op' ap sp)
    have "hoare P (install_or_update E op' a Tx_Update) (answered E (intended E c rs pk) rs pk) X X"
      if "lc_verify E ap sp = Inr a" for a
      unfolding install_or_update_def
      by (rule op, rule operation_triple [OF start _ replay_triples(1) [OF C]], erule reach, rule hoare_conseq [OF install_fresh_triple [OF C]])
        (use that Update_Package in \<open>auto simp: reaches_def\<close>)
    then show ?thesis unfolding Update_Package run_lifecycle.simps lifecycle_update_def
      by (intro changed [unfolded Update_Package] validated [unfolded Update_Package]) (simp add: Update_Package)
  next
    case (Enable_Installed op' p)
    have "hoare P (lifecycle_enable E op' p) (answered E (intended E c rs pk) rs pk) X X"
      unfolding lifecycle_enable_def state_change_def
      by (rule op, rule pid, rule operation_triple [OF start _ replay_triples(2) [OF C]], erule reach, rule hoare_conseq [OF state_change_fresh_triple [OF C]])
        (use Enable_Installed in \<open>auto simp: reaches_def\<close>)
    then show ?thesis unfolding Enable_Installed run_lifecycle.simps by (rule changed [unfolded Enable_Installed])
  next
    case (Disable_Installed op' p)
    have "hoare P (lifecycle_disable E op' p) (answered E (intended E c rs pk) rs pk) X X"
      unfolding lifecycle_disable_def state_change_def
      by (rule op, rule pid, rule operation_triple [OF start _ replay_triples(2) [OF C]], erule reach, rule hoare_conseq [OF state_change_fresh_triple [OF C]])
        (use Disable_Installed in \<open>auto simp: reaches_def\<close>)
    then show ?thesis unfolding Disable_Installed run_lifecycle.simps by (rule changed [unfolded Disable_Installed])
  next
    case (Uninstall_Installed op' p)
    have "hoare P (lifecycle_uninstall E op' p) (answered E (intended E c rs pk) rs pk) X X"
      unfolding lifecycle_uninstall_def
      by (rule op, rule pid, rule operation_triple [OF start _ replay_triples(3) [OF C]], erule reach, rule hoare_conseq [OF uninstall_fresh_triple [OF C]])
        (use Uninstall_Installed in \<open>auto simp: reaches_def\<close>)
    then show ?thesis unfolding Uninstall_Installed run_lifecycle.simps by (rule changed [unfolded Uninstall_Installed])
  next
    case Recover_Packages
    have "hoare P (seq (recover E) (\<lambda>ids. ret (Recovered ids))) ?Q X X"
      unfolding recover_def
      by (rule hoare_seq [OF leads_hoare [OF start]]) (auto intro!: hoare_ret)
    then show ?thesis unfolding Recover_Packages by simp
  next
    case List_Packages
    have "hoare (lc_settled E rs pk) (read_package_records E) (\<lambda>_. lc_settled E rs pk) X X"
      by (rule hoare_conseq [OF read_started(2) [OF C]]) (use start in \<open>auto simp: leads_to_def\<close>)
    then have "hoare P (seq (seq (ensure_roots E) (\<lambda>_. recover_locked E)) (\<lambda>_. read_package_records E)) (\<lambda>_. lc_settled E rs pk) X X"
      by (rule hoare_seq [OF leads_hoare [OF start]])
    then have "hoare P (lifecycle_records E) (\<lambda>_. lc_settled E rs pk) X X" by (simp add: lifecycle_records_def seq_assoc)
    then have "hoare P (seq (lifecycle_records E) (\<lambda>ids. ret (Listed ids))) ?Q X X"
      by (rule hoare_seq) (auto intro!: hoare_ret)
    then show ?thesis unfolding List_Packages by simp
  qed
qed

lemma call_triple:
  assumes C: "codec_ok (rg_codec (lc_reg E))"
  shows "hoare (represents E rs pk) (run_lifecycle E c)
     (\<lambda>x s. if is_change x then \<exists>rs' pk'. intended E c rs pk rs' pk' \<and> lc_settled E rs' pk' s else lc_settled E rs pk s)
     (reaches E (intended E c rs pk) rs pk) (reaches E (intended E c rs pk) rs pk)"
proof (rule call_from [OF C])
  have "hoare (represents E rs pk) (seq (ensure_roots E) (\<lambda>_. recover_locked E)) (\<lambda>_. lc_settled E rs pk) (represents E rs pk) (represents E rs pk)"
    by (rule hoare_seq [OF roots_triple recover_locked_triple [OF C]])
  then show "leads_to E (represents E rs pk) rs pk (reaches E (intended E c rs pk) rs pk)"
    by (auto simp: leads_to_def reaches_def intro: settled_represents elim!: hoare_conseq)
qed

text \<open>A call that finds a stranded disk.\<close>

lemma call_stranded:
  assumes C: "codec_ok (rg_codec (lc_reg E))" and s: "stranded E rs pk rs' pk' s" and run: "run_lifecycle E c s = (out, s')"
  shows "\<exists>i pk''. tx_intent_ok E i rs pk rs' pk' \<and> tx_intent_ok E i rs pk rs' pk'' \<and>
    (case out of
       Done x \<Rightarrow> if is_change x then \<exists>rs2 pk2. intended E c rs' pk'' rs2 pk2 \<and> lc_settled E rs2 pk2 s' else lc_settled E rs' pk'' s'
     | _ \<Rightarrow> reaches E (intended E c rs' pk'') rs' pk'' s' \<or> restranded E rs pk rs' pk' s')"
proof -
  obtain i where i: "tx_intent_ok E i rs pk rs' pk'" using s by (auto simp: stranded_def)
  have "timeless (stranded E rs pk rs' pk')"
    using disk_on_files by (simp add: timeless_def stranded_def with_journal_def on_files_def)
  then have roots: "hoare (stranded E rs pk rs' pk') (ensure_roots E) (\<lambda>_. stranded E rs pk rs' pk') (restranded E rs pk rs' pk') (restranded E rs pk rs' pk')"
    unfolding ensure_roots_def by (intro keeps_hoare keeps_idle) (auto simp: restranded_def)
  have start: "hoare (stranded E rs pk rs' pk') (seq (ensure_roots E) (\<lambda>_. recover_locked E))
     (\<lambda>_ s. \<exists>i pk''. tx_intent_ok E i rs pk rs' pk' \<and> tx_intent_ok E i rs pk rs' pk'' \<and> lc_settled E rs' pk'' s)
     (restranded E rs pk rs' pk') (restranded E rs pk rs' pk')"
    by (rule hoare_seq [OF roots recover_stranded [OF C]])
  obtain r s1 where first: "seq (ensure_roots E) (\<lambda>_. recover_locked E) s = (r, s1)" by (rule prod.exhaust)
  let ?X = "\<lambda>pk'' t. reaches E (intended E c rs' pk'') rs' pk'' t \<or> restranded E rs pk rs' pk' t"
  have "\<exists>i pk''. tx_intent_ok E i rs pk rs' pk' \<and> tx_intent_ok E i rs pk rs' pk'' \<and> leads_to E (\<lambda>x. x = s) rs' pk'' (?X pk'')"
  proof (cases r)
    case (Done x)
    then obtain i pk'' where "tx_intent_ok E i rs pk rs' pk'" "tx_intent_ok E i rs pk rs' pk''" "lc_settled E rs' pk'' s1"
      using start s first unfolding hoare_def by fastforce
    moreover from this(3) have "leads_to E (\<lambda>x. x = s) rs' pk'' (?X pk'')"
      using Done first s by (simp add: leads_to_def hoare_def restranded_def reaches_settled)
    ultimately show ?thesis by blast
  next
    case (Raised e)
    then have "restranded E rs pk rs' pk' s1" using start s first unfolding hoare_def by fastforce
    then have "leads_to E (\<lambda>x. x = s) rs' pk' (?X pk')"
      using Raised first s by (simp add: leads_to_def hoare_def reaches_settled) (simp add: restranded_def)
    then show ?thesis using i by blast
  next
    case Crashed
    then have "restranded E rs pk rs' pk' s1" using start s first unfolding hoare_def by fastforce
    then have "leads_to E (\<lambda>x. x = s) rs' pk' (?X pk')"
      using Crashed first s by (simp add: leads_to_def hoare_def reaches_settled) (simp add: restranded_def)
    then show ?thesis using i by blast
  qed
  then obtain i pk'' where ok: "tx_intent_ok E i rs pk rs' pk'" "tx_intent_ok E i rs pk rs' pk''"
    and l: "leads_to E (\<lambda>x. x = s) rs' pk'' (?X pk'')" by blast
  have "hoare (\<lambda>x. x = s) (run_lifecycle E c)
     (\<lambda>x s. if is_change x then \<exists>rs2 pk2. intended E c rs' pk'' rs2 pk2 \<and> lc_settled E rs2 pk2 s else lc_settled E rs' pk'' s) (?X pk'') (?X pk'')"
    by (rule call_from [OF C l]) simp
  then have "case out of
       Done x \<Rightarrow> if is_change x then \<exists>rs2 pk2. intended E c rs' pk'' rs2 pk2 \<and> lc_settled E rs2 pk2 s' else lc_settled E rs' pk'' s'
     | _ \<Rightarrow> ?X pk'' s'"
    using run unfolding hoare_def by (cases out) auto
  then show ?thesis using ok by blast
qed

end
