(* ===== verification/Package_Installation.thy ===== *)
theory Package_Installation
  imports Package_Lifecycle_Safety
begin

text \<open>
  The installation behind the disk: sequences of calls, each under its own faults, and the invariant they keep,
  that every registered package has its directory with the marker of its version and that what is enabled can run.
\<close>

subsection \<open>Sequences of calls\<close>

text \<open>A session is a call with the faults and the clock it meets.\<close>

type_synonym lifecycle_session = "(effect_kind \<Rightarrow> nat \<Rightarrow> fault) \<times> (nat \<Rightarrow> int) \<times> lifecycle_call"

fun run_session :: "lc_env \<Rightarrow> lifecycle_session \<Rightarrow> lc_disk \<Rightarrow> lc_disk" where
  "run_session E (F, T, c) s = snd (run_lifecycle (E\<lparr>lc_fault := F, lc_time := T\<rparr>) c s)"

fun run_sessions :: "lc_env \<Rightarrow> lifecycle_session list \<Rightarrow> lc_disk \<Rightarrow> lc_disk" where
  "run_sessions E [] s = s"
| "run_sessions E (x # xs) s = run_sessions E xs (run_session E x s)"

definition empty_disk :: lc_disk where
  "empty_disk = \<lparr>lc_registry = None, lc_packages = Map.empty, lc_stages = Map.empty, lc_backups = Map.empty,
     lc_intents = [], lc_journal = None, lc_tick = 0\<rparr>"

text \<open>What a disk stands for and what a call is meant to do do not depend on faults and clocks.\<close>

lemma represents_env: "represents (E\<lparr>lc_fault := F, lc_time := T\<rparr>) = represents E"
  by (simp add: represents_def [abs_def] settled_files_def [abs_def] registry_is_def [abs_def] tx_intent_ok_def [abs_def] name_prefix_def [abs_def]
      with_journal_def [abs_def] undoable_at_def [abs_def] committed_files_def [abs_def] holds_intent_def [abs_def] intent_name_def [abs_def])

lemma stranded_env: "stranded (E\<lparr>lc_fault := F, lc_time := T\<rparr>) = stranded E"
  by (simp add: stranded_def [abs_def] registry_reads_def [abs_def] tx_intent_ok_def [abs_def] name_prefix_def [abs_def]
      with_journal_def [abs_def] undoable_at_def [abs_def] holds_intent_def [abs_def] intent_name_def [abs_def])

lemma intent_env: "tx_intent_ok (E\<lparr>lc_fault := F, lc_time := T\<rparr>) = tx_intent_ok E"
  by (intro ext) (simp add: tx_intent_ok_def name_prefix_def cong: if_cong)

lemma settled_env: "lc_settled (E\<lparr>lc_fault := F, lc_time := T\<rparr>) = lc_settled E"
  by (simp add: lc_settled_def [abs_def] settled_files_def [abs_def] registry_is_def [abs_def])

lemma graph_env:
  "graph_error (E\<lparr>lc_fault := F, lc_time := T\<rparr>) = graph_error E"
  "require_enabled_dependencies (E\<lparr>lc_fault := F, lc_time := T\<rparr>) = require_enabled_dependencies E"
  "require_enabled_capabilities (E\<lparr>lc_fault := F, lc_time := T\<rparr>) = require_enabled_capabilities E"
proof -
  let ?E = "E\<lparr>lc_fault := F, lc_time := T\<rparr>"
  have d: "enabled_dependency_error ?E = enabled_dependency_error E" by (simp add: fun_eq_iff enabled_dependency_error_def split: option.split)
  show deps: "require_enabled_dependencies ?E = require_enabled_dependencies E"
    by (simp add: fun_eq_iff require_enabled_dependencies_def d split: sum.split)
  show caps: "require_enabled_capabilities ?E = require_enabled_capabilities E"
    by (simp add: fun_eq_iff require_enabled_capabilities_def)
  have "validate_graph ?E = validate_graph E" by (simp add: fun_eq_iff validate_graph_def)
  then show "graph_error ?E = graph_error E" by (simp add: fun_eq_iff graph_error_def deps caps split: if_split)
qed

lemma intended_env: "intended (E\<lparr>lc_fault := F, lc_time := T\<rparr>) c = intended E c"
  by (cases c) (simp_all add: installs_def [abs_def] changes_state_def [abs_def] uninstalls_def [abs_def] may_update_def [abs_def]
      transition_ok_def [abs_def] protected_packages_def graph_env fun_eq_iff)

subsection \<open>The invariant of an installation\<close>

definition installation_ok where
  "installation_ok E rs pk \<longleftrightarrow>
     (\<forall>p. rs p = None \<longrightarrow> pk p = None)
     \<and> (\<forall>p r. rs p = Some r \<longrightarrow> m_id (pr_manifest r) = p \<and> p \<notin> set RESERVED_PACKAGE_IDS \<and> is_directory (pk p)
          \<and> (\<exists>sha key. artifact_marker_matches (pk p) p (m_version (pr_manifest r)) sha key))
     \<and> (\<exists>d. keyed d \<and> map_of d = rs \<and> runnable (rg_spec_in (lc_reg E)) d)"

lemma runnable_cong: "map_of d = map_of d' \<Longrightarrow> runnable spec d = runnable spec d'"
  by (simp add: runnable_def needs_met_def enabled_manifests_def)

text \<open>A record that is not enabled, before and after, changes nothing that is enabled.\<close>

lemma runnable_idle:
  assumes run: "runnable spec d" and same: "\<And>k r. map_of d' k = Some r \<and> pr_status r = PS_Enabled \<longleftrightarrow> map_of d k = Some r \<and> pr_status r = PS_Enabled"
  shows "runnable spec d'"
proof -
  have "enabled_manifests d' = enabled_manifests d" unfolding enabled_manifests_def by (simp only: same)
  moreover have "needs_met spec d' x" if "needs_met spec d x" for x
    using needs_met_mono [OF that, of d'] same by blast
  ultimately show ?thesis using run unfolding runnable_def same by auto
qed

lemma lifecycle_dependency_error:
  "require_enabled_dependencies E d p = None \<longleftrightarrow>
     (\<exists>r. map_of d p = Some r \<and> first_error (dependency_enabled_error (lc_reg E) d p) (m_dependencies (pr_manifest r)) = None)"
proof (cases "map_of d p")
  case (Some r)
  have "enabled_dependency_error E d x = None \<longleftrightarrow> dependency_enabled_error (lc_reg E) d p x = None" for x
    by (auto simp: enabled_dependency_error_def dependency_enabled_error_def split: option.split)
  then show ?thesis using Some by (simp add: require_enabled_dependencies_def require_record_def first_error_None_iff)
qed (simp add: require_enabled_dependencies_def require_record_def)

lemma compatible_graph:
  assumes "keyed d" "validate_graph E d = None"
  shows "compatible (rg_spec_in (lc_reg E)) (rg_core_version (lc_reg E)) (manifests_of d)"
proof -
  let ?ms = "dict_values (manifests_of d)"
  obtain ord where "resolve_install_order (rg_spec_in (lc_reg E)) ?ms (rg_core_version (lc_reg E)) [] = Some (Inr ord)"
    using assms(2) by (auto simp: validate_graph_def split: option.splits sum.splits)
  note c = order_members(4) [OF _ this]
  have ids: "map (\<lambda>m. (m_id m, m)) ?ms = manifests_of d"
    using assms(1) by (auto simp: manifests_of_def dict_values_def keyed_def list_all_iff intro!: map_cong)
  have "dict_ok (manifests_of d)" using assms(1) by (simp add: keyed_def manifests_of_ok)
  then have "map_of (resulting ?ms []) = map_of (manifests_of d)"
    using fold_update_dict [of "[]" "manifests_of d"] by (simp add: resulting_def merge_packages_def ids)
  then show ?thesis using c by (simp add: compatible_def)
qed

lemma capabilities_none:
  "require_enabled_capabilities E d en dis = None \<longleftrightarrow>
     resolve_capabilities (rg_spec_in (lc_reg E))
       (manifests_of (filter (\<lambda>(k, r). Some k \<noteq> dis \<and> (pr_status r = PS_Enabled \<or> Some k = en)) d)) = None"
  by (simp add: require_enabled_capabilities_def split: option.split)

lemma compatible_version:
  "compatible spec core all \<Longrightarrow> map_of all k = Some m \<Longrightarrow> x \<in> set (m_dependencies m) \<Longrightarrow> map_of all (d_package_id x) = Some t
    \<Longrightarrow> version_matches spec (m_version t) (d_version x)"
  unfolding compatible_def by blast

lemma update_runnable:
  assumes run: "runnable (rg_spec_in (lc_reg E)) d" and d: "map_of d p = Some old" "pr_status old = PS_Enabled"
    and d': "keyed d'" "map_of d' = (map_of d)(p \<mapsto> r)" "pr_status r = PS_Enabled"
    and graph: "validate_graph E d' = None" "require_enabled_dependencies E d' p = None" "require_enabled_capabilities E d' None None = None"
  shows "runnable (rg_spec_in (lc_reg E)) d'"
proof -
  let ?spec = "rg_spec_in (lc_reg E)"
  have versions: "version_matches ?spec (m_version (pr_manifest t)) (d_version x)"
    if "map_of d' k = Some y" "x \<in> set (m_dependencies (pr_manifest y))" "map_of d' (d_package_id x) = Some t" for k x y t
    by (rule compatible_version [OF compatible_graph [OF d'(1) graph(1)], of k "pr_manifest y"])
      (use that in \<open>simp_all add: installed_manifests_lookup\<close>)
  have "needs_met ?spec d' x" if x: "map_of d' k = Some x" "pr_status x = PS_Enabled" for k x
  proof (cases "k = p")
    case True
    then have "first_error (dependency_enabled_error (lc_reg E) d' p) (m_dependencies (pr_manifest x)) = None"
      using graph(2) x(1) by (auto simp: lifecycle_dependency_error)
    then show ?thesis by (simp add: first_dependency_error needs_met_def)
  next
    case False
    then have "needs_met ?spec d x" using run x d'(2) by (auto simp: runnable_def)
    then show ?thesis
      unfolding needs_met_def
    proof (intro ballI)
      fix e assume e: "e \<in> set (m_dependencies (pr_manifest x))"
        and old: "\<forall>e\<in>set (m_dependencies (pr_manifest x)). d_optional e \<or>
          (\<exists>t. map_of d (d_package_id e) = Some t \<and> pr_status t = PS_Enabled \<and> version_matches ?spec (m_version (pr_manifest t)) (d_version e))"
      show "d_optional e \<or> (\<exists>t. map_of d' (d_package_id e) = Some t \<and> pr_status t = PS_Enabled
          \<and> version_matches ?spec (m_version (pr_manifest t)) (d_version e))"
        using bspec [OF old e] versions [OF x(1) e] d' by (cases "d_package_id e = p") auto
    qed
  qed
  moreover have "capabilities_met ?spec (enabled_manifests d')"
  proof -
    have ok: "dict_ok d'" using d'(1) by (simp add: keyed_def)
    show ?thesis
      using graph(3) resolve_filtered [OF ok, of ?spec "\<lambda>(k, r). Some k \<noteq> None \<and> (pr_status r = PS_Enabled \<or> Some k = None)"]
      by (simp add: capabilities_none enabled_manifests_set [OF ok])
  qed
  ultimately show ?thesis unfolding runnable_def by blast
qed

lemma install_keeps:
  assumes inv: "installation_ok E rs pk" and step: "installs E action a rs pk rs' pk'"
  shows "installation_ok E rs' pk'"
proof -
  let ?p = "m_id (va_manifest a)" and ?r = "updated_record a (rs (m_id (va_manifest a)))"
  have s: "rs' = rs(?p \<mapsto> ?r)" "pk' = pk(?p \<mapsto> artifact_directory a)" "?p \<notin> set RESERVED_PACKAGE_IDS"
    using step by (auto simp: installs_def Let_def)
  obtain d' where d': "keyed d'" "map_of d' = rs'" "graph_error E d' ?p (pr_status ?r) = None"
    using step by (auto simp: installs_def Let_def)
  obtain d where d: "keyed d" "map_of d = rs" "runnable (rg_spec_in (lc_reg E)) d" using inv by (auto simp: installation_ok_def)
  have r: "pr_manifest ?r = va_manifest a" "pr_status ?r = (case rs ?p of None \<Rightarrow> PS_Installed | Some r \<Rightarrow> pr_status r)"
    by (simp_all add: updated_record_def)
  have "runnable (rg_spec_in (lc_reg E)) d'"
  proof (cases "pr_status ?r = PS_Enabled")
    case False
    then show ?thesis using r(2) s(1) d(2) d'(2) by (intro runnable_idle [OF d(3)]) (auto split: option.splits if_splits)
  next
    case True
    then obtain old where "rs ?p = Some old" "pr_status old = PS_Enabled" using r(2) by (auto split: option.splits)
    then show ?thesis using True d(2) d' s(1)
      by (intro update_runnable [OF d(3), of ?p old d' ?r]) (auto simp: graph_error_def or_else_def split: option.splits)
  qed
  then show ?thesis
    using inv d'(1,2) s r(1) artifact_directory_ok [of a]
    unfolding installation_ok_def by (auto simp: fun_upd_def)
qed

lemma state_change_keeps:
  assumes inv: "installation_ok E rs pk" and step: "changes_state E action p rs pk rs' pk'" and action: "action \<in> {Tx_Enable, Tx_Disable}"
  shows "installation_ok E rs' pk'"
proof -
  obtain r d where s: "rs p = Some r" "keyed d" "map_of d = rs" "transition_ok E action p d"
    "rs' = rs(p \<mapsto> r\<lparr>pr_status := target_status action\<rparr>)" "pk' = pk"
    using step by (auto simp: changes_state_def)
  obtain d0 where "map_of d0 = rs" "runnable (rg_spec_in (lc_reg E)) d0" using inv by (auto simp: installation_ok_def)
  then have run: "runnable (rg_spec_in (lc_reg E)) d" using runnable_cong [of d d0] s(3) by simp
  have ok: "dict_ok d" using s(2) by (simp add: keyed_def)
  have "runnable (rg_spec_in (lc_reg E)) (set_status p r (target_status action) d)"
  proof (cases "action = Tx_Enable")
    case True
    have "\<exists>x. map_of d p = Some x \<and> first_error (dependency_enabled_error (lc_reg E) d p) (m_dependencies (pr_manifest x)) = None"
      using True s(4) by (simp add: transition_ok_def lifecycle_dependency_error)
    then have "first_error (dependency_enabled_error (lc_reg E) d p) (m_dependencies (pr_manifest r)) = None"
      using s(1,3) by simp
    moreover have "(\<lambda>(k, x). Some k \<noteq> None \<and> (pr_status x = PS_Enabled \<or> Some k = Some p)) = (\<lambda>(k, o'). pr_status o' = PS_Enabled \<or> k = p)"
      by (auto simp: fun_eq_iff)
    then have "resolve_capabilities (rg_spec_in (lc_reg E)) (manifests_of (filter (\<lambda>(k, o'). pr_status o' = PS_Enabled \<or> k = p) d)) = None"
      using True s(4) by (simp add: transition_ok_def capabilities_none)
    ultimately show ?thesis using enable_runnable [OF ok run] s(1,3) True by (simp add: target_status_def)
  next
    case False
    then have "required_dependents d p True = []" using s(4) by (simp add: transition_ok_def lifecycle_dependents_def)
    moreover have filters: "filter (\<lambda>(k, x). Some k \<noteq> Some p \<and> (pr_status x = PS_Enabled \<or> Some k = None)) d
        = filter (\<lambda>(k, o'). pr_status o' = PS_Enabled \<and> k \<noteq> p) d"
      by (rule filter_cong) auto
    have "resolve_capabilities (rg_spec_in (lc_reg E)) (manifests_of (filter (\<lambda>(k, o'). pr_status o' = PS_Enabled \<and> k \<noteq> p) d)) = None"
      using False s(4) unfolding transition_ok_def capabilities_none filters by simp
    ultimately show ?thesis using disable_runnable [OF ok run, of p r] False by (simp add: target_status_def)
  qed
  moreover have "keyed (set_status p r (target_status action) d)" "map_of (set_status p r (target_status action) d) = rs'"
    using keyed_set_status [OF s(2)] s(1,3,5) by (simp_all add: set_status_def map_of_update)
  ultimately have "\<exists>d. keyed d \<and> map_of d = rs' \<and> runnable (rg_spec_in (lc_reg E)) d" by blast
  then show ?thesis using inv s(1,5,6) unfolding installation_ok_def by auto
qed

lemma uninstall_keeps:
  assumes inv: "installation_ok E rs pk" and step: "uninstalls E p rs pk rs' pk'"
  shows "installation_ok E rs' pk'"
proof -
  obtain r d where s: "rs p = Some r" "pr_status r \<noteq> PS_Enabled" "keyed d" "map_of d = rs" "rs' = rs(p := None)" "pk' = pk(p := None)"
    using step by (auto simp: uninstalls_def)
  obtain d0 where d0: "map_of d0 = rs" "runnable (rg_spec_in (lc_reg E)) d0" using inv by (auto simp: installation_ok_def)
  have "map_of (AList.delete p d) = rs(p := None)" by (simp only: map_of_delete s(4))
  then have "runnable (rg_spec_in (lc_reg E)) (AList.delete p d)"
    by (intro runnable_idle [OF d0(2)]) (use s(1,2) d0(1) in \<open>simp, blast\<close>)
  moreover have "keyed (AList.delete p d)" "map_of (AList.delete p d) = rs'"
    using keyed_delete [OF s(3)] s(4,5) by (simp_all add: map_of_delete)
  ultimately have "\<exists>d. keyed d \<and> map_of d = rs' \<and> runnable (rg_spec_in (lc_reg E)) d" by blast
  then show ?thesis using inv s(5,6) unfolding installation_ok_def by auto
qed

lemma intended_keeps: "installation_ok E rs pk \<Longrightarrow> intended E c rs pk rs' pk' \<Longrightarrow> installation_ok E rs' pk'"
  by (cases c) (auto intro: install_keeps state_change_keeps uninstall_keeps)

text \<open>Two outcomes of one intent differ in the files of the package only, and either has the marker of its version.\<close>

lemma same_intent_keeps:
  assumes i: "tx_intent_ok E i rs pk rs' pk'" "tx_intent_ok E i rs pk rs' pk''" and inv: "installation_ok E rs' pk'"
  shows "installation_ok E rs' pk''"
proof (cases "ti_action i \<in> {Tx_Install, Tx_Update}")
  case True
  then obtain e e'' where e: "pk' = pk(ti_package_id i \<mapsto> e)" "pk'' = pk(ti_package_id i \<mapsto> e'')" "package_of i rs' e''"
    using i by (auto simp: tx_intent_ok_def)
  let ?p = "ti_package_id i"
  obtain r sha key where r: "rs' ?p = Some r" "is_directory (Some e'')" "artifact_marker_matches (Some e'') ?p (m_version (pr_manifest r)) sha key"
    using e(3) by (auto simp: package_of_def)
  have other: "pk'' q = pk' q" if "q \<noteq> ?p" for q using e that by simp
  note ok = inv [unfolded installation_ok_def]
  have "pk'' q = None" if "rs' q = None" for q
    using ok that r(1) other [of q] by (cases "q = ?p") auto
  moreover have "is_directory (pk'' q) \<and> (\<exists>sha key. artifact_marker_matches (pk'' q) q (m_version (pr_manifest x)) sha key)"
    if "rs' q = Some x" for q x
  proof (cases "q = ?p")
    case True
    then show ?thesis using r e(2) that by auto
  next
    case False
    then show ?thesis using conjunct1 [OF conjunct2 [OF ok]] that other [OF False] by simp
  qed
  ultimately show ?thesis using ok unfolding installation_ok_def by simp
next
  case False
  then have "pk'' = pk'" using i by (cases "ti_action i") (auto simp: tx_intent_ok_def)
  then show ?thesis using inv by simp
qed

text \<open>What every disk satisfies: it stands for a sound installation, or it is stranded between two of them.\<close>

definition sound_disk where
  "sound_disk E s \<longleftrightarrow>
     (\<exists>rs pk. represents E rs pk s \<and> installation_ok E rs pk)
     \<or> (\<exists>rs pk rs' pk'. stranded E rs pk rs' pk' s \<and> installation_ok E rs pk \<and> installation_ok E rs' pk')"

lemma reaches_sound:
  assumes "reaches (E\<lparr>lc_fault := F, lc_time := T\<rparr>) (intended E c rs pk) rs pk s" "installation_ok E rs pk"
  shows "sound_disk E s"
  using assms intended_keeps [OF assms(2), of c] unfolding reaches_def represents_env stranded_env sound_disk_def by blast

lemma answer_sound:
  assumes "if b then \<exists>rs' pk'. intended E c rs pk rs' pk' \<and> lc_settled E rs' pk' s else lc_settled E rs pk s" "installation_ok E rs pk"
  shows "sound_disk E s"
  using assms intended_keeps [OF assms(2), of c] settled_represents unfolding sound_disk_def by (cases b) (simp_all, blast+)

lemma restranded_sound:
  assumes "restranded E rs pk rs' pk' s" "installation_ok E rs pk" "installation_ok E rs' pk'"
  shows "sound_disk E s"
  using assms same_intent_keeps unfolding restranded_def sound_disk_def by blast

lemma restranded_env: "restranded (E\<lparr>lc_fault := F, lc_time := T\<rparr>) = restranded E"
  by (simp add: restranded_def [abs_def] stranded_env represents_env intent_env)

lemma session_keeps:
  assumes C: "codec_ok (rg_codec (lc_reg E))" and sound: "sound_disk E s"
  shows "sound_disk E (run_session E x s)"
proof -
  obtain F T c where x: "x = (F, T, c)" by (cases x)
  let ?E = "E\<lparr>lc_fault := F, lc_time := T\<rparr>"
  have C': "codec_ok (rg_codec (lc_reg ?E))" using C by simp
  obtain out s' where run: "run_lifecycle ?E c s = (out, s')" by fastforce
  from sound [unfolded sound_disk_def] have "sound_disk E s'"
  proof (elim disjE exE conjE)
    fix rs pk assume r: "represents E rs pk s" and ok: "installation_ok E rs pk"
    note t = call_triple [OF C', of rs pk c, unfolded represents_env settled_env intended_env]
    show ?thesis
    proof (cases out)
      case (Done a)
      then show ?thesis using t r run answer_sound [OF _ ok] unfolding hoare_def by fastforce
    qed (use t r run reaches_sound [OF _ ok] in \<open>fastforce simp: hoare_def\<close>)+
  next
    fix rs pk rs' pk' assume st: "stranded E rs pk rs' pk' s" and ok: "installation_ok E rs pk" "installation_ok E rs' pk'"
    obtain i pk'' where i: "tx_intent_ok E i rs pk rs' pk'" "tx_intent_ok E i rs pk rs' pk''"
      and o: "case out of
       Done x \<Rightarrow> if is_change x then \<exists>rs2 pk2. intended E c rs' pk'' rs2 pk2 \<and> lc_settled E rs2 pk2 s' else lc_settled E rs' pk'' s'
     | _ \<Rightarrow> reaches ?E (intended E c rs' pk'') rs' pk'' s' \<or> restranded E rs pk rs' pk' s'"
      using call_stranded [OF C', unfolded stranded_env restranded_env settled_env intended_env intent_env, OF st run] by blast
    have ok'': "installation_ok E rs' pk''" by (rule same_intent_keeps [OF i ok(2)])
    show ?thesis
      using o answer_sound [OF _ ok''] reaches_sound [OF _ ok''] restranded_sound [OF _ ok] by (cases out) auto
  qed
  then show ?thesis using x run by simp
qed

lemma sessions_keep:
  "codec_ok (rg_codec (lc_reg E)) \<Longrightarrow> sound_disk E s \<Longrightarrow> sound_disk E (run_sessions E xs s)"
  by (induction xs arbitrary: s) (simp_all add: session_keeps)

text \<open>A recovery that returns, with the registry and the files it leaves.\<close>

lemma recovery_settles:
  assumes C: "codec_ok (rg_codec (lc_reg E))" and sound: "sound_disk E s"
    and run: "run_lifecycle (E\<lparr>lc_fault := F, lc_time := T\<rparr>) Recover_Packages s = (Done x, s')"
  shows "\<exists>rs pk. lc_settled E rs pk s' \<and> installation_ok E rs pk"
  using sound [unfolded sound_disk_def]
proof (elim disjE exE conjE)
  let ?E = "E\<lparr>lc_fault := F, lc_time := T\<rparr>"
  have C': "codec_ok (rg_codec (lc_reg ?E))" using C by simp
  {
    fix rs pk assume r: "represents E rs pk s" and ok: "installation_ok E rs pk"
    have "lc_settled E rs pk s'"
      using call_triple [OF C', of rs pk Recover_Packages, unfolded represents_env settled_env] r run
      unfolding hoare_def by (cases "is_change x") fastforce+
    then show ?thesis using ok by blast
  next
    fix rs pk rs' pk' assume st: "stranded E rs pk rs' pk' s" and ok: "installation_ok E rs pk" "installation_ok E rs' pk'"
    obtain i pk'' where i: "tx_intent_ok E i rs pk rs' pk'" "tx_intent_ok E i rs pk rs' pk''" "lc_settled E rs' pk'' s'"
      using call_stranded [OF C', unfolded stranded_env restranded_env settled_env intent_env, OF st run] by (auto split: if_splits)
    then show ?thesis using same_intent_keeps [OF i(1,2) ok(2)] by blast
  }
qed

lemma empty_represents: "represents E Map.empty Map.empty empty_disk"
  by (auto simp: represents_def settled_files_def registry_is_def empty_disk_def readable_def read_and_verify_def empty_registry keyed_def)

lemma empty_installation: "installation_ok E Map.empty Map.empty"
  by (auto simp: installation_ok_def keyed_def runnable_def capabilities_met_def enabled_manifests_def intro!: exI [of _ "[]"])

subsection \<open>A concrete manager\<close>

definition demo_artifact :: artifact where
  "demo_artifact = \<lparr>va_manifest = ex_package ''blog'' [], va_sha = replicate 64 CHR ''b'', va_key = ''k1'', va_files = [(''main.py'', ''x'')]\<rparr>"

definition manager_env :: lc_env where
  "manager_env = \<lparr>lc_reg = example_env, lc_jenv = ex_env, lc_token = (\<lambda>op. op), lc_id_ok = (\<lambda>p. p \<noteq> []), lc_version_le = (\<lambda>a b. a = b),
     lc_verify = (\<lambda>a b. Inr demo_artifact), lc_signer_ok = (\<lambda>p t a b. False), lc_state_validator = (\<lambda>c p r rs. None),
     lc_hooks = [], lc_fault = (\<lambda>k t. Proceed), lc_time = (\<lambda>t. 5)\<rparr>"

lemma demo_codec: "codec_ok (rg_codec (lc_reg manager_env))"
  by (simp add: manager_env_def example_env_codec)

text \<open>
  The write of the commit marker is published and then fails, and the process dies while it rolls back: a committed
  intent is left whose files are gone, and recovery refuses it.
\<close>

definition strand_intent :: tx_intent where
  "strand_intent = install_intent manager_env ''op-000001'' Tx_Install demo_artifact []"

definition strand_disk :: lc_disk where
  "strand_disk = empty_disk
     \<lparr>lc_registry := write_registry example_env [(''blog'', installed_record (ex_package ''blog'' []))],
      lc_packages := Map.empty(''blog'' \<mapsto> artifact_directory demo_artifact),
      lc_intents := [(''op-000001.json'', Some (strand_intent\<lparr>ti_phase := Registry_Applied\<rparr>))]\<rparr>"

definition strand_env :: lc_env where
  "strand_env = manager_env\<lparr>lc_fault := (\<lambda>k t. case k of Intent_Write Committed \<Rightarrow> Fault False Completed | Remove_Tree \<Rightarrow> Fault True Completed | _ \<Rightarrow> Proceed)\<rparr>"

definition stranded_disk :: lc_disk where
  "stranded_disk = snd (catch (write_intent strand_env (strand_intent\<lparr>ti_phase := Committed\<rparr>))
     (undo_and_raise strand_env strand_intent (failed_code strand_intent) (failed_message strand_intent)) strand_disk)"

lemma published_commit_strands_recovery:
  "lc_intents stranded_disk = [(''op-000001.json'', Some (strand_intent\<lparr>ti_phase := Committed\<rparr>))]"
  "fst (recover_committed manager_env (strand_intent\<lparr>ti_phase := Committed\<rparr>) st stranded_disk)
    = Raised (Transaction_Error ''committed package postcondition is invalid; recovery is required'')"
  by code_simp+

text \<open>
  When the interrupted removal has left the marker in place, the committed intent is accepted, and so is a package
  whose other files are gone.
\<close>

lemma stranded_recovery_accepts_partial_tree:
  "let tree = Directory (Some (artifact_marker ''blog'' (m_version (ex_package ''blog'' [])) (replicate 64 CHR ''b'') ''k1'')) [];
       s = strand_disk\<lparr>lc_packages := Map.empty(''blog'' \<mapsto> tree), lc_intents := [(''op-000001.json'', Some (strand_intent\<lparr>ti_phase := Committed\<rparr>))]\<rparr>
   in fst (postcondition manager_env (strand_intent\<lparr>ti_phase := Committed\<rparr>) s) = Done True"
  by code_simp

subsection \<open>Properties\<close>

text \<open>
  C1: a call of the package manager is atomic under failures and crashes. Whatever step fails or is cut short, and
  however far, a call that returns leaves no transaction open: its change is made, or, for a replay, a recovery and a
  listing, nothing has changed. A call that raises or dies leaves a disk that stands for the installation from before
  the call or for the one the call is meant to make, so that the next recovery leads there. One fault is the
  exception: a write of the commit marker that is published and raises all the same may leave the disk stranded
  between the two, with a committed intent over files that are partly rolled back.
\<close>

theorem lifecycle_call_is_atomic:
  assumes "codec_ok (rg_codec (lc_reg E))" "represents E rs pk s" "run_lifecycle E c s = (out, s')"
  shows "case out of
      Done x \<Rightarrow> if is_change x then \<exists>rs' pk'. intended E c rs pk rs' pk' \<and> lc_settled E rs' pk' s' else lc_settled E rs pk s'
    | _ \<Rightarrow> represents E rs pk s'
        \<or> (\<exists>rs' pk'. intended E c rs pk rs' pk'
             \<and> (represents E rs' pk' s'
                \<or> (\<exists>t. lc_fault E (Intent_Write Committed) t = Fault False Completed) \<and> stranded E rs pk rs' pk' s'))"
  using hoareD [OF call_triple [OF assms(1)] assms(2,3)] unfolding reaches_def commit_honest_def by (cases out) simp_all

theorem lifecycle_call_is_atomic_witness:
  "\<exists>out s' rs' pk'. run_lifecycle manager_env (Install_Package ''op-000001'' [] []) empty_disk = (out, s')
     \<and> (rs' = Map.empty \<and> pk' = Map.empty \<or> intended manager_env (Install_Package ''op-000001'' [] []) Map.empty Map.empty rs' pk')
     \<and> represents manager_env rs' pk' s'"
proof -
  obtain out s' where run: "run_lifecycle manager_env (Install_Package ''op-000001'' [] []) empty_disk = (out, s')" by fastforce
  have "lc_fault manager_env (Intent_Write Committed) t \<noteq> Fault False Completed" for t by (simp add: manager_env_def)
  with lifecycle_call_is_atomic [OF demo_codec empty_represents run]
  have "\<exists>rs' pk'. (rs' = Map.empty \<and> pk' = Map.empty \<or> intended manager_env (Install_Package ''op-000001'' [] []) Map.empty Map.empty rs' pk')
     \<and> represents manager_env rs' pk' s'"
    by (cases out) (auto dest: settled_represents split: if_splits)
  then show ?thesis using run by blast
qed

text \<open>
  C2: what a recovery that returns leaves, after any calls from an empty disk under any faults, each of them ended,
  failed or cut short by a crash: a registry and a package root that agree, each registered package with a directory
  that carries the marker of its version and nothing else beside them; no staged or saved directory and no intent;
  and a registry in which what is enabled can run. A stranded disk and an unreadable journal are no exception: there
  a recovery raises, or it leaves this too.
\<close>

theorem recovered_installation_is_consistent:
  assumes "codec_ok (rg_codec (lc_reg E))"
    and "run_lifecycle (E\<lparr>lc_fault := F, lc_time := T\<rparr>) Recover_Packages (run_sessions E xs empty_disk) = (Done x, s')"
  shows "\<exists>d. read_registry (lc_reg E) (lc_registry s') = Inr d \<and> keyed d \<and> runnable (rg_spec_in (lc_reg E)) d
    \<and> lc_stages s' = Map.empty \<and> lc_backups s' = Map.empty \<and> lc_intents s' = []
    \<and> (\<forall>p. case map_of d p of
          None \<Rightarrow> lc_packages s' p = None
        | Some r \<Rightarrow> is_directory (lc_packages s' p)
            \<and> (\<exists>sha key. artifact_marker_matches (lc_packages s' p) p (m_version (pr_manifest r)) sha key))"
proof -
  have "sound_disk E (run_sessions E xs empty_disk)"
    using sessions_keep [OF assms(1)] empty_represents empty_installation unfolding sound_disk_def by blast
  then obtain rs pk where settled: "lc_settled E rs pk s'" and ok: "installation_ok E rs pk"
    using recovery_settles [OF assms(1) _ assms(2)] by blast
  obtain d where d: "read_registry (lc_reg E) (lc_registry s') = Inr d" "keyed d" "map_of d = rs" "lc_packages s' = pk"
    "lc_stages s' = Map.empty" "lc_backups s' = Map.empty" "lc_intents s' = []"
    using settled by (auto simp: lc_settled_def settled_files_def registry_is_def)
  obtain d0 where "map_of d0 = rs" "runnable (rg_spec_in (lc_reg E)) d0" using ok by (auto simp: installation_ok_def)
  then have "runnable (rg_spec_in (lc_reg E)) d" using runnable_cong [of d d0] d(3) by simp
  moreover have "case map_of d p of
          None \<Rightarrow> lc_packages s' p = None
        | Some r \<Rightarrow> is_directory (lc_packages s' p)
            \<and> (\<exists>sha key. artifact_marker_matches (lc_packages s' p) p (m_version (pr_manifest r)) sha key)" for p
    using ok d(3,4) by (cases "rs p") (auto simp: installation_ok_def)
  ultimately show ?thesis using d by blast
qed

definition crash_at_start :: lifecycle_session where
  "crash_at_start = ((\<lambda>k t. if t = 0 then Fault True Completed else Proceed), (\<lambda>t. 5), Install_Package ''op-000001'' [] [])"

theorem recovered_installation_is_consistent_witness:
  "\<exists>d. read_registry example_env (lc_registry (snd (run_lifecycle (manager_env\<lparr>lc_fault := \<lambda>k t. Proceed, lc_time := \<lambda>t. 7\<rparr>)
     Recover_Packages (run_sessions manager_env [crash_at_start] empty_disk)))) = Inr d \<and> runnable (\<lambda>v s. v = s) d"
proof -
  have "fst (run_lifecycle (manager_env\<lparr>lc_fault := \<lambda>k t. Proceed, lc_time := \<lambda>t. 7\<rparr>) Recover_Packages
      (run_sessions manager_env [crash_at_start] empty_disk)) = Done (Recovered [])" by code_simp
  then obtain s' where "run_lifecycle (manager_env\<lparr>lc_fault := \<lambda>k t. Proceed, lc_time := \<lambda>t. 7\<rparr>) Recover_Packages
      (run_sessions manager_env [crash_at_start] empty_disk) = (Done (Recovered []), s')" by (metis prod.collapse)
  moreover have "lc_reg manager_env = example_env" "rg_spec_in example_env = (\<lambda>v s. v = s)"
    by (simp_all add: manager_env_def example_env_def)
  ultimately show ?thesis
    using recovered_installation_is_consistent [OF demo_codec, where F = "\<lambda>k t. Proceed" and T = "\<lambda>t. 7" and xs = "[crash_at_start]"] by fastforce
qed

end
