(* ===== verification/Connection_Store.thy ===== *)
theory Connection_Store
  imports Py_Json
begin

text \<open>
  \<open>connection_store.py\<close>: connections granted to packages and the occupancy generation that fences them. The state
  is the JSON document of the registry file; a mutation holds the file lock, so it is one function of the document.
  \<open>ConnectionRef\<close> and the pattern of package ids belong to the contracts package: \<open>'c\<close>, its codec and the pattern
  are parameters.
\<close>

subsection \<open>The registry\<close>

datatype connection_error =
    ConnectionStoreError string
  | InvalidExtensionOwner
  | UnhashableVersion
  | ConnectionInvalid

record 'c connection_env =
  ce_owner :: "'c \<Rightarrow> string"
  ce_id :: "'c \<Rightarrow> string"
  ce_validate :: "pyval \<Rightarrow> 'c option"
  ce_dump :: "'c \<Rightarrow> pyval"
  ce_owner_ok :: "string \<Rightarrow> bool"

record connection_registry =
  cn_connections :: "(pykey \<times> pyval) list"
  cn_generations :: "(string, int) dict"

type_synonym connection_file = "pyval option"

definition CONNECTION_REGISTRY_VERSION :: int where "CONNECTION_REGISTRY_VERSION = 2"
definition LEGACY_REGISTRY_VERSION :: int where "LEGACY_REGISTRY_VERSION = 1"

definition connection_key :: "string \<Rightarrow> string \<Rightarrow> string" where
  "connection_key owner connection_id = owner @ '':'' @ connection_id"

definition owner_connection_prefix :: "'c connection_env \<Rightarrow> string \<Rightarrow> connection_error + string" where
  "owner_connection_prefix E owner = (if ce_owner_ok E owner then Inr (owner @ '':'') else Inl InvalidExtensionOwner)"

definition require_generation :: "pyval \<Rightarrow> connection_error + int" where
  "require_generation v =
     (case v of
        VInt n \<Rightarrow> if n < 0 then Inl (ConnectionStoreError ''invalid connection occupancy generation'') else Inr n
      | _ \<Rightarrow> Inl (ConnectionStoreError ''invalid connection occupancy generation''))"

fun canonical_generations ::
  "'c connection_env \<Rightarrow> (string, int) dict \<Rightarrow> (pykey \<times> pyval) list \<Rightarrow> connection_error + (string, int) dict" where
  "canonical_generations E acc [] = Inr acc"
| "canonical_generations E acc ((k, v) # kvs) =
     (case k of
        KObj \<Rightarrow> Inl (ConnectionStoreError ''invalid connection occupancy generation'')
      | KStr owner \<Rightarrow>
          if \<not> ce_owner_ok E owner then Inl (ConnectionStoreError ''invalid connection occupancy generation'')
          else (case require_generation v of
                  Inl e \<Rightarrow> Inl e
                | Inr n \<Rightarrow> canonical_generations E (AList.update owner n acc) kvs))"

text \<open>\<open>version in {1, 2}\<close>: a bool is an int in Python, and a list or an object cannot be looked up in a set.\<close>

definition known_version :: "pyval option \<Rightarrow> connection_error + int" where
  "known_version v =
     (case v of
        Some (VInt n) \<Rightarrow> if n = LEGACY_REGISTRY_VERSION \<or> n = CONNECTION_REGISTRY_VERSION then Inr n
                         else Inl (ConnectionStoreError ''unsupported connection registry version'')
      | Some (VBool b) \<Rightarrow> if b then Inr LEGACY_REGISTRY_VERSION
                          else Inl (ConnectionStoreError ''unsupported connection registry version'')
      | Some (VList i xs) \<Rightarrow> Inl UnhashableVersion
      | Some (VDict i kvs) \<Rightarrow> Inl UnhashableVersion
      | _ \<Rightarrow> Inl (ConnectionStoreError ''unsupported connection registry version''))"

definition empty_connections :: pyval where
  "empty_connections =
     VDict None [(KStr ''version'', VInt CONNECTION_REGISTRY_VERSION), (KStr ''connections'', VDict None []),
                 (KStr ''owner_generations'', VDict None [])]"

definition stored_generations :: "int \<Rightarrow> (pykey \<times> pyval) list \<Rightarrow> pyval option" where
  "stored_generations version members =
     (case map_of members (KStr ''owner_generations'') of
        Some g \<Rightarrow> Some g
      | None \<Rightarrow> if version = LEGACY_REGISTRY_VERSION then Some (VDict None []) else None)"

definition read_connections :: "'c connection_env \<Rightarrow> connection_file \<Rightarrow> connection_error + connection_registry" where
  "read_connections E file =
     (case (case file of None \<Rightarrow> empty_connections | Some v \<Rightarrow> v) of
        VDict i members \<Rightarrow>
          (case known_version (map_of members (KStr ''version'')) of Inl e \<Rightarrow> Inl e | Inr version \<Rightarrow>
           case map_of members (KStr ''connections'') of
             Some (VDict j connections) \<Rightarrow>
               (case stored_generations version members of
                  Some (VDict k generations) \<Rightarrow>
                    (case canonical_generations E [] generations of
                       Inl e \<Rightarrow> Inl e
                     | Inr canonical \<Rightarrow> Inr \<lparr>cn_connections = connections, cn_generations = canonical\<rparr>)
                | _ \<Rightarrow> Inl (ConnectionStoreError ''invalid connection registry''))
           | _ \<Rightarrow> Inl (ConnectionStoreError ''invalid connection registry''))
      | _ \<Rightarrow> Inl (ConnectionStoreError ''invalid connection registry''))"

text \<open>\<open>write_json_atomic\<close> sorts the members of every object.\<close>

definition write_connections :: "connection_registry \<Rightarrow> connection_file" where
  "write_connections r =
     Some (canon (VDict None
       [(KStr ''version'', VInt CONNECTION_REGISTRY_VERSION), (KStr ''connections'', VDict None (cn_connections r)),
        (KStr ''owner_generations'', VDict None (map (\<lambda>(k, n). (KStr k, VInt n)) (cn_generations r)))]))"

definition live_generation :: "string \<Rightarrow> connection_registry \<Rightarrow> int" where
  "live_generation owner r = (case map_of (cn_generations r) owner of None \<Rightarrow> 0 | Some n \<Rightarrow> n)"

subsection \<open>Operations\<close>

definition occupancy_generation :: "'c connection_env \<Rightarrow> string \<Rightarrow> connection_file \<Rightarrow> connection_error + int" where
  "occupancy_generation E owner file =
     (case owner_connection_prefix E owner of Inl e \<Rightarrow> Inl e | Inr _ \<Rightarrow>
      case read_connections E file of Inl e \<Rightarrow> Inl e | Inr r \<Rightarrow> Inr (live_generation owner r))"

definition upsert_connection ::
  "'c connection_env \<Rightarrow> 'c \<Rightarrow> pyval option \<Rightarrow> connection_file \<Rightarrow> (connection_error + 'c) \<times> connection_file" where
  "upsert_connection E c generation file =
     (case (case generation of None \<Rightarrow> Inr None | Some v \<Rightarrow> map_sum id Some (require_generation v)) of
        Inl e \<Rightarrow> (Inl e, file)
      | Inr sampled \<Rightarrow>
          (case read_connections E file of Inl e \<Rightarrow> (Inl e, file) | Inr r \<Rightarrow>
           let current = live_generation (ce_owner E c) r;
               expected = (case sampled of None \<Rightarrow> current | Some g \<Rightarrow> g) in
           if expected \<noteq> current
           then (Inl (ConnectionStoreError (''connection occupancy generation is stale: '' @ ce_owner E c)), file)
           else (Inr c, write_connections
                  (r\<lparr>cn_connections := AList.update (KStr (connection_key (ce_owner E c) (ce_id E c))) (ce_dump E c)
                       (cn_connections r)\<rparr>))))"

definition get_connection :: "'c connection_env \<Rightarrow> string \<Rightarrow> string \<Rightarrow> connection_file \<Rightarrow> connection_error + 'c" where
  "get_connection E owner connection_id file =
     (case read_connections E file of Inl e \<Rightarrow> Inl e | Inr r \<Rightarrow>
      case map_of (cn_connections r) (KStr (connection_key owner connection_id)) of
        Some (VDict i kvs) \<Rightarrow> (case ce_validate E (VDict i kvs) of None \<Rightarrow> Inl ConnectionInvalid | Some c \<Rightarrow> Inr c)
      | _ \<Rightarrow> Inl (ConnectionStoreError (''connection is not registered: '' @ owner @ ''/'' @ connection_id)))"

definition owned_key :: "string \<Rightarrow> pykey \<Rightarrow> bool" where
  "owned_key prefix k = (case k of KObj \<Rightarrow> False | KStr s \<Rightarrow> starts_with s prefix)"

fun owned_connections ::
  "'c connection_env \<Rightarrow> string \<Rightarrow> (pykey \<times> pyval) list \<Rightarrow> connection_error + 'c list" where
  "owned_connections E prefix [] = Inr []"
| "owned_connections E prefix ((k, v) # kvs) =
     (if \<not> owned_key prefix k then owned_connections E prefix kvs
      else case v of
        VDict i items \<Rightarrow>
          (case ce_validate E v of None \<Rightarrow> Inl ConnectionInvalid | Some c \<Rightarrow>
           case owned_connections E prefix kvs of Inl e \<Rightarrow> Inl e | Inr cs \<Rightarrow> Inr (c # cs))
      | _ \<Rightarrow> Inl (ConnectionStoreError (''invalid connection record: '' @ key_text k)))"

definition list_for_owner :: "'c connection_env \<Rightarrow> string \<Rightarrow> connection_file \<Rightarrow> connection_error + 'c list" where
  "list_for_owner E owner file =
     (case owner_connection_prefix E owner of Inl e \<Rightarrow> Inl e | Inr prefix \<Rightarrow>
      case read_connections E file of Inl e \<Rightarrow> Inl e | Inr r \<Rightarrow>
      case owned_connections E prefix (cn_connections r) of Inl e \<Rightarrow> Inl e | Inr cs \<Rightarrow> Inr (sort_key (ce_id E) cs))"

definition revoke_owner :: "'c connection_env \<Rightarrow> string \<Rightarrow> connection_file \<Rightarrow> (connection_error + nat) \<times> connection_file" where
  "revoke_owner E owner file =
     (case owner_connection_prefix E owner of Inl e \<Rightarrow> (Inl e, file) | Inr prefix \<Rightarrow>
      case read_connections E file of Inl e \<Rightarrow> (Inl e, file) | Inr r \<Rightarrow>
      let removing = filter (\<lambda>(k, v). owned_key prefix k) (cn_connections r) in
      (Inr (length removing),
       write_connections \<lparr>cn_connections = filter (\<lambda>(k, v). \<not> owned_key prefix k) (cn_connections r),
                          cn_generations = AList.update owner (live_generation owner r + 1) (cn_generations r)\<rparr>))"

end
