(* ===== verification/Settings_Store.thy ===== *)
theory Settings_Store
  imports Connection_Store
begin

text \<open>
  \<open>settings_store.py\<close>: typed settings under a hierarchy of scopes. The state is the JSON document of the registry
  file; the read, change and write of a mutation hold the file lock, the audit sink and the resolution that is
  returned come after it. Schemas are Pydantic models and scopes belong to the contracts package, so both are
  parameters: what the store uses of a schema is the names and aliases of its fields, validation, the JSON dump and
  the attributes of a validated model; of a scope its key and its chain from the installation down to itself.
\<close>

subsection \<open>Data\<close>

datatype settings_error =
    SettingsStoreError string
  | UnknownSettings string "string list"
  | InvalidResolved string nat
  | InvalidNamespace string
  | NamespaceLength
  | SettingsCrash
  | SinkFailed

text \<open>A Python object: a JSON value, a secret reference, a model, or a container of objects.\<close>

datatype pyobj =
    PyJson pyval
  | PyRef string
  | PyModel "(string \<times> pyobj) list"
  | PyMap "(string \<times> pyobj) list"
  | PySeq "pyobj list"

record 'm settings_schema =
  sc_fields :: "(string \<times> string option) list"
  sc_validate :: "(string, pyobj) dict \<Rightarrow> nat + 'm"
  sc_dump :: "'m \<Rightarrow> (string, pyval) dict"
  sc_attr :: "'m \<Rightarrow> string \<Rightarrow> pyobj"

record 's scopes =
  scope_key :: "'s \<Rightarrow> string"
  inheritance_chain :: "'s \<Rightarrow> 's list"

type_synonym settings_file = "pyval option"

record settings_audit_event =
  sa_action :: string
  sa_namespace :: string
  sa_scope :: string
  sa_changed_fields :: "string list"
  sa_secret_fields :: "string list"
  sa_actor_id :: "string option"

record ('m, 'w) settings_store =
  st_schemas :: "(string, 'm settings_schema) dict"
  st_sink :: "(settings_audit_event \<Rightarrow> 'w \<Rightarrow> bool \<times> 'w) option"

record 'm settings_resolution =
  sr_values :: 'm
  sr_sources :: "(string, string) dict"
  sr_chain :: "string list"

definition SETTINGS_REGISTRY_VERSION :: int where "SETTINGS_REGISTRY_VERSION = 1"

subsection \<open>Helpers\<close>

definition optional_settings_actor_id :: "string option \<Rightarrow> string option" where
  "optional_settings_actor_id actor_id =
     (case actor_id of None \<Rightarrow> None | Some a \<Rightarrow> if py_strip a = [] then None else Some (py_strip a))"

definition validate_settings_namespace :: "string \<Rightarrow> settings_error + unit" where
  "validate_settings_namespace namespace =
     (if namespace = [] \<or> 128 < length namespace then Inl NamespaceLength
      else let first = ''abcdefghijklmnopqrstuvwxyz0123456789''; allowed = first @ ''._-'' in
        if hd namespace \<notin> set first \<or> list_ex (\<lambda>c. c \<notin> set allowed) namespace
        then Inl (InvalidNamespace namespace) else Inr ())"

definition public_field_name :: "string \<times> string option \<Rightarrow> string" where
  "public_field_name field = (case snd field of None \<Rightarrow> fst field | Some alias \<Rightarrow> if alias = [] then fst field else alias)"

definition public_field_names :: "'m settings_schema \<Rightarrow> string list" where
  "public_field_names schema = map public_field_name (sc_fields schema)"

definition python_field_name :: "'m settings_schema \<Rightarrow> string \<Rightarrow> string option" where
  "python_field_name schema public_key =
     map_option fst (List.find (\<lambda>field. public_field_name field = public_key) (sc_fields schema))"

definition unknown_fields :: "'m settings_schema \<Rightarrow> string list \<Rightarrow> string list" where
  "unknown_fields schema keys = sort (filter (\<lambda>k. k \<notin> set (public_field_names schema)) keys)"

definition settings_schema_of :: "('m, 'w) settings_store \<Rightarrow> string \<Rightarrow> settings_error + 'm settings_schema" where
  "settings_schema_of S namespace =
     (case validate_settings_namespace namespace of Inl e \<Rightarrow> Inl e | Inr _ \<Rightarrow>
      case map_of (st_schemas S) namespace of
        None \<Rightarrow> Inl (SettingsStoreError (''unknown settings namespace: '' @ namespace))
      | Some schema \<Rightarrow> Inr schema)"

definition register_schema ::
  "string \<Rightarrow> 'm settings_schema \<Rightarrow> ('m, 'w) settings_store \<Rightarrow> (settings_error + unit) \<times> ('m, 'w) settings_store" where
  "register_schema namespace schema S =
     (case validate_settings_namespace namespace of Inl e \<Rightarrow> (Inl e, S)
      | Inr _ \<Rightarrow> (Inr (), S\<lparr>st_schemas := AList.update namespace schema (st_schemas S)\<rparr>))"

subsection \<open>The registry\<close>

text \<open>\<open>_read_registry\<close> and \<open>_require_registry\<close>: the items of \<open>scopes\<close>. A bool equals an int in Python.\<close>

definition settings_version_ok :: "pyval option \<Rightarrow> bool" where
  "settings_version_ok v = (v = Some (VInt SETTINGS_REGISTRY_VERSION) \<or> v = Some (VBool True))"

definition require_registry :: "pyval \<Rightarrow> settings_error + (pykey \<times> pyval) list" where
  "require_registry registry =
     (case registry of
        VDict i members \<Rightarrow>
          if \<not> settings_version_ok (map_of members (KStr ''version''))
          then Inl (SettingsStoreError ''unsupported settings registry version'')
          else (case map_of members (KStr ''scopes'') of
                  Some (VDict j items) \<Rightarrow> Inr items
                | _ \<Rightarrow> Inl (SettingsStoreError ''settings registry scopes must be an object''))
      | _ \<Rightarrow> Inl (SettingsStoreError ''settings registry must be an object''))"

definition read_settings :: "settings_file \<Rightarrow> settings_error + (pykey \<times> pyval) list" where
  "read_settings f =
     require_registry (case f of
        None \<Rightarrow> VDict None [(KStr ''version'', VInt SETTINGS_REGISTRY_VERSION), (KStr ''scopes'', VDict None [])]
      | Some v \<Rightarrow> v)"

definition write_settings :: "(pykey \<times> pyval) list \<Rightarrow> settings_file" where
  "write_settings items =
     Some (canon (VDict None [(KStr ''version'', VInt SETTINGS_REGISTRY_VERSION), (KStr ''scopes'', VDict None items)]))"

definition invalid_record :: "string \<Rightarrow> string \<Rightarrow> settings_error" where
  "invalid_record key namespace = SettingsStoreError (''invalid settings record for '' @ key @ ''/'' @ namespace)"

text \<open>The object of a namespace in the record of a scope.\<close>

definition override_in :: "string \<Rightarrow> string \<Rightarrow> (pykey \<times> pyval) list \<Rightarrow> settings_error + (pykey \<times> pyval) list" where
  "override_in key namespace record_items =
     (case map_of record_items (KStr namespace) of
        None \<Rightarrow> Inr [] | Some (VDict i kvs) \<Rightarrow> Inr kvs | Some _ \<Rightarrow> Inl (invalid_record key namespace))"

definition as_objects :: "(pykey \<times> pyval) list \<Rightarrow> (string, pyobj) dict" where
  "as_objects kvs = map (\<lambda>(k, v). (key_text k, PyJson v)) kvs"

text \<open>One scope of \<open>_merge\<close>: its fields replace those of the scopes above it.\<close>

definition merge_override ::
  "string \<Rightarrow> (string, pyobj) dict \<Rightarrow> (string, pyobj) dict \<times> (string, string) dict \<Rightarrow>
   (string, pyobj) dict \<times> (string, string) dict" where
  "merge_override key override acc =
     (fold (\<lambda>(field, v). AList.update field v) override (fst acc),
      fold (\<lambda>(field, v). AList.update field key) override (snd acc))"

fun merge_chain ::
  "'s scopes \<Rightarrow> 's \<Rightarrow> string \<Rightarrow> (pykey \<times> pyval) list \<Rightarrow> (string, pyobj) dict option \<Rightarrow>
   (string, pyobj) dict \<times> (string, string) dict \<Rightarrow> 's list \<Rightarrow>
   settings_error + (string, pyobj) dict \<times> (string, string) dict" where
  "merge_chain T context_scope namespace items exact acc [] = Inr acc"
| "merge_chain T context_scope namespace items exact acc (scope # chain) =
     (let key = scope_key T scope in
      case map_of items (KStr key) of
        None \<Rightarrow> merge_chain T context_scope namespace items exact
                  (merge_override key (if scope = context_scope then case exact of None \<Rightarrow> [] | Some o' \<Rightarrow> o' else []) acc) chain
      | Some (VDict i record_items) \<Rightarrow>
          (case (if scope = context_scope then exact else None) of
             Some o' \<Rightarrow> merge_chain T context_scope namespace items exact (merge_override key o' acc) chain
           | None \<Rightarrow>
               (case override_in key namespace record_items of
                  Inl e \<Rightarrow> Inl e
                | Inr kvs \<Rightarrow> merge_chain T context_scope namespace items exact (merge_override key (as_objects kvs) acc) chain))
      | Some _ \<Rightarrow> Inl (SettingsStoreError (''invalid settings scope: '' @ key)))"

definition merge_settings ::
  "'s scopes \<Rightarrow> 's \<Rightarrow> string \<Rightarrow> (pykey \<times> pyval) list \<Rightarrow> (string, pyobj) dict option \<Rightarrow>
   settings_error + (string, pyobj) dict \<times> (string, string) dict" where
  "merge_settings T context_scope namespace items exact =
     merge_chain T context_scope namespace items exact ([], []) (inheritance_chain T context_scope)"

definition validate_settings :: "'m settings_schema \<Rightarrow> string \<Rightarrow> (string, pyobj) dict \<Rightarrow> settings_error + 'm" where
  "validate_settings schema namespace merged =
     (let unknown = unknown_fields schema (map fst merged) in
      if unknown \<noteq> [] then Inl (UnknownSettings namespace unknown)
      else case sc_validate schema merged of Inl n \<Rightarrow> Inl (InvalidResolved namespace n) | Inr m \<Rightarrow> Inr m)"

subsection \<open>Secret references\<close>

fun contains_secret_reference :: "pyobj \<Rightarrow> bool" where
  "contains_secret_reference (PyRef _) = True"
| "contains_secret_reference (PyModel attributes) = list_ex (\<lambda>(k, v). contains_secret_reference v) attributes"
| "contains_secret_reference (PyMap items) = list_ex (\<lambda>(k, v). contains_secret_reference v) items"
| "contains_secret_reference (PySeq xs) = list_ex contains_secret_reference xs"
| "contains_secret_reference (PyJson _) = False"

definition reference_or_mapping :: "pyobj \<Rightarrow> bool" where
  "reference_or_mapping v = (case v of PyRef _ \<Rightarrow> True | PyMap _ \<Rightarrow> True | PyJson (VDict _ _) \<Rightarrow> True | _ \<Rightarrow> False)"

fun assert_secret_references :: "'m settings_schema \<Rightarrow> 'm \<Rightarrow> (string, pyobj) dict \<Rightarrow> settings_error + unit" where
  "assert_secret_references schema m [] = Inr ()"
| "assert_secret_references schema m ((public_key, raw) # supplied) =
     (case python_field_name schema public_key of
        None \<Rightarrow> assert_secret_references schema m supplied
      | Some name \<Rightarrow>
          (case sc_attr schema m name of
             PyRef _ \<Rightarrow>
               if reference_or_mapping raw then assert_secret_references schema m supplied
               else Inl (SettingsStoreError (''secret setting '' @ public_key @ '' must be a SecretReference''))
           | _ \<Rightarrow> assert_secret_references schema m supplied))"

subsection \<open>Audit\<close>

definition secret_field :: "'m settings_schema \<Rightarrow> 'm \<Rightarrow> string \<Rightarrow> bool" where
  "secret_field schema m public_key =
     contains_secret_reference
       (sc_attr schema m (case python_field_name schema public_key of None \<Rightarrow> public_key | Some name \<Rightarrow> name))"

definition settings_audit ::
  "('m, 'w) settings_store \<Rightarrow> 'm settings_schema \<Rightarrow> string \<Rightarrow> string \<Rightarrow> string \<Rightarrow> string list \<Rightarrow> 'm \<Rightarrow> string option \<Rightarrow>
   'w \<Rightarrow> (settings_error + unit) \<times> 'w" where
  "settings_audit S schema action namespace key changed m actor_id w =
     (case st_sink S of
        None \<Rightarrow> (Inr (), w)
      | Some sink \<Rightarrow>
          let (ok, w') = sink \<lparr>sa_action = action, sa_namespace = namespace, sa_scope = key, sa_changed_fields = changed,
                  sa_secret_fields = sort (filter (secret_field schema m) changed),
                  sa_actor_id = optional_settings_actor_id actor_id\<rparr> w
          in (if ok then Inr () else Inl SinkFailed, w'))"

subsection \<open>Operations\<close>

definition settings_resolve ::
  "'s scopes \<Rightarrow> ('m, 'w) settings_store \<Rightarrow> 's \<Rightarrow> string \<Rightarrow> settings_file \<Rightarrow> settings_error + 'm settings_resolution" where
  "settings_resolve T S context_scope namespace f =
     (case settings_schema_of S namespace of Inl e \<Rightarrow> Inl e | Inr schema \<Rightarrow>
      case read_settings f of Inl e \<Rightarrow> Inl e | Inr items \<Rightarrow>
      case merge_settings T context_scope namespace items None of Inl e \<Rightarrow> Inl e | Inr (merged, sources) \<Rightarrow>
      case validate_settings schema namespace merged of Inl e \<Rightarrow> Inl e | Inr m \<Rightarrow>
      Inr \<lparr>sr_values = m,
           sr_sources = dict_sorted (fold (\<lambda>k s. if map_of s k = None then AList.update k ''schema-default'' s else s)
                          (public_field_names schema) sources),
           sr_chain = map (scope_key T) (inheritance_chain T context_scope)\<rparr>)"

text \<open>The locked section of \<open>set\<close>: the validated model and the new file, or an error and the old file.\<close>

definition set_section ::
  "'s scopes \<Rightarrow> 'm settings_schema \<Rightarrow> 's \<Rightarrow> string \<Rightarrow> (string, pyobj) dict \<Rightarrow> settings_file \<Rightarrow>
   (settings_error + 'm) \<times> settings_file" where
  "set_section T schema context_scope namespace supplied f =
     (case read_settings f of Inl e \<Rightarrow> (Inl e, f) | Inr items \<Rightarrow>
      let key = scope_key T context_scope;
          scoped = (case map_of items (KStr key) of
              None \<Rightarrow> Inr [] | Some (VDict i record_items) \<Rightarrow> Inr record_items | Some _ \<Rightarrow> Inl SettingsCrash) in
      case scoped of Inl e \<Rightarrow> (Inl e, f) | Inr record_items \<Rightarrow>
      case override_in key namespace record_items of Inl e \<Rightarrow> (Inl e, f) | Inr previous \<Rightarrow>
      let candidate = fold (\<lambda>(k, v). AList.update k v) supplied (as_objects previous);
          items' = AList.update (KStr key) (VDict None record_items) items in
      case merge_settings T context_scope namespace items' (Some candidate) of Inl e \<Rightarrow> (Inl e, f) | Inr (merged, sources) \<Rightarrow>
      case validate_settings schema namespace merged of Inl e \<Rightarrow> (Inl e, f) | Inr m \<Rightarrow>
      case assert_secret_references schema m supplied of Inl e \<Rightarrow> (Inl e, f) | Inr _ \<Rightarrow>
      let canonical = map (\<lambda>(k, v). (KStr k, v)) (filter (\<lambda>(k, v). k \<in> fst ` set candidate) (sc_dump schema m)) in
      (Inr m, write_settings (AList.update (KStr key) (VDict None (AList.update (KStr namespace) (VDict None canonical) record_items)) items)))"

definition settings_set ::
  "'s scopes \<Rightarrow> ('m, 'w) settings_store \<Rightarrow> 's \<Rightarrow> string \<Rightarrow> (string, pyobj) dict \<Rightarrow> string option \<Rightarrow> settings_file \<times> 'w \<Rightarrow>
   (settings_error + 'm settings_resolution) \<times> (settings_file \<times> 'w)" where
  "settings_set T S context_scope namespace supplied actor_id st =
     (case settings_schema_of S namespace of Inl e \<Rightarrow> (Inl e, st) | Inr schema \<Rightarrow>
      if supplied = [] then (Inl (SettingsStoreError ''at least one setting must be supplied''), st)
      else let unknown = unknown_fields schema (map fst supplied) in
        if unknown \<noteq> [] then (Inl (UnknownSettings namespace unknown), st)
        else case set_section T schema context_scope namespace supplied (fst st) of
          (Inl e, f) \<Rightarrow> (Inl e, (f, snd st))
        | (Inr m, f) \<Rightarrow>
            (case settings_audit S schema ''set'' namespace (scope_key T context_scope) (sort (map fst supplied)) m
                    (optional_settings_actor_id actor_id) (snd st) of
               (Inl e, w) \<Rightarrow> (Inl e, (f, w))
             | (Inr _, w) \<Rightarrow> (settings_resolve T S context_scope namespace f, (f, w))))"

text \<open>The locked section of \<open>clear\<close>: the changed fields, the validated model and the new file.\<close>

definition clear_section ::
  "'s scopes \<Rightarrow> 'm settings_schema \<Rightarrow> 's \<Rightarrow> string \<Rightarrow> string list option \<Rightarrow> settings_file \<Rightarrow>
   (settings_error + string list \<times> 'm) \<times> settings_file" where
  "clear_section T schema context_scope namespace named f =
     (case read_settings f of Inl e \<Rightarrow> (Inl e, f) | Inr items \<Rightarrow>
      let key = scope_key T context_scope;
          scoped = (case map_of items (KStr key) of
              None \<Rightarrow> Inr [] | Some (VDict i record_items) \<Rightarrow> Inr record_items | Some _ \<Rightarrow> Inl SettingsCrash) in
      case scoped of Inl e \<Rightarrow> (Inl e, f) | Inr record_items \<Rightarrow>
      case override_in key namespace record_items of Inl e \<Rightarrow> (Inl e, f) | Inr override \<Rightarrow>
      let changed = (case named of None \<Rightarrow> map (key_text \<circ> fst) override | Some ks \<Rightarrow> ks);
          unknown = unknown_fields schema changed in
      if unknown \<noteq> [] then (Inl (UnknownSettings namespace unknown), f)
      else let candidate = filter (\<lambda>(k, v). key_text k \<notin> set changed) override in
        case merge_settings T context_scope namespace items (Some (as_objects candidate)) of
          Inl e \<Rightarrow> (Inl e, f)
        | Inr (merged, sources) \<Rightarrow>
            (case validate_settings schema namespace merged of Inl e \<Rightarrow> (Inl e, f) | Inr m \<Rightarrow>
             let record' = (if candidate \<noteq> [] then AList.update (KStr namespace) (VDict None candidate) record_items
                            else AList.delete (KStr namespace) record_items) in
             (Inr (sort changed, m),
              write_settings (if record' = [] then AList.delete (KStr key) items
                              else AList.update (KStr key) (VDict None record') items))))"

definition settings_clear ::
  "'s scopes \<Rightarrow> ('m, 'w) settings_store \<Rightarrow> 's \<Rightarrow> string \<Rightarrow> string list option \<Rightarrow> string option \<Rightarrow> settings_file \<times> 'w \<Rightarrow>
   (settings_error + 'm settings_resolution) \<times> (settings_file \<times> 'w)" where
  "settings_clear T S context_scope namespace named actor_id st =
     (case settings_schema_of S namespace of Inl e \<Rightarrow> (Inl e, st) | Inr schema \<Rightarrow>
      case clear_section T schema context_scope namespace named (fst st) of
        (Inl e, f) \<Rightarrow> (Inl e, (f, snd st))
      | (Inr (changed, m), f) \<Rightarrow>
          (case settings_audit S schema ''clear'' namespace (scope_key T context_scope) changed m
                  (optional_settings_actor_id actor_id) (snd st) of
             (Inl e, w) \<Rightarrow> (Inl e, (f, w))
           | (Inr _, w) \<Rightarrow> (settings_resolve T S context_scope namespace f, (f, w))))"

end
