(* ===== verification/Settings_Safety.thy ===== *)
theory Settings_Safety
  imports Settings_Store
begin

text \<open>
  What the settings store promises: a resolution takes every field from the nearest scope that sets it, a change
  touches one namespace of one scope and so is seen only at that scope and below, and a cleared field is inherited.
\<close>

subsection \<open>Well-formed files\<close>

definition settings_items_ok :: "(pykey \<times> pyval) list \<Rightarrow> bool" where
  "settings_items_ok items \<longleftrightarrow>
     json_items items \<and>
     (\<forall>v \<in> snd ` set items. \<exists>i rs. v = VDict i rs \<and> json_items rs \<and>
        (\<forall>w \<in> snd ` set rs. \<exists>j kvs. w = VDict j kvs \<and> json_items kvs))"

definition settings_ok :: "settings_file \<Rightarrow> bool" where
  "settings_ok f \<longleftrightarrow> (\<exists>items. read_settings f = Inr items \<and> settings_items_ok items \<and> canon_items items = items)"

text \<open>The fields a namespace has in a scope.\<close>

definition override_of :: "(pykey \<times> pyval) list \<Rightarrow> string \<Rightarrow> string \<Rightarrow> (pykey \<times> pyval) list" where
  "override_of items key namespace =
     (case map_of items (KStr key) of
        Some (VDict i rs) \<Rightarrow> (case map_of rs (KStr namespace) of Some (VDict j kvs) \<Rightarrow> kvs | _ \<Rightarrow> [])
      | _ \<Rightarrow> [])"

definition stored_override :: "settings_file \<Rightarrow> string \<Rightarrow> string \<Rightarrow> (pykey \<times> pyval) list" where
  "stored_override f key namespace = (case read_settings f of Inr items \<Rightarrow> override_of items key namespace | Inl _ \<Rightarrow> [])"

lemma empty_settings_ok: "settings_ok None"
  by (simp add: settings_ok_def read_settings_def require_registry_def settings_version_ok_def settings_items_ok_def json_items_def)

lemma record_in:
  assumes "settings_items_ok items" "map_of items (KStr key) = Some v"
  obtains i rs where "v = VDict i rs" "json_items rs" "\<forall>w \<in> snd ` set rs. \<exists>j kvs. w = VDict j kvs \<and> json_items kvs"
proof -
  have "v \<in> snd ` set items" using map_of_SomeD [OF assms(2)] by force
  then show ?thesis using assms(1) that unfolding settings_items_ok_def by blast
qed

lemma override_in_of:
  assumes "\<forall>w \<in> snd ` set rs. \<exists>j kvs. w = VDict j kvs \<and> json_items kvs"
  shows "override_in key namespace rs = Inr (case map_of rs (KStr namespace) of Some (VDict j kvs) \<Rightarrow> kvs | _ \<Rightarrow> [])"
proof (cases "map_of rs (KStr namespace)")
  case (Some w)
  then have "w \<in> snd ` set rs" by (force dest: map_of_SomeD)
  then show ?thesis using assms Some by (auto simp: override_in_def)
qed (simp add: override_in_def)

lemma json_items_override:
  assumes "settings_items_ok items" shows "json_items (override_of items key namespace)"
proof (cases "map_of items (KStr key)")
  case (Some v)
  obtain i rs where r: "v = VDict i rs" "\<forall>w \<in> snd ` set rs. \<exists>j kvs. w = VDict j kvs \<and> json_items kvs"
    using record_in [OF assms Some] by metis
  show ?thesis
  proof (cases "map_of rs (KStr namespace)")
    case (Some w)
    then have "w \<in> snd ` set rs" by (force dest: map_of_SomeD)
    then show ?thesis using r Some \<open>map_of items (KStr key) = Some v\<close> by (fastforce simp: override_of_def)
  qed (use Some r in \<open>simp add: override_of_def json_items_def\<close>)
qed (simp add: override_of_def json_items_def)

lemma override_of_canon:
  assumes "settings_items_ok items"
  shows "override_of (canon_items items) key namespace = canon_items (override_of items key namespace)"
proof (cases "map_of items (KStr key)")
  case None
  then show ?thesis using assms by (simp add: override_of_def map_of_canon_items settings_items_ok_def)
next
  case (Some v)
  obtain i rs where r: "v = VDict i rs" "json_items rs" "\<forall>w \<in> snd ` set rs. \<exists>j kvs. w = VDict j kvs \<and> json_items kvs"
    using record_in [OF assms Some] by metis
  have k: "map_of (canon_items items) (KStr key) = Some (VDict None (canon_items rs))"
    using assms Some r(1) by (simp add: settings_items_ok_def map_of_canon_items canon_VDict del: canon.simps(2))
  show ?thesis
  proof (cases "map_of rs (KStr namespace)")
    case None
    then show ?thesis using Some r k by (simp add: override_of_def map_of_canon_items)
  next
    case (Some w)
    then have "w \<in> snd ` set rs" by (force dest: map_of_SomeD)
    then obtain j kvs where w: "w = VDict j kvs" using r(3) by blast
    have "map_of (canon_items rs) (KStr namespace) = Some (VDict None (canon_items kvs))"
      using Some r(2) w by (simp add: map_of_canon_items canon_VDict del: canon.simps(2))
    then show ?thesis using \<open>map_of items (KStr key) = Some v\<close> r(1) k Some w by (simp add: override_of_def)
  qed
qed

lemma items_ok_canon:
  assumes "settings_items_ok items" shows "settings_items_ok (canon_items items)"
  unfolding settings_items_ok_def
proof (intro conjI ballI)
  fix v assume "v \<in> snd ` set (canon_items items)"
  then obtain u where u: "u \<in> snd ` set items" "v = canon u" by (auto simp: snd_canon_items)
  then obtain i rs where r: "u = VDict i rs" "json_items rs" "\<forall>w \<in> snd ` set rs. \<exists>j kvs. w = VDict j kvs \<and> json_items kvs"
    using assms unfolding settings_items_ok_def by blast
  have "\<exists>j kvs. w = VDict j kvs \<and> json_items kvs" if "w \<in> snd ` set (canon_items rs)" for w
  proof -
    have "w \<in> canon ` snd ` set rs" using that by (simp only: snd_canon_items)
    then obtain x where x: "w = canon x" "x \<in> snd ` set rs" by (rule imageE)
    from bspec [OF r(3) x(2)] obtain j kvs where "x = VDict j kvs" "json_items kvs" by blast
    then have "w = VDict None (canon_items kvs)" "json_items (canon_items kvs)"
      using x(1) canon_VDict by simp_all
    then show ?thesis by blast
  qed
  moreover have "v = VDict None (canon_items rs)" "json_items (canon_items rs)"
    using u(2) r(1,2) canon_VDict by simp_all
  ultimately show "\<exists>i rs. v = VDict i rs \<and> json_items rs \<and> (\<forall>w \<in> snd ` set rs. \<exists>j kvs. w = VDict j kvs \<and> json_items kvs)"
    by blast
qed (use assms in \<open>simp add: settings_items_ok_def\<close>)

lemma read_written_settings: "read_settings (write_settings items) = Inr (canon_items items)"
  by (simp add: read_settings_def write_settings_def canon_VDict canon_items_Cons key_text_def require_registry_def
      settings_version_ok_def del: canon.simps(2))

lemma written_settings_ok: "settings_items_ok items \<Longrightarrow> settings_ok (write_settings items)"
  by (simp add: settings_ok_def read_written_settings items_ok_canon)

lemma stored_written:
  "settings_items_ok items \<Longrightarrow> stored_override (write_settings items) key namespace = canon_items (override_of items key namespace)"
  by (simp add: stored_override_def read_written_settings override_of_canon)

subsection \<open>The nearest scope\<close>

text \<open>The value of a field in the last layer that has it, with the key of that layer: what a resolution means.\<close>

fun nearest :: "(string \<times> ('k \<times> 'v) list) list \<Rightarrow> 'k \<Rightarrow> (string \<times> 'v) option" where
  "nearest [] k = None"
| "nearest ((key, d) # layers) k =
     (case nearest layers k of Some r \<Rightarrow> Some r | None \<Rightarrow> map_option (Pair key) (map_of d k))"

lemma nearest_append:
  "nearest (xs @ ys) k = (case nearest ys k of Some r \<Rightarrow> Some r | None \<Rightarrow> nearest xs k)"
  by (induction xs) (auto split: option.splits)

definition merge_layers ::
  "(string \<times> (string, pyobj) dict) list \<Rightarrow> (string, pyobj) dict \<times> (string, string) dict \<Rightarrow>
   (string, pyobj) dict \<times> (string, string) dict" where
  "merge_layers layers acc = fold (\<lambda>(key, override). merge_override key override) layers acc"

lemma fold_keys_eq:
  "fold (\<lambda>(field, v). AList.update field key) d s = fold (\<lambda>(field, v). AList.update field v) (map (\<lambda>(field, v). (field, key)) d) s"
  by (induction d arbitrary: s) auto

lemma merge_override_maps:
  assumes "dict_ok d" "dict_ok (fst acc)" "dict_ok (snd acc)"
  shows "dict_ok (fst (merge_override key d acc)) \<and> dict_ok (snd (merge_override key d acc))
    \<and> map_of (fst (merge_override key d acc)) = map_of (fst acc) ++ map_of d
    \<and> map_of (snd (merge_override key d acc)) = map_of (snd acc) ++ (\<lambda>k. map_option (\<lambda>_. key) (map_of d k))"
proof -
  have m: "map_of (map (\<lambda>(field, v). (field, key)) d) = (\<lambda>k. map_option (\<lambda>_. key) (map_of d k))"
    by (induction d) (auto simp: fun_eq_iff)
  have "dict_ok (map (\<lambda>(field, v). (field, key)) d)" using assms(1) by (simp add: dict_ok_def comp_def split_def)
  from fold_update_dict [OF assms(3) this] fold_update_dict [OF assms(2,1)] show ?thesis
    unfolding merge_override_def fst_conv snd_conv fold_keys_eq m by (intro conjI) blast+
qed

lemma merge_layers_nearest:
  assumes "\<forall>(key, d) \<in> set layers. dict_ok d" "dict_ok (fst acc)" "dict_ok (snd acc)"
  shows "dict_ok (fst (merge_layers layers acc)) \<and> dict_ok (snd (merge_layers layers acc))
    \<and> (\<forall>k. map_of (fst (merge_layers layers acc)) k =
          (case nearest layers k of Some (_, v) \<Rightarrow> Some v | None \<Rightarrow> map_of (fst acc) k))
    \<and> (\<forall>k. map_of (snd (merge_layers layers acc)) k =
          (case nearest layers k of Some (key, _) \<Rightarrow> Some key | None \<Rightarrow> map_of (snd acc) k))"
  using assms
proof (induction layers arbitrary: acc)
  case (Cons layer layers)
  obtain key d where l: "layer = (key, d)" by fastforce
  have d: "dict_ok d" "\<forall>(key, d) \<in> set layers. dict_ok d" using Cons.prems(1) l by auto
  note m = merge_override_maps [OF d(1) Cons.prems(2,3), of key]
  have unfold: "merge_layers ((key, d) # layers) acc = merge_layers layers (merge_override key d acc)"
    by (simp add: merge_layers_def)
  have IH: "dict_ok (fst (merge_layers layers (merge_override key d acc))) \<and> dict_ok (snd (merge_layers layers (merge_override key d acc)))
    \<and> (\<forall>k. map_of (fst (merge_layers layers (merge_override key d acc))) k =
          (case nearest layers k of Some (_, v) \<Rightarrow> Some v | None \<Rightarrow> map_of (fst (merge_override key d acc)) k))
    \<and> (\<forall>k. map_of (snd (merge_layers layers (merge_override key d acc))) k =
          (case nearest layers k of Some (key, _) \<Rightarrow> Some key | None \<Rightarrow> map_of (snd (merge_override key d acc)) k))"
    by (rule Cons.IH [OF d(2)]) (use m in blast)+
  have a: "map_of (fst (merge_override key d acc)) k = (case map_of d k of None \<Rightarrow> map_of (fst acc) k | Some v \<Rightarrow> Some v)"
    "map_of (snd (merge_override key d acc)) k = (case map_of d k of None \<Rightarrow> map_of (snd acc) k | Some v \<Rightarrow> Some key)" for k
    using m by (auto simp: map_add_def split: option.splits)
  show ?case
    unfolding l unfold
  proof (intro conjI allI)
    fix k
    show "map_of (fst (merge_layers layers (merge_override key d acc))) k =
        (case nearest ((key, d) # layers) k of Some (_, v) \<Rightarrow> Some v | None \<Rightarrow> map_of (fst acc) k)"
      "map_of (snd (merge_layers layers (merge_override key d acc))) k =
        (case nearest ((key, d) # layers) k of Some (key, _) \<Rightarrow> Some key | None \<Rightarrow> map_of (snd acc) k)"
      using IH by (simp_all add: a split: option.split)
  qed (use IH in blast)+
qed (simp add: merge_layers_def)

text \<open>The layers of a namespace as a resolution at a scope meets them.\<close>

definition layers_of ::
  "'s scopes \<Rightarrow> 's \<Rightarrow> string \<Rightarrow> (pykey \<times> pyval) list \<Rightarrow> (string, pyobj) dict option \<Rightarrow> 's list \<Rightarrow> (string \<times> (string, pyobj) dict) list" where
  "layers_of T context_scope namespace items exact chain =
     map (\<lambda>s. (scope_key T s,
               case (if s = context_scope then exact else None) of
                 Some d \<Rightarrow> d | None \<Rightarrow> as_objects (override_of items (scope_key T s) namespace))) chain"

lemma merge_chain_layers:
  assumes "settings_items_ok items"
  shows "merge_chain T c namespace items exact acc chain = Inr (merge_layers (layers_of T c namespace items exact chain) acc)"
proof (induction chain arbitrary: acc)
  case (Cons s chain)
  show ?case
  proof (cases "map_of items (KStr (scope_key T s))")
    case None
    then show ?thesis
      using Cons.IH by (auto simp: Let_def merge_layers_def layers_of_def override_of_def as_objects_def split: option.splits)
  next
    case (Some v)
    obtain i rs where r: "v = VDict i rs" "\<forall>w \<in> snd ` set rs. \<exists>j kvs. w = VDict j kvs \<and> json_items kvs"
      using record_in [OF assms Some] by metis
    have "override_in (scope_key T s) namespace rs = Inr (override_of items (scope_key T s) namespace)"
      using override_in_of [OF r(2)] Some r(1) by (simp add: override_of_def)
    then show ?thesis
      using Some r(1) Cons.IH by (cases "if s = c then exact else None") (simp_all add: Let_def merge_layers_def layers_of_def)
  qed
qed (simp add: merge_layers_def layers_of_def)

lemma dict_ok_as_objects: "json_items kvs \<Longrightarrow> dict_ok (as_objects kvs)"
proof -
  assume a: "json_items kvs"
  have "inj_on key_text (set (map fst kvs))"
  proof (rule inj_onI)
    fix x y assume xy: "x \<in> set (map fst kvs)" "y \<in> set (map fst kvs)" "key_text x = key_text y"
    have "\<exists>s. z = KStr s" if "z \<in> set (map fst kvs)" for z
      using that a unfolding json_items_def by (metis list.set_map pykey.exhaust)
    from this [OF xy(1)] this [OF xy(2)] xy(3) show "x = y" by (auto simp: key_text_def)
  qed
  moreover have "map fst (as_objects kvs) = map key_text (map fst kvs)" by (auto simp: as_objects_def)
  ultimately show ?thesis using a by (simp only: dict_ok_def json_items_def distinct_map [of key_text] simp_thms)
qed

lemma map_of_as_objects: "json_items kvs \<Longrightarrow> map_of (as_objects kvs) k = map_option PyJson (map_of kvs (KStr k))"
proof (induction kvs)
  case (Cons e kvs)
  obtain x v where e: "e = (x, v)" by fastforce
  then obtain s where x: "x = KStr s" using Cons.prems by (cases x) (auto simp: json_items_def)
  have "json_items kvs" using Cons.prems by (simp add: json_items_def)
  from Cons.IH [OF this] show ?case by (simp add: e x as_objects_def key_text_def)
qed (simp add: as_objects_def)

subsection \<open>Changes of one record\<close>

definition scope_record_ok :: "(pykey \<times> pyval) list \<Rightarrow> bool" where
  "scope_record_ok rs \<longleftrightarrow> json_items rs \<and> (\<forall>w \<in> snd ` set rs. \<exists>j kvs. w = VDict j kvs \<and> json_items kvs)"

lemma settings_items_ok_records:
  "settings_items_ok items \<longleftrightarrow> json_items items \<and> (\<forall>v \<in> snd ` set items. \<exists>i rs. v = VDict i rs \<and> scope_record_ok rs)"
  by (simp add: settings_items_ok_def scope_record_ok_def)

lemma snd_update_subset: "snd ` set (AList.update k v d) \<subseteq> insert v (snd ` set d)"
  using set_update_subset [of k v d] by force

lemma scope_record_ok_update:
  assumes "scope_record_ok rs" "json_items kvs" shows "scope_record_ok (AList.update (KStr ns) (VDict None kvs) rs)"
  unfolding scope_record_ok_def
proof (intro conjI ballI)
  fix w assume "w \<in> snd ` set (AList.update (KStr ns) (VDict None kvs) rs)"
  from subsetD [OF snd_update_subset this] have "w = VDict None kvs \<or> w \<in> snd ` set rs" by (simp only: insert_iff)
  then show "\<exists>j kvs. w = VDict j kvs \<and> json_items kvs" using assms unfolding scope_record_ok_def by blast
qed (use assms in \<open>simp add: scope_record_ok_def\<close>)

lemma snd_delete_subset: "snd ` set (AList.delete k d) \<subseteq> snd ` set d"
  unfolding AList.delete_eq by auto

lemma json_items_delete [simp]: "json_items d \<Longrightarrow> json_items (AList.delete k d)"
  unfolding AList.delete_eq by (rule json_items_filter)

lemma scope_record_ok_delete: "scope_record_ok rs \<Longrightarrow> scope_record_ok (AList.delete (KStr ns) rs)"
  unfolding scope_record_ok_def by (meson json_items_delete snd_delete_subset subsetD)

lemma items_ok_update:
  assumes "settings_items_ok items" "scope_record_ok rs" shows "settings_items_ok (AList.update (KStr key) (VDict None rs) items)"
  unfolding settings_items_ok_records
proof (intro conjI ballI)
  fix w assume "w \<in> snd ` set (AList.update (KStr key) (VDict None rs) items)"
  from subsetD [OF snd_update_subset this] have "w = VDict None rs \<or> w \<in> snd ` set items" by (simp only: insert_iff)
  then show "\<exists>i rs. w = VDict i rs \<and> scope_record_ok rs" using assms unfolding settings_items_ok_records by blast
qed (use assms in \<open>simp add: settings_items_ok_def\<close>)

lemma items_ok_delete: "settings_items_ok items \<Longrightarrow> settings_items_ok (AList.delete (KStr key) items)"
  unfolding settings_items_ok_records by (meson json_items_delete snd_delete_subset subsetD)

text \<open>What a write of \<open>items'\<close> changes when only one override differs.\<close>

lemma write_effect:
  assumes "settings_items_ok items" "canon_items items = items" "read_settings f = Inr items" "settings_items_ok items'"
    and "\<And>key' ns'. (key', ns') \<noteq> (key, ns) \<Longrightarrow> override_of items' key' ns' = override_of items key' ns'"
  shows "settings_ok (write_settings items')
    \<and> (\<forall>key' ns'. (key', ns') \<noteq> (key, ns) \<longrightarrow> stored_override (write_settings items') key' ns' = stored_override f key' ns')
    \<and> stored_override (write_settings items') key ns = canon_items (override_of items' key ns)"
proof (intro conjI allI impI)
  fix key' ns' assume "(key', ns') \<noteq> (key, ns)"
  then have "stored_override (write_settings items') key' ns' = canon_items (override_of items key' ns')"
    using stored_written [OF assms(4)] assms(5) by simp
  also have "\<dots> = override_of items key' ns'" using override_of_canon [OF assms(1)] assms(2) by simp
  finally show "stored_override (write_settings items') key' ns' = stored_override f key' ns'"
    using assms(3) by (simp add: stored_override_def)
qed (use assms(4) written_settings_ok stored_written in auto)

lemma scoped_record:
  assumes "settings_items_ok items"
  obtains rs where "(case map_of items (KStr key) of
       None \<Rightarrow> Inr [] | Some (VDict i rs) \<Rightarrow> Inr rs | Some _ \<Rightarrow> Inl SettingsCrash) = Inr rs"
    "scope_record_ok rs" "\<And>ns. override_of items key ns = (case map_of rs (KStr ns) of Some (VDict j kvs) \<Rightarrow> kvs | _ \<Rightarrow> [])"
    "map_of items (KStr key) = None \<Longrightarrow> rs = []"
proof (cases "map_of items (KStr key)")
  case None
  then show ?thesis using that [of "[]"] by (simp add: scope_record_ok_def json_items_def override_of_def)
next
  case (Some v)
  obtain i rs where r: "v = VDict i rs" "scope_record_ok rs"
    using record_in [OF assms Some] unfolding scope_record_ok_def by metis
  then show ?thesis using that [of rs] Some by (simp add: override_of_def)
qed

lemma override_of_put:
  assumes "\<And>ns. override_of items key ns = (case map_of rs (KStr ns) of Some (VDict j kvs) \<Rightarrow> kvs | _ \<Rightarrow> [])"
  shows "override_of (AList.update (KStr key) (VDict None (AList.update (KStr ns) (VDict None kvs) rs)) items) key' ns' =
      (if (key', ns') = (key, ns) then kvs else override_of items key' ns')"
    "override_of (AList.update (KStr key) (VDict None (AList.delete (KStr ns) rs)) items) key' ns' =
      (if (key', ns') = (key, ns) then [] else override_of items key' ns')"
  using assms [of ns'] by (auto simp: override_of_def map_of_update map_of_delete)

lemma override_of_drop:
  assumes "\<And>ns. override_of items key ns = (case map_of rs (KStr ns) of Some (VDict j kvs) \<Rightarrow> kvs | _ \<Rightarrow> [])"
    and "AList.delete (KStr ns) rs = []"
  shows "override_of (AList.delete (KStr key) items) key' ns' = (if (key', ns') = (key, ns) then [] else override_of items key' ns')"
proof (cases "key' = key \<and> ns' \<noteq> ns")
  case True
  have "map_of (AList.delete (KStr ns) rs) (KStr ns') = None" using assms(2) by simp
  then have "map_of rs (KStr ns') = None" using True by (simp add: map_of_delete)
  then show ?thesis using True assms(1) [of ns'] by (simp add: override_of_def map_of_delete)
qed (auto simp: override_of_def map_of_delete)

subsection \<open>Resolution\<close>

text \<open>Keys tell scopes apart, and the chain of a scope leads from above to the scope itself.\<close>

definition scopes_ok :: "'s scopes \<Rightarrow> bool" where
  "scopes_ok T \<longleftrightarrow>
     (\<forall>s t. scope_key T s = scope_key T t \<longrightarrow> s = t) \<and>
     (\<forall>s. \<exists>up. inheritance_chain T s = up @ [s] \<and> s \<notin> set up)"

definition setting_among :: "'s scopes \<Rightarrow> 's list \<Rightarrow> string \<Rightarrow> settings_file \<Rightarrow> string \<Rightarrow> (string \<times> pyval) option" where
  "setting_among T chain namespace f k =
     nearest (map (\<lambda>s. (scope_key T s, stored_override f (scope_key T s) namespace)) chain) (KStr k)"

definition setting_at :: "'s scopes \<Rightarrow> 's \<Rightarrow> string \<Rightarrow> settings_file \<Rightarrow> string \<Rightarrow> (string \<times> pyval) option" where
  "setting_at T c = setting_among T (inheritance_chain T c)"

lemma nearest_objects:
  assumes "settings_items_ok items" "read_settings f = Inr items"
  shows "nearest (layers_of T c namespace items None chain) k = map_option (map_prod id PyJson) (setting_among T chain namespace f k)"
proof (induction chain)
  case (Cons s chain)
  have "stored_override f (scope_key T s) namespace = override_of items (scope_key T s) namespace"
    using assms(2) by (simp add: stored_override_def)
  then show ?case
    using Cons json_items_override [OF assms(1), of "scope_key T s" namespace]
    by (auto simp: layers_of_def setting_among_def map_of_as_objects option.map_comp comp_def split: option.splits)
qed (simp add: layers_of_def setting_among_def)

lemma layers_dict_ok:
  assumes "settings_items_ok items" shows "\<forall>(key, d) \<in> set (layers_of T c namespace items None chain). dict_ok d"
  using json_items_override [OF assms] dict_ok_as_objects by (auto simp: layers_of_def)

lemma default_sources:
  fixes s :: "(string, string) dict"
  defines "step \<equiv> \<lambda>k (s :: (string, string) dict). if map_of s k = None then AList.update k ''schema-default'' s else s"
  assumes "dict_ok s"
  shows "dict_ok (fold step ks s) \<and>
    map_of (fold step ks s) k = (if k \<in> set ks \<and> map_of s k = None then Some ''schema-default'' else map_of s k)"
  using assms(2)
proof (induction ks arbitrary: s)
  case (Cons x ks)
  have "dict_ok (step x s)" using Cons.prems by (simp add: step_def)
  from Cons.IH [OF this] show ?case by (auto simp: step_def map_of_update)
qed simp

lemma resolve_ok:
  assumes "settings_items_ok items" "read_settings f = Inr items" "settings_schema_of S namespace = Inr schema"
  shows "settings_resolve T S c namespace f =
    (let (merged, sources) = merge_layers (layers_of T c namespace items None (inheritance_chain T c)) ([], []) in
     case validate_settings schema namespace merged of Inl e \<Rightarrow> Inl e | Inr m \<Rightarrow>
     Inr \<lparr>sr_values = m,
          sr_sources = dict_sorted (fold (\<lambda>k s. if map_of s k = None then AList.update k ''schema-default'' s else s)
                         (public_field_names schema) sources),
          sr_chain = map (scope_key T) (inheritance_chain T c)\<rparr>)"
  using assms by (simp add: settings_resolve_def merge_settings_def merge_chain_layers split_def Let_def)

lemma resolve_cong:
  assumes "settings_ok f" "settings_ok f'"
    and "\<forall>s \<in> set (inheritance_chain T c). stored_override f' (scope_key T s) namespace = stored_override f (scope_key T s) namespace"
  shows "settings_resolve T S c namespace f' = settings_resolve T S c namespace f"
proof (cases "settings_schema_of S namespace")
  case (Inl e)
  then show ?thesis by (simp add: settings_resolve_def)
next
  case (Inr schema)
  obtain items where i: "settings_items_ok items" "read_settings f = Inr items" using assms(1) by (auto simp: settings_ok_def)
  obtain items' where i': "settings_items_ok items'" "read_settings f' = Inr items'" using assms(2) by (auto simp: settings_ok_def)
  have "layers_of T c namespace items' None (inheritance_chain T c) = layers_of T c namespace items None (inheritance_chain T c)"
    using assms(3) i(2) i'(2) by (simp add: layers_of_def stored_override_def)
  then show ?thesis unfolding resolve_ok [OF i Inr] resolve_ok [OF i' Inr] by (simp only:)
qed

lemma resolve_nearest:
  assumes "settings_ok f" "settings_schema_of S namespace = Inr schema" "settings_resolve T S c namespace f = Inr r"
  shows "(\<exists>merged. dict_ok merged \<and> sc_validate schema merged = Inr (sr_values r) \<and>
       (\<forall>k. map_of merged k = map_option (PyJson \<circ> snd) (setting_at T c namespace f k)))
    \<and> (\<forall>k \<in> set (public_field_names schema). map_of (sr_sources r) k =
         Some (case setting_at T c namespace f k of Some (key, _) \<Rightarrow> key | None \<Rightarrow> ''schema-default''))
    \<and> sr_chain r = map (scope_key T) (inheritance_chain T c)"
proof -
  obtain items where i: "settings_items_ok items" "read_settings f = Inr items" using assms(1) by (auto simp: settings_ok_def)
  let ?L = "layers_of T c namespace items None (inheritance_chain T c)"
  obtain merged sources where m: "merge_layers ?L ([], []) = (merged, sources)" by fastforce
  let ?s = "fold (\<lambda>k s. if map_of s k = None then AList.update k ''schema-default'' s else s) (public_field_names schema) sources"
  have n: "dict_ok merged" "dict_ok sources"
      "map_of merged k = (case nearest ?L k of Some (_, v) \<Rightarrow> Some v | None \<Rightarrow> None)"
      "map_of sources k = (case nearest ?L k of Some (key, _) \<Rightarrow> Some key | None \<Rightarrow> None)" for k
    using merge_layers_nearest [OF layers_dict_ok [OF i(1)], of "([], [])" T c namespace "inheritance_chain T c"] m by (simp_all split: option.split)
  have near: "nearest ?L k = map_option (map_prod id PyJson) (setting_at T c namespace f k)" for k
    using nearest_objects [OF i] by (simp add: setting_at_def)
  obtain v where v: "validate_settings schema namespace merged = Inr v"
      "r = \<lparr>sr_values = v, sr_sources = dict_sorted ?s, sr_chain = map (scope_key T) (inheritance_chain T c)\<rparr>"
    using assms(3) m by (auto simp: resolve_ok [OF i assms(2)] split: sum.splits)
  have "sc_validate schema merged = Inr v"
    using v(1) by (auto simp: validate_settings_def Let_def split: if_splits sum.splits)
  moreover have "map_of merged k = map_option (PyJson \<circ> snd) (setting_at T c namespace f k)" for k
    by (cases "setting_at T c namespace f k") (auto simp: n(3) near)
  moreover have "map_of (sr_sources r) k =
         Some (case setting_at T c namespace f k of Some (key, _) \<Rightarrow> key | None \<Rightarrow> ''schema-default'')"
    if "k \<in> set (public_field_names schema)" for k
  proof -
    have "map_of (sr_sources r) k = map_of ?s k"
      unfolding v(2) settings_resolution.simps using map_of_dict_sorted [OF conjunct1 [OF default_sources [OF n(2)]]] by (rule fun_cong)
    then show ?thesis using default_sources [OF n(2)] that n(4) near by (auto split: option.splits)
  qed
  ultimately show ?thesis using n(1) v(2) by auto
qed

subsection \<open>What a change does to the file\<close>

definition set_canonical ::
  "'m settings_schema \<Rightarrow> 'm \<Rightarrow> (string, pyobj) dict \<Rightarrow> (pykey \<times> pyval) list" where
  "set_canonical schema m candidate = map (\<lambda>(k, v). (KStr k, v)) (filter (\<lambda>(k, v). k \<in> fst ` set candidate) (sc_dump schema m))"

lemma map_of_set_canonical:
  "map_of (set_canonical schema m candidate) (KStr k) = (if k \<in> fst ` set candidate then map_of (sc_dump schema m) k else None)"
proof -
  have "map_of (map (\<lambda>(k, v). (KStr k, v)) (filter (\<lambda>(k, v). k \<in> A) d)) (KStr k) = (if k \<in> A then map_of d k else None)"
    for A and d :: "(string, pyval) dict"
    by (induction d) auto
  then show ?thesis by (simp only: set_canonical_def)
qed

lemma json_items_set_canonical: "dict_ok (sc_dump schema m) \<Longrightarrow> json_items (set_canonical schema m candidate)"
proof -
  assume "dict_ok (sc_dump schema m)"
  then have "distinct (map fst (filter (\<lambda>(k, v). k \<in> fst ` set candidate) (sc_dump schema m)))"
    by (simp add: dict_ok_def distinct_map_filter)
  then have "distinct (map KStr (map fst (filter (\<lambda>(k, v). k \<in> fst ` set candidate) (sc_dump schema m))))"
    by (simp only: distinct_map [of KStr]) (simp add: inj_on_def)
  moreover have "map fst (set_canonical schema m candidate) = map KStr (map fst (filter (\<lambda>(k, v). k \<in> fst ` set candidate) (sc_dump schema m)))"
    by (auto simp: set_canonical_def)
  moreover have "KObj \<notin> fst ` set (set_canonical schema m candidate)" by (auto simp: set_canonical_def)
  ultimately show ?thesis by (simp only: json_items_def simp_thms)
qed

lemma dom_candidate:
  "fst ` set (fold (\<lambda>(k, v). AList.update k v) supplied d) = fst ` set supplied \<union> fst ` set d"
proof (induction supplied arbitrary: d)
  case (Cons e supplied)
  obtain k v where e: "e = (k, v)" by fastforce
  show ?case using Cons [of "AList.update k v d"] unfolding e by (simp add: dom_update)
qed simp

lemma set_section_effect:
  assumes "settings_ok f" "\<forall>m. dict_ok (sc_dump schema m)"
    and "set_section T schema c ns supplied f = (out, f')"
  shows "(\<exists>e. out = Inl e) \<and> f' = f \<or>
    (\<exists>m. out = Inr m \<and> settings_ok f'
      \<and> (\<forall>key' ns'. (key', ns') \<noteq> (scope_key T c, ns) \<longrightarrow> stored_override f' key' ns' = stored_override f key' ns')
      \<and> (\<forall>k. map_of (stored_override f' (scope_key T c) ns) (KStr k) =
          (if k \<in> fst ` set supplied \<or> map_of (stored_override f (scope_key T c) ns) (KStr k) \<noteq> None
           then map_option canon (map_of (sc_dump schema m) k) else None)))"
proof -
  obtain items where i: "settings_items_ok items" "canon_items items = items" "read_settings f = Inr items"
    using assms(1) by (auto simp: settings_ok_def)
  let ?key = "scope_key T c"
  obtain rs where rs: "(case map_of items (KStr ?key) of
       None \<Rightarrow> Inr [] | Some (VDict i rs) \<Rightarrow> Inr rs | Some _ \<Rightarrow> Inl SettingsCrash) = Inr rs"
    "scope_record_ok rs" "\<And>ns. override_of items ?key ns = (case map_of rs (KStr ns) of Some (VDict j kvs) \<Rightarrow> kvs | _ \<Rightarrow> [])"
    using scoped_record [OF i(1), of ?key] by metis
  have o: "override_in ?key ns rs = Inr (override_of items ?key ns)"
    using override_in_of rs(2,3) unfolding scope_record_ok_def by simp
  let ?cand = "fold (\<lambda>(k, v). AList.update k v) supplied (as_objects (override_of items ?key ns))"
  have stored: "stored_override f ?key ns = override_of items ?key ns" using i(3) by (simp add: stored_override_def)
  have cand: "k \<in> fst ` set ?cand \<longleftrightarrow> k \<in> fst ` set supplied \<or> map_of (stored_override f ?key ns) (KStr k) \<noteq> None" for k
    using map_of_as_objects [OF json_items_override [OF i(1)], of ?key ns k]
      map_of_eq_None_iff [of "as_objects (override_of items ?key ns)" k]
    unfolding stored dom_candidate Un_iff by (metis option.map_disc_iff)
  show ?thesis
  proof (cases out)
    case (Inl e)
    then show ?thesis
      using assms(3) i(3) rs(1) o by (auto simp: set_section_def Let_def split: sum.splits prod.splits)
  next
    case (Inr m)
    let ?items' = "AList.update (KStr ?key) (VDict None (AList.update (KStr ns) (VDict None (set_canonical schema m ?cand)) rs)) items"
    have w: "f' = write_settings ?items'"
      using assms(3) i(3) rs(1) o Inr by (auto simp: set_section_def Let_def set_canonical_def split: sum.splits prod.splits)
    have j: "json_items (set_canonical schema m ?cand)" by (rule json_items_set_canonical [OF spec [OF assms(2)]])
    let ?new = "write_settings ?items'"
    have "settings_ok ?new
      \<and> (\<forall>key' ns'. (key', ns') \<noteq> (?key, ns) \<longrightarrow> stored_override ?new key' ns' = stored_override f key' ns')
      \<and> stored_override ?new ?key ns = canon_items (override_of ?items' ?key ns)"
      by (rule write_effect [OF i items_ok_update [OF i(1) scope_record_ok_update [OF rs(2) j]]])
        (simp only: override_of_put(1) [OF rs(3)] if_False)
    then show ?thesis
      unfolding w using Inr cand j by (simp add: override_of_put(1) [OF rs(3)] map_of_canon_items map_of_set_canonical)
  qed
qed

text \<open>
  The model a set validates is that of the values supplied over those the scope resolved to before: a supplied
  value wins over everything, and every other field keeps its nearest value.
\<close>

definition set_over :: "(string, pyobj) dict \<Rightarrow> (string \<Rightarrow> pyobj option) \<Rightarrow> string \<Rightarrow> pyobj option" where
  "set_over supplied old k = (case map_of supplied k of Some v \<Rightarrow> Some v | None \<Rightarrow> old k)"

lemma set_section_model:
  assumes "scopes_ok T" "settings_ok f" "dict_ok supplied" "set_section T schema c ns supplied f = (Inr m, f')"
  shows "\<exists>merged. dict_ok merged \<and> sc_validate schema merged = Inr m \<and> fst ` set merged \<subseteq> set (public_field_names schema)
    \<and> map_of merged = set_over supplied (\<lambda>k. map_option (PyJson \<circ> snd) (setting_at T c ns f k))"
proof -
  obtain items where i: "settings_items_ok items" "canon_items items = items" "read_settings f = Inr items"
    using assms(2) by (auto simp: settings_ok_def)
  let ?key = "scope_key T c"
  obtain rs where rs: "(case map_of items (KStr ?key) of
       None \<Rightarrow> Inr [] | Some (VDict i rs) \<Rightarrow> Inr rs | Some _ \<Rightarrow> Inl SettingsCrash) = Inr rs"
    "scope_record_ok rs" "\<And>ns. override_of items ?key ns = (case map_of rs (KStr ns) of Some (VDict j kvs) \<Rightarrow> kvs | _ \<Rightarrow> [])"
    using scoped_record [OF i(1), of ?key] by metis
  let ?o = "override_of items ?key ns"
  have o: "override_in ?key ns rs = Inr ?o"
    using override_in_of rs(2,3) unfolding scope_record_ok_def by simp
  let ?cand = "fold (\<lambda>(k, v). AList.update k v) supplied (as_objects ?o)"
  let ?items' = "AList.update (KStr ?key) (VDict None rs) items"
  have ok': "settings_items_ok ?items'" by (rule items_ok_update [OF i(1) rs(2)])
  have over: "override_of ?items' key' ns = override_of items key' ns" for key'
    using rs(3) [of ns] by (auto simp: override_of_def map_of_update)
  have cand: "dict_ok ?cand" "map_of ?cand = map_of (as_objects ?o) ++ map_of supplied"
    using fold_update_dict [OF dict_ok_as_objects [OF json_items_override [OF i(1)]] assms(3)] by blast+
  obtain up where up: "inheritance_chain T c = up @ [c]" "c \<notin> set up" using assms(1) unfolding scopes_ok_def by blast
  have L: "layers_of T c ns ?items' (Some ?cand) (inheritance_chain T c) = layers_of T c ns items None up @ [(?key, ?cand)]"
    using up(2) over unfolding up(1) by (auto simp: layers_of_def)
  obtain merged sources where m: "merge_layers (layers_of T c ns items None up @ [(?key, ?cand)]) ([], []) = (merged, sources)" by fastforce
  have v: "validate_settings schema ns merged = Inr m"
    using assms(4) i(3) rs(1) o m by (auto simp: set_section_def Let_def merge_settings_def merge_chain_layers [OF ok'] L split: sum.splits)
  have "\<forall>(key, d) \<in> set (layers_of T c ns items None up @ [(?key, ?cand)]). dict_ok d"
    using layers_dict_ok [OF i(1), of T c ns up] cand(1) by auto
  from merge_layers_nearest [OF this, of "([], [])"] m have n: "dict_ok merged"
      "map_of merged k = (case nearest (layers_of T c ns items None up @ [(?key, ?cand)]) k of Some (_, v) \<Rightarrow> Some v | None \<Rightarrow> None)" for k
    by (simp_all split: option.split)
  have stored: "stored_override f ?key ns = ?o" using i(3) by (simp add: stored_override_def)
  have at: "setting_at T c ns f k = (case map_of ?o (KStr k) of Some v \<Rightarrow> Some (?key, v) | None \<Rightarrow> setting_among T up ns f k)" for k
    unfolding setting_at_def setting_among_def up(1) stored [symmetric] by (auto simp: nearest_append split: option.split)
  have "map_of merged k = set_over supplied (\<lambda>k. map_option (PyJson \<circ> snd) (setting_at T c ns f k)) k" for k
    using nearest_objects [OF i(1,3), of T c ns up k] map_of_as_objects [OF json_items_override [OF i(1)], of ?key ns k]
    by (auto simp: n(2) nearest_append cand(2) map_add_def set_over_def at split: option.splits)
  moreover have "sc_validate schema merged = Inr m" "unknown_fields schema (map fst merged) = []"
    using v by (auto simp: validate_settings_def Let_def split: if_splits sum.splits)
  moreover from this(2) have "fst ` set merged \<subseteq> set (public_field_names schema)"
    unfolding unknown_fields_def sort_key_eq_Nil by (auto simp: filter_empty_conv)
  ultimately show ?thesis using n(1) by (intro exI [of _ merged]) auto
qed

definition cleared :: "string list option \<Rightarrow> string \<Rightarrow> bool" where
  "cleared named k = (case named of None \<Rightarrow> True | Some ks \<Rightarrow> k \<in> set ks)"

lemma clear_section_effect:
  assumes "settings_ok f" "clear_section T schema c ns named f = (out, f')"
  shows "(\<exists>e. out = Inl e) \<and> f' = f \<or>
    (\<exists>r. out = Inr r) \<and> settings_ok f'
      \<and> (\<forall>key' ns'. (key', ns') \<noteq> (scope_key T c, ns) \<longrightarrow> stored_override f' key' ns' = stored_override f key' ns')
      \<and> (\<forall>k. map_of (stored_override f' (scope_key T c) ns) (KStr k) =
          (if cleared named k then None else map_of (stored_override f (scope_key T c) ns) (KStr k)))"
proof -
  obtain items where i: "settings_items_ok items" "canon_items items = items" "read_settings f = Inr items"
    using assms(1) by (auto simp: settings_ok_def)
  let ?key = "scope_key T c"
  let ?o = "override_of items ?key ns"
  obtain rs where rs: "(case map_of items (KStr ?key) of
       None \<Rightarrow> Inr [] | Some (VDict i rs) \<Rightarrow> Inr rs | Some _ \<Rightarrow> Inl SettingsCrash) = Inr rs"
    "scope_record_ok rs" "\<And>ns. override_of items ?key ns = (case map_of rs (KStr ns) of Some (VDict j kvs) \<Rightarrow> kvs | _ \<Rightarrow> [])"
    using scoped_record [OF i(1), of ?key] by metis
  have o: "override_in ?key ns rs = Inr ?o"
    using override_in_of rs(2,3) unfolding scope_record_ok_def by simp
  let ?changed = "case named of None \<Rightarrow> map (key_text \<circ> fst) ?o | Some ks \<Rightarrow> ks"
  let ?cand = "filter (\<lambda>(k, v). key_text k \<notin> set ?changed) ?o"
  let ?rec = "if ?cand \<noteq> [] then AList.update (KStr ns) (VDict None ?cand) rs else AList.delete (KStr ns) rs"
  let ?items' = "if ?rec = [] then AList.delete (KStr ?key) items else AList.update (KStr ?key) (VDict None ?rec) items"
  have jo: "json_items ?o" by (rule json_items_override [OF i(1)])
  have stored: "stored_override f ?key ns = ?o" using i(3) by (simp add: stored_override_def)
  have canonical: "canon_items ?o = ?o" using override_of_canon [OF i(1)] i(2) by simp
  show ?thesis
  proof (cases out)
    case (Inl e)
    then show ?thesis
      using assms(2) i(3) rs(1) o by (auto simp: clear_section_def Let_def split: sum.splits prod.splits if_splits)
  next
    case (Inr r)
    have w: "f' = write_settings ?items'"
      using assms(2) i(3) rs(1) o Inr by (auto simp: clear_section_def Let_def split: sum.splits prod.splits if_splits)
    have ok: "settings_items_ok ?items'"
      using items_ok_delete [OF i(1)] items_ok_update [OF i(1)] scope_record_ok_update [OF rs(2)] scope_record_ok_delete [OF rs(2)] json_items_filter [OF jo]
      by simp
    have over: "override_of ?items' key' ns' = (if (key', ns') = (?key, ns) then ?cand else override_of items key' ns')" for key' ns'
    proof (cases "?cand = []")
      case True
      then have r: "?rec = AList.delete (KStr ns) rs" by (simp only: if_False not_True_eq_False simp_thms)
      show ?thesis
        unfolding r using True override_of_drop [OF rs(3), of ns key' ns'] override_of_put(2) [OF rs(3), of ns key' ns']
        by (cases "AList.delete (KStr ns) rs = []") (simp_all only: if_True if_False simp_thms)
    next
      case False
      then have r: "?rec = AList.update (KStr ns) (VDict None ?cand) rs" by (simp only: if_True simp_thms)
      have "AList.update (KStr ns) (VDict None ?cand) rs \<noteq> []" using map_of_update by (metis map_of.simps(1) fun_upd_same option.distinct(1))
      then show ?thesis unfolding r using override_of_put(1) [OF rs(3), of ns ?cand key' ns'] by simp
    qed
    have kept: "map_of (canon_items ?cand) (KStr k) = (if cleared named k then None else map_of ?o (KStr k))" for k
    proof -
      have "map_of (canon_items ?cand) (KStr k) = map_option canon (map_of ?cand (KStr k))"
        by (rule map_of_canon_items [OF json_items_filter [OF jo]])
      also have "map_of ?cand (KStr k) = (if k \<in> set ?changed then None else map_of ?o (KStr k))"
        using map_of_filter_key [of "\<lambda>k. key_text k \<notin> set ?changed" ?o "KStr k"]
        unfolding key_text_def [of "KStr k"] pykey.case by simp
      also have "map_option canon (if k \<in> set ?changed then None else map_of ?o (KStr k)) =
          (if k \<in> set ?changed then None else map_of ?o (KStr k))"
        using map_of_canon_items [OF jo, of "KStr k"] canonical by simp
      also have "\<dots> = (if cleared named k then None else map_of ?o (KStr k))"
      proof (cases named)
        case None
        have "map_of ?o (KStr k) = None" if "k \<notin> set ?changed"
          using that None by (force simp: map_of_eq_None_iff key_text_def)
        then show ?thesis using None by (auto simp: cleared_def)
      qed (simp add: cleared_def)
      finally show ?thesis .
    qed
    have "settings_ok (write_settings ?items')
    \<and> (\<forall>key' ns'. (key', ns') \<noteq> (?key, ns) \<longrightarrow> stored_override (write_settings ?items') key' ns' = stored_override f key' ns')
    \<and> stored_override (write_settings ?items') ?key ns = canon_items (override_of ?items' ?key ns)"
      by (rule write_effect [OF i ok]) (simp only: over if_False)
    then show ?thesis unfolding w over stored using Inr kept by simp
  qed
qed

subsection \<open>Calls\<close>

definition schema_ok :: "'m settings_schema \<Rightarrow> bool" where
  "schema_ok schema \<longleftrightarrow> (\<forall>m. dict_ok (sc_dump schema m) \<and> set (public_field_names schema) \<subseteq> fst ` set (sc_dump schema m))"

definition schemas_ok :: "('m, 'w) settings_store \<Rightarrow> bool" where
  "schemas_ok S \<longleftrightarrow> (\<forall>(ns, schema) \<in> set (st_schemas S). schema_ok schema)"

lemma schema_of_ok: "schemas_ok S \<Longrightarrow> settings_schema_of S ns = Inr schema \<Longrightarrow> schema_ok schema"
  by (auto simp: settings_schema_of_def schemas_ok_def split: sum.splits option.splits dest!: map_of_SomeD)

lemma set_file:
  assumes "settings_set T S c ns supplied actor st = (out, st')"
  shows "fst st' = fst st \<and> (\<exists>e. out = Inl e) \<or>
    (\<exists>schema sec. settings_schema_of S ns = Inr schema \<and> unknown_fields schema (map fst supplied) = []
       \<and> set_section T schema c ns supplied (fst st) = (sec, fst st')
       \<and> (\<forall>r. out = Inr r \<longrightarrow> (\<exists>m. sec = Inr m) \<and> settings_resolve T S c ns (fst st') = Inr r))"
  using assms by (auto simp: settings_set_def Let_def split: sum.splits prod.splits if_splits)

lemma clear_file:
  assumes "settings_clear T S c ns named actor st = (out, st')"
  shows "fst st' = fst st \<and> (\<exists>e. out = Inl e) \<or>
    (\<exists>schema sec. settings_schema_of S ns = Inr schema
       \<and> clear_section T schema c ns named (fst st) = (sec, fst st')
       \<and> (\<forall>r. out = Inr r \<longrightarrow> (\<exists>m. sec = Inr m) \<and> settings_resolve T S c ns (fst st') = Inr r))"
  using assms by (auto simp: settings_clear_def Let_def split: sum.splits prod.splits if_splits)

datatype 's settings_call =
    SetAt 's string "(string, pyobj) dict" "string option"
  | ClearAt 's string "string list option" "string option"

fun run_settings_call :: "'s scopes \<Rightarrow> ('m, 'w) settings_store \<Rightarrow> 's settings_call \<Rightarrow> settings_file \<times> 'w \<Rightarrow> settings_file \<times> 'w" where
  "run_settings_call T S (SetAt c ns supplied actor) st = snd (settings_set T S c ns supplied actor st)"
| "run_settings_call T S (ClearAt c ns named actor) st = snd (settings_clear T S c ns named actor st)"

fun call_scope :: "'s settings_call \<Rightarrow> 's" where
  "call_scope (SetAt c ns supplied actor) = c" | "call_scope (ClearAt c ns named actor) = c"

fun call_namespace :: "'s settings_call \<Rightarrow> string" where
  "call_namespace (SetAt c ns supplied actor) = ns" | "call_namespace (ClearAt c ns named actor) = ns"

lemma settings_call_effect:
  assumes "schemas_ok S" "settings_ok (fst st)"
  shows "settings_ok (fst (run_settings_call T S call st)) \<and>
    (\<forall>key' ns'. (key', ns') \<noteq> (scope_key T (call_scope call), call_namespace call) \<longrightarrow>
       stored_override (fst (run_settings_call T S call st)) key' ns' = stored_override (fst st) key' ns')"
proof (cases call)
  case (SetAt c ns supplied actor)
  obtain out st' where s: "settings_set T S c ns supplied actor st = (out, st')" by (rule prod.exhaust)
  from set_file [OF s] show ?thesis
  proof (elim disjE exE conjE)
    fix schema sec assume a: "settings_schema_of S ns = Inr schema" "set_section T schema c ns supplied (fst st) = (sec, fst st')"
    have "\<forall>m. dict_ok (sc_dump schema m)" using schema_of_ok [OF assms(1) a(1)] by (simp add: schema_ok_def)
    from set_section_effect [OF assms(2) this a(2)] show ?thesis using SetAt s assms(2) by auto
  qed (use SetAt s assms(2) in simp)
next
  case (ClearAt c ns named actor)
  obtain out st' where s: "settings_clear T S c ns named actor st = (out, st')" by (rule prod.exhaust)
  from clear_file [OF s] show ?thesis
  proof (elim disjE exE conjE)
    fix schema sec assume a: "clear_section T schema c ns named (fst st) = (sec, fst st')"
    from clear_section_effect [OF assms(2) a] show ?thesis using ClearAt s assms(2) by auto
  qed (use ClearAt s assms(2) in simp)
qed

subsection \<open>A concrete store\<close>

definition two_shops :: "bool option scopes" where
  "two_shops = \<lparr>scope_key = (\<lambda>s. case s of None \<Rightarrow> ''i'' | Some True \<Rightarrow> ''a'' | Some False \<Rightarrow> ''b''),
                inheritance_chain = (\<lambda>s. case s of None \<Rightarrow> [None] | Some x \<Rightarrow> [None, Some x])\<rparr>"

definition title_schema :: "pyobj option settings_schema" where
  "title_schema = \<lparr>sc_fields = [(''title'', None)], sc_validate = (\<lambda>d. Inr (map_of d ''title'')),
                   sc_dump = (\<lambda>m. [(''title'', case m of Some (PyJson v) \<Rightarrow> v | _ \<Rightarrow> VNull)]),
                   sc_attr = (\<lambda>m name. case m of Some v \<Rightarrow> v | None \<Rightarrow> PyJson VNull)\<rparr>"

definition shop_settings :: "(pyobj option, unit) settings_store" where
  "shop_settings = \<lparr>st_schemas = [(''shop'', title_schema)], st_sink = None\<rparr>"

definition titled :: settings_file where
  "titled = write_settings [(KStr ''a'', VDict None [(KStr ''shop'', VDict None [(KStr ''title'', VStr ''x'')])])]"

lemma two_shops_ok: "scopes_ok two_shops"
  by (auto simp: scopes_ok_def two_shops_def split: option.splits bool.splits)

lemma shop_settings_ok: "schemas_ok shop_settings"
  by (simp add: schemas_ok_def shop_settings_def schema_ok_def title_schema_def public_field_names_def public_field_name_def dict_ok_def)

lemma shop_schema: "settings_schema_of shop_settings ''shop'' = Inr title_schema"
  by (simp add: settings_schema_of_def validate_settings_namespace_def shop_settings_def Let_def)

lemma title_set: "settings_set two_shops shop_settings (Some True) ''shop'' [(''title'', PyJson (VStr ''x''))] None (None, ()) =
    (Inr \<lparr>sr_values = Some (PyJson (VStr ''x'')), sr_sources = [(''title'', ''a'')], sr_chain = [''i'', ''a'']\<rparr>, (titled, ()))"
  by code_simp

lemma titled_ok: "settings_ok titled"
  using settings_call_effect [OF shop_settings_ok, of "(None, ())" two_shops "SetAt (Some True) ''shop'' [(''title'', PyJson (VStr ''x''))] None"]
  by (simp add: title_set empty_settings_ok)

lemma titled_resolved: "settings_resolve two_shops shop_settings (Some True) ''shop'' titled =
    Inr \<lparr>sr_values = Some (PyJson (VStr ''x'')), sr_sources = [(''title'', ''a'')], sr_chain = [''i'', ''a'']\<rparr>"
  by code_simp

subsection \<open>Properties\<close>

text \<open>
  C9: settings stay where they were set. Whatever sets and clears run, and whether they succeed, are refused or end in
  an error of the audit sink, a resolution at a scope is the same as before in every namespace the calls did not name
  and wherever they named a scope that is not on the chain of the resolved one: a store never sees the settings of
  another store. The file stays well-formed.
\<close>

theorem settings_stay_in_scope:
  assumes "scopes_ok T" "schemas_ok S" "settings_ok (fst st)"
    and "\<forall>call \<in> set calls. call_namespace call = ns \<longrightarrow> call_scope call \<notin> set (inheritance_chain T t)"
  shows "settings_ok (fst (fold (run_settings_call T S) calls st))
    \<and> settings_resolve T S t ns (fst (fold (run_settings_call T S) calls st)) = settings_resolve T S t ns (fst st)"
  using assms(3,4)
proof (induction calls arbitrary: st)
  case (Cons call calls)
  let ?st = "run_settings_call T S call st"
  note e = settings_call_effect [OF assms(2) Cons.prems(1), of T call]
  have "stored_override (fst ?st) (scope_key T s) ns = stored_override (fst st) (scope_key T s) ns"
    if "s \<in> set (inheritance_chain T t)" for s
  proof -
    have "(scope_key T s, ns) \<noteq> (scope_key T (call_scope call), call_namespace call)"
    proof (cases "call_namespace call = ns")
      case True
      then have "s \<noteq> call_scope call" using that Cons.prems(2) by auto
      then have "scope_key T s \<noteq> scope_key T (call_scope call)" using assms(1) unfolding scopes_ok_def by blast
      then show ?thesis by simp
    qed simp
    from conjunct2 [OF e, rule_format, OF this] show ?thesis .
  qed
  then have "settings_resolve T S t ns (fst ?st) = settings_resolve T S t ns (fst st)"
    by (intro resolve_cong [OF Cons.prems(1) conjunct1 [OF e]] ballI)
  then show ?case using Cons.IH [of ?st] e Cons.prems(2) by simp
qed simp

theorem settings_stay_in_scope_witness:
  "settings_resolve two_shops shop_settings (Some False) ''shop''
     (fst (run_settings_call two_shops shop_settings (SetAt (Some True) ''shop'' [(''title'', PyJson (VStr ''x''))] None) (None, ())))
   = settings_resolve two_shops shop_settings (Some False) ''shop'' None"
  using settings_stay_in_scope [OF two_shops_ok shop_settings_ok, of "(None, ())"
      "[SetAt (Some True) ''shop'' [(''title'', PyJson (VStr ''x''))] None]" "''shop''" "Some False"]
  by (simp add: empty_settings_ok two_shops_def)

text \<open>
  C28: a resolution takes each field from the nearest scope. The values it returns are the schema's model of exactly the
  fields that some scope of the chain sets, each with the value of the scope closest to the resolved one, and the
  source it names for a field is that scope, or the default of the schema where no scope sets it.
\<close>

theorem resolution_is_nearest:
  assumes "settings_ok f" "settings_schema_of S ns = Inr schema" "settings_resolve T S c ns f = Inr r"
  shows "(\<exists>merged. dict_ok merged \<and> sc_validate schema merged = Inr (sr_values r) \<and>
       (\<forall>k. map_of merged k = map_option (PyJson \<circ> snd) (setting_at T c ns f k)))
    \<and> (\<forall>k \<in> set (public_field_names schema). map_of (sr_sources r) k =
         Some (case setting_at T c ns f k of Some (key, _) \<Rightarrow> key | None \<Rightarrow> ''schema-default''))
    \<and> sr_chain r = map (scope_key T) (inheritance_chain T c)"
  by (rule resolve_nearest [OF assms])

theorem resolution_is_nearest_witness:
  "\<exists>merged. dict_ok merged \<and> sc_validate title_schema merged = Inr (Some (PyJson (VStr ''x''))) \<and>
     (\<forall>k. map_of merged k = map_option (PyJson \<circ> snd) (setting_at two_shops (Some True) ''shop'' titled k))"
  using resolution_is_nearest [OF titled_ok shop_schema titled_resolved] by simp

text \<open>The fields of a scope come first, those it does not set are inherited.\<close>

lemma setting_at_own:
  assumes "scopes_ok T"
  shows "setting_at T c ns f k =
    (case map_of (stored_override f (scope_key T c) ns) (KStr k) of
       Some v \<Rightarrow> Some (scope_key T c, v) | None \<Rightarrow> setting_among T (butlast (inheritance_chain T c)) ns f k)"
proof -
  obtain up where "inheritance_chain T c = up @ [c]" using assms unfolding scopes_ok_def by blast
  then show ?thesis by (auto simp: setting_at_def setting_among_def nearest_append split: option.splits)
qed

lemma setting_above_kept:
  assumes "scopes_ok T"
    and "\<forall>key' ns'. (key', ns') \<noteq> (scope_key T c, ns) \<longrightarrow> stored_override f' key' ns' = stored_override f key' ns'"
  shows "setting_among T (butlast (inheritance_chain T c)) ns f' k = setting_among T (butlast (inheritance_chain T c)) ns f k"
proof -
  have "stored_override f' (scope_key T s) ns = stored_override f (scope_key T s) ns"
    if "s \<in> set (butlast (inheritance_chain T c))" for s
  proof -
    obtain up where "inheritance_chain T c = up @ [c]" "c \<notin> set up" using assms(1) unfolding scopes_ok_def by blast
    then have "s \<noteq> c" using that by auto
    then have "scope_key T s \<noteq> scope_key T c" using assms(1) unfolding scopes_ok_def by blast
    then show ?thesis using assms(2) by simp
  qed
  then show ?thesis
    unfolding setting_among_def by (intro arg_cong2 [where f = nearest] map_cong refl) simp
qed

text \<open>Where the scope has a field after a set, it is the dump of the validated model; elsewhere nothing changed.\<close>

lemma set_section_kept:
  assumes "scopes_ok T" "settings_ok f" "schema_ok schema" "set_section T schema c ns supplied f = (Inr m, f')"
    and "k \<in> fst ` set supplied \<or> map_of (stored_override f (scope_key T c) ns) (KStr k) \<noteq> None \<longrightarrow> k \<in> set (public_field_names schema)"
  shows "setting_at T c ns f' k =
    (if k \<in> fst ` set supplied \<or> map_of (stored_override f (scope_key T c) ns) (KStr k) \<noteq> None
     then Some (scope_key T c, canon (the (map_of (sc_dump schema m) k))) else setting_at T c ns f k)"
proof -
  have eff: "\<forall>key' ns'. (key', ns') \<noteq> (scope_key T c, ns) \<longrightarrow> stored_override f' key' ns' = stored_override f key' ns'"
      "map_of (stored_override f' (scope_key T c) ns) (KStr k) =
          (if k \<in> fst ` set supplied \<or> map_of (stored_override f (scope_key T c) ns) (KStr k) \<noteq> None
           then map_option canon (map_of (sc_dump schema m) k) else None)"
    using set_section_effect [OF assms(2) _ assms(4)] assms(3) unfolding schema_ok_def by blast+
  have "k \<in> set (public_field_names schema) \<Longrightarrow> \<exists>v. map_of (sc_dump schema m) k = Some v"
    using assms(3) unfolding schema_ok_def by (metis (no_types, lifting) map_of_eq_None_iff not_None_eq subsetD)
  then show ?thesis
    using assms(5) eff(2) setting_above_kept [OF assms(1) eff(1), of k] by (auto simp: setting_at_own [OF assms(1)])
qed

text \<open>
  C29: what was set is resolved and what was cleared is inherited. A set that returns validated one model, that of the
  supplied values over what the scope resolved to before, so a supplied value replaces an older one of the same
  scope. Afterwards each supplied field resolves to what that model dumps for it, with the scope itself as its source;
  fields the scope had before are those of the same model, and every other field resolves as before. After a clear
  that returns, each cleared field resolves to what the scopes above it say, with their source or the default of the
  schema, and every other field as before.
\<close>

theorem settings_change_resolves:
  assumes "scopes_ok T" "schemas_ok S" "settings_ok (fst st)" "settings_schema_of S ns = Inr schema" "dict_ok supplied"
  shows "(\<forall>r st'. settings_set T S c ns supplied actor st = (Inr r, st') \<longrightarrow>
      (\<exists>merged m. sc_validate schema merged = Inr m
        \<and> map_of merged = set_over supplied (\<lambda>k. map_option (PyJson \<circ> snd) (setting_at T c ns (fst st) k))
        \<and> (\<forall>k. setting_at T c ns (fst st') k =
             (if k \<in> fst ` set supplied \<or> map_of (stored_override (fst st) (scope_key T c) ns) (KStr k) \<noteq> None
              then Some (scope_key T c, canon (the (map_of (sc_dump schema m) k)))
              else setting_at T c ns (fst st) k))
        \<and> (\<forall>k \<in> fst ` set supplied. map_of (sr_sources r) k = Some (scope_key T c))))
    \<and> (\<forall>r st'. settings_clear T S c ns named actor st = (Inr r, st') \<longrightarrow>
      (\<forall>k. setting_at T c ns (fst st') k =
         (if cleared named k then setting_among T (butlast (inheritance_chain T c)) ns (fst st) k
          else setting_at T c ns (fst st) k)))"
proof (intro conjI allI impI)
  fix r st' assume s: "settings_set T S c ns supplied actor st = (Inr r, st')"
  obtain sec m where sec: "set_section T schema c ns supplied (fst st) = (Inr m, fst st')"
      "settings_resolve T S c ns (fst st') = Inr r"
    using set_file [OF s] assms(4) by auto
  have ok: "schema_ok schema" by (rule schema_of_ok [OF assms(2,4)])
  obtain merged where merged: "sc_validate schema merged = Inr m" "fst ` set merged \<subseteq> set (public_field_names schema)"
      "map_of merged = set_over supplied (\<lambda>k. map_option (PyJson \<circ> snd) (setting_at T c ns (fst st) k))"
    using set_section_model [OF assms(1,3,5) sec(1)] by blast
  note effect = set_section_kept [OF assms(1,3) ok sec(1)]
  have f': "settings_ok (fst st')"
    using settings_call_effect [OF assms(2,3), of T "SetAt c ns supplied actor"] s by simp
  let ?own = "\<lambda>k. k \<in> fst ` set supplied \<or> map_of (stored_override (fst st) (scope_key T c) ns) (KStr k) \<noteq> None"
  have known: "k \<in> set (public_field_names schema)" if own: "?own k" for k
  proof -
    have "map_of merged k \<noteq> None"
    proof (cases "k \<in> fst ` set supplied")
      case True
      then obtain v where "map_of supplied k = Some v" by (metis map_of_eq_None_iff not_None_eq)
      then show ?thesis unfolding merged(3) set_over_def by simp
    next
      case False
      then obtain v where "map_of (stored_override (fst st) (scope_key T c) ns) (KStr k) = Some v" using own by blast
      then have "setting_at T c ns (fst st) k = Some (scope_key T c, v)" by (simp only: setting_at_own [OF assms(1)] option.case)
      then show ?thesis unfolding merged(3) set_over_def by (simp split: option.split)
    qed
    then have "k \<in> fst ` set merged" unfolding map_of_eq_None_iff by (rule notnotD)
    then show ?thesis using merged(2) by (rule rev_subsetD)
  qed
  then have at: "setting_at T c ns (fst st') k =
      (if ?own k then Some (scope_key T c, canon (the (map_of (sc_dump schema m) k))) else setting_at T c ns (fst st) k)" for k
    using effect by blast
  moreover have "map_of (sr_sources r) k = Some (scope_key T c)" if "k \<in> fst ` set supplied" for k
    using resolve_nearest [OF f' assms(4) sec(2)] at [of k] known [of k] that by simp
  ultimately show "\<exists>merged m. sc_validate schema merged = Inr m
        \<and> map_of merged = set_over supplied (\<lambda>k. map_option (PyJson \<circ> snd) (setting_at T c ns (fst st) k))
        \<and> (\<forall>k. setting_at T c ns (fst st') k =
             (if k \<in> fst ` set supplied \<or> map_of (stored_override (fst st) (scope_key T c) ns) (KStr k) \<noteq> None
              then Some (scope_key T c, canon (the (map_of (sc_dump schema m) k)))
              else setting_at T c ns (fst st) k))
        \<and> (\<forall>k \<in> fst ` set supplied. map_of (sr_sources r) k = Some (scope_key T c))"
    using merged(1,3) by blast
next
  fix r st' k assume s: "settings_clear T S c ns named actor st = (Inr r, st')"
  obtain sec m where "clear_section T schema c ns named (fst st) = (Inr m, fst st')"
    using clear_file [OF s] assms(4) by auto
  from clear_section_effect [OF assms(3) this] have eff:
      "\<And>key' ns'. (key', ns') \<noteq> (scope_key T c, ns) \<Longrightarrow> stored_override (fst st') key' ns' = stored_override (fst st) key' ns'"
      "map_of (stored_override (fst st') (scope_key T c) ns) (KStr k) =
        (if cleared named k then None else map_of (stored_override (fst st) (scope_key T c) ns) (KStr k))" by auto
  have "setting_among T (butlast (inheritance_chain T c)) ns (fst st') k =
      setting_among T (butlast (inheritance_chain T c)) ns (fst st) k"
    using setting_above_kept [OF assms(1)] eff(1) by blast
  then show "setting_at T c ns (fst st') k =
         (if cleared named k then setting_among T (butlast (inheritance_chain T c)) ns (fst st) k
          else setting_at T c ns (fst st) k)"
    using eff(2) by (simp add: setting_at_own [OF assms(1)] split: option.split)
qed

text \<open>The shop that has a title is given another one.\<close>

theorem settings_change_resolves_witness:
  "setting_at two_shops (Some True) ''shop''
     (fst (snd (settings_set two_shops shop_settings (Some True) ''shop'' [(''title'', PyJson (VStr ''y''))] None (titled, ())))) ''title''
   = Some (''a'', VStr ''y'')"
proof -
  have d: "dict_ok [(''title'', PyJson (VStr ''y''))]" by (simp add: dict_ok_def)
  obtain r st' where s: "settings_set two_shops shop_settings (Some True) ''shop'' [(''title'', PyJson (VStr ''y''))] None (titled, ()) = (Inr r, st')"
  proof -
    have "(case fst (settings_set two_shops shop_settings (Some True) ''shop'' [(''title'', PyJson (VStr ''y''))] None (titled, ())) of
        Inl _ \<Rightarrow> False | Inr _ \<Rightarrow> True)" by code_simp
    then show thesis using that by (metis prod.collapse sum.case_eq_if sum.collapse(2))
  qed
  have ok: "settings_ok (fst (titled, ()))" using titled_ok by simp
  from conjunct1 [OF settings_change_resolves [OF two_shops_ok shop_settings_ok ok shop_schema d], rule_format, OF s]
  obtain merged m where m: "sc_validate title_schema merged = Inr m" "map_of merged ''title'' = Some (PyJson (VStr ''y''))"
      "setting_at two_shops (Some True) ''shop'' (fst st') ''title'' =
         Some (scope_key two_shops (Some True), canon (the (map_of (sc_dump title_schema m) ''title'')))"
    by (auto simp: set_over_def)
  then have "m = Some (PyJson (VStr ''y''))" by (simp add: title_schema_def)
  then show ?thesis using m(3) s by (simp add: title_schema_def two_shops_def)
qed

end
