(* ===== verification/Connection_Store_Safety.thy ===== *)
theory Connection_Store_Safety
  imports Connection_Store
begin

text \<open>
  The connection store keeps well-formed grants, its operations are exact on the grants of a package, and a grant
  made under an occupancy that has been revoked never appears again.
\<close>

subsection \<open>Well-formed registries\<close>

text \<open>
  The codec reads back what it writes, whatever the order of members; a connection carries the id of its package, and
  no package id contains a colon.
\<close>

definition connection_codec_ok :: "'c connection_env \<Rightarrow> bool" where
  "connection_codec_ok E \<longleftrightarrow>
     (\<forall>c. ce_validate E (ce_dump E c) = Some c \<and> (\<exists>i kvs. ce_dump E c = VDict i kvs) \<and> ce_owner_ok E (ce_owner E c))
     \<and> (\<forall>v. ce_validate E (canon v) = ce_validate E v)
     \<and> (\<forall>owner. ce_owner_ok E owner \<longrightarrow> CHR '':'' \<notin> set owner)"

definition grant_ok :: "'c connection_env \<Rightarrow> pykey \<times> pyval \<Rightarrow> bool" where
  "grant_ok E e \<longleftrightarrow>
     (\<exists>c i kvs. e = (KStr (connection_key (ce_owner E c) (ce_id E c)), VDict i kvs) \<and> ce_validate E (VDict i kvs) = Some c)"

definition connections_ok :: "'c connection_env \<Rightarrow> connection_registry \<Rightarrow> bool" where
  "connections_ok E r \<longleftrightarrow>
     json_items (cn_connections r) \<and> (\<forall>e \<in> set (cn_connections r). grant_ok E e)
     \<and> dict_ok (cn_generations r) \<and> (\<forall>(owner, n) \<in> set (cn_generations r). ce_owner_ok E owner \<and> 0 \<le> n)"

definition grants_ok :: "'c connection_env \<Rightarrow> connection_file \<Rightarrow> bool" where
  "grants_ok E f \<longleftrightarrow> (\<exists>r. read_connections E f = Inr r \<and> connections_ok E r)"

lemma empty_grants_ok: "grants_ok E None"
  by (simp add: grants_ok_def read_connections_def empty_connections_def known_version_def CONNECTION_REGISTRY_VERSION_def
      stored_generations_def connections_ok_def json_items_def)

lemma canonical_generations_fold:
  assumes "\<forall>(owner, n) \<in> set gs. ce_owner_ok E owner \<and> 0 \<le> n"
  shows "canonical_generations E acc (map (\<lambda>(k, n). (KStr k, VInt n)) gs) = Inr (fold (\<lambda>(k, n). AList.update k n) gs acc)"
  using assms by (induction gs arbitrary: acc) (auto simp: require_generation_def)

lemma canon_generations:
  "canon_items (map (\<lambda>(k, n). (KStr k, VInt n)) gs) = map (\<lambda>(k, n). (KStr k, VInt n)) (dict_sorted gs)"
proof -
  have "map (\<lambda>(k, v). (k, canon v)) (map (\<lambda>(k, n). (KStr k, VInt n)) gs) = map (\<lambda>(k, n). (KStr k, VInt n)) gs"
    by (induction gs) auto
  moreover have "(\<lambda>x. case case x of (k, n) \<Rightarrow> (KStr k, VInt n) of (k, v) \<Rightarrow> key_text k) = fst"
    by (auto simp: key_text_def)
  ultimately show ?thesis unfolding canon_items_def dict_sorted_def by (simp only: sort_key_map)
qed

definition same_grants :: "connection_registry \<Rightarrow> connection_registry \<Rightarrow> bool" where
  "same_grants r' r \<longleftrightarrow>
     (\<forall>k. map_of (cn_connections r') k = map_option canon (map_of (cn_connections r) k))
     \<and> map_of (cn_generations r') = map_of (cn_generations r)"

lemma grant_ok_canon:
  assumes "connection_codec_ok E" "grant_ok E (k, v)" shows "grant_ok E (k, canon v)"
proof -
  obtain c i kvs where g: "k = KStr (connection_key (ce_owner E c) (ce_id E c))" "v = VDict i kvs" "ce_validate E v = Some c"
    using assms(2) by (auto simp: grant_ok_def)
  have "ce_validate E (canon v) = Some c" using assms(1) g(3) unfolding connection_codec_ok_def by metis
  then show ?thesis unfolding grant_ok_def using g(1,2) canon_VDict by metis
qed

lemma read_written_connections:
  assumes "connection_codec_ok E" "connections_ok E r"
  obtains r' where "read_connections E (write_connections r) = Inr r'" "connections_ok E r'" "same_grants r' r"
proof -
  let ?gs = "dict_sorted (cn_generations r)"
  let ?acc = "fold (\<lambda>(k, n). AList.update k n) ?gs []"
  let ?r' = "\<lparr>cn_connections = canon_items (cn_connections r), cn_generations = ?acc\<rparr>"
  have gs: "\<forall>(owner, n) \<in> set ?gs. ce_owner_ok E owner \<and> 0 \<le> n" and d: "dict_ok (cn_generations r)"
    using assms(2) by (auto simp: connections_ok_def)
  have acc: "dict_ok ?acc" "map_of ?acc = map_of (cn_generations r)"
    using fold_update_dict [OF dict_ok_Nil, of ?gs] d map_of_dict_sorted [OF d] by (simp_all only: dict_ok_sorted map_of.simps map_add_empty empty_map_add)
  have "set ?acc = set (cn_generations r)"
    using acc d by (intro set_map_of_eq)
  then have ok: "connections_ok E ?r'"
    using assms acc by (auto simp: connections_ok_def set_canon_items grant_ok_canon)
  have "canon_items [(KStr ''version'', VInt 2), (KStr ''connections'', VDict None (cn_connections r)),
        (KStr ''owner_generations'', VDict None (map (\<lambda>(k, n). (KStr k, VInt n)) (cn_generations r)))] =
      [(KStr ''connections'', VDict None (canon_items (cn_connections r))),
       (KStr ''owner_generations'', VDict None (map (\<lambda>(k, n). (KStr k, VInt n)) ?gs)), (KStr ''version'', VInt 2)]"
    by (simp add: canon_items_Cons canon_VDict canon_generations key_text_def del: canon.simps(2))
  then have "read_connections E (write_connections r) = Inr ?r'"
    using canonical_generations_fold [OF gs]
    by (simp add: read_connections_def write_connections_def canon_VDict CONNECTION_REGISTRY_VERSION_def known_version_def
        stored_generations_def del: canon.simps(2))
  moreover have "same_grants ?r' r"
    using assms(2) acc by (auto simp: same_grants_def connections_ok_def map_of_canon_items)
  ultimately show ?thesis using that ok by blast
qed

subsection \<open>Keys\<close>

lemma first_separator: "x \<notin> set a \<Longrightarrow> x \<notin> set b \<Longrightarrow> a @ x # s = b @ x # t \<longleftrightarrow> a = b \<and> s = t"
  by (induction a arbitrary: b) (case_tac b; auto)+

lemma connection_key_eq:
  assumes "connection_codec_ok E" "ce_owner_ok E o1" "ce_owner_ok E o2"
  shows "connection_key o1 i1 = connection_key o2 i2 \<longleftrightarrow> o1 = o2 \<and> i1 = i2"
  using assms by (simp add: connection_key_def connection_codec_ok_def first_separator)

lemma connection_key_owned:
  assumes "connection_codec_ok E" "ce_owner_ok E o1" "ce_owner_ok E o2"
  shows "owned_key (o2 @ '':'') (KStr (connection_key o1 i)) \<longleftrightarrow> o1 = o2"
  using assms by (auto simp: owned_key_def starts_with_iff connection_key_def connection_codec_ok_def first_separator)

subsection \<open>What the registry grants\<close>

definition grant_in :: "'c connection_env \<Rightarrow> connection_registry \<Rightarrow> string \<Rightarrow> string \<Rightarrow> 'c option" where
  "grant_in E r owner i =
     (case map_of (cn_connections r) (KStr (connection_key owner i)) of None \<Rightarrow> None | Some v \<Rightarrow> ce_validate E v)"

lemma same_grants_in:
  assumes "connection_codec_ok E" "same_grants r' r" shows "grant_in E r' = grant_in E r"
  using assms by (auto simp: grant_in_def same_grants_def connection_codec_ok_def fun_eq_iff split: option.splits)

lemma same_grants_generation: "same_grants r' r \<Longrightarrow> live_generation owner r' = live_generation owner r"
  by (simp add: same_grants_def live_generation_def)

lemma get_granted:
  assumes "read_connections E f = Inr r" "connections_ok E r"
  shows "get_connection E owner i f =
    (case grant_in E r owner i of
       None \<Rightarrow> Inl (ConnectionStoreError (''connection is not registered: '' @ owner @ ''/'' @ i)) | Some c \<Rightarrow> Inr c)"
proof (cases "map_of (cn_connections r) (KStr (connection_key owner i))")
  case (Some v)
  then have "grant_ok E (KStr (connection_key owner i), v)" using assms(2) map_of_SomeD by (fastforce simp: connections_ok_def)
  then show ?thesis using assms(1) Some by (auto simp: get_connection_def grant_in_def grant_ok_def)
qed (use assms in \<open>simp add: get_connection_def grant_in_def\<close>)

lemma occupancy_live:
  "read_connections E f = Inr r \<Longrightarrow> ce_owner_ok E owner \<Longrightarrow> occupancy_generation E owner f = Inr (live_generation owner r)"
  by (simp add: occupancy_generation_def owner_connection_prefix_def)

definition with_grant :: "'c connection_env \<Rightarrow> 'c \<Rightarrow> connection_registry \<Rightarrow> connection_registry" where
  "with_grant E c r =
     r\<lparr>cn_connections := AList.update (KStr (connection_key (ce_owner E c) (ce_id E c))) (ce_dump E c) (cn_connections r)\<rparr>"

definition without_owner :: "string \<Rightarrow> connection_registry \<Rightarrow> connection_registry" where
  "without_owner owner r =
     \<lparr>cn_connections = filter (\<lambda>(k, v). \<not> owned_key (owner @ '':'') k) (cn_connections r),
      cn_generations = AList.update owner (live_generation owner r + 1) (cn_generations r)\<rparr>"

lemma live_nonneg: "connections_ok E r \<Longrightarrow> 0 \<le> live_generation owner r"
  unfolding connections_ok_def live_generation_def by (auto split: option.splits dest: map_of_SomeD)

lemma with_grant_ok:
  assumes "connection_codec_ok E" "connections_ok E r" shows "connections_ok E (with_grant E c r)"
proof -
  obtain i kvs where "ce_dump E c = VDict i kvs" "ce_validate E (VDict i kvs) = Some c"
    using assms(1) unfolding connection_codec_ok_def by metis
  then have "grant_ok E (KStr (connection_key (ce_owner E c) (ce_id E c)), ce_dump E c)" by (auto simp: grant_ok_def)
  then show ?thesis
    using assms(2) set_update_subset [of "KStr (connection_key (ce_owner E c) (ce_id E c))" "ce_dump E c" "cn_connections r"]
    by (auto simp: connections_ok_def with_grant_def)
qed

lemma without_owner_ok:
  assumes "ce_owner_ok E owner" "connections_ok E r" shows "connections_ok E (without_owner owner r)"
  using assms(2) set_update_subset [of owner "live_generation owner r + 1" "cn_generations r"] live_nonneg [OF assms(2), of owner] assms(1)
  by (auto simp: connections_ok_def without_owner_def)

lemma grant_in_with_grant:
  assumes "connection_codec_ok E" "ce_owner_ok E owner"
  shows "grant_in E (with_grant E c r) owner i = (if owner = ce_owner E c \<and> i = ce_id E c then Some c else grant_in E r owner i)"
  using assms connection_key_eq [of E "ce_owner E c" owner "ce_id E c" i]
  by (auto simp: grant_in_def with_grant_def map_of_update connection_codec_ok_def)

lemma grant_in_without_owner:
  assumes "connection_codec_ok E" "ce_owner_ok E owner" "ce_owner_ok E o'"
  shows "grant_in E (without_owner owner r) o' i = (if o' = owner then None else grant_in E r o' i)"
  using connection_key_owned [OF assms(1,3,2), of i] by (simp add: grant_in_def without_owner_def map_of_filter_key)

lemma live_without_owner:
  "live_generation o' (without_owner owner r) = (if o' = owner then live_generation owner r + 1 else live_generation o' r)"
  by (simp add: live_generation_def without_owner_def map_of_update)

subsection \<open>Operations on well-formed stores\<close>

definition stale_grant :: "string \<Rightarrow> connection_error" where
  "stale_grant owner = ConnectionStoreError (''connection occupancy generation is stale: '' @ owner)"

lemma upsert_known:
  assumes "read_connections E f = Inr r"
  shows "upsert_connection E c (Some (VInt n)) f =
    (if n < 0 then (Inl (ConnectionStoreError ''invalid connection occupancy generation''), f)
     else if n \<noteq> live_generation (ce_owner E c) r then (Inl (stale_grant (ce_owner E c)), f)
     else (Inr c, write_connections (with_grant E c r)))"
  using assms by (simp add: upsert_connection_def require_generation_def Let_def stale_grant_def with_grant_def)

lemma upsert_fresh:
  "read_connections E f = Inr r \<Longrightarrow>
   upsert_connection E c None f = (Inr c, write_connections (with_grant E c r))"
  by (simp add: upsert_connection_def Let_def with_grant_def)

lemma upsert_outcome:
  assumes "read_connections E f = Inr r"
  shows "(\<exists>e. upsert_connection E c g f = (Inl e, f)) \<or>
    upsert_connection E c g f = (Inr c, write_connections (with_grant E c r)) \<and>
    (g = None \<or> g = Some (VInt (live_generation (ce_owner E c) r)))"
proof (cases g)
  case None
  then show ?thesis using upsert_fresh [OF assms] by simp
next
  case (Some v)
  then show ?thesis
    using upsert_known [OF assms] by (cases v) (auto simp: upsert_connection_def require_generation_def)
qed

lemma revoke_known:
  "read_connections E f = Inr r \<Longrightarrow> ce_owner_ok E owner \<Longrightarrow>
   revoke_owner E owner f =
     (Inr (length (filter (\<lambda>(k, v). owned_key (owner @ '':'') k) (cn_connections r))), write_connections (without_owner owner r))"
  by (simp add: revoke_owner_def owner_connection_prefix_def Let_def without_owner_def)

text \<open>What is in the file after a write.\<close>

lemma after_write:
  assumes "connection_codec_ok E" "connections_ok E r"
  obtains r' where "read_connections E (write_connections r) = Inr r'" "connections_ok E r'"
    "grant_in E r' = grant_in E r" "\<forall>owner. live_generation owner r' = live_generation owner r"
  by (rule read_written_connections [OF assms]) (blast intro: that same_grants_in [OF assms(1)] same_grants_generation)

lemma owned_connections_all:
  assumes "connection_codec_ok E" "ce_owner_ok E owner" "\<forall>e \<in> set kvs. grant_ok E e"
  shows "\<exists>cs. owned_connections E (owner @ '':'') kvs = Inr cs \<and>
    set cs = {c. \<exists>k v. (k, v) \<in> set kvs \<and> ce_validate E v = Some c \<and> ce_owner E c = owner}"
  using assms(3)
proof (induction kvs)
  case (Cons e kvs)
  obtain c i items where e: "e = (KStr (connection_key (ce_owner E c) (ce_id E c)), VDict i items)"
      "ce_validate E (VDict i items) = Some c"
    using Cons.prems by (auto simp: grant_ok_def)
  obtain cs where cs: "owned_connections E (owner @ '':'') kvs = Inr cs"
      "set cs = {c. \<exists>k v. (k, v) \<in> set kvs \<and> ce_validate E v = Some c \<and> ce_owner E c = owner}"
    using Cons by auto
  have "ce_owner_ok E (ce_owner E c)" using assms(1) by (simp add: connection_codec_ok_def)
  from connection_key_owned [OF assms(1) this assms(2), of "ce_id E c"] show ?case
    unfolding e(1) using e(2) cs(1) by (auto simp: cs(2))
qed simp

lemma granted_iff:
  assumes "connection_codec_ok E" "connections_ok E r"
  shows "(\<exists>k v. (k, v) \<in> set (cn_connections r) \<and> ce_validate E v = Some c \<and> ce_owner E c = owner)
    \<longleftrightarrow> ce_owner E c = owner \<and> grant_in E r owner (ce_id E c) = Some c" (is "?l \<longleftrightarrow> ?r")
proof
  assume ?l
  then obtain k v where kv: "(k, v) \<in> set (cn_connections r)" "ce_validate E v = Some c" "ce_owner E c = owner" by blast
  have "grant_ok E (k, v)" using assms(2) kv(1) by (auto simp: connections_ok_def)
  then have "k = KStr (connection_key owner (ce_id E c))" using kv(2,3) by (auto simp: grant_ok_def)
  then have "map_of (cn_connections r) (KStr (connection_key owner (ce_id E c))) = Some v"
    using assms(2) kv(1) by (simp add: connections_ok_def json_items_def)
  then show ?r using kv by (simp add: grant_in_def)
next
  assume ?r
  then show ?l by (auto simp: grant_in_def split: option.splits dest: map_of_SomeD)
qed

lemma list_granted:
  assumes "connection_codec_ok E" "read_connections E f = Inr r" "connections_ok E r" "ce_owner_ok E owner"
  shows "\<exists>cs. list_for_owner E owner f = Inr cs \<and> sorted (map (ce_id E) cs) \<and>
    set cs = {c. ce_owner E c = owner \<and> grant_in E r owner (ce_id E c) = Some c}"
proof -
  obtain cs where cs: "owned_connections E (owner @ '':'') (cn_connections r) = Inr cs"
      "set cs = {c. \<exists>k v. (k, v) \<in> set (cn_connections r) \<and> ce_validate E v = Some c \<and> ce_owner E c = owner}"
    using owned_connections_all [OF assms(1,4)] assms(3) unfolding connections_ok_def by blast
  then show ?thesis
    using assms granted_iff [OF assms(1,3)] by (auto simp: list_for_owner_def owner_connection_prefix_def)
qed

lemma upsert_exact:
  assumes "connection_codec_ok E" "grants_ok E f" "ce_owner_ok E owner" "upsert_connection E c g f = (out, f')"
  shows "grants_ok E f' \<and>
    (case out of
       Inl e \<Rightarrow> f' = f
     | Inr c' \<Rightarrow> c' = c \<and> (g \<noteq> None \<longrightarrow> map_sum id VInt (occupancy_generation E (ce_owner E c) f) = Inr (the g)) \<and>
         occupancy_generation E owner f' = occupancy_generation E owner f \<and>
         (\<forall>i. get_connection E owner i f' =
            (if owner = ce_owner E c \<and> i = ce_id E c then Inr c else get_connection E owner i f)))"
proof -
  obtain r where r: "read_connections E f = Inr r" "connections_ok E r" using assms(2) by (auto simp: grants_ok_def)
  have oc: "ce_owner_ok E (ce_owner E c)" using assms(1) by (simp add: connection_codec_ok_def)
  consider (refused) e where "upsert_connection E c g f = (Inl e, f)"
    | (made) "upsert_connection E c g f = (Inr c, write_connections (with_grant E c r))"
        "g = None \<or> g = Some (VInt (live_generation (ce_owner E c) r))"
    using upsert_outcome [OF r(1), of c g] by blast
  then show ?thesis
  proof cases
    case refused
    then show ?thesis using assms(2,4) by auto
  next
    case made
    note u = made(1) and g = made(2)
    have fw: "f' = write_connections (with_grant E c r)" using u assms(4) by simp
    obtain r' where r': "read_connections E f' = Inr r'" "connections_ok E r'" "grant_in E r' = grant_in E (with_grant E c r)"
        "\<forall>owner. live_generation owner r' = live_generation owner (with_grant E c r)"
      using after_write [OF assms(1) with_grant_ok [OF assms(1) r(2), of c]] unfolding fw by blast
    have "live_generation owner (with_grant E c r) = live_generation owner r"
      by (simp add: live_generation_def with_grant_def)
    then have "occupancy_generation E owner f' = occupancy_generation E owner f"
      using r r' assms(3) by (simp add: occupancy_live)
    moreover have "get_connection E owner i f' =
        (if owner = ce_owner E c \<and> i = ce_id E c then Inr c else get_connection E owner i f)" for i
      using r r' grant_in_with_grant [OF assms(1,3), of c r i] by (simp add: get_granted)
    ultimately show ?thesis
      using u g assms(4) r' occupancy_live [OF r(1) oc] by (auto simp: grants_ok_def)
  qed
qed

lemma revoke_exact:
  assumes "connection_codec_ok E" "grants_ok E f" "ce_owner_ok E owner" "ce_owner_ok E revoked"
    and "revoke_owner E revoked f = (out, f')"
  shows "grants_ok E f' \<and> (\<exists>n. out = Inr n) \<and>
    occupancy_generation E owner f' =
      map_sum id (\<lambda>n. if owner = revoked then n + 1 else n) (occupancy_generation E owner f) \<and>
    (\<forall>i. get_connection E owner i f' =
       (if owner = revoked then Inl (ConnectionStoreError (''connection is not registered: '' @ owner @ ''/'' @ i))
        else get_connection E owner i f))"
proof -
  obtain r where r: "read_connections E f = Inr r" "connections_ok E r" using assms(2) by (auto simp: grants_ok_def)
  have fw: "f' = write_connections (without_owner revoked r)" using revoke_known [OF r(1) assms(4)] assms(5) by simp
  obtain r' where r': "read_connections E f' = Inr r'" "connections_ok E r'" "grant_in E r' = grant_in E (without_owner revoked r)"
      "\<forall>owner. live_generation owner r' = live_generation owner (without_owner revoked r)"
    using after_write [OF assms(1) without_owner_ok [OF assms(4) r(2)]] unfolding fw by blast
  have "get_connection E owner i f' =
       (if owner = revoked then Inl (ConnectionStoreError (''connection is not registered: '' @ owner @ ''/'' @ i))
        else get_connection E owner i f)" for i
    using r r' grant_in_without_owner [OF assms(1,4,3), of r i] by (simp add: get_granted)
  moreover have "occupancy_generation E owner f' =
      map_sum id (\<lambda>n. if owner = revoked then n + 1 else n) (occupancy_generation E owner f)"
    using r r' assms(3) by (simp add: occupancy_live live_without_owner)
  ultimately show ?thesis using r' revoke_known [OF r(1) assms(4)] assms(5) by (auto simp: grants_ok_def)
qed

subsection \<open>Any sequence of calls\<close>

datatype 'c connection_call = Grant 'c "pyval option" | Revoke string

fun run_connection_call :: "'c connection_env \<Rightarrow> 'c connection_call \<Rightarrow> connection_file \<Rightarrow> connection_file" where
  "run_connection_call E (Grant c g) f = snd (upsert_connection E c g f)"
| "run_connection_call E (Revoke owner) f = snd (revoke_owner E owner f)"

text \<open>A grant that carries no generation, or one above \<open>n\<close>: a retry of a grant sampled when \<open>n\<close> was current is neither.\<close>

fun fresh_generation :: "int \<Rightarrow> pyval option \<Rightarrow> bool" where
  "fresh_generation n (Some (VInt m)) = (n < m)"
| "fresh_generation n g = True"

text \<open>The connection was granted afresh by one of the calls, and its package was not revoked since.\<close>

definition granted_afresh :: "'c connection_env \<Rightarrow> string \<Rightarrow> int \<Rightarrow> 'c connection_call list \<Rightarrow> 'c \<Rightarrow> bool" where
  "granted_afresh E owner n calls c \<longleftrightarrow>
     (\<exists>before g since. calls = before @ Grant c g # since \<and> fresh_generation n g \<and> Revoke owner \<notin> set since)"

lemma granted_afresh_last: "fresh_generation n g \<Longrightarrow> granted_afresh E owner n (calls @ [Grant c g]) c"
  unfolding granted_afresh_def by (intro exI [of _ calls] exI [of _ g] exI [of _ "[]"]) simp

lemma granted_afresh_snoc:
  "granted_afresh E owner n calls c \<Longrightarrow> call \<noteq> Revoke owner \<Longrightarrow> granted_afresh E owner n (calls @ [call]) c"
  unfolding granted_afresh_def by (elim exE conjE) (rule_tac x = before in exI, rule_tac x = g in exI, rule_tac x = "since @ [call]" in exI, simp)

text \<open>
  What holds of the package after \<open>calls\<close> that followed its revocation at generation \<open>n\<close>: the generation is past
  \<open>n\<close>, and whatever connection there is was granted afresh.
\<close>

definition vacated :: "'c connection_env \<Rightarrow> string \<Rightarrow> int \<Rightarrow> 'c connection_call list \<Rightarrow> connection_file \<Rightarrow> bool" where
  "vacated E owner n calls f \<longleftrightarrow>
     grants_ok E f \<and> (\<exists>g>n. occupancy_generation E owner f = Inr g) \<and>
     (\<forall>i. case get_connection E owner i f of
            Inl e \<Rightarrow> e = ConnectionStoreError (''connection is not registered: '' @ owner @ ''/'' @ i)
          | Inr c \<Rightarrow> ce_owner E c = owner \<and> ce_id E c = i \<and> granted_afresh E owner n calls c)"

lemma stale_upsert_refused:
  assumes "connection_codec_ok E" "vacated E owner n calls f" "ce_owner_ok E owner" "ce_owner E c = owner" "m \<le> n"
  shows "\<exists>e. upsert_connection E c (Some (VInt m)) f = (Inl e, f)"
proof -
  obtain r where r: "read_connections E f = Inr r" "connections_ok E r" using assms(2) by (auto simp: vacated_def grants_ok_def)
  then have "n < live_generation owner r" using assms(2,3) by (auto simp: vacated_def occupancy_live)
  then show ?thesis using upsert_known [OF r(1), of c m] assms(4,5) by auto
qed

lemma revoke_refused: "\<not> ce_owner_ok E owner \<Longrightarrow> snd (revoke_owner E owner f) = f"
  by (simp add: revoke_owner_def owner_connection_prefix_def)

lemma vacated_grant:
  assumes "connection_codec_ok E" "ce_owner_ok E owner" "vacated E owner n calls f"
  shows "vacated E owner n (calls @ [Grant c g]) (snd (upsert_connection E c g f))"
proof -
  obtain out f' where u: "upsert_connection E c g f = (out, f')" by fastforce
  have s: "grants_ok E f" and get: "case get_connection E owner i f of
      Inl e \<Rightarrow> e = ConnectionStoreError (''connection is not registered: '' @ owner @ ''/'' @ i)
    | Inr c' \<Rightarrow> ce_owner E c' = owner \<and> ce_id E c' = i \<and> granted_afresh E owner n (calls @ [Grant c g]) c'" for i
    using assms(3) granted_afresh_snoc [of E owner n calls _ "Grant c g"] by (auto simp: vacated_def split: sum.splits)
  note exact = upsert_exact [OF assms(1) s assms(2) u]
  show ?thesis
  proof (cases out)
    case (Inl e)
    then show ?thesis using exact u assms(3) get by (simp add: vacated_def)
  next
    case (Inr c')
    have "fresh_generation n g" if "ce_owner E c = owner"
    proof (rule ccontr)
      assume "\<not> fresh_generation n g"
      then obtain m where "g = Some (VInt m)" "m \<le> n" by (cases "(n, g)" rule: fresh_generation.cases) auto
      then show False using stale_upsert_refused [OF assms(1,3,2) that] u Inr by fastforce
    qed
    then show ?thesis
      using exact u assms(3) get Inr granted_afresh_last [of n g E owner calls c] by (auto simp: vacated_def)
  qed
qed

lemma vacated_revoke:
  assumes "connection_codec_ok E" "ce_owner_ok E owner" "vacated E owner n calls f"
  shows "vacated E owner n (calls @ [Revoke o']) (snd (revoke_owner E o' f))"
proof -
  obtain out f' where u: "revoke_owner E o' f = (out, f')" by fastforce
  have afresh: "o' \<noteq> owner \<Longrightarrow> granted_afresh E owner n calls c \<Longrightarrow> granted_afresh E owner n (calls @ [Revoke o']) c" for c
    by (rule granted_afresh_snoc) auto
  show ?thesis
  proof (cases "ce_owner_ok E o'")
    case True
    have s: "grants_ok E f" using assms(3) by (simp add: vacated_def)
    show ?thesis
      using revoke_exact [OF assms(1) s assms(2) True u] u assms(3) afresh by (auto simp: vacated_def split: sum.splits if_splits)
  next
    case False
    then have "o' \<noteq> owner" using assms(2) by auto
    with revoke_refused [OF False, of f] show ?thesis using assms(3) afresh by (auto simp: vacated_def split: sum.splits)
  qed
qed

lemma vacated_calls:
  assumes "connection_codec_ok E" "ce_owner_ok E owner" "vacated E owner n [] f"
  shows "vacated E owner n calls (fold (run_connection_call E) calls f)"
proof (induction calls rule: rev_induct)
  case (snoc call calls)
  then show ?case using vacated_grant [OF assms(1,2) snoc] vacated_revoke [OF assms(1,2) snoc] by (cases call) auto
qed (use assms(3) in simp)

subsection \<open>A concrete codec\<close>

definition desk_owner :: "bool \<times> string \<Rightarrow> string" where
  "desk_owner c = (if fst c then ''shop'' else ''blog'')"

definition desk_validate :: "pyval \<Rightarrow> (bool \<times> string) option" where
  "desk_validate v =
     (case v of
        VDict i kvs \<Rightarrow>
          if \<not> json_items kvs then None
          else (case (map_of kvs (KStr ''id''), map_of kvs (KStr ''owner'')) of
                  (Some (VStr i), Some (VStr p)) \<Rightarrow>
                    if p = ''shop'' then Some (True, i) else if p = ''blog'' then Some (False, i) else None
                | _ \<Rightarrow> None)
      | _ \<Rightarrow> None)"

definition desk_dump :: "bool \<times> string \<Rightarrow> pyval" where
  "desk_dump c = VDict None [(KStr ''owner'', VStr (desk_owner c)), (KStr ''id'', VStr (snd c))]"

definition desk_env :: "(bool \<times> string) connection_env" where
  "desk_env = \<lparr>ce_owner = desk_owner, ce_id = snd, ce_validate = desk_validate, ce_dump = desk_dump,
                ce_owner_ok = (\<lambda>p. p = ''shop'' \<or> p = ''blog'')\<rparr>"

lemma desk_validate_canon: "desk_validate (canon v) = desk_validate v"
proof (cases v)
  case (VDict i kvs)
  have "(case map_option canon x of Some (VStr s) \<Rightarrow> f s | _ \<Rightarrow> y) = (case x of Some (VStr s) \<Rightarrow> f s | _ \<Rightarrow> y)"
    for x and f :: "string \<Rightarrow> (bool \<times> string) option" and y
    by (cases x) (auto split: pyval.splits elim: canon.elims)
  then show ?thesis
    using map_of_canon_items [of kvs] unfolding VDict canon_VDict desk_validate_def
    by (auto split: option.splits pyval.splits elim: canon.elims)
qed (simp_all add: desk_validate_def)

lemma desk_codec_ok: "connection_codec_ok desk_env"
  by (simp add: connection_codec_ok_def desk_env_def desk_validate_canon)
    (auto simp: desk_dump_def desk_validate_def desk_owner_def json_items_def)

subsection \<open>Properties\<close>

text \<open>
  C27: a write to the store is refused and leaves the file alone, or it does exactly what it says. A grant is made only
  under the live generation of its package, changes no generation and no other grant. A revocation advances the
  generation of its package, takes away all of its grants and changes nothing of another package. A listing is the
  grants of the package in the order of their ids.
\<close>

theorem connection_grants_exact:
  assumes "connection_codec_ok E" "grants_ok E f" "ce_owner_ok E owner"
  shows "(\<forall>c g out f'. upsert_connection E c g f = (out, f') \<longrightarrow> grants_ok E f' \<and>
      (case out of
         Inl e \<Rightarrow> f' = f
       | Inr c' \<Rightarrow> c' = c \<and> (g \<noteq> None \<longrightarrow> map_sum id VInt (occupancy_generation E (ce_owner E c) f) = Inr (the g)) \<and>
           occupancy_generation E owner f' = occupancy_generation E owner f \<and>
           (\<forall>i. get_connection E owner i f' =
              (if owner = ce_owner E c \<and> i = ce_id E c then Inr c else get_connection E owner i f))))
    \<and> (\<forall>revoked out f'. ce_owner_ok E revoked \<longrightarrow> revoke_owner E revoked f = (out, f') \<longrightarrow> grants_ok E f' \<and> (\<exists>n. out = Inr n) \<and>
      occupancy_generation E owner f' =
        map_sum id (\<lambda>n. if owner = revoked then n + 1 else n) (occupancy_generation E owner f) \<and>
      (\<forall>i. get_connection E owner i f' =
         (if owner = revoked then Inl (ConnectionStoreError (''connection is not registered: '' @ owner @ ''/'' @ i))
          else get_connection E owner i f)))
    \<and> (\<exists>cs. list_for_owner E owner f = Inr cs \<and> sorted (map (ce_id E) cs) \<and>
      set cs = {c. ce_owner E c = owner \<and> get_connection E owner (ce_id E c) f = Inr c})"
proof (intro conjI allI impI)
  obtain r where r: "read_connections E f = Inr r" "connections_ok E r" using assms(2) by (auto simp: grants_ok_def)
  show "\<exists>cs. list_for_owner E owner f = Inr cs \<and> sorted (map (ce_id E) cs) \<and>
      set cs = {c. ce_owner E c = owner \<and> get_connection E owner (ce_id E c) f = Inr c}"
    using list_granted [OF assms(1) r assms(3)] get_granted [OF r, of owner] by (auto split: option.splits)
qed (use upsert_exact [OF assms] revoke_exact [OF assms] in \<open>blast+\<close>)

theorem connection_grants_exact_witness:
  "get_connection desk_env ''shop'' ''pay'' (snd (upsert_connection desk_env (True, ''pay'') None None)) = Inr (True, ''pay'')"
proof -
  obtain out f' where u: "upsert_connection desk_env (True, ''pay'') None None = (out, f')" by fastforce
  have "ce_owner_ok desk_env ''shop''" by (simp add: desk_env_def)
  note exact = conjunct1 [OF connection_grants_exact [OF desk_codec_ok empty_grants_ok this], rule_format, OF u]
  have "out = Inr (True, ''pay'')"
    using u empty_grants_ok [of desk_env] by (auto simp: grants_ok_def upsert_fresh)
  with exact show ?thesis using u by (simp add: desk_env_def desk_owner_def)
qed

text \<open>
  C6: once the grants of a package are revoked they stay revoked. Whatever calls follow, re-installations of the package
  with fresh grants and further revocations included, and in whatever order retries arrive, no grant under a generation
  that was current before the revocation is ever accepted, and a connection of the package that is found or listed was
  granted by one of those calls, without a generation or under one above the revoked, and after the last revocation
  among them.
\<close>

theorem revoked_grants_stay_revoked:
  assumes "connection_codec_ok E" "grants_ok E f" "ce_owner_ok E owner"
    and "occupancy_generation E owner f = Inr n"
    and "f' = fold (run_connection_call E) calls (snd (revoke_owner E owner f))"
  shows "(\<forall>c m. ce_owner E c = owner \<longrightarrow> m \<le> n \<longrightarrow> (\<exists>e. upsert_connection E c (Some (VInt m)) f' = (Inl e, f')))
    \<and> (\<forall>i. case get_connection E owner i f' of
             Inl e \<Rightarrow> e = ConnectionStoreError (''connection is not registered: '' @ owner @ ''/'' @ i)
           | Inr c \<Rightarrow> granted_afresh E owner n calls c)
    \<and> (\<exists>cs. list_for_owner E owner f' = Inr cs \<and> (\<forall>c \<in> set cs. granted_afresh E owner n calls c))
    \<and> (\<exists>m>n. occupancy_generation E owner f' = Inr m)"
proof -
  obtain out f1 where f1: "revoke_owner E owner f = (out, f1)" by fastforce
  have "vacated E owner n [] f1"
    using revoke_exact [OF assms(1-3,3) f1] assms(4) by (simp add: vacated_def)
  then have v: "vacated E owner n calls f'"
    using vacated_calls [OF assms(1,3)] f1 assms(5) by simp
  then obtain r where r: "read_connections E f' = Inr r" "connections_ok E r" by (auto simp: vacated_def grants_ok_def)
  have get: "granted_afresh E owner n calls c" if "get_connection E owner i f' = Inr c" for c i
    using v that by (auto simp: vacated_def dest: spec [of _ i])
  have "\<exists>cs. list_for_owner E owner f' = Inr cs \<and> (\<forall>c \<in> set cs. granted_afresh E owner n calls c)"
  proof -
    obtain cs where cs: "list_for_owner E owner f' = Inr cs"
        "set cs = {c. ce_owner E c = owner \<and> grant_in E r owner (ce_id E c) = Some c}"
      using list_granted [OF assms(1) r assms(3)] by blast
    have "get_connection E owner (ce_id E c) f' = Inr c" if "c \<in> set cs" for c
      using cs(2) that get_granted [OF r, of owner "ce_id E c"] by simp
    then show ?thesis using cs(1) get by blast
  qed
  moreover have "\<forall>i. case get_connection E owner i f' of
             Inl e \<Rightarrow> e = ConnectionStoreError (''connection is not registered: '' @ owner @ ''/'' @ i)
           | Inr c \<Rightarrow> granted_afresh E owner n calls c"
    using v by (auto simp: vacated_def split: sum.splits)
  ultimately show ?thesis using v stale_upsert_refused [OF assms(1) v assms(3)] by (auto simp: vacated_def)
qed

text \<open>A package removed and installed again: the retry of its first life is refused, the grant of its second stands.\<close>

definition ex_second_life :: "(bool \<times> string) connection_call list" where
  "ex_second_life =
     [Grant (True, ''pay'') (Some (VInt 0)), Grant (False, ''mail'') None, Grant (True, ''post'') (Some (VInt 1)), Revoke ''blog'',
      Grant (True, ''pay'') (Some (VInt 0))]"

theorem revoked_grants_stay_revoked_witness:
  "list_for_owner desk_env ''shop'' (fold (run_connection_call desk_env) ex_second_life (snd (revoke_owner desk_env ''shop'' None)))
     = Inr [(True, ''post'')]
   \<and> (\<exists>e. upsert_connection desk_env (True, ''pay'') (Some (VInt 0))
            (fold (run_connection_call desk_env) ex_second_life (snd (revoke_owner desk_env ''shop'' None)))
          = (Inl e, fold (run_connection_call desk_env) ex_second_life (snd (revoke_owner desk_env ''shop'' None))))"
proof
  have o: "ce_owner_ok desk_env ''shop''" by (simp add: desk_env_def)
  have n: "occupancy_generation desk_env ''shop'' None = Inr 0" by code_simp
  show "\<exists>e. upsert_connection desk_env (True, ''pay'') (Some (VInt 0))
            (fold (run_connection_call desk_env) ex_second_life (snd (revoke_owner desk_env ''shop'' None)))
          = (Inl e, fold (run_connection_call desk_env) ex_second_life (snd (revoke_owner desk_env ''shop'' None)))"
    using revoked_grants_stay_revoked [OF desk_codec_ok empty_grants_ok o n refl, of ex_second_life]
    by (simp add: desk_env_def desk_owner_def)
  show "list_for_owner desk_env ''shop'' (fold (run_connection_call desk_env) ex_second_life (snd (revoke_owner desk_env ''shop'' None)))
     = Inr [(True, ''post'')]"
    by code_simp
qed

end
