(* ===== verification/Spec2Isabelle.thy ===== *)
theory Spec2Isabelle
  imports Job_Runner_Safety Dependencies Operation_Journal_Safety Identity_Safety Cache Https_Gateway Pairing_Safety Render_Slots Event_Outbox_Safety Migrations_Safety Registries Audit_Safety Checkpoint_Anchor Package_Registry_Safety Package_Installation Settings_Safety Connection_Store_Safety
begin

text \<open>
  A verification of the core of plaik (Python, \<open>src/src/plaik_core\<close>).

  \<^bold>\<open>The program.\<close> plaik runs packages (modules and themes) inside one Core process. Core keeps durable
  stores (jobs, identities, sessions, an operation journal, remote-control records, pairing codes, an
  event outbox), in-process registries that packages use to collaborate (services, events, render
  slots), a cache, and the transactions that change what the host publishes. The components modelled
  here are those in which Core decides something; what it delegates (cryptography, SQL servers, web
  frameworks, version parsing) is a parameter.

  \<^bold>\<open>How the code is represented.\<close> A store is a record or an association list, and an operation is a
  function from arguments and state to a sum (the exception raised, or the result) paired with the new
  state. A section under a lock or a transaction is one atomic step; where the code leaves the lock in
  between, the sections are separate definitions and theorems quantify over the interleavings (cache,
  pairing, gateway, event bus, outbox). Clock readings, random values and identifiers are arguments.
  Times are microseconds in \<open>int\<close>. Strings are character lists, so text is limited to code points
  below 256. Loops are total functions: by structural recursion or with a measure (\<open>validate_loop\<close>,
  \<open>event_walk\<close>, \<open>dispatch_loop\<close>, \<open>drain_claimed\<close>), or with fuel that is proved to be enough (the install
  order search and the drain of jobs: the theorems on them state that the result is reached).

  \<^bold>\<open>Theories and sources.\<close>
  \<^item> \<open>Prelude\<close>, \<open>Py_Regex\<close>, \<open>Py_Json\<close>: Python dictionaries as association lists, strings, the regular
    expressions that occur in the sources with an executable matcher, and JSON values with the text
    \<open>json.dumps\<close> writes for them, which is unambiguous.
  \<^item> \<open>Job_Payload\<close>, \<open>Job_Queue\<close>, \<open>Job_Queue_Laws\<close>, \<open>Job_Queue_Safety\<close>, \<open>Job_Runner\<close>, \<open>Job_Runner_Safety\<close>
    (\<open>jobs.py\<close>): payload validation, the queue with leases and fencing tokens, the runner, and the
    delegation between two backends; the runner is proved over a locale of queue operations that the
    file queue and the delegating queue interpret.
  \<^item> \<open>Dependencies\<close> (\<open>dependencies.py\<close>): the install order as a depth-first search, exact and total.
  \<^item> \<open>Operation_Journal\<close>, \<open>Operation_Journal_Safety\<close> (\<open>operation_journal.py\<close>): the HMAC-chained journal;
    replay, monotone history, and two journals with one trusted head hash hold the same events.
  \<^item> \<open>Identity\<close>, \<open>Sessions\<close>, \<open>Identity_Safety\<close> (\<open>identity.py\<close>): users, roles, permissions, sessions.
  \<^item> \<open>Cache\<close> (\<open>cache.py\<close>): the namespaced cache with single-flight production under interleaving.
  \<^item> \<open>Installer\<close> (\<open>installer.py\<close>): the installer's state machine.
  \<^item> \<open>Hostname\<close>, \<open>Remote_Control\<close>, \<open>Remote_Control_Safety\<close> (\<open>remote_control.py\<close>): the remote-control record
    and store, refined to an abstract machine on statuses.
  \<^item> \<open>Https_Gateway\<close> (\<open>https_gateway.py\<close>): publication and containment against an arbitrary provider.
  \<^item> \<open>Pairing\<close>, \<open>Pairing_Safety\<close> (\<open>pairing.py\<close>): pairing codes under concurrent attempts.
  \<^item> \<open>Contracts\<close>, \<open>Services\<close>, \<open>Event_Bus\<close>, \<open>Event_Bus_Laws\<close>, \<open>Render_Slots\<close> (\<open>extension_runtime.py\<close>): the
    registries of extensions. The locale \<open>owner_switch\<close> is what each promises about pausing a package;
    it is interpreted on every registry.
  \<^item> \<open>Event_Outbox\<close>, \<open>Event_Outbox_Safety\<close> (\<open>event_outbox.py\<close>, \<open>envelope.py\<close>): the durable outbox and its
    dispatcher composed with the event bus.
  \<^item> \<open>Migrations\<close>, \<open>Migrations_Safety\<close> (\<open>migrations.py\<close>): the check of a statement, compared with the
    lexical rules of SQLite, and the runner with its ledger; a batch is all or nothing.
  \<^item> \<open>Hash_Chain\<close>: the locale of signed chains, interpreted by the operation journal and the audit log.
  \<^item> \<open>Audit_Log\<close>, \<open>Audit_Safety\<close> (\<open>audit.py\<close>): the audit log; its metadata, appends, and what a trusted head pins.
  \<^item> \<open>Integrity\<close>, \<open>Integrity_Safety\<close> (\<open>integrity.py\<close>): the store of trusted heads and its recovery epochs.
  \<^item> \<open>Checkpoint_Anchor\<close> (\<open>checkpoint_anchor.py\<close>): anchoring under interference of other workers, composed with
    the store and the audit log.
  \<^item> \<open>Registries\<close> (\<open>hooks.py\<close>, \<open>slots.py\<close>, \<open>health_issues.py\<close>): hooks, page slots and issues of health.
  \<^item> \<open>Package_Registry\<close>, \<open>Package_Registry_Safety\<close> (\<open>packages.py\<close>): the registry of packages; its calls keep
    what is enabled runnable, and an accepted batch is what is stored. The manifest codec is a parameter
    with the law that what it writes it reads back (\<open>codec_ok\<close>).
  \<^item> \<open>Package_Lifecycle\<close> (\<open>package_lifecycle.py\<close>): the package manager over a disk of package directories,
    stages, backups, intent files, registry and journal. A step is a function of the disk that ends, raises
    or is cut short by a crash, and the environment decides at each step which one happens, before or after
    the step took effect. \<open>Package_Lifecycle_Laws\<close> has a calculus of triples with a postcondition for each of
    the three outcomes and the triples of the single steps, \<open>Package_Lifecycle_Commit\<close> those of the
    transaction and its recovery, \<open>Package_Lifecycle_Safety\<close> those of install, update, enable, disable and
    uninstall against abstract steps on (registry, directories), and \<open>Package_Installation\<close> composes
    sequences of calls and crashes: a call is atomic up to recovery, and what recovery returns from is
    consistent, under any faults. An append to the journal that is cut short leaves a torn line (\<open>torn_append\<close>),
    which makes the journal unreadable and every later call raise. One fault is special: the write of the commit
    marker may raise after it has published the file, and the rollback that follows may be cut short; the disk this
    leaves (\<open>stranded\<close>) is the one exception in the statement on calls. \<open>published_commit_strands_recovery\<close> and
    \<open>stranded_recovery_accepts_partial_tree\<close> show what recovery makes of it.
  \<^item> \<open>Connection_Store\<close>, \<open>Connection_Store_Safety\<close> (\<open>connection_store.py\<close>): connections granted to packages, fenced by
    the generation of the package's occupancy; exact operations, and what a revocation means for everything after
    it, re-installations included. The codec of a connection is a parameter with the law \<open>connection_codec_ok\<close>.
  \<^item> \<open>Settings_Store\<close>, \<open>Settings_Safety\<close> (\<open>settings_store.py\<close>): typed settings under a hierarchy of scopes; resolution
    takes the nearest scope, and a set or clear is seen only where it should be. Scopes and schemas are parameters
    with the laws \<open>scopes_ok\<close> and \<open>schema_ok\<close>.

  \<^bold>\<open>Parameters.\<close> Hash and key-derivation functions, HMAC, the packaging library (\<open>packaging\<close>), the
  contracts package (\<open>contracts_package\<close>), gateway providers, handlers of events and jobs, and the
  effect of an SQL statement together with the errors of the SQLite driver. Theorems
  that rely on a law of one of them name it as a hypothesis, and a witness instantiates it: what handlers leave alone
  (\<open>handlers_quiet\<close>: the job queue, \<open>handlers_only_enqueue\<close>: the rows of the outbox, to which they may add, \<open>handlers_keep\<close>: the keys of the publishing
  owner, which only dropping that owner forgets), the codec laws above, \<open>envelope_laws\<close>, and no collision of the HMAC
  on the texts at hand (\<open>no_forgery\<close> for the logs that occur while a head is anchored).

  \<^bold>\<open>Not modelled.\<close> The operating system side of the stores (atomic file replacement, permissions, file
  locks: each store assumes that its locked read-modify-write is atomic), the HTTP applications and
  command lines over the components, the PostgreSQL adapters (their behaviour is the SQL they send to a
  server outside the sources), calls of cryptographic libraries, the archives of packages (the
  verifier is a parameter of the package manager), symbolic links below the package root, themes and
  backups. The manifest lists each with its reason.
\<close>

end
